(* ===== verification/Go_Prelude.thy ===== *)
theory Go_Prelude
  imports Complex_Main "HOL-Library.Word" "HOL-Library.Multiset"
begin

text \<open>
  Shared vocabulary of the development: Go's fixed-width integers, results that carry an
  error, and the parts of the Go standard library that several components call
  (\<^verbatim>\<open>slices.Insert\<close>, \<^verbatim>\<open>slices.Delete\<close>, \<^verbatim>\<open>sort.Search\<close>).

  Signed amounts are mathematical integers together with the range predicates
  \<open>in_int64\<close> and \<open>in_int32\<close>; wherever the Go code computes in a fixed
  width, the model applies \<open>wrap_int64\<close>, \<open>wrap_int32\<close> or
  \<open>wrap_uint64\<close>. Code that works bit by bit (total order ids, checksums, base32)
  uses the word types of HOL-Library.Word instead.
\<close>

unbundle bit_operations_syntax

section \<open>Types\<close>

type_synonym byte = "8 word"
type_synonym bytes = "byte list"

text \<open>A call that may fail: \<open>Inl\<close> the error it returns (or the panic it raises).\<close>

type_synonym ('e, 'a) result = "'e + 'a"

named_theorems int_range "range predicates and wrap-around of Go integers"
named_theorems slice_simps "slices.Insert, slices.Delete and list update"

section \<open>Fixed-width integers\<close>

definition MaxInt32 :: int where
  "MaxInt32 = 2147483647"

definition MaxInt64 :: int where
  "MaxInt64 = 9223372036854775807"

definition in_int32 :: "int \<Rightarrow> bool" where
  "in_int32 x \<longleftrightarrow> - 2147483648 \<le> x \<and> x \<le> 2147483647"

definition in_int64 :: "int \<Rightarrow> bool" where
  "in_int64 x \<longleftrightarrow> - 9223372036854775808 \<le> x \<and> x \<le> 9223372036854775807"

definition wrap_int32 :: "int \<Rightarrow> int" where
  "wrap_int32 x = (x + 2147483648) mod 4294967296 - 2147483648"

definition wrap_int64 :: "int \<Rightarrow> int" where
  "wrap_int64 x = (x + 9223372036854775808) mod 18446744073709551616 - 9223372036854775808"

definition wrap_uint64 :: "int \<Rightarrow> int" where
  "wrap_uint64 x = x mod 18446744073709551616"

section \<open>Slices\<close>

text \<open>\<^verbatim>\<open>slices.Insert(s, i, v)\<close> and \<^verbatim>\<open>slices.Delete(s, i, i+1)\<close> for an index in range.\<close>

definition slice_insert :: "'a list \<Rightarrow> nat \<Rightarrow> 'a \<Rightarrow> 'a list" where
  "slice_insert xs i v = take i xs @ v # drop i xs"

definition slice_delete :: "'a list \<Rightarrow> nat \<Rightarrow> 'a list" where
  "slice_delete xs i = take i xs @ drop (Suc i) xs"

text \<open>
  \<^verbatim>\<open>sort.Search(n, f)\<close>: the binary search of the standard library, with its loop
  variables \<open>i\<close> and \<open>j\<close>.
\<close>

function sort_Search_loop :: "(nat \<Rightarrow> bool) \<Rightarrow> nat \<Rightarrow> nat \<Rightarrow> nat" where
  "sort_Search_loop f i j =
     (if i < j
      then let h = (i + j) div 2 in
           if \<not> f h then sort_Search_loop f (h + 1) j else sort_Search_loop f i h
      else i)"
  by pat_completeness auto
termination
  by (relation "measure (\<lambda>(f, i, j). j - i)") auto

declare sort_Search_loop.simps [simp del]

definition sort_Search :: "nat \<Rightarrow> (nat \<Rightarrow> bool) \<Rightarrow> nat" where
  "sort_Search n f = sort_Search_loop f 0 n"

text \<open>Sequencing of calls that may fail.\<close>

definition bind_result :: "('e, 'a) result \<Rightarrow> ('a \<Rightarrow> ('e, 'b) result) \<Rightarrow> ('e, 'b) result" where
  "bind_result r f = (case r of Inl e \<Rightarrow> Inl e | Inr x \<Rightarrow> f x)"

lemma bind_result_Inr [simp]: "bind_result (Inr x) f = f x"
  by (simp add: bind_result_def)

lemma bind_result_Inl [simp]: "bind_result (Inl e) f = Inl e"
  by (simp add: bind_result_def)

lemma bind_result_eq_Inr: "bind_result r f = Inr y \<longleftrightarrow> (\<exists>x. r = Inr x \<and> f x = Inr y)"
  by (cases r) simp_all

section \<open>Lemmas on integers\<close>

lemma wrap_int64_id [simp, int_range]: "in_int64 x \<Longrightarrow> wrap_int64 x = x"
  by (simp add: in_int64_def wrap_int64_def)

lemma wrap_int64_in [simp, int_range]: "in_int64 (wrap_int64 x)"
  using pos_mod_bound [of 18446744073709551616 "x + 9223372036854775808"]
    pos_mod_sign [of 18446744073709551616 "x + 9223372036854775808"]
  by (simp only: in_int64_def wrap_int64_def) linarith

lemma wrap_int32_id [simp, int_range]: "in_int32 x \<Longrightarrow> wrap_int32 x = x"
  by (simp add: in_int32_def wrap_int32_def)

lemma wrap_int32_in [simp, int_range]: "in_int32 (wrap_int32 x)"
  using pos_mod_bound [of 4294967296 "x + 2147483648"] pos_mod_sign [of 4294967296 "x + 2147483648"]
  by (simp only: in_int32_def wrap_int32_def) linarith

lemma wrap_uint64_id [simp, int_range]:
  "0 \<le> x \<Longrightarrow> x < 18446744073709551616 \<Longrightarrow> wrap_uint64 x = x"
  by (simp add: wrap_uint64_def)

text \<open>Rounded division: the ceiling computed as \<open>(a + d - 1) div d\<close>.\<close>

lemma div_round_up_bounds:
  fixes a d :: int
  assumes "0 < d"
  shows "a \<le> ((a + d - 1) div d) * d" and "((a + d - 1) div d) * d < a + d"
proof -
  have "(a + d - 1) div d * d + (a + d - 1) mod d = a + d - 1" by simp
  moreover have "0 \<le> (a + d - 1) mod d" "(a + d - 1) mod d < d" using assms by simp_all
  ultimately show "a \<le> ((a + d - 1) div d) * d" and "((a + d - 1) div d) * d < a + d"
    by linarith+
qed

lemma div_round_down_bounds:
  fixes a d :: int
  assumes "0 < d"
  shows "(a div d) * d \<le> a" and "a < (a div d) * d + d"
proof -
  have "a div d * d + a mod d = a" by simp
  moreover have "0 \<le> a mod d" "a mod d < d" using assms by simp_all
  ultimately show "(a div d) * d \<le> a" and "a < (a div d) * d + d" by linarith+
qed

lemma int_le_div_iff:
  fixes a b t :: int
  assumes "0 < t"
  shows "a \<le> b div t \<longleftrightarrow> a * t \<le> b"
proof
  assume "a \<le> b div t"
  then have "a * t \<le> b div t * t" using assms by (simp add: mult_right_mono)
  also have "\<dots> \<le> b" using div_round_down_bounds [OF assms] by blast
  finally show "a * t \<le> b" .
next
  assume "a * t \<le> b"
  then have "a * t div t \<le> b div t" using assms by (rule zdiv_mono1)
  then show "a \<le> b div t" using assms by simp
qed

section \<open>Lemmas on words\<close>

lemma sint_word_of_int32: "- 2147483648 \<le> x \<Longrightarrow> x < 2147483648 \<Longrightarrow> sint (word_of_int x :: 32 word) = x"
  by (simp add: int_word_sint)
lemma sint_word_of_int64: "- 9223372036854775808 \<le> x \<Longrightarrow> x < 9223372036854775808 \<Longrightarrow> sint (word_of_int x :: 64 word) = x"
  by (simp add: int_word_sint)

lemma or_low_bits_int:
  fixes a c :: int
  assumes "0 \<le> c" "c < 2 ^ n"
  shows "a * 2 ^ n OR c = a * 2 ^ n + c"
proof -
  have c: "take_bit n c = c" using assms by (simp add: take_bit_int_eq_self_iff)
  have "push_bit n a + c = push_bit n a OR c"
  proof (rule disjunctive_add)
    fix m
    have "bit c m \<Longrightarrow> m < n" by (metis c bit_take_bit_iff)
    then show "\<not> bit (push_bit n a) m \<or> \<not> bit c m" by (auto simp: bit_push_bit_iff)
  qed
  then show ?thesis by (simp add: push_bit_eq_mult)
qed

lemma and_low_mask:
  fixes x :: int
  assumes "0 \<le> x" "x < 2 ^ n"
  shows "(word_of_int x :: 'a::len word) AND word_of_int (2 ^ n - 1) = word_of_int x"
proof -
  have "x AND (2 ^ n - 1) = x"
    using assms by (simp add: take_bit_int_eq_self_iff flip: mask_eq_exp_minus_1 take_bit_eq_mask)
  then show ?thesis by (metis of_int_and_eq)
qed

lemma push_bit_word_of_int: "push_bit n (word_of_int x :: 'a::len word) = word_of_int (x * 2 ^ n)"
  by (simp add: push_bit_eq_mult)

lemma signed_drop_bit_word_of_int:
  assumes "0 \<le> x" "x < 9223372036854775808"
  shows "signed_drop_bit n (word_of_int x :: 64 word) = word_of_int (x div 2 ^ n)"
proof (rule signed_word_eqI)
  have "x div 2 ^ n \<le> x" using assms zdiv_mono2 [of x 1 "2 ^ n"] by simp
  moreover have "0 \<le> x div 2 ^ n" using assms by (simp add: pos_imp_zdiv_nonneg_iff)
  ultimately show "sint (signed_drop_bit n (word_of_int x :: 64 word)) = sint (word_of_int (x div 2 ^ n) :: 64 word)"
    using assms by (simp add: sint_signed_drop_bit_eq drop_bit_eq_div sint_word_of_int64)
qed

lemma word_of_int_and_mask:
  "(word_of_int x :: 'a::len word) AND word_of_int (2 ^ n - 1) = word_of_int (x mod 2 ^ n)"
  by (metis of_int_and_eq mask_eq_exp_minus_1 take_bit_eq_mask take_bit_eq_mod)

lemma ucast_word_of_int_small:
  "0 \<le> x \<Longrightarrow> x < 4294967296 \<Longrightarrow> (ucast (word_of_int x :: 64 word) :: 32 word) = word_of_int x"
  by (simp add: ucast_eq word_of_int_inverse uint_word_of_int)

section \<open>Lemmas on slices\<close>

lemma length_slice_insert [simp, slice_simps]: "length (slice_insert xs i v) = Suc (length xs)"
  by (simp add: slice_insert_def)

lemma set_slice_insert [simp, slice_simps]: "set (slice_insert xs i v) = insert v (set xs)"
proof -
  have "set xs = set (take i xs) \<union> set (drop i xs)"
    by (metis append_take_drop_id set_append)
  then show ?thesis by (auto simp: slice_insert_def)
qed

lemma mset_slice_insert [simp, slice_simps]: "mset (slice_insert xs i v) = add_mset v (mset xs)"
proof -
  have "mset xs = mset (take i xs) + mset (drop i xs)"
    by (metis append_take_drop_id mset_append)
  then show ?thesis by (simp add: slice_insert_def)
qed

lemma length_slice_delete [simp, slice_simps]:
  "i < length xs \<Longrightarrow> length (slice_delete xs i) = length xs - 1"
  by (simp add: slice_delete_def)

lemma slice_delete_split: "slice_delete (ys @ x # zs) (length ys) = ys @ zs"
  by (simp add: slice_delete_def)

lemma set_slice_delete_subset: "set (slice_delete xs i) \<subseteq> set xs"
  by (auto simp: slice_delete_def dest: in_set_takeD in_set_dropD)

lemma mset_slice_delete:
  "i < length xs \<Longrightarrow> add_mset (xs ! i) (mset (slice_delete xs i)) = mset xs"
proof -
  assume "i < length xs"
  then have "xs = take i xs @ xs ! i # drop (Suc i) xs" by (rule id_take_nth_drop)
  then have "mset xs = mset (take i xs @ xs ! i # drop (Suc i) xs)" by simp
  then show ?thesis by (simp add: slice_delete_def)
qed

lemma sorted_wrt_slice_delete: "sorted_wrt R xs \<Longrightarrow> sorted_wrt R (slice_delete xs i)"
proof -
  assume "sorted_wrt R xs"
  then have "sorted_wrt R (take i xs @ drop i xs)" by simp
  then have "sorted_wrt R (take i xs)" "sorted_wrt R (drop i xs)"
    "\<forall>a \<in> set (take i xs). \<forall>b \<in> set (drop i xs). R a b"
    unfolding sorted_wrt_append by blast+
  moreover have "drop (Suc i) xs = drop 1 (drop i xs)" by simp
  ultimately show ?thesis
    unfolding slice_delete_def sorted_wrt_append
    by (metis in_set_dropD sorted_wrt_drop)
qed

section \<open>Binary search\<close>

lemma sort_Search_loop_done: "\<not> i < j \<Longrightarrow> sort_Search_loop f i j = i"
  by (subst sort_Search_loop.simps) simp

lemma sort_Search_loop_right:
  "i < j \<Longrightarrow> \<not> f ((i + j) div 2) \<Longrightarrow>
    sort_Search_loop f i j = sort_Search_loop f ((i + j) div 2 + 1) j"
  by (subst sort_Search_loop.simps) simp

lemma sort_Search_loop_left:
  "i < j \<Longrightarrow> f ((i + j) div 2) \<Longrightarrow>
    sort_Search_loop f i j = sort_Search_loop f i ((i + j) div 2)"
  by (subst sort_Search_loop.simps) simp

lemma sort_Search_loop_bounds:
  "i \<le> j \<Longrightarrow> i \<le> sort_Search_loop f i j \<and> sort_Search_loop f i j \<le> j"
proof (induction f i j rule: sort_Search_loop.induct)
  case (1 f i j)
  show ?case
  proof (cases "i < j")
    case True
    then have h: "(i + j) div 2 + 1 \<le> j" "i \<le> (i + j) div 2" by auto
    show ?thesis
    proof (cases "f ((i + j) div 2)")
      case fh: True
      with 1(2) [OF True refl] h sort_Search_loop_left [where f = f, OF True fh] show ?thesis by simp
    next
      case fh: False
      with 1(1) [OF True refl] h sort_Search_loop_right [where f = f, OF True fh] show ?thesis by simp
    qed
  next
    case False
    with 1(3) show ?thesis by (simp add: sort_Search_loop_done)
  qed
qed

text \<open>
  On a monotone predicate the search returns the least index at which it holds (or the
  upper bound): every index below it fails, every index from it on succeeds.
\<close>

lemma sort_Search_loop_least:
  assumes mono: "\<And>a b. a \<le> b \<Longrightarrow> b < n \<Longrightarrow> f a \<Longrightarrow> f b"
  shows "i \<le> j \<Longrightarrow> j \<le> n \<Longrightarrow> (\<forall>k < i. \<not> f k) \<Longrightarrow> (\<forall>k. j \<le> k \<and> k < n \<longrightarrow> f k) \<Longrightarrow>
    (\<forall>k < sort_Search_loop f i j. \<not> f k) \<and>
    (\<forall>k. sort_Search_loop f i j \<le> k \<and> k < n \<longrightarrow> f k)"
proof (induction "j - i" arbitrary: i j rule: less_induct)
  case less
  show ?case
  proof (cases "i < j")
    case True
    let ?h = "(i + j) div 2"
    from True have h: "?h < j" "i \<le> ?h" by auto
    show ?thesis
    proof (cases "f ?h")
      case False
      have below: "\<not> f k" if "k < ?h + 1" for k
        using False mono [of k ?h] that h less.prems(2) by auto
      show ?thesis
        unfolding sort_Search_loop_right [where f = f, OF True False]
        by (rule less.hyps) (use below h less.prems in auto)
    next
      case fh: True
      have above: "f k" if "?h \<le> k" "k < n" for k using mono [of ?h k] fh that by simp
      show ?thesis
        unfolding sort_Search_loop_left [where f = f, OF True fh]
        by (rule less.hyps) (use above h less.prems in auto)
    qed
  next
    case False
    with less.prems show ?thesis by (auto simp: sort_Search_loop_done)
  qed
qed

lemma sort_Search_le [simp]: "sort_Search n f \<le> n"
  using sort_Search_loop_bounds [of 0 n f] by (simp add: sort_Search_def)

lemma sort_Search_least:
  assumes "\<And>a b. a \<le> b \<Longrightarrow> b < n \<Longrightarrow> f a \<Longrightarrow> f b"
  shows "\<forall>k < sort_Search n f. \<not> f k" and "\<forall>k. sort_Search n f \<le> k \<and> k < n \<longrightarrow> f k"
proof -
  have "(\<forall>k < sort_Search_loop f 0 n. \<not> f k) \<and> (\<forall>k. sort_Search_loop f 0 n \<le> k \<and> k < n \<longrightarrow> f k)"
    by (rule sort_Search_loop_least) (use assms in auto)
  then show "\<forall>k < sort_Search n f. \<not> f k" and "\<forall>k. sort_Search n f \<le> k \<and> k < n \<longrightarrow> f k"
    by (simp_all add: sort_Search_def)
qed

end
