(* ===== verification/Toid.thy ===== *)
theory Toid
  imports Go_Prelude
begin

text \<open>
  Total order ids (\<^verbatim>\<open>toid/main.go\<close>) and synthetic offer ids
  (\<^verbatim>\<open>toid/synt_offer_id.go\<close>). An id packs ledger sequence, transaction order and
  operation order into one signed 64-bit number; the fields are Go \<^verbatim>\<open>int32\<close> values, so
  they are 32-bit words compared by \<open>sint\<close>. A panic of the code is an \<open>Inl\<close>.
\<close>

section \<open>Data\<close>

record ID =
  LedgerSequence :: "32 word"
  TransactionOrder :: "32 word"
  OperationOrder :: "32 word"

datatype toid_error =
    PanicInvalidLedgerSequence
  | PanicTransactionOrderOverflow
  | PanicOperationOrderOverflow
  | ErrRangeFromGreaterTo
  | ErrRangeNegative
  | PanicValueTooBig
  | PanicNegativeOfferId

definition LedgerMask :: "64 word" where "LedgerMask = 4294967295"
definition TransactionMask :: int where "TransactionMask = 1048575"
definition OperationMask :: int where "OperationMask = 4095"
definition LedgerShift :: nat where "LedgerShift = 32"
definition TransactionShift :: nat where "TransactionShift = 12"
definition OperationShift :: nat where "OperationShift = 0"

section \<open>Operations\<close>

definition toid_New :: "32 word \<Rightarrow> 32 word \<Rightarrow> 32 word \<Rightarrow> ID" where
  "toid_New ledger tx op =
     \<lparr>LedgerSequence = ledger, TransactionOrder = tx, OperationOrder = op\<rparr>"

definition AfterLedger :: "32 word \<Rightarrow> ID" where
  "AfterLedger seq = toid_New seq (word_of_int TransactionMask) (word_of_int OperationMask)"

definition ToInt64 :: "ID \<Rightarrow> (toid_error, 64 word) result" where
  "ToInt64 i =
     (if sint (LedgerSequence i) < 0 then Inl PanicInvalidLedgerSequence
      else if sint (TransactionOrder i) > TransactionMask then Inl PanicTransactionOrderOverflow
      else if sint (OperationOrder i) > OperationMask then Inl PanicOperationOrderOverflow
      else
        let result = 0;
            result = result OR push_bit LedgerShift (scast (LedgerSequence i) AND LedgerMask);
            result = result OR push_bit TransactionShift
                       (scast (TransactionOrder i) AND word_of_int TransactionMask);
            result = result OR push_bit OperationShift
                       (scast (OperationOrder i) AND word_of_int OperationMask)
        in Inr result)"

definition toid_Parse :: "64 word \<Rightarrow> ID" where
  "toid_Parse i =
     \<lparr>LedgerSequence = ucast (signed_drop_bit LedgerShift i AND LedgerMask),
      TransactionOrder = ucast (signed_drop_bit TransactionShift i AND word_of_int TransactionMask),
      OperationOrder = ucast (signed_drop_bit OperationShift i AND word_of_int OperationMask)\<rparr>"

definition LedgerRangeInclusive ::
  "32 word \<Rightarrow> 32 word \<Rightarrow> (toid_error, 64 word \<times> 64 word) result" where
  "LedgerRangeInclusive from to =
     (if sint from > sint to then Inl ErrRangeFromGreaterTo
      else if sint from \<le> 0 \<or> sint to \<le> 0 then Inl ErrRangeNegative
      else
        case (if from = 1 then Inr 0 else ToInt64 (toid_New from 0 0)) of
          Inl e \<Rightarrow> Inl e
        | Inr toidFrom \<Rightarrow>
            (case ToInt64 (toid_New (to + 1) 0 0) of
               Inl e \<Rightarrow> Inl e
             | Inr toidTo \<Rightarrow> Inr (toidFrom, toidTo)))"

definition IncOperationOrder :: "ID \<Rightarrow> ID" where
  "IncOperationOrder i =
     (let i = i\<lparr>OperationOrder := OperationOrder i + 1\<rparr> in
      if sint (OperationOrder i) > OperationMask
      then i\<lparr>OperationOrder := 0, LedgerSequence := LedgerSequence i + 1\<rparr>
      else i)"

section \<open>Synthetic offer ids\<close>

definition CoreOfferIDType :: "64 word" where "CoreOfferIDType = 0"
definition TOIDType :: "64 word" where "TOIDType = 1"
definition offer_id_mask :: "64 word" where "offer_id_mask = 0xC000000000000000"

definition EncodeOfferId :: "64 word \<Rightarrow> 64 word \<Rightarrow> (toid_error, 64 word) result" where
  "EncodeOfferId i typ =
     (if i AND offer_id_mask \<noteq> 0 then Inl PanicValueTooBig
      else Inr (i OR push_bit 62 typ))"

definition DecodeOfferID :: "64 word \<Rightarrow> (toid_error, 64 word \<times> 64 word) result" where
  "DecodeOfferID encodedId =
     (if sint encodedId < 0 then Inl PanicNegativeOfferId
      else Inr (drop_bit 2 (push_bit 2 encodedId), signed_drop_bit 62 encodedId))"

section \<open>Well-formed ids\<close>

text \<open>
  The ids the network produces: a non-negative ledger sequence, a transaction order of
  20 bits and an operation order of 12 bits.
\<close>

definition valid_id :: "ID \<Rightarrow> bool" where
  "valid_id i \<longleftrightarrow> 0 \<le> sint (LedgerSequence i) \<and>
     0 \<le> sint (TransactionOrder i) \<and> sint (TransactionOrder i) \<le> TransactionMask \<and>
     0 \<le> sint (OperationOrder i) \<and> sint (OperationOrder i) \<le> OperationMask"

text \<open>The number a well-formed id stands for.\<close>

definition toid_value :: "ID \<Rightarrow> int" where
  "toid_value i = sint (LedgerSequence i) * 4294967296
     + sint (TransactionOrder i) * 4096 + sint (OperationOrder i)"

text \<open>The order of ids: by ledger, then transaction, then operation.\<close>

definition id_less :: "ID \<Rightarrow> ID \<Rightarrow> bool" where
  "id_less i j \<longleftrightarrow>
     sint (LedgerSequence i) < sint (LedgerSequence j) \<or>
     sint (LedgerSequence i) = sint (LedgerSequence j) \<and>
       (sint (TransactionOrder i) < sint (TransactionOrder j) \<or>
        sint (TransactionOrder i) = sint (TransactionOrder j) \<and>
          sint (OperationOrder i) < sint (OperationOrder j))"

section \<open>Packing and unpacking\<close>

lemma ToInt64_value:
  assumes "valid_id i"
  shows "ToInt64 i = Inr (word_of_int (toid_value i))"
proof -
  let ?l = "sint (LedgerSequence i)" and ?t = "sint (TransactionOrder i)"
    and ?o = "sint (OperationOrder i)"
  have l: "(scast (LedgerSequence i) AND LedgerMask :: 64 word) = word_of_int ?l"
    using and_low_mask [of ?l 32] assms sint_lt [of "LedgerSequence i"]
    by (simp add: valid_id_def LedgerMask_def)
  have t: "(scast (TransactionOrder i) AND word_of_int TransactionMask :: 64 word) = word_of_int ?t"
    using and_low_mask [of ?t 20] assms by (simp add: valid_id_def TransactionMask_def)
  have o: "(scast (OperationOrder i) AND word_of_int OperationMask :: 64 word) = word_of_int ?o"
    using and_low_mask [of ?o 12] assms by (simp add: valid_id_def OperationMask_def)
  have "?l * 2 ^ 32 OR ?t * 2 ^ 12 = ?l * 2 ^ 32 + ?t * 2 ^ 12"
    using or_low_bits_int [of "?t * 2 ^ 12" 32 ?l] assms by (simp add: valid_id_def TransactionMask_def)
  moreover have "(?l * 2 ^ 20 + ?t) * 2 ^ 12 OR ?o = (?l * 2 ^ 20 + ?t) * 2 ^ 12 + ?o"
    using or_low_bits_int [of ?o 12 "?l * 2 ^ 20 + ?t"] assms by (simp add: valid_id_def OperationMask_def)
  ultimately have packed: "(?l * 2 ^ 32 OR ?t * 2 ^ 12) OR ?o = toid_value i"
    by (simp add: toid_value_def algebra_simps)
  have "ToInt64 i = Inr (push_bit 32 (word_of_int ?l) OR push_bit 12 (word_of_int ?t) OR word_of_int ?o)"
    using assms by (simp only: ToInt64_def l t o Let_def LedgerShift_def TransactionShift_def
        OperationShift_def) (simp add: valid_id_def or.assoc)
  also have "\<dots> = Inr (word_of_int ((?l * 2 ^ 32 OR ?t * 2 ^ 12) OR ?o))"
    by (simp only: push_bit_word_of_int of_int_or_eq or.assoc)
  finally show ?thesis by (simp only: packed)
qed

lemma toid_value_bounds:
  "valid_id i \<Longrightarrow> 0 \<le> toid_value i \<and> toid_value i < 9223372036854775808"
  using sint_lt [of "LedgerSequence i"]
  by (simp add: valid_id_def toid_value_def TransactionMask_def OperationMask_def)

lemma sint_ToInt64: "valid_id i \<Longrightarrow> ToInt64 i = Inr w \<Longrightarrow> sint w = toid_value i"
  using toid_value_bounds [of i] by (auto simp: ToInt64_value sint_word_of_int64)

lemma toid_value_less_iff:
  "valid_id i \<Longrightarrow> valid_id j \<Longrightarrow> toid_value i < toid_value j \<longleftrightarrow> id_less i j"
  by (simp add: valid_id_def toid_value_def id_less_def TransactionMask_def OperationMask_def) linarith

lemma toid_Parse_word_of_int:
  assumes "0 \<le> x" "x < 9223372036854775808"
  shows "toid_Parse (word_of_int x) =
    \<lparr>LedgerSequence = word_of_int (x div 4294967296),
     TransactionOrder = word_of_int (x div 4096 mod 1048576),
     OperationOrder = word_of_int (x mod 4096)\<rparr>"
proof -
  have "x div 4294967296 mod 4294967296 = x div 4294967296"
    using assms by simp
  then show ?thesis
    using word_of_int_and_mask [of "x div 2 ^ 32" 32, where ?'a = 64]
      word_of_int_and_mask [of "x div 2 ^ 12" 20, where ?'a = 64]
      word_of_int_and_mask [of "x" 12, where ?'a = 64]
    by (simp add: toid_Parse_def signed_drop_bit_word_of_int [OF assms] LedgerShift_def TransactionShift_def
       OperationShift_def LedgerMask_def TransactionMask_def OperationMask_def
       ucast_word_of_int_small)
qed

section \<open>Properties\<close>

lemma valid_id_Parse: "0 \<le> sint w \<Longrightarrow> valid_id (toid_Parse w) \<and> toid_value (toid_Parse w) = sint w"
proof -
  assume nonneg: "0 \<le> sint w"
  define x where "x = sint w"
  have w: "w = word_of_int x" by (simp add: x_def)
  have x: "0 \<le> x" "x < 9223372036854775808"
    using nonneg sint_lt [of w] by (simp_all add: x_def)
  have b: "x div 4294967296 < 2147483648" "0 \<le> x div 4294967296" using x by simp_all
  have eq: "x div 4294967296 * 4294967296 + x div 4096 mod 1048576 * 4096 + x mod 4096 = x"
  proof -
    have "x div 4294967296 = x div 4096 div 1048576" by (simp add: zdiv_zmult2_eq [symmetric])
    then show ?thesis
      using div_mult_mod_eq [of "x div 4096" 1048576] div_mult_mod_eq [of x 4096] by linarith
  qed
  have m: "0 \<le> x div 4096 mod 1048576" "x div 4096 mod 1048576 < 1048576"
    "0 \<le> x mod 4096" "x mod 4096 < 4096" by simp_all
  have f: "sint (LedgerSequence (toid_Parse w)) = x div 4294967296"
    "sint (TransactionOrder (toid_Parse w)) = x div 4096 mod 1048576"
    "sint (OperationOrder (toid_Parse w)) = x mod 4096"
    unfolding w toid_Parse_word_of_int [OF x] ID.select_convs
    by (intro sint_word_of_int32; use b m in linarith)+
  show ?thesis
    unfolding valid_id_def toid_value_def f TransactionMask_def OperationMask_def x_def [symmetric]
    using b m eq by linarith
qed

lemma toid_value_inject: "valid_id i \<Longrightarrow> valid_id j \<Longrightarrow> toid_value i = toid_value j \<Longrightarrow> i = j"
proof -
  assume v: "valid_id i" "valid_id j" and eq: "toid_value i = toid_value j"
  have "\<not> id_less i j" "\<not> id_less j i"
    using v eq toid_value_less_iff [of i j] toid_value_less_iff [of j i] by simp_all
  then have "sint (LedgerSequence i) = sint (LedgerSequence j)"
    "sint (TransactionOrder i) = sint (TransactionOrder j)"
    "sint (OperationOrder i) = sint (OperationOrder j)"
    unfolding id_less_def by linarith+
  then have "LedgerSequence i = LedgerSequence j" "TransactionOrder i = TransactionOrder j"
    "OperationOrder i = OperationOrder j" by (simp_all add: signed_word_eqI)
  then show "i = j" by simp
qed

text \<open>
  Packing a well-formed id and parsing the number gives the id back, and parsing any
  non-negative number and packing the result gives the number back, so ids and
  non-negative 64-bit numbers correspond one to one.
\<close>

lemma toid_roundtrip:
  "(valid_id i \<longrightarrow> (\<exists>w. ToInt64 i = Inr w \<and> toid_Parse w = i)) \<and>
   (0 \<le> sint n \<longrightarrow> valid_id (toid_Parse n) \<and> ToInt64 (toid_Parse n) = Inr n)"
proof (intro conjI impI)
  assume i: "valid_id i"
  let ?w = "word_of_int (toid_value i) :: 64 word"
  have "sint ?w = toid_value i" using i by (simp add: ToInt64_value sint_ToInt64)
  then have "valid_id (toid_Parse ?w)" "toid_value (toid_Parse ?w) = toid_value i"
    using valid_id_Parse [of ?w] toid_value_bounds [OF i] by simp_all
  with i have "toid_Parse ?w = i" by (simp add: toid_value_inject)
  with i show "\<exists>w. ToInt64 i = Inr w \<and> toid_Parse w = i" by (simp add: ToInt64_value)
next
  assume n: "0 \<le> sint n"
  then show "valid_id (toid_Parse n)" by (simp add: valid_id_Parse)
  with n show "ToInt64 (toid_Parse n) = Inr n" by (simp add: ToInt64_value valid_id_Parse)
qed

lemma toid_roundtrip_witness:
  "ToInt64 (toid_Parse 4294971393) = Inr 4294971393 \<and>
   (\<exists>w. ToInt64 (toid_New 7 3 1) = Inr w \<and> toid_Parse w = toid_New 7 3 1)"
  using toid_roundtrip [of "toid_New 7 3 1" 4294971393]
  by (simp add: valid_id_def toid_New_def TransactionMask_def OperationMask_def)

text \<open>
  The packed numbers order ids as the network does: the number of one well-formed id
  is below that of another exactly when it comes first by ledger, then by transaction,
  then by operation.
\<close>

lemma ToInt64_order:
  assumes "valid_id i" and "valid_id j" and "ToInt64 i = Inr a" and "ToInt64 j = Inr b"
  shows "sint a < sint b \<longleftrightarrow> id_less i j"
  using assms by (simp add: sint_ToInt64 [of i a] sint_ToInt64 [of j b] toid_value_less_iff)

lemma ToInt64_order_witness:
  "\<exists>a b. ToInt64 (toid_New 7 3 1) = Inr a \<and> ToInt64 (toid_New 7 4 0) = Inr b \<and>
     (sint a < sint b \<longleftrightarrow> id_less (toid_New 7 3 1) (toid_New 7 4 0))"
proof -
  have v: "valid_id (toid_New 7 3 1)" "valid_id (toid_New 7 4 0)"
    by (simp_all add: valid_id_def toid_New_def TransactionMask_def OperationMask_def)
  show ?thesis
    using ToInt64_order [OF v ToInt64_value [OF v(1)] ToInt64_value [OF v(2)]]
      ToInt64_value [OF v(1)] ToInt64_value [OF v(2)] by blast
qed

lemma ToInt64_ledger_start:
  "0 \<le> sint l \<Longrightarrow> \<exists>w. ToInt64 (toid_New l 0 0) = Inr w \<and> sint w = sint l * 4294967296"
proof -
  assume l: "0 \<le> sint l"
  then have v: "valid_id (toid_New l 0 0)"
    by (simp add: valid_id_def toid_New_def TransactionMask_def OperationMask_def)
  then show ?thesis
    using ToInt64_value [OF v] sint_ToInt64 [OF v ToInt64_value [OF v]]
    by (simp add: toid_value_def toid_New_def)
qed

lemma toid_value_ledger:
  "valid_id i \<Longrightarrow> l * 4294967296 \<le> toid_value i \<longleftrightarrow> l \<le> sint (LedgerSequence i)"
  by (simp add: valid_id_def toid_value_def TransactionMask_def OperationMask_def) linarith

lemma sint_inc32: "sint (l :: 32 word) < 2147483647 \<Longrightarrow> sint (l + 1) = sint l + 1"
proof -
  assume "sint l < 2147483647"
  then have "sint (word_of_int (sint l + 1) :: 32 word) = sint l + 1"
    using sint_ge [of l] by (intro sint_word_of_int32) auto
  moreover have "word_of_int (sint l + 1) = l + 1" by simp
  ultimately show ?thesis by simp
qed

text \<open>
  For ledgers \<open>0 < from \<le> to\<close> (with \<open>to + 1\<close> still an \<^verbatim>\<open>int32\<close>) the
  half-open range that LedgerRangeInclusive returns holds exactly the ids of the ledgers
  from \<open>from\<close> to \<open>to\<close>.
\<close>

lemma LedgerRangeInclusive_exact:
  assumes "0 < sint from" and "sint from \<le> sint to" and "sint to < MaxInt32"
  shows "\<exists>a b. LedgerRangeInclusive from to = Inr (a, b) \<and>
    (\<forall>i w. valid_id i \<and> 1 \<le> sint (LedgerSequence i) \<and> ToInt64 i = Inr w \<longrightarrow>
      ((sint a \<le> sint w \<and> sint w < sint b) \<longleftrightarrow>
       (sint from \<le> sint (LedgerSequence i) \<and> sint (LedgerSequence i) \<le> sint to)))"
proof -
  have to1: "sint (to + 1) = sint to + 1" using assms by (simp add: sint_inc32 MaxInt32_def)
  obtain a' where a': "ToInt64 (toid_New from 0 0) = Inr a'" "sint a' = sint from * 4294967296"
    using ToInt64_ledger_start [of "from"] assms by auto
  obtain b where b: "ToInt64 (toid_New (to + 1) 0 0) = Inr b" "sint b = (sint to + 1) * 4294967296"
    using ToInt64_ledger_start [of "to + 1"] to1 assms by auto
  let ?a = "if from = 1 then 0 else a'"
  have eq: "LedgerRangeInclusive from to = Inr (?a, b)"
    using assms a' b by (simp add: LedgerRangeInclusive_def)
  have "(sint ?a \<le> sint w \<and> sint w < sint b) \<longleftrightarrow>
      (sint from \<le> sint (LedgerSequence i) \<and> sint (LedgerSequence i) \<le> sint to)"
    if i: "valid_id i" "1 \<le> sint (LedgerSequence i)" "ToInt64 i = Inr w" for i w
  proof -
    have "sint w = toid_value i" using i by (simp add: sint_ToInt64)
    moreover have "sint ?a \<le> toid_value i \<longleftrightarrow> sint from \<le> sint (LedgerSequence i)"
      using i a' toid_value_bounds [OF i(1)] toid_value_ledger [OF i(1), of "sint from"] by simp
    moreover have "toid_value i < sint b \<longleftrightarrow> sint (LedgerSequence i) \<le> sint to"
      using toid_value_ledger [OF i(1), of "sint to + 1"] by (simp add: b) linarith
    ultimately show ?thesis by simp
  qed
  with eq show ?thesis by blast
qed

lemma LedgerRangeInclusive_exact_witness:
  "\<exists>a b. LedgerRangeInclusive 2 5 = Inr (a, b) \<and>
    (\<forall>i w. valid_id i \<and> 1 \<le> sint (LedgerSequence i) \<and> ToInt64 i = Inr w \<longrightarrow>
      ((sint a \<le> sint w \<and> sint w < sint b) \<longleftrightarrow>
       (2 \<le> sint (LedgerSequence i) \<and> sint (LedgerSequence i) \<le> 5)))"
  using LedgerRangeInclusive_exact [of 2 5] by (simp add: MaxInt32_def)

text \<open>
  IncOperationOrder moves a cursor strictly forward and keeps it well-formed. Below the
  operation limit it goes to the very next id. At the limit it does not: it keeps the
  transaction order and moves to the next ledger, so every later transaction of the same
  ledger lies between the old and the new cursor.
\<close>

lemma IncOperationOrder_advances:
  assumes "valid_id i" and "sint (LedgerSequence i) < MaxInt32"
  shows "valid_id (IncOperationOrder i) \<and> id_less i (IncOperationOrder i) \<and>
    (sint (OperationOrder i) < OperationMask \<longrightarrow>
       (\<forall>j. \<not> (id_less i j \<and> id_less j (IncOperationOrder i)))) \<and>
    (sint (OperationOrder i) = OperationMask \<longrightarrow>
       (\<forall>j. LedgerSequence j = LedgerSequence i \<and>
            sint (TransactionOrder i) < sint (TransactionOrder j) \<longrightarrow>
          id_less i j \<and> id_less j (IncOperationOrder i)))"
proof -
  have o1: "sint (OperationOrder i + 1) = sint (OperationOrder i) + 1"
    using assms by (simp add: sint_inc32 valid_id_def OperationMask_def)
  have l1: "sint (LedgerSequence i + 1) = sint (LedgerSequence i) + 1"
    using assms by (simp add: sint_inc32 MaxInt32_def)
  show ?thesis
  proof (cases "sint (OperationOrder i) < OperationMask")
    case True
    then have "IncOperationOrder i = i\<lparr>OperationOrder := OperationOrder i + 1\<rparr>"
      by (simp add: IncOperationOrder_def o1)
    with True assms(1) show ?thesis by (simp add: valid_id_def id_less_def o1) linarith
  next
    case False
    then have "IncOperationOrder i =
        i\<lparr>OperationOrder := 0, LedgerSequence := LedgerSequence i + 1\<rparr>"
      by (simp add: IncOperationOrder_def o1)
    with False assms(1) show ?thesis
      by (simp add: valid_id_def id_less_def l1 OperationMask_def)
  qed
qed

lemma IncOperationOrder_advances_witness:
  "id_less (toid_New 9 2 4095) (IncOperationOrder (toid_New 9 2 4095)) \<and>
   id_less (toid_New 9 3 1) (IncOperationOrder (toid_New 9 2 4095))"
  using IncOperationOrder_advances [of "toid_New 9 2 4095"]
  by (auto simp: valid_id_def toid_New_def TransactionMask_def OperationMask_def MaxInt32_def)

lemma offer_id_fits: "i AND offer_id_mask = 0 \<longleftrightarrow> take_bit 62 i = i"
proof -
  have top: "bit offer_id_mask n \<longleftrightarrow> 62 \<le> n \<and> n < 64" for n
  proof -
    have "offer_id_mask = push_bit 62 (mask 2)" by (simp add: offer_id_mask_def mask_eq_exp_minus_1)
    moreover have "bit (push_bit 62 (mask 2 :: 64 word)) n \<longleftrightarrow> 62 \<le> n \<and> n < 64"
      by (auto simp: bit_push_bit_iff bit_mask_iff)
    ultimately show ?thesis by simp
  qed
  have "i AND offer_id_mask = 0 \<longleftrightarrow> (\<forall>n < 64. bit i n \<longrightarrow> n < 62)"
    by (auto simp: bit_eq_iff bit_and_iff top not_less)
  also have "\<dots> \<longleftrightarrow> take_bit 62 i = i" by (auto simp: bit_eq_iff bit_take_bit_iff)
  finally show ?thesis .
qed

lemma take_bit_62_iff: "take_bit 62 i = i \<longleftrightarrow> i < (2 ^ 62 :: 64 word)"
proof -
  have "take_bit 62 i = i \<longleftrightarrow> take_bit 62 (uint i) = uint i"
    by (simp add: word_uint_eq_iff unsigned_take_bit_eq)
  also have "\<dots> \<longleftrightarrow> i < 2 ^ 62" by (simp add: take_bit_int_eq_self_iff word_less_def)
  finally show ?thesis .
qed

lemma DecodeOfferID_bits:
  assumes "take_bit 62 i = i" and "ty = 0 \<or> ty = 1"
  shows "DecodeOfferID (i OR push_bit 62 ty) = Inr (i, ty)"
proof -
  let ?w = "i OR push_bit 62 ty"
  have i: "bit i n \<Longrightarrow> n < 62" for n using assms(1) by (metis bit_take_bit_iff)
  have t: "bit ty n \<longleftrightarrow> n = 0 \<and> ty = 1" for n
    using assms(2) by (auto simp: bit_1_iff)
  have w: "bit ?w n \<longleftrightarrow> bit i n \<or> n = 62 \<and> ty = 1" for n
    by (auto simp: bit_or_iff bit_push_bit_iff t)
  have "\<not> bit ?w 63" using w [of 63] i [of 63] by auto
  then have "\<not> sint ?w < 0" using bit_last_iff [of ?w] by simp
  moreover have "drop_bit 2 (push_bit 2 ?w) = i"
    by (rule bit_eqI) (auto simp: bit_drop_bit_eq bit_push_bit_iff w dest: i)
  moreover have "signed_drop_bit 62 ?w = ty"
    by (rule bit_eqI) (auto simp: bit_signed_drop_bit_iff w t dest: i)
  ultimately show ?thesis by (simp add: DecodeOfferID_def)
qed

text \<open>
  Encoding an offer id below \<open>2 ^ 62\<close> with one of the two id types and decoding the
  result gives both back; a value that uses the top two bits is refused.
\<close>

lemma DecodeOfferID_EncodeOfferId:
  assumes "ty = CoreOfferIDType \<or> ty = TOIDType"
  shows
  "if i < 2 ^ 62
    then \<exists>w. EncodeOfferId i ty = Inr w \<and> DecodeOfferID w = Inr (i, ty)
    else EncodeOfferId i ty = Inl PanicValueTooBig"
  using assms offer_id_fits [of i]
    take_bit_62_iff [of i] DecodeOfferID_bits [of i ty]
  by (auto simp: EncodeOfferId_def CoreOfferIDType_def TOIDType_def)

lemma DecodeOfferID_EncodeOfferId_witness:
  "\<exists>w. EncodeOfferId 12884905985 TOIDType = Inr w \<and> DecodeOfferID w = Inr (12884905985, TOIDType)"
  using DecodeOfferID_EncodeOfferId [of TOIDType 12884905985] by simp

end
