(* ===== verification/Go_Decimal.thy ===== *)
theory Go_Decimal
  imports Go_Prelude
begin

text \<open>
  The decimal conversions of the Go standard library that the amount and price packages
  call: \<^verbatim>\<open>nat.utoa\<close> and \<^verbatim>\<open>strconv.FormatInt\<close>, \<^verbatim>\<open>strconv.ParseInt\<close> (base 10, 64 bits),
  \<^verbatim>\<open>big.Rat.SetString\<close>, \<^verbatim>\<open>big.Rat.IsInt\<close> and \<^verbatim>\<open>big.Rat.FloatString\<close>. A \<^verbatim>\<open>big.Rat\<close> is a
  value of type \<^typ>\<open>rat\<close>; \<open>quotient_of\<close> gives its reduced numerator and positive denominator,
  which is the form \<^verbatim>\<open>big.Rat\<close> keeps.
\<close>

section \<open>Definitions\<close>

definition digit_char :: "nat \<Rightarrow> char" where
  "digit_char d = char_of (48 + d)"

definition is_digit :: "char \<Rightarrow> bool" where
  "is_digit c \<longleftrightarrow> (48 :: nat) \<le> of_char c \<and> of_char c \<le> (57 :: nat)"

definition digit_val :: "char \<Rightarrow> nat" where
  "digit_val c = of_char c - 48"

text \<open>Decimal digits of a natural number, most significant first.\<close>

fun utoa :: "nat \<Rightarrow> string" where
  "utoa n = (if n < 10 then [digit_char n] else utoa (n div 10) @ [digit_char (n mod 10)])"

declare utoa.simps [simp del]

definition itoa :: "int \<Rightarrow> string" where
  "itoa i = (if i < 0 then CHR ''-'' # utoa (nat (- i)) else utoa (nat i))"

definition digits_value :: "string \<Rightarrow> nat" where
  "digits_value s = foldl (\<lambda>a c. 10 * a + digit_val c) 0 s"

text \<open>A leading minus sign, as a flag, and the rest of the string.\<close>

definition strip_minus :: "string \<Rightarrow> bool \<times> string" where
  "strip_minus s =
     (case s of [] \<Rightarrow> (False, [])
      | c # cs \<Rightarrow> if c = CHR ''-'' then (True, cs) else (False, c # cs))"

text \<open>
  \<^verbatim>\<open>big.Rat.SetString\<close> on the strings its callers let through (an optional minus sign, digits
  and dots): digits with at most one dot and at least one digit. The exponents, fractions
  and base prefixes that the library also accepts contain other characters.
\<close>

definition rat_SetString :: "string \<Rightarrow> rat option" where
  "rat_SetString s =
     (let (neg, m) = strip_minus s;
          sign = (if neg then - 1 else 1) :: rat;
          ip = takeWhile is_digit m;
          rest = dropWhile is_digit m
      in case rest of
           [] \<Rightarrow> if ip = [] then None else Some (sign * of_nat (digits_value ip))
         | c # fp \<Rightarrow>
             if c = CHR ''.'' \<and> list_all is_digit fp \<and> ip @ fp \<noteq> []
             then Some (sign * of_nat (digits_value (ip @ fp)) / 10 ^ length fp)
             else None)"

definition rat_IsInt :: "rat \<Rightarrow> bool" where
  "rat_IsInt r \<longleftrightarrow> snd (quotient_of r) = 1"

definition pad_zeros :: "nat \<Rightarrow> string \<Rightarrow> string" where
  "pad_zeros k s = replicate (k - length s) (CHR ''0'') @ s"

definition rat_FloatString :: "rat \<Rightarrow> nat \<Rightarrow> string" where
  "rat_FloatString x prec =
     (let (a, b) = quotient_of x in
      if b = 1 then itoa a @ (if prec > 0 then CHR ''.'' # replicate prec (CHR ''0'') else [])
      else
        let q = nat \<bar>a\<bar> div nat b;
            r = nat \<bar>a\<bar> mod nat b;
            p = 10 ^ prec;
            r' = r * p div nat b;
            r2 = r * p mod nat b;
            (q, r') = (if nat b \<le> r2 + r2
                       then if p \<le> r' + 1 then (q + 1, r' + 1 - p) else (q, r' + 1)
                       else (q, r'))
        in (if a < 0 then ''-'' else []) @ utoa q
           @ (if prec > 0 then CHR ''.'' # pad_zeros prec (utoa r') else []))"

text \<open>\<^verbatim>\<open>strconv.ParseInt(s, 10, 64)\<close>: \<open>None\<close> for a syntax or a range error.\<close>

definition strconv_ParseInt :: "string \<Rightarrow> int option" where
  "strconv_ParseInt s =
     (let (neg, m) = (case s of [] \<Rightarrow> (False, [])
                      | c # cs \<Rightarrow> if c = CHR ''+'' then (False, cs)
                                  else if c = CHR ''-'' then (True, cs) else (False, c # cs))
      in if m = [] \<or> \<not> list_all is_digit m then None
         else let un = int (digits_value m) in
           if \<not> neg \<and> un \<ge> 9223372036854775808 then None
           else if neg \<and> un > 9223372036854775808 then None
           else Some (if neg then - un else un))"

section \<open>Digits\<close>

lemma digit_char_simps [simp]:
  assumes "d < 10"
  shows "is_digit (digit_char d)" and "digit_val (digit_char d) = d"
  using assms by (simp_all add: is_digit_def digit_val_def digit_char_def)

lemma digit_char_0: "digit_char 0 = CHR ''0''"
  by (simp add: digit_char_def char_of_eq_iff)

lemma not_digit_simps [simp]: "\<not> is_digit (CHR ''-'')" "\<not> is_digit (CHR ''.'')" "\<not> is_digit (CHR ''+'')"
  by (simp_all add: is_digit_def)

lemma zero_digit [simp]: "is_digit (CHR ''0'')" "digit_val (CHR ''0'') = 0"
  by (simp_all add: is_digit_def digit_val_def)

lemma utoa_digits [simp]: "list_all is_digit (utoa n)"
  by (induction n rule: utoa.induct) (subst utoa.simps, simp)

lemma utoa_nonempty [simp]: "utoa n \<noteq> []"
  by (subst utoa.simps) simp

lemma foldl_digits:
  "foldl (\<lambda>a c. 10 * a + digit_val c) n t = n * 10 ^ length t + digits_value t"
proof (induction t arbitrary: n)
  case (Cons c t)
  have "foldl (\<lambda>a c. 10 * a + digit_val c) n (c # t) =
      (10 * n + digit_val c) * 10 ^ length t + digits_value t"
    by (simp only: foldl.simps Cons)
  also have "\<dots> = n * 10 ^ length (c # t) + (digit_val c * 10 ^ length t + digits_value t)"
    by (simp add: distrib_right)
  also have "digit_val c * 10 ^ length t + digits_value t = digits_value (c # t)"
    unfolding digits_value_def [of "c # t"] by (simp only: foldl.simps mult_0_right add_0 Cons)
  finally show ?case .
qed (simp add: digits_value_def)

lemma digits_value_append:
  "digits_value (s @ t) = digits_value s * 10 ^ length t + digits_value t"
proof -
  have "digits_value (s @ t) = foldl (\<lambda>a c. 10 * a + digit_val c) (digits_value s) t"
    by (simp add: digits_value_def)
  then show ?thesis by (simp only: foldl_digits)
qed

lemma digits_value_utoa [simp]: "digits_value (utoa n) = n"
proof (induction n rule: utoa.induct)
  case (1 n)
  then show ?case
    by (cases "n < 10") (simp_all add: utoa.simps [of n] digits_value_append, simp_all add: digits_value_def)
qed

lemma digits_value_zeros [simp]: "digits_value (replicate k (CHR ''0'') @ s) = digits_value s"
  by (induction k) (simp_all add: digits_value_def)

lemma length_utoa_le: "0 < k \<Longrightarrow> n < 10 ^ k \<Longrightarrow> length (utoa n) \<le> k"
proof (induction n arbitrary: k rule: utoa.induct)
  case (1 n)
  show ?case
  proof (cases "n < 10")
    case True
    with 1(2) show ?thesis by (simp add: utoa.simps [of n])
  next
    case False
    then obtain k' where k: "k = Suc k'" "0 < k'"
      using 1(2,3) by (cases k; cases "k - 1") auto
    then have "n div 10 < 10 ^ k'" using 1(3) by simp
    with 1(1) [OF False k(2)] False k show ?thesis by (simp add: utoa.simps [of n])
  qed
qed

lemma length_utoa_less: "10 ^ k \<le> n \<Longrightarrow> k < length (utoa n)"
proof (induction n arbitrary: k rule: utoa.induct)
  case (1 n)
  show ?case
  proof (cases k)
    case (Suc k')
    then have k': "10 ^ k' * 10 \<le> n" using 1(2) by simp
    then have "10 ^ k' \<le> n div 10" by (simp add: less_eq_div_iff_mult_less_eq)
    moreover have "10 \<le> n" using k' one_le_power [of "10 :: nat" k'] by linarith
    ultimately have "\<not> n < 10" "10 ^ k' \<le> n div 10" by simp_all
    with 1(1) [of k'] Suc show ?thesis by (simp add: utoa.simps [of n])
  qed simp
qed

text \<open>Exactly \<open>k\<close> digits of a number, with leading zeros.\<close>

fun fixed_digits :: "nat \<Rightarrow> nat \<Rightarrow> string" where
  "fixed_digits 0 r = []"
| "fixed_digits (Suc k) r = fixed_digits k (r div 10) @ [digit_char (r mod 10)]"

lemma length_fixed_digits [simp]: "length (fixed_digits k r) = k"
  by (induction k arbitrary: r) auto

lemma fixed_digits_digits [simp]: "list_all is_digit (fixed_digits k r)"
  by (induction k arbitrary: r) auto

lemma digits_value_fixed: "r < 10 ^ k \<Longrightarrow> digits_value (fixed_digits k r) = r"
proof (induction k arbitrary: r)
  case (Suc k)
  then have "digits_value (fixed_digits k (r div 10)) = r div 10" by simp
  then show ?case by (simp add: digits_value_append) (simp add: digits_value_def)
qed (simp add: digits_value_def)

lemma utoa_step: "0 < n \<Longrightarrow> d < 10 \<Longrightarrow> utoa (n * 10 + d) = utoa n @ [digit_char d]"
  by (subst utoa.simps) auto

lemma utoa_split: "0 < m \<Longrightarrow> r < 10 ^ k \<Longrightarrow> utoa (m * 10 ^ k + r) = utoa m @ fixed_digits k r"
proof (induction k arbitrary: r)
  case (Suc k)
  let ?n = "m * 10 ^ k + r div 10"
  have "m * 10 ^ Suc k + r = ?n * 10 + r mod 10" by simp
  moreover have "utoa ?n = utoa m @ fixed_digits k (r div 10)" using Suc by simp
  moreover have "0 < ?n" using Suc.prems(1) by simp
  ultimately show ?case by (simp only: utoa_step fixed_digits.simps) (simp add: utoa_step)
qed simp

lemma fixed_digits_zero: "fixed_digits k 0 = replicate k (CHR ''0'')"
proof (induction k)
  case (Suc k)
  then show ?case by (simp add: replicate_append_same digit_char_0)
qed simp

lemma pad_zeros_utoa: "0 < k \<Longrightarrow> r < 10 ^ k \<Longrightarrow> pad_zeros k (utoa r) = fixed_digits k r"
proof (induction k arbitrary: r)
  case (Suc k)
  show ?case
  proof (cases "r < 10")
    case True
    then show ?thesis by (simp add: utoa.simps [of r] pad_zeros_def fixed_digits_zero)
  next
    case False
    then have k: "0 < k" and r: "r div 10 < 10 ^ k" using Suc.prems by (cases k; auto)+
    have "utoa r = utoa (r div 10) @ [digit_char (r mod 10)]"
      using False by (simp add: utoa.simps [of r])
    with Suc.IH [OF k r] show ?thesis by (simp add: pad_zeros_def)
  qed
qed simp

lemma digit_parts:
  assumes "list_all is_digit s" and "\<not> is_digit c"
  shows "takeWhile is_digit (s @ c # t) = s" and "dropWhile is_digit (s @ c # t) = c # t"
  using assms by (induction s) auto

lemma strip_minus_utoa [simp]: "strip_minus (utoa n @ s) = (False, utoa n @ s)"
proof -
  obtain c cs where u: "utoa n = c # cs" by (cases "utoa n") auto
  with utoa_digits [of n] have "c \<noteq> CHR ''-''" by auto
  with u show ?thesis by (simp add: strip_minus_def)
qed

section \<open>FormatInt and ParseInt\<close>

lemma strconv_ParseInt_itoa: "in_int64 v \<Longrightarrow> strconv_ParseInt (itoa v) = Some v"
proof -
  assume v: "in_int64 v"
  obtain c cs where u: "utoa (nat v) = c # cs" by (cases "utoa (nat v)") auto
  with utoa_digits [of "nat v"] have "c \<noteq> CHR ''-''" "c \<noteq> CHR ''+''" by auto
  with u v show ?thesis
    using utoa_digits [of "nat v"] digits_value_utoa [of "nat v"]
    by (auto simp: strconv_ParseInt_def itoa_def in_int64_def)
qed

lemma strconv_ParseInt_itoa_range: "\<not> in_int64 v \<Longrightarrow> strconv_ParseInt (itoa v) = None"
proof -
  assume v: "\<not> in_int64 v"
  obtain c cs where u: "utoa (nat v) = c # cs" by (cases "utoa (nat v)") auto
  with utoa_digits [of "nat v"] have "c \<noteq> CHR ''-''" "c \<noteq> CHR ''+''" by auto
  with u v show ?thesis
    using utoa_digits [of "nat v"] digits_value_utoa [of "nat v"]
    by (auto simp: strconv_ParseInt_def itoa_def in_int64_def)
qed

section \<open>Rationals with seven decimals\<close>

lemma rat_IsInt_iff: "rat_IsInt r \<longleftrightarrow> r \<in> \<int>"
proof
  assume "rat_IsInt r"
  then have "r = of_int (fst (quotient_of r))"
    using quotient_of_div [of r "fst (quotient_of r)" 1] by (cases "quotient_of r") (simp add: rat_IsInt_def)
  then show "r \<in> \<int>" by (metis Ints_of_int)
qed (auto simp: rat_IsInt_def elim: Ints_cases)

lemma rat_FloatString_int: "rat_FloatString (of_int i) 0 = itoa i"
  by (simp add: rat_FloatString_def)

text \<open>Dividing a whole number by \<open>10 ^ 7\<close> and printing seven decimals moves the point.\<close>

definition amount_digits :: "nat \<Rightarrow> string" where
  "amount_digits n = utoa (n div 10000000) @ CHR ''.'' # fixed_digits 7 (n mod 10000000)"

lemma scaled_division:
  fixes A B V :: nat
  assumes "V * B = A * 10000000" and "0 < B"
  shows "A div B = V div 10000000" and "(A mod B) * 10000000 = V mod 10000000 * B"
proof -
  have "A div B = (A * 10000000) div (B * 10000000)" by simp
  also have "\<dots> = (V * B) div (10000000 * B)" using assms(1) by (simp add: mult.commute)
  also have "\<dots> = V div 10000000" using assms(2) by simp
  finally show "A div B = V div 10000000" .
  have "(A mod B) * 10000000 = (A * 10000000) mod (B * 10000000)" by (simp only: mult_mod_left)
  also have "\<dots> = (V * B) mod (10000000 * B)" using assms(1) by (simp add: mult.commute)
  also have "\<dots> = V mod 10000000 * B" by (simp only: mult_mod_left)
  finally show "(A mod B) * 10000000 = V mod 10000000 * B" .
qed

lemma rat_FloatString_amount:
  "rat_FloatString (of_int v / 10000000) 7 = (if v < 0 then ''-'' else []) @ amount_digits (nat \<bar>v\<bar>)"
proof -
  obtain a b where q: "quotient_of (of_int v / 10000000) = (a, b)" by force
  have b: "0 < b" using q by (rule quotient_of_denom_pos)
  have "of_int v / 10000000 = (of_int a / of_int b :: rat)" using q by (rule quotient_of_div)
  then have "(of_int (v * b) :: rat) = of_int (a * 10000000)" using b by (simp add: field_simps)
  then have vb: "v * b = a * 10000000" by linarith
  then have neg: "a < 0 \<longleftrightarrow> v < 0" using b by (metis mult_less_0_iff not_less_iff_gr_or_eq zero_less_numeral)
  have V: "nat \<bar>v\<bar> * nat b = nat \<bar>a\<bar> * 10000000"
    using arg_cong [OF vb, of "\<lambda>x. nat \<bar>x\<bar>"] b by (simp add: abs_mult nat_mult_distrib)
  note sc = scaled_division [OF V]
  show ?thesis
  proof (cases "b = 1")
    case True
    with vb have v: "v = a * 10000000" by simp
    then have "nat \<bar>v\<bar> = nat \<bar>a\<bar> * 10000000" by (simp add: abs_mult nat_mult_distrib)
    then have "amount_digits (nat \<bar>v\<bar>) = utoa (nat \<bar>a\<bar>) @ CHR ''.'' # replicate 7 (CHR ''0'')"
      by (simp add: amount_digits_def fixed_digits_zero)
    moreover have "itoa a = (if v < 0 then ''-'' else []) @ utoa (nat \<bar>a\<bar>)"
      using neg by (cases "v < 0") (simp_all add: itoa_def)
    ultimately show ?thesis using True q by (simp add: rat_FloatString_def)
  next
    case False
    have r: "nat \<bar>a\<bar> mod nat b * 10000000 div nat b = nat \<bar>v\<bar> mod 10000000"
      "nat \<bar>a\<bar> mod nat b * 10000000 mod nat b = 0"
      using sc b by simp_all
    have "rat_FloatString (of_int v / 10000000) 7 = (if a < 0 then ''-'' else []) @ utoa (nat \<bar>v\<bar> div 10000000)
        @ CHR ''.'' # pad_zeros 7 (utoa (nat \<bar>v\<bar> mod 10000000))"
      using q False b sc r by (simp add: rat_FloatString_def Let_def)
    then show ?thesis by (simp add: amount_digits_def pad_zeros_utoa neg)
  qed
qed

lemma strip_minus_amount:
  "strip_minus (amount_digits n) = (False, amount_digits n)"
  "strip_minus (CHR ''-'' # amount_digits n) = (True, amount_digits n)"
  by (simp_all add: strip_minus_def amount_digits_def flip: strip_minus_utoa)

lemma rat_SetString_digits:
  "rat_SetString (amount_digits n) = Some (of_nat n / 10000000)"
  "rat_SetString (CHR ''-'' # amount_digits n) = Some (- of_nat n / 10000000)"
proof -
  have parts: "takeWhile is_digit (amount_digits n) = utoa (n div 10000000)"
    "dropWhile is_digit (amount_digits n) = CHR ''.'' # fixed_digits 7 (n mod 10000000)"
    by (simp_all add: amount_digits_def digit_parts)
  have value_eq: "digits_value (utoa (n div 10000000) @ fixed_digits 7 (n mod 10000000)) = n"
    by (simp add: digits_value_append digits_value_fixed)
  show "rat_SetString (amount_digits n) = Some (of_nat n / 10000000)"
    "rat_SetString (CHR ''-'' # amount_digits n) = Some (- of_nat n / 10000000)"
    unfolding rat_SetString_def strip_minus_amount prod.case Let_def parts list.case value_eq
    by simp_all
qed

lemma rat_SetString_amount:
  "rat_SetString ((if v < 0 then ''-'' else []) @ amount_digits (nat \<bar>v\<bar>)) = Some (of_int v / 10000000)"
  by (cases "v < 0") (simp_all add: rat_SetString_digits)

lemma length_amount_digits:
  "n \<le> 9223372036854775808 \<Longrightarrow> length (amount_digits n) \<le> 20"
  using length_utoa_le [of 12 "n div 10000000"] by (simp add: amount_digits_def)

lemma itoa_point:
  "(if length (utoa n) \<le> 7 then ''0.'' @ pad_zeros 7 (utoa n)
    else take (length (utoa n) - 7) (utoa n) @ ''.'' @ drop (length (utoa n) - 7) (utoa n)) =
   amount_digits n"
proof (cases "n < 10000000")
  case True
  then have "length (utoa n) \<le> 7" using length_utoa_le [of 7 n] by simp
  with True show ?thesis
    by (simp add: amount_digits_def pad_zeros_utoa utoa.simps [of 0] digit_char_0)
next
  case False
  then have l: "7 < length (utoa n)" using length_utoa_less [of 7 n] by simp
  have "utoa n = utoa (n div 10000000) @ fixed_digits 7 (n mod 10000000)"
    using utoa_split [of "n div 10000000" "n mod 10000000" 7] False by simp
  with l show ?thesis by (simp add: amount_digits_def)
qed

end
