(* ===== verification/Amount.thy ===== *)
theory Amount
  imports Go_Decimal
begin

text \<open>
  Amounts (\<^verbatim>\<open>amount/main.go\<close>): 64-bit integers shown as decimal strings with seven decimals.
  The two regular expressions are boolean functions on strings; an error return is an
  \<open>Inl\<close>; the panicking variants return \<open>AmountPanic\<close> with the error.
\<close>

section \<open>Definitions\<close>

datatype amount_error =
    ErrInvalidAmountFormat
  | ErrCannotParseAmount
  | ErrMoreThanSevenDigits
  | ErrAmountOutsideInt64
  | ErrIntSyntaxOrRange
  | AmountPanic amount_error

definition One :: rat where "One = 10000000"

text \<open>\<^verbatim>\<open>xdr.Int128Parts\<close>: a signed upper and an unsigned lower half.\<close>

record Int128Parts =
  i128_Hi :: int
  i128_Lo :: int

text \<open>The expression \<^verbatim>\<open>^-?[.0-9]{1,20}$\<close>.\<close>

definition amount_char :: "char \<Rightarrow> bool" where
  "amount_char c \<longleftrightarrow> c = CHR ''.'' \<or> is_digit c"

definition validAmountSimple :: "string \<Rightarrow> bool" where
  "validAmountSimple v =
     (let m = snd (strip_minus v) in 1 \<le> length m \<and> length m \<le> 20 \<and> list_all amount_char m)"

text \<open>The expression \<^verbatim>\<open>^-?[0-9]+$\<close>.\<close>

definition negativePositiveNumberOnly :: "string \<Rightarrow> bool" where
  "negativePositiveNumberOnly v =
     (let m = snd (strip_minus v) in m \<noteq> [] \<and> list_all is_digit m)"

definition ParseInt64 :: "string \<Rightarrow> (amount_error, int) result" where
  "ParseInt64 v =
     (if \<not> validAmountSimple v then Inl ErrInvalidAmountFormat
      else case rat_SetString v of
        None \<Rightarrow> Inl ErrCannotParseAmount
      | Some r \<Rightarrow>
          let r = r * One in
          if \<not> rat_IsInt r then Inl ErrMoreThanSevenDigits
          else case strconv_ParseInt (rat_FloatString r 0) of
            None \<Rightarrow> Inl ErrAmountOutsideInt64
          | Some i \<Rightarrow> Inr i)"

definition amount_Parse :: "string \<Rightarrow> (amount_error, int) result" where
  "amount_Parse v = (case ParseInt64 v of Inl e \<Rightarrow> Inl e | Inr i \<Rightarrow> Inr i)"

definition amount_MustParse :: "string \<Rightarrow> (amount_error, int) result" where
  "amount_MustParse v = (case amount_Parse v of Inl e \<Rightarrow> Inl (AmountPanic e) | Inr i \<Rightarrow> Inr i)"

definition MustParseInt64Raw :: "string \<Rightarrow> (amount_error, int) result" where
  "MustParseInt64Raw v =
     (case strconv_ParseInt v of None \<Rightarrow> Inl (AmountPanic ErrIntSyntaxOrRange) | Some i \<Rightarrow> Inr i)"

definition IntStringToAmount :: "string \<Rightarrow> (amount_error, string) result" where
  "IntStringToAmount v =
     (if \<not> negativePositiveNumberOnly v then Inl ErrInvalidAmountFormat
      else
        let (negative, v) = strip_minus v;
            l = length v;
            r = (if l \<le> 7 then ''0.'' @ replicate (7 - l) (CHR ''0'') @ v
                 else take (l - 7) v @ ''.'' @ drop (l - 7) v);
            r = (if negative then ''-'' @ r else r)
        in Inr r)"

definition StringFromInt64 :: "int \<Rightarrow> string" where
  "StringFromInt64 v = rat_FloatString (of_int v / One) 7"

definition amount_String :: "int \<Rightarrow> string" where
  "amount_String v = StringFromInt64 v"

definition i128_value :: "Int128Parts \<Rightarrow> int" where
  "i128_value v = push_bit 64 (i128_Hi v) + i128_Lo v"

definition String128 :: "Int128Parts \<Rightarrow> string" where
  "String128 v = rat_FloatString (of_int (i128_value v) / One) 7"

definition String64Raw :: "int \<Rightarrow> string" where
  "String64Raw v = itoa v"

definition String128Raw :: "Int128Parts \<Rightarrow> string" where
  "String128Raw v = itoa (i128_value v)"

section \<open>Properties\<close>

lemma validAmountSimple_String:
  assumes "in_int64 v"
  shows "validAmountSimple ((if v < 0 then ''-'' else []) @ amount_digits (nat \<bar>v\<bar>))"
proof -
  let ?d = "amount_digits (nat \<bar>v\<bar>)"
  have "list_all amount_char ?d"
    using utoa_digits fixed_digits_digits
    by (auto simp: amount_digits_def amount_char_def list_all_iff)
  moreover have "length ?d \<le> 20" "1 \<le> length ?d"
    using assms length_amount_digits [of "nat \<bar>v\<bar>"] by (auto simp: in_int64_def amount_digits_def)
  moreover have "strip_minus ((if v < 0 then ''-'' else []) @ ?d) = (v < 0, ?d)"
    by (simp add: strip_minus_amount)
  ultimately show ?thesis by (simp add: validAmountSimple_def)
qed

lemma ParseInt64_accepts:
  assumes "validAmountSimple s" and "in_int64 i" and "rat_SetString s = Some (of_int i / 10000000)"
  shows "ParseInt64 s = Inr i"
  using assms strconv_ParseInt_itoa [of i]
  by (simp add: ParseInt64_def One_def Let_def rat_IsInt_iff rat_FloatString_int)

text \<open>
  Every 64-bit amount survives printing and parsing: the string the package shows for
  an amount is accepted, and parses back to that amount.
\<close>

lemma amount_Parse_String: "in_int64 v \<Longrightarrow> amount_Parse (amount_String v) = Inr v"
proof -
  assume v: "in_int64 v"
  have "amount_String v = (if v < 0 then ''-'' else []) @ amount_digits (nat \<bar>v\<bar>)"
    by (simp only: amount_String_def StringFromInt64_def One_def rat_FloatString_amount)
  then show ?thesis
    using ParseInt64_accepts [OF validAmountSimple_String [OF v] v rat_SetString_amount]
    by (simp only: amount_Parse_def sum.case)
qed

lemma amount_Parse_String_witness:
  "amount_Parse (amount_String (- 9223372036854775808)) = Inr (- 9223372036854775808)"
  using amount_Parse_String [of "- 9223372036854775808"] by (simp add: in_int64_def)

text \<open>The decimal number a string of digits and at most one dot denotes.\<close>

lemma ParseInt64_value:
  assumes "ParseInt64 s = Inr i"
  shows "in_int64 i \<and> validAmountSimple s \<and> rat_SetString s = Some (of_int i / 10000000)"
proof -
  from assms obtain r where valid: "validAmountSimple s" and r: "rat_SetString s = Some r"
    and int: "rat_IsInt (r * One)" and i: "strconv_ParseInt (rat_FloatString (r * One) 0) = Some i"
    by (auto simp: ParseInt64_def Let_def split: if_splits option.splits)
  from int obtain k where k: "r * One = of_int k" by (auto simp: rat_IsInt_iff elim: Ints_cases)
  have "in_int64 k \<and> i = k"
    using i strconv_ParseInt_itoa [of k] strconv_ParseInt_itoa_range [of k]
    by (cases "in_int64 k") (simp_all add: k rat_FloatString_int)
  moreover have "r = of_int k / 10000000" using k by (simp add: One_def field_simps)
  ultimately show ?thesis using valid r by simp
qed

text \<open>
  Parsing is exact: a string is accepted with result \<open>i\<close> precisely when it has the
  accepted shape, denotes a decimal number, and that number times \<open>10 ^ 7\<close> is the 64-bit
  integer \<open>i\<close>. Nothing is rounded and nothing wraps around.
\<close>

lemma amount_Parse_exact:
  "amount_Parse s = Inr i \<longleftrightarrow>
     validAmountSimple s \<and> in_int64 i \<and> rat_SetString s = Some (of_int i / 10000000)"
proof
  assume "amount_Parse s = Inr i"
  then have "ParseInt64 s = Inr i" by (simp add: amount_Parse_def split: sum.splits)
  then show "validAmountSimple s \<and> in_int64 i \<and> rat_SetString s = Some (of_int i / 10000000)"
    using ParseInt64_value by blast
next
  assume a: "validAmountSimple s \<and> in_int64 i \<and> rat_SetString s = Some (of_int i / 10000000)"
  then have "ParseInt64 s = Inr i" using ParseInt64_accepts by blast
  then show "amount_Parse s = Inr i" by (simp add: amount_Parse_def)
qed

lemma IntStringToAmount_itoa:
  "IntStringToAmount (itoa v) = Inr ((if v < 0 then ''-'' else []) @ amount_digits (nat \<bar>v\<bar>))"
proof -
  define n where "n = nat \<bar>v\<bar>"
  have v: "itoa v = (if v < 0 then ''-'' else []) @ utoa n"
    by (cases "v < 0") (simp_all add: itoa_def n_def)
  have strip: "strip_minus (itoa v) = (v < 0, utoa n)"
    using strip_minus_utoa [of n "[]"] by (simp add: v strip_minus_def)
  have ok: "negativePositiveNumberOnly (itoa v)"
    by (simp add: negativePositiveNumberOnly_def strip)
  show ?thesis
    using itoa_point [of n] ok
    by (simp add: IntStringToAmount_def strip Let_def pad_zeros_def n_def [symmetric] split: if_splits)
qed

text \<open>
  The string routine and the rational arithmetic agree: shifting the point in the raw
  decimal string of a 128-bit integer gives the string that dividing by \<open>10 ^ 7\<close> and
  printing seven decimals gives.
\<close>

lemma IntStringToAmount_String128:
  "IntStringToAmount (String128Raw v) = Inr (String128 v)"
  by (simp only: String128Raw_def String128_def IntStringToAmount_itoa rat_FloatString_amount One_def)

end
