(* ===== verification/Price.thy ===== *)
theory Price
  imports Go_Decimal
begin

text \<open>
  Prices. The first half models \<^verbatim>\<open>xdr/price.go\<close> (a price is a fraction of two 32-bit
  integers) and the second \<^verbatim>\<open>price/main.go\<close>: the 128-bit multiply-and-divide with
  rounding, the conversion of an offer into bought and sold units, and the continued
  fraction that turns a decimal string into a price.
\<close>

section \<open>Definitions: xdr/price.go\<close>

record xdr_Price =
  PriceN :: int
  PriceD :: int

datatype price_error =
    ErrDivisionByZero
  | ErrOverflow
  | ErrNoNegatives
  | ErrInvalidPriceFormat
  | ErrCannotParsePrice
  | ErrNoApproximation
  | ErrPriceIsZero
  | ErrPriceDenominatorIsZero
  | ErrPriceIsNegative
  | PanicDivide
  | PricePanic price_error

definition price_Validate :: "xdr_Price \<Rightarrow> price_error option" where
  "price_Validate p =
     (if PriceN p = 0 then Some ErrPriceIsZero
      else if PriceD p = 0 then Some ErrPriceDenominatorIsZero
      else if PriceN p < 0 \<or> PriceD p < 0 then Some ErrPriceIsNegative
      else None)"

text \<open>The products of \<^verbatim>\<open>uint64\<close> conversions, with their wrap-around.\<close>

definition uint64_mul :: "int \<Rightarrow> int \<Rightarrow> int" where
  "uint64_mul a b = wrap_uint64 (wrap_uint64 a * wrap_uint64 b)"

definition price_Equal :: "xdr_Price \<Rightarrow> xdr_Price \<Rightarrow> bool" where
  "price_Equal p q \<longleftrightarrow> uint64_mul (PriceN p) (PriceD q) = uint64_mul (PriceN q) (PriceD p)"

definition Cheaper :: "xdr_Price \<Rightarrow> xdr_Price \<Rightarrow> bool" where
  "Cheaper p q \<longleftrightarrow> uint64_mul (PriceN p) (PriceD q) < uint64_mul (PriceN q) (PriceD p)"

definition TryEqual :: "xdr_Price \<Rightarrow> xdr_Price \<Rightarrow> (price_error, bool) result" where
  "TryEqual p q =
     (case price_Validate p of Some e \<Rightarrow> Inl e
      | None \<Rightarrow> (case price_Validate q of Some e \<Rightarrow> Inl e
         | None \<Rightarrow> Inr (uint64_mul (PriceN p) (PriceD q) = uint64_mul (PriceN q) (PriceD p))))"

definition TryCheaper :: "xdr_Price \<Rightarrow> xdr_Price \<Rightarrow> (price_error, bool) result" where
  "TryCheaper p q =
     (case price_Validate p of Some e \<Rightarrow> Inl e
      | None \<Rightarrow> (case price_Validate q of Some e \<Rightarrow> Inl e
         | None \<Rightarrow> Inr (uint64_mul (PriceN p) (PriceD q) < uint64_mul (PriceN q) (PriceD p))))"

text \<open>\<^verbatim>\<open>big.NewRat(n, d)\<close> panics on a zero denominator; its parts are the reduced fraction.\<close>

definition price_Normalize :: "xdr_Price \<Rightarrow> (price_error, xdr_Price) result" where
  "price_Normalize p =
     (if PriceD p = 0 then Inl PanicDivide
      else let (n, d) = quotient_of (of_int (PriceN p) / of_int (PriceD p)) in
        Inr \<lparr>PriceN = wrap_int32 n, PriceD = wrap_int32 d\<rparr>)"

definition TryNormalize :: "xdr_Price \<Rightarrow> (price_error, xdr_Price) result" where
  "TryNormalize p =
     (case price_Validate p of Some e \<Rightarrow> Inl e
      | None \<Rightarrow> (let (n, d) = quotient_of (of_int (PriceN p) / of_int (PriceD p)) in
          Inr \<lparr>PriceN = wrap_int32 n, PriceD = wrap_int32 d\<rparr>))"

definition price_Invert :: "xdr_Price \<Rightarrow> xdr_Price" where
  "price_Invert p = \<lparr>PriceN = PriceD p, PriceD = PriceN p\<rparr>"

definition TryInvert :: "xdr_Price \<Rightarrow> (price_error, xdr_Price) result" where
  "TryInvert p =
     (case price_Validate p of Some e \<Rightarrow> Inl e | None \<Rightarrow> Inr (price_Invert p))"

section \<open>Definitions: price/main.go\<close>

text \<open>
  The 64-bit primitives of \<^verbatim>\<open>math/bits\<close> on values below \<open>2 ^ 64\<close>. \<^verbatim>\<open>Div64\<close> panics when
  the divisor is not above the upper half (in particular when it is zero).
\<close>

definition two64 :: int where "two64 = 18446744073709551616"

definition bits_Mul64 :: "int \<Rightarrow> int \<Rightarrow> int \<times> int" where
  "bits_Mul64 x y = (x * y div two64, x * y mod two64)"

definition bits_Add64 :: "int \<Rightarrow> int \<Rightarrow> int \<Rightarrow> int \<times> int" where
  "bits_Add64 x y carry = ((x + y + carry) mod two64, (x + y + carry) div two64)"

definition bits_Div64 :: "int \<Rightarrow> int \<Rightarrow> int \<Rightarrow> (price_error, int \<times> int) result" where
  "bits_Div64 hi lo y =
     (if y \<le> hi then Inl PanicDivide
      else Inr ((hi * two64 + lo) div y, (hi * two64 + lo) mod y))"

definition MulFractionRoundDown :: "int \<Rightarrow> int \<Rightarrow> int \<Rightarrow> (price_error, int) result" where
  "MulFractionRoundDown x n d =
     (if d = 0 then Inl ErrDivisionByZero
      else if x < 0 \<or> n < 0 \<or> d < 0 then Inl ErrNoNegatives
      else
        let (hi, lo) = bits_Mul64 (wrap_uint64 x) (wrap_uint64 n);
            denominator = wrap_uint64 d
        in if denominator \<le> hi then Inl ErrOverflow
           else case bits_Div64 hi lo denominator of
                  Inl e \<Rightarrow> Inl e
                | Inr (q, _) \<Rightarrow> if q > MaxInt64 then Inl ErrOverflow else Inr (wrap_int64 q))"

definition mulFractionRoundUp :: "int \<Rightarrow> int \<Rightarrow> int \<Rightarrow> (price_error, int) result" where
  "mulFractionRoundUp x n d =
     (if d = 0 then Inl ErrDivisionByZero
      else if x < 0 \<or> n < 0 \<or> d < 0 then Inl ErrNoNegatives
      else
        let (hi, lo) = bits_Mul64 (wrap_uint64 x) (wrap_uint64 n);
            (lo, carry) = bits_Add64 lo (wrap_uint64 (wrap_int64 (d - 1))) 0;
            hi = wrap_uint64 (hi + carry);
            denominator = wrap_uint64 d
        in if denominator \<le> hi then Inl ErrOverflow
           else case bits_Div64 hi lo denominator of
                  Inl e \<Rightarrow> Inl e
                | Inr (q, _) \<Rightarrow> if q > MaxInt64 then Inl ErrOverflow else Inr (wrap_int64 q))"

definition ConvertToBuyingUnits ::
  "int \<Rightarrow> int \<Rightarrow> int \<Rightarrow> int \<Rightarrow> (price_error, int \<times> int) result" where
  "ConvertToBuyingUnits sellingOfferAmount sellingUnitsNeeded pricen priced =
     (case (if pricen \<le> priced
            then case MulFractionRoundDown sellingOfferAmount pricen priced of
                   Inl e \<Rightarrow> Inl e
                 | Inr result \<Rightarrow> mulFractionRoundUp result priced pricen
            else Inr sellingOfferAmount) of
        Inl e \<Rightarrow> Inl e
      | Inr result \<Rightarrow>
          let result = min result sellingUnitsNeeded;
              sellingUnitsExtracted = result
          in case mulFractionRoundUp result pricen priced of
               Inl e \<Rightarrow> Inl e
             | Inr result \<Rightarrow> Inr (result, sellingUnitsExtracted))"

text \<open>The expression \<^verbatim>\<open>^[.0-9]{1,20}$\<close>.\<close>

definition validPriceSimple :: "string \<Rightarrow> bool" where
  "validPriceSimple v \<longleftrightarrow> 1 \<le> length v \<and> length v \<le> 20 \<and>
     list_all (\<lambda>c. c = CHR ''.'' \<or> is_digit c) v"

text \<open>The \<^verbatim>\<open>floor\<close> of the package: \<^verbatim>\<open>big.Int.Div\<close> of numerator by (positive) denominator.\<close>

definition price_floor :: "rat \<Rightarrow> int" where
  "price_floor n = (let (a, b) = quotient_of n in a div b)"

text \<open>
  The loop of \<^verbatim>\<open>continuedFraction\<close>. Only the last two entries of the slice
  \<^verbatim>\<open>fractions\<close> are read, so the loop carries those: \<open>(h0, k0)\<close> and \<open>(h1, k1)\<close>; it returns the
  last one. All of them are whole numbers.
\<close>

lemma price_floor_rest:
  assumes "quotient_of x = (p, q)"
  shows "price_floor x = p div q" and "x - of_int (price_floor x) = of_int (p mod q) / of_int q"
    and "p mod q = 0 \<Longrightarrow> q = 1"
    and "p mod q \<noteq> 0 \<Longrightarrow> quotient_of (1 / (x - of_int (price_floor x))) = (q, p mod q)"
proof -
  show fl: "price_floor x = p div q" by (simp add: price_floor_def assms)
  have q: "0 < q" using assms by (rule quotient_of_denom_pos)
  have x: "x = of_int p / of_int q" using assms by (rule quotient_of_div)
  have co: "coprime p q" using assms by (rule quotient_of_coprime)
  have "of_int p = (of_int (p div q) * of_int q + of_int (p mod q) :: rat)"
    by (metis div_mult_mod_eq of_int_add of_int_mult)
  then show rest: "x - of_int (price_floor x) = of_int (p mod q) / of_int q"
    using q unfolding fl by (simp add: x field_simps)
  show "p mod q = 0 \<Longrightarrow> q = 1"
    using co q by (metis abs_of_pos coprime_imp_gcd_eq_1 gcd_proj2_if_dvd mod_0_imp_dvd normalize_int_def)
  assume nz: "p mod q \<noteq> 0"
  then have "0 < p mod q" using q by (simp add: order_less_le)
  moreover have "coprime q (p mod q)" using co q by (simp add: coprime_commute)
  moreover have "1 / (x - of_int (price_floor x)) = Fract q (p mod q)"
    by (simp add: rest Fract_of_int_quotient)
  ultimately show "quotient_of (1 / (x - of_int (price_floor x))) = (q, p mod q)"
    by (simp add: quotient_of_Fract normalize_stable)
qed

lemma denom_reciprocal_less:
  assumes "x \<noteq> of_int (price_floor x)"
  shows "snd (quotient_of (1 / (x - of_int (price_floor x)))) < snd (quotient_of x)"
    and "0 < snd (quotient_of x)"
proof -
  obtain p q where pq: "quotient_of x = (p, q)" by force
  have q: "0 < q" using pq by (rule quotient_of_denom_pos)
  have "p mod q \<noteq> 0" using assms price_floor_rest(2) [OF pq] by auto
  then show "snd (quotient_of (1 / (x - of_int (price_floor x)))) < snd (quotient_of x)"
    and "0 < snd (quotient_of x)"
    using price_floor_rest(4) [OF pq] pq q by simp_all
qed

function cf_loop :: "rat \<Rightarrow> int \<times> int \<Rightarrow> int \<times> int \<Rightarrow> int \<times> int" where
  "cf_loop number (h0, k0) (h1, k1) =
     (if number > of_int MaxInt32 then (h1, k1)
      else
        let a = price_floor number;
            f = number - of_int a;
            h = a * h1 + h0;
            k = a * k1 + k0
        in if h > MaxInt32 \<or> k > MaxInt32 then (h1, k1)
           else if f = 0 then (h, k)
           else cf_loop (1 / f) (h1, k1) (h, k))"
  by pat_completeness auto
termination
  by (relation "measure (\<lambda>(x, _, _). nat (snd (quotient_of x)))") (auto simp: denom_reciprocal_less)

declare cf_loop.simps [simp del]

definition continuedFraction :: "string \<Rightarrow> (price_error, xdr_Price) result" where
  "continuedFraction price =
     (if take 1 price = ''-'' then Inl ErrNoNegatives
      else if \<not> validPriceSimple price then Inl ErrInvalidPriceFormat
      else case rat_SetString price of
        None \<Rightarrow> Inl ErrCannotParsePrice
      | Some number \<Rightarrow>
          let (n, d) = cf_loop number (0, 1) (1, 0) in
          if n = 0 \<or> d = 0 then Inl ErrNoApproximation
          else Inr \<lparr>PriceN = wrap_int32 (wrap_int64 n), PriceD = wrap_int32 (wrap_int64 d)\<rparr>)"

definition price_Parse :: "string \<Rightarrow> (price_error, xdr_Price) result" where
  "price_Parse v = continuedFraction v"

definition price_MustParse :: "string \<Rightarrow> (price_error, xdr_Price) result" where
  "price_MustParse v = (case price_Parse v of Inl e \<Rightarrow> Inl (PricePanic e) | Inr p \<Rightarrow> Inr p)"

section \<open>Comparing prices\<close>

definition valid_price :: "xdr_Price \<Rightarrow> bool" where
  "valid_price p \<longleftrightarrow> 0 < PriceN p \<and> PriceN p \<le> MaxInt32 \<and> 0 < PriceD p \<and> PriceD p \<le> MaxInt32"

definition price_value :: "xdr_Price \<Rightarrow> rat" where
  "price_value p = of_int (PriceN p) / of_int (PriceD p)"

lemma uint64_mul_exact:
  assumes "0 \<le> a" "a \<le> MaxInt32" "0 \<le> b" "b \<le> MaxInt32"
  shows "uint64_mul a b = a * b"
proof -
  have "a * b \<le> MaxInt32 * MaxInt32" using assms by (intro mult_mono) (simp_all add: MaxInt32_def)
  moreover have "0 \<le> a * b" using assms by simp
  ultimately show ?thesis
    using assms unfolding uint64_mul_def by (simp add: MaxInt32_def)
qed

lemma Cheaper_iff: "valid_price p \<Longrightarrow> valid_price q \<Longrightarrow> Cheaper p q \<longleftrightarrow> price_value p < price_value q"
proof -
  assume v: "valid_price p" "valid_price q"
  have "Cheaper p q \<longleftrightarrow> PriceN p * PriceD q < PriceN q * PriceD p"
    using v by (simp add: Cheaper_def uint64_mul_exact valid_price_def)
  also have "\<dots> \<longleftrightarrow> (of_int (PriceN p * PriceD q) :: rat) < of_int (PriceN q * PriceD p)"
    by (simp only: of_int_less_iff)
  also have "\<dots> \<longleftrightarrow> price_value p < price_value q"
    using v by (simp add: price_value_def valid_price_def field_simps)
  finally show ?thesis .
qed

lemma price_Equal_iff: "valid_price p \<Longrightarrow> valid_price q \<Longrightarrow> price_Equal p q \<longleftrightarrow> price_value p = price_value q"
proof -
  assume v: "valid_price p" "valid_price q"
  have "price_Equal p q \<longleftrightarrow> PriceN p * PriceD q = PriceN q * PriceD p"
    using v by (simp add: price_Equal_def uint64_mul_exact valid_price_def)
  also have "\<dots> \<longleftrightarrow> (of_int (PriceN p * PriceD q) :: rat) = of_int (PriceN q * PriceD p)"
    by (simp only: of_int_eq_iff)
  also have "\<dots> \<longleftrightarrow> price_value p = price_value q"
    using v by (simp add: price_value_def valid_price_def field_simps)
  finally show ?thesis .
qed

text \<open>
  Comparing two prices by cross multiplication in \<^verbatim>\<open>uint64\<close> is exact: for 32-bit prices
  the checked comparisons succeed exactly when both prices are positive, never overflow,
  and decide the order and the equality of the fractions, whatever their representation.
\<close>

lemma price_compare_exact:
  assumes "in_int32 (PriceN p)" "in_int32 (PriceD p)" "in_int32 (PriceN q)" "in_int32 (PriceD q)"
  shows "if valid_price p \<and> valid_price q
    then TryCheaper p q = Inr (price_value p < price_value q) \<and>
         TryEqual p q = Inr (price_value p = price_value q)
    else (\<exists>e. TryCheaper p q = Inl e \<and> TryEqual p q = Inl e)"
proof -
  have v: "price_Validate r = None \<longleftrightarrow> valid_price r" if "in_int32 (PriceN r)" "in_int32 (PriceD r)" for r
    using that by (auto simp: price_Validate_def valid_price_def in_int32_def MaxInt32_def)
  show ?thesis
    using v [of p] v [of q] assms Cheaper_iff [of p q] price_Equal_iff [of p q]
    by (auto simp: TryCheaper_def TryEqual_def Cheaper_def price_Equal_def split: option.splits)
qed

lemma price_compare_exact_witness:
  "TryCheaper \<lparr>PriceN = 1, PriceD = 2\<rparr> \<lparr>PriceN = 2, PriceD = 4\<rparr> = Inr False \<and>
   TryEqual \<lparr>PriceN = 1, PriceD = 2\<rparr> \<lparr>PriceN = 2, PriceD = 4\<rparr> = Inr True"
  using price_compare_exact [of "\<lparr>PriceN = 1, PriceD = 2\<rparr>" "\<lparr>PriceN = 2, PriceD = 4\<rparr>"]
  by (simp add: in_int32_def valid_price_def MaxInt32_def price_value_def)

section \<open>Multiplying and dividing with rounding\<close>

lemma div_by_high_half:
  fixes P d :: int
  assumes "0 < d" "0 \<le> P"
  shows "d \<le> P div two64 \<longleftrightarrow> two64 \<le> P div d"
  using assms int_le_div_iff [of two64 d P] int_le_div_iff [of d two64 P]
  by (simp add: two64_def mult.commute)

text \<open>The last steps both rounding functions share, on the 128-bit dividend \<open>P\<close>.\<close>

lemma divide_128:
  assumes "0 < d" "0 \<le> P" "hi = P div two64" "lo = P mod two64"
  shows "(if d \<le> hi then Inl ErrOverflow
      else case bits_Div64 hi lo d of
             Inl e \<Rightarrow> Inl e
           | Inr (q, _) \<Rightarrow> if q > MaxInt64 then Inl ErrOverflow else Inr (wrap_int64 q)) =
    (if P div d > MaxInt64 then Inl ErrOverflow else Inr (P div d))"
proof -
  have P: "hi * two64 + lo = P" using assms by simp
  have "0 \<le> P div d" using assms by (simp add: pos_imp_zdiv_nonneg_iff)
  then have "in_int64 (P div d)" if "P div d \<le> MaxInt64"
    using that by (simp add: in_int64_def MaxInt64_def)
  moreover have "P div d > MaxInt64" if "d \<le> hi"
    using div_by_high_half [of d P] assms that by (simp add: two64_def MaxInt64_def)
  ultimately show ?thesis by (auto simp: bits_Div64_def P)
qed

lemma MulFractionRoundDown_eq:
  assumes "in_int64 x" "in_int64 n" "in_int64 d"
  shows "MulFractionRoundDown x n d =
    (if d = 0 then Inl ErrDivisionByZero
     else if x < 0 \<or> n < 0 \<or> d < 0 then Inl ErrNoNegatives
     else if x * n div d > MaxInt64 then Inl ErrOverflow
     else Inr (x * n div d))"
  using assms divide_128 [of d "x * n" "x * n div two64" "x * n mod two64"]
  by (simp add: MulFractionRoundDown_def bits_Mul64_def in_int64_def)

lemma mulFractionRoundUp_eq:
  assumes "in_int64 x" "in_int64 n" "in_int64 d"
  shows "mulFractionRoundUp x n d =
    (if d = 0 then Inl ErrDivisionByZero
     else if x < 0 \<or> n < 0 \<or> d < 0 then Inl ErrNoNegatives
     else if (x * n + d - 1) div d > MaxInt64 then Inl ErrOverflow
     else Inr ((x * n + d - 1) div d))"
proof (cases "d = 0 \<or> x < 0 \<or> n < 0 \<or> d < 0")
  case False
  then have nonneg: "0 \<le> x" "0 \<le> n" "0 < d" by auto
  have b: "x \<le> MaxInt64" "n \<le> MaxInt64" "d \<le> MaxInt64"
    using assms by (simp_all add: in_int64_def MaxInt64_def)
  let ?P = "x * n + d - 1" and ?hi = "x * n div two64" and ?lo = "x * n mod two64"
  have d1: "wrap_uint64 (wrap_int64 (d - 1)) = d - 1"
    using nonneg b by (simp add: in_int64_def MaxInt64_def)
  have w: "wrap_uint64 x = x" "wrap_uint64 n = n" "wrap_uint64 d = d"
    using nonneg b by (simp_all add: MaxInt64_def)
  have split: "x * n = ?hi * two64 + ?lo" by simp
  have P: "?P = ?hi * two64 + (?lo + (d - 1))" using split by linarith
  have lo: "(?lo + (d - 1)) mod two64 = ?P mod two64"
    by (metis add_diff_eq mod_add_left_eq)
  have "(?hi * two64 + z) div two64 = ?hi + z div two64" for z
    by (simp add: two64_def)
  then have hi: "?hi + (?lo + (d - 1)) div two64 = ?P div two64"
    by (subst P) (simp only:)
  have "x * n \<le> MaxInt64 * MaxInt64" using nonneg b by (intro mult_mono) (simp_all add: MaxInt64_def)
  then have "?P div two64 < two64"
    using b by (simp add: MaxInt64_def two64_def)
  moreover have P0: "0 \<le> ?P" using nonneg mult_nonneg_nonneg [of x n] by linarith
  then have "0 \<le> ?P div two64" by (simp add: two64_def pos_imp_zdiv_nonneg_iff)
  ultimately have wrap: "wrap_uint64 (?P div two64) = ?P div two64" by (simp add: two64_def)
  have "mulFractionRoundUp x n d = (if d \<le> ?P div two64 then Inl ErrOverflow
      else case bits_Div64 (?P div two64) (?P mod two64) d of
             Inl e \<Rightarrow> Inl e
           | Inr (q, _) \<Rightarrow> if q > MaxInt64 then Inl ErrOverflow else Inr (wrap_int64 q))"
    using nonneg
    by (simp add: mulFractionRoundUp_def bits_Mul64_def bits_Add64_def d1 lo hi wrap w Let_def)
  also have "\<dots> = (if ?P div d > MaxInt64 then Inl ErrOverflow else Inr (?P div d))"
    by (rule divide_128 [OF nonneg(3) P0 refl refl])
  finally show ?thesis using nonneg by simp
qed (auto simp: mulFractionRoundUp_def)

text \<open>
  Multiplying by a fraction is exact and total on 64-bit inputs: the round-down
  version returns the floor of \<open>x n / d\<close> and the round-up version its ceiling, computed
  without wrap-around, and both report division by zero, negative inputs and results above
  the 64-bit range as errors; the 128-by-64-bit division never panics.
\<close>

lemma mul_fraction_exact:
  assumes "in_int64 x" and "in_int64 n" and "in_int64 d"
  shows "if d = 0 then MulFractionRoundDown x n d = Inl ErrDivisionByZero \<and>
                       mulFractionRoundUp x n d = Inl ErrDivisionByZero
    else if x < 0 \<or> n < 0 \<or> d < 0
      then MulFractionRoundDown x n d = Inl ErrNoNegatives \<and>
           mulFractionRoundUp x n d = Inl ErrNoNegatives
    else MulFractionRoundDown x n d =
           (let v = \<lfloor>of_int (x * n) / of_int d :: rat\<rfloor> in if v > MaxInt64 then Inl ErrOverflow else Inr v) \<and>
         mulFractionRoundUp x n d =
           (let v = \<lceil>of_int (x * n) / of_int d :: rat\<rceil> in if v > MaxInt64 then Inl ErrOverflow else Inr v)"
proof -
  have ceil: "\<lceil>of_int (x * n) / of_int d :: rat\<rceil> = (x * n + d - 1) div d" if d: "0 < d"
  proof (rule ceiling_unique)
    let ?c = "(x * n + d - 1) div d"
    have "(?c - 1) * d < x * n" "x * n \<le> ?c * d"
      using div_round_up_bounds [OF d, of "x * n"] by (simp_all add: algebra_simps)
    then have "(of_int ((?c - 1) * d) :: rat) < of_int (x * n)" "(of_int (x * n) :: rat) \<le> of_int (?c * d)"
      by (simp_all only: of_int_less_iff of_int_le_iff)
    then show "of_int ?c - 1 < (of_int (x * n) / of_int d :: rat)"
      "(of_int (x * n) / of_int d :: rat) \<le> of_int ?c"
      using d by (simp_all add: pos_less_divide_eq pos_divide_le_eq)
  qed
  have floor: "\<lfloor>of_int (x * n) / of_int d :: rat\<rfloor> = x * n div d" by (simp only: floor_divide_of_int_eq)
  show ?thesis
    using ceil floor unfolding MulFractionRoundDown_eq [OF assms] mulFractionRoundUp_eq [OF assms]
    by (cases "d = 0") (simp_all add: Let_def del: of_int_mult)
qed

lemma mul_fraction_exact_witness:
  "MulFractionRoundDown 9223372036854775807 3 2 = Inl ErrOverflow \<and>
   MulFractionRoundDown 7 3 2 = Inr 10 \<and> mulFractionRoundUp 7 3 2 = Inr 11"
  using mul_fraction_exact [of 9223372036854775807 3 2] mul_fraction_exact [of 7 3 2]
  by (simp add: in_int64_def MaxInt64_def Let_def floor_divide_of_int_eq [of 21 2, simplified]
      ceiling_divide_eq_div [of 21 2, simplified] floor_divide_of_int_eq [of 27670116110564327421 2, simplified])

section \<open>Converting an offer\<close>

text \<open>
  The bound on what an offer of \<open>a\<close> units at price \<open>n / d\<close> sells when \<open>n \<le> d\<close>: the least
  amount whose rounded-down cost is the rounded-down cost of the whole offer.
\<close>

lemma selling_bound:
  fixes a n d :: int
  assumes "0 \<le> a" "0 < n" "0 < d"
  defines "F \<equiv> a * n div d" and "b \<equiv> (a * n div d * d + n - 1) div n"
  shows "0 \<le> F" and "0 \<le> b" and "b \<le> a" and "b * n div d = F"
proof -
  show F: "0 \<le> F" using assms by (simp add: F_def pos_imp_zdiv_nonneg_iff)
  have Fd: "F * d \<le> a * n" "a * n < F * d + d"
    using div_round_down_bounds [OF assms(3), of "a * n"] by (simp_all add: F_def)
  have b: "F * d \<le> b * n" "b * n < F * d + n"
    using div_round_up_bounds [OF assms(2), of "F * d"] by (simp_all add: b_def F_def)
  have "0 \<le> F * d" using F assms(3) by simp
  then have "0 \<le> F * d + n - 1" using assms(2) by linarith
  then show "0 \<le> b" using assms(2) by (simp add: b_def F_def pos_imp_zdiv_nonneg_iff)
  have "b * n < (a + 1) * n" using b Fd by (simp add: algebra_simps)
  then show ba: "b \<le> a" using assms(2) by (simp add: mult_less_cancel_right)
  have "b * n \<le> a * n" using ba assms(2) by (simp add: mult_right_mono)
  then have "b * n < F * d + d" using Fd by linarith
  then show "b * n div d = F"
    using b(1) assms(3) by (intro int_div_pos_eq [where r = "b * n - F * d"]) (simp_all add: algebra_simps)
qed

lemma ConvertToBuyingUnits_eq:
  assumes a: "0 \<le> a" "in_int64 a" and u: "0 \<le> u" "in_int64 u"
    and n: "0 < n" "in_int64 n" and d: "0 < d" "in_int64 d"
  defines "b \<equiv> (if n \<le> d then (a * n div d * d + n - 1) div n else a)"
  shows "ConvertToBuyingUnits a u n d =
    (if (min b u * n + d - 1) div d > MaxInt64 then Inl ErrOverflow
     else Inr ((min b u * n + d - 1) div d, min b u))"
proof -
  note sb = selling_bound [OF a(1) n(1) d(1)]
  have b: "0 \<le> b" "b \<le> a" using sb a by (auto simp: b_def)
  have inb: "in_int64 b" "in_int64 (min b u)" using b a u by (auto simp: in_int64_def)
  have last: "mulFractionRoundUp (min b u) n d =
      (if (min b u * n + d - 1) div d > MaxInt64 then Inl ErrOverflow
       else Inr ((min b u * n + d - 1) div d))"
  proof -
    have "\<not> min b u < 0" using b u by simp
    then show ?thesis using n d by (simp add: mulFractionRoundUp_eq [OF inb(2) n(2) d(2)])
  qed
  show ?thesis
  proof (cases "n \<le> d")
    case True
    have "a * n \<le> a * d" using a True by (simp add: mult_left_mono)
    then have "a * n div d \<le> a" using d zdiv_mono1 [of "a * n" "a * d" d] by simp
    then have F: "in_int64 (a * n div d)" "\<not> a * n div d > MaxInt64"
      using sb(1) a by (auto simp: in_int64_def MaxInt64_def)
    have down: "MulFractionRoundDown a n d = Inr (a * n div d)"
      using F a n d by (simp add: MulFractionRoundDown_eq)
    have "\<not> b > MaxInt64" using b a by (simp add: in_int64_def MaxInt64_def)
    then have up: "mulFractionRoundUp (a * n div d) d n = Inr b"
      using True F sb n d by (simp add: mulFractionRoundUp_eq b_def)
    show ?thesis using True last by (simp add: ConvertToBuyingUnits_def down up Let_def split: if_splits)
  next
    case False
    then have "b = a" by (simp add: b_def)
    with False last show ?thesis by (simp add: ConvertToBuyingUnits_def Let_def split: if_splits)
  qed
qed

text \<open>
  Converting an offer of \<open>a\<close> units at price \<open>n / d\<close> against a need of \<open>u\<close> units never takes more than
  is offered or needed, never lets the taker pay less than the price (and less than one
  unit more), and stops short of the need only by dropping units that do not change what
  the whole offer is worth. The only failure is a payment above the 64-bit range, which
  needs a price above one.
\<close>

lemma ConvertToBuyingUnits_fair:
  assumes "0 \<le> a" "in_int64 a" "0 \<le> u" "in_int64 u" "0 < n" "in_int64 n" "0 < d" "in_int64 d"
  shows "case ConvertToBuyingUnits a u n d of
      Inr (paid, sold) \<Rightarrow> 0 \<le> sold \<and> sold \<le> u \<and> sold \<le> a \<and>
        sold * n \<le> paid * d \<and> paid * d < sold * n + d \<and>
        (sold = u \<or> sold * n div d = a * n div d)
    | Inl e \<Rightarrow> e = ErrOverflow \<and> d < n \<and> MaxInt64 < (min a u * n + d - 1) div d"
proof -
  define b where "b = (if n \<le> d then (a * n div d * d + n - 1) div n else a)"
  define s where "s = min b u"
  have eq: "ConvertToBuyingUnits a u n d =
    (if (s * n + d - 1) div d > MaxInt64 then Inl ErrOverflow else Inr ((s * n + d - 1) div d, s))"
    unfolding s_def b_def by (rule ConvertToBuyingUnits_eq [OF assms])
  note sb = selling_bound [OF assms(1,5,7)]
  have s: "0 \<le> s" "s \<le> u" "s \<le> a" "s = u \<or> s * n div d = a * n div d"
    using sb assms by (auto simp: s_def b_def min_def)
  have over: "d < n" if over: "(s * n + d - 1) div d > MaxInt64"
  proof (rule ccontr)
    assume "\<not> d < n"
    then have "s * n \<le> s * d" using s(1) by (simp add: mult_left_mono)
    then have "(s * n + d - 1) div d \<le> (s * d + (d - 1)) div d"
      using assms(7) by (intro zdiv_mono1) simp_all
    also have "\<dots> = s" using assms(7) by simp
    finally show False using over s assms(2) by (simp add: in_int64_def MaxInt64_def)
  qed
  have sn: "d < n \<Longrightarrow> s = min a u" by (simp add: s_def b_def)
  show ?thesis
  proof (cases "(s * n + d - 1) div d > MaxInt64")
    case True
    with over sn eq show ?thesis by simp
  next
    case False
    with s div_round_up_bounds [OF assms(7), of "s * n"] eq show ?thesis by simp
  qed
qed

lemma ConvertToBuyingUnits_fair_witness:
  "ConvertToBuyingUnits 10 4 3 2 = Inr (6, 4) \<and>
   (case ConvertToBuyingUnits 10 4 3 2 of
      Inr (paid, sold) \<Rightarrow> sold \<le> 4 \<and> sold \<le> 10 \<and> sold * 3 \<le> paid * 2
    | Inl e \<Rightarrow> False)"
proof -
  have "ConvertToBuyingUnits 10 4 3 2 = Inr (6, 4)" by code_simp
  moreover have "case ConvertToBuyingUnits 10 4 3 2 of
      Inr (paid, sold) \<Rightarrow> 0 \<le> sold \<and> sold \<le> 4 \<and> sold \<le> 10 \<and>
        sold * 3 \<le> paid * 2 \<and> paid * 2 < sold * 3 + 2 \<and> (sold = 4 \<or> sold * 3 div 2 = 10 * 3 div 2)
    | Inl e \<Rightarrow> e = ErrOverflow \<and> 2 < (3::int) \<and> MaxInt64 < (min 10 4 * 3 + 2 - 1) div 2"
    by (rule ConvertToBuyingUnits_fair) (simp_all add: in_int64_def)
  ultimately show ?thesis by simp
qed

section \<open>Continued fractions\<close>

text \<open>
  The loop keeps neighbouring convergents: their determinant is one or minus one. This
  makes each convergent reduced, and not both of its parts zero.
\<close>

definition convergents :: "int \<times> int \<Rightarrow> int \<times> int \<Rightarrow> bool" where
  "convergents c0 c1 \<longleftrightarrow> 0 \<le> fst c0 \<and> 0 \<le> snd c0 \<and> 0 \<le> fst c1 \<and> 0 \<le> snd c1 \<and>
     \<bar>fst c1 * snd c0 - fst c0 * snd c1\<bar> = 1"

lemma convergents_step:
  assumes "convergents (h0, k0) (h1, k1)" "0 \<le> a"
  shows "convergents (h1, k1) (a * h1 + h0, a * k1 + k0)"
proof -
  have "(a * h1 + h0) * k1 - h1 * (a * k1 + k0) = - (h1 * k0 - h0 * k1)" by (simp add: algebra_simps)
  then show ?thesis using assms by (simp add: convergents_def abs_minus_commute)
qed

lemma convergents_coprime: "convergents (h0, k0) (h1, k1) \<Longrightarrow> coprime h1 k1"
proof (rule coprimeI)
  fix c
  assume c: "convergents (h0, k0) (h1, k1)" "c dvd h1" "c dvd k1"
  then have "c dvd h1 * k0 - h0 * k1" by (simp add: dvd_diff)
  then have "c dvd \<bar>h1 * k0 - h0 * k1\<bar>" by simp
  moreover have "\<bar>h1 * k0 - h0 * k1\<bar> = 1" using c(1) by (simp add: convergents_def)
  ultimately show "is_unit c" by simp
qed

lemma convergents_pos: "convergents (h0, k0) (h1, k1) \<Longrightarrow> 1 \<le> h1 \<or> 1 \<le> k1"
proof (rule ccontr)
  assume c: "convergents (h0, k0) (h1, k1)" and "\<not> (1 \<le> h1 \<or> 1 \<le> k1)"
  then have "h1 = 0" "k1 = 0" by (auto simp: convergents_def)
  with c show False by (simp add: convergents_def)
qed

lemma cf_loop_stop:
  "number > of_int MaxInt32 \<or> price_floor number * h1 + h0 > MaxInt32 \<or>
     price_floor number * k1 + k0 > MaxInt32 \<Longrightarrow>
   cf_loop number (h0, k0) (h1, k1) = (h1, k1)"
  by (subst cf_loop.simps) (auto simp: Let_def)

lemma cf_loop_go:
  "\<not> (number > of_int MaxInt32 \<or> price_floor number * h1 + h0 > MaxInt32 \<or>
     price_floor number * k1 + k0 > MaxInt32) \<Longrightarrow>
   cf_loop number (h0, k0) (h1, k1) =
     (if number = of_int (price_floor number)
      then (price_floor number * h1 + h0, price_floor number * k1 + k0)
      else cf_loop (1 / (number - of_int (price_floor number))) (h1, k1)
             (price_floor number * h1 + h0, price_floor number * k1 + k0))"
  by (subst cf_loop.simps) (simp add: Let_def)

lemma euclid_combine:
  "q * a + r = p \<Longrightarrow> q * (a * v1 + v0) + r * v1 = p * v1 + q * (v0 :: int)"
  by (auto simp: algebra_simps)

lemma cf_loop_exact:
  assumes "quotient_of number = (p, q)" "0 \<le> p" "convergents (h0, k0) (h1, k1)"
    and "p * h1 + q * h0 = n" "p * k1 + q * k0 = d" "n \<le> MaxInt32" "d \<le> MaxInt32"
  shows "cf_loop number (h0, k0) (h1, k1) = (n, d)"
  using assms
proof (induction "nat (snd (quotient_of number))" arbitrary: number h0 k0 h1 k1 p q rule: less_induct)
  case less
  let ?a = "p div q"
  note fl = price_floor_rest [OF less.prems(1)]
  have q: "0 < q" using less.prems(1) by (rule quotient_of_denom_pos)
  have x: "number = of_int p / of_int q" using less.prems(1) by (rule quotient_of_div)
  have nn: "0 \<le> h0" "0 \<le> k0" "0 \<le> h1" "0 \<le> k1" using less.prems(3) by (auto simp: convergents_def)
  have a: "0 \<le> ?a" using less.prems(2) q by (simp add: pos_imp_zdiv_nonneg_iff)
  have small: "p \<le> MaxInt32 * q"
  proof (rule ccontr)
    assume "\<not> p \<le> MaxInt32 * q"
    then have "MaxInt32 < p" using q by (smt (verit) MaxInt32_def mult_le_cancel_left1)
    moreover have "p \<le> p * h1 \<or> p \<le> p * k1"
      using convergents_pos [OF less.prems(3)] less.prems(2) by (metis mult.commute mult_left_mono mult.right_neutral)
    moreover have "0 \<le> q * h0" "0 \<le> q * k0" using q nn by simp_all
    ultimately show False using less.prems(4-7) by linarith
  qed
  have nm: "\<not> number > of_int MaxInt32"
    using small q by (simp add: x not_less pos_divide_le_eq flip: of_int_mult)
  have num: "q * (?a * v1 + v0) + p mod q * v1 = p * v1 + q * v0" for v0 v1
    by (rule euclid_combine) simp
  have bound: "?a * v1 + v0 \<le> p * v1 + q * v0" if "0 \<le> v1" "0 \<le> v0" for v0 v1
  proof -
    have "0 \<le> ?a * v1 + v0" using a that by simp
    then have "?a * v1 + v0 \<le> q * (?a * v1 + v0)"
      using q mult_right_mono [of 1 q "?a * v1 + v0"] by simp
    also have "\<dots> \<le> q * (?a * v1 + v0) + p mod q * v1" using q that by simp
    also have "\<dots> = p * v1 + q * v0" by (rule num)
    finally show ?thesis .
  qed
  then have hk: "\<not> (?a * h1 + h0 > MaxInt32 \<or> ?a * k1 + k0 > MaxInt32)"
    using nn less.prems(4-7) by (smt (verit))
  have go: "cf_loop number (h0, k0) (h1, k1) =
      (if p mod q = 0 then (?a * h1 + h0, ?a * k1 + k0)
       else cf_loop (1 / (number - of_int ?a)) (h1, k1) (?a * h1 + h0, ?a * k1 + k0))"
  proof -
    have "number = of_int ?a \<longleftrightarrow> p mod q = 0" using fl(1,2) q by auto
    then show ?thesis using cf_loop_go [of number h1 h0 k1 k0] nm hk fl(1) by simp
  qed
  show ?case
  proof (cases "p mod q = 0")
    case True
    then show ?thesis using go fl(3) less.prems(4,5) by simp
  next
    case False
    have next_q: "quotient_of (1 / (number - of_int ?a)) = (q, p mod q)" using fl False by simp
    have "cf_loop (1 / (number - of_int ?a)) (h1, k1) (?a * h1 + h0, ?a * k1 + k0) = (n, d)"
      by (rule less.hyps [OF _ next_q _ convergents_step [OF less.prems(3) a]])
        (use q num less.prems in \<open>simp_all add: next_q\<close>)
    then show ?thesis using go False by simp
  qed
qed

lemma cf_loop_approximates:
  assumes "0 \<le> number" "convergents (h0, k0) (h1, k1)" "h1 \<le> MaxInt32" "k1 \<le> MaxInt32"
    and "x * (number * of_int k1 + of_int k0) = number * of_int h1 + of_int h0"
    and "1 \<le> number \<or> k1 = 0"
    and "cf_loop number (h0, k0) (h1, k1) = (n, d)"
  shows "0 \<le> n \<and> n \<le> MaxInt32 \<and> 0 \<le> d \<and> d \<le> MaxInt32 \<and> coprime n d \<and>
    \<bar>x * of_int d - of_int n\<bar> * of_int d \<le> 1"
  using assms
proof (induction "nat (snd (quotient_of number))" arbitrary: number h0 k0 h1 k1 rule: less_induct)
  case less
  let ?a = "price_floor number"
  let ?f = "number - of_int ?a"
  let ?h = "?a * h1 + h0" and ?k = "?a * k1 + k0"
  obtain p q where pq: "quotient_of number = (p, q)" by force
  have q: "0 < q" using pq by (rule quotient_of_denom_pos)
  have fl: "?a = \<lfloor>number\<rfloor>"
    using price_floor_rest(1) [OF pq] quotient_of_div [OF pq] by (simp add: floor_divide_of_int_eq)
  have a: "0 \<le> ?a" and f: "0 \<le> ?f" "?f < 1"
    using less.prems(1) unfolding fl by linarith+
  have det: "\<bar>(of_int (h1 * k0 - h0 * k1) :: rat)\<bar> = 1"
    using less.prems(2) by (metis convergents_def fst_conv of_int_1 of_int_abs snd_conv)
  have stop: ?case if "(n, d) = (h1, k1)"
  proof (cases "k1 = 0")
    case False
    then have k1: "1 \<le> (of_int k1 :: rat)" and num: "1 \<le> number" and k0: "0 \<le> (of_int k0 :: rat)"
      using less.prems(2,6) by (auto simp: convergents_def)
    let ?s = "number * of_int k1 + of_int k0"
    have s: "of_int k1 \<le> ?s" using num k0 k1 mult_right_mono [of 1 number "of_int k1"] by linarith
    have "?s * (x * of_int k1 - of_int h1) = - of_int (h1 * k0 - h0 * k1)"
      using less.prems(5) unfolding of_int_diff of_int_mult by algebra
    then have "\<bar>?s\<bar> * \<bar>x * of_int k1 - of_int h1\<bar> = 1" using det by (metis abs_minus_cancel abs_mult)
    then have "\<bar>x * of_int k1 - of_int h1\<bar> * ?s = 1" using s k1 by (simp add: mult.commute)
    then have "\<bar>x * of_int k1 - of_int h1\<bar> * of_int k1 \<le> 1"
      using s by (metis abs_ge_zero mult_left_mono)
    with that less.prems convergents_coprime [OF less.prems(2)] show ?thesis by (auto simp: convergents_def)
  qed (use that less.prems convergents_coprime [OF less.prems(2)] in \<open>auto simp: convergents_def\<close>)
  show ?case
  proof (cases "number > of_int MaxInt32 \<or> ?h > MaxInt32 \<or> ?k > MaxInt32")
    case True
    then show ?thesis using less.prems(7) cf_loop_stop [of number h1 h0 k1 k0] by (intro stop) simp
  next
    case False
    note conv = convergents_step [OF less.prems(2) a]
    show ?thesis
    proof (cases "?f = 0")
      case True
      then have "n = ?h" "d = ?k" using less.prems(7) cf_loop_go [OF False] by simp_all
      moreover have "x * of_int ?k = of_int ?h" using less.prems(5) True by simp
      ultimately show ?thesis
        using False convergents_coprime [OF conv] conv by (auto simp: convergents_def not_less)
    next
      case nz: False
      have rec: "cf_loop (1 / ?f) (h1, k1) (?h, ?k) = (n, d)"
        using less.prems(7) cf_loop_go [OF False] nz by simp
      have "x * (of_int ?k + ?f * of_int k1) = of_int ?h + ?f * of_int h1"
        using less.prems(5) by (simp add: algebra_simps)
      then have rel: "x * (1 / ?f * of_int ?k + of_int k1) = 1 / ?f * of_int ?h + of_int h1"
        using nz by (simp add: field_simps)
      have ge1: "1 \<le> 1 / ?f" using f nz by simp
      have "nat (snd (quotient_of (1 / ?f))) < nat (snd (quotient_of number))"
        using denom_reciprocal_less [of number] nz by simp
      then show ?thesis
        by (rule less.hyps [OF _ _ conv _ _ rel _ rec]) (use ge1 f False in auto)
    qed
  qed
qed

lemma price_string_nonneg:
  assumes "validPriceSimple s" "rat_SetString s = Some x"
  shows "0 \<le> x"
proof -
  have "strip_minus s = (False, s)"
    using assms(1) by (auto simp: validPriceSimple_def strip_minus_def split: list.splits)
  then show ?thesis
    using assms(2) by (auto simp: rat_SetString_def Let_def split: list.splits if_splits)
qed

lemma price_Parse_cases:
  assumes "price_Parse s = Inr p"
  obtains x where "rat_SetString s = Some x" "0 \<le> x"
    "cf_loop x (0, 1) (1, 0) = (PriceN p, PriceD p)" "PriceN p \<noteq> 0" "PriceD p \<noteq> 0"
proof -
  from assms obtain x n d where v: "validPriceSimple s" and x: "rat_SetString s = Some x"
    and nd: "cf_loop x (0, 1) (1, 0) = (n, d)" "n \<noteq> 0" "d \<noteq> 0"
    and p: "p = \<lparr>PriceN = wrap_int32 (wrap_int64 n), PriceD = wrap_int32 (wrap_int64 d)\<rparr>"
    by (auto simp: price_Parse_def continuedFraction_def Let_def split: if_splits option.splits prod.splits)
  have "0 \<le> x" using price_string_nonneg [OF v x] .
  then have "0 \<le> n \<and> n \<le> MaxInt32 \<and> 0 \<le> d \<and> d \<le> MaxInt32"
    using cf_loop_approximates [of x 0 1 1 0 x n d] nd by (simp add: convergents_def MaxInt32_def)
  then have "PriceN p = n" "PriceD p = d"
    by (simp_all add: p in_int32_def in_int64_def MaxInt32_def)
  with x \<open>0 \<le> x\<close> nd that show ?thesis by simp
qed


text \<open>
  A decimal that is a fraction of two positive 32-bit numbers parses to exactly that
  fraction, in lowest terms: the continued fraction never stops early on it.
\<close>

lemma price_Parse_exact:
  assumes "validPriceSimple s" and "rat_SetString s = Some x" and "quotient_of x = (n, d)"
    and "0 < n" and "n \<le> MaxInt32" and "d \<le> MaxInt32"
  shows "price_Parse s = Inr \<lparr>PriceN = n, PriceD = d\<rparr>"
proof -
  have d: "0 < d" using assms(3) by (rule quotient_of_denom_pos)
  have loop: "cf_loop x (0, 1) (1, 0) = (n, d)"
    by (rule cf_loop_exact [OF assms(3)]) (use assms in \<open>simp_all add: convergents_def\<close>)
  have "take 1 s \<noteq> ''-''"
    using assms(1) by (cases s) (auto simp: validPriceSimple_def)
  with assms d loop show ?thesis
    by (simp add: price_Parse_def continuedFraction_def in_int32_def in_int64_def MaxInt32_def)
qed

lemma price_Parse_exact_witness:
  "price_Parse ''0.125'' = Inr \<lparr>PriceN = 1, PriceD = 8\<rparr>"
proof -
  have "rat_SetString ''0.125'' = Some (1 / 8)"
    by (simp add: rat_SetString_def strip_minus_def is_digit_def digits_value_def digit_val_def)
  then show ?thesis
    by (intro price_Parse_exact [where x = "1 / 8"])
      (simp_all add: validPriceSimple_def is_digit_def MaxInt32_def quotient_of_number
        quotient_of_Fract normalize_stable flip: Fract_of_int_quotient [of 1 8, simplified])
qed


end
