(* ===== verification/Base32.thy ===== *)
theory Base32
  imports Go_Prelude
begin

text \<open>
  The unpadded base32 encoding of the Go standard library (\<^verbatim>\<open>encoding/base32\<close>,
  \<^verbatim>\<open>StdEncoding.WithPadding(NoPadding)\<close>) as \<^verbatim>\<open>strkey\<close> uses it, by streams of bits: eight per byte and
  five per character, most significant first. A last group of 1, 3 or 6 characters
  decodes to nothing, as in the library.
\<close>

section \<open>Definitions\<close>

definition nat_bits :: "nat \<Rightarrow> nat \<Rightarrow> bool list" where
  "nat_bits k v = rev (map (bit v) [0..<k])"

definition bits_nat :: "bool list \<Rightarrow> nat" where
  "bits_nat bs = horner_sum of_bool 2 (rev bs)"

function chunk :: "nat \<Rightarrow> 'a list \<Rightarrow> 'a list list" where
  "chunk k xs = (if k = 0 \<or> xs = [] then [] else take k xs # chunk k (drop k xs))"
  by pat_completeness auto
termination
  by (relation "measure (\<lambda>(k, xs). length xs)") auto

declare chunk.simps [simp del]

definition base32_alphabet :: string where
  "base32_alphabet = ''ABCDEFGHIJKLMNOPQRSTUVWXYZ234567''"

text \<open>The value of a character of the alphabet.\<close>

definition base32_value :: "char \<Rightarrow> nat" where
  "base32_value c = length (takeWhile (\<lambda>a. a \<noteq> c) base32_alphabet)"

definition bytes_bits :: "bytes \<Rightarrow> bool list" where
  "bytes_bits raw = concat (map (\<lambda>b. nat_bits 8 (unat b)) raw)"

definition EncodedLen :: "nat \<Rightarrow> nat" where
  "EncodedLen n = (n * 8 + 4) div 5"

definition base32_Encode :: "bytes \<Rightarrow> string" where
  "base32_Encode raw =
     (let bs = bytes_bits raw;
          bs = bs @ replicate (EncodedLen (length raw) * 5 - length bs) False
      in map (\<lambda>c. base32_alphabet ! bits_nat c) (chunk 5 bs))"

text \<open>Number of bytes decoded from \<open>n\<close> characters: five per group of eight, then the last group.\<close>

definition base32_decoded_len :: "nat \<Rightarrow> nat" where
  "base32_decoded_len n =
     5 * (n div 8) +
     (if n mod 8 = 2 then 1 else if n mod 8 = 4 then 2 else if n mod 8 = 5 then 3
      else if n mod 8 = 7 then 4 else 0)"

definition chars_bits :: "string \<Rightarrow> bool list" where
  "chars_bits s = concat (map (\<lambda>c. nat_bits 5 (base32_value c)) s)"

definition base32_Decode :: "string \<Rightarrow> bytes" where
  "base32_Decode s =
     map (\<lambda>c. of_nat (bits_nat c)) (chunk 8 (take (8 * base32_decoded_len (length s)) (chars_bits s)))"

section \<open>Bits of numbers\<close>

lemma length_nat_bits [simp]: "length (nat_bits k v) = k"
  by (simp add: nat_bits_def)

lemma bits_nat_nat_bits [simp]: "v < 2 ^ k \<Longrightarrow> bits_nat (nat_bits k v) = v"
  by (simp add: bits_nat_def nat_bits_def horner_sum_bit_eq_take_bit take_bit_nat_eq_self)

lemma nat_bits_bits_nat [simp]: "length bs = k \<Longrightarrow> nat_bits k (bits_nat bs) = bs"
proof -
  assume k: "length bs = k"
  have "map (bit (horner_sum of_bool 2 (rev bs) :: nat)) [0..<k] = rev bs"
    using k by (intro nth_equalityI) (simp_all add: bit_horner_sum_bit_iff)
  then show ?thesis by (simp add: nat_bits_def bits_nat_def)
qed

lemma bits_nat_less: "length bs = k \<Longrightarrow> bits_nat bs < 2 ^ k"
proof -
  assume k: "length bs = k"
  have "take_bit k (bits_nat bs) = bits_nat bs"
  proof (rule bit_eqI)
    fix n
    show "bit (take_bit k (bits_nat bs)) n = bit (bits_nat bs) n"
      using k by (auto simp: bits_nat_def bit_take_bit_iff bit_horner_sum_bit_iff)
  qed
  then show ?thesis by (metis take_bit_nat_less_exp)
qed

section \<open>Chunks\<close>

lemma chunk_Nil: "chunk k [] = []"
  by (subst chunk.simps) simp

lemma concat_chunk [simp]: "0 < k \<Longrightarrow> concat (chunk k xs) = xs"
proof (induction k xs rule: chunk.induct)
  case (1 k xs)
  then show ?case by (cases "xs = []") (simp_all add: chunk.simps [of k xs] chunk_Nil)
qed

lemma chunk_concat: "0 < k \<Longrightarrow> (\<And>x. x \<in> set xss \<Longrightarrow> length x = k) \<Longrightarrow> chunk k (concat xss) = xss"
proof (induction xss)
  case (Cons x xss)
  then have x: "length x = k" "x \<noteq> []" by auto
  then show ?case using Cons by (subst chunk.simps) simp
qed (simp add: chunk.simps)

lemma chunk_lengths: "0 < k \<Longrightarrow> length xs = k * m \<Longrightarrow> x \<in> set (chunk k xs) \<Longrightarrow> length x = k"
proof (induction k xs arbitrary: m rule: chunk.induct)
  case (1 k xs)
  show ?case
  proof (cases "xs = []")
    case False
    then obtain m' where m: "m = Suc m'" using 1(3) by (cases m) auto
    then have "length (drop k xs) = k * m'" "length (take k xs) = k" using 1(3) by simp_all
    then show ?thesis using 1 False by (auto simp: chunk.simps [of k xs])
  qed (use 1 in \<open>simp add: chunk.simps\<close>)
qed

lemma length_chunk: "0 < k \<Longrightarrow> length xs = k * m \<Longrightarrow> length (chunk k xs) = m"
proof (induction m arbitrary: xs)
  case (Suc m)
  then have "length (drop k xs) = k * m" "xs \<noteq> []" by auto
  with Suc show ?case by (simp add: chunk.simps [of k xs])
qed (simp add: chunk.simps)

section \<open>The alphabet\<close>

lemma base32_alphabet_distinct: "distinct base32_alphabet" "length base32_alphabet = 32"
  by (simp_all add: base32_alphabet_def)

lemma base32_value_nth: "v < 32 \<Longrightarrow> base32_value (base32_alphabet ! v) = v"
proof -
  assume v: "v < 32"
  have "takeWhile (\<lambda>a. a \<noteq> base32_alphabet ! v) base32_alphabet = take v base32_alphabet"
    using v base32_alphabet_distinct
    by (intro takeWhile_eq_take_P_nth) (auto simp: nth_eq_iff_index_eq)
  with v show ?thesis by (simp add: base32_value_def base32_alphabet_distinct)
qed

lemma nth_base32_value:
  assumes "c \<in> set base32_alphabet"
  shows "base32_value c < 32" and "base32_alphabet ! base32_value c = c"
proof -
  from assms obtain v where "v < 32" "c = base32_alphabet ! v"
    by (metis in_set_conv_nth base32_alphabet_distinct(2))
  then show "base32_value c < 32" and "base32_alphabet ! base32_value c = c"
    by (simp_all add: base32_value_nth)
qed

section \<open>Encoding and decoding\<close>

lemma length_bytes_bits [simp]: "length (bytes_bits raw) = 8 * length raw"
  by (induction raw) (simp_all add: bytes_bits_def)

lemma length_chars_bits [simp]: "length (chars_bits s) = 5 * length s"
  by (induction s) (simp_all add: chars_bits_def)

lemma chunk_bytes_bits: "chunk 8 (bytes_bits raw) = map (\<lambda>b. nat_bits 8 (unat b)) raw"
  unfolding bytes_bits_def by (rule chunk_concat) auto

lemma bytes_of_bits [simp]: "map (\<lambda>c. of_nat (bits_nat c)) (chunk 8 (bytes_bits raw)) = raw"
proof -
  have "bits_nat (nat_bits 8 (unat (b :: byte))) = unat b" for b
    by (intro bits_nat_nat_bits order_less_le_trans [OF unsigned_less]) simp
  then show ?thesis by (simp add: chunk_bytes_bits comp_def)
qed

lemma bytes_bits_of_bits:
  "length bs = 8 * n \<Longrightarrow> bytes_bits (map (\<lambda>c. of_nat (bits_nat c)) (chunk 8 bs)) = bs"
proof -
  assume n: "length bs = 8 * n"
  have "nat_bits 8 (unat (of_nat (bits_nat c) :: byte)) = c" if "c \<in> set (chunk 8 bs)" for c
  proof -
    have l: "length c = 8" using chunk_lengths [of 8 bs n] n that by simp
    then have "unat (of_nat (bits_nat c) :: byte) = bits_nat c"
      using bits_nat_less [OF l] by (simp add: unat_of_nat)
    then show ?thesis using l by simp
  qed
  then have "map (\<lambda>c. nat_bits 8 (unat (of_nat (bits_nat c) :: byte))) (chunk 8 bs) = chunk 8 bs"
    by (simp add: map_idI)
  then show ?thesis by (simp add: bytes_bits_def comp_def)
qed

lemma chars_of_bits:
  assumes "length bs = 5 * m"
  shows "chars_bits (map (\<lambda>c. base32_alphabet ! bits_nat c) (chunk 5 bs)) = bs"
    and "set (map (\<lambda>c. base32_alphabet ! bits_nat c) (chunk 5 bs)) \<subseteq> set base32_alphabet"
proof -
  have c: "bits_nat c < 32 \<and> length c = 5" if "c \<in> set (chunk 5 bs)" for c
    using chunk_lengths [of 5 bs m] assms that bits_nat_less [of c 5] by simp
  then have "map (\<lambda>c. nat_bits 5 (base32_value (base32_alphabet ! bits_nat c))) (chunk 5 bs) = chunk 5 bs"
    by (intro map_idI) (simp add: base32_value_nth)
  then show "chars_bits (map (\<lambda>c. base32_alphabet ! bits_nat c) (chunk 5 bs)) = bs"
    by (simp add: chars_bits_def comp_def)
  show "set (map (\<lambda>c. base32_alphabet ! bits_nat c) (chunk 5 bs)) \<subseteq> set base32_alphabet"
    using c by (auto simp: base32_alphabet_distinct)
qed

lemma chars_of_chars_bits:
  assumes "set s \<subseteq> set base32_alphabet"
  shows "map (\<lambda>c. base32_alphabet ! bits_nat c) (chunk 5 (chars_bits s)) = s"
proof -
  have "chunk 5 (chars_bits s) = map (\<lambda>c. nat_bits 5 (base32_value c)) s"
    unfolding chars_bits_def by (rule chunk_concat) auto
  then show ?thesis
    using assms nth_base32_value by (auto intro!: map_idI simp: comp_def subset_iff)
qed

text \<open>The lengths that the checks of strkey let through decode to all their whole bytes.\<close>

lemma base32_decoded_len_eq: "5 * m mod 8 < 5 \<Longrightarrow> base32_decoded_len m = 5 * m div 8"
proof -
  assume m: "5 * m mod 8 < 5"
  define q r where "q = m div 8" and "r = m mod 8"
  have mqr: "m = 8 * q + r" and "r < 8" by (simp_all add: q_def r_def)
  have split: "5 * m = 5 * r + 8 * (5 * q)" unfolding mqr by simp
  have "5 * m mod 8 = 5 * r mod 8" unfolding split by (rule mod_mult_self2)
  moreover have "r = 0 \<or> r = 1 \<or> r = 2 \<or> r = 3 \<or> r = 4 \<or> r = 5 \<or> r = 6 \<or> r = 7"
    using \<open>r < 8\<close> by auto
  moreover have "5 * m div 8 = 5 * q + 5 * r div 8" unfolding split by simp
  ultimately show ?thesis
    using m by (auto simp: base32_decoded_len_def q_def [symmetric] r_def [symmetric])
qed

lemma EncodedLen_bounds: "8 * n \<le> EncodedLen n * 5" "EncodedLen n * 5 < 8 * n + 5"
  by (simp_all add: EncodedLen_def)

lemma EncodedLen_mod:
  "5 * EncodedLen n div 8 = n" "5 * EncodedLen n mod 8 = EncodedLen n * 5 - 8 * n" "5 * EncodedLen n mod 8 < 5"
proof -
  obtain r where r: "EncodedLen n * 5 = 8 * n + r" "r < 5"
    using EncodedLen_bounds [of n] by (metis le_Suc_ex nat_add_left_cancel_less)
  then have e: "5 * EncodedLen n = 8 * n + r" by simp
  show "5 * EncodedLen n div 8 = n" "5 * EncodedLen n mod 8 = EncodedLen n * 5 - 8 * n"
    "5 * EncodedLen n mod 8 < 5"
    using r(2) unfolding e r(1) by simp_all
qed

lemma base32_Encode_bits:
  "chars_bits (base32_Encode raw) =
     bytes_bits raw @ replicate (EncodedLen (length raw) * 5 - 8 * length raw) False"
  "length (base32_Encode raw) = EncodedLen (length raw)"
  "set (base32_Encode raw) \<subseteq> set base32_alphabet"
proof -
  let ?bs = "bytes_bits raw @ replicate (EncodedLen (length raw) * 5 - 8 * length raw) False"
  have l: "length ?bs = 5 * EncodedLen (length raw)" using EncodedLen_bounds [of "length raw"] by simp
  have e: "base32_Encode raw = map (\<lambda>c. base32_alphabet ! bits_nat c) (chunk 5 ?bs)"
    by (simp add: base32_Encode_def)
  show "chars_bits (base32_Encode raw) = ?bs" "set (base32_Encode raw) \<subseteq> set base32_alphabet"
    unfolding e using chars_of_bits [OF l] by simp_all
  show "length (base32_Encode raw) = EncodedLen (length raw)"
    unfolding e using length_chunk [OF _ l] by simp
qed

lemma base32_Decode_Encode: "base32_Decode (base32_Encode raw) = raw"
proof -
  have z: "5 * EncodedLen (length raw) mod 8 < 5 \<and> 5 * EncodedLen (length raw) div 8 = length raw"
    using EncodedLen_mod by simp
  then have "base32_decoded_len (length (base32_Encode raw)) = length raw"
    by (simp add: base32_Encode_bits base32_decoded_len_eq)
  then show ?thesis by (simp add: base32_Decode_def base32_Encode_bits)
qed

lemma base32_Encode_Decode:
  assumes "set s \<subseteq> set base32_alphabet" and "5 * length s mod 8 < 5"
    and "drop (5 * length s - 5 * length s mod 8) (chars_bits s) = replicate (5 * length s mod 8) False"
  shows "base32_Encode (base32_Decode s) = s" and "length (base32_Decode s) = 5 * length s div 8"
proof -
  let ?m = "length s" and ?n = "5 * length s div 8" and ?z = "5 * length s mod 8"
  have mz: "5 * ?m = 8 * ?n + ?z" by simp
  have dec: "base32_Decode s = map (\<lambda>c. of_nat (bits_nat c)) (chunk 8 (take (8 * ?n) (chars_bits s)))"
    using assms(2) by (simp add: base32_Decode_def base32_decoded_len_eq)
  have l: "length (take (8 * ?n) (chars_bits s)) = 8 * ?n" by simp
  have bits: "bytes_bits (base32_Decode s) = take (8 * ?n) (chars_bits s)"
    unfolding dec by (rule bytes_bits_of_bits [OF l])
  show len: "length (base32_Decode s) = ?n"
    unfolding dec using length_chunk [OF _ l] by simp
  have enc: "EncodedLen ?n = ?m" using mz assms(2) unfolding EncodedLen_def by linarith
  have "5 * ?m - ?z = 8 * ?n" by presburger
  then have "drop (8 * ?n) (chars_bits s) = replicate ?z False" using assms(3) by metis
  then have all: "bytes_bits (base32_Decode s) @ replicate ?z False = chars_bits s"
    unfolding bits by (metis append_take_drop_id)
  have "EncodedLen (length (base32_Decode s)) * 5 - length (bytes_bits (base32_Decode s)) = ?z"
    unfolding length_bytes_bits len enc by presburger
  then show "base32_Encode (base32_Decode s) = s"
    using chars_of_chars_bits [OF assms(1)] by (simp add: base32_Encode_def all Let_def)
qed

end
