(* ===== verification/Crc16.thy ===== *)
theory Crc16
  imports Go_Prelude
begin

text \<open>
  The CRC-16/XMODEM checksum of strkeys (\<^verbatim>\<open>strkey/internal/crc16/main.go\<close>): the table
  of 256 entries and the loop that uses it. The reference it is compared with is the
  bit-by-bit division by the polynomial \<open>x^16 + x^12 + x^5 + 1\<close>.
\<close>

section \<open>Definitions\<close>

definition crc16tab :: "16 word list" where
  "crc16tab =
    [0x0000, 0x1021, 0x2042, 0x3063, 0x4084, 0x50a5, 0x60c6, 0x70e7,
     0x8108, 0x9129, 0xa14a, 0xb16b, 0xc18c, 0xd1ad, 0xe1ce, 0xf1ef,
     0x1231, 0x0210, 0x3273, 0x2252, 0x52b5, 0x4294, 0x72f7, 0x62d6,
     0x9339, 0x8318, 0xb37b, 0xa35a, 0xd3bd, 0xc39c, 0xf3ff, 0xe3de,
     0x2462, 0x3443, 0x0420, 0x1401, 0x64e6, 0x74c7, 0x44a4, 0x5485,
     0xa56a, 0xb54b, 0x8528, 0x9509, 0xe5ee, 0xf5cf, 0xc5ac, 0xd58d,
     0x3653, 0x2672, 0x1611, 0x0630, 0x76d7, 0x66f6, 0x5695, 0x46b4,
     0xb75b, 0xa77a, 0x9719, 0x8738, 0xf7df, 0xe7fe, 0xd79d, 0xc7bc,
     0x48c4, 0x58e5, 0x6886, 0x78a7, 0x0840, 0x1861, 0x2802, 0x3823,
     0xc9cc, 0xd9ed, 0xe98e, 0xf9af, 0x8948, 0x9969, 0xa90a, 0xb92b,
     0x5af5, 0x4ad4, 0x7ab7, 0x6a96, 0x1a71, 0x0a50, 0x3a33, 0x2a12,
     0xdbfd, 0xcbdc, 0xfbbf, 0xeb9e, 0x9b79, 0x8b58, 0xbb3b, 0xab1a,
     0x6ca6, 0x7c87, 0x4ce4, 0x5cc5, 0x2c22, 0x3c03, 0x0c60, 0x1c41,
     0xedae, 0xfd8f, 0xcdec, 0xddcd, 0xad2a, 0xbd0b, 0x8d68, 0x9d49,
     0x7e97, 0x6eb6, 0x5ed5, 0x4ef4, 0x3e13, 0x2e32, 0x1e51, 0x0e70,
     0xff9f, 0xefbe, 0xdfdd, 0xcffc, 0xbf1b, 0xaf3a, 0x9f59, 0x8f78,
     0x9188, 0x81a9, 0xb1ca, 0xa1eb, 0xd10c, 0xc12d, 0xf14e, 0xe16f,
     0x1080, 0x00a1, 0x30c2, 0x20e3, 0x5004, 0x4025, 0x7046, 0x6067,
     0x83b9, 0x9398, 0xa3fb, 0xb3da, 0xc33d, 0xd31c, 0xe37f, 0xf35e,
     0x02b1, 0x1290, 0x22f3, 0x32d2, 0x4235, 0x5214, 0x6277, 0x7256,
     0xb5ea, 0xa5cb, 0x95a8, 0x8589, 0xf56e, 0xe54f, 0xd52c, 0xc50d,
     0x34e2, 0x24c3, 0x14a0, 0x0481, 0x7466, 0x6447, 0x5424, 0x4405,
     0xa7db, 0xb7fa, 0x8799, 0x97b8, 0xe75f, 0xf77e, 0xc71d, 0xd73c,
     0x26d3, 0x36f2, 0x0691, 0x16b0, 0x6657, 0x7676, 0x4615, 0x5634,
     0xd94c, 0xc96d, 0xf90e, 0xe92f, 0x99c8, 0x89e9, 0xb98a, 0xa9ab,
     0x5844, 0x4865, 0x7806, 0x6827, 0x18c0, 0x08e1, 0x3882, 0x28a3,
     0xcb7d, 0xdb5c, 0xeb3f, 0xfb1e, 0x8bf9, 0x9bd8, 0xabbb, 0xbb9a,
     0x4a75, 0x5a54, 0x6a37, 0x7a16, 0x0af1, 0x1ad0, 0x2ab3, 0x3a92,
     0xfd2e, 0xed0f, 0xdd6c, 0xcd4d, 0xbdaa, 0xad8b, 0x9de8, 0x8dc9,
     0x7c26, 0x6c07, 0x5c64, 0x4c45, 0x3ca2, 0x2c83, 0x1ce0, 0x0cc1,
     0xef1f, 0xff3e, 0xcf5d, 0xdf7c, 0xaf9b, 0xbfba, 0x8fd9, 0x9ff8,
     0x6e17, 0x7e36, 0x4e55, 0x5e74, 0x2e93, 0x3eb2, 0x0ed1, 0x1ef0]"

text \<open>One turn of the loop.\<close>

definition crc16_step :: "16 word \<Rightarrow> byte \<Rightarrow> 16 word" where
  "crc16_step crc b =
     (push_bit 8 crc AND 0xffff) XOR crc16tab ! unat ((drop_bit 8 crc XOR ucast b) AND 0x00FF)"

definition crc16_Checksum :: "bytes \<Rightarrow> 16 word" where
  "crc16_Checksum data = foldl crc16_step 0 data"

datatype crc16_error = ErrInvalidChecksum

definition crc16_Validate :: "bytes \<Rightarrow> 16 word \<Rightarrow> crc16_error option" where
  "crc16_Validate data expected =
     (let actual = crc16_Checksum data in
      if actual \<noteq> expected then Some ErrInvalidChecksum else None)"

section \<open>The reference: division bit by bit\<close>

definition crc_bit :: "16 word \<Rightarrow> 16 word" where
  "crc_bit crc = (if bit crc 15 then push_bit 1 crc XOR 0x1021 else push_bit 1 crc)"

definition crc_byte :: "16 word \<Rightarrow> byte \<Rightarrow> 16 word" where
  "crc_byte crc b = (crc_bit ^^ 8) (crc XOR push_bit 8 (ucast b))"

definition crc_reference :: "bytes \<Rightarrow> 16 word" where
  "crc_reference data = foldl crc_byte 0 data"

lemma crc16tab_length [simp]: "length crc16tab = 256"
  by (simp add: crc16tab_def)

lemma crc16tab_double:
  "concat (map (\<lambda>t. [crc_bit t, crc_bit t XOR 0x1021]) (take 128 crc16tab)) = crc16tab"
  by (simp add: crc16tab_def crc_bit_def)

section \<open>The table is the reference on one byte\<close>

lemma nth_concat_pairs:
  "j < length xs \<Longrightarrow> concat (map (\<lambda>t. [g t, h t]) xs) ! (2 * j) = g (xs ! j)"
  "j < length xs \<Longrightarrow> concat (map (\<lambda>t. [g t, h t]) xs) ! (2 * j + 1) = h (xs ! j)"
  by (induction xs arbitrary: j) (auto simp: nth_Cons' less_Suc_eq_0_disj split: nat.splits)

lemma crc_bit_0 [simp]: "crc_bit 0 = 0"
  by (simp add: crc_bit_def)

lemma crc_bit_xor: "crc_bit (a XOR b) = crc_bit a XOR crc_bit b"
  by (simp add: crc_bit_def bit_xor_iff push_bit_xor ac_simps)

lemma crc_bits_xor: "(crc_bit ^^ n) (a XOR b) = (crc_bit ^^ n) a XOR (crc_bit ^^ n) b"
  by (induction n) (simp_all add: crc_bit_xor)

lemma crc_bits_0 [simp]: "(crc_bit ^^ n) 0 = 0"
  by (induction n) simp_all

lemma crc_bit_eq_0: "crc_bit c = 0 \<Longrightarrow> c = 0"
proof -
  assume c: "crc_bit c = 0"
  have "\<not> bit c 15"
  proof
    assume "bit c 15"
    then have "bit (crc_bit c) 0" by (simp add: crc_bit_def bit_0 even_xor_iff)
    with c show False by simp
  qed
  then have "push_bit 1 c = 0" using c by (simp add: crc_bit_def)
  show "c = 0"
  proof (rule bit_eqI)
    fix n
    assume n: "possible_bit TYPE(16 word) n"
    have "bit c n \<longrightarrow> n = 15 \<or> bit (push_bit 1 c) (Suc n)" unfolding bit_push_bit_iff using n by auto
    with \<open>push_bit 1 c = 0\<close> \<open>\<not> bit c 15\<close> show "bit c n = bit 0 n" by auto
  qed
qed

lemma crc_bits_eq_0: "(crc_bit ^^ n) c = 0 \<Longrightarrow> c = 0"
  by (induction n) (auto dest: crc_bit_eq_0)

lemma crc_bits_inject: "(crc_bit ^^ n) a = (crc_bit ^^ n) b \<longleftrightarrow> a = b"
proof
  assume "(crc_bit ^^ n) a = (crc_bit ^^ n) b"
  then have "(crc_bit ^^ n) (a XOR b) = 0" by (simp add: crc_bits_xor)
  then have "a XOR b = 0" by (rule crc_bits_eq_0)
  then show "a = b" by (simp add: bit_eq_iff bit_xor_iff)
qed simp

lemma crc_bits_low: "k \<le> 8 \<Longrightarrow> take_bit 8 lo = lo \<Longrightarrow> (crc_bit ^^ k) lo = push_bit k lo"
proof (induction k)
  case (Suc k)
  have "8 \<le> 15 - k" using Suc.prems(1) by arith
  then have "\<not> bit (take_bit 8 lo) (15 - k)" unfolding bit_take_bit_iff by simp
  then have "\<not> bit lo (15 - k)" by (simp only: Suc.prems(2) not_False_eq_True)
  then have "\<not> bit (push_bit k lo) 15" by (simp add: bit_push_bit_iff)
  with Suc show ?case by (simp add: crc_bit_def)
qed simp

lemma crc_bit_shift: "j < 128 \<Longrightarrow> crc_bit (push_bit 8 (of_nat j)) = push_bit 8 (of_nat (2 * j))"
proof -
  assume j: "j < 128"
  have "\<not> bit (take_bit 7 (of_nat j) :: 16 word) 7" by (simp add: bit_take_bit_iff)
  moreover have "take_bit 7 (of_nat j) = (of_nat j :: 16 word)"
    using j by (simp add: take_bit_of_nat take_bit_nat_eq_self)
  ultimately have "\<not> bit (push_bit 8 (of_nat j) :: 16 word) 15" by (simp add: bit_push_bit_iff)
  then show ?thesis by (simp add: crc_bit_def push_bit_eq_mult)
qed

lemma crc16tab_nth: "i < 256 \<Longrightarrow> crc16tab ! i = (crc_bit ^^ 8) (push_bit 8 (of_nat i))"
proof (induction i rule: less_induct)
  case (less i)
  define j where "j = i div 2"
  have j: "j < 128" using less.prems by (simp add: j_def)
  have even_case: "crc16tab ! (2 * j) = (crc_bit ^^ 8) (push_bit 8 (of_nat (2 * j)))" if "0 < i"
  proof -
    have "j < i" using that by (simp add: j_def)
    then have "crc16tab ! j = (crc_bit ^^ 8) (push_bit 8 (of_nat j))" using less.IH j by simp
    moreover have "crc16tab ! (2 * j) = crc_bit (crc16tab ! j)"
      using nth_concat_pairs(1) [of j "take 128 crc16tab" crc_bit "\<lambda>t. crc_bit t XOR 0x1021"] j
      unfolding crc16tab_double by simp
    ultimately show ?thesis
      using crc_bit_shift [OF j] by (metis funpow_swap1)
  qed
  have odd_case: "crc16tab ! (2 * j + 1) = crc16tab ! (2 * j) XOR 0x1021"
    using nth_concat_pairs [of j "take 128 crc16tab" crc_bit "\<lambda>t. crc_bit t XOR 0x1021"] j
    unfolding crc16tab_double by simp
  have first: "crc16tab ! 0 = 0" by (simp add: crc16tab_def)
  have one: "(crc_bit ^^ 8) (push_bit 8 1) = 0x1021"
    by (simp add: eval_nat_numeral) (simp add: crc_bit_def)
  have "(of_nat (2 * j + 1) :: 16 word) = of_nat (2 * j) XOR 1"
    by (simp add: xor_one_eq)
  then have plus1: "push_bit 8 (of_nat (2 * j + 1) :: 16 word) = push_bit 8 (of_nat (2 * j)) XOR push_bit 8 1"
    by (simp only: push_bit_xor)
  have zero_case: "crc16tab ! 0 = (crc_bit ^^ 8) (push_bit 8 (of_nat 0))" using first by simp
  have "i = 2 * j \<or> i = 2 * j + 1" unfolding j_def by presburger
  then consider "i = 0" | "0 < i" "i = 2 * j" | "i = 2 * j + 1" by fastforce
  then show ?case
  proof cases
    case 3
    have "crc16tab ! (2 * j) = (crc_bit ^^ 8) (push_bit 8 (of_nat (2 * j)))"
      using even_case 3 by simp
    then show ?thesis unfolding 3 plus1 crc_bits_xor one odd_case by simp
  qed (use zero_case even_case in auto)
qed

section \<open>The loop is the reference\<close>

lemma crc16_step_eq: "crc16_step crc b = crc_byte crc b"
proof -
  let ?i = "drop_bit 8 crc XOR ucast b :: 16 word"
  have "take_bit 8 ?i = ?i"
    by (rule bit_eqI) (auto simp: bit_take_bit_iff bit_xor_iff bit_drop_bit_eq bit_ucast_iff dest: bit_imp_le_length)
  then have i: "?i AND 0x00FF = ?i" by (simp add: take_bit_eq_mask mask_eq_exp_minus_1)
  have "unat ?i < 256"
  proof -
    have "unat (take_bit 8 ?i) < 2 ^ 8" unfolding unsigned_take_bit_eq by (rule take_bit_nat_less_exp)
    then show ?thesis unfolding \<open>take_bit 8 ?i = ?i\<close> by simp
  qed
  then have tab: "crc16tab ! unat ?i = (crc_bit ^^ 8) (push_bit 8 ?i)" by (simp add: crc16tab_nth)
  have low: "(crc_bit ^^ 8) (take_bit 8 crc) = push_bit 8 crc"
  proof -
    have "take_bit 16 w = w" for w :: "16 word"
      by (rule bit_eqI) (auto simp: bit_take_bit_iff dest: bit_imp_le_length)
    then show ?thesis by (simp add: crc_bits_low push_bit_take_bit)
  qed
  have "crc XOR push_bit 8 (ucast b) = push_bit 8 ?i XOR take_bit 8 crc"
    by (rule bit_eqI) (auto simp: bit_xor_iff bit_push_bit_iff bit_take_bit_iff bit_drop_bit_eq)
  then have "crc_byte crc b = crc16tab ! unat ?i XOR push_bit 8 crc"
    by (simp add: crc_byte_def crc_bits_xor tab low)
  moreover have "push_bit 8 crc AND 0xffff = push_bit 8 crc"
  proof -
    have "(0xffff :: 16 word) = - 1" by simp
    then show ?thesis by (simp only: and.right_neutral)
  qed
  ultimately show ?thesis by (simp only: crc16_step_def i xor.commute [of "push_bit 8 crc"])
qed

text \<open>
  The table-driven loop computes the CRC-16/XMODEM checksum: for every input it returns
  the remainder that bit-by-bit division by the polynomial \<^verbatim>\<open>0x1021\<close> returns.
\<close>

lemma crc16_Checksum_reference: "crc16_Checksum data = crc_reference data"
proof -
  have "crc16_step = crc_byte" by (intro ext) (rule crc16_step_eq)
  then show ?thesis by (simp add: crc16_Checksum_def crc_reference_def)
qed

section \<open>Detected errors\<close>

lemma word_xor_cancel: "(s XOR x = s XOR y) = (x = (y :: 'a::len word))"
  by (auto simp: bit_eq_iff bit_xor_iff)

lemma crc_byte_inject_state: "crc_byte c b = crc_byte c' b \<longleftrightarrow> c = c'"
  unfolding crc_byte_def crc_bits_inject by (auto simp: bit_eq_iff bit_xor_iff)

lemma crc_bytes_inject_state: "foldl crc_byte c ys = foldl crc_byte c' ys \<longleftrightarrow> c = c'"
  by (induction ys arbitrary: c c') (simp_all add: crc_byte_inject_state)

lemma crc_two_bytes:
  "crc_byte (crc_byte c a) b = (crc_bit ^^ 16) (c XOR (push_bit 8 (ucast a) OR ucast b))"
proof -
  have "take_bit 8 (ucast b :: 16 word) = ucast b"
    by (rule bit_eqI) (auto simp: bit_take_bit_iff bit_ucast_iff dest: bit_imp_le_length)
  then have "push_bit 8 (ucast b) = (crc_bit ^^ 8) (ucast b)" by (simp add: crc_bits_low)
  then have "crc_byte (crc_byte c a) b =
      (crc_bit ^^ 8) ((crc_bit ^^ 8) (c XOR push_bit 8 (ucast a) XOR ucast b))"
    by (simp add: crc_byte_def crc_bits_xor xor.assoc)
  also have "\<dots> = (crc_bit ^^ 16) (c XOR push_bit 8 (ucast a) XOR ucast b)"
    using funpow_add [of 8 8 crc_bit] by simp
  also have "c XOR push_bit 8 (ucast a) XOR ucast b = c XOR (push_bit 8 (ucast a) OR ucast b)"
    by (rule bit_eqI) (auto simp: bit_xor_iff bit_or_iff bit_push_bit_iff bit_ucast_iff dest: bit_imp_le_length)
  finally show ?thesis .
qed

lemma two_bytes_inject:
  fixes a b c d :: byte
  assumes "(push_bit 8 (ucast a) OR ucast b :: 16 word) = push_bit 8 (ucast c) OR ucast d"
  shows "a = c \<and> b = d"
proof -
  have bits: "bit (push_bit 8 (ucast x) OR ucast y :: 16 word) n \<longleftrightarrow>
      n < 16 \<and> (if n < 8 then bit y n else bit x (n - 8))" for x y :: byte and n
    by (auto simp: bit_or_iff bit_push_bit_iff bit_ucast_iff dest: bit_imp_le_length)
  have eq: "(if n < 8 then bit b n else bit a (n - 8)) = (if n < 8 then bit d n else bit c (n - 8))"
    if "n < 16" for n
    using bits [of a b n] bits [of c d n] assms that by simp
  have "a = c"
  proof (rule bit_eqI)
    fix n
    assume "possible_bit TYPE(8 word) n"
    then show "bit a n = bit c n" using eq [of "n + 8"] by simp
  qed
  moreover have "b = d"
  proof (rule bit_eqI)
    fix n
    assume "possible_bit TYPE(8 word) n"
    then show "bit b n = bit d n" using eq [of n] by simp
  qed
  ultimately show ?thesis by simp
qed

text \<open>
  The checksum detects every error confined to two adjacent bytes: two inputs that
  agree everywhere else have the same checksum only if they are equal there too. In
  particular any change of a single byte is detected.
\<close>

lemma crc16_detects_two_bytes:
  "crc16_Checksum (xs @ [a, b] @ ys) = crc16_Checksum (xs @ [c, d] @ ys) \<longleftrightarrow> a = c \<and> b = d"
proof -
  have "crc16_Checksum (xs @ [a, b] @ ys) = crc16_Checksum (xs @ [c, d] @ ys) \<longleftrightarrow>
      crc_byte (crc_byte (foldl crc_byte 0 xs) a) b = crc_byte (crc_byte (foldl crc_byte 0 xs) c) d"
    by (simp add: crc16_Checksum_reference crc_reference_def crc_bytes_inject_state)
  also have "\<dots> \<longleftrightarrow> foldl crc_byte 0 xs XOR (push_bit 8 (ucast a) OR ucast b) =
      foldl crc_byte 0 xs XOR (push_bit 8 (ucast c) OR ucast d)"
    by (simp only: crc_two_bytes crc_bits_inject)
  also have "\<dots> \<longleftrightarrow> (push_bit 8 (ucast a) OR ucast b :: 16 word) = push_bit 8 (ucast c) OR ucast d"
    by (simp only: word_xor_cancel)
  also have "\<dots> \<longleftrightarrow> a = c \<and> b = d" using two_bytes_inject by auto
  finally show ?thesis .
qed

end
