(* ===== verification/Go_Binary.thy ===== *)
theory Go_Binary
  imports Go_Prelude
begin

text \<open>
  The fixed-width encodings of the Go standard library (\<^verbatim>\<open>encoding/binary\<close>): big-endian
  for ids and lengths, little-endian for the checksum, with their round trips.
\<close>

section \<open>Definitions\<close>

text \<open>\<open>be_put n w\<close> is the big-endian encoding of \<open>w\<close> on \<open>n\<close> bytes, \<open>be_get\<close> reads it.\<close>

primrec be_put :: "nat \<Rightarrow> 'a::len word \<Rightarrow> bytes" where
  "be_put 0 w = []"
| "be_put (Suc n) w = be_put n (drop_bit 8 w) @ [ucast w]"

definition be_get :: "bytes \<Rightarrow> 'a::len word" where
  "be_get bs = foldl (\<lambda>acc b. push_bit 8 acc OR ucast b) 0 bs"

definition BigEndian_PutUint64 :: "64 word \<Rightarrow> bytes" where
  "BigEndian_PutUint64 w = be_put 8 w"

definition BigEndian_Uint64 :: "bytes \<Rightarrow> 64 word" where
  "BigEndian_Uint64 bs = be_get (take 8 bs)"

definition BigEndian_PutUint32 :: "32 word \<Rightarrow> bytes" where
  "BigEndian_PutUint32 w = be_put 4 w"

definition BigEndian_Uint32 :: "bytes \<Rightarrow> 32 word" where
  "BigEndian_Uint32 bs = be_get (take 4 bs)"

definition LittleEndian_PutUint16 :: "16 word \<Rightarrow> bytes" where
  "LittleEndian_PutUint16 w = [ucast w, ucast (drop_bit 8 w)]"

definition LittleEndian_Uint16 :: "bytes \<Rightarrow> 16 word" where
  "LittleEndian_Uint16 bs = ucast (bs ! 0) OR push_bit 8 (ucast (bs ! 1))"

section \<open>Round trips\<close>

lemma length_be_put [simp]: "length (be_put n w) = n"
  by (induction n arbitrary: w) simp_all

lemma be_get_snoc: "be_get (bs @ [b]) = push_bit 8 (be_get bs) OR ucast b"
  by (simp add: be_get_def)

lemma be_get_put: "be_get (be_put n w) = take_bit (8 * n) w"
proof (induction n arbitrary: w)
  case (Suc n)
  have "push_bit 8 (take_bit (8 * n) (drop_bit 8 w)) OR ucast (ucast w :: byte) = take_bit (8 * Suc n) w"
    by (rule bit_word_eqI)
      (auto simp: bit_or_iff bit_push_bit_iff bit_take_bit_iff bit_drop_bit_eq bit_ucast_iff)
  with Suc show ?case by (simp add: be_get_snoc)
qed (simp add: be_get_def)

lemma be_get_take_bit: "take_bit (8 * length bs) (be_get bs :: 'a::len word) = be_get bs"
proof (induction bs rule: rev_induct)
  case (snoc b bs)
  have "take_bit (8 * length (bs @ [b])) (push_bit 8 (be_get bs) OR ucast b :: 'a word)
      = push_bit 8 (take_bit (8 * length bs) (be_get bs)) OR ucast b"
    by (rule bit_word_eqI)
      (auto simp: bit_or_iff bit_push_bit_iff bit_take_bit_iff bit_ucast_iff dest: bit_imp_le_length)
  with snoc show ?case by (simp add: be_get_snoc)
qed (simp add: be_get_def)

lemma be_put_get: "8 * length bs \<le> LENGTH('a) \<Longrightarrow> be_put (length bs) (be_get bs :: 'a::len word) = bs"
proof (induction bs rule: rev_induct)
  case (snoc b bs)
  let ?x = "be_get bs :: 'a word"
  have le: "8 * length bs + 8 \<le> LENGTH('a)" using snoc.prems by simp
  have "\<not> bit ?x k" if "8 * length bs \<le> k" for k
    using that be_get_take_bit [of bs, where 'a = 'a] by (metis bit_take_bit_iff not_less)
  then have "drop_bit 8 (push_bit 8 ?x OR ucast b) = ?x"
    using le by (intro bit_word_eqI)
      (auto simp: bit_or_iff bit_push_bit_iff bit_drop_bit_eq bit_ucast_iff dest: bit_imp_le_length
        intro: ccontr)
  moreover have "ucast (push_bit 8 ?x OR ucast b :: 'a word) = b"
    using le by (intro bit_word_eqI) (auto simp: bit_or_iff bit_push_bit_iff bit_ucast_iff)
  ultimately show ?case using snoc by (simp add: be_get_snoc)
qed (simp add: be_get_def)

lemma BigEndian_64 [simp]:
  "length (BigEndian_PutUint64 w) = 8" "BigEndian_Uint64 (BigEndian_PutUint64 w) = w"
  "length bs = 8 \<Longrightarrow> BigEndian_PutUint64 (BigEndian_Uint64 bs) = bs"
  using be_put_get [of bs, where 'a = 64]
  by (simp_all add: BigEndian_PutUint64_def BigEndian_Uint64_def be_get_put take_bit_word_eq_self)

lemma BigEndian_32 [simp]:
  "length (BigEndian_PutUint32 w) = 4" "BigEndian_Uint32 (BigEndian_PutUint32 w) = w"
  "length bs = 4 \<Longrightarrow> BigEndian_PutUint32 (BigEndian_Uint32 bs) = bs"
  using be_put_get [of bs, where 'a = 32]
  by (simp_all add: BigEndian_PutUint32_def BigEndian_Uint32_def be_get_put take_bit_word_eq_self)

lemma LittleEndian_16 [simp]:
  "length (LittleEndian_PutUint16 w) = 2" "LittleEndian_Uint16 (LittleEndian_PutUint16 w) = w"
  "LittleEndian_PutUint16 (LittleEndian_Uint16 [a, b]) = [a, b]"
proof -
  show "LittleEndian_Uint16 (LittleEndian_PutUint16 w) = w"
    by (rule bit_word_eqI)
      (auto simp: LittleEndian_Uint16_def LittleEndian_PutUint16_def bit_or_iff bit_push_bit_iff
        bit_drop_bit_eq bit_ucast_iff)
  have "ucast (ucast a OR push_bit 8 (ucast b) :: 16 word) = a"
    by (rule bit_word_eqI) (auto simp: bit_or_iff bit_push_bit_iff bit_ucast_iff)
  moreover have "ucast (drop_bit 8 (ucast a OR push_bit 8 (ucast b) :: 16 word)) = b"
    by (rule bit_word_eqI)
      (auto simp: bit_or_iff bit_push_bit_iff bit_drop_bit_eq bit_ucast_iff dest: bit_imp_le_length)
  ultimately show "LittleEndian_PutUint16 (LittleEndian_Uint16 [a, b]) = [a, b]"
    by (simp add: LittleEndian_Uint16_def LittleEndian_PutUint16_def)
qed (simp add: LittleEndian_PutUint16_def)

end
