(* ===== verification/Strkey.thy ===== *)
theory Strkey
  imports Base32 Crc16 Go_Binary
begin

text \<open>
  The strkey encoding of keys and addresses (\<^verbatim>\<open>strkey/main.go\<close>, \<^verbatim>\<open>muxed_account.go\<close>,
  \<^verbatim>\<open>muxed_contract.go\<close>, \<^verbatim>\<open>signed_payload.go\<close>): a version byte, a payload and a checksum in
  unpadded base32. Strings are lists of characters (one per byte), payloads lists of
  bytes. Every error value of the package is a constructor of \<open>strkey_error\<close>;
  \<open>SliceOutOfRange\<close> stands for the run-time panic of an index or slice expression.

  The XDR encoding of an unsigned hyper and of a byte string comes from the
  \<^verbatim>\<open>go-xdr\<close> package, which is not part of this repository: the functions that call it take
  \<open>marshal\<close> and \<open>unmarshal\<close> as arguments, and the theorems about them assume
  the encoding of RFC 4506.
\<close>

section \<open>Definitions\<close>

datatype strkey_error =
    ErrInvalidVersionByte
  | StrkeyTooLong nat
  | StrkeyTooShort nat
  | Base32DecodeFailed nat
  | UnusedLeftoverCharacter
  | UnusedBitsSet
  | DecodedTooShort
  | ChecksumError crc16_error
  | InvalidPayloadLength nat nat
  | SignedPayloadTooShort nat nat
  | SignedPayloadDeclares nat nat
  | SignedPayloadLength nat nat nat
  | SignedPayloadPadding
  | DataTooLong
  | InvalidEd25519PublicKey
  | NoEd25519Key
  | MarshalError
  | InvalidMuxedAccount
  | InvalidContractAddress
  | InvalidMuxedContract
  | PayloadEmpty
  | PayloadTooLong nat nat
  | SignerDecode strkey_error
  | InvalidSignedPayload
  | SliceOutOfRange

type_synonym VersionByte = byte

definition VersionByteAccountID :: VersionByte where
  "VersionByteAccountID = push_bit 3 6"
definition VersionByteSeed :: VersionByte where
  "VersionByteSeed = push_bit 3 18"
definition VersionByteMuxedAccount :: VersionByte where
  "VersionByteMuxedAccount = push_bit 3 12"
definition VersionByteHashTx :: VersionByte where
  "VersionByteHashTx = push_bit 3 19"
definition VersionByteHashX :: VersionByte where
  "VersionByteHashX = push_bit 3 23"
definition VersionByteSignedPayload :: VersionByte where
  "VersionByteSignedPayload = push_bit 3 15"
definition VersionByteContract :: VersionByte where
  "VersionByteContract = push_bit 3 2"
definition VersionByteLiquidityPool :: VersionByte where
  "VersionByteLiquidityPool = push_bit 3 11"
definition VersionByteClaimableBalance :: VersionByte where
  "VersionByteClaimableBalance = push_bit 3 1"
definition VersionByteMuxedContract :: VersionByte where
  "VersionByteMuxedContract = push_bit 3 22"

definition maxPayloadSize :: nat where
  "maxPayloadSize = 100"
definition maxRawSize :: nat where
  "maxRawSize = 1 + maxPayloadSize + 2"
definition maxEncodedSize :: nat where
  "maxEncodedSize = (maxRawSize * 8 + 4) div 5"
definition maxPayloadLen :: nat where
  "maxPayloadLen = 64"

definition checkValidVersionByte :: "VersionByte \<Rightarrow> strkey_error option" where
  "checkValidVersionByte version =
     (if version = VersionByteAccountID \<or> version = VersionByteMuxedAccount \<or> version = VersionByteSeed \<or>
         version = VersionByteHashTx \<or> version = VersionByteHashX \<or> version = VersionByteSignedPayload \<or>
         version = VersionByteContract \<or> version = VersionByteLiquidityPool \<or>
         version = VersionByteClaimableBalance \<or> version = VersionByteMuxedContract
      then None else Some ErrInvalidVersionByte)"

definition notBase32 :: byte where
  "notBase32 = 0xff"

definition initDecodingTable :: "bytes" where
  "initDecodingTable =
     foldl (\<lambda>t (i, ch). t[of_char ch := of_nat i]) (replicate 256 notBase32)
       (enumerate 0 ''ABCDEFGHIJKLMNOPQRSTUVWXYZ234567'')"

definition decodingTable :: "char \<Rightarrow> byte" where
  "decodingTable ch = initDecodingTable ! of_char ch"

text \<open>The loop that looks for the first character outside the alphabet, from index \<open>i\<close>.\<close>

fun not_base32_index :: "nat \<Rightarrow> string \<Rightarrow> nat option" where
  "not_base32_index i [] = None"
| "not_base32_index i (ch # s) =
     (if decodingTable ch = notBase32 then Some i else not_base32_index (Suc i) s)"

definition decodeString :: "string \<Rightarrow> (strkey_error, bytes) result" where
  "decodeString src =
     (if maxEncodedSize < length src then Inl (StrkeyTooLong (length src))
      else if length src < 5 then Inl (StrkeyTooShort (length src))
      else case not_base32_index 0 src of
        Some i \<Rightarrow> Inl (Base32DecodeFailed i)
      | None \<Rightarrow>
         (let leftoverBits = (length src * 5) mod 8;
              leftoverBitsMask = drop_bit (4 - leftoverBits) (0x0f :: byte)
          in if 5 \<le> leftoverBits then Inl UnusedLeftoverCharacter
             else if 0 < leftoverBits \<and> decodingTable (last src) AND leftoverBitsMask \<noteq> 0
             then Inl UnusedBitsSet
             else Inr (base32_Decode src)))"

text \<open>CAP-40 structure of a signed payload.\<close>

definition checkSignedPayload :: "bytes \<Rightarrow> strkey_error option" where
  "checkSignedPayload payload =
     (let headerLen = 32 + 4 in
      if length payload < headerLen then Some (SignedPayloadTooShort (length payload) headerLen)
      else let declared = unat (BigEndian_Uint32 (take (headerLen - 32) (drop 32 payload))) in
        if declared < 1 \<or> maxPayloadLen < declared then Some (SignedPayloadDeclares declared maxPayloadLen)
        else let padded = (declared + 3) div 4 * 4 in
          if length payload \<noteq> headerLen + padded
          then Some (SignedPayloadLength (length payload) (headerLen + padded) declared)
          else if \<exists>b \<in> set (drop (headerLen + declared) payload). b \<noteq> 0
          then Some SignedPayloadPadding
          else None)"

definition checkPayloadLength :: "VersionByte \<Rightarrow> bytes \<Rightarrow> strkey_error option" where
  "checkPayloadLength version payload =
     (let check = (\<lambda>expected. if length payload \<noteq> expected
                     then Some (InvalidPayloadLength (length payload) expected) else None) in
      if version = VersionByteAccountID \<or> version = VersionByteSeed \<or> version = VersionByteHashTx \<or>
         version = VersionByteHashX \<or> version = VersionByteContract \<or> version = VersionByteLiquidityPool
      then check 32
      else if version = VersionByteClaimableBalance then check 33
      else if version = VersionByteMuxedAccount then check 40
      else if version = VersionByteMuxedContract then check 40
      else if version = VersionByteSignedPayload then checkSignedPayload payload
      else Some ErrInvalidVersionByte)"

definition DecodeAny :: "string \<Rightarrow> (strkey_error, VersionByte \<times> bytes) result" where
  "DecodeAny src =
     (case decodeString src of
        Inl err \<Rightarrow> Inl err
      | Inr raw \<Rightarrow>
         if length raw < 3 then Inl SliceOutOfRange
         else let version = raw ! 0;
                  vp = take (length raw - 2) raw;
                  payload = drop 1 (take (length raw - 2) raw);
                  checksum = drop (length raw - 2) raw
         in case checkValidVersionByte version of Some err \<Rightarrow> Inl err
          | None \<Rightarrow>
         (case crc16_Validate vp (LittleEndian_Uint16 checksum) of Some err \<Rightarrow> Inl (ChecksumError err)
          | None \<Rightarrow>
         (case checkPayloadLength version payload of Some err \<Rightarrow> Inl err
          | None \<Rightarrow> Inr (version, payload))))"

definition strkey_Decode :: "VersionByte \<Rightarrow> string \<Rightarrow> (strkey_error, bytes) result" where
  "strkey_Decode expected src =
     (case checkValidVersionByte expected of Some err \<Rightarrow> Inl err
      | None \<Rightarrow>
     (case decodeString src of
        Inl err \<Rightarrow> Inl err
      | Inr raw \<Rightarrow>
         if length raw < 3 then Inl DecodedTooShort
         else let version = raw ! 0;
                  vp = take (length raw - 2) raw;
                  payload = drop 1 (take (length raw - 2) raw);
                  checksum = drop (length raw - 2) raw
         in if version \<noteq> expected then Inl ErrInvalidVersionByte
         else case crc16_Validate vp (LittleEndian_Uint16 checksum) of Some err \<Rightarrow> Inl (ChecksumError err)
          | None \<Rightarrow>
         (case checkPayloadLength version payload of Some err \<Rightarrow> Inl err
          | None \<Rightarrow> Inr payload)))"

text \<open>The \<^verbatim>\<open>Must\<close> variants panic where the plain ones return an error.\<close>

definition strkey_MustDecode :: "VersionByte \<Rightarrow> string \<Rightarrow> bytes option" where
  "strkey_MustDecode expected src = (case strkey_Decode expected src of Inl _ \<Rightarrow> None | Inr d \<Rightarrow> Some d)"

definition strkey_Encode :: "VersionByte \<Rightarrow> bytes \<Rightarrow> (strkey_error, string) result" where
  "strkey_Encode version src =
     (case checkValidVersionByte version of Some err \<Rightarrow> Inl err
      | None \<Rightarrow>
        if maxPayloadSize < length src then Inl DataTooLong
        else let rawSize = 1 + length src + 2;
                 crc = crc16_Checksum (version # src);
                 raw = version # src @ LittleEndian_PutUint16 crc;
                 encSize = EncodedLen rawSize
             in if maxRawSize < rawSize \<or> maxEncodedSize < encSize then Inl SliceOutOfRange
                else Inr (base32_Encode raw))"

definition strkey_MustEncode :: "VersionByte \<Rightarrow> bytes \<Rightarrow> string option" where
  "strkey_MustEncode version src = (case strkey_Encode version src of Inl _ \<Rightarrow> None | Inr e \<Rightarrow> Some e)"

definition strkey_Version :: "string \<Rightarrow> (strkey_error, VersionByte) result" where
  "strkey_Version src =
     (case decodeString src of
        Inl err \<Rightarrow> Inl err
      | Inr raw \<Rightarrow> if raw = [] then Inl SliceOutOfRange else Inr (raw ! 0))"

text \<open>An \<^verbatim>\<open>interface{}\<close> argument: a string or a value of another type.\<close>

datatype go_any = GoString string | GoOther

definition is_valid_any :: "VersionByte \<Rightarrow> go_any \<Rightarrow> bool" where
  "is_valid_any version i =
     (case i of GoOther \<Rightarrow> False | GoString enc \<Rightarrow> (case strkey_Decode version enc of Inl _ \<Rightarrow> False | Inr _ \<Rightarrow> True))"

definition IsValidEd25519PublicKey :: "go_any \<Rightarrow> bool" where
  "IsValidEd25519PublicKey i = is_valid_any VersionByteAccountID i"
definition IsValidContractAddress :: "go_any \<Rightarrow> bool" where
  "IsValidContractAddress i = is_valid_any VersionByteContract i"
definition IsValidClaimableBalance :: "go_any \<Rightarrow> bool" where
  "IsValidClaimableBalance i = is_valid_any VersionByteClaimableBalance i"
definition IsValidLiquidityPool :: "go_any \<Rightarrow> bool" where
  "IsValidLiquidityPool i = is_valid_any VersionByteLiquidityPool i"
definition IsValidMuxedAccountEd25519PublicKey :: "string \<Rightarrow> bool" where
  "IsValidMuxedAccountEd25519PublicKey s = is_valid_any VersionByteMuxedAccount (GoString s)"
definition IsValidMuxedContractAddress :: "string \<Rightarrow> bool" where
  "IsValidMuxedContractAddress s = is_valid_any VersionByteMuxedContract (GoString s)"
definition IsValidEd25519SecretSeed :: "go_any \<Rightarrow> bool" where
  "IsValidEd25519SecretSeed i = is_valid_any VersionByteSeed i"

section \<open>The decoding table\<close>

lemma update_by_enumerate:
  "distinct l \<Longrightarrow> length t = 256 \<Longrightarrow>
    foldl (\<lambda>t (i, ch). t[of_char ch := of_nat i]) t (enumerate k l) ! of_char c =
      (if c \<in> set l then of_nat (k + length (takeWhile (\<lambda>a. a \<noteq> c) l)) else t ! of_char c)"
proof (induction l arbitrary: t k)
  case (Cons a l)
  have "of_char c < (256 :: nat)" using nat_of_char_less_256 by blast
  with Cons show ?case by (auto simp: nth_list_update add.assoc add.left_commute)
qed simp

lemma decodingTable_eq:
  "decodingTable c = (if c \<in> set base32_alphabet then of_nat (base32_value c) else notBase32)"
proof -
  have "of_char c < (256 :: nat)" using nat_of_char_less_256 by blast
  then have "replicate 256 notBase32 ! of_char c = notBase32" by simp
  then show ?thesis
    unfolding decodingTable_def initDecodingTable_def base32_alphabet_def [symmetric]
    by (subst update_by_enumerate)
      (simp_all add: base32_alphabet_distinct base32_value_def del: nth_replicate)
qed

lemma decodingTable_notBase32: "decodingTable c = notBase32 \<longleftrightarrow> c \<notin> set base32_alphabet"
proof -
  have "of_nat (base32_value c) \<noteq> notBase32" if "c \<in> set base32_alphabet"
  proof
    assume "of_nat (base32_value c) = notBase32"
    then have "unat (of_nat (base32_value c) :: byte) = unat (255 :: byte)" by (simp add: notBase32_def)
    then show False using nth_base32_value(1) [OF that] by (simp add: unat_of_nat)
  qed
  then show ?thesis by (simp add: decodingTable_eq)
qed

lemma not_base32_index_None: "not_base32_index i s = None \<longleftrightarrow> set s \<subseteq> set base32_alphabet"
  by (induction i s rule: not_base32_index.induct) (auto simp: decodingTable_notBase32)

lemma leftover_bits_clear:
  assumes "v < 32" and "0 < z" and "z \<le> 4"
  shows "(of_nat v :: byte) AND drop_bit (4 - z) 0x0f = 0 \<longleftrightarrow> drop (5 - z) (nat_bits 5 v) = replicate z False"
proof -
  have m: "drop_bit (4 - z) (0x0f :: byte) = mask z"
  proof -
    have "z \<in> {1, 2, 3, 4}" using assms by auto
    then show ?thesis by (auto simp: mask_eq_exp_minus_1)
  qed
  have "drop (5 - z) (nat_bits 5 v) = rev (map (bit v) [0..<z])"
    using assms unfolding nat_bits_def by (simp add: drop_rev take_map)
  moreover have "rev (map (bit v) [0..<z]) = replicate z False \<longleftrightarrow> (\<forall>i < z. \<not> bit v i)"
    by (subst rev_swap) (simp add: list_eq_iff_nth_eq)
  moreover have "(of_nat v :: byte) AND mask z = 0 \<longleftrightarrow> (\<forall>i < z. \<not> bit v i)"
  proof -
    have "i < 8" if "i < z" for i using that assms(3) by simp
    then show ?thesis by (auto simp: bit_eq_iff bit_and_iff bit_mask_iff bit_of_nat_iff)
  qed
  ultimately show ?thesis unfolding m by simp
qed

text \<open>
  \<open>decodeString\<close> accepts exactly the base32 encodings of 3 to 103 bytes, and
  returns those bytes.
\<close>

lemma leftover_check:
  assumes "s \<noteq> []" and "set s \<subseteq> set base32_alphabet" and "z = 5 * length s mod 8" and "z < 5"
  shows "\<not> (0 < z \<and> decodingTable (last s) AND drop_bit (4 - z) 0x0f \<noteq> 0) \<longleftrightarrow>
    drop (5 * length s - z) (chars_bits s) = replicate z False"
proof (cases "z = 0")
  case False
  have last: "last s \<in> set base32_alphabet" using assms(1,2) last_in_set by blast
  have split: "chars_bits s = chars_bits (butlast s) @ nat_bits 5 (base32_value (last s))"
    by (subst append_butlast_last_id [OF assms(1), symmetric]) (simp add: chars_bits_def)
  have "length s = Suc (length (butlast s))" using assms(1) by (cases s) simp_all
  then have "5 * length s - z - 5 * length (butlast s) = 5 - z" "5 * length (butlast s) \<le> 5 * length s - z"
    using assms(4) by linarith+
  then have "drop (5 * length s - z) (chars_bits s) = drop (5 - z) (nat_bits 5 (base32_value (last s)))"
    unfolding split drop_append length_chars_bits by simp
  then show ?thesis
    using leftover_bits_clear [OF nth_base32_value(1) [OF last], of z] False assms(4) last
    by (simp add: decodingTable_eq)
qed simp

lemma decodeString_Inr:
  "decodeString s = Inr raw \<longleftrightarrow> base32_Encode raw = s \<and> 3 \<le> length raw \<and> length raw \<le> 103"
proof
  assume d: "decodeString s = Inr raw"
  let ?z = "5 * length s mod 8"
  from d have len: "length s \<le> 165" "5 \<le> length s"
    by (auto simp: decodeString_def maxEncodedSize_def maxRawSize_def maxPayloadSize_def split: if_splits)
  from d len have n: "not_base32_index 0 s = None"
    by (auto simp: decodeString_def split: if_splits option.splits)
  then have a: "set s \<subseteq> set base32_alphabet" by (simp add: not_base32_index_None)
  from d n have z: "?z < 5" and r: "raw = base32_Decode s"
    and m: "\<not> (0 < ?z \<and> decodingTable (last s) AND drop_bit (4 - ?z) 0x0f \<noteq> 0)"
    by (auto simp: decodeString_def Let_def mult.commute split: if_splits)
  have "s \<noteq> []" using len by auto
  then have "drop (5 * length s - ?z) (chars_bits s) = replicate ?z False"
    using leftover_check [OF _ a refl z] m by blast
  moreover have "3 \<le> 5 * length s div 8" "5 * length s div 8 \<le> 103" using len by linarith+
  ultimately show "base32_Encode raw = s \<and> 3 \<le> length raw \<and> length raw \<le> 103"
    using base32_Encode_Decode [OF a z] r by simp
next
  assume e: "base32_Encode raw = s \<and> 3 \<le> length raw \<and> length raw \<le> 103"
  let ?z = "5 * length s mod 8"
  from e have l: "length s = EncodedLen (length raw)" and a: "set s \<subseteq> set base32_alphabet"
    using base32_Encode_bits by auto
  have len: "5 \<le> length s" "length s \<le> 165" using l e unfolding EncodedLen_def by linarith+
  have z: "?z < 5" "5 * length s - ?z = 8 * length raw" "EncodedLen (length raw) * 5 - 8 * length raw = ?z"
    using EncodedLen_mod [of "length raw"] EncodedLen_bounds [of "length raw"] unfolding l by linarith+
  have "chars_bits s = bytes_bits raw @ replicate ?z False"
    using e base32_Encode_bits [of raw] z(3) by auto
  then have "drop (5 * length s - ?z) (chars_bits s) = replicate ?z False" unfolding z(2) by simp
  then have "\<not> (0 < ?z \<and> decodingTable (last s) AND drop_bit (4 - ?z) 0x0f \<noteq> 0)"
    using leftover_check [OF _ a refl z(1)] len by (cases "s = []") auto
  then show "decodeString s = Inr raw"
    using len z(1) a e base32_Decode_Encode [of raw]
    by (auto simp: decodeString_def maxEncodedSize_def maxRawSize_def maxPayloadSize_def
        not_base32_index_None [THEN iffD2] Let_def mult.commute)
qed

section \<open>Encoding and decoding\<close>

lemma version_byte_values:
  "VersionByteAccountID = 0x30" "VersionByteSeed = 0x90" "VersionByteMuxedAccount = 0x60" "VersionByteHashTx = 0x98"
  "VersionByteHashX = 0xb8" "VersionByteSignedPayload = 0x78" "VersionByteContract = 0x10"
  "VersionByteLiquidityPool = 0x58" "VersionByteClaimableBalance = 0x08" "VersionByteMuxedContract = 0xb0"
  by (simp_all add: VersionByteAccountID_def VersionByteSeed_def VersionByteMuxedAccount_def VersionByteHashTx_def
      VersionByteHashX_def VersionByteSignedPayload_def VersionByteContract_def VersionByteLiquidityPool_def
      VersionByteClaimableBalance_def VersionByteMuxedContract_def)

lemma checkSignedPayload_eq:
  assumes "d = unat (BigEndian_Uint32 (take 4 (drop 32 p)))" and "n = (d + 3) div 4 * 4"
  shows "checkSignedPayload p =
      (if length p < 36 then Some (SignedPayloadTooShort (length p) 36)
       else if d < 1 \<or> 64 < d then Some (SignedPayloadDeclares d 64)
       else if length p \<noteq> 36 + n then Some (SignedPayloadLength (length p) (36 + n) d)
       else if \<exists>b \<in> set (drop (36 + d) p). b \<noteq> 0 then Some SignedPayloadPadding else None)"
proof -
  have h: "(32 :: nat) + 4 = 36" "(36 :: nat) - 32 = 4" by simp_all
  show ?thesis unfolding assms checkSignedPayload_def Let_def maxPayloadLen_def h by (rule refl)
qed

lemma checkSignedPayload_None:
  assumes "d = unat (BigEndian_Uint32 (take 4 (drop 32 p)))" and "n = (d + 3) div 4 * 4"
  shows "checkSignedPayload p = None \<longleftrightarrow>
    1 \<le> d \<and> d \<le> 64 \<and> length p = 36 + n \<and> (\<forall>b \<in> set (drop (36 + d) p). b = 0)"
  unfolding checkSignedPayload_eq [OF assms] by auto

lemma checkSignedPayload_length: "checkSignedPayload p = None \<Longrightarrow> length p \<le> 100"
proof -
  assume "checkSignedPayload p = None"
  then obtain d where "d \<le> 64" "length p = 36 + (d + 3) div 4 * 4"
    using checkSignedPayload_None [OF refl refl] by blast
  moreover from this have "(d + 3) div 4 \<le> 67 div 4" by (intro div_le_mono) simp
  ultimately show ?thesis by simp
qed

lemma checkPayloadLength_valid:
  assumes "checkPayloadLength v p = None"
  shows "checkValidVersionByte v = None" and "length p \<le> 100"
proof -
  show "checkValidVersionByte v = None"
  proof (rule ccontr)
    assume "checkValidVersionByte v \<noteq> None"
    then have "checkPayloadLength v p = Some ErrInvalidVersionByte"
      unfolding checkValidVersionByte_def checkPayloadLength_def Let_def by (simp split: if_split_asm)
    with assms show False by simp
  qed
  have "checkPayloadLength v p \<noteq> None" if "100 < length p"
  proof -
    have "checkSignedPayload p \<noteq> None" using that checkSignedPayload_length by fastforce
    with that show ?thesis unfolding checkPayloadLength_def Let_def by simp
  qed
  then show "length p \<le> 100" using assms by fastforce
qed

lemma split_raw:
  assumes "3 \<le> length raw"
  obtains v p a b where "raw = v # p @ [a, b]"
proof -
  from assms obtain v rest where raw: "raw = v # rest" by (cases raw) auto
  with assms have "2 \<le> length (rev rest)" by simp
  then obtain b a p where "rev rest = b # a # p" by (metis Suc_le_length_iff numeral_2_eq_2)
  then have "rest = rev p @ [a, b]" by (metis rev_rev_ident rev.simps(2) append_assoc append_Cons append_Nil)
  with raw show thesis using that by blast
qed

lemma crc16_Validate_None: "crc16_Validate vp c = None \<longleftrightarrow> c = crc16_Checksum vp"
  by (auto simp: crc16_Validate_def)

lemma strkey_Encode_Inr:
  "strkey_Encode v p = Inr s \<longleftrightarrow> checkValidVersionByte v = None \<and> length p \<le> 100 \<and>
     s = base32_Encode (v # p @ LittleEndian_PutUint16 (crc16_Checksum (v # p)))"
  by (auto simp: strkey_Encode_def maxPayloadSize_def maxRawSize_def maxEncodedSize_def EncodedLen_def Let_def
      split: option.splits if_splits)

lemma raw_parts:
  "take (length (v # p @ [a, b]) - 2) (v # p @ [a, b]) = v # p"
  "drop 1 (take (length (v # p @ [a, b]) - 2) (v # p @ [a, b])) = p"
  "drop (length (v # p @ [a, b]) - 2) (v # p @ [a, b]) = [a, b]"
  by simp_all

lemma DecodeAny_raw:
  assumes "decodeString s = Inr (v # p @ [a, b])"
  shows "DecodeAny s = Inr (w, q) \<longleftrightarrow> w = v \<and> q = p \<and> checkValidVersionByte v = None \<and>
    LittleEndian_Uint16 [a, b] = crc16_Checksum (v # p) \<and> checkPayloadLength v p = None"
  using crc16_Validate_None [of "v # p" "LittleEndian_Uint16 [a, b]"]
  unfolding DecodeAny_def assms sum.case Let_def raw_parts
  by (auto split: option.splits)

lemma strkey_Decode_raw:
  assumes "decodeString s = Inr (v # p @ [a, b])"
  shows "strkey_Decode w s = Inr q \<longleftrightarrow> w = v \<and> q = p \<and> checkValidVersionByte v = None \<and>
    LittleEndian_Uint16 [a, b] = crc16_Checksum (v # p) \<and> checkPayloadLength v p = None"
  using crc16_Validate_None [of "v # p" "LittleEndian_Uint16 [a, b]"]
  unfolding strkey_Decode_def assms sum.case Let_def raw_parts
  by (auto split: option.splits)

lemma decodeString_not_short: "decodeString s = Inr raw \<Longrightarrow> \<exists>v p a b. raw = v # p @ [a, b]"
  by (metis decodeString_Inr split_raw)

lemma decodes_iff_encodes:
  assumes "decodeString s = Inr (v # p @ [a, b])"
  shows "LittleEndian_Uint16 [a, b] = crc16_Checksum (v # p) \<and> checkPayloadLength v p = None \<longleftrightarrow>
    strkey_Encode v p = Inr s \<and> checkPayloadLength v p = None"
proof -
  have s: "base32_Encode (v # p @ [a, b]) = s" using assms by (simp add: decodeString_Inr)
  have "[a, b] = LittleEndian_PutUint16 c \<longleftrightarrow> LittleEndian_Uint16 [a, b] = c" for c
    by (metis LittleEndian_16(2,3))
  moreover have "base32_Encode x = base32_Encode y \<longleftrightarrow> x = y" for x y
    by (metis base32_Decode_Encode)
  ultimately show ?thesis
    using checkPayloadLength_valid [of v p] unfolding strkey_Encode_Inr s [symmetric] by auto
qed

lemma strkey_decoders_iff:
  "(strkey_Decode v s = Inr p \<longleftrightarrow> strkey_Encode v p = Inr s \<and> checkPayloadLength v p = None) \<and>
   (DecodeAny s = Inr (v, p) \<longleftrightarrow> strkey_Encode v p = Inr s \<and> checkPayloadLength v p = None)"
proof (cases "decodeString s")
  case (Inl e)
  have "strkey_Encode v p \<noteq> Inr s"
  proof
    assume "strkey_Encode v p = Inr s"
    then have "decodeString s = Inr (v # p @ LittleEndian_PutUint16 (crc16_Checksum (v # p)))"
      by (simp add: strkey_Encode_Inr decodeString_Inr)
    with Inl show False by simp
  qed
  with Inl show ?thesis by (simp add: strkey_Decode_def DecodeAny_def split: option.splits)
next
  case (Inr raw)
  from decodeString_not_short [OF this] obtain v' p' a b where raw: "raw = v' # p' @ [a, b]" by blast
  have d: "decodeString s = Inr (v' # p' @ [a, b])" using Inr raw by simp
  have "v = v' \<and> p = p'" if "strkey_Encode v p = Inr s"
    using that d by (auto simp: strkey_Encode_Inr decodeString_Inr LittleEndian_PutUint16_def
        dest!: arg_cong [where f = base32_Decode] simp: base32_Decode_Encode)
  then show ?thesis
    using strkey_Decode_raw [OF d, of v p] DecodeAny_raw [OF d, of v p] decodes_iff_encodes [OF d]
      checkPayloadLength_valid [of v p] by metis
qed

lemma strkey_Encode_total: "checkPayloadLength v p = None \<Longrightarrow> \<exists>s. strkey_Encode v p = Inr s"
  using checkPayloadLength_valid [of v p] by (simp add: strkey_Encode_Inr)

lemmas strkey_Decode_iff = strkey_decoders_iff [THEN conjunct1]

text \<open>
  C32: Strkeys are canonical. A string decodes to a payload under a version byte exactly when
  it is the encoding of that payload and the payload has the structure SEP-23 prescribes
  for the version: so distinct strings never decode to the same value, every encoding of
  a well-formed payload decodes to it, and the decoder that takes no expected version
  agrees with the one that does.
\<close>
theorem strkey_canonical:
  "(strkey_Decode v s = Inr p \<longleftrightarrow> strkey_Encode v p = Inr s \<and> checkPayloadLength v p = None) \<and>
   (DecodeAny s = Inr (v, p) \<longleftrightarrow> strkey_Encode v p = Inr s \<and> checkPayloadLength v p = None)"
  by (rule strkey_decoders_iff)

text \<open>
  Every payload that has the structure prescribed for its version byte is encoded
  without error, and the string decodes to it by every decoder of the package.
\<close>
lemma strkey_roundtrip:
  assumes "checkPayloadLength v p = None"
  shows "\<exists>s. strkey_Encode v p = Inr s \<and> length s \<le> maxEncodedSize \<and> strkey_Decode v s = Inr p \<and>
    DecodeAny s = Inr (v, p) \<and> strkey_Version s = Inr v"
proof -
  let ?raw = "v # p @ LittleEndian_PutUint16 (crc16_Checksum (v # p))"
  have l: "length p \<le> 100" and e: "strkey_Encode v p = Inr (base32_Encode ?raw)"
    using checkPayloadLength_valid [OF assms] by (simp_all add: strkey_Encode_Inr)
  have d: "decodeString (base32_Encode ?raw) = Inr ?raw" using l by (simp add: decodeString_Inr)
  obtain a b where ab: "LittleEndian_PutUint16 (crc16_Checksum (v # p)) = [a, b]"
    by (simp add: LittleEndian_PutUint16_def)
  note d' = d [unfolded ab]
  have "length (base32_Encode ?raw) \<le> maxEncodedSize"
    using l by (simp add: base32_Encode_bits EncodedLen_def maxEncodedSize_def maxRawSize_def maxPayloadSize_def)
  moreover have "strkey_Version (base32_Encode ?raw) = Inr v" by (simp add: strkey_Version_def d)
  moreover have "strkey_Decode v (base32_Encode ?raw) = Inr p" "DecodeAny (base32_Encode ?raw) = Inr (v, p)"
    using decodes_iff_encodes [OF d'] e assms checkPayloadLength_valid [OF assms]
    unfolding ab strkey_Decode_raw [OF d'] DecodeAny_raw [OF d'] by simp_all
  ultimately show ?thesis using e by blast
qed

lemma strkey_roundtrip_witness:
  "\<exists>s. strkey_Encode VersionByteAccountID (replicate 32 7) = Inr s \<and> length s \<le> maxEncodedSize \<and>
    strkey_Decode VersionByteAccountID s = Inr (replicate 32 7) \<and>
    DecodeAny s = Inr (VersionByteAccountID, replicate 32 7) \<and> strkey_Version s = Inr VersionByteAccountID"
  by (rule strkey_roundtrip) (simp add: checkPayloadLength_def)

text \<open>
  No input makes the slice and index expressions of the decoders panic: a string that
  passes \<^verbatim>\<open>decodeString\<close> has room for a version byte and a checksum, and the fixed-size
  buffers of \<^verbatim>\<open>Encode\<close> hold every payload that passes its length check.
\<close>
lemma strkey_no_panic:
  "DecodeAny s \<noteq> Inl SliceOutOfRange \<and> strkey_Version s \<noteq> Inl SliceOutOfRange \<and>
   strkey_Decode v s \<noteq> Inl SliceOutOfRange \<and> strkey_Encode v p \<noteq> Inl SliceOutOfRange"
proof -
  have ds: "decodeString s \<noteq> Inl SliceOutOfRange"
    by (simp add: decodeString_def Let_def split: option.splits)
  have cv: "checkValidVersionByte v \<noteq> Some SliceOutOfRange" for v by (simp add: checkValidVersionByte_def)
  have "checkSignedPayload p \<noteq> Some SliceOutOfRange" for p
  proof -
    define d where "d = unat (BigEndian_Uint32 (take 4 (drop 32 p)))"
    define n where "n = (d + 3) div 4 * 4"
    show ?thesis unfolding checkSignedPayload_eq [OF d_def n_def] by simp
  qed
  then have cp: "checkPayloadLength v p \<noteq> Some SliceOutOfRange" for v p
    by (simp add: checkPayloadLength_def Let_def)
  have len: "3 \<le> length raw" if "decodeString s = Inr raw" for raw
    using that by (simp add: decodeString_Inr)
  have "DecodeAny s \<noteq> Inl SliceOutOfRange" "strkey_Version s \<noteq> Inl SliceOutOfRange"
    "strkey_Decode v s \<noteq> Inl SliceOutOfRange"
    using ds cv cp len
    by (auto simp: DecodeAny_def strkey_Version_def strkey_Decode_def Let_def split: sum.splits option.splits dest: len)
  moreover have "strkey_Encode v p \<noteq> Inl SliceOutOfRange"
    using cv by (auto simp: strkey_Encode_def Let_def maxPayloadSize_def maxRawSize_def maxEncodedSize_def EncodedLen_def
        split: option.splits)
  ultimately show ?thesis by blast
qed

end
