(* ===== verification/Strkey_Address.thy ===== *)
theory Strkey_Address
  imports Strkey
begin

text \<open>
  The composite addresses of the strkey package: multiplexed accounts (M-addresses,
  \<^verbatim>\<open>muxed_account.go\<close>), multiplexed contracts (W-addresses, \<^verbatim>\<open>muxed_contract.go\<close>) and
  signed payloads (P-addresses, \<^verbatim>\<open>signed_payload.go\<close>).
\<close>

section \<open>Definitions\<close>

text \<open>\<^verbatim>\<open>copy(dst, src)\<close>: as many bytes as both slices have.\<close>

definition go_copy :: "bytes \<Rightarrow> bytes \<Rightarrow> bytes" where
  "go_copy dst src = take (length dst) src @ drop (length src) dst"

record MuxedAccount =
  muxed_id :: "64 word"
  muxed_ed25519 :: bytes

definition MuxedAccount_SetID :: "MuxedAccount \<Rightarrow> 64 word \<Rightarrow> MuxedAccount" where
  "MuxedAccount_SetID m i = m\<lparr>muxed_id := i\<rparr>"

definition SetAccountID :: "MuxedAccount \<Rightarrow> string \<Rightarrow> (strkey_error, MuxedAccount) result" where
  "SetAccountID m address =
     (case strkey_Decode VersionByteAccountID address of
        Inl _ \<Rightarrow> Inl InvalidEd25519PublicKey
      | Inr raw \<Rightarrow> Inr (m\<lparr>muxed_ed25519 := go_copy (muxed_ed25519 m) raw\<rparr>))"

definition MuxedAccount_AccountID :: "MuxedAccount \<Rightarrow> (strkey_error, string) result" where
  "MuxedAccount_AccountID m = strkey_Encode VersionByteAccountID (muxed_ed25519 m)"

definition MuxedAccount_Address ::
    "(64 word \<Rightarrow> (strkey_error, bytes) result) \<Rightarrow> MuxedAccount \<Rightarrow> (strkey_error, string) result" where
  "MuxedAccount_Address marshal m =
     (if muxed_ed25519 m = replicate 32 0 then Inl NoEd25519Key
      else case marshal (muxed_id m) of
        Inl _ \<Rightarrow> Inl MarshalError
      | Inr b \<Rightarrow> strkey_Encode VersionByteMuxedAccount (muxed_ed25519 m @ b))"

definition DecodeMuxedAccount ::
    "(bytes \<Rightarrow> (strkey_error, 64 word) result) \<Rightarrow> string \<Rightarrow> (strkey_error, MuxedAccount) result" where
  "DecodeMuxedAccount unmarshal address =
     (case strkey_Decode VersionByteMuxedAccount address of
        Inl _ \<Rightarrow> Inl InvalidMuxedAccount
      | Inr raw \<Rightarrow>
         if length raw < 32 then Inl SliceOutOfRange
         else case unmarshal (drop 32 raw) of
           Inl _ \<Rightarrow> Inl MarshalError
         | Inr i \<Rightarrow> Inr \<lparr>muxed_id = i, muxed_ed25519 = go_copy (replicate 32 0) (take 32 raw)\<rparr>)"

record MuxedContract =
  mc_id :: "64 word"
  mc_contractID :: bytes

definition MuxedContract_SetID :: "MuxedContract \<Rightarrow> 64 word \<Rightarrow> MuxedContract" where
  "MuxedContract_SetID m i = m\<lparr>mc_id := i\<rparr>"

definition SetContractID :: "MuxedContract \<Rightarrow> string \<Rightarrow> (strkey_error, MuxedContract) result" where
  "SetContractID m address =
     (case strkey_Decode VersionByteContract address of
        Inl _ \<Rightarrow> Inl InvalidContractAddress
      | Inr raw \<Rightarrow> Inr (m\<lparr>mc_contractID := go_copy (mc_contractID m) raw\<rparr>))"

definition MuxedContract_ContractID :: "MuxedContract \<Rightarrow> (strkey_error, string) result" where
  "MuxedContract_ContractID m = strkey_Encode VersionByteContract (mc_contractID m)"

definition MuxedContract_Address :: "MuxedContract \<Rightarrow> (strkey_error, string) result" where
  "MuxedContract_Address m =
     strkey_Encode VersionByteMuxedContract
       (go_copy (replicate 32 0) (mc_contractID m) @ BigEndian_PutUint64 (mc_id m))"

definition DecodeMuxedContract :: "string \<Rightarrow> (strkey_error, MuxedContract) result" where
  "DecodeMuxedContract address =
     (case strkey_Decode VersionByteMuxedContract address of
        Inl _ \<Rightarrow> Inl InvalidMuxedContract
      | Inr raw \<Rightarrow>
         if length raw < 40 then Inl SliceOutOfRange
         else Inr \<lparr>mc_id = BigEndian_Uint64 (drop 32 raw),
                   mc_contractID = go_copy (replicate 32 0) (take 32 raw)\<rparr>)"

record SignedPayload =
  sp_signer :: string
  sp_payload :: bytes

definition NewSignedPayload :: "string \<Rightarrow> bytes \<Rightarrow> (strkey_error, SignedPayload) result" where
  "NewSignedPayload signerPublicKey payload =
     (if length payload = 0 then Inl PayloadEmpty
      else if maxPayloadLen < length payload then Inl (PayloadTooLong (length payload) maxPayloadLen)
      else Inr \<lparr>sp_signer = signerPublicKey, sp_payload = payload\<rparr>)"

text \<open>The error of \<^verbatim>\<open>xdr.Marshal\<close> is ignored here: \<open>marshal\<close> is what it writes to the buffer.\<close>

definition SignedPayload_Encode :: "(bytes \<Rightarrow> bytes) \<Rightarrow> SignedPayload \<Rightarrow> (strkey_error, string) result" where
  "SignedPayload_Encode marshal sp =
     (case strkey_Decode VersionByteAccountID (sp_signer sp) of
        Inl err \<Rightarrow> Inl (SignerDecode err)
      | Inr signerBytes \<Rightarrow> strkey_Encode VersionByteSignedPayload (signerBytes @ marshal (sp_payload sp)))"

definition DecodeSignedPayload :: "string \<Rightarrow> (strkey_error, SignedPayload) result" where
  "DecodeSignedPayload address =
     (case strkey_Decode VersionByteSignedPayload address of
        Inl _ \<Rightarrow> Inl InvalidSignedPayload
      | Inr raw \<Rightarrow>
         if length raw < 36 then Inl SliceOutOfRange
         else case strkey_Encode VersionByteAccountID (take 32 raw) of
           Inl err \<Rightarrow> Inl err
         | Inr signer \<Rightarrow>
            let declared = unat (BigEndian_Uint32 (take 4 (drop 32 raw))) in
            if length raw < 36 + declared then Inl SliceOutOfRange
            else NewSignedPayload signer (take declared (drop 36 raw)))"

text \<open>The XDR encoding of a variable-length byte string (RFC 4506, section 4.10).\<close>

definition xdr_opaque :: "bytes \<Rightarrow> bytes" where
  "xdr_opaque p = BigEndian_PutUint32 (of_nat (length p)) @ p @ replicate ((length p + 3) div 4 * 4 - length p) 0"

section \<open>Multiplexed accounts and contracts\<close>

lemma go_copy_full [simp]: "length src = length dst \<Longrightarrow> go_copy dst src = src"
  by (simp add: go_copy_def)

lemma payload_lengths:
  "checkPayloadLength VersionByteAccountID p = None \<longleftrightarrow> length p = 32"
  "checkPayloadLength VersionByteContract p = None \<longleftrightarrow> length p = 32"
  "checkPayloadLength VersionByteMuxedAccount p = None \<longleftrightarrow> length p = 40"
  "checkPayloadLength VersionByteMuxedContract p = None \<longleftrightarrow> length p = 40"
  "checkPayloadLength VersionByteSignedPayload p = checkSignedPayload p"
  by (simp_all add: checkPayloadLength_def version_byte_values)

lemma encode_unique:
  assumes "strkey_Encode v p = Inr s" and "strkey_Encode v q = Inr s"
  shows "p = q"
  using assms unfolding strkey_Encode_Inr
  by (metis base32_Decode_Encode append_eq_append_conv LittleEndian_16(1) list.inject)

text \<open>A decoder that is the left inverse of an encoding has exactly one preimage.\<close>

lemma unique_preimage:
  assumes "checkPayloadLength v p = None"
  shows "\<exists>s. strkey_Encode v p = Inr s \<and> (\<forall>t. strkey_Decode v t = Inr p \<longleftrightarrow> t = s)"
  using strkey_Encode_total [OF assms] assms by (auto simp: strkey_Decode_iff)

lemma DecodeMuxedAccount_Inr:
  assumes "\<And>bs. length bs = 8 \<Longrightarrow> unmarshal bs = Inr (BigEndian_Uint64 bs)"
  shows "DecodeMuxedAccount unmarshal t = Inr m \<longleftrightarrow>
    strkey_Decode VersionByteMuxedAccount t = Inr (muxed_ed25519 m @ BigEndian_PutUint64 (muxed_id m)) \<and>
    length (muxed_ed25519 m) = 32"
proof (cases "strkey_Decode VersionByteMuxedAccount t")
  case (Inr raw)
  then have l: "length raw = 40" using payload_lengths(3) by (auto simp: strkey_Decode_iff)
  then have "DecodeMuxedAccount unmarshal t =
      Inr \<lparr>muxed_id = BigEndian_Uint64 (drop 32 raw), muxed_ed25519 = take 32 raw\<rparr>"
    by (simp add: DecodeMuxedAccount_def Inr assms)
  moreover have "raw = ed @ BigEndian_PutUint64 i \<and> length ed = 32 \<longleftrightarrow>
      BigEndian_Uint64 (drop 32 raw) = i \<and> take 32 raw = ed" for ed i
    using l append_take_drop_id [of 32 raw] BigEndian_64(3) [of "drop 32 raw"] by auto
  ultimately show ?thesis using Inr by (cases m) auto
qed (simp add: DecodeMuxedAccount_def)

text \<open>
  A multiplexed account with a key has one M-address: the address is computed without
  error, and it is the only string that \<^verbatim>\<open>DecodeMuxedAccount\<close> maps to that account, with
  \<^verbatim>\<open>go-xdr\<close> encoding an unsigned hyper as eight big-endian bytes.
\<close>
lemma MuxedAccount_roundtrip:
  assumes "\<And>i. marshal i = Inr (BigEndian_PutUint64 i)"
    and "\<And>bs. length bs = 8 \<Longrightarrow> unmarshal bs = Inr (BigEndian_Uint64 bs)"
    and "length (muxed_ed25519 m) = 32" and "muxed_ed25519 m \<noteq> replicate 32 0"
  shows "\<exists>s. MuxedAccount_Address marshal m = Inr s \<and> (\<forall>t. DecodeMuxedAccount unmarshal t = Inr m \<longleftrightarrow> t = s)"
proof -
  let ?p = "muxed_ed25519 m @ BigEndian_PutUint64 (muxed_id m)"
  have "checkPayloadLength VersionByteMuxedAccount ?p = None" using assms(3) by (simp add: payload_lengths)
  from unique_preimage [OF this] show ?thesis
    using assms by (simp add: MuxedAccount_Address_def DecodeMuxedAccount_Inr)
qed

lemma MuxedAccount_roundtrip_witness:
  "\<exists>s. MuxedAccount_Address (\<lambda>i. Inr (BigEndian_PutUint64 i)) \<lparr>muxed_id = 5, muxed_ed25519 = replicate 32 1\<rparr> = Inr s \<and>
    (\<forall>t. DecodeMuxedAccount (\<lambda>bs. Inr (BigEndian_Uint64 bs)) t = Inr \<lparr>muxed_id = 5, muxed_ed25519 = replicate 32 1\<rparr> \<longleftrightarrow> t = s)"
  by (rule MuxedAccount_roundtrip) simp_all

lemma DecodeMuxedContract_Inr:
  "DecodeMuxedContract t = Inr m \<longleftrightarrow>
    strkey_Decode VersionByteMuxedContract t = Inr (mc_contractID m @ BigEndian_PutUint64 (mc_id m)) \<and>
    length (mc_contractID m) = 32"
proof (cases "strkey_Decode VersionByteMuxedContract t")
  case (Inr raw)
  then have l: "length raw = 40" using payload_lengths(4) by (auto simp: strkey_Decode_iff)
  then have "DecodeMuxedContract t =
      Inr \<lparr>mc_id = BigEndian_Uint64 (drop 32 raw), mc_contractID = take 32 raw\<rparr>"
    by (simp add: DecodeMuxedContract_def Inr)
  moreover have "raw = ed @ BigEndian_PutUint64 i \<and> length ed = 32 \<longleftrightarrow>
      BigEndian_Uint64 (drop 32 raw) = i \<and> take 32 raw = ed" for ed i
    using l append_take_drop_id [of 32 raw] BigEndian_64(3) [of "drop 32 raw"] by auto
  ultimately show ?thesis using Inr by (cases m) auto
qed (simp add: DecodeMuxedContract_def)

lemma MuxedContract_unique_address:
  assumes "length (mc_contractID m) = 32"
  shows "\<exists>s. MuxedContract_Address m = Inr s \<and> (\<forall>t. DecodeMuxedContract t = Inr m \<longleftrightarrow> t = s)"
proof -
  let ?p = "mc_contractID m @ BigEndian_PutUint64 (mc_id m)"
  have "checkPayloadLength VersionByteMuxedContract ?p = None" using assms by (simp add: payload_lengths)
  from unique_preimage [OF this] show ?thesis
    using assms by (simp add: MuxedContract_Address_def DecodeMuxedContract_Inr)
qed

section \<open>Signed payloads\<close>

lemma xdr_opaque_payload:
  assumes "length k = 32" and "1 \<le> length p" and "length p \<le> 64"
  shows "checkSignedPayload (k @ xdr_opaque p) = None"
    and "take 32 (k @ xdr_opaque p) = k"
    and "unat (BigEndian_Uint32 (take 4 (drop 32 (k @ xdr_opaque p)))) = length p"
    and "take (length p) (drop 36 (k @ xdr_opaque p)) = p"
proof -
  have u: "unat (of_nat (length p) :: 32 word) = length p" using assms(3) by (simp add: unat_of_nat)
  then show d: "unat (BigEndian_Uint32 (take 4 (drop 32 (k @ xdr_opaque p)))) = length p"
    using assms(1) by (simp add: xdr_opaque_def)
  define n where "n = (length p + 3) div 4 * 4"
  have n: "length p \<le> n" unfolding n_def by linarith
  have "length (k @ xdr_opaque p) = 36 + n" using assms(1) n by (simp add: xdr_opaque_def n_def [symmetric])
  moreover have "drop (36 + length p) (k @ xdr_opaque p) = replicate (n - length p) 0"
    using assms(1) by (simp add: xdr_opaque_def n_def [symmetric])
  ultimately show "checkSignedPayload (k @ xdr_opaque p) = None"
    using checkSignedPayload_None [OF d [symmetric] n_def] assms(2,3) by simp
  show "take 32 (k @ xdr_opaque p) = k" "take (length p) (drop 36 (k @ xdr_opaque p)) = p"
    using assms(1) by (simp_all add: xdr_opaque_def)
qed

text \<open>Conversely, a payload that passes the check is a key followed by an XDR byte string.\<close>

lemma checkSignedPayload_opaque:
  assumes "checkSignedPayload raw = None" and "d = unat (BigEndian_Uint32 (take 4 (drop 32 raw)))"
  shows "36 + d \<le> length raw" and "raw = take 32 raw @ xdr_opaque (take d (drop 36 raw))"
proof -
  define n where "n = (d + 3) div 4 * 4"
  have n: "d \<le> n" unfolding n_def by linarith
  note c = checkSignedPayload_None [OF assms(2) n_def, THEN iffD1, OF assms(1)]
  show le: "36 + d \<le> length raw" using c n by simp
  have l: "length (take d (drop 36 raw)) = d" using le by simp
  have "of_nat d = BigEndian_Uint32 (take 4 (drop 32 raw))" by (simp add: assms(2))
  then have be: "BigEndian_PutUint32 (of_nat d) = take 4 (drop 32 raw)" using c by simp
  have "drop (36 + d) raw = replicate (n - d) 0"
    using c by (intro replicate_eqI) auto
  then have "xdr_opaque (take d (drop 36 raw)) = take 4 (drop 32 raw) @ take d (drop 36 raw) @ drop (36 + d) raw"
    unfolding xdr_opaque_def l be n_def [symmetric] by simp
  also have "take d (drop 36 raw) @ drop (36 + d) raw = drop 36 raw"
    using append_take_drop_id [of d "drop 36 raw"] by (simp add: add.commute)
  also have "take 4 (drop 32 raw) @ drop 36 raw = drop 32 raw"
    using append_take_drop_id [of 4 "drop 32 raw"] by simp
  finally show "raw = take 32 raw @ xdr_opaque (take d (drop 36 raw))" by simp
qed

lemma DecodeSignedPayload_Inr:
  "DecodeSignedPayload t = Inr sp \<longleftrightarrow>
    (\<exists>k. strkey_Decode VersionByteAccountID (sp_signer sp) = Inr k \<and> 1 \<le> length (sp_payload sp) \<and>
      length (sp_payload sp) \<le> 64 \<and>
      strkey_Decode VersionByteSignedPayload t = Inr (k @ xdr_opaque (sp_payload sp)))"
  (is "_ \<longleftrightarrow> ?R")
proof (cases "strkey_Decode VersionByteSignedPayload t")
  case (Inr raw)
  then have c: "checkSignedPayload raw = None" by (simp add: strkey_Decode_iff payload_lengths)
  define d where "d = unat (BigEndian_Uint32 (take 4 (drop 32 raw)))"
  define k where "k = take 32 raw"
  define q where "q = take d (drop 36 raw)"
  note o = checkSignedPayload_opaque [OF c d_def]
  have d: "1 \<le> d" "d \<le> 64" using checkSignedPayload_None [OF d_def refl] c by auto
  have k: "length k = 32" and q: "length q = d" using o(1) by (simp_all add: k_def q_def)
  have raw: "raw = k @ xdr_opaque q" using o(2) by (simp add: k_def q_def)
  obtain a where a: "strkey_Encode VersionByteAccountID k = Inr a"
    using strkey_Encode_total [of VersionByteAccountID k] k by (auto simp: payload_lengths)
  then have ak: "strkey_Decode VersionByteAccountID a = Inr k" using k by (simp add: strkey_Decode_iff payload_lengths)
  have "DecodeSignedPayload t = Inr \<lparr>sp_signer = a, sp_payload = q\<rparr>"
    using o(1) d q a unfolding DecodeSignedPayload_def Inr
    by (simp add: NewSignedPayload_def maxPayloadLen_def flip: d_def k_def q_def)
  moreover have "?R \<longleftrightarrow> sp = \<lparr>sp_signer = a, sp_payload = q\<rparr>"
  proof
    assume ?R
    then obtain k' where k': "strkey_Decode VersionByteAccountID (sp_signer sp) = Inr k'"
      and p: "1 \<le> length (sp_payload sp)" "length (sp_payload sp) \<le> 64"
      and eq: "raw = k' @ xdr_opaque (sp_payload sp)" by (auto simp: Inr)
    have "length k' = 32" using k' by (simp add: strkey_Decode_iff payload_lengths)
    note x = xdr_opaque_payload [OF this p]
    have "k' = k" using x(2) by (simp add: k_def eq)
    then have "sp_signer sp = a" using k' a by (simp add: strkey_Decode_iff)
    moreover have "sp_payload sp = q" using x(3,4) by (simp add: q_def d_def eq)
    ultimately show "sp = \<lparr>sp_signer = a, sp_payload = q\<rparr>" by simp
  next
    assume "sp = \<lparr>sp_signer = a, sp_payload = q\<rparr>"
    then show ?R using ak d q raw Inr by simp
  qed
  ultimately show ?thesis by auto
qed (simp add: DecodeSignedPayload_def)

text \<open>
  A signed payload built from a valid signer address has one P-address: encoding succeeds,
  and the string is the only one that \<^verbatim>\<open>DecodeSignedPayload\<close> maps to that payload, with
  \<^verbatim>\<open>go-xdr\<close> encoding byte strings as RFC 4506 prescribes.
\<close>
lemma SignedPayload_roundtrip:
  assumes "\<And>p. marshal p = xdr_opaque p"
    and "strkey_Decode VersionByteAccountID signer = Inr k" and "NewSignedPayload signer payload = Inr sp"
  shows "\<exists>s. SignedPayload_Encode marshal sp = Inr s \<and> (\<forall>t. DecodeSignedPayload t = Inr sp \<longleftrightarrow> t = s)"
proof -
  have sp: "sp_signer sp = signer" "1 \<le> length (sp_payload sp)" "length (sp_payload sp) \<le> 64"
    using assms(3) by (auto simp: NewSignedPayload_def maxPayloadLen_def Suc_le_eq split: if_splits)
  have k: "length k = 32" using assms(2) by (simp add: strkey_Decode_iff payload_lengths)
  have "checkPayloadLength VersionByteSignedPayload (k @ xdr_opaque (sp_payload sp)) = None"
    using xdr_opaque_payload(1) [OF k sp(2,3)] by (simp add: payload_lengths)
  from unique_preimage [OF this] show ?thesis
    using assms(1,2) sp by (simp add: SignedPayload_Encode_def DecodeSignedPayload_Inr)
qed

lemma witness_signer:
  "strkey_Decode VersionByteAccountID
     (base32_Encode (VersionByteAccountID # replicate 32 0 @ LittleEndian_PutUint16 (crc16_Checksum (VersionByteAccountID # replicate 32 0))))
   = Inr (replicate 32 0)"
  by (simp add: strkey_Decode_iff strkey_Encode_Inr payload_lengths checkValidVersionByte_def)

lemma SignedPayload_roundtrip_witness:
  "\<exists>s. SignedPayload_Encode xdr_opaque
      \<lparr>sp_signer = base32_Encode (VersionByteAccountID # replicate 32 0 @ LittleEndian_PutUint16 (crc16_Checksum (VersionByteAccountID # replicate 32 0))),
       sp_payload = [1, 2, 3]\<rparr> = Inr s \<and>
    (\<forall>t. DecodeSignedPayload t = Inr
      \<lparr>sp_signer = base32_Encode (VersionByteAccountID # replicate 32 0 @ LittleEndian_PutUint16 (crc16_Checksum (VersionByteAccountID # replicate 32 0))),
       sp_payload = [1, 2, 3]\<rparr> \<longleftrightarrow> t = s)"
  by (rule SignedPayload_roundtrip [OF refl witness_signer, where payload = "[1, 2, 3]"]) (simp add: NewSignedPayload_def maxPayloadLen_def)

end
