(* ===== verification/Xdr_Asset.thy ===== *)
theory Xdr_Asset
  imports Strkey
begin

text \<open>
  Assets of the Stellar ledger (\<^verbatim>\<open>xdr/asset.go\<close>, with \<^verbatim>\<open>trimRightZeros\<close> of
  \<^verbatim>\<open>trust_line_asset.go\<close> and the address functions of \<^verbatim>\<open>account_id.go\<close>). The tagged union
  \<^verbatim>\<open>xdr.Asset\<close> is a datatype with one constructor per arm; the byte array of an asset
  code is a list of characters and an ed25519 key a list of bytes, of the lengths that
  \<open>valid_asset\<close> requires (they are fixed-size arrays in the code).
\<close>

section \<open>Definitions\<close>

type_synonym AccountId = bytes

datatype AssetType = AssetTypeNative | AssetTypeCreditAlphanum4 | AssetTypeCreditAlphanum12

datatype Asset =
    Native
  | AlphaNum4 string AccountId
  | AlphaNum12 string AccountId

datatype asset_error =
    InvalidCodeLength
  | InvalidAssetType
  | AddressError strkey_error
  | NotValidAsset string
  | InvalidAssetCode string
  | InvalidIssuer string
  | NativeHasNoIssuer

definition valid_asset :: "Asset \<Rightarrow> bool" where
  "valid_asset a = (case a of
     Native \<Rightarrow> True
   | AlphaNum4 c i \<Rightarrow> length c = 4 \<and> length i = 32
   | AlphaNum12 c i \<Rightarrow> length c = 12 \<and> length i = 32)"

fun asset_type :: "Asset \<Rightarrow> AssetType" where
  "asset_type Native = AssetTypeNative"
| "asset_type (AlphaNum4 _ _) = AssetTypeCreditAlphanum4"
| "asset_type (AlphaNum12 _ _) = AssetTypeCreditAlphanum12"

fun asset_type_int :: "AssetType \<Rightarrow> nat" where
  "asset_type_int AssetTypeNative = 0"
| "asset_type_int AssetTypeCreditAlphanum4 = 1"
| "asset_type_int AssetTypeCreditAlphanum12 = 2"

fun AssetTypeToString :: "AssetType \<Rightarrow> string" where
  "AssetTypeToString AssetTypeNative = ''native''"
| "AssetTypeToString AssetTypeCreditAlphanum4 = ''credit_alphanum4''"
| "AssetTypeToString AssetTypeCreditAlphanum12 = ''credit_alphanum12''"

definition StringToAssetType :: "string \<Rightarrow> AssetType option" where
  "StringToAssetType s =
     (if s = ''native'' then Some AssetTypeNative
      else if s = ''credit_alphanum4'' then Some AssetTypeCreditAlphanum4
      else if s = ''credit_alphanum12'' then Some AssetTypeCreditAlphanum12
      else None)"

text \<open>Scans from the end for the last byte that is not zero.\<close>

fun trim_index :: "string \<Rightarrow> nat \<Rightarrow> nat" where
  "trim_index b 0 = 0"
| "trim_index b (Suc i) = (if b ! i \<noteq> CHR 0x00 then Suc i else trim_index b i)"

definition trimRightZeros :: "string \<Rightarrow> string" where
  "trimRightZeros b = take (trim_index b (length b)) b"

text \<open>\<^verbatim>\<open>AccountId.GetAddress\<close> and \<^verbatim>\<open>SetAddress\<close>; the key type is always ed25519.\<close>

definition GetAddress :: "AccountId \<Rightarrow> (strkey_error, string) result" where
  "GetAddress aid = strkey_Encode VersionByteAccountID aid"

definition SetAddress :: "string \<Rightarrow> (strkey_error, AccountId) result" where
  "SetAddress address =
     (case strkey_Decode VersionByteAccountID address of
        Inl err \<Rightarrow> Inl err
      | Inr raw \<Rightarrow> Inr (take 32 raw @ replicate (32 - length raw) 0))"

text \<open>
  \<^verbatim>\<open>strkey.MustEncode\<close> of an issuer key. The panic of \<^verbatim>\<open>MustEncode\<close> is the empty
  string here; \<open>issuer_address\<close> below shows that a 32-byte key never reaches it.
\<close>

definition issuer_string :: "AccountId \<Rightarrow> string" where
  "issuer_string i = (case strkey_MustEncode VersionByteAccountID i of Some s \<Rightarrow> s | None \<Rightarrow> [])"

text \<open>\<^verbatim>\<open>Extract\<close> with string destinations: type, code and issuer.\<close>

fun Extract :: "Asset \<Rightarrow> string \<times> string \<times> string" where
  "Extract Native = (AssetTypeToString AssetTypeNative, [], [])"
| "Extract (AlphaNum4 c i) =
     (AssetTypeToString AssetTypeCreditAlphanum4, trimRightZeros c, issuer_string i)"
| "Extract (AlphaNum12 c i) =
     (AssetTypeToString AssetTypeCreditAlphanum12, trimRightZeros c, issuer_string i)"

definition Asset_String :: "Asset \<Rightarrow> string" where
  "Asset_String a =
     (let (t, c, i) = Extract a in
      if asset_type a = AssetTypeNative then t else t @ ''/'' @ c @ ''/'' @ i)"

definition StringCanonical :: "Asset \<Rightarrow> string" where
  "StringCanonical a =
     (let (t, c, i) = Extract a in
      if asset_type a = AssetTypeNative then t else c @ '':'' @ i)"

definition AccountId_Equals :: "AccountId \<Rightarrow> AccountId \<Rightarrow> bool" where
  "AccountId_Equals a b \<longleftrightarrow> a = b"

fun Asset_Equals :: "Asset \<Rightarrow> Asset \<Rightarrow> bool" where
  "Asset_Equals Native Native = True"
| "Asset_Equals (AlphaNum4 c i) (AlphaNum4 c' i') = (c = c' \<and> AccountId_Equals i i')"
| "Asset_Equals (AlphaNum12 c i) (AlphaNum12 c' i') = (c = c' \<and> AccountId_Equals i i')"
| "Asset_Equals _ _ = False"

text \<open>\<^verbatim>\<open>copy(newbody.AssetCode[:], code)\<close>: the code padded with zero bytes.\<close>

definition pad_code :: "nat \<Rightarrow> string \<Rightarrow> string" where
  "pad_code n code = code @ replicate (n - length code) (CHR 0x00)"

definition SetNative :: Asset where
  "SetNative = Native"

definition SetCredit :: "string \<Rightarrow> AccountId \<Rightarrow> (asset_error, Asset) result" where
  "SetCredit code issuer =
     (if 1 \<le> length code \<and> length code \<le> 4 then Inr (AlphaNum4 (pad_code 4 code) issuer)
      else if 5 \<le> length code \<and> length code \<le> 12 then Inr (AlphaNum12 (pad_code 12 code) issuer)
      else Inl InvalidCodeLength)"

definition NewCreditAsset :: "string \<Rightarrow> string \<Rightarrow> (asset_error, Asset) result" where
  "NewCreditAsset code issuer =
     (case SetAddress issuer of
        Inl err \<Rightarrow> Inl (AddressError err)
      | Inr accountID \<Rightarrow> SetCredit code accountID)"

definition BuildAsset :: "string \<Rightarrow> string \<Rightarrow> string \<Rightarrow> (asset_error, Asset) result" where
  "BuildAsset assetType issuer code =
     (case StringToAssetType assetType of
        None \<Rightarrow> Inl InvalidAssetType
      | Some AssetTypeNative \<Rightarrow> Inr SetNative
      | Some _ \<Rightarrow>
         (case SetAddress issuer of
            Inl err \<Rightarrow> Inl (AddressError err)
          | Inr accountID \<Rightarrow> SetCredit code accountID))"

datatype AssetCode = AssetCode4 string | AssetCode12 string

definition NewAssetCodeFromString :: "string \<Rightarrow> (asset_error, AssetCode) result" where
  "NewAssetCodeFromString code =
     (if 1 \<le> length code \<and> length code \<le> 4 then Inr (AssetCode4 (pad_code 4 code))
      else if 5 \<le> length code \<and> length code \<le> 12 then Inr (AssetCode12 (pad_code 12 code))
      else Inl InvalidCodeLength)"

definition ToAssetCode :: "Asset \<Rightarrow> string \<Rightarrow> (asset_error, AssetCode) result" where
  "ToAssetCode a code =
     (if 1 \<le> length code \<and> length code \<le> 4 then Inr (AssetCode4 (pad_code 4 code))
      else if 5 \<le> length code \<and> length code \<le> 12 then Inr (AssetCode12 (pad_code 12 code))
      else Inl InvalidCodeLength)"

fun AssetCode_ToAsset :: "AssetCode \<Rightarrow> AccountId \<Rightarrow> Asset" where
  "AssetCode_ToAsset (AssetCode4 c) issuer = AlphaNum4 c issuer"
| "AssetCode_ToAsset (AssetCode12 c) issuer = AlphaNum12 c issuer"

text \<open>
  The parts of \<^verbatim>\<open>strings\<close> and \<^verbatim>\<open>regexp\<close> that \<^verbatim>\<open>BuildAssets\<close> uses. \<open>ToLower\<close> agrees
  with Go on whether the result is a given ASCII string: besides the ASCII letters, only
  U+0130 and U+212A (here as their UTF-8 bytes) have an ASCII lower case.
\<close>

fun strings_Split :: "char \<Rightarrow> string \<Rightarrow> string list" where
  "strings_Split sep [] = [[]]"
| "strings_Split sep (c # s) =
     (if c = sep then [] # strings_Split sep s
      else (case strings_Split sep s of [] \<Rightarrow> [[c]] | w # ws \<Rightarrow> (c # w) # ws))"

definition ascii_lower :: "char \<Rightarrow> char" where
  "ascii_lower c = (if 65 \<le> (of_char c :: nat) \<and> (of_char c :: nat) \<le> 90 then char_of ((of_char c :: nat) + 32) else c)"

fun strings_ToLower :: "string \<Rightarrow> string" where
  "strings_ToLower [] = []"
| "strings_ToLower (a # s) =
     (case s of
        b # t \<Rightarrow>
          if a = CHR 0xC4 \<and> b = CHR 0xB0 then CHR ''i'' # strings_ToLower t
          else (case t of
             c # u \<Rightarrow> if a = CHR 0xE2 \<and> b = CHR 0x84 \<and> c = CHR 0xAA then CHR ''k'' # strings_ToLower u
                     else ascii_lower a # strings_ToLower s
           | [] \<Rightarrow> ascii_lower a # strings_ToLower s)
      | [] \<Rightarrow> [ascii_lower a])"

definition is_alnum :: "char \<Rightarrow> bool" where
  "is_alnum c = (let n = (of_char c :: nat) in
     (48 \<le> n \<and> n \<le> 57) \<or> (65 \<le> n \<and> n \<le> 90) \<or> (97 \<le> n \<and> n \<le> 122))"

definition ValidAssetCode :: "string \<Rightarrow> bool" where
  "ValidAssetCode s \<longleftrightarrow> list_all is_alnum s \<and> 1 \<le> length s \<and> length s \<le> 12"

text \<open>One turn of the loop of \<^verbatim>\<open>BuildAssets\<close>.\<close>

definition parse_asset :: "string \<Rightarrow> (asset_error, Asset) result" where
  "parse_asset assetString =
     (if strings_ToLower assetString = ''native'' then Inr SetNative
      else case strings_Split (CHR '':'') assetString of
        [code, iss] \<Rightarrow>
          if \<not> ValidAssetCode code then Inl (InvalidAssetCode assetString)
          else (case SetAddress iss of
              Inl _ \<Rightarrow> Inl (InvalidIssuer assetString)
            | Inr issuer \<Rightarrow>
               (case SetCredit code issuer of Inl _ \<Rightarrow> Inl (NotValidAsset assetString) | Inr a \<Rightarrow> Inr a))
      | _ \<Rightarrow> Inl (NotValidAsset assetString))"

fun parse_assets :: "string list \<Rightarrow> (asset_error, Asset list) result" where
  "parse_assets [] = Inr []"
| "parse_assets (w # ws) =
     (case parse_asset w of
        Inl err \<Rightarrow> Inl err
      | Inr a \<Rightarrow> (case parse_assets ws of Inl err \<Rightarrow> Inl err | Inr as \<Rightarrow> Inr (a # as)))"

definition BuildAssets :: "string \<Rightarrow> (asset_error, Asset list) result" where
  "BuildAssets s = (if s = [] then Inr [] else parse_assets (strings_Split (CHR '','') s))"

fun GetCode :: "Asset \<Rightarrow> string" where
  "GetCode Native = []"
| "GetCode (AlphaNum4 c i) = c"
| "GetCode (AlphaNum12 c i) = c"

fun GetIssuer :: "Asset \<Rightarrow> string" where
  "GetIssuer Native = []"
| "GetIssuer (AlphaNum4 c i) = (case GetAddress i of Inl _ \<Rightarrow> [] | Inr addr \<Rightarrow> addr)"
| "GetIssuer (AlphaNum12 c i) = (case GetAddress i of Inl _ \<Rightarrow> [] | Inr addr \<Rightarrow> addr)"

fun GetIssuerAccountId :: "Asset \<Rightarrow> (asset_error, AccountId) result" where
  "GetIssuerAccountId Native = Inl NativeHasNoIssuer"
| "GetIssuerAccountId (AlphaNum4 c i) = Inr i"
| "GetIssuerAccountId (AlphaNum12 c i) = Inr i"

text \<open>Byte-wise lexicographic order: Go's \<^verbatim>\<open><\<close> on strings and \<^verbatim>\<open>bytes.Compare(a, b) < 0\<close>.\<close>

fun lex_less :: "('a \<Rightarrow> nat) \<Rightarrow> 'a list \<Rightarrow> 'a list \<Rightarrow> bool" where
  "lex_less f xs [] = False"
| "lex_less f [] (y # ys) = True"
| "lex_less f (x # xs) (y # ys) = (f x < f y \<or> (f x = f y \<and> lex_less f xs ys))"

definition issuer_key :: "Asset \<Rightarrow> bytes" where
  "issuer_key a = (case GetIssuerAccountId a of Inr i \<Rightarrow> i | Inl _ \<Rightarrow> [])"

definition Asset_LessThan :: "Asset \<Rightarrow> Asset \<Rightarrow> bool" where
  "Asset_LessThan a b =
     (if asset_type a \<noteq> asset_type b then asset_type_int (asset_type a) < asset_type_int (asset_type b)
      else if asset_type a = AssetTypeNative then False
      else if GetCode a \<noteq> GetCode b then lex_less of_char (GetCode a) (GetCode b)
      else lex_less unat (issuer_key a) (issuer_key b))"

definition IsNative :: "Asset \<Rightarrow> bool" where
  "IsNative a \<longleftrightarrow> asset_type a = AssetTypeNative"

text \<open>Assets whose code is alphanumeric, without the padding, and in the arm that its length selects.\<close>

definition canonical_asset :: "Asset \<Rightarrow> bool" where
  "canonical_asset a = (case a of
     Native \<Rightarrow> True
   | AlphaNum4 c i \<Rightarrow> (let w = trimRightZeros c in length c = 4 \<and> ValidAssetCode w \<and> length i = 32)
   | AlphaNum12 c i \<Rightarrow> (let w = trimRightZeros c in length c = 12 \<and> ValidAssetCode w \<and> 5 \<le> length w \<and> length i = 32))"

definition join_commas :: "string list \<Rightarrow> string" where
  "join_commas ws = concat (map (\<lambda>w. CHR '','' # w) ws)"

section \<open>Asset codes and issuers\<close>

lemma trim_index_bounds:
  "trim_index b n \<le> n \<and> (\<forall>i. trim_index b n \<le> i \<and> i < n \<longrightarrow> b ! i = CHR 0x00)"
  by (induction b n rule: trim_index.induct) (auto simp: less_Suc_eq)

lemma pad_trimRightZeros: "pad_code (length b) (trimRightZeros b) = b"
proof -
  let ?k = "trim_index b (length b)"
  have k: "?k \<le> length b" "\<forall>i. ?k \<le> i \<and> i < length b \<longrightarrow> b ! i = CHR 0x00"
    using trim_index_bounds [of b "length b"] by auto
  then have "drop ?k b = replicate (length b - ?k) (CHR 0x00)"
    by (intro nth_equalityI) simp_all
  then show ?thesis
    using k(1) by (simp add: pad_code_def trimRightZeros_def) (metis append_take_drop_id)
qed

lemma trimRightZeros_inject:
  "length a = length b \<Longrightarrow> trimRightZeros a = trimRightZeros b \<longleftrightarrow> a = b"
  by (metis pad_trimRightZeros)

lemma trim_index_pad:
  "c \<noteq> [] \<Longrightarrow> last c \<noteq> CHR 0x00 \<Longrightarrow> trim_index (c @ replicate k (CHR 0x00)) (length c + j) = length c"
  if "j \<le> k"
  using that
proof (induction j)
  case 0
  then show ?case by (cases "length c") (auto simp: nth_append last_conv_nth)
qed (simp add: nth_append)

lemma trimRightZeros_pad:
  assumes "c \<noteq> []" and "last c \<noteq> CHR 0x00"
  shows "trimRightZeros (pad_code n c) = c"
  using trim_index_pad [OF order_refl assms, of "n - length c"]
  by (simp add: trimRightZeros_def pad_code_def)

lemma issuer_address:
  assumes "length i = 32"
  shows "strkey_Encode VersionByteAccountID i = Inr (issuer_string i)" and "length (issuer_string i) = 56"
    and "set (issuer_string i) \<subseteq> set base32_alphabet" and "strkey_Decode VersionByteAccountID (issuer_string i) = Inr i"
proof -
  have c: "checkPayloadLength VersionByteAccountID i = None" using assms by (simp add: checkPayloadLength_def)
  then obtain s where s: "strkey_Encode VersionByteAccountID i = Inr s" using strkey_Encode_total by blast
  then have i: "issuer_string i = s" by (simp add: issuer_string_def strkey_MustEncode_def)
  show "strkey_Encode VersionByteAccountID i = Inr (issuer_string i)" using s i by simp
  show "strkey_Decode VersionByteAccountID (issuer_string i) = Inr i" using s c by (simp add: strkey_Decode_iff i)
  show "length (issuer_string i) = 56" "set (issuer_string i) \<subseteq> set base32_alphabet"
    using s assms unfolding i strkey_Encode_Inr by (simp_all add: base32_Encode_bits EncodedLen_def)
qed

lemma issuer_string_inject:
  "length i = 32 \<Longrightarrow> length j = 32 \<Longrightarrow> issuer_string i = issuer_string j \<longleftrightarrow> i = j"
  by (metis issuer_address(4) sum.inject(2))

lemma SetAddress_issuer_string: "length i = 32 \<Longrightarrow> SetAddress (issuer_string i) = Inr i"
  by (simp add: SetAddress_def issuer_address(4))

lemma SetAddress_length: "SetAddress s = Inr i \<Longrightarrow> length i = 32"
  by (auto simp: SetAddress_def split: sum.splits)

lemma SetCredit_valid: "length i = 32 \<Longrightarrow> SetCredit c i = Inr a \<Longrightarrow> valid_asset a"
  by (auto simp: SetCredit_def valid_asset_def pad_code_def split: if_splits)

section \<open>Strings of assets\<close>

lemma Asset_Equals_eq [simp]: "Asset_Equals a b \<longleftrightarrow> a = b"
  by (cases "(a, b)" rule: Asset_Equals.cases) (auto simp: AccountId_Equals_def)

lemma Asset_String_nonempty [simp]: "Asset_String a \<noteq> []"
  by (cases a) (simp_all add: Asset_String_def)

lemma code_issuer_inject:
  assumes "length c = length c'" and "length i = 32" and "length i' = 32"
  shows "trimRightZeros c @ x # issuer_string i = trimRightZeros c' @ x # issuer_string i' \<longleftrightarrow> c = c' \<and> i = i'"
proof -
  have "length (x # issuer_string i) = length (x # issuer_string i')"
    using assms by (simp add: issuer_address)
  then show ?thesis
    using assms by (simp add: issuer_string_inject trimRightZeros_inject)
qed

lemma Asset_String_inject:
  "valid_asset a \<Longrightarrow> valid_asset b \<Longrightarrow> Asset_String a = Asset_String b \<longleftrightarrow> a = b"
  by (cases a; cases b) (simp_all add: valid_asset_def Asset_String_def code_issuer_inject)

text \<open>
  The string that identifies an asset in the order book determines the asset: two
  well-formed assets have the same string exactly when they are equal, which is exactly
  when \<^verbatim>\<open>Equals\<close> holds, and no asset has the empty string (which marks a vacant id).
\<close>
lemma Asset_String_identifies:
  assumes "valid_asset a" and "valid_asset b"
  shows "Asset_String a \<noteq> [] \<and> (Asset_String a = Asset_String b \<longleftrightarrow> a = b) \<and> (Asset_Equals a b \<longleftrightarrow> a = b)"
  using Asset_String_inject [OF assms] by simp

lemma Asset_String_identifies_witness:
  "Asset_String (AlphaNum4 ''USD0'' (replicate 32 1)) \<noteq> [] \<and>
   (Asset_String (AlphaNum4 ''USD0'' (replicate 32 1)) = Asset_String Native \<longleftrightarrow>
      AlphaNum4 ''USD0'' (replicate 32 1) = Native) \<and>
   (Asset_Equals (AlphaNum4 ''USD0'' (replicate 32 1)) Native \<longleftrightarrow> AlphaNum4 ''USD0'' (replicate 32 1) = Native)"
  by (rule Asset_String_identifies) (simp_all add: valid_asset_def)

section \<open>The order of assets\<close>

lemma lex_less_irrefl: "\<not> lex_less f xs xs"
  by (induction xs) simp_all

lemma lex_less_trans: "lex_less f xs ys \<Longrightarrow> lex_less f ys zs \<Longrightarrow> lex_less f xs zs"
proof (induction f xs ys arbitrary: zs rule: lex_less.induct)
  case (2 f y ys)
  then show ?case by (cases zs) simp_all
next
  case (3 f x xs y ys)
  then show ?case by (cases zs) auto
qed simp

lemma lex_less_total: "inj f \<Longrightarrow> xs \<noteq> ys \<Longrightarrow> lex_less f xs ys \<or> lex_less f ys xs"
proof (induction f xs ys rule: lex_less.induct)
  case (1 f xs)
  then show ?case by (cases xs) simp_all
qed (auto simp: inj_eq)

lemma asset_components:
  "a = b \<longleftrightarrow> asset_type a = asset_type b \<and> GetCode a = GetCode b \<and> issuer_key a = issuer_key b"
  by (cases a; cases b) (auto simp: issuer_key_def)

lemma asset_type_int_inject: "asset_type_int a = asset_type_int b \<longleftrightarrow> a = b"
  by (cases a; cases b) simp_all

lemma Asset_LessThan_irrefl: "\<not> Asset_LessThan a a"
  by (simp add: Asset_LessThan_def lex_less_irrefl)

lemma Asset_LessThan_trans: "Asset_LessThan a b \<Longrightarrow> Asset_LessThan b c \<Longrightarrow> Asset_LessThan a c"
  by (auto simp: Asset_LessThan_def asset_type_int_inject lex_less_irrefl dest: lex_less_trans split: if_splits)

text \<open>
  \<^verbatim>\<open>LessThan\<close> is a strict total order on assets: irreflexive, transitive, and any two
  different assets are comparable.
\<close>
lemma Asset_LessThan_strict_total_order:
  "\<not> Asset_LessThan a a \<and>
   (Asset_LessThan a b \<and> Asset_LessThan b c \<longrightarrow> Asset_LessThan a c) \<and>
   (a = b \<or> Asset_LessThan a b \<or> Asset_LessThan b a)"
proof (intro conjI)
  show "\<not> Asset_LessThan a a" by (rule Asset_LessThan_irrefl)
  show "Asset_LessThan a b \<and> Asset_LessThan b c \<longrightarrow> Asset_LessThan a c"
    using Asset_LessThan_trans by blast
  have "inj (of_char :: char \<Rightarrow> nat)" "inj (unat :: byte \<Rightarrow> nat)"
    by (auto simp: inj_def unsigned_word_eqI)
  then show "a = b \<or> Asset_LessThan a b \<or> Asset_LessThan b a"
    unfolding asset_components Asset_LessThan_def
    using lex_less_total [of of_char "GetCode a" "GetCode b"] lex_less_total [of unat "issuer_key a" "issuer_key b"]
      asset_type_int_inject [of "asset_type a" "asset_type b"]
    by (cases a; cases b) (auto simp: issuer_key_def)
qed

lemma Asset_LessThan_strict_total_order_witness:
  "Asset_LessThan (AlphaNum4 ''EUR0'' (3 # replicate 31 0)) (AlphaNum4 ''USD0'' (1 # replicate 31 0)) \<and>
   Asset_LessThan (AlphaNum4 ''USD0'' (1 # replicate 31 0)) (AlphaNum4 ''USD0'' (2 # replicate 31 0)) \<and>
   Asset_LessThan (AlphaNum4 ''EUR0'' (3 # replicate 31 0)) (AlphaNum4 ''USD0'' (2 # replicate 31 0))"
proof -
  have "Asset_LessThan (AlphaNum4 ''EUR0'' (3 # replicate 31 0)) (AlphaNum4 ''USD0'' (1 # replicate 31 0))"
    and "Asset_LessThan (AlphaNum4 ''USD0'' (1 # replicate 31 0)) (AlphaNum4 ''USD0'' (2 # replicate 31 0))"
    by (simp_all add: Asset_LessThan_def issuer_key_def)
  then show ?thesis
    using Asset_LessThan_strict_total_order [of "AlphaNum4 ''EUR0'' (3 # replicate 31 0)"
      "AlphaNum4 ''USD0'' (1 # replicate 31 0)" "AlphaNum4 ''USD0'' (2 # replicate 31 0)"] by blast
qed

section \<open>Parsing lists of assets\<close>

lemma strings_Split_nonempty: "strings_Split sep s \<noteq> []"
  by (induction sep s rule: strings_Split.induct) (auto split: list.splits)

lemma strings_Split_no_sep: "sep \<notin> set s \<Longrightarrow> strings_Split sep s = [s]"
  by (induction s) auto

lemma strings_Split_append:
  "sep \<notin> set w \<Longrightarrow> strings_Split sep (w @ sep # s) = w # strings_Split sep s"
  by (induction w) auto

lemma base32_alphabet_alnum: "c \<in> set base32_alphabet \<Longrightarrow> is_alnum c"
  by (auto simp: base32_alphabet_def is_alnum_def)

lemma alnum_not_sep: "is_alnum c \<Longrightarrow> c \<noteq> CHR '':'' \<and> c \<noteq> CHR '',''"
  by (auto simp: is_alnum_def)

lemma ToLower_ascii:
  "CHR 0xC4 \<notin> set s \<Longrightarrow> CHR 0xE2 \<notin> set s \<Longrightarrow> strings_ToLower s = map ascii_lower s"
proof (induction s)
  case (Cons a s)
  then have "strings_ToLower s = map ascii_lower s" by simp
  with Cons.prems show ?case
    by (subst strings_ToLower.simps(2)) (auto simp del: strings_ToLower.simps(2) split: list.splits)
qed simp

lemma ValidAssetCode_not_sep: "ValidAssetCode w \<Longrightarrow> CHR '':'' \<notin> set w \<and> CHR '','' \<notin> set w"
  unfolding ValidAssetCode_def list_all_iff using alnum_not_sep by blast

lemma issuer_not_sep: "length i = 32 \<Longrightarrow> CHR '':'' \<notin> set (issuer_string i) \<and> CHR '','' \<notin> set (issuer_string i)"
  using issuer_address(3) base32_alphabet_alnum alnum_not_sep by blast

lemma credit_string_not_native:
  assumes "ValidAssetCode w" and "length i = 32"
  shows "strings_ToLower (w @ CHR '':'' # issuer_string i) \<noteq> ''native''"
proof -
  let ?s = "w @ CHR '':'' # issuer_string i"
  have "\<not> is_alnum (CHR 0xC4)" "\<not> is_alnum (CHR 0xE2)" by (simp_all add: is_alnum_def)
  moreover have "\<forall>c \<in> set ?s. is_alnum c \<or> c = CHR '':''"
    using assms issuer_address(3) [of i] base32_alphabet_alnum by (auto simp: ValidAssetCode_def list_all_iff)
  ultimately have "CHR 0xC4 \<notin> set ?s" "CHR 0xE2 \<notin> set ?s" by fastforce+
  then have "length (strings_ToLower ?s) = length ?s" by (simp add: ToLower_ascii)
  also have "\<dots> \<ge> 56" using assms(2) by (simp add: issuer_address(2))
  finally show ?thesis by auto
qed

lemma parse_credit:
  assumes "ValidAssetCode w" and "length i = 32" and "SetCredit w i = Inr a"
  shows "parse_asset (w @ CHR '':'' # issuer_string i) = Inr a"
proof -
  have "strings_Split (CHR '':'') (w @ CHR '':'' # issuer_string i) = [w, issuer_string i]"
    using ValidAssetCode_not_sep [OF assms(1)] issuer_not_sep [OF assms(2)]
    by (simp add: strings_Split_append strings_Split_no_sep)
  then show ?thesis
    using assms credit_string_not_native [OF assms(1,2)] by (simp add: parse_asset_def SetAddress_issuer_string)
qed

lemma SetCredit_trim:
  assumes "ValidAssetCode (trimRightZeros c)"
  shows "length c = 4 \<Longrightarrow> SetCredit (trimRightZeros c) i = Inr (AlphaNum4 c i)"
    and "length c = 12 \<Longrightarrow> 5 \<le> length (trimRightZeros c) \<Longrightarrow> SetCredit (trimRightZeros c) i = Inr (AlphaNum12 c i)"
proof -
  have "length (trimRightZeros c) \<le> length c" by (simp add: trimRightZeros_def)
  moreover have "1 \<le> length (trimRightZeros c)" using assms by (simp add: ValidAssetCode_def)
  ultimately show "length c = 4 \<Longrightarrow> SetCredit (trimRightZeros c) i = Inr (AlphaNum4 c i)"
    and "length c = 12 \<Longrightarrow> 5 \<le> length (trimRightZeros c) \<Longrightarrow> SetCredit (trimRightZeros c) i = Inr (AlphaNum12 c i)"
    using pad_trimRightZeros [of c] by (auto simp: SetCredit_def)
qed

lemma StringCanonical_credit:
  "StringCanonical (AlphaNum4 c i) = trimRightZeros c @ CHR '':'' # issuer_string i"
  "StringCanonical (AlphaNum12 c i) = trimRightZeros c @ CHR '':'' # issuer_string i"
  by (simp_all add: StringCanonical_def)

lemma parse_asset_StringCanonical: "canonical_asset a \<Longrightarrow> parse_asset (StringCanonical a) = Inr a"
proof (cases a)
  case Native
  then show ?thesis
    by (simp add: StringCanonical_def parse_asset_def SetNative_def ascii_lower_def)
qed (auto simp: canonical_asset_def Let_def StringCanonical_credit intro!: parse_credit SetCredit_trim)

lemma StringCanonical_no_comma: "canonical_asset a \<Longrightarrow> CHR '','' \<notin> set (StringCanonical a)"
  using ValidAssetCode_not_sep issuer_not_sep
  by (cases a) (auto simp: canonical_asset_def Let_def StringCanonical_credit StringCanonical_def)

text \<open>
  \<^verbatim>\<open>BuildAssets\<close> reads back the canonical strings of a list of assets: the comma-separated
  list of \<^verbatim>\<open>StringCanonical\<close> of any assets with alphanumeric codes parses to those assets.
\<close>
lemma BuildAssets_StringCanonical:
  assumes "list_all canonical_asset (a # as)"
  shows "BuildAssets (StringCanonical a @ join_commas (map StringCanonical as)) = Inr (a # as)"
proof -
  have "strings_Split (CHR '','') (StringCanonical a @ join_commas (map StringCanonical as)) =
      map StringCanonical (a # as)"
    using assms
  proof (induction as arbitrary: a)
    case Nil
    then show ?case by (simp add: join_commas_def strings_Split_no_sep StringCanonical_no_comma)
  next
    case (Cons b as)
    then show ?case
      using strings_Split_append [OF StringCanonical_no_comma, of a]
      by (simp add: join_commas_def)
  qed
  moreover have "parse_assets (map StringCanonical as) = Inr as" if "list_all canonical_asset as" for as
    using that by (induction as) (simp_all add: parse_asset_StringCanonical)
  moreover have "StringCanonical a \<noteq> []"
    by (cases a) (simp_all add: StringCanonical_credit, simp add: StringCanonical_def)
  ultimately show ?thesis using assms unfolding BuildAssets_def by (simp add: parse_asset_StringCanonical)
qed

lemma BuildAssets_StringCanonical_witness:
  "BuildAssets (StringCanonical Native @ join_commas (map StringCanonical [AlphaNum12 ''EURTOKENABCD'' (replicate 32 9)])) =
    Inr [Native, AlphaNum12 ''EURTOKENABCD'' (replicate 32 9)]"
  by (rule BuildAssets_StringCanonical)
    (simp add: canonical_asset_def trimRightZeros_def ValidAssetCode_def is_alnum_def eval_nat_numeral)

end
