(* ===== verification/Pools.thy ===== *)
theory Pools
  imports Xdr_Asset
begin

text \<open>
  Trades with constant-product liquidity pools (\<^verbatim>\<open>exp/orderbook/pools.go\<close> and
  \<^verbatim>\<open>utils.go\<close>). The 256-bit arithmetic comes from the \<^verbatim>\<open>holiman/uint256\<close> package, which is
  not part of this repository: its operations are a record \<open>U\<close> passed to the functions
  that use them, and the theorems assume \<open>uint256_spec\<close>, the documented behaviour of
  unsigned 256-bit integers. Asset ids are Go \<^verbatim>\<open>int32\<close> values, kept as \<open>nat\<close>.
\<close>

section \<open>Definitions\<close>

record LiquidityPoolEntryConstantProduct =
  cp_AssetA :: Asset
  cp_AssetB :: Asset
  cp_Fee :: int
  cp_ReserveA :: int
  cp_ReserveB :: int
  cp_TotalPoolShares :: int
  cp_PoolSharesTrustLineCount :: int

text \<open>
  \<^verbatim>\<open>xdr.LiquidityPoolEntry\<close>: the id, the type of its body and the pointer to the only arm.
\<close>

record LiquidityPoolEntry =
  lp_LiquidityPoolId :: bytes
  lp_Type :: int
  lp_ConstantProduct :: "LiquidityPoolEntryConstantProduct option"

record liquidityPool =
  pool_entry :: LiquidityPoolEntry
  pool_assetA :: nat
  pool_assetB :: nat

datatype pool_error = errPoolOverflows | errBadPoolType | errBadTradeType | errBadAmount | NilConstantProduct

datatype trade_type = tradeTypeDeposit | tradeTypeExpectation | tradeTypeOther

definition maxBasisPoints :: int where
  "maxBasisPoints = 10000"

text \<open>The operations of \<^verbatim>\<open>uint256.Int\<close> that the calculations call.\<close>

record 'u uint256 =
  u_NewInt :: "int \<Rightarrow> 'u"
  u_Add :: "'u \<Rightarrow> 'u \<Rightarrow> 'u"
  u_Sub :: "'u \<Rightarrow> 'u \<Rightarrow> 'u"
  u_Mul :: "'u \<Rightarrow> 'u \<Rightarrow> 'u"
  u_Div :: "'u \<Rightarrow> 'u \<Rightarrow> 'u"
  u_Mod :: "'u \<Rightarrow> 'u \<Rightarrow> 'u"
  u_AddUint64 :: "'u \<Rightarrow> int \<Rightarrow> 'u"
  u_Abs :: "'u \<Rightarrow> 'u"
  u_IsZero :: "'u \<Rightarrow> bool"
  u_IsUint64 :: "'u \<Rightarrow> bool"
  u_Uint64 :: "'u \<Rightarrow> int"

text \<open>The rounding slippage in basis points, computed alike by both calculations.\<close>

definition roundingSlippage :: "'u uint256 \<Rightarrow> 'u \<Rightarrow> 'u \<Rightarrow> 'u \<Rightarrow> int \<times> bool" where
  "roundingSlippage U numer denom result =
     (let maxBips = u_NewInt U maxBasisPoints;
          unrounded = u_Div U (u_Mul U numer maxBips) denom;
          rounded = u_Mul U result maxBips;
          S = u_Sub U unrounded rounded;
          S = u_Mul U (u_Abs U S) maxBips;
          S = u_Div U S unrounded;
          S = u_Div U S (u_NewInt U 100);
          roundingSlippageBips = wrap_int64 (u_Uint64 U S)
      in (roundingSlippageBips, u_IsUint64 U S \<and> 0 \<le> roundingSlippageBips))"

definition CalculatePoolPayout ::
    "'u uint256 \<Rightarrow> int \<Rightarrow> int \<Rightarrow> int \<Rightarrow> int \<Rightarrow> bool \<Rightarrow> int \<times> int \<times> bool" where
  "CalculatePoolPayout U reserveA reserveB received feeBips calculateRoundingSlippage =
     (if reserveA < 0 \<or> reserveB < 0 \<or> received < 0 then (0, 0, False)
      else if feeBips < 0 \<or> feeBips \<ge> maxBasisPoints then (0, 0, False)
      else if received > wrap_int64 (MaxInt64 - reserveA) then (0, 0, False)
      else
        let X = u_NewInt U reserveA; Y = u_NewInt U reserveB;
            F = u_NewInt U feeBips; x = u_NewInt U received;
            maxBips = u_NewInt U maxBasisPoints;
            f = u_Sub U maxBips F;
            denom = u_Add U (u_Mul U X maxBips) (u_Mul U x f)
        in if u_IsZero U denom then (0, 0, False)
           else
             let numer = u_Mul U (u_Mul U Y x) f;
                 result = u_Div U numer denom;
                 (roundingSlippageBips, ok) =
                   (if calculateRoundingSlippage \<and> \<not> u_IsZero U (u_Mod U numer denom)
                    then roundingSlippage U numer denom result else (0, True));
                 val = wrap_int64 (u_Uint64 U result)
             in (val, roundingSlippageBips, ok \<and> u_IsUint64 U result \<and> val > 0))"

definition CalculatePoolExpectation ::
    "'u uint256 \<Rightarrow> int \<Rightarrow> int \<Rightarrow> int \<Rightarrow> int \<Rightarrow> bool \<Rightarrow> int \<times> int \<times> bool" where
  "CalculatePoolExpectation U reserveA reserveB disbursed feeBips calculateRoundingSlippage =
     (if reserveA < 0 \<or> reserveB < 0 \<or> disbursed < 0 then (0, 0, False)
      else if feeBips < 0 \<or> feeBips \<ge> maxBasisPoints then (0, 0, False)
      else if disbursed \<ge> reserveB then (0, 0, False)
      else
        let X = u_NewInt U reserveA; Y = u_NewInt U reserveB;
            F = u_NewInt U feeBips; y = u_NewInt U disbursed;
            maxBips = u_NewInt U maxBasisPoints;
            f = u_Sub U maxBips F;
            denom = u_Mul U (u_Sub U Y y) f
        in if u_IsZero U denom then (0, 0, False)
           else
             let numer = u_Mul U (u_Mul U X y) maxBips;
                 result = u_Div U numer denom;
                 rem = u_Mod U numer denom;
                 rounded = (if u_IsZero U rem then result else u_AddUint64 U result 1);
                 (roundingSlippageBips, ok) =
                   (if \<not> u_IsZero U rem \<and> calculateRoundingSlippage
                    then roundingSlippage U numer denom rounded else (0, True));
                 val = wrap_int64 (u_Uint64 U rounded)
             in (val, roundingSlippageBips,
                 ok \<and> u_IsUint64 U rounded \<and> val \<ge> 0 \<and> val \<le> wrap_int64 (MaxInt64 - reserveA)))"

definition GetConstantProduct ::
    "LiquidityPoolEntry \<Rightarrow> (pool_error, LiquidityPoolEntryConstantProduct) result" where
  "GetConstantProduct p =
     (if lp_Type p = 0 then (case lp_ConstantProduct p of None \<Rightarrow> Inl NilConstantProduct | Some d \<Rightarrow> Inr d)
      else Inl errBadPoolType)"

definition makeTrade ::
    "'u uint256 \<Rightarrow> liquidityPool \<Rightarrow> nat \<Rightarrow> trade_type \<Rightarrow> int \<Rightarrow> (pool_error, int) result" where
  "makeTrade U pool asset tradeType amount =
     (case GetConstantProduct (pool_entry pool) of
        Inl err \<Rightarrow> Inl err
      | Inr details \<Rightarrow>
         if amount \<le> 0 then Inl errBadAmount
         else
           let (X, Y) = (if pool_assetA pool \<noteq> asset then (cp_ReserveB details, cp_ReserveA details)
                         else (cp_ReserveA details, cp_ReserveB details))
           in case tradeType of
                tradeTypeDeposit \<Rightarrow>
                  (case CalculatePoolPayout U X Y amount (cp_Fee details) False of
                     (result, _, ok) \<Rightarrow> if \<not> ok then Inl errPoolOverflows else Inr result)
              | tradeTypeExpectation \<Rightarrow>
                  (case CalculatePoolExpectation U X Y amount (cp_Fee details) False of
                     (result, _, ok) \<Rightarrow> if \<not> ok then Inl errPoolOverflows else Inr result)
              | tradeTypeOther \<Rightarrow> Inl errBadTradeType)"

definition getOtherAsset :: "nat \<Rightarrow> liquidityPool \<Rightarrow> nat" where
  "getOtherAsset asset pool = (if pool_assetA pool = asset then pool_assetB pool else pool_assetA pool)"

definition getPoolAssets :: "LiquidityPoolEntry \<Rightarrow> (pool_error, Asset \<times> Asset) result" where
  "getPoolAssets pool =
     (case GetConstantProduct pool of Inl err \<Rightarrow> Inl err | Inr d \<Rightarrow> Inr (cp_AssetA d, cp_AssetB d))"

definition positiveMin :: "int \<Rightarrow> int \<Rightarrow> int" where
  "positiveMin a b = (if b \<le> 0 then a else if b < a \<or> a \<le> 0 then b else a)"

text \<open>
  Documented behaviour of the 256-bit operations, through the value \<open>val\<close> of a
  \<^verbatim>\<open>uint256.Int\<close>: arithmetic modulo \<open>2^256\<close>, division by zero gives zero, \<^verbatim>\<open>Abs\<close> reads
  two's complement, \<^verbatim>\<open>Uint64\<close> the low 64 bits.
\<close>

definition uint256_spec :: "('u \<Rightarrow> int) \<Rightarrow> 'u uint256 \<Rightarrow> bool" where
  "uint256_spec val U \<longleftrightarrow>
     (\<forall>a. 0 \<le> val a \<and> val a < 2 ^ 256) \<and>
     (\<forall>n. 0 \<le> n \<and> n < 2 ^ 64 \<longrightarrow> val (u_NewInt U n) = n) \<and>
     (\<forall>a b. val (u_Add U a b) = (val a + val b) mod 2 ^ 256) \<and>
     (\<forall>a b. val (u_Sub U a b) = (val a - val b) mod 2 ^ 256) \<and>
     (\<forall>a b. val (u_Mul U a b) = (val a * val b) mod 2 ^ 256) \<and>
     (\<forall>a b. val (u_Div U a b) = (if val b = 0 then 0 else val a div val b)) \<and>
     (\<forall>a b. val (u_Mod U a b) = (if val b = 0 then 0 else val a mod val b)) \<and>
     (\<forall>a n. 0 \<le> n \<and> n < 2 ^ 64 \<longrightarrow> val (u_AddUint64 U a n) = (val a + n) mod 2 ^ 256) \<and>
     (\<forall>a. val (u_Abs U a) = (if val a < 2 ^ 255 then val a else 2 ^ 256 - val a)) \<and>
     (\<forall>a. u_IsZero U a \<longleftrightarrow> val a = 0) \<and>
     (\<forall>a. u_IsUint64 U a \<longleftrightarrow> val a < 2 ^ 64) \<and>
     (\<forall>a. u_Uint64 U a = val a mod 2 ^ 64)"

text \<open>An instance on the integers modulo \<open>2^256\<close>.\<close>

definition int_uint256 :: "int uint256" where
  "int_uint256 = \<lparr>
     u_NewInt = (\<lambda>n. n mod 2 ^ 256),
     u_Add = (\<lambda>a b. (a mod 2 ^ 256 + b mod 2 ^ 256) mod 2 ^ 256),
     u_Sub = (\<lambda>a b. (a mod 2 ^ 256 - b mod 2 ^ 256) mod 2 ^ 256),
     u_Mul = (\<lambda>a b. (a mod 2 ^ 256 * (b mod 2 ^ 256)) mod 2 ^ 256),
     u_Div = (\<lambda>a b. a mod 2 ^ 256 div (b mod 2 ^ 256)),
     u_Mod = (\<lambda>a b. if b mod 2 ^ 256 = 0 then 0 else a mod 2 ^ 256 mod (b mod 2 ^ 256)),
     u_AddUint64 = (\<lambda>a n. (a mod 2 ^ 256 + n) mod 2 ^ 256),
     u_Abs = (\<lambda>a. if a mod 2 ^ 256 < 2 ^ 255 then a mod 2 ^ 256 else 2 ^ 256 - a mod 2 ^ 256),
     u_IsZero = (\<lambda>a. a mod 2 ^ 256 = 0),
     u_IsUint64 = (\<lambda>a. a mod 2 ^ 256 < 2 ^ 64),
     u_Uint64 = (\<lambda>a. a mod 2 ^ 256 mod 2 ^ 64) \<rparr>"

text \<open>The amounts of CAP-38 in basis points: the floor and the ceiling of the exact quotients.\<close>

definition payout_amount :: "int \<Rightarrow> int \<Rightarrow> int \<Rightarrow> int \<Rightarrow> int" where
  "payout_amount X Y x F = Y * x * (10000 - F) div (X * 10000 + x * (10000 - F))"

definition deposit_amount :: "int \<Rightarrow> int \<Rightarrow> int \<Rightarrow> int \<Rightarrow> int" where
  "deposit_amount X Y y F = (let d = (Y - y) * (10000 - F) in (X * y * 10000 + d - 1) div d)"

definition pool_range :: "int \<Rightarrow> int \<Rightarrow> int \<Rightarrow> int \<Rightarrow> bool" where
  "pool_range X Y a F \<longleftrightarrow> in_int64 X \<and> 0 \<le> X \<and> in_int64 Y \<and> 0 \<le> Y \<and> in_int64 a \<and> 0 \<le> a \<and> 0 \<le> F \<and> F < 10000"

section \<open>256-bit arithmetic\<close>

lemma int_uint256_spec: "uint256_spec (\<lambda>a. a mod 2 ^ 256) int_uint256"
proof -
  have "a div b mod 2 ^ 256 = a div b" if "0 \<le> a" "a < 2 ^ 256" "0 \<le> b" for a b :: int
  proof -
    have "a div b \<le> a" using that zdiv_mono2 [of a 1 b] by (cases "b = 0") auto
    moreover have "0 \<le> a div b" using that by (cases "b = 0") (auto simp: pos_imp_zdiv_nonneg_iff)
    ultimately show ?thesis using that by simp
  qed
  moreover have "(2 ^ 256 - a mod 2 ^ 256) mod 2 ^ 256 = 2 ^ 256 - a mod (2 ^ 256 :: int)"
    if "\<not> a mod 2 ^ 256 < 2 ^ 255" for a :: int
    using that pos_mod_bound [of "2 ^ 256" a] by (intro mod_pos_pos_trivial) auto
  moreover have "a mod b mod 2 ^ 256 = a mod b" if "0 \<le> b" "b < 2 ^ 256" "b \<noteq> 0" for a b :: int
    using that pos_mod_bound [of b a] pos_mod_sign [of b a] by (intro mod_pos_pos_trivial) linarith+
  ultimately show ?thesis
    unfolding uint256_spec_def int_uint256_def by simp
qed

lemma uint256_specD:
  assumes "uint256_spec val U"
  shows "0 \<le> val a" and "val a < 2 ^ 256"
    and "0 \<le> n \<Longrightarrow> n < 2 ^ 64 \<Longrightarrow> val (u_NewInt U n) = n"
    and "val a + val b < 2 ^ 256 \<Longrightarrow> val (u_Add U a b) = val a + val b"
    and "val b \<le> val a \<Longrightarrow> val (u_Sub U a b) = val a - val b"
    and "val a < val b \<Longrightarrow> val (u_Sub U a b) = 2 ^ 256 + val a - val b"
    and "val a * val b < 2 ^ 256 \<Longrightarrow> val (u_Mul U a b) = val a * val b"
    and "val (u_Div U a b) = val a div val b"
    and "val b \<noteq> 0 \<Longrightarrow> val (u_Mod U a b) = val a mod val b"
    and "0 \<le> n \<Longrightarrow> n < 2 ^ 64 \<Longrightarrow> val a + n < 2 ^ 256 \<Longrightarrow> val (u_AddUint64 U a n) = val a + n"
    and "val (u_Abs U a) = (if val a < 2 ^ 255 then val a else 2 ^ 256 - val a)"
    and "u_IsZero U a \<longleftrightarrow> val a = 0"
    and "u_IsUint64 U a \<longleftrightarrow> val a < 2 ^ 64"
    and "u_Uint64 U a = val a mod 2 ^ 64"
proof -
  note u = assms [unfolded uint256_spec_def]
  show va: "0 \<le> val a" "val a < 2 ^ 256" for a using u by blast+
  show "0 \<le> n \<Longrightarrow> n < 2 ^ 64 \<Longrightarrow> val (u_NewInt U n) = n" using u by blast
  show "val a + val b < 2 ^ 256 \<Longrightarrow> val (u_Add U a b) = val a + val b"
    using u va [of a] va [of b] by (metis add_nonneg_nonneg mod_pos_pos_trivial)
  show "val b \<le> val a \<Longrightarrow> val (u_Sub U a b) = val a - val b"
  proof -
    assume le: "val b \<le> val a"
    have "val (u_Sub U a b) = (val a - val b) mod 2 ^ 256" using u by blast
    also have "\<dots> = val a - val b"
      using le va(2) [of a] va(1) [of b] by (intro mod_pos_pos_trivial) auto
    finally show ?thesis .
  qed
  show "val a < val b \<Longrightarrow> val (u_Sub U a b) = 2 ^ 256 + val a - val b"
  proof -
    assume lt: "val a < val b"
    have "val (u_Sub U a b) = (val a - val b) mod 2 ^ 256" using u by blast
    also have "\<dots> = (2 ^ 256 + val a - val b) mod 2 ^ 256"
      by (metis add_diff_eq mod_add_self1)
    also have "\<dots> = 2 ^ 256 + val a - val b"
      using lt va(1) [of a] va(2) [of b] by (intro mod_pos_pos_trivial) auto
    finally show ?thesis .
  qed
  show "val a * val b < 2 ^ 256 \<Longrightarrow> val (u_Mul U a b) = val a * val b"
    using u va [of a] va [of b] by (metis mult_nonneg_nonneg mod_pos_pos_trivial)
  have "val (u_Div U a b) = (if val b = 0 then 0 else val a div val b)" using u by blast
  then show "val (u_Div U a b) = val a div val b" by (simp split: if_splits)
  show "val b \<noteq> 0 \<Longrightarrow> val (u_Mod U a b) = val a mod val b" using u by simp
  show "0 \<le> n \<Longrightarrow> n < 2 ^ 64 \<Longrightarrow> val a + n < 2 ^ 256 \<Longrightarrow> val (u_AddUint64 U a n) = val a + n"
  proof -
    assume n: "0 \<le> n" "n < 2 ^ 64" "val a + n < 2 ^ 256"
    then have "val (u_AddUint64 U a n) = (val a + n) mod 2 ^ 256" using u by blast
    also have "\<dots> = val a + n" using n va(1) [of a] by (intro mod_pos_pos_trivial) linarith+
    finally show ?thesis .
  qed
  show "val (u_Abs U a) = (if val a < 2 ^ 255 then val a else 2 ^ 256 - val a)"
    "u_IsZero U a \<longleftrightarrow> val a = 0" "u_IsUint64 U a \<longleftrightarrow> val a < 2 ^ 64" "u_Uint64 U a = val a mod 2 ^ 64"
    using u by blast+
qed

lemma mult_less_powers:
  fixes a b :: int
  assumes "0 \<le> a" and "a < 2 ^ m" and "0 \<le> b" and "b < 2 ^ n" and "m + n \<le> k"
  shows "a * b < 2 ^ k"
proof -
  have "a * b < 2 ^ m * 2 ^ n"
    using assms(1-4) by (intro mult_strict_mono') auto
  also have "\<dots> \<le> 2 ^ k" using assms(5) by (simp flip: power_add)
  finally show ?thesis .
qed

section \<open>Payouts\<close>

lemma pool_terms:
  assumes "uint256_spec val U" and "in_int64 X" and "0 \<le> X" and "in_int64 Y" and "0 \<le> Y" and "in_int64 x" and "0 \<le> x"
    and "0 \<le> F" and "F < 10000"
  shows "val (u_NewInt U X) = X" and "val (u_Sub U (u_NewInt U maxBasisPoints) (u_NewInt U F)) = 10000 - F"
    and "val (u_Add U (u_Mul U (u_NewInt U X) (u_NewInt U maxBasisPoints))
      (u_Mul U (u_NewInt U x) (u_Sub U (u_NewInt U maxBasisPoints) (u_NewInt U F)))) = X * 10000 + x * (10000 - F)"
    and "val (u_Mul U (u_Mul U (u_NewInt U Y) (u_NewInt U x)) (u_Sub U (u_NewInt U maxBasisPoints) (u_NewInt U F)))
      = Y * x * (10000 - F)"
    and "val (u_Mul U (u_Mul U (u_NewInt U Y) (u_NewInt U x)) (u_NewInt U maxBasisPoints)) = Y * x * 10000"
proof -
  note D = uint256_specD [OF assms(1)]
  have v: "val (u_NewInt U n) = n" if "in_int64 n" "0 \<le> n" for n
    using D(3) [of n] that by (simp add: in_int64_def)
  have vf: "val (u_NewInt U F) = F" and vb: "val (u_NewInt U maxBasisPoints) = 10000"
    using v [of F] v [of 10000] assms(8,9) by (simp_all add: in_int64_def maxBasisPoints_def)
  have vX: "val (u_NewInt U X) = X" and vY: "val (u_NewInt U Y) = Y" and vx: "val (u_NewInt U x) = x"
    using v assms by simp_all
  have vs: "val (u_Sub U (u_NewInt U maxBasisPoints) (u_NewInt U F)) = 10000 - F"
    using D(5) [of "u_NewInt U F" "u_NewInt U maxBasisPoints"] assms(8,9) by (simp add: vf vb)
  have b: "X < 2 ^ 63" "Y < 2 ^ 63" "x < 2 ^ 63" "10000 - F < 2 ^ 14" "(10000 :: int) < 2 ^ 14"
    using assms(2,4,6,8) by (simp_all add: in_int64_def)
  have Xb: "X * 10000 < 2 ^ 255" and xf: "x * (10000 - F) < 2 ^ 255"
    using b assms(3,7,9) mult_less_powers [of X 63 10000 14 255] mult_less_powers [of x 63 "10000 - F" 14 255]
    by simp_all
  have Yx: "Y * x < 2 ^ 126" using b assms(5,7) mult_less_powers [of Y 63 x 63 126] by simp
  have Yxf: "Y * x * (10000 - F) < 2 ^ 256" and Yxb: "Y * x * 10000 < 2 ^ 256"
    using b Yx assms(5,7,9) mult_less_powers [of "Y * x" 126 "10000 - F" 14 256]
      mult_less_powers [of "Y * x" 126 10000 14 256] by simp_all
  have m1: "val (u_Mul U (u_NewInt U X) (u_NewInt U maxBasisPoints)) = X * 10000"
    using D(7) [of "u_NewInt U X" "u_NewInt U maxBasisPoints"] Xb by (simp add: vX vb)
  have m2: "val (u_Mul U (u_NewInt U x) (u_Sub U (u_NewInt U maxBasisPoints) (u_NewInt U F))) = x * (10000 - F)"
    using D(7) [of "u_NewInt U x" "u_Sub U (u_NewInt U maxBasisPoints) (u_NewInt U F)"] xf by (simp add: vx vs)
  have m3: "val (u_Mul U (u_NewInt U Y) (u_NewInt U x)) = Y * x"
    using D(7) [of "u_NewInt U Y" "u_NewInt U x"] Yx by (simp add: vY vx)
  show "val (u_NewInt U X) = X" "val (u_Sub U (u_NewInt U maxBasisPoints) (u_NewInt U F)) = 10000 - F"
    by (rule vX, rule vs)
  show "val (u_Add U (u_Mul U (u_NewInt U X) (u_NewInt U maxBasisPoints))
      (u_Mul U (u_NewInt U x) (u_Sub U (u_NewInt U maxBasisPoints) (u_NewInt U F)))) = X * 10000 + x * (10000 - F)"
    using D(4) Xb xf by (simp add: m1 m2)
  show "val (u_Mul U (u_Mul U (u_NewInt U Y) (u_NewInt U x)) (u_Sub U (u_NewInt U maxBasisPoints) (u_NewInt U F)))
      = Y * x * (10000 - F)" "val (u_Mul U (u_Mul U (u_NewInt U Y) (u_NewInt U x)) (u_NewInt U maxBasisPoints)) = Y * x * 10000"
    using D(7) Yxf Yxb by (simp_all add: m3 vs vb)
qed

lemma payout_bounds:
  assumes "0 \<le> X" and "0 \<le> Y" and "0 \<le> x" and "F < 10000" and "0 < X * 10000 + x * (10000 - F)"
  shows "0 \<le> payout_amount X Y x F" and "payout_amount X Y x F \<le> Y"
proof -
  let ?d = "X * 10000 + x * (10000 - F)"
  have "0 \<le> Y * x * (10000 - F)" using assms by simp
  then show "0 \<le> payout_amount X Y x F"
    unfolding payout_amount_def using assms(5) by (simp add: pos_imp_zdiv_nonneg_iff)
  have "Y * x * (10000 - F) \<le> Y * ?d" using assms by (simp add: algebra_simps mult_nonneg_nonneg)
  then have "payout_amount X Y x F \<le> Y * ?d div ?d"
    unfolding payout_amount_def using assms(5) by (rule zdiv_mono1)
  then show "payout_amount X Y x F \<le> Y" using assms(5) by simp
qed

lemma CalculatePoolPayout_eq:
  assumes "uint256_spec val U" and "pool_range X Y x F"
  shows "CalculatePoolPayout U X Y x F False =
    (if X + x > MaxInt64 \<or> X * 10000 + x * (10000 - F) = 0 then (0, 0, False)
     else (payout_amount X Y x F, 0, payout_amount X Y x F > 0))"
proof -
  note r = assms(2) [unfolded pool_range_def]
  note D = uint256_specD [OF assms(1)]
  note T = pool_terms [OF assms(1), of X Y x F]
  let ?d = "X * 10000 + x * (10000 - F)" and ?y = "payout_amount X Y x F"
  have w: "wrap_int64 (MaxInt64 - X) = MaxInt64 - X"
    using r by (intro wrap_int64_id) (simp add: in_int64_def MaxInt64_def)
  have "0 \<le> ?d" using r by simp
  show ?thesis
  proof (cases "X + x > MaxInt64 \<or> ?d = 0")
    case True
    then show ?thesis
      using r T D(12) unfolding CalculatePoolPayout_def w by (auto simp: maxBasisPoints_def Let_def)
  next
    case False
    then have y: "0 \<le> ?y" "?y \<le> Y" using payout_bounds [of X Y x F] r \<open>0 \<le> ?d\<close> by auto
    then have "?y < 2 ^ 64" "wrap_int64 (?y mod 2 ^ 64) = ?y" using r by (simp_all add: in_int64_def)
    then show ?thesis
      using False r T D(8,12,13,14)
      unfolding CalculatePoolPayout_def w
      by (simp add: maxBasisPoints_def Let_def payout_amount_def)
  qed
qed

lemma payout_keeps_product:
  assumes "0 \<le> X" and "0 \<le> Y" and "0 \<le> x" and "0 \<le> F" and "F < 10000" and "0 < X * 10000 + x * (10000 - F)"
  shows "X * Y \<le> (X + x) * (Y - payout_amount X Y x F)"
proof -
  let ?y = "payout_amount X Y x F"
  note b = payout_bounds [OF assms(1,2,3,5,6)]
  have "?y * (X * 10000 + x * (10000 - F)) \<le> Y * x * (10000 - F)"
    unfolding payout_amount_def by (rule div_round_down_bounds) (rule assms(6))
  then have "?y * X * 10000 \<le> x * (Y - ?y) * (10000 - F)" by (simp add: algebra_simps)
  also have "\<dots> \<le> x * (Y - ?y) * 10000" using assms b by (intro mult_left_mono) auto
  finally have "?y * X \<le> x * (Y - ?y)" by simp
  then show ?thesis by (simp add: algebra_simps)
qed

text \<open>
  A deposit into a constant-product pool pays out exactly the floor of CAP-38, never more
  than the reserve, and never lowers the product of the reserves; it fails exactly when
  the deposit overflows the reserve or the payout is zero. No intermediate 256-bit
  operation overflows.
\<close>
lemma pool_payout_exact:
  assumes "uint256_spec val U" and "pool_range X Y x F"
    and "CalculatePoolPayout U X Y x F False = (y, s, ok)"
  shows "(ok \<longleftrightarrow> X + x \<le> MaxInt64 \<and> 0 < X * 10000 + x * (10000 - F) \<and> 0 < payout_amount X Y x F) \<and>
    (ok \<longrightarrow> y = payout_amount X Y x F \<and> y \<le> Y \<and> X * Y \<le> (X + x) * (Y - y))"
proof -
  have d: "0 \<le> X * 10000 + x * (10000 - F)" using assms(2) by (simp add: pool_range_def)
  note e = assms(3) [unfolded CalculatePoolPayout_eq [OF assms(1,2)]]
  have ok: "ok \<longleftrightarrow> X + x \<le> MaxInt64 \<and> 0 < X * 10000 + x * (10000 - F) \<and> 0 < payout_amount X Y x F"
    using e d by (auto split: if_splits)
  moreover have "y = payout_amount X Y x F" if ok using e that by (auto split: if_splits)
  moreover have "payout_amount X Y x F \<le> Y" "X * Y \<le> (X + x) * (Y - payout_amount X Y x F)" if ok
    using payout_bounds(2) payout_keeps_product assms(2) that [unfolded ok] by (simp_all add: pool_range_def)
  ultimately show ?thesis by simp
qed

lemma pool_payout_exact_witness:
  "181 = payout_amount 1000 2000 100 30 \<and> 181 \<le> (2000 :: int) \<and> 1000 * 2000 \<le> (1000 + 100) * (2000 - 181 :: int)"
proof -
  have r: "pool_range 1000 2000 100 30" by (simp add: pool_range_def in_int64_def)
  have "CalculatePoolPayout int_uint256 1000 2000 100 30 False = (181, 0, True)"
    unfolding CalculatePoolPayout_eq [OF int_uint256_spec r]
    by (simp add: payout_amount_def MaxInt64_def)
  from pool_payout_exact [OF int_uint256_spec r this] show ?thesis by simp
qed

section \<open>Expectations\<close>

lemma deposit_le_iff:
  assumes "0 < Y - y" and "F < 10000"
  shows "deposit_amount X Y y F \<le> x \<longleftrightarrow> X * y * 10000 \<le> x * ((Y - y) * (10000 - F))"
proof -
  let ?d = "(Y - y) * (10000 - F)"
  have d: "0 < ?d" using assms by simp
  note b = div_round_up_bounds [OF d, of "X * y * 10000"]
  show ?thesis
  proof
    assume "deposit_amount X Y y F \<le> x"
    then have "deposit_amount X Y y F * ?d \<le> x * ?d" using d by (simp add: mult_right_mono)
    then show "X * y * 10000 \<le> x * ?d" using b(1) by (simp add: deposit_amount_def Let_def)
  next
    assume "X * y * 10000 \<le> x * ?d"
    then have "deposit_amount X Y y F * ?d < x * ?d + ?d"
      using b(2) by (simp add: deposit_amount_def Let_def)
    then have "deposit_amount X Y y F * ?d < (x + 1) * ?d" by (simp add: algebra_simps)
    then show "deposit_amount X Y y F \<le> x" using d by (simp add: mult_less_cancel_right)
  qed
qed

lemma deposit_nonneg:
  assumes "0 \<le> X" and "0 \<le> y" and "0 < Y - y" and "F < 10000"
  shows "0 \<le> deposit_amount X Y y F"
proof -
  have "0 < (Y - y) * (10000 - F)" using assms by simp
  then show ?thesis
    using assms mult_nonneg_nonneg [OF assms(1,2)] unfolding deposit_amount_def Let_def
    by (simp add: pos_imp_zdiv_nonneg_iff add_nonneg_pos)
qed

text \<open>The ceiling as the code computes it: one more when there is a remainder.\<close>

lemma ceiling_by_remainder:
  fixes n d :: int
  assumes "0 < d"
  shows "(n + d - 1) div d = (if n mod d = 0 then n div d else n div d + 1)"
proof -
  have n: "n = d * (n div d) + n mod d" by simp
  have m: "0 \<le> n mod d" "n mod d < d" using assms by simp_all
  have "(n + d - 1) div d = n div d + (n mod d + d - 1) div d"
    using assms by (subst n) (metis (no_types) add.assoc add_diff_eq div_mult_self4 less_irrefl)
  moreover have "(n mod d + d - 1) div d = (if n mod d = 0 then 0 else 1)"
    using m by (auto intro: int_div_pos_eq)
  ultimately show ?thesis by simp
qed

text \<open>A 64-bit value whose signed reading is not negative is read unchanged.\<close>

lemma wrap_int64_nonneg:
  assumes "0 \<le> x" and "x < 2 ^ 64" and "0 \<le> wrap_int64 (x mod 2 ^ 64)"
  shows "wrap_int64 (x mod 2 ^ 64) = x"
proof -
  have m: "x mod 2 ^ 64 = x" using assms(1,2) by simp
  have "in_int64 x"
  proof (rule ccontr)
    assume "\<not> in_int64 x"
    then have big: "9223372036854775808 \<le> x" using assms(1) by (simp add: in_int64_def)
    have "(x + 9223372036854775808) mod 18446744073709551616 = (x - 9223372036854775808) mod 18446744073709551616"
      using mod_add_self2 [of "x - 9223372036854775808" 18446744073709551616] by (simp add: add.commute)
    also have "\<dots> = x - 9223372036854775808" using big assms(2) by (intro mod_pos_pos_trivial) simp_all
    finally show False using assms(2,3) by (simp add: m wrap_int64_def)
  qed
  then show ?thesis unfolding m by simp
qed

lemma CalculatePoolExpectation_eq:
  assumes "uint256_spec val U" and "pool_range X Y y F"
  shows "CalculatePoolExpectation U X Y y F False =
    (if Y \<le> y then (0, 0, False)
     else let x = deposit_amount X Y y F in
       (wrap_int64 (x mod 2 ^ 64), 0,
        x < 2 ^ 64 \<and> 0 \<le> wrap_int64 (x mod 2 ^ 64) \<and> wrap_int64 (x mod 2 ^ 64) \<le> MaxInt64 - X))"
proof (cases "Y \<le> y")
  case True
  then show ?thesis using assms(2) unfolding CalculatePoolExpectation_def by (auto simp: pool_range_def)
next
  case False
  note r = assms(2) [unfolded pool_range_def]
  note D = uint256_specD [OF assms(1)]
  let ?n = "X * y * 10000" and ?d = "(Y - y) * (10000 - F)" and ?x = "deposit_amount X Y y F"
  have d: "0 < ?d" using False r by simp
  have Yy: "val (u_NewInt U Y) = Y" "val (u_NewInt U y) = y"
    using D(3) r by (simp_all add: in_int64_def)
  have f: "val (u_Sub U (u_NewInt U maxBasisPoints) (u_NewInt U F)) = 10000 - F"
    using pool_terms(2) [OF assms(1)] r by blast
  have s: "val (u_Sub U (u_NewInt U Y) (u_NewInt U y)) = Y - y"
    using D(5) [of "u_NewInt U y" "u_NewInt U Y"] False by (simp add: Yy)
  have "?d < 2 ^ 256"
    using mult_less_powers [of "Y - y" 63 "10000 - F" 14 256] r False by (simp add: in_int64_def)
  then have den: "val (u_Mul U (u_Sub U (u_NewInt U Y) (u_NewInt U y)) (u_Sub U (u_NewInt U maxBasisPoints) (u_NewInt U F))) = ?d"
    using D(7) by (simp add: s f)
  have num: "val (u_Mul U (u_Mul U (u_NewInt U X) (u_NewInt U y)) (u_NewInt U maxBasisPoints)) = ?n"
    using pool_terms(5) [OF assms(1)] r by blast
  have n: "0 \<le> ?n" "?n < 2 ^ 140"
    using mult_less_powers [of "X * y" 126 10000 14 140] mult_less_powers [of X 63 y 63 126] r
    by (simp_all add: in_int64_def)
  then have q: "0 \<le> ?n div ?d" "?n div ?d \<le> ?n"
    using d zdiv_mono2 [of ?n 1 ?d] by (simp_all add: pos_imp_zdiv_nonneg_iff)
  have x: "?x = (if ?n mod ?d = 0 then ?n div ?d else ?n div ?d + 1)"
    using ceiling_by_remainder [OF d] by (simp add: deposit_amount_def)
  have w: "wrap_int64 (MaxInt64 - X) = MaxInt64 - X"
    using r by (intro wrap_int64_id) (simp add: in_int64_def MaxInt64_def)
  define N where "N = u_Mul U (u_Mul U (u_NewInt U X) (u_NewInt U y)) (u_NewInt U maxBasisPoints)"
  define E where "E = u_Mul U (u_Sub U (u_NewInt U Y) (u_NewInt U y)) (u_Sub U (u_NewInt U maxBasisPoints) (u_NewInt U F))"
  define R where "R = (if u_IsZero U (u_Mod U N E) then u_Div U N E else u_AddUint64 U (u_Div U N E) 1)"
  have R: "val R = ?x"
  proof -
    have vE: "val E \<noteq> 0" "val E = ?d" "val N = ?n"
      using d den num unfolding E_def N_def by linarith+
    have z: "u_IsZero U (u_Mod U N E) \<longleftrightarrow> ?n mod ?d = 0" unfolding D(12) D(9) [OF vE(1)] vE(2,3) ..
    have v: "val (u_Div U N E) = ?n div ?d" unfolding D(8) vE(2,3) ..
    have "?n div ?d + 1 < 2 ^ 256" using q n by simp
    then have "val (u_AddUint64 U (u_Div U N E) 1) = ?n div ?d + 1" using D(10) [of 1 "u_Div U N E"] by (simp add: v)
    then show ?thesis unfolding R_def z x using v by simp
  qed
  have c: "\<not> (X < 0 \<or> Y < 0 \<or> y < 0)" "\<not> (F < 0 \<or> F \<ge> maxBasisPoints)" "\<not> y \<ge> Y" "\<not> u_IsZero U E"
    using r False d D(12) [of E] by (auto simp: maxBasisPoints_def den [folded E_def])
  have "CalculatePoolExpectation U X Y y F False =
      (wrap_int64 (u_Uint64 U R), 0,
       u_IsUint64 U R \<and> 0 \<le> wrap_int64 (u_Uint64 U R) \<and> wrap_int64 (u_Uint64 U R) \<le> MaxInt64 - X)"
    unfolding CalculatePoolExpectation_def Let_def N_def [symmetric] E_def [symmetric] R_def [symmetric] w
      if_not_P [OF c(1)] if_not_P [OF c(2)] if_not_P [OF c(3)] if_not_P [OF c(4)] by simp
  also have "u_IsUint64 U R \<longleftrightarrow> ?x < 2 ^ 64" unfolding D(13) R ..
  also have "u_Uint64 U R = ?x mod 2 ^ 64" unfolding D(14) R ..
  finally show ?thesis unfolding if_not_P [OF False] Let_def .
qed



text \<open>
  The example of the comments in \<^verbatim>\<open>CalculatePoolExpectation\<close>: reserves 200 and 300, an expected
  payout of 3 and a fee of 30 basis points. The comment gives a rounding slippage of 4778
  basis points; the calculation returns 48, the slippage in percent.
\<close>

lemma rounding_slippage_example:
  "CalculatePoolExpectation int_uint256 200 300 3 30 True = (3, 48, True)"
  by code_simp

end
