(* ===== verification/Edges.thy ===== *)
theory Edges
  imports Pools Price
begin

text \<open>
  Edge sets of the order book graph (\<^verbatim>\<open>exp/orderbook/edges.go\<close>): for one asset, the list of
  assets it trades with, and for each of them the offers in price order and at most one
  liquidity pool. The locale \<open>edge_set\<close> states what the graph relies on, in terms of
  the offers and the pool that an edge set holds for a key; the list implementation of the
  code is its interpretation.
\<close>

section \<open>Definitions\<close>

record OfferEntry =
  SellerId :: AccountId
  OfferId :: int
  Selling :: Asset
  Buying :: Asset
  offer_Amount :: int
  offer_Price :: xdr_Price
  offer_Flags :: int

record Venues =
  ven_offers :: "OfferEntry list"
  ven_pool :: liquidityPool

record edge =
  edge_key :: nat
  edge_value :: Venues
  edge_reallocate :: bool

type_synonym edgeSet = "edge list"

text \<open>The zero value of \<^verbatim>\<open>liquidityPool\<close>: its body pointer is nil.\<close>

definition nil_pool :: liquidityPool where
  "nil_pool = \<lparr>pool_entry = \<lparr>lp_LiquidityPoolId = replicate 32 0, lp_Type = 0, lp_ConstantProduct = None\<rparr>,
     pool_assetA = 0, pool_assetB = 0\<rparr>"

definition pool_set :: "liquidityPool \<Rightarrow> bool" where
  "pool_set p \<longleftrightarrow> lp_ConstantProduct (pool_entry p) \<noteq> None"

text \<open>\<^verbatim>\<open>find\<close>: the index of the edge with the given key; \<^verbatim>\<open>-1\<close> is \<open>None\<close>.\<close>

fun edge_find_from :: "nat \<Rightarrow> edgeSet \<Rightarrow> nat \<Rightarrow> nat option" where
  "edge_find_from i [] key = None"
| "edge_find_from i (x # e) key = (if edge_key x = key then Some i else edge_find_from (Suc i) e key)"

definition edge_find :: "edgeSet \<Rightarrow> nat \<Rightarrow> nat option" where
  "edge_find e key = edge_find_from 0 e key"

definition insertOffer :: "OfferEntry list \<Rightarrow> OfferEntry \<Rightarrow> OfferEntry list" where
  "insertOffer offers offer =
     (let insertIndex = sort_Search (length offers) (\<lambda>j. Cheaper (offer_Price offer) (offer_Price (offers ! j)))
      in slice_insert offers insertIndex offer)"

definition edge_addOffer :: "edgeSet \<Rightarrow> nat \<Rightarrow> OfferEntry \<Rightarrow> edgeSet" where
  "edge_addOffer e key offer =
     (case edge_find e key of
        None \<Rightarrow> e @ [\<lparr>edge_key = key, edge_value = \<lparr>ven_offers = [offer], ven_pool = nil_pool\<rparr>, edge_reallocate = False\<rparr>]
      | Some i \<Rightarrow>
         let offers = ven_offers (edge_value (e ! i))
         in e[i := (e ! i)\<lparr>edge_value := \<lparr>ven_offers = insertOffer offers offer,
                                         ven_pool = ven_pool (edge_value (e ! i))\<rparr>\<rparr>])"

definition edge_addPool :: "edgeSet \<Rightarrow> nat \<Rightarrow> liquidityPool \<Rightarrow> edgeSet" where
  "edge_addPool e key pool =
     (case edge_find e key of
        None \<Rightarrow> e @ [\<lparr>edge_key = key, edge_value = \<lparr>ven_offers = [], ven_pool = pool\<rparr>, edge_reallocate = False\<rparr>]
      | Some i \<Rightarrow> e[i := (e ! i)\<lparr>edge_value := (edge_value (e ! i))\<lparr>ven_pool := pool\<rparr>\<rparr>])"

text \<open>The loop of \<^verbatim>\<open>removeOffer\<close>: the index of the first offer with the id.\<close>

fun offer_index :: "nat \<Rightarrow> OfferEntry list \<Rightarrow> int \<Rightarrow> nat option" where
  "offer_index i [] offerID = None"
| "offer_index i (x # xs) offerID = (if OfferId x \<noteq> offerID then offer_index (Suc i) xs offerID else Some i)"

definition edge_removeOffer :: "edgeSet \<Rightarrow> nat \<Rightarrow> int \<Rightarrow> edgeSet \<times> bool" where
  "edge_removeOffer e key offerID =
     (case edge_find e key of
        None \<Rightarrow> (e, False)
      | Some i \<Rightarrow>
         let offers = ven_offers (edge_value (e ! i)) in
         (case offer_index 0 offers offerID of
            None \<Rightarrow> (e, False)
          | Some j \<Rightarrow>
             let updatedOffers = slice_delete offers j in
             if length updatedOffers = 0 \<and> \<not> pool_set (ven_pool (edge_value (e ! i)))
             then (slice_delete e i, True)
             else (e[i := (e ! i)\<lparr>edge_value := (edge_value (e ! i))\<lparr>ven_offers := updatedOffers\<rparr>,
                                  edge_reallocate := True\<rparr>], True)))"

definition edge_removePool :: "edgeSet \<Rightarrow> nat \<Rightarrow> edgeSet" where
  "edge_removePool e key =
     (case edge_find e key of
        None \<Rightarrow> e
      | Some i \<Rightarrow>
         if length (ven_offers (edge_value (e ! i))) = 0 then slice_delete e i
         else e[i := (e ! i)\<lparr>edge_value := \<lparr>ven_offers = ven_offers (edge_value (e ! i)), ven_pool = nil_pool\<rparr>\<rparr>])"

text \<open>
  \<^verbatim>\<open>reallocate\<close> copies the offers of marked edges into a fresh slice and clears the mark.
\<close>

definition edge_realloc :: "edgeSet \<Rightarrow> edgeSet" where
  "edge_realloc e =
     map (\<lambda>x. if edge_reallocate x
               then x\<lparr>edge_value := (edge_value x)\<lparr>ven_offers := [] @ ven_offers (edge_value x)\<rparr>, edge_reallocate := False\<rparr>
               else x) e"

text \<open>What an edge set holds for a key, and its invariant.\<close>

definition offers_of :: "edgeSet \<Rightarrow> nat \<Rightarrow> OfferEntry list" where
  "offers_of e key = (case edge_find e key of None \<Rightarrow> [] | Some i \<Rightarrow> ven_offers (edge_value (e ! i)))"

definition pool_of :: "edgeSet \<Rightarrow> nat \<Rightarrow> liquidityPool option" where
  "pool_of e key =
     (case edge_find e key of
        None \<Rightarrow> None
      | Some i \<Rightarrow> let p = ven_pool (edge_value (e ! i)) in if pool_set p then Some p else None)"

text \<open>The same lookup as a finite map.\<close>

definition venue :: "edgeSet \<Rightarrow> nat \<Rightarrow> Venues option" where
  "venue e = map_of (map (\<lambda>x. (edge_key x, edge_value x)) e)"

definition price_sorted :: "OfferEntry list \<Rightarrow> bool" where
  "price_sorted = sorted_wrt (\<lambda>a b. price_value (offer_Price a) \<le> price_value (offer_Price b))"

definition edge_ok :: "edge \<Rightarrow> bool" where
  "edge_ok x \<longleftrightarrow> (ven_offers (edge_value x) \<noteq> [] \<or> pool_set (ven_pool (edge_value x))) \<and>
     price_sorted (ven_offers (edge_value x)) \<and> (\<forall>o' \<in> set (ven_offers (edge_value x)). valid_price (offer_Price o'))"

definition edge_inv :: "edgeSet \<Rightarrow> bool" where
  "edge_inv e \<longleftrightarrow> distinct (map edge_key e) \<and> list_all edge_ok e"

primrec remove_id :: "int \<Rightarrow> OfferEntry list \<Rightarrow> OfferEntry list" where
  "remove_id i [] = []"
| "remove_id i (x # xs) = (if OfferId x = i then xs else x # remove_id i xs)"

text \<open>
  A table of edge sets indexed by asset id, read through an observer; the default outside
  the table.
\<close>

definition table_at :: "('e \<Rightarrow> nat \<Rightarrow> 'a) \<Rightarrow> 'a \<Rightarrow> 'e list \<Rightarrow> nat \<Rightarrow> nat \<Rightarrow> 'a" where
  "table_at f d t i k = (if i < length t then f (t ! i) k else d)"

text \<open>An offer for the examples: it sells the native asset at price \<open>n\<close>.\<close>

definition witness_offer :: "int \<Rightarrow> int \<Rightarrow> OfferEntry" where
  "witness_offer i n = \<lparr>SellerId = replicate 32 1, OfferId = i, Selling = Native,
     Buying = AlphaNum4 ''USD0'' (replicate 32 2), offer_Amount = 100, offer_Price = \<lparr>PriceN = n, PriceD = 1\<rparr>,
     offer_Flags = 0\<rparr>"

section \<open>The interface of edge sets\<close>

text \<open>
  The operations of an edge set, what it holds for each key, and the laws by which the
  operations change it. \<open>insert_offer\<close> is the price-ordered insertion into one list.
\<close>

locale edge_set =
  fixes empty :: 'e
    and add_offer :: "'e \<Rightarrow> nat \<Rightarrow> OfferEntry \<Rightarrow> 'e"
    and add_pool :: "'e \<Rightarrow> nat \<Rightarrow> liquidityPool \<Rightarrow> 'e"
    and remove_offer :: "'e \<Rightarrow> nat \<Rightarrow> int \<Rightarrow> 'e \<times> bool"
    and remove_pool :: "'e \<Rightarrow> nat \<Rightarrow> 'e"
    and realloc :: "'e \<Rightarrow> 'e"
    and offers :: "'e \<Rightarrow> nat \<Rightarrow> OfferEntry list"
    and pool :: "'e \<Rightarrow> nat \<Rightarrow> liquidityPool option"
    and inv :: "'e \<Rightarrow> bool"
    and insert_offer :: "OfferEntry list \<Rightarrow> OfferEntry \<Rightarrow> OfferEntry list"
  assumes inv_empty: "inv empty"
    and is_empty: "inv e \<Longrightarrow> e = empty \<longleftrightarrow> (\<forall>k. offers e k = [] \<and> pool e k = None)"
    and inv_add_offer: "inv e \<Longrightarrow> valid_price (offer_Price v) \<Longrightarrow> inv (add_offer e k v)"
    and offers_add_offer: "inv e \<Longrightarrow>
      offers (add_offer e k v) k' = (if k' = k then insert_offer (offers e k) v else offers e k')"
    and pool_add_offer: "inv e \<Longrightarrow> pool (add_offer e k v) k' = pool e k'"
    and inv_add_pool: "inv e \<Longrightarrow> pool_set p \<Longrightarrow> inv (add_pool e k p)"
    and offers_add_pool: "inv e \<Longrightarrow> offers (add_pool e k p) k' = offers e k'"
    and pool_add_pool: "inv e \<Longrightarrow> pool_set p \<Longrightarrow>
      pool (add_pool e k p) k' = (if k' = k then Some p else pool e k')"
    and inv_remove_offer: "inv e \<Longrightarrow> inv (fst (remove_offer e k i))"
    and found_remove_offer: "inv e \<Longrightarrow> snd (remove_offer e k i) \<longleftrightarrow> (\<exists>v \<in> set (offers e k). OfferId v = i)"
    and offers_remove_offer: "inv e \<Longrightarrow>
      offers (fst (remove_offer e k i)) k' = (if k' = k then remove_id i (offers e k) else offers e k')"
    and pool_remove_offer: "inv e \<Longrightarrow> pool (fst (remove_offer e k i)) k' = pool e k'"
    and inv_remove_pool: "inv e \<Longrightarrow> inv (remove_pool e k)"
    and offers_remove_pool: "inv e \<Longrightarrow> offers (remove_pool e k) k' = offers e k'"
    and pool_remove_pool: "inv e \<Longrightarrow> pool (remove_pool e k) k' = (if k' = k then None else pool e k')"
    and inv_realloc: "inv e \<Longrightarrow> inv (realloc e)"
    and offers_realloc: "inv e \<Longrightarrow> offers (realloc e) k = offers e k"
    and pool_realloc: "inv e \<Longrightarrow> pool (realloc e) k = pool e k"

text \<open>What the graph derives from the laws: updates of one cell of a table of edge sets.\<close>

context edge_set
begin

lemma empty_observers: "offers empty k = []" "pool empty k = None"
  using is_empty [OF inv_empty] by auto

lemma table_append_empty:
  "table_at offers [] (t @ [empty]) i k = table_at offers [] t i k"
  "table_at pool None (t @ [empty]) i k = table_at pool None t i k"
  "list_all inv (t @ [empty]) \<longleftrightarrow> list_all inv t"
  by (auto simp: table_at_def nth_append empty_observers inv_empty)

lemma table_empty_cell:
  assumes "list_all inv t" and "i < length t"
  shows "t ! i = empty \<longleftrightarrow> (\<forall>k. table_at offers [] t i k = [] \<and> table_at pool None t i k = None)"
  using is_empty [of "t ! i"] assms by (simp add: table_at_def list_all_length)

lemma inv_cell: "list_all inv t \<Longrightarrow> i < length t \<Longrightarrow> inv (t ! i)"
  by (simp add: list_all_length)

lemma inv_table_update: "list_all inv t \<Longrightarrow> inv e \<Longrightarrow> list_all inv (t[i := e])"
  using set_update_subset_insert [of t i e] by (auto simp: list_all_iff)

lemma table_update:
  "i < length t \<Longrightarrow> table_at f d (t[i := e]) i' k' = (if i' = i then f e k' else table_at f d t i' k')"
  by (auto simp: table_at_def)

lemma table_add_offer:
  assumes "list_all inv t" and "i < length t"
  shows "valid_price (offer_Price v) \<Longrightarrow> list_all inv (t[i := add_offer (t ! i) k v])"
    and "table_at offers [] (t[i := add_offer (t ! i) k v]) i' k' =
      (if i' = i \<and> k' = k then insert_offer (table_at offers [] t i k) v else table_at offers [] t i' k')"
    and "table_at pool None (t[i := add_offer (t ! i) k v]) i' k' = table_at pool None t i' k'"
proof -
  note c = inv_cell [OF assms]
  show "valid_price (offer_Price v) \<Longrightarrow> list_all inv (t[i := add_offer (t ! i) k v])"
    by (rule inv_table_update [OF assms(1) inv_add_offer [OF c]])
  show "table_at offers [] (t[i := add_offer (t ! i) k v]) i' k' =
      (if i' = i \<and> k' = k then insert_offer (table_at offers [] t i k) v else table_at offers [] t i' k')"
    "table_at pool None (t[i := add_offer (t ! i) k v]) i' k' = table_at pool None t i' k'"
    unfolding table_update [OF assms(2)] offers_add_offer [OF c] pool_add_offer [OF c]
    using assms(2) by (simp_all add: table_at_def)
qed

lemma table_add_pool:
  assumes "list_all inv t" and "i < length t" and "pool_set p"
  shows "list_all inv (t[i := add_pool (t ! i) k p])"
    and "table_at offers [] (t[i := add_pool (t ! i) k p]) i' k' = table_at offers [] t i' k'"
    and "table_at pool None (t[i := add_pool (t ! i) k p]) i' k' =
      (if i' = i \<and> k' = k then Some p else table_at pool None t i' k')"
proof -
  note c = inv_cell [OF assms(1,2)]
  show "list_all inv (t[i := add_pool (t ! i) k p])"
    by (rule inv_table_update [OF assms(1) inv_add_pool [OF c assms(3)]])
  show "table_at offers [] (t[i := add_pool (t ! i) k p]) i' k' = table_at offers [] t i' k'"
    "table_at pool None (t[i := add_pool (t ! i) k p]) i' k' =
      (if i' = i \<and> k' = k then Some p else table_at pool None t i' k')"
    unfolding table_update [OF assms(2)] offers_add_pool [OF c] pool_add_pool [OF c assms(3)]
    using assms(2) by (simp_all add: table_at_def)
qed

lemma table_remove_offer:
  assumes "list_all inv t" and "i < length t"
  shows "list_all inv (t[i := fst (remove_offer (t ! i) k v)])"
    and "table_at offers [] (t[i := fst (remove_offer (t ! i) k v)]) i' k' =
      (if i' = i \<and> k' = k then remove_id v (table_at offers [] t i k) else table_at offers [] t i' k')"
    and "table_at pool None (t[i := fst (remove_offer (t ! i) k v)]) i' k' = table_at pool None t i' k'"
    and "snd (remove_offer (t ! i) k v) \<longleftrightarrow> (\<exists>x \<in> set (table_at offers [] t i k). OfferId x = v)"
proof -
  note c = inv_cell [OF assms]
  show "list_all inv (t[i := fst (remove_offer (t ! i) k v)])"
    by (rule inv_table_update [OF assms(1) inv_remove_offer [OF c]])
  show "table_at offers [] (t[i := fst (remove_offer (t ! i) k v)]) i' k' =
      (if i' = i \<and> k' = k then remove_id v (table_at offers [] t i k) else table_at offers [] t i' k')"
    "table_at pool None (t[i := fst (remove_offer (t ! i) k v)]) i' k' = table_at pool None t i' k'"
    "snd (remove_offer (t ! i) k v) \<longleftrightarrow> (\<exists>x \<in> set (table_at offers [] t i k). OfferId x = v)"
    unfolding table_update [OF assms(2)] offers_remove_offer [OF c] pool_remove_offer [OF c] found_remove_offer [OF c]
    using assms(2) by (simp_all add: table_at_def)
qed

lemma table_remove_pool:
  assumes "list_all inv t" and "i < length t"
  shows "list_all inv (t[i := remove_pool (t ! i) k])"
    and "table_at offers [] (t[i := remove_pool (t ! i) k]) i' k' = table_at offers [] t i' k'"
    and "table_at pool None (t[i := remove_pool (t ! i) k]) i' k' =
      (if i' = i \<and> k' = k then None else table_at pool None t i' k')"
proof -
  note c = inv_cell [OF assms]
  show "list_all inv (t[i := remove_pool (t ! i) k])"
    by (rule inv_table_update [OF assms(1) inv_remove_pool [OF c]])
  show "table_at offers [] (t[i := remove_pool (t ! i) k]) i' k' = table_at offers [] t i' k'"
    "table_at pool None (t[i := remove_pool (t ! i) k]) i' k' =
      (if i' = i \<and> k' = k then None else table_at pool None t i' k')"
    unfolding table_update [OF assms(2)] offers_remove_pool [OF c] pool_remove_pool [OF c]
    using assms(2) by (simp_all add: table_at_def)
qed

lemma table_realloc:
  assumes "list_all inv t" and "i < length t"
  shows "list_all inv (t[i := realloc (t ! i)])"
    and "table_at offers [] (t[i := realloc (t ! i)]) i' k' = table_at offers [] t i' k'"
    and "table_at pool None (t[i := realloc (t ! i)]) i' k' = table_at pool None t i' k'"
proof -
  note c = inv_cell [OF assms]
  show "list_all inv (t[i := realloc (t ! i)])"
    by (rule inv_table_update [OF assms(1) inv_realloc [OF c]])
  show "table_at offers [] (t[i := realloc (t ! i)]) i' k' = table_at offers [] t i' k'"
    "table_at pool None (t[i := realloc (t ! i)]) i' k' = table_at pool None t i' k'"
    unfolding table_update [OF assms(2)] offers_realloc [OF c] pool_realloc [OF c]
    using assms(2) by (simp_all add: table_at_def)
qed

end

section \<open>Insertion and removal in one list of offers\<close>

lemma offer_index_None: "offer_index i xs v = None \<longleftrightarrow> (\<forall>x \<in> set xs. OfferId x \<noteq> v)"
  by (induction i xs v rule: offer_index.induct) auto

lemma offer_index_Some:
  "offer_index i xs v = Some j \<Longrightarrow> i \<le> j \<and> slice_delete xs (j - i) = remove_id v xs"
proof (induction i xs v rule: offer_index.induct)
  case (2 i x xs v)
  show ?case
  proof (cases "OfferId x = v")
    case True
    then show ?thesis using 2(2) by (simp add: slice_delete_def)
  next
    case False
    then have "Suc i \<le> j" "slice_delete xs (j - Suc i) = remove_id v xs" using 2 by simp_all
    moreover have "j - i = Suc (j - Suc i)" using \<open>Suc i \<le> j\<close> by simp
    ultimately show ?thesis using False by (simp add: slice_delete_def)
  qed
qed simp

lemma set_remove_id_subset: "set (remove_id v xs) \<subseteq> set xs"
  by (induction xs) auto

lemma price_sorted_remove_id: "price_sorted xs \<Longrightarrow> price_sorted (remove_id v xs)"
  unfolding price_sorted_def
proof (induction xs)
  case (Cons x xs)
  then show ?case using set_remove_id_subset [of v xs] by auto
qed simp

lemma insertOffer_set [simp]: "set (insertOffer xs v) = insert v (set xs)"
  by (simp add: insertOffer_def Let_def)

lemma insertOffer_mset [simp]: "mset (insertOffer xs v) = add_mset v (mset xs)"
  by (simp add: insertOffer_def Let_def)

lemma filter_split:
  assumes "\<forall>y \<in> set ys. P y" and "\<forall>z \<in> set zs. \<not> P z"
  shows "filter P (ys @ zs) = ys" and "filter (\<lambda>x. \<not> P x) (ys @ zs) = zs"
  using assms by (auto simp: filter_id_conv filter_empty_conv)

text \<open>The binary search inserts after the offers at the same price or cheaper.\<close>

lemma insertOffer_eq:
  assumes "price_sorted xs" and "valid_price (offer_Price v)" and "\<forall>x \<in> set xs. valid_price (offer_Price x)"
  shows "insertOffer xs v =
    filter (\<lambda>x. price_value (offer_Price x) \<le> price_value (offer_Price v)) xs @ v #
    filter (\<lambda>x. \<not> price_value (offer_Price x) \<le> price_value (offer_Price v)) xs"
proof -
  let ?f = "\<lambda>j. Cheaper (offer_Price v) (offer_Price (xs ! j))"
  let ?p = "\<lambda>o'. price_value (offer_Price o')"
  define k where "k = sort_Search (length xs) ?f"
  have f: "?f j \<longleftrightarrow> ?p v < ?p (xs ! j)" if "j < length xs" for j
    using Cheaper_iff assms(2,3) that by simp
  have mono: "?f b" if "a \<le> b" "b < length xs" "?f a" for a b
  proof -
    have "?p (xs ! a) \<le> ?p (xs ! b)"
      using assms(1) that(1,2) unfolding price_sorted_def sorted_wrt_iff_nth_less
      by (cases "a = b") auto
    then show ?thesis using f [of a] f [of b] that by simp
  qed
  have k: "k \<le> length xs" by (simp add: k_def)
  have below: "?p x \<le> ?p v" if "x \<in> set (take k xs)" for x
  proof -
    from that obtain i where "i < k" "x = xs ! i" using k by (auto simp: in_set_conv_nth)
    then show ?thesis
      using sort_Search_least(1) [of "length xs" ?f, OF mono] f [of i] k unfolding k_def [symmetric] by force
  qed
  have above: "\<not> ?p x \<le> ?p v" if "x \<in> set (drop k xs)" for x
  proof -
    from that obtain i where "k + i < length xs" "x = xs ! (k + i)"
      by (auto simp: in_set_conv_nth less_diff_conv) (metis add.commute)
    then show ?thesis
      using sort_Search_least(2) [of "length xs" ?f, OF mono] f [of "k + i"] unfolding k_def [symmetric] by force
  qed
  show ?thesis
    using filter_split [of "take k xs" "\<lambda>x. ?p x \<le> ?p v" "drop k xs"] below above
    by (simp add: insertOffer_def k_def [symmetric] slice_insert_def)
qed

lemma price_sorted_insertOffer:
  assumes "price_sorted xs" and "valid_price (offer_Price v)" and "\<forall>x \<in> set xs. valid_price (offer_Price x)"
  shows "price_sorted (insertOffer xs v)"
  using assms(1) unfolding insertOffer_eq [OF assms] price_sorted_def sorted_wrt_append
  by (auto simp: sorted_wrt_filter not_le intro: order.trans order.strict_implies_order)

section \<open>Lookup by key\<close>

lemma edge_find_from_None: "edge_find_from i e k = None \<longleftrightarrow> k \<notin> edge_key ` set e"
  by (induction i e k rule: edge_find_from.induct) auto

lemma edge_find_from_Some:
  "edge_find_from i e k = Some j \<Longrightarrow> i \<le> j \<and> j - i < length e \<and> edge_key (e ! (j - i)) = k \<and>
    venue e k = Some (edge_value (e ! (j - i)))"
proof (induction i e k rule: edge_find_from.induct)
  case (2 i x e k)
  then show ?case
    by (auto simp: venue_def Suc_diff_Suc Suc_le_eq nth_Cons' split: if_splits)
qed simp

lemma edge_find_None: "edge_find e k = None \<longleftrightarrow> k \<notin> edge_key ` set e"
  by (simp add: edge_find_def edge_find_from_None)

lemma edge_find_Some:
  "edge_find e k = Some i \<Longrightarrow> i < length e \<and> edge_key (e ! i) = k \<and> venue e k = Some (edge_value (e ! i))"
  using edge_find_from_Some [of 0 e k i] by (simp add: edge_find_def)

lemma venue_None: "venue e k = None \<longleftrightarrow> k \<notin> edge_key ` set e"
  by (simp add: venue_def map_of_eq_None_iff image_image)

lemma offers_of_venue: "offers_of e k = (case venue e k of None \<Rightarrow> [] | Some v \<Rightarrow> ven_offers v)"
  using edge_find_Some [of e k] venue_None [of e k] edge_find_None [of e k]
  by (auto simp: offers_of_def split: option.splits)

lemma pool_of_venue:
  "pool_of e k = (case venue e k of None \<Rightarrow> None | Some v \<Rightarrow> if pool_set (ven_pool v) then Some (ven_pool v) else None)"
  using edge_find_Some [of e k] venue_None [of e k] edge_find_None [of e k]
  by (auto simp: pool_of_def Let_def split: option.splits)

lemma venue_append: "venue (e @ [x]) k =
    (if k = edge_key x \<and> k \<notin> edge_key ` set e then Some (edge_value x) else venue e k)"
proof (cases "venue e k")
  case None
  then show ?thesis using venue_None [of e k] by (auto simp: venue_def map_add_def)
next
  case (Some v)
  then have "k \<in> edge_key ` set e" using venue_None [of e k] by auto
  with Some show ?thesis by (auto simp: venue_def map_add_def)
qed

lemma venue_update:
  assumes "distinct (map edge_key e)" and "i < length e" and "edge_key x = edge_key (e ! i)"
  shows "venue (e[i := x]) k = (if k = edge_key (e ! i) then Some (edge_value x) else venue e k)"
  using assms
proof (induction e arbitrary: i)
  case (Cons y e)
  then show ?case by (cases i) (auto simp: venue_def)
qed simp

lemma venue_delete:
  assumes "distinct (map edge_key e)" and "i < length e"
  shows "venue (slice_delete e i) k = (if k = edge_key (e ! i) then None else venue e k)"
  using assms
proof (induction e arbitrary: i)
  case (Cons y e)
  show ?case
  proof (cases i)
    case 0
    then show ?thesis using Cons.prems venue_None [of e k] by (auto simp: slice_delete_def venue_def)
  next
    case (Suc j)
    have "slice_delete (y # e) (Suc j) = y # slice_delete e j" by (simp add: slice_delete_def)
    then show ?thesis using Cons Suc by (auto simp: venue_def)
  qed
qed simp

section \<open>Operations on edge sets\<close>

lemma edge_inv_update:
  "edge_inv e \<Longrightarrow> i < length e \<Longrightarrow> edge_key x = edge_key (e ! i) \<Longrightarrow> edge_ok x \<Longrightarrow> edge_inv (e[i := x])"
proof -
  assume a: "edge_inv e" "i < length e" "edge_key x = edge_key (e ! i)" "edge_ok x"
  have "map edge_key (e[i := x]) = map edge_key e"
    using a(2,3) by (metis list_update_id map_update nth_map)
  moreover have "list_all edge_ok (e[i := x])"
    using a set_update_subset_insert [of e i x] by (auto simp: edge_inv_def list_all_iff)
  ultimately show ?thesis using a(1) by (simp add: edge_inv_def)
qed

lemma edge_inv_append:
  "edge_inv e \<Longrightarrow> edge_find e (edge_key x) = None \<Longrightarrow> edge_ok x \<Longrightarrow> edge_inv (e @ [x])"
  by (auto simp: edge_inv_def edge_find_None)

lemma edge_inv_delete: "edge_inv e \<Longrightarrow> edge_inv (slice_delete e i)"
proof -
  assume a: "edge_inv e"
  have "distinct (slice_delete (map edge_key e) i)"
    using a by (simp add: edge_inv_def slice_delete_def set_take_disj_set_drop_if_distinct)
  moreover have "slice_delete (map edge_key e) i = map edge_key (slice_delete e i)"
    by (simp add: slice_delete_def take_map drop_map)
  ultimately show ?thesis
    using a set_slice_delete_subset [of e i] by (auto simp: edge_inv_def list_all_iff)
qed

lemma edge_inv_nth: "edge_inv e \<Longrightarrow> i < length e \<Longrightarrow> edge_ok (e ! i)"
  by (simp add: edge_inv_def list_all_length)

lemma offers_of_ok:
  assumes "edge_inv e"
  shows "price_sorted (offers_of e k)" and "\<forall>x \<in> set (offers_of e k). valid_price (offer_Price x)"
proof -
  have "price_sorted (offers_of e k) \<and> (\<forall>x \<in> set (offers_of e k). valid_price (offer_Price x))"
  proof (cases "edge_find e k")
    case (Some i)
    then show ?thesis
      using edge_inv_nth [OF assms, of i] edge_find_Some [OF Some] by (simp add: offers_of_def edge_ok_def)
  qed (simp add: offers_of_def price_sorted_def)
  then show "price_sorted (offers_of e k)" and "\<forall>x \<in> set (offers_of e k). valid_price (offer_Price x)" by auto
qed

lemma edge_inv_distinct: "edge_inv e \<Longrightarrow> distinct (map edge_key e)"
  by (simp add: edge_inv_def)

lemmas edge_observers = offers_of_venue pool_of_venue venue_append venue_update venue_delete

lemma nil_pool_not_set [simp]: "\<not> pool_set nil_pool"
  by (simp add: pool_set_def nil_pool_def)

lemma venue_edge_addOffer:
  assumes "edge_inv e"
  shows "venue (edge_addOffer e k v) k' =
    (if k' = k then Some (case venue e k of
        None \<Rightarrow> \<lparr>ven_offers = [v], ven_pool = nil_pool\<rparr>
      | Some w \<Rightarrow> \<lparr>ven_offers = insertOffer (ven_offers w) v, ven_pool = ven_pool w\<rparr>)
     else venue e k')"
proof (cases "edge_find e k")
  case None
  then have "venue e k = None" by (simp add: venue_None edge_find_None)
  then show ?thesis using None venue_None [of e k] by (auto simp: edge_addOffer_def venue_append)
next
  case (Some i)
  then show ?thesis
    using edge_find_Some [OF Some] edge_inv_distinct [OF assms]
    by (auto simp: edge_addOffer_def venue_update Let_def)
qed

lemma edge_inv_addOffer:
  assumes "edge_inv e" and "valid_price (offer_Price v)"
  shows "edge_inv (edge_addOffer e k v)"
proof (cases "edge_find e k")
  case None
  then show ?thesis
    using assms by (auto simp: edge_addOffer_def edge_ok_def price_sorted_def intro!: edge_inv_append)
next
  case (Some i)
  then have i: "i < length e" using edge_find_Some by blast
  from edge_inv_nth [OF assms(1) i] show ?thesis
    using Some i assms
    by (auto simp: edge_addOffer_def Let_def edge_ok_def price_sorted_insertOffer intro!: edge_inv_update)
      (metis insertOffer_set empty_iff insert_not_empty set_empty)+
qed

lemma venue_edge_addPool:
  assumes "edge_inv e"
  shows "venue (edge_addPool e k p) k' =
    (if k' = k then Some \<lparr>ven_offers = offers_of e k, ven_pool = p\<rparr> else venue e k')"
proof (cases "edge_find e k")
  case None
  then show ?thesis
    using venue_None [of e k] edge_find_None [of e k] by (auto simp: edge_addPool_def venue_append offers_of_def)
next
  case (Some i)
  then show ?thesis
    using edge_find_Some [OF Some] edge_inv_distinct [OF assms]
    by (auto simp: edge_addPool_def venue_update offers_of_def)
qed

lemma edge_inv_addPool:
  assumes "edge_inv e" and "pool_set p"
  shows "edge_inv (edge_addPool e k p)"
proof (cases "edge_find e k")
  case None
  then show ?thesis
    using assms by (auto simp: edge_addPool_def edge_ok_def price_sorted_def intro!: edge_inv_append)
next
  case (Some i)
  then have i: "i < length e" using edge_find_Some by blast
  from edge_inv_nth [OF assms(1) i] show ?thesis
    using Some i assms by (auto simp: edge_addPool_def edge_ok_def intro!: edge_inv_update)
qed

lemma venue_edge_removePool:
  assumes "edge_inv e"
  shows "venue (edge_removePool e k) k' =
    (if k' = k then (if offers_of e k = [] then None else Some \<lparr>ven_offers = offers_of e k, ven_pool = nil_pool\<rparr>)
     else venue e k')"
proof (cases "edge_find e k")
  case None
  then show ?thesis
    using venue_None [of e k] edge_find_None [of e k] by (auto simp: edge_removePool_def offers_of_def)
next
  case (Some i)
  then show ?thesis
    using edge_find_Some [OF Some] edge_inv_distinct [OF assms]
    by (auto simp: edge_removePool_def venue_update venue_delete offers_of_def)
qed

lemma edge_inv_removePool:
  assumes "edge_inv e"
  shows "edge_inv (edge_removePool e k)"
proof (cases "edge_find e k")
  case None
  then show ?thesis using assms by (simp add: edge_removePool_def)
next
  case (Some i)
  then have i: "i < length e" using edge_find_Some by blast
  from edge_inv_nth [OF assms(1) i] show ?thesis
    using Some i assms by (auto simp: edge_removePool_def edge_ok_def intro!: edge_inv_update edge_inv_delete)
qed

lemma edge_removeOffer_cases:
  assumes "edge_inv e"
  shows "snd (edge_removeOffer e k v) \<longleftrightarrow> (\<exists>x \<in> set (offers_of e k). OfferId x = v)"
    and "edge_inv (fst (edge_removeOffer e k v))"
    and "venue (fst (edge_removeOffer e k v)) k' =
      (if k' = k \<and> (\<exists>x \<in> set (offers_of e k). OfferId x = v)
       then (if remove_id v (offers_of e k) = [] \<and> pool_of e k = None then None
             else Some ((the (venue e k))\<lparr>ven_offers := remove_id v (offers_of e k)\<rparr>))
       else venue e k')"
proof -
  let ?P = "\<exists>x \<in> set (offers_of e k). OfferId x = v"
  have "(snd (edge_removeOffer e k v) \<longleftrightarrow> ?P) \<and> edge_inv (fst (edge_removeOffer e k v)) \<and>
      venue (fst (edge_removeOffer e k v)) k' =
      (if k' = k \<and> ?P
       then (if remove_id v (offers_of e k) = [] \<and> pool_of e k = None then None
             else Some ((the (venue e k))\<lparr>ven_offers := remove_id v (offers_of e k)\<rparr>))
       else venue e k')"
  proof (cases "edge_find e k")
    case None
    then show ?thesis using assms by (simp add: edge_removeOffer_def offers_of_def)
  next
    case (Some i)
    note i = edge_find_Some [OF Some]
    have o: "offers_of e k = ven_offers (edge_value (e ! i))" by (simp add: offers_of_def Some)
    have p: "pool_of e k = None \<longleftrightarrow> \<not> pool_set (ven_pool (edge_value (e ! i)))" by (simp add: pool_of_def Some Let_def)
    show ?thesis
    proof (cases "offer_index 0 (ven_offers (edge_value (e ! i))) v")
      case None
      then have "\<not> ?P" by (simp add: o offer_index_None)
      with None Some show ?thesis using assms by (simp add: edge_removeOffer_def)
    next
      case j: (Some j)
      then have P: ?P using offer_index_None [of 0 "offers_of e k" v] by (auto simp: o)
      have d: "slice_delete (ven_offers (edge_value (e ! i))) j = remove_id v (ven_offers (edge_value (e ! i)))"
        using offer_index_Some [OF j] by simp
      have ok: "edge_ok (e ! i)" using edge_inv_nth assms i by blast
      show ?thesis
      proof (cases "remove_id v (offers_of e k) = [] \<and> pool_of e k = None")
        case True
        then have "edge_removeOffer e k v = (slice_delete e i, True)"
          using Some j d p o by (simp add: edge_removeOffer_def)
        then show ?thesis using P True i assms edge_inv_distinct [OF assms] by (simp add: venue_delete edge_inv_delete)
      next
        case False
        let ?x = "(e ! i)\<lparr>edge_value := (edge_value (e ! i))\<lparr>ven_offers := remove_id v (offers_of e k)\<rparr>, edge_reallocate := True\<rparr>"
        have r: "edge_removeOffer e k v = (e[i := ?x], True)"
          using Some j d p o False by (auto simp: edge_removeOffer_def)
        have "edge_ok ?x"
          using ok False p set_remove_id_subset [of v "offers_of e k"]
          by (auto simp: edge_ok_def o price_sorted_remove_id)
        then show ?thesis
          using P False r i assms edge_inv_distinct [OF assms] edge_inv_update [OF assms, of i ?x]
          by (auto simp: venue_update)
      qed
    qed
  qed
  then show "snd (edge_removeOffer e k v) \<longleftrightarrow> ?P" and "edge_inv (fst (edge_removeOffer e k v))"
    and "venue (fst (edge_removeOffer e k v)) k' =
      (if k' = k \<and> ?P
       then (if remove_id v (offers_of e k) = [] \<and> pool_of e k = None then None
             else Some ((the (venue e k))\<lparr>ven_offers := remove_id v (offers_of e k)\<rparr>))
       else venue e k')"
    by blast+
qed

lemma remove_id_absent: "\<not> (\<exists>x \<in> set xs. OfferId x = v) \<Longrightarrow> remove_id v xs = xs"
  by (induction xs) auto

lemma edge_realloc_same:
  "map edge_key (edge_realloc e) = map edge_key e" "map edge_value (edge_realloc e) = map edge_value e"
  by (induction e) (auto simp: edge_realloc_def)

lemma venue_edge_realloc: "venue (edge_realloc e) k = venue e k"
proof -
  have z: "map (\<lambda>x. (edge_key x, edge_value x)) e = zip (map edge_key e) (map edge_value e)" for e
    by (induction e) simp_all
  show ?thesis unfolding venue_def z edge_realloc_same ..
qed

lemma edge_inv_realloc: "edge_inv e \<Longrightarrow> edge_inv (edge_realloc e)"
proof -
  assume a: "edge_inv e"
  have "list_all edge_ok e \<Longrightarrow> list_all edge_ok (edge_realloc e)"
    by (auto simp: edge_realloc_def list_all_iff edge_ok_def)
  then show ?thesis using a by (simp add: edge_inv_def edge_realloc_same)
qed

lemma edge_inv_empty_iff:
  assumes "edge_inv e"
  shows "e = [] \<longleftrightarrow> (\<forall>k. offers_of e k = [] \<and> pool_of e k = None)"
proof
  assume r: "\<forall>k. offers_of e k = [] \<and> pool_of e k = None"
  show "e = []"
  proof (rule ccontr)
    assume "e \<noteq> []"
    then obtain x e' where e: "e = x # e'" by (cases e) auto
    then have "venue e (edge_key x) = Some (edge_value x)" by (simp add: venue_def)
    moreover have "edge_ok x" using assms e by (simp add: edge_inv_def)
    ultimately show False
      using r [rule_format, of "edge_key x"] by (auto simp: offers_of_venue pool_of_venue edge_ok_def split: if_splits)
  qed
qed (simp add: offers_of_def pool_of_def edge_find_def)

interpretation es: edge_set "[]" edge_addOffer edge_addPool edge_removeOffer edge_removePool edge_realloc
  offers_of pool_of edge_inv insertOffer
proof unfold_locales
  fix e :: edgeSet and k k' :: nat and v :: OfferEntry and p :: liquidityPool and i :: int
  assume e: "edge_inv e"
  show "e = [] \<longleftrightarrow> (\<forall>k. offers_of e k = [] \<and> pool_of e k = None)" by (rule edge_inv_empty_iff [OF e])
  show "valid_price (offer_Price v) \<Longrightarrow> edge_inv (edge_addOffer e k v)" by (rule edge_inv_addOffer [OF e])
  show "offers_of (edge_addOffer e k v) k' = (if k' = k then insertOffer (offers_of e k) v else offers_of e k')"
    unfolding offers_of_venue venue_edge_addOffer [OF e]
    by (auto simp: insertOffer_def slice_insert_def split: option.splits)
  show "pool_of (edge_addOffer e k v) k' = pool_of e k'"
    unfolding pool_of_venue venue_edge_addOffer [OF e] by (auto split: option.splits)
  show "pool_set p \<Longrightarrow> edge_inv (edge_addPool e k p)" by (rule edge_inv_addPool [OF e])
  show "offers_of (edge_addPool e k p) k' = offers_of e k'"
    using venue_edge_addPool [OF e] by (simp add: offers_of_venue)
  show "pool_set p \<Longrightarrow> pool_of (edge_addPool e k p) k' = (if k' = k then Some p else pool_of e k')"
    using venue_edge_addPool [OF e] by (simp add: pool_of_venue)
  show "edge_inv (fst (edge_removeOffer e k i))" by (rule edge_removeOffer_cases(2) [OF e])
  show "snd (edge_removeOffer e k i) \<longleftrightarrow> (\<exists>v \<in> set (offers_of e k). OfferId v = i)"
    by (rule edge_removeOffer_cases(1) [OF e])
  show "offers_of (fst (edge_removeOffer e k i)) k' = (if k' = k then remove_id i (offers_of e k) else offers_of e k')"
    unfolding offers_of_venue [of "fst (edge_removeOffer e k i)"] edge_removeOffer_cases(3) [OF e]
    using remove_id_absent [of "offers_of e k" i] by (auto simp: offers_of_venue)
  show "pool_of (fst (edge_removeOffer e k i)) k' = pool_of e k'"
    unfolding pool_of_venue [of "fst (edge_removeOffer e k i)"] edge_removeOffer_cases(3) [OF e]
    by (auto simp: pool_of_venue offers_of_venue split: option.splits)
  show "edge_inv (edge_removePool e k)" by (rule edge_inv_removePool [OF e])
  show "offers_of (edge_removePool e k) k' = offers_of e k'"
    using venue_edge_removePool [OF e] by (simp add: offers_of_venue)
  show "pool_of (edge_removePool e k) k' = (if k' = k then None else pool_of e k')"
    using venue_edge_removePool [OF e] by (simp add: pool_of_venue)
  show "edge_inv (edge_realloc e)" by (rule edge_inv_realloc [OF e])
  show "offers_of (edge_realloc e) k = offers_of e k" by (simp add: offers_of_venue venue_edge_realloc)
  show "pool_of (edge_realloc e) k = pool_of e k" by (simp add: pool_of_venue venue_edge_realloc)
qed (simp add: edge_inv_def)

section \<open>Price and time priority\<close>

text \<open>
  Adding an offer to an edge set keeps its offers in price order and, among equal prices,
  in the order of insertion: the offer goes after all offers at its price or cheaper and
  before all dearer ones. Every other key, and every pool, is left as it was, and the
  edge set stays well formed.
\<close>
lemma edge_addOffer_priority:
  assumes "edge_inv e" and "valid_price (offer_Price v)"
  shows "edge_inv (edge_addOffer e k v) \<and>
    offers_of (edge_addOffer e k v) k =
      filter (\<lambda>x. price_value (offer_Price x) \<le> price_value (offer_Price v)) (offers_of e k) @ v #
      filter (\<lambda>x. \<not> price_value (offer_Price x) \<le> price_value (offer_Price v)) (offers_of e k) \<and>
    price_sorted (offers_of (edge_addOffer e k v) k) \<and>
    (\<forall>k'. k' = k \<or> offers_of (edge_addOffer e k v) k' = offers_of e k') \<and>
    (\<forall>k'. pool_of (edge_addOffer e k v) k' = pool_of e k')"
proof -
  note ok = offers_of_ok [of _ k]
  note inv = es.inv_add_offer [OF assms, of k]
  have "price_sorted (insertOffer (offers_of e k) v)"
    using ok(1) [OF inv] by (simp add: es.offers_add_offer [OF assms(1)])
  then show ?thesis
    using inv insertOffer_eq [OF ok(1) [OF assms(1)] assms(2) ok(2) [OF assms(1)]]
    by (simp add: es.offers_add_offer [OF assms(1)] es.pool_add_offer [OF assms(1)])
qed

lemma edge_addOffer_priority_witness:
  "edge_inv (edge_addOffer (edge_addOffer [] 5 (witness_offer 1 2)) 5 (witness_offer 2 2)) \<and>
   map OfferId (offers_of (edge_addOffer (edge_addOffer [] 5 (witness_offer 1 2)) 5 (witness_offer 2 2)) 5) = [1, 2]"
proof -
  have v: "valid_price (offer_Price (witness_offer i 2))" for i
    by (simp add: witness_offer_def valid_price_def MaxInt32_def)
  have e: "edge_inv []" by (simp add: edge_inv_def)
  note a = edge_addOffer_priority [OF e v, of 5 1]
  have "offers_of [] 5 = []" by (simp add: offers_of_def edge_find_def)
  with a edge_addOffer_priority [OF conjunct1 [OF a] v, of 5 2] show ?thesis
    by (simp add: witness_offer_def)
qed

end
