(* ===== verification/Graph.thy ===== *)
theory Graph
  imports Edges "HOL-Library.AList"
begin

text \<open>
  The order book graph (\<^verbatim>\<open>exp/orderbook/graph.go\<close> and \<^verbatim>\<open>batch.go\<close>): the state of
  \<^verbatim>\<open>OrderBookGraph\<close> and every operation that changes it. Go maps are association lists
  with distinct keys (\<open>AList.update\<close>, \<open>AList.delete\<close>, \<open>map_of\<close>); an index
  expression outside its slice is the error \<open>IndexOutOfRange\<close>, so that a panic of the
  code is a value of the model. Locks are not modelled: every operation holds the write
  lock for its whole duration and is atomic.
\<close>

section \<open>Definitions: state\<close>

record tradingPair =
  buyingAsset :: nat
  sellingAsset :: nat

datatype graph_error =
    errOfferNotPresent
  | errBatchAlreadyApplied
  | errUnexpectedLedger
  | CouldNotUpdateOffer graph_error
  | CouldNotApplyBatch graph_error
  | IndexOutOfRange
  | PoolArmNotSet pool_error

text \<open>The four operations a batch can hold (\<^verbatim>\<open>orderBookOperation\<close> with its operation type).\<close>

datatype orderBookOperation =
    AddOfferOp OfferEntry
  | RemoveOfferOp int
  | AddLiquidityPoolOp LiquidityPoolEntry
  | RemoveLiquidityPoolOp LiquidityPoolEntry

record orderBookBatchedUpdates =
  operations :: "orderBookOperation list"
  committed :: bool

record OrderBookGraph =
  idToAssetString :: "string list"
  assetStringToID :: "(string \<times> nat) list"
  vacantIDs :: "nat list"
  venuesForBuyingAsset :: "edgeSet list"
  venuesForSellingAsset :: "edgeSet list"
  liquidityPools :: "(tradingPair \<times> LiquidityPoolEntry) list"
  tradingPairForOffer :: "(int \<times> tradingPair) list"
  batchedUpdates :: orderBookBatchedUpdates
  lastLedger :: nat

text \<open>\<^verbatim>\<open>graph.batch()\<close>: an empty batch on this graph.\<close>

definition new_batch :: orderBookBatchedUpdates where
  "new_batch = \<lparr>operations = [], committed = False\<rparr>"

definition graph_Clear :: "OrderBookGraph \<Rightarrow> OrderBookGraph" where
  "graph_Clear g = g\<lparr>assetStringToID := [], idToAssetString := [], vacantIDs := [],
     venuesForSellingAsset := [], venuesForBuyingAsset := [], tradingPairForOffer := [],
     liquidityPools := [], batchedUpdates := new_batch, lastLedger := 0\<rparr>"

text \<open>\<^verbatim>\<open>&OrderBookGraph{}\<close> before it is cleared: every field has its zero value.\<close>

definition NewOrderBookGraph :: OrderBookGraph where
  "NewOrderBookGraph = graph_Clear
     \<lparr>idToAssetString = [], assetStringToID = [], vacantIDs = [], venuesForBuyingAsset = [],
      venuesForSellingAsset = [], liquidityPools = [], tradingPairForOffer = [], batchedUpdates = new_batch,
      lastLedger = 0\<rparr>"

section \<open>Definitions: changing the graph\<close>

text \<open>An indexed read.\<close>

definition table_get :: "edgeSet list \<Rightarrow> nat \<Rightarrow> (graph_error, edgeSet) result" where
  "table_get t i = (if i < length t then Inr (t ! i) else Inl IndexOutOfRange)"

definition getOrCreateAssetID :: "OrderBookGraph \<Rightarrow> Asset \<Rightarrow> (graph_error, OrderBookGraph \<times> nat) result" where
  "getOrCreateAssetID g asset =
     (let assetString = Asset_String asset in
      case map_of (assetStringToID g) assetString of
        Some i \<Rightarrow> Inr (g, i)
      | None \<Rightarrow>
         if length (vacantIDs g) > 0 then
           let i = vacantIDs g ! (length (vacantIDs g) - 1) in
           if i < length (idToAssetString g)
           then Inr (g\<lparr>vacantIDs := take (length (vacantIDs g) - 1) (vacantIDs g),
                       idToAssetString := (idToAssetString g)[i := assetString],
                       assetStringToID := AList.update assetString i (assetStringToID g)\<rparr>, i)
           else Inl IndexOutOfRange
         else
           let i = length (idToAssetString g) in
           Inr (g\<lparr>idToAssetString := idToAssetString g @ [assetString],
                  venuesForBuyingAsset := venuesForBuyingAsset g @ [[]],
                  venuesForSellingAsset := venuesForSellingAsset g @ [[]],
                  assetStringToID := AList.update assetString i (assetStringToID g)\<rparr>, i))"

definition maybeDeleteAsset :: "OrderBookGraph \<Rightarrow> nat \<Rightarrow> (graph_error, OrderBookGraph) result" where
  "maybeDeleteAsset g asset =
     bind_result (table_get (venuesForBuyingAsset g) asset) (\<lambda>buyingEdges.
     bind_result (table_get (venuesForSellingAsset g) asset) (\<lambda>sellingEdges.
     if length buyingEdges = 0 \<and> length sellingEdges = 0 then
       if asset < length (idToAssetString g)
       then Inr (g\<lparr>assetStringToID := AList.delete (idToAssetString g ! asset) (assetStringToID g),
                   idToAssetString := (idToAssetString g)[asset := []],
                   vacantIDs := vacantIDs g @ [asset]\<rparr>)
       else Inl IndexOutOfRange
     else Inr g))"

definition graph_removeOffer :: "OrderBookGraph \<Rightarrow> int \<Rightarrow> (graph_error, OrderBookGraph) result" where
  "graph_removeOffer g offerID =
     (case map_of (tradingPairForOffer g) offerID of
        None \<Rightarrow> Inl errOfferNotPresent
      | Some pair \<Rightarrow>
         let g = g\<lparr>tradingPairForOffer := AList.delete offerID (tradingPairForOffer g)\<rparr> in
         bind_result (table_get (venuesForSellingAsset g) (sellingAsset pair)) (\<lambda>edges.
         case edge_removeOffer edges (buyingAsset pair) offerID of (edges, ok) \<Rightarrow>
         if \<not> ok then Inl errOfferNotPresent
         else let g = g\<lparr>venuesForSellingAsset := (venuesForSellingAsset g)[sellingAsset pair := edges]\<rparr> in
         bind_result (table_get (venuesForBuyingAsset g) (buyingAsset pair)) (\<lambda>edges.
         case edge_removeOffer edges (sellingAsset pair) offerID of (edges, ok) \<Rightarrow>
         if \<not> ok then Inl errOfferNotPresent
         else let g = g\<lparr>venuesForBuyingAsset := (venuesForBuyingAsset g)[buyingAsset pair := edges]\<rparr> in
         bind_result (maybeDeleteAsset g (buyingAsset pair)) (\<lambda>g.
         maybeDeleteAsset g (sellingAsset pair)))))"

definition graph_addOffer :: "OrderBookGraph \<Rightarrow> OfferEntry \<Rightarrow> (graph_error, OrderBookGraph) result" where
  "graph_addOffer g offer =
     bind_result
       (case map_of (tradingPairForOffer g) (OfferId offer) of
          Some _ \<Rightarrow> (case graph_removeOffer g (OfferId offer) of Inl e \<Rightarrow> Inl (CouldNotUpdateOffer e) | Inr g \<Rightarrow> Inr g)
        | None \<Rightarrow> Inr g) (\<lambda>g.
     bind_result (getOrCreateAssetID g (Buying offer)) (\<lambda>(g, buying).
     bind_result (getOrCreateAssetID g (Selling offer)) (\<lambda>(g, selling).
     let g = g\<lparr>tradingPairForOffer :=
                 AList.update (OfferId offer) \<lparr>buyingAsset = buying, sellingAsset = selling\<rparr> (tradingPairForOffer g)\<rparr> in
     bind_result (table_get (venuesForSellingAsset g) selling) (\<lambda>edges.
     let g = g\<lparr>venuesForSellingAsset := (venuesForSellingAsset g)[selling := edge_addOffer edges buying offer]\<rparr> in
     bind_result (table_get (venuesForBuyingAsset g) buying) (\<lambda>edges.
     Inr (g\<lparr>venuesForBuyingAsset := (venuesForBuyingAsset g)[buying := edge_addOffer edges selling offer]\<rparr>))))))"

definition pool_assets :: "LiquidityPoolEntry \<Rightarrow> (graph_error, Asset \<times> Asset) result" where
  "pool_assets pool = (case getPoolAssets pool of Inl e \<Rightarrow> Inl (PoolArmNotSet e) | Inr ab \<Rightarrow> Inr ab)"

definition poolFromEntry ::
    "OrderBookGraph \<Rightarrow> LiquidityPoolEntry \<Rightarrow> (graph_error, OrderBookGraph \<times> liquidityPool) result" where
  "poolFromEntry g poolXDR =
     bind_result (pool_assets poolXDR) (\<lambda>(aXDR, bXDR).
     bind_result (getOrCreateAssetID g aXDR) (\<lambda>(g, assetA).
     bind_result (getOrCreateAssetID g bXDR) (\<lambda>(g, assetB).
     Inr (g, \<lparr>pool_entry = poolXDR, pool_assetA = assetA, pool_assetB = assetB\<rparr>))))"

text \<open>One table of the loop of \<^verbatim>\<open>addPool\<close>.\<close>

definition table_addPool :: "edgeSet list \<Rightarrow> liquidityPool \<Rightarrow> (graph_error, edgeSet list) result" where
  "table_addPool t pool =
     bind_result (table_get t (pool_assetA pool)) (\<lambda>edges.
     let t = t[pool_assetA pool := edge_addPool edges (pool_assetB pool) pool] in
     bind_result (table_get t (pool_assetB pool)) (\<lambda>edges.
     Inr (t[pool_assetB pool := edge_addPool edges (pool_assetA pool) pool])))"

definition graph_addPool :: "OrderBookGraph \<Rightarrow> LiquidityPoolEntry \<Rightarrow> (graph_error, OrderBookGraph) result" where
  "graph_addPool g poolEntry =
     bind_result (poolFromEntry g poolEntry) (\<lambda>(g, pool).
     let g = g\<lparr>liquidityPools :=
                 AList.update \<lparr>buyingAsset = pool_assetA pool, sellingAsset = pool_assetB pool\<rparr> (pool_entry pool)
                   (liquidityPools g)\<rparr> in
     bind_result (table_addPool (venuesForBuyingAsset g) pool) (\<lambda>t.
     let g = g\<lparr>venuesForBuyingAsset := t\<rparr> in
     bind_result (table_addPool (venuesForSellingAsset g) pool) (\<lambda>t.
     Inr (g\<lparr>venuesForSellingAsset := t\<rparr>))))"

text \<open>The inner loop of \<^verbatim>\<open>removePool\<close> for one of the two assets: both tables lose the pool.\<close>

definition tables_removePool :: "OrderBookGraph \<Rightarrow> nat \<Rightarrow> nat \<Rightarrow> (graph_error, OrderBookGraph) result" where
  "tables_removePool g asset otherAsset =
     bind_result (table_get (venuesForBuyingAsset g) asset) (\<lambda>edges.
     let g = g\<lparr>venuesForBuyingAsset := (venuesForBuyingAsset g)[asset := edge_removePool edges otherAsset]\<rparr> in
     bind_result (table_get (venuesForSellingAsset g) asset) (\<lambda>edges.
     Inr (g\<lparr>venuesForSellingAsset := (venuesForSellingAsset g)[asset := edge_removePool edges otherAsset]\<rparr>)))"

definition graph_removePool :: "OrderBookGraph \<Rightarrow> LiquidityPoolEntry \<Rightarrow> (graph_error, OrderBookGraph) result" where
  "graph_removePool g poolXDR =
     bind_result (pool_assets poolXDR) (\<lambda>(aXDR, bXDR).
     bind_result (getOrCreateAssetID g aXDR) (\<lambda>(g, assetA).
     bind_result (getOrCreateAssetID g bXDR) (\<lambda>(g, assetB).
     bind_result (tables_removePool g assetA (if assetA = assetB then assetA else assetB)) (\<lambda>g.
     bind_result (tables_removePool g assetB assetA) (\<lambda>g.
     let g = g\<lparr>liquidityPools :=
                 AList.delete \<lparr>buyingAsset = assetA, sellingAsset = assetB\<rparr> (liquidityPools g)\<rparr> in
     bind_result (maybeDeleteAsset g assetA) (\<lambda>g.
     maybeDeleteAsset g assetB))))))"

section \<open>Definitions: batches\<close>

definition queue_operation :: "OrderBookGraph \<Rightarrow> orderBookOperation \<Rightarrow> OrderBookGraph" where
  "queue_operation g op = g\<lparr>batchedUpdates :=
     (batchedUpdates g)\<lparr>operations := operations (batchedUpdates g) @ [op]\<rparr>\<rparr>"

definition AddOffers :: "OrderBookGraph \<Rightarrow> OfferEntry list \<Rightarrow> OrderBookGraph" where
  "AddOffers g offers = foldl (\<lambda>g offer. queue_operation g (AddOfferOp offer)) g offers"

definition AddLiquidityPools :: "OrderBookGraph \<Rightarrow> LiquidityPoolEntry list \<Rightarrow> OrderBookGraph" where
  "AddLiquidityPools g pools = foldl (\<lambda>g lp. queue_operation g (AddLiquidityPoolOp lp)) g pools"

definition RemoveOffer :: "OrderBookGraph \<Rightarrow> int \<Rightarrow> OrderBookGraph" where
  "RemoveOffer g offerID = queue_operation g (RemoveOfferOp offerID)"

definition RemoveLiquidityPool :: "OrderBookGraph \<Rightarrow> LiquidityPoolEntry \<Rightarrow> OrderBookGraph" where
  "RemoveLiquidityPool g pool = queue_operation g (RemoveLiquidityPoolOp pool)"

definition graph_Discard :: "OrderBookGraph \<Rightarrow> OrderBookGraph" where
  "graph_Discard g = g\<lparr>batchedUpdates := new_batch\<rparr>"

text \<open>
  One turn of the loop of \<^verbatim>\<open>apply\<close>: the graph and the set of pairs whose edge sets are
  reallocated at the end.
\<close>

fun apply_operation ::
    "OrderBookGraph \<times> tradingPair list \<Rightarrow> orderBookOperation \<Rightarrow> (graph_error, OrderBookGraph \<times> tradingPair list) result" where
  "apply_operation (g, pairs) (AddOfferOp offer) =
     (case graph_addOffer g offer of Inl e \<Rightarrow> Inl (CouldNotApplyBatch e) | Inr g \<Rightarrow> Inr (g, pairs))"
| "apply_operation (g, pairs) (RemoveOfferOp offerID) =
     (case map_of (tradingPairForOffer g) offerID of
        None \<Rightarrow> Inr (g, pairs)
      | Some pair \<Rightarrow>
         (case graph_removeOffer g offerID of
            Inl e \<Rightarrow> Inl (CouldNotApplyBatch e)
          | Inr g \<Rightarrow> Inr (g, List.insert pair pairs)))"
| "apply_operation (g, pairs) (AddLiquidityPoolOp pool) =
     (case graph_addPool g pool of Inl e \<Rightarrow> Inl e | Inr g \<Rightarrow> Inr (g, pairs))"
| "apply_operation (g, pairs) (RemoveLiquidityPoolOp pool) =
     (case graph_removePool g pool of Inl e \<Rightarrow> Inl e | Inr g \<Rightarrow> Inr (g, pairs))"

fun apply_operations ::
    "OrderBookGraph \<times> tradingPair list \<Rightarrow> orderBookOperation list \<Rightarrow> (graph_error, OrderBookGraph \<times> tradingPair list) result" where
  "apply_operations s [] = Inr s"
| "apply_operations s (op # ops) = bind_result (apply_operation s op) (\<lambda>s. apply_operations s ops)"

fun reallocate_pairs :: "OrderBookGraph \<Rightarrow> tradingPair list \<Rightarrow> (graph_error, OrderBookGraph) result" where
  "reallocate_pairs g [] = Inr g"
| "reallocate_pairs g (pair # pairs) =
     bind_result (table_get (venuesForSellingAsset g) (sellingAsset pair)) (\<lambda>edges.
     let g = g\<lparr>venuesForSellingAsset := (venuesForSellingAsset g)[sellingAsset pair := edge_realloc edges]\<rparr> in
     bind_result (table_get (venuesForBuyingAsset g) (buyingAsset pair)) (\<lambda>edges.
     reallocate_pairs (g\<lparr>venuesForBuyingAsset := (venuesForBuyingAsset g)[buyingAsset pair := edge_realloc edges]\<rparr>) pairs))"

text \<open>
  \<^verbatim>\<open>apply\<close> on the internal batch. The result is the graph after the call and the error it
  returned or panicked with, if any; a panic inside the loop leaves the graph as it was
  before the batch in the model (the program does not continue from it).
\<close>

definition batch_apply :: "OrderBookGraph \<Rightarrow> nat \<Rightarrow> OrderBookGraph \<times> graph_error option" where
  "batch_apply g ledger =
     (if committed (batchedUpdates g) then (g, Some errBatchAlreadyApplied)
      else
        let g = g\<lparr>batchedUpdates := (batchedUpdates g)\<lparr>committed := True\<rparr>\<rparr> in
        if lastLedger g > 0 \<and> ledger \<le> lastLedger g then (g, Some errUnexpectedLedger)
        else case apply_operations (g, []) (operations (batchedUpdates g)) of
            Inl e \<Rightarrow> (g, Some e)
          | Inr (g', pairs) \<Rightarrow>
             (case reallocate_pairs (g'\<lparr>lastLedger := ledger\<rparr>) pairs of
                Inl e \<Rightarrow> (g, Some e)
              | Inr g' \<Rightarrow> (g', None)))"

definition graph_Apply :: "OrderBookGraph \<Rightarrow> nat \<Rightarrow> OrderBookGraph \<times> graph_error option" where
  "graph_Apply g ledger =
     (case batch_apply g ledger of
        (g, Some err) \<Rightarrow> (g, Some err)
      | (g, None) \<Rightarrow> (g\<lparr>batchedUpdates := new_batch\<rparr>, None))"

section \<open>Definitions: reading the graph\<close>

definition graph_Offers :: "OrderBookGraph \<Rightarrow> OfferEntry list" where
  "graph_Offers g = concat (map (\<lambda>edges. concat (map (\<lambda>x. ven_offers (edge_value x)) edges)) (venuesForSellingAsset g))"

definition graph_LiquidityPools :: "OrderBookGraph \<Rightarrow> LiquidityPoolEntry list" where
  "graph_LiquidityPools g = map snd (liquidityPools g)"

definition graph_IsEmpty :: "OrderBookGraph \<Rightarrow> bool" where
  "graph_IsEmpty g \<longleftrightarrow> length (liquidityPools g) = 0 \<and> length (tradingPairForOffer g) = 0"

section \<open>Definitions: the invariant and the abstract order book\<close>

definition sell_offers :: "OrderBookGraph \<Rightarrow> nat \<Rightarrow> nat \<Rightarrow> OfferEntry list" where
  "sell_offers g = table_at offers_of [] (venuesForSellingAsset g)"
definition sell_pool :: "OrderBookGraph \<Rightarrow> nat \<Rightarrow> nat \<Rightarrow> liquidityPool option" where
  "sell_pool g = table_at pool_of None (venuesForSellingAsset g)"
definition buy_offers :: "OrderBookGraph \<Rightarrow> nat \<Rightarrow> nat \<Rightarrow> OfferEntry list" where
  "buy_offers g = table_at offers_of [] (venuesForBuyingAsset g)"
definition buy_pool :: "OrderBookGraph \<Rightarrow> nat \<Rightarrow> nat \<Rightarrow> liquidityPool option" where
  "buy_pool g = table_at pool_of None (venuesForBuyingAsset g)"

text \<open>Offers and pools as the ledger has them.\<close>

definition valid_offer :: "OfferEntry \<Rightarrow> bool" where
  "valid_offer v \<longleftrightarrow> valid_asset (Selling v) \<and> valid_asset (Buying v) \<and> Buying v \<noteq> Selling v \<and> valid_price (offer_Price v)"

definition valid_pool :: "LiquidityPoolEntry \<Rightarrow> bool" where
  "valid_pool p \<longleftrightarrow> lp_Type p = 0 \<and> (case lp_ConstantProduct p of
     None \<Rightarrow> False
   | Some d \<Rightarrow> valid_asset (cp_AssetA d) \<and> valid_asset (cp_AssetB d) \<and> Asset_LessThan (cp_AssetA d) (cp_AssetB d))"

definition pool_key :: "LiquidityPoolEntry \<Rightarrow> string \<times> string" where
  "pool_key p = (Asset_String (cp_AssetA (the (lp_ConstantProduct p))), Asset_String (cp_AssetB (the (lp_ConstantProduct p))))"

fun valid_op :: "orderBookOperation \<Rightarrow> bool" where
  "valid_op (AddOfferOp v) = valid_offer v"
| "valid_op (RemoveOfferOp i) = True"
| "valid_op (AddLiquidityPoolOp p) = valid_pool p"
| "valid_op (RemoveLiquidityPoolOp p) = valid_pool p"

text \<open>
  Asset ids: the string table and the map are inverse to each other, the empty string marks
  exactly the vacant ids, and both tables have one cell per id.
\<close>

definition ids_ok :: "OrderBookGraph \<Rightarrow> bool" where
  "ids_ok g \<longleftrightarrow>
     length (venuesForBuyingAsset g) = length (idToAssetString g) \<and>
     length (venuesForSellingAsset g) = length (idToAssetString g) \<and>
     distinct (map fst (assetStringToID g)) \<and>
     (\<forall>s i. map_of (assetStringToID g) s = Some i \<longleftrightarrow>
        i < length (idToAssetString g) \<and> idToAssetString g ! i = s \<and> s \<noteq> []) \<and>
     distinct (vacantIDs g) \<and>
     set (vacantIDs g) = {i. i < length (idToAssetString g) \<and> idToAssetString g ! i = []}"

text \<open>Both tables are well formed and hold the same venues, one by seller and one by buyer.\<close>

definition tables_ok :: "OrderBookGraph \<Rightarrow> bool" where
  "tables_ok g \<longleftrightarrow> list_all edge_inv (venuesForSellingAsset g) \<and> list_all edge_inv (venuesForBuyingAsset g) \<and>
     (\<forall>s b. sell_offers g s b = buy_offers g b s) \<and> (\<forall>s b. sell_pool g s b = buy_pool g b s)"

text \<open>
  The offers and pools of the table agree with the two maps and with the asset ids. The
  arguments are the string table, the offers and pool for each pair of ids, and the maps.
\<close>

definition offers_ok :: "string list \<Rightarrow> (nat \<Rightarrow> nat \<Rightarrow> OfferEntry list) \<Rightarrow> (int \<times> tradingPair) list \<Rightarrow> bool" where
  "offers_ok ids so tp \<longleftrightarrow>
     distinct (map fst tp) \<and>
     (\<forall>s b v. v \<in> set (so s b) \<longrightarrow> valid_offer v \<and> s < length ids \<and> b < length ids \<and>
        ids ! s = Asset_String (Selling v) \<and> ids ! b = Asset_String (Buying v) \<and>
        map_of tp (OfferId v) = Some \<lparr>buyingAsset = b, sellingAsset = s\<rparr>) \<and>
     (\<forall>s b. distinct (map OfferId (so s b))) \<and>
     (\<forall>i p. map_of tp i = Some p \<longrightarrow> (\<exists>v \<in> set (so (sellingAsset p) (buyingAsset p)). OfferId v = i))"

definition pool_at :: "string list \<Rightarrow> nat \<Rightarrow> nat \<Rightarrow> liquidityPool \<Rightarrow> bool" where
  "pool_at ids s b p \<longleftrightarrow>
     (pool_assetA p = s \<and> pool_assetB p = b \<or> pool_assetA p = b \<and> pool_assetB p = s) \<and>
     s < length ids \<and> b < length ids \<and> valid_pool (pool_entry p) \<and>
     (ids ! pool_assetA p, ids ! pool_assetB p) = pool_key (pool_entry p)"

definition pools_ok ::
    "string list \<Rightarrow> (nat \<Rightarrow> nat \<Rightarrow> liquidityPool option) \<Rightarrow> (tradingPair \<times> LiquidityPoolEntry) list \<Rightarrow> bool" where
  "pools_ok ids sp lp \<longleftrightarrow>
     distinct (map fst lp) \<and>
     (\<forall>s b p. sp s b = Some p \<longrightarrow> pool_at ids s b p \<and> sp b s = Some p) \<and>
     (\<forall>k e. map_of lp k = Some e \<longleftrightarrow>
        (\<exists>p. sp (buyingAsset k) (sellingAsset k) = Some p \<and> pool_assetA p = buyingAsset k \<and>
           pool_assetB p = sellingAsset k \<and> pool_entry p = e))"

definition used :: "OrderBookGraph \<Rightarrow> nat \<Rightarrow> bool" where
  "used g i \<longleftrightarrow> i < length (venuesForSellingAsset g) \<and> i < length (venuesForBuyingAsset g) \<and>
     (venuesForSellingAsset g ! i \<noteq> [] \<or> venuesForBuyingAsset g ! i \<noteq> [])"

definition base_inv :: "OrderBookGraph \<Rightarrow> bool" where
  "base_inv g \<longleftrightarrow> ids_ok g \<and> tables_ok g \<and>
     offers_ok (idToAssetString g) (sell_offers g) (tradingPairForOffer g) \<and>
     pools_ok (idToAssetString g) (sell_pool g) (liquidityPools g)"

text \<open>At rest, every id that is not vacant has a venue; inside an operation, up to a set of ids.\<close>

definition live_except :: "nat set \<Rightarrow> OrderBookGraph \<Rightarrow> bool" where
  "live_except S g \<longleftrightarrow> (\<forall>i < length (idToAssetString g). idToAssetString g ! i \<noteq> [] \<longrightarrow> i \<in> S \<or> used g i)"

definition graph_inv :: "OrderBookGraph \<Rightarrow> bool" where
  "graph_inv g \<longleftrightarrow> base_inv g \<and> live_except {} g"

text \<open>The abstract order book: offers by id and pools by pair of asset strings.\<close>

record order_book =
  book_offers :: "int \<rightharpoonup> OfferEntry"
  book_pools :: "string \<times> string \<rightharpoonup> LiquidityPoolEntry"

definition abs_offers :: "OrderBookGraph \<Rightarrow> int \<rightharpoonup> OfferEntry" where
  "abs_offers g i =
     (case map_of (tradingPairForOffer g) i of
        None \<Rightarrow> None
      | Some p \<Rightarrow> find (\<lambda>v. OfferId v = i) (sell_offers g (sellingAsset p) (buyingAsset p)))"

definition abs_pools :: "OrderBookGraph \<Rightarrow> string \<times> string \<rightharpoonup> LiquidityPoolEntry" where
  "abs_pools g k =
     (case (map_of (assetStringToID g) (fst k), map_of (assetStringToID g) (snd k)) of
        (Some a, Some b) \<Rightarrow> map_of (liquidityPools g) \<lparr>buyingAsset = a, sellingAsset = b\<rparr>
      | _ \<Rightarrow> None)"

definition book_of :: "OrderBookGraph \<Rightarrow> order_book" where
  "book_of g = \<lparr>book_offers = abs_offers g, book_pools = abs_pools g\<rparr>"

fun book_op :: "order_book \<Rightarrow> orderBookOperation \<Rightarrow> order_book" where
  "book_op m (AddOfferOp v) = m\<lparr>book_offers := (book_offers m)(OfferId v \<mapsto> v)\<rparr>"
| "book_op m (RemoveOfferOp i) = m\<lparr>book_offers := (book_offers m)(i := None)\<rparr>"
| "book_op m (AddLiquidityPoolOp p) = m\<lparr>book_pools := (book_pools m)(pool_key p \<mapsto> p)\<rparr>"
| "book_op m (RemoveLiquidityPoolOp p) = m\<lparr>book_pools := (book_pools m)(pool_key p := None)\<rparr>"

text \<open>
  Every call a client of the graph can make, and the graphs it can reach from an empty one.
\<close>

inductive graph_step :: "OrderBookGraph \<Rightarrow> OrderBookGraph \<Rightarrow> bool" where
  step_AddOffers: "list_all valid_offer vs \<Longrightarrow> graph_step g (AddOffers g vs)"
| step_AddLiquidityPools: "list_all valid_pool ps \<Longrightarrow> graph_step g (AddLiquidityPools g ps)"
| step_RemoveOffer: "graph_step g (RemoveOffer g i)"
| step_RemoveLiquidityPool: "valid_pool p \<Longrightarrow> graph_step g (RemoveLiquidityPool g p)"
| step_Apply: "graph_step g (fst (graph_Apply g ledger))"
| step_Discard: "graph_step g (graph_Discard g)"
| step_Clear: "graph_step g (graph_Clear g)"

inductive reachable :: "OrderBookGraph \<Rightarrow> bool" where
  reach_new: "reachable NewOrderBookGraph"
| reach_step: "reachable g \<Longrightarrow> graph_step g g' \<Longrightarrow> reachable g'"

section \<open>Views of updated graphs\<close>

lemma table_get_Inr [simp]: "i < length t \<Longrightarrow> table_get t i = Inr (t ! i)"
  by (simp add: table_get_def)

lemmas view_defs = sell_offers_def sell_pool_def buy_offers_def buy_pool_def

lemma table_at_range: "table_at f d t i k \<noteq> d \<Longrightarrow> i < length t"
  by (auto simp: table_at_def split: if_splits)

lemma not_all_or:
  "\<not> (\<forall>k. P k \<and> P' k) \<or> \<not> (\<forall>k. Q k \<and> Q' k) \<longleftrightarrow> (\<exists>k. \<not> P k \<or> \<not> Q k \<or> \<not> P' k \<or> \<not> Q' k)"
  by blast

text \<open>Ids that occur in a venue are in range and not vacant.\<close>

lemma tables_used:
  assumes "tables_ok g"
  shows "used g i \<longleftrightarrow> i < length (venuesForSellingAsset g) \<and> i < length (venuesForBuyingAsset g) \<and>
    (\<exists>k. sell_offers g i k \<noteq> [] \<or> sell_offers g k i \<noteq> [] \<or> sell_pool g i k \<noteq> None \<or> sell_pool g k i \<noteq> None)"
proof -
  have t: "list_all edge_inv (venuesForSellingAsset g)" "list_all edge_inv (venuesForBuyingAsset g)"
    and m: "\<And>k. buy_offers g i k = sell_offers g k i" "\<And>k. buy_pool g i k = sell_pool g k i"
    using assms by (simp_all add: tables_ok_def)
  show ?thesis
    unfolding used_def
  proof (intro conj_cong refl)
    assume "i < length (venuesForSellingAsset g)" and "i < length (venuesForBuyingAsset g)"
    then have A: "venuesForSellingAsset g ! i = [] \<longleftrightarrow> (\<forall>k. sell_offers g i k = [] \<and> sell_pool g i k = None)"
      and B: "venuesForBuyingAsset g ! i = [] \<longleftrightarrow> (\<forall>k. sell_offers g k i = [] \<and> sell_pool g k i = None)"
      using es.table_empty_cell [OF t(1)] es.table_empty_cell [OF t(2)]
      unfolding view_defs [symmetric] by (simp_all add: m)
    show "venuesForSellingAsset g ! i \<noteq> [] \<or> venuesForBuyingAsset g ! i \<noteq> [] \<longleftrightarrow>
      (\<exists>k. sell_offers g i k \<noteq> [] \<or> sell_offers g k i \<noteq> [] \<or> sell_pool g i k \<noteq> None \<or> sell_pool g k i \<noteq> None)"
      unfolding A B by (rule not_all_or)
  qed
qed

lemma named_of_offer:
  assumes "offers_ok ids so tp" and "so s b \<noteq> []"
  shows "s < length ids \<and> ids ! s \<noteq> [] \<and> b < length ids \<and> ids ! b \<noteq> [] \<and> s \<noteq> b"
proof -
  obtain v where v: "v \<in> set (so s b)" using assms(2) by (meson last_in_set)
  with assms(1) have "valid_offer v" "s < length ids" "b < length ids"
    "ids ! s = Asset_String (Selling v)" "ids ! b = Asset_String (Buying v)"
    unfolding offers_ok_def by blast+
  then show ?thesis using Asset_String_inject [of "Selling v" "Buying v"] by (auto simp: valid_offer_def)
qed

lemma named_of_pool:
  assumes "pools_ok ids sp lp" and "sp s b \<noteq> None"
  shows "s < length ids \<and> ids ! s \<noteq> [] \<and> b < length ids \<and> ids ! b \<noteq> [] \<and> s \<noteq> b"
proof -
  obtain p where p: "sp s b = Some p" using assms(2) by blast
  with assms(1) have p: "pool_at ids s b p" unfolding pools_ok_def by blast
  then obtain d where d: "lp_ConstantProduct (pool_entry p) = Some d" "valid_asset (cp_AssetA d)" "valid_asset (cp_AssetB d)"
    "Asset_LessThan (cp_AssetA d) (cp_AssetB d)"
    by (auto simp: pool_at_def valid_pool_def split: option.splits)
  have "cp_AssetA d \<noteq> cp_AssetB d" using d(4) Asset_LessThan_irrefl by metis
  then show ?thesis
    using p d Asset_String_inject [of "cp_AssetA d" "cp_AssetB d"]
    by (auto simp: pool_at_def pool_key_def Asset_String_nonempty [symmetric])
qed

text \<open>Renaming ids that no venue uses keeps the contents consistent.\<close>

lemma offers_ok_rename:
  assumes "offers_ok ids so tp"
    and "\<And>i. i < length ids \<Longrightarrow> (\<exists>k. so i k \<noteq> [] \<or> so k i \<noteq> []) \<Longrightarrow> i < length ids' \<and> ids' ! i = ids ! i"
  shows "offers_ok ids' so tp"
proof -
  have "s < length ids' \<and> b < length ids' \<and> ids' ! s = ids ! s \<and> ids' ! b = ids ! b" if "v \<in> set (so s b)" for s b v
    using named_of_offer [OF assms(1), of s b] assms(2) [of s] assms(2) [of b] that by fastforce
  then show ?thesis using assms(1) unfolding offers_ok_def by (metis (no_types, lifting))
qed

lemma pools_ok_rename:
  assumes "pools_ok ids sp lp"
    and "\<And>i. i < length ids \<Longrightarrow> (\<exists>k. sp i k \<noteq> None \<or> sp k i \<noteq> None) \<Longrightarrow> i < length ids' \<and> ids' ! i = ids ! i"
  shows "pools_ok ids' sp lp"
proof -
  have "pool_at ids' s b p" if "sp s b = Some p" for s b p
  proof -
    have "pool_at ids s b p" using assms(1) that unfolding pools_ok_def by blast
    moreover have "s < length ids'" "ids' ! s = ids ! s" "b < length ids'" "ids' ! b = ids ! b"
      using named_of_pool [OF assms(1), of s b] assms(2) [of s] assms(2) [of b] that by fastforce+
    ultimately show ?thesis by (auto simp: pool_at_def)
  qed
  then show ?thesis using assms(1) unfolding pools_ok_def by blast
qed

section \<open>Asset ids\<close>

text \<open>What an operation on ids keeps: the venues, the maps of offers and pools, the batch.\<close>

definition same_venues :: "OrderBookGraph \<Rightarrow> OrderBookGraph \<Rightarrow> bool" where
  "same_venues g g' \<longleftrightarrow> sell_offers g' = sell_offers g \<and> sell_pool g' = sell_pool g \<and>
     buy_offers g' = buy_offers g \<and> buy_pool g' = buy_pool g \<and>
     tradingPairForOffer g' = tradingPairForOffer g \<and> liquidityPools g' = liquidityPools g \<and>
     batchedUpdates g' = batchedUpdates g \<and> lastLedger g' = lastLedger g"

lemma ids_inject:
  assumes "ids_ok g" and "i < length (idToAssetString g)" and "j < length (idToAssetString g)"
    and "idToAssetString g ! i = idToAssetString g ! j" and "idToAssetString g ! i \<noteq> []"
  shows "i = j"
  using assms unfolding ids_ok_def by (metis option.inject)

lemma used_named:
  assumes "base_inv g" and "used g i"
  shows "i < length (idToAssetString g)" and "idToAssetString g ! i \<noteq> []"
proof -
  have t: "tables_ok g" "offers_ok (idToAssetString g) (sell_offers g) (tradingPairForOffer g)"
    "pools_ok (idToAssetString g) (sell_pool g) (liquidityPools g)"
    using assms(1) by (auto simp: base_inv_def)
  from assms(2) [unfolded tables_used [OF t(1)]] obtain k where
    "sell_offers g i k \<noteq> [] \<or> sell_offers g k i \<noteq> [] \<or> sell_pool g i k \<noteq> None \<or> sell_pool g k i \<noteq> None" by blast
  then show "i < length (idToAssetString g)" and "idToAssetString g ! i \<noteq> []"
    using named_of_offer [OF t(2)] named_of_pool [OF t(3)] by blast+
qed

lemma base_inv_rename:
  assumes "base_inv g" and "same_venues g g'" and "ids_ok g'"
    and "list_all edge_inv (venuesForSellingAsset g')" and "list_all edge_inv (venuesForBuyingAsset g')"
    and "\<And>i. used g i \<Longrightarrow> i < length (idToAssetString g') \<and> idToAssetString g' ! i = idToAssetString g ! i"
  shows "base_inv g'"
proof -
  have sv: "sell_offers g' = sell_offers g" "sell_pool g' = sell_pool g" "buy_offers g' = buy_offers g"
    "buy_pool g' = buy_pool g" "tradingPairForOffer g' = tradingPairForOffer g" "liquidityPools g' = liquidityPools g"
    using assms(2) by (simp_all add: same_venues_def)
  have t: "tables_ok g" "ids_ok g" using assms(1) by (auto simp: base_inv_def)
  have u: "used g i" if "i < length (idToAssetString g)"
    "\<exists>k. sell_offers g i k \<noteq> [] \<or> sell_offers g k i \<noteq> [] \<or> sell_pool g i k \<noteq> None \<or> sell_pool g k i \<noteq> None" for i
    using that t(2) unfolding tables_used [OF t(1)] ids_ok_def by auto
  have "offers_ok (idToAssetString g') (sell_offers g') (tradingPairForOffer g')"
    unfolding sv
  proof (rule offers_ok_rename [of "idToAssetString g"])
    fix i assume "i < length (idToAssetString g)" "\<exists>k. sell_offers g i k \<noteq> [] \<or> sell_offers g k i \<noteq> []"
    then have "used g i" using u by blast
    then show "i < length (idToAssetString g') \<and> idToAssetString g' ! i = idToAssetString g ! i" by (rule assms(6))
  qed (use assms(1) in \<open>simp add: base_inv_def\<close>)
  moreover have "pools_ok (idToAssetString g') (sell_pool g') (liquidityPools g')"
    unfolding sv
  proof (rule pools_ok_rename [of "idToAssetString g"])
    fix i assume "i < length (idToAssetString g)" "\<exists>k. sell_pool g i k \<noteq> None \<or> sell_pool g k i \<noteq> None"
    then have "used g i" using u by blast
    then show "i < length (idToAssetString g') \<and> idToAssetString g' ! i = idToAssetString g ! i" by (rule assms(6))
  qed (use assms(1) in \<open>simp add: base_inv_def\<close>)
  moreover have "tables_ok g'" using t(1) assms(4,5) sv by (simp add: tables_ok_def)
  ultimately show ?thesis using assms(3) by (simp add: base_inv_def)
qed

lemma same_used:
  assumes "same_venues g g'" and "tables_ok g" and "tables_ok g'"
    and "length (idToAssetString g') = length (idToAssetString g)" and "ids_ok g" and "ids_ok g'"
  shows "used g' i \<longleftrightarrow> used g i"
  using assms unfolding tables_used [OF assms(2)] tables_used [OF assms(3)] same_venues_def ids_ok_def by simp

text \<open>The map of asset strings after one binding is added or removed.\<close>

lemma map_of_alist_update: "map_of (AList.update k v al) k' = (if k' = k then Some v else map_of al k')"
  by (simp add: update_conv')

lemma map_of_alist_delete: "map_of (AList.delete k al) k' = (if k' = k then None else map_of al k')"
  by (simp add: delete_conv')

lemma getOrCreateAssetID_spec:
  assumes "base_inv g" and "live_except S g"
  shows "\<exists>g' i. getOrCreateAssetID g a = Inr (g', i) \<and> base_inv g' \<and> live_except (insert i S) g' \<and> same_venues g g' \<and>
    i < length (idToAssetString g') \<and> idToAssetString g' ! i = Asset_String a \<and>
    length (idToAssetString g) \<le> length (idToAssetString g') \<and>
    (\<forall>j < length (idToAssetString g). idToAssetString g ! j \<noteq> [] \<longrightarrow> idToAssetString g' ! j = idToAssetString g ! j)"
proof (cases "map_of (assetStringToID g) (Asset_String a)")
  case (Some i)
  then have "i < length (idToAssetString g) \<and> idToAssetString g ! i = Asset_String a"
    using assms(1) by (simp add: base_inv_def ids_ok_def)
  then show ?thesis
    using Some assms by (auto simp: getOrCreateAssetID_def same_venues_def live_except_def)
next
  case None
  have ids: "ids_ok g" and t: "tables_ok g"
    and inv: "list_all edge_inv (venuesForSellingAsset g)" "list_all edge_inv (venuesForBuyingAsset g)"
    using assms(1) by (auto simp: base_inv_def tables_ok_def)
  note I = ids [unfolded ids_ok_def]
  have fresh: "idToAssetString g ! i \<noteq> Asset_String a" if "i < length (idToAssetString g)" for i
    using I None that by (metis Asset_String_nonempty option.distinct(1))
  show ?thesis
  proof (cases "vacantIDs g = []")
    case False
    define i where "i = last (vacantIDs g)"
    define g' where "g' = g\<lparr>vacantIDs := butlast (vacantIDs g), idToAssetString := (idToAssetString g)[i := Asset_String a],
      assetStringToID := AList.update (Asset_String a) i (assetStringToID g)\<rparr>"
    have iv: "i \<in> set (vacantIDs g)" using False by (simp add: i_def)
    then have i: "i < length (idToAssetString g)" "idToAssetString g ! i = []" using I by auto
    have get: "getOrCreateAssetID g a = Inr (g', i)"
      using None False i by (simp add: getOrCreateAssetID_def g'_def i_def last_conv_nth butlast_conv_take Let_def)
    have sv: "same_venues g g'" by (simp add: same_venues_def g'_def view_defs)
    have vac: "distinct (butlast (vacantIDs g))" "set (butlast (vacantIDs g)) = set (vacantIDs g) - {i}"
    proof -
      have d: "distinct (butlast (vacantIDs g) @ [i])" using I False by (simp add: i_def)
      then show "distinct (butlast (vacantIDs g))" by simp
      have "set (vacantIDs g) = set (butlast (vacantIDs g) @ [i])" using False by (simp add: i_def)
      then show "set (butlast (vacantIDs g)) = set (vacantIDs g) - {i}" using d by auto
    qed
    have ids': "ids_ok g'"
    proof -
      have m: "map_of (AList.update (Asset_String a) i (assetStringToID g)) s = Some j \<longleftrightarrow>
          j < length (idToAssetString g) \<and> (idToAssetString g)[i := Asset_String a] ! j = s \<and> s \<noteq> []" for s j
        using I i fresh by (auto simp: map_of_alist_update nth_list_update)
      have v: "set (butlast (vacantIDs g)) =
          {j. j < length (idToAssetString g) \<and> (idToAssetString g)[i := Asset_String a] ! j = []}"
        using I i vac(2) by (auto simp: nth_list_update)
      show ?thesis using I vac(1) unfolding ids_ok_def by (simp add: g'_def m v distinct_update)
    qed
    have nu: "\<not> used g i" using used_named [OF assms(1)] i by auto
    have b: "base_inv g'"
      by (rule base_inv_rename [OF assms(1) sv ids'])
        (use inv nu used_named [OF assms(1)] in \<open>auto simp: g'_def nth_list_update_neq\<close>,
         metis nth_list_update_neq nu)
    moreover have "used g' j \<longleftrightarrow> used g j" for j by (simp add: used_def g'_def)
    then have "live_except (insert i S) g'"
      using assms(2) by (auto simp: live_except_def g'_def nth_list_update split: if_splits)
    ultimately show ?thesis using get sv i by (auto simp: g'_def nth_list_update)
  next
    case True
    define i where "i = length (idToAssetString g)"
    define g' where "g' = g\<lparr>idToAssetString := idToAssetString g @ [Asset_String a],
      venuesForBuyingAsset := venuesForBuyingAsset g @ [[]], venuesForSellingAsset := venuesForSellingAsset g @ [[]],
      assetStringToID := AList.update (Asset_String a) i (assetStringToID g)\<rparr>"
    have get: "getOrCreateAssetID g a = Inr (g', i)"
      using None True by (simp add: getOrCreateAssetID_def g'_def i_def Let_def)
    have sv: "same_venues g g'"
      by (auto simp: same_venues_def g'_def view_defs fun_eq_iff es.table_append_empty)
    have ids': "ids_ok g'"
    proof -
      have m: "map_of (AList.update (Asset_String a) i (assetStringToID g)) s = Some j \<longleftrightarrow>
          j < Suc (length (idToAssetString g)) \<and> (idToAssetString g @ [Asset_String a]) ! j = s \<and> s \<noteq> []" for s j
        using I fresh by (auto simp: map_of_alist_update nth_append i_def less_Suc_eq)
      have v: "{j. j < Suc (length (idToAssetString g)) \<and> (idToAssetString g @ [Asset_String a]) ! j = []} = {}"
        using I True by (auto simp: nth_append less_Suc_eq)
      show ?thesis using I True unfolding ids_ok_def by (simp add: g'_def m v distinct_update)
    qed
    have b: "base_inv g'"
      by (rule base_inv_rename [OF assms(1) sv ids'])
        (use inv used_named [OF assms(1)] in \<open>auto simp: g'_def nth_append less_Suc_eq edge_inv_def\<close>)
    moreover have "used g' j" if "used g j" for j
      using that by (auto simp: used_def g'_def nth_append)
    then have "live_except (insert i S) g'"
      using assms(2) by (auto simp: live_except_def g'_def nth_append less_Suc_eq i_def split: if_splits)
    ultimately show ?thesis using get sv by (auto simp: g'_def nth_append i_def)
  qed
qed

lemma maybeDeleteAsset_spec:
  assumes "base_inv g" and "live_except (insert i S) g" and "i < length (idToAssetString g)" and "idToAssetString g ! i \<noteq> []"
  shows "\<exists>g'. maybeDeleteAsset g i = Inr g' \<and> base_inv g' \<and> live_except S g' \<and> same_venues g g' \<and>
    length (idToAssetString g') = length (idToAssetString g) \<and>
    (\<forall>j. j \<noteq> i \<longrightarrow> idToAssetString g' ! j = idToAssetString g ! j)"
proof -
  have ids: "ids_ok g" and inv: "list_all edge_inv (venuesForSellingAsset g)" "list_all edge_inv (venuesForBuyingAsset g)"
    using assms(1) by (auto simp: base_inv_def tables_ok_def)
  note I = ids [unfolded ids_ok_def]
  show ?thesis
  proof (cases "used g i")
    case True
    then have "maybeDeleteAsset g i = Inr g" by (auto simp: maybeDeleteAsset_def used_def)
    moreover have "live_except S g" using assms(2) True by (auto simp: live_except_def)
    ultimately show ?thesis using assms(1) by (auto simp: same_venues_def)
  next
    case False
    define g' where "g' = g\<lparr>assetStringToID := AList.delete (idToAssetString g ! i) (assetStringToID g),
      idToAssetString := (idToAssetString g)[i := []], vacantIDs := vacantIDs g @ [i]\<rparr>"
    have del: "maybeDeleteAsset g i = Inr g'"
      using False I assms(3) by (simp add: maybeDeleteAsset_def used_def g'_def)
    have sv: "same_venues g g'" by (simp add: same_venues_def g'_def view_defs)
    have ids': "ids_ok g'"
    proof -
      have "map_of (AList.delete (idToAssetString g ! i) (assetStringToID g)) s = Some j \<longleftrightarrow>
          j < length (idToAssetString g) \<and> (idToAssetString g)[i := []] ! j = s \<and> s \<noteq> []" for s j
        using I assms(3,4) ids_inject [OF ids assms(3), of j]
        by (auto simp: map_of_alist_delete nth_list_update)
      moreover have "set (vacantIDs g @ [i]) = {j. j < length (idToAssetString g) \<and> (idToAssetString g)[i := []] ! j = []}"
        using I assms(3) by (auto simp: nth_list_update)
      moreover have "distinct (vacantIDs g @ [i])" using I assms(4) by auto
      ultimately show ?thesis using I unfolding ids_ok_def by (simp add: g'_def distinct_delete)
    qed
    have b: "base_inv g'"
      by (rule base_inv_rename [OF assms(1) sv ids'])
        (use inv used_named [OF assms(1)] False in \<open>auto simp: g'_def\<close>, metis nth_list_update_neq False)
    moreover have "used g' j \<longleftrightarrow> used g j" for j by (simp add: used_def g'_def)
    then have "live_except S g'"
      using assms(2,3) by (auto simp: live_except_def g'_def) (metis nth_list_update_eq nth_list_update_neq)
    ultimately show ?thesis using del sv by (auto simp: g'_def)
  qed
qed

section \<open>The abstract order book\<close>

lemma option_eqI_Some: "(\<And>w. a = Some w \<longleftrightarrow> b = Some w) \<Longrightarrow> a = b"
  by (cases a; cases b) auto

lemma abs_offers_iff:
  assumes "base_inv g"
  shows "abs_offers g i = Some v \<longleftrightarrow> (\<exists>s b. v \<in> set (sell_offers g s b) \<and> OfferId v = i)"
proof -
  have o: "offers_ok (idToAssetString g) (sell_offers g) (tradingPairForOffer g)" using assms by (simp add: base_inv_def)
  show ?thesis
  proof
    assume "abs_offers g i = Some v"
    then show "\<exists>s b. v \<in> set (sell_offers g s b) \<and> OfferId v = i"
      by (auto simp: abs_offers_def find_Some_iff split: option.splits) (metis nth_mem)
  next
    assume "\<exists>s b. v \<in> set (sell_offers g s b) \<and> OfferId v = i"
    then obtain s b where v: "v \<in> set (sell_offers g s b)" "OfferId v = i" by blast
    have tp: "map_of (tradingPairForOffer g) i = Some \<lparr>buyingAsset = b, sellingAsset = s\<rparr>"
      and d: "distinct (map OfferId (sell_offers g s b))"
      using o v unfolding offers_ok_def by blast+
    obtain w where w: "find (\<lambda>v. OfferId v = i) (sell_offers g s b) = Some w"
      using v find_None_iff [of "\<lambda>v. OfferId v = i" "sell_offers g s b"] by auto
    then have "w \<in> set (sell_offers g s b)" "OfferId w = i" by (auto simp: find_Some_iff in_set_conv_nth)
    then have "w = v" using d v by (metis inj_on_def distinct_map)
    then show "abs_offers g i = Some v" using tp w by (simp add: abs_offers_def)
  qed
qed

lemma abs_pools_iff:
  assumes "base_inv g"
  shows "abs_pools g k = Some e \<longleftrightarrow>
    (\<exists>p. sell_pool g (pool_assetA p) (pool_assetB p) = Some p \<and> pool_entry p = e \<and> pool_key e = k)"
proof -
  have P: "pools_ok (idToAssetString g) (sell_pool g) (liquidityPools g)" and ids: "ids_ok g"
    using assms by (simp_all add: base_inv_def)
  have lp: "map_of (liquidityPools g) k = Some e \<longleftrightarrow>
        (\<exists>p. sell_pool g (buyingAsset k) (sellingAsset k) = Some p \<and> pool_assetA p = buyingAsset k \<and>
           pool_assetB p = sellingAsset k \<and> pool_entry p = e)" for k e
    using P unfolding pools_ok_def by blast
  have at: "pool_at (idToAssetString g) s b p" if "sell_pool g s b = Some p" for s b p
    using P that unfolding pools_ok_def by blast
  have sid: "map_of (assetStringToID g) s = Some i \<longleftrightarrow>
      i < length (idToAssetString g) \<and> idToAssetString g ! i = s \<and> s \<noteq> []" for s i
    using ids unfolding ids_ok_def by blast
  show ?thesis
  proof
    assume "abs_pools g k = Some e"
    then obtain a b where ab: "map_of (assetStringToID g) (fst k) = Some a" "map_of (assetStringToID g) (snd k) = Some b"
      "map_of (liquidityPools g) \<lparr>buyingAsset = a, sellingAsset = b\<rparr> = Some e"
      by (auto simp: abs_pools_def split: option.splits)
    then obtain p where p: "sell_pool g a b = Some p" "pool_assetA p = a" "pool_assetB p = b" "pool_entry p = e"
      by (auto simp: lp)
    then show "\<exists>p. sell_pool g (pool_assetA p) (pool_assetB p) = Some p \<and> pool_entry p = e \<and> pool_key e = k"
      using at [OF p(1)] ab(1,2) unfolding sid pool_at_def by (metis prod.collapse)
  next
    assume "\<exists>p. sell_pool g (pool_assetA p) (pool_assetB p) = Some p \<and> pool_entry p = e \<and> pool_key e = k"
    then obtain p where p: "sell_pool g (pool_assetA p) (pool_assetB p) = Some p" "pool_entry p = e" "pool_key e = k" by blast
    have "idToAssetString g ! pool_assetA p = fst k" "idToAssetString g ! pool_assetB p = snd k"
      using at [OF p(1)] p(2,3) unfolding pool_at_def by (metis fst_conv snd_conv)+
    then have "map_of (assetStringToID g) (fst k) = Some (pool_assetA p)" "map_of (assetStringToID g) (snd k) = Some (pool_assetB p)"
      using named_of_pool [OF P, of "pool_assetA p" "pool_assetB p"] p(1) unfolding sid by auto
    then show "abs_pools g k = Some e" using p(1,2) by (auto simp: abs_pools_def lp)
  qed
qed

lemma book_of_same:
  assumes "base_inv g" and "base_inv g'" and "sell_offers g' = sell_offers g" and "sell_pool g' = sell_pool g"
  shows "book_of g' = book_of g"
proof -
  have "abs_offers g' i = abs_offers g i" for i
    using abs_offers_iff [OF assms(1), of i] abs_offers_iff [OF assms(2), of i] assms(3)
    by (cases "abs_offers g' i"; cases "abs_offers g i") auto
  moreover have "abs_pools g' k = abs_pools g k" for k
    using abs_pools_iff [OF assms(1), of k] abs_pools_iff [OF assms(2), of k] assms(4)
    by (cases "abs_pools g' k"; cases "abs_pools g k") auto
  ultimately show ?thesis by (auto simp: book_of_def)
qed

section \<open>Contents after one change\<close>

lemma remove_id_filter: "distinct (map OfferId xs) \<Longrightarrow> remove_id i xs = filter (\<lambda>v. OfferId v \<noteq> i) xs"
proof (induction xs)
  case (Cons x xs)
  then have "filter (\<lambda>v. OfferId v \<noteq> OfferId x) xs = xs" by (intro filter_True) (auto simp: image_iff)
  with Cons show ?case by auto
qed simp

lemma distinct_ids_insertOffer:
  "distinct (map OfferId (insertOffer xs v)) \<longleftrightarrow> distinct (map OfferId xs) \<and> OfferId v \<notin> OfferId ` set xs"
proof -
  have "mset (map OfferId (insertOffer xs v)) = mset (map OfferId (v # xs))" by simp
  from mset_eq_imp_distinct_iff [OF this] show ?thesis by auto
qed

lemma offers_ok_insert:
  assumes o: "offers_ok ids so tp" and v: "valid_offer v" and r: "s < length ids" "b < length ids"
    and n: "ids ! s = Asset_String (Selling v)" "ids ! b = Asset_String (Buying v)"
    and new: "map_of tp (OfferId v) = None"
  shows "offers_ok ids (\<lambda>s' b'. if s' = s \<and> b' = b then insertOffer (so s b) v else so s' b')
    (AList.update (OfferId v) \<lparr>buyingAsset = b, sellingAsset = s\<rparr> tp)"
proof -
  note O = o [unfolded offers_ok_def]
  have fresh: "OfferId w \<noteq> OfferId v" if "w \<in> set (so s' b')" for w s' b'
    using O that new by (metis option.distinct(1))
  have "OfferId v \<notin> OfferId ` set (so s b)" using fresh [of _ s b] by (metis imageE)
  then have "\<forall>s' b'. distinct (map OfferId (if s' = s \<and> b' = b then insertOffer (so s b) v else so s' b'))"
    using O by (simp add: distinct_ids_insertOffer)
  moreover have "\<forall>s' b' w. w \<in> set (if s' = s \<and> b' = b then insertOffer (so s b) v else so s' b') \<longrightarrow>
      valid_offer w \<and> s' < length ids \<and> b' < length ids \<and> ids ! s' = Asset_String (Selling w) \<and>
      ids ! b' = Asset_String (Buying w) \<and>
      map_of (AList.update (OfferId v) \<lparr>buyingAsset = b, sellingAsset = s\<rparr> tp) (OfferId w) =
        Some \<lparr>buyingAsset = b', sellingAsset = s'\<rparr>"
    using O v r n fresh by (simp add: map_of_alist_update) metis
  moreover have "\<forall>i p. map_of (AList.update (OfferId v) \<lparr>buyingAsset = b, sellingAsset = s\<rparr> tp) i = Some p \<longrightarrow>
      (\<exists>w \<in> set (if sellingAsset p = s \<and> buyingAsset p = b then insertOffer (so s b) v
        else so (sellingAsset p) (buyingAsset p)). OfferId w = i)"
    using O by (auto simp: map_of_alist_update)
  ultimately show ?thesis using O unfolding offers_ok_def by (simp add: distinct_update)
qed

lemma offers_ok_remove:
  assumes o: "offers_ok ids so tp" and i: "map_of tp i = Some p"
  shows "offers_ok ids (\<lambda>s' b'. if s' = sellingAsset p \<and> b' = buyingAsset p then remove_id i (so (sellingAsset p) (buyingAsset p)) else so s' b')
    (AList.delete i tp)"
proof -
  note O = o [unfolded offers_ok_def]
  have r: "remove_id i (so s b) = filter (\<lambda>v. OfferId v \<noteq> i) (so s b)" for s b
    using O by (simp add: remove_id_filter)
  have other: "OfferId w \<noteq> i" if "w \<in> set (so s' b')" "\<not> (s' = sellingAsset p \<and> b' = buyingAsset p)" for w s' b'
    using O i that by (metis option.inject tradingPair.select_convs)
  have "\<forall>s' b'. distinct (map OfferId (if s' = sellingAsset p \<and> b' = buyingAsset p
      then filter (\<lambda>v. OfferId v \<noteq> i) (so (sellingAsset p) (buyingAsset p)) else so s' b'))"
    using O by (simp add: distinct_map_filter)
  moreover have "\<forall>s' b' w. w \<in> set (if s' = sellingAsset p \<and> b' = buyingAsset p
        then filter (\<lambda>v. OfferId v \<noteq> i) (so (sellingAsset p) (buyingAsset p)) else so s' b') \<longrightarrow>
      valid_offer w \<and> s' < length ids \<and> b' < length ids \<and> ids ! s' = Asset_String (Selling w) \<and>
      ids ! b' = Asset_String (Buying w) \<and>
      map_of (AList.delete i tp) (OfferId w) = Some \<lparr>buyingAsset = b', sellingAsset = s'\<rparr>"
  proof (intro allI impI)
    fix s' b' w
    assume w: "w \<in> set (if s' = sellingAsset p \<and> b' = buyingAsset p
        then filter (\<lambda>v. OfferId v \<noteq> i) (so (sellingAsset p) (buyingAsset p)) else so s' b')"
    then have "w \<in> set (so s' b')" by (auto split: if_splits)
    moreover from this have "OfferId w \<noteq> i" using w other by (auto split: if_splits)
    ultimately show "valid_offer w \<and> s' < length ids \<and> b' < length ids \<and> ids ! s' = Asset_String (Selling w) \<and>
        ids ! b' = Asset_String (Buying w) \<and>
        map_of (AList.delete i tp) (OfferId w) = Some \<lparr>buyingAsset = b', sellingAsset = s'\<rparr>"
      using O [THEN conjunct2, THEN conjunct1] by (simp add: map_of_alist_delete)
  qed
  moreover have "\<forall>j q. map_of (AList.delete i tp) j = Some q \<longrightarrow>
      (\<exists>w \<in> set (if sellingAsset q = sellingAsset p \<and> buyingAsset q = buyingAsset p
        then filter (\<lambda>v. OfferId v \<noteq> i) (so (sellingAsset p) (buyingAsset p))
        else so (sellingAsset q) (buyingAsset q)). OfferId w = j)"
  proof (intro allI impI)
    fix j q assume a: "map_of (AList.delete i tp) j = Some q"
    then have "j \<noteq> i" "map_of tp j = Some q" by (auto simp: map_of_alist_delete split: if_splits)
    then obtain w where w: "w \<in> set (so (sellingAsset q) (buyingAsset q))" "OfferId w = j" using O by blast
    show "\<exists>w \<in> set (if sellingAsset q = sellingAsset p \<and> buyingAsset q = buyingAsset p
        then filter (\<lambda>v. OfferId v \<noteq> i) (so (sellingAsset p) (buyingAsset p))
        else so (sellingAsset q) (buyingAsset q)). OfferId w = j"
      using w \<open>j \<noteq> i\<close> by (intro bexI [of _ w]) auto
  qed
  ultimately show ?thesis using O unfolding offers_ok_def r by (simp add: distinct_delete)
qed

text \<open>The ledger orders the assets of a pool, so the same pair cannot occur both ways round.\<close>

lemma pool_key_orientation:
  assumes "valid_pool e" and "valid_pool e'" and "pool_key e = (x, y)" and "pool_key e' = (y, x)"
  shows False
proof -
  obtain d where d: "lp_ConstantProduct e = Some d" "valid_asset (cp_AssetA d)" "valid_asset (cp_AssetB d)"
    "Asset_LessThan (cp_AssetA d) (cp_AssetB d)"
    using assms(1) by (auto simp: valid_pool_def split: option.splits)
  obtain d' where d': "lp_ConstantProduct e' = Some d'" "valid_asset (cp_AssetA d')" "valid_asset (cp_AssetB d')"
    "Asset_LessThan (cp_AssetA d') (cp_AssetB d')"
    using assms(2) by (auto simp: valid_pool_def split: option.splits)
  have "cp_AssetA d' = cp_AssetB d" "cp_AssetB d' = cp_AssetA d"
    using assms(3,4) d d' Asset_String_inject by (auto simp: pool_key_def)
  then have "Asset_LessThan (cp_AssetB d) (cp_AssetA d)" using d'(4) by simp
  then show False using d(4) Asset_LessThan_trans Asset_LessThan_irrefl by blast
qed

lemma pools_ok_insert:
  assumes o: "pools_ok ids sp lp" and p: "pool_at ids a b p" "pool_assetA p = a" "pool_assetB p = b" and ne: "a \<noteq> b"
  shows "pools_ok ids (\<lambda>s' b'. if s' = a \<and> b' = b \<or> s' = b \<and> b' = a then Some p else sp s' b')
    (AList.update \<lparr>buyingAsset = a, sellingAsset = b\<rparr> (pool_entry p) lp)"
proof -
  note O = o [unfolded pools_ok_def]
  have L: "map_of lp k = Some e \<longleftrightarrow> (\<exists>q. sp (buyingAsset k) (sellingAsset k) = Some q \<and> pool_assetA q = buyingAsset k \<and>
      pool_assetB q = sellingAsset k \<and> pool_entry q = e)" for k e
    using O by blast
  let ?sp = "\<lambda>s' b'. if s' = a \<and> b' = b \<or> s' = b \<and> b' = a then Some p else sp s' b'"
  have other: "map_of lp \<lparr>buyingAsset = b, sellingAsset = a\<rparr> = None"
  proof (rule ccontr)
    assume "map_of lp \<lparr>buyingAsset = b, sellingAsset = a\<rparr> \<noteq> None"
    then obtain e' where "map_of lp \<lparr>buyingAsset = b, sellingAsset = a\<rparr> = Some e'" by blast
    then obtain q where q: "sp b a = Some q" "pool_assetA q = b" "pool_assetB q = a"
      unfolding L by auto
    then have "pool_at ids b a q" using O by blast
    then have "valid_pool (pool_entry q)" "pool_key (pool_entry q) = (ids ! b, ids ! a)"
      using q by (simp_all add: pool_at_def)
    moreover have "valid_pool (pool_entry p)" "pool_key (pool_entry p) = (ids ! a, ids ! b)"
      using p by (simp_all add: pool_at_def)
    ultimately show False using pool_key_orientation by blast
  qed
  have "\<forall>s' b' q. ?sp s' b' = Some q \<longrightarrow> pool_at ids s' b' q \<and> ?sp b' s' = Some q"
  proof (intro allI impI)
    fix s' b' q assume q: "?sp s' b' = Some q"
    show "pool_at ids s' b' q \<and> ?sp b' s' = Some q"
    proof (cases "s' = a \<and> b' = b \<or> s' = b \<and> b' = a")
      case True
      then show ?thesis using q p by (auto simp: pool_at_def)
    next
      case False
      then have "sp s' b' = Some q" using q by auto
      then have "pool_at ids s' b' q" "sp b' s' = Some q" using O by blast+
      with False show ?thesis by auto
    qed
  qed
  moreover have "map_of (AList.update \<lparr>buyingAsset = a, sellingAsset = b\<rparr> (pool_entry p) lp) k = Some e \<longleftrightarrow>
        (\<exists>q. ?sp (buyingAsset k) (sellingAsset k) = Some q \<and> pool_assetA q = buyingAsset k \<and>
           pool_assetB q = sellingAsset k \<and> pool_entry q = e)" for k e
  proof (cases "k = \<lparr>buyingAsset = a, sellingAsset = b\<rparr> \<or> k = \<lparr>buyingAsset = b, sellingAsset = a\<rparr>")
    case True
    then show ?thesis using p ne other by (auto simp: map_of_alist_update)
  next
    case False
    then have "\<not> (buyingAsset k = a \<and> sellingAsset k = b \<or> buyingAsset k = b \<and> sellingAsset k = a)"
      by (metis (full_types) old.unit.exhaust tradingPair.surjective)
    then show ?thesis using L [of k e] False unfolding map_of_alist_update by (simp only: if_False) simp
  qed
  ultimately show ?thesis using distinct_update [OF conjunct1 [OF O]] unfolding pools_ok_def by blast
qed

lemma pools_ok_remove:
  assumes o: "pools_ok ids sp lp" and e: "valid_pool e" "pool_key e = (ids ! a, ids ! b)"
  shows "pools_ok ids (\<lambda>s' b'. if s' = a \<and> b' = b \<or> s' = b \<and> b' = a then None else sp s' b')
    (AList.delete \<lparr>buyingAsset = a, sellingAsset = b\<rparr> lp)"
proof -
  note O = o [unfolded pools_ok_def]
  have L: "map_of lp k = Some e \<longleftrightarrow> (\<exists>q. sp (buyingAsset k) (sellingAsset k) = Some q \<and> pool_assetA q = buyingAsset k \<and>
      pool_assetB q = sellingAsset k \<and> pool_entry q = e)" for k e
    using O by blast
  let ?sp = "\<lambda>s' b'. if s' = a \<and> b' = b \<or> s' = b \<and> b' = a then None else sp s' b'"
  have other: "map_of lp \<lparr>buyingAsset = b, sellingAsset = a\<rparr> = None" if "a \<noteq> b"
  proof (rule ccontr)
    assume "map_of lp \<lparr>buyingAsset = b, sellingAsset = a\<rparr> \<noteq> None"
    then obtain e' where "map_of lp \<lparr>buyingAsset = b, sellingAsset = a\<rparr> = Some e'" by blast
    then obtain q where q: "sp b a = Some q" "pool_assetA q = b" "pool_assetB q = a"
      unfolding L by auto
    then have "pool_at ids b a q" using O by blast
    then have "valid_pool (pool_entry q)" "pool_key (pool_entry q) = (ids ! b, ids ! a)"
      using q by (simp_all add: pool_at_def)
    then show False using e pool_key_orientation by blast
  qed
  have "\<forall>s' b' q. ?sp s' b' = Some q \<longrightarrow> pool_at ids s' b' q \<and> ?sp b' s' = Some q"
  proof (intro allI impI)
    fix s' b' q assume q: "?sp s' b' = Some q"
    then have n: "\<not> (s' = a \<and> b' = b \<or> s' = b \<and> b' = a)" "sp s' b' = Some q" by (auto split: if_splits)
    then have "pool_at ids s' b' q" "sp b' s' = Some q" using O by blast+
    with n(1) show "pool_at ids s' b' q \<and> ?sp b' s' = Some q" by auto
  qed
  moreover have "map_of (AList.delete \<lparr>buyingAsset = a, sellingAsset = b\<rparr> lp) k = Some e' \<longleftrightarrow>
        (\<exists>q. ?sp (buyingAsset k) (sellingAsset k) = Some q \<and> pool_assetA q = buyingAsset k \<and>
           pool_assetB q = sellingAsset k \<and> pool_entry q = e')" for k e'
  proof (cases "k = \<lparr>buyingAsset = a, sellingAsset = b\<rparr> \<or> k = \<lparr>buyingAsset = b, sellingAsset = a\<rparr>")
    case True
    then show ?thesis using other by (cases "a = b") (auto simp: map_of_alist_delete)
  next
    case False
    then have "\<not> (buyingAsset k = a \<and> sellingAsset k = b \<or> buyingAsset k = b \<and> sellingAsset k = a)"
      by (metis (full_types) old.unit.exhaust tradingPair.surjective)
    then show ?thesis using L [of k e'] False unfolding map_of_alist_delete by (simp only: if_False) simp
  qed
  ultimately show ?thesis using distinct_delete [OF conjunct1 [OF O]] unfolding pools_ok_def by blast
qed

section \<open>Removing and adding offers\<close>

lemma same_venues_trans: "same_venues g g' \<Longrightarrow> same_venues g' g'' \<Longrightarrow> same_venues g g''"
  by (simp add: same_venues_def)

lemma base_inv_parts:
  assumes "base_inv g"
  shows "ids_ok g" and "tables_ok g" and "offers_ok (idToAssetString g) (sell_offers g) (tradingPairForOffer g)"
    and "pools_ok (idToAssetString g) (sell_pool g) (liquidityPools g)"
    and "list_all edge_inv (venuesForSellingAsset g)" and "list_all edge_inv (venuesForBuyingAsset g)"
    and "length (venuesForBuyingAsset g) = length (idToAssetString g)"
    and "length (venuesForSellingAsset g) = length (idToAssetString g)"
    and "sell_offers g s b = buy_offers g b s" and "sell_pool g s b = buy_pool g b s"
  using assms by (auto simp: base_inv_def ids_ok_def tables_ok_def)

text \<open>Two ids are freed, if unused, one after the other.\<close>

lemma maybeDelete_two:
  assumes "base_inv g" and "live_except {i, j} g" and "i \<noteq> j"
    and "i < length (idToAssetString g)" "idToAssetString g ! i \<noteq> []"
    and "j < length (idToAssetString g)" "idToAssetString g ! j \<noteq> []"
  shows "\<exists>g'. bind_result (maybeDeleteAsset g i) (\<lambda>g. maybeDeleteAsset g j) = Inr g' \<and> graph_inv g' \<and> same_venues g g' \<and>
    length (idToAssetString g') = length (idToAssetString g)"
proof -
  have "live_except (insert i {j}) g" using assms(2) by simp
  from maybeDeleteAsset_spec [OF assms(1) this assms(4,5)] obtain g1 where
    g1: "maybeDeleteAsset g i = Inr g1" "base_inv g1" "live_except {j} g1" "same_venues g g1"
      "length (idToAssetString g1) = length (idToAssetString g)" "idToAssetString g1 ! j = idToAssetString g ! j"
    using assms(3) by auto
  have "live_except (insert j {}) g1" "j < length (idToAssetString g1)" "idToAssetString g1 ! j \<noteq> []"
    using g1 assms(6,7) by simp_all
  from maybeDeleteAsset_spec [OF g1(2) this] obtain g2 where
    g2: "maybeDeleteAsset g1 j = Inr g2" "base_inv g2" "live_except {} g2" "same_venues g1 g2"
      "length (idToAssetString g2) = length (idToAssetString g1)" by blast
  show ?thesis
    using g1 g2 same_venues_trans [OF g1(4) g2(4)] by (auto simp: graph_inv_def)
qed

text \<open>A batch operation keeps the queue, the ledger and the range of ids.\<close>

definition same_frame :: "OrderBookGraph \<Rightarrow> OrderBookGraph \<Rightarrow> bool" where
  "same_frame g g' \<longleftrightarrow> batchedUpdates g' = batchedUpdates g \<and> lastLedger g' = lastLedger g \<and>
     length (idToAssetString g) \<le> length (idToAssetString g')"

lemma graph_removeOffer_spec:
  assumes "graph_inv g" and "map_of (tradingPairForOffer g) i = Some p"
  shows "\<exists>g'. graph_removeOffer g i = Inr g' \<and> graph_inv g' \<and> same_frame g g' \<and>
    map_of (tradingPairForOffer g') i = None \<and>
    sellingAsset p < length (idToAssetString g) \<and> buyingAsset p < length (idToAssetString g) \<and>
    book_of g' = (book_of g)\<lparr>book_offers := (book_offers (book_of g))(i := None)\<rparr>"
proof -
  let ?s = "sellingAsset p" and ?b = "buyingAsset p"
  have base: "base_inv g" and live: "live_except {} g" using assms(1) by (auto simp: graph_inv_def)
  note B = base_inv_parts [OF base]
  obtain v where v: "v \<in> set (sell_offers g ?s ?b)" "OfferId v = i"
    using B(3) assms(2) unfolding offers_ok_def by blast
  have "sell_offers g ?s ?b \<noteq> []" using v by auto
  from named_of_offer [OF B(3) this]
  have n: "?s < length (idToAssetString g)" "idToAssetString g ! ?s \<noteq> []"
    "?b < length (idToAssetString g)" "idToAssetString g ! ?b \<noteq> []" "?s \<noteq> ?b" by auto
  have rs: "?s < length (venuesForSellingAsset g)" and rb: "?b < length (venuesForBuyingAsset g)" using n B by auto
  define es where "es = fst (edge_removeOffer (venuesForSellingAsset g ! ?s) ?b i)"
  define eb where "eb = fst (edge_removeOffer (venuesForBuyingAsset g ! ?b) ?s i)"
  define g3 where "g3 = g\<lparr>tradingPairForOffer := AList.delete i (tradingPairForOffer g),
    venuesForSellingAsset := (venuesForSellingAsset g)[?s := es], venuesForBuyingAsset := (venuesForBuyingAsset g)[?b := eb]\<rparr>"
  note S = es.table_remove_offer [OF B(5) rs, of ?b i, folded es_def view_defs]
  note T = es.table_remove_offer [OF B(6) rb, of ?s i, folded eb_def view_defs]
  have found: "snd (edge_removeOffer (venuesForSellingAsset g ! ?s) ?b i)"
    "snd (edge_removeOffer (venuesForBuyingAsset g ! ?b) ?s i)"
    using S(4) T(4) v by (auto simp: B(9) [symmetric])
  have views: "sell_offers g3 = (\<lambda>s' b'. if s' = ?s \<and> b' = ?b then remove_id i (sell_offers g ?s ?b) else sell_offers g s' b')"
    "sell_pool g3 = sell_pool g"
    "buy_offers g3 = (\<lambda>b' s'. if b' = ?b \<and> s' = ?s then remove_id i (buy_offers g ?b ?s) else buy_offers g b' s')"
    "buy_pool g3 = buy_pool g"
    using S(2,3) T(2,3) by (auto simp: fun_eq_iff g3_def view_defs)
  have base3: "base_inv g3"
  proof -
    have "ids_ok g3" using B(1) by (simp add: ids_ok_def g3_def)
    moreover have "tables_ok g3"
      using S(1) T(1) B(9,10) unfolding tables_ok_def views by (auto simp: g3_def)
    moreover have "offers_ok (idToAssetString g3) (sell_offers g3) (tradingPairForOffer g3)"
      unfolding views using offers_ok_remove [OF B(3) assms(2)] by (simp add: g3_def)
    moreover have "pools_ok (idToAssetString g3) (sell_pool g3) (liquidityPools g3)"
      unfolding views using B(4) by (simp add: g3_def)
    ultimately show ?thesis by (simp add: base_inv_def)
  qed
  have "live_except {?b, ?s} g3"
    using live by (auto simp: live_except_def used_def g3_def)
  then obtain g' where g': "bind_result (maybeDeleteAsset g3 ?b) (\<lambda>g. maybeDeleteAsset g ?s) = Inr g'" "graph_inv g'"
    "same_venues g3 g'" "length (idToAssetString g') = length (idToAssetString g3)"
    using maybeDelete_two [OF base3, of ?b ?s] n by (auto simp: g3_def)
  have run: "graph_removeOffer g i = Inr g'"
    using assms(2) rs rb found g'(1)
    by (simp add: graph_removeOffer_def es_def eb_def g3_def case_prod_unfold Let_def)
  have base': "base_inv g'" using g'(2) by (simp add: graph_inv_def)
  have so': "sell_offers g' = sell_offers g3" "sell_pool g' = sell_pool g" using g'(3) views by (auto simp: same_venues_def)
  have d: "distinct (map OfferId (sell_offers g ?s ?b))" using B(3) by (simp add: offers_ok_def)
  have only: "s' = ?s \<and> b' = ?b" if "w \<in> set (sell_offers g s' b')" "OfferId w = i" for w s' b'
    using B(3) assms(2) that unfolding offers_ok_def by (metis option.inject tradingPair.select_convs)
  have "w \<in> set (sell_offers g' s' b') \<longleftrightarrow> w \<in> set (sell_offers g s' b') \<and> OfferId w \<noteq> i" for w s' b'
    using only unfolding so' views remove_id_filter [OF d] by auto
  then have ao: "abs_offers g' j = Some w \<longleftrightarrow> ((abs_offers g)(i := None)) j = Some w" for j w
    unfolding abs_offers_iff [OF base'] by (auto simp: abs_offers_iff [OF base])
  then have "abs_offers g' = (abs_offers g)(i := None)" by (intro ext option_eqI_Some)
  moreover have "abs_pools g' = abs_pools g"
    using abs_pools_iff [OF base] abs_pools_iff [OF base'] so'(2) by (intro ext option_eqI_Some) simp
  moreover have "map_of (tradingPairForOffer g') i = None"
    using g'(3) by (simp add: same_venues_def g3_def map_of_alist_delete)
  ultimately show ?thesis
    using run g' n by (auto simp: book_of_def same_frame_def same_venues_def g3_def)
qed

lemma option_map_eqI: "(\<And>x w. f x = Some w \<longleftrightarrow> g x = Some w) \<Longrightarrow> f = g"
  by (intro ext option_eqI_Some)

text \<open>Inserting an offer whose id is new, once both assets have ids.\<close>

definition insert_venues :: "OrderBookGraph \<Rightarrow> OfferEntry \<Rightarrow> nat \<Rightarrow> nat \<Rightarrow> OrderBookGraph" where
  "insert_venues g v b s = g\<lparr>
     tradingPairForOffer := AList.update (OfferId v) \<lparr>buyingAsset = b, sellingAsset = s\<rparr> (tradingPairForOffer g),
     venuesForSellingAsset := (venuesForSellingAsset g)[s := edge_addOffer (venuesForSellingAsset g ! s) b v],
     venuesForBuyingAsset := (venuesForBuyingAsset g)[b := edge_addOffer (venuesForBuyingAsset g ! b) s v]\<rparr>"

lemma insert_venues_spec:
  assumes "base_inv g" and "live_except {b, s} g" and "valid_offer v" and "map_of (tradingPairForOffer g) (OfferId v) = None"
    and "s < length (idToAssetString g)" "idToAssetString g ! s = Asset_String (Selling v)"
    and "b < length (idToAssetString g)" "idToAssetString g ! b = Asset_String (Buying v)"
  shows "graph_inv (insert_venues g v b s)" and "same_frame g (insert_venues g v b s)"
    and "book_of (insert_venues g v b s) = (book_of g)\<lparr>book_offers := (book_offers (book_of g))(OfferId v \<mapsto> v)\<rparr>"
proof -
  let ?g = "insert_venues g v b s"
  note B = base_inv_parts [OF assms(1)]
  have rs: "s < length (venuesForSellingAsset g)" and rb: "b < length (venuesForBuyingAsset g)" using assms B by auto
  have pv: "valid_price (offer_Price v)" using assms(3) by (simp add: valid_offer_def)
  note S = es.table_add_offer [OF B(5) rs, where v = v and k = b, folded view_defs]
  note T = es.table_add_offer [OF B(6) rb, where v = v and k = s, folded view_defs]
  have views: "sell_offers ?g = (\<lambda>s' b'. if s' = s \<and> b' = b then insertOffer (sell_offers g s b) v else sell_offers g s' b')"
    "sell_pool ?g = sell_pool g"
    "buy_offers ?g = (\<lambda>b' s'. if b' = b \<and> s' = s then insertOffer (buy_offers g b s) v else buy_offers g b' s')"
    "buy_pool ?g = buy_pool g"
    using S(2,3) T(2,3) by (auto simp: fun_eq_iff insert_venues_def view_defs)
  have t: "tables_ok ?g"
    using S(1) T(1) pv B(9,10) unfolding tables_ok_def views by (auto simp: insert_venues_def)
  have base: "base_inv ?g"
  proof -
    have "ids_ok ?g" using B(1) by (simp add: ids_ok_def insert_venues_def)
    moreover have "offers_ok (idToAssetString ?g) (sell_offers ?g) (tradingPairForOffer ?g)"
      unfolding views using offers_ok_insert [OF B(3) assms(3,5,7,6,8,4)] by (simp add: insert_venues_def)
    moreover have "pools_ok (idToAssetString ?g) (sell_pool ?g) (liquidityPools ?g)"
      unfolding views using B(4) by (simp add: insert_venues_def)
    ultimately show ?thesis using t by (simp add: base_inv_def)
  qed
  have "sell_offers ?g s b \<noteq> []" unfolding views by (simp add: insertOffer_def slice_insert_def Let_def)
  then have "used ?g s" "used ?g b"
    unfolding tables_used [OF t] using rs rb B by (auto simp: insert_venues_def)
  moreover have "used ?g j" if "used g j" "j \<noteq> s" "j \<noteq> b" for j
    using that by (auto simp: used_def insert_venues_def)
  ultimately have "live_except {} ?g"
    using assms(2) by (auto simp: live_except_def insert_venues_def)
  then show "graph_inv ?g" using base by (simp add: graph_inv_def)
  show "same_frame g ?g" by (simp add: same_frame_def insert_venues_def)
  have new: "OfferId w \<noteq> OfferId v" if "w \<in> set (sell_offers g s' b')" for w s' b'
    using B(3) assms(4) that unfolding offers_ok_def by (metis option.distinct(1))
  have "w \<in> set (sell_offers ?g s' b') \<longleftrightarrow> w \<in> set (sell_offers g s' b') \<or> w = v \<and> s' = s \<and> b' = b" for w s' b'
    unfolding views by auto
  then have "abs_offers ?g j = Some w \<longleftrightarrow> ((abs_offers g)(OfferId v \<mapsto> v)) j = Some w" for j w
    unfolding abs_offers_iff [OF base] using new by (auto simp: abs_offers_iff [OF assms(1)])
  then have "abs_offers ?g = (abs_offers g)(OfferId v \<mapsto> v)" by (rule option_map_eqI)
  moreover have "abs_pools ?g = abs_pools g"
    using abs_pools_iff [OF base] abs_pools_iff [OF assms(1)] views(2) by (intro option_map_eqI) simp
  ultimately show "book_of ?g = (book_of g)\<lparr>book_offers := (book_offers (book_of g))(OfferId v \<mapsto> v)\<rparr>"
    by (simp add: book_of_def)
qed

text \<open>Ids for two different assets, one after the other.\<close>

lemma getOrCreate_two:
  assumes "graph_inv g" and "valid_asset x" and "valid_asset y" and "x \<noteq> y"
  obtains g1 i g2 j where "getOrCreateAssetID g x = Inr (g1, i)" and "getOrCreateAssetID g1 y = Inr (g2, j)"
    and "base_inv g2" and "live_except {i, j} g2" and "same_venues g g2" and "i \<noteq> j"
    and "i < length (idToAssetString g2)" and "idToAssetString g2 ! i = Asset_String x"
    and "j < length (idToAssetString g2)" and "idToAssetString g2 ! j = Asset_String y"
    and "length (idToAssetString g) \<le> length (idToAssetString g2)"
proof -
  have base: "base_inv g" "live_except {} g" using assms(1) by (auto simp: graph_inv_def)
  from getOrCreateAssetID_spec [OF base] obtain g1 i where
    g1: "getOrCreateAssetID g x = Inr (g1, i)" "base_inv g1" "live_except {i} g1" "same_venues g g1"
      "i < length (idToAssetString g1)" "idToAssetString g1 ! i = Asset_String x"
      "length (idToAssetString g) \<le> length (idToAssetString g1)" by blast
  from getOrCreateAssetID_spec [OF g1(2,3)] obtain g2 j where
    g2: "getOrCreateAssetID g1 y = Inr (g2, j)" "base_inv g2" "live_except {j, i} g2" "same_venues g1 g2"
      "j < length (idToAssetString g2)" "idToAssetString g2 ! j = Asset_String y"
      "length (idToAssetString g1) \<le> length (idToAssetString g2)"
      "\<forall>k < length (idToAssetString g1). idToAssetString g1 ! k \<noteq> [] \<longrightarrow> idToAssetString g2 ! k = idToAssetString g1 ! k"
    by blast
  have i: "idToAssetString g2 ! i = Asset_String x" using g1(5,6) g2(8) by simp
  have "i \<noteq> j" using i g2(6) assms(2-4) Asset_String_inject [of x y] by auto
  then show thesis
    using that [OF g1(1) g2(1,2) _ same_venues_trans [OF g1(4) g2(4)] _ _ i g2(5,6)] g1(5,7) g2(3,7)
    by (simp add: insert_commute)
qed

lemma graph_addOffer_spec:
  assumes "graph_inv g" and "valid_offer v"
  shows "\<exists>g'. graph_addOffer g v = Inr g' \<and> graph_inv g' \<and> same_frame g g' \<and>
    book_of g' = (book_of g)\<lparr>book_offers := (book_offers (book_of g))(OfferId v \<mapsto> v)\<rparr>"
proof -
  obtain g0 where g0: "(case map_of (tradingPairForOffer g) (OfferId v) of
        Some _ \<Rightarrow> (case graph_removeOffer g (OfferId v) of Inl e \<Rightarrow> Inl (CouldNotUpdateOffer e) | Inr g \<Rightarrow> Inr g)
      | None \<Rightarrow> Inr g) = Inr g0"
    and inv0: "graph_inv g0" and fr0: "same_frame g g0" and new: "map_of (tradingPairForOffer g0) (OfferId v) = None"
    and bk0: "(book_of g0)\<lparr>book_offers := (book_offers (book_of g0))(OfferId v \<mapsto> v)\<rparr> =
      (book_of g)\<lparr>book_offers := (book_offers (book_of g))(OfferId v \<mapsto> v)\<rparr>"
  proof (cases "map_of (tradingPairForOffer g) (OfferId v)")
    case None
    then show thesis using that [of g] assms(1) by (simp add: same_frame_def)
  next
    case (Some p)
    from graph_removeOffer_spec [OF assms(1) Some] Some that show thesis by auto
  qed
  have v: "valid_asset (Buying v)" "valid_asset (Selling v)" "Buying v \<noteq> Selling v" using assms(2) by (auto simp: valid_offer_def)
  from getOrCreate_two [OF inv0 v] obtain g1 b g2 s where
    G: "getOrCreateAssetID g0 (Buying v) = Inr (g1, b)" "getOrCreateAssetID g1 (Selling v) = Inr (g2, s)"
      "base_inv g2" "live_except {b, s} g2" "same_venues g0 g2" "b \<noteq> s"
      "b < length (idToAssetString g2)" "idToAssetString g2 ! b = Asset_String (Buying v)"
      "s < length (idToAssetString g2)" "idToAssetString g2 ! s = Asset_String (Selling v)"
      "length (idToAssetString g0) \<le> length (idToAssetString g2)" by metis
  have new2: "map_of (tradingPairForOffer g2) (OfferId v) = None" using new G(5) by (simp add: same_venues_def)
  note I = insert_venues_spec [OF G(3,4) assms(2) new2 G(9,10,7,8)]
  note B = base_inv_parts [OF G(3)]
  have "graph_addOffer g v = Inr (insert_venues g2 v b s)"
    using g0 G(1,2,7,9) B by (simp add: graph_addOffer_def insert_venues_def Let_def)
  moreover have "same_frame g (insert_venues g2 v b s)"
    using fr0 G(5,11) I(2) by (auto simp: same_frame_def same_venues_def)
  moreover have "book_of g2 = book_of g0"
    using book_of_same [OF _ G(3)] inv0 G(5) by (simp add: graph_inv_def same_venues_def)
  ultimately show ?thesis using I bk0 by auto
qed

section \<open>Adding and removing pools\<close>

lemma table_addPool_spec:
  assumes "list_all edge_inv t" and a: "pool_assetA p = a" "a < length t" and b: "pool_assetB p = b" "b < length t"
    and "a \<noteq> b" and "pool_set p"
  shows "\<exists>t'. table_addPool t p = Inr t' \<and> length t' = length t \<and> list_all edge_inv t' \<and>
    table_at offers_of [] t' = table_at offers_of [] t \<and>
    table_at pool_of None t' = (\<lambda>i k. if i = a \<and> k = b \<or> i = b \<and> k = a then Some p else table_at pool_of None t i k) \<and>
    (\<forall>j. j \<noteq> a \<longrightarrow> j \<noteq> b \<longrightarrow> t' ! j = t ! j)"
proof -
  define t1 where "t1 = t[a := edge_addPool (t ! a) b p]"
  define t2 where "t2 = t1[b := edge_addPool (t1 ! b) a p]"
  note S = es.table_add_pool [OF assms(1) a(2) assms(7), where k = b, folded t1_def]
  have b1: "b < length t1" using b by (simp add: t1_def)
  note T = es.table_add_pool [OF S(1) b1 assms(7), where k = a, folded t2_def]
  have "table_addPool t p = Inr t2"
    using a b b1 by (simp add: table_addPool_def t1_def t2_def Let_def)
  moreover have "table_at pool_of None t2 = (\<lambda>i k. if i = a \<and> k = b \<or> i = b \<and> k = a
      then Some p else table_at pool_of None t i k)"
    using S(3) T(3) assms(6) by (auto simp: fun_eq_iff)
  moreover have "\<forall>j. j \<noteq> a \<longrightarrow> j \<noteq> b \<longrightarrow> t2 ! j = t ! j" by (simp add: t1_def t2_def)
  ultimately show ?thesis using S(1,2) T(1,2) by (auto simp: fun_eq_iff t1_def t2_def)
qed

lemma valid_pool_parts:
  assumes "valid_pool e"
  obtains d where "lp_ConstantProduct e = Some d" and "pool_assets e = Inr (cp_AssetA d, cp_AssetB d)"
    and "valid_asset (cp_AssetA d)" and "valid_asset (cp_AssetB d)" and "cp_AssetA d \<noteq> cp_AssetB d"
    and "pool_key e = (Asset_String (cp_AssetA d), Asset_String (cp_AssetB d))"
proof -
  from assms obtain d where d: "lp_Type e = 0" "lp_ConstantProduct e = Some d" "valid_asset (cp_AssetA d)"
    "valid_asset (cp_AssetB d)" "Asset_LessThan (cp_AssetA d) (cp_AssetB d)"
    by (auto simp: valid_pool_def split: option.splits)
  have "cp_AssetA d \<noteq> cp_AssetB d" using d(5) Asset_LessThan_irrefl by metis
  then show thesis
    using d that by (simp add: pool_assets_def getPoolAssets_def GetConstantProduct_def pool_key_def)
qed

text \<open>The pool that an ordered pair of ids holds is the one with the key of the pair.\<close>

lemma pools_at_pair:
  assumes "base_inv g" and "valid_pool e" and "pool_key e = (idToAssetString g ! a, idToAssetString g ! b)"
    and "a < length (idToAssetString g)" and "b < length (idToAssetString g)"
    and q: "sell_pool g (pool_assetA q) (pool_assetB q) = Some q"
  shows "pool_key (pool_entry q) = pool_key e \<longleftrightarrow> pool_assetA q = a \<and> pool_assetB q = b"
    and "\<not> (pool_assetA q = b \<and> pool_assetB q = a)"
proof -
  note B = base_inv_parts [OF assms(1)]
  have at: "pool_at (idToAssetString g) (pool_assetA q) (pool_assetB q) q"
    using B(4) q unfolding pools_ok_def by blast
  then have k: "pool_key (pool_entry q) = (idToAssetString g ! pool_assetA q, idToAssetString g ! pool_assetB q)"
    and v: "valid_pool (pool_entry q)" by (simp_all add: pool_at_def)
  have n: "pool_assetA q < length (idToAssetString g)" "idToAssetString g ! pool_assetA q \<noteq> []"
    "pool_assetB q < length (idToAssetString g)" "idToAssetString g ! pool_assetB q \<noteq> []"
    using named_of_pool [OF B(4), of "pool_assetA q" "pool_assetB q"] q by auto
  show "pool_key (pool_entry q) = pool_key e \<longleftrightarrow> pool_assetA q = a \<and> pool_assetB q = b"
  proof
    assume "pool_key (pool_entry q) = pool_key e"
    then have "idToAssetString g ! pool_assetA q = idToAssetString g ! a" "idToAssetString g ! pool_assetB q = idToAssetString g ! b"
      using k assms(3) by simp_all
    then show "pool_assetA q = a \<and> pool_assetB q = b"
      using ids_inject [OF B(1) n(1) assms(4) _ n(2)] ids_inject [OF B(1) n(3) assms(5) _ n(4)] by simp
  qed (use k assms(3) in simp)
  show "\<not> (pool_assetA q = b \<and> pool_assetB q = a)"
    using k v assms(2,3) pool_key_orientation [of e "pool_entry q"] by auto
qed

lemma abs_pools_update:
  assumes "base_inv g" and "base_inv g'" and "valid_pool e"
    and "\<And>q. sell_pool g' (pool_assetA q) (pool_assetB q) = Some q \<longleftrightarrow>
      r = Some q \<or> sell_pool g (pool_assetA q) (pool_assetB q) = Some q \<and> pool_key (pool_entry q) \<noteq> pool_key e"
    and "\<And>q. r = Some q \<Longrightarrow> pool_entry q = e"
  shows "abs_pools g' = (abs_pools g)(pool_key e := map_option pool_entry r)"
proof (rule option_map_eqI)
  fix k w
  show "abs_pools g' k = Some w \<longleftrightarrow> ((abs_pools g)(pool_key e := map_option pool_entry r)) k = Some w"
  proof (cases "k = pool_key e")
    case True
    have "abs_pools g' k = Some w \<longleftrightarrow> (\<exists>q. r = Some q \<and> pool_entry q = w)"
      unfolding abs_pools_iff [OF assms(2)] assms(4) True using assms(5) by blast
    then show ?thesis using True by auto
  next
    case False
    then have "abs_pools g' k = Some w \<longleftrightarrow> abs_pools g k = Some w"
      unfolding abs_pools_iff [OF assms(2)] abs_pools_iff [OF assms(1)] assms(4) using assms(5) by blast
    then show ?thesis using False by simp
  qed
qed

lemma graph_addPool_spec:
  assumes "graph_inv g" and "valid_pool e"
  shows "\<exists>g'. graph_addPool g e = Inr g' \<and> graph_inv g' \<and> same_frame g g' \<and>
    book_of g' = (book_of g)\<lparr>book_pools := (book_pools (book_of g))(pool_key e \<mapsto> e)\<rparr>"
proof -
  from valid_pool_parts [OF assms(2)] obtain d where
    d: "lp_ConstantProduct e = Some d" "pool_assets e = Inr (cp_AssetA d, cp_AssetB d)" "valid_asset (cp_AssetA d)"
      "valid_asset (cp_AssetB d)" "cp_AssetA d \<noteq> cp_AssetB d"
      "pool_key e = (Asset_String (cp_AssetA d), Asset_String (cp_AssetB d))" by metis
  from getOrCreate_two [OF assms(1) d(3-5)] obtain g1 a g2 b where
    G: "getOrCreateAssetID g (cp_AssetA d) = Inr (g1, a)" "getOrCreateAssetID g1 (cp_AssetB d) = Inr (g2, b)"
      "base_inv g2" "live_except {a, b} g2" "same_venues g g2" "a \<noteq> b"
      "a < length (idToAssetString g2)" "idToAssetString g2 ! a = Asset_String (cp_AssetA d)"
      "b < length (idToAssetString g2)" "idToAssetString g2 ! b = Asset_String (cp_AssetB d)"
      "length (idToAssetString g) \<le> length (idToAssetString g2)" by metis
  note B = base_inv_parts [OF G(3)]
  define p where "p = \<lparr>pool_entry = e, pool_assetA = a, pool_assetB = b\<rparr>"
  have pset: "pool_set p" using d(1) by (simp add: p_def pool_set_def)
  have pat: "pool_at (idToAssetString g2) a b p" using G d assms(2) by (simp add: pool_at_def p_def)
  have pa: "pool_assetA p = a" "pool_assetB p = b" by (simp_all add: p_def)
  have r: "a < length (venuesForBuyingAsset g2)" "b < length (venuesForBuyingAsset g2)"
    "a < length (venuesForSellingAsset g2)" "b < length (venuesForSellingAsset g2)" using G(7,9) B by auto
  from table_addPool_spec [OF B(6) pa(1) r(1) pa(2) r(2) G(6) pset] obtain tb where
    tb: "table_addPool (venuesForBuyingAsset g2) p = Inr tb" "length tb = length (venuesForBuyingAsset g2)" "list_all edge_inv tb"
      "table_at offers_of [] tb = buy_offers g2"
      "table_at pool_of None tb = (\<lambda>i k. if i = a \<and> k = b \<or> i = b \<and> k = a then Some p else buy_pool g2 i k)"
      "\<forall>j. j \<noteq> a \<longrightarrow> j \<noteq> b \<longrightarrow> tb ! j = venuesForBuyingAsset g2 ! j"
    unfolding view_defs by blast
  from table_addPool_spec [OF B(5) pa(1) r(3) pa(2) r(4) G(6) pset] obtain ts where
    ts: "table_addPool (venuesForSellingAsset g2) p = Inr ts" "length ts = length (venuesForSellingAsset g2)" "list_all edge_inv ts"
      "table_at offers_of [] ts = sell_offers g2"
      "table_at pool_of None ts = (\<lambda>i k. if i = a \<and> k = b \<or> i = b \<and> k = a then Some p else sell_pool g2 i k)"
      "\<forall>j. j \<noteq> a \<longrightarrow> j \<noteq> b \<longrightarrow> ts ! j = venuesForSellingAsset g2 ! j"
    unfolding view_defs by blast
  define g3 where "g3 = g2\<lparr>liquidityPools := AList.update \<lparr>buyingAsset = a, sellingAsset = b\<rparr> e (liquidityPools g2),
    venuesForBuyingAsset := tb, venuesForSellingAsset := ts\<rparr>"
  have run: "graph_addPool g e = Inr g3"
    using d(2) G(1,2) tb(1) ts(1) by (simp add: graph_addPool_def poolFromEntry_def p_def g3_def Let_def)
  have views: "sell_offers g3 = sell_offers g2" "buy_offers g3 = buy_offers g2"
    "sell_pool g3 = (\<lambda>i k. if i = a \<and> k = b \<or> i = b \<and> k = a then Some p else sell_pool g2 i k)"
    "buy_pool g3 = (\<lambda>i k. if i = a \<and> k = b \<or> i = b \<and> k = a then Some p else buy_pool g2 i k)"
    using tb(4,5) ts(4,5) by (simp_all add: view_defs g3_def)
  have t: "tables_ok g3" using tb(3) ts(3) B(9,10) unfolding tables_ok_def views by (auto simp: g3_def)
  have base: "base_inv g3"
  proof -
    have "ids_ok g3" using B(1) tb(2) ts(2) by (simp add: ids_ok_def g3_def)
    moreover have "offers_ok (idToAssetString g3) (sell_offers g3) (tradingPairForOffer g3)"
      unfolding views using B(3) by (simp add: g3_def)
    moreover have "pools_ok (idToAssetString g3) (sell_pool g3) (liquidityPools g3)"
      unfolding views using pools_ok_insert [OF B(4) pat _ _ G(6)] by (simp add: g3_def p_def)
    ultimately show ?thesis using t by (simp add: base_inv_def)
  qed
  have "sell_pool g3 a b \<noteq> None" unfolding views by simp
  then have "used g3 a" "used g3 b"
    unfolding tables_used [OF t] using G(7,9) B tb(2) ts(2) by (auto simp: g3_def)
  moreover have "used g3 j" if "used g2 j" "j \<noteq> a" "j \<noteq> b" for j
    using that tb(2,6) ts(2,6) by (auto simp: used_def g3_def)
  ultimately have "live_except {} g3" using G(4) by (auto simp: live_except_def g3_def)
  then have inv: "graph_inv g3" using base by (simp add: graph_inv_def)
  have bk: "book_of g2 = book_of g"
    using book_of_same [OF _ G(3)] assms(1) G(5) by (simp add: graph_inv_def same_venues_def)
  have "abs_offers g3 = abs_offers g2"
    using abs_offers_iff [OF base] abs_offers_iff [OF G(3)] views(1) by (intro option_map_eqI) simp
  moreover have "abs_pools g3 = (abs_pools g2)(pool_key e := map_option pool_entry (Some p))"
  proof (rule abs_pools_update [OF G(3) base assms(2)])
    fix q
    have key: "pool_key e = (idToAssetString g2 ! a, idToAssetString g2 ! b)" using d(6) G(8,10) by simp
    show "sell_pool g3 (pool_assetA q) (pool_assetB q) = Some q \<longleftrightarrow>
        Some p = Some q \<or> sell_pool g2 (pool_assetA q) (pool_assetB q) = Some q \<and> pool_key (pool_entry q) \<noteq> pool_key e"
      using pools_at_pair [OF G(3) assms(2) key G(7,9), of q] pa G(6) unfolding views by auto
    show "Some p = Some q \<Longrightarrow> pool_entry q = e" by (auto simp: p_def)
  qed
  moreover have "pool_entry p = e" by (simp add: p_def)
  ultimately have "book_of g3 = (book_of g)\<lparr>book_pools := (book_pools (book_of g))(pool_key e \<mapsto> e)\<rparr>"
    unfolding bk [symmetric] by (simp add: book_of_def)
  then show ?thesis
    using run inv G(5,11) by (auto simp: same_frame_def same_venues_def g3_def)
qed

lemma tables_removePool_spec:
  fixes g :: OrderBookGraph and x y :: nat
  assumes "list_all edge_inv (venuesForSellingAsset g)" and "list_all edge_inv (venuesForBuyingAsset g)"
    and "x < length (venuesForSellingAsset g)" and "x < length (venuesForBuyingAsset g)"
  defines "g' \<equiv> g\<lparr>venuesForBuyingAsset := (venuesForBuyingAsset g)[x := edge_removePool (venuesForBuyingAsset g ! x) y],
    venuesForSellingAsset := (venuesForSellingAsset g)[x := edge_removePool (venuesForSellingAsset g ! x) y]\<rparr>"
  shows "tables_removePool g x y = Inr g'" and "list_all edge_inv (venuesForSellingAsset g')"
    and "list_all edge_inv (venuesForBuyingAsset g')"
    and "sell_offers g' = sell_offers g" and "buy_offers g' = buy_offers g"
    and "sell_pool g' = (\<lambda>i k. if i = x \<and> k = y then None else sell_pool g i k)"
    and "buy_pool g' = (\<lambda>i k. if i = x \<and> k = y then None else buy_pool g i k)"
proof -
  note S = es.table_remove_pool [OF assms(1,3), where k = y]
  note T = es.table_remove_pool [OF assms(2,4), where k = y]
  show "tables_removePool g x y = Inr g'"
    using assms(3,4) by (simp add: tables_removePool_def g'_def Let_def)
  show "list_all edge_inv (venuesForSellingAsset g')" "list_all edge_inv (venuesForBuyingAsset g')"
    using S(1) T(1) by (simp_all add: g'_def)
  show "sell_offers g' = sell_offers g" "buy_offers g' = buy_offers g"
    "sell_pool g' = (\<lambda>i k. if i = x \<and> k = y then None else sell_pool g i k)"
    "buy_pool g' = (\<lambda>i k. if i = x \<and> k = y then None else buy_pool g i k)"
    using S(2,3) T(2,3) by (auto simp: g'_def view_defs fun_eq_iff)
qed

lemma if_or_swap:
  "(\<lambda>i k. if P i k then x else if Q i k then x else f i k) = (\<lambda>i k. if Q i k \<or> P i k then x else f i k)"
  by (intro ext) simp

lemma graph_removePool_spec:
  assumes "graph_inv g" and "valid_pool e"
  shows "\<exists>g'. graph_removePool g e = Inr g' \<and> graph_inv g' \<and> same_frame g g' \<and>
    book_of g' = (book_of g)\<lparr>book_pools := (book_pools (book_of g))(pool_key e := None)\<rparr>"
proof -
  from valid_pool_parts [OF assms(2)] obtain d where
    d: "lp_ConstantProduct e = Some d" "pool_assets e = Inr (cp_AssetA d, cp_AssetB d)" "valid_asset (cp_AssetA d)"
      "valid_asset (cp_AssetB d)" "cp_AssetA d \<noteq> cp_AssetB d"
      "pool_key e = (Asset_String (cp_AssetA d), Asset_String (cp_AssetB d))" by metis
  from getOrCreate_two [OF assms(1) d(3-5)] obtain g1 a g2 b where
    G: "getOrCreateAssetID g (cp_AssetA d) = Inr (g1, a)" "getOrCreateAssetID g1 (cp_AssetB d) = Inr (g2, b)"
      "base_inv g2" "live_except {a, b} g2" "same_venues g g2" "a \<noteq> b"
      "a < length (idToAssetString g2)" "idToAssetString g2 ! a = Asset_String (cp_AssetA d)"
      "b < length (idToAssetString g2)" "idToAssetString g2 ! b = Asset_String (cp_AssetB d)"
      "length (idToAssetString g) \<le> length (idToAssetString g2)" by metis
  note B = base_inv_parts [OF G(3)]
  have key: "pool_key e = (idToAssetString g2 ! a, idToAssetString g2 ! b)" using d(6) G(8,10) by simp
  have ra: "a < length (venuesForSellingAsset g2)" "a < length (venuesForBuyingAsset g2)" using G(7) B by auto
  note R = tables_removePool_spec [OF B(5,6) ra, of b]
  define g3 where "g3 = g2\<lparr>venuesForBuyingAsset := (venuesForBuyingAsset g2)[a := edge_removePool (venuesForBuyingAsset g2 ! a) b],
    venuesForSellingAsset := (venuesForSellingAsset g2)[a := edge_removePool (venuesForSellingAsset g2 ! a) b]\<rparr>"
  note R3 = R [folded g3_def]
  have rb: "b < length (venuesForSellingAsset g3)" "b < length (venuesForBuyingAsset g3)" using G(9) B by (auto simp: g3_def)
  define g4 where "g4 = g3\<lparr>venuesForBuyingAsset := (venuesForBuyingAsset g3)[b := edge_removePool (venuesForBuyingAsset g3 ! b) a],
    venuesForSellingAsset := (venuesForSellingAsset g3)[b := edge_removePool (venuesForSellingAsset g3 ! b) a]\<rparr>"
  note R4 = tables_removePool_spec [OF R3(2,3) rb, of a, folded g4_def]
  define g5 where "g5 = g4\<lparr>liquidityPools := AList.delete \<lparr>buyingAsset = a, sellingAsset = b\<rparr> (liquidityPools g4)\<rparr>"
  have g54: "sell_offers g5 = sell_offers g4" "buy_offers g5 = buy_offers g4" "sell_pool g5 = sell_pool g4"
    "buy_pool g5 = buy_pool g4"
    by (simp_all add: g5_def view_defs)
  have views: "sell_offers g5 = sell_offers g2" "buy_offers g5 = buy_offers g2"
    "sell_pool g5 = (\<lambda>i k. if i = a \<and> k = b \<or> i = b \<and> k = a then None else sell_pool g2 i k)"
    "buy_pool g5 = (\<lambda>i k. if i = a \<and> k = b \<or> i = b \<and> k = a then None else buy_pool g2 i k)"
  proof -
    show "sell_offers g5 = sell_offers g2" using g54(1) R4(4) R3(4) by (rule trans [OF _ trans])
    show "buy_offers g5 = buy_offers g2" using g54(2) R4(5) R3(5) by (rule trans [OF _ trans])
    show "sell_pool g5 = (\<lambda>i k. if i = a \<and> k = b \<or> i = b \<and> k = a then None else sell_pool g2 i k)"
      unfolding g54(3) R4(6) R3(6) by (rule if_or_swap)
    show "buy_pool g5 = (\<lambda>i k. if i = a \<and> k = b \<or> i = b \<and> k = a then None else buy_pool g2 i k)"
      unfolding g54(4) R4(7) R3(7) by (rule if_or_swap)
  qed
  have same: "idToAssetString g5 = idToAssetString g2" "tradingPairForOffer g5 = tradingPairForOffer g2"
    "liquidityPools g5 = AList.delete \<lparr>buyingAsset = a, sellingAsset = b\<rparr> (liquidityPools g2)"
    "batchedUpdates g5 = batchedUpdates g2" "lastLedger g5 = lastLedger g2"
    by (simp_all add: g5_def g4_def g3_def)
  have t: "tables_ok g5" using R4(2,3) B(9,10) unfolding tables_ok_def views by (auto simp: g5_def)
  have base: "base_inv g5"
  proof -
    have "ids_ok g5" using B(1) by (simp add: ids_ok_def g5_def g4_def g3_def)
    moreover have "offers_ok (idToAssetString g5) (sell_offers g5) (tradingPairForOffer g5)"
      unfolding views same by (rule B(3))
    moreover have "pools_ok (idToAssetString g5) (sell_pool g5) (liquidityPools g5)"
      unfolding views same by (rule pools_ok_remove [OF B(4) assms(2) key])
    ultimately show ?thesis using t by (simp add: base_inv_def)
  qed
  have "live_except {a, b} g5"
    using G(4) by (auto simp: live_except_def used_def g5_def g4_def g3_def)
  moreover have "a < length (idToAssetString g5)" "idToAssetString g5 ! a \<noteq> []"
    "b < length (idToAssetString g5)" "idToAssetString g5 ! b \<noteq> []" using G same(1) by auto
  ultimately obtain g6 where g6: "bind_result (maybeDeleteAsset g5 a) (\<lambda>g. maybeDeleteAsset g b) = Inr g6" "graph_inv g6"
    "same_venues g5 g6" "length (idToAssetString g6) = length (idToAssetString g5)"
    using maybeDelete_two [OF base _ G(6)] by blast
  have run: "graph_removePool g e = Inr g6"
    using d(2) G(1,2,6) R3(1) R4(1) g6(1) by (simp add: graph_removePool_def g5_def Let_def)
  have base6: "base_inv g6" using g6(2) by (simp add: graph_inv_def)
  have bk: "book_of g2 = book_of g" "book_of g6 = book_of g5"
    using book_of_same [OF _ G(3)] assms(1) G(5) book_of_same [OF base base6] g6(3)
    by (simp_all add: graph_inv_def same_venues_def)
  have "abs_offers g5 = abs_offers g2"
    using abs_offers_iff [OF base] abs_offers_iff [OF G(3)] views(1) by (intro option_map_eqI) simp
  moreover have "abs_pools g5 = (abs_pools g2)(pool_key e := map_option pool_entry (None :: liquidityPool option))"
  proof (rule abs_pools_update [OF G(3) base assms(2)])
    fix q
    show "sell_pool g5 (pool_assetA q) (pool_assetB q) = Some q \<longleftrightarrow>
        None = Some q \<or> sell_pool g2 (pool_assetA q) (pool_assetB q) = Some q \<and> pool_key (pool_entry q) \<noteq> pool_key e"
      using pools_at_pair [OF G(3) assms(2) key G(7,9), of q] G(6) unfolding views by auto
  qed simp
  ultimately have "book_of g6 = (book_of g)\<lparr>book_pools := (book_pools (book_of g))(pool_key e := None)\<rparr>"
    unfolding bk(1) [symmetric] bk(2) by (simp add: book_of_def)
  then show ?thesis
    using run g6 G(5,11) same by (auto simp: same_frame_def same_venues_def)
qed

section \<open>Batches\<close>

definition pairs_in_range :: "OrderBookGraph \<Rightarrow> tradingPair list \<Rightarrow> bool" where
  "pairs_in_range g pairs \<longleftrightarrow>
     (\<forall>p \<in> set pairs. sellingAsset p < length (idToAssetString g) \<and> buyingAsset p < length (idToAssetString g))"

lemma pairs_in_range_frame: "pairs_in_range g pairs \<Longrightarrow> same_frame g g' \<Longrightarrow> pairs_in_range g' pairs"
  by (auto simp: pairs_in_range_def same_frame_def)

lemma book_op_absent_offer:
  assumes "base_inv g" and "map_of (tradingPairForOffer g) i = None"
  shows "(book_offers (book_of g))(i := None) = book_offers (book_of g)"
  using assms(2) by (auto simp: book_of_def abs_offers_def fun_eq_iff)

lemma apply_operation_spec:
  assumes "graph_inv g" and "valid_op op" and "pairs_in_range g pairs"
  shows "\<exists>g' pairs'. apply_operation (g, pairs) op = Inr (g', pairs') \<and> graph_inv g' \<and> same_frame g g' \<and>
    pairs_in_range g' pairs' \<and> book_of g' = book_op (book_of g) op"
proof (cases op)
  case (AddOfferOp v)
  from graph_addOffer_spec [OF assms(1), of v] obtain g' where
    "graph_addOffer g v = Inr g'" "graph_inv g'" "same_frame g g'"
    "book_of g' = (book_of g)\<lparr>book_offers := (book_offers (book_of g))(OfferId v \<mapsto> v)\<rparr>"
    using assms(2) AddOfferOp by auto
  then show ?thesis using AddOfferOp assms(3) pairs_in_range_frame by auto
next
  case (RemoveOfferOp i)
  show ?thesis
  proof (cases "map_of (tradingPairForOffer g) i")
    case None
    then show ?thesis
      using RemoveOfferOp assms book_op_absent_offer [of g i] by (simp add: graph_inv_def same_frame_def)
  next
    case (Some p)
    from graph_removeOffer_spec [OF assms(1) Some] obtain g' where
      g': "graph_removeOffer g i = Inr g'" "graph_inv g'" "same_frame g g'"
        "sellingAsset p < length (idToAssetString g)" "buyingAsset p < length (idToAssetString g)"
        "book_of g' = (book_of g)\<lparr>book_offers := (book_offers (book_of g))(i := None)\<rparr>" by blast
    have "pairs_in_range g (List.insert p pairs)" using assms(3) g'(4,5) by (auto simp: pairs_in_range_def)
    then show ?thesis using RemoveOfferOp Some g' pairs_in_range_frame by auto
  qed
next
  case (AddLiquidityPoolOp e)
  from graph_addPool_spec [OF assms(1), of e] obtain g' where
    "graph_addPool g e = Inr g'" "graph_inv g'" "same_frame g g'"
    "book_of g' = (book_of g)\<lparr>book_pools := (book_pools (book_of g))(pool_key e \<mapsto> e)\<rparr>"
    using assms(2) AddLiquidityPoolOp by auto
  then show ?thesis using AddLiquidityPoolOp assms(3) pairs_in_range_frame by auto
next
  case (RemoveLiquidityPoolOp e)
  from graph_removePool_spec [OF assms(1), of e] obtain g' where
    "graph_removePool g e = Inr g'" "graph_inv g'" "same_frame g g'"
    "book_of g' = (book_of g)\<lparr>book_pools := (book_pools (book_of g))(pool_key e := None)\<rparr>"
    using assms(2) RemoveLiquidityPoolOp by auto
  then show ?thesis using RemoveLiquidityPoolOp assms(3) pairs_in_range_frame by auto
qed

lemma same_frame_trans: "same_frame g g' \<Longrightarrow> same_frame g' g'' \<Longrightarrow> same_frame g g''"
  by (auto simp: same_frame_def)

lemma apply_operations_spec:
  assumes "graph_inv g" and "list_all valid_op ops" and "pairs_in_range g pairs"
  shows "\<exists>g' pairs'. apply_operations (g, pairs) ops = Inr (g', pairs') \<and> graph_inv g' \<and> same_frame g g' \<and>
    pairs_in_range g' pairs' \<and> book_of g' = foldl book_op (book_of g) ops"
  using assms
proof (induction ops arbitrary: g pairs)
  case Nil
  then show ?case by (simp add: same_frame_def)
next
  case (Cons op ops)
  from apply_operation_spec [OF Cons.prems(1) _ Cons.prems(3), of op] Cons.prems(2) obtain g1 pairs1 where
    g1: "apply_operation (g, pairs) op = Inr (g1, pairs1)" "graph_inv g1" "same_frame g g1" "pairs_in_range g1 pairs1"
      "book_of g1 = book_op (book_of g) op" by auto
  from Cons.IH [OF g1(2) _ g1(4)] Cons.prems(2) obtain g2 pairs2 where
    "apply_operations (g1, pairs1) ops = Inr (g2, pairs2)" "graph_inv g2" "same_frame g1 g2" "pairs_in_range g2 pairs2"
      "book_of g2 = foldl book_op (book_of g1) ops" by auto
  with g1 show ?case using same_frame_trans by auto
qed

text \<open>Reallocation changes no venue.\<close>

lemma reallocate_one:
  assumes "graph_inv g" and "s < length (idToAssetString g)" and "b < length (idToAssetString g)"
  defines "g' \<equiv> g\<lparr>venuesForSellingAsset := (venuesForSellingAsset g)[s := edge_realloc (venuesForSellingAsset g ! s)],
    venuesForBuyingAsset := (venuesForBuyingAsset g)[b := edge_realloc (venuesForBuyingAsset g ! b)]\<rparr>"
  shows "graph_inv g'" and "book_of g' = book_of g"
proof -
  have base: "base_inv g" and live: "live_except {} g" using assms(1) by (auto simp: graph_inv_def)
  note B = base_inv_parts [OF base]
  have rs: "s < length (venuesForSellingAsset g)" and rb: "b < length (venuesForBuyingAsset g)" using assms B by auto
  note S = es.table_realloc [OF B(5) rs] note T = es.table_realloc [OF B(6) rb]
  have sv: "same_venues g g'"
    using S(2,3) T(2,3) by (auto simp: same_venues_def g'_def view_defs fun_eq_iff)
  have "base_inv g'"
    by (rule base_inv_rename [OF base sv])
      (use B(1) S(1) T(1) used_named [OF base] in \<open>auto simp: g'_def ids_ok_def\<close>)
  moreover have "edge_realloc e = [] \<longleftrightarrow> e = []" for e by (simp add: edge_realloc_def)
  then have "used g' j \<longleftrightarrow> used g j" for j
    using rs rb by (auto simp: used_def g'_def nth_list_update)
  then have "live_except {} g'" using live by (simp add: live_except_def g'_def)
  ultimately show "graph_inv g'" and "book_of g' = book_of g"
    using book_of_same [OF base] sv by (auto simp: graph_inv_def same_venues_def)
qed

lemma reallocate_pairs_spec:
  assumes "graph_inv g" and "pairs_in_range g pairs"
  shows "\<exists>g'. reallocate_pairs g pairs = Inr g' \<and> graph_inv g' \<and> same_frame g g' \<and> book_of g' = book_of g"
  using assms
proof (induction pairs arbitrary: g)
  case Nil
  then show ?case by (simp add: same_frame_def)
next
  case (Cons p pairs)
  let ?s = "sellingAsset p" and ?b = "buyingAsset p"
  have r: "?s < length (idToAssetString g)" "?b < length (idToAssetString g)" and rest: "pairs_in_range g pairs"
    using Cons.prems(2) by (auto simp: pairs_in_range_def)
  define g1 where "g1 = g\<lparr>venuesForSellingAsset := (venuesForSellingAsset g)[?s := edge_realloc (venuesForSellingAsset g ! ?s)],
    venuesForBuyingAsset := (venuesForBuyingAsset g)[?b := edge_realloc (venuesForBuyingAsset g ! ?b)]\<rparr>"
  have g1: "graph_inv g1" "book_of g1 = book_of g" unfolding g1_def by (rule reallocate_one [OF Cons.prems(1) r])+
  have fr: "same_frame g g1" by (simp add: same_frame_def g1_def)
  have "length (venuesForSellingAsset g) = length (idToAssetString g)" "length (venuesForBuyingAsset g) = length (idToAssetString g)"
    using Cons.prems(1) by (auto simp: graph_inv_def base_inv_def ids_ok_def)
  then have "reallocate_pairs g (p # pairs) = reallocate_pairs g1 pairs"
    using r by (simp add: g1_def Let_def)
  moreover obtain g' where "reallocate_pairs g1 pairs = Inr g'" "graph_inv g'" "same_frame g1 g'" "book_of g' = book_of g1"
    using Cons.IH [OF g1(1) pairs_in_range_frame [OF rest fr]] by blast
  ultimately show ?case using g1(2) same_frame_trans [OF fr] by auto
qed

lemma graph_inv_fields [simp]:
  "graph_inv (g\<lparr>batchedUpdates := x\<rparr>) = graph_inv g" "graph_inv (g\<lparr>lastLedger := l\<rparr>) = graph_inv g"
  "book_of (g\<lparr>batchedUpdates := x\<rparr>) = book_of g" "book_of (g\<lparr>lastLedger := l\<rparr>) = book_of g"
proof -
  have v: "sell_offers (g\<lparr>batchedUpdates := x\<rparr>) = sell_offers g" "sell_pool (g\<lparr>batchedUpdates := x\<rparr>) = sell_pool g"
    "buy_offers (g\<lparr>batchedUpdates := x\<rparr>) = buy_offers g" "buy_pool (g\<lparr>batchedUpdates := x\<rparr>) = buy_pool g"
    "sell_offers (g\<lparr>lastLedger := l\<rparr>) = sell_offers g" "sell_pool (g\<lparr>lastLedger := l\<rparr>) = sell_pool g"
    "buy_offers (g\<lparr>lastLedger := l\<rparr>) = buy_offers g" "buy_pool (g\<lparr>lastLedger := l\<rparr>) = buy_pool g"
    by (simp_all add: view_defs)
  show "graph_inv (g\<lparr>batchedUpdates := x\<rparr>) = graph_inv g" "graph_inv (g\<lparr>lastLedger := l\<rparr>) = graph_inv g"
    by (simp_all add: graph_inv_def base_inv_def ids_ok_def tables_ok_def live_except_def used_def v)
  show "book_of (g\<lparr>batchedUpdates := x\<rparr>) = book_of g" "book_of (g\<lparr>lastLedger := l\<rparr>) = book_of g"
    by (auto simp: book_of_def abs_offers_def abs_pools_def v fun_eq_iff split: option.splits)
qed

lemma graph_Apply_success:
  assumes "graph_inv g" and "\<not> committed (batchedUpdates g)" and "list_all valid_op (operations (batchedUpdates g))"
    and "lastLedger g = 0 \<or> lastLedger g < ledger"
  shows "\<exists>g'. graph_Apply g ledger = (g', None) \<and> graph_inv g' \<and>
    book_of g' = foldl book_op (book_of g) (operations (batchedUpdates g)) \<and>
    lastLedger g' = ledger \<and> batchedUpdates g' = new_batch"
proof -
  define g0 where "g0 = g\<lparr>batchedUpdates := (batchedUpdates g)\<lparr>committed := True\<rparr>\<rparr>"
  have "graph_inv g0" "pairs_in_range g0 []" using assms(1) by (simp_all add: g0_def pairs_in_range_def)
  from apply_operations_spec [OF this(1) assms(3) this(2)] obtain g1 pairs where
    g1: "apply_operations (g0, []) (operations (batchedUpdates g)) = Inr (g1, pairs)" "graph_inv g1" "pairs_in_range g1 pairs"
      "book_of g1 = foldl book_op (book_of g0) (operations (batchedUpdates g))" by blast
  have "graph_inv (g1\<lparr>lastLedger := ledger\<rparr>)" "pairs_in_range (g1\<lparr>lastLedger := ledger\<rparr>) pairs"
    using g1 by (simp_all add: pairs_in_range_def)
  from reallocate_pairs_spec [OF this] obtain g2 where
    g2: "reallocate_pairs (g1\<lparr>lastLedger := ledger\<rparr>) pairs = Inr g2" "graph_inv g2"
      "same_frame (g1\<lparr>lastLedger := ledger\<rparr>) g2" "book_of g2 = book_of (g1\<lparr>lastLedger := ledger\<rparr>)" by blast
  have "batch_apply g ledger = (g2, None)"
    using assms(2,4) g1(1) g2(1) unfolding batch_apply_def by (auto simp: g0_def [symmetric]) (auto simp: g0_def)
  then show ?thesis using g1 g2 by (simp add: graph_Apply_def g0_def same_frame_def)
qed

lemma graph_inv_Clear: "graph_inv (graph_Clear g)" "book_of (graph_Clear g) = \<lparr>book_offers = Map.empty, book_pools = Map.empty\<rparr>"
  by (auto simp: graph_inv_def base_inv_def ids_ok_def tables_ok_def offers_ok_def pools_ok_def live_except_def
      graph_Clear_def view_defs table_at_def book_of_def abs_offers_def abs_pools_def fun_eq_iff)

lemma NewOrderBookGraph_facts:
  "graph_inv NewOrderBookGraph" "batchedUpdates NewOrderBookGraph = new_batch" "lastLedger NewOrderBookGraph = 0"
  unfolding NewOrderBookGraph_def by (rule graph_inv_Clear) (simp_all add: graph_Clear_def)

lemma foldl_queue:
  "foldl (\<lambda>g x. queue_operation g (f x)) g xs =
    g\<lparr>batchedUpdates := (batchedUpdates g)\<lparr>operations := operations (batchedUpdates g) @ map f xs\<rparr>\<rparr>"
  by (induction xs arbitrary: g) (simp_all add: queue_operation_def)

lemma AddOffers_eq: "AddOffers g vs =
    g\<lparr>batchedUpdates := (batchedUpdates g)\<lparr>operations := operations (batchedUpdates g) @ map AddOfferOp vs\<rparr>\<rparr>"
  by (simp add: AddOffers_def foldl_queue)

lemma AddLiquidityPools_eq: "AddLiquidityPools g ps =
    g\<lparr>batchedUpdates := (batchedUpdates g)\<lparr>operations := operations (batchedUpdates g) @ map AddLiquidityPoolOp ps\<rparr>\<rparr>"
  by (simp add: AddLiquidityPools_def foldl_queue)

lemma graph_Apply_rejected:
  "lastLedger g > 0 \<Longrightarrow> ledger \<le> lastLedger g \<Longrightarrow> \<not> committed (batchedUpdates g) \<Longrightarrow>
    graph_Apply g ledger = (g\<lparr>batchedUpdates := (batchedUpdates g)\<lparr>committed := True\<rparr>\<rparr>, Some errUnexpectedLedger)"
  "committed (batchedUpdates g) \<Longrightarrow> graph_Apply g ledger = (g, Some errBatchAlreadyApplied)"
  by (simp_all add: graph_Apply_def batch_apply_def Let_def)

lemma graph_Apply_cases:
  assumes "graph_inv g" and "list_all valid_op (operations (batchedUpdates g))"
  shows "graph_inv (fst (graph_Apply g ledger)) \<and> list_all valid_op (operations (batchedUpdates (fst (graph_Apply g ledger)))) \<and>
    snd (graph_Apply g ledger) \<in> {None, Some errUnexpectedLedger, Some errBatchAlreadyApplied}"
proof (cases "committed (batchedUpdates g)")
  case True
  then show ?thesis using assms by (simp add: graph_Apply_rejected)
next
  case False
  show ?thesis
  proof (cases "lastLedger g = 0 \<or> lastLedger g < ledger")
    case True
    from graph_Apply_success [OF assms(1) False assms(2) True] show ?thesis by (auto simp: new_batch_def)
  next
    case rej: False
    then show ?thesis using assms False by (simp add: graph_Apply_rejected)
  qed
qed

lemma graph_step_inv:
  assumes "graph_step g g'" and "graph_inv g" and "list_all valid_op (operations (batchedUpdates g))"
  shows "graph_inv g' \<and> list_all valid_op (operations (batchedUpdates g'))"
  using assms
proof cases
  case (step_Apply ledger)
  then show ?thesis using graph_Apply_cases [OF assms(2,3)] by simp
qed (use assms(2,3) graph_inv_Clear in \<open>auto simp: AddOffers_eq AddLiquidityPools_eq RemoveOffer_def RemoveLiquidityPool_def
    queue_operation_def graph_Discard_def graph_Clear_def new_batch_def list_all_iff\<close>)

lemma reachable_inv: "reachable g \<Longrightarrow> graph_inv g \<and> list_all valid_op (operations (batchedUpdates g))"
proof (induction rule: reachable.induct)
  case reach_new
  then show ?case by (simp add: NewOrderBookGraph_facts new_batch_def)
next
  case (reach_step g g')
  then show ?case using graph_step_inv by blast
qed

section \<open>Correctness of the order book\<close>

text \<open>
  C1: \<^verbatim>\<open>Apply\<close> refines the abstract order book. On a consistent graph with a batch of valid
  operations and a newer ledger it returns no error and does not panic; the offers (by
  id) and the pools (by asset pair) are the result of the operations of the batch in
  order, an offer with a known id replacing the old one; the graph is consistent again,
  remembers the ledger and has an empty batch.
\<close>
theorem graph_Apply_refines:
  assumes "graph_inv g" and "\<not> committed (batchedUpdates g)" and "list_all valid_op (operations (batchedUpdates g))"
    and "lastLedger g = 0 \<or> lastLedger g < ledger"
  shows "\<exists>g'. graph_Apply g ledger = (g', None) \<and> graph_inv g' \<and>
    book_of g' = foldl book_op (book_of g) (operations (batchedUpdates g)) \<and>
    lastLedger g' = ledger \<and> batchedUpdates g' = new_batch"
  by (rule graph_Apply_success [OF assms])

theorem graph_Apply_refines_witness:
  "\<exists>g'. graph_Apply (AddOffers NewOrderBookGraph [witness_offer 1 2, witness_offer 2 3]) 7 = (g', None) \<and> graph_inv g' \<and>
    book_of g' = foldl book_op (book_of (AddOffers NewOrderBookGraph [witness_offer 1 2, witness_offer 2 3]))
      (operations (batchedUpdates (AddOffers NewOrderBookGraph [witness_offer 1 2, witness_offer 2 3]))) \<and>
    lastLedger g' = 7 \<and> batchedUpdates g' = new_batch"
  by (rule graph_Apply_refines)
    (simp_all add: AddOffers_eq NewOrderBookGraph_facts new_batch_def valid_offer_def
      witness_offer_def valid_asset_def valid_price_def MaxInt32_def)

text \<open>
  C2: Whatever calls a client makes (queueing valid operations, applying with any ledger
  number, discarding, clearing), the graph stays consistent, and \<^verbatim>\<open>Apply\<close> can only fail with
  an unexpected ledger or on a batch that was applied before: it never panics on an index,
  a missing offer or a failed update.
\<close>
theorem reachable_consistent:
  assumes "reachable g"
  shows "graph_inv g \<and> snd (graph_Apply g ledger) \<in> {None, Some errUnexpectedLedger, Some errBatchAlreadyApplied}"
  using reachable_inv [OF assms] graph_Apply_cases [of g ledger] by blast

theorem reachable_consistent_witness:
  "graph_inv (AddOffers NewOrderBookGraph [witness_offer 1 2]) \<and>
   snd (graph_Apply (AddOffers NewOrderBookGraph [witness_offer 1 2]) 3) \<in> {None, Some errUnexpectedLedger, Some errBatchAlreadyApplied}"
proof (rule reachable_consistent)
  show "reachable (AddOffers NewOrderBookGraph [witness_offer 1 2])"
    by (rule reach_step [OF reach_new step_AddOffers])
      (simp add: valid_offer_def witness_offer_def valid_asset_def valid_price_def MaxInt32_def)
qed

text \<open>
  A ledger that is not newer is rejected and changes neither offers nor pools nor the
  last ledger, but the batch is spent: every later \<^verbatim>\<open>Apply\<close> panics with
  \<^verbatim>\<open>errBatchAlreadyApplied\<close> until the batch is discarded.
\<close>
lemma graph_Apply_unexpected_ledger:
  assumes "0 < lastLedger g" and "ledger \<le> lastLedger g" and "\<not> committed (batchedUpdates g)"
    and "graph_Apply g ledger = (g', err)"
  shows "err = Some errUnexpectedLedger \<and> book_of g' = book_of g \<and> lastLedger g' = lastLedger g \<and>
    (\<forall>later. graph_Apply g' later = (g', Some errBatchAlreadyApplied)) \<and>
    \<not> committed (batchedUpdates (graph_Discard g'))"
  using assms by (auto simp: graph_Apply_rejected graph_Discard_def new_batch_def)

lemma graph_Apply_unexpected_ledger_witness:
  "Some errUnexpectedLedger = Some errUnexpectedLedger \<and>
   book_of (fst (graph_Apply (NewOrderBookGraph\<lparr>lastLedger := 5\<rparr>) 5)) = book_of (NewOrderBookGraph\<lparr>lastLedger := 5\<rparr>) \<and>
   lastLedger (fst (graph_Apply (NewOrderBookGraph\<lparr>lastLedger := 5\<rparr>) 5)) = lastLedger (NewOrderBookGraph\<lparr>lastLedger := 5\<rparr>) \<and>
   (\<forall>later. graph_Apply (fst (graph_Apply (NewOrderBookGraph\<lparr>lastLedger := 5\<rparr>) 5)) later =
      (fst (graph_Apply (NewOrderBookGraph\<lparr>lastLedger := 5\<rparr>) 5), Some errBatchAlreadyApplied)) \<and>
   \<not> committed (batchedUpdates (graph_Discard (fst (graph_Apply (NewOrderBookGraph\<lparr>lastLedger := 5\<rparr>) 5))))"
  by (rule graph_Apply_unexpected_ledger [where ledger = 5])
    (simp_all add: NewOrderBookGraph_facts new_batch_def graph_Apply_rejected)

end
