(* ===== verification/Consume.thy ===== *)
theory Consume
  imports Graph
begin

text \<open>
  Trading through the offers of one venue (\<^verbatim>\<open>consumeOffersForSellingAsset\<close> and
  \<^verbatim>\<open>consumeOffersForBuyingAsset\<close> of \<^verbatim>\<open>exp/orderbook/search.go\<close>). A Go pair of a value and an
  error is a pair whose second part is an option, because the callers read the value even
  when there is an error. Sums of amounts are \<^verbatim>\<open>int64\<close> and wrap around.
\<close>

section \<open>Definitions\<close>

text \<open>
  The errors of the search, and its panics: an index out of range, a nil pointer, and a
  walk over a cyclic chain of path nodes, which would not end.
\<close>

datatype search_error =
    errEmptyOffers
  | errAssetAmountIsZero
  | errSoldTooMuch
  | PriceError price_error
  | ContextError
  | IndexPanic
  | NilPointer
  | EndlessWalk

fun consume_selling_loop ::
    "OfferEntry list \<Rightarrow> AccountId option \<Rightarrow> int \<Rightarrow> int \<Rightarrow> int \<times> search_error option" where
  "consume_selling_loop [] ignoreOffersFrom currentAssetAmount totalConsumed = (-1, None)"
| "consume_selling_loop (offer # offers) ignoreOffersFrom currentAssetAmount totalConsumed =
     (if (case ignoreOffersFrom of None \<Rightarrow> False | Some acc \<Rightarrow> AccountId_Equals acc (SellerId offer))
      then consume_selling_loop offers ignoreOffersFrom currentAssetAmount totalConsumed
      else case ConvertToBuyingUnits (offer_Amount offer) currentAssetAmount
                  (PriceN (offer_Price offer)) (PriceD (offer_Price offer)) of
             Inl err \<Rightarrow> if err = ErrOverflow then (-1, None) else (-1, Some (PriceError err))
           | Inr (buyingUnitsFromOffer, sellingUnitsFromOffer) \<Rightarrow>
              let totalConsumed = wrap_int64 (totalConsumed + buyingUnitsFromOffer);
                  currentAssetAmount = wrap_int64 (currentAssetAmount - sellingUnitsFromOffer)
              in if currentAssetAmount = 0 then (totalConsumed, None)
                 else if currentAssetAmount < 0 then (-1, Some errSoldTooMuch)
                 else consume_selling_loop offers ignoreOffersFrom currentAssetAmount totalConsumed)"

definition consumeOffersForSellingAsset ::
    "OfferEntry list \<Rightarrow> AccountId option \<Rightarrow> int \<Rightarrow> int \<Rightarrow> int \<times> search_error option" where
  "consumeOffersForSellingAsset offers ignoreOffersFrom currentAssetAmount currentBestAmount =
     (if length offers = 0 then (0, Some errEmptyOffers)
      else if currentAssetAmount = 0 then (0, Some errAssetAmountIsZero)
      else consume_selling_loop offers ignoreOffersFrom currentAssetAmount 0)"

text \<open>
  One offer of the buying loop. \<open>Inl\<close> returns from the function, \<open>Inr\<close> goes on with the
  remaining amount and the new tot.
\<close>

definition consume_buying_rest ::
    "OfferEntry \<Rightarrow> int \<Rightarrow> int \<Rightarrow> (int \<times> search_error option) + (int \<times> int)" where
  "consume_buying_rest offer currentAssetAmount totalConsumed =
     (case ConvertToBuyingUnits (offer_Amount offer) (offer_Amount offer)
             (PriceN (offer_Price offer)) (PriceD (offer_Price offer)) of
        Inl err \<Rightarrow> Inl (if err = ErrOverflow then (-1, None) else (-1, Some (PriceError err)))
      | Inr (buyingUnitsFromOffer, sellingUnitsFromOffer) \<Rightarrow>
         let totalConsumed = wrap_int64 (totalConsumed + sellingUnitsFromOffer);
             currentAssetAmount = wrap_int64 (currentAssetAmount - buyingUnitsFromOffer)
         in if currentAssetAmount = 0 then Inl (totalConsumed, None)
            else if currentAssetAmount < 0 then Inl (-1, Some errSoldTooMuch)
            else Inr (currentAssetAmount, totalConsumed))"

definition consume_buying_offer ::
    "OfferEntry \<Rightarrow> int \<Rightarrow> int \<Rightarrow> (int \<times> search_error option) + (int \<times> int)" where
  "consume_buying_offer offer currentAssetAmount totalConsumed =
     (case MulFractionRoundDown currentAssetAmount (PriceD (offer_Price offer)) (PriceN (offer_Price offer)) of
        Inr amountSold \<Rightarrow>
          if amountSold = 0 then Inl (-1, None)
          else if amountSold < 0 then Inl (-1, Some errSoldTooMuch)
          else if amountSold \<le> offer_Amount offer then Inl (wrap_int64 (totalConsumed + amountSold), None)
          else consume_buying_rest offer currentAssetAmount totalConsumed
      | Inl err \<Rightarrow>
          if err \<noteq> ErrOverflow then Inl (-1, Some (PriceError err))
          else consume_buying_rest offer currentAssetAmount totalConsumed)"

fun consume_buying_loop :: "OfferEntry list \<Rightarrow> int \<Rightarrow> int \<Rightarrow> int \<times> search_error option" where
  "consume_buying_loop [] currentAssetAmount totalConsumed = (-1, None)"
| "consume_buying_loop (offer # offers) currentAssetAmount totalConsumed =
     (case consume_buying_offer offer currentAssetAmount totalConsumed of
        Inl r \<Rightarrow> r
      | Inr (currentAssetAmount, totalConsumed) \<Rightarrow> consume_buying_loop offers currentAssetAmount totalConsumed)"

definition consumeOffersForBuyingAsset :: "OfferEntry list \<Rightarrow> int \<Rightarrow> int \<times> search_error option" where
  "consumeOffersForBuyingAsset offers currentAssetAmount =
     (if length offers = 0 then (0, Some errEmptyOffers)
      else if currentAssetAmount = 0 then (0, Some errAssetAmountIsZero)
      else consume_buying_loop offers currentAssetAmount 0)"

text \<open>
  What the functions are meant to compute. An offer as the ledger has it; the offers that a
  taker may use; and one fill, the amounts \<open>(paid, sold)\<close> exchanged with an offer: no more
  is sold than is offered, and the taker pays no less than the price.
\<close>

definition ledger_offer :: "OfferEntry \<Rightarrow> bool" where
  "ledger_offer v \<longleftrightarrow> valid_price (offer_Price v) \<and> 0 < offer_Amount v \<and> in_int64 (offer_Amount v)"

definition usable :: "AccountId option \<Rightarrow> OfferEntry list \<Rightarrow> OfferEntry list" where
  "usable ignoreOffersFrom = filter (\<lambda>v. ignoreOffersFrom \<noteq> Some (SellerId v))"

definition fair_fill :: "OfferEntry \<Rightarrow> int \<times> int \<Rightarrow> bool" where
  "fair_fill v f \<longleftrightarrow>
     (let n = PriceN (offer_Price v); d = PriceD (offer_Price v); (paid, sold) = f
      in 0 \<le> sold \<and> sold \<le> offer_Amount v \<and> sold * n \<le> paid * d \<and> paid * d < sold * n + max n d)"

text \<open>
  What an offer can sell: units that do not change the rounded-down worth of the offer are
  kept back; and what that costs.
\<close>

definition sellable :: "OfferEntry \<Rightarrow> int" where
  "sellable v =
     (let n = PriceN (offer_Price v); d = PriceD (offer_Price v); a = offer_Amount v
      in if n \<le> d then (a * n div d * d + n - 1) div n else a)"

definition cost :: "OfferEntry \<Rightarrow> int \<Rightarrow> int" where
  "cost v sold = (sold * PriceN (offer_Price v) + PriceD (offer_Price v) - 1) div PriceD (offer_Price v)"

text \<open>Fills of a prefix of the offers, in order, where all but the last take all the offer can sell.\<close>

fun fills_of :: "OfferEntry list \<Rightarrow> (int \<times> int) list \<Rightarrow> bool" where
  "fills_of vs [] = False"
| "fills_of [] (f # fs) = False"
| "fills_of (v # vs) (f # fs) = (fair_fill v f \<and> (fs = [] \<or> snd f = sellable v \<and> fills_of vs fs))"

text \<open>
  The results of the two loops, with \<open>need\<close> units still to trade and a running total: either
  fills that trade exactly \<open>need\<close>, and the total plus what they come to as a 64-bit sum; or
  \<open>-1\<close>, when the offers run out, when one of them costs more than 64 bits can hold, or (in
  the buying loop) when the rest does not pay for a single unit.
\<close>

definition selling_result :: "OfferEntry list \<Rightarrow> int \<Rightarrow> int \<Rightarrow> int \<Rightarrow> bool" where
  "selling_result us need tot r \<longleftrightarrow>
     (\<exists>fs. fills_of us fs \<and> sum_list (map snd fs) = need \<and> r = wrap_int64 (tot + sum_list (map fst fs))) \<or>
     r = -1 \<and> (sum_list (map sellable us) < need \<or> (\<exists>v \<in> set us. MaxInt64 < cost v (sellable v)))"

definition buying_result :: "OfferEntry list \<Rightarrow> int \<Rightarrow> int \<Rightarrow> int \<Rightarrow> bool" where
  "buying_result us need tot r \<longleftrightarrow>
     (\<exists>fs. fills_of us fs \<and> sum_list (map fst fs) = need \<and> r = wrap_int64 (tot + sum_list (map snd fs))) \<or>
     r = -1 \<and> (sum_list (map (\<lambda>v. cost v (sellable v)) us) < need \<or>
       (\<exists>v \<in> set us. MaxInt64 < cost v (sellable v) \<or> PriceD (offer_Price v) < PriceN (offer_Price v)))"

section \<open>Amounts of one offer\<close>

lemma wrap_int64_add: "wrap_int64 (wrap_int64 a + b) = wrap_int64 (a + b)"
proof -
  have "(a + 9223372036854775808) mod 18446744073709551616 - 9223372036854775808 + b + 9223372036854775808 =
      (a + 9223372036854775808) mod 18446744073709551616 + b" for a b :: int by simp
  then show ?thesis unfolding wrap_int64_def by (simp add: mod_simps algebra_simps)
qed

lemma ledger_offer_price:
  assumes "ledger_offer v"
  shows "0 < PriceN (offer_Price v)" "in_int64 (PriceN (offer_Price v))"
    "0 < PriceD (offer_Price v)" "in_int64 (PriceD (offer_Price v))"
    "0 < offer_Amount v" "0 \<le> offer_Amount v" "in_int64 (offer_Amount v)"
  using assms by (auto simp: ledger_offer_def valid_price_def in_int64_def MaxInt32_def)

lemma sellable_bounds:
  assumes "ledger_offer v"
  shows "0 \<le> sellable v" "sellable v \<le> offer_Amount v"
  using selling_bound [OF ledger_offer_price(6) [OF assms] ledger_offer_price(1) [OF assms] ledger_offer_price(3) [OF assms]]
    ledger_offer_price [OF assms]
  by (auto simp: sellable_def Let_def)

lemma cost_mono:
  assumes "ledger_offer v" "s \<le> t"
  shows "cost v s \<le> cost v t"
proof -
  have "s * PriceN (offer_Price v) \<le> t * PriceN (offer_Price v)"
    using assms ledger_offer_price(1) [OF assms(1)] by (simp add: mult_right_mono)
  then show ?thesis unfolding cost_def using ledger_offer_price(3) [OF assms(1)] by (intro zdiv_mono1) simp_all
qed

lemma cost_bounds:
  assumes "ledger_offer v"
  shows "s * PriceN (offer_Price v) \<le> cost v s * PriceD (offer_Price v)"
    "cost v s * PriceD (offer_Price v) < s * PriceN (offer_Price v) + PriceD (offer_Price v)"
  using div_round_up_bounds [OF ledger_offer_price(3) [OF assms], of "s * PriceN (offer_Price v)"]
  by (simp_all add: cost_def)

lemma cost_nonneg:
  assumes "ledger_offer v" "0 \<le> s"
  shows "0 \<le> cost v s"
  unfolding cost_def using ledger_offer_price(1,3) [OF assms(1)] assms(2)
  by (simp add: pos_imp_zdiv_nonneg_iff add_nonneg_pos)

lemma ConvertToBuyingUnits_offer:
  assumes v: "ledger_offer v" and u: "0 \<le> u" "in_int64 u"
  shows "ConvertToBuyingUnits (offer_Amount v) u (PriceN (offer_Price v)) (PriceD (offer_Price v)) =
    (if cost v (min (sellable v) u) > MaxInt64 then Inl ErrOverflow
     else Inr (cost v (min (sellable v) u), min (sellable v) u))"
  using ConvertToBuyingUnits_eq [OF ledger_offer_price(6,7) [OF v] u ledger_offer_price(1-4) [OF v]]
  by (simp add: cost_def sellable_def Let_def)

lemma fair_fill_cost:
  assumes "ledger_offer v" "0 \<le> s" "s \<le> sellable v"
  shows "fair_fill v (cost v s, s)"
proof -
  have "s * PriceN (offer_Price v) + PriceD (offer_Price v) \<le> s * PriceN (offer_Price v) + max (PriceN (offer_Price v)) (PriceD (offer_Price v))"
    by simp
  with cost_bounds [OF assms(1), of s] sellable_bounds [OF assms(1)] assms(2,3) show ?thesis
    by (simp add: fair_fill_def Let_def)
qed

section \<open>Selling\<close>

lemma selling_result_first:
  "fair_fill v (c, need) \<Longrightarrow> selling_result (v # us) need tot (wrap_int64 (tot + c))"
  unfolding selling_result_def by (intro disjI1 exI [of _ "[(c, need)]"]) simp

lemma selling_result_more:
  assumes "selling_result us (need - sellable v) (wrap_int64 (tot + c)) r" "fair_fill v (c, sellable v)"
  shows "selling_result (v # us) need tot r"
  using assms(1) unfolding selling_result_def
proof (elim disjE exE)
  fix fs
  assume "fills_of us fs \<and> sum_list (map snd fs) = need - sellable v \<and> r = wrap_int64 (wrap_int64 (tot + c) + sum_list (map fst fs))"
  then show "(\<exists>fs. fills_of (v # us) fs \<and> sum_list (map snd fs) = need \<and> r = wrap_int64 (tot + sum_list (map fst fs))) \<or>
      r = -1 \<and> (sum_list (map sellable (v # us)) < need \<or> (\<exists>v \<in> set (v # us). MaxInt64 < cost v (sellable v)))"
    using assms(2) by (intro disjI1 exI [of _ "(c, sellable v) # fs"]) (simp add: wrap_int64_add add.assoc)
qed auto

lemma consume_selling_loop_spec:
  assumes "list_all ledger_offer vs" "0 < need" "in_int64 need"
  shows "\<exists>r. consume_selling_loop vs ign need tot = (r, None) \<and> selling_result (usable ign vs) need tot r"
  using assms
proof (induction vs arbitrary: need tot)
  case Nil
  then show ?case by (simp add: usable_def selling_result_def)
next
  case (Cons v vs)
  have v: "ledger_offer v" and vs: "list_all ledger_offer vs" using Cons.prems by simp_all
  show ?case
  proof (cases "ign = Some (SellerId v)")
    case True
    then show ?thesis using Cons.IH [OF vs Cons.prems(2,3)] by (simp add: usable_def AccountId_Equals_def)
  next
    case False
    then have us: "usable ign (v # vs) = v # usable ign vs" by (simp add: usable_def)
    have skip: "\<not> (case ign of None \<Rightarrow> False | Some acc \<Rightarrow> AccountId_Equals acc (SellerId v))"
      using False by (auto simp: AccountId_Equals_def split: option.splits)
    define s where "s = min (sellable v) need"
    have s: "0 \<le> s" "s \<le> need" "s \<le> sellable v" using sellable_bounds [OF v] Cons.prems by (auto simp: s_def)
    note conv = ConvertToBuyingUnits_offer [OF v, of need, folded s_def]
    note fair = fair_fill_cost [OF v s(1,3)]
    show ?thesis
    proof (cases "cost v s > MaxInt64")
      case True
      then have "MaxInt64 < cost v (sellable v)" using cost_mono [OF v s(3)] by simp
      then show ?thesis using conv True skip Cons.prems us by (simp add: selling_result_def)
    next
      case False
      have w: "wrap_int64 (need - s) = need - s"
        using s Cons.prems by (intro wrap_int64_id) (auto simp: in_int64_def)
      let ?t = "wrap_int64 (tot + cost v s)"
      have step: "consume_selling_loop (v # vs) ign need tot =
          (if need - s = 0 then (?t, None) else consume_selling_loop vs ign (need - s) ?t)"
        using conv False skip Cons.prems s by (simp add: w Let_def)
      show ?thesis
      proof (cases "need - s = 0")
        case True
        then show ?thesis using selling_result_first fair unfolding step us by simp
      next
        case False
        then have sv: "s = sellable v" "0 < need - s" "in_int64 (need - s)"
          using s Cons.prems by (auto simp: s_def in_int64_def min_def split: if_splits)
        from Cons.IH [OF vs sv(2,3), of ?t] selling_result_more fair False show ?thesis
          unfolding step us sv(1) by auto
      qed
    qed
  qed
qed

section \<open>Buying\<close>

lemma buying_result_first:
  "fair_fill v (need, c) \<Longrightarrow> buying_result (v # us) need tot (wrap_int64 (tot + c))"
  unfolding buying_result_def by (intro disjI1 exI [of _ "[(need, c)]"]) simp

lemma buying_result_more:
  assumes "buying_result us (need - cost v (sellable v)) (wrap_int64 (tot + sellable v)) r"
    and "fair_fill v (cost v (sellable v), sellable v)"
  shows "buying_result (v # us) need tot r"
  using assms(1) unfolding buying_result_def
proof (elim disjE exE)
  fix fs
  assume "fills_of us fs \<and> sum_list (map fst fs) = need - cost v (sellable v) \<and>
    r = wrap_int64 (wrap_int64 (tot + sellable v) + sum_list (map snd fs))"
  then show "(\<exists>fs. fills_of (v # us) fs \<and> sum_list (map fst fs) = need \<and> r = wrap_int64 (tot + sum_list (map snd fs))) \<or>
      r = -1 \<and> (sum_list (map (\<lambda>v. cost v (sellable v)) (v # us)) < need \<or>
        (\<exists>v \<in> set (v # us). MaxInt64 < cost v (sellable v) \<or> PriceD (offer_Price v) < PriceN (offer_Price v)))"
    using assms(2) by (intro disjI1 exI [of _ "(cost v (sellable v), sellable v) # fs"])
      (simp add: wrap_int64_add add.assoc)
qed auto

text \<open>A taker who cannot spend everything on the offer can pay for all that it sells.\<close>

lemma cost_of_rest:
  assumes v: "ledger_offer v" and "offer_Amount v < need * PriceD (offer_Price v) div PriceN (offer_Price v)"
  shows "cost v (sellable v) \<le> need"
proof -
  let ?n = "PriceN (offer_Price v)" and ?d = "PriceD (offer_Price v)"
  note p = ledger_offer_price [OF v]
  have "(sellable v + 1) * ?n \<le> need * ?d div ?n * ?n"
    using assms(2) sellable_bounds(2) [OF v] p(1) by (intro mult_right_mono) simp_all
  also have "\<dots> \<le> need * ?d" using div_round_down_bounds(1) [OF p(1), of "need * ?d"] by simp
  finally have "sellable v * ?n \<le> need * ?d" using p(1) by (simp add: algebra_simps)
  then have "cost v (sellable v) \<le> (need * ?d + ?d - 1) div ?d"
    unfolding cost_def using p(3) by (intro zdiv_mono1) simp_all
  also have "\<dots> = (need * ?d + (?d - 1)) div ?d" by (simp add: algebra_simps)
  also have "\<dots> = need" using p(3) by simp
  finally show ?thesis .
qed

lemma consume_buying_rest_eq:
  assumes v: "ledger_offer v" and "in_int64 need" "0 < need" "cost v (sellable v) \<le> need"
  shows "consume_buying_rest v need tot =
    (if cost v (sellable v) > MaxInt64 then Inl (-1, None)
     else if need = cost v (sellable v) then Inl (wrap_int64 (tot + sellable v), None)
     else Inr (need - cost v (sellable v), wrap_int64 (tot + sellable v)))"
proof -
  note p = ledger_offer_price [OF v]
  have m: "min (sellable v) (offer_Amount v) = sellable v" using sellable_bounds [OF v] by simp
  have "0 \<le> cost v (sellable v)" by (rule cost_nonneg [OF v sellable_bounds(1) [OF v]])
  then have w: "wrap_int64 (need - cost v (sellable v)) = need - cost v (sellable v)"
    using assms by (intro wrap_int64_id) (auto simp: in_int64_def)
  show ?thesis
    using ConvertToBuyingUnits_offer [OF v p(6,7), unfolded m] assms(4)
    by (auto simp: consume_buying_rest_def w Let_def)
qed

lemma consume_buying_loop_spec:
  assumes "list_all ledger_offer vs" "0 < need" "in_int64 need"
  shows "\<exists>r. consume_buying_loop vs need tot = (r, None) \<and> buying_result vs need tot r"
  using assms
proof (induction vs arbitrary: need tot)
  case Nil
  then show ?case by (simp add: buying_result_def)
next
  case (Cons v vs)
  have v: "ledger_offer v" and vs: "list_all ledger_offer vs" using Cons.prems by simp_all
  note p = ledger_offer_price [OF v]
  let ?q = "need * PriceD (offer_Price v) div PriceN (offer_Price v)"
  have q0: "0 \<le> ?q" using p Cons.prems by (simp add: pos_imp_zdiv_nonneg_iff)
  have down: "MulFractionRoundDown need (PriceD (offer_Price v)) (PriceN (offer_Price v)) =
      (if ?q > MaxInt64 then Inl ErrOverflow else Inr ?q)"
    using MulFractionRoundDown_eq [OF Cons.prems(3) p(4,2)] p Cons.prems by simp
  consider (none) "?q = 0" | (all) "0 < ?q" "?q \<le> offer_Amount v" | (rest) "offer_Amount v < ?q"
    using q0 by linarith
  then show ?case
  proof cases
    case none
    have "PriceD (offer_Price v) < PriceN (offer_Price v)"
    proof (rule ccontr)
      assume "\<not> ?thesis"
      then have "1 * PriceN (offer_Price v) \<le> need * PriceD (offer_Price v)"
        using Cons.prems p by (intro mult_mono) simp_all
      then have "1 \<le> ?q" using p(1) zdiv_mono1 [of "1 * PriceN (offer_Price v)" "need * PriceD (offer_Price v)" "PriceN (offer_Price v)"] by simp
      then show False using none by simp
    qed
    then show ?thesis using none down by (simp add: consume_buying_offer_def buying_result_def MaxInt64_def)
  next
    case all
    have "fair_fill v (need, ?q)"
      using div_round_down_bounds [OF p(1), of "need * PriceD (offer_Price v)"] all p
      by (simp add: fair_fill_def Let_def)
    moreover have "\<not> MaxInt64 < ?q" using all p(7) by (simp add: in_int64_def MaxInt64_def)
    ultimately show ?thesis using all down buying_result_first
      by (simp add: consume_buying_offer_def)
  next
    case rest
    note c = cost_of_rest [OF v rest]
    have 0: "\<not> ?q = 0" "\<not> ?q < 0" "\<not> ?q \<le> offer_Amount v" using rest p(5) by linarith+
    have step: "consume_buying_loop (v # vs) need tot =
        (if cost v (sellable v) > MaxInt64 then (-1, None)
         else if need = cost v (sellable v) then (wrap_int64 (tot + sellable v), None)
         else consume_buying_loop vs (need - cost v (sellable v)) (wrap_int64 (tot + sellable v)))"
    proof -
      have "consume_buying_offer v need tot = consume_buying_rest v need tot"
        using down 0 by (cases "?q > MaxInt64") (simp_all add: consume_buying_offer_def)
      then show ?thesis
        unfolding consume_buying_loop.simps consume_buying_rest_eq [OF v Cons.prems(3,2) c] by simp
    qed
    note fair = fair_fill_cost [OF v sellable_bounds(1) [OF v] order.refl]
    have "buying_result (v # vs) need tot (-1)" if "cost v (sellable v) > MaxInt64"
      using that by (auto simp: buying_result_def)
    moreover have "buying_result (v # vs) need tot (wrap_int64 (tot + sellable v))" if "need = cost v (sellable v)"
      using buying_result_first [of v need "sellable v"] fair that by simp
    moreover have "\<exists>r. consume_buying_loop vs (need - cost v (sellable v)) (wrap_int64 (tot + sellable v)) = (r, None) \<and>
        buying_result (v # vs) need tot r" if "need \<noteq> cost v (sellable v)"
    proof -
      have "0 < need - cost v (sellable v)" "in_int64 (need - cost v (sellable v))"
        using that c Cons.prems cost_nonneg [OF v sellable_bounds(1) [OF v]] by (auto simp: in_int64_def)
      from Cons.IH [OF vs this] buying_result_more [OF _ fair] show ?thesis by blast
    qed
    ultimately show ?thesis unfolding step by auto
  qed
qed

section \<open>Correctness of trading through a venue\<close>



text \<open>
  Buying through a venue. For offers as the ledger has them and a positive amount to
  spend, \<^verbatim>\<open>consumeOffersForBuyingAsset\<close> reports no error, and either finds fills of the
  offers in order, each within the offer and at its price, that together cost exactly the
  amount, and returns the 64-bit sum of what they sell; or returns \<open>-1\<close>, and then the
  offers cannot absorb the amount, one of them costs more than 64 bits can hold, or one has
  a price above one, which the rest may be too small to pay.
\<close>
lemma consumeOffersForBuyingAsset_fills:
  assumes "list_all ledger_offer offers" and "offers \<noteq> []" and "0 < amount" and "in_int64 amount"
  shows "\<exists>r. consumeOffersForBuyingAsset offers amount = (r, None) \<and>
    ((\<exists>fs. fills_of offers fs \<and> sum_list (map fst fs) = amount \<and> r = wrap_int64 (sum_list (map snd fs))) \<or>
     r = -1 \<and> (sum_list (map (\<lambda>v. cost v (sellable v)) offers) < amount \<or>
       (\<exists>v \<in> set offers. MaxInt64 < cost v (sellable v) \<or> PriceD (offer_Price v) < PriceN (offer_Price v))))"
  using consume_buying_loop_spec [OF assms(1,3,4), of 0] assms(2,3)
  by (simp add: consumeOffersForBuyingAsset_def buying_result_def)

lemma consumeOffersForBuyingAsset_fills_witness:
  "\<exists>r. consumeOffersForBuyingAsset [witness_offer 1 2, witness_offer 2 3] 230 = (r, None) \<and>
    ((\<exists>fs. fills_of [witness_offer 1 2, witness_offer 2 3] fs \<and> sum_list (map fst fs) = 230 \<and>
       r = wrap_int64 (sum_list (map snd fs))) \<or>
     r = -1 \<and> (sum_list (map (\<lambda>v. cost v (sellable v)) [witness_offer 1 2, witness_offer 2 3]) < 230 \<or>
       (\<exists>v \<in> set [witness_offer 1 2, witness_offer 2 3]. MaxInt64 < cost v (sellable v) \<or>
          PriceD (offer_Price v) < PriceN (offer_Price v))))"
  by (rule consumeOffersForBuyingAsset_fills)
    (simp_all add: ledger_offer_def witness_offer_def valid_price_def in_int64_def MaxInt32_def)


end
