(* ===== verification/Search.thy ===== *)
theory Search
  imports Consume
begin

text \<open>
  The path search (\<^verbatim>\<open>exp/orderbook/search.go\<close>). The Go interface \<^verbatim>\<open>searchState\<close> is a record
  of functions, with one value for each of its two implementations. Path nodes are mutated
  through pointers, so they live in an explicit store: a pointer is an index into the list
  of all nodes allocated so far. A walk along the \<^verbatim>\<open>prev\<close> pointers has the number of nodes
  as fuel; running out of it stands for an endless walk, which is shown not to happen. The
  context is a function that tells for each poll whether it is cancelled by then.
\<close>

section \<open>Definitions\<close>

record Path =
  SourceAsset :: string
  SourceAmount :: int
  DestinationAsset :: string
  DestinationAmount :: int
  InteriorNodes :: "string list"

text \<open>
  The interface \<^verbatim>\<open>searchState\<close>. \<^verbatim>\<open>appendToPaths\<close> gives the path that the search appends to
  the list of paths.
\<close>

record searchState =
  totalAssets :: nat
  considerPools :: bool
  isTerminalNode :: "nat \<Rightarrow> bool"
  includePath :: "nat \<Rightarrow> int \<Rightarrow> bool"
  betterPathAmount :: "int \<Rightarrow> int \<Rightarrow> bool"
  appendToPaths :: "nat list \<Rightarrow> nat \<Rightarrow> int \<Rightarrow> (search_error, Path) result"
  venues :: "nat \<Rightarrow> (search_error, edgeSet) result"
  consumeOffers :: "int \<Rightarrow> int \<Rightarrow> OfferEntry list \<Rightarrow> int \<times> search_error option"
  consumePool :: "liquidityPool \<Rightarrow> nat \<Rightarrow> int \<Rightarrow> (pool_error, int) result"

record pathNode =
  node_asset :: nat
  node_prev :: "nat option"

text \<open>\<^verbatim>\<open>contains\<close> and \<^verbatim>\<open>path\<close>: walks along the chain of a node.\<close>

fun node_contains :: "pathNode list \<Rightarrow> nat \<Rightarrow> nat option \<Rightarrow> nat \<Rightarrow> bool option" where
  "node_contains store fuel None node = Some False"
| "node_contains store 0 (Some p) node = None"
| "node_contains store (Suc fuel) (Some p) node =
     (if node_asset (store ! p) = node then Some True
      else node_contains store fuel (node_prev (store ! p)) node)"

fun node_walk :: "pathNode list \<Rightarrow> nat \<Rightarrow> nat option \<Rightarrow> nat list option" where
  "node_walk store fuel None = Some []"
| "node_walk store 0 (Some p) = None"
| "node_walk store (Suc fuel) (Some p) =
     (case node_walk store fuel (node_prev (store ! p)) of
        None \<Rightarrow> None
      | Some rest \<Rightarrow> Some (node_asset (store ! p) # rest))"

fun reverse_loop :: "nat \<Rightarrow> 'a list \<Rightarrow> 'a list" where
  "reverse_loop 0 path = path"
| "reverse_loop (Suc i) path =
     (let opp = length path - 1 - i in reverse_loop i (path[i := path ! opp, opp := path ! i]))"

definition reversePath :: "'a list \<Rightarrow> 'a list" where
  "reversePath path = reverse_loop (length path div 2) path"

definition node_path :: "pathNode list \<Rightarrow> nat option \<Rightarrow> (search_error, nat list) result" where
  "node_path store e =
     (case node_walk store (length store) e of None \<Rightarrow> Inl EndlessWalk | Some result \<Rightarrow> Inr (reversePath result))"

definition processVenues :: "searchState \<Rightarrow> nat \<Rightarrow> int \<Rightarrow> Venues \<Rightarrow> (search_error, int) result" where
  "processVenues st currentAsset currentAssetAmount ven =
     (if currentAssetAmount = 0 then Inl errAssetAmountIsZero
      else
        let poolAmount =
              (if considerPools st \<and> pool_set (ven_pool ven)
               then (case consumePool st (ven_pool ven) currentAsset currentAssetAmount of Inl _ \<Rightarrow> 0 | Inr amount \<Rightarrow> amount)
               else 0)
        in if poolAmount = 0 \<and> length (ven_offers ven) = 0 then Inr (-1)
           else case consumeOffers st currentAssetAmount poolAmount (ven_offers ven) of
                  (nextAssetAmount, None) \<Rightarrow> Inr nextAssetAmount
                | (nextAssetAmount, Some err) \<Rightarrow> if poolAmount = 0 then Inl err else Inr nextAssetAmount)"

text \<open>
  The local variables of \<^verbatim>\<open>search\<close>, the store of all path nodes (the one of the source asset
  and those of the slab), the paths found and the number of times the context was polled.
\<close>

record search_vars =
  bestAmount :: "int list"
  updateAmount :: "int list"
  bestPath :: "nat option list"
  updatePath :: "nat option list"
  updatedAssets :: "nat list"
  nodes :: "pathNode list"
  found :: "Path list"
  polls :: nat

definition append_path ::
    "searchState \<Rightarrow> nat list \<Rightarrow> nat \<Rightarrow> int \<Rightarrow> search_vars \<Rightarrow> (search_error, search_vars) result" where
  "append_path st path currentAsset currentAssetAmount v =
     (case appendToPaths st path currentAsset currentAssetAmount of
        Inl err \<Rightarrow> Inl err
      | Inr p \<Rightarrow> Inr (v\<lparr>found := found v @ [p]\<rparr>))"

text \<open>The node for the new amount: a fresh one, or the one allocated earlier in this round.\<close>

definition set_node :: "nat \<Rightarrow> nat option \<Rightarrow> bool \<Rightarrow> search_vars \<Rightarrow> (search_error, search_vars) result" where
  "set_node nextAsset pathToCurrentAsset newEntry v =
     (if newEntry
      then Inr (v\<lparr>updatedAssets := updatedAssets v @ [nextAsset],
                  nodes := nodes v @ [\<lparr>node_asset = nextAsset, node_prev = pathToCurrentAsset\<rparr>],
                  updatePath := (updatePath v)[nextAsset := Some (length (nodes v))]\<rparr>)
      else case updatePath v ! nextAsset of
             None \<Rightarrow> Inl NilPointer
           | Some p \<Rightarrow> Inr (v\<lparr>nodes := (nodes v)[p := (nodes v ! p)\<lparr>node_prev := pathToCurrentAsset\<rparr>]\<rparr>))"

definition search_update ::
    "searchState \<Rightarrow> nat \<Rightarrow> nat option \<Rightarrow> nat \<Rightarrow> int \<Rightarrow> search_vars \<Rightarrow> (search_error, search_vars) result" where
  "search_update st currentAsset pathToCurrentAsset nextAsset nextAssetAmount v =
     (if \<not> nextAsset < length (updateAmount v) then Inl IndexPanic
      else if \<not> betterPathAmount st (updateAmount v ! nextAsset) nextAssetAmount then Inr v
      else
        let newEntry = (updateAmount v ! nextAsset = bestAmount v ! nextAsset);
            v = v\<lparr>updateAmount := (updateAmount v)[nextAsset := nextAssetAmount]\<rparr>
        in bind_result (set_node nextAsset pathToCurrentAsset newEntry v) (\<lambda>v.
           if includePath st nextAsset nextAssetAmount
           then bind_result (node_path (nodes v) (bestPath v ! currentAsset)) (\<lambda>path.
                append_path st (path @ [nextAsset]) nextAsset nextAssetAmount v)
           else Inr v))"

definition search_edge ::
    "(nat \<Rightarrow> bool) \<Rightarrow> searchState \<Rightarrow> bool \<Rightarrow> nat \<Rightarrow> int \<Rightarrow> nat option \<Rightarrow> edge \<Rightarrow> search_vars \<Rightarrow> (search_error, search_vars) result" where
  "search_edge ctx st lastStep currentAsset currentAmount pathToCurrentAsset x v =
     (if ctx (polls v) then Inl ContextError
      else
        let v = v\<lparr>polls := Suc (polls v)\<rparr>; nextAsset = edge_key x
        in if lastStep \<and> \<not> isTerminalNode st nextAsset then Inr v
           else case node_contains (nodes v) (length (nodes v)) pathToCurrentAsset nextAsset of
                  None \<Rightarrow> Inl EndlessWalk
                | Some True \<Rightarrow> Inr v
                | Some False \<Rightarrow>
                    bind_result (processVenues st currentAsset currentAmount (edge_value x)) (\<lambda>nextAssetAmount.
                      if nextAssetAmount \<le> 0 then Inr v
                      else search_update st currentAsset pathToCurrentAsset nextAsset nextAssetAmount v))"

fun search_edges ::
    "(nat \<Rightarrow> bool) \<Rightarrow> searchState \<Rightarrow> bool \<Rightarrow> nat \<Rightarrow> int \<Rightarrow> nat option \<Rightarrow> edgeSet \<Rightarrow> search_vars \<Rightarrow> (search_error, search_vars) result" where
  "search_edges ctx st lastStep currentAsset currentAmount pathToCurrentAsset [] v = Inr v"
| "search_edges ctx st lastStep currentAsset currentAmount pathToCurrentAsset (x # edges) v =
     bind_result (search_edge ctx st lastStep currentAsset currentAmount pathToCurrentAsset x v)
       (search_edges ctx st lastStep currentAsset currentAmount pathToCurrentAsset edges)"

definition search_asset ::
    "(nat \<Rightarrow> bool) \<Rightarrow> searchState \<Rightarrow> bool \<Rightarrow> nat \<Rightarrow> search_vars \<Rightarrow> (search_error, search_vars) result" where
  "search_asset ctx st lastStep currentAsset v =
     (let currentAmount = bestAmount v ! currentAsset
      in if currentAmount = 0 then Inr v
         else bind_result (venues st currentAsset) (\<lambda>edges.
                search_edges ctx st lastStep currentAsset currentAmount (bestPath v ! currentAsset) edges v))"

fun search_assets ::
    "(nat \<Rightarrow> bool) \<Rightarrow> searchState \<Rightarrow> bool \<Rightarrow> nat list \<Rightarrow> search_vars \<Rightarrow> (search_error, search_vars) result" where
  "search_assets ctx st lastStep [] v = Inr v"
| "search_assets ctx st lastStep (currentAsset # rest) v =
     bind_result (search_asset ctx st lastStep currentAsset v) (search_assets ctx st lastStep rest)"

definition commit_updates :: "search_vars \<Rightarrow> search_vars" where
  "commit_updates v =
     foldl (\<lambda>v asset. v\<lparr>bestPath := (bestPath v)[asset := updatePath v ! asset],
                       bestAmount := (bestAmount v)[asset := updateAmount v ! asset]\<rparr>) v (updatedAssets v)"

definition search_round ::
    "(nat \<Rightarrow> bool) \<Rightarrow> searchState \<Rightarrow> nat \<Rightarrow> nat \<Rightarrow> search_vars \<Rightarrow> (search_error, search_vars) result" where
  "search_round ctx st maxPathLength i v =
     bind_result (search_assets ctx st (i = maxPathLength - 1) [0..<totalAssets st] (v\<lparr>updatedAssets := []\<rparr>))
       (\<lambda>v. Inr (if i < maxPathLength - 1 then commit_updates v else v))"

fun search_rounds ::
    "(nat \<Rightarrow> bool) \<Rightarrow> searchState \<Rightarrow> nat \<Rightarrow> nat list \<Rightarrow> search_vars \<Rightarrow> (search_error, search_vars) result" where
  "search_rounds ctx st maxPathLength [] v = Inr v"
| "search_rounds ctx st maxPathLength (i # rest) v =
     bind_result (search_round ctx st maxPathLength i v) (search_rounds ctx st maxPathLength rest)"

definition search_init :: "searchState \<Rightarrow> nat \<Rightarrow> int \<Rightarrow> search_vars" where
  "search_init st sourceAsset sourceAssetAmount =
     \<lparr>bestAmount = (replicate (totalAssets st) 0)[sourceAsset := sourceAssetAmount],
      updateAmount = (replicate (totalAssets st) 0)[sourceAsset := sourceAssetAmount],
      bestPath = (replicate (totalAssets st) None)[sourceAsset := Some 0],
      updatePath = replicate (totalAssets st) None,
      updatedAssets = [],
      nodes = [\<lparr>node_asset = sourceAsset, node_prev = None\<rparr>],
      found = [], polls = 0\<rparr>"

text \<open>
  \<^verbatim>\<open>search\<close>. The paths found before an error are dropped, as its callers do. A negative
  \<^verbatim>\<open>maxPathLength\<close> behaves like zero.
\<close>

definition search ::
    "(nat \<Rightarrow> bool) \<Rightarrow> searchState \<Rightarrow> nat \<Rightarrow> nat \<Rightarrow> int \<Rightarrow> (search_error, Path list) result" where
  "search ctx st maxPathLength sourceAsset sourceAssetAmount =
     (if \<not> sourceAsset < totalAssets st then Inl IndexPanic
      else
        let v = search_init st sourceAsset sourceAssetAmount
        in bind_result
             (if includePath st sourceAsset sourceAssetAmount
              then append_path st [sourceAsset] sourceAsset sourceAssetAmount v else Inr v)
             (\<lambda>v. bind_result (search_rounds ctx st maxPathLength [0..<maxPathLength] v) (\<lambda>v. Inr (found v))))"

text \<open>
  What a search may return. A route is a sequence of assets that starts at the source, takes
  one edge of the graph per hop and never visits an asset twice, together with the amount
  that trading hop by hop gives.
\<close>

inductive route :: "searchState \<Rightarrow> nat \<Rightarrow> int \<Rightarrow> nat list \<Rightarrow> int \<Rightarrow> bool" for st source amount where
  route_start: "route st source amount [source] amount"
| route_hop: "route st source amount path a \<Longrightarrow> a \<noteq> 0 \<Longrightarrow> venues st (last path) = Inr edges \<Longrightarrow> x \<in> set edges \<Longrightarrow>
    edge_key x < totalAssets st \<Longrightarrow> edge_key x \<notin> set path \<Longrightarrow>
    processVenues st (last path) a (edge_value x) = Inr b \<Longrightarrow> 0 < b \<Longrightarrow>
    route st source amount (path @ [edge_key x]) b"

text \<open>A path that the search reports comes from a route of bounded length that meets the criteria.\<close>

definition reported :: "searchState \<Rightarrow> nat \<Rightarrow> int \<Rightarrow> nat \<Rightarrow> Path \<Rightarrow> bool" where
  "reported st source amount hops p \<longleftrightarrow>
     (\<exists>ids a. route st source amount ids a \<and> length ids \<le> Suc hops \<and> includePath st (last ids) a \<and>
        appendToPaths st ids (last ids) a = Inr p)"

text \<open>
  The chain of a node: the assets from the root to the node. Every node points to an older
  one, so the chain is finite.
\<close>

definition below :: "nat option \<Rightarrow> nat \<Rightarrow> bool" where
  "below q n \<longleftrightarrow> (case q of None \<Rightarrow> True | Some p \<Rightarrow> p < n)"

inductive chain :: "pathNode list \<Rightarrow> nat option \<Rightarrow> nat list \<Rightarrow> bool" for store where
  chain_root: "chain store None []"
| chain_node: "p < length store \<Longrightarrow> below (node_prev (store ! p)) p \<Longrightarrow> chain store (node_prev (store ! p)) path \<Longrightarrow>
    chain store (Some p) (path @ [node_asset (store ! p)])"

text \<open>
  The invariant of a round, where \<open>base\<close> is the number of nodes before it and \<open>len\<close> bounds
  the length of the best paths so far: best paths consist of old nodes, the nodes of this
  round hang on best paths, and an asset was updated in this round exactly when its two
  amounts differ.
\<close>

definition best_ok :: "searchState \<Rightarrow> nat \<Rightarrow> int \<Rightarrow> nat \<Rightarrow> nat \<Rightarrow> search_vars \<Rightarrow> nat \<Rightarrow> bool" where
  "best_ok st source amount base len v a \<longleftrightarrow>
     (\<exists>path. chain (nodes v) (bestPath v ! a) path \<and> below (bestPath v ! a) base \<and> path \<noteq> [] \<and> last path = a \<and>
        route st source amount path (bestAmount v ! a) \<and> length path \<le> len)"

definition update_ok :: "searchState \<Rightarrow> nat \<Rightarrow> int \<Rightarrow> nat \<Rightarrow> nat \<Rightarrow> search_vars \<Rightarrow> nat \<Rightarrow> bool" where
  "update_ok st source amount base len v a \<longleftrightarrow>
     a < totalAssets st \<and> betterPathAmount st (bestAmount v ! a) (updateAmount v ! a) \<and> 0 < updateAmount v ! a \<and>
     (\<exists>p path. updatePath v ! a = Some p \<and> base \<le> p \<and> p < length (nodes v) \<and> node_asset (nodes v ! p) = a \<and>
        chain (nodes v) (node_prev (nodes v ! p)) path \<and> below (node_prev (nodes v ! p)) base \<and>
        route st source amount (path @ [a]) (updateAmount v ! a) \<and> length path \<le> len)"

definition round_inv :: "searchState \<Rightarrow> nat \<Rightarrow> int \<Rightarrow> nat \<Rightarrow> nat \<Rightarrow> search_vars \<Rightarrow> bool" where
  "round_inv st source amount base len v \<longleftrightarrow>
     length (bestAmount v) = totalAssets st \<and> length (updateAmount v) = totalAssets st \<and>
     length (bestPath v) = totalAssets st \<and> length (updatePath v) = totalAssets st \<and> base \<le> length (nodes v) \<and>
     (\<forall>a < totalAssets st. bestAmount v ! a \<noteq> 0 \<longrightarrow> best_ok st source amount base len v a) \<and>
     (\<forall>a < totalAssets st. a \<notin> set (updatedAssets v) \<longrightarrow> updateAmount v ! a = bestAmount v ! a) \<and>
     (\<forall>a \<in> set (updatedAssets v). update_ok st source amount base len v a)"

section \<open>Reversing a path\<close>

lemma reverse_loop_nth:
  assumes "n \<le> length xs div 2"
  shows "length (reverse_loop n xs) = length xs \<and>
    (\<forall>k < length xs. reverse_loop n xs ! k = (if k < n \<or> length xs - n \<le> k then xs ! (length xs - 1 - k) else xs ! k))"
  using assms
proof (induction n arbitrary: xs)
  case 0
  then show ?case by simp
next
  case (Suc n)
  let ?o = "length xs - 1 - n"
  let ?ys = "xs[n := xs ! ?o, ?o := xs ! n]"
  have o: "n < length xs" "?o < length xs" "n < ?o" using Suc.prems by linarith+
  have IH: "length (reverse_loop n ?ys) = length xs"
    "\<And>k. k < length xs \<Longrightarrow> reverse_loop n ?ys ! k = (if k < n \<or> length xs - n \<le> k then ?ys ! (length xs - 1 - k) else ?ys ! k)"
    using Suc.IH [of ?ys] Suc.prems by auto
  have "reverse_loop (Suc n) xs ! k = (if k < Suc n \<or> length xs - Suc n \<le> k then xs ! (length xs - 1 - k) else xs ! k)"
    if "k < length xs" for k
    using IH(2) [OF that] o that by (auto simp: Let_def nth_list_update)
  then show ?case using IH(1) by (simp add: Let_def)
qed

lemma reversePath_rev [simp]: "reversePath xs = rev xs"
proof (rule nth_equalityI)
  note r = reverse_loop_nth [of "length xs div 2" xs]
  show "length (reversePath xs) = length (rev xs)" using r by (simp add: reversePath_def)
  fix k
  assume "k < length (reversePath xs)"
  then have k: "k < length xs" using r by (simp add: reversePath_def)
  show "reversePath xs ! k = rev xs ! k"
  proof (cases "k < length xs div 2 \<or> length xs - length xs div 2 \<le> k")
    case True
    then show ?thesis using r k by (simp add: reversePath_def rev_nth)
  next
    case False
    then have "length xs - 1 - k = k" using k by linarith
    then show ?thesis using r k by (simp add: reversePath_def rev_nth)
  qed
qed

section \<open>Chains of nodes\<close>

lemma below_simps [simp]: "below None n" "below (Some p) n \<longleftrightarrow> p < n"
  by (simp_all add: below_def)

lemma below_mono: "below q m \<Longrightarrow> m \<le> n \<Longrightarrow> below q n"
  by (auto simp: below_def split: option.splits)

lemma chain_same_prefix:
  assumes "chain store q path" "below q b" "b \<le> length store'" "\<And>k. k < b \<Longrightarrow> store' ! k = store ! k"
  shows "chain store' q path"
  using assms(1,2)
proof induction
  case chain_root
  show ?case by (rule chain.chain_root)
next
  case (chain_node p path)
  have p: "p < b" using chain_node.prems by simp
  have eq: "store' ! p = store ! p" using assms(4) p by simp
  have "chain store' (node_prev (store ! p)) path"
    using chain_node.IH below_mono [OF chain_node.hyps(2)] p by simp
  then have "chain store' (Some p) (path @ [node_asset (store' ! p)])"
    using chain.chain_node [of p store' path] p assms(3) chain_node.hyps(2) eq by simp
  then show ?case by (simp add: eq)
qed

lemma chain_walk: "chain store q path \<Longrightarrow> below q fuel \<Longrightarrow> node_walk store fuel q = Some (rev path)"
proof (induction arbitrary: fuel rule: chain.induct)
  case (chain_node p path)
  then obtain f where "fuel = Suc f" "p \<le> f" by (cases fuel) auto
  then show ?case using chain_node.IH [of f] below_mono [OF chain_node.hyps(2)] by simp
qed simp

lemma chain_contains: "chain store q path \<Longrightarrow> below q fuel \<Longrightarrow> node_contains store fuel q node = Some (node \<in> set path)"
proof (induction arbitrary: fuel rule: chain.induct)
  case (chain_node p path)
  then obtain f where "fuel = Suc f" "p \<le> f" by (cases fuel) auto
  then show ?case using chain_node.IH [of f] below_mono [OF chain_node.hyps(2)] by simp
qed simp

lemma chain_node_path: "chain store q path \<Longrightarrow> below q (length store) \<Longrightarrow> node_path store q = Inr path"
  using chain_walk [of store q path "length store"] by (simp add: node_path_def)

section \<open>Routes\<close>

lemma route_shape: "route st source amount path a \<Longrightarrow> path \<noteq> [] \<and> hd path = source \<and> distinct path"
  by (induction rule: route.induct) auto

lemma route_in_range:
  assumes "route st source amount path a" "source < totalAssets st"
  shows "set path \<subseteq> {..<totalAssets st}"
  using assms by (induction rule: route.induct) auto

section \<open>The interface of a search state\<close>

text \<open>
  What \<^verbatim>\<open>search\<close> relies on in its search state: a strictly better amount is different and
  being better is transitive; the errors that reading edges, trading and building a path can
  give satisfy \<open>err_ok\<close>, for amounts that satisfy \<open>amount_ok\<close>, which trading keeps.
\<close>

locale search_state =
  fixes st :: searchState and amount_ok :: "int \<Rightarrow> bool" and err_ok :: "search_error \<Rightarrow> bool"
  assumes better_strict: "betterPathAmount st m b \<Longrightarrow> 0 < b \<Longrightarrow> m \<noteq> b"
    and better_trans: "betterPathAmount st m b \<Longrightarrow> betterPathAmount st b n \<Longrightarrow> 0 < b \<Longrightarrow> 0 < n \<Longrightarrow> betterPathAmount st m n"
    and venues_error: "a < totalAssets st \<Longrightarrow> venues st a = Inl e \<Longrightarrow> err_ok e"
    and key_range: "a < totalAssets st \<Longrightarrow> venues st a = Inr edges \<Longrightarrow> x \<in> set edges \<Longrightarrow>
      edge_key x < totalAssets st \<or> err_ok IndexPanic"
    and trade_error: "a < totalAssets st \<Longrightarrow> venues st a = Inr edges \<Longrightarrow> x \<in> set edges \<Longrightarrow> amount_ok n \<Longrightarrow> n \<noteq> 0 \<Longrightarrow>
      processVenues st a n (edge_value x) = Inl e \<Longrightarrow> err_ok e"
    and trade_amount: "a < totalAssets st \<Longrightarrow> venues st a = Inr edges \<Longrightarrow> x \<in> set edges \<Longrightarrow> amount_ok n \<Longrightarrow> n \<noteq> 0 \<Longrightarrow>
      processVenues st a n (edge_value x) = Inr b \<Longrightarrow> 0 < b \<Longrightarrow> amount_ok b"
    and append_error: "ids \<noteq> [] \<Longrightarrow> set ids \<subseteq> {..<totalAssets st} \<Longrightarrow> appendToPaths st ids (last ids) b = Inl e \<Longrightarrow> err_ok e"
begin

lemma best_ok_frame:
  assumes "best_ok st source amount base len v a" "bestPath v' = bestPath v" "bestAmount v' = bestAmount v"
    and "base \<le> length (nodes v')" "\<And>k. k < base \<Longrightarrow> nodes v' ! k = nodes v ! k"
  shows "best_ok st source amount base len v' a"
  using assms chain_same_prefix [of "nodes v" _ _ base "nodes v'"] unfolding best_ok_def by auto

lemma update_ok_frame:
  assumes "update_ok st source amount base len v a" "updateAmount v' ! a = updateAmount v ! a"
    and "updatePath v' ! a = updatePath v ! a" "bestAmount v' = bestAmount v"
    and "length (nodes v) \<le> length (nodes v')" "base \<le> length (nodes v)" "\<And>k. k < base \<Longrightarrow> nodes v' ! k = nodes v ! k"
    and "\<And>p. updatePath v ! a = Some p \<Longrightarrow> p < length (nodes v) \<Longrightarrow> node_asset (nodes v ! p) = a \<Longrightarrow> nodes v' ! p = nodes v ! p"
  shows "update_ok st source amount base len v' a"
proof -
  from assms(1) obtain p path where p: "updatePath v ! a = Some p" "base \<le> p" "p < length (nodes v)"
      "node_asset (nodes v ! p) = a" "chain (nodes v) (node_prev (nodes v ! p)) path" "below (node_prev (nodes v ! p)) base"
      "route st source amount (path @ [a]) (updateAmount v ! a)" "length path \<le> len"
    and o: "a < totalAssets st" "betterPathAmount st (bestAmount v ! a) (updateAmount v ! a)" "0 < updateAmount v ! a"
    unfolding update_ok_def by blast
  have eq: "nodes v' ! p = nodes v ! p" using assms(8) p by simp
  have "chain (nodes v') (node_prev (nodes v ! p)) path"
    using chain_same_prefix [OF p(5,6), of "nodes v'"] assms(5,6,7) by simp
  with p o eq assms show ?thesis
    unfolding update_ok_def by (intro conjI exI [of _ p] exI [of _ path]) simp_all
qed

lemma round_invD:
  assumes "round_inv st source amount base len v"
  shows "length (bestAmount v) = totalAssets st" "length (updateAmount v) = totalAssets st"
    "length (bestPath v) = totalAssets st" "length (updatePath v) = totalAssets st" "base \<le> length (nodes v)"
    "\<And>a. a < totalAssets st \<Longrightarrow> bestAmount v ! a \<noteq> 0 \<Longrightarrow> best_ok st source amount base len v a"
    "\<And>a. a < totalAssets st \<Longrightarrow> a \<notin> set (updatedAssets v) \<Longrightarrow> updateAmount v ! a = bestAmount v ! a"
    "\<And>a. a \<in> set (updatedAssets v) \<Longrightarrow> update_ok st source amount base len v a"
  using assms unfolding round_inv_def by blast+

lemma updated_iff:
  assumes "round_inv st source amount base len v" "a < totalAssets st"
  shows "updateAmount v ! a = bestAmount v ! a \<longleftrightarrow> a \<notin> set (updatedAssets v)"
  using round_invD(7,8) [OF assms(1), of a] assms(2) better_strict unfolding update_ok_def by metis

text \<open>Recording a better amount for \<open>nxt\<close>, reached from \<open>cur\<close>.\<close>

lemma set_node_inv:
  assumes inv: "round_inv st source amount base len v" and cur: "chain (nodes v) q path" "below q base" "length path \<le> len"
    and nxt: "nxt < totalAssets st" "betterPathAmount st (updateAmount v ! nxt) b" "0 < b" "route st source amount (path @ [nxt]) b"
  shows "\<exists>v'. set_node nxt q (updateAmount v ! nxt = bestAmount v ! nxt) (v\<lparr>updateAmount := (updateAmount v)[nxt := b]\<rparr>) = Inr v' \<and>
    round_inv st source amount base len v' \<and> found v' = found v \<and> bestPath v' = bestPath v \<and> chain (nodes v') q path"
proof -
  note D = round_invD [OF inv]
  have better: "betterPathAmount st (bestAmount v ! nxt) b"
  proof (cases "nxt \<in> set (updatedAssets v)")
    case True
    then show ?thesis using D(8) better_trans nxt unfolding update_ok_def by blast
  next
    case False
    then show ?thesis using D(7) nxt by simp
  qed
  show ?thesis
  proof (cases "nxt \<in> set (updatedAssets v)")
    case False
    then have new: "updateAmount v ! nxt = bestAmount v ! nxt" using D(7) nxt by simp
    define v' where "v' = v\<lparr>updateAmount := (updateAmount v)[nxt := b], updatedAssets := updatedAssets v @ [nxt],
      nodes := nodes v @ [\<lparr>node_asset = nxt, node_prev = q\<rparr>], updatePath := (updatePath v)[nxt := Some (length (nodes v))]\<rparr>"
    have same: "nodes v' ! k = nodes v ! k" if "k < length (nodes v)" for k using that by (simp add: v'_def nth_append)
    have ch: "chain (nodes v') q path"
      using chain_same_prefix [OF cur(1,2), of "nodes v'"] D(5) same by (simp add: v'_def)
    have upd: "update_ok st source amount base len v' a" if "a \<in> set (updatedAssets v)" for a
    proof -
      have "nxt \<noteq> a" using that False by blast
      then show ?thesis
        using D(5) by (intro update_ok_frame [OF D(8) [OF that]]) (auto simp: v'_def nth_append)
    qed
    have "update_ok st source amount base len v' nxt"
      unfolding update_ok_def using nxt better cur ch D
      by (intro conjI exI [of _ "length (nodes v)"] exI [of _ path]) (simp_all add: v'_def)
    moreover have "best_ok st source amount base len v' a" if "a < totalAssets st" "bestAmount v ! a \<noteq> 0" for a
      using D(5) same by (intro best_ok_frame [OF D(6) [OF that]]) (auto simp: v'_def)
    ultimately have "round_inv st source amount base len v'"
      using D upd unfolding round_inv_def by (auto simp: v'_def nth_list_update)
    then show ?thesis using ch new by (simp add: set_node_def v'_def)
  next
    case True
    then have old: "updateAmount v ! nxt \<noteq> bestAmount v ! nxt" using updated_iff [OF inv nxt(1)] by simp
    from D(8) [OF True] obtain p where p: "updatePath v ! nxt = Some p" "base \<le> p" "p < length (nodes v)" "node_asset (nodes v ! p) = nxt"
      unfolding update_ok_def by blast
    define v' where "v' = v\<lparr>updateAmount := (updateAmount v)[nxt := b],
      nodes := (nodes v)[p := (nodes v ! p)\<lparr>node_prev := q\<rparr>]\<rparr>"
    have same: "nodes v' ! k = nodes v ! k" if "k \<noteq> p" for k using that by (simp add: v'_def)
    have ch: "chain (nodes v') q path"
      using chain_same_prefix [OF cur(1,2), of "nodes v'"] D(5) same p by (simp add: v'_def)
    have upd: "update_ok st source amount base len v' a" if "a \<in> set (updatedAssets v)" "a \<noteq> nxt" for a
      using that p D(5) by (intro update_ok_frame [OF D(8) [OF that(1)]]) (auto simp: v'_def nth_list_update)
    have "update_ok st source amount base len v' nxt"
      unfolding update_ok_def using nxt better cur ch D p
      by (intro conjI exI [of _ p] exI [of _ path]) (simp_all add: v'_def)
    moreover have "best_ok st source amount base len v' a" if "a < totalAssets st" "bestAmount v ! a \<noteq> 0" for a
      using D(5) same p by (intro best_ok_frame [OF D(6) [OF that]]) (auto simp: v'_def)
    moreover have "updateAmount v' ! a = bestAmount v ! a" if "a < totalAssets st" "a \<notin> set (updatedAssets v)" for a
    proof -
      have "nxt \<noteq> a" using that True by blast
      then show ?thesis using D(7) [OF that] by (simp add: v'_def)
    qed
    moreover have "updatedAssets v' = updatedAssets v" "bestAmount v' = bestAmount v" "bestPath v' = bestPath v"
        "updatePath v' = updatePath v" "length (updateAmount v') = totalAssets st" "length (nodes v') = length (nodes v)"
      using D by (simp_all add: v'_def)
    ultimately have "round_inv st source amount base len v'"
      using D(1-5) upd unfolding round_inv_def by metis
    then show ?thesis using ch old p by (simp add: set_node_def v'_def)
  qed
qed

lemma round_inv_cong:
  assumes "round_inv st source amount base len v" "bestAmount v' = bestAmount v" "updateAmount v' = updateAmount v"
    "bestPath v' = bestPath v" "updatePath v' = updatePath v" "updatedAssets v' = updatedAssets v" "nodes v' = nodes v"
  shows "round_inv st source amount base len v'"
  using assms unfolding round_inv_def best_ok_def update_ok_def by simp

text \<open>
  The outcome of a step of the search: an error that is allowed, or variables that satisfy
  the invariant, with reported paths that come from routes.
\<close>

definition outcome :: "nat \<Rightarrow> int \<Rightarrow> nat \<Rightarrow> nat \<Rightarrow> (search_error, search_vars) result \<Rightarrow> bool" where
  "outcome source amount base len r \<longleftrightarrow>
     (case r of Inl e \<Rightarrow> err_ok e
      | Inr v \<Rightarrow> round_inv st source amount base len v \<and> (\<forall>p \<in> set (found v). reported st source amount len p))"

lemma outcome_bind:
  assumes "outcome source amount base len r"
    and "\<And>v. r = Inr v \<Longrightarrow> outcome source amount base len (Inr v) \<Longrightarrow> outcome source amount base len (f v)"
  shows "outcome source amount base len (bind_result r f)"
  using assms by (cases r) (auto simp: outcome_def)

lemma route_amount_ok:
  assumes "route st source amount path a" "source < totalAssets st" "amount_ok amount"
  shows "amount_ok a"
  using assms
proof (induction rule: route.induct)
  case (route_hop path a edges x b)
  have "last path < totalAssets st"
    using route_in_range [OF route_hop.hyps(1) route_hop.prems(1)] route_shape [OF route_hop.hyps(1)] last_in_set [of path]
    by blast
  then show ?case using trade_amount route_hop by blast
qed simp

lemma search_update_outcome:
  assumes src: "source < totalAssets st" and v: "outcome source amount base len (Inr v)"
    and cur: "cur < totalAssets st" "bestAmount v ! cur \<noteq> 0" "chain (nodes v) (bestPath v ! cur) path"
      "below (bestPath v ! cur) base" "length path \<le> len"
    and rt: "nxt < totalAssets st \<Longrightarrow> route st source amount (path @ [nxt]) b" and b: "0 < b"
    and key: "nxt < totalAssets st \<or> err_ok IndexPanic"
  shows "outcome source amount base len (search_update st cur (bestPath v ! cur) nxt b v) \<and>
    (\<forall>v'. search_update st cur (bestPath v ! cur) nxt b v = Inr v' \<longrightarrow> bestPath v' = bestPath v \<and> bestAmount v' = bestAmount v)"
proof -
  have inv: "round_inv st source amount base len v" using v by (simp add: outcome_def)
  note D = round_invD [OF inv]
  consider (range) "\<not> nxt < totalAssets st" | (keep) "nxt < totalAssets st" "\<not> betterPathAmount st (updateAmount v ! nxt) b"
    | (better) "nxt < totalAssets st" "betterPathAmount st (updateAmount v ! nxt) b" by blast
  then show ?thesis
  proof cases
    case range
    then show ?thesis using key D by (simp add: search_update_def outcome_def)
  next
    case keep
    then show ?thesis using v D by (simp add: search_update_def)
  next
    case better
    obtain v' where set: "set_node nxt (bestPath v ! cur) (updateAmount v ! nxt = bestAmount v ! nxt) (v\<lparr>updateAmount := (updateAmount v)[nxt := b]\<rparr>) = Inr v'"
      and v': "round_inv st source amount base len v'" "found v' = found v" "bestPath v' = bestPath v" "chain (nodes v') (bestPath v ! cur) path"
      using set_node_inv [OF inv cur(3-5) better b rt [OF better(1)]] by blast
    have best: "bestAmount v' = bestAmount v"
      using set by (auto simp: set_node_def split: if_splits option.splits)
    have np: "node_path (nodes v') (bestPath v' ! cur) = Inr path"
      using chain_node_path [OF v'(4)] below_mono [OF cur(4)] round_invD(5) [OF v'(1)] v'(3) by simp
    have eq: "search_update st cur (bestPath v ! cur) nxt b v =
        (if includePath st nxt b then append_path st (path @ [nxt]) nxt b v' else Inr v')"
      using better D set np by (simp add: search_update_def Let_def)
    note route = rt [OF better(1)]
    show ?thesis
    proof (cases "includePath st nxt b")
      case False
      then show ?thesis using eq v v' best by (simp add: outcome_def)
    next
      case True
      show ?thesis
      proof (cases "appendToPaths st (path @ [nxt]) nxt b")
        case (Inl e)
        then show ?thesis
          using append_error [of "path @ [nxt]" b e] route_in_range [OF route src] eq True
          by (simp add: append_path_def outcome_def)
      next
        case (Inr p)
        have "reported st source amount len p"
          unfolding reported_def using route True Inr cur(5)
          by (intro exI [of _ "path @ [nxt]"] exI [of _ b]) simp
        moreover have "round_inv st source amount base len (v'\<lparr>found := found v' @ [p]\<rparr>)"
          by (rule round_inv_cong [OF v'(1)]) simp_all
        ultimately show ?thesis using eq True Inr v v' best by (simp add: append_path_def outcome_def)
      qed
    qed
  qed
qed

lemma search_edge_outcome:
  assumes src: "source < totalAssets st" "amount_ok amount" and ctx: "\<And>n. ctx n \<Longrightarrow> err_ok ContextError"
    and v: "outcome source amount base len (Inr v)"
    and cur: "cur < totalAssets st" "bestAmount v ! cur \<noteq> 0" and x: "venues st cur = Inr edges" "x \<in> set edges"
  shows "outcome source amount base len (search_edge ctx st lastStep cur (bestAmount v ! cur) (bestPath v ! cur) x v) \<and>
    (\<forall>v'. search_edge ctx st lastStep cur (bestAmount v ! cur) (bestPath v ! cur) x v = Inr v' \<longrightarrow>
       bestPath v' = bestPath v \<and> bestAmount v' = bestAmount v)"
proof -
  define w where "w = v\<lparr>polls := Suc (polls v)\<rparr>"
  have w: "outcome source amount base len (Inr w)" "bestPath w = bestPath v" "bestAmount w = bestAmount v" "nodes w = nodes v"
    using v round_inv_cong [of source amount base len v w] by (simp_all add: outcome_def w_def)
  then obtain path where path: "chain (nodes v) (bestPath v ! cur) path" "below (bestPath v ! cur) base" "path \<noteq> []" "last path = cur"
      "route st source amount path (bestAmount v ! cur)" "length path \<le> len" and base: "base \<le> length (nodes v)"
    using v cur unfolding outcome_def round_inv_def best_ok_def by auto
  have cont: "node_contains (nodes v) (length (nodes v)) (bestPath v ! cur) (edge_key x) = Some (edge_key x \<in> set path)"
    using chain_contains [OF path(1)] below_mono [OF path(2) base] by simp
  have eq: "search_edge ctx st lastStep cur (bestAmount v ! cur) (bestPath v ! cur) x v =
      (if ctx (polls v) then Inl ContextError
       else if lastStep \<and> \<not> isTerminalNode st (edge_key x) \<or> edge_key x \<in> set path then Inr w
       else bind_result (processVenues st cur (bestAmount v ! cur) (edge_value x)) (\<lambda>b.
          if b \<le> 0 then Inr w else search_update st cur (bestPath v ! cur) (edge_key x) b w))"
    using cont unfolding w_def by (simp add: search_edge_def Let_def)
  note aok = route_amount_ok [OF path(5) src]
  show ?thesis
  proof (cases "ctx (polls v) \<or> lastStep \<and> \<not> isTerminalNode st (edge_key x) \<or> edge_key x \<in> set path")
    case True
    show ?thesis
    proof (cases "ctx (polls v)")
      case True
      then show ?thesis using eq ctx by (simp add: outcome_def)
    next
      case False
      then show ?thesis using True w eq by simp
    qed
  next
    case hyp: False
    then have eq': "search_edge ctx st lastStep cur (bestAmount v ! cur) (bestPath v ! cur) x v =
        bind_result (processVenues st cur (bestAmount v ! cur) (edge_value x)) (\<lambda>b.
          if b \<le> 0 then Inr w else search_update st cur (bestPath v ! cur) (edge_key x) b w)"
      using eq by auto
    show ?thesis
    proof (cases "processVenues st cur (bestAmount v ! cur) (edge_value x)")
      case (Inl e)
      then show ?thesis using trade_error [OF cur(1) x aok cur(2)] eq' by (simp add: outcome_def)
    next
      case (Inr b)
      show ?thesis
      proof (cases "b \<le> 0")
        case True
        then show ?thesis using eq' Inr w by simp
      next
        case False
        have "route st source amount (path @ [edge_key x]) b" if "edge_key x < totalAssets st"
          using route_hop [OF path(5) cur(2), of edges x b] that x Inr path False hyp by simp
        note rt = this
        have b: "0 < b" using False by simp
        have up: "outcome source amount base len (search_update st cur (bestPath w ! cur) (edge_key x) b w) \<and>
            (\<forall>v'. search_update st cur (bestPath w ! cur) (edge_key x) b w = Inr v' \<longrightarrow> bestPath v' = bestPath w \<and> bestAmount v' = bestAmount w)"
          by (rule search_update_outcome [OF src(1) w(1) cur(1) _ _ _ path(6) rt b key_range [OF cur(1) x]])
            (simp_all only: w(2-4) cur(2) path(1,2) simp_thms)
        have "search_edge ctx st lastStep cur (bestAmount v ! cur) (bestPath v ! cur) x v =
            search_update st cur (bestPath v ! cur) (edge_key x) b w"
          unfolding eq' Inr using False by simp
        then show ?thesis using up unfolding w(2,3) by metis
      qed
    qed
  qed
qed

lemma search_edges_outcome:
  assumes src: "source < totalAssets st" "amount_ok amount" and ctx: "\<And>n. ctx n \<Longrightarrow> err_ok ContextError"
    and cur: "cur < totalAssets st" "a \<noteq> 0" "venues st cur = Inr edges"
    and "set xs \<subseteq> set edges" "outcome source amount base len (Inr v)" "bestAmount v ! cur = a" "bestPath v ! cur = q"
  shows "outcome source amount base len (search_edges ctx st lastStep cur a q xs v)"
  using assms(7-)
proof (induction xs arbitrary: v)
  case (Cons x xs)
  let ?r = "search_edge ctx st lastStep cur a q x v"
  have step: "outcome source amount base len ?r \<and> (\<forall>v'. ?r = Inr v' \<longrightarrow> bestPath v' = bestPath v \<and> bestAmount v' = bestAmount v)"
    using search_edge_outcome [OF src ctx Cons.prems(2) cur(1) _ cur(3), where x = x] Cons.prems cur(2) by simp
  show ?case unfolding search_edges.simps
  proof (rule outcome_bind)
    fix v' assume v': "?r = Inr v'" "outcome source amount base len (Inr v')"
    then have "bestPath v' = bestPath v" "bestAmount v' = bestAmount v" using step by blast+
    then show "outcome source amount base len (search_edges ctx st lastStep cur a q xs v')"
      using Cons.IH [OF _ v'(2)] Cons.prems(1,3,4) by simp
  qed (use step in blast)
qed simp

lemma search_assets_outcome:
  assumes src: "source < totalAssets st" "amount_ok amount" and ctx: "\<And>n. ctx n \<Longrightarrow> err_ok ContextError"
    and "set as \<subseteq> {..<totalAssets st}" "outcome source amount base len (Inr v)"
  shows "outcome source amount base len (search_assets ctx st lastStep as v)"
  using assms(4,5)
proof (induction "as" arbitrary: v)
  case (Cons a "as")
  have "outcome source amount base len (search_asset ctx st lastStep a v)"
  proof (cases "bestAmount v ! a = 0")
    case False
    then show ?thesis
    proof (cases "venues st a")
      case (Inl e)
      then show ?thesis using venues_error [of a e] Cons.prems False by (simp add: search_asset_def outcome_def)
    next
      case (Inr edges)
      have "a < totalAssets st" using Cons.prems by simp
      from search_edges_outcome [OF src ctx this False Inr subset_refl Cons.prems(2) refl refl]
      show ?thesis using Inr False by (simp add: search_asset_def)
    qed
  qed (use Cons.prems in \<open>simp add: search_asset_def\<close>)
  then show ?case unfolding search_assets.simps
  proof (rule outcome_bind)
    fix v' assume "outcome source amount base len (Inr v')"
    then show "outcome source amount base len (search_assets ctx st lastStep as v')" using Cons by simp
  qed
qed simp

lemma commit_updates_eq:
  "commit_updates v = v\<lparr>bestPath := foldl (\<lambda>ps a. ps[a := updatePath v ! a]) (bestPath v) (updatedAssets v),
     bestAmount := foldl (\<lambda>ns a. ns[a := updateAmount v ! a]) (bestAmount v) (updatedAssets v)\<rparr>"
proof -
  have "foldl (\<lambda>v asset. v\<lparr>bestPath := (bestPath v)[asset := updatePath v ! asset],
                       bestAmount := (bestAmount v)[asset := updateAmount v ! asset]\<rparr>) w xs =
      w\<lparr>bestPath := foldl (\<lambda>ps a. ps[a := updatePath w ! a]) (bestPath w) xs,
        bestAmount := foldl (\<lambda>ns a. ns[a := updateAmount w ! a]) (bestAmount w) xs\<rparr>" for w :: search_vars and xs
    by (induction xs arbitrary: w) simp_all
  then show ?thesis by (simp add: commit_updates_def)
qed

lemma foldl_list_update_nth:
  "length (foldl (\<lambda>ys a. ys[a := f a]) ys xs) = length ys"
  "k < length ys \<Longrightarrow> foldl (\<lambda>ys a. ys[a := f a]) ys xs ! k = (if k \<in> set xs then f k else ys ! k)"
  by (induction xs arbitrary: ys) (auto simp: nth_list_update)

text \<open>At the end of a round the nodes of the round become old.\<close>

lemma commit_updates_inv:
  assumes inv: "round_inv st source amount base len v"
  shows "round_inv st source amount (length (nodes v)) (Suc len) ((commit_updates v)\<lparr>updatedAssets := []\<rparr>)"
proof -
  note D = round_invD [OF inv]
  let ?v = "(commit_updates v)\<lparr>updatedAssets := []\<rparr>"
  have best: "bestAmount ?v ! a = updateAmount v ! a"
    "bestPath ?v ! a = (if a \<in> set (updatedAssets v) then updatePath v ! a else bestPath v ! a)"
    if "a < totalAssets st" for a
    using that D(1-4) D(7) [OF that] by (simp_all add: commit_updates_eq foldl_list_update_nth)
  have "best_ok st source amount (length (nodes v)) (Suc len) ?v a" if a: "a < totalAssets st" "bestAmount ?v ! a \<noteq> 0" for a
  proof (cases "a \<in> set (updatedAssets v)")
    case True
    from D(8) [OF True] obtain p path where p: "updatePath v ! a = Some p" "base \<le> p" "p < length (nodes v)"
        "node_asset (nodes v ! p) = a" "chain (nodes v) (node_prev (nodes v ! p)) path" "below (node_prev (nodes v ! p)) base"
        "route st source amount (path @ [a]) (updateAmount v ! a)" "length path \<le> len"
      unfolding update_ok_def by blast
    have "chain (nodes v) (Some p) (path @ [a])"
      using chain_node [OF p(3) below_mono [OF p(6,2)] p(5)] p(4) by simp
    then show ?thesis unfolding best_ok_def best [OF a(1)] using True p
      by (intro exI [of _ "path @ [a]"]) (simp add: commit_updates_eq)
  next
    case False
    then have "bestAmount v ! a \<noteq> 0" using a best D(7) by simp
    then show ?thesis
      using D(6) [OF a(1)] D(5,7) a(1) False below_mono [of "bestPath v ! a" base "length (nodes v)"]
      unfolding best_ok_def best [OF a(1)] by (auto simp: commit_updates_eq)
  qed
  then show ?thesis using D(1-5) best(1)
    unfolding round_inv_def by (auto simp: commit_updates_eq foldl_list_update_nth)
qed

lemma reported_mono: "reported st source amount len p \<Longrightarrow> len \<le> len' \<Longrightarrow> reported st source amount len' p"
  unfolding reported_def by (meson Suc_le_mono order.trans)

text \<open>
  The rounds from \<open>i\<close> on: with best paths of at most \<open>i + 1\<close> assets, the paths found have at
  most \<open>maxPathLength\<close> hops.
\<close>

lemma search_rounds_outcome:
  assumes src: "source < totalAssets st" "amount_ok amount" and ctx: "\<And>n. ctx n \<Longrightarrow> err_ok ContextError"
    and "i \<le> maxPathLength" "round_inv st source amount base (Suc i) (v\<lparr>updatedAssets := []\<rparr>)"
    and "\<forall>p \<in> set (found v). reported st source amount i p"
  shows "case search_rounds ctx st maxPathLength [i..<maxPathLength] v of
      Inl e \<Rightarrow> err_ok e | Inr v' \<Rightarrow> \<forall>p \<in> set (found v'). reported st source amount maxPathLength p"
  using assms(4-)
proof (induction "maxPathLength - i" arbitrary: i base v)
  case 0
  then show ?case by simp
next
  case (Suc n)
  then have i: "[i..<maxPathLength] = i # [Suc i..<maxPathLength]" by (simp add: upt_conv_Cons)
  let ?r = "search_assets ctx st (i = maxPathLength - 1) [0..<totalAssets st] (v\<lparr>updatedAssets := []\<rparr>)"
  have o: "outcome source amount base (Suc i) ?r"
    using Suc.prems reported_mono [of source amount i _ "Suc i"]
    by (intro search_assets_outcome [OF src ctx]) (auto simp: outcome_def)
  show ?case
  proof (cases ?r)
    case (Inl e)
    then show ?thesis using o by (simp add: i search_round_def outcome_def)
  next
    case (Inr w)
    then have w: "round_inv st source amount base (Suc i) w" "\<forall>p \<in> set (found w). reported st source amount (Suc i) p"
      using o by (simp_all add: outcome_def)
    show ?thesis
    proof (cases "Suc i < maxPathLength")
      case False
      then have "[Suc i..<maxPathLength] = []" "\<not> i < maxPathLength - 1" "Suc i = maxPathLength" using Suc by auto
      then show ?thesis using Inr w by (simp add: i search_round_def)
    next
      case True
      have "found (commit_updates w) = found w" by (simp add: commit_updates_eq)
      with Suc.hyps(1) [of "Suc i" "length (nodes w)" "commit_updates w"] True w commit_updates_inv [OF w(1)] Suc.hyps(2)
      show ?thesis using Inr by (simp add: i search_round_def less_diff_conv)
    qed
  qed
qed

lemma search_init_inv:
  assumes "source < totalAssets st"
  shows "round_inv st source amount 1 1 (search_init st source amount)"
proof -
  have "chain [\<lparr>node_asset = source, node_prev = None\<rparr>] (Some 0) ([] @ [source])"
    using chain_node [of 0 "[\<lparr>node_asset = source, node_prev = None\<rparr>]" "[]"] by (simp add: chain_root)
  then have "best_ok st source amount 1 1 (search_init st source amount) source"
    unfolding best_ok_def using assms
    by (intro exI [of _ "[source]"]) (simp add: search_init_def route_start)
  then show ?thesis using assms
    unfolding round_inv_def by (auto simp: search_init_def nth_list_update split: if_splits)
qed

theorem search_outcome:
  assumes src: "source < totalAssets st \<or> err_ok IndexPanic" "amount_ok amount" and ctx: "\<And>n. ctx n \<Longrightarrow> err_ok ContextError"
  shows "case search ctx st maxPathLength source amount of
      Inl e \<Rightarrow> err_ok e | Inr paths \<Rightarrow> \<forall>p \<in> set paths. reported st source amount maxPathLength p"
proof (cases "source < totalAssets st")
  case True
  let ?v = "search_init st source amount"
  note inv = search_init_inv [OF True, of amount]
  have upd: "?v\<lparr>updatedAssets := []\<rparr> = ?v" by (simp add: search_init_def)
  have start: "case (if includePath st source amount then append_path st [source] source amount ?v else Inr ?v) of
      Inl e \<Rightarrow> err_ok e
    | Inr v \<Rightarrow> round_inv st source amount 1 1 (v\<lparr>updatedAssets := []\<rparr>) \<and> (\<forall>p \<in> set (found v). reported st source amount 0 p)"
  proof (cases "includePath st source amount")
    case False
    then show ?thesis using inv upd by (simp add: search_init_def)
  next
    case inc: True
    show ?thesis
    proof (cases "appendToPaths st [source] source amount")
      case (Inl e)
      then show ?thesis using append_error [of "[source]" amount e] True inc by (simp add: append_path_def)
    next
      case (Inr p)
      have "reported st source amount 0 p"
        unfolding reported_def using inc Inr by (intro exI [of _ "[source]"] exI [of _ amount]) (simp add: route_start)
      moreover have "round_inv st source amount 1 1 (?v\<lparr>found := found ?v @ [p], updatedAssets := []\<rparr>)"
        by (rule round_inv_cong [OF inv]) (simp_all add: search_init_def)
      ultimately show ?thesis using inc Inr by (simp add: append_path_def search_init_def)
    qed
  qed
  show ?thesis
  proof (cases "if includePath st source amount then append_path st [source] source amount ?v else Inr ?v")
    case (Inl e)
    then show ?thesis using start True by (simp add: search_def)
  next
    case (Inr v)
    with start have "round_inv st source amount 1 (Suc 0) (v\<lparr>updatedAssets := []\<rparr>)" "\<forall>p \<in> set (found v). reported st source amount 0 p"
      by simp_all
    from search_rounds_outcome [OF True src(2), of ctx 0 maxPathLength, OF ctx _ this] Inr True show ?thesis
      by (auto simp: search_def bind_result_def split: sum.splits)
  qed
qed (use src in \<open>simp add: search_def\<close>)

end

end
