(* ===== verification/Search_States.thy ===== *)
theory Search_States
  imports Search
begin

text \<open>
  The two search states of \<^verbatim>\<open>exp/orderbook/search.go\<close>: \<^verbatim>\<open>sellingGraphSearchState\<close> walks from
  the destination asset back to the source assets along the offers that sell an asset, and
  \<^verbatim>\<open>buyingGraphSearchState\<close> from the source asset to the destination assets along the offers
  that buy it. Both interpret the interface of the search.
\<close>

section \<open>Definitions\<close>

record sellingGraphSearchState =
  sel_graph :: OrderBookGraph
  destinationAssetString :: string
  destinationAssetAmount :: int
  ignoreOffersFrom :: "AccountId option"
  sel_targetAssets :: "(nat \<times> int) list"
  validateSourceBalance :: bool
  sel_includePools :: bool

record buyingGraphSearchState =
  buy_graph :: OrderBookGraph
  sourceAssetString :: string
  sourceAssetAmount :: int
  buy_targetAssets :: "(nat \<times> bool) list"
  buy_includePools :: bool

text \<open>An indexed read of a slice, which panics out of range.\<close>

definition index_get :: "'a list \<Rightarrow> nat \<Rightarrow> (search_error, 'a) result" where
  "index_get xs i = (if i < length xs then Inr (xs ! i) else Inl IndexPanic)"

fun assetIDsToAssetStrings :: "OrderBookGraph \<Rightarrow> nat list \<Rightarrow> (search_error, string list) result" where
  "assetIDsToAssetStrings g [] = Inr []"
| "assetIDsToAssetStrings g (i # path) =
     bind_result (index_get (idToAssetString g) i) (\<lambda>s.
     bind_result (assetIDsToAssetStrings g path) (\<lambda>result. Inr (s # result)))"

text \<open>The slice \<^verbatim>\<open>path[1 : len(path)-1]\<close>.\<close>

definition interior :: "'a list \<Rightarrow> 'a list" where
  "interior path = take (length path - 2) (drop 1 path)"

definition sel_isTerminalNode :: "sellingGraphSearchState \<Rightarrow> nat \<Rightarrow> bool" where
  "sel_isTerminalNode s currentAsset \<longleftrightarrow> map_of (sel_targetAssets s) currentAsset \<noteq> None"

definition sel_includePath :: "sellingGraphSearchState \<Rightarrow> nat \<Rightarrow> int \<Rightarrow> bool" where
  "sel_includePath s currentAsset currentAssetAmount \<longleftrightarrow>
     (case map_of (sel_targetAssets s) currentAsset of
        None \<Rightarrow> False
      | Some targetAssetBalance \<Rightarrow> \<not> validateSourceBalance s \<or> targetAssetBalance \<ge> currentAssetAmount)"

definition sel_betterPathAmount :: "int \<Rightarrow> int \<Rightarrow> bool" where
  "sel_betterPathAmount currentAmount alternativeAmount \<longleftrightarrow>
     (if currentAmount = 0 then True else if alternativeAmount = 0 then False else alternativeAmount < currentAmount)"

definition sel_appendToPaths ::
    "sellingGraphSearchState \<Rightarrow> nat list \<Rightarrow> nat \<Rightarrow> int \<Rightarrow> (search_error, Path) result" where
  "sel_appendToPaths s path currentAsset currentAssetAmount =
     (let path = (if length path > 2 then reversePath (interior path) else [])
      in bind_result (index_get (idToAssetString (sel_graph s)) currentAsset) (\<lambda>source.
         bind_result (assetIDsToAssetStrings (sel_graph s) path) (\<lambda>nodes.
         Inr \<lparr>SourceAsset = source, SourceAmount = currentAssetAmount,
              DestinationAsset = destinationAssetString s, DestinationAmount = destinationAssetAmount s,
              InteriorNodes = nodes\<rparr>)))"

definition sel_consumeOffers ::
    "sellingGraphSearchState \<Rightarrow> int \<Rightarrow> int \<Rightarrow> OfferEntry list \<Rightarrow> int \<times> search_error option" where
  "sel_consumeOffers s currentAssetAmount currentBestAmount offers =
     (case consumeOffersForSellingAsset offers (ignoreOffersFrom s) currentAssetAmount currentBestAmount of
        (nextAmount, err) \<Rightarrow> (positiveMin currentBestAmount nextAmount, err))"

definition sel_consumePool :: "'u uint256 \<Rightarrow> liquidityPool \<Rightarrow> nat \<Rightarrow> int \<Rightarrow> (pool_error, int) result" where
  "sel_consumePool U pool currentAsset currentAssetAmount =
     makeTrade U pool (getOtherAsset currentAsset pool) tradeTypeExpectation currentAssetAmount"

definition selling_state :: "'u uint256 \<Rightarrow> sellingGraphSearchState \<Rightarrow> searchState" where
  "selling_state U s =
     \<lparr>totalAssets = length (idToAssetString (sel_graph s)), considerPools = sel_includePools s,
      isTerminalNode = sel_isTerminalNode s, includePath = sel_includePath s,
      betterPathAmount = sel_betterPathAmount, appendToPaths = sel_appendToPaths s,
      venues = index_get (venuesForSellingAsset (sel_graph s)),
      consumeOffers = sel_consumeOffers s, consumePool = sel_consumePool U\<rparr>"

definition buy_isTerminalNode :: "buyingGraphSearchState \<Rightarrow> nat \<Rightarrow> bool" where
  "buy_isTerminalNode s currentAsset \<longleftrightarrow> map_of (buy_targetAssets s) currentAsset = Some True"

definition buy_includePath :: "buyingGraphSearchState \<Rightarrow> nat \<Rightarrow> int \<Rightarrow> bool" where
  "buy_includePath s currentAsset currentAssetAmount \<longleftrightarrow> map_of (buy_targetAssets s) currentAsset = Some True"

definition buy_betterPathAmount :: "int \<Rightarrow> int \<Rightarrow> bool" where
  "buy_betterPathAmount currentAmount alternativeAmount \<longleftrightarrow> alternativeAmount > currentAmount"

definition buy_appendToPaths ::
    "buyingGraphSearchState \<Rightarrow> nat list \<Rightarrow> nat \<Rightarrow> int \<Rightarrow> (search_error, Path) result" where
  "buy_appendToPaths s path currentAsset currentAssetAmount =
     (let path = (if length path > 2 then interior path else [])
      in bind_result (assetIDsToAssetStrings (buy_graph s) path) (\<lambda>nodes.
         bind_result (index_get (idToAssetString (buy_graph s)) currentAsset) (\<lambda>dest.
         Inr \<lparr>SourceAsset = sourceAssetString s, SourceAmount = sourceAssetAmount s,
              DestinationAsset = dest, DestinationAmount = currentAssetAmount, InteriorNodes = nodes\<rparr>)))"

definition buy_consumeOffers :: "int \<Rightarrow> int \<Rightarrow> OfferEntry list \<Rightarrow> int \<times> search_error option" where
  "buy_consumeOffers currentAssetAmount currentBestAmount offers =
     (case consumeOffersForBuyingAsset offers currentAssetAmount of
        (nextAmount, err) \<Rightarrow> (max nextAmount currentBestAmount, err))"

definition buy_consumePool :: "'u uint256 \<Rightarrow> liquidityPool \<Rightarrow> nat \<Rightarrow> int \<Rightarrow> (pool_error, int) result" where
  "buy_consumePool U pool currentAsset currentAssetAmount = makeTrade U pool currentAsset tradeTypeDeposit currentAssetAmount"

definition buying_state :: "'u uint256 \<Rightarrow> buyingGraphSearchState \<Rightarrow> searchState" where
  "buying_state U s =
     \<lparr>totalAssets = length (idToAssetString (buy_graph s)), considerPools = buy_includePools s,
      isTerminalNode = buy_isTerminalNode s, includePath = buy_includePath s,
      betterPathAmount = buy_betterPathAmount, appendToPaths = buy_appendToPaths s,
      venues = index_get (venuesForBuyingAsset (buy_graph s)),
      consumeOffers = buy_consumeOffers, consumePool = buy_consumePool U\<rparr>"

text \<open>The errors that are not a walk without end or a nil pointer.\<close>

definition no_walk_panic :: "search_error \<Rightarrow> bool" where
  "no_walk_panic e \<longleftrightarrow> e \<noteq> EndlessWalk \<and> e \<noteq> NilPointer"

text \<open>An order book whose offers have positive 64-bit amounts, as in the ledger.\<close>

definition ledger_book :: "OrderBookGraph \<Rightarrow> bool" where
  "ledger_book g \<longleftrightarrow> graph_inv g \<and>
     (\<forall>i v. book_offers (book_of g) i = Some v \<longrightarrow> 0 < offer_Amount v \<and> in_int64 (offer_Amount v))"

definition positive_amount :: "int \<Rightarrow> bool" where
  "positive_amount n \<longleftrightarrow> 0 < n \<and> in_int64 n"

section \<open>Errors of one trade\<close>

lemma consume_selling_loop_error:
  "consume_selling_loop vs ign need tot = (r, Some e) \<Longrightarrow> e = errSoldTooMuch \<or> (\<exists>p. e = PriceError p)"
  by (induction vs ign need tot rule: consume_selling_loop.induct)
    (auto simp: Let_def split: if_splits sum.splits prod.splits)

lemma consume_buying_loop_error:
  "consume_buying_loop vs need tot = (r, Some e) \<Longrightarrow> e = errSoldTooMuch \<or> (\<exists>p. e = PriceError p)"
proof (induction vs need tot rule: consume_buying_loop.induct)
  case (2 v vs need tot)
  show ?case
  proof (cases "consume_buying_offer v need tot")
    case (Inl x)
    then show ?thesis using 2
      by (auto simp: consume_buying_offer_def consume_buying_rest_def Let_def split: if_splits sum.splits prod.splits)
  next
    case (Inr y)
    then show ?thesis using 2 by (cases y) auto
  qed
qed simp

lemma consume_loops_in_int64:
  "in_int64 (fst (consume_selling_loop vs ign need tot))"
  "in_int64 (fst (consume_buying_loop vs need tot))"
proof -
  have m: "in_int64 (-1)" by (simp add: in_int64_def)
  show "in_int64 (fst (consume_selling_loop vs ign need tot))"
    by (induction vs ign need tot rule: consume_selling_loop.induct)
      (auto simp: Let_def m split: sum.splits prod.splits)
  have offer: "in_int64 (fst r)" if "consume_buying_offer v need tot = Inl r" for v need tot r
    using that by (auto simp: consume_buying_offer_def consume_buying_rest_def Let_def m split: if_splits sum.splits prod.splits)
  show "in_int64 (fst (consume_buying_loop vs need tot))"
    by (induction vs need tot rule: consume_buying_loop.induct) (auto simp: m offer split: sum.splits)
qed

lemma processVenues_error:
  assumes "processVenues st a n ven = Inl e"
  shows "n = 0 \<and> e = errAssetAmountIsZero \<or> (ven_offers ven \<noteq> [] \<and> (\<exists>r. consumeOffers st n 0 (ven_offers ven) = (r, Some e)))"
  using assms by (auto simp: processVenues_def Let_def split: if_splits prod.splits option.splits sum.splits)

lemma makeTrade_in_int64: "makeTrade U pool a t n = Inr r \<Longrightarrow> in_int64 r"
proof -
  have "in_int64 (fst (CalculatePoolPayout U x y n f s))" "in_int64 (fst (CalculatePoolExpectation U x y n f s))" for x y f s
    by (simp_all add: CalculatePoolPayout_def CalculatePoolExpectation_def Let_def split_def in_int64_def [of 0])
  then show "makeTrade U pool a t n = Inr r \<Longrightarrow> in_int64 r"
    by (auto simp: makeTrade_def Let_def split: sum.splits if_splits trade_type.splits prod.splits) (metis fst_conv)+
qed

lemma index_get_simps [simp]:
  "i < length xs \<Longrightarrow> index_get xs i = Inr (xs ! i)"
  "index_get xs i = Inl e \<longleftrightarrow> \<not> i < length xs \<and> e = IndexPanic"
  "index_get xs i = Inr y \<longleftrightarrow> i < length xs \<and> xs ! i = y"
  by (auto simp: index_get_def)

lemma assetIDsToAssetStrings_eq:
  "assetIDsToAssetStrings g path =
     (if set path \<subseteq> {..<length (idToAssetString g)} then Inr (map (\<lambda>i. idToAssetString g ! i) path) else Inl IndexPanic)"
  by (induction path) (auto simp: index_get_def)

lemma interior_subset: "set (interior path) \<subseteq> set path"
  unfolding interior_def by (meson set_take_subset set_drop_subset order.trans)

lemma append_errors:
  "sel_appendToPaths s path a n = Inl e \<Longrightarrow> e = IndexPanic"
  "buy_appendToPaths t path a n = Inl e \<Longrightarrow> e = IndexPanic"
  by (auto simp: sel_appendToPaths_def buy_appendToPaths_def assetIDsToAssetStrings_eq Let_def bind_result_def
      split: if_splits sum.splits)

lemma append_total:
  assumes "path \<noteq> []"
  shows "set path \<subseteq> {..<length (idToAssetString (sel_graph s))} \<Longrightarrow> \<exists>p. sel_appendToPaths s path (last path) n = Inr p"
    "set path \<subseteq> {..<length (idToAssetString (buy_graph t))} \<Longrightarrow> \<exists>p. buy_appendToPaths t path (last path) n = Inr p"
  using assms interior_subset [of path] last_in_set [OF assms]
  by (auto simp: sel_appendToPaths_def buy_appendToPaths_def assetIDsToAssetStrings_eq Let_def subset_iff)

lemma consumeOffers_errors:
  "sel_consumeOffers s n best vs = (r, Some e) \<Longrightarrow> no_walk_panic e"
  "buy_consumeOffers n best vs = (r, Some e) \<Longrightarrow> no_walk_panic e"
  by (auto simp: sel_consumeOffers_def buy_consumeOffers_def consumeOffersForSellingAsset_def consumeOffersForBuyingAsset_def
      no_walk_panic_def split: if_splits prod.splits dest: consume_selling_loop_error consume_buying_loop_error)

lemma consumeOffers_in_int64:
  "in_int64 best \<Longrightarrow> in_int64 (fst (sel_consumeOffers s n best vs))"
  "in_int64 best \<Longrightarrow> in_int64 (fst (buy_consumeOffers n best vs))"
  using consume_loops_in_int64(1) [of vs "ignoreOffersFrom s" n 0] consume_loops_in_int64(2) [of vs n 0]
  by (auto simp: sel_consumeOffers_def buy_consumeOffers_def consumeOffersForSellingAsset_def consumeOffersForBuyingAsset_def
      positiveMin_def in_int64_def [of 0] max_def split: prod.splits)

lemma processVenues_in_int64:
  assumes "\<And>p a n r. consumePool st p a n = Inr r \<Longrightarrow> in_int64 r"
    and "\<And>n best vs. in_int64 best \<Longrightarrow> in_int64 (fst (consumeOffers st n best vs))"
    and "processVenues st a n ven = Inr r"
  shows "in_int64 r"
proof -
  define pool where "pool = (if considerPools st \<and> pool_set (ven_pool ven)
    then case consumePool st (ven_pool ven) a n of Inl _ \<Rightarrow> 0 | Inr amount \<Rightarrow> amount else 0)"
  have "in_int64 pool" using assms(1) by (auto simp: pool_def in_int64_def [of 0] split: sum.splits)
  then have "in_int64 (fst (consumeOffers st n pool (ven_offers ven)))" by (rule assms(2))
  then show ?thesis using assms(3)
    by (auto simp: processVenues_def pool_def [symmetric] Let_def in_int64_def [of "-1"] split: if_splits prod.splits option.splits)
qed

section \<open>Both states implement the interface\<close>

lemma better_laws:
  "sel_betterPathAmount a b \<Longrightarrow> 0 < b \<Longrightarrow> a \<noteq> b"
  "sel_betterPathAmount a b \<Longrightarrow> sel_betterPathAmount b c \<Longrightarrow> 0 < b \<Longrightarrow> 0 < c \<Longrightarrow> sel_betterPathAmount a c"
  "buy_betterPathAmount a b \<Longrightarrow> a \<noteq> b"
  "buy_betterPathAmount a b \<Longrightarrow> buy_betterPathAmount b c \<Longrightarrow> buy_betterPathAmount a c"
  by (auto simp: sel_betterPathAmount_def buy_betterPathAmount_def split: if_splits)

interpretation selling: search_state "selling_state U s" "\<lambda>_. True" no_walk_panic for U s
proof
  fix a n x edges e
  assume "processVenues (selling_state U s) a n (edge_value x) = Inl e"
  then show "no_walk_panic e"
    by (auto dest!: processVenues_error consumeOffers_errors simp: selling_state_def) (simp add: no_walk_panic_def)
qed (auto simp: selling_state_def no_walk_panic_def dest: better_laws(1,2) append_errors)

interpretation buying: search_state "buying_state U s" "\<lambda>_. True" no_walk_panic for U s
proof
  fix a n x edges e
  assume "processVenues (buying_state U s) a n (edge_value x) = Inl e"
  then show "no_walk_panic e"
    by (auto dest!: processVenues_error consumeOffers_errors simp: buying_state_def) (simp add: no_walk_panic_def)
qed (auto simp: buying_state_def no_walk_panic_def dest: better_laws(3,4) append_errors)

section \<open>Searching a consistent order book\<close>

lemma venue_member: "edge_inv e \<Longrightarrow> x \<in> set e \<Longrightarrow> venue e (edge_key x) = Some (edge_value x)"
  unfolding venue_def by (auto simp: edge_inv_def comp_def intro!: map_of_is_SomeI)

lemma edge_member_observers:
  assumes "edge_inv e" "x \<in> set e"
  shows "offers_of e (edge_key x) = ven_offers (edge_value x)"
    "pool_of e (edge_key x) = (if pool_set (ven_pool (edge_value x)) then Some (ven_pool (edge_value x)) else None)"
    "ven_offers (edge_value x) \<noteq> [] \<or> pool_set (ven_pool (edge_value x))"
  using venue_member [OF assms] assms
  by (simp_all add: offers_of_venue pool_of_venue edge_inv_def edge_ok_def list_all_iff Let_def)

text \<open>An edge of either table leads to an asset of the graph, over the offers of that pair.\<close>

lemma selling_edge:
  assumes "base_inv g" "a < length (venuesForSellingAsset g)" "x \<in> set (venuesForSellingAsset g ! a)"
  shows "edge_key x < length (idToAssetString g)" "ven_offers (edge_value x) = sell_offers g a (edge_key x)" "edge_key x \<noteq> a"
    "idToAssetString g ! edge_key x \<noteq> []"
proof -
  note P = base_inv_parts [OF assms(1)]
  have e: "edge_inv (venuesForSellingAsset g ! a)" using P(5) assms(2) by (simp add: list_all_length)
  note m = edge_member_observers [OF e assms(3)]
  show o: "ven_offers (edge_value x) = sell_offers g a (edge_key x)"
    using m(1) assms(2) by (simp add: sell_offers_def table_at_def)
  have "sell_offers g a (edge_key x) \<noteq> [] \<or> sell_pool g a (edge_key x) \<noteq> None"
    using m(2,3) o assms(2) by (auto simp: sell_pool_def table_at_def)
  then show "edge_key x < length (idToAssetString g)" "edge_key x \<noteq> a" "idToAssetString g ! edge_key x \<noteq> []"
    using named_of_offer [OF P(3)] named_of_pool [OF P(4)] by blast+
qed

lemma buying_edge:
  assumes "base_inv g" "a < length (venuesForBuyingAsset g)" "x \<in> set (venuesForBuyingAsset g ! a)"
  shows "edge_key x < length (idToAssetString g)" "ven_offers (edge_value x) = sell_offers g (edge_key x) a" "edge_key x \<noteq> a"
    "idToAssetString g ! edge_key x \<noteq> []"
proof -
  note P = base_inv_parts [OF assms(1)]
  have e: "edge_inv (venuesForBuyingAsset g ! a)" using P(6) assms(2) by (simp add: list_all_length)
  note m = edge_member_observers [OF e assms(3)]
  show o: "ven_offers (edge_value x) = sell_offers g (edge_key x) a"
    using m(1) assms(2) P(9) by (simp add: buy_offers_def table_at_def)
  have "sell_offers g (edge_key x) a \<noteq> [] \<or> sell_pool g (edge_key x) a \<noteq> None"
    using m(2,3) o assms(2) P(10) by (auto simp: buy_pool_def table_at_def)
  then show "edge_key x < length (idToAssetString g)" "edge_key x \<noteq> a" "idToAssetString g ! edge_key x \<noteq> []"
    using named_of_offer [OF P(3)] named_of_pool [OF P(4)] by blast+
qed

lemma ledger_book_offers:
  assumes "ledger_book g"
  shows "list_all ledger_offer (sell_offers g s b)"
  unfolding list_all_iff
proof
  fix v assume v: "v \<in> set (sell_offers g s b)"
  have b: "base_inv g" using assms by (simp add: ledger_book_def graph_inv_def)
  have "abs_offers g (OfferId v) = Some v" using abs_offers_iff [OF b] v by blast
  then have "0 < offer_Amount v" "in_int64 (offer_Amount v)" using assms by (auto simp: ledger_book_def book_of_def)
  moreover have "valid_price (offer_Price v)"
    using base_inv_parts(3) [OF b] v unfolding offers_ok_def valid_offer_def by blast
  ultimately show "ledger_offer v" by (simp add: ledger_offer_def)
qed

lemma consume_total:
  assumes "list_all ledger_offer vs" "vs \<noteq> []" "positive_amount n"
  shows "snd (sel_consumeOffers s n best vs) = None" "snd (buy_consumeOffers n best vs) = None"
  using consume_selling_loop_spec [OF assms(1), of n "ignoreOffersFrom s" 0] consume_buying_loop_spec [OF assms(1), of n 0] assms(2,3)
  by (auto simp: sel_consumeOffers_def buy_consumeOffers_def consumeOffersForSellingAsset_def consumeOffersForBuyingAsset_def
      positive_amount_def split: prod.splits)

lemma trade_total:
  assumes "list_all ledger_offer (ven_offers ven)" "positive_amount n"
  shows "processVenues (selling_state U s) a n ven \<noteq> Inl e" "processVenues (buying_state U t) a n ven \<noteq> Inl e"
proof -
  have n: "n \<noteq> 0" using assms(2) by (simp add: positive_amount_def)
  show "processVenues (selling_state U s) a n ven \<noteq> Inl e"
  proof
    assume "processVenues (selling_state U s) a n ven = Inl e"
    from processVenues_error [OF this] n obtain r where "ven_offers ven \<noteq> []" "sel_consumeOffers s n 0 (ven_offers ven) = (r, Some e)"
      by (auto simp: selling_state_def)
    then show False using consume_total(1) [OF assms(1) _ assms(2), of s 0] by simp
  qed
  show "processVenues (buying_state U t) a n ven \<noteq> Inl e"
  proof
    assume "processVenues (buying_state U t) a n ven = Inl e"
    from processVenues_error [OF this] n obtain r where "ven_offers ven \<noteq> []" "buy_consumeOffers n 0 (ven_offers ven) = (r, Some e)"
      by (auto simp: buying_state_def)
    then show False using consume_total(2) [OF assms(1) _ assms(2), of 0] by simp
  qed
qed

lemma trade_in_int64:
  "processVenues (selling_state U s) a n ven = Inr r \<Longrightarrow> in_int64 r"
  "processVenues (buying_state U t) a n ven = Inr r \<Longrightarrow> in_int64 r"
  by (erule processVenues_in_int64 [rotated 2];
      auto simp: selling_state_def buying_state_def sel_consumePool_def buy_consumePool_def
        intro: makeTrade_in_int64 consumeOffers_in_int64)+

lemma selling_search_state:
  assumes "ledger_book (sel_graph s)"
  shows "search_state (selling_state U s) positive_amount E"
proof -
  have b: "base_inv (sel_graph s)" using assms by (simp add: ledger_book_def graph_inv_def)
  note P = base_inv_parts [OF b]
  show ?thesis
  proof
    fix a edges x n e r
    assume "a < totalAssets (selling_state U s)" "venues (selling_state U s) a = Inr edges" "x \<in> set edges"
    then have x: "a < length (venuesForSellingAsset (sel_graph s))" "x \<in> set (venuesForSellingAsset (sel_graph s) ! a)"
      by (auto simp: selling_state_def)
    note edge = selling_edge [OF b x]
    show "edge_key x < totalAssets (selling_state U s) \<or> E IndexPanic" using edge by (simp add: selling_state_def)
    show "E e" if "positive_amount n" "processVenues (selling_state U s) a n (edge_value x) = Inl e"
      using trade_total(1) that ledger_book_offers [OF assms] edge(2) by metis
    show "positive_amount r" if "processVenues (selling_state U s) a n (edge_value x) = Inr r" "0 < r"
      using trade_in_int64(1) [OF that(1)] that(2) by (simp add: positive_amount_def)
  next
    fix ids b e
    assume "ids \<noteq> []" "set ids \<subseteq> {..<totalAssets (selling_state U s)}" "appendToPaths (selling_state U s) ids (last ids) b = Inl e"
    then show "E e" using append_total(1) [of ids s b] by (auto simp: selling_state_def)
  qed (auto simp: selling_state_def P dest: better_laws(1,2))
qed

lemma buying_search_state:
  assumes "ledger_book (buy_graph s)"
  shows "search_state (buying_state U s) positive_amount E"
proof -
  have b: "base_inv (buy_graph s)" using assms by (simp add: ledger_book_def graph_inv_def)
  note P = base_inv_parts [OF b]
  show ?thesis
  proof
    fix a edges x n e r
    assume "a < totalAssets (buying_state U s)" "venues (buying_state U s) a = Inr edges" "x \<in> set edges"
    then have x: "a < length (venuesForBuyingAsset (buy_graph s))" "x \<in> set (venuesForBuyingAsset (buy_graph s) ! a)"
      by (auto simp: buying_state_def)
    note edge = buying_edge [OF b x]
    show "edge_key x < totalAssets (buying_state U s) \<or> E IndexPanic" using edge by (simp add: buying_state_def)
    show "E e" if "positive_amount n" "processVenues (buying_state U s) a n (edge_value x) = Inl e"
      using trade_total(2) that ledger_book_offers [OF assms] edge(2) by metis
    show "positive_amount r" if "processVenues (buying_state U s) a n (edge_value x) = Inr r" "0 < r"
      using trade_in_int64(2) [OF that(1)] that(2) by (simp add: positive_amount_def)
  next
    fix ids b e
    assume "ids \<noteq> []" "set ids \<subseteq> {..<totalAssets (buying_state U s)}" "appendToPaths (buying_state U s) ids (last ids) b = Inl e"
    then show "E e" using append_total(2) [of ids s b] by (auto simp: buying_state_def)
  qed (auto simp: buying_state_def P dest: better_laws(3,4))
qed

end
