(* ===== verification/Find_Paths.thy ===== *)
theory Find_Paths
  imports Search_States
begin

text \<open>
  \<^verbatim>\<open>FindPaths\<close> and \<^verbatim>\<open>FindFixedPaths\<close> of \<^verbatim>\<open>exp/orderbook/graph.go\<close>: the searches from the
  destination and from the source, and the sorting and filtering of what they find.
  \<^verbatim>\<open>sort.Sort\<close> promises a sorted permutation but no particular order of equal elements, so
  it is a parameter with that contract.
\<close>

section \<open>Definitions\<close>

datatype sortByType = sortBySourceAsset | sortByDestinationAsset | sortByOther string

datatype find_error = CouldNotDeterminePaths search_error | InvalidSortByType

text \<open>The map from source asset ids to balances; assets that are not in the graph are left out.\<close>

fun source_assets_map ::
    "OrderBookGraph \<Rightarrow> Asset list \<Rightarrow> int list \<Rightarrow> (nat \<times> int) list \<Rightarrow> (search_error, (nat \<times> int) list) result" where
  "source_assets_map g [] balances m = Inr m"
| "source_assets_map g (sourceAsset # rest) balances m =
     (case map_of (assetStringToID g) (Asset_String sourceAsset) of
        None \<Rightarrow> source_assets_map g rest (tl balances) m
      | Some sourceAssetID \<Rightarrow>
         (case balances of
            [] \<Rightarrow> Inl IndexPanic
          | balance # others \<Rightarrow> source_assets_map g rest others (AList.update sourceAssetID balance m)))"

definition findPathsWithLock ::
    "'u uint256 \<Rightarrow> (nat \<Rightarrow> bool) \<Rightarrow> OrderBookGraph \<Rightarrow> nat \<Rightarrow> Asset \<Rightarrow> int \<Rightarrow> AccountId option \<Rightarrow> Asset list \<Rightarrow> int list \<Rightarrow>
     bool \<Rightarrow> bool \<Rightarrow> (search_error, Path list) result \<times> nat" where
  "findPathsWithLock U ctx g maxPathLength destinationAsset destinationAmount sourceAccountID sourceAssets
      sourceAssetBalances validateBalance includePools =
     (let destinationString = Asset_String destinationAsset in
      case source_assets_map g sourceAssets sourceAssetBalances [] of
        Inl err \<Rightarrow> (Inl err, lastLedger g)
      | Inr sourceAssetsMap \<Rightarrow>
         (case map_of (assetStringToID g) destinationString of
            None \<Rightarrow> (Inr [], lastLedger g)
          | Some destinationAssetID \<Rightarrow>
             if length sourceAssetsMap = 0 then (Inr [], lastLedger g)
             else
               let state = \<lparr>sel_graph = g, destinationAssetString = destinationString,
                     destinationAssetAmount = destinationAmount, ignoreOffersFrom = sourceAccountID,
                     sel_targetAssets = sourceAssetsMap, validateSourceBalance = validateBalance,
                     sel_includePools = includePools\<rparr>
               in (search ctx (selling_state U state) maxPathLength destinationAssetID destinationAmount, lastLedger g)))"

fun target_assets :: "OrderBookGraph \<Rightarrow> Asset list \<Rightarrow> (nat \<times> bool) list \<Rightarrow> (nat \<times> bool) list" where
  "target_assets g [] m = m"
| "target_assets g (destinationAsset # rest) m =
     (case map_of (assetStringToID g) (Asset_String destinationAsset) of
        None \<Rightarrow> target_assets g rest m
      | Some destinationAssetID \<Rightarrow> target_assets g rest (AList.update destinationAssetID True m))"

definition findFixedPathsWithLock ::
    "'u uint256 \<Rightarrow> (nat \<Rightarrow> bool) \<Rightarrow> OrderBookGraph \<Rightarrow> nat \<Rightarrow> Asset \<Rightarrow> int \<Rightarrow> Asset list \<Rightarrow> bool \<Rightarrow>
     (search_error, Path list) result \<times> nat" where
  "findFixedPathsWithLock U ctx g maxPathLength sourceAsset amountToSpend destinationAssets includePools =
     (let target = target_assets g destinationAssets [];
          sourceString = Asset_String sourceAsset
      in case map_of (assetStringToID g) sourceString of
           None \<Rightarrow> (Inr [], lastLedger g)
         | Some sourceAssetID \<Rightarrow>
            if length target = 0 then (Inr [], lastLedger g)
            else
              let state = \<lparr>buy_graph = g, sourceAssetString = sourceString, sourceAssetAmount = amountToSpend,
                    buy_targetAssets = target, buy_includePools = includePools\<rparr>
              in (search ctx (buying_state U state) maxPathLength sourceAssetID amountToSpend, lastLedger g))"

definition compareSourceAsset :: "Path \<Rightarrow> Path \<Rightarrow> bool" where
  "compareSourceAsset p q =
     (if SourceAsset p = SourceAsset q
      then if SourceAmount p = SourceAmount q then length (InteriorNodes p) < length (InteriorNodes q)
           else SourceAmount p < SourceAmount q
      else lex_less of_char (SourceAsset p) (SourceAsset q))"

definition compareDestinationAsset :: "Path \<Rightarrow> Path \<Rightarrow> bool" where
  "compareDestinationAsset p q =
     (if DestinationAsset p = DestinationAsset q
      then if DestinationAmount p = DestinationAmount q then length (InteriorNodes p) < length (InteriorNodes q)
           else DestinationAmount p > DestinationAmount q
      else lex_less of_char (DestinationAsset p) (DestinationAsset q))"

definition sourceAssetEquals :: "Path \<Rightarrow> Path \<Rightarrow> bool" where
  "sourceAssetEquals p otherPath \<longleftrightarrow> SourceAsset p = SourceAsset otherPath"

definition destinationAssetEquals :: "Path \<Rightarrow> Path \<Rightarrow> bool" where
  "destinationAssetEquals p otherPath \<longleftrightarrow> DestinationAsset p = DestinationAsset otherPath"

text \<open>The loop that keeps at most \<^verbatim>\<open>maxPathsPerAsset\<close> paths of each run of equal assets.\<close>

fun filter_paths :: "(Path \<Rightarrow> Path \<Rightarrow> bool) \<Rightarrow> int \<Rightarrow> Path list \<Rightarrow> Path list \<Rightarrow> int \<Rightarrow> Path list" where
  "filter_paths assetsEqual maxPathsPerAsset [] filtered countForAsset = filtered"
| "filter_paths assetsEqual maxPathsPerAsset (entry # rest) filtered countForAsset =
     (if length filtered = 0 \<or> \<not> assetsEqual (filtered ! (length filtered - 1)) entry
      then filter_paths assetsEqual maxPathsPerAsset rest (filtered @ [entry]) 1
      else if countForAsset < maxPathsPerAsset
      then filter_paths assetsEqual maxPathsPerAsset rest (filtered @ [entry]) (countForAsset + 1)
      else filter_paths assetsEqual maxPathsPerAsset rest filtered countForAsset)"

definition sortAndFilterPaths ::
    "((Path \<Rightarrow> Path \<Rightarrow> bool) \<Rightarrow> Path list \<Rightarrow> Path list) \<Rightarrow> Path list \<Rightarrow> int \<Rightarrow> sortByType \<Rightarrow> (find_error, Path list) result" where
  "sortAndFilterPaths sortSort allPaths maxPathsPerAsset sortType =
     (case sortType of
        sortBySourceAsset \<Rightarrow>
          Inr (filter_paths sourceAssetEquals maxPathsPerAsset (sortSort compareSourceAsset allPaths) [] 0)
      | sortByDestinationAsset \<Rightarrow>
          Inr (filter_paths destinationAssetEquals maxPathsPerAsset (sortSort compareDestinationAsset allPaths) [] 0)
      | sortByOther _ \<Rightarrow> Inl InvalidSortByType)"

definition FindPaths ::
    "((Path \<Rightarrow> Path \<Rightarrow> bool) \<Rightarrow> Path list \<Rightarrow> Path list) \<Rightarrow> 'u uint256 \<Rightarrow> (nat \<Rightarrow> bool) \<Rightarrow> OrderBookGraph \<Rightarrow> nat \<Rightarrow> Asset \<Rightarrow> int \<Rightarrow>
     AccountId option \<Rightarrow> Asset list \<Rightarrow> int list \<Rightarrow> bool \<Rightarrow> int \<Rightarrow> bool \<Rightarrow> (find_error, Path list) result \<times> nat" where
  "FindPaths sortSort U ctx g maxPathLength destinationAsset destinationAmount sourceAccountID sourceAssets
      sourceAssetBalances validateBalance maxAssetsPerPath includePools =
     (case findPathsWithLock U ctx g maxPathLength destinationAsset destinationAmount sourceAccountID sourceAssets
             sourceAssetBalances validateBalance includePools of
        (Inl err, ledger) \<Rightarrow> (Inl (CouldNotDeterminePaths err), ledger)
      | (Inr paths, ledger) \<Rightarrow> (sortAndFilterPaths sortSort paths maxAssetsPerPath sortBySourceAsset, ledger))"

definition FindFixedPaths ::
    "((Path \<Rightarrow> Path \<Rightarrow> bool) \<Rightarrow> Path list \<Rightarrow> Path list) \<Rightarrow> 'u uint256 \<Rightarrow> (nat \<Rightarrow> bool) \<Rightarrow> OrderBookGraph \<Rightarrow> nat \<Rightarrow> Asset \<Rightarrow> int \<Rightarrow>
     Asset list \<Rightarrow> int \<Rightarrow> bool \<Rightarrow> (find_error, Path list) result \<times> nat" where
  "FindFixedPaths sortSort U ctx g maxPathLength sourceAsset amountToSpend destinationAssets maxAssetsPerPath includePools =
     (case findFixedPathsWithLock U ctx g maxPathLength sourceAsset amountToSpend destinationAssets includePools of
        (Inl err, ledger) \<Rightarrow> (Inl (CouldNotDeterminePaths err), ledger)
      | (Inr paths, ledger) \<Rightarrow> (sortAndFilterPaths sortSort paths maxAssetsPerPath sortByDestinationAsset, ledger))"

text \<open>
  A strict weak order, and the contract of \<^verbatim>\<open>sort.Sort\<close>. The insertion sort of the standard
  library, which sorts short slices, moves each element to the left past larger ones; with
  the sorted part in reverse this is an insertion at the head.
\<close>

definition strict_weak :: "('a \<Rightarrow> 'a \<Rightarrow> bool) \<Rightarrow> bool" where
  "strict_weak lt \<longleftrightarrow> (\<forall>a b. lt a b \<longrightarrow> \<not> lt b a) \<and> (\<forall>a b c. lt a c \<longrightarrow> lt a b \<or> lt b c)"

fun move_left :: "('a \<Rightarrow> 'a \<Rightarrow> bool) \<Rightarrow> 'a \<Rightarrow> 'a list \<Rightarrow> 'a list" where
  "move_left lt x [] = [x]"
| "move_left lt x (y # ys) = (if lt x y then y # move_left lt x ys else x # y # ys)"

definition insertionSort :: "('a \<Rightarrow> 'a \<Rightarrow> bool) \<Rightarrow> 'a list \<Rightarrow> 'a list" where
  "insertionSort lt xs = rev (foldl (\<lambda>done x. move_left lt x done) [] xs)"

text \<open>What paths are sorted and grouped by.\<close>

definition path_less :: "sortByType \<Rightarrow> Path \<Rightarrow> Path \<Rightarrow> bool" where
  "path_less t = (if t = sortBySourceAsset then compareSourceAsset else compareDestinationAsset)"

definition path_key :: "sortByType \<Rightarrow> Path \<Rightarrow> string" where
  "path_key t = (if t = sortBySourceAsset then SourceAsset else DestinationAsset)"

text \<open>The assets along a path, from the source to the destination.\<close>

definition path_assets :: "Path \<Rightarrow> string list" where
  "path_assets p =
     (if InteriorNodes p = [] \<and> SourceAsset p = DestinationAsset p then [SourceAsset p]
      else SourceAsset p # InteriorNodes p @ [DestinationAsset p])"

text \<open>
  What a path to a fixed destination amount has to satisfy, and one from a fixed source
  amount: the given end, an end among the given assets with a positive amount, no asset
  twice, at most \<open>hops\<close> trades, and the amount that trading along the path gives.
\<close>

definition payment_path ::
    "'u uint256 \<Rightarrow> OrderBookGraph \<Rightarrow> nat \<Rightarrow> Asset \<Rightarrow> int \<Rightarrow> AccountId option \<Rightarrow> Asset list \<Rightarrow> int list \<Rightarrow> bool \<Rightarrow> bool \<Rightarrow> Path \<Rightarrow> bool" where
  "payment_path U g hops dest amount acc sources balances validate pools p \<longleftrightarrow>
     DestinationAsset p = Asset_String dest \<and> DestinationAmount p = amount \<and> 0 < SourceAmount p \<and>
     distinct (path_assets p) \<and> length (path_assets p) \<le> Suc hops \<and>
     (\<exists>k < length sources. SourceAsset p = Asset_String (sources ! k) \<and> (validate \<longrightarrow> SourceAmount p \<le> balances ! k)) \<and>
     (\<exists>s ids. sel_graph s = g \<and> ignoreOffersFrom s = acc \<and> sel_includePools s = pools \<and>
        path_assets p = rev (map (\<lambda>i. idToAssetString g ! i) ids) \<and>
        route (selling_state U s) (hd ids) amount ids (SourceAmount p))"

definition fixed_path ::
    "'u uint256 \<Rightarrow> OrderBookGraph \<Rightarrow> nat \<Rightarrow> Asset \<Rightarrow> int \<Rightarrow> Asset list \<Rightarrow> bool \<Rightarrow> Path \<Rightarrow> bool" where
  "fixed_path U g hops source amount dests pools p \<longleftrightarrow>
     SourceAsset p = Asset_String source \<and> SourceAmount p = amount \<and> 0 < DestinationAmount p \<and>
     distinct (path_assets p) \<and> length (path_assets p) \<le> Suc hops \<and>
     (\<exists>a \<in> set dests. DestinationAsset p = Asset_String a) \<and>
     (\<exists>s ids. buy_graph s = g \<and> buy_includePools s = pools \<and>
        path_assets p = map (\<lambda>i. idToAssetString g ! i) ids \<and>
        route (buying_state U s) (hd ids) amount ids (DestinationAmount p))"

definition witness_path :: "string \<Rightarrow> int \<Rightarrow> Path" where
  "witness_path a n = \<lparr>SourceAsset = a, SourceAmount = n, DestinationAsset = ''native'', DestinationAmount = 1,
     InteriorNodes = []\<rparr>"

section \<open>Sorting\<close>

locale sort_Sort =
  fixes sortSort :: "('a \<Rightarrow> 'a \<Rightarrow> bool) \<Rightarrow> 'a list \<Rightarrow> 'a list"
  assumes sort_mset: "mset (sortSort lt xs) = mset xs"
    and sort_sorted: "strict_weak lt \<Longrightarrow> sorted_wrt (\<lambda>a b. \<not> lt b a) (sortSort lt xs)"
begin

lemma sort_set: "set (sortSort lt xs) = set xs"
  by (metis set_mset_mset sort_mset)

end

lemma move_left_mset: "mset (move_left lt x ys) = add_mset x (mset ys)"
  by (induction ys) auto

lemma strict_weak_asym: "strict_weak lt \<Longrightarrow> lt a b \<Longrightarrow> \<not> lt b a"
  by (auto simp: strict_weak_def)

lemma strict_weak_split: "strict_weak lt \<Longrightarrow> lt a c \<Longrightarrow> lt a b \<or> lt b c"
  unfolding strict_weak_def by blast

lemma move_left_sorted:
  assumes "strict_weak lt" "sorted_wrt (\<lambda>a b. \<not> lt a b) ys"
  shows "sorted_wrt (\<lambda>a b. \<not> lt a b) (move_left lt x ys)"
  using assms(2)
proof (induction ys)
  case (Cons y ys)
  show ?case
  proof (cases "lt x y")
    case True
    have "set (move_left lt x ys) = insert x (set ys)"
      by (metis move_left_mset set_mset_add_mset_insert set_mset_mset)
    then show ?thesis using True Cons strict_weak_asym [OF assms(1) True] by auto
  next
    case False
    have "\<not> lt x z" if "z \<in> set ys" for z
      using strict_weak_split [OF assms(1), of x z y] False Cons.prems that by auto
    then show ?thesis using False Cons.prems by auto
  qed
qed simp

interpretation ins: sort_Sort insertionSort
proof
  fix lt :: "'a \<Rightarrow> 'a \<Rightarrow> bool" and xs
  have "mset (foldl (\<lambda>done x. move_left lt x done) ys xs) = mset ys + mset xs" for ys
    by (induction xs arbitrary: ys) (simp_all add: move_left_mset)
  then show "mset (insertionSort lt xs) = mset xs" by (simp add: insertionSort_def)
  have "sorted_wrt (\<lambda>a b. \<not> lt a b) (foldl (\<lambda>done x. move_left lt x done) ys xs)"
    if "strict_weak lt" "sorted_wrt (\<lambda>a b. \<not> lt a b) ys" for ys
    using that(2) by (induction xs arbitrary: ys) (simp_all add: move_left_sorted that(1))
  then show "strict_weak lt \<Longrightarrow> sorted_wrt (\<lambda>a b. \<not> lt b a) (insertionSort lt xs)"
    by (simp add: insertionSort_def sorted_wrt_rev)
qed

lemma lex_less_split: "inj f \<Longrightarrow> lex_less f a c \<Longrightarrow> lex_less f a b \<or> lex_less f b c"
  using lex_less_total [of f a b] lex_less_total [of f b c] lex_less_trans [of f] by metis

lemma lex_less_asym: "lex_less f a b \<Longrightarrow> \<not> lex_less f b a"
  using lex_less_trans lex_less_irrefl by metis

lemma path_less_strict_weak: "strict_weak (path_less t)"
proof -
  have i: "inj (of_char :: char \<Rightarrow> nat)" by (rule inj_of_char)
  have "\<not> path_less t b a" if "path_less t a b" for a b
    using that lex_less_asym by (auto simp: path_less_def compareSourceAsset_def compareDestinationAsset_def split: if_splits)
  moreover have "path_less t a b \<or> path_less t b c" if "path_less t a c" for a b c
    using that lex_less_split [OF i] lex_less_total [OF i, of "SourceAsset c" "SourceAsset b"]
      lex_less_total [OF i, of "DestinationAsset c" "DestinationAsset b"]
    by (auto simp: path_less_def compareSourceAsset_def compareDestinationAsset_def lex_less_irrefl split: if_splits)
  ultimately show ?thesis unfolding strict_weak_def by blast
qed

text \<open>Paths that are sorted are sorted by the asset they are grouped by.\<close>

lemma path_less_key: "\<not> path_less t q p \<Longrightarrow> path_key t p = path_key t q \<or> lex_less of_char (path_key t p) (path_key t q)"
  using lex_less_total [OF inj_of_char, of "path_key t p" "path_key t q"]
  by (auto simp: path_less_def path_key_def compareSourceAsset_def compareDestinationAsset_def split: if_splits)

lemma filter_paths_sorted:
  "sorted_wrt R (filtered @ rest) \<Longrightarrow> sorted_wrt R (filter_paths eq k rest filtered c) \<and>
     set (filter_paths eq k rest filtered c) \<subseteq> set filtered \<union> set rest"
proof (induction eq k rest filtered c rule: filter_paths.induct)
  case (2 eq k entry rest filtered c)
  have keep: "sorted_wrt R ((filtered @ [entry]) @ rest)" and drop: "sorted_wrt R (filtered @ rest)"
    using "2.prems" by (auto simp: sorted_wrt_append)
  show ?case using "2.IH" keep drop by auto
qed simp

text \<open>
  The loop on paths sorted by key: of each group, the first \<open>max 1 k\<close> paths stay. The
  counter is the number of paths kept of the current group.
\<close>

lemma filter_paths_group:
  assumes "sorted_wrt (\<lambda>p q. key p = key q \<or> lt (key p) (key q)) (filtered @ rest)"
    and order: "\<And>a b. lt a b \<Longrightarrow> \<not> lt b a" "\<And>a. \<not> lt a a"
    and "filtered \<noteq> [] \<Longrightarrow> c = int (length (filter (\<lambda>p. key p = key (last filtered)) filtered)) \<and> c \<le> max 1 k"
  shows "filter (\<lambda>p. key p = s) (filter_paths (\<lambda>p q. key p = key q) k rest filtered c) =
    filter (\<lambda>p. key p = s) filtered @
    take (nat (max 1 k) - length (filter (\<lambda>p. key p = s) filtered)) (filter (\<lambda>p. key p = s) rest)"
  using assms(1,4)
proof (induction rest arbitrary: filtered c)
  case (Cons x rest)
  let ?R = "\<lambda>p q. key p = key q \<or> lt (key p) (key q)"
  have keep: "sorted_wrt ?R ((filtered @ [x]) @ rest)" and drop: "sorted_wrt ?R (filtered @ rest)"
    using Cons.prems(1) by (auto simp: sorted_wrt_append)
  show ?case
  proof (cases "filtered = [] \<or> key (last filtered) \<noteq> key x")
    case True
    have "key p \<noteq> key x" if "p \<in> set filtered" for p
    proof
      assume eq: "key p = key x"
      have ne: "filtered \<noteq> []" "key (last filtered) \<noteq> key x" using True that by auto
      have "?R p (last filtered)"
      proof (cases "p = last filtered")
        case False
        then have "p \<in> set (butlast filtered)" using that ne(1) by (metis append_butlast_last_id in_set_conv_decomp_last rotate1.simps(2) set_ConsD set_rotate1)
        moreover have "sorted_wrt ?R (butlast filtered @ [last filtered])"
          using drop ne(1) by (simp add: sorted_wrt_append)
        ultimately show ?thesis by (simp add: sorted_wrt_append)
      qed simp
      moreover have "?R (last filtered) x" using Cons.prems(1) ne(1) by (auto simp: sorted_wrt_append)
      ultimately show False using eq ne(2) order by auto
    qed
    then have "filter (\<lambda>p. key p = key x) filtered = []" by (simp add: filter_empty_conv)
    moreover have "filter_paths (\<lambda>p q. key p = key q) k (x # rest) filtered c =
        filter_paths (\<lambda>p q. key p = key q) k rest (filtered @ [x]) 1"
      using True by (auto simp: last_conv_nth)
    moreover have "0 < nat (max 1 k)" by simp
    ultimately show ?thesis using Cons.IH [OF keep] by (cases "key x = s") (auto simp: take_Cons' nat_eq_iff)
  next
    case False
    then have c: "c = int (length (filter (\<lambda>p. key p = key x) filtered))" "c \<le> max 1 k" "filtered \<noteq> []"
      using Cons.prems(2) by auto
    have "last filtered \<in> set (filter (\<lambda>p. key p = key x) filtered)" using False c(3) by simp
    from length_pos_if_in_set [OF this] have c1: "1 \<le> c" using c(1) by linarith
    show ?thesis
    proof (cases "c < k")
      case True
      then have "filter_paths (\<lambda>p q. key p = key q) k (x # rest) filtered c =
          filter_paths (\<lambda>p q. key p = key q) k rest (filtered @ [x]) (c + 1)"
        using False by (auto simp: last_conv_nth)
      moreover have "length (filter (\<lambda>p. key p = key x) filtered) < nat (max 1 k)" using True c(1) by simp
      then obtain m where "nat (max 1 k) - length (filter (\<lambda>p. key p = key x) filtered) = Suc m"
          "nat (max 1 k) - Suc (length (filter (\<lambda>p. key p = key x) filtered)) = m"
        by (metis Suc_diff_Suc)
      ultimately show ?thesis using Cons.IH [OF keep, of "c + 1"] c True by (cases "key x = s") auto
    next
      case False
      then have "filter_paths (\<lambda>p q. key p = key q) k (x # rest) filtered c =
          filter_paths (\<lambda>p q. key p = key q) k rest filtered c"
        using \<open>\<not> (filtered = [] \<or> _)\<close> by (auto simp: last_conv_nth)
      moreover have "nat (max 1 k) - length (filter (\<lambda>p. key p = key x) filtered) = 0" using False c c1 by auto
      ultimately show ?thesis using Cons.IH [OF drop Cons.prems(2)] by (cases "key x = s") auto
    qed
  qed
qed simp

lemma sortAndFilterPaths_spec:
  assumes "sort_Sort sortSort" and "t = sortBySourceAsset \<or> t = sortByDestinationAsset"
  shows "\<exists>sorted paths. mset sorted = mset allPaths \<and> sorted_wrt (\<lambda>p q. \<not> path_less t q p) sorted \<and>
    sortAndFilterPaths sortSort allPaths k t = Inr paths \<and> sorted_wrt (\<lambda>p q. \<not> path_less t q p) paths \<and>
    (\<forall>s. filter (\<lambda>p. path_key t p = s) paths = take (nat (max 1 k)) (filter (\<lambda>p. path_key t p = s) sorted))"
proof -
  let ?sorted = "sortSort (path_less t) allPaths"
  let ?paths = "filter_paths (\<lambda>p q. path_key t p = path_key t q) k ?sorted [] 0"
  have eq: "sortAndFilterPaths sortSort allPaths k t = Inr ?paths"
    using assms(2) by (auto simp: sortAndFilterPaths_def path_less_def path_key_def
        sourceAssetEquals_def [abs_def] destinationAssetEquals_def [abs_def])
  have m: "mset ?sorted = mset allPaths" by (rule sort_Sort.sort_mset [OF assms(1)])
  have sw: "sorted_wrt (\<lambda>p q. \<not> path_less t q p) ?sorted"
    by (rule sort_Sort.sort_sorted [OF assms(1) path_less_strict_weak])
  have "sorted_wrt (\<lambda>p q. path_key t p = path_key t q \<or> lex_less of_char (path_key t p) (path_key t q)) ?sorted"
    by (rule sorted_wrt_mono_rel [OF _ sw]) (rule path_less_key)
  from filter_paths_group [where key = "path_key t" and lt = "lex_less of_char" and filtered = "[]", simplified, OF this]
  have group: "filter (\<lambda>p. path_key t p = s) ?paths = take (nat (max 1 k)) (filter (\<lambda>p. path_key t p = s) ?sorted)" for s
    using lex_less_asym lex_less_irrefl by blast
  show ?thesis
    using m sw eq group filter_paths_sorted [where filtered = "[]", simplified, OF sw] by blast
qed

text \<open>
  \<^verbatim>\<open>sortAndFilterPaths\<close> returns the paths sorted by asset, then by amount (least to spend
  or most to receive first), then by length; and for every asset it keeps exactly the first
  \<^verbatim>\<open>maxPathsPerAsset\<close> paths (but at least one) of the sorted paths with that asset. A path that
  is dropped is therefore no better than any that is kept for its asset.
\<close>
lemma sortAndFilterPaths_best:
  assumes "sort_Sort sortSort" and "t = sortBySourceAsset \<or> t = sortByDestinationAsset"
  shows "\<exists>sorted paths. mset sorted = mset allPaths \<and> sorted_wrt (\<lambda>p q. \<not> path_less t q p) sorted \<and>
    sortAndFilterPaths sortSort allPaths k t = Inr paths \<and> sorted_wrt (\<lambda>p q. \<not> path_less t q p) paths \<and>
    (\<forall>s. filter (\<lambda>p. path_key t p = s) paths = take (nat (max 1 k)) (filter (\<lambda>p. path_key t p = s) sorted))"
  by (rule sortAndFilterPaths_spec [OF assms])

lemma sortAndFilterPaths_best_witness:
  "\<exists>sorted paths. mset sorted = mset [witness_path ''b'' 7, witness_path ''a'' 5, witness_path ''a'' 3, witness_path ''a'' 4] \<and>
    sorted_wrt (\<lambda>p q. \<not> path_less sortBySourceAsset q p) sorted \<and>
    sortAndFilterPaths insertionSort [witness_path ''b'' 7, witness_path ''a'' 5, witness_path ''a'' 3, witness_path ''a'' 4]
      2 sortBySourceAsset = Inr paths \<and>
    sorted_wrt (\<lambda>p q. \<not> path_less sortBySourceAsset q p) paths \<and>
    (\<forall>s. filter (\<lambda>p. path_key sortBySourceAsset p = s) paths =
      take (nat (max 1 2)) (filter (\<lambda>p. path_key sortBySourceAsset p = s) sorted))"
  by (rule sortAndFilterPaths_best [OF ins.sort_Sort_axioms]) simp

lemma sortAndFilterPaths_subset:
  assumes "sort_Sort sortSort" "t = sortBySourceAsset \<or> t = sortByDestinationAsset"
  shows "\<exists>paths. sortAndFilterPaths sortSort allPaths k t = Inr paths \<and> set paths \<subseteq> set allPaths"
proof -
  obtain sorted paths where p: "mset sorted = mset allPaths" "sortAndFilterPaths sortSort allPaths k t = Inr paths"
      "\<And>s. filter (\<lambda>p. path_key t p = s) paths = take (nat (max 1 k)) (filter (\<lambda>p. path_key t p = s) sorted)"
    using sortAndFilterPaths_spec [OF assms] by blast
  have "q \<in> set allPaths" if "q \<in> set paths" for q
  proof -
    have "q \<in> set (filter (\<lambda>p. path_key t p = path_key t q) paths)" using that by simp
    then have "q \<in> set sorted" unfolding p(3) by (auto dest: in_set_takeD)
    then show ?thesis using p(1) by (metis set_mset_mset)
  qed
  with p(2) show ?thesis by blast
qed

section \<open>Paths of a consistent order book\<close>

lemma source_assets_map_total:
  "length sources \<le> length balances \<Longrightarrow> \<exists>m'. source_assets_map g sources balances m = Inr m'"
proof (induction g sources balances m rule: source_assets_map.induct)
  case (2 g x rest balances m)
  then show ?case by (cases balances) (auto split: option.splits)
qed simp

lemma source_assets_map_entry:
  assumes "source_assets_map g sources balances m = Inr m'" "map_of m' i = Some b"
  shows "map_of m i = Some b \<or> (\<exists>k < length sources. k < length balances \<and>
    map_of (assetStringToID g) (Asset_String (sources ! k)) = Some i \<and> b = balances ! k)"
  using assms
proof (induction g sources balances m rule: source_assets_map.induct)
  case (2 g x rest balances m)
  show ?case
  proof (cases "map_of (assetStringToID g) (Asset_String x)")
    case None
    from "2.IH"(1) [OF None] "2.prems" None
    consider "map_of m i = Some b"
      | k where "k < length rest" "k < length (tl balances)" "map_of (assetStringToID g) (Asset_String (rest ! k)) = Some i" "b = tl balances ! k"
      by auto
    then show ?thesis
    proof cases
      case (2 k)
      then show ?thesis by (intro disjI2 exI [of _ "Suc k"]) (auto simp: nth_tl)
    qed blast
  next
    case (Some j)
    with "2.prems" obtain b' others where bal: "balances = b' # others" by (cases balances) auto
    from "2.IH"(2) [OF Some bal] "2.prems" Some bal
    consider "map_of (AList.update j b' m) i = Some b"
      | k where "k < length rest" "k < length others" "map_of (assetStringToID g) (Asset_String (rest ! k)) = Some i" "b = others ! k"
      by auto
    then show ?thesis
    proof cases
      case 1
      then show ?thesis using Some bal by (cases "j = i") (auto simp: update_conv')
    next
      case (2 k)
      then show ?thesis using bal by (intro disjI2 exI [of _ "Suc k"]) auto
    qed
  qed
qed simp

lemma target_assets_entry:
  "map_of (target_assets g dests m) i = Some b \<Longrightarrow>
     map_of m i = Some b \<or> (\<exists>a \<in> set dests. map_of (assetStringToID g) (Asset_String a) = Some i)"
proof (induction g dests m rule: target_assets.induct)
  case (2 g x rest m)
  then show ?case by (auto simp: update_conv' split: option.splits if_splits)
qed simp

text \<open>All assets of a route have names, and different ones.\<close>

definition named_ids :: "OrderBookGraph \<Rightarrow> nat list \<Rightarrow> bool" where
  "named_ids g ids \<longleftrightarrow> (\<forall>i \<in> set ids. i < length (idToAssetString g) \<and> idToAssetString g ! i \<noteq> [])"

lemma named_names_distinct:
  assumes "ids_ok g" "named_ids g ids" "distinct ids"
  shows "distinct (map (\<lambda>i. idToAssetString g ! i) ids)"
  using assms ids_inject [OF assms(1)] unfolding distinct_map named_ids_def inj_on_def by blast

lemma selling_route_named:
  assumes b: "base_inv (sel_graph s)"
    and "route (selling_state U s) source amount ids a" "named_ids (sel_graph s) [source]"
  shows "named_ids (sel_graph s) ids"
  using assms(2,3)
proof (induction rule: route.induct)
  case (route_hop path a edges x b)
  then have "last path < length (venuesForSellingAsset (sel_graph s))" "x \<in> set (venuesForSellingAsset (sel_graph s) ! last path)"
    by (simp_all add: selling_state_def)
  note edge = selling_edge(1,4) [OF b this]
  have "named_ids (sel_graph s) path" by (rule route_hop.IH [OF route_hop.prems])
  then show ?case using edge by (simp add: named_ids_def)
qed simp

lemma buying_route_named:
  assumes b: "base_inv (buy_graph s)"
    and "route (buying_state U s) source amount ids a" "named_ids (buy_graph s) [source]"
  shows "named_ids (buy_graph s) ids"
  using assms(2,3)
proof (induction rule: route.induct)
  case (route_hop path a edges x b)
  then have "last path < length (venuesForBuyingAsset (buy_graph s))" "x \<in> set (venuesForBuyingAsset (buy_graph s) ! last path)"
    by (simp_all add: buying_state_def)
  note edge = buying_edge(1,4) [OF b this]
  have "named_ids (buy_graph s) path" by (rule route_hop.IH [OF route_hop.prems])
  then show ?case using edge by (simp add: named_ids_def)
qed simp

lemma path_cases:
  obtains "xs = []" | x where "xs = [x]" | x y where "xs = [x, y]" | x mid y where "xs = x # mid @ [y]" "mid \<noteq> []"
proof (cases xs)
  case (Cons x ys)
  show ?thesis
  proof (cases ys rule: rev_cases)
    case Nil
    then show ?thesis using that(2) Cons by simp
  next
    case (snoc mid y)
    then show ?thesis using that(3,4) Cons by (cases "mid = []") simp_all
  qed
qed (use that in blast)

lemma interior_Cons_snoc [simp]: "interior (x # mid @ [y]) = mid"
  by (simp add: interior_def)

lemma appended_assets:
  fixes g :: OrderBookGraph
  defines "name \<equiv> \<lambda>i. idToAssetString g ! i"
  assumes "distinct (map name ids)" "ids \<noteq> []"
  shows "sel_graph s = g \<Longrightarrow> destinationAssetString s = name (hd ids) \<Longrightarrow> sel_appendToPaths s ids (last ids) a = Inr p \<Longrightarrow>
      path_assets p = rev (map name ids) \<and> SourceAmount p = a \<and> SourceAsset p = name (last ids) \<and>
      DestinationAsset p = name (hd ids) \<and> DestinationAmount p = destinationAssetAmount s"
    and "buy_graph t = g \<Longrightarrow> sourceAssetString t = name (hd ids) \<Longrightarrow> buy_appendToPaths t ids (last ids) a = Inr p \<Longrightarrow>
      path_assets p = map name ids \<and> DestinationAmount p = a \<and> DestinationAsset p = name (last ids) \<and>
      SourceAsset p = name (hd ids) \<and> SourceAmount p = sourceAssetAmount t"
  using assms(2,3)
  by (cases ids rule: path_cases; auto simp: sel_appendToPaths_def buy_appendToPaths_def assetIDsToAssetStrings_eq path_assets_def
      name_def bind_result_def index_get_def rev_map [symmetric] split: if_splits sum.splits)+

lemma id_named:
  assumes "ids_ok g" "map_of (assetStringToID g) str = Some i"
  shows "named_ids g [i]" "idToAssetString g ! i = str" "i < length (idToAssetString g)"
  using assms unfolding ids_ok_def named_ids_def by auto

lemma route_amount_positive: "route st source amount path a \<Longrightarrow> 0 < amount \<Longrightarrow> 0 < a"
  by (induction rule: route.induct) auto

lemma findPathsWithLock_spec:
  assumes book: "ledger_book g" and amt: "positive_amount amount" and ctx: "\<And>n. \<not> ctx n"
    and len: "length sources \<le> length balances"
  shows "\<exists>paths. findPathsWithLock U ctx g hops dest amount acc sources balances validate pools = (Inr paths, lastLedger g) \<and>
    (\<forall>p \<in> set paths. payment_path U g hops dest amount acc sources balances validate pools p)"
proof -
  have base: "base_inv g" and ids: "ids_ok g" using book base_inv_parts by (auto simp: ledger_book_def graph_inv_def)
  obtain m where m: "source_assets_map g sources balances [] = Inr m"
    using source_assets_map_total [OF len] by blast
  show ?thesis
  proof (cases "map_of (assetStringToID g) (Asset_String dest) = None \<or> m = []")
    case True
    then show ?thesis using m by (auto simp: findPathsWithLock_def Let_def split: option.splits)
  next
    case False
    then obtain d where d: "map_of (assetStringToID g) (Asset_String dest) = Some d" by auto
    define s where "s = \<lparr>sel_graph = g, destinationAssetString = Asset_String dest,
      destinationAssetAmount = amount, ignoreOffersFrom = acc, sel_targetAssets = m, validateSourceBalance = validate,
      sel_includePools = pools\<rparr>"
    have sg: "sel_graph s = g" by (simp add: s_def)
    note D = id_named [OF ids d]
    have find: "findPathsWithLock U ctx g hops dest amount acc sources balances validate pools =
        (search ctx (selling_state U s) hops d amount, lastLedger g)"
      using m d False by (simp add: findPathsWithLock_def Let_def s_def)
    have "d < totalAssets (selling_state U s)" using D(3) by (simp add: selling_state_def s_def)
    moreover have st: "search_state (selling_state U s) positive_amount (\<lambda>_. False)"
      by (rule selling_search_state) (use book sg in simp)
    ultimately have "case search ctx (selling_state U s) hops d amount of
        Inl e \<Rightarrow> False | Inr paths \<Rightarrow> \<forall>p \<in> set paths. reported (selling_state U s) d amount hops p"
      by (intro search_state.search_outcome [OF st]) (use amt ctx in auto)
    then obtain paths where paths: "search ctx (selling_state U s) hops d amount = Inr paths"
        "\<And>p. p \<in> set paths \<Longrightarrow> reported (selling_state U s) d amount hops p"
      by (auto split: sum.splits)
    have "payment_path U g hops dest amount acc sources balances validate pools p" if p: "p \<in> set paths" for p
    proof -
      obtain r a where r: "route (selling_state U s) d amount r a" "length r \<le> Suc hops"
          "sel_includePath s (last r) a" "sel_appendToPaths s r (last r) a = Inr p"
        using paths(2) [OF p] by (auto simp: reported_def selling_state_def)
      note shape = route_shape [OF r(1)]
      have nr: "named_ids g r"
        using selling_route_named [of s U d amount r a] base sg r(1) D(1) by simp
      have dist: "distinct (map (\<lambda>i. idToAssetString g ! i) r)"
        using named_names_distinct [OF ids nr] shape by simp
      have asset: "path_assets p = rev (map (\<lambda>i. idToAssetString g ! i) r)" "SourceAmount p = a"
        "SourceAsset p = idToAssetString g ! last r" "DestinationAsset p = Asset_String dest" "DestinationAmount p = amount"
        using appended_assets(1) [OF dist, of s a p] shape sg r(4) D(2) by (auto simp: s_def)
      have pos: "0 < a" using route_amount_positive [OF r(1)] amt by (simp add: positive_amount_def)
      obtain b where b: "map_of m (last r) = Some b" "validate \<longrightarrow> a \<le> b"
        using r(3) by (auto simp: sel_includePath_def s_def split: option.splits)
      obtain k where k: "k < length sources" "map_of (assetStringToID g) (Asset_String (sources ! k)) = Some (last r)" "b = balances ! k"
        using source_assets_map_entry [OF m b(1)] by auto
      have src: "SourceAsset p = Asset_String (sources ! k)" using asset(3) id_named(2) [OF ids k(2)] by simp
      have rt: "\<exists>s ids. sel_graph s = g \<and> ignoreOffersFrom s = acc \<and> sel_includePools s = pools \<and>
          path_assets p = rev (map (\<lambda>i. idToAssetString g ! i) ids) \<and>
          route (selling_state U s) (hd ids) amount ids (SourceAmount p)"
        using asset(1,2) r(1) shape by (intro exI [of _ s] exI [of _ r]) (simp add: s_def)
      show ?thesis using asset pos dist r(2) src k b rt unfolding payment_path_def by auto
    qed
    then show ?thesis using find paths(1) by auto
  qed
qed

lemma findFixedPathsWithLock_spec:
  assumes book: "ledger_book g" and amt: "positive_amount amount" and ctx: "\<And>n. \<not> ctx n"
  shows "\<exists>paths. findFixedPathsWithLock U ctx g hops source amount dests pools = (Inr paths, lastLedger g) \<and>
    (\<forall>p \<in> set paths. fixed_path U g hops source amount dests pools p)"
proof -
  have base: "base_inv g" and ids: "ids_ok g" using book base_inv_parts by (auto simp: ledger_book_def graph_inv_def)
  let ?m = "target_assets g dests []"
  show ?thesis
  proof (cases "map_of (assetStringToID g) (Asset_String source) = None \<or> ?m = []")
    case True
    then show ?thesis by (auto simp: findFixedPathsWithLock_def Let_def split: option.splits)
  next
    case False
    then obtain d where d: "map_of (assetStringToID g) (Asset_String source) = Some d" by auto
    define s where "s = \<lparr>buy_graph = g, sourceAssetString = Asset_String source, sourceAssetAmount = amount,
      buy_targetAssets = ?m, buy_includePools = pools\<rparr>"
    have sg: "buy_graph s = g" by (simp add: s_def)
    note D = id_named [OF ids d]
    have find: "findFixedPathsWithLock U ctx g hops source amount dests pools =
        (search ctx (buying_state U s) hops d amount, lastLedger g)"
      using d False by (simp add: findFixedPathsWithLock_def Let_def s_def)
    have "d < totalAssets (buying_state U s)" using D(3) by (simp add: buying_state_def s_def)
    moreover have st: "search_state (buying_state U s) positive_amount (\<lambda>_. False)"
      by (rule buying_search_state) (use book sg in simp)
    ultimately have "case search ctx (buying_state U s) hops d amount of
        Inl e \<Rightarrow> False | Inr paths \<Rightarrow> \<forall>p \<in> set paths. reported (buying_state U s) d amount hops p"
      by (intro search_state.search_outcome [OF st]) (use amt ctx in auto)
    then obtain paths where paths: "search ctx (buying_state U s) hops d amount = Inr paths"
        "\<And>p. p \<in> set paths \<Longrightarrow> reported (buying_state U s) d amount hops p"
      by (auto split: sum.splits)
    have "fixed_path U g hops source amount dests pools p" if p: "p \<in> set paths" for p
    proof -
      obtain r a where r: "route (buying_state U s) d amount r a" "length r \<le> Suc hops"
          "buy_includePath s (last r) a" "buy_appendToPaths s r (last r) a = Inr p"
        using paths(2) [OF p] by (auto simp: reported_def buying_state_def)
      note shape = route_shape [OF r(1)]
      have nr: "named_ids g r"
        using buying_route_named [of s U d amount r a] base sg r(1) D(1) by simp
      have dist: "distinct (map (\<lambda>i. idToAssetString g ! i) r)"
        using named_names_distinct [OF ids nr] shape by simp
      have asset: "path_assets p = map (\<lambda>i. idToAssetString g ! i) r" "DestinationAmount p = a"
        "DestinationAsset p = idToAssetString g ! last r" "SourceAsset p = Asset_String source" "SourceAmount p = amount"
        using appended_assets(2) [OF dist, of s a p] shape sg r(4) D(2) by (auto simp: s_def)
      have pos: "0 < a" using route_amount_positive [OF r(1)] amt by (simp add: positive_amount_def)
      have "map_of ?m (last r) = Some True" using r(3) by (simp add: buy_includePath_def s_def)
      from target_assets_entry [OF this]
      obtain x where x: "x \<in> set dests" "map_of (assetStringToID g) (Asset_String x) = Some (last r)" by auto
      have dest: "DestinationAsset p = Asset_String x" using asset(3) id_named(2) [OF ids x(2)] by simp
      have rt: "\<exists>s ids. buy_graph s = g \<and> buy_includePools s = pools \<and>
          path_assets p = map (\<lambda>i. idToAssetString g ! i) ids \<and>
          route (buying_state U s) (hd ids) amount ids (DestinationAmount p)"
        using asset(1,2) r(1) shape by (intro exI [of _ s] exI [of _ r]) (simp add: s_def)
      have "\<exists>a \<in> set dests. DestinationAsset p = Asset_String a" using dest x(1) by blast
      then show ?thesis using rt pos dist r(2) asset unfolding fixed_path_def by (simp only: length_map simp_thms)
    qed
    then show ?thesis using find paths(1) by auto
  qed
qed

text \<open>An order book with one offer, for the examples.\<close>

definition witness_book :: OrderBookGraph where
  "witness_book = fst (graph_Apply (AddOffers NewOrderBookGraph [witness_offer 1 2]) 7)"

lemma witness_book_ledger: "ledger_book witness_book"
proof -
  let ?g = "AddOffers NewOrderBookGraph [witness_offer 1 2]"
  have "\<exists>g'. graph_Apply ?g 7 = (g', None) \<and> graph_inv g' \<and>
    book_of g' = foldl book_op (book_of ?g) (operations (batchedUpdates ?g)) \<and> lastLedger g' = 7 \<and> batchedUpdates g' = new_batch"
    by (rule graph_Apply_success) (simp_all add: AddOffers_eq NewOrderBookGraph_facts new_batch_def valid_offer_def
        witness_offer_def valid_asset_def valid_price_def MaxInt32_def)
  moreover have "book_of ?g = \<lparr>book_offers = Map.empty, book_pools = Map.empty\<rparr>"
    unfolding AddOffers_eq by (simp add: graph_inv_Clear NewOrderBookGraph_def)
  ultimately show ?thesis
    by (auto simp: witness_book_def ledger_book_def AddOffers_eq NewOrderBookGraph_facts new_batch_def witness_offer_def in_int64_def split: if_splits)
qed

section \<open>Correctness of the path finder\<close>





text \<open>
  The search ends and its pointers are sound on every graph and input, also an
  inconsistent one: no walk along the path nodes goes on forever, and no update goes through
  a nil pointer, although nodes are reused and relinked during a round.
\<close>
lemma search_walks_end:
  "search ctx (selling_state U s) hops source amount \<noteq> Inl EndlessWalk \<and>
   search ctx (selling_state U s) hops source amount \<noteq> Inl NilPointer \<and>
   search ctx (buying_state U t) hops source amount \<noteq> Inl EndlessWalk \<and>
   search ctx (buying_state U t) hops source amount \<noteq> Inl NilPointer"
proof -
  have "case search ctx (selling_state U s) hops source amount of
      Inl e \<Rightarrow> no_walk_panic e | Inr paths \<Rightarrow> \<forall>p \<in> set paths. reported (selling_state U s) source amount hops p"
    by (rule selling.search_outcome) (simp_all add: no_walk_panic_def)
  moreover have "case search ctx (buying_state U t) hops source amount of
      Inl e \<Rightarrow> no_walk_panic e | Inr paths \<Rightarrow> \<forall>p \<in> set paths. reported (buying_state U t) source amount hops p"
    by (rule buying.search_outcome) (simp_all add: no_walk_panic_def)
  ultimately show ?thesis by (auto simp: no_walk_panic_def)
qed

end
