(* ===== verification/Search_Direct.thy ===== *)
theory Search_Direct
  imports Find_Paths
begin

text \<open>
  Direct trades are never missed: a search of at least one round reports the path over a
  single edge of the source asset, and so the best path that the path finder returns is at
  least as good as trading directly.
\<close>

section \<open>Found paths stay found\<close>

lemma bind_result_Inr_iff: "bind_result r f = Inr y \<longleftrightarrow> (\<exists>x. r = Inr x \<and> f x = Inr y)"
  by (cases r) auto

lemma append_path_found: "append_path st path a n v = Inr v' \<Longrightarrow> set (found v) \<subseteq> set (found v')"
  by (auto simp: append_path_def split: sum.splits)

lemma set_node_found: "set_node x q new v = Inr v' \<Longrightarrow> found v' = found v"
  by (auto simp: set_node_def split: if_splits option.splits)

lemma search_update_found: "search_update st a q x n v = Inr v' \<Longrightarrow> set (found v) \<subseteq> set (found v')"
  by (auto simp: search_update_def Let_def bind_result_Inr_iff split: if_splits
      dest!: append_path_found set_node_found)

lemma search_edge_found: "search_edge ctx st l a n q x v = Inr v' \<Longrightarrow> set (found v) \<subseteq> set (found v')"
  by (auto simp: search_edge_def Let_def bind_result_Inr_iff split: if_splits option.splits bool.splits
      dest!: search_update_found)

lemma search_edges_found: "search_edges ctx st l a n q xs v = Inr v' \<Longrightarrow> set (found v) \<subseteq> set (found v')"
  by (induction xs arbitrary: v) (auto simp: bind_result_Inr_iff dest!: search_edge_found)

lemma search_assets_found: "search_assets ctx st l as v = Inr v' \<Longrightarrow> set (found v) \<subseteq> set (found v')"
  by (induction "as" arbitrary: v) (auto simp: bind_result_Inr_iff search_asset_def Let_def split: if_splits
      dest!: search_edges_found)

lemma commit_updates_found [simp]: "found (commit_updates v) = found v"
proof -
  have "found (foldl (\<lambda>v asset. v\<lparr>bestPath := (bestPath v)[asset := updatePath v ! asset],
      bestAmount := (bestAmount v)[asset := updateAmount v ! asset]\<rparr>) w xs) = found w" for w :: search_vars and xs
    by (induction xs arbitrary: w) simp_all
  then show ?thesis by (simp add: commit_updates_def)
qed

lemma search_rounds_found: "search_rounds ctx st m is v = Inr v' \<Longrightarrow> set (found v) \<subseteq> set (found v')"
proof (induction "is" arbitrary: v)
  case (Cons i "is")
  then obtain w where w: "search_assets ctx st (i = m - 1) [0..<totalAssets st] (v\<lparr>updatedAssets := []\<rparr>) = Inr w"
    "search_rounds ctx st m is (if i < m - 1 then commit_updates w else w) = Inr v'"
    by (auto simp: bind_result_Inr_iff search_round_def)
  have "set (found v) \<subseteq> set (found w)" using search_assets_found [OF w(1)] by simp
  also have "\<dots> \<subseteq> set (found v')" using Cons.IH [OF w(2)] by (simp split: if_splits)
  finally show ?case .
qed simp

section \<open>The first round\<close>

text \<open>
  While the edges of the source are processed in the first round: the best path of the
  source is its own node, and nothing is known yet about an asset that no processed edge
  leads to.
\<close>

definition first_round :: "searchState \<Rightarrow> nat \<Rightarrow> int \<Rightarrow> nat \<Rightarrow> search_vars \<Rightarrow> bool" where
  "first_round st source amount t v \<longleftrightarrow>
     length (updateAmount v) = totalAssets st \<and> length (bestAmount v) = totalAssets st \<and> length (updatePath v) = totalAssets st \<and>
     updateAmount v ! t = 0 \<and> bestAmount v ! t = 0 \<and> bestPath v ! source = Some 0 \<and>
     0 < length (nodes v) \<and> nodes v ! 0 = \<lparr>node_asset = source, node_prev = None\<rparr> \<and>
     (\<forall>a < totalAssets st. updatePath v ! a \<noteq> Some 0)"

lemma first_round_contains:
  "first_round st source amount t v \<Longrightarrow> node_contains (nodes v) (length (nodes v)) (Some 0) x = Some (x = source)"
  by (cases "length (nodes v)") (auto simp: first_round_def)

lemma first_round_path: "first_round st source amount t v \<Longrightarrow> node_path (nodes v) (bestPath v ! source) = Inr [source]"
  by (cases "length (nodes v)") (auto simp: first_round_def node_path_def)

lemma first_round_update:
  assumes "first_round st source amount t v" "search_update st source (Some 0) x n v = Inr v'" "x \<noteq> t"
  shows "first_round st source amount t v'"
proof -
  have append: "first_round st source amount t w'" if "append_path st p a n w = Inr w'" "first_round st source amount t w" for p a n w w'
    using that by (auto simp: append_path_def first_round_def split: sum.splits)
  have node: "first_round st source amount t w'"
    if n: "set_node x (Some 0) new (v\<lparr>updateAmount := (updateAmount v)[x := n]\<rparr>) = Inr w'" "x < totalAssets st" for new w'
  proof (cases new)
    case True
    then show ?thesis using that assms(1,3) by (auto simp: set_node_def first_round_def nth_append nth_list_update split: if_splits)
  next
    case False
    then obtain p where p: "updatePath v ! x = Some p" using n(1) by (auto simp: set_node_def split: option.splits)
    then have "p \<noteq> 0" using assms(1) that(2) by (auto simp: first_round_def)
    then show ?thesis using that assms(1,3) False p by (auto simp: set_node_def first_round_def)
  qed
  show ?thesis
  proof (cases "x < totalAssets st \<and> betterPathAmount st (updateAmount v ! x) n")
    case True
    then have "x < length (updateAmount v)" using assms(1) by (simp add: first_round_def)
    with True assms(2) obtain w where w: "set_node x (Some 0) (updateAmount v ! x = bestAmount v ! x) (v\<lparr>updateAmount := (updateAmount v)[x := n]\<rparr>) = Inr w"
      and rest: "(if includePath st x n then bind_result (node_path (nodes w) (bestPath w ! source)) (\<lambda>path. append_path st (path @ [x]) x n w)
          else Inr w) = Inr v'"
      unfolding search_update_def Let_def by (auto simp: bind_result_Inr_iff)
    have "first_round st source amount t w" by (rule node [OF w]) (use True in simp)
    with rest append show ?thesis by (auto simp: bind_result_Inr_iff split: if_splits)
  next
    case False
    then show ?thesis using assms(1,2) by (auto simp: search_update_def first_round_def split: if_splits)
  qed
qed

lemma first_round_edge:
  assumes "first_round st source amount t v" "search_edge ctx st l source amount (Some 0) x v = Inr v'" "edge_key x \<noteq> t"
  shows "first_round st source amount t v'"
proof -
  have p: "first_round st source amount t (v\<lparr>polls := k\<rparr>)" for k using assms(1) by (simp add: first_round_def)
  show ?thesis using assms(2) first_round_contains [OF p] first_round_update [OF p _ assms(3)] p
    by (auto simp: search_edge_def Let_def bind_result_Inr_iff split: if_splits option.splits bool.splits)
qed

text \<open>The edge to the target itself: its path is appended.\<close>

lemma direct_edge_found:
  assumes v: "first_round st source amount t v" and r: "search_edge ctx st l source amount (Some 0) x v = Inr v'"
    and x: "edge_key x = t" "t \<noteq> source" "t < totalAssets st" "processVenues st source amount (edge_value x) = Inr b" "0 < b"
    and st: "isTerminalNode st t" "includePath st t b" "betterPathAmount st 0 b"
  shows "\<exists>p \<in> set (found v'). appendToPaths st [source, t] t b = Inr p"
proof -
  define w where "w = v\<lparr>polls := Suc (polls v)\<rparr>"
  have w: "first_round st source amount t w" using v by (simp add: first_round_def w_def)
  have upd: "search_update st source (Some 0) t b w = Inr v'"
  proof -
    have "search_edge ctx st l source amount (Some 0) x v = (if ctx (polls v) then Inl ContextError else search_update st source (Some 0) t b w)"
      using first_round_contains [OF w, of t] x st unfolding w_def by (auto simp: search_edge_def Let_def)
    then show ?thesis using r by (simp split: if_splits)
  qed
  define u where "u = w\<lparr>updateAmount := (updateAmount w)[t := b], updatedAssets := updatedAssets w @ [t],
    nodes := nodes w @ [\<lparr>node_asset = t, node_prev = Some 0\<rparr>], updatePath := (updatePath w)[t := Some (length (nodes w))]\<rparr>"
  have "node_path (nodes u) (bestPath u ! source) = Inr [source]"
    using w by (cases "length (nodes w)") (auto simp: first_round_def node_path_def u_def nth_append)
  then have "append_path st [source, t] t b u = Inr v'"
    using upd w x st by (simp add: search_update_def Let_def set_node_def first_round_def u_def)
  then show ?thesis by (auto simp: append_path_def split: sum.splits)
qed

lemma direct_edges_found:
  assumes "first_round st source amount t v" "search_edges ctx st l source amount (Some 0) edges v = Inr v'"
    and "x \<in> set edges" "distinct (map edge_key edges)"
    and x: "edge_key x = t" "t \<noteq> source" "t < totalAssets st" "processVenues st source amount (edge_value x) = Inr b" "0 < b"
    and st: "isTerminalNode st t" "includePath st t b" "betterPathAmount st 0 b"
  shows "\<exists>p \<in> set (found v'). appendToPaths st [source, t] t b = Inr p"
  using assms(1-4)
proof (induction edges arbitrary: v)
  case (Cons y ys)
  then obtain w where w: "search_edge ctx st l source amount (Some 0) y v = Inr w" "search_edges ctx st l source amount (Some 0) ys w = Inr v'"
    by (auto simp: bind_result_Inr_iff)
  show ?case
  proof (cases "y = x")
    case True
    then show ?thesis using direct_edge_found [OF Cons.prems(1) w(1) [unfolded True] x st] search_edges_found [OF w(2)] by blast
  next
    case False
    then have "x \<in> set ys" "edge_key y \<noteq> t" using Cons.prems(3,4) x(1) by (auto simp: image_iff)
    then show ?thesis using Cons.IH [OF first_round_edge [OF Cons.prems(1) w(1)] w(2)] Cons.prems(4) by simp
  qed
qed simp

lemma search_finds_direct:
  assumes s: "search ctx st hops source amount = Inr paths" and "1 \<le> hops" "amount \<noteq> 0"
    and e: "venues st source = Inr edges" "x \<in> set edges" "distinct (map edge_key edges)"
    and x: "edge_key x = t" "t \<noteq> source" "t < totalAssets st" "processVenues st source amount (edge_value x) = Inr b" "0 < b"
    and st: "isTerminalNode st t" "includePath st t b" "betterPathAmount st 0 b"
  shows "\<exists>p \<in> set paths. appendToPaths st [source, t] t b = Inr p"
proof -
  have src: "source < totalAssets st" using s by (auto simp: search_def split: if_splits)
  obtain v v' where v: "v = search_init st source amount \<or> append_path st [source] source amount (search_init st source amount) = Inr v"
    and r: "search_rounds ctx st hops [0..<hops] v = Inr v'" "paths = found v'"
    using s src by (auto simp: search_def Let_def bind_result_Inr_iff split: if_splits)
  have v0: "bestAmount v = (replicate (totalAssets st) 0)[source := amount]" "first_round st source amount t (v\<lparr>updatedAssets := []\<rparr>)"
    using v src x by (auto simp: append_path_def search_init_def first_round_def split: sum.splits)
  obtain hops' where h: "[0..<hops] = 0 # hops'" using assms(2) by (metis upt_conv_Cons One_nat_def Suc_le_lessD)
  obtain w where w: "search_assets ctx st (0 = hops - 1) [0..<totalAssets st] (v\<lparr>updatedAssets := []\<rparr>) = Inr w"
    and w': "search_rounds ctx st hops hops' (if 0 < hops - 1 then commit_updates w else w) = Inr v'"
    using r(1) unfolding h by (auto simp: bind_result_Inr_iff search_round_def)
  have skip: "search_assets ctx st l (as @ rest) u = search_assets ctx st l rest u"
    if "\<forall>a \<in> set as. bestAmount u ! a = 0" for l "as" rest u
    using that by (induction "as") (simp_all add: search_asset_def)
  have split: "[0..<totalAssets st] = [0..<source] @ source # [Suc source..<totalAssets st]"
    using src by (metis less_imp_le_nat upt_add_eq_append upt_conv_Cons le_add_diff_inverse zero_le)
  have "search_assets ctx st (0 = hops - 1) (source # [Suc source..<totalAssets st]) (v\<lparr>updatedAssets := []\<rparr>) = Inr w"
    using w unfolding split by (subst (asm) skip) (use src in \<open>auto simp: v0(1)\<close>)
  then obtain u where u: "search_edges ctx st (0 = hops - 1) source amount (Some 0) edges (v\<lparr>updatedAssets := []\<rparr>) = Inr u"
    "search_assets ctx st (0 = hops - 1) [Suc source..<totalAssets st] u = Inr w"
    using e(1) src assms(3) v0 by (auto simp: bind_result_Inr_iff search_asset_def Let_def first_round_def)
  have "set (found u) \<subseteq> set paths"
    using search_assets_found [OF u(2)] search_rounds_found [OF w'] r(2) by (auto split: if_splits)
  then show ?thesis using direct_edges_found [OF v0(2) u(1) e(2,3) x st] by blast
qed

section \<open>Direct trades in the path finder\<close>

lemma target_assets_has:
  "map_of (assetStringToID g) (Asset_String a) = Some i \<Longrightarrow> a \<in> set dests \<or> map_of m i = Some True \<Longrightarrow>
     map_of (target_assets g dests m) i = Some True"
  by (induction g dests m rule: target_assets.induct) (auto simp: update_conv' split: option.splits)

text \<open>A trade of the buying search depends on the state only through whether pools count.\<close>

lemma processVenues_cong:
  "considerPools st = considerPools st' \<Longrightarrow> consumeOffers st = consumeOffers st' \<Longrightarrow> consumePool st = consumePool st' \<Longrightarrow>
     processVenues st = processVenues st'"
  unfolding processVenues_def [abs_def] by (simp only:)

lemma buying_processVenues: "buy_includePools s = buy_includePools s' \<Longrightarrow> processVenues (buying_state U s) = processVenues (buying_state U s')"
  by (rule processVenues_cong) (simp_all add: buying_state_def)

lemma findFixedPaths_finds_direct:
  assumes book: "ledger_book g" and amt: "positive_amount amount" and ctx: "\<And>n. \<not> ctx n" and "1 \<le> hops"
    and ids: "map_of (assetStringToID g) (Asset_String source) = Some i" "map_of (assetStringToID g) (Asset_String dest) = Some j"
      "dest \<in> set dests"
    and x: "x \<in> set (venuesForBuyingAsset g ! i)" "edge_key x = j"
    and trade: "processVenues (buying_state U s) i amount (edge_value x) = Inr b" "0 < b" "buy_includePools s = pools"
  shows "\<exists>paths p. findFixedPathsWithLock U ctx g hops source amount dests pools = (Inr paths, lastLedger g) \<and>
    p \<in> set paths \<and> DestinationAsset p = Asset_String dest \<and> DestinationAmount p = b"
proof -
  have base: "base_inv g" and io: "ids_ok g" using book base_inv_parts by (auto simp: ledger_book_def graph_inv_def)
  note P = base_inv_parts [OF base] and I = id_named [OF io ids(1)] and J = id_named [OF io ids(2)]
  define st where "st = \<lparr>buy_graph = g, sourceAssetString = Asset_String source, sourceAssetAmount = amount,
      buy_targetAssets = target_assets g dests [], buy_includePools = pools\<rparr>"
  have t: "map_of (target_assets g dests []) j = Some True" using target_assets_has [OF ids(2)] ids(3) by blast
  then have find: "findFixedPathsWithLock U ctx g hops source amount dests pools =
      (search ctx (buying_state U st) hops i amount, lastLedger g)"
    using ids by (auto simp: findFixedPathsWithLock_def Let_def st_def)
  obtain paths where paths: "search ctx (buying_state U st) hops i amount = Inr paths"
    using findFixedPathsWithLock_spec [OF book amt, of ctx U hops source dests pools] ctx find by auto
  have i: "i < length (venuesForBuyingAsset g)" using I(3) P(7) by simp
  have "edge_inv (venuesForBuyingAsset g ! i)" using P(6) i by (simp add: list_all_length)
  then have d: "distinct (map edge_key (venuesForBuyingAsset g ! i))" by (rule edge_inv_distinct)
  have ne: "j \<noteq> i" using buying_edge(3) [OF base i x(1)] x(2) by simp
  have tr: "processVenues (buying_state U st) i amount (edge_value x) = Inr b"
    using trade buying_processVenues [of s st U] by (simp add: st_def)
  have "\<exists>p \<in> set paths. appendToPaths (buying_state U st) [i, j] j b = Inr p"
  proof (rule search_finds_direct [OF paths \<open>1 \<le> hops\<close> _ _ x(1) d x(2) ne _ tr trade(2)])
    show "amount \<noteq> 0" using amt by (simp add: positive_amount_def)
    show "venues (buying_state U st) i = Inr (venuesForBuyingAsset g ! i)" using i by (simp add: buying_state_def st_def)
    show "j < totalAssets (buying_state U st)" using J(3) by (simp add: buying_state_def st_def)
  qed (use t trade(2) in \<open>simp_all add: buying_state_def st_def buy_isTerminalNode_def buy_includePath_def buy_betterPathAmount_def\<close>)
  then obtain p where p: "p \<in> set paths" "buy_appendToPaths st [i, j] j b = Inr p" by (auto simp: buying_state_def)
  have "DestinationAsset p = Asset_String dest \<and> DestinationAmount p = b"
    using p(2) J(2,3) by (auto simp: buy_appendToPaths_def st_def)
  with find paths p(1) show ?thesis by auto
qed

text \<open>The first path kept for an asset is at least as good as any path found for it.\<close>

lemma sortAndFilterPaths_keeps_best:
  assumes "sort_Sort sortSort" "t = sortBySourceAsset \<or> t = sortByDestinationAsset" "p \<in> set allPaths"
  shows "\<exists>paths q. sortAndFilterPaths sortSort allPaths k t = Inr paths \<and> q \<in> set paths \<and> path_key t q = path_key t p \<and> \<not> path_less t p q"
proof -
  obtain sorted paths where sp: "mset sorted = mset allPaths" "sorted_wrt (\<lambda>p q. \<not> path_less t q p) sorted"
      "sortAndFilterPaths sortSort allPaths k t = Inr paths"
      "\<And>s. filter (\<lambda>p. path_key t p = s) paths = take (nat (max 1 k)) (filter (\<lambda>p. path_key t p = s) sorted)"
    using sortAndFilterPaths_spec [OF assms(1,2)] by blast
  let ?group = "filter (\<lambda>q. path_key t q = path_key t p) sorted"
  have "p \<in> set sorted" using assms(3) sp(1) by (metis set_mset_mset)
  then have pg: "p \<in> set ?group" by simp
  then obtain q rest where g: "?group = q # rest" by (cases ?group) auto
  have "0 < nat (max 1 k)" by simp
  then have "q \<in> set (filter (\<lambda>q. path_key t q = path_key t p) paths)"
    unfolding sp(4) g by (cases "nat (max 1 k)") auto
  moreover have "sorted_wrt (\<lambda>p q. \<not> path_less t q p) (q # rest)" unfolding g [symmetric] by (rule sorted_wrt_filter [OF sp(2)])
  then have "\<not> path_less t p q" using pg strict_weak_asym [OF path_less_strict_weak, of t p p] unfolding g by auto
  ultimately show ?thesis using sp(3) by auto
qed

text \<open>
  C14: The path finder is at least as good as trading directly. If the source asset has an edge
  to one of the destination assets whose venue gives a positive amount for what is spent,
  \<^verbatim>\<open>FindFixedPaths\<close> with at least one hop returns a path to that asset that yields no less.
\<close>
theorem FindFixedPaths_beats_direct:
  assumes "ledger_book g" and "sort_Sort sortSort" and "positive_amount amount" and "\<And>n. \<not> ctx n" and "1 \<le> hops"
    and "map_of (assetStringToID g) (Asset_String source) = Some i" and "map_of (assetStringToID g) (Asset_String dest) = Some j"
    and "dest \<in> set dests" and "x \<in> set (venuesForBuyingAsset g ! i)" and "edge_key x = j"
    and "processVenues (buying_state U s) i amount (edge_value x) = Inr b" and "0 < b" and "buy_includePools s = pools"
  shows "\<exists>paths p. FindFixedPaths sortSort U ctx g hops source amount dests limit pools = (Inr paths, lastLedger g) \<and>
    p \<in> set paths \<and> DestinationAsset p = Asset_String dest \<and> b \<le> DestinationAmount p"
proof -
  obtain paths p where p: "findFixedPathsWithLock U ctx g hops source amount dests pools = (Inr paths, lastLedger g)"
      "p \<in> set paths" "DestinationAsset p = Asset_String dest" "DestinationAmount p = b"
    using findFixedPaths_finds_direct [OF assms(1,3), of ctx hops source i dest j dests x U s b pools] assms(4-13) by blast
  obtain kept q where q: "sortAndFilterPaths sortSort paths limit sortByDestinationAsset = Inr kept" "q \<in> set kept"
      "path_key sortByDestinationAsset q = path_key sortByDestinationAsset p" "\<not> path_less sortByDestinationAsset p q"
    using sortAndFilterPaths_keeps_best [OF assms(2) _ p(2), of sortByDestinationAsset limit] by blast
  have "DestinationAsset q = Asset_String dest" "b \<le> DestinationAmount q"
    using q(3,4) p(3,4) by (auto simp: path_key_def path_less_def compareDestinationAsset_def split: if_splits)
  then show ?thesis using p(1) q(1,2) by (auto simp: FindFixedPaths_def)
qed

lemma witness_book_edges:
  "map_of (assetStringToID witness_book) (Asset_String (AlphaNum4 ''USD0'' (replicate 32 2))) = Some 0"
  "map_of (assetStringToID witness_book) (Asset_String Native) = Some 1"
  "venuesForBuyingAsset witness_book ! 0 =
     [\<lparr>edge_key = 1, edge_value = \<lparr>ven_offers = [witness_offer 1 2], ven_pool = nil_pool\<rparr>, edge_reallocate = False\<rparr>]"
  by code_simp+

lemma witness_trade:
  "processVenues (buying_state int_uint256 \<lparr>buy_graph = witness_book, sourceAssetString = [], sourceAssetAmount = 0,
      buy_targetAssets = [], buy_includePools = False\<rparr>) 0 50 \<lparr>ven_offers = [witness_offer 1 2], ven_pool = nil_pool\<rparr> = Inr 25"
  by (simp add: processVenues_def buying_state_def) code_simp

theorem FindFixedPaths_beats_direct_witness:
  "\<exists>paths p. FindFixedPaths insertionSort int_uint256 (\<lambda>_. False) witness_book 2
      (AlphaNum4 ''USD0'' (replicate 32 2)) 50 [Native] 4 False = (Inr paths, lastLedger witness_book) \<and>
    p \<in> set paths \<and> DestinationAsset p = Asset_String Native \<and> 25 \<le> DestinationAmount p"
  by (rule FindFixedPaths_beats_direct [OF witness_book_ledger ins.sort_Sort_axioms _ _ _ witness_book_edges(1,2) _ _ _
        _ _ _, where s = "\<lparr>buy_graph = witness_book, sourceAssetString = [], sourceAssetAmount = 0, buy_targetAssets = [],
        buy_includePools = False\<rparr>" and x = "\<lparr>edge_key = 1, edge_value = \<lparr>ven_offers = [witness_offer 1 2], ven_pool = nil_pool\<rparr>,
        edge_reallocate = False\<rparr>"])
    (simp_all add: witness_book_edges witness_trade positive_amount_def in_int64_def)

end
