(* ===== verification/Graph_Verify.thy ===== *)
theory Graph_Verify
  imports Search_States
begin

text \<open>
  The consistency check of the order book (\<^verbatim>\<open>Verify\<close>, \<^verbatim>\<open>assertOffersEqual\<close> and
  \<^verbatim>\<open>assertPoolsEqual\<close> of \<^verbatim>\<open>exp/orderbook/graph.go\<close>). Every early return of the code is a
  constructor of \<open>verify_error\<close>; \<open>VerifyPanic\<close> stands for an index out of range and for reading
  the arm of a pool body that is not set.
\<close>

section \<open>Definitions\<close>

datatype verify_error =
    VenueTablesDiffer | IdTableDiffers | VacantIdWithEdges nat | AssetNotInMap string | AssetMapsElsewhere string
  | OfferTwice int | PairSellingDiffers int | PairBuyingDiffers int | OfferBuyingDiffers int | OfferSellingDiffers int
  | PoolAssetBDiffers | PoolAssetADiffers | PoolAssetsDiffer | PoolAssetAId string | PoolAssetBId string
  | OfferCountDiffers | OfferExpected int | OfferPriceDiffers int | OfferAmountDiffers int
  | PoolExpected bytes | OffersUnmatched | VacantIdsDiffer
  | PoolIdDiffers | PoolFeeDiffers | PoolReserveADiffers | PoolReserveBDiffers | VerifyPanic

definition assertOffersEqual :: "OfferEntry \<Rightarrow> OfferEntry \<Rightarrow> verify_error option" where
  "assertOffersEqual o1 offer =
     (if offer_Price o1 \<noteq> offer_Price offer then Some (OfferPriceDiffers (OfferId offer))
      else if offer_Amount o1 \<noteq> offer_Amount offer then Some (OfferAmountDiffers (OfferId offer))
      else if \<not> Asset_Equals (Buying o1) (Buying offer) then Some (OfferBuyingDiffers (OfferId offer))
      else if \<not> Asset_Equals (Selling o1) (Selling offer) then Some (OfferSellingDiffers (OfferId offer))
      else None)"

text \<open>The error that \<^verbatim>\<open>assertPoolsEqual\<close> returns; \<open>Inl\<close> is a panic of \<^verbatim>\<open>MustConstantProduct\<close>.\<close>

definition assertPoolsEqual :: "LiquidityPoolEntry \<Rightarrow> LiquidityPoolEntry \<Rightarrow> (verify_error, verify_error option) result" where
  "assertPoolsEqual p pool =
     (if lp_LiquidityPoolId p \<noteq> lp_LiquidityPoolId pool then Inr (Some PoolIdDiffers)
      else case (GetConstantProduct p, GetConstantProduct pool) of
        (Inr constantProductPool, Inr other) \<Rightarrow>
          Inr (if \<not> Asset_Equals (cp_AssetA constantProductPool) (cp_AssetA other) then Some PoolAssetADiffers
               else if \<not> Asset_Equals (cp_AssetB constantProductPool) (cp_AssetB other) then Some PoolAssetBDiffers
               else if cp_Fee constantProductPool \<noteq> cp_Fee other then Some PoolFeeDiffers
               else if cp_ReserveA constantProductPool \<noteq> cp_ReserveA other then Some PoolReserveADiffers
               else if cp_ReserveB constantProductPool \<noteq> cp_ReserveB other then Some PoolReserveBDiffers
               else None)
      | _ \<Rightarrow> Inl VerifyPanic)"

text \<open>The local variables of \<^verbatim>\<open>Verify\<close>.\<close>

record verify_vars =
  vf_offers :: "OfferEntry list"
  vf_pools :: "LiquidityPoolEntry list"
  vf_poolSet :: "(bytes \<times> LiquidityPoolEntry) list"
  vf_offerSet :: "(int \<times> OfferEntry) list"
  vf_vacantSet :: "(nat \<times> bool) list"

text \<open>A missing map entry reads as the zero value of its type.\<close>

definition map_get :: "'v \<Rightarrow> ('k \<times> 'v) list \<Rightarrow> 'k \<Rightarrow> 'v" where
  "map_get zero m k = (case map_of m k of None \<Rightarrow> zero | Some v \<Rightarrow> v)"

definition zero_pair :: tradingPair where
  "zero_pair = \<lparr>buyingAsset = 0, sellingAsset = 0\<rparr>"

text \<open>The check of the assets of an offer: the first one of a venue against the ids, the others against the one before.\<close>

definition check_offer_assets :: "OfferEntry option \<Rightarrow> string \<Rightarrow> string \<Rightarrow> OfferEntry \<Rightarrow> verify_error option" where
  "check_offer_assets prev buyingAssetString sellingAssetString offer =
     (case prev of
        None \<Rightarrow>
          if Asset_String (Buying offer) \<noteq> buyingAssetString then Some (OfferBuyingDiffers (OfferId offer))
          else if Asset_String (Selling offer) \<noteq> sellingAssetString then Some (OfferSellingDiffers (OfferId offer))
          else None
      | Some p \<Rightarrow>
          if \<not> Asset_Equals (Buying offer) (Buying p) then Some (OfferBuyingDiffers (OfferId offer))
          else if \<not> Asset_Equals (Selling offer) (Selling p) then Some (OfferSellingDiffers (OfferId offer))
          else None)"

text \<open>
  The check of the pool of a venue, the same in both tables. The result of
  \<^verbatim>\<open>assertPoolsEqual\<close> is not used, as in the code.
\<close>

definition check_pool :: "OrderBookGraph \<Rightarrow> nat \<Rightarrow> nat \<Rightarrow> liquidityPool \<Rightarrow> verify_error option" where
  "check_pool g asset key pool =
     (let assetsError =
        (if pool_assetA pool = asset
         then if pool_assetB pool \<noteq> key then Some PoolAssetBDiffers else None
         else if pool_assetB pool = asset
         then if pool_assetA pool \<noteq> key then Some PoolAssetADiffers else None
         else Some PoolAssetsDiffer);
        pair = \<lparr>buyingAsset = pool_assetA pool, sellingAsset = pool_assetB pool\<rparr>
      in case assetsError of
           Some e \<Rightarrow> Some e
         | None \<Rightarrow>
            (case assertPoolsEqual (pool_entry pool) (map_get (pool_entry nil_pool) (liquidityPools g) pair) of
               Inl e \<Rightarrow> Some e
             | Inr _ \<Rightarrow>
                (case lp_ConstantProduct (pool_entry pool) of
                   None \<Rightarrow> Some VerifyPanic
                 | Some cp \<Rightarrow>
                    let assetA = Asset_String (cp_AssetA cp); assetB = Asset_String (cp_AssetB cp) in
                    if map_get 0 (assetStringToID g) assetA \<noteq> buyingAsset pair then Some (PoolAssetAId assetA)
                    else if map_get 0 (assetStringToID g) assetB \<noteq> sellingAsset pair then Some (PoolAssetBId assetB)
                    else None)))"

fun verify_selling_offers ::
    "OrderBookGraph \<Rightarrow> nat \<Rightarrow> nat \<Rightarrow> string \<Rightarrow> string \<Rightarrow> OfferEntry option \<Rightarrow> OfferEntry list \<Rightarrow> verify_vars \<Rightarrow> (verify_error, verify_vars) result" where
  "verify_selling_offers g asset key buyingAssetString sellingAssetString prev [] v = Inr v"
| "verify_selling_offers g asset key buyingAssetString sellingAssetString prev (offer # offers) v =
     (let pair = map_get zero_pair (tradingPairForOffer g) (OfferId offer) in
      if map_of (vf_offerSet v) (OfferId offer) \<noteq> None then Inl (OfferTwice (OfferId offer))
      else if sellingAsset pair \<noteq> asset then Inl (PairSellingDiffers (OfferId offer))
      else if buyingAsset pair \<noteq> key then Inl (PairBuyingDiffers (OfferId offer))
      else case check_offer_assets prev buyingAssetString sellingAssetString offer of
             Some e \<Rightarrow> Inl e
           | None \<Rightarrow>
              verify_selling_offers g asset key buyingAssetString sellingAssetString (Some offer) offers
                (v\<lparr>vf_offerSet := AList.update (OfferId offer) offer (vf_offerSet v), vf_offers := vf_offers v @ [offer]\<rparr>))"

fun verify_selling_edges :: "OrderBookGraph \<Rightarrow> nat \<Rightarrow> string \<Rightarrow> edgeSet \<Rightarrow> verify_vars \<Rightarrow> (verify_error, verify_vars) result" where
  "verify_selling_edges g asset sellingAssetString [] v = Inr v"
| "verify_selling_edges g asset sellingAssetString (x # edges) v =
     (if \<not> edge_key x < length (idToAssetString g) then Inl VerifyPanic
      else bind_result
        (verify_selling_offers g asset (edge_key x) (idToAssetString g ! edge_key x) sellingAssetString None (ven_offers (edge_value x)) v)
        (\<lambda>v. let pool = ven_pool (edge_value x); entry = pool_entry pool in
          if \<not> pool_set pool then verify_selling_edges g asset sellingAssetString edges v
          else case check_pool g asset (edge_key x) pool of
                 Some e \<Rightarrow> Inl e
               | None \<Rightarrow>
                  verify_selling_edges g asset sellingAssetString edges
                    (if map_of (vf_poolSet v) (lp_LiquidityPoolId entry) = None
                     then v\<lparr>vf_poolSet := AList.update (lp_LiquidityPoolId entry) entry (vf_poolSet v), vf_pools := vf_pools v @ [entry]\<rparr>
                     else v)))"

definition verify_selling_asset :: "OrderBookGraph \<Rightarrow> nat \<Rightarrow> verify_vars \<Rightarrow> (verify_error, verify_vars) result" where
  "verify_selling_asset g asset v =
     (let edges = venuesForSellingAsset g ! asset; assetString = idToAssetString g ! asset;
          v = (if length assetString = 0 then v\<lparr>vf_vacantSet := AList.update asset True (vf_vacantSet v)\<rparr> else v)
      in if length assetString = 0 \<and> length edges = 0 then Inr v
         else if length assetString = 0 \<and> length edges > 0 then Inl (VacantIdWithEdges asset)
         else case map_of (assetStringToID g) assetString of
                None \<Rightarrow> Inl (AssetNotInMap assetString)
              | Some i \<Rightarrow> if i \<noteq> asset then Inl (AssetMapsElsewhere assetString)
                          else verify_selling_edges g asset assetString edges v)"

fun verify_buying_offers ::
    "string \<Rightarrow> string \<Rightarrow> OfferEntry option \<Rightarrow> OfferEntry list \<Rightarrow> verify_vars \<Rightarrow> (verify_error, verify_vars) result" where
  "verify_buying_offers buyingAssetString sellingAssetString prev [] v = Inr v"
| "verify_buying_offers buyingAssetString sellingAssetString prev (offer # offers) v =
     (case map_of (vf_offerSet v) (OfferId offer) of
        None \<Rightarrow> Inl (OfferExpected (OfferId offer))
      | Some o1 \<Rightarrow>
         (case assertOffersEqual o1 offer of
            Some e \<Rightarrow> Inl e
          | None \<Rightarrow>
             (case check_offer_assets prev buyingAssetString sellingAssetString offer of
                Some e \<Rightarrow> Inl e
              | None \<Rightarrow>
                 verify_buying_offers buyingAssetString sellingAssetString (Some offer) offers
                   (v\<lparr>vf_offerSet := AList.delete (OfferId offer) (vf_offerSet v)\<rparr>))))"

fun verify_buying_edges :: "OrderBookGraph \<Rightarrow> nat \<Rightarrow> string \<Rightarrow> edgeSet \<Rightarrow> verify_vars \<Rightarrow> (verify_error, verify_vars) result" where
  "verify_buying_edges g asset buyingAssetString [] v = Inr v"
| "verify_buying_edges g asset buyingAssetString (x # edges) v =
     (if \<not> edge_key x < length (idToAssetString g) then Inl VerifyPanic
      else bind_result
        (verify_buying_offers buyingAssetString (idToAssetString g ! edge_key x) None (ven_offers (edge_value x)) v)
        (\<lambda>v. let pool = ven_pool (edge_value x) in
          if \<not> pool_set pool then verify_buying_edges g asset buyingAssetString edges v
          else case check_pool g asset (edge_key x) pool of
                 Some e \<Rightarrow> Inl e
               | None \<Rightarrow>
                  if map_of (vf_poolSet v) (lp_LiquidityPoolId (pool_entry pool)) = None
                  then Inl (PoolExpected (lp_LiquidityPoolId (pool_entry pool)))
                  else verify_buying_edges g asset buyingAssetString edges v))"

definition verify_buying_asset :: "OrderBookGraph \<Rightarrow> nat \<Rightarrow> verify_vars \<Rightarrow> (verify_error, verify_vars) result" where
  "verify_buying_asset g asset v =
     (let edges = venuesForBuyingAsset g ! asset; assetString = idToAssetString g ! asset
      in if length assetString = 0 \<and> length edges = 0 then Inr v
         else if length assetString = 0 \<and> length edges > 0 then Inl (VacantIdWithEdges asset)
         else verify_buying_edges g asset assetString edges v)"

text \<open>A loop over the ids of a table.\<close>

fun for_ids :: "(nat \<Rightarrow> 'a \<Rightarrow> ('e, 'a) result) \<Rightarrow> nat list \<Rightarrow> 'a \<Rightarrow> ('e, 'a) result" where
  "for_ids f [] v = Inr v"
| "for_ids f (i # ids) v = bind_result (f i v) (for_ids f ids)"

definition Verify :: "OrderBookGraph \<Rightarrow> (verify_error, OfferEntry list \<times> LiquidityPoolEntry list) result" where
  "Verify g =
     (if length (venuesForSellingAsset g) \<noteq> length (venuesForBuyingAsset g) then Inl VenueTablesDiffer
      else if length (venuesForSellingAsset g) \<noteq> length (idToAssetString g) then Inl IdTableDiffers
      else bind_result
        (for_ids (verify_selling_asset g) [0..<length (venuesForSellingAsset g)]
          \<lparr>vf_offers = [], vf_pools = [], vf_poolSet = [], vf_offerSet = [], vf_vacantSet = []\<rparr>)
        (\<lambda>v. if length (vf_offerSet v) \<noteq> length (tradingPairForOffer g) then Inl OfferCountDiffers
          else bind_result (for_ids (verify_buying_asset g) [0..<length (venuesForBuyingAsset g)] v)
        (\<lambda>v. if length (vf_offerSet v) \<noteq> 0 then Inl OffersUnmatched
          else if length (vacantIDs g) \<noteq> length (vf_vacantSet v) then Inl VacantIdsDiffer
          else if \<exists>i \<in> set (vacantIDs g). \<not> map_get False (vf_vacantSet v) i then Inl VacantIdsDiffer
          else Inr (vf_offers v, vf_pools v))))"

text \<open>The offers of all venues of one id.\<close>

definition edge_offers :: "edgeSet \<Rightarrow> OfferEntry list" where
  "edge_offers edges = concat (map (\<lambda>x. ven_offers (edge_value x)) edges)"

text \<open>What the check finds of an offer in a venue of the graph.\<close>

definition offer_at :: "OrderBookGraph \<Rightarrow> nat \<Rightarrow> nat \<Rightarrow> OfferEntry \<Rightarrow> bool" where
  "offer_at g s b v \<longleftrightarrow> valid_offer v \<and> Asset_String (Buying v) = idToAssetString g ! b \<and> Asset_String (Selling v) = idToAssetString g ! s \<and>
     map_of (tradingPairForOffer g) (OfferId v) = Some \<lparr>buyingAsset = b, sellingAsset = s\<rparr>"

text \<open>The variables of the first loop: the sets are the lists by key.\<close>

definition sold_inv :: "OrderBookGraph \<Rightarrow> verify_vars \<Rightarrow> bool" where
  "sold_inv g v \<longleftrightarrow> vf_offerSet v = map (\<lambda>o'. (OfferId o', o')) (vf_offers v) \<and>
     vf_poolSet v = map (\<lambda>e. (lp_LiquidityPoolId e, e)) (vf_pools v) \<and>
     distinct (map lp_LiquidityPoolId (vf_pools v)) \<and> set (vf_pools v) \<subseteq> set (graph_LiquidityPools g)"

text \<open>The graphs of the examples: one offer; one pool.\<close>

definition witness_graph :: OrderBookGraph where
  "witness_graph = fst (graph_Apply (AddOffers NewOrderBookGraph [witness_offer 1 2]) 7)"

definition witness_pool :: "int \<Rightarrow> LiquidityPoolEntry" where
  "witness_pool reserve = \<lparr>lp_LiquidityPoolId = replicate 32 7, lp_Type = 0,
     lp_ConstantProduct = Some \<lparr>cp_AssetA = Native, cp_AssetB = AlphaNum4 ''USD0'' (replicate 32 1), cp_Fee = 30,
       cp_ReserveA = reserve, cp_ReserveB = 20, cp_TotalPoolShares = 5, cp_PoolSharesTrustLineCount = 1\<rparr>\<rparr>"

definition witness_pool_graph :: OrderBookGraph where
  "witness_pool_graph = fst (graph_Apply (AddLiquidityPools NewOrderBookGraph [witness_pool 10]) 7)"

section \<open>Checks that pass on a consistent graph\<close>

lemma distinct_map_concat:
  assumes "distinct ks" "\<And>k. k \<in> set ks \<Longrightarrow> distinct (map f (h k))"
    and "\<And>k k' v w. k \<in> set ks \<Longrightarrow> k' \<in> set ks \<Longrightarrow> v \<in> set (h k) \<Longrightarrow> w \<in> set (h k') \<Longrightarrow> f v = f w \<Longrightarrow> k = k'"
  shows "distinct (map f (concat (map h ks)))"
  using assms
proof (induction ks)
  case (Cons k ks)
  have "f v \<noteq> f w" if "v \<in> set (h k)" "k' \<in> set ks" "w \<in> set (h k')" for v w k'
    using Cons.prems(1) Cons.prems(3) [of k k' v w] that by auto
  moreover have "distinct (map f (concat (map h ks)))" using Cons by simp
  ultimately show ?case using Cons.prems(2) [of k] by force
qed simp

lemma alist_update_new: "k \<notin> fst ` set al \<Longrightarrow> AList.update k v al = al @ [(k, v)]"
  by (induction al) auto

lemma offer_at_same_assets:
  assumes "offer_at g s b v" "offer_at g s b w"
  shows "Buying v = Buying w \<and> Selling v = Selling w"
  using assms Asset_String_inject [of "Buying v" "Buying w"] Asset_String_inject [of "Selling v" "Selling w"]
  by (simp add: offer_at_def valid_offer_def)

lemma check_offer_assets_ok:
  assumes "\<And>p. prev = Some p \<Longrightarrow> offer_at g s b p" "offer_at g s b v"
  shows "check_offer_assets prev (idToAssetString g ! b) (idToAssetString g ! s) v = None"
proof (cases prev)
  case None
  then show ?thesis using assms(2) by (simp add: check_offer_assets_def offer_at_def)
next
  case (Some p)
  then show ?thesis using offer_at_same_assets [OF assms(2) assms(1) [OF Some]] by (simp add: check_offer_assets_def)
qed

lemma assertOffersEqual_refl: "assertOffersEqual v v = None"
  by (simp add: assertOffersEqual_def)

lemma assertPoolsEqual_refl: "valid_pool p \<Longrightarrow> assertPoolsEqual p p = Inr None"
  by (auto simp: assertPoolsEqual_def valid_pool_def GetConstantProduct_def split: option.splits)

lemma ids_map:
  "ids_ok g \<Longrightarrow> map_of (assetStringToID g) s = Some i \<longleftrightarrow> i < length (idToAssetString g) \<and> idToAssetString g ! i = s \<and> s \<noteq> []"
  unfolding ids_ok_def by blast

lemma check_pool_ok:
  assumes "base_inv g" "sell_pool g s b = Some p"
  shows "check_pool g s b p = None" "pool_entry p \<in> set (graph_LiquidityPools g)"
proof -
  note P = base_inv_parts [OF assms(1)]
  have at: "pool_at (idToAssetString g) s b p" and sym: "sell_pool g b s = Some p"
    using P(4) assms(2) unfolding pools_ok_def by blast+
  let ?k = "\<lparr>buyingAsset = pool_assetA p, sellingAsset = pool_assetB p\<rparr>"
  have lp: "map_of (liquidityPools g) ?k = Some (pool_entry p)"
  proof -
    have "sell_pool g (pool_assetA p) (pool_assetB p) = Some p"
      using at assms(2) sym unfolding pool_at_def by blast
    moreover have "\<forall>k e. map_of (liquidityPools g) k = Some e \<longleftrightarrow>
        (\<exists>p. sell_pool g (buyingAsset k) (sellingAsset k) = Some p \<and> pool_assetA p = buyingAsset k \<and>
           pool_assetB p = sellingAsset k \<and> pool_entry p = e)"
      using P(4) unfolding pools_ok_def by blast
    ultimately show ?thesis by simp
  qed
  then show "pool_entry p \<in> set (graph_LiquidityPools g)" by (force simp: graph_LiquidityPools_def dest: map_of_SomeD)
  obtain cp where cp: "lp_ConstantProduct (pool_entry p) = Some cp" "valid_asset (cp_AssetA cp)" "valid_asset (cp_AssetB cp)"
    using at by (auto simp: pool_at_def valid_pool_def split: option.splits)
  have names: "idToAssetString g ! pool_assetA p = Asset_String (cp_AssetA cp)" "idToAssetString g ! pool_assetB p = Asset_String (cp_AssetB cp)"
    "pool_assetA p < length (idToAssetString g)" "pool_assetB p < length (idToAssetString g)"
    using at cp by (auto simp: pool_at_def pool_key_def)
  have ids: "map_of (assetStringToID g) (Asset_String (cp_AssetA cp)) = Some (pool_assetA p)"
    "map_of (assetStringToID g) (Asset_String (cp_AssetB cp)) = Some (pool_assetB p)"
    using ids_map [OF P(1), of "Asset_String (cp_AssetA cp)" "pool_assetA p"]
      ids_map [OF P(1), of "Asset_String (cp_AssetB cp)" "pool_assetB p"] names by (simp_all only: Asset_String_nonempty simp_thms)
  have "assertPoolsEqual (pool_entry p) (pool_entry p) = Inr None" using at by (intro assertPoolsEqual_refl) (simp add: pool_at_def)
  moreover have "pool_assetA p = s \<and> pool_assetB p = b \<or> pool_assetA p \<noteq> s \<and> pool_assetA p = b \<and> pool_assetB p = s"
    using at by (auto simp: pool_at_def)
  ultimately show "check_pool g s b p = None"
    using cp(1) unfolding check_pool_def map_get_def Let_def lp by (elim disjE) (simp_all add: ids)
qed

lemma offers_at:
  assumes "base_inv g" "v \<in> set (sell_offers g s b)"
  shows "offer_at g s b v"
  using base_inv_parts(3) [OF assms(1)] assms(2) unfolding offers_ok_def offer_at_def by metis

section \<open>The first loop\<close>

lemma verify_selling_offers_ok:
  assumes "\<And>o'. o' \<in> set offers \<Longrightarrow> offer_at g s b o'" "\<And>p. prev = Some p \<Longrightarrow> offer_at g s b p"
    and "vf_offerSet v = map (\<lambda>o'. (OfferId o', o')) (vf_offers v)" "distinct (map OfferId (vf_offers v @ offers))"
  shows "verify_selling_offers g s b (idToAssetString g ! b) (idToAssetString g ! s) prev offers v =
    Inr (v\<lparr>vf_offers := vf_offers v @ offers, vf_offerSet := map (\<lambda>o'. (OfferId o', o')) (vf_offers v @ offers)\<rparr>)"
  using assms
proof (induction offers arbitrary: prev v)
  case (Cons x xs)
  have x: "offer_at g s b x" using Cons.prems(1) by simp
  have new: "OfferId x \<notin> fst ` set (vf_offerSet v)" using Cons.prems(3,4) by auto
  let ?v = "v\<lparr>vf_offerSet := AList.update (OfferId x) x (vf_offerSet v), vf_offers := vf_offers v @ [x]\<rparr>"
  have "AList.update (OfferId x) x (vf_offerSet v) = vf_offerSet v @ [(OfferId x, x)]" by (rule alist_update_new [OF new])
  then have "verify_selling_offers g s b (idToAssetString g ! b) (idToAssetString g ! s) (Some x) xs ?v =
      Inr (?v\<lparr>vf_offers := vf_offers ?v @ xs, vf_offerSet := map (\<lambda>o'. (OfferId o', o')) (vf_offers ?v @ xs)\<rparr>)"
    using Cons.prems x by (intro Cons.IH) auto
  then show ?case
    using check_offer_assets_ok [OF Cons.prems(2) x] x new
    by (simp add: offer_at_def map_get_def map_of_eq_None_iff)
qed simp

lemma verify_selling_edges_ok:
  assumes base: "base_inv g" and a: "a < length (venuesForSellingAsset g)"
    and "set xs \<subseteq> set (venuesForSellingAsset g ! a)" "sold_inv g v" "distinct (map OfferId (vf_offers v @ edge_offers xs))"
  shows "\<exists>v'. verify_selling_edges g a (idToAssetString g ! a) xs v = Inr v' \<and> sold_inv g v' \<and>
    vf_offers v' = vf_offers v @ edge_offers xs \<and> vf_vacantSet v' = vf_vacantSet v \<and> set (vf_pools v) \<subseteq> set (vf_pools v') \<and>
    (\<forall>x \<in> set xs. pool_set (ven_pool (edge_value x)) \<longrightarrow>
       lp_LiquidityPoolId (pool_entry (ven_pool (edge_value x))) \<in> lp_LiquidityPoolId ` set (vf_pools v'))"
  using assms(3-)
proof (induction xs arbitrary: v)
  case Nil
  then show ?case by (simp add: edge_offers_def)
next
  case (Cons x xs)
  have x: "x \<in> set (venuesForSellingAsset g ! a)" using Cons.prems(1) by simp
  note E = selling_edge [OF base a x]
  let ?offers = "ven_offers (edge_value x)" and ?pool = "ven_pool (edge_value x)"
  define w where "w = v\<lparr>vf_offers := vf_offers v @ ?offers, vf_offerSet := map (\<lambda>o'. (OfferId o', o')) (vf_offers v @ ?offers)\<rparr>"
  have offers: "verify_selling_offers g a (edge_key x) (idToAssetString g ! edge_key x) (idToAssetString g ! a) None ?offers v = Inr w"
    unfolding w_def using offers_at [OF base] E(2) Cons.prems(2,3)
    by (intro verify_selling_offers_ok) (auto simp: sold_inv_def edge_offers_def)
  have w: "sold_inv g w" "vf_offers w = vf_offers v @ ?offers" "vf_vacantSet w = vf_vacantSet v" "vf_pools w = vf_pools v"
    using Cons.prems(2) by (simp_all add: w_def sold_inv_def)
  define u where "u = (if \<not> pool_set ?pool then w
    else if map_of (vf_poolSet w) (lp_LiquidityPoolId (pool_entry ?pool)) = None
    then w\<lparr>vf_poolSet := AList.update (lp_LiquidityPoolId (pool_entry ?pool)) (pool_entry ?pool) (vf_poolSet w),
           vf_pools := vf_pools w @ [pool_entry ?pool]\<rparr> else w)"
  have pool: "check_pool g a (edge_key x) ?pool = None \<and> pool_entry ?pool \<in> set (graph_LiquidityPools g)" if "pool_set ?pool"
  proof -
    have "edge_inv (venuesForSellingAsset g ! a)" using base_inv_parts(5) [OF base] a by (simp add: list_all_length)
    then have "sell_pool g a (edge_key x) = Some ?pool"
      using edge_member_observers(2) [OF _ x] that a by (simp add: sell_pool_def table_at_def)
    then show ?thesis using check_pool_ok [OF base] by blast
  qed
  have step: "verify_selling_edges g a (idToAssetString g ! a) (x # xs) v = verify_selling_edges g a (idToAssetString g ! a) xs u"
    using offers pool E(1) by (simp add: u_def Let_def)
  have u: "sold_inv g u" "vf_offers u = vf_offers v @ ?offers" "vf_vacantSet u = vf_vacantSet v" "set (vf_pools v) \<subseteq> set (vf_pools u)"
      "pool_set ?pool \<Longrightarrow> lp_LiquidityPoolId (pool_entry ?pool) \<in> lp_LiquidityPoolId ` set (vf_pools u)"
    using w pool by (auto simp: u_def sold_inv_def map_of_eq_None_iff alist_update_new image_image image_iff)
  have "\<exists>v'. verify_selling_edges g a (idToAssetString g ! a) xs u = Inr v' \<and> sold_inv g v' \<and>
    vf_offers v' = vf_offers u @ edge_offers xs \<and> vf_vacantSet v' = vf_vacantSet u \<and> set (vf_pools u) \<subseteq> set (vf_pools v') \<and>
    (\<forall>x \<in> set xs. pool_set (ven_pool (edge_value x)) \<longrightarrow>
       lp_LiquidityPoolId (pool_entry (ven_pool (edge_value x))) \<in> lp_LiquidityPoolId ` set (vf_pools v'))"
    using Cons.prems(1,3) u(1,2) by (intro Cons.IH) (auto simp: edge_offers_def)
  then show ?case unfolding step using u by (auto simp: edge_offers_def)
qed

text \<open>The first loop over the ids from the start of the table.\<close>

lemma verify_selling_assets_ok:
  assumes base: "base_inv g" and "set as \<subseteq> {..<length (venuesForSellingAsset g)}" "distinct as"
    and "sold_inv g v" "distinct (map OfferId (vf_offers v @ concat (map (\<lambda>i. edge_offers (venuesForSellingAsset g ! i)) as)))"
    and "fst ` set (vf_vacantSet v) \<inter> set as = {}"
  shows "\<exists>v'. for_ids (verify_selling_asset g) as v = Inr v' \<and> sold_inv g v' \<and>
    vf_offers v' = vf_offers v @ concat (map (\<lambda>i. edge_offers (venuesForSellingAsset g ! i)) as) \<and>
    vf_vacantSet v' = vf_vacantSet v @ map (\<lambda>i. (i, True)) (filter (\<lambda>i. idToAssetString g ! i = []) as) \<and>
    set (vf_pools v) \<subseteq> set (vf_pools v') \<and>
    (\<forall>i \<in> set as. \<forall>x \<in> set (venuesForSellingAsset g ! i). pool_set (ven_pool (edge_value x)) \<longrightarrow>
       lp_LiquidityPoolId (pool_entry (ven_pool (edge_value x))) \<in> lp_LiquidityPoolId ` set (vf_pools v'))"
  using assms(2-)
proof (induction "as" arbitrary: v)
  case (Cons i "as")
  note P = base_inv_parts [OF base]
  have i: "i < length (venuesForSellingAsset g)" "i < length (idToAssetString g)" using Cons.prems(1) P(8) by auto
  let ?V = "\<lambda>i. edge_offers (venuesForSellingAsset g ! i)"
  let ?name = "idToAssetString g ! i"
  have "\<exists>w. verify_selling_asset g i v = Inr w \<and> sold_inv g w \<and> vf_offers w = vf_offers v @ ?V i \<and>
      vf_vacantSet w = vf_vacantSet v @ (if ?name = [] then [(i, True)] else []) \<and> set (vf_pools v) \<subseteq> set (vf_pools w) \<and>
      (\<forall>x \<in> set (venuesForSellingAsset g ! i). pool_set (ven_pool (edge_value x)) \<longrightarrow>
       lp_LiquidityPoolId (pool_entry (ven_pool (edge_value x))) \<in> lp_LiquidityPoolId ` set (vf_pools w))"
  proof (cases "?name = []")
    case True
    have "\<not> used g i" using used_named(2) [OF base] True by blast
    then have e: "venuesForSellingAsset g ! i = []" using i P(7,8) by (auto simp: used_def)
    have "AList.update i True (vf_vacantSet v) = vf_vacantSet v @ [(i, True)]"
      using Cons.prems(5) by (intro alist_update_new) auto
    then show ?thesis using True e Cons.prems(3) by (auto simp: verify_selling_asset_def edge_offers_def sold_inv_def)
  next
    case False
    have "verify_selling_asset g i v = verify_selling_edges g i ?name (venuesForSellingAsset g ! i) v"
      using False ids_map [OF P(1), of ?name i] i by (simp add: verify_selling_asset_def Let_def)
    moreover have "distinct (map OfferId (vf_offers v @ ?V i))" using Cons.prems(4) by auto
    ultimately show ?thesis
      using verify_selling_edges_ok [OF base i(1) subset_refl Cons.prems(3)] False by simp
  qed
  then obtain w where w: "verify_selling_asset g i v = Inr w" "sold_inv g w" "vf_offers w = vf_offers v @ ?V i"
      "vf_vacantSet w = vf_vacantSet v @ (if ?name = [] then [(i, True)] else [])" "set (vf_pools v) \<subseteq> set (vf_pools w)"
      "\<forall>x \<in> set (venuesForSellingAsset g ! i). pool_set (ven_pool (edge_value x)) \<longrightarrow>
       lp_LiquidityPoolId (pool_entry (ven_pool (edge_value x))) \<in> lp_LiquidityPoolId ` set (vf_pools w)"
    by blast
  have "\<exists>v'. for_ids (verify_selling_asset g) as w = Inr v' \<and> sold_inv g v' \<and>
    vf_offers v' = vf_offers w @ concat (map ?V as) \<and>
    vf_vacantSet v' = vf_vacantSet w @ map (\<lambda>i. (i, True)) (filter (\<lambda>i. idToAssetString g ! i = []) as) \<and>
    set (vf_pools w) \<subseteq> set (vf_pools v') \<and>
    (\<forall>i \<in> set as. \<forall>x \<in> set (venuesForSellingAsset g ! i). pool_set (ven_pool (edge_value x)) \<longrightarrow>
       lp_LiquidityPoolId (pool_entry (ven_pool (edge_value x))) \<in> lp_LiquidityPoolId ` set (vf_pools v'))"
    using Cons.prems w(2-4) by (intro Cons.IH) auto
  then obtain v' where v': "for_ids (verify_selling_asset g) as w = Inr v'" "sold_inv g v'" "vf_offers v' = vf_offers w @ concat (map ?V as)"
    "vf_vacantSet v' = vf_vacantSet w @ map (\<lambda>i. (i, True)) (filter (\<lambda>i. idToAssetString g ! i = []) as)" "set (vf_pools w) \<subseteq> set (vf_pools v')"
    "\<forall>i \<in> set as. \<forall>x \<in> set (venuesForSellingAsset g ! i). pool_set (ven_pool (edge_value x)) \<longrightarrow>
       lp_LiquidityPoolId (pool_entry (ven_pool (edge_value x))) \<in> lp_LiquidityPoolId ` set (vf_pools v')"
    by blast
  have "\<forall>i \<in> set (i # as). \<forall>x \<in> set (venuesForSellingAsset g ! i). pool_set (ven_pool (edge_value x)) \<longrightarrow>
       lp_LiquidityPoolId (pool_entry (ven_pool (edge_value x))) \<in> lp_LiquidityPoolId ` set (vf_pools v')"
    using v'(5,6) w(6) by (auto dest!: bspec)
  then show ?case using w v' by (intro exI [of _ v']) auto
qed simp

section \<open>The second loop\<close>

lemma verify_buying_offers_ok:
  assumes "\<And>o'. o' \<in> set offers \<Longrightarrow> offer_at g s b o' \<and> map_of (vf_offerSet v) (OfferId o') = Some o'"
    and "\<And>p. prev = Some p \<Longrightarrow> offer_at g s b p" "distinct (map OfferId offers)"
  shows "verify_buying_offers (idToAssetString g ! b) (idToAssetString g ! s) prev offers v =
    Inr (v\<lparr>vf_offerSet := filter (\<lambda>kv. fst kv \<notin> OfferId ` set offers) (vf_offerSet v)\<rparr>)"
  using assms
proof (induction offers arbitrary: prev v)
  case (Cons x xs)
  let ?v = "v\<lparr>vf_offerSet := AList.delete (OfferId x) (vf_offerSet v)\<rparr>"
  have x: "offer_at g s b x" "map_of (vf_offerSet v) (OfferId x) = Some x" using Cons.prems(1) by simp_all
  have rest: "map_of (vf_offerSet ?v) (OfferId y) = Some y" if "y \<in> set xs" for y
  proof -
    have "OfferId y \<in> OfferId ` set xs" using that by (rule imageI)
    then have "OfferId y \<noteq> OfferId x" using Cons.prems(3) by auto
    then show ?thesis using Cons.prems(1) [of y] that by (simp add: map_of_alist_delete)
  qed
  have "verify_buying_offers (idToAssetString g ! b) (idToAssetString g ! s) (Some x) xs ?v =
      Inr (?v\<lparr>vf_offerSet := filter (\<lambda>kv. fst kv \<notin> OfferId ` set xs) (vf_offerSet ?v)\<rparr>)"
    using rest Cons.prems x(1) by (intro Cons.IH) auto
  moreover have "filter (\<lambda>kv. fst kv \<notin> OfferId ` set xs) (AList.delete (OfferId x) (vf_offerSet v)) =
      filter (\<lambda>kv. fst kv \<notin> OfferId ` set (x # xs)) (vf_offerSet v)"
    by (auto simp: AList.delete_eq split_def intro!: filter_cong)
  ultimately show ?case using x check_offer_assets_ok [OF Cons.prems(2) x(1)] by (simp add: assertOffersEqual_refl)
qed simp

lemma filter_filter_keys:
  "filter (\<lambda>kv. fst kv \<notin> A) (filter (\<lambda>kv. fst kv \<notin> B) xs) = filter (\<lambda>kv. fst kv \<notin> B \<union> A) xs"
  by (auto intro: filter_cong)

lemma map_of_filter_keys: "k \<notin> A \<Longrightarrow> map_of (filter (\<lambda>kv. fst kv \<notin> A) xs) k = map_of xs k"
  by (induction xs) auto

text \<open>
  A venue in the table by buying asset: its offers are those that the first loop found, and
  its pool was found too.
\<close>

lemma verify_buying_edges_ok:
  assumes base: "base_inv g" and a: "a < length (venuesForBuyingAsset g)"
    and "set xs \<subseteq> set (venuesForBuyingAsset g ! a)" "distinct (map OfferId (edge_offers xs))"
    and "\<And>o'. o' \<in> set (edge_offers xs) \<Longrightarrow> map_of (vf_offerSet v) (OfferId o') = Some o'"
    and pools: "\<And>x. x \<in> set xs \<Longrightarrow> pool_set (ven_pool (edge_value x)) \<Longrightarrow>
      map_of (vf_poolSet v) (lp_LiquidityPoolId (pool_entry (ven_pool (edge_value x)))) \<noteq> None"
  shows "verify_buying_edges g a (idToAssetString g ! a) xs v =
    Inr (v\<lparr>vf_offerSet := filter (\<lambda>kv. fst kv \<notin> OfferId ` set (edge_offers xs)) (vf_offerSet v)\<rparr>)"
  using assms(3-)
proof (induction xs arbitrary: v)
  case (Cons x xs)
  have x: "x \<in> set (venuesForBuyingAsset g ! a)" using Cons.prems(1) by simp
  note E = buying_edge [OF base a x]
  let ?offers = "ven_offers (edge_value x)" and ?pool = "ven_pool (edge_value x)"
  let ?w = "v\<lparr>vf_offerSet := filter (\<lambda>kv. fst kv \<notin> OfferId ` set ?offers) (vf_offerSet v)\<rparr>"
  have offers: "verify_buying_offers (idToAssetString g ! a) (idToAssetString g ! edge_key x) None ?offers v = Inr ?w"
    using offers_at [OF base] E(2) Cons.prems(2,3) by (intro verify_buying_offers_ok) (auto simp: edge_offers_def)
  have pool: "check_pool g a (edge_key x) ?pool = None" if "pool_set ?pool"
  proof -
    have "edge_inv (venuesForBuyingAsset g ! a)" using base_inv_parts(6) [OF base] a by (simp add: list_all_length)
    then have "buy_pool g a (edge_key x) = Some ?pool"
      using edge_member_observers(2) [OF _ x] that a by (simp add: buy_pool_def table_at_def)
    then have "sell_pool g (edge_key x) a = Some ?pool" using base_inv_parts(10) [OF base] by simp
    then have "sell_pool g a (edge_key x) = Some ?pool" using base_inv_parts(4) [OF base] unfolding pools_ok_def by blast
    then show ?thesis using check_pool_ok [OF base] by blast
  qed
  have rest: "map_of (vf_offerSet ?w) (OfferId y) = Some y" if "y \<in> set (edge_offers xs)" for y
  proof -
    have "OfferId y \<notin> OfferId ` set ?offers" using Cons.prems(2) that by (auto simp: edge_offers_def)
    then show ?thesis using Cons.prems(3) [of y] that by (simp add: map_of_filter_keys edge_offers_def)
  qed
  have "verify_buying_edges g a (idToAssetString g ! a) (x # xs) v = verify_buying_edges g a (idToAssetString g ! a) xs ?w"
  proof (cases "pool_set ?pool")
    case True
    then obtain y where "map_of (vf_poolSet v) (lp_LiquidityPoolId (pool_entry ?pool)) = Some y"
      using Cons.prems(4) [of x] by auto
    then show ?thesis using True offers pool E(1) by (simp add: Let_def)
  qed (use offers E(1) in \<open>simp add: Let_def\<close>)
  also have "\<dots> = Inr (?w\<lparr>vf_offerSet := filter (\<lambda>kv. fst kv \<notin> OfferId ` set (edge_offers xs)) (vf_offerSet ?w)\<rparr>)"
    using Cons.prems rest by (intro Cons.IH) (auto simp: edge_offers_def)
  finally show ?case by (simp add: edge_offers_def filter_filter_keys image_Un del: filter_filter)
qed (simp add: edge_offers_def)

lemma verify_buying_assets_ok:
  assumes base: "base_inv g" and "set as \<subseteq> {..<length (venuesForBuyingAsset g)}"
    and "distinct (map OfferId (concat (map (\<lambda>i. edge_offers (venuesForBuyingAsset g ! i)) as)))"
    and "\<And>o'. o' \<in> set (concat (map (\<lambda>i. edge_offers (venuesForBuyingAsset g ! i)) as)) \<Longrightarrow> map_of (vf_offerSet v) (OfferId o') = Some o'"
    and "\<And>i x. i \<in> set as \<Longrightarrow> x \<in> set (venuesForBuyingAsset g ! i) \<Longrightarrow> pool_set (ven_pool (edge_value x)) \<Longrightarrow>
      map_of (vf_poolSet v) (lp_LiquidityPoolId (pool_entry (ven_pool (edge_value x)))) \<noteq> None"
  shows "for_ids (verify_buying_asset g) as v =
    Inr (v\<lparr>vf_offerSet := filter (\<lambda>kv. fst kv \<notin> OfferId ` set (concat (map (\<lambda>i. edge_offers (venuesForBuyingAsset g ! i)) as))) (vf_offerSet v)\<rparr>)"
  using assms(2-)
proof (induction "as" arbitrary: v)
  case (Cons i "as")
  note P = base_inv_parts [OF base]
  let ?V = "\<lambda>i. edge_offers (venuesForBuyingAsset g ! i)"
  have i: "i < length (venuesForBuyingAsset g)" using Cons.prems(1) by auto
  let ?w = "v\<lparr>vf_offerSet := filter (\<lambda>kv. fst kv \<notin> OfferId ` set (?V i)) (vf_offerSet v)\<rparr>"
  have first: "verify_buying_asset g i v = Inr ?w"
  proof (cases "idToAssetString g ! i = []")
    case True
    have "\<not> used g i" using used_named(2) [OF base] True by blast
    then have "venuesForBuyingAsset g ! i = []" using i P(7,8) by (auto simp: used_def)
    then show ?thesis using True by (simp add: verify_buying_asset_def edge_offers_def)
  next
    case False
    have d: "distinct (map OfferId (?V i))" using Cons.prems(2) by auto
    have "verify_buying_edges g i (idToAssetString g ! i) (venuesForBuyingAsset g ! i) v = Inr ?w"
    proof (rule verify_buying_edges_ok [OF base i subset_refl d])
      show "map_of (vf_offerSet v) (OfferId y) = Some y" if "y \<in> set (?V i)" for y
        using Cons.prems(3) [of y] that by simp
      show "map_of (vf_poolSet v) (lp_LiquidityPoolId (pool_entry (ven_pool (edge_value x)))) \<noteq> None"
        if "x \<in> set (venuesForBuyingAsset g ! i)" "pool_set (ven_pool (edge_value x))" for x
        using Cons.prems(4) [of i x] that by simp
    qed
    then show ?thesis using False by (simp add: verify_buying_asset_def)
  qed
  have rest: "map_of (vf_offerSet ?w) (OfferId y) = Some y" if "y \<in> set (concat (map ?V as))" for y
  proof -
    have "OfferId y \<notin> OfferId ` set (?V i)" using Cons.prems(2) that by auto
    then show ?thesis using Cons.prems(3) [of y] that by (simp add: map_of_filter_keys)
  qed
  have "for_ids (verify_buying_asset g) as ?w =
      Inr (?w\<lparr>vf_offerSet := filter (\<lambda>kv. fst kv \<notin> OfferId ` set (concat (map ?V as))) (vf_offerSet ?w)\<rparr>)"
  proof (rule Cons.IH)
    show "map_of (vf_poolSet ?w) (lp_LiquidityPoolId (pool_entry (ven_pool (edge_value x)))) \<noteq> None"
      if "j \<in> set as" "x \<in> set (venuesForBuyingAsset g ! j)" "pool_set (ven_pool (edge_value x))" for j x
      using Cons.prems(4) [of j x] that by simp
  qed (use Cons.prems(1,2) rest in auto)
  then show ?case using first by (simp add: filter_filter_keys image_Un del: filter_filter)
qed simp

section \<open>The offers of the whole graph\<close>

lemma offer_at_pair: "offer_at g s b v \<Longrightarrow> offer_at g s' b' w \<Longrightarrow> OfferId v = OfferId w \<Longrightarrow> s = s' \<and> b = b'"
  by (auto simp: offer_at_def)

lemma concat_nth: "concat (map f xs) = concat (map (\<lambda>i. f (xs ! i)) [0..<length xs])"
proof -
  have "map f xs = map (\<lambda>i. f (xs ! i)) [0..<length xs]" by (rule nth_equalityI) simp_all
  then show ?thesis by simp
qed

lemma sold_offers_distinct:
  assumes base: "base_inv g"
  shows "distinct (map OfferId (concat (map (\<lambda>i. edge_offers (venuesForSellingAsset g ! i)) [0..<length (venuesForSellingAsset g)])))"
proof (rule distinct_map_concat)
  note P = base_inv_parts [OF base]
  have at: "offer_at g i (edge_key x) v" if "i < length (venuesForSellingAsset g)" "x \<in> set (venuesForSellingAsset g ! i)" "v \<in> set (ven_offers (edge_value x))" for i x v
    using offers_at [OF base] selling_edge(2) [OF base that(1,2)] that(3) by simp
  show "distinct (map OfferId (edge_offers (venuesForSellingAsset g ! i)))" if "i \<in> set [0..<length (venuesForSellingAsset g)]" for i
    unfolding edge_offers_def
  proof (rule distinct_map_concat)
    have i: "i < length (venuesForSellingAsset g)" using that by simp
    then have e: "edge_inv (venuesForSellingAsset g ! i)" using P(5) by (simp add: list_all_length)
    then have d: "distinct (map edge_key (venuesForSellingAsset g ! i))" by (rule edge_inv_distinct)
    then show "distinct (venuesForSellingAsset g ! i)" by (simp add: distinct_map)
    show "distinct (map OfferId (ven_offers (edge_value x)))" if "x \<in> set (venuesForSellingAsset g ! i)" for x
      using P(3) selling_edge(2) [OF base i that] unfolding offers_ok_def by simp
    show "x = y" if "x \<in> set (venuesForSellingAsset g ! i)" "y \<in> set (venuesForSellingAsset g ! i)"
      "v \<in> set (ven_offers (edge_value x))" "w \<in> set (ven_offers (edge_value y))" "OfferId v = OfferId w" for x y v w
      using offer_at_pair [OF at [OF i that(1,3)] at [OF i that(2,4)] that(5)] d that(1,2)
      by (auto simp: distinct_map inj_on_def)
  qed
  show "i = j" if "i \<in> set [0..<length (venuesForSellingAsset g)]" "j \<in> set [0..<length (venuesForSellingAsset g)]"
    "v \<in> set (edge_offers (venuesForSellingAsset g ! i))" "w \<in> set (edge_offers (venuesForSellingAsset g ! j))" "OfferId v = OfferId w" for i j v w
  proof -
    note asm = that
    obtain x y where "x \<in> set (venuesForSellingAsset g ! i)" "v \<in> set (ven_offers (edge_value x))"
      "y \<in> set (venuesForSellingAsset g ! j)" "w \<in> set (ven_offers (edge_value y))"
      using asm(3,4) by (auto simp: edge_offers_def)
    then show ?thesis using offer_at_pair [OF at at asm(5)] asm(1,2) by simp
  qed
qed simp

lemma bought_offers_distinct:
  assumes base: "base_inv g"
  shows "distinct (map OfferId (concat (map (\<lambda>i. edge_offers (venuesForBuyingAsset g ! i)) [0..<length (venuesForBuyingAsset g)])))"
proof (rule distinct_map_concat)
  note P = base_inv_parts [OF base]
  have at: "offer_at g (edge_key x) i v" if "i < length (venuesForBuyingAsset g)" "x \<in> set (venuesForBuyingAsset g ! i)" "v \<in> set (ven_offers (edge_value x))" for i x v
    using offers_at [OF base] buying_edge(2) [OF base that(1,2)] that(3) by simp
  show "distinct (map OfferId (edge_offers (venuesForBuyingAsset g ! i)))" if "i \<in> set [0..<length (venuesForBuyingAsset g)]" for i
    unfolding edge_offers_def
  proof (rule distinct_map_concat)
    have i: "i < length (venuesForBuyingAsset g)" using that by simp
    then have e: "edge_inv (venuesForBuyingAsset g ! i)" using P(6) by (simp add: list_all_length)
    then have d: "distinct (map edge_key (venuesForBuyingAsset g ! i))" by (rule edge_inv_distinct)
    then show "distinct (venuesForBuyingAsset g ! i)" by (simp add: distinct_map)
    show "distinct (map OfferId (ven_offers (edge_value x)))" if "x \<in> set (venuesForBuyingAsset g ! i)" for x
      using P(3) buying_edge(2) [OF base i that] unfolding offers_ok_def by simp
    show "x = y" if "x \<in> set (venuesForBuyingAsset g ! i)" "y \<in> set (venuesForBuyingAsset g ! i)"
      "v \<in> set (ven_offers (edge_value x))" "w \<in> set (ven_offers (edge_value y))" "OfferId v = OfferId w" for x y v w
      using offer_at_pair [OF at [OF i that(1,3)] at [OF i that(2,4)] that(5)] d that(1,2)
      by (auto simp: distinct_map inj_on_def)
  qed
  show "i = j" if "i \<in> set [0..<length (venuesForBuyingAsset g)]" "j \<in> set [0..<length (venuesForBuyingAsset g)]"
    "v \<in> set (edge_offers (venuesForBuyingAsset g ! i))" "w \<in> set (edge_offers (venuesForBuyingAsset g ! j))" "OfferId v = OfferId w" for i j v w
  proof -
    note asm = that
    obtain x y where "x \<in> set (venuesForBuyingAsset g ! i)" "v \<in> set (ven_offers (edge_value x))"
      "y \<in> set (venuesForBuyingAsset g ! j)" "w \<in> set (ven_offers (edge_value y))"
      using asm(3,4) by (auto simp: edge_offers_def)
    then show ?thesis using offer_at_pair [OF at at asm(5)] asm(1,2) by simp
  qed
qed simp

text \<open>Both tables hold the offers of all venues.\<close>

lemma edge_offers_set:
  assumes "edge_inv e"
  shows "v \<in> set (edge_offers e) \<longleftrightarrow> (\<exists>k. v \<in> set (offers_of e k))"
proof
  assume "v \<in> set (edge_offers e)"
  then obtain x where x: "x \<in> set e" "v \<in> set (ven_offers (edge_value x))" by (auto simp: edge_offers_def)
  then show "\<exists>k. v \<in> set (offers_of e k)" using edge_member_observers(1) [OF assms x(1)] by metis
next
  assume "\<exists>k. v \<in> set (offers_of e k)"
  then obtain k where k: "v \<in> set (offers_of e k)" by blast
  then obtain i where i: "edge_find e k = Some i" "v \<in> set (ven_offers (edge_value (e ! i)))"
    by (cases "edge_find e k") (auto simp: offers_of_def)
  have "i < length e" using edge_find_Some [OF i(1)] by simp
  then show "v \<in> set (edge_offers e)" using i(2) by (auto simp: edge_offers_def intro!: bexI [of _ "e ! i"])
qed

lemma all_offers_set:
  assumes base: "base_inv g"
  shows "v \<in> set (concat (map (\<lambda>i. edge_offers (venuesForSellingAsset g ! i)) [0..<length (venuesForSellingAsset g)])) \<longleftrightarrow>
      (\<exists>s b. v \<in> set (sell_offers g s b))"
    and "v \<in> set (concat (map (\<lambda>i. edge_offers (venuesForBuyingAsset g ! i)) [0..<length (venuesForBuyingAsset g)])) \<longleftrightarrow>
      (\<exists>s b. v \<in> set (sell_offers g s b))"
proof -
  note P = base_inv_parts [OF base]
  have e: "i < length (venuesForSellingAsset g) \<Longrightarrow> edge_inv (venuesForSellingAsset g ! i)"
    "i < length (venuesForBuyingAsset g) \<Longrightarrow> edge_inv (venuesForBuyingAsset g ! i)" for i
    using P(5,6) by (simp_all add: list_all_length)
  have sell_eq: "sell_offers g = (\<lambda>s b. buy_offers g b s)" using P(9) by (intro ext)
  show "v \<in> set (concat (map (\<lambda>i. edge_offers (venuesForSellingAsset g ! i)) [0..<length (venuesForSellingAsset g)])) \<longleftrightarrow>
      (\<exists>s b. v \<in> set (sell_offers g s b))"
    using edge_offers_set [OF e(1)] by (auto simp: sell_offers_def table_at_def split: if_splits)
  show "v \<in> set (concat (map (\<lambda>i. edge_offers (venuesForBuyingAsset g ! i)) [0..<length (venuesForBuyingAsset g)])) \<longleftrightarrow>
      (\<exists>s b. v \<in> set (sell_offers g s b))"
    unfolding sell_eq using edge_offers_set [OF e(2)] by (auto simp: buy_offers_def table_at_def split: if_splits) blast
qed

text \<open>The edges of a table that have a pool.\<close>

lemma pool_of_member:
  assumes "pool_of e k = Some p"
  shows "\<exists>x \<in> set e. edge_key x = k \<and> pool_set (ven_pool (edge_value x)) \<and> ven_pool (edge_value x) = p"
proof (cases "edge_find e k")
  case (Some i)
  then show ?thesis
    using edge_find_Some [OF Some] assms by (auto simp: pool_of_def Let_def split: if_splits intro!: bexI [of _ "e ! i"])
qed (use assms in \<open>simp add: pool_of_def\<close>)

lemma length_offers_pairs:
  assumes base: "base_inv g"
  shows "length (tradingPairForOffer g) = length (concat (map (\<lambda>i. edge_offers (venuesForSellingAsset g ! i)) [0..<length (venuesForSellingAsset g)]))"
    (is "_ = length ?all")
proof -
  have ok: "offers_ok (idToAssetString g) (sell_offers g) (tradingPairForOffer g)" using base_inv_parts(3) [OF base] .
  have "OfferId ` set ?all = fst ` set (tradingPairForOffer g)"
  proof (intro set_eqI iffI)
    fix i assume "i \<in> OfferId ` set ?all"
    then obtain v where "v \<in> set ?all" "i = OfferId v" by blast
    then have "map_of (tradingPairForOffer g) i \<noteq> None"
      using all_offers_set(1) [OF base, of v] offers_at [OF base] by (auto simp: offer_at_def)
    then show "i \<in> fst ` set (tradingPairForOffer g)" by (simp add: map_of_eq_None_iff)
  next
    fix i assume "i \<in> fst ` set (tradingPairForOffer g)"
    then obtain p where "map_of (tradingPairForOffer g) i = Some p" by (metis map_of_eq_None_iff option.exhaust)
    then have "\<exists>v \<in> set (sell_offers g (sellingAsset p) (buyingAsset p)). OfferId v = i"
      using ok unfolding offers_ok_def by blast
    then show "i \<in> OfferId ` set ?all" using all_offers_set(1) [OF base] by blast
  qed
  then have "card (set (map OfferId ?all)) = card (set (map fst (tradingPairForOffer g)))" by simp
  moreover have "distinct (map fst (tradingPairForOffer g))" using ok by (simp add: offers_ok_def)
  ultimately show ?thesis
    using sold_offers_distinct [OF base] by (metis distinct_card length_map)
qed

text \<open>Every pool of the graph is met by the loop over the selling assets, and back.\<close>

lemma graph_pools_met:
  assumes base: "base_inv g" and "e \<in> set (graph_LiquidityPools g)"
  obtains i x where "i < length (venuesForSellingAsset g)" "x \<in> set (venuesForSellingAsset g ! i)"
    "pool_set (ven_pool (edge_value x))" "pool_entry (ven_pool (edge_value x)) = e"
proof -
  have ok: "pools_ok (idToAssetString g) (sell_pool g) (liquidityPools g)" using base_inv_parts(4) [OF base] .
  have "distinct (map fst (liquidityPools g))" using ok by (simp add: pools_ok_def)
  moreover obtain k where "(k, e) \<in> set (liquidityPools g)" using assms(2) by (auto simp: graph_LiquidityPools_def)
  ultimately have "map_of (liquidityPools g) k = Some e" by (rule map_of_is_SomeI)
  then obtain p where "sell_pool g (buyingAsset k) (sellingAsset k) = Some p" "pool_entry p = e"
    using ok unfolding pools_ok_def by blast
  then show thesis
    using that pool_of_member [of "venuesForSellingAsset g ! buyingAsset k" "sellingAsset k" p]
    by (auto simp: sell_pool_def table_at_def split: if_splits)
qed

lemma buying_pool_met:
  assumes base: "base_inv g" and "i < length (venuesForBuyingAsset g)" "x \<in> set (venuesForBuyingAsset g ! i)"
    and "pool_set (ven_pool (edge_value x))"
  shows "pool_entry (ven_pool (edge_value x)) \<in> set (graph_LiquidityPools g)"
proof -
  have "edge_inv (venuesForBuyingAsset g ! i)" using base_inv_parts(6) [OF base] assms(2) by (simp add: list_all_length)
  then have "buy_pool g i (edge_key x) = Some (ven_pool (edge_value x))"
    using edge_member_observers(2) assms(2-) by (simp add: buy_pool_def table_at_def)
  then have "sell_pool g (edge_key x) i = Some (ven_pool (edge_value x))" using base_inv_parts(10) [OF base] by simp
  then show ?thesis using check_pool_ok(2) [OF base] by blast
qed

lemma Verify_ok:
  assumes base: "base_inv g"
  shows "\<exists>pools. Verify g = Inr (graph_Offers g, pools) \<and> set pools \<subseteq> set (graph_LiquidityPools g) \<and>
    distinct (map lp_LiquidityPoolId pools) \<and> lp_LiquidityPoolId ` set pools = lp_LiquidityPoolId ` set (graph_LiquidityPools g)"
proof -
  note P = base_inv_parts [OF base]
  let ?n = "length (venuesForSellingAsset g)"
  let ?sold = "concat (map (\<lambda>i. edge_offers (venuesForSellingAsset g ! i)) [0..<?n])"
  let ?bought = "concat (map (\<lambda>i. edge_offers (venuesForBuyingAsset g ! i)) [0..<length (venuesForBuyingAsset g)])"
  let ?v0 = "\<lparr>vf_offers = [], vf_pools = [], vf_poolSet = [], vf_offerSet = [], vf_vacantSet = []\<rparr>"
  let ?vacant = "filter (\<lambda>i. idToAssetString g ! i = []) [0..<?n]"
  have "\<exists>v. for_ids (verify_selling_asset g) [0..<?n] ?v0 = Inr v \<and> sold_inv g v \<and> vf_offers v = vf_offers ?v0 @ ?sold \<and>
    vf_vacantSet v = vf_vacantSet ?v0 @ map (\<lambda>i. (i, True)) ?vacant \<and> set (vf_pools ?v0) \<subseteq> set (vf_pools v) \<and>
    (\<forall>i \<in> set [0..<?n]. \<forall>x \<in> set (venuesForSellingAsset g ! i). pool_set (ven_pool (edge_value x)) \<longrightarrow>
       lp_LiquidityPoolId (pool_entry (ven_pool (edge_value x))) \<in> lp_LiquidityPoolId ` set (vf_pools v))"
    by (rule verify_selling_assets_ok [OF base]) (use sold_offers_distinct [OF base] in \<open>auto simp: sold_inv_def\<close>)
  then obtain v where v: "for_ids (verify_selling_asset g) [0..<?n] ?v0 = Inr v" "sold_inv g v" "vf_offers v = ?sold"
      "vf_vacantSet v = map (\<lambda>i. (i, True)) ?vacant"
      "\<And>i x. i < ?n \<Longrightarrow> x \<in> set (venuesForSellingAsset g ! i) \<Longrightarrow> pool_set (ven_pool (edge_value x)) \<Longrightarrow>
         lp_LiquidityPoolId (pool_entry (ven_pool (edge_value x))) \<in> lp_LiquidityPoolId ` set (vf_pools v)"
    by auto
  have ids: "lp_LiquidityPoolId e \<in> lp_LiquidityPoolId ` set (vf_pools v)" if "e \<in> set (graph_LiquidityPools g)" for e
    using graph_pools_met [OF base that] v(5) by metis
  have all: "set ?bought = set ?sold" using all_offers_set [OF base] by blast
  have offerSet: "vf_offerSet v = map (\<lambda>o'. (OfferId o', o')) ?sold" using v(2,3) by (simp add: sold_inv_def)
  let ?w = "v\<lparr>vf_offerSet := filter (\<lambda>kv. fst kv \<notin> OfferId ` set ?bought) (vf_offerSet v)\<rparr>"
  have second: "for_ids (verify_buying_asset g) [0..<length (venuesForBuyingAsset g)] v = Inr ?w"
  proof (rule verify_buying_assets_ok [OF base _ bought_offers_distinct [OF base]])
    show "map_of (vf_offerSet v) (OfferId y) = Some y" if "y \<in> set ?bought" for y
    proof -
      have "y \<in> set ?sold" using that unfolding all .
      then show ?thesis unfolding offerSet using sold_offers_distinct [OF base]
        by (intro map_of_is_SomeI imageI) (simp_all add: comp_def del: set_concat)
    qed
    show "map_of (vf_poolSet v) (lp_LiquidityPoolId (pool_entry (ven_pool (edge_value x)))) \<noteq> None"
      if "i \<in> set [0..<length (venuesForBuyingAsset g)]" "x \<in> set (venuesForBuyingAsset g ! i)" "pool_set (ven_pool (edge_value x))" for i x
      using ids [OF buying_pool_met [OF base _ that(2,3)]] that(1) v(2) by (simp add: sold_inv_def map_of_eq_None_iff image_image)
  qed auto
  have empty: "vf_offerSet ?w = []" unfolding all by (auto simp: offerSet filter_empty_conv)
  have vacant: "set (vacantIDs g) = set ?vacant" "distinct (vacantIDs g)" using P(1,8) by (auto simp: ids_ok_def)
  have "length (vacantIDs g) = length (vf_vacantSet ?w)"
    using vacant v(4) by (simp add: distinct_card [symmetric])
  moreover have "map_get False (vf_vacantSet ?w) i" if "i \<in> set (vacantIDs g)" for i
    using that vacant(1) v(4) by (simp add: map_get_def map_of_map_restrict restrict_map_def)
  moreover have "length (vf_offerSet v) = length (tradingPairForOffer g)" using length_offers_pairs [OF base] offerSet by simp
  ultimately have "Verify g = Inr (?sold, vf_pools v)"
    using v(1,3) second empty P(7,8) by (simp add: Verify_def)
  moreover have "?sold = graph_Offers g" unfolding graph_Offers_def edge_offers_def by (subst (2) concat_nth) simp
  moreover have "set (vf_pools v) \<subseteq> set (graph_LiquidityPools g)" "distinct (map lp_LiquidityPoolId (vf_pools v))"
    using v(2) by (simp_all add: sold_inv_def)
  ultimately show ?thesis using ids by (intro exI [of _ "vf_pools v"]) auto
qed

section \<open>What the check does not compare\<close>

lemma for_ids_cong: "(\<And>i v. i \<in> set is \<Longrightarrow> f i v = g i v) \<Longrightarrow> for_ids f is v = for_ids g is v"
  by (induction "is" arbitrary: v) (auto simp: bind_result_def split: sum.splits)

lemma map_get_keys:
  assumes "map fst m = map fst m'" "list_all (\<lambda>kv. P (snd kv)) m" "list_all (\<lambda>kv. P (snd kv)) m'"
  shows "P (map_get z m k) \<and> P (map_get z m' k) \<or> map_get z m k = map_get z m' k"
proof (cases "map_of m k")
  case None
  then have "map_of m' k = None" using assms(1) by (metis list.set_map map_of_eq_None_iff)
  then show ?thesis using None by (simp add: map_get_def)
next
  case (Some x)
  then obtain y where "map_of m' k = Some y" using assms(1) by (metis list.set_map map_of_eq_None_iff option.exhaust)
  then show ?thesis using Some assms(2,3) by (auto simp: map_get_def list_all_iff dest!: map_of_SomeD)
qed

lemma graph_tables:
  "liquidityPools (g\<lparr>liquidityPools := lp\<rparr>) = lp" "assetStringToID (g\<lparr>liquidityPools := lp\<rparr>) = assetStringToID g"
  "venuesForSellingAsset (g\<lparr>liquidityPools := lp\<rparr>) = venuesForSellingAsset g" "venuesForBuyingAsset (g\<lparr>liquidityPools := lp\<rparr>) = venuesForBuyingAsset g"
  "idToAssetString (g\<lparr>liquidityPools := lp\<rparr>) = idToAssetString g" "vacantIDs (g\<lparr>liquidityPools := lp\<rparr>) = vacantIDs g"
  "tradingPairForOffer (g\<lparr>liquidityPools := lp\<rparr>) = tradingPairForOffer g"
  by simp_all

lemma check_pool_entries:
  assumes "map fst lp = map fst (liquidityPools g)" "list_all (\<lambda>kv. valid_pool (snd kv)) lp"
    "list_all (\<lambda>kv. valid_pool (snd kv)) (liquidityPools g)" "valid_pool (pool_entry p)"
  shows "check_pool (g\<lparr>liquidityPools := lp\<rparr>) a k p = check_pool g a k p"
  using map_get_keys [OF assms(1-3), of "pool_entry nil_pool" "\<lparr>buyingAsset = pool_assetA p, sellingAsset = pool_assetB p\<rparr>"]
proof
  assume "map_get (pool_entry nil_pool) lp \<lparr>buyingAsset = pool_assetA p, sellingAsset = pool_assetB p\<rparr> =
    map_get (pool_entry nil_pool) (liquidityPools g) \<lparr>buyingAsset = pool_assetA p, sellingAsset = pool_assetB p\<rparr>"
  then show ?thesis unfolding check_pool_def Let_def by (simp only: graph_tables)
next
  have no_panic: "\<exists>e. assertPoolsEqual (pool_entry p) q = Inr e" if "valid_pool q" for q
    using assms(4) that by (auto simp: assertPoolsEqual_def valid_pool_def GetConstantProduct_def split: option.splits)
  assume "valid_pool (map_get (pool_entry nil_pool) lp \<lparr>buyingAsset = pool_assetA p, sellingAsset = pool_assetB p\<rparr>) \<and>
    valid_pool (map_get (pool_entry nil_pool) (liquidityPools g) \<lparr>buyingAsset = pool_assetA p, sellingAsset = pool_assetB p\<rparr>)"
  then obtain e e' where "assertPoolsEqual (pool_entry p) (map_get (pool_entry nil_pool) lp \<lparr>buyingAsset = pool_assetA p, sellingAsset = pool_assetB p\<rparr>) = Inr e"
      "assertPoolsEqual (pool_entry p) (map_get (pool_entry nil_pool) (liquidityPools g) \<lparr>buyingAsset = pool_assetA p, sellingAsset = pool_assetB p\<rparr>) = Inr e'"
    using no_panic by blast
  then show ?thesis unfolding check_pool_def Let_def by (simp only: graph_tables sum.case)
qed

lemma verify_selling_offers_entries:
  "verify_selling_offers (g\<lparr>liquidityPools := lp\<rparr>) a k bs ss prev offers v = verify_selling_offers g a k bs ss prev offers v"
  by (induction offers arbitrary: prev v) (simp_all add: Let_def split: option.splits)

lemma verify_selling_edges_entries:
  assumes "\<And>p k a. valid_pool (pool_entry p) \<Longrightarrow> check_pool (g\<lparr>liquidityPools := lp\<rparr>) a k p = check_pool g a k p"
    and "\<And>x. x \<in> set xs \<Longrightarrow> pool_set (ven_pool (edge_value x)) \<Longrightarrow> valid_pool (pool_entry (ven_pool (edge_value x)))"
  shows "verify_selling_edges (g\<lparr>liquidityPools := lp\<rparr>) a name xs v = verify_selling_edges g a name xs v"
  using assms(2)
  by (induction xs arbitrary: v)
    (auto simp: verify_selling_offers_entries assms(1) Let_def bind_result_def split: sum.splits option.splits)

lemma verify_buying_edges_entries:
  assumes "\<And>p k a. valid_pool (pool_entry p) \<Longrightarrow> check_pool (g\<lparr>liquidityPools := lp\<rparr>) a k p = check_pool g a k p"
    and "\<And>x. x \<in> set xs \<Longrightarrow> pool_set (ven_pool (edge_value x)) \<Longrightarrow> valid_pool (pool_entry (ven_pool (edge_value x)))"
  shows "verify_buying_edges (g\<lparr>liquidityPools := lp\<rparr>) a name xs v = verify_buying_edges g a name xs v"
  using assms(2)
  by (induction xs arbitrary: v) (auto simp: assms(1) Let_def bind_result_def split: sum.splits option.splits)

lemma sell_pool_valid: "base_inv g \<Longrightarrow> sell_pool g s b = Some p \<Longrightarrow> valid_pool (pool_entry p)"
  using base_inv_parts(4) unfolding pools_ok_def pool_at_def by blast

lemma base_inv_pools_valid:
  assumes base: "base_inv g"
  shows "list_all (\<lambda>kv. valid_pool (snd kv)) (liquidityPools g)"
proof -
  have ok: "pools_ok (idToAssetString g) (sell_pool g) (liquidityPools g)" using base_inv_parts(4) [OF base] .
  then have d: "distinct (map fst (liquidityPools g))" by (simp add: pools_ok_def)
  have "valid_pool e" if "(k, e) \<in> set (liquidityPools g)" for k e
    using map_of_is_SomeI [OF d that] ok sell_pool_valid [OF base] unfolding pools_ok_def by metis
  then show ?thesis by (auto simp: list_all_iff)
qed

lemma selling_pool_valid:
  assumes base: "base_inv g" and i: "i < length (venuesForSellingAsset g)"
    and x: "x \<in> set (venuesForSellingAsset g ! i)" "pool_set (ven_pool (edge_value x))"
  shows "valid_pool (pool_entry (ven_pool (edge_value x)))"
proof -
  have "edge_inv (venuesForSellingAsset g ! i)" using base_inv_parts(5) [OF base] i by (simp add: list_all_length)
  then have "sell_pool g i (edge_key x) = Some (ven_pool (edge_value x))"
    using edge_member_observers(2) i x by (simp add: sell_pool_def table_at_def)
  then show ?thesis by (rule sell_pool_valid [OF base])
qed

lemma buying_pool_valid:
  assumes base: "base_inv g" and i: "i < length (venuesForBuyingAsset g)"
    and x: "x \<in> set (venuesForBuyingAsset g ! i)" "pool_set (ven_pool (edge_value x))"
  shows "valid_pool (pool_entry (ven_pool (edge_value x)))"
  using buying_pool_met [OF assms] base_inv_pools_valid [OF base] by (auto simp: graph_LiquidityPools_def list_all_iff)

section \<open>Properties\<close>

text \<open>
  The consistency check accepts every graph the public operations can produce: \<^verbatim>\<open>Verify\<close>
  never returns an error and never panics on one, its offers are those of \<^verbatim>\<open>Offers\<close>, in
  order, and its pools are pools of \<^verbatim>\<open>LiquidityPools\<close>, one for each pool id.
\<close>
lemma Verify_complete:
  assumes "reachable g"
  shows "\<exists>pools. Verify g = Inr (graph_Offers g, pools) \<and> set pools \<subseteq> set (graph_LiquidityPools g) \<and>
    distinct (map lp_LiquidityPoolId pools) \<and> lp_LiquidityPoolId ` set pools = lp_LiquidityPoolId ` set (graph_LiquidityPools g)"
  using reachable_inv [OF assms] Verify_ok by (simp add: graph_inv_def)

lemma Verify_complete_witness:
  "\<exists>pools. Verify witness_graph = Inr (graph_Offers witness_graph, pools) \<and> set pools \<subseteq> set (graph_LiquidityPools witness_graph) \<and>
    distinct (map lp_LiquidityPoolId pools) \<and>
    lp_LiquidityPoolId ` set pools = lp_LiquidityPoolId ` set (graph_LiquidityPools witness_graph)"
proof (rule Verify_complete)
  show "reachable witness_graph"
    unfolding witness_graph_def
    by (intro reach_step [OF _ step_Apply] reach_step [OF reach_new step_AddOffers])
      (simp add: valid_offer_def witness_offer_def valid_asset_def valid_price_def MaxInt32_def)
qed

text \<open>
  C35: \<^verbatim>\<open>Verify\<close> calls \<^verbatim>\<open>assertPoolsEqual\<close> but drops its result: the pool entries of the
  \<^verbatim>\<open>liquidityPools\<close> table, which \<^verbatim>\<open>LiquidityPools\<close> returns, may be replaced by any well-formed
  ones, with other ids, assets or reserves than the venues hold, and \<^verbatim>\<open>Verify\<close> answers the same.
\<close>
theorem Verify_ignores_pool_entries:
  assumes "reachable g" and "map fst lp = map fst (liquidityPools g)" and "list_all (\<lambda>kv. valid_pool (snd kv)) lp"
  shows "Verify (g\<lparr>liquidityPools := lp\<rparr>) = Verify g"
proof -
  have base: "base_inv g" using reachable_inv [OF assms(1)] by (simp add: graph_inv_def)
  note P = base_inv_parts [OF base]
  have "list_all (\<lambda>kv. valid_pool (snd kv)) (liquidityPools g)" using base_inv_pools_valid [OF base] .
  note C = check_pool_entries [OF assms(2,3) this]
  have "verify_selling_asset (g\<lparr>liquidityPools := lp\<rparr>) i v = verify_selling_asset g i v" if "i < length (venuesForSellingAsset g)" for i v
    unfolding verify_selling_asset_def
    using verify_selling_edges_entries [OF C] selling_pool_valid [OF base that] by (simp add: Let_def split: option.splits)
  then have first: "for_ids (verify_selling_asset (g\<lparr>liquidityPools := lp\<rparr>)) [0..<length (venuesForSellingAsset g)] v =
      for_ids (verify_selling_asset g) [0..<length (venuesForSellingAsset g)] v" for v by (intro for_ids_cong) simp
  have "verify_buying_asset (g\<lparr>liquidityPools := lp\<rparr>) i v = verify_buying_asset g i v" if "i < length (venuesForBuyingAsset g)" for i v
    unfolding verify_buying_asset_def
    using verify_buying_edges_entries [OF C] buying_pool_valid [OF base that] by (simp add: Let_def)
  then have second: "for_ids (verify_buying_asset (g\<lparr>liquidityPools := lp\<rparr>)) [0..<length (venuesForBuyingAsset g)] v =
      for_ids (verify_buying_asset g) [0..<length (venuesForBuyingAsset g)] v" for v by (intro for_ids_cong) simp
  show ?thesis unfolding Verify_def graph_tables first second ..
qed

theorem Verify_ignores_pool_entries_witness:
  "Verify (witness_pool_graph\<lparr>liquidityPools := map (\<lambda>kv. (fst kv, witness_pool 11)) (liquidityPools witness_pool_graph)\<rparr>) =
   Verify witness_pool_graph"
proof (rule Verify_ignores_pool_entries)
  have ok: "valid_pool (witness_pool n)" for n
    by (simp add: valid_pool_def witness_pool_def valid_asset_def Asset_LessThan_def)
  show "reachable witness_pool_graph"
    unfolding witness_pool_graph_def
    by (intro reach_step [OF _ step_Apply] reach_step [OF reach_new step_AddLiquidityPools]) (simp add: ok)
  show "list_all (\<lambda>kv. valid_pool (snd kv)) (map (\<lambda>kv. (fst kv, witness_pool 11)) (liquidityPools witness_pool_graph))"
    by (simp add: list_all_iff ok)
qed (simp add: comp_def)

end
