(* ===== verification/Xdr_Addresses.thy ===== *)
theory Xdr_Addresses
  imports Strkey_Address Xdr_Asset
begin

text \<open>
  The strkey addresses of XDR values: multiplexed accounts (\<^verbatim>\<open>xdr/muxed_account.go\<close> and
  \<^verbatim>\<open>ToMuxedAccount\<close> of \<^verbatim>\<open>xdr/account_id.go\<close>), claimable balance ids
  (\<^verbatim>\<open>xdr/claimable_balance_id.go\<close>), signer keys (\<^verbatim>\<open>xdr/signer_key.go\<close>) and contract addresses
  (\<^verbatim>\<open>ScAddress.String\<close> of \<^verbatim>\<open>xdr/scval.go\<close>). A union is a datatype whose last constructor stands
  for a discriminant the code does not know. The XDR forms of a 64-bit id (eight bytes, big
  endian) and of a byte string (\<open>xdr_opaque\<close>) are those of RFC 4506.
\<close>

section \<open>Definitions\<close>

datatype address_error =
    StrkeyError strkey_error
  | InvalidAddressLength
  | UnknownMuxedType int
  | MuxedHasNoId
  | UnknownBalanceType int
  | UnknownSignerType int
  | InvalidSignerVersion byte
  | UnfamiliarAddressType int

definition strkey_result :: "(strkey_error, 'a) result \<Rightarrow> (address_error, 'a) result" where
  "strkey_result r = (case r of Inl err \<Rightarrow> Inl (StrkeyError err) | Inr x \<Rightarrow> Inr x)"

subsection \<open>Multiplexed accounts\<close>

datatype xdr_MuxedAccount =
    KeyTypeEd25519 bytes
  | KeyTypeMuxedEd25519 "64 word" bytes
  | KeyTypeOther int

definition SetEd25519Address :: "string \<Rightarrow> (address_error, xdr_MuxedAccount) result" where
  "SetEd25519Address address =
     (if length address = 56
      then bind_result (strkey_result (strkey_Decode VersionByteAccountID address)) (\<lambda>raw.
             Inr (KeyTypeEd25519 (go_copy (replicate 32 0) raw)))
      else Inl InvalidAddressLength)"

definition muxed_SetAddress :: "string \<Rightarrow> (address_error, xdr_MuxedAccount) result" where
  "muxed_SetAddress address =
     (if length address = 56 then SetEd25519Address address
      else if length address = 69
      then bind_result (strkey_result (strkey_Decode VersionByteMuxedAccount address)) (\<lambda>raw.
             Inr (KeyTypeMuxedEd25519 (BigEndian_Uint64 (drop 32 raw)) (go_copy (replicate 32 0) (take 32 raw))))
      else Inl InvalidAddressLength)"

fun muxed_GetAddress :: "xdr_MuxedAccount \<Rightarrow> (address_error, string) result" where
  "muxed_GetAddress (KeyTypeEd25519 ed) = strkey_result (strkey_Encode VersionByteAccountID ed)"
| "muxed_GetAddress (KeyTypeMuxedEd25519 i ed) =
     strkey_result (strkey_Encode VersionByteMuxedAccount (ed @ BigEndian_PutUint64 i))"
| "muxed_GetAddress (KeyTypeOther t) = Inl (UnknownMuxedType t)"

fun muxed_GetId :: "xdr_MuxedAccount \<Rightarrow> (address_error, 64 word) result" where
  "muxed_GetId (KeyTypeEd25519 ed) = Inl MuxedHasNoId"
| "muxed_GetId (KeyTypeMuxedEd25519 i ed) = Inr i"
| "muxed_GetId (KeyTypeOther t) = Inl (UnknownMuxedType t)"

text \<open>\<open>None\<close> is the panic on an unknown type.\<close>

fun ToAccountId :: "xdr_MuxedAccount \<Rightarrow> AccountId option" where
  "ToAccountId (KeyTypeEd25519 ed) = Some ed"
| "ToAccountId (KeyTypeMuxedEd25519 i ed) = Some ed"
| "ToAccountId (KeyTypeOther t) = None"

definition ToMuxedAccount :: "AccountId \<Rightarrow> xdr_MuxedAccount" where
  "ToMuxedAccount aid = KeyTypeEd25519 aid"

definition MuxedAccountFromAccountId :: "string \<Rightarrow> 64 word \<Rightarrow> (address_error, xdr_MuxedAccount) result" where
  "MuxedAccountFromAccountId gAddress i =
     bind_result (strkey_result (SetAddress gAddress)) (\<lambda>accountId. Inr (KeyTypeMuxedEd25519 i accountId))"

subsection \<open>Claimable balance ids\<close>

datatype ClaimableBalanceId = ClaimableBalanceIdV0 bytes | ClaimableBalanceIdOther int

fun EncodeToStrkey :: "ClaimableBalanceId \<Rightarrow> (address_error, string) result" where
  "EncodeToStrkey (ClaimableBalanceIdV0 hash) = strkey_result (strkey_Encode VersionByteClaimableBalance (0 # hash))"
| "EncodeToStrkey (ClaimableBalanceIdOther t) = Inl (UnknownBalanceType t)"

definition DecodeFromStrkey :: "string \<Rightarrow> (address_error, ClaimableBalanceId) result" where
  "DecodeFromStrkey address =
     bind_result (strkey_result (strkey_Decode VersionByteClaimableBalance address)) (\<lambda>payload.
       if payload = [] then Inl (StrkeyError SliceOutOfRange)
       else if payload ! 0 \<noteq> 0 then Inl (UnknownBalanceType (uint (payload ! 0)))
       else Inr (ClaimableBalanceIdV0 (go_copy (replicate 32 0) (drop 1 payload))))"

subsection \<open>Signer keys\<close>

datatype SignerKey =
    SignerKeyEd25519 bytes
  | SignerKeyPreAuthTx bytes
  | SignerKeyHashX bytes
  | SignerKeySignedPayload bytes bytes
  | SignerKeyOther int

text \<open>The signed payload is written after its key: \<^verbatim>\<open>copy(raw, buffer[:32])\<close> and \<^verbatim>\<open>append\<close>.\<close>

fun signer_GetAddress :: "SignerKey \<Rightarrow> (address_error, string) result" where
  "signer_GetAddress (SignerKeyEd25519 key) = strkey_result (strkey_Encode VersionByteAccountID (go_copy (replicate 32 0) key))"
| "signer_GetAddress (SignerKeyHashX key) = strkey_result (strkey_Encode VersionByteHashX (go_copy (replicate 32 0) key))"
| "signer_GetAddress (SignerKeyPreAuthTx key) = strkey_result (strkey_Encode VersionByteHashTx (go_copy (replicate 32 0) key))"
| "signer_GetAddress (SignerKeySignedPayload key payload) =
     (let buffer = key @ xdr_opaque payload in
      strkey_result (strkey_Encode VersionByteSignedPayload (go_copy (replicate 32 0) (take 32 buffer) @ drop 32 buffer)))"
| "signer_GetAddress (SignerKeyOther t) = Inl (UnknownSignerType t)"

definition signer_SetAddress :: "string \<Rightarrow> (address_error, SignerKey) result" where
  "signer_SetAddress address =
     bind_result (strkey_result (strkey_Version address)) (\<lambda>vb.
       if vb = VersionByteSignedPayload
       then bind_result (strkey_result (DecodeSignedPayload address)) (\<lambda>sp.
              bind_result (strkey_result (strkey_Decode VersionByteAccountID (sp_signer sp))) (\<lambda>pubkey.
                Inr (SignerKeySignedPayload (go_copy (replicate 32 0) pubkey) (sp_payload sp))))
       else if vb = VersionByteAccountID \<or> vb = VersionByteHashX \<or> vb = VersionByteHashTx
       then bind_result (strkey_result (strkey_Decode vb address)) (\<lambda>raw.
              let signer = go_copy (replicate 32 0) raw in
              Inr (if vb = VersionByteAccountID then SignerKeyEd25519 signer
                   else if vb = VersionByteHashX then SignerKeyHashX signer
                   else SignerKeyPreAuthTx signer))
       else Inl (InvalidSignerVersion vb))"

text \<open>\<open>None\<close> is the panic on two keys of the same unknown type.\<close>

fun SignerKey_Equals :: "SignerKey \<Rightarrow> SignerKey \<Rightarrow> bool option" where
  "SignerKey_Equals (SignerKeyEd25519 l) (SignerKeyEd25519 r) = Some (l = r)"
| "SignerKey_Equals (SignerKeyHashX l) (SignerKeyHashX r) = Some (l = r)"
| "SignerKey_Equals (SignerKeyPreAuthTx l) (SignerKeyPreAuthTx r) = Some (l = r)"
| "SignerKey_Equals (SignerKeySignedPayload l p) (SignerKeySignedPayload r q) = Some (l = r \<and> p = q)"
| "SignerKey_Equals (SignerKeyOther t) (SignerKeyOther u) = (if t \<noteq> u then Some False else None)"
| "SignerKey_Equals _ _ = Some False"

subsection \<open>Contract addresses\<close>

datatype ScAddress =
    ScAddressAccount AccountId
  | ScAddressContract bytes
  | ScAddressMuxedAccount "64 word" bytes
  | ScAddressClaimableBalance ClaimableBalanceId
  | ScAddressLiquidityPool bytes
  | ScAddressMuxedContract "64 word" bytes
  | ScAddressOther int

fun ScAddress_String :: "ScAddress \<Rightarrow> (address_error, string) result" where
  "ScAddress_String (ScAddressAccount pubkey) = strkey_result (strkey_Encode VersionByteAccountID pubkey)"
| "ScAddress_String (ScAddressContract contractID) = strkey_result (strkey_Encode VersionByteContract contractID)"
| "ScAddress_String (ScAddressMuxedAccount i ed) = muxed_GetAddress (KeyTypeMuxedEd25519 i ed)"
| "ScAddress_String (ScAddressMuxedContract i contractID) =
     strkey_result (strkey_Encode VersionByteMuxedContract (go_copy (replicate 32 0) contractID @ BigEndian_PutUint64 i))"
| "ScAddress_String (ScAddressLiquidityPool poolID) = strkey_result (strkey_Encode VersionByteLiquidityPool poolID)"
| "ScAddress_String (ScAddressClaimableBalance cbId) = EncodeToStrkey cbId"
| "ScAddress_String (ScAddressOther t) = Inl (UnfamiliarAddressType t)"

fun ScAddress_Equals :: "ScAddress \<Rightarrow> ScAddress \<Rightarrow> bool option" where
  "ScAddress_Equals (ScAddressAccount a) (ScAddressAccount b) = Some (AccountId_Equals a b)"
| "ScAddress_Equals (ScAddressContract a) (ScAddressContract b) = Some (a = b)"
| "ScAddress_Equals (ScAddressClaimableBalance a) (ScAddressClaimableBalance b) =
     (case (a, b) of (ClaimableBalanceIdV0 h, ClaimableBalanceIdV0 k) \<Rightarrow> Some (h = k) | _ \<Rightarrow> None)"
| "ScAddress_Equals (ScAddressLiquidityPool a) (ScAddressLiquidityPool b) = Some (a = b)"
| "ScAddress_Equals (ScAddressMuxedAccount i a) (ScAddressMuxedAccount j b) = Some (i = j \<and> a = b)"
| "ScAddress_Equals (ScAddressMuxedContract i a) (ScAddressMuxedContract j b) = Some (i = j \<and> a = b)"
| "ScAddress_Equals (ScAddressOther t) (ScAddressOther u) = (if t \<noteq> u then Some False else None)"
| "ScAddress_Equals _ _ = Some False"

subsection \<open>Well-formed values\<close>

text \<open>Keys and hashes are arrays of 32 bytes, payloads have 1 to 64 bytes.\<close>

fun valid_muxed :: "xdr_MuxedAccount \<Rightarrow> bool" where
  "valid_muxed (KeyTypeEd25519 ed) = (length ed = 32)"
| "valid_muxed (KeyTypeMuxedEd25519 i ed) = (length ed = 32)"
| "valid_muxed (KeyTypeOther t) = False"

fun valid_signer :: "SignerKey \<Rightarrow> bool" where
  "valid_signer (SignerKeyEd25519 key) = (length key = 32)"
| "valid_signer (SignerKeyHashX key) = (length key = 32)"
| "valid_signer (SignerKeyPreAuthTx key) = (length key = 32)"
| "valid_signer (SignerKeySignedPayload key payload) = (length key = 32 \<and> 1 \<le> length payload \<and> length payload \<le> 64)"
| "valid_signer (SignerKeyOther t) = False"

fun valid_balance_id :: "ClaimableBalanceId \<Rightarrow> bool" where
  "valid_balance_id (ClaimableBalanceIdV0 hash) = (length hash = 32)"
| "valid_balance_id (ClaimableBalanceIdOther t) = False"

fun valid_address :: "ScAddress \<Rightarrow> bool" where
  "valid_address (ScAddressAccount a) = (length a = 32)"
| "valid_address (ScAddressContract c) = (length c = 32)"
| "valid_address (ScAddressMuxedAccount i ed) = (length ed = 32)"
| "valid_address (ScAddressMuxedContract i c) = (length c = 32)"
| "valid_address (ScAddressLiquidityPool p) = (length p = 32)"
| "valid_address (ScAddressClaimableBalance cb) = valid_balance_id cb"
| "valid_address (ScAddressOther t) = False"

text \<open>The version byte and the payload behind the address of each kind of value.\<close>

fun muxed_payload :: "xdr_MuxedAccount \<Rightarrow> VersionByte \<times> bytes" where
  "muxed_payload (KeyTypeEd25519 ed) = (VersionByteAccountID, ed)"
| "muxed_payload (KeyTypeMuxedEd25519 i ed) = (VersionByteMuxedAccount, ed @ BigEndian_PutUint64 i)"
| "muxed_payload (KeyTypeOther t) = (0, [])"

fun signer_payload :: "SignerKey \<Rightarrow> VersionByte \<times> bytes" where
  "signer_payload (SignerKeyEd25519 key) = (VersionByteAccountID, key)"
| "signer_payload (SignerKeyHashX key) = (VersionByteHashX, key)"
| "signer_payload (SignerKeyPreAuthTx key) = (VersionByteHashTx, key)"
| "signer_payload (SignerKeySignedPayload key payload) = (VersionByteSignedPayload, key @ xdr_opaque payload)"
| "signer_payload (SignerKeyOther t) = (0, [])"

fun address_payload :: "ScAddress \<Rightarrow> VersionByte \<times> bytes" where
  "address_payload (ScAddressAccount a) = (VersionByteAccountID, a)"
| "address_payload (ScAddressContract c) = (VersionByteContract, c)"
| "address_payload (ScAddressMuxedAccount i ed) = (VersionByteMuxedAccount, ed @ BigEndian_PutUint64 i)"
| "address_payload (ScAddressMuxedContract i c) = (VersionByteMuxedContract, c @ BigEndian_PutUint64 i)"
| "address_payload (ScAddressLiquidityPool p) = (VersionByteLiquidityPool, p)"
| "address_payload (ScAddressClaimableBalance (ClaimableBalanceIdV0 h)) = (VersionByteClaimableBalance, 0 # h)"
| "address_payload _ = (0, [])"

section \<open>Addresses as encodings\<close>

lemma strkey_result_simps [simp]:
  "strkey_result (Inr x) = Inr x" "strkey_result (Inl e) = Inl (StrkeyError e)"
  "strkey_result r = Inr y \<longleftrightarrow> r = Inr y"
  by (simp_all add: strkey_result_def split: sum.splits)

lemma other_payload_lengths:
  "checkPayloadLength VersionByteHashX p = None \<longleftrightarrow> length p = 32"
  "checkPayloadLength VersionByteHashTx p = None \<longleftrightarrow> length p = 32"
  "checkPayloadLength VersionByteLiquidityPool p = None \<longleftrightarrow> length p = 32"
  "checkPayloadLength VersionByteClaimableBalance p = None \<longleftrightarrow> length p = 33"
  by (simp_all add: checkPayloadLength_def version_byte_values)

lemmas all_payload_lengths = payload_lengths other_payload_lengths

lemma strkey_Encode_inject:
  assumes "checkPayloadLength v p = None" "checkPayloadLength w q = None" "strkey_Encode v p = strkey_Encode w q"
  shows "v = w \<and> p = q"
proof -
  obtain s where s: "strkey_Encode v p = Inr s" using strkey_Encode_total [OF assms(1)] by blast
  then have "DecodeAny s = Inr (v, p)" "DecodeAny s = Inr (w, q)"
    using assms by (simp_all add: strkey_decoders_iff)
  then show ?thesis by simp
qed

lemma strkey_Encode_length:
  "strkey_Encode v p = Inr s \<Longrightarrow> length s = EncodedLen (3 + length p)"
  by (auto simp: strkey_Encode_Inr base32_Encode_bits LittleEndian_PutUint16_def numeral_3_eq_3)

text \<open>An address type whose values are given by their version byte and payload.\<close>

lemma payloads_ok:
  "valid_muxed m \<Longrightarrow> checkPayloadLength (fst (muxed_payload m)) (snd (muxed_payload m)) = None"
  "valid_signer k \<Longrightarrow> checkPayloadLength (fst (signer_payload k)) (snd (signer_payload k)) = None"
  "valid_address a \<Longrightarrow> checkPayloadLength (fst (address_payload a)) (snd (address_payload a)) = None"
proof -
  show "valid_muxed m \<Longrightarrow> checkPayloadLength (fst (muxed_payload m)) (snd (muxed_payload m)) = None"
    by (cases m) (simp_all add: all_payload_lengths)
  show "valid_signer k \<Longrightarrow> checkPayloadLength (fst (signer_payload k)) (snd (signer_payload k)) = None"
    by (cases k) (simp_all add: all_payload_lengths xdr_opaque_payload(1))
  show "valid_address a \<Longrightarrow> checkPayloadLength (fst (address_payload a)) (snd (address_payload a)) = None"
    by (cases a rule: address_payload.cases) (simp_all add: all_payload_lengths)
qed

lemma addresses_encode_payloads:
  "valid_muxed m \<Longrightarrow> muxed_GetAddress m = strkey_result (strkey_Encode (fst (muxed_payload m)) (snd (muxed_payload m)))"
  "valid_signer k \<Longrightarrow> signer_GetAddress k = strkey_result (strkey_Encode (fst (signer_payload k)) (snd (signer_payload k)))"
  "valid_address a \<Longrightarrow> ScAddress_String a = strkey_result (strkey_Encode (fst (address_payload a)) (snd (address_payload a)))"
proof -
  show "valid_muxed m \<Longrightarrow> muxed_GetAddress m = strkey_result (strkey_Encode (fst (muxed_payload m)) (snd (muxed_payload m)))"
    by (cases m) simp_all
  show "valid_signer k \<Longrightarrow> signer_GetAddress k = strkey_result (strkey_Encode (fst (signer_payload k)) (snd (signer_payload k)))"
    by (cases k) (simp_all add: Let_def)
  show "valid_address a \<Longrightarrow> ScAddress_String a = strkey_result (strkey_Encode (fst (address_payload a)) (snd (address_payload a)))"
    by (cases a rule: address_payload.cases) simp_all
qed

lemma BigEndian_PutUint64_inject [simp]: "BigEndian_PutUint64 i = BigEndian_PutUint64 j \<longleftrightarrow> i = j"
  by (metis BigEndian_64(2))

lemma address_payload_inject:
  assumes "valid_address a" "valid_address b" "address_payload a = address_payload b"
  shows "a = b"
  using assms
  by (cases a rule: address_payload.cases; cases b rule: address_payload.cases) (simp_all add: version_byte_values)

section \<open>Reading addresses\<close>

lemma muxed_SetAddress_Inr:
  "muxed_SetAddress t = Inr m \<longleftrightarrow> valid_muxed m \<and> strkey_Decode (fst (muxed_payload m)) t = Inr (snd (muxed_payload m))"
proof -
  have len: "length t = EncodedLen (3 + length p)" "checkPayloadLength v p = None" if "strkey_Decode v t = Inr p" for v p
    using that strkey_Encode_length by (auto simp: strkey_Decode_iff)
  have ed: "strkey_Decode VersionByteAccountID t = Inr raw \<Longrightarrow> length t = 56 \<and> length raw = 32" for raw
    using len [of VersionByteAccountID raw] by (simp add: payload_lengths EncodedLen_def)
  have med: "strkey_Decode VersionByteMuxedAccount t = Inr raw \<Longrightarrow> length t = 69 \<and> length raw = 40" for raw
    using len [of VersionByteMuxedAccount raw] by (simp add: payload_lengths EncodedLen_def)
  have split: "length raw = 40 \<Longrightarrow>
      raw = k @ BigEndian_PutUint64 i \<and> length k = 32 \<longleftrightarrow> BigEndian_Uint64 (drop 32 raw) = i \<and> take 32 raw = k" for raw k i
    using append_take_drop_id [of 32 raw] BigEndian_64(3) [of "drop 32 raw"] by auto
  show ?thesis
  proof (cases m)
    case (KeyTypeEd25519 k)
    then show ?thesis using ed by (auto simp: muxed_SetAddress_def SetEd25519Address_def bind_result_eq_Inr)
  next
    case (KeyTypeMuxedEd25519 i k)
    then show ?thesis using med split [of _ k i]
      by (auto simp: muxed_SetAddress_def SetEd25519Address_def bind_result_eq_Inr)
  qed (simp add: muxed_SetAddress_def SetEd25519Address_def bind_result_eq_Inr)
qed

lemma strkey_Version_Decode: "strkey_Decode v t = Inr p \<Longrightarrow> strkey_Version t = Inr v"
  by (auto simp: strkey_Decode_def strkey_Version_def Let_def split: option.splits sum.splits if_splits)

lemma signer_SetAddress_Inr:
  "signer_SetAddress t = Inr k \<longleftrightarrow> valid_signer k \<and> strkey_Decode (fst (signer_payload k)) t = Inr (snd (signer_payload k))"
proof
  assume L: "signer_SetAddress t = Inr k"
  have l: "strkey_Decode v t = Inr raw \<Longrightarrow> v \<in> {VersionByteAccountID, VersionByteHashX, VersionByteHashTx} \<Longrightarrow> length raw = 32" for v t raw
    by (auto simp: strkey_Decode_iff all_payload_lengths)
  show "valid_signer k \<and> strkey_Decode (fst (signer_payload k)) t = Inr (snd (signer_payload k))"
  proof (cases "strkey_Version t = Inr VersionByteSignedPayload")
    case True
    then obtain sp pubkey where "DecodeSignedPayload t = Inr sp" "strkey_Decode VersionByteAccountID (sp_signer sp) = Inr pubkey"
        "k = SignerKeySignedPayload (go_copy (replicate 32 0) pubkey) (sp_payload sp)"
      using L by (auto simp: signer_SetAddress_def bind_result_eq_Inr)
    then show ?thesis using l [of VersionByteAccountID "sp_signer sp" pubkey] by (auto simp: DecodeSignedPayload_Inr)
  next
    case False
    obtain v where v: "strkey_Version t = Inr v" using L by (cases "strkey_Version t") (simp_all add: signer_SetAddress_def)
    then have nv: "v \<noteq> VersionByteSignedPayload" using False by simp
    have in3: "v = VersionByteAccountID \<or> v = VersionByteHashX \<or> v = VersionByteHashTx"
      using L v nv by (simp add: signer_SetAddress_def split: if_split_asm)
    obtain raw where raw: "strkey_Decode v t = Inr raw"
      and k: "k = (if v = VersionByteAccountID then SignerKeyEd25519 (go_copy (replicate 32 0) raw)
              else if v = VersionByteHashX then SignerKeyHashX (go_copy (replicate 32 0) raw)
              else SignerKeyPreAuthTx (go_copy (replicate 32 0) raw))"
      using L v nv in3 by (cases "strkey_Decode v t") (simp_all add: signer_SetAddress_def Let_def)
    have "length raw = 32" using l [OF raw] in3 by blast
    then show ?thesis using raw in3 k by (auto simp: version_byte_values)
  qed
next
  assume R: "valid_signer k \<and> strkey_Decode (fst (signer_payload k)) t = Inr (snd (signer_payload k))"
  then have v: "strkey_Version t = Inr (fst (signer_payload k))" using strkey_Version_Decode by blast
  show "signer_SetAddress t = Inr k"
  proof (cases k)
    case (SignerKeySignedPayload key payload)
    have key: "length key = 32" "1 \<le> length payload" "length payload \<le> 64" using R SignerKeySignedPayload by simp_all
    obtain a where a: "strkey_Decode VersionByteAccountID a = Inr key"
      using unique_preimage [of VersionByteAccountID key] key by (auto simp: payload_lengths)
    have "DecodeSignedPayload t = Inr \<lparr>sp_signer = a, sp_payload = payload\<rparr>"
      using R a key SignerKeySignedPayload by (simp add: DecodeSignedPayload_Inr)
    then show ?thesis using v a key SignerKeySignedPayload by (simp add: signer_SetAddress_def)
  qed (use R v in \<open>simp_all add: signer_SetAddress_def version_byte_values\<close>)
qed

lemma DecodeFromStrkey_Inr:
  "DecodeFromStrkey t = Inr c \<longleftrightarrow>
    (\<exists>h. c = ClaimableBalanceIdV0 h \<and> length h = 32 \<and> strkey_Decode VersionByteClaimableBalance t = Inr (0 # h))"
proof -
  have "length p = 33" if "strkey_Decode VersionByteClaimableBalance t = Inr p" for p
    using that by (simp add: strkey_Decode_iff all_payload_lengths)
  moreover have "\<exists>h. p = p ! 0 # h \<and> length h = 32" if "length p = 33" for p :: bytes
    using that by (cases p) auto
  ultimately show ?thesis
    by (cases "strkey_Decode VersionByteClaimableBalance t") (fastforce simp: DecodeFromStrkey_def split: if_splits)+
qed

section \<open>Properties\<close>

text \<open>
  Every account with or without a multiplexing id has one address: \<^verbatim>\<open>GetAddress\<close> succeeds, and
  the string is the only one that \<^verbatim>\<open>SetAddress\<close> reads as that account. The underlying account
  and the id are kept.
\<close>
lemma muxed_address_unique:
  assumes "valid_muxed m"
  shows "\<exists>s. muxed_GetAddress m = Inr s \<and> (\<forall>t. muxed_SetAddress t = Inr m \<longleftrightarrow> t = s)"
  using unique_preimage [OF payloads_ok(1) [OF assms]] assms
  by (auto simp: addresses_encode_payloads muxed_SetAddress_Inr)

lemma muxed_address_unique_witness:
  "\<exists>s. muxed_GetAddress (KeyTypeMuxedEd25519 1234 (replicate 32 7)) = Inr s \<and>
    (\<forall>t. muxed_SetAddress t = Inr (KeyTypeMuxedEd25519 1234 (replicate 32 7)) \<longleftrightarrow> t = s)"
  by (rule muxed_address_unique) simp

text \<open>
  Every signer key of the four kinds has one address: \<^verbatim>\<open>GetAddress\<close> succeeds, and the string is
  the only one that \<^verbatim>\<open>SetAddress\<close> reads as that key; \<^verbatim>\<open>Equals\<close> decides equality of keys.
\<close>
lemma signer_address_unique:
  assumes "valid_signer k"
  shows "\<exists>s. signer_GetAddress k = Inr s \<and> (\<forall>t. signer_SetAddress t = Inr k \<longleftrightarrow> t = s) \<and>
    SignerKey_Equals k l = Some (k = l)"
proof -
  have "SignerKey_Equals k l = Some (k = l)" using assms by (cases k; cases l) auto
  then show ?thesis
    using unique_preimage [OF payloads_ok(2) [OF assms]] assms
    by (auto simp: addresses_encode_payloads signer_SetAddress_Inr)
qed

lemma signer_address_unique_witness:
  "\<exists>s. signer_GetAddress (SignerKeySignedPayload (replicate 32 7) [1, 2, 3]) = Inr s \<and>
    (\<forall>t. signer_SetAddress t = Inr (SignerKeySignedPayload (replicate 32 7) [1, 2, 3]) \<longleftrightarrow> t = s) \<and>
    SignerKey_Equals (SignerKeySignedPayload (replicate 32 7) [1, 2, 3]) (SignerKeyHashX (replicate 32 7)) =
      Some (SignerKeySignedPayload (replicate 32 7) [1, 2, 3] = SignerKeyHashX (replicate 32 7))"
  by (rule signer_address_unique) simp

text \<open>
  The string of a contract address identifies it: for addresses of the six kinds, \<^verbatim>\<open>String\<close>
  succeeds, and two addresses have the same string exactly when \<^verbatim>\<open>Equals\<close> holds of them, which
  never panics. A claimable balance id is read back from its string.
\<close>
lemma ScAddress_String_identifies:
  assumes "valid_address a" and "valid_address b"
  shows "(\<exists>s. ScAddress_String a = Inr s) \<and>
    ScAddress_Equals a b = Some (ScAddress_String a = ScAddress_String b) \<and>
    (a = ScAddressClaimableBalance c \<longrightarrow> ScAddress_String a = Inr s \<longrightarrow> DecodeFromStrkey s = Inr c)"
proof (intro conjI impI)
  show "\<exists>s. ScAddress_String a = Inr s"
    using strkey_Encode_total [OF payloads_ok(3) [OF assms(1)]] assms by (auto simp: addresses_encode_payloads)
  have "ScAddress_String a = ScAddress_String b \<longleftrightarrow> a = b"
  proof
    assume "ScAddress_String a = ScAddress_String b"
    then have "strkey_Encode (fst (address_payload a)) (snd (address_payload a)) =
        strkey_Encode (fst (address_payload b)) (snd (address_payload b))"
      using strkey_Encode_total [OF payloads_ok(3) [OF assms(1)]] strkey_Encode_total [OF payloads_ok(3) [OF assms(2)]] assms
      by (auto simp: addresses_encode_payloads)
    then have "address_payload a = address_payload b"
      using strkey_Encode_inject payloads_ok(3) assms by (metis prod.collapse)
    then show "a = b" by (rule address_payload_inject [OF assms])
  qed simp
  moreover have "ScAddress_Equals a b = Some (a = b)"
    using assms by (cases a rule: address_payload.cases; cases b rule: address_payload.cases)
      (auto simp: AccountId_Equals_def split: ClaimableBalanceId.splits)
  ultimately show "ScAddress_Equals a b = Some (ScAddress_String a = ScAddress_String b)" by simp
  assume c: "a = ScAddressClaimableBalance c" "ScAddress_String a = Inr s"
  then obtain h where h: "c = ClaimableBalanceIdV0 h" "length h = 32" using assms(1) by (cases c) simp_all
  then show "DecodeFromStrkey s = Inr c"
    using c by (simp add: DecodeFromStrkey_Inr strkey_Decode_iff all_payload_lengths)
qed

lemma ScAddress_String_identifies_witness:
  "(\<exists>s. ScAddress_String (ScAddressContract (replicate 32 1)) = Inr s) \<and>
   ScAddress_Equals (ScAddressContract (replicate 32 1)) (ScAddressLiquidityPool (replicate 32 1)) =
     Some (ScAddress_String (ScAddressContract (replicate 32 1)) = ScAddress_String (ScAddressLiquidityPool (replicate 32 1)))"
  using ScAddress_String_identifies [of "ScAddressContract (replicate 32 1)" "ScAddressLiquidityPool (replicate 32 1)"] by simp

end
