(* ===== verification/Xdr_ScVal.thy ===== *)
theory Xdr_ScVal
  imports Xdr_Addresses
begin

text \<open>
  Contract values and their comparison (\<^verbatim>\<open>xdr/scval.go\<close>, and \<^verbatim>\<open>Hash.Equals\<close> of \<^verbatim>\<open>xdr/hash.go\<close>). A
  union is a datatype; its last constructor stands for a discriminant that the code does not
  know, on which \<^verbatim>\<open>Equals\<close> panics (\<open>None\<close>). A pointer to a vector or map is an option.
\<close>

section \<open>Definitions\<close>

text \<open>\<^verbatim>\<open>Hash.Equals\<close>: a loop over the bytes.\<close>

fun Hash_Equals_loop :: "bytes \<Rightarrow> bytes \<Rightarrow> bool" where
  "Hash_Equals_loop (x # s) (y # t) = (x = y \<and> Hash_Equals_loop s t)"
| "Hash_Equals_loop _ _ = True"

definition Hash_Equals :: "bytes \<Rightarrow> bytes \<Rightarrow> bool" where
  "Hash_Equals s t \<longleftrightarrow> length s = length t \<and> Hash_Equals_loop s t"

text \<open>The arm of an \<^verbatim>\<open>ScError\<close> is a contract code for type 0 and an error code for types 1 to 9.\<close>

datatype ScError = ScErrorContract "32 word" | ScErrorCode nat int | ScErrorOther int

datatype ContractExecutable =
    ContractExecutableWasm bytes
  | ContractExecutableStellarAsset
  | ContractExecutableExternalRef ScAddress string
  | ContractExecutableOther int

datatype ScVal =
    ScvBool bool
  | ScvVoid
  | ScvError ScError
  | ScvU32 "32 word" | ScvI32 "32 word"
  | ScvU64 "64 word" | ScvI64 "64 word"
  | ScvTimepoint "64 word" | ScvDuration "64 word"
  | ScvU128 "64 word" "64 word" | ScvI128 "64 word" "64 word"
  | ScvU256 "64 word" "64 word" "64 word" "64 word" | ScvI256 "64 word" "64 word" "64 word" "64 word"
  | ScvBytes bytes
  | ScvString string
  | ScvSymbol string
  | ScvVec "ScVal list option"
  | ScvMap "(ScVal \<times> ScVal) list option"
  | ScvAddress ScAddress
  | ScvContractInstance ContractExecutable "(ScVal \<times> ScVal) list option"
  | ScvLedgerKeyContractInstance
  | ScvLedgerKeyNonce "64 word"
  | ScvExecutableTag string
  | ScvOther int

text \<open>The operator \<^verbatim>\<open>&&\<close> on conditions that may panic.\<close>

definition and_then :: "bool option \<Rightarrow> bool option \<Rightarrow> bool option" where
  "and_then a b = (case a of Some True \<Rightarrow> b | x \<Rightarrow> x)"

fun ScError_Equals :: "ScError \<Rightarrow> ScError \<Rightarrow> bool option" where
  "ScError_Equals (ScErrorContract c) (ScErrorContract d) = Some (c = d)"
| "ScError_Equals (ScErrorCode t c) (ScErrorCode u d) =
     (if t \<noteq> u then Some False else if 1 \<le> t \<and> t \<le> 9 then Some (c = d) else None)"
| "ScError_Equals (ScErrorOther t) (ScErrorOther u) = (if t \<noteq> u then Some False else None)"
| "ScError_Equals _ _ = Some False"

fun ContractExecutable_Equals :: "ContractExecutable \<Rightarrow> ContractExecutable \<Rightarrow> bool option" where
  "ContractExecutable_Equals ContractExecutableStellarAsset ContractExecutableStellarAsset = Some True"
| "ContractExecutable_Equals (ContractExecutableWasm h) (ContractExecutableWasm k) = Some (Hash_Equals h k)"
| "ContractExecutable_Equals (ContractExecutableExternalRef a s) (ContractExecutableExternalRef b t) =
     and_then (ScAddress_Equals a b) (Some (s = t))"
| "ContractExecutable_Equals (ContractExecutableOther t) (ContractExecutableOther u) = (if t \<noteq> u then Some False else None)"
| "ContractExecutable_Equals _ _ = Some False"

text \<open>
  \<^verbatim>\<open>ScVal.Equals\<close> with the loops of \<^verbatim>\<open>ScVec.Equals\<close> and \<^verbatim>\<open>ScMap.Equals\<close>. Values of different types are
  not equal; the arms of a type are compared in the branch of that type.
\<close>

function (sequential) ScVal_Equals :: "ScVal \<Rightarrow> ScVal \<Rightarrow> bool option"
  and ScVec_Equals :: "ScVal list option \<Rightarrow> ScVal list option \<Rightarrow> bool option"
  and ScVec_loop :: "ScVal list \<Rightarrow> ScVal list \<Rightarrow> bool option"
  and ScMap_Equals :: "(ScVal \<times> ScVal) list option \<Rightarrow> (ScVal \<times> ScVal) list option \<Rightarrow> bool option"
  and ScMap_loop :: "(ScVal \<times> ScVal) list \<Rightarrow> (ScVal \<times> ScVal) list \<Rightarrow> bool option" where
  "ScVal_Equals (ScvBool a) s = (case s of ScvBool b \<Rightarrow> Some (a = b) | _ \<Rightarrow> Some False)"
| "ScVal_Equals ScvVoid s = (case s of ScvVoid \<Rightarrow> Some True | _ \<Rightarrow> Some False)"
| "ScVal_Equals (ScvError a) s = (case s of ScvError b \<Rightarrow> ScError_Equals a b | _ \<Rightarrow> Some False)"
| "ScVal_Equals (ScvU32 a) s = (case s of ScvU32 b \<Rightarrow> Some (a = b) | _ \<Rightarrow> Some False)"
| "ScVal_Equals (ScvI32 a) s = (case s of ScvI32 b \<Rightarrow> Some (a = b) | _ \<Rightarrow> Some False)"
| "ScVal_Equals (ScvU64 a) s = (case s of ScvU64 b \<Rightarrow> Some (a = b) | _ \<Rightarrow> Some False)"
| "ScVal_Equals (ScvI64 a) s = (case s of ScvI64 b \<Rightarrow> Some (a = b) | _ \<Rightarrow> Some False)"
| "ScVal_Equals (ScvTimepoint a) s = (case s of ScvTimepoint b \<Rightarrow> Some (a = b) | _ \<Rightarrow> Some False)"
| "ScVal_Equals (ScvDuration a) s = (case s of ScvDuration b \<Rightarrow> Some (a = b) | _ \<Rightarrow> Some False)"
| "ScVal_Equals (ScvU128 h l) s = (case s of ScvU128 h' l' \<Rightarrow> Some (h = h' \<and> l = l') | _ \<Rightarrow> Some False)"
| "ScVal_Equals (ScvI128 h l) s = (case s of ScvI128 h' l' \<Rightarrow> Some (h = h' \<and> l = l') | _ \<Rightarrow> Some False)"
| "ScVal_Equals (ScvU256 a b c d) s = (case s of ScvU256 a' b' c' d' \<Rightarrow> Some (a = a' \<and> b = b' \<and> c = c' \<and> d = d') | _ \<Rightarrow> Some False)"
| "ScVal_Equals (ScvI256 a b c d) s = (case s of ScvI256 a' b' c' d' \<Rightarrow> Some (a = a' \<and> b = b' \<and> c = c' \<and> d = d') | _ \<Rightarrow> Some False)"
| "ScVal_Equals (ScvBytes a) s = (case s of ScvBytes b \<Rightarrow> Some (a = b) | _ \<Rightarrow> Some False)"
| "ScVal_Equals (ScvString a) s = (case s of ScvString b \<Rightarrow> Some (a = b) | _ \<Rightarrow> Some False)"
| "ScVal_Equals (ScvSymbol a) s = (case s of ScvSymbol b \<Rightarrow> Some (a = b) | _ \<Rightarrow> Some False)"
| "ScVal_Equals (ScvVec v) s = (case s of ScvVec w \<Rightarrow> ScVec_Equals v w | _ \<Rightarrow> Some False)"
| "ScVal_Equals (ScvMap m) s = (case s of ScvMap n \<Rightarrow> ScMap_Equals m n | _ \<Rightarrow> Some False)"
| "ScVal_Equals (ScvAddress a) s = (case s of ScvAddress b \<Rightarrow> ScAddress_Equals a b | _ \<Rightarrow> Some False)"
| "ScVal_Equals (ScvContractInstance x m) s =
     (case s of ScvContractInstance y n \<Rightarrow> and_then (ContractExecutable_Equals x y) (ScMap_Equals m n) | _ \<Rightarrow> Some False)"
| "ScVal_Equals ScvLedgerKeyContractInstance s = (case s of ScvLedgerKeyContractInstance \<Rightarrow> Some True | _ \<Rightarrow> Some False)"
| "ScVal_Equals (ScvLedgerKeyNonce a) s = (case s of ScvLedgerKeyNonce b \<Rightarrow> Some (a = b) | _ \<Rightarrow> Some False)"
| "ScVal_Equals (ScvExecutableTag a) s = (case s of ScvExecutableTag b \<Rightarrow> Some (a = b) | _ \<Rightarrow> Some False)"
| "ScVal_Equals (ScvOther t) s = (case s of ScvOther u \<Rightarrow> if t \<noteq> u then Some False else None | _ \<Rightarrow> Some False)"
| "ScVec_Equals None w = Some (w = None)"
| "ScVec_Equals (Some xs) w =
     (case w of None \<Rightarrow> Some False | Some ys \<Rightarrow> if length xs \<noteq> length ys then Some False else ScVec_loop xs ys)"
| "ScVec_loop (x # xs) (y # ys) = and_then (ScVal_Equals x y) (ScVec_loop xs ys)"
| "ScVec_loop _ _ = Some True"
| "ScMap_Equals None w = Some (w = None)"
| "ScMap_Equals (Some xs) w =
     (case w of None \<Rightarrow> Some False | Some ys \<Rightarrow> if length xs \<noteq> length ys then Some False else ScMap_loop xs ys)"
| "ScMap_loop ((k, v) # xs) ((k', v') # ys) =
     and_then (and_then (ScVal_Equals k k') (ScVal_Equals v v')) (ScMap_loop xs ys)"
| "ScMap_loop _ _ = Some True"
  by pat_completeness auto
termination
  by (relation "measure (\<lambda>x. case x of
        Inl (Inl (a, _)) \<Rightarrow> size a
      | Inl (Inr (v, _)) \<Rightarrow> size_option (size_list size) v
      | Inr (Inl (xs, _)) \<Rightarrow> size_list size xs
      | Inr (Inr (Inl (m, _))) \<Rightarrow> size_option (size_list (size_prod size size)) m
      | Inr (Inr (Inr (xs, _))) \<Rightarrow> size_list (size_prod size size) xs)") simp_all

text \<open>Values whose discriminants are all known.\<close>

definition known_error :: "ScError \<Rightarrow> bool" where
  "known_error e = (case e of ScErrorContract c \<Rightarrow> True | ScErrorCode t c \<Rightarrow> 1 \<le> t \<and> t \<le> 9 | ScErrorOther t \<Rightarrow> False)"

definition known_address :: "ScAddress \<Rightarrow> bool" where
  "known_address a = (case a of ScAddressClaimableBalance (ClaimableBalanceIdOther t) \<Rightarrow> False | ScAddressOther t \<Rightarrow> False | _ \<Rightarrow> True)"

definition known_executable :: "ContractExecutable \<Rightarrow> bool" where
  "known_executable x = (case x of ContractExecutableExternalRef a s \<Rightarrow> known_address a | ContractExecutableOther t \<Rightarrow> False | _ \<Rightarrow> True)"

definition known_entries :: "(bool \<times> bool) list option \<Rightarrow> bool" where
  "known_entries m = (case m of None \<Rightarrow> True | Some xs \<Rightarrow> list_all (\<lambda>kv. fst kv \<and> snd kv) xs)"

definition known_items :: "bool list option \<Rightarrow> bool" where
  "known_items v = (case v of None \<Rightarrow> True | Some bs \<Rightarrow> list_all id bs)"

primrec known_val :: "ScVal \<Rightarrow> bool" where
  "known_val (ScvBool a) = True"
| "known_val ScvVoid = True"
| "known_val (ScvError e) = known_error e"
| "known_val (ScvU32 a) = True"
| "known_val (ScvI32 a) = True"
| "known_val (ScvU64 a) = True"
| "known_val (ScvI64 a) = True"
| "known_val (ScvTimepoint a) = True"
| "known_val (ScvDuration a) = True"
| "known_val (ScvU128 a b) = True"
| "known_val (ScvI128 a b) = True"
| "known_val (ScvU256 a b c d) = True"
| "known_val (ScvI256 a b c d) = True"
| "known_val (ScvBytes a) = True"
| "known_val (ScvString a) = True"
| "known_val (ScvSymbol a) = True"
| "known_val (ScvVec v) = known_items (map_option (map known_val) v)"
| "known_val (ScvMap m) = known_entries (map_option (map (map_prod known_val known_val)) m)"
| "known_val (ScvAddress a) = known_address a"
| "known_val (ScvContractInstance x m) = (known_executable x \<and> known_entries (map_option (map (map_prod known_val known_val)) m))"
| "known_val ScvLedgerKeyContractInstance = True"
| "known_val (ScvLedgerKeyNonce a) = True"
| "known_val (ScvExecutableTag a) = True"
| "known_val (ScvOther t) = False"

section \<open>Comparison\<close>

lemma Hash_Equals_iff [simp]: "Hash_Equals s t \<longleftrightarrow> s = t"
proof -
  have "length s = length t \<Longrightarrow> Hash_Equals_loop s t \<longleftrightarrow> s = t" by (induction s t rule: list_induct2) auto
  then show ?thesis by (auto simp: Hash_Equals_def)
qed

lemma and_then_Some [simp]: "and_then (Some a) (Some b) = Some (a \<and> b)"
  by (cases a) (simp_all add: and_then_def)

lemma ScAddress_Equals_iff: "known_address a \<Longrightarrow> known_address b \<Longrightarrow> ScAddress_Equals a b = Some (a = b)"
  by (cases a rule: address_payload.cases; cases b rule: address_payload.cases)
    (auto simp: known_address_def AccountId_Equals_def split: ClaimableBalanceId.splits)

lemma ScError_Equals_iff: "known_error e \<Longrightarrow> ScError_Equals e f = Some (e = f)"
  by (cases e; cases f) (auto simp: known_error_def)

lemma ContractExecutable_Equals_iff:
  "known_executable x \<Longrightarrow> known_executable y \<Longrightarrow> ContractExecutable_Equals x y = Some (x = y)"
  by (cases x; cases y) (auto simp: known_executable_def ScAddress_Equals_iff)

lemma known_entries_map:
  "known_entries (map_option (map (map_prod known_val known_val)) m) \<longleftrightarrow>
    (case m of None \<Rightarrow> True | Some xs \<Rightarrow> list_all (\<lambda>kv. known_val (fst kv) \<and> known_val (snd kv)) xs)"
  by (cases m) (simp_all add: known_entries_def list_all_iff)

lemma known_vec_map:
  "known_items (map_option (map known_val) v) \<longleftrightarrow> (case v of None \<Rightarrow> True | Some xs \<Rightarrow> list_all known_val xs)"
  by (cases v) (simp_all add: known_items_def list_all_iff)

lemmas known_cases = known_entries_map known_vec_map ScAddress_Equals_iff ScError_Equals_iff ContractExecutable_Equals_iff

lemma Equals_iff:
  "known_val s \<Longrightarrow> known_val t \<Longrightarrow> ScVal_Equals s t = Some (s = t)"
  "case v of None \<Rightarrow> True | Some xs \<Rightarrow> list_all known_val xs \<Longrightarrow>
   case w of None \<Rightarrow> True | Some xs \<Rightarrow> list_all known_val xs \<Longrightarrow> ScVec_Equals v w = Some (v = w)"
  "length xs = length ys \<Longrightarrow> list_all known_val xs \<Longrightarrow> list_all known_val ys \<Longrightarrow> ScVec_loop xs ys = Some (xs = ys)"
  "case m of None \<Rightarrow> True | Some xs \<Rightarrow> list_all (\<lambda>kv. known_val (fst kv) \<and> known_val (snd kv)) xs \<Longrightarrow>
   case n of None \<Rightarrow> True | Some xs \<Rightarrow> list_all (\<lambda>kv. known_val (fst kv) \<and> known_val (snd kv)) xs \<Longrightarrow>
   ScMap_Equals m n = Some (m = n)"
  "length es = length fs \<Longrightarrow> list_all (\<lambda>kv. known_val (fst kv) \<and> known_val (snd kv)) es \<Longrightarrow>
   list_all (\<lambda>kv. known_val (fst kv) \<and> known_val (snd kv)) fs \<Longrightarrow> ScMap_loop es fs = Some (es = fs)"
proof (induction s t and v w and xs ys and m n and es fs rule: ScVal_Equals_ScVec_Equals_ScVec_loop_ScMap_Equals_ScMap_loop.induct)
  case (1 a s)
  then show ?case by (cases s) (simp_all add: known_cases)
next
  case (2 s)
  then show ?case by (cases s) (simp_all add: known_cases)
next
  case (3 a s)
  then show ?case by (cases s) (simp_all add: known_cases)
next
  case (4 a s)
  then show ?case by (cases s) (simp_all add: known_cases)
next
  case (5 a s)
  then show ?case by (cases s) (simp_all add: known_cases)
next
  case (6 a s)
  then show ?case by (cases s) (simp_all add: known_cases)
next
  case (7 a s)
  then show ?case by (cases s) (simp_all add: known_cases)
next
  case (8 a s)
  then show ?case by (cases s) (simp_all add: known_cases)
next
  case (9 a s)
  then show ?case by (cases s) (simp_all add: known_cases)
next
  case (10 h l s)
  then show ?case by (cases s) (simp_all add: known_cases)
next
  case (11 h l s)
  then show ?case by (cases s) (simp_all add: known_cases)
next
  case (12 a b c d s)
  then show ?case by (cases s) (simp_all add: known_cases)
next
  case (13 a b c d s)
  then show ?case by (cases s) (simp_all add: known_cases)
next
  case (14 a s)
  then show ?case by (cases s) (simp_all add: known_cases)
next
  case (15 a s)
  then show ?case by (cases s) (simp_all add: known_cases)
next
  case (16 a s)
  then show ?case by (cases s) (simp_all add: known_cases)
next
  case (17 v s)
  then show ?case by (cases s) (simp_all add: known_cases)
next
  case (18 m s)
  then show ?case by (cases s) (simp_all add: known_cases)
next
  case (19 a s)
  then show ?case by (cases s) (simp_all add: known_cases)
next
  case (20 x m s)
  then show ?case by (cases s) (simp_all add: known_cases)
next
  case (21 s)
  then show ?case by (cases s) (simp_all add: known_cases)
next
  case (22 a s)
  then show ?case by (cases s) (simp_all add: known_cases)
next
  case (23 a s)
  then show ?case by (cases s) (simp_all add: known_cases)
next
  case (24 t s)
  then show ?case by (cases s) (simp_all add: known_cases)
next
  case (26 xs w)
  then show ?case by (cases w) (simp, fastforce)
next
  case (30 xs w)
  then show ?case by (cases w) (simp, fastforce)
qed (auto simp: eq_commute [of None])

section \<open>Properties\<close>

text \<open>
  C38: \<^verbatim>\<open>Equals\<close> on contract values decides equality: on values with known discriminants it never
  panics, and it returns true exactly for the same value, through nested vectors, maps and
  contract instances.
\<close>
theorem ScVal_Equals_decides:
  assumes "known_val s" and "known_val t"
  shows "ScVal_Equals s t = Some (s = t)"
  using assms by (rule Equals_iff)

theorem ScVal_Equals_decides_witness:
  "ScVal_Equals (ScvVec (Some [ScvU32 1, ScvMap None])) (ScvVec (Some [ScvU32 1, ScvMap (Some [])])) =
   Some (ScvVec (Some [ScvU32 1, ScvMap None]) = ScvVec (Some [ScvU32 1, ScvMap (Some [])]))"
  by (rule ScVal_Equals_decides) (simp_all add: known_entries_def known_items_def)

end
