(* ===== verification/Ledger_Key.thy ===== *)
theory Ledger_Key
  imports Xdr_ScVal Edges
begin

text \<open>
  Ledger entries and their keys (\<^verbatim>\<open>xdr/ledger_entry.go\<close>, \<^verbatim>\<open>xdr/ledger_key.go\<close>,
  \<^verbatim>\<open>xdr/trust_line_asset.go\<close>), and the compressed encoding of keys that the checkpoint reader keeps
  in memory (\<^verbatim>\<open>LedgerKeyUnsafeMarshalBinaryCompress\<close> of \<^verbatim>\<open>xdr/main.go\<close> and its helpers). The fields of
  an entry that no function here reads are of an arbitrary type \<open>'r\<close>. The generated XDR encoders
  of contract addresses and values are parameters, assumed to be free of prefixes on the values
  that occur, as XDR is.
\<close>

section \<open>Definitions\<close>

subsection \<open>Trust line assets\<close>

datatype TrustLineAsset =
    TrustLineNative
  | TrustLineAlphaNum4 string AccountId
  | TrustLineAlphaNum12 string AccountId
  | TrustLinePoolShare bytes
  | TrustLineOther int

text \<open>\<open>None\<close> is a panic, here and below.\<close>

fun TrustLine_ToAsset :: "TrustLineAsset \<Rightarrow> Asset option" where
  "TrustLine_ToAsset TrustLineNative = Some Native"
| "TrustLine_ToAsset (TrustLineAlphaNum4 c i) = Some (AlphaNum4 c i)"
| "TrustLine_ToAsset (TrustLineAlphaNum12 c i) = Some (AlphaNum12 c i)"
| "TrustLine_ToAsset _ = None"

fun TrustLineAsset_Equals :: "TrustLineAsset \<Rightarrow> TrustLineAsset \<Rightarrow> bool option" where
  "TrustLineAsset_Equals (TrustLinePoolShare p) (TrustLinePoolShare q) = Some (p = q)"
| "TrustLineAsset_Equals (TrustLineOther t) (TrustLineOther u) = (if t \<noteq> u then Some False else None)"
| "TrustLineAsset_Equals a b =
     (case (TrustLine_ToAsset a, TrustLine_ToAsset b) of
        (Some x, Some y) \<Rightarrow> Some (asset_type x = asset_type y \<and> Asset_Equals x y)
      | _ \<Rightarrow> Some False)"

subsection \<open>Ledger keys\<close>

datatype LedgerKey =
    LedgerKeyAccount AccountId
  | LedgerKeyTrustLine AccountId TrustLineAsset
  | LedgerKeyOffer AccountId int
  | LedgerKeyData AccountId string
  | LedgerKeyClaimableBalance ClaimableBalanceId
  | LedgerKeyLiquidityPool bytes
  | LedgerKeyContractData ScAddress ScVal int
  | LedgerKeyContractCode bytes
  | LedgerKeyConfigSetting int
  | LedgerKeyTtl bytes
  | LedgerKeyOther int

fun LedgerKey_Type :: "LedgerKey \<Rightarrow> int" where
  "LedgerKey_Type (LedgerKeyAccount a) = 0"
| "LedgerKey_Type (LedgerKeyTrustLine a l) = 1"
| "LedgerKey_Type (LedgerKeyOffer a i) = 2"
| "LedgerKey_Type (LedgerKeyData a n) = 3"
| "LedgerKey_Type (LedgerKeyClaimableBalance b) = 4"
| "LedgerKey_Type (LedgerKeyLiquidityPool p) = 5"
| "LedgerKey_Type (LedgerKeyContractData c k d) = 6"
| "LedgerKey_Type (LedgerKeyContractCode h) = 7"
| "LedgerKey_Type (LedgerKeyConfigSetting s) = 8"
| "LedgerKey_Type (LedgerKeyTtl h) = 9"
| "LedgerKey_Type (LedgerKeyOther t) = t"

fun LedgerKey_Equals :: "LedgerKey \<Rightarrow> LedgerKey \<Rightarrow> bool option" where
  "LedgerKey_Equals (LedgerKeyAccount a) r = (case r of LedgerKeyAccount b \<Rightarrow> Some (AccountId_Equals a b) | _ \<Rightarrow> Some False)"
| "LedgerKey_Equals (LedgerKeyData a n) r = (case r of LedgerKeyData b m \<Rightarrow> Some (AccountId_Equals a b \<and> n = m) | _ \<Rightarrow> Some False)"
| "LedgerKey_Equals (LedgerKeyOffer a i) r = (case r of LedgerKeyOffer b j \<Rightarrow> Some (AccountId_Equals a b \<and> i = j) | _ \<Rightarrow> Some False)"
| "LedgerKey_Equals (LedgerKeyTrustLine a l) r =
     (case r of LedgerKeyTrustLine b m \<Rightarrow> and_then (Some (AccountId_Equals a b)) (TrustLineAsset_Equals l m) | _ \<Rightarrow> Some False)"
| "LedgerKey_Equals (LedgerKeyLiquidityPool p) r = (case r of LedgerKeyLiquidityPool q \<Rightarrow> Some (p = q) | _ \<Rightarrow> Some False)"
| "LedgerKey_Equals (LedgerKeyConfigSetting s) r = (case r of LedgerKeyConfigSetting t \<Rightarrow> Some (s = t) | _ \<Rightarrow> Some False)"
| "LedgerKey_Equals (LedgerKeyContractData c k d) r =
     (case r of LedgerKeyContractData c' k' d' \<Rightarrow> and_then (and_then (ScAddress_Equals c c') (ScVal_Equals k k')) (Some (d = d'))
      | _ \<Rightarrow> Some False)"
| "LedgerKey_Equals (LedgerKeyContractCode h) r = (case r of LedgerKeyContractCode h' \<Rightarrow> Some (h = h') | _ \<Rightarrow> Some False)"
| "LedgerKey_Equals (LedgerKeyClaimableBalance b) r =
     (case r of
        LedgerKeyClaimableBalance b' \<Rightarrow>
          (case (b, b') of (ClaimableBalanceIdV0 h, ClaimableBalanceIdV0 h') \<Rightarrow> Some (h = h') | _ \<Rightarrow> None)
      | _ \<Rightarrow> Some False)"
| "LedgerKey_Equals (LedgerKeyTtl h) r = (case r of LedgerKeyTtl h' \<Rightarrow> Some (h = h') | _ \<Rightarrow> Some False)"
| "LedgerKey_Equals (LedgerKeyOther t) r = (case r of LedgerKeyOther u \<Rightarrow> if t \<noteq> u then Some False else None | _ \<Rightarrow> Some False)"

text \<open>The setters; the constructor \<^verbatim>\<open>NewLedgerKey\<close> they call cannot fail on a value of the right type.\<close>

definition SetAccount :: "AccountId \<Rightarrow> LedgerKey" where
  "SetAccount account = LedgerKeyAccount account"
definition SetData :: "AccountId \<Rightarrow> string \<Rightarrow> LedgerKey" where
  "SetData account name = LedgerKeyData account name"
definition SetOffer :: "AccountId \<Rightarrow> int \<Rightarrow> LedgerKey" where
  "SetOffer account i = LedgerKeyOffer account (wrap_int64 i)"
definition SetTrustline :: "AccountId \<Rightarrow> TrustLineAsset \<Rightarrow> LedgerKey" where
  "SetTrustline account line = LedgerKeyTrustLine account line"
definition SetClaimableBalance :: "ClaimableBalanceId \<Rightarrow> LedgerKey" where
  "SetClaimableBalance balanceID = LedgerKeyClaimableBalance balanceID"
definition SetLiquidityPool :: "bytes \<Rightarrow> LedgerKey" where
  "SetLiquidityPool poolID = LedgerKeyLiquidityPool poolID"
definition SetContractData :: "ScAddress \<Rightarrow> ScVal \<Rightarrow> int \<Rightarrow> LedgerKey" where
  "SetContractData contract keyVal keyDurability = LedgerKeyContractData contract keyVal keyDurability"
definition SetContractCode :: "bytes \<Rightarrow> LedgerKey" where
  "SetContractCode contractID = LedgerKeyContractCode contractID"
definition SetConfigSetting :: "int \<Rightarrow> LedgerKey" where
  "SetConfigSetting configSettingID = LedgerKeyConfigSetting configSettingID"
definition SetTtl :: "bytes \<Rightarrow> LedgerKey" where
  "SetTtl keyHash = LedgerKeyTtl keyHash"

subsection \<open>Ledger entries\<close>

record TtlEntry =
  KeyHash :: bytes
  LiveUntilLedgerSeq :: nat

datatype 'r LedgerEntryData =
    EntryAccount AccountId 'r
  | EntryTrustLine AccountId TrustLineAsset 'r
  | EntryOffer OfferEntry
  | EntryData AccountId string 'r
  | EntryClaimableBalance ClaimableBalanceId 'r
  | EntryLiquidityPool LiquidityPoolEntry
  | EntryContractData ScAddress ScVal int 'r
  | EntryContractCode bytes 'r
  | EntryConfigSetting int 'r
  | EntryTtl TtlEntry
  | EntryOther int

datatype LedgerEntryExt = LedgerEntryExtV0 | LedgerEntryExtV1 "AccountId option"

record 'r LedgerEntry =
  LastModifiedLedgerSeq :: nat
  entry_Data :: "'r LedgerEntryData"
  entry_Ext :: LedgerEntryExt

datatype key_error = UnknownLedgerEntryType int

fun LedgerEntryData_LedgerKey :: "'r LedgerEntryData \<Rightarrow> (key_error, LedgerKey) result" where
  "LedgerEntryData_LedgerKey (EntryAccount a r) = Inr (SetAccount a)"
| "LedgerEntryData_LedgerKey (EntryTrustLine a l r) = Inr (SetTrustline a l)"
| "LedgerEntryData_LedgerKey (EntryContractData c k d r) = Inr (SetContractData c k d)"
| "LedgerEntryData_LedgerKey (EntryContractCode h r) = Inr (SetContractCode h)"
| "LedgerEntryData_LedgerKey (EntryData a n r) = Inr (SetData a n)"
| "LedgerEntryData_LedgerKey (EntryOffer v) = Inr (SetOffer (SellerId v) (wrap_uint64 (OfferId v)))"
| "LedgerEntryData_LedgerKey (EntryLiquidityPool p) = Inr (SetLiquidityPool (lp_LiquidityPoolId p))"
| "LedgerEntryData_LedgerKey (EntryClaimableBalance b r) = Inr (SetClaimableBalance b)"
| "LedgerEntryData_LedgerKey (EntryConfigSetting s r) = Inr (SetConfigSetting s)"
| "LedgerEntryData_LedgerKey (EntryTtl t) = Inr (SetTtl (KeyHash t))"
| "LedgerEntryData_LedgerKey (EntryOther t) = Inl (UnknownLedgerEntryType t)"

definition LedgerEntry_LedgerKey :: "('r, 'm) LedgerEntry_scheme \<Rightarrow> (key_error, LedgerKey) result" where
  "LedgerEntry_LedgerKey entry = LedgerEntryData_LedgerKey (entry_Data entry)"

fun SponsoringID_Ext :: "LedgerEntryExt \<Rightarrow> AccountId option" where
  "SponsoringID_Ext (LedgerEntryExtV1 sponsor) = sponsor"
| "SponsoringID_Ext LedgerEntryExtV0 = None"

definition SponsoringID :: "('r, 'm) LedgerEntry_scheme \<Rightarrow> AccountId option" where
  "SponsoringID entry = SponsoringID_Ext (entry_Ext entry)"

subsection \<open>The compressed encoding\<close>

definition string_bytes :: "string \<Rightarrow> bytes" where
  "string_bytes s = map (\<lambda>c. of_nat (of_char c)) s"

definition accountIdCompressEncodeTo :: "AccountId \<Rightarrow> bytes" where
  "accountIdCompressEncodeTo aid = 0 # aid"

fun claimableBalanceCompressEncodeTo :: "ClaimableBalanceId \<Rightarrow> bytes option" where
  "claimableBalanceCompressEncodeTo (ClaimableBalanceIdV0 h) = Some (0 # h)"
| "claimableBalanceCompressEncodeTo (ClaimableBalanceIdOther t) = None"

fun assetTrustlineCompressEncodeTo :: "TrustLineAsset \<Rightarrow> bytes option" where
  "assetTrustlineCompressEncodeTo TrustLineNative = Some [0]"
| "assetTrustlineCompressEncodeTo (TrustLineAlphaNum4 c i) =
     Some (1 # string_bytes (trimRightZeros c) @ accountIdCompressEncodeTo i)"
| "assetTrustlineCompressEncodeTo (TrustLineAlphaNum12 c i) =
     Some (2 # string_bytes (trimRightZeros c) @ accountIdCompressEncodeTo i)"
| "assetTrustlineCompressEncodeTo (TrustLinePoolShare p) = Some (3 # p)"
| "assetTrustlineCompressEncodeTo (TrustLineOther t) = None"

text \<open>
  \<^verbatim>\<open>ledgerKeyCompressEncodeTo\<close>. The seller of an offer is left out on purpose, as the id is unique
  to the network. \<open>addr\<close> and \<open>val\<close> are the XDR encoders of contract addresses and values.
\<close>

fun ledgerKeyCompressEncodeTo :: "(ScAddress \<Rightarrow> bytes) \<Rightarrow> (ScVal \<Rightarrow> bytes) \<Rightarrow> LedgerKey \<Rightarrow> bytes option" where
  "ledgerKeyCompressEncodeTo addr val (LedgerKeyAccount a) = Some (0 # accountIdCompressEncodeTo a)"
| "ledgerKeyCompressEncodeTo addr val (LedgerKeyTrustLine a l) =
     map_option (\<lambda>line. 1 # accountIdCompressEncodeTo a @ line) (assetTrustlineCompressEncodeTo l)"
| "ledgerKeyCompressEncodeTo addr val (LedgerKeyOffer a i) = Some (2 # BigEndian_PutUint64 (word_of_int i))"
| "ledgerKeyCompressEncodeTo addr val (LedgerKeyData a n) =
     Some (3 # accountIdCompressEncodeTo a @ string_bytes (trimRightZeros n))"
| "ledgerKeyCompressEncodeTo addr val (LedgerKeyClaimableBalance b) =
     map_option (\<lambda>cb. 4 # cb) (claimableBalanceCompressEncodeTo b)"
| "ledgerKeyCompressEncodeTo addr val (LedgerKeyLiquidityPool p) = Some (5 # p)"
| "ledgerKeyCompressEncodeTo addr val (LedgerKeyContractData c k d) = Some (6 # addr c @ val k @ [word_of_int d])"
| "ledgerKeyCompressEncodeTo addr val (LedgerKeyContractCode h) = Some (7 # h)"
| "ledgerKeyCompressEncodeTo addr val (LedgerKeyConfigSetting s) = Some (8 # BigEndian_PutUint32 (word_of_int s))"
| "ledgerKeyCompressEncodeTo addr val (LedgerKeyTtl h) = Some (9 # h)"
| "ledgerKeyCompressEncodeTo addr val (LedgerKeyOther t) = None"

definition GetBinaryCompressedLedgerKeyType :: "bytes \<Rightarrow> (string, int) result" where
  "GetBinaryCompressedLedgerKeyType compressedKey =
     (if length compressedKey < 1 then Inl ''empty compressed ledger key''
      else let result = uint (compressedKey ! 0) in
           if result > 10 - 1 then Inl ''incorrect key type'' else Inr result)"

subsection \<open>Well-formed keys\<close>

fun valid_line :: "TrustLineAsset \<Rightarrow> bool" where
  "valid_line TrustLineNative = True"
| "valid_line (TrustLineAlphaNum4 c i) = (length c = 4 \<and> length i = 32)"
| "valid_line (TrustLineAlphaNum12 c i) = (length c = 12 \<and> length i = 32)"
| "valid_line (TrustLinePoolShare p) = (length p = 32)"
| "valid_line (TrustLineOther t) = False"

text \<open>
  Keys as the ledger has them: hashes and keys of 32 bytes, integers in their range, a data name
  that does not end in a zero byte, contract addresses from \<open>A\<close> and contract values from \<open>V\<close>.
\<close>

fun valid_key :: "ScAddress set \<Rightarrow> ScVal set \<Rightarrow> LedgerKey \<Rightarrow> bool" where
  "valid_key A V (LedgerKeyAccount a) = (length a = 32)"
| "valid_key A V (LedgerKeyTrustLine a l) = (length a = 32 \<and> valid_line l)"
| "valid_key A V (LedgerKeyOffer a i) = (length a = 32 \<and> in_int64 i)"
| "valid_key A V (LedgerKeyData a n) = (length a = 32 \<and> (n = [] \<or> last n \<noteq> CHR 0x00))"
| "valid_key A V (LedgerKeyClaimableBalance b) = valid_balance_id b"
| "valid_key A V (LedgerKeyLiquidityPool p) = (length p = 32)"
| "valid_key A V (LedgerKeyContractData c k d) = (c \<in> A \<and> k \<in> V \<and> 0 \<le> d \<and> d < 256)"
| "valid_key A V (LedgerKeyContractCode h) = (length h = 32)"
| "valid_key A V (LedgerKeyConfigSetting s) = in_int32 s"
| "valid_key A V (LedgerKeyTtl h) = (length h = 32)"
| "valid_key A V (LedgerKeyOther t) = False"

definition prefix_free :: "'a set \<Rightarrow> ('a \<Rightarrow> bytes) \<Rightarrow> bool" where
  "prefix_free S enc \<longleftrightarrow> (\<forall>a \<in> S. \<forall>b \<in> S. \<forall>x y. enc a @ x = enc b @ y \<longrightarrow> a = b)"

text \<open>Keys of the same entry, given that offer ids are unique to the network.\<close>

definition same_entry :: "LedgerKey \<Rightarrow> LedgerKey \<Rightarrow> bool" where
  "same_entry k l = (case (k, l) of (LedgerKeyOffer a i, LedgerKeyOffer b j) \<Rightarrow> i = j | _ \<Rightarrow> k = l)"

section \<open>Comparison of keys\<close>

lemma TrustLineAsset_Equals_iff: "valid_line a \<Longrightarrow> TrustLineAsset_Equals a b = Some (a = b)"
  by (cases a; cases b) (auto simp: AccountId_Equals_def)

lemma LedgerKey_Equals_iff:
  assumes "valid_key A V k" "valid_key A V l" "\<And>a. a \<in> A \<Longrightarrow> known_address a" "\<And>v. v \<in> V \<Longrightarrow> known_val v"
  shows "LedgerKey_Equals k l = Some (k = l)"
proof (cases k)
  case (LedgerKeyContractData c v d)
  show ?thesis
  proof (cases l)
    case (LedgerKeyContractData c' v' d')
    then show ?thesis using assms \<open>k = LedgerKeyContractData c v d\<close>
      by (simp add: ScAddress_Equals_iff Equals_iff(1) conj_assoc)
  qed (simp_all add: LedgerKeyContractData)
next
  case (LedgerKeyClaimableBalance b)
  show ?thesis
  proof (cases l)
    case (LedgerKeyClaimableBalance b')
    then show ?thesis using assms(1,2) \<open>k = LedgerKeyClaimableBalance b\<close> by (cases b; cases b') simp_all
  qed (simp_all add: LedgerKeyClaimableBalance)
qed (use assms(1) in \<open>(cases l; simp add: AccountId_Equals_def TrustLineAsset_Equals_iff)+\<close>)

section \<open>The compressed encoding\<close>

lemma string_bytes_inject [simp]: "string_bytes s = string_bytes t \<longleftrightarrow> s = t"
proof -
  have "inj (\<lambda>c. of_nat (of_char c) :: 8 word)"
  proof (rule injI)
    fix c d :: char
    assume e: "of_nat (of_char c) = (of_nat (of_char d) :: 8 word)"
    have "of_char c < (256 :: nat)" "of_char d < (256 :: nat)" by (rule nat_of_char_less_256)+
    then have "(of_char c :: nat) = of_char d" using arg_cong [OF e, of unat] by (simp add: unat_of_nat)
    then show "c = d" by simp
  qed
  then show ?thesis by (simp add: string_bytes_def inj_map_eq_map)
qed

lemma trimRightZeros_id: "n = [] \<or> last n \<noteq> CHR 0x00 \<Longrightarrow> trimRightZeros n = n"
  using trim_index_pad [of 0 0 n] by (cases "n = []") (auto simp: trimRightZeros_def)

lemma accountIdCompress_inject [simp]: "accountIdCompressEncodeTo a = accountIdCompressEncodeTo b \<longleftrightarrow> a = b"
  and length_accountIdCompress [simp]: "length (accountIdCompressEncodeTo a) = Suc (length a)"
  by (simp_all add: accountIdCompressEncodeTo_def)

text \<open>A trimmed code in front of an issuer of fixed length can be told apart.\<close>

lemma code_issuer_bytes_inject:
  assumes "length i = 32" "length j = 32" "length c = length d"
  shows "string_bytes (trimRightZeros c) @ accountIdCompressEncodeTo i = string_bytes (trimRightZeros d) @ accountIdCompressEncodeTo j \<longleftrightarrow>
    c = d \<and> i = j"
  using assms trimRightZeros_inject [OF assms(3)] by simp

lemma assetTrustline_inject:
  assumes "valid_line a" "valid_line b"
  shows "assetTrustlineCompressEncodeTo a = assetTrustlineCompressEncodeTo b \<longleftrightarrow> a = b"
  using assms by (cases a; cases b) (auto simp: code_issuer_bytes_inject trimRightZeros_inject)

lemma assetTrustline_total: "valid_line a \<Longrightarrow> \<exists>bs. assetTrustlineCompressEncodeTo a = Some bs"
  by (cases a) simp_all

lemma prefix_free_pair:
  assumes "prefix_free A addr" "prefix_free V val" "c \<in> A" "c' \<in> A" "k \<in> V" "k' \<in> V"
  shows "addr c @ val k @ x = addr c' @ val k' @ y \<longleftrightarrow> c = c' \<and> k = k' \<and> x = y"
  using assms unfolding prefix_free_def by (metis same_append_eq)

lemma PutUint64_int_inject:
  assumes "in_int64 i" "in_int64 j"
  shows "BigEndian_PutUint64 (word_of_int i) = BigEndian_PutUint64 (word_of_int j) \<longleftrightarrow> i = j"
proof -
  have "sint (word_of_int i :: 64 word) = i" "sint (word_of_int j :: 64 word) = j"
    using assms by (simp_all add: in_int64_def sint_word_of_int64)
  then show ?thesis by (metis BigEndian_64(2))
qed

lemma PutUint32_int_inject:
  assumes "in_int32 i" "in_int32 j"
  shows "BigEndian_PutUint32 (word_of_int i) = BigEndian_PutUint32 (word_of_int j) \<longleftrightarrow> i = j"
proof -
  have "sint (word_of_int i :: 32 word) = i" "sint (word_of_int j :: 32 word) = j"
    using assms by (simp_all add: in_int32_def sint_word_of_int32)
  then show ?thesis by (metis BigEndian_32(2))
qed

lemma compress_shape:
  assumes "valid_key A V k"
  shows "\<exists>bs. ledgerKeyCompressEncodeTo addr val k = Some (word_of_int (LedgerKey_Type k) # bs)" "0 \<le> LedgerKey_Type k" "LedgerKey_Type k < 10"
proof -
  show "\<exists>bs. ledgerKeyCompressEncodeTo addr val k = Some (word_of_int (LedgerKey_Type k) # bs)"
  proof (cases k)
    case (LedgerKeyTrustLine a l)
    then show ?thesis using assms assetTrustline_total [of l] by auto
  next
    case (LedgerKeyClaimableBalance b)
    then show ?thesis using assms by (cases b) auto
  qed (use assms in simp_all)
  show "0 \<le> LedgerKey_Type k" "LedgerKey_Type k < 10" using assms by (cases k; simp)+
qed

lemma compress_same_type:
  assumes "valid_key A V k" "valid_key A V l" "ledgerKeyCompressEncodeTo addr val k = ledgerKeyCompressEncodeTo addr val l"
  shows "LedgerKey_Type k = LedgerKey_Type l"
proof -
  have "(word_of_int (LedgerKey_Type k) :: 8 word) = word_of_int (LedgerKey_Type l)"
    using compress_shape(1) [OF assms(1), of addr val] compress_shape(1) [OF assms(2), of addr val] assms(3) by auto
  then have "LedgerKey_Type k mod 256 = LedgerKey_Type l mod 256"
    by (auto dest: arg_cong [of _ _ uint] simp: uint_word_of_int)
  then show ?thesis using compress_shape(2,3) [OF assms(1)] compress_shape(2,3) [OF assms(2)] by simp
qed

lemma compress_inject:
  assumes "valid_key A V k" "valid_key A V l" "prefix_free A addr" "prefix_free V val"
  shows "ledgerKeyCompressEncodeTo addr val k = ledgerKeyCompressEncodeTo addr val l \<longleftrightarrow> same_entry k l"
proof (cases "LedgerKey_Type k = LedgerKey_Type l")
  case False
  then have "\<not> same_entry k l" by (auto simp: same_entry_def split: LedgerKey.splits)
  then show ?thesis using compress_same_type [OF assms(1,2)] False by blast
next
  case True
  show ?thesis
  proof (cases k)
    case (LedgerKeyTrustLine a m)
    then obtain b n where l: "l = LedgerKeyTrustLine b n" using True assms(1,2) by (cases l) auto
    then show ?thesis
      using assms(1,2) LedgerKeyTrustLine assetTrustline_total [of m] assetTrustline_total [of n] assetTrustline_inject [of m n]
      by (auto simp: same_entry_def)
  next
    case (LedgerKeyClaimableBalance b)
    then obtain b' where "l = LedgerKeyClaimableBalance b'" using True assms(1,2) by (cases l) auto
    then show ?thesis using assms(1,2) LedgerKeyClaimableBalance by (cases b; cases b') (auto simp: same_entry_def)
  next
    case (LedgerKeyContractData c v d)
    then obtain c' v' d' where "l = LedgerKeyContractData c' v' d'" using True assms(1,2) by (cases l) auto
    moreover have "word_of_int x = (word_of_int y :: 8 word) \<longleftrightarrow> x = y" if "0 \<le> x" "x < 256" "0 \<le> y" "y < 256" for x y
      using that by (auto dest!: arg_cong [where f = uint] simp: uint_word_of_int)
    ultimately show ?thesis
      using assms LedgerKeyContractData by (simp add: same_entry_def prefix_free_pair)
  next
    case (LedgerKeyAccount a)
    then obtain b where "l = LedgerKeyAccount b" using True assms(1,2) by (cases l) auto
    then show ?thesis using assms(1,2) LedgerKeyAccount
      by (simp add: same_entry_def PutUint64_int_inject PutUint32_int_inject trimRightZeros_id del: BigEndian_PutUint64_inject)
  next
    case (LedgerKeyOffer a i)
    then obtain b j where "l = LedgerKeyOffer b j" using True assms(1,2) by (cases l) auto
    then show ?thesis using assms(1,2) LedgerKeyOffer
      by (simp add: same_entry_def PutUint64_int_inject PutUint32_int_inject trimRightZeros_id del: BigEndian_PutUint64_inject)
  next
    case (LedgerKeyData a n)
    then obtain b m where "l = LedgerKeyData b m" using True assms(1,2) by (cases l) auto
    then show ?thesis using assms(1,2) LedgerKeyData
      by (simp add: same_entry_def PutUint64_int_inject PutUint32_int_inject trimRightZeros_id del: BigEndian_PutUint64_inject)
  next
    case (LedgerKeyLiquidityPool p)
    then obtain q where "l = LedgerKeyLiquidityPool q" using True assms(1,2) by (cases l) auto
    then show ?thesis using assms(1,2) LedgerKeyLiquidityPool
      by (simp add: same_entry_def PutUint64_int_inject PutUint32_int_inject trimRightZeros_id del: BigEndian_PutUint64_inject)
  next
    case (LedgerKeyContractCode h)
    then obtain g where "l = LedgerKeyContractCode g" using True assms(1,2) by (cases l) auto
    then show ?thesis using assms(1,2) LedgerKeyContractCode
      by (simp add: same_entry_def PutUint64_int_inject PutUint32_int_inject trimRightZeros_id del: BigEndian_PutUint64_inject)
  next
    case (LedgerKeyConfigSetting s)
    then obtain t where "l = LedgerKeyConfigSetting t" using True assms(1,2) by (cases l) auto
    then show ?thesis using assms(1,2) LedgerKeyConfigSetting
      by (simp add: same_entry_def PutUint64_int_inject PutUint32_int_inject trimRightZeros_id del: BigEndian_PutUint64_inject)
  next
    case (LedgerKeyTtl h)
    then obtain g where "l = LedgerKeyTtl g" using True assms(1,2) by (cases l) auto
    then show ?thesis using assms(1,2) LedgerKeyTtl
      by (simp add: same_entry_def PutUint64_int_inject PutUint32_int_inject trimRightZeros_id del: BigEndian_PutUint64_inject)
  next
    case (LedgerKeyOther t)
    then show ?thesis using assms(1) by simp
  qed
qed

section \<open>Properties\<close>

text \<open>
  C16: The compressed encoding identifies ledger entries. For keys as the ledger has them, the
  encoding does not panic, its type can be read back, and two keys have the same encoding exactly
  when they are equal, or are keys of offers with the same id. The encoders of contract
  addresses and values are assumed to be prefix free on those that occur.
\<close>
theorem ledgerKeyCompress_identifies:
  assumes "prefix_free A addr" and "prefix_free V val" and "valid_key A V k" and "valid_key A V l"
  shows "(\<exists>bs. ledgerKeyCompressEncodeTo addr val k = Some bs \<and> GetBinaryCompressedLedgerKeyType bs = Inr (LedgerKey_Type k)) \<and>
    (ledgerKeyCompressEncodeTo addr val k = ledgerKeyCompressEncodeTo addr val l \<longleftrightarrow> same_entry k l)"
proof
  show "\<exists>bs. ledgerKeyCompressEncodeTo addr val k = Some bs \<and> GetBinaryCompressedLedgerKeyType bs = Inr (LedgerKey_Type k)"
  proof -
    obtain bs where "ledgerKeyCompressEncodeTo addr val k = Some (word_of_int (LedgerKey_Type k) # bs)"
      using compress_shape(1) [OF assms(3)] by blast
    moreover have "uint (word_of_int (LedgerKey_Type k) :: 8 word) = LedgerKey_Type k"
      using compress_shape(2,3) [OF assms(3)] by (simp add: uint_word_of_int)
    ultimately show ?thesis using compress_shape(3) [OF assms(3)] by (simp add: GetBinaryCompressedLedgerKeyType_def)
  qed
qed (rule compress_inject [OF assms(3,4,1,2)])

text \<open>For the example: XDR of contract addresses and of 32-bit values.\<close>

definition witness_addr :: "ScAddress \<Rightarrow> bytes" where
  "witness_addr a = (case a of ScAddressContract c \<Rightarrow> BigEndian_PutUint32 1 @ c | _ \<Rightarrow> [])"

definition witness_val :: "ScVal \<Rightarrow> bytes" where
  "witness_val v = (case v of ScvU32 n \<Rightarrow> BigEndian_PutUint32 3 @ BigEndian_PutUint32 n | _ \<Rightarrow> [])"

theorem ledgerKeyCompress_identifies_witness:
  "(\<exists>bs. ledgerKeyCompressEncodeTo witness_addr witness_val (LedgerKeyContractData (ScAddressContract (replicate 32 1)) (ScvU32 5) 1) = Some bs \<and>
      GetBinaryCompressedLedgerKeyType bs = Inr (LedgerKey_Type (LedgerKeyContractData (ScAddressContract (replicate 32 1)) (ScvU32 5) 1))) \<and>
   (ledgerKeyCompressEncodeTo witness_addr witness_val (LedgerKeyContractData (ScAddressContract (replicate 32 1)) (ScvU32 5) 1) =
      ledgerKeyCompressEncodeTo witness_addr witness_val (LedgerKeyTrustLine (replicate 32 1) (TrustLineAlphaNum4 ''USD0'' (replicate 32 2))) \<longleftrightarrow>
    same_entry (LedgerKeyContractData (ScAddressContract (replicate 32 1)) (ScvU32 5) 1)
      (LedgerKeyTrustLine (replicate 32 1) (TrustLineAlphaNum4 ''USD0'' (replicate 32 2))))"
proof (rule ledgerKeyCompress_identifies [where A = "ScAddressContract ` {c. length c = 32}" and V = "range ScvU32"])
  show "prefix_free (ScAddressContract ` {c. length c = 32}) witness_addr"
    by (auto simp: prefix_free_def witness_addr_def)
  show "prefix_free (range ScvU32) witness_val"
    by (auto simp: prefix_free_def witness_val_def dest!: arg_cong [where f = BigEndian_Uint32])
qed simp_all

text \<open>
  \<^verbatim>\<open>Equals\<close> on ledger keys decides equality: on keys as the ledger has them, with contract
  addresses and values of known types, it never panics and returns true exactly for the same key.
\<close>
lemma LedgerKey_Equals_decides:
  assumes "valid_key (Collect known_address) (Collect known_val) k" and "valid_key (Collect known_address) (Collect known_val) l"
  shows "LedgerKey_Equals k l = Some (k = l)"
  by (rule LedgerKey_Equals_iff [OF assms]) simp_all

lemma LedgerKey_Equals_decides_witness:
  "LedgerKey_Equals (LedgerKeyTrustLine (replicate 32 1) TrustLineNative) (LedgerKeyTrustLine (replicate 32 1) (TrustLinePoolShare (replicate 32 2))) =
   Some (LedgerKeyTrustLine (replicate 32 1) TrustLineNative = LedgerKeyTrustLine (replicate 32 1) (TrustLinePoolShare (replicate 32 2)))"
  by (rule LedgerKey_Equals_decides) simp_all

end
