(* ===== verification/Xdr_Envelope.thy ===== *)
theory Xdr_Envelope
  imports Ledger_Key
begin

text \<open>
  Transaction envelopes (\<^verbatim>\<open>xdr/transaction_envelope.go\<close>, \<^verbatim>\<open>transaction.go\<close>, \<^verbatim>\<open>preconditions.go\<close>, \<^verbatim>\<open>memo.go\<close>,
  \<^verbatim>\<open>decorated_signature.go\<close>, \<^verbatim>\<open>transaction_result.go\<close>) and their hashes (\<^verbatim>\<open>network/main.go\<close>). Operations
  (\<open>'op\<close>) and operation results (\<open>'res\<close>) are carried along. An accessor that panics is \<open>None\<close>. The
  generated encoder of signature payloads and SHA-256 are parameters of the hash functions.
\<close>

section \<open>Definitions\<close>

subsection \<open>Transactions\<close>

datatype Memo =
    MemoNone
  | MemoText string
  | MemoId "64 word"
  | MemoHash bytes
  | MemoReturn bytes
  | MemoOther int

definition MemoID :: "64 word \<Rightarrow> Memo" where
  "MemoID i = MemoId i"

definition MemoRetHash :: "bytes \<Rightarrow> Memo" where
  "MemoRetHash h = MemoReturn h"

record TimeBounds =
  MinTime :: "64 word"
  MaxTime :: "64 word"

record LedgerBounds =
  MinLedger :: "32 word"
  MaxLedger :: "32 word"

record PreconditionsV2 =
  v2_TimeBounds :: "TimeBounds option"
  v2_LedgerBounds :: "LedgerBounds option"
  v2_MinSeqNum :: "int option"
  v2_MinSeqAge :: "64 word"
  v2_MinSeqLedgerGap :: "32 word"
  v2_ExtraSigners :: "SignerKey list"

datatype Preconditions =
    PrecondNone
  | PrecondTime TimeBounds
  | PrecondV2 PreconditionsV2
  | PrecondOther int

text \<open>\<^verbatim>\<open>NewPreconditionsWithTimeBounds\<close> (\<^verbatim>\<open>xdr/preconditions.go\<close>).\<close>

definition NewPreconditionsWithTimeBounds :: "TimeBounds option \<Rightarrow> Preconditions" where
  "NewPreconditionsWithTimeBounds timebounds = (case timebounds of None \<Rightarrow> PrecondNone | Some tb \<Rightarrow> PrecondTime tb)"

record DecoratedSignature =
  Hint :: bytes
  Signature :: bytes

definition NewDecoratedSignature :: "bytes \<Rightarrow> bytes \<Rightarrow> DecoratedSignature" where
  "NewDecoratedSignature sig hint = \<lparr>Hint = hint, Signature = sig\<rparr>"

text \<open>
  \<^verbatim>\<open>NewDecoratedSignatureForPayload\<close>: the last four bytes of the payload, or the payload padded with zeros
  on the right when it is shorter, combined with the hint of the key.
\<close>

definition payload_hint :: "bytes \<Rightarrow> bytes" where
  "payload_hint payload =
     (if length payload \<ge> 4 then drop (length payload - 4) payload else payload @ replicate (4 - length payload) 0)"

definition NewDecoratedSignatureForPayload :: "bytes \<Rightarrow> bytes \<Rightarrow> bytes \<Rightarrow> DecoratedSignature" where
  "NewDecoratedSignatureForPayload sig keyHint payload =
     \<lparr>Hint = map2 (\<lambda>h k. xor h k) (payload_hint payload) keyHint, Signature = sig\<rparr>"

record LedgerFootprint =
  ReadOnly :: "LedgerKey list"
  ReadWrite :: "LedgerKey list"

record SorobanResources =
  Footprint :: LedgerFootprint
  Instructions :: "32 word"
  DiskReadBytes :: "32 word"
  WriteBytes :: "32 word"

record SorobanTransactionData =
  Resources :: SorobanResources
  ResourceFee :: int

datatype TransactionExt = TransactionExtV0 | TransactionExtSoroban SorobanTransactionData | TransactionExtOther int

record 'op Transaction =
  tx_SourceAccount :: xdr_MuxedAccount
  tx_Fee :: "32 word"
  tx_SeqNum :: int
  tx_Cond :: Preconditions
  tx_Memo :: Memo
  tx_Operations :: "'op list"
  tx_Ext :: TransactionExt

record 'op TransactionV0 =
  v0_SourceAccountEd25519 :: bytes
  v0_Fee :: "32 word"
  v0_SeqNum :: int
  v0_TimeBounds :: "TimeBounds option"
  v0_Memo :: Memo
  v0_Operations :: "'op list"

record 'op TransactionV1Envelope =
  v1_Tx :: "'op Transaction"
  v1_Signatures :: "DecoratedSignature list"

record 'op TransactionV0Envelope =
  v0_Tx :: "'op TransactionV0"
  v0_Signatures :: "DecoratedSignature list"

text \<open>The inner transaction is a union with one arm.\<close>

record 'op FeeBumpTransaction =
  FeeSource :: xdr_MuxedAccount
  fb_Fee :: int
  InnerTx :: "'op TransactionV1Envelope"

record 'op FeeBumpTransactionEnvelope =
  fb_Tx :: "'op FeeBumpTransaction"
  fb_Signatures :: "DecoratedSignature list"

datatype 'op TransactionEnvelope =
    EnvelopeV0 "'op TransactionV0Envelope"
  | EnvelopeV1 "'op TransactionV1Envelope"
  | EnvelopeFeeBump "'op FeeBumpTransactionEnvelope"
  | EnvelopeOther int

subsection \<open>The preconditions of a transaction\<close>

text \<open>The methods of \<^verbatim>\<open>xdr/transaction.go\<close>: \<open>None\<close> is the panic, \<open>Some None\<close> a nil pointer.\<close>

definition Transaction_TimeBounds :: "'op Transaction \<Rightarrow> TimeBounds option option" where
  "Transaction_TimeBounds tx =
     (case tx_Cond tx of PrecondNone \<Rightarrow> Some None | PrecondTime tb \<Rightarrow> Some (Some tb) | PrecondV2 p \<Rightarrow> Some (v2_TimeBounds p) | PrecondOther _ \<Rightarrow> None)"

definition Transaction_LedgerBounds :: "'op Transaction \<Rightarrow> LedgerBounds option option" where
  "Transaction_LedgerBounds tx =
     (case tx_Cond tx of PrecondNone \<Rightarrow> Some None | PrecondTime _ \<Rightarrow> Some None | PrecondV2 p \<Rightarrow> Some (v2_LedgerBounds p) | PrecondOther _ \<Rightarrow> None)"

definition Transaction_MinSeqNum :: "'op Transaction \<Rightarrow> int option option" where
  "Transaction_MinSeqNum tx =
     (case tx_Cond tx of PrecondNone \<Rightarrow> Some None | PrecondTime _ \<Rightarrow> Some None | PrecondV2 p \<Rightarrow> Some (v2_MinSeqNum p) | PrecondOther _ \<Rightarrow> None)"

definition Transaction_MinSeqAge :: "'op Transaction \<Rightarrow> 64 word option option" where
  "Transaction_MinSeqAge tx =
     (case tx_Cond tx of PrecondNone \<Rightarrow> Some None | PrecondTime _ \<Rightarrow> Some None | PrecondV2 p \<Rightarrow> Some (Some (v2_MinSeqAge p)) | PrecondOther _ \<Rightarrow> None)"

definition Transaction_MinSeqLedgerGap :: "'op Transaction \<Rightarrow> 32 word option option" where
  "Transaction_MinSeqLedgerGap tx =
     (case tx_Cond tx of PrecondNone \<Rightarrow> Some None | PrecondTime _ \<Rightarrow> Some None | PrecondV2 p \<Rightarrow> Some (Some (v2_MinSeqLedgerGap p)) | PrecondOther _ \<Rightarrow> None)"

definition Transaction_ExtraSigners :: "'op Transaction \<Rightarrow> SignerKey list option" where
  "Transaction_ExtraSigners tx =
     (case tx_Cond tx of PrecondNone \<Rightarrow> Some [] | PrecondTime _ \<Rightarrow> Some [] | PrecondV2 p \<Rightarrow> Some (v2_ExtraSigners p) | PrecondOther _ \<Rightarrow> None)"

subsection \<open>Envelopes\<close>

fun IsFeeBump :: "'op TransactionEnvelope \<Rightarrow> bool" where
  "IsFeeBump (EnvelopeFeeBump _) = True"
| "IsFeeBump _ = False"

fun FeeBumpAccount :: "'op TransactionEnvelope \<Rightarrow> xdr_MuxedAccount option" where
  "FeeBumpAccount (EnvelopeFeeBump e) = Some (FeeSource (fb_Tx e))"
| "FeeBumpAccount _ = None"

fun FeeBumpFee :: "'op TransactionEnvelope \<Rightarrow> int option" where
  "FeeBumpFee (EnvelopeFeeBump e) = Some (fb_Fee (fb_Tx e))"
| "FeeBumpFee _ = None"

fun FeeBumpSignatures :: "'op TransactionEnvelope \<Rightarrow> DecoratedSignature list option" where
  "FeeBumpSignatures (EnvelopeFeeBump e) = Some (fb_Signatures e)"
| "FeeBumpSignatures _ = None"

fun SourceAccount :: "'op TransactionEnvelope \<Rightarrow> xdr_MuxedAccount option" where
  "SourceAccount (EnvelopeFeeBump e) = Some (tx_SourceAccount (v1_Tx (InnerTx (fb_Tx e))))"
| "SourceAccount (EnvelopeV1 e) = Some (tx_SourceAccount (v1_Tx e))"
| "SourceAccount (EnvelopeV0 e) = Some (KeyTypeEd25519 (v0_SourceAccountEd25519 (v0_Tx e)))"
| "SourceAccount (EnvelopeOther _) = None"

definition FeeAccount :: "'op TransactionEnvelope \<Rightarrow> xdr_MuxedAccount option" where
  "FeeAccount e = (if IsFeeBump e then FeeBumpAccount e else SourceAccount e)"

fun Fee :: "'op TransactionEnvelope \<Rightarrow> 32 word option" where
  "Fee (EnvelopeFeeBump e) = Some (tx_Fee (v1_Tx (InnerTx (fb_Tx e))))"
| "Fee (EnvelopeV1 e) = Some (tx_Fee (v1_Tx e))"
| "Fee (EnvelopeV0 e) = Some (v0_Fee (v0_Tx e))"
| "Fee (EnvelopeOther _) = None"

fun Signatures :: "'op TransactionEnvelope \<Rightarrow> DecoratedSignature list option" where
  "Signatures (EnvelopeFeeBump e) = Some (v1_Signatures (InnerTx (fb_Tx e)))"
| "Signatures (EnvelopeV1 e) = Some (v1_Signatures e)"
| "Signatures (EnvelopeV0 e) = Some (v0_Signatures e)"
| "Signatures (EnvelopeOther _) = None"

fun SeqNum :: "'op TransactionEnvelope \<Rightarrow> int option" where
  "SeqNum (EnvelopeFeeBump e) = Some (tx_SeqNum (v1_Tx (InnerTx (fb_Tx e))))"
| "SeqNum (EnvelopeV1 e) = Some (tx_SeqNum (v1_Tx e))"
| "SeqNum (EnvelopeV0 e) = Some (v0_SeqNum (v0_Tx e))"
| "SeqNum (EnvelopeOther _) = None"

text \<open>\<^verbatim>\<open>MinSeqNum\<close> reads the preconditions itself: an unknown type of preconditions is no panic here.\<close>

definition cond_MinSeqNum :: "Preconditions \<Rightarrow> int option" where
  "cond_MinSeqNum p = (case p of PrecondV2 q \<Rightarrow> v2_MinSeqNum q | _ \<Rightarrow> None)"

fun MinSeqNum :: "'op TransactionEnvelope \<Rightarrow> int option option" where
  "MinSeqNum (EnvelopeFeeBump e) = Some (cond_MinSeqNum (tx_Cond (v1_Tx (InnerTx (fb_Tx e)))))"
| "MinSeqNum (EnvelopeV1 e) = Some (cond_MinSeqNum (tx_Cond (v1_Tx e)))"
| "MinSeqNum (EnvelopeV0 e) = Some None"
| "MinSeqNum (EnvelopeOther _) = None"

fun Envelope_TimeBounds :: "'op TransactionEnvelope \<Rightarrow> TimeBounds option option" where
  "Envelope_TimeBounds (EnvelopeFeeBump e) = Transaction_TimeBounds (v1_Tx (InnerTx (fb_Tx e)))"
| "Envelope_TimeBounds (EnvelopeV1 e) = Transaction_TimeBounds (v1_Tx e)"
| "Envelope_TimeBounds (EnvelopeV0 e) = Some (v0_TimeBounds (v0_Tx e))"
| "Envelope_TimeBounds (EnvelopeOther _) = None"

fun Envelope_LedgerBounds :: "'op TransactionEnvelope \<Rightarrow> LedgerBounds option option" where
  "Envelope_LedgerBounds (EnvelopeFeeBump e) = Transaction_LedgerBounds (v1_Tx (InnerTx (fb_Tx e)))"
| "Envelope_LedgerBounds (EnvelopeV1 e) = Transaction_LedgerBounds (v1_Tx e)"
| "Envelope_LedgerBounds (EnvelopeV0 e) = Some None"
| "Envelope_LedgerBounds (EnvelopeOther _) = None"

fun MinSeqAge :: "'op TransactionEnvelope \<Rightarrow> 64 word option option" where
  "MinSeqAge (EnvelopeFeeBump e) = Transaction_MinSeqAge (v1_Tx (InnerTx (fb_Tx e)))"
| "MinSeqAge (EnvelopeV1 e) = Transaction_MinSeqAge (v1_Tx e)"
| "MinSeqAge (EnvelopeV0 e) = Some None"
| "MinSeqAge (EnvelopeOther _) = None"

fun MinSeqLedgerGap :: "'op TransactionEnvelope \<Rightarrow> 32 word option option" where
  "MinSeqLedgerGap (EnvelopeFeeBump e) = Transaction_MinSeqLedgerGap (v1_Tx (InnerTx (fb_Tx e)))"
| "MinSeqLedgerGap (EnvelopeV1 e) = Transaction_MinSeqLedgerGap (v1_Tx e)"
| "MinSeqLedgerGap (EnvelopeV0 e) = Some None"
| "MinSeqLedgerGap (EnvelopeOther _) = None"

fun ExtraSigners :: "'op TransactionEnvelope \<Rightarrow> SignerKey list option" where
  "ExtraSigners (EnvelopeFeeBump e) = Transaction_ExtraSigners (v1_Tx (InnerTx (fb_Tx e)))"
| "ExtraSigners (EnvelopeV1 e) = Transaction_ExtraSigners (v1_Tx e)"
| "ExtraSigners (EnvelopeV0 e) = Some []"
| "ExtraSigners (EnvelopeOther _) = None"

fun Envelope_Preconditions :: "'op TransactionEnvelope \<Rightarrow> Preconditions option" where
  "Envelope_Preconditions (EnvelopeFeeBump e) = Some (tx_Cond (v1_Tx (InnerTx (fb_Tx e))))"
| "Envelope_Preconditions (EnvelopeV1 e) = Some (tx_Cond (v1_Tx e))"
| "Envelope_Preconditions (EnvelopeV0 e) = Some (NewPreconditionsWithTimeBounds (v0_TimeBounds (v0_Tx e)))"
| "Envelope_Preconditions (EnvelopeOther _) = None"

fun Operations :: "'op TransactionEnvelope \<Rightarrow> 'op list option" where
  "Operations (EnvelopeFeeBump e) = Some (tx_Operations (v1_Tx (InnerTx (fb_Tx e))))"
| "Operations (EnvelopeV1 e) = Some (tx_Operations (v1_Tx e))"
| "Operations (EnvelopeV0 e) = Some (v0_Operations (v0_Tx e))"
| "Operations (EnvelopeOther _) = None"

fun Envelope_Memo :: "'op TransactionEnvelope \<Rightarrow> Memo option" where
  "Envelope_Memo (EnvelopeFeeBump e) = Some (tx_Memo (v1_Tx (InnerTx (fb_Tx e))))"
| "Envelope_Memo (EnvelopeV1 e) = Some (tx_Memo (v1_Tx e))"
| "Envelope_Memo (EnvelopeV0 e) = Some (v0_Memo (v0_Tx e))"
| "Envelope_Memo (EnvelopeOther _) = None"

definition OperationsCount :: "'op TransactionEnvelope \<Rightarrow> 32 word option" where
  "OperationsCount e = map_option (\<lambda>ops. word_of_nat (length ops)) (Operations e)"

subsection \<open>Results\<close>

text \<open>
  The result union of \<^verbatim>\<open>xdr/transaction_result.go\<close>: success and failure carry the results of the operations,
  the fee bump codes an inner result, and every other code nothing.
\<close>

record 'res InnerTransactionResultPair =
  inner_TransactionHash :: bytes
  inner_FeeCharged :: int
  inner_Code :: int
  inner_Results :: "'res list option"

datatype 'res TransactionResultResult =
    TxSuccess "'res list"
  | TxFailed "'res list"
  | TxFeeBumpInnerSuccess "'res InnerTransactionResultPair"
  | TxFeeBumpInnerFailed "'res InnerTransactionResultPair"
  | TxInternalError
  | TxResultOther int

record 'res TransactionResult =
  FeeCharged :: int
  result_Result :: "'res TransactionResultResult"

record 'res TransactionResultPair =
  TransactionHash :: bytes
  pair_Result :: "'res TransactionResult"

definition Successful :: "'res TransactionResult \<Rightarrow> bool" where
  "Successful r = (case result_Result r of TxSuccess _ \<Rightarrow> True | TxFeeBumpInnerSuccess _ \<Rightarrow> True | _ \<Rightarrow> False)"

definition GetInnerResultPair :: "'res TransactionResultResult \<Rightarrow> 'res InnerTransactionResultPair option" where
  "GetInnerResultPair r = (case r of TxFeeBumpInnerSuccess p \<Rightarrow> Some p | TxFeeBumpInnerFailed p \<Rightarrow> Some p | _ \<Rightarrow> None)"

definition OperationResults :: "'res TransactionResult \<Rightarrow> 'res list option" where
  "OperationResults r =
     (case GetInnerResultPair (result_Result r) of
        Some p \<Rightarrow> inner_Results p
      | None \<Rightarrow> (case result_Result r of TxSuccess rs \<Rightarrow> Some rs | TxFailed rs \<Rightarrow> Some rs | _ \<Rightarrow> None))"

definition InnerHash :: "'res TransactionResult \<Rightarrow> bytes option" where
  "InnerHash r = map_option inner_TransactionHash (GetInnerResultPair (result_Result r))"

text \<open>
  \<^verbatim>\<open>ExtractBalanceID\<close>; \<open>created\<close> is the id that a successful creation of a claimable balance carries, \<open>None\<close>
  for the results on which the accessors of the union panic.
\<close>

datatype extract_error = NoOperationResults | InvalidOperationIndex | ExtractPanic

definition ExtractBalanceID :: "('res \<Rightarrow> ClaimableBalanceId option) \<Rightarrow> 'res TransactionResult \<Rightarrow> int \<Rightarrow> (extract_error, ClaimableBalanceId) result" where
  "ExtractBalanceID created r opIndex =
     (case OperationResults r of
        None \<Rightarrow> Inl NoOperationResults
      | Some opResults \<Rightarrow>
          if opIndex < 0 \<or> opIndex \<ge> int (length opResults) then Inl InvalidOperationIndex
          else (case created (opResults ! nat opIndex) of None \<Rightarrow> Inl ExtractPanic | Some b \<Rightarrow> Inr b))"

subsection \<open>Hashes\<close>

datatype 'op TaggedTransaction = TaggedTx "'op Transaction" | TaggedFeeBump "'op FeeBumpTransaction"

record 'op TransactionSignaturePayload =
  NetworkId :: bytes
  TaggedTransaction :: "'op TaggedTransaction"

datatype hash_error = InvalidTransactionType | EmptyPassphrase | MarshalFailed

text \<open>
  \<^verbatim>\<open>strings.TrimSpace\<close> leaves nothing of a string that consists of white space: the ASCII ones and the
  UTF-8 encodings of U+0085, U+00A0, U+1680, U+2000 to U+200A, U+2028, U+2029, U+202F, U+205F and U+3000.
\<close>

fun space_bytes :: "nat list \<Rightarrow> bool" where
  "space_bytes [] = True"
| "space_bytes (a # xs) =
     (if a \<in> {9, 10, 11, 12, 13, 32} then space_bytes xs
      else case xs of
        [] \<Rightarrow> False
      | b # ys \<Rightarrow>
          if a = 194 \<and> b \<in> {133, 160} then space_bytes ys
          else (case ys of
             [] \<Rightarrow> False
           | c # zs \<Rightarrow>
               if a = 225 \<and> b = 154 \<and> c = 128 \<or>
                  a = 226 \<and> b = 128 \<and> (128 \<le> c \<and> c \<le> 138 \<or> c \<in> {168, 169, 175}) \<or>
                  a = 226 \<and> b = 129 \<and> c = 159 \<or> a = 227 \<and> b = 128 \<and> c = 128
               then space_bytes zs else False))"

definition validatePassphrase :: "string \<Rightarrow> bool" where
  "validatePassphrase passphrase \<longleftrightarrow> \<not> space_bytes (map of_char passphrase)"

definition network_ID :: "(bytes \<Rightarrow> bytes) \<Rightarrow> string \<Rightarrow> bytes" where
  "network_ID sha256 passphrase = sha256 (string_bytes passphrase)"

definition hashTx :: "(bytes \<Rightarrow> bytes) \<Rightarrow> ('op TransactionSignaturePayload \<Rightarrow> bytes option) \<Rightarrow>
    'op TaggedTransaction \<Rightarrow> string \<Rightarrow> (hash_error, bytes) result" where
  "hashTx sha256 marshal tx passphrase =
     (if \<not> validatePassphrase passphrase then Inl EmptyPassphrase
      else case marshal \<lparr>NetworkId = network_ID sha256 passphrase, TaggedTransaction = tx\<rparr> of
        None \<Rightarrow> Inl MarshalFailed
      | Some txBytes \<Rightarrow> Inr (sha256 txBytes))"

definition HashTransaction :: "(bytes \<Rightarrow> bytes) \<Rightarrow> ('op TransactionSignaturePayload \<Rightarrow> bytes option) \<Rightarrow>
    'op Transaction \<Rightarrow> string \<Rightarrow> (hash_error, bytes) result" where
  "HashTransaction sha256 marshal tx passphrase = hashTx sha256 marshal (TaggedTx tx) passphrase"

definition HashFeeBumpTransaction :: "(bytes \<Rightarrow> bytes) \<Rightarrow> ('op TransactionSignaturePayload \<Rightarrow> bytes option) \<Rightarrow>
    'op FeeBumpTransaction \<Rightarrow> string \<Rightarrow> (hash_error, bytes) result" where
  "HashFeeBumpTransaction sha256 marshal tx passphrase = hashTx sha256 marshal (TaggedFeeBump tx) passphrase"

definition HashTransactionV0 :: "(bytes \<Rightarrow> bytes) \<Rightarrow> ('op TransactionSignaturePayload \<Rightarrow> bytes option) \<Rightarrow>
    'op TransactionV0 \<Rightarrow> string \<Rightarrow> (hash_error, bytes) result" where
  "HashTransactionV0 sha256 marshal tx passphrase =
     HashTransaction sha256 marshal
       \<lparr>tx_SourceAccount = KeyTypeEd25519 (v0_SourceAccountEd25519 tx), tx_Fee = v0_Fee tx, tx_SeqNum = v0_SeqNum tx,
        tx_Cond = NewPreconditionsWithTimeBounds (v0_TimeBounds tx), tx_Memo = v0_Memo tx, tx_Operations = v0_Operations tx,
        tx_Ext = TransactionExtV0\<rparr> passphrase"

fun HashTransactionInEnvelope :: "(bytes \<Rightarrow> bytes) \<Rightarrow> ('op TransactionSignaturePayload \<Rightarrow> bytes option) \<Rightarrow>
    'op TransactionEnvelope \<Rightarrow> string \<Rightarrow> (hash_error, bytes) result" where
  "HashTransactionInEnvelope sha256 marshal (EnvelopeV1 e) passphrase = HashTransaction sha256 marshal (v1_Tx e) passphrase"
| "HashTransactionInEnvelope sha256 marshal (EnvelopeV0 e) passphrase = HashTransactionV0 sha256 marshal (v0_Tx e) passphrase"
| "HashTransactionInEnvelope sha256 marshal (EnvelopeFeeBump e) passphrase = HashFeeBumpTransaction sha256 marshal (fb_Tx e) passphrase"
| "HashTransactionInEnvelope sha256 marshal (EnvelopeOther _) passphrase = Inl InvalidTransactionType"

section \<open>One transaction in several envelopes\<close>

text \<open>The transaction that the signatures of an envelope are for; a legacy transaction counts as its modern form.\<close>

definition modern_tx :: "'op TransactionV0 \<Rightarrow> 'op Transaction" where
  "modern_tx tx =
     \<lparr>tx_SourceAccount = KeyTypeEd25519 (v0_SourceAccountEd25519 tx), tx_Fee = v0_Fee tx, tx_SeqNum = v0_SeqNum tx,
      tx_Cond = (case v0_TimeBounds tx of None \<Rightarrow> PrecondNone | Some tb \<Rightarrow> PrecondTime tb), tx_Memo = v0_Memo tx,
      tx_Operations = v0_Operations tx, tx_Ext = TransactionExtV0\<rparr>"

definition modern_envelope :: "'op TransactionV0Envelope \<Rightarrow> 'op TransactionV1Envelope" where
  "modern_envelope e = \<lparr>v1_Tx = modern_tx (v0_Tx e), v1_Signatures = v0_Signatures e\<rparr>"

fun signed_content :: "'op TransactionEnvelope \<Rightarrow> 'op TaggedTransaction option" where
  "signed_content (EnvelopeV0 e) = Some (TaggedTx (modern_tx (v0_Tx e)))"
| "signed_content (EnvelopeV1 e) = Some (TaggedTx (v1_Tx e))"
| "signed_content (EnvelopeFeeBump e) = Some (TaggedFeeBump (fb_Tx e))"
| "signed_content (EnvelopeOther _) = None"

text \<open>What an envelope says about its (inner) transaction.\<close>

record 'op envelope_view =
  view_source :: "xdr_MuxedAccount option"
  view_fee :: "32 word option"
  view_signatures :: "DecoratedSignature list option"
  view_seq :: "int option"
  view_min_seq :: "int option option"
  view_time :: "TimeBounds option option"
  view_ledgers :: "LedgerBounds option option"
  view_age :: "64 word option option"
  view_gap :: "32 word option option"
  view_signers :: "SignerKey list option"
  view_cond :: "Preconditions option"
  view_operations :: "'op list option"
  view_memo :: "Memo option"
  view_count :: "32 word option"

definition envelope_view :: "'op TransactionEnvelope \<Rightarrow> 'op envelope_view" where
  "envelope_view e =
     \<lparr>view_source = SourceAccount e, view_fee = Fee e, view_signatures = Signatures e, view_seq = SeqNum e,
      view_min_seq = MinSeqNum e, view_time = Envelope_TimeBounds e, view_ledgers = Envelope_LedgerBounds e,
      view_age = MinSeqAge e, view_gap = MinSeqLedgerGap e, view_signers = ExtraSigners e,
      view_cond = Envelope_Preconditions e, view_operations = Operations e, view_memo = Envelope_Memo e,
      view_count = OperationsCount e\<rparr>"

lemma modern_tx_fields [simp]:
  "tx_SourceAccount (modern_tx tx) = KeyTypeEd25519 (v0_SourceAccountEd25519 tx)" "tx_Fee (modern_tx tx) = v0_Fee tx"
  "tx_SeqNum (modern_tx tx) = v0_SeqNum tx" "tx_Memo (modern_tx tx) = v0_Memo tx" "tx_Operations (modern_tx tx) = v0_Operations tx"
  "tx_Cond (modern_tx tx) = NewPreconditionsWithTimeBounds (v0_TimeBounds tx)"
  by (simp_all add: modern_tx_def NewPreconditionsWithTimeBounds_def)

lemma HashTransactionV0_modern: "HashTransactionV0 sha256 marshal tx p = HashTransaction sha256 marshal (modern_tx tx) p"
  by (simp add: HashTransactionV0_def modern_tx_def NewPreconditionsWithTimeBounds_def)

text \<open>
  A legacy envelope is read and hashed like the modern envelope with the same content, and a fee bump
  envelope shows its inner transaction except for the account and the fee that pay.
\<close>

lemma envelope_forms_agree:
  "envelope_view (EnvelopeV0 e) = envelope_view (EnvelopeV1 (modern_envelope e))"
  "HashTransactionInEnvelope sha256 marshal (EnvelopeV0 e) p = HashTransactionInEnvelope sha256 marshal (EnvelopeV1 (modern_envelope e)) p"
  "FeeAccount (EnvelopeV0 e) = FeeAccount (EnvelopeV1 (modern_envelope e))"
  "envelope_view (EnvelopeFeeBump b) = envelope_view (EnvelopeV1 (InnerTx (fb_Tx b)))"
  "FeeAccount (EnvelopeFeeBump b) = FeeBumpAccount (EnvelopeFeeBump b)"
  by (auto simp: envelope_view_def modern_envelope_def OperationsCount_def FeeAccount_def HashTransactionV0_modern
      cond_MinSeqNum_def Transaction_TimeBounds_def Transaction_LedgerBounds_def Transaction_MinSeqAge_def
      Transaction_MinSeqLedgerGap_def Transaction_ExtraSigners_def NewPreconditionsWithTimeBounds_def split: option.splits)

section \<open>Hashes identify transactions\<close>

lemma HashTransactionInEnvelope_content:
  "HashTransactionInEnvelope sha256 marshal e p =
     (case signed_content e of None \<Rightarrow> Inl InvalidTransactionType | Some tx \<Rightarrow> hashTx sha256 marshal tx p)"
  by (cases e) (simp_all add: HashTransactionV0_modern HashTransaction_def HashFeeBumpTransaction_def)

lemma hashTx_Inr:
  "hashTx sha256 marshal tx p = Inr h \<longleftrightarrow> validatePassphrase p \<and>
     (\<exists>b. marshal \<lparr>NetworkId = sha256 (string_bytes p), TaggedTransaction = tx\<rparr> = Some b \<and> h = sha256 b)"
  by (auto simp: hashTx_def network_ID_def split: option.splits)

text \<open>
  C33: Two envelopes have the same hash only if they are for the same network and the same transaction, be
  it wrapped in a legacy or a modern envelope: with an encoder that tells payloads apart and a
  SHA-256 without a collision on the messages in use, a signature cannot be replayed on another
  network or for a fee bump of the transaction.
\<close>
theorem envelope_hash_identifies:
  assumes "inj_on sha256 S" and "\<And>a. marshal a \<noteq> None \<Longrightarrow> the (marshal a) \<in> S" and "inj_on marshal {a. marshal a \<noteq> None}"
    and "{string_bytes p, string_bytes p'} \<subseteq> S"
    and "HashTransactionInEnvelope sha256 marshal e p = Inr h" and "HashTransactionInEnvelope sha256 marshal e' p' = Inr h"
  shows "p = p' \<and> signed_content e = signed_content e' \<and> signed_content e \<noteq> None"
proof -
  obtain t t' where t: "signed_content e = Some t" "hashTx sha256 marshal t p = Inr h"
      "signed_content e' = Some t'" "hashTx sha256 marshal t' p' = Inr h"
    using assms(5,6) by (auto simp: HashTransactionInEnvelope_content split: option.splits)
  obtain b b' where b: "marshal \<lparr>NetworkId = sha256 (string_bytes p), TaggedTransaction = t\<rparr> = Some b"
      "marshal \<lparr>NetworkId = sha256 (string_bytes p'), TaggedTransaction = t'\<rparr> = Some b'" "sha256 b = sha256 b'"
    using t(2,4) by (auto simp: hashTx_Inr)
  have "b \<in> S" "b' \<in> S" using b assms(2) by force+
  then have "b = b'" using b(3) assms(1) by (auto dest: inj_onD)
  then have "\<lparr>NetworkId = sha256 (string_bytes p), TaggedTransaction = t\<rparr> = \<lparr>NetworkId = sha256 (string_bytes p'), TaggedTransaction = t'\<rparr>"
    using b(1,2) by (intro inj_onD [OF assms(3)]) auto
  then have "sha256 (string_bytes p) = sha256 (string_bytes p')" "t = t'" by simp_all
  moreover have "string_bytes p = string_bytes p'" using calculation(1) assms(1,4) by (auto dest: inj_onD)
  ultimately show ?thesis using t by (simp add: string_bytes_inject)
qed

definition witness_v0 :: "unit TransactionV0" where
  "witness_v0 = \<lparr>v0_SourceAccountEd25519 = replicate 32 1, v0_Fee = 100, v0_SeqNum = 7, v0_TimeBounds = None,
     v0_Memo = MemoText ''hi'', v0_Operations = [()]\<rparr>"

definition witness_payload :: "unit TransactionSignaturePayload \<Rightarrow> bytes option" where
  "witness_payload a = (if a = \<lparr>NetworkId = string_bytes ''net'', TaggedTransaction = TaggedTx (modern_tx witness_v0)\<rparr> then Some [1, 2] else None)"

theorem envelope_hash_identifies_witness:
  "HashTransactionInEnvelope (\<lambda>x. x) witness_payload (EnvelopeV0 \<lparr>v0_Tx = witness_v0, v0_Signatures = []\<rparr>) ''net'' = Inr [1, 2] \<and>
   HashTransactionInEnvelope (\<lambda>x. x) witness_payload
     (EnvelopeV1 \<lparr>v1_Tx = modern_tx witness_v0, v1_Signatures = [NewDecoratedSignature [7] [1, 2, 3, 4]]\<rparr>) ''net'' = Inr [1, 2] \<and>
   signed_content (EnvelopeV0 \<lparr>v0_Tx = witness_v0, v0_Signatures = []\<rparr>) =
     signed_content (EnvelopeV1 \<lparr>v1_Tx = modern_tx witness_v0, v1_Signatures = [NewDecoratedSignature [7] [1, 2, 3, 4]]\<rparr>)"
proof -
  have "validatePassphrase ''net''" by (simp add: validatePassphrase_def)
  then have h: "hashTx (\<lambda>x. x) witness_payload (TaggedTx (modern_tx witness_v0)) ''net'' = Inr [1, 2]"
    by (simp add: hashTx_Inr witness_payload_def)
  let ?e = "EnvelopeV0 \<lparr>v0_Tx = witness_v0, v0_Signatures = []\<rparr>"
  let ?e' = "EnvelopeV1 \<lparr>v1_Tx = modern_tx witness_v0, v1_Signatures = [NewDecoratedSignature [7] [1, 2, 3, 4]]\<rparr>"
  have e: "HashTransactionInEnvelope (\<lambda>x. x) witness_payload ?e ''net'' = Inr [1, 2]"
    "HashTransactionInEnvelope (\<lambda>x. x) witness_payload ?e' ''net'' = Inr [1, 2]"
    using h by (simp_all add: HashTransactionInEnvelope_content)
  have "inj_on witness_payload {a. witness_payload a \<noteq> None}" by (auto simp: inj_on_def witness_payload_def)
  from envelope_hash_identifies [OF inj_on_id2 [of UNIV] _ this _ e] show ?thesis using e by simp
qed

end
