(* ===== verification/Change_Compactor.thy ===== *)
theory Change_Compactor
  imports Ledger_Key "HOL-Library.AList"
begin

text \<open>
  The compaction of ledger entry changes (\<^verbatim>\<open>ingest/change_compactor.go\<close> and the type \<^verbatim>\<open>Change\<close> of
  \<^verbatim>\<open>ingest/change.go\<close>). The cache is an association list from marshalled keys to changes;
  \<open>marshal\<close> is the generated XDR encoder of ledger keys, assumed to be injective on the keys that
  occur. The abstract side is a ledger: a map from keys to entries, on which changes act one
  by one. The theorems show that the compacted changes are the difference between the
  ledger before and after.
\<close>

section \<open>Definitions\<close>

datatype LedgerEntryChangeType =
    LedgerEntryCreated
  | LedgerEntryUpdated
  | LedgerEntryRemoved
  | LedgerEntryState
  | LedgerEntryRestored
  | LedgerEntryChangeOther int

text \<open>
  \<^verbatim>\<open>Change\<close>. The pointers to the transaction, the ledger and the upgrade are carried along; \<open>'x\<close> is
  what they point to.
\<close>

record ('r, 'x) Change =
  change_Type :: int
  ChangeType :: LedgerEntryChangeType
  change_Pre :: "'r LedgerEntry option"
  change_Post :: "'r LedgerEntry option"
  change_Reason :: nat
  OperationIndex :: nat
  change_Transaction :: "'x option"
  change_Ledger :: "'x option"
  LedgerUpgrade :: "'x option"

text \<open>A composite literal that sets the first four fields; the others are zero.\<close>

definition new_change :: "int \<Rightarrow> 'r LedgerEntry option \<Rightarrow> 'r LedgerEntry option \<Rightarrow> LedgerEntryChangeType \<Rightarrow> ('r, 'x) Change" where
  "new_change t pre post ct = \<lparr>change_Type = t, ChangeType = ct, change_Pre = pre, change_Post = post, change_Reason = 0,
     OperationIndex = 0, change_Transaction = None, change_Ledger = None, LedgerUpgrade = None\<rparr>"

definition LedgerEntryTypeTtl :: int where
  "LedgerEntryTypeTtl = 9"

record ('r, 'x) ChangeCompactor =
  cache :: "(bytes \<times> ('r, 'x) Change) list"
  SuppressRemoveAfterRestoreChange :: bool

text \<open>\<open>NilEntry\<close> is the panic on an entry or a TTL that is not set; the state errors come first.\<close>

datatype compactor_error =
    CreateExisting bytes
  | UpdateRemoved bytes
  | RemoveRemoved bytes
  | RestoreActive bytes
  | UnknownExistingType int
  | UnknownChangeState
  | LedgerKeyError key_error
  | NilEntry

definition NewChangeCompactor :: "bool \<Rightarrow> ('r, 'x) ChangeCompactor" where
  "NewChangeCompactor suppress = \<lparr>cache = [], SuppressRemoveAfterRestoreChange = suppress\<rparr>"

definition getLedgerKey :: "(LedgerKey \<Rightarrow> bytes) \<Rightarrow> 'r LedgerEntry option \<Rightarrow> (compactor_error, bytes) result" where
  "getLedgerKey marshal entry =
     (case entry of
        None \<Rightarrow> Inl NilEntry
      | Some e \<Rightarrow> (case LedgerEntry_LedgerKey e of Inl err \<Rightarrow> Inl (LedgerKeyError err) | Inr key \<Rightarrow> Inr (marshal key)))"

definition maxTTL :: "TtlEntry \<Rightarrow> TtlEntry \<Rightarrow> TtlEntry" where
  "maxTTL a b = (if LiveUntilLedgerSeq a > LiveUntilLedgerSeq b then a else b)"

definition put :: "bytes \<Rightarrow> ('r, 'x) Change \<Rightarrow> ('r, 'x) ChangeCompactor \<Rightarrow> ('r, 'x) ChangeCompactor" where
  "put k ch c = c\<lparr>cache := AList.update k ch (cache c)\<rparr>"

definition addCreatedChange ::
    "(LedgerKey \<Rightarrow> bytes) \<Rightarrow> ('r, 'x) ChangeCompactor \<Rightarrow> ('r, 'x) Change \<Rightarrow> (compactor_error, ('r, 'x) ChangeCompactor) result" where
  "addCreatedChange marshal c change =
     bind_result (getLedgerKey marshal (change_Post change)) (\<lambda>ledgerKey.
       case map_of (cache c) ledgerKey of
         None \<Rightarrow> Inr (put ledgerKey change c)
       | Some existingChange \<Rightarrow>
          (case ChangeType existingChange of
             LedgerEntryCreated \<Rightarrow> Inl (CreateExisting ledgerKey)
           | LedgerEntryUpdated \<Rightarrow> Inl (CreateExisting ledgerKey)
           | LedgerEntryRestored \<Rightarrow> Inl (CreateExisting ledgerKey)
           | LedgerEntryRemoved \<Rightarrow>
               Inr (put ledgerKey (new_change (change_Type change) (change_Pre existingChange) (change_Post change) LedgerEntryUpdated) c)
           | LedgerEntryState \<Rightarrow> Inl (UnknownExistingType 3)
           | LedgerEntryChangeOther t \<Rightarrow> Inl (UnknownExistingType t)))"

text \<open>
  The special rule for TTL entries: the larger of the cached and the new value is kept. The code
  reads \<^verbatim>\<open>Data.Ttl\<close> of both entries, which panics when it is not set.
\<close>

definition merge_ttl :: "'r LedgerEntry option \<Rightarrow> 'r LedgerEntry option \<Rightarrow> (compactor_error, 'r LedgerEntry option) result" where
  "merge_ttl existing post =
     (case (existing, post) of
        (Some e, Some p) \<Rightarrow>
          (case (entry_Data e, entry_Data p) of
             (EntryTtl a, EntryTtl b) \<Rightarrow> Inr (Some (p\<lparr>entry_Data := EntryTtl (maxTTL a b)\<rparr>))
           | _ \<Rightarrow> Inl NilEntry)
      | _ \<Rightarrow> Inl NilEntry)"

definition addUpdatedChange ::
    "(LedgerKey \<Rightarrow> bytes) \<Rightarrow> ('r, 'x) ChangeCompactor \<Rightarrow> ('r, 'x) Change \<Rightarrow> (compactor_error, ('r, 'x) ChangeCompactor) result" where
  "addUpdatedChange marshal c change =
     bind_result (getLedgerKey marshal (change_Post change)) (\<lambda>ledgerKey.
       case map_of (cache c) ledgerKey of
         None \<Rightarrow> Inr (put ledgerKey change c)
       | Some existingChange \<Rightarrow>
          if ChangeType existingChange \<in> {LedgerEntryCreated, LedgerEntryUpdated, LedgerEntryRestored}
          then bind_result
                 (if change_Type change = LedgerEntryTypeTtl then merge_ttl (change_Post existingChange) (change_Post change)
                  else Inr (change_Post change)) (\<lambda>post.
               Inr (put ledgerKey (new_change (change_Type change) (change_Pre existingChange) post (ChangeType existingChange)) c))
          else if ChangeType existingChange = LedgerEntryRemoved then Inl (UpdateRemoved ledgerKey)
          else Inl (UnknownExistingType (case ChangeType existingChange of LedgerEntryChangeOther t \<Rightarrow> t | _ \<Rightarrow> 3)))"

definition addRemovedChange ::
    "(LedgerKey \<Rightarrow> bytes) \<Rightarrow> ('r, 'x) ChangeCompactor \<Rightarrow> ('r, 'x) Change \<Rightarrow> (compactor_error, ('r, 'x) ChangeCompactor) result" where
  "addRemovedChange marshal c change =
     bind_result (getLedgerKey marshal (change_Pre change)) (\<lambda>ledgerKey.
       case map_of (cache c) ledgerKey of
         None \<Rightarrow> Inr (put ledgerKey change c)
       | Some existingChange \<Rightarrow>
          (case ChangeType existingChange of
             LedgerEntryCreated \<Rightarrow> Inr (c\<lparr>cache := AList.delete ledgerKey (cache c)\<rparr>)
           | LedgerEntryUpdated \<Rightarrow>
               Inr (put ledgerKey (new_change (change_Type change) (change_Pre existingChange) None (ChangeType change)) c)
           | LedgerEntryRemoved \<Rightarrow> Inl (RemoveRemoved ledgerKey)
           | LedgerEntryRestored \<Rightarrow>
               if SuppressRemoveAfterRestoreChange c then Inr (c\<lparr>cache := AList.delete ledgerKey (cache c)\<rparr>)
               else Inr (put ledgerKey (new_change (change_Type change) (change_Pre change) None (ChangeType change)) c)
           | LedgerEntryState \<Rightarrow> Inl (UnknownExistingType 3)
           | LedgerEntryChangeOther t \<Rightarrow> Inl (UnknownExistingType t)))"

definition addRestoredChange ::
    "(LedgerKey \<Rightarrow> bytes) \<Rightarrow> ('r, 'x) ChangeCompactor \<Rightarrow> ('r, 'x) Change \<Rightarrow> (compactor_error, ('r, 'x) ChangeCompactor) result" where
  "addRestoredChange marshal c change =
     bind_result (getLedgerKey marshal (change_Post change)) (\<lambda>ledgerKey.
       if map_of (cache c) ledgerKey \<noteq> None then Inl (RestoreActive ledgerKey) else Inr (put ledgerKey change c))"

definition AddChange ::
    "(LedgerKey \<Rightarrow> bytes) \<Rightarrow> ('r, 'x) ChangeCompactor \<Rightarrow> ('r, 'x) Change \<Rightarrow> (compactor_error, ('r, 'x) ChangeCompactor) result" where
  "AddChange marshal c change =
     (case ChangeType change of
        LedgerEntryCreated \<Rightarrow> addCreatedChange marshal c change
      | LedgerEntryUpdated \<Rightarrow> addUpdatedChange marshal c change
      | LedgerEntryRemoved \<Rightarrow> addRemovedChange marshal c change
      | LedgerEntryRestored \<Rightarrow> addRestoredChange marshal c change
      | _ \<Rightarrow> Inl UnknownChangeState)"

text \<open>\<^verbatim>\<open>GetChanges\<close>: one order of the map; the theorems hold for every order.\<close>

definition GetChanges :: "('r, 'x) ChangeCompactor \<Rightarrow> ('r, 'x) Change list" where
  "GetChanges c = map snd (cache c)"

definition compactor_Size :: "('r, 'x) ChangeCompactor \<Rightarrow> nat" where
  "compactor_Size c = length (cache c)"

text \<open>A client that adds a sequence of changes and stops at the first error.\<close>

fun AddChanges ::
    "(LedgerKey \<Rightarrow> bytes) \<Rightarrow> ('r, 'x) ChangeCompactor \<Rightarrow> ('r, 'x) Change list \<Rightarrow> (compactor_error, ('r, 'x) ChangeCompactor) result" where
  "AddChanges marshal c [] = Inr c"
| "AddChanges marshal c (ch # chs) = bind_result (AddChange marshal c ch) (\<lambda>c. AddChanges marshal c chs)"

subsection \<open>The ledger\<close>

text \<open>
  A ledger during the application of one block: its entries by key, and the keys that were
  changed so far.
\<close>

record 'r ledger =
  live :: "LedgerKey \<rightharpoonup> 'r LedgerEntry"
  touched :: "LedgerKey set"

text \<open>The entry that identifies the change, and its key.\<close>

definition change_entry :: "('r, 'x) Change \<Rightarrow> 'r LedgerEntry option" where
  "change_entry ch = (if ChangeType ch = LedgerEntryRemoved then change_Pre ch else change_Post ch)"

definition change_key :: "('r, 'x) Change \<Rightarrow> LedgerKey option" where
  "change_key ch = (case change_entry ch of None \<Rightarrow> None
     | Some e \<Rightarrow> (case LedgerEntry_LedgerKey e of Inl _ \<Rightarrow> None | Inr k \<Rightarrow> Some k))"

text \<open>A later TTL within the block takes effect only if it is larger.\<close>

definition later_entry :: "'r LedgerEntry option \<Rightarrow> 'r LedgerEntry option \<Rightarrow> 'r LedgerEntry option" where
  "later_entry old new =
     (case (old, new) of
        (Some e, Some p) \<Rightarrow>
          (case (entry_Data e, entry_Data p) of (EntryTtl a, EntryTtl b) \<Rightarrow> Some (p\<lparr>entry_Data := EntryTtl (maxTTL a b)\<rparr>) | _ \<Rightarrow> new)
      | _ \<Rightarrow> new)"

text \<open>
  A change that a ledger can make: the entry it creates is not there, the entry it updates or
  removes is there (and is the \<^verbatim>\<open>Pre\<close> of the first change of the block to it), the entry it restores
  was not changed in the block, and the type of the change is the type of the entry.
\<close>

definition is_ttl :: "'r LedgerEntry option \<Rightarrow> bool" where
  "is_ttl e = (case e of Some x \<Rightarrow> (case entry_Data x of EntryTtl t \<Rightarrow> True | _ \<Rightarrow> False) | None \<Rightarrow> False)"

definition change_ok :: "'r ledger \<Rightarrow> ('r, 'x) Change \<Rightarrow> LedgerKey \<Rightarrow> bool" where
  "change_ok l ch k \<longleftrightarrow> change_key ch = Some k \<and>
     (change_Type ch = LedgerEntryTypeTtl \<longleftrightarrow> is_ttl (change_entry ch)) \<and>
     (case ChangeType ch of
        LedgerEntryCreated \<Rightarrow> live l k = None \<and> change_Pre ch = None
      | LedgerEntryUpdated \<Rightarrow> live l k \<noteq> None \<and> (k \<notin> touched l \<longrightarrow> change_Pre ch = live l k)
      | LedgerEntryRemoved \<Rightarrow> live l k \<noteq> None \<and> change_Post ch = None \<and> (k \<notin> touched l \<longrightarrow> change_Pre ch = live l k)
      | LedgerEntryRestored \<Rightarrow> k \<notin> touched l
      | _ \<Rightarrow> False)"

definition apply_change :: "'r ledger \<Rightarrow> ('r, 'x) Change \<Rightarrow> LedgerKey \<Rightarrow> 'r ledger" where
  "apply_change l ch k =
     \<lparr>live = (live l)(k :=
        (if ChangeType ch = LedgerEntryUpdated \<and> k \<in> touched l then later_entry (live l k) (change_Post ch) else change_Post ch)),
      touched = insert k (touched l)\<rparr>"

text \<open>A block of changes, and the ledger it leads to.\<close>

inductive ledger_run :: "'r ledger \<Rightarrow> ('r, 'x) Change list \<Rightarrow> 'r ledger \<Rightarrow> bool" where
  run_none: "ledger_run l [] l"
| run_change: "change_ok l ch k \<Longrightarrow> ledger_run (apply_change l ch k) chs l' \<Longrightarrow> ledger_run l (ch # chs) l'"

inductive_cases ledger_run_ConsE: "ledger_run l (ch # chs) l'"
inductive_cases ledger_run_NilE: "ledger_run l [] l'"

definition new_ledger :: "(LedgerKey \<rightharpoonup> 'r LedgerEntry) \<Rightarrow> 'r ledger" where
  "new_ledger db = \<lparr>live = db, touched = {}\<rparr>"

text \<open>Writing changes to a database, in the order given.\<close>

definition store_change :: "(LedgerKey \<rightharpoonup> 'r LedgerEntry) \<Rightarrow> ('r, 'x) Change \<Rightarrow> (LedgerKey \<rightharpoonup> 'r LedgerEntry)" where
  "store_change db ch = (case change_key ch of None \<Rightarrow> db | Some k \<Rightarrow> db(k := change_Post ch))"

definition net_type :: "'r LedgerEntry option \<Rightarrow> 'r LedgerEntry option \<Rightarrow> LedgerEntryChangeType" where
  "net_type pre post = (case (pre, post) of (None, Some _) \<Rightarrow> LedgerEntryCreated | (Some _, Some _) \<Rightarrow> LedgerEntryUpdated
     | (Some _, None) \<Rightarrow> LedgerEntryRemoved | (None, None) \<Rightarrow> LedgerEntryState)"

text \<open>
  How the cache relates to the ledger before (\<open>db\<close>) and now (\<open>l\<close>) at a key: what is cached for it
  (\<open>x\<close>) records the net change; \<open>R\<close> are the keys restored in the block.
\<close>

definition keyed :: "'r LedgerEntry option \<Rightarrow> LedgerKey \<Rightarrow> bool" where
  "keyed e k \<longleftrightarrow> (\<forall>x. e = Some x \<longrightarrow> LedgerEntry_LedgerKey x = Inr k)"

definition cached_ok :: "bool \<Rightarrow> 'r LedgerEntry option \<Rightarrow> LedgerKey \<Rightarrow> ('r, 'x) Change \<Rightarrow> bool" where
  "cached_ok s old k ch =
     (case ChangeType ch of
        LedgerEntryCreated \<Rightarrow> change_Post ch \<noteq> None \<and> old = None \<and> change_Pre ch = None
      | LedgerEntryUpdated \<Rightarrow> change_Post ch \<noteq> None \<and> change_Pre ch \<noteq> None \<and> keyed (change_Pre ch) k
      | LedgerEntryRemoved \<Rightarrow> change_Post ch = None \<and> change_Pre ch \<noteq> None \<and> keyed (change_Pre ch) k
      | LedgerEntryRestored \<Rightarrow> change_Post ch \<noteq> None \<and> (s \<longrightarrow> old = None)
      | _ \<Rightarrow> False)"

definition key_inv ::
    "bool \<Rightarrow> (LedgerKey \<rightharpoonup> 'r LedgerEntry) \<Rightarrow> LedgerKey set \<Rightarrow> 'r ledger \<Rightarrow> LedgerKey \<Rightarrow> ('r, 'x) Change option \<Rightarrow> bool" where
  "key_inv s db R l k x \<longleftrightarrow> keyed (live l k) k \<and>
     (case x of
        None \<Rightarrow> live l k = db k \<and> (k \<in> touched l \<longrightarrow> live l k = None)
      | Some ch \<Rightarrow> k \<in> touched l \<and> change_Post ch = live l k \<and> cached_ok s (db k) k ch \<and>
          (k \<notin> R \<longrightarrow> change_Pre ch = db k \<and> ChangeType ch \<noteq> LedgerEntryRestored))"

definition restored_keys :: "('r, 'x) Change list \<Rightarrow> LedgerKey set" where
  "restored_keys chs = {k. \<exists>ch \<in> set chs. ChangeType ch = LedgerEntryRestored \<and> change_key ch = Some k}"

section \<open>One change\<close>

definition set_cached :: "bytes \<Rightarrow> ('r, 'x) Change option \<Rightarrow> ('r, 'x) ChangeCompactor \<Rightarrow> ('r, 'x) ChangeCompactor" where
  "set_cached b x c = (case x of None \<Rightarrow> c\<lparr>cache := AList.delete b (cache c)\<rparr> | Some ch \<Rightarrow> put b ch c)"

lemma new_change_simps [simp]:
  "change_Type (new_change t pre post ct) = t" "ChangeType (new_change t pre post ct) = ct"
  "change_Pre (new_change t pre post ct) = pre" "change_Post (new_change t pre post ct) = post"
  by (simp_all add: new_change_def)

lemma getLedgerKey_eq: "e = Some x \<Longrightarrow> LedgerEntry_LedgerKey x = Inr k \<Longrightarrow> getLedgerKey marshal e = Inr (marshal k)"
  by (simp add: getLedgerKey_def)

lemma change_key_entry: "change_key ch = Some k \<longleftrightarrow> (\<exists>x. change_entry ch = Some x \<and> LedgerEntry_LedgerKey x = Inr k)"
  by (auto simp: change_key_def split: option.splits sum.splits)

lemma change_key_parts:
  assumes "change_key ch = Some k"
  shows "getLedgerKey marshal (change_entry ch) = Inr (marshal k)" "change_entry ch \<noteq> None" "keyed (change_entry ch) k"
  using assms by (auto simp: change_key_entry getLedgerKey_eq keyed_def)

text \<open>Merging the TTL of two entries of the same key keeps the key.\<close>

lemma later_entry_keyed: "keyed old k \<Longrightarrow> keyed new k \<Longrightarrow> keyed (later_entry old new) k"
  by (auto simp: keyed_def later_entry_def LedgerEntry_LedgerKey_def maxTTL_def split: option.splits LedgerEntryData.splits)

lemma later_entry_some: "new \<noteq> None \<Longrightarrow> later_entry old new \<noteq> None"
  by (auto simp: later_entry_def split: option.splits LedgerEntryData.splits)

lemma ttl_key:
  assumes "LedgerEntry_LedgerKey x = Inr k" "LedgerEntry_LedgerKey y = Inr k"
  shows "is_ttl (Some x) \<longleftrightarrow> is_ttl (Some y)"
  using assms
  by (cases "entry_Data x"; cases "entry_Data y")
    (auto simp: LedgerEntry_LedgerKey_def is_ttl_def SetAccount_def SetTrustline_def SetContractData_def SetContractCode_def
      SetData_def SetOffer_def SetLiquidityPool_def SetClaimableBalance_def SetConfigSetting_def SetTtl_def)

lemma merge_ttl_later:
  assumes "keyed old k" "keyed new k" "old \<noteq> None" "new \<noteq> None"
  shows "(if is_ttl new then merge_ttl old new else Inr new) = Inr (later_entry old new)"
proof -
  obtain x y where xy: "old = Some x" "new = Some y" using assms(3,4) by blast
  then have "is_ttl old \<longleftrightarrow> is_ttl new" using ttl_key [of x k y] assms(1,2) by (simp add: keyed_def)
  then show ?thesis
    using xy by (auto simp: merge_ttl_def later_entry_def is_ttl_def split: LedgerEntryData.splits)
qed

lemma AddChange_key:
  fixes c :: "('r, 'x) ChangeCompactor"
  assumes inv: "key_inv (SuppressRemoveAfterRestoreChange c) db R l k (map_of (cache c) (marshal k))"
    and ok: "change_ok l ch k"
    and restored: "ChangeType ch = LedgerEntryRestored \<Longrightarrow> k \<in> R \<and> (SuppressRemoveAfterRestoreChange c \<longrightarrow> db k = None)"
  shows "\<exists>x. AddChange marshal c ch = Inr (set_cached (marshal k) x c) \<and>
    key_inv (SuppressRemoveAfterRestoreChange c) db R (apply_change l ch k) k x"
proof -
  let ?s = "SuppressRemoveAfterRestoreChange c"
  have key: "change_key ch = Some k" and ttl: "change_Type ch = LedgerEntryTypeTtl \<longleftrightarrow> is_ttl (change_entry ch)"
    using ok by (simp_all add: change_ok_def)
  note E = change_key_parts [OF key]
  show ?thesis
  proof (cases "ChangeType ch")
    case LedgerEntryCreated
    then have post: "change_entry ch = change_Post ch" by (simp add: change_entry_def)
    have new: "live l k = None" "change_Pre ch = None" using ok LedgerEntryCreated by (simp_all add: change_ok_def)
    show ?thesis
    proof (cases "map_of (cache c) (marshal k)")
      case None
      then have "AddChange marshal c ch = Inr (set_cached (marshal k) (Some ch) c)"
        using E(1) LedgerEntryCreated by (simp add: AddChange_def addCreatedChange_def post set_cached_def)
      moreover have "key_inv ?s db R (apply_change l ch k) k (Some ch)"
        using inv None new E(2,3) LedgerEntryCreated by (simp add: key_inv_def apply_change_def cached_ok_def post)
      ultimately show ?thesis by blast
    next
      case (Some old)
      let ?new = "new_change (change_Type ch) (change_Pre old) (change_Post ch) LedgerEntryUpdated"
      have old: "ChangeType old = LedgerEntryRemoved" "change_Pre old \<noteq> None" "keyed (change_Pre old) k"
        "k \<notin> R \<longrightarrow> change_Pre old = db k"
        using inv Some new by (auto simp: key_inv_def cached_ok_def split: LedgerEntryChangeType.splits)
      have "AddChange marshal c ch = Inr (set_cached (marshal k) (Some ?new) c)"
        using E(1) LedgerEntryCreated Some old(1) by (simp add: AddChange_def addCreatedChange_def post set_cached_def)
      moreover have "key_inv ?s db R (apply_change l ch k) k (Some ?new)"
        using old E(2,3) LedgerEntryCreated by (simp add: key_inv_def apply_change_def cached_ok_def post)
      ultimately show ?thesis by blast
    qed
  next
    case LedgerEntryUpdated
    then have post: "change_entry ch = change_Post ch" by (simp add: change_entry_def)
    have pre: "live l k \<noteq> None" "k \<notin> touched l \<longrightarrow> change_Pre ch = live l k" using ok LedgerEntryUpdated by (simp_all add: change_ok_def)
    show ?thesis
    proof (cases "map_of (cache c) (marshal k)")
      case None
      then have "AddChange marshal c ch = Inr (set_cached (marshal k) (Some ch) c)"
        using E(1) LedgerEntryUpdated by (simp add: AddChange_def addUpdatedChange_def post set_cached_def)
      moreover have "key_inv ?s db R (apply_change l ch k) k (Some ch)"
        using inv None pre E(2,3) LedgerEntryUpdated by (auto simp: key_inv_def apply_change_def cached_ok_def post)
      ultimately show ?thesis by blast
    next
      case (Some old)
      let ?post = "later_entry (live l k) (change_Post ch)"
      let ?new = "new_change (change_Type ch) (change_Pre old) ?post (ChangeType old)"
      have old: "ChangeType old \<in> {LedgerEntryCreated, LedgerEntryUpdated, LedgerEntryRestored}" "change_Post old = live l k"
        "k \<in> touched l" "keyed (live l k) k"
        using inv Some pre by (auto simp: key_inv_def cached_ok_def split: LedgerEntryChangeType.splits)
      have "(if change_Type ch = LedgerEntryTypeTtl then merge_ttl (change_Post old) (change_Post ch) else Inr (change_Post ch)) = Inr ?post"
        using merge_ttl_later [OF old(4) E(3) [unfolded post] pre(1) E(2) [unfolded post]] ttl
        by (simp add: post old(2) split: if_split_asm)
      then have "AddChange marshal c ch = Inr (set_cached (marshal k) (Some ?new) c)"
        using E(1) LedgerEntryUpdated Some old(1) by (simp add: AddChange_def addUpdatedChange_def post set_cached_def)
      moreover have "key_inv ?s db R (apply_change l ch k) k (Some ?new)"
        using inv Some old later_entry_keyed [OF old(4) E(3)] later_entry_some [OF E(2)] LedgerEntryUpdated
        by (auto simp: key_inv_def apply_change_def cached_ok_def post split: LedgerEntryChangeType.splits)
      ultimately show ?thesis by blast
    qed
  next
    case LedgerEntryRemoved
    then have entry: "change_entry ch = change_Pre ch" by (simp add: change_entry_def)
    have pre: "live l k \<noteq> None" "change_Post ch = None" "k \<notin> touched l \<longrightarrow> change_Pre ch = live l k"
      using ok LedgerEntryRemoved by (simp_all add: change_ok_def)
    show ?thesis
    proof (cases "map_of (cache c) (marshal k)")
      case None
      then have "AddChange marshal c ch = Inr (set_cached (marshal k) (Some ch) c)"
        using E(1) LedgerEntryRemoved by (simp add: AddChange_def addRemovedChange_def entry set_cached_def)
      moreover have "key_inv ?s db R (apply_change l ch k) k (Some ch)"
        using inv None pre E(2,3) LedgerEntryRemoved by (auto simp: key_inv_def apply_change_def cached_ok_def entry keyed_def)
      ultimately show ?thesis by blast
    next
      case (Some old)
      have o: "cached_ok ?s (db k) k old" "change_Post old = live l k"
          "k \<notin> R \<longrightarrow> change_Pre old = db k \<and> ChangeType old \<noteq> LedgerEntryRestored"
        using inv Some by (simp_all add: key_inv_def)
      define x :: "('r, 'x) Change option" where "x = (if ChangeType old = LedgerEntryUpdated
          then Some (new_change (change_Type ch) (change_Pre old) None LedgerEntryRemoved)
        else if ChangeType old = LedgerEntryRestored \<and> \<not> ?s
          then Some (new_change (change_Type ch) (change_Pre ch) None LedgerEntryRemoved) else None)"
      have "AddChange marshal c ch = Inr (set_cached (marshal k) x c)"
        using E(1) LedgerEntryRemoved Some o(1,2) pre(1)
        by (auto simp: AddChange_def addRemovedChange_def entry set_cached_def x_def cached_ok_def split: LedgerEntryChangeType.splits)
      moreover have "key_inv ?s db R (apply_change l ch k) k x"
        using o pre E(2,3) LedgerEntryRemoved
        by (auto simp: x_def key_inv_def apply_change_def cached_ok_def entry keyed_def split: LedgerEntryChangeType.splits)
      ultimately show ?thesis by blast
    qed
  next
    case LedgerEntryRestored
    then have post: "change_entry ch = change_Post ch" by (simp add: change_entry_def)
    have "k \<notin> touched l" using ok LedgerEntryRestored by (simp add: change_ok_def)
    then have "map_of (cache c) (marshal k) = None" using inv by (cases "map_of (cache c) (marshal k)") (simp_all add: key_inv_def)
    then have "AddChange marshal c ch = Inr (set_cached (marshal k) (Some ch) c)"
      using E(1) LedgerEntryRestored by (simp add: AddChange_def addRestoredChange_def post set_cached_def)
    moreover have "key_inv ?s db R (apply_change l ch k) k (Some ch)"
      using restored [OF LedgerEntryRestored] E(2,3) LedgerEntryRestored by (simp add: key_inv_def apply_change_def cached_ok_def post)
    ultimately show ?thesis by blast
  qed (use ok in \<open>simp_all add: change_ok_def\<close>)
qed

section \<open>A block of changes\<close>

text \<open>The cache at all keys of \<open>K\<close>, with one entry for each.\<close>

definition compactor_inv ::
    "(LedgerKey \<Rightarrow> bytes) \<Rightarrow> LedgerKey set \<Rightarrow> (LedgerKey \<rightharpoonup> 'r LedgerEntry) \<Rightarrow> LedgerKey set \<Rightarrow> 'r ledger \<Rightarrow> ('r, 'x) ChangeCompactor \<Rightarrow> bool" where
  "compactor_inv marshal K db R l c \<longleftrightarrow>
     distinct (map fst (cache c)) \<and> fst ` set (cache c) \<subseteq> marshal ` K \<and> (\<forall>k. k \<notin> K \<longrightarrow> live l k = db k) \<and>
     (\<forall>k \<in> K. key_inv (SuppressRemoveAfterRestoreChange c) db R l k (map_of (cache c) (marshal k)))"

lemma set_cached_facts:
  "SuppressRemoveAfterRestoreChange (set_cached b x c) = SuppressRemoveAfterRestoreChange c"
  "map_of (cache (set_cached b x c)) b' = (if b' = b then x else map_of (cache c) b')"
  "distinct (map fst (cache c)) \<Longrightarrow> distinct (map fst (cache (set_cached b x c)))"
  "fst ` set (cache (set_cached b x c)) \<subseteq> insert b (fst ` set (cache c))"
proof -
  show "SuppressRemoveAfterRestoreChange (set_cached b x c) = SuppressRemoveAfterRestoreChange c"
    "map_of (cache (set_cached b x c)) b' = (if b' = b then x else map_of (cache c) b')"
    by (simp_all add: set_cached_def put_def AList.update_conv' AList.delete_conv' split: option.splits)
  show "distinct (map fst (cache c)) \<Longrightarrow> distinct (map fst (cache (set_cached b x c)))"
    by (simp add: set_cached_def put_def AList.distinct_update AList.distinct_delete split: option.splits)
  have "fst ` set (AList.update b ch xs) = insert b (fst ` set xs)" for ch :: "('a, 'b) Change" and xs
    using AList.dom_update [of b ch xs] by simp
  moreover have "fst ` set (AList.delete b xs) \<subseteq> fst ` set xs" for xs :: "(bytes \<times> ('a, 'b) Change) list"
    by (auto simp: AList.delete_eq)
  ultimately show "fst ` set (cache (set_cached b x c)) \<subseteq> insert b (fst ` set (cache c))"
    by (cases x) (simp_all add: set_cached_def put_def subset_insertI2)
qed

lemma AddChange_step:
  assumes inv: "compactor_inv marshal K db R l c" and inj: "inj_on marshal K" and k: "k \<in> K"
    and ok: "change_ok l ch k"
    and restored: "ChangeType ch = LedgerEntryRestored \<Longrightarrow> k \<in> R \<and> (SuppressRemoveAfterRestoreChange c \<longrightarrow> db k = None)"
  shows "\<exists>c'. AddChange marshal c ch = Inr c' \<and> compactor_inv marshal K db R (apply_change l ch k) c' \<and>
    SuppressRemoveAfterRestoreChange c' = SuppressRemoveAfterRestoreChange c"
proof -
  have "key_inv (SuppressRemoveAfterRestoreChange c) db R l k (map_of (cache c) (marshal k))"
    using inv k by (simp add: compactor_inv_def)
  from AddChange_key [where marshal = marshal, OF this ok restored]
  obtain x where x: "AddChange marshal c ch = Inr (set_cached (marshal k) x c)"
      "key_inv (SuppressRemoveAfterRestoreChange c) db R (apply_change l ch k) k x" by blast
  have "key_inv (SuppressRemoveAfterRestoreChange c) db R (apply_change l ch k) j (map_of (cache (set_cached (marshal k) x c)) (marshal j))"
    if "j \<in> K" for j
  proof (cases "j = k")
    case False
    then have "marshal j \<noteq> marshal k" using inj k that by (auto simp: inj_on_def)
    moreover have "key_inv (SuppressRemoveAfterRestoreChange c) db R l j (map_of (cache c) (marshal j))"
      using inv that by (simp add: compactor_inv_def)
    ultimately show ?thesis using False by (auto simp: set_cached_facts key_inv_def apply_change_def split: option.splits)
  qed (simp add: x(2) set_cached_facts)
  moreover have "\<forall>j. j \<notin> K \<longrightarrow> live (apply_change l ch k) j = db j" using inv k by (auto simp: compactor_inv_def apply_change_def)
  moreover have "fst ` set (cache (set_cached (marshal k) x c)) \<subseteq> marshal ` K"
  proof -
    have "fst ` set (cache c) \<subseteq> marshal ` K" using inv by (simp add: compactor_inv_def)
    then show ?thesis using set_cached_facts(4) [of "marshal k" x c] k by blast
  qed
  moreover have "distinct (map fst (cache (set_cached (marshal k) x c)))"
    using inv by (intro set_cached_facts(3)) (simp add: compactor_inv_def)
  ultimately show ?thesis using x(1) by (simp add: compactor_inv_def set_cached_facts)
qed

lemma AddChanges_run:
  assumes "ledger_run l chs l'" "compactor_inv marshal K db R l c" "inj_on marshal K"
    and "\<And>ch k. ch \<in> set chs \<Longrightarrow> change_key ch = Some k \<Longrightarrow> k \<in> K"
    and "restored_keys chs \<subseteq> R" "SuppressRemoveAfterRestoreChange c \<Longrightarrow> \<forall>k \<in> restored_keys chs. db k = None"
  shows "\<exists>c'. AddChanges marshal c chs = Inr c' \<and> compactor_inv marshal K db R l' c'"
  using assms
proof (induction arbitrary: c rule: ledger_run.induct)
  case (run_change l ch k chs l')
  have key: "change_key ch = Some k" using run_change.hyps(1) by (simp add: change_ok_def)
  have "ChangeType ch = LedgerEntryRestored \<Longrightarrow> k \<in> restored_keys (ch # chs)" using key by (auto simp: restored_keys_def)
  then have "\<exists>c'. AddChange marshal c ch = Inr c' \<and> compactor_inv marshal K db R (apply_change l ch k) c' \<and>
      SuppressRemoveAfterRestoreChange c' = SuppressRemoveAfterRestoreChange c"
    using run_change.prems(3) [of ch k] run_change.prems(4,5) key
    by (intro AddChange_step [OF run_change.prems(1,2) _ run_change.hyps(1)]) auto
  then obtain c' where c': "AddChange marshal c ch = Inr c'" "compactor_inv marshal K db R (apply_change l ch k) c'"
      "SuppressRemoveAfterRestoreChange c' = SuppressRemoveAfterRestoreChange c" by blast
  have "restored_keys chs \<subseteq> restored_keys (ch # chs)" by (auto simp: restored_keys_def)
  then have "\<exists>d. AddChanges marshal c' chs = Inr d \<and> compactor_inv marshal K db R l' d"
    using run_change.prems(3-5) c'(3) by (intro run_change.IH [OF c'(2) run_change.prems(2)]) auto
  then show ?case using c'(1) by simp
qed simp

section \<open>The result\<close>

text \<open>A database of entries under their keys.\<close>

definition keyed_db :: "(LedgerKey \<rightharpoonup> 'r LedgerEntry) \<Rightarrow> bool" where
  "keyed_db db \<longleftrightarrow> (\<forall>k. keyed (db k) k)"

lemma new_compactor_inv: "keyed_db db \<Longrightarrow> compactor_inv marshal K db R (new_ledger db) (NewChangeCompactor s)"
  by (simp add: compactor_inv_def NewChangeCompactor_def new_ledger_def key_inv_def keyed_db_def)

lemma cached_change_key:
  assumes "key_inv s db R l k (Some ch)"
  shows "change_key ch = Some k"
proof -
  have "keyed (change_entry ch) k" "change_entry ch \<noteq> None"
    using assms by (cases "live l k"; auto simp: key_inv_def cached_ok_def change_entry_def split: LedgerEntryChangeType.splits)+
  then show ?thesis by (auto simp: change_key_entry keyed_def)
qed

lemma cached_changes:
  assumes "compactor_inv marshal K db R l c" "inj_on marshal K" "(b, ch) \<in> set (cache c)"
  shows "\<exists>k \<in> K. b = marshal k \<and> change_key ch = Some k \<and> key_inv (SuppressRemoveAfterRestoreChange c) db R l k (Some ch)"
proof -
  obtain k where k: "k \<in> K" "b = marshal k" using assms(1,3) by (force simp: compactor_inv_def)
  moreover have "map_of (cache c) b = Some ch" using assms(1,3) by (simp add: compactor_inv_def)
  ultimately have "key_inv (SuppressRemoveAfterRestoreChange c) db R l k (Some ch)"
    using assms(1) unfolding compactor_inv_def by metis
  then show ?thesis using k cached_change_key by blast
qed

text \<open>Changes to different keys can be stored in any order.\<close>

lemma foldl_store:
  assumes "distinct (map change_key xs)" "\<And>x. x \<in> set xs \<Longrightarrow> change_key x \<noteq> None"
  shows "foldl store_change db xs k =
    (case find (\<lambda>ch. change_key ch = Some k) xs of None \<Rightarrow> db k | Some ch \<Rightarrow> change_Post ch)"
  using assms
proof (induction xs arbitrary: db)
  case (Cons x xs)
  obtain j where j: "change_key x = Some j" using Cons.prems(2) [of x] by auto
  have IH: "foldl store_change (store_change db x) xs k =
      (case find (\<lambda>ch. change_key ch = Some k) xs of None \<Rightarrow> store_change db x k | Some ch \<Rightarrow> change_Post ch)"
    using Cons by simp
  show ?case
  proof (cases "j = k")
    case True
    then have "find (\<lambda>ch. change_key ch = Some k) xs = None"
      using Cons.prems(1) j by (auto simp: find_None_iff image_iff)
    moreover have "store_change db x k = change_Post x" using True j by (simp add: store_change_def)
    ultimately show ?thesis using IH True j by simp
  next
    case False
    then have "store_change db x k = db k" by (simp add: store_change_def j)
    then show ?thesis using IH False j by (auto split: option.splits)
  qed
qed simp

lemma compacted_store:
  assumes inv: "compactor_inv marshal K db R l c" and inj: "inj_on marshal K" and "mset xs = mset (GetChanges c)"
  shows "distinct (map change_key xs) \<and> foldl store_change db xs = live l"
proof -
  have ch: "\<exists>k \<in> K. (marshal k, ch) \<in> set (cache c) \<and> change_key ch = Some k \<and> key_inv (SuppressRemoveAfterRestoreChange c) db R l k (Some ch)"
    if "ch \<in> set (GetChanges c)" for ch
    using cached_changes [OF inv inj] that by (fastforce simp: GetChanges_def)
  have set: "set xs = set (GetChanges c)" using assms(3) by (rule mset_eq_setD)
  have "distinct (map fst (cache c))" using inv by (simp add: compactor_inv_def)
  have "distinct (map change_key (GetChanges c))"
  proof -
    have eq: "map (map_option marshal \<circ> change_key) (GetChanges c) = map Some (map fst (cache c))"
      unfolding GetChanges_def map_map comp_def
      by (rule map_cong [OF refl]) (use cached_changes [OF inv inj] in fastforce)
    have "distinct (map (map_option marshal \<circ> change_key) (GetChanges c))"
      unfolding eq distinct_map [of Some] using inv by (simp add: compactor_inv_def)
    then show ?thesis by (metis distinct_map map_map)
  qed
  then have d: "distinct (map change_key xs)" using assms(3) by (metis mset_map mset_eq_imp_distinct_iff)
  moreover have "foldl store_change db xs k = live l k" for k
  proof -
    have "change_key x \<noteq> None" if "x \<in> set xs" for x using ch [of x] that set by auto
    note fs = foldl_store [OF d this, of db k]
    show ?thesis
    proof (cases "find (\<lambda>ch. change_key ch = Some k) xs")
      case (Some x)
      then have "x \<in> set xs" "change_key x = Some k" by (auto simp: find_Some_iff)
      then show ?thesis using fs Some ch [of x] set by (auto simp: key_inv_def)
    next
      case None
      have "live l k = db k"
      proof (cases "k \<in> K")
        case True
        have "map_of (cache c) (marshal k) = None"
        proof (rule ccontr)
          assume "map_of (cache c) (marshal k) \<noteq> None"
          then obtain x where x: "(marshal k, x) \<in> set (cache c)" by (auto dest: map_of_SomeD)
          then have "change_key x = Some k" using cached_changes [OF inv inj x] inj True by (auto simp: inj_on_def)
          moreover have "x \<in> set xs" unfolding set using x by (force simp: GetChanges_def)
          ultimately show False using None by (auto simp: find_None_iff)
        qed
        then show ?thesis using inv True by (auto simp: compactor_inv_def key_inv_def)
      qed (use inv in \<open>simp add: compactor_inv_def\<close>)
      then show ?thesis using fs None by simp
    qed
  qed
  ultimately show ?thesis by auto
qed

lemma compaction_inv:
  assumes "inj_on marshal K" "keyed_db db" "ledger_run (new_ledger db) chs l"
    and "\<And>ch k. ch \<in> set chs \<Longrightarrow> change_key ch = Some k \<Longrightarrow> k \<in> K"
    and "suppress \<Longrightarrow> \<forall>k \<in> restored_keys chs. db k = None"
  shows "\<exists>c. AddChanges marshal (NewChangeCompactor suppress) chs = Inr c \<and> compactor_inv marshal K db (restored_keys chs) l c"
  using assms
  by (intro AddChanges_run [OF assms(3) new_compactor_inv [OF assms(2)] assms(1)]) (auto simp: NewChangeCompactor_def)

lemma net_type_cached:
  assumes "key_inv s db R l k (Some ch)" "k \<notin> R"
  shows "change_Pre ch = db k \<and> change_Post ch = live l k \<and> ChangeType ch = net_type (db k) (live l k) \<and> \<not> (db k = None \<and> live l k = None)"
  using assms
  by (cases "db k"; cases "live l k") (auto simp: key_inv_def cached_ok_def net_type_def split: LedgerEntryChangeType.splits)

section \<open>Properties\<close>

text \<open>
  C3: Compaction keeps the effect of a block. For changes that a ledger can make, in the order it
  makes them, the compactor returns no error, and writing the compacted changes to the database of
  the previous ledger, in whatever order the map yields them, gives exactly the ledger after
  the block; no key is changed twice. When removals after a restore are suppressed, restored
  entries must not be in the database.
\<close>
theorem compaction_refines:
  assumes "inj_on marshal K" and "keyed_db db" and "ledger_run (new_ledger db) chs l"
    and "\<And>ch k. ch \<in> set chs \<Longrightarrow> change_key ch = Some k \<Longrightarrow> k \<in> K"
    and "suppress \<Longrightarrow> \<forall>k \<in> restored_keys chs. db k = None"
  shows "\<exists>c. AddChanges marshal (NewChangeCompactor suppress) chs = Inr c \<and>
    (\<forall>xs. mset xs = mset (GetChanges c) \<longrightarrow> distinct (map change_key xs) \<and> foldl store_change db xs = live l)"
proof -
  have "\<exists>c. AddChanges marshal (NewChangeCompactor suppress) chs = Inr c \<and> compactor_inv marshal K db (restored_keys chs) l c"
    by (rule compaction_inv [OF assms(1-3)]) (fact assms(4), fact assms(5))
  then show ?thesis using compacted_store [OF _ assms(1)] by blast
qed

text \<open>The example: an account is created and updated; another one, in the database, is removed.\<close>

definition witness_entry :: "byte \<Rightarrow> nat \<Rightarrow> nat LedgerEntry" where
  "witness_entry b n = \<lparr>LastModifiedLedgerSeq = n, entry_Data = EntryAccount (replicate 32 b) n, entry_Ext = LedgerEntryExtV0\<rparr>"

definition witness_db :: "LedgerKey \<rightharpoonup> nat LedgerEntry" where
  "witness_db = [LedgerKeyAccount (replicate 32 2) \<mapsto> witness_entry 2 4]"

definition witness_changes :: "(nat, unit) Change list" where
  "witness_changes =
     [new_change 0 None (Some (witness_entry 1 5)) LedgerEntryCreated,
      new_change 0 (Some (witness_entry 2 4)) None LedgerEntryRemoved,
      new_change 0 (Some (witness_entry 1 5)) (Some (witness_entry 1 6)) LedgerEntryUpdated]"

definition witness_marshal :: "LedgerKey \<Rightarrow> bytes" where
  "witness_marshal k = (case k of LedgerKeyAccount a \<Rightarrow> BigEndian_PutUint32 0 @ BigEndian_PutUint32 0 @ a | _ \<Rightarrow> [])"

lemma witness_entry_key: "LedgerEntry_LedgerKey (witness_entry b n) = Inr (LedgerKeyAccount (replicate 32 b))"
  by (simp add: witness_entry_def LedgerEntry_LedgerKey_def SetAccount_def)

lemma witness_marshal_inj: "inj_on witness_marshal (range LedgerKeyAccount)"
  by (auto simp: inj_on_def witness_marshal_def)

lemma witness_run:
  "\<exists>l. ledger_run (new_ledger witness_db) witness_changes l \<and> live l = [LedgerKeyAccount (replicate 32 1) \<mapsto> witness_entry 1 6]"
proof -
  have k: "change_key (new_change 0 pre post ct :: (nat, unit) Change) = Some (LedgerKeyAccount (replicate 32 b))"
    if "(if ct = LedgerEntryRemoved then pre else post) = Some (witness_entry b n)" for pre post ct b n
    using that by (simp add: change_key_entry change_entry_def witness_entry_key split: if_splits)
  have t: "\<not> is_ttl (Some (witness_entry b n))" for b n by (simp add: is_ttl_def witness_entry_def)
  let ?k1 = "LedgerKeyAccount (replicate 32 1)" and ?k2 = "LedgerKeyAccount (replicate 32 2)"
  have neq: "replicate 32 1 \<noteq> (replicate 32 2 :: bytes)" by (simp add: numeral_eq_Suc)
  define c1 where "c1 = (new_change 0 None (Some (witness_entry 1 5)) LedgerEntryCreated :: (nat, unit) Change)"
  define c2 where "c2 = (new_change 0 (Some (witness_entry 2 4)) None LedgerEntryRemoved :: (nat, unit) Change)"
  define c3 where "c3 = (new_change 0 (Some (witness_entry 1 5)) (Some (witness_entry 1 6)) LedgerEntryUpdated :: (nat, unit) Change)"
  define l1 where "l1 = apply_change (new_ledger witness_db) c1 ?k1"
  define l2 where "l2 = apply_change l1 c2 ?k2"
  define l3 where "l3 = apply_change l2 c3 ?k1"
  have L: "live l1 = witness_db(?k1 \<mapsto> witness_entry 1 5)" "touched l1 = {?k1}"
    "live l2 = [?k1 \<mapsto> witness_entry 1 5]" "touched l2 = {?k2, ?k1}"
    "live l3 = [?k1 \<mapsto> witness_entry 1 6]"
    using neq by (auto simp: l1_def l2_def l3_def c1_def c2_def c3_def new_ledger_def witness_db_def apply_change_def later_entry_def
        fun_eq_iff witness_entry_def)
  have keys: "change_key c1 = Some ?k1" "change_key c2 = Some ?k2" "change_key c3 = Some ?k1"
    unfolding c1_def c2_def c3_def by (rule k, simp)+
  have ok: "change_ok (new_ledger witness_db) c1 ?k1" "change_ok l1 c2 ?k2" "change_ok l2 c3 ?k1"
    using neq keys L t
    by (auto simp: change_ok_def c1_def c2_def c3_def change_entry_def new_ledger_def witness_db_def LedgerEntryTypeTtl_def)
  have "ledger_run l2 [c3] l3" unfolding l3_def by (rule run_change [OF ok(3) run_none])
  then have "ledger_run l1 [c2, c3] l3" unfolding l2_def by (rule run_change [OF ok(2)])
  then have "ledger_run (new_ledger witness_db) [c1, c2, c3] l3" unfolding l1_def by (rule run_change [OF ok(1)])
  then show ?thesis using L(5) unfolding witness_changes_def c1_def c2_def c3_def by blast
qed

theorem compaction_refines_witness:
  "\<exists>c. AddChanges witness_marshal (NewChangeCompactor False) witness_changes = Inr c \<and>
    foldl store_change witness_db (GetChanges c) = [LedgerKeyAccount (replicate 32 1) \<mapsto> witness_entry 1 6]"
proof -
  obtain l where l: "ledger_run (new_ledger witness_db) witness_changes l" "live l = [LedgerKeyAccount (replicate 32 1) \<mapsto> witness_entry 1 6]"
    using witness_run by blast
  have "keyed_db witness_db" by (auto simp: keyed_db_def keyed_def witness_db_def witness_entry_key)
  moreover have "k \<in> range LedgerKeyAccount" if "ch \<in> set witness_changes" "change_key ch = Some k" for ch k
    using that by (auto simp: witness_changes_def change_key_entry change_entry_def witness_entry_key)
  ultimately show ?thesis using compaction_refines [OF witness_marshal_inj _ l(1), of False] l(2) by auto
qed

text \<open>
  The compacted changes of a block without restored entries are the net changes: each carries
  the entry before and after the block, its type is created, updated or removed according to
  which of the two exist, an entry that was created and removed again leaves no change, and
  an entry without a change is as it was.
\<close>
lemma compaction_net_changes:
  assumes "inj_on marshal K" and "keyed_db db" and "ledger_run (new_ledger db) chs l"
    and "\<And>ch k. ch \<in> set chs \<Longrightarrow> change_key ch = Some k \<Longrightarrow> k \<in> K" and "restored_keys chs = {}"
  shows "\<exists>c. AddChanges marshal (NewChangeCompactor suppress) chs = Inr c \<and> compactor_Size c = length (GetChanges c) \<and>
    (\<forall>ch \<in> set (GetChanges c). \<exists>k. change_key ch = Some k \<and> change_Pre ch = db k \<and> change_Post ch = live l k \<and>
       ChangeType ch = net_type (db k) (live l k) \<and> \<not> (db k = None \<and> live l k = None)) \<and>
    (\<forall>k. Some k \<notin> change_key ` set (GetChanges c) \<longrightarrow> live l k = db k)"
proof -
  obtain c where c: "AddChanges marshal (NewChangeCompactor suppress) chs = Inr c" "compactor_inv marshal K db {} l c"
  proof -
    have "\<exists>c. AddChanges marshal (NewChangeCompactor suppress) chs = Inr c \<and> compactor_inv marshal K db (restored_keys chs) l c"
      by (rule compaction_inv [OF assms(1-3)]) (fact assms(4), simp add: assms(5))
    then show thesis using that assms(5) by auto
  qed
  have "\<exists>k. change_key ch = Some k \<and> change_Pre ch = db k \<and> change_Post ch = live l k \<and>
       ChangeType ch = net_type (db k) (live l k) \<and> \<not> (db k = None \<and> live l k = None)" if ch: "ch \<in> set (GetChanges c)" for ch
  proof -
    obtain b where "(b, ch) \<in> set (cache c)" using ch by (auto simp: GetChanges_def)
    from cached_changes [OF c(2) assms(1) this] obtain k where "change_key ch = Some k" "key_inv (SuppressRemoveAfterRestoreChange c) db {} l k (Some ch)"
      by blast
    then show ?thesis using net_type_cached by blast
  qed
  moreover have "live l k = db k" if "Some k \<notin> change_key ` set (GetChanges c)" for k
  proof -
    have st: "distinct (map change_key (GetChanges c))" "foldl store_change db (GetChanges c) = live l"
      using compacted_store [OF c(2) assms(1) refl] by simp_all
    have "change_key x \<noteq> None" if "x \<in> set (GetChanges c)" for x
      using that cached_changes [OF c(2) assms(1)] by (fastforce simp: GetChanges_def)
    from foldl_store [OF st(1) this, of db k] have "live l k =
        (case find (\<lambda>ch. change_key ch = Some k) (GetChanges c) of None \<Rightarrow> db k | Some ch \<Rightarrow> change_Post ch)" by (simp add: st(2))
    moreover have "find (\<lambda>ch. change_key ch = Some k) (GetChanges c) = None" using that by (force simp: find_None_iff)
    ultimately show ?thesis by simp
  qed
  ultimately show ?thesis using c(1) by (auto simp: compactor_Size_def GetChanges_def)
qed

lemma compaction_net_changes_witness:
  "\<exists>c. AddChanges witness_marshal (NewChangeCompactor True) witness_changes = Inr c \<and> compactor_Size c = length (GetChanges c)"
proof -
  obtain l where l: "ledger_run (new_ledger witness_db) witness_changes l" using witness_run by blast
  have "keyed_db witness_db" by (auto simp: keyed_db_def keyed_def witness_db_def witness_entry_key)
  moreover have "k \<in> range LedgerKeyAccount" if "ch \<in> set witness_changes" "change_key ch = Some k" for ch k
    using that by (auto simp: witness_changes_def change_key_entry change_entry_def witness_entry_key)
  moreover have "restored_keys witness_changes = {}" by (auto simp: restored_keys_def witness_changes_def)
  ultimately show ?thesis using compaction_net_changes [OF witness_marshal_inj _ l, of True] by auto
qed

end
