(* ===== verification/Ledger_Meta.thy ===== *)
theory Ledger_Meta
  imports Xdr_Envelope Change_Compactor
begin

text \<open>
  The metadata of a closed ledger: \<^verbatim>\<open>xdr/ledger_close_meta.go\<close>, \<^verbatim>\<open>transaction_meta.go\<close>, \<^verbatim>\<open>ledger_entry_change.go\<close>
  and the counts of \<^verbatim>\<open>ingest/ledger/ledger.go\<close>. \<open>'r\<close> is what ledger entries hold besides their keys, \<open>'x\<close>
  the operations, results, events and upgrades that are passed through. An accessor that panics
  (an unknown version, an index out of range) is \<open>None\<close>.
\<close>

section \<open>Definitions\<close>

subsection \<open>Changes of ledger entries\<close>

datatype 'r LedgerEntryChange =
    ChangeCreated "'r LedgerEntry"
  | ChangeUpdated "'r LedgerEntry"
  | ChangeRemoved LedgerKey
  | ChangeState "'r LedgerEntry"
  | ChangeRestored "'r LedgerEntry"
  | ChangeOther int

datatype entry_change_error = EntryKeyError key_error | UnknownEntryChange int

fun EntryChange_LedgerKey :: "'r LedgerEntryChange \<Rightarrow> (entry_change_error, LedgerKey) result" where
  "EntryChange_LedgerKey (ChangeCreated e) = map_sum EntryKeyError (\<lambda>k. k) (LedgerEntry_LedgerKey e)"
| "EntryChange_LedgerKey (ChangeRemoved k) = Inr k"
| "EntryChange_LedgerKey (ChangeUpdated e) = map_sum EntryKeyError (\<lambda>k. k) (LedgerEntry_LedgerKey e)"
| "EntryChange_LedgerKey (ChangeState e) = map_sum EntryKeyError (\<lambda>k. k) (LedgerEntry_LedgerKey e)"
| "EntryChange_LedgerKey (ChangeRestored e) = map_sum EntryKeyError (\<lambda>k. k) (LedgerEntry_LedgerKey e)"
| "EntryChange_LedgerKey (ChangeOther t) = Inl (UnknownEntryChange t)"

definition EntryType :: "'r LedgerEntryChange \<Rightarrow> (entry_change_error, int) result" where
  "EntryType change = map_sum (\<lambda>err. err) LedgerKey_Type (EntryChange_LedgerKey change)"

fun GetLedgerEntry :: "'r LedgerEntryChange \<Rightarrow> 'r LedgerEntry option" where
  "GetLedgerEntry (ChangeCreated e) = Some e"
| "GetLedgerEntry (ChangeState e) = Some e"
| "GetLedgerEntry (ChangeUpdated e) = Some e"
| "GetLedgerEntry (ChangeRemoved k) = None"
| "GetLedgerEntry (ChangeRestored e) = Some e"
| "GetLedgerEntry (ChangeOther t) = None"

subsection \<open>Metadata of a transaction\<close>

record 'x TransactionEvent =
  Stage :: int
  tev_Event :: 'x

record 'x DiagnosticEvent =
  InSuccessfulContractCall :: bool
  dev_Event :: 'x

record SorobanTransactionMetaExtV1 =
  TotalNonRefundableResourceFeeCharged :: int
  TotalRefundableResourceFeeCharged :: int
  RentFeeCharged :: int

datatype SorobanTransactionMetaExt = SorobanMetaExtV0 | SorobanMetaExtV1 SorobanTransactionMetaExtV1 | SorobanMetaExtOther int

record 'x SorobanTransactionMeta =
  soroban_Ext :: SorobanTransactionMetaExt
  soroban_Events :: "'x list"
  ReturnValue :: ScVal
  soroban_DiagnosticEvents :: "'x DiagnosticEvent list"

record ('r, 'x) OperationMetaV2 =
  op_Changes :: "'r LedgerEntryChange list"
  op_Events :: "'x list"

text \<open>An \<^verbatim>\<open>OperationMeta\<close> is its list of changes.\<close>

type_synonym 'r OperationMeta = "'r LedgerEntryChange list"

record 'r TransactionMetaV2 =
  m2_TxChangesBefore :: "'r LedgerEntryChange list"
  m2_Operations :: "'r OperationMeta list"
  m2_TxChangesAfter :: "'r LedgerEntryChange list"

record ('r, 'x) TransactionMetaV3 =
  m3_TxChangesBefore :: "'r LedgerEntryChange list"
  m3_Operations :: "'r OperationMeta list"
  m3_TxChangesAfter :: "'r LedgerEntryChange list"
  m3_SorobanMeta :: "'x SorobanTransactionMeta option"

record ('r, 'x) TransactionMetaV4 =
  m4_TxChangesBefore :: "'r LedgerEntryChange list"
  m4_Operations :: "('r, 'x) OperationMetaV2 list"
  m4_TxChangesAfter :: "'r LedgerEntryChange list"
  m4_Events :: "'x TransactionEvent list"
  m4_DiagnosticEvents :: "'x DiagnosticEvent list"

datatype ('r, 'x) TransactionMeta =
    MetaV0 "'r OperationMeta list"
  | MetaV1 "'r LedgerEntryChange list" "'r OperationMeta list"
  | MetaV2 "'r TransactionMetaV2"
  | MetaV3 "('r, 'x) TransactionMetaV3"
  | MetaV4 "('r, 'x) TransactionMetaV4"
  | MetaOther int

fun meta_version :: "('r, 'x) TransactionMeta \<Rightarrow> int" where
  "meta_version (MetaV0 _) = 0"
| "meta_version (MetaV1 _ _) = 1"
| "meta_version (MetaV2 _) = 2"
| "meta_version (MetaV3 _) = 3"
| "meta_version (MetaV4 _) = 4"
| "meta_version (MetaOther v) = v"

text \<open>\<^verbatim>\<open>UnsupportedMeta\<close> is the error, \<open>EventIndex\<close> the panic on an operation that is not there.\<close>

datatype meta_error = UnsupportedMeta int | EventIndex

fun GetContractEventsForOperation :: "('r, 'x) TransactionMeta \<Rightarrow> nat \<Rightarrow> (meta_error, 'x list) result" where
  "GetContractEventsForOperation (MetaV1 _ _) opIndex = Inr []"
| "GetContractEventsForOperation (MetaV2 _) opIndex = Inr []"
| "GetContractEventsForOperation (MetaV3 m) opIndex =
     (case m3_SorobanMeta m of None \<Rightarrow> Inr [] | Some sorobanMeta \<Rightarrow> Inr (soroban_Events sorobanMeta))"
| "GetContractEventsForOperation (MetaV4 m) opIndex =
     (if m4_Operations m = [] then Inr []
      else if opIndex < length (m4_Operations m) then Inr (op_Events (m4_Operations m ! opIndex)) else Inl EventIndex)"
| "GetContractEventsForOperation (MetaV0 _) opIndex = Inl (UnsupportedMeta 0)"
| "GetContractEventsForOperation (MetaOther v) opIndex = Inl (UnsupportedMeta v)"

fun meta_GetDiagnosticEvents :: "('r, 'x) TransactionMeta \<Rightarrow> (meta_error, 'x DiagnosticEvent list) result" where
  "meta_GetDiagnosticEvents (MetaV1 _ _) = Inr []"
| "meta_GetDiagnosticEvents (MetaV2 _) = Inr []"
| "meta_GetDiagnosticEvents (MetaV3 m) =
     (case m3_SorobanMeta m of None \<Rightarrow> Inr [] | Some sorobanMeta \<Rightarrow> Inr (soroban_DiagnosticEvents sorobanMeta))"
| "meta_GetDiagnosticEvents (MetaV4 m) = Inr (m4_DiagnosticEvents m)"
| "meta_GetDiagnosticEvents (MetaV0 _) = Inl (UnsupportedMeta 0)"
| "meta_GetDiagnosticEvents (MetaOther v) = Inl (UnsupportedMeta v)"

fun meta_GetTransactionEvents :: "('r, 'x) TransactionMeta \<Rightarrow> (meta_error, 'x TransactionEvent list) result" where
  "meta_GetTransactionEvents (MetaV1 _ _) = Inr []"
| "meta_GetTransactionEvents (MetaV2 _) = Inr []"
| "meta_GetTransactionEvents (MetaV3 _) = Inr []"
| "meta_GetTransactionEvents (MetaV4 m) = Inr (m4_Events m)"
| "meta_GetTransactionEvents (MetaV0 _) = Inl (UnsupportedMeta 0)"
| "meta_GetTransactionEvents (MetaOther v) = Inl (UnsupportedMeta v)"

subsection \<open>Metadata of a ledger\<close>

record LedgerCloseValueSignature =
  lcv_NodeId :: bytes
  lcv_Signature :: bytes

text \<open>The arms of \<^verbatim>\<open>StellarValueExt\<close> for values under nomination are kept by their tag and encoding.\<close>

datatype StellarValueExt =
    StellarValueBasic
  | StellarValueSigned LedgerCloseValueSignature
  | StellarValueOther int bytes

record StellarValue =
  scp_TxSetHash :: bytes
  scp_CloseTime :: "64 word"
  scp_Upgrades :: "bytes list"
  scp_Ext :: StellarValueExt

datatype LedgerHeaderExt = HeaderExtV0 | HeaderExtV1 "32 word" | HeaderExtOther int

record LedgerHeader =
  header_LedgerVersion :: "32 word"
  header_PreviousLedgerHash :: bytes
  header_ScpValue :: StellarValue
  header_TxSetResultHash :: bytes
  header_BucketListHash :: bytes
  header_LedgerSeq :: "32 word"
  header_TotalCoins :: int
  header_FeePool :: int
  header_InflationSeq :: "32 word"
  header_IdPool :: "64 word"
  header_BaseFee :: "32 word"
  header_BaseReserve :: "32 word"
  header_MaxTxSetSize :: "32 word"
  header_SkipList :: "bytes list"
  header_Ext :: LedgerHeaderExt

record LedgerHeaderHistoryEntry =
  header_Hash :: bytes
  Header :: LedgerHeader

text \<open>A header with the given place in the chain and zero elsewhere.\<close>

definition chain_header :: "32 word \<Rightarrow> 32 word \<Rightarrow> bytes \<Rightarrow> bytes \<Rightarrow> bytes \<Rightarrow> LedgerHeader" where
  "chain_header version seq previous txset results =
     \<lparr>header_LedgerVersion = version, header_PreviousLedgerHash = previous,
      header_ScpValue = \<lparr>scp_TxSetHash = txset, scp_CloseTime = 0, scp_Upgrades = [], scp_Ext = StellarValueBasic\<rparr>,
      header_TxSetResultHash = results, header_BucketListHash = [], header_LedgerSeq = seq, header_TotalCoins = 0, header_FeePool = 0,
      header_InflationSeq = 0, header_IdPool = 0, header_BaseFee = 0, header_BaseReserve = 0, header_MaxTxSetSize = 0,
      header_SkipList = [], header_Ext = HeaderExtV0\<rparr>"

record ('r, 'x) TransactionResultMeta =
  rm_Result :: "'x TransactionResultPair"
  rm_FeeProcessing :: "'r LedgerEntryChange list"
  rm_TxApplyProcessing :: "('r, 'x) TransactionMeta"

record ('r, 'x) TransactionResultMetaV1 =
  rm1_Result :: "'x TransactionResultPair"
  rm1_FeeProcessing :: "'r LedgerEntryChange list"
  rm1_TxApplyProcessing :: "('r, 'x) TransactionMeta"
  rm1_PostTxApplyFeeProcessing :: "'r LedgerEntryChange list"

record ('r, 'x) UpgradeEntryMeta =
  Upgrade :: 'x
  upgrade_Changes :: "'r LedgerEntryChange list"

text \<open>
  The phases of a transaction set: a component is the list of its transactions, a parallel phase is a
  list of stages, a stage a list of clusters.
\<close>

datatype 'x TransactionPhase =
    PhaseV0 "'x TransactionEnvelope list list"
  | PhaseParallel "'x TransactionEnvelope list list list"
  | PhaseOther int

record ('r, 'x) LedgerCloseMetaV0 =
  l0_LedgerHeader :: LedgerHeaderHistoryEntry
  l0_Txs :: "'x TransactionEnvelope list"
  l0_TxProcessing :: "('r, 'x) TransactionResultMeta list"
  l0_UpgradesProcessing :: "('r, 'x) UpgradeEntryMeta list"

record ('r, 'x) LedgerCloseMetaV1 =
  l1_LedgerHeader :: LedgerHeaderHistoryEntry
  l1_Phases :: "'x TransactionPhase list"
  l1_TxProcessing :: "('r, 'x) TransactionResultMeta list"
  l1_UpgradesProcessing :: "('r, 'x) UpgradeEntryMeta list"
  l1_EvictedKeys :: "LedgerKey list"

record ('r, 'x) LedgerCloseMetaV2 =
  l2_LedgerHeader :: LedgerHeaderHistoryEntry
  l2_Phases :: "'x TransactionPhase list"
  l2_TxProcessing :: "('r, 'x) TransactionResultMetaV1 list"
  l2_UpgradesProcessing :: "('r, 'x) UpgradeEntryMeta list"
  l2_EvictedKeys :: "LedgerKey list"

datatype ('r, 'x) LedgerCloseMeta =
    LcmV0 "('r, 'x) LedgerCloseMetaV0"
  | LcmV1 "('r, 'x) LedgerCloseMetaV1"
  | LcmV2 "('r, 'x) LedgerCloseMetaV2"
  | LcmOther int

text \<open>A slice access.\<close>

definition slice_at :: "'a list \<Rightarrow> nat \<Rightarrow> 'a option" where
  "slice_at xs i = (if i < length xs then Some (xs ! i) else None)"

fun lcm_LedgerHeaderHistoryEntry :: "('r, 'x) LedgerCloseMeta \<Rightarrow> LedgerHeaderHistoryEntry option" where
  "lcm_LedgerHeaderHistoryEntry (LcmV0 l) = Some (l0_LedgerHeader l)"
| "lcm_LedgerHeaderHistoryEntry (LcmV1 l) = Some (l1_LedgerHeader l)"
| "lcm_LedgerHeaderHistoryEntry (LcmV2 l) = Some (l2_LedgerHeader l)"
| "lcm_LedgerHeaderHistoryEntry (LcmOther _) = None"

definition lcm_LedgerSequence :: "('r, 'x) LedgerCloseMeta \<Rightarrow> 32 word option" where
  "lcm_LedgerSequence l = map_option (\<lambda>h. header_LedgerSeq (Header h)) (lcm_LedgerHeaderHistoryEntry l)"

definition LedgerCloseTime :: "('r, 'x) LedgerCloseMeta \<Rightarrow> int option" where
  "LedgerCloseTime l = map_option (\<lambda>h. sint (scp_CloseTime (header_ScpValue (Header h)))) (lcm_LedgerHeaderHistoryEntry l)"

definition LedgerHash :: "('r, 'x) LedgerCloseMeta \<Rightarrow> bytes option" where
  "LedgerHash l = map_option header_Hash (lcm_LedgerHeaderHistoryEntry l)"

definition PreviousLedgerHash :: "('r, 'x) LedgerCloseMeta \<Rightarrow> bytes option" where
  "PreviousLedgerHash l = map_option (\<lambda>h. header_PreviousLedgerHash (Header h)) (lcm_LedgerHeaderHistoryEntry l)"

definition ProtocolVersion :: "('r, 'x) LedgerCloseMeta \<Rightarrow> 32 word option" where
  "ProtocolVersion l = map_option (\<lambda>h. header_LedgerVersion (Header h)) (lcm_LedgerHeaderHistoryEntry l)"

definition BucketListHash :: "('r, 'x) LedgerCloseMeta \<Rightarrow> bytes option" where
  "BucketListHash l = map_option (\<lambda>h. header_BucketListHash (Header h)) (lcm_LedgerHeaderHistoryEntry l)"

fun CountTransactions :: "('r, 'x) LedgerCloseMeta \<Rightarrow> nat option" where
  "CountTransactions (LcmV0 l) = Some (length (l0_TxProcessing l))"
| "CountTransactions (LcmV1 l) = Some (length (l1_TxProcessing l))"
| "CountTransactions (LcmV2 l) = Some (length (l2_TxProcessing l))"
| "CountTransactions (LcmOther _) = None"

fun phase_envelopes :: "'x TransactionPhase \<Rightarrow> 'x TransactionEnvelope list option" where
  "phase_envelopes (PhaseV0 components) = Some (concat components)"
| "phase_envelopes (PhaseParallel stages) = Some (concat (concat stages))"
| "phase_envelopes (PhaseOther _) = None"

fun phases_envelopes :: "'x TransactionPhase list \<Rightarrow> 'x TransactionEnvelope list option" where
  "phases_envelopes [] = Some []"
| "phases_envelopes (p # ps) =
     (case phase_envelopes p of None \<Rightarrow> None | Some es \<Rightarrow> map_option (\<lambda>rest. es @ rest) (phases_envelopes ps))"

fun TransactionEnvelopes :: "('r, 'x) LedgerCloseMeta \<Rightarrow> 'x TransactionEnvelope list option" where
  "TransactionEnvelopes (LcmV0 l) = Some (l0_Txs l)"
| "TransactionEnvelopes (LcmV1 l) = phases_envelopes (l1_Phases l)"
| "TransactionEnvelopes (LcmV2 l) = phases_envelopes (l2_Phases l)"
| "TransactionEnvelopes (LcmOther _) = None"

fun lcm_TransactionResultPair :: "('r, 'x) LedgerCloseMeta \<Rightarrow> nat \<Rightarrow> 'x TransactionResultPair option" where
  "lcm_TransactionResultPair (LcmV0 l) i = map_option rm_Result (slice_at (l0_TxProcessing l) i)"
| "lcm_TransactionResultPair (LcmV1 l) i = map_option rm_Result (slice_at (l1_TxProcessing l) i)"
| "lcm_TransactionResultPair (LcmV2 l) i = map_option rm1_Result (slice_at (l2_TxProcessing l) i)"
| "lcm_TransactionResultPair (LcmOther _) i = None"

definition lcm_TransactionHash :: "('r, 'x) LedgerCloseMeta \<Rightarrow> nat \<Rightarrow> bytes option" where
  "lcm_TransactionHash l i = map_option TransactionHash (lcm_TransactionResultPair l i)"

fun FeeProcessing :: "('r, 'x) LedgerCloseMeta \<Rightarrow> nat \<Rightarrow> 'r LedgerEntryChange list option" where
  "FeeProcessing (LcmV0 l) i = map_option rm_FeeProcessing (slice_at (l0_TxProcessing l) i)"
| "FeeProcessing (LcmV1 l) i = map_option rm_FeeProcessing (slice_at (l1_TxProcessing l) i)"
| "FeeProcessing (LcmV2 l) i = map_option rm1_FeeProcessing (slice_at (l2_TxProcessing l) i)"
| "FeeProcessing (LcmOther _) i = None"

fun TxApplyProcessing :: "('r, 'x) LedgerCloseMeta \<Rightarrow> nat \<Rightarrow> ('r, 'x) TransactionMeta option" where
  "TxApplyProcessing (LcmV0 l) i = map_option rm_TxApplyProcessing (slice_at (l0_TxProcessing l) i)"
| "TxApplyProcessing (LcmV1 l) i = map_option rm_TxApplyProcessing (slice_at (l1_TxProcessing l) i)"
| "TxApplyProcessing (LcmV2 l) i = map_option rm1_TxApplyProcessing (slice_at (l2_TxProcessing l) i)"
| "TxApplyProcessing (LcmOther _) i = None"

fun UpgradesProcessing :: "('r, 'x) LedgerCloseMeta \<Rightarrow> ('r, 'x) UpgradeEntryMeta list option" where
  "UpgradesProcessing (LcmV0 l) = Some (l0_UpgradesProcessing l)"
| "UpgradesProcessing (LcmV1 l) = Some (l1_UpgradesProcessing l)"
| "UpgradesProcessing (LcmV2 l) = Some (l2_UpgradesProcessing l)"
| "UpgradesProcessing (LcmOther _) = None"

fun EvictedLedgerKeys :: "('r, 'x) LedgerCloseMeta \<Rightarrow> LedgerKey list option" where
  "EvictedLedgerKeys (LcmV0 l) = Some []"
| "EvictedLedgerKeys (LcmV1 l) = Some (l1_EvictedKeys l)"
| "EvictedLedgerKeys (LcmV2 l) = Some (l2_EvictedKeys l)"
| "EvictedLedgerKeys (LcmOther _) = None"

text \<open>
  \<^verbatim>\<open>TransactionCounts\<close> and \<^verbatim>\<open>OperationCounts\<close> (\<^verbatim>\<open>ingest/ledger/ledger.go\<close>), on unsigned 32-bit counters. The
  envelopes are in the order of the set and the results in the order of processing.
\<close>

fun successful_transactions :: "('r, 'x) LedgerCloseMeta \<Rightarrow> nat list \<Rightarrow> 32 word \<Rightarrow> 32 word option" where
  "successful_transactions l [] n = Some n"
| "successful_transactions l (i # is) n =
     (case lcm_TransactionResultPair l i of
        None \<Rightarrow> None
      | Some r \<Rightarrow> successful_transactions l is (if Successful (pair_Result r) then n + 1 else n))"

definition TransactionCounts :: "('r, 'x) LedgerCloseMeta \<Rightarrow> (32 word \<times> 32 word) option" where
  "TransactionCounts l =
     (case TransactionEnvelopes l of
        None \<Rightarrow> None
      | Some txs \<Rightarrow> map_option (\<lambda>n. (n, word_of_nat (length txs))) (successful_transactions l [0..<length txs] 0))"

fun count_operations :: "('r, 'x) LedgerCloseMeta \<Rightarrow> nat \<Rightarrow> 'x TransactionEnvelope list \<Rightarrow> 32 word \<Rightarrow> 32 word \<Rightarrow> (32 word \<times> 32 word) option" where
  "count_operations l i [] succ tot = Some (succ, tot)"
| "count_operations l i (e # es) succ tot =
     (case (OperationsCount e, lcm_TransactionResultPair l i) of
        (Some n, Some r) \<Rightarrow>
          if Successful (pair_Result r)
          then (case OperationResults (pair_Result r) of
                  None \<Rightarrow> None
                | Some rs \<Rightarrow> count_operations l (Suc i) es (succ + word_of_nat (length rs)) (tot + n))
          else count_operations l (Suc i) es succ (tot + n)
      | _ \<Rightarrow> None)"

definition OperationCounts :: "('r, 'x) LedgerCloseMeta \<Rightarrow> (32 word \<times> 32 word) option" where
  "OperationCounts l = (case TransactionEnvelopes l of None \<Rightarrow> None | Some txs \<Rightarrow> count_operations l 0 txs 0 0)"

section \<open>Lengths and counts\<close>

text \<open>The accessors of a supported version are defined exactly on the transactions that were processed.\<close>

lemma slice_at_Some [simp]: "slice_at xs i = Some x \<longleftrightarrow> i < length xs \<and> xs ! i = x"
  by (simp add: slice_at_def)

lemma slice_at_None [simp]: "slice_at xs i = None \<longleftrightarrow> length xs \<le> i"
  by (simp add: slice_at_def not_less)

lemma accessors_defined:
  assumes "CountTransactions l = Some n"
  shows "(\<exists>x. lcm_TransactionResultPair l i = Some x) \<longleftrightarrow> i < n" "(\<exists>x. FeeProcessing l i = Some x) \<longleftrightarrow> i < n"
    "(\<exists>x. TxApplyProcessing l i = Some x) \<longleftrightarrow> i < n" "(\<exists>h. lcm_TransactionHash l i = Some h) \<longleftrightarrow> i < n"
  using assms by (cases l; auto simp: lcm_TransactionHash_def)+

lemma supported_versions:
  "CountTransactions l \<noteq> None \<longleftrightarrow> lcm_LedgerHeaderHistoryEntry l \<noteq> None"
  "CountTransactions l \<noteq> None \<longleftrightarrow> UpgradesProcessing l \<noteq> None"
  by (cases l; simp)+

lemma successful_transactions_count:
  "(\<And>i. i \<in> set is \<Longrightarrow> lcm_TransactionResultPair l i \<noteq> None) \<Longrightarrow>
   successful_transactions l is n =
     Some (n + word_of_nat (length (filter (\<lambda>i. Successful (pair_Result (the (lcm_TransactionResultPair l i)))) is)))"
proof (induction "is" arbitrary: n)
  case (Cons i "is")
  obtain r where "lcm_TransactionResultPair l i = Some r" using Cons.prems [of i] by auto
  then show ?case using Cons by (simp add: algebra_simps)
qed simp

text \<open>
  The counts of a ledger with one result per envelope: the total is the number of envelopes, and the
  successful ones are those results that report success, which cannot exceed it.
\<close>

lemma TransactionCounts_exact:
  assumes "TransactionEnvelopes l = Some txs" "CountTransactions l = Some (length txs)" "length txs < 2 ^ 32"
  shows "\<exists>s t. TransactionCounts l = Some (s, t) \<and> unat t = length txs \<and> s \<le> t \<and>
    unat s = card {i. i < length txs \<and> Successful (pair_Result (the (lcm_TransactionResultPair l i)))}"
proof -
  let ?ok = "\<lambda>i. Successful (pair_Result (the (lcm_TransactionResultPair l i)))"
  let ?n = "length (filter ?ok [0..<length txs])"
  have "?n \<le> length txs" using length_filter_le [of ?ok "[0..<length txs]"] by simp
  moreover have "successful_transactions l [0..<length txs] 0 = Some (0 + word_of_nat ?n)"
    using accessors_defined(1) [OF assms(2)] by (intro successful_transactions_count) force
  moreover have "?n = card {i. i < length txs \<and> ?ok i}"
    by (subst distinct_card [symmetric]) (auto intro!: arg_cong [where f = card])
  ultimately show ?thesis using assms(1,3)
    by (auto simp: TransactionCounts_def unat_of_nat word_le_nat_alt)
qed

end
