(* ===== verification/Change_Reader.thy ===== *)
theory Change_Reader
  imports Ledger_Meta "HOL-Library.List_Lexorder"
begin

text \<open>
  From the metadata of a ledger to its changes: \<^verbatim>\<open>ingest/change.go\<close>, the changes of
  \<^verbatim>\<open>ingest/ledger_transaction.go\<close>, \<^verbatim>\<open>ledger_transaction_reader.go\<close> and \<^verbatim>\<open>ledger_change_reader.go\<close>. The
  readers are explicit state machines: a read returns the reader after it and the change or the
  error. The locale \<open>change_reader\<close> is the contract of the interface \<^verbatim>\<open>ChangeReader\<close>, interpreted on both
  readers of the package.
\<close>

section \<open>Definitions\<close>

subsection \<open>Changes from metadata\<close>

text \<open>\<open>Panic\<close> stands for every panic of the extraction, the other values for the errors of \<^verbatim>\<open>GetChanges\<close>.\<close>

datatype change_error = Panic | NoMetaV0 | UnsupportedVersion int

definition entry_type :: "'r LedgerEntryData \<Rightarrow> int" where
  "entry_type d =
     (case d of
        EntryAccount _ _ \<Rightarrow> 0 | EntryTrustLine _ _ _ \<Rightarrow> 1 | EntryOffer _ \<Rightarrow> 2 | EntryData _ _ _ \<Rightarrow> 3
      | EntryClaimableBalance _ _ \<Rightarrow> 4 | EntryLiquidityPool _ \<Rightarrow> 5 | EntryContractData _ _ _ _ \<Rightarrow> 6
      | EntryContractCode _ _ \<Rightarrow> 7 | EntryConfigSetting _ _ \<Rightarrow> 8 | EntryTtl _ \<Rightarrow> 9 | EntryOther t \<Rightarrow> t)"

text \<open>
  The state before an updated or removed entry: \<^verbatim>\<open>GetState\<close> of the preceding change, or else its
  \<^verbatim>\<open>MustRestored\<close>. A first element has no predecessor.
\<close>

definition previous_state :: "'r LedgerEntryChange option \<Rightarrow> 'r LedgerEntry option" where
  "previous_state prev = (case prev of Some (ChangeState e) \<Rightarrow> Some e | Some (ChangeRestored e) \<Rightarrow> Some e | _ \<Rightarrow> None)"

fun entry_changes :: "'r LedgerEntryChange option \<Rightarrow> 'r LedgerEntryChange list \<Rightarrow> ('r, 'y) Change list option" where
  "entry_changes prev [] = Some []"
| "entry_changes prev (entryChange # rest) =
     (case entryChange of
        ChangeCreated created \<Rightarrow>
          map_option (\<lambda>cs. new_change (entry_type (entry_Data created)) None (Some created) LedgerEntryCreated # cs)
            (entry_changes (Some entryChange) rest)
      | ChangeUpdated updated \<Rightarrow>
          (case previous_state prev of
             None \<Rightarrow> None
           | Some state \<Rightarrow>
               map_option (\<lambda>cs. new_change (entry_type (entry_Data state)) (Some state) (Some updated) LedgerEntryUpdated # cs)
                 (entry_changes (Some entryChange) rest))
      | ChangeRemoved key \<Rightarrow>
          (case previous_state prev of
             None \<Rightarrow> None
           | Some state \<Rightarrow>
               map_option (\<lambda>cs. new_change (entry_type (entry_Data state)) (Some state) None LedgerEntryRemoved # cs)
                 (entry_changes (Some entryChange) rest))
      | ChangeRestored restored \<Rightarrow>
          map_option (\<lambda>cs. new_change (entry_type (entry_Data restored)) None (Some restored) LedgerEntryRestored # cs)
            (entry_changes (Some entryChange) rest)
      | ChangeState state \<Rightarrow> entry_changes (Some entryChange) rest
      | ChangeOther t \<Rightarrow> None)"

definition Change_LedgerKey :: "('r, 'y) Change \<Rightarrow> LedgerKey option" where
  "Change_LedgerKey c =
     (case (case change_Pre c of Some pre \<Rightarrow> Some pre | None \<Rightarrow> change_Post c) of
        None \<Rightarrow> None
      | Some e \<Rightarrow> (case LedgerEntry_LedgerKey e of Inl _ \<Rightarrow> None | Inr k \<Rightarrow> Some k))"

text \<open>\<^verbatim>\<open>newSortableChanges\<close>: the changes with their marshalled keys; a change without a key panics.\<close>

fun newSortableChanges :: "(LedgerKey \<Rightarrow> bytes) \<Rightarrow> ('r, 'y) Change list \<Rightarrow> (bytes \<times> ('r, 'y) Change) list option" where
  "newSortableChanges marshal [] = Some []"
| "newSortableChanges marshal (c # cs) =
     (case Change_LedgerKey c of
        None \<Rightarrow> None
      | Some lk \<Rightarrow> map_option (\<lambda>s. (marshal lk, c) # s) (newSortableChanges marshal cs))"

text \<open>
  \<^verbatim>\<open>sort.Stable\<close> with \<^verbatim>\<open>Less\<close> the lexicographic order of the marshalled keys (\<^verbatim>\<open>bytes.Compare\<close>); \<^verbatim>\<open>Swap\<close> moves a
  change together with its key.
\<close>

definition sortChanges :: "(LedgerKey \<Rightarrow> bytes) \<Rightarrow> ('r, 'y) Change list \<Rightarrow> ('r, 'y) Change list option" where
  "sortChanges marshal changes = map_option (\<lambda>s. map snd (sort_key fst s)) (newSortableChanges marshal changes)"

definition GetChangesFromLedgerEntryChanges ::
    "(LedgerKey \<Rightarrow> bytes) \<Rightarrow> 'r LedgerEntryChange list \<Rightarrow> (change_error, ('r, 'y) Change list) result" where
  "GetChangesFromLedgerEntryChanges marshal ledgerEntryChanges =
     (case entry_changes None ledgerEntryChanges of
        None \<Rightarrow> Inl Panic
      | Some changes \<Rightarrow> (case sortChanges marshal changes of None \<Rightarrow> Inl Panic | Some cs \<Rightarrow> Inr cs))"

text \<open>\<^verbatim>\<open>getLiquidityPool\<close>: the pool of the post state, when there is one, replaces that of the pre state.\<close>

definition data_LiquidityPool :: "'r LedgerEntry \<Rightarrow> LiquidityPoolEntry option" where
  "data_LiquidityPool e = (case entry_Data e of EntryLiquidityPool p \<Rightarrow> Some p | _ \<Rightarrow> None)"

definition getLiquidityPool :: "('r, 'y) Change \<Rightarrow> LiquidityPoolEntry option" where
  "getLiquidityPool c =
     (let entry = (case change_Pre c of None \<Rightarrow> None | Some pre \<Rightarrow> data_LiquidityPool pre) in
      case change_Post c of None \<Rightarrow> entry | Some post \<Rightarrow> data_LiquidityPool post)"

subsection \<open>The changes of a transaction\<close>

record ('r, 'x) LedgerTransaction =
  lt_Index :: "32 word"
  lt_Envelope :: "'x TransactionEnvelope"
  lt_Result :: "'x TransactionResultPair"
  lt_FeeChanges :: "'r LedgerEntryChange list"
  lt_UnsafeMeta :: "('r, 'x) TransactionMeta"
  lt_PostTxApplyFeeChanges :: "'r LedgerEntryChange list"
  lt_LedgerVersion :: "32 word"
  lt_Ledger :: "('r, 'x) LedgerCloseMeta"
  lt_Hash :: bytes

text \<open>What the pointers of a change refer to.\<close>

datatype ('r, 'x) change_ref =
    RefTransaction "('r, 'x) LedgerTransaction"
  | RefLedger "('r, 'x) LedgerCloseMeta"
  | RefUpgrade 'x

type_synonym ('r, 'x) tx_change = "('r, ('r, 'x) change_ref) Change"

definition ReasonOperation :: nat where "ReasonOperation = 1"

definition ReasonTransaction :: nat where "ReasonTransaction = 2"

definition ReasonFee :: nat where "ReasonFee = 3"

definition ReasonFeeRefund :: nat where "ReasonFeeRefund = 4"

definition ReasonUpgrade :: nat where "ReasonUpgrade = 5"

definition tag_tx :: "('r, 'x) LedgerTransaction \<Rightarrow> nat \<Rightarrow> ('r, 'x) tx_change \<Rightarrow> ('r, 'x) tx_change" where
  "tag_tx t reason c =
     c\<lparr>change_Reason := reason, change_Transaction := Some (RefTransaction t), change_Ledger := Some (RefLedger (lt_Ledger t))\<rparr>"

definition txInternalError :: "('r, 'x) LedgerTransaction \<Rightarrow> bool" where
  "txInternalError t \<longleftrightarrow> result_Result (pair_Result (lt_Result t)) = TxInternalError"

definition GetFeeChanges :: "(LedgerKey \<Rightarrow> bytes) \<Rightarrow> ('r, 'x) LedgerTransaction \<Rightarrow> (change_error, ('r, 'x) tx_change list) result" where
  "GetFeeChanges marshal t =
     bind_result (GetChangesFromLedgerEntryChanges marshal (lt_FeeChanges t)) (\<lambda>changes. Inr (map (tag_tx t ReasonFee) changes))"

definition GetPostApplyFeeChanges :: "(LedgerKey \<Rightarrow> bytes) \<Rightarrow> ('r, 'x) LedgerTransaction \<Rightarrow> (change_error, ('r, 'x) tx_change list) result" where
  "GetPostApplyFeeChanges marshal t =
     bind_result (GetChangesFromLedgerEntryChanges marshal (lt_PostTxApplyFeeChanges t)) (\<lambda>changes.
       Inr (map (tag_tx t ReasonFeeRefund) changes))"

definition getTransactionChanges ::
    "(LedgerKey \<Rightarrow> bytes) \<Rightarrow> ('r, 'x) LedgerTransaction \<Rightarrow> 'r LedgerEntryChange list \<Rightarrow> (change_error, ('r, 'x) tx_change list) result" where
  "getTransactionChanges marshal t ledgerEntryChanges =
     bind_result (GetChangesFromLedgerEntryChanges marshal ledgerEntryChanges) (\<lambda>changes.
       Inr (map (tag_tx t ReasonTransaction) changes))"

text \<open>The interface \<^verbatim>\<open>operationsMeta\<close> is the list of the changes of each operation, for both versions.\<close>

definition operationChanges ::
    "(LedgerKey \<Rightarrow> bytes) \<Rightarrow> ('r, 'x) LedgerTransaction \<Rightarrow> 'r LedgerEntryChange list list \<Rightarrow> nat \<Rightarrow> (change_error, ('r, 'x) tx_change list) result" where
  "operationChanges marshal t ops index =
     (if index \<ge> length ops then Inr []
      else bind_result (GetChangesFromLedgerEntryChanges marshal (ops ! index)) (\<lambda>changes.
        Inr (map (\<lambda>c. (tag_tx t ReasonOperation c)\<lparr>OperationIndex := index\<rparr>) changes)))"

fun all_operations ::
    "(LedgerKey \<Rightarrow> bytes) \<Rightarrow> ('r, 'x) LedgerTransaction \<Rightarrow> 'r LedgerEntryChange list list \<Rightarrow> nat list \<Rightarrow> (change_error, ('r, 'x) tx_change list) result" where
  "all_operations marshal t ops [] = Inr []"
| "all_operations marshal t ops (opIdx # rest) =
     bind_result (operationChanges marshal t ops opIdx) (\<lambda>opChanges.
       bind_result (all_operations marshal t ops rest) (\<lambda>changes. Inr (opChanges @ changes)))"

text \<open>Versions 2, 3 and 4: the changes before the operations, of the operations and after them.\<close>

definition meta_changes ::
    "(LedgerKey \<Rightarrow> bytes) \<Rightarrow> ('r, 'x) LedgerTransaction \<Rightarrow> 'r LedgerEntryChange list \<Rightarrow> 'r LedgerEntryChange list list \<Rightarrow>
     'r LedgerEntryChange list \<Rightarrow> (change_error, ('r, 'x) tx_change list) result" where
  "meta_changes marshal t before ops after =
     bind_result (getTransactionChanges marshal t before) (\<lambda>txChangesBefore.
       if txInternalError t \<and> lt_LedgerVersion t \<le> 12 then Inr txChangesBefore
       else bind_result (all_operations marshal t ops [0..<length ops]) (\<lambda>opChanges.
         bind_result (getTransactionChanges marshal t after) (\<lambda>txChangesAfter.
           Inr (txChangesBefore @ opChanges @ txChangesAfter))))"

definition tx_GetChanges :: "(LedgerKey \<Rightarrow> bytes) \<Rightarrow> ('r, 'x) LedgerTransaction \<Rightarrow> (change_error, ('r, 'x) tx_change list) result" where
  "tx_GetChanges marshal t =
     (case lt_UnsafeMeta t of
        MetaV0 _ \<Rightarrow> Inl NoMetaV0
      | MetaV1 txc ops \<Rightarrow>
          bind_result (getTransactionChanges marshal t txc) (\<lambda>txChanges.
            if txInternalError t \<and> lt_LedgerVersion t \<le> 12 then Inr txChanges
            else bind_result (all_operations marshal t ops [0..<length ops]) (\<lambda>opChanges. Inr (txChanges @ opChanges)))
      | MetaV2 m \<Rightarrow> meta_changes marshal t (m2_TxChangesBefore m) (m2_Operations m) (m2_TxChangesAfter m)
      | MetaV3 m \<Rightarrow> meta_changes marshal t (m3_TxChangesBefore m) (m3_Operations m) (m3_TxChangesAfter m)
      | MetaV4 m \<Rightarrow> meta_changes marshal t (m4_TxChangesBefore m) (map op_Changes (m4_Operations m)) (m4_TxChangesAfter m)
      | MetaOther v \<Rightarrow> Inl (UnsupportedVersion v))"

definition GetOperation :: "('r, 'x) LedgerTransaction \<Rightarrow> nat \<Rightarrow> 'x option option" where
  "GetOperation t index = map_option (\<lambda>ops. slice_at ops index) (Operations (lt_Envelope t))"

definition GetOperationChanges ::
    "(LedgerKey \<Rightarrow> bytes) \<Rightarrow> ('r, 'x) LedgerTransaction \<Rightarrow> nat \<Rightarrow> (change_error, ('r, 'x) tx_change list) result" where
  "GetOperationChanges marshal t operationIndex =
     (if meta_version (lt_UnsafeMeta t) = 0 then Inl NoMetaV0
      else if txInternalError t \<and> lt_LedgerVersion t \<le> 12 then Inr []
      else case lt_UnsafeMeta t of
          MetaV1 txc ops \<Rightarrow> operationChanges marshal t ops operationIndex
        | MetaV2 m \<Rightarrow> operationChanges marshal t (m2_Operations m) operationIndex
        | MetaV3 m \<Rightarrow> operationChanges marshal t (m3_Operations m) operationIndex
        | MetaV4 m \<Rightarrow> operationChanges marshal t (map op_Changes (m4_Operations m)) operationIndex
        | m \<Rightarrow> Inl (UnsupportedVersion (meta_version m)))"

subsection \<open>The reader of transactions\<close>

datatype read_error =
    EOF
  | UnknownTxHash bytes
  | ReadChange change_error
  | CompactError compactor_error
  | ReadPanic

datatype new_reader_error = HashFailed nat hash_error | BadMetaVersion | NewReaderPanic

record ('r, 'x) LedgerTransactionReader =
  reader_lcm :: "('r, 'x) LedgerCloseMeta"
  envelopesByHash :: "bytes \<rightharpoonup> 'x TransactionEnvelope"
  readIdx :: nat

text \<open>
  The check of the metadata version in \<^verbatim>\<open>storeTransactions\<close>, evaluated from left to right: \<open>None\<close> is a panic.
\<close>

definition bad_meta :: "('r, 'x) LedgerCloseMeta \<Rightarrow> nat \<Rightarrow> bool option" where
  "bad_meta l i =
     (case ProtocolVersion l of
        None \<Rightarrow> None
      | Some v \<Rightarrow>
          if \<not> v < 10 then Some False
          else (case TxApplyProcessing l i of
                  None \<Rightarrow> None
                | Some m \<Rightarrow> if \<not> meta_version m < 2 then Some False
                    else map_option (\<lambda>fees. fees \<noteq> []) (FeeProcessing l i)))"

fun storeTransactions ::
    "('x TransactionEnvelope \<Rightarrow> (hash_error, bytes) result) \<Rightarrow> nat \<Rightarrow> 'x TransactionEnvelope list \<Rightarrow>
     ('r, 'x) LedgerTransactionReader \<Rightarrow> (new_reader_error, ('r, 'x) LedgerTransactionReader) result" where
  "storeTransactions hashEnv i [] reader = Inr reader"
| "storeTransactions hashEnv i (tx # txs) reader =
     (case hashEnv tx of
        Inl err \<Rightarrow> Inl (HashFailed i err)
      | Inr h \<Rightarrow>
          (case bad_meta (reader_lcm reader) i of
             None \<Rightarrow> Inl NewReaderPanic
           | Some True \<Rightarrow> Inl BadMetaVersion
           | Some False \<Rightarrow> storeTransactions hashEnv (Suc i) txs (reader\<lparr>envelopesByHash := (envelopesByHash reader)(h \<mapsto> tx)\<rparr>)))"

definition NewLedgerTransactionReaderFromLedgerCloseMeta ::
    "(bytes \<Rightarrow> bytes) \<Rightarrow> ('x TransactionSignaturePayload \<Rightarrow> bytes option) \<Rightarrow> string \<Rightarrow> ('r, 'x) LedgerCloseMeta \<Rightarrow>
     (new_reader_error, ('r, 'x) LedgerTransactionReader) result" where
  "NewLedgerTransactionReaderFromLedgerCloseMeta sha256 marshalTx networkPassphrase ledgerCloseMeta =
     (case (CountTransactions ledgerCloseMeta, TransactionEnvelopes ledgerCloseMeta) of
        (Some _, Some txs) \<Rightarrow>
          storeTransactions (\<lambda>tx. HashTransactionInEnvelope sha256 marshalTx tx networkPassphrase) 0 txs
            \<lparr>reader_lcm = ledgerCloseMeta, envelopesByHash = Map.empty, readIdx = 0\<rparr>
      | _ \<Rightarrow> Inl NewReaderPanic)"

fun post_apply_fees :: "('r, 'x) LedgerCloseMeta \<Rightarrow> nat \<Rightarrow> 'r LedgerEntryChange list option" where
  "post_apply_fees (LcmV2 l) i = map_option rm1_PostTxApplyFeeProcessing (slice_at (l2_TxProcessing l) i)"
| "post_apply_fees _ i = Some []"

text \<open>The transaction that \<^verbatim>\<open>Read\<close> assembles at an index.\<close>

definition read_at :: "('r, 'x) LedgerTransactionReader \<Rightarrow> nat \<Rightarrow> (read_error, ('r, 'x) LedgerTransaction) result" where
  "read_at reader i =
     (case lcm_TransactionHash (reader_lcm reader) i of
        None \<Rightarrow> Inl ReadPanic
      | Some h \<Rightarrow>
          (case envelopesByHash reader h of
             None \<Rightarrow> Inl (UnknownTxHash h)
           | Some envelope \<Rightarrow>
               (case (post_apply_fees (reader_lcm reader) i, lcm_TransactionResultPair (reader_lcm reader) i, TxApplyProcessing (reader_lcm reader) i,
                      FeeProcessing (reader_lcm reader) i, ProtocolVersion (reader_lcm reader)) of
                  (Some post, Some res, Some meta, Some fees, Some version) \<Rightarrow>
                    Inr \<lparr>lt_Index = word_of_nat (i + 1), lt_Envelope = envelope, lt_Result = res, lt_FeeChanges = fees,
                         lt_UnsafeMeta = meta, lt_PostTxApplyFeeChanges = post, lt_LedgerVersion = version,
                         lt_Ledger = reader_lcm reader, lt_Hash = h\<rparr>
                | _ \<Rightarrow> Inl ReadPanic)))"

definition tx_Read :: "('r, 'x) LedgerTransactionReader \<Rightarrow> ('r, 'x) LedgerTransactionReader \<times> (read_error, ('r, 'x) LedgerTransaction) result" where
  "tx_Read reader =
     (case CountTransactions (reader_lcm reader) of
        None \<Rightarrow> (reader, Inl ReadPanic)
      | Some n \<Rightarrow>
          if readIdx reader \<ge> n then (reader, Inl EOF)
          else (reader\<lparr>readIdx := Suc (readIdx reader)\<rparr>, read_at reader (readIdx reader)))"

definition Seek :: "('r, 'x) LedgerTransactionReader \<Rightarrow> int \<Rightarrow> ('r, 'x) LedgerTransactionReader \<times> read_error option" where
  "Seek reader index =
     (case CountTransactions (reader_lcm reader) of
        None \<Rightarrow> (reader, Some ReadPanic)
      | Some n \<Rightarrow> if index \<ge> int n \<or> index < 0 then (reader, Some EOF) else (reader\<lparr>readIdx := nat index\<rparr>, None))"

definition Rewind :: "('r, 'x) LedgerTransactionReader \<Rightarrow> ('r, 'x) LedgerTransactionReader" where
  "Rewind reader = fst (Seek reader 0)"

definition tx_Close :: "('r, 'x) LedgerTransactionReader \<Rightarrow> ('r, 'x) LedgerTransactionReader" where
  "tx_Close reader = reader\<lparr>envelopesByHash := Map.empty\<rparr>"

subsection \<open>The reader of changes\<close>

datatype ledgerChangeReaderState = feeChangesState | metaChangesState | postTxApplyState | upgradeChangesState

fun next_state :: "ledgerChangeReaderState \<Rightarrow> ledgerChangeReaderState" where
  "next_state feeChangesState = metaChangesState"
| "next_state metaChangesState = postTxApplyState"
| "next_state _ = upgradeChangesState"

record ('r, 'x) LedgerChangeReader =
  tx_reader :: "('r, 'x) LedgerTransactionReader"
  reader_state :: ledgerChangeReaderState
  pending :: "('r, 'x) tx_change list"
  pendingIndex :: nat
  upgradeIndex :: nat

definition NewLedgerChangeReaderFromLedgerCloseMeta ::
    "(bytes \<Rightarrow> bytes) \<Rightarrow> ('x TransactionSignaturePayload \<Rightarrow> bytes option) \<Rightarrow> string \<Rightarrow> ('r, 'x) LedgerCloseMeta \<Rightarrow>
     (new_reader_error, ('r, 'x) LedgerChangeReader) result" where
  "NewLedgerChangeReaderFromLedgerCloseMeta sha256 marshalTx networkPassphrase ledger =
     bind_result (NewLedgerTransactionReaderFromLedgerCloseMeta sha256 marshalTx networkPassphrase ledger) (\<lambda>transactionReader.
       Inr \<lparr>tx_reader = transactionReader, reader_state = feeChangesState, pending = [], pendingIndex = 0, upgradeIndex = 0\<rparr>)"

definition stage_changes ::
    "(LedgerKey \<Rightarrow> bytes) \<Rightarrow> ledgerChangeReaderState \<Rightarrow> ('r, 'x) LedgerTransaction \<Rightarrow> (change_error, ('r, 'x) tx_change list) result" where
  "stage_changes marshal st tx =
     (case st of
        feeChangesState \<Rightarrow> GetFeeChanges marshal tx
      | metaChangesState \<Rightarrow> tx_GetChanges marshal tx
      | postTxApplyState \<Rightarrow> GetPostApplyFeeChanges marshal tx
      | upgradeChangesState \<Rightarrow> Inr [])"

definition upgrade_changes ::
    "(LedgerKey \<Rightarrow> bytes) \<Rightarrow> ('r, 'x) LedgerCloseMeta \<Rightarrow> ('r, 'x) UpgradeEntryMeta \<Rightarrow> (change_error, ('r, 'x) tx_change list) result" where
  "upgrade_changes marshal l u =
     bind_result (GetChangesFromLedgerEntryChanges marshal (upgrade_Changes u)) (\<lambda>changes.
       Inr (map (\<lambda>c. c\<lparr>change_Reason := ReasonUpgrade, change_Ledger := Some (RefLedger l), LedgerUpgrade := Some (RefUpgrade (Upgrade u))\<rparr>) changes))"

definition pending_Read :: "('r, 'x) LedgerChangeReader \<Rightarrow> ('r, 'x) LedgerChangeReader \<times> ('r, 'x) tx_change" where
  "pending_Read r =
     (let next = pending r ! pendingIndex r; r = r\<lparr>pendingIndex := Suc (pendingIndex r)\<rparr> in
      (if pendingIndex r = length (pending r) then r\<lparr>pendingIndex := 0, pending := []\<rparr> else r, next))"

text \<open>\<^verbatim>\<open>Read\<close> of \<^verbatim>\<open>LedgerChangeReader\<close>; its recursive calls read on in the reader they changed.\<close>

function (sequential) change_Read ::
    "(LedgerKey \<Rightarrow> bytes) \<Rightarrow> ('r, 'x) LedgerChangeReader \<Rightarrow> ('r, 'x) LedgerChangeReader \<times> (read_error, ('r, 'x) tx_change) result" where
  "change_Read marshal r =
     (if pendingIndex r < length (pending r) then (let (r', next) = pending_Read r in (r', Inr next))
      else if reader_state r \<noteq> upgradeChangesState
      then (case tx_Read (tx_reader r) of
              (tr, Inl err) \<Rightarrow>
                if err = EOF
                then change_Read marshal
                       (r\<lparr>tx_reader := (if reader_state r \<noteq> postTxApplyState then Rewind tr else tr), reader_state := next_state (reader_state r)\<rparr>)
                else (r\<lparr>tx_reader := tr\<rparr>, Inl err)
            | (tr, Inr tx) \<Rightarrow>
                (case stage_changes marshal (reader_state r) tx of
                   Inl err \<Rightarrow> (r\<lparr>tx_reader := tr\<rparr>, Inl (ReadChange err))
                 | Inr changes \<Rightarrow> change_Read marshal (r\<lparr>tx_reader := tr, pending := pending r @ changes\<rparr>)))
      else (case UpgradesProcessing (reader_lcm (tx_reader r)) of
              None \<Rightarrow> (r, Inl ReadPanic)
            | Some upgrades \<Rightarrow>
                if upgradeIndex r < length upgrades
                then (case upgrade_changes marshal (reader_lcm (tx_reader r)) (upgrades ! upgradeIndex r) of
                        Inl err \<Rightarrow> (r, Inl (ReadChange err))
                      | Inr changes \<Rightarrow>
                          change_Read marshal (r\<lparr>pending := pending r @ changes, upgradeIndex := Suc (upgradeIndex r)\<rparr>))
                else (r, Inl EOF)))"
  by pat_completeness auto

fun state_number :: "ledgerChangeReaderState \<Rightarrow> nat" where
  "state_number feeChangesState = 0"
| "state_number metaChangesState = 1"
| "state_number postTxApplyState = 2"
| "state_number upgradeChangesState = 3"

definition left_tx :: "('r, 'x) LedgerTransactionReader \<Rightarrow> nat" where
  "left_tx tr = (case CountTransactions (reader_lcm tr) of None \<Rightarrow> 0 | Some n \<Rightarrow> n - readIdx tr)"

definition left_upgrades :: "('r, 'x) LedgerChangeReader \<Rightarrow> nat" where
  "left_upgrades r = (case UpgradesProcessing (reader_lcm (tx_reader r)) of None \<Rightarrow> 0 | Some us \<Rightarrow> length us - upgradeIndex r)"

lemma tx_Read_progress: "tx_Read tr = (tr', Inr tx) \<Longrightarrow> left_tx tr' < left_tx tr \<and> reader_lcm tr' = reader_lcm tr"
  by (auto simp: tx_Read_def left_tx_def split: option.splits if_splits)

termination change_Read
proof (relation "measures [\<lambda>(m, r). 3 - state_number (reader_state r), \<lambda>(m, r). left_tx (tx_reader r), \<lambda>(m, r). left_upgrades r]", goal_cases)
  case (2 marshal r x tr y)
  then have "reader_state r \<noteq> upgradeChangesState" by simp
  then show ?case by (cases "reader_state r") simp_all
next
  case 3
  then show ?case by (auto dest!: tx_Read_progress [OF sym])
qed (auto simp: left_upgrades_def)

declare change_Read.simps [simp del]

definition change_Close :: "('r, 'x) LedgerChangeReader \<Rightarrow> ('r, 'x) LedgerChangeReader" where
  "change_Close r = r\<lparr>pending := [], tx_reader := tx_Close (tx_reader r)\<rparr>"

subsection \<open>The compacting reader\<close>

text \<open>
  \<^verbatim>\<open>compactingChangeReader\<close> wraps any \<^verbatim>\<open>ChangeReader\<close>: its method \<^verbatim>\<open>Read\<close> is the function \<open>read\<close> on the states \<open>'s\<close>
  of the input. A read that does not return is \<open>None\<close>.
\<close>

record ('s, 'r, 'y) compactingChangeReader =
  input :: 's
  compacted_changes :: "('r, 'y) Change list"
  compacted :: bool
  compact_config :: bool

definition NewCompactingChangeReader :: "'s \<Rightarrow> bool \<Rightarrow> ('s, 'r, 'y) compactingChangeReader" where
  "NewCompactingChangeReader inp config = \<lparr>input = inp, compacted_changes = [], compacted = False, compact_config = config\<rparr>"

partial_function (option) compact_loop ::
    "(LedgerKey \<Rightarrow> bytes) \<Rightarrow> ('s \<Rightarrow> ('s \<times> (read_error, ('r, 'y) Change) result) option) \<Rightarrow> 's \<Rightarrow> ('r, 'y) ChangeCompactor \<Rightarrow>
     ('s \<times> (read_error, ('r, 'y) ChangeCompactor) result) option" where
  "compact_loop marshal read s compactor =
     (case read s of
        None \<Rightarrow> None
      | Some (s', res) \<Rightarrow>
          (case res of
             Inl err \<Rightarrow> if err = EOF then Some (s', Inr compactor) else Some (s', Inl err)
           | Inr change \<Rightarrow>
               (case AddChange marshal compactor change of
                  Inl err \<Rightarrow> Some (s', Inl (CompactError err))
                | Inr compactor' \<Rightarrow> compact_loop marshal read s' compactor')))"

definition compact ::
    "(LedgerKey \<Rightarrow> bytes) \<Rightarrow> ('s \<Rightarrow> ('s \<times> (read_error, ('r, 'y) Change) result) option) \<Rightarrow> ('s, 'r, 'y) compactingChangeReader \<Rightarrow>
     (('s, 'r, 'y) compactingChangeReader \<times> read_error option) option" where
  "compact marshal read c =
     (case compact_loop marshal read (input c) (NewChangeCompactor (compact_config c)) of
        None \<Rightarrow> None
      | Some (s, Inl err) \<Rightarrow> Some (c\<lparr>input := s\<rparr>, Some err)
      | Some (s, Inr compactor) \<Rightarrow> Some (c\<lparr>input := s, compacted_changes := GetChanges compactor, compacted := True\<rparr>, None))"

definition pop_change :: "('s, 'r, 'y) compactingChangeReader \<Rightarrow> ('s, 'r, 'y) compactingChangeReader \<times> (read_error, ('r, 'y) Change) result" where
  "pop_change c =
     (case compacted_changes c of [] \<Rightarrow> (c, Inl EOF) | change # changes \<Rightarrow> (c\<lparr>compacted_changes := changes\<rparr>, Inr change))"

definition compacting_Read ::
    "(LedgerKey \<Rightarrow> bytes) \<Rightarrow> ('s \<Rightarrow> ('s \<times> (read_error, ('r, 'y) Change) result) option) \<Rightarrow> ('s, 'r, 'y) compactingChangeReader \<Rightarrow>
     (('s, 'r, 'y) compactingChangeReader \<times> (read_error, ('r, 'y) Change) result) option" where
  "compacting_Read marshal read c =
     (if compacted c then Some (pop_change c)
      else case compact marshal read c of
        None \<Rightarrow> None
      | Some (c', Some err) \<Rightarrow> Some (c', Inl err)
      | Some (c', None) \<Rightarrow> Some (pop_change c'))"

section \<open>The contract of a reader\<close>

text \<open>
  What \<^verbatim>\<open>ChangeReader\<close> promises: a reader with contents \<open>c # cs\<close> returns \<open>c\<close> and is left with \<open>cs\<close>, one without
  contents reports the end, again and again.
\<close>

locale change_reader =
  fixes read :: "'s \<Rightarrow> ('s \<times> (read_error, ('r, 'y) Change) result) option"
    and contents :: "'s \<Rightarrow> ('r, 'y) Change list \<Rightarrow> bool"
  assumes read_end: "contents s [] \<Longrightarrow> \<exists>s'. read s = Some (s', Inl EOF) \<and> contents s' []"
    and read_next: "contents s (c # cs) \<Longrightarrow> \<exists>s'. read s = Some (s', Inr c) \<and> contents s' cs"
begin

lemma compact_loop_contents:
  "contents s cs \<Longrightarrow> AddChanges marshal k cs = Inr k' \<Longrightarrow> \<exists>s'. compact_loop marshal read s k = Some (s', Inr k') \<and> contents s' []"
proof (induction cs arbitrary: s k)
  case Nil
  then show ?case using read_end [of s] by (auto simp: compact_loop.simps [of marshal read s])
next
  case (Cons c cs)
  obtain k1 where k1: "AddChange marshal k c = Inr k1" "AddChanges marshal k1 cs = Inr k'"
    using Cons.prems(2) by (auto simp: bind_result_eq_Inr)
  obtain s1 where s1: "read s = Some (s1, Inr c)" "contents s1 cs" using read_next [OF Cons.prems(1)] by blast
  show ?case using Cons.IH [OF s1(2) k1(2)] s1(1) k1(1) by (simp add: compact_loop.simps [of marshal read s])
qed

text \<open>The contents of the compacting reader: what is left of the compacted changes, or what compaction will give.\<close>

lemma compacting_reader:
  "change_reader (compacting_Read marshal read)
     (\<lambda>c cs. if compacted c then compacted_changes c = cs
            else \<exists>ins k. contents (input c) ins \<and> AddChanges marshal (NewChangeCompactor (compact_config c)) ins = Inr k \<and> GetChanges k = cs)"
  (is "change_reader ?read ?contents")
proof -
  have pop: "\<exists>c'. compacting_Read marshal read c = Some (pop_change c') \<and> compacted c' \<and> compacted_changes c' = cs"
    if held: "?contents c cs" for c cs
  proof (cases "compacted c")
    case False
    then obtain ins k where k: "contents (input c) ins" "AddChanges marshal (NewChangeCompactor (compact_config c)) ins = Inr k" "GetChanges k = cs"
      using held by auto
    show ?thesis using compact_loop_contents [OF k(1,2)] k(3) False by (auto simp: compacting_Read_def compact_def)
  qed (use held in \<open>auto simp: compacting_Read_def\<close>)
  show ?thesis
  proof (unfold_locales, goal_cases)
    case (1 s)
    then show ?case using pop by (fastforce simp: pop_change_def)
  next
    case (2 s c cs)
    then obtain c' where "compacting_Read marshal read s = Some (pop_change c')" "compacted c'" "compacted_changes c' = c # cs" using pop by blast
    then show ?case by (auto simp: pop_change_def)
  qed
qed

end

section \<open>The contents of a ledger\<close>

text \<open>The changes that stage \<open>st\<close> reads from transaction \<open>i\<close>, and those of an upgrade; \<open>None\<close> when reading fails.\<close>

definition stage_at :: "(LedgerKey \<Rightarrow> bytes) \<Rightarrow> ('r, 'x) LedgerTransactionReader \<Rightarrow> ledgerChangeReaderState \<Rightarrow> nat \<Rightarrow> ('r, 'x) tx_change list option" where
  "stage_at marshal tr st i =
     (case read_at tr i of Inl _ \<Rightarrow> None | Inr tx \<Rightarrow> (case stage_changes marshal st tx of Inl _ \<Rightarrow> None | Inr cs \<Rightarrow> Some cs))"

definition upgrade_at :: "(LedgerKey \<Rightarrow> bytes) \<Rightarrow> ('r, 'x) LedgerCloseMeta \<Rightarrow> ('r, 'x) UpgradeEntryMeta \<Rightarrow> ('r, 'x) tx_change list option" where
  "upgrade_at marshal l u = (case upgrade_changes marshal l u of Inl _ \<Rightarrow> None | Inr cs \<Rightarrow> Some cs)"

definition gather :: "'a list option list \<Rightarrow> 'a list option" where
  "gather xs = map_option concat (those xs)"

definition first_index :: "('r, 'x) LedgerChangeReader \<Rightarrow> nat \<Rightarrow> ledgerChangeReaderState \<Rightarrow> nat" where
  "first_index r n st =
     (if st = reader_state r then readIdx (tx_reader r) else if state_number (reader_state r) < state_number st then 0 else n)"

definition unread :: "(LedgerKey \<Rightarrow> bytes) \<Rightarrow> ('r, 'x) LedgerChangeReader \<Rightarrow> nat \<Rightarrow> ('r, 'x) UpgradeEntryMeta list \<Rightarrow> ('r, 'x) tx_change list option list" where
  "unread marshal r n us =
     map (stage_at marshal (tx_reader r) feeChangesState) [first_index r n feeChangesState..<n] @
     map (stage_at marshal (tx_reader r) metaChangesState) [first_index r n metaChangesState..<n] @
     map (stage_at marshal (tx_reader r) postTxApplyState) [first_index r n postTxApplyState..<n] @
     map (upgrade_at marshal (reader_lcm (tx_reader r))) (drop (upgradeIndex r) us)"

definition reader_contents :: "(LedgerKey \<Rightarrow> bytes) \<Rightarrow> ('r, 'x) LedgerChangeReader \<Rightarrow> ('r, 'x) tx_change list \<Rightarrow> bool" where
  "reader_contents marshal r cs \<longleftrightarrow>
     (pendingIndex r < length (pending r) \<or> pending r = [] \<and> pendingIndex r = 0) \<and>
     (\<exists>n us rest. CountTransactions (reader_lcm (tx_reader r)) = Some n \<and> UpgradesProcessing (reader_lcm (tx_reader r)) = Some us \<and>
        gather (unread marshal r n us) = Some rest \<and> cs = drop (pendingIndex r) (pending r) @ rest)"

lemma gather_simps [simp]:
  "gather [] = Some []"
  "gather (x # xs) = (case x of None \<Rightarrow> None | Some c \<Rightarrow> map_option (\<lambda>cs. c @ cs) (gather xs))"
  by (auto simp: gather_def option.map_comp comp_def split: option.splits)

lemma stage_at_Some:
  "stage_at marshal tr st i = Some cs \<longleftrightarrow> (\<exists>tx. read_at tr i = Inr tx \<and> stage_changes marshal st tx = Inr cs)"
  by (auto simp: stage_at_def split: sum.splits)

lemma upgrade_at_Some: "upgrade_at marshal l u = Some cs \<longleftrightarrow> upgrade_changes marshal l u = Inr cs"
  by (auto simp: upgrade_at_def split: sum.splits)

text \<open>What is read does not depend on the position of the reader.\<close>

lemma read_at_readIdx [simp]: "read_at (tr\<lparr>readIdx := j\<rparr>) i = read_at tr i"
proof -
  have "reader_lcm (tr\<lparr>readIdx := j\<rparr>) = reader_lcm tr" "envelopesByHash (tr\<lparr>readIdx := j\<rparr>) = envelopesByHash tr" by simp_all
  then show ?thesis unfolding read_at_def by (simp only:)
qed

lemma stage_at_readIdx [simp]: "stage_at marshal (tr\<lparr>readIdx := j\<rparr>) st = stage_at marshal tr st"
  by (simp add: stage_at_def fun_eq_iff)

lemma Rewind_eq: "CountTransactions (reader_lcm tr) = Some n \<Longrightarrow> Rewind tr = (if n = 0 then tr else tr\<lparr>readIdx := 0\<rparr>)"
  by (simp add: Rewind_def Seek_def)

lemma unread_pending [simp]: "unread marshal (r\<lparr>pending := p\<rparr>) n us = unread marshal r n us" "unread marshal (r\<lparr>pendingIndex := i\<rparr>) n us = unread marshal r n us"
  by (simp_all add: unread_def first_index_def)

text \<open>The three kinds of progress.\<close>

lemma unread_tx:
  assumes "reader_state r \<noteq> upgradeChangesState" "readIdx (tx_reader r) < n"
  shows "unread marshal r n us = stage_at marshal (tx_reader r) (reader_state r) (readIdx (tx_reader r)) #
    unread marshal (r\<lparr>tx_reader := (tx_reader r)\<lparr>readIdx := Suc (readIdx (tx_reader r))\<rparr>\<rparr>) n us"
  using assms by (cases "reader_state r") (simp_all add: unread_def first_index_def upt_conv_Cons)

lemma unread_stage:
  assumes "reader_state r \<noteq> upgradeChangesState" "\<not> readIdx (tx_reader r) < n" "CountTransactions (reader_lcm (tx_reader r)) = Some n"
  shows "unread marshal r n us = unread marshal
    (r\<lparr>tx_reader := (if reader_state r \<noteq> postTxApplyState then Rewind (tx_reader r) else tx_reader r), reader_state := next_state (reader_state r)\<rparr>) n us"
  using assms by (cases "reader_state r") (auto simp: unread_def first_index_def Rewind_eq)

lemma unread_upgrade:
  assumes "reader_state r = upgradeChangesState" "upgradeIndex r < length us"
  shows "unread marshal r n us = upgrade_at marshal (reader_lcm (tx_reader r)) (us ! upgradeIndex r) #
    unread marshal (r\<lparr>upgradeIndex := Suc (upgradeIndex r)\<rparr>) n us"
  using assms by (simp add: unread_def first_index_def Cons_nth_drop_Suc [symmetric])

text \<open>A read of a reader with contents.\<close>

lemma change_Read_contents:
  "reader_contents marshal r cs \<Longrightarrow>
   (case cs of
      [] \<Rightarrow> \<exists>r'. change_Read marshal r = (r', Inl EOF) \<and> reader_contents marshal r' []
    | c # cs' \<Rightarrow> \<exists>r'. change_Read marshal r = (r', Inr c) \<and> reader_contents marshal r' cs')"
proof (induction marshal r arbitrary: cs rule: change_Read.induct)
  case (1 marshal r)
  from "1.prems" obtain n us rest where
    idx: "pendingIndex r < length (pending r) \<or> pending r = [] \<and> pendingIndex r = 0" and
    n: "CountTransactions (reader_lcm (tx_reader r)) = Some n" and us: "UpgradesProcessing (reader_lcm (tx_reader r)) = Some us" and
    rest: "gather (unread marshal r n us) = Some rest" and cs: "cs = drop (pendingIndex r) (pending r) @ rest"
    unfolding reader_contents_def by blast
  show ?case
  proof (cases "pendingIndex r < length (pending r)")
    case True
    then have "change_Read marshal r = (let (r', next) = pending_Read r in (r', Inr next))" by (simp add: change_Read.simps)
    moreover have "cs = pending r ! pendingIndex r # drop (Suc (pendingIndex r)) (pending r) @ rest"
      using cs True by (simp add: Cons_nth_drop_Suc [symmetric])
    ultimately show ?thesis using n us rest True
      by (auto simp: pending_Read_def Let_def reader_contents_def)
  next
    case False
    then have p: "pending r = []" "pendingIndex r = 0" "cs = rest" using idx cs by auto
    show ?thesis
    proof (cases "reader_state r = upgradeChangesState")
      case up: True
      show ?thesis
      proof (cases "upgradeIndex r < length us")
        case True
        obtain chs rest' where c: "upgrade_changes marshal (reader_lcm (tx_reader r)) (us ! upgradeIndex r) = Inr chs"
            "gather (unread marshal (r\<lparr>upgradeIndex := Suc (upgradeIndex r)\<rparr>) n us) = Some rest'" "rest = chs @ rest'"
          using rest unfolding unread_upgrade [OF up True] by (auto simp: upgrade_at_Some split: option.splits)
        let ?r = "r\<lparr>pending := pending r @ chs, upgradeIndex := Suc (upgradeIndex r)\<rparr>"
        have eq: "change_Read marshal r = change_Read marshal ?r"
          using False up us True c(1) by (simp add: change_Read.simps [of marshal r])
        have "unread marshal ?r n us = unread marshal (r\<lparr>upgradeIndex := Suc (upgradeIndex r)\<rparr>) n us"
          by (simp add: unread_def first_index_def)
        then have "reader_contents marshal ?r cs" using p n us c(2,3) by (auto simp: reader_contents_def)
        then show ?thesis unfolding eq using up by (intro "1.IH"(3) [OF False _ us True c(1)]) simp_all
      next
        case eof: False
        have "unread marshal r n us = []" using up eof by (simp add: unread_def first_index_def)
        then have "cs = []" using rest p(3) by simp
        moreover have "change_Read marshal r = (r, Inl EOF)" using False up us eof by (simp add: change_Read.simps)
        ultimately show ?thesis using "1.prems" by auto
      qed
    next
      case up: False
      show ?thesis
      proof (cases "readIdx (tx_reader r) < n")
        case True
        obtain chs tx rest' where c: "read_at (tx_reader r) (readIdx (tx_reader r)) = Inr tx" "stage_changes marshal (reader_state r) tx = Inr chs"
            "gather (unread marshal (r\<lparr>tx_reader := (tx_reader r)\<lparr>readIdx := Suc (readIdx (tx_reader r))\<rparr>\<rparr>) n us) = Some rest'" "rest = chs @ rest'"
          using rest unfolding unread_tx [OF up True] by (auto simp: stage_at_Some split: option.splits)
        let ?tr = "(tx_reader r)\<lparr>readIdx := Suc (readIdx (tx_reader r))\<rparr>"
        let ?r = "r\<lparr>tx_reader := ?tr, pending := pending r @ chs\<rparr>"
        have t: "tx_Read (tx_reader r) = (?tr, Inr tx)" using n True c(1) by (simp add: tx_Read_def)
        then have eq: "change_Read marshal r = change_Read marshal ?r"
          using False up c(2) by (simp add: change_Read.simps [of marshal r])
        have "reader_contents marshal ?r cs" using p n us c(3,4) by (auto simp: reader_contents_def)
        then show ?thesis unfolding eq by (rule "1.IH"(2) [OF False up t [symmetric] refl c(2)])
      next
        case eof: False
        let ?r = "r\<lparr>tx_reader := (if reader_state r \<noteq> postTxApplyState then Rewind (tx_reader r) else tx_reader r), reader_state := next_state (reader_state r)\<rparr>"
        have t: "tx_Read (tx_reader r) = (tx_reader r, Inl EOF)" using n eof by (simp add: tx_Read_def)
        then have eq: "change_Read marshal r = change_Read marshal ?r"
          using False up by (simp add: change_Read.simps [of marshal r])
        have "gather (unread marshal ?r n us) = Some rest" using rest unfolding unread_stage [OF up eof n] .
        then have "reader_contents marshal ?r cs" using p n us by (auto simp: reader_contents_def Rewind_eq simp del: unread_pending)
        then show ?thesis unfolding eq by (rule "1.IH"(1) [OF False up t [symmetric] refl refl])
      qed
    qed
  qed
qed

interpretation ledger_changes: change_reader "\<lambda>r. Some (change_Read marshal r)" "reader_contents marshal" for marshal
  by unfold_locales (auto dest: change_Read_contents)

end
