(* ===== verification/Ingest_Ledger.thy ===== *)
theory Ingest_Ledger
  imports Change_Reader
begin

text \<open>
  Ingestion of one ledger: the metadata of the ledger is read by the readers of \<open>Change_Reader\<close> and squashed
  by the compactor of \<open>Change_Compactor\<close>. The theorems compose the components: sorting the changes of a group
  does not change what they do, the reader returns every change of the metadata once and in
  order, and storing what the compacting reader returns brings a database from one ledger to the next.
\<close>

section \<open>Groups of changes\<close>

text \<open>
  A group of changes as the network produces it: a state precedes the update or removal of its entry, a
  restored entry may be updated or removed next, and every entry has a key.
\<close>

definition has_key :: "'r LedgerEntry \<Rightarrow> LedgerKey \<Rightarrow> bool" where
  "has_key e k \<longleftrightarrow> LedgerEntry_LedgerKey e = Inr k"

fun well_paired :: "'r LedgerEntryChange option \<Rightarrow> 'r LedgerEntryChange list \<Rightarrow> bool" where
  "well_paired prev [] \<longleftrightarrow> True"
| "well_paired prev (g # gs) \<longleftrightarrow> well_paired (Some g) gs \<and>
     (case g of
        ChangeCreated e \<Rightarrow> \<exists>k. has_key e k
      | ChangeRestored e \<Rightarrow> \<exists>k. has_key e k
      | ChangeUpdated e \<Rightarrow> (case previous_state prev of None \<Rightarrow> False | Some s \<Rightarrow> \<exists>k. has_key s k \<and> has_key e k)
      | ChangeRemoved k \<Rightarrow> (case previous_state prev of None \<Rightarrow> False | Some s \<Rightarrow> has_key s k)
      | ChangeState e \<Rightarrow> True
      | ChangeOther t \<Rightarrow> False)"

text \<open>The key by which a change is sorted is the key of the entry that it changes.\<close>

definition sort_keyed :: "('r, 'y) Change \<Rightarrow> bool" where
  "sort_keyed c \<longleftrightarrow> (\<exists>k. Change_LedgerKey c = Some k \<and> change_key c = Some k)"

lemma entry_changes_paired:
  "well_paired prev (gs :: 'r LedgerEntryChange list) \<Longrightarrow> \<exists>cs :: ('r, 'y) Change list. entry_changes prev gs = Some cs \<and> (\<forall>c \<in> set cs. sort_keyed c)"
proof (induction gs arbitrary: prev)
  case (Cons g gs)
  then obtain cs :: "('r, 'y) Change list" where cs: "entry_changes (Some g) gs = Some cs" "\<forall>c \<in> set cs. sort_keyed c" by fastforce
  then show ?case using Cons.prems
    by (cases g; cases "previous_state prev")
      (auto simp: sort_keyed_def Change_LedgerKey_def change_key_def change_entry_def has_key_def)
qed simp

lemma newSortableChanges_keyed:
  "\<forall>c \<in> set cs. sort_keyed c \<Longrightarrow> newSortableChanges marshal cs = Some (map (\<lambda>c. (marshal (the (change_key c)), c)) cs)"
  by (induction cs) (auto simp: sort_keyed_def)

lemma sort_key_pairs: "map snd (sort_key fst (map (\<lambda>c. (f c, c)) cs)) = sort_key f cs"
proof -
  have ins: "insort_key fst (f c, c) (map (\<lambda>c. (f c, c)) xs) = map (\<lambda>c. (f c, c)) (insort_key f c xs)" for c xs
    by (induction xs) auto
  have "sort_key fst (map (\<lambda>c. (f c, c)) cs) = map (\<lambda>c. (f c, c)) (sort_key f cs)"
    by (induction cs) (simp_all add: ins)
  then show ?thesis by (simp add: comp_def)
qed

text \<open>The changes of a group in the order of the metadata.\<close>

definition raw_changes :: "'r LedgerEntryChange list \<Rightarrow> ('r, 'y) Change list" where
  "raw_changes g = (case entry_changes None g of None \<Rightarrow> [] | Some cs \<Rightarrow> cs)"

definition sorted_changes :: "(LedgerKey \<Rightarrow> bytes) \<Rightarrow> 'r LedgerEntryChange list \<Rightarrow> ('r, 'y) Change list" where
  "sorted_changes marshal g = sort_key (\<lambda>c. marshal (the (change_key c))) (raw_changes g)"

lemma GetChanges_paired:
  fixes g :: "'r LedgerEntryChange list"
  assumes "well_paired None g"
  shows "GetChangesFromLedgerEntryChanges marshal g = Inr (sorted_changes marshal g :: ('r, 'y) Change list)"
    "(c :: ('r, 'y) Change) \<in> set (raw_changes g) \<Longrightarrow> sort_keyed c"
proof -
  obtain cs :: "('r, 'y) Change list" where "entry_changes None g = Some cs" "\<forall>c \<in> set cs. sort_keyed c"
    using entry_changes_paired [OF assms] by blast
  then show "GetChangesFromLedgerEntryChanges marshal g = Inr (sorted_changes marshal g :: ('r, 'y) Change list)"
    "(c :: ('r, 'y) Change) \<in> set (raw_changes g) \<Longrightarrow> sort_keyed c"
  by (simp_all add: GetChangesFromLedgerEntryChanges_def sortChanges_def newSortableChanges_keyed sort_key_pairs sorted_changes_def raw_changes_def)
qed

section \<open>Order within a group\<close>

text \<open>Changes to different keys commute.\<close>

lemma change_ok_apply: "k \<noteq> k' \<Longrightarrow> change_ok (apply_change l ch' k') ch k = change_ok l ch k"
  by (simp add: change_ok_def apply_change_def split: LedgerEntryChangeType.splits)

lemma apply_change_swap: "k \<noteq> k' \<Longrightarrow> apply_change (apply_change l ch' k') ch k = apply_change (apply_change l ch k) ch' k'"
  by (auto simp: apply_change_def fun_upd_twist)

lemma ledger_run_swap:
  assumes "ledger_run l (a # b # cs) l'" "change_key a \<noteq> change_key b"
  shows "ledger_run l (b # a # cs) l'"
proof -
  obtain k where k: "change_ok l a k" "ledger_run (apply_change l a k) (b # cs) l'" using assms(1) by (rule ledger_run_ConsE)
  obtain j where j: "change_ok (apply_change l a k) b j" "ledger_run (apply_change (apply_change l a k) b j) cs l'"
    using k(2) by (rule ledger_run_ConsE)
  have "j \<noteq> k" using assms(2) k(1) j(1) by (auto simp: change_ok_def)
  then have "change_ok l b j" "change_ok (apply_change l b j) a k" "ledger_run (apply_change (apply_change l b j) a k) cs l'"
    using k(1) j by (simp_all add: change_ok_apply apply_change_swap [of j k l a b])
  then show ?thesis by (blast intro: run_change)
qed

lemma ledger_run_insort:
  "ledger_run l (c # cs) l' \<Longrightarrow> (\<And>d. d \<in> set cs \<Longrightarrow> change_key d = change_key c \<Longrightarrow> f d = f c) \<Longrightarrow> ledger_run l (insort_key f c cs) l'"
proof (induction cs arbitrary: l)
  case (Cons d cs)
  show ?case
  proof (cases "f c \<le> f d")
    case False
    then have "change_key c \<noteq> change_key d" using Cons.prems(2) [of d] by auto
    then have "ledger_run l (d # c # cs) l'" using Cons.prems(1) by (rule ledger_run_swap [rotated])
    then obtain j where "change_ok l d j" "ledger_run (apply_change l d j) (c # cs) l'" by (rule ledger_run_ConsE)
    then show ?thesis using Cons.IH Cons.prems(2) False by (auto intro: run_change)
  qed (use Cons.prems in simp)
qed simp

lemma ledger_run_sort:
  assumes "ledger_run l cs l'" "\<And>c d. change_key c = change_key d \<Longrightarrow> f c = f d"
  shows "ledger_run l (sort_key f cs) l'"
  using assms(1)
proof (induction cs arbitrary: l)
  case (Cons c cs)
  obtain k where "change_ok l c k" "ledger_run (apply_change l c k) cs l'" using Cons.prems by (rule ledger_run_ConsE)
  then have "ledger_run l (c # sort_key f cs) l'" using Cons.IH by (blast intro: run_change)
  then have "ledger_run l (insort_key f c (sort_key f cs)) l'" by (rule ledger_run_insort) (rule assms(2))
  then show ?case by simp
qed simp

inductive_simps ledger_run_Nil: "ledger_run l [] l'"
inductive_simps ledger_run_Cons: "ledger_run l (c # cs) l'"

lemma ledger_run_append: "ledger_run l (xs @ ys) l' \<longleftrightarrow> (\<exists>m. ledger_run l xs m \<and> ledger_run m ys l')"
  by (induction xs arbitrary: l) (auto simp: ledger_run_Nil ledger_run_Cons)

text \<open>What a change does depends on its four main fields only.\<close>

definition same_effect :: "('r, 'y) Change \<Rightarrow> ('r, 'z) Change \<Rightarrow> bool" where
  "same_effect c d \<longleftrightarrow> change_Type c = change_Type d \<and> ChangeType c = ChangeType d \<and> change_Pre c = change_Pre d \<and> change_Post c = change_Post d"

lemma same_effect_simps:
  assumes "same_effect c d"
  shows "change_key c = change_key d" "change_ok l c k = change_ok l d k" "apply_change l c k = apply_change l d k" "ChangeType c = ChangeType d"
proof -
  have e: "change_Type c = change_Type d" "ChangeType c = ChangeType d" "change_Pre c = change_Pre d" "change_Post c = change_Post d"
    using assms by (simp_all add: same_effect_def)
  show "change_key c = change_key d" "change_ok l c k = change_ok l d k" "apply_change l c k = apply_change l d k" "ChangeType c = ChangeType d"
    unfolding change_ok_def apply_change_def change_key_def change_entry_def e by (rule refl)+
qed

lemma ledger_run_same: "list_all2 same_effect cs ds \<Longrightarrow> ledger_run l ds l' \<Longrightarrow> ledger_run l cs l'"
proof (induction cs ds arbitrary: l rule: list_all2_induct)
  case (Cons c cs d ds)
  obtain k where "change_ok l d k" "ledger_run (apply_change l d k) ds l'" using Cons.prems by (rule ledger_run_ConsE)
  then show ?case using Cons.IH same_effect_simps [OF Cons.hyps(1)] by (auto intro: run_change)
qed (simp add: ledger_run_Nil)

section \<open>The groups of a ledger\<close>

text \<open>
  The groups of changes in the metadata of a transaction: \<open>stop\<close> says that the operations are ignored
  (an internal error before protocol 13).
\<close>

definition meta_groups :: "bool \<Rightarrow> ('r, 'x) TransactionMeta \<Rightarrow> 'r LedgerEntryChange list list option" where
  "meta_groups stop m =
     (case m of
        MetaV1 txc ops \<Rightarrow> Some (txc # (if stop then [] else ops))
      | MetaV2 v \<Rightarrow> Some (m2_TxChangesBefore v # (if stop then [] else m2_Operations v @ [m2_TxChangesAfter v]))
      | MetaV3 v \<Rightarrow> Some (m3_TxChangesBefore v # (if stop then [] else m3_Operations v @ [m3_TxChangesAfter v]))
      | MetaV4 v \<Rightarrow> Some (m4_TxChangesBefore v # (if stop then [] else map op_Changes (m4_Operations v) @ [m4_TxChangesAfter v]))
      | _ \<Rightarrow> None)"

definition tx_groups :: "('r, 'x) LedgerCloseMeta \<Rightarrow> ledgerChangeReaderState \<Rightarrow> nat \<Rightarrow> 'r LedgerEntryChange list list option" where
  "tx_groups l st i =
     (case st of
        feeChangesState \<Rightarrow> map_option (\<lambda>g. [g]) (FeeProcessing l i)
      | metaChangesState \<Rightarrow>
          (case (TxApplyProcessing l i, lcm_TransactionResultPair l i, ProtocolVersion l) of
             (Some m, Some r, Some v) \<Rightarrow> meta_groups (result_Result (pair_Result r) = TxInternalError \<and> v \<le> 12) m
           | _ \<Rightarrow> None)
      | postTxApplyState \<Rightarrow> map_option (\<lambda>g. [g]) (post_apply_fees l i)
      | upgradeChangesState \<Rightarrow> None)"

text \<open>All groups of a ledger: the fees of all transactions, their metadata, the fee refunds, the upgrades.\<close>

definition ledger_groups :: "('r, 'x) LedgerCloseMeta \<Rightarrow> 'r LedgerEntryChange list list option" where
  "ledger_groups l =
     (case (CountTransactions l, UpgradesProcessing l) of
        (Some n, Some us) \<Rightarrow>
          gather (map (tx_groups l feeChangesState) [0..<n] @ map (tx_groups l metaChangesState) [0..<n] @
            map (tx_groups l postTxApplyState) [0..<n] @ map (\<lambda>u. Some [upgrade_Changes u]) us)
      | _ \<Rightarrow> None)"

text \<open>Changes that do what the sorted changes of the groups do.\<close>

definition match :: "(LedgerKey \<Rightarrow> bytes) \<Rightarrow> ('r, 'x) tx_change list \<Rightarrow> 'r LedgerEntryChange list list \<Rightarrow> bool" where
  "match marshal cs gs \<longleftrightarrow> list_all2 same_effect cs (concat (map (sorted_changes marshal) gs) :: ('r, 'x) tx_change list)"

lemma match_Nil [simp]: "match marshal [] []"
  by (simp add: match_def)

lemma match_append: "match marshal cs gs \<Longrightarrow> match marshal ds hs \<Longrightarrow> match marshal (cs @ ds) (gs @ hs)"
  by (simp add: match_def list_all2_appendI)

lemma match_group:
  fixes f :: "('r, 'x) tx_change \<Rightarrow> ('r, 'x) tx_change"
  assumes "\<And>c. same_effect (f c) c"
  shows "match marshal (map f (sorted_changes marshal g)) [g]"
  using assms by (simp add: match_def list_all2_map1 list_all2_same)

lemma tag_same_effect [simp]:
  "same_effect (tag_tx t reason c) c" "same_effect ((tag_tx t reason c)\<lparr>OperationIndex := i\<rparr>) c"
  "same_effect (c\<lparr>change_Reason := a, change_Ledger := b, LedgerUpgrade := u\<rparr>) c"
  by (simp_all add: same_effect_def tag_tx_def)

lemma getTransactionChanges_match:
  "well_paired None g \<Longrightarrow> \<exists>cs. getTransactionChanges marshal t g = Inr cs \<and> match marshal cs [g]"
  by (auto simp: getTransactionChanges_def GetChanges_paired intro!: match_group)

lemma all_operations_match:
  "(\<And>i. i \<in> set is \<Longrightarrow> i < length ops \<and> well_paired None (ops ! i)) \<Longrightarrow>
   \<exists>cs. all_operations marshal t ops is = Inr cs \<and> match marshal cs (map (\<lambda>i. ops ! i) is)"
proof (induction "is")
  case (Cons i "is")
  then obtain cs where "all_operations marshal t ops is = Inr cs" "match marshal cs (map (\<lambda>i. ops ! i) is)" by auto
  moreover have "\<exists>ds. operationChanges marshal t ops i = Inr ds \<and> match marshal ds [ops ! i]"
    using Cons.prems [of i] by (auto simp: operationChanges_def GetChanges_paired intro!: match_group)
  ultimately show ?case using match_append [of marshal _ "[ops ! i]"] by fastforce
qed simp

lemma operations_match:
  assumes "\<And>g. g \<in> set ops \<Longrightarrow> well_paired None g"
  shows "\<exists>cs. all_operations marshal t ops [0..<length ops] = Inr cs \<and> match marshal cs ops"
  using all_operations_match [of "[0..<length ops]" ops marshal t] assms by (simp add: map_nth)

lemma meta_changes_match:
  assumes "\<And>g. g \<in> set (before # (if stop then [] else ops @ [after])) \<Longrightarrow> well_paired None g"
    and "stop = (txInternalError t \<and> lt_LedgerVersion t \<le> 12)"
  shows "\<exists>cs. meta_changes marshal t before ops after = Inr cs \<and> match marshal cs (before # (if stop then [] else ops @ [after]))"
proof -
  obtain bs where bs: "getTransactionChanges marshal t before = Inr bs" "match marshal bs [before]"
    using getTransactionChanges_match [of before marshal t] assms(1) [of before] by auto
  show ?thesis
  proof (cases stop)
    case False
    obtain os where os: "all_operations marshal t ops [0..<length ops] = Inr os" "match marshal os ops"
      using operations_match [of ops marshal t] assms(1) False by auto
    obtain as where as: "getTransactionChanges marshal t after = Inr as" "match marshal as [after]"
      using getTransactionChanges_match [of after marshal t] assms(1) [of after] False by auto
    show ?thesis using bs(1) os(1) as(1) False assms(2) match_append [OF bs(2) match_append [OF os(2) as(2)]]
      by (auto simp: meta_changes_def)
  qed (use bs assms(2) in \<open>simp add: meta_changes_def\<close>)
qed

lemma tx_GetChanges_match:
  assumes "meta_groups (txInternalError t \<and> lt_LedgerVersion t \<le> 12) (lt_UnsafeMeta t) = Some gs" "\<And>g. g \<in> set gs \<Longrightarrow> well_paired None g"
  shows "\<exists>cs. tx_GetChanges marshal t = Inr cs \<and> match marshal cs gs"
proof (cases "lt_UnsafeMeta t")
  case (MetaV1 txc ops)
  obtain bs where bs: "getTransactionChanges marshal t txc = Inr bs" "match marshal bs [txc]"
    using getTransactionChanges_match [of txc marshal t] assms MetaV1 by (auto simp: meta_groups_def)
  show ?thesis
  proof (cases "txInternalError t \<and> lt_LedgerVersion t \<le> 12")
    case False
    then obtain os where "all_operations marshal t ops [0..<length ops] = Inr os" "match marshal os ops"
      using operations_match [of ops marshal t] assms MetaV1 by (auto simp: meta_groups_def)
    then show ?thesis using bs False assms(1) MetaV1 match_append [OF bs(2), of os ops]
      by (auto simp: tx_GetChanges_def meta_groups_def)
  qed (use bs assms(1) MetaV1 in \<open>auto simp: tx_GetChanges_def meta_groups_def\<close>)
qed (use assms in \<open>auto simp: tx_GetChanges_def meta_groups_def intro!: meta_changes_match\<close>)

section \<open>What the readers return\<close>

lemma storeTransactions_spec:
  "storeTransactions hashEnv i txs reader = Inr reader' \<Longrightarrow>
   reader_lcm reader' = reader_lcm reader \<and> readIdx reader' = readIdx reader \<and>
   (\<forall>h. (\<exists>tx \<in> set txs. hashEnv tx = Inr h) \<longrightarrow> envelopesByHash reader' h \<noteq> None) \<and>
   (\<forall>h. envelopesByHash reader h \<noteq> None \<longrightarrow> envelopesByHash reader' h \<noteq> None) \<and>
   (\<forall>h tx. envelopesByHash reader' h = Some tx \<longrightarrow> envelopesByHash reader h = Some tx \<or> tx \<in> set txs \<and> hashEnv tx = Inr h)"
proof (induction hashEnv i txs reader arbitrary: reader' rule: storeTransactions.induct)
  case (2 hashEnv i tx txs reader)
  obtain h where h: "hashEnv tx = Inr h" using "2.prems" by (cases "hashEnv tx") auto
  have ok: "bad_meta (reader_lcm reader) i = Some False"
    using "2.prems" h by (cases "bad_meta (reader_lcm reader) i") (auto split: bool.splits)
  let ?reader = "reader\<lparr>envelopesByHash := (envelopesByHash reader)(h \<mapsto> tx)\<rparr>"
  have st: "storeTransactions hashEnv (Suc i) txs ?reader = Inr reader'" using "2.prems" h ok by simp
  have env: "envelopesByHash ?reader = (envelopesByHash reader)(h \<mapsto> tx)" "reader_lcm ?reader = reader_lcm reader" "readIdx ?reader = readIdx reader"
    by simp_all
  note IH = "2.IH" [OF h ok _ st, unfolded env]
  show ?case
  proof (intro conjI allI impI, goal_cases)
    case (3 h')
    then show ?case using IH h by (cases "h' = h") auto
  next
    case (4 h')
    then show ?case using IH by (cases "h' = h") auto
  next
    case (5 h' tx')
    then have "((envelopesByHash reader)(h \<mapsto> tx)) h' = Some tx' \<or> tx' \<in> set txs \<and> hashEnv tx' = Inr h'" using IH by blast
    then show ?case using h by (cases "h' = h") auto
  qed (use IH in auto)
qed auto

lemma new_tx_reader:
  assumes "NewLedgerTransactionReaderFromLedgerCloseMeta sha256 mtx pass l = Inr tr"
  shows "reader_lcm tr = l" "readIdx tr = 0"
    and "TransactionEnvelopes l = Some txs \<Longrightarrow> tx \<in> set txs \<Longrightarrow> HashTransactionInEnvelope sha256 mtx tx pass = Inr h \<Longrightarrow> envelopesByHash tr h \<noteq> None"
    and "envelopesByHash tr h = Some e \<Longrightarrow> HashTransactionInEnvelope sha256 mtx e pass = Inr h"
    and "CountTransactions l \<noteq> None"
  using assms by (auto simp: NewLedgerTransactionReaderFromLedgerCloseMeta_def split: option.splits prod.splits dest!: storeTransactions_spec)

text \<open>Every transaction that the metadata lists is in the transaction set.\<close>

definition all_known :: "(bytes \<Rightarrow> bytes) \<Rightarrow> ('x TransactionSignaturePayload \<Rightarrow> bytes option) \<Rightarrow> string \<Rightarrow> ('r, 'x) LedgerCloseMeta \<Rightarrow> bool" where
  "all_known sha256 mtx pass l \<longleftrightarrow>
     (\<forall>i h. lcm_TransactionHash l i = Some h \<longrightarrow>
        (\<exists>tx \<in> set (the (TransactionEnvelopes l)). HashTransactionInEnvelope sha256 mtx tx pass = Inr h))"

lemma read_at_known:
  assumes tr: "NewLedgerTransactionReaderFromLedgerCloseMeta sha256 mtx pass l = Inr tr" and "all_known sha256 mtx pass l"
    and n: "CountTransactions l = Some n" "i < n"
  shows "\<exists>tx. read_at tr i = Inr tx \<and> lt_Index tx = word_of_nat (i + 1) \<and> lcm_TransactionHash l i = Some (lt_Hash tx) \<and>
    HashTransactionInEnvelope sha256 mtx (lt_Envelope tx) pass = Inr (lt_Hash tx) \<and>
    lcm_TransactionResultPair l i = Some (lt_Result tx) \<and> FeeProcessing l i = Some (lt_FeeChanges tx) \<and>
    TxApplyProcessing l i = Some (lt_UnsafeMeta tx) \<and> post_apply_fees l i = Some (lt_PostTxApplyFeeChanges tx) \<and>
    ProtocolVersion l = Some (lt_LedgerVersion tx) \<and> lt_Ledger tx = l"
proof -
  obtain h res fees meta where a: "lcm_TransactionHash l i = Some h" "lcm_TransactionResultPair l i = Some res"
      "FeeProcessing l i = Some fees" "TxApplyProcessing l i = Some meta"
    using accessors_defined [OF n(1), of i] n(2) by auto
  obtain v where v: "ProtocolVersion l = Some v" using n(1) by (cases l) (auto simp: ProtocolVersion_def)
  obtain post where p: "post_apply_fees l i = Some post" using n by (cases l) auto
  have "TransactionEnvelopes l \<noteq> None"
    using tr by (auto simp: NewLedgerTransactionReaderFromLedgerCloseMeta_def split: option.splits prod.splits)
  then obtain e where e: "envelopesByHash tr h = Some e" "HashTransactionInEnvelope sha256 mtx e pass = Inr h"
    using assms(2) a(1) new_tx_reader(3,4) [OF tr] unfolding all_known_def by (metis not_None_eq option.sel)
  show ?thesis using a v p e by (simp add: read_at_def new_tx_reader(1) [OF tr])
qed

lemma stage_at_match:
  assumes "NewLedgerTransactionReaderFromLedgerCloseMeta sha256 mtx pass l = Inr tr" "all_known sha256 mtx pass l"
    and "CountTransactions l = Some n" "i < n" "tx_groups l st i = Some gs" "\<And>g. g \<in> set gs \<Longrightarrow> well_paired None g"
  shows "\<exists>cs. stage_at marshal tr st i = Some cs \<and> match marshal cs gs"
proof -
  obtain tx where tx: "read_at tr i = Inr tx" "lcm_TransactionResultPair l i = Some (lt_Result tx)"
      "FeeProcessing l i = Some (lt_FeeChanges tx)" "TxApplyProcessing l i = Some (lt_UnsafeMeta tx)"
      "post_apply_fees l i = Some (lt_PostTxApplyFeeChanges tx)" "ProtocolVersion l = Some (lt_LedgerVersion tx)"
    using read_at_known [OF assms(1-4)] by blast
  have "\<exists>cs. stage_changes marshal st tx = Inr cs \<and> match marshal cs gs"
  proof (cases st)
    case metaChangesState
    then show ?thesis using assms(5) tx tx_GetChanges_match [of tx gs marshal] assms(6)
      by (auto simp: stage_changes_def tx_groups_def txInternalError_def)
  qed (use assms(5,6) tx in \<open>auto simp: stage_changes_def tx_groups_def GetFeeChanges_def GetPostApplyFeeChanges_def GetChanges_paired
      intro!: match_group\<close>)
  then show ?thesis using tx(1) by (auto simp: stage_at_Some)
qed

lemma upgrade_at_match: "well_paired None (upgrade_Changes u) \<Longrightarrow> \<exists>cs. upgrade_at marshal l u = Some cs \<and> match marshal cs [upgrade_Changes u]"
  by (auto simp: upgrade_at_Some upgrade_changes_def GetChanges_paired intro!: match_group)

lemma gather_match:
  assumes "list_all2 (\<lambda>x y. \<forall>gs. y = Some gs \<longrightarrow> (\<forall>g \<in> set gs. well_paired None g) \<longrightarrow> (\<exists>cs. x = Some cs \<and> match marshal cs gs)) xs ys"
    and "gather ys = Some gs" "\<And>g. g \<in> set gs \<Longrightarrow> well_paired None g"
  shows "\<exists>cs. gather xs = Some cs \<and> match marshal cs gs"
  using assms
proof (induction xs ys arbitrary: gs rule: list_all2_induct)
  case (Cons x xs y ys)
  obtain g1 g2 where g: "y = Some g1" "gather ys = Some g2" "gs = g1 @ g2" using Cons.prems(1) by (auto split: option.splits)
  obtain c1 where "x = Some c1" "match marshal c1 g1" using Cons.hyps(1) g(1,3) Cons.prems(2) by auto
  moreover obtain c2 where "gather xs = Some c2" "match marshal c2 g2" using Cons.IH [OF g(2)] g(3) Cons.prems(2) by auto
  ultimately show ?case using g(3) match_append by fastforce
qed simp

lemma new_change_reader_contents:
  assumes "NewLedgerChangeReaderFromLedgerCloseMeta sha256 mtx pass l = Inr r" "all_known sha256 mtx pass l"
    and "ledger_groups l = Some gs" "\<And>g. g \<in> set gs \<Longrightarrow> well_paired None g"
  shows "\<exists>cs. reader_contents marshal r cs \<and> match marshal cs gs"
proof -
  obtain tr where tr: "NewLedgerTransactionReaderFromLedgerCloseMeta sha256 mtx pass l = Inr tr"
    and r: "r = \<lparr>tx_reader = tr, reader_state = feeChangesState, pending = [], pendingIndex = 0, upgradeIndex = 0\<rparr>"
    using assms(1) by (auto simp: NewLedgerChangeReaderFromLedgerCloseMeta_def bind_result_eq_Inr)
  obtain n us where n: "CountTransactions l = Some n" "UpgradesProcessing l = Some us"
    using assms(3) by (auto simp: ledger_groups_def split: option.splits)
  let ?stage = "\<lambda>st. list_all2 (\<lambda>x y. \<forall>gs. y = Some gs \<longrightarrow> (\<forall>g \<in> set gs. well_paired None g) \<longrightarrow> (\<exists>cs. x = Some cs \<and> match marshal cs gs))
      (map (stage_at marshal tr st) [0..<n]) (map (tx_groups l st) [0..<n])"
  have stages: "?stage st" for st
    using stage_at_match [OF tr assms(2) n(1)] by (simp add: list_all2_map1 list_all2_map2 list_all2_same)
  have ups: "list_all2 (\<lambda>x y. \<forall>gs. y = Some gs \<longrightarrow> (\<forall>g \<in> set gs. well_paired None g) \<longrightarrow> (\<exists>cs. x = Some cs \<and> match marshal cs gs))
      (map (upgrade_at marshal l) us) (map (\<lambda>u. Some [upgrade_Changes u]) us)"
    by (simp add: list_all2_map1 list_all2_map2 list_all2_same upgrade_at_match)
  have g: "gather (map (tx_groups l feeChangesState) [0..<n] @ map (tx_groups l metaChangesState) [0..<n] @
      map (tx_groups l postTxApplyState) [0..<n] @ map (\<lambda>u. Some [upgrade_Changes u]) us) = Some gs"
    using assms(3) n by (simp add: ledger_groups_def)
  obtain cs where "gather (map (stage_at marshal tr feeChangesState) [0..<n] @ map (stage_at marshal tr metaChangesState) [0..<n] @
      map (stage_at marshal tr postTxApplyState) [0..<n] @ map (upgrade_at marshal l) us) = Some cs" "match marshal cs gs"
    using gather_match [OF list_all2_appendI [OF stages list_all2_appendI [OF stages list_all2_appendI [OF stages ups]]] g] assms(4) by blast
  then show ?thesis using r n by (auto simp: reader_contents_def unread_def first_index_def new_tx_reader(1,2) [OF tr])
qed

text \<open>A sequence of reads that returns the given changes and then reports the end.\<close>

fun reads :: "('s \<Rightarrow> ('s \<times> (read_error, 'c) result) option) \<Rightarrow> 's \<Rightarrow> 'c list \<Rightarrow> bool" where
  "reads read s [] \<longleftrightarrow> (\<exists>s'. read s = Some (s', Inl EOF))"
| "reads read s (c # cs) \<longleftrightarrow> (\<exists>s'. read s = Some (s', Inr c) \<and> reads read s' cs)"

context change_reader
begin

lemma reads_contents: "contents s cs \<Longrightarrow> reads read s cs"
proof (induction cs arbitrary: s)
  case Nil
  then show ?case using read_end by fastforce
next
  case (Cons c cs)
  then show ?case using read_next by fastforce
qed

end

text \<open>The run of a ledger over its groups, in any order of the changes within a group that keeps the order per key.\<close>

lemma ledger_run_groups:
  "ledger_run l (concat (map raw_changes gs) :: ('r, 'y) Change list) l' \<Longrightarrow>
   ledger_run l (concat (map (sorted_changes marshal) gs) :: ('r, 'y) Change list) l'"
proof (induction gs arbitrary: l)
  case (Cons g gs)
  then obtain m where "ledger_run l (raw_changes g :: ('r, 'y) Change list) m" "ledger_run m (concat (map raw_changes gs) :: ('r, 'y) Change list) l'"
    by (auto simp: ledger_run_append)
  then have "ledger_run l (sorted_changes marshal g :: ('r, 'y) Change list) m" unfolding sorted_changes_def
    by (intro ledger_run_sort) simp_all
  then show ?case using Cons.IH \<open>ledger_run m _ l'\<close> by (auto simp: ledger_run_append)
qed simp

lemma match_members:
  fixes cs :: "('r, 'x) tx_change list"
  assumes "match marshal cs gs" "c \<in> set cs"
  shows "\<exists>d \<in> set (concat (map raw_changes gs) :: ('r, 'x) tx_change list). change_key c = change_key d \<and> ChangeType c = ChangeType d"
proof -
  obtain i where i: "i < length cs" "c = cs ! i" using assms(2) by (auto simp: in_set_conv_nth)
  let ?ds = "concat (map (sorted_changes marshal) gs) :: ('r, 'x) tx_change list"
  have "length ?ds = length cs" "same_effect c (?ds ! i)"
    using assms(1) i by (auto simp: match_def list_all2_conv_all_nth)
  then have "same_effect c (?ds ! i)" "?ds ! i \<in> set ?ds" using i(1) nth_mem [of i ?ds] by simp_all
  moreover have "set ?ds = set (concat (map raw_changes gs) :: ('r, 'x) tx_change list)" by (simp add: sorted_changes_def)
  ultimately show ?thesis using same_effect_simps(1,4) by blast
qed

section \<open>Properties\<close>

lemma ingest_reads:
  fixes l :: "('r, 'x) LedgerCloseMeta"
  assumes "NewLedgerChangeReaderFromLedgerCloseMeta sha256 marshalTx passphrase l = Inr r"
    and "all_known sha256 marshalTx passphrase l"
    and "ledger_groups l = Some gs" and "\<And>g. g \<in> set gs \<Longrightarrow> well_paired None g"
    and "keyed_db db" and "ledger_run (new_ledger db) (concat (map raw_changes gs) :: ('r, 'x) tx_change list) final"
    and "inj_on marshal K" and "\<And>c k. c \<in> set (concat (map raw_changes gs) :: ('r, 'x) tx_change list) \<Longrightarrow> change_key c = Some k \<Longrightarrow> k \<in> K"
    and "suppress \<Longrightarrow> \<forall>k \<in> restored_keys (concat (map raw_changes gs) :: ('r, 'x) tx_change list). db k = None"
  shows "\<exists>cs. reads (compacting_Read marshal (\<lambda>r. Some (change_Read marshal r))) (NewCompactingChangeReader r suppress) cs \<and>
    foldl store_change db cs = live final \<and> distinct (map change_key cs)"
proof -
  obtain ins where ins: "reader_contents marshal r ins" "match marshal ins gs"
    using new_change_reader_contents [OF assms(1-3)] assms(4) by blast
  have run: "ledger_run (new_ledger db) ins final"
    using ins(2) ledger_run_groups [OF assms(6)] unfolding match_def by (rule ledger_run_same)
  have "\<exists>k. AddChanges marshal (NewChangeCompactor suppress) ins = Inr k \<and> compactor_inv marshal K db (restored_keys ins) final k"
  proof (rule compaction_inv [OF assms(7,5) run])
    show "k \<in> K" if "ch \<in> set ins" "change_key ch = Some k" for ch k
      using match_members [OF ins(2) that(1)] that(2) assms(8) by metis
    show "\<forall>k \<in> restored_keys ins. db k = None" if suppress
    proof -
      have "restored_keys ins \<subseteq> restored_keys (concat (map raw_changes gs) :: ('r, 'x) tx_change list)"
        unfolding restored_keys_def using match_members [OF ins(2)] by fastforce
      then show ?thesis using assms(9) [OF that] by blast
    qed
  qed
  then obtain k where k: "AddChanges marshal (NewChangeCompactor suppress) ins = Inr k" "compactor_inv marshal K db (restored_keys ins) final k"
    by blast
  have "reads (compacting_Read marshal (\<lambda>r. Some (change_Read marshal r))) (NewCompactingChangeReader r suppress) (GetChanges k)"
    by (rule change_reader.reads_contents [OF ledger_changes.compacting_reader])
      (use ins(1) k(1) in \<open>auto simp: NewCompactingChangeReader_def\<close>)
  then show ?thesis using compacted_store [OF k(2) assms(7) refl] by blast
qed

text \<open>
  C5: Ingestion is exact. Take the metadata of a closed ledger whose groups of changes are formed as the
  network forms them and lead, taken in order (fees of all transactions, their metadata, fee refunds,
  upgrades), from the entries in the database to the entries of the next ledger. Then the change reader
  over this ledger, wrapped in the compacting reader, returns finitely many changes and then the end
  of the stream, without an error and although the changes of each group are sorted by key, and
  storing the changes that were read into the database gives exactly the entries of the next ledger.
\<close>
theorem ingest_ledger_exact:
  fixes l :: "('r, 'x) LedgerCloseMeta"
  assumes "NewLedgerChangeReaderFromLedgerCloseMeta sha256 marshalTx passphrase l = Inr r"
    and "all_known sha256 marshalTx passphrase l"
    and "ledger_groups l = Some gs" and "\<And>g. g \<in> set gs \<Longrightarrow> well_paired None g"
    and "keyed_db db" and "ledger_run (new_ledger db) (concat (map raw_changes gs) :: ('r, 'x) tx_change list) final"
    and "inj_on marshal K" and "\<And>c k. c \<in> set (concat (map raw_changes gs) :: ('r, 'x) tx_change list) \<Longrightarrow> change_key c = Some k \<Longrightarrow> k \<in> K"
    and "suppress \<Longrightarrow> \<forall>k \<in> restored_keys (concat (map raw_changes gs) :: ('r, 'x) tx_change list). db k = None"
  shows "\<exists>cs. reads (compacting_Read marshal (\<lambda>r. Some (change_Read marshal r))) (NewCompactingChangeReader r suppress) cs \<and>
    foldl store_change db cs = live final \<and> distinct (map change_key cs)"
  by (rule ingest_reads [OF assms])

text \<open>
  The example: a ledger with one transaction, which pays a fee from an account in the database, creates
  another account and gets a refund.
\<close>

definition witness_tx :: "unit TransactionEnvelope" where
  "witness_tx = EnvelopeV0 \<lparr>v0_Tx = witness_v0, v0_Signatures = []\<rparr>"

definition witness_lcm :: "(nat, unit) LedgerCloseMeta" where
  "witness_lcm = LcmV2
     \<lparr>l2_LedgerHeader = \<lparr>header_Hash = [9], Header = chain_header 23 60 [8] [] []\<rparr>,
      l2_Phases = [PhaseV0 [[witness_tx]]],
      l2_TxProcessing = [\<lparr>rm1_Result = \<lparr>TransactionHash = [1, 2], pair_Result = \<lparr>FeeCharged = 100, result_Result = TxSuccess [()]\<rparr>\<rparr>,
        rm1_FeeProcessing = [ChangeState (witness_entry 2 4), ChangeUpdated (witness_entry 2 3)],
        rm1_TxApplyProcessing = MetaV2 \<lparr>m2_TxChangesBefore = [], m2_Operations = [[ChangeCreated (witness_entry 1 5)]], m2_TxChangesAfter = []\<rparr>,
        rm1_PostTxApplyFeeProcessing = [ChangeState (witness_entry 2 3), ChangeUpdated (witness_entry 2 9)]\<rparr>],
      l2_UpgradesProcessing = [], l2_EvictedKeys = []\<rparr>"

definition witness_groups :: "nat LedgerEntryChange list list" where
  "witness_groups =
     [[ChangeState (witness_entry 2 4), ChangeUpdated (witness_entry 2 3)], [], [ChangeCreated (witness_entry 1 5)], [],
      [ChangeState (witness_entry 2 3), ChangeUpdated (witness_entry 2 9)]]"

definition witness_reader :: "(nat, unit) LedgerTransactionReader" where
  "witness_reader = \<lparr>reader_lcm = witness_lcm, envelopesByHash = [[1, 2] \<mapsto> witness_tx], readIdx = 0\<rparr>"

lemma witness_tx_hash: "HashTransactionInEnvelope (\<lambda>x. x) witness_payload witness_tx ''net'' = Inr [1, 2]"
  by (simp add: witness_tx_def HashTransactionInEnvelope_content hashTx_Inr validatePassphrase_def witness_payload_def)

lemma witness_tx_reader: "NewLedgerTransactionReaderFromLedgerCloseMeta (\<lambda>x. x) witness_payload ''net'' witness_lcm = Inr witness_reader"
  by (simp add: NewLedgerTransactionReaderFromLedgerCloseMeta_def witness_lcm_def witness_reader_def witness_tx_hash bad_meta_def ProtocolVersion_def chain_header_def)

lemma witness_known: "all_known (\<lambda>x. x) witness_payload ''net'' witness_lcm"
  by (auto simp: all_known_def witness_lcm_def lcm_TransactionHash_def witness_tx_hash)

lemma witness_lcm_groups: "ledger_groups witness_lcm = Some witness_groups"
  by (simp add: ledger_groups_def witness_lcm_def witness_groups_def tx_groups_def meta_groups_def ProtocolVersion_def chain_header_def slice_at_def)

lemma witness_groups_paired: "g \<in> set witness_groups \<Longrightarrow> well_paired None g"
  by (auto simp: witness_groups_def previous_state_def has_key_def [abs_def] witness_entry_key)

definition witness_raw :: "(nat, 'y) Change list" where
  "witness_raw =
     [new_change 0 (Some (witness_entry 2 4)) (Some (witness_entry 2 3)) LedgerEntryUpdated,
      new_change 0 None (Some (witness_entry 1 5)) LedgerEntryCreated,
      new_change 0 (Some (witness_entry 2 3)) (Some (witness_entry 2 9)) LedgerEntryUpdated]"

lemma witness_raw_changes: "concat (map raw_changes witness_groups) = witness_raw"
  by (simp add: witness_groups_def raw_changes_def previous_state_def witness_raw_def entry_type_def witness_entry_def)

lemma witness_raw_run:
  "\<exists>l. ledger_run (new_ledger witness_db) witness_raw l \<and>
     live l = [LedgerKeyAccount (replicate 32 1) \<mapsto> witness_entry 1 5, LedgerKeyAccount (replicate 32 2) \<mapsto> witness_entry 2 9]"
proof -
  let ?k1 = "LedgerKeyAccount (replicate 32 1)" and ?k2 = "LedgerKeyAccount (replicate 32 2)"
  have neq: "replicate 32 1 \<noteq> (replicate 32 2 :: bytes)" by (simp add: numeral_eq_Suc)
  have key: "change_key (new_change 0 pre (Some (witness_entry b n)) ct) = Some (LedgerKeyAccount (replicate 32 b))"
    if "ct \<noteq> LedgerEntryRemoved" for pre b n ct
    using that by (simp add: change_key_entry change_entry_def witness_entry_key)
  have ttl: "\<not> is_ttl (Some (witness_entry b n))" for b n by (simp add: is_ttl_def witness_entry_def)
  have later: "later_entry (Some (witness_entry b n)) (Some (witness_entry b m)) = Some (witness_entry b m)" for b n m
    by (simp add: later_entry_def witness_entry_def)
  define ls where "ls m t = (\<lparr>live = m, touched = t\<rparr> :: nat ledger)" for m t
  have l: "live (ls m t) = m" "touched (ls m t) = t" for m t by (simp_all add: ls_def)
  have 1: "change_ok (ls witness_db {}) (new_change 0 (Some (witness_entry 2 4)) (Some (witness_entry 2 3)) LedgerEntryUpdated) ?k2"
    by (simp add: change_ok_def key change_entry_def ttl l witness_db_def LedgerEntryTypeTtl_def)
  have 2: "change_ok (ls [?k2 \<mapsto> witness_entry 2 3] {?k2}) (new_change 0 None (Some (witness_entry 1 5)) LedgerEntryCreated) ?k1"
    using neq by (simp add: change_ok_def key change_entry_def ttl l LedgerEntryTypeTtl_def)
  have 3: "change_ok (ls [?k1 \<mapsto> witness_entry 1 5, ?k2 \<mapsto> witness_entry 2 3] {?k1, ?k2})
      (new_change 0 (Some (witness_entry 2 3)) (Some (witness_entry 2 9)) LedgerEntryUpdated) ?k2"
    using neq by (simp add: change_ok_def key change_entry_def ttl l LedgerEntryTypeTtl_def)
  have a1: "apply_change (ls witness_db {}) (new_change 0 (Some (witness_entry 2 4)) (Some (witness_entry 2 3)) LedgerEntryUpdated) ?k2 =
      ls [?k2 \<mapsto> witness_entry 2 3] {?k2}"
    by (simp add: apply_change_def ls_def witness_db_def)
  have a2: "apply_change (ls [?k2 \<mapsto> witness_entry 2 3] {?k2}) (new_change 0 None (Some (witness_entry 1 5)) LedgerEntryCreated) ?k1 =
      ls [?k1 \<mapsto> witness_entry 1 5, ?k2 \<mapsto> witness_entry 2 3] {?k1, ?k2}"
    using neq by (auto simp: apply_change_def ls_def fun_eq_iff)
  have a3: "live (apply_change (ls [?k1 \<mapsto> witness_entry 1 5, ?k2 \<mapsto> witness_entry 2 3] {?k1, ?k2})
      (new_change 0 (Some (witness_entry 2 3)) (Some (witness_entry 2 9)) LedgerEntryUpdated) ?k2) =
      [?k1 \<mapsto> witness_entry 1 5, ?k2 \<mapsto> witness_entry 2 9]"
    using neq by (auto simp: apply_change_def ls_def later fun_eq_iff)
  have "new_ledger witness_db = ls witness_db {}" by (simp add: new_ledger_def ls_def)
  then show ?thesis unfolding witness_raw_def
    using run_change [OF 1, unfolded a1, OF run_change [OF 2, unfolded a2, OF run_change [OF 3 run_none]]] a3 by auto
qed

theorem ingest_ledger_exact_witness:
  "\<exists>r cs. NewLedgerChangeReaderFromLedgerCloseMeta (\<lambda>x. x) witness_payload ''net'' witness_lcm = Inr r \<and>
    reads (compacting_Read witness_marshal (\<lambda>r. Some (change_Read witness_marshal r))) (NewCompactingChangeReader r False) cs \<and>
    foldl store_change witness_db cs =
      [LedgerKeyAccount (replicate 32 1) \<mapsto> witness_entry 1 5, LedgerKeyAccount (replicate 32 2) \<mapsto> witness_entry 2 9]"
proof -
  obtain l where l: "ledger_run (new_ledger witness_db) (concat (map raw_changes witness_groups) :: (nat, unit) tx_change list) l"
      "live l = [LedgerKeyAccount (replicate 32 1) \<mapsto> witness_entry 1 5, LedgerKeyAccount (replicate 32 2) \<mapsto> witness_entry 2 9]"
    unfolding witness_raw_changes using witness_raw_run by blast
  let ?r = "\<lparr>tx_reader = witness_reader, reader_state = feeChangesState, pending = [], pendingIndex = 0, upgradeIndex = 0\<rparr>"
  have r: "NewLedgerChangeReaderFromLedgerCloseMeta (\<lambda>x. x) witness_payload ''net'' witness_lcm = Inr ?r"
    by (simp add: NewLedgerChangeReaderFromLedgerCloseMeta_def witness_tx_reader)
  have db: "keyed_db witness_db" by (auto simp: keyed_db_def keyed_def witness_db_def witness_entry_key)
  have keys: "k \<in> range LedgerKeyAccount" if "c \<in> set (concat (map raw_changes witness_groups) :: (nat, unit) tx_change list)" "change_key c = Some k" for c k
    using that unfolding witness_raw_changes by (auto simp: witness_raw_def change_key_entry change_entry_def witness_entry_key)
  have "\<exists>cs. reads (compacting_Read witness_marshal (\<lambda>r. Some (change_Read witness_marshal r))) (NewCompactingChangeReader ?r False) cs \<and>
      foldl store_change witness_db cs = live l \<and> distinct (map change_key cs)"
    by (rule ingest_ledger_exact [OF r witness_known witness_lcm_groups _ db l(1) witness_marshal_inj])
      (use witness_groups_paired keys in auto)
  then show ?thesis using r l(2) by auto
qed

text \<open>
  C24: The transaction reader pairs every result of a ledger with its own envelope, although envelopes
  and results come in different orders: for a ledger whose transactions are all in the set, the
  reads return, one by one and numbered from one, the transactions in the order of processing, each with
  the envelope whose hash is the hash of the result, then the end; and rewinding starts over.
\<close>
theorem transaction_reader_pairs:
  assumes "NewLedgerTransactionReaderFromLedgerCloseMeta sha256 marshalTx passphrase l = Inr tr"
    and "all_known sha256 marshalTx passphrase l" and "CountTransactions l = Some n"
  shows "\<exists>txs. length txs = n \<and> reads (\<lambda>s. Some (tx_Read s)) tr txs \<and> reads (\<lambda>s. Some (tx_Read s)) (Rewind (tr\<lparr>readIdx := j\<rparr>)) txs \<and>
    (\<forall>i < n. lt_Index (txs ! i) = word_of_nat (i + 1) \<and> lcm_TransactionResultPair l i = Some (lt_Result (txs ! i)) \<and>
       HashTransactionInEnvelope sha256 marshalTx (lt_Envelope (txs ! i)) passphrase = Inr (TransactionHash (lt_Result (txs ! i))))"
proof -
  note tr = new_tx_reader(1,2) [OF assms(1)]
  define tx where "tx i = (case read_at tr i of Inr t \<Rightarrow> t)" for i
  have tx: "read_at tr i = Inr (tx i) \<and> lt_Index (tx i) = word_of_nat (i + 1) \<and> lcm_TransactionResultPair l i = Some (lt_Result (tx i)) \<and>
      HashTransactionInEnvelope sha256 marshalTx (lt_Envelope (tx i)) passphrase = Inr (TransactionHash (lt_Result (tx i)))" if "i < n" for i
    using read_at_known [OF assms that] by (auto simp: tx_def lcm_TransactionHash_def)
  have all: "reads (\<lambda>s. Some (tx_Read s)) (tr\<lparr>readIdx := i\<rparr>) (map tx [i..<n])" if "i \<le> n" for i
    using that
  proof (induction "n - i" arbitrary: i)
    case (Suc m)
    then have "i < n" by simp
    moreover have "tx_Read (tr\<lparr>readIdx := i\<rparr>) = (tr\<lparr>readIdx := Suc i\<rparr>, Inr (tx i))"
      using tx [OF calculation] calculation by (simp add: tx_Read_def assms(3) tr)
    ultimately show ?case using Suc by (simp add: upt_conv_Cons)
  qed (simp add: tx_Read_def assms(3) tr)
  have "tr = tr\<lparr>readIdx := 0\<rparr>" using tr(2) by (cases tr) simp
  then have first: "reads (\<lambda>s. Some (tx_Read s)) tr (map tx [0..<n])" using all [of 0] by simp
  have "Rewind (tr\<lparr>readIdx := j\<rparr>) = (if n = 0 then tr\<lparr>readIdx := j\<rparr> else tr\<lparr>readIdx := 0\<rparr>)"
    by (simp add: Rewind_def Seek_def assms(3) tr)
  moreover have "reads (\<lambda>s. Some (tx_Read s)) (tr\<lparr>readIdx := j\<rparr>) []" if "n = 0" using that by (simp add: tx_Read_def assms(3) tr)
  ultimately have "reads (\<lambda>s. Some (tx_Read s)) (Rewind (tr\<lparr>readIdx := j\<rparr>)) (map tx [0..<n])"
    using all [of 0] by simp
  then show ?thesis using first tx by (intro exI [of _ "map tx [0..<n]"]) simp
qed

theorem transaction_reader_pairs_witness:
  "\<exists>tx. reads (\<lambda>s. Some (tx_Read s)) witness_reader [tx] \<and> lt_Index tx = 1 \<and>
    HashTransactionInEnvelope (\<lambda>x. x) witness_payload (lt_Envelope tx) ''net'' = Inr (TransactionHash (lt_Result tx))"
proof -
  have "CountTransactions witness_lcm = Some 1" by (simp add: witness_lcm_def)
  from transaction_reader_pairs [OF witness_tx_reader witness_known this, of 0] show ?thesis by (auto simp: length_Suc_conv)
qed

end
