(* ===== verification/Base64.thy ===== *)
theory Base64
  imports Go_Prelude
begin

text \<open>
  The standard base64 codec of \<^verbatim>\<open>encoding/base64\<close>, with padding, in which signatures, nonces and hashes are exchanged.
\<close>

section \<open>Definitions\<close>

definition base64_alphabet :: string where
  "base64_alphabet = ''ABCDEFGHIJKLMNOPQRSTUVWXYZabcdefghijklmnopqrstuvwxyz0123456789+/''"

definition base64_char :: "nat \<Rightarrow> char" where
  "base64_char n = base64_alphabet ! n"

definition base64_value :: "char \<Rightarrow> nat option" where
  "base64_value ch = map_of (zip base64_alphabet [0..<64]) ch"

fun base64_Encode :: "nat list \<Rightarrow> string" where
  "base64_Encode [] = []"
| "base64_Encode [a] = [base64_char (a div 4), base64_char (a mod 4 * 16), CHR ''='', CHR ''='']"
| "base64_Encode [a, b] = [base64_char (a div 4), base64_char (a mod 4 * 16 + b div 16), base64_char (b mod 16 * 4), CHR ''='']"
| "base64_Encode (a # b # c # rest) =
     base64_char (a div 4) # base64_char (a mod 4 * 16 + b div 16) # base64_char (b mod 16 * 4 + c div 64) # base64_char (c mod 64) # base64_Encode rest"

text \<open>Four characters at a time; padding is accepted at the end only, and the bits it leaves over are not checked.\<close>

fun base64_quanta :: "string \<Rightarrow> nat list option" where
  "base64_quanta [] = Some []"
| "base64_quanta (a # b # c # d # rest) =
     (case (base64_value a, base64_value b) of
        (Some x, Some y) \<Rightarrow>
          (if c = CHR ''='' then if d = CHR ''='' \<and> rest = [] then Some [x * 4 + y div 16] else None
           else case base64_value c of
             None \<Rightarrow> None
           | Some z \<Rightarrow>
               if d = CHR ''='' then if rest = [] then Some [x * 4 + y div 16, y mod 16 * 16 + z div 4] else None
               else case base64_value d of
                 None \<Rightarrow> None
               | Some w \<Rightarrow> map_option (\<lambda>bs. [x * 4 + y div 16, y mod 16 * 16 + z div 4, z mod 4 * 64 + w] @ bs) (base64_quanta rest))
      | _ \<Rightarrow> None)"
| "base64_quanta _ = None"

definition base64_EncodeToString :: "bytes \<Rightarrow> string" where
  "base64_EncodeToString bs = base64_Encode (map unat bs)"

text \<open>The decoder skips line breaks.\<close>

definition base64_DecodeString :: "string \<Rightarrow> bytes option" where
  "base64_DecodeString s = map_option (map word_of_nat) (base64_quanta (filter (\<lambda>ch. ch \<noteq> CHR 10 \<and> ch \<noteq> CHR 13) s))"

section \<open>Base64 round trip\<close>

lemma base64_alphabet_facts: "length base64_alphabet = 64" "distinct base64_alphabet"
    "CHR ''='' \<notin> set base64_alphabet" "CHR 10 \<notin> set base64_alphabet" "CHR 13 \<notin> set base64_alphabet"
  by (simp_all add: base64_alphabet_def)

lemma base64_value_char [simp]: "n < 64 \<Longrightarrow> base64_value (base64_char n) = Some n"
  unfolding base64_value_def base64_char_def
  using map_of_zip_nth [of base64_alphabet "[0..<64]" n] base64_alphabet_facts by simp

lemma base64_char_in: "n < 64 \<Longrightarrow> base64_char n \<in> set base64_alphabet"
  unfolding base64_char_def using base64_alphabet_facts(1) by simp

lemma base64_char_plain [simp]: "n < 64 \<Longrightarrow> base64_char n \<noteq> CHR ''=''" "n < 64 \<Longrightarrow> base64_char n \<noteq> CHR 10" "n < 64 \<Longrightarrow> base64_char n \<noteq> CHR 13"
  using base64_char_in base64_alphabet_facts by metis+

lemma sextet_bounds:
  assumes "a < 256" "b < 256" "(c :: nat) < 256"
  shows "a div 4 < 64" "a mod 4 * 16 + b div 16 < 64" "b mod 16 * 4 + c div 64 < 64" "c mod 64 < 64"
    "(a mod 4 * 16 + b div 16) div 16 = a mod 4" "(a mod 4 * 16 + b div 16) mod 16 = b div 16"
    "(b mod 16 * 4 + c div 64) div 4 = b mod 16" "(b mod 16 * 4 + c div 64) mod 4 = c div 64" "b div 16 mod 16 = b div 16"
proof -
  have d: "a mod 4 < 4" "b div 16 < 16" "b mod 16 < 16" "c div 64 < 4" using assms by (simp_all add: div_less_iff_less_mult)
  show "a div 4 < 64" "c mod 64 < 64" using assms(1) by (simp_all add: div_less_iff_less_mult)
  show "a mod 4 * 16 + b div 16 < 64" "b mod 16 * 4 + c div 64 < 64" using d by linarith+
  show "(a mod 4 * 16 + b div 16) div 16 = a mod 4" "(a mod 4 * 16 + b div 16) mod 16 = b div 16"
    "(b mod 16 * 4 + c div 64) div 4 = b mod 16" "(b mod 16 * 4 + c div 64) mod 4 = c div 64" "b div 16 mod 16 = b div 16" using d by simp_all
qed

lemma base64_roundtrip:
  "list_all (\<lambda>b. b < 256) bs \<Longrightarrow>
    base64_quanta (filter (\<lambda>ch. ch \<noteq> CHR 10 \<and> ch \<noteq> CHR 13) (base64_Encode bs)) = Some bs"
proof (induction bs rule: base64_Encode.induct)
  case (2 a)
  then show ?case using sextet_bounds [of a 0 0] by simp
next
  case (3 a b)
  then show ?case using sextet_bounds [of a b 0] by simp
next
  case (4 a b c rest)
  then show ?case using sextet_bounds [of a b c] by simp
qed simp

lemma unat_8: "unat (x :: 8 word) < 256"
  using unsigned_less [of x] by simp

lemma base64_DecodeString_EncodeToString: "base64_DecodeString (base64_EncodeToString bs) = Some bs"
proof -
  have "list_all (\<lambda>b. b < 256) (map unat bs)" using unat_8 by (simp add: list_all_iff)
  then show ?thesis by (simp add: base64_DecodeString_def base64_EncodeToString_def base64_roundtrip o_def)
qed

lemma length_base64_Encode: "length bs = 3 * n \<Longrightarrow> length (base64_Encode bs) = 4 * n"
proof (induction bs arbitrary: n rule: base64_Encode.induct)
  case (4 a b c rest)
  then obtain m where "n = Suc m" by (cases n) auto
  then show ?case using 4 by simp
next
  case (3 a b)
  then show ?case by simp presburger
qed auto

end
