(* ===== verification/Ledger_Transaction.thy ===== *)
theory Ledger_Transaction
  imports Change_Reader Toid Base64
begin

text \<open>
  What \<^verbatim>\<open>ingest/ledger_transaction.go\<close> reports about one transaction of a ledger: fees, Soroban resources,
  events, memo, bounds and signers. A panic is \<open>None\<close>; a pair of a value and a flag is an option inside. The
  balance of an account entry is a field of the entry that the model of entries leaves abstract: \<open>Balance\<close>.
  The generated encoding of ledger keys and hashes is the parameter \<open>marshal\<close>.
\<close>

section \<open>Definitions\<close>

subsection \<open>Hexadecimal\<close>

text \<open>\<^verbatim>\<open>hex.EncodeToString\<close>.\<close>

definition hex_EncodeToString :: "bytes \<Rightarrow> string" where
  "hex_EncodeToString bs = concat (map (\<lambda>b. [''0123456789abcdef'' ! (unat b div 16), ''0123456789abcdef'' ! (unat b mod 16)]) bs)"

subsection \<open>Soroban data\<close>

text \<open>The accessors of the envelope: the types of envelopes that carry no transaction are listed, another type panics.\<close>

definition other_envelope_types :: "int set" where
  "other_envelope_types = {1, 3, 4, 6, 7, 8, 9}"

fun ext_SorobanData :: "TransactionExt \<Rightarrow> SorobanTransactionData option" where
  "ext_SorobanData (TransactionExtSoroban d) = Some d"
| "ext_SorobanData _ = None"

fun envelope_SorobanData :: "'x TransactionEnvelope \<Rightarrow> SorobanTransactionData option option" where
  "envelope_SorobanData (EnvelopeV1 e) = Some (ext_SorobanData (tx_Ext (v1_Tx e)))"
| "envelope_SorobanData (EnvelopeFeeBump e) = Some (ext_SorobanData (tx_Ext (v1_Tx (InnerTx (fb_Tx e)))))"
| "envelope_SorobanData (EnvelopeV0 e) = Some None"
| "envelope_SorobanData (EnvelopeOther t) = (if t \<in> other_envelope_types then Some None else None)"

definition GetSorobanData :: "('r, 'x) LedgerTransaction \<Rightarrow> SorobanTransactionData option option" where
  "GetSorobanData t = envelope_SorobanData (lt_Envelope t)"

definition IsSorobanTx :: "('r, 'x) LedgerTransaction \<Rightarrow> bool option" where
  "IsSorobanTx t = map_option (\<lambda>d. d \<noteq> None) (GetSorobanData t)"

definition SorobanResourceFee :: "('r, 'x) LedgerTransaction \<Rightarrow> int option option" where
  "SorobanResourceFee t = map_option (map_option ResourceFee) (GetSorobanData t)"

definition SorobanResourcesInstructions :: "('r, 'x) LedgerTransaction \<Rightarrow> 32 word option option" where
  "SorobanResourcesInstructions t = map_option (map_option (\<lambda>d. Instructions (Resources d))) (GetSorobanData t)"

definition SorobanResourcesDiskReadBytes :: "('r, 'x) LedgerTransaction \<Rightarrow> 32 word option option" where
  "SorobanResourcesDiskReadBytes t = map_option (map_option (\<lambda>d. DiskReadBytes (Resources d))) (GetSorobanData t)"

definition SorobanResourcesWriteBytes :: "('r, 'x) LedgerTransaction \<Rightarrow> 32 word option option" where
  "SorobanResourcesWriteBytes t = map_option (map_option (\<lambda>d. WriteBytes (Resources d))) (GetSorobanData t)"

definition SorobanInclusionFeeBid :: "('r, 'x) LedgerTransaction \<Rightarrow> int option option" where
  "SorobanInclusionFeeBid t =
     (case SorobanResourceFee t of
        None \<Rightarrow> None
      | Some None \<Rightarrow> Some None
      | Some (Some resourceFee) \<Rightarrow> map_option (\<lambda>fee. Some (wrap_int64 (uint fee - resourceFee))) (Fee (lt_Envelope t)))"

subsection \<open>Fees\<close>

text \<open>\<^verbatim>\<open>Address\<close> of an account and of a muxed account; an encoding error panics.\<close>

definition account_Address :: "AccountId \<Rightarrow> string option" where
  "account_Address a = (case GetAddress a of Inl _ \<Rightarrow> None | Inr s \<Rightarrow> Some s)"

definition muxed_Address :: "xdr_MuxedAccount \<Rightarrow> string option" where
  "muxed_Address m = (case muxed_GetAddress m of Inl _ \<Rightarrow> None | Inr s \<Rightarrow> Some s)"

definition entry_account :: "'r LedgerEntry \<Rightarrow> (AccountId \<times> 'r) option" where
  "entry_account e = (case entry_Data e of EntryAccount a r \<Rightarrow> Some (a, r) | _ \<Rightarrow> None)"

text \<open>The balance an entry shows for the account with the given address; otherwise the old value stays.\<close>

definition account_balance :: "('r \<Rightarrow> int) \<Rightarrow> string \<Rightarrow> 'r LedgerEntry \<Rightarrow> int \<Rightarrow> int option" where
  "account_balance Balance addr e old =
     (case entry_account e of
        None \<Rightarrow> Some old
      | Some (a, r) \<Rightarrow> map_option (\<lambda>s. if s = addr then Balance r else old) (account_Address a))"

fun getAccountBalanceFromLedgerEntryChanges ::
    "('r \<Rightarrow> int) \<Rightarrow> string \<Rightarrow> 'r LedgerEntryChange list \<Rightarrow> int \<Rightarrow> int \<Rightarrow> (int \<times> int) option" where
  "getAccountBalanceFromLedgerEntryChanges Balance addr [] bstart bend = Some (bstart, bend)"
| "getAccountBalanceFromLedgerEntryChanges Balance addr (change # changes) bstart bend =
     (case change of
        ChangeUpdated e \<Rightarrow>
          (case account_balance Balance addr e bend of
             None \<Rightarrow> None | Some b \<Rightarrow> getAccountBalanceFromLedgerEntryChanges Balance addr changes bstart b)
      | ChangeState e \<Rightarrow>
          (case account_balance Balance addr e bstart of
             None \<Rightarrow> None | Some b \<Rightarrow> getAccountBalanceFromLedgerEntryChanges Balance addr changes b bend)
      | ChangeCreated e \<Rightarrow> getAccountBalanceFromLedgerEntryChanges Balance addr changes bstart bend
      | ChangeRemoved k \<Rightarrow> getAccountBalanceFromLedgerEntryChanges Balance addr changes bstart bend
      | ChangeRestored e \<Rightarrow> None
      | ChangeOther t \<Rightarrow> None)"

fun FeeAccountAddress :: "'x TransactionEnvelope \<Rightarrow> string option option" where
  "FeeAccountAddress (EnvelopeV1 e) = map_option Some (muxed_Address (tx_SourceAccount (v1_Tx e)))"
| "FeeAccountAddress (EnvelopeFeeBump e) = map_option Some (muxed_Address (FeeSource (fb_Tx e)))"
| "FeeAccountAddress (EnvelopeV0 e) = Some None"
| "FeeAccountAddress (EnvelopeOther t) = (if t \<in> other_envelope_types then Some None else None)"

definition SorobanInclusionFeeCharged :: "('r \<Rightarrow> int) \<Rightarrow> ('r, 'x) LedgerTransaction \<Rightarrow> int option option" where
  "SorobanInclusionFeeCharged Balance t =
     (case SorobanResourceFee t of
        None \<Rightarrow> None
      | Some None \<Rightarrow> Some None
      | Some (Some resourceFee) \<Rightarrow>
          (case FeeAccountAddress (lt_Envelope t) of
             None \<Rightarrow> None
           | Some None \<Rightarrow> Some None
           | Some (Some feeAccountAddress) \<Rightarrow>
               map_option (\<lambda>(accountBalanceStart, accountBalanceEnd).
                   Some (wrap_int64 (wrap_int64 (accountBalanceStart - accountBalanceEnd) - resourceFee)))
                 (getAccountBalanceFromLedgerEntryChanges Balance feeAccountAddress (lt_FeeChanges t) 0 0)))"

text \<open>The address of the account that pays, without the id of a muxed account.\<close>

definition fee_account_plain :: "'x TransactionEnvelope \<Rightarrow> string option" where
  "fee_account_plain e =
     (case FeeAccount e of None \<Rightarrow> None | Some m \<Rightarrow> (case ToAccountId m of None \<Rightarrow> None | Some a \<Rightarrow> account_Address a))"

definition OriginalFeeCharged :: "('r \<Rightarrow> int) \<Rightarrow> ('r, 'x) LedgerTransaction \<Rightarrow> int option" where
  "OriginalFeeCharged Balance t =
     (case fee_account_plain (lt_Envelope t) of
        None \<Rightarrow> None
      | Some addr \<Rightarrow>
          (case getAccountBalanceFromLedgerEntryChanges Balance addr (lt_FeeChanges t) 0 0 of
             None \<Rightarrow> None
           | Some (startingBal, endingBal) \<Rightarrow> if endingBal > startingBal then None else Some (wrap_int64 (startingBal - endingBal))))"

definition SorobanResourceFeeRefund :: "('r \<Rightarrow> int) \<Rightarrow> ('r, 'x) LedgerTransaction \<Rightarrow> int option" where
  "SorobanResourceFeeRefund Balance t =
     (case IsSorobanTx t of
        None \<Rightarrow> None
      | Some False \<Rightarrow> Some 0
      | Some True \<Rightarrow>
          (case (case lt_UnsafeMeta t of MetaV3 m \<Rightarrow> Some (m3_TxChangesAfter m) | MetaV4 m \<Rightarrow> Some (m4_TxChangesAfter m) | _ \<Rightarrow> None) of
             None \<Rightarrow> None
           | Some txChangesAfter \<Rightarrow>
               (case fee_account_plain (lt_Envelope t) of
                  None \<Rightarrow> None
                | Some addr \<Rightarrow>
                    (case getAccountBalanceFromLedgerEntryChanges Balance addr (txChangesAfter @ lt_PostTxApplyFeeChanges t) 0 0 of
                       None \<Rightarrow> None
                     | Some (startingBal, endingBal) \<Rightarrow>
                         if startingBal > endingBal then None else Some (wrap_int64 (endingBal - startingBal))))))"

text \<open>
  \<^verbatim>\<open>FeeCharged\<close> of the transaction: the result says too much for Soroban fee bumps before protocol 21.
\<close>

definition lt_FeeCharged :: "('r \<Rightarrow> int) \<Rightarrow> ('r, 'x) LedgerTransaction \<Rightarrow> int option" where
  "lt_FeeCharged Balance t =
     (case IsSorobanTx t of
        None \<Rightarrow> None
      | Some soroban \<Rightarrow>
          let charged = FeeCharged (pair_Result (lt_Result t)) in
          if \<not> soroban then Some charged
          else (case ProtocolVersion (lt_Ledger t) of
                  None \<Rightarrow> None
                | Some v \<Rightarrow>
                    if v < 21 \<and> IsFeeBump (lt_Envelope t)
                    then map_option (\<lambda>refund. wrap_int64 (charged - refund)) (SorobanResourceFeeRefund Balance t)
                    else Some charged))"

text \<open>Integer division by zero panics.\<close>

definition InclusionFeeCharged :: "('r \<Rightarrow> int) \<Rightarrow> ('r, 'x) LedgerTransaction \<Rightarrow> int option" where
  "InclusionFeeCharged Balance t =
     (case SorobanInclusionFeeCharged Balance t of
        None \<Rightarrow> None
      | Some (Some inclusionFee) \<Rightarrow> Some inclusionFee
      | Some None \<Rightarrow>
          (case (OperationsCount (lt_Envelope t), lt_FeeCharged Balance t) of
             (Some n, Some feeCharged) \<Rightarrow>
               let operationCount = uint (if IsFeeBump (lt_Envelope t) then n + 1 else n) in
               if operationCount = 0 then None else Some (sgn feeCharged * (\<bar>feeCharged\<bar> div operationCount))
           | _ \<Rightarrow> None))"

text \<open>
  The three fees of the extension of the Soroban metadata; \<^verbatim>\<open>meta.SorobanMeta\<close> is dereferenced unchecked, and an
  extension other than version 1 panics.
\<close>

definition soroban_meta_fee :: "(SorobanTransactionMetaExtV1 \<Rightarrow> int) \<Rightarrow> ('r, 'x) LedgerTransaction \<Rightarrow> int option option" where
  "soroban_meta_fee field t =
     (case lt_UnsafeMeta t of
        MetaV3 m \<Rightarrow>
          (case m3_SorobanMeta m of
             None \<Rightarrow> None
           | Some s \<Rightarrow> (case soroban_Ext s of SorobanMetaExtV1 x \<Rightarrow> Some (Some (field x)) | _ \<Rightarrow> None))
      | _ \<Rightarrow> Some None)"

definition SorobanTotalNonRefundableResourceFeeCharged :: "('r, 'x) LedgerTransaction \<Rightarrow> int option option" where
  "SorobanTotalNonRefundableResourceFeeCharged t = soroban_meta_fee TotalNonRefundableResourceFeeCharged t"

definition SorobanTotalRefundableResourceFeeCharged :: "('r, 'x) LedgerTransaction \<Rightarrow> int option option" where
  "SorobanTotalRefundableResourceFeeCharged t = soroban_meta_fee TotalRefundableResourceFeeCharged t"

definition SorobanRentFeeCharged :: "('r, 'x) LedgerTransaction \<Rightarrow> int option option" where
  "SorobanRentFeeCharged t = soroban_meta_fee RentFeeCharged t"

subsection \<open>Events\<close>

record 'x TransactionEvents =
  te_TransactionEvents :: "'x TransactionEvent list"
  te_OperationEvents :: "'x list list"
  te_DiagnosticEvents :: "'x DiagnosticEvent list"

datatype events_error = NotSoroban | EventsMeta meta_error | EventsPanic

definition GetContractEvents :: "('r, 'x) LedgerTransaction \<Rightarrow> (events_error, 'x list) result" where
  "GetContractEvents t =
     (case IsSorobanTx t of
        None \<Rightarrow> Inl EventsPanic
      | Some False \<Rightarrow> Inl NotSoroban
      | Some True \<Rightarrow> map_sum EventsMeta (\<lambda>es. es) (GetContractEventsForOperation (lt_UnsafeMeta t) 0))"

definition GetTransactionEvents :: "('r, 'x) LedgerTransaction \<Rightarrow> (events_error, 'x TransactionEvents) result" where
  "GetTransactionEvents t =
     (let txEvents = \<lparr>te_TransactionEvents = [], te_OperationEvents = [], te_DiagnosticEvents = []\<rparr> in
      case lt_UnsafeMeta t of
        MetaV1 _ _ \<Rightarrow> Inr txEvents
      | MetaV2 _ \<Rightarrow> Inr txEvents
      | MetaV3 _ \<Rightarrow>
          (case IsSorobanTx t of
             None \<Rightarrow> Inl EventsPanic
           | Some False \<Rightarrow> Inr txEvents
           | Some True \<Rightarrow>
               bind_result (GetContractEvents t) (\<lambda>contractEvents.
                 bind_result (map_sum EventsMeta (\<lambda>es. es) (meta_GetDiagnosticEvents (lt_UnsafeMeta t))) (\<lambda>diagnosticEvents.
                   Inr (txEvents\<lparr>te_OperationEvents := [contractEvents], te_DiagnosticEvents := diagnosticEvents\<rparr>))))
      | MetaV4 m \<Rightarrow>
          Inr \<lparr>te_TransactionEvents = m4_Events m, te_OperationEvents = map op_Events (m4_Operations m), te_DiagnosticEvents = m4_DiagnosticEvents m\<rparr>
      | m \<Rightarrow> Inl (EventsMeta (UnsupportedMeta (meta_version m))))"

subsection \<open>Identity, bounds and memo\<close>

definition lt_ID :: "('r, 'x) LedgerTransaction \<Rightarrow> (toid_error, 64 word) result option" where
  "lt_ID t = map_option (\<lambda>seq. ToInt64 (toid_New seq (lt_Index t) 0)) (lcm_LedgerSequence (lt_Ledger t))"

definition lt_Account :: "('r, 'x) LedgerTransaction \<Rightarrow> (strkey_error, string) result option" where
  "lt_Account t =
     (case SourceAccount (lt_Envelope t) of None \<Rightarrow> None | Some m \<Rightarrow> map_option GetAddress (ToAccountId m))"

definition AccountMuxed :: "('r, 'x) LedgerTransaction \<Rightarrow> string option option" where
  "AccountMuxed t =
     (case SourceAccount (lt_Envelope t) of
        None \<Rightarrow> None
      | Some (KeyTypeMuxedEd25519 i ed) \<Rightarrow> map_option Some (muxed_Address (KeyTypeMuxedEd25519 i ed))
      | Some _ \<Rightarrow> Some None)"

fun memo_string :: "Memo \<Rightarrow> string option" where
  "memo_string MemoNone = Some []"
| "memo_string (MemoText s) = Some s"
| "memo_string (MemoId i) = Some (utoa (unat i))"
| "memo_string (MemoHash h) = Some (base64_EncodeToString h)"
| "memo_string (MemoReturn h) = Some (base64_EncodeToString h)"
| "memo_string (MemoOther t) = None"

definition lt_Memo :: "('r, 'x) LedgerTransaction \<Rightarrow> string option" where
  "lt_Memo t = (case Envelope_Memo (lt_Envelope t) of None \<Rightarrow> None | Some m \<Rightarrow> memo_string m)"

definition lt_TimeBounds :: "('r, 'x) LedgerTransaction \<Rightarrow> string option option" where
  "lt_TimeBounds t =
     map_option (map_option (\<lambda>tb.
       if MaxTime tb = 0 then ''['' @ utoa (unat (MinTime tb)) @ '',)''
       else ''['' @ utoa (unat (MinTime tb)) @ '','' @ utoa (unat (MaxTime tb)) @ '')'')) (Envelope_TimeBounds (lt_Envelope t))"

definition lt_LedgerBounds :: "('r, 'x) LedgerTransaction \<Rightarrow> string option option" where
  "lt_LedgerBounds t =
     map_option (map_option (\<lambda>lb. ''['' @ utoa (unat (MinLedger lb)) @ '','' @ utoa (unat (MaxLedger lb)) @ '')''))
       (Envelope_LedgerBounds (lt_Envelope t))"

definition MinSequence :: "('r, 'x) LedgerTransaction \<Rightarrow> int option option" where
  "MinSequence t = MinSeqNum (lt_Envelope t)"

definition MinSequenceAge :: "('r, 'x) LedgerTransaction \<Rightarrow> int option option" where
  "MinSequenceAge t = map_option (map_option sint) (MinSeqAge (lt_Envelope t))"

definition MinSequenceLedgerGap :: "('r, 'x) LedgerTransaction \<Rightarrow> int option option" where
  "MinSequenceLedgerGap t = map_option (map_option uint) (MinSeqLedgerGap (lt_Envelope t))"

definition InnerTransactionHash :: "('r, 'x) LedgerTransaction \<Rightarrow> string option option" where
  "InnerTransactionHash t =
     (if \<not> IsFeeBump (lt_Envelope t) then Some None
      else map_option (\<lambda>h. Some (hex_EncodeToString h)) (InnerHash (pair_Result (lt_Result t))))"

definition NewMaxFee :: "('r, 'x) LedgerTransaction \<Rightarrow> int option option" where
  "NewMaxFee t = (if \<not> IsFeeBump (lt_Envelope t) then Some None else map_option Some (FeeBumpFee (lt_Envelope t)))"

subsection \<open>Signers and footprints\<close>

fun getTxSigners :: "DecoratedSignature list \<Rightarrow> (strkey_error, string list) result" where
  "getTxSigners [] = Inr []"
| "getTxSigners (sig # sigs) =
     bind_result (strkey_Encode VersionByteAccountID (Signature sig)) (\<lambda>signerAccount.
       bind_result (getTxSigners sigs) (\<lambda>signers. Inr (signerAccount # signers)))"

definition Signers :: "('r, 'x) LedgerTransaction \<Rightarrow> (strkey_error, string list) result option" where
  "Signers t = map_option getTxSigners (if IsFeeBump (lt_Envelope t) then FeeBumpSignatures (lt_Envelope t) else Signatures (lt_Envelope t))"

fun GetTransactionV1Envelope :: "'x TransactionEnvelope \<Rightarrow> 'x TransactionV1Envelope option" where
  "GetTransactionV1Envelope (EnvelopeV1 e) = Some e"
| "GetTransactionV1Envelope (EnvelopeFeeBump e) = Some (InnerTx (fb_Tx e))"
| "GetTransactionV1Envelope _ = None"

text \<open>The Soroban data of the envelope is dereferenced unchecked.\<close>

definition footprint_of :: "'x TransactionV1Envelope \<Rightarrow> LedgerFootprint option" where
  "footprint_of e = map_option (\<lambda>d. Footprint (Resources d)) (ext_SorobanData (tx_Ext (v1_Tx e)))"

definition LedgerKeyHashesFromSorobanFootprint :: "(LedgerKey \<Rightarrow> bytes) \<Rightarrow> ('r, 'x) LedgerTransaction \<Rightarrow> string list option" where
  "LedgerKeyHashesFromSorobanFootprint marshal t =
     (case GetTransactionV1Envelope (lt_Envelope t) of
        None \<Rightarrow> Some []
      | Some e \<Rightarrow>
          map_option (\<lambda>f. filter (\<lambda>s. s \<noteq> []) (map (\<lambda>k. base64_EncodeToString (marshal k)) (ReadOnly f @ ReadWrite f))) (footprint_of e))"

definition contractCodeFromContractData :: "LedgerKey \<Rightarrow> string option" where
  "contractCodeFromContractData k = (case k of LedgerKeyContractCode h \<Rightarrow> Some (base64_EncodeToString h) | _ \<Rightarrow> None)"

definition contractIdFromContractData :: "LedgerKey \<Rightarrow> string option option" where
  "contractIdFromContractData k =
     (case k of
        LedgerKeyContractData (ScAddressContract h) _ _ \<Rightarrow>
          (case strkey_Encode VersionByteContract h of Inl _ \<Rightarrow> None | Inr s \<Rightarrow> Some (Some s))
      | _ \<Rightarrow> Some None)"

text \<open>The loops over the footprint stop at the first key: with a result, or without one when it is of another kind.\<close>

fun first_code :: "LedgerKey list \<Rightarrow> string option" where
  "first_code [] = Some []"
| "first_code (k # ks) =
     (case contractCodeFromContractData k of None \<Rightarrow> None | Some s \<Rightarrow> if s \<noteq> [] then Some s else first_code ks)"

definition ContractCodeHashFromSorobanFootprint :: "('r, 'x) LedgerTransaction \<Rightarrow> string option option" where
  "ContractCodeHashFromSorobanFootprint t =
     (case GetTransactionV1Envelope (lt_Envelope t) of
        None \<Rightarrow> Some None
      | Some e \<Rightarrow> map_option (\<lambda>f. first_code (ReadOnly f @ ReadWrite f)) (footprint_of e))"

fun first_contract :: "LedgerKey list \<Rightarrow> string option option" where
  "first_contract [] = Some (Some [])"
| "first_contract (k # ks) =
     (case contractIdFromContractData k of
        None \<Rightarrow> None
      | Some None \<Rightarrow> Some None
      | Some (Some s) \<Rightarrow> if s \<noteq> [] then Some (Some s) else first_contract ks)"

definition ContractIdFromTxEnvelope :: "('r, 'x) LedgerTransaction \<Rightarrow> string option option" where
  "ContractIdFromTxEnvelope t =
     (case GetTransactionV1Envelope (lt_Envelope t) of
        None \<Rightarrow> Some None
      | Some e \<Rightarrow> (case footprint_of e of None \<Rightarrow> None | Some f \<Rightarrow> first_contract (ReadWrite f @ ReadOnly f)))"

section \<open>Fees\<close>

text \<open>Changes of fees as the network writes them: states and updates, and account ids of 32 bytes.\<close>

definition fee_entry :: "'r LedgerEntry \<Rightarrow> bool" where
  "fee_entry e \<longleftrightarrow> (\<forall>a r. entry_account e = Some (a, r) \<longrightarrow> length a = 32)"

definition fee_change :: "'r LedgerEntryChange \<Rightarrow> bool" where
  "fee_change g = (case g of ChangeUpdated e \<Rightarrow> fee_entry e | ChangeState e \<Rightarrow> fee_entry e | ChangeCreated e \<Rightarrow> True | ChangeRemoved k \<Rightarrow> True | _ \<Rightarrow> False)"

lemma account_Address_32: "length a = 32 \<Longrightarrow> \<exists>s. account_Address a = Some s \<and> strkey_Encode VersionByteAccountID a = Inr s"
  using strkey_Encode_total [of VersionByteAccountID a] by (auto simp: account_Address_def GetAddress_def payload_lengths)

lemma account_balance_other:
  assumes "fee_entry e" "\<And>a. length a = 32 \<Longrightarrow> account_Address a \<noteq> Some addr"
  shows "account_balance Balance addr e old = Some old"
proof (cases "entry_account e")
  case (Some ar)
  obtain a r where ar: "ar = (a, r)" by (cases ar)
  then have "length a = 32" using assms(1) Some by (auto simp: fee_entry_def)
  then show ?thesis using account_Address_32 [of a] assms(2) [of a] Some ar by (auto simp: account_balance_def)
qed (simp add: account_balance_def)

lemma balances_other:
  assumes "\<And>a. length a = 32 \<Longrightarrow> account_Address a \<noteq> Some addr"
  shows "\<forall>g \<in> set gs. fee_change g \<Longrightarrow> getAccountBalanceFromLedgerEntryChanges Balance addr gs s e = Some (s, e)"
proof (induction gs arbitrary: s e)
  case (Cons g gs)
  have "account_balance Balance addr x old = Some old" if "fee_entry x" for x old
    using account_balance_other [OF that assms] by blast
  then show ?case using Cons by (cases g) (simp_all add: fee_change_def)
qed simp

text \<open>A muxed address is never the address of an account.\<close>

lemma muxed_address_differs:
  assumes "length ed = 32" "length a = 32"
  shows "\<exists>s. muxed_Address (KeyTypeMuxedEd25519 i ed) = Some s \<and> account_Address a \<noteq> Some s"
proof -
  let ?p = "ed @ BigEndian_PutUint64 i"
  have m: "checkPayloadLength VersionByteMuxedAccount ?p = None" using assms(1) by (simp add: payload_lengths)
  obtain s where s: "strkey_Encode VersionByteMuxedAccount ?p = Inr s" using strkey_Encode_total [OF m] by blast
  obtain t where t: "account_Address a = Some t" "strkey_Encode VersionByteAccountID a = Inr t" using account_Address_32 [OF assms(2)] by blast
  have a: "checkPayloadLength VersionByteAccountID a = None" using assms(2) by (simp add: payload_lengths)
  have "t \<noteq> s" using strkey_Encode_inject [OF m a] s t by (auto simp: version_byte_values)
  then show ?thesis using s t by (simp add: muxed_Address_def)
qed

section \<open>Properties\<close>

text \<open>A Soroban transaction of a muxed account, which the network charged 400 of a balance of 1000.\<close>

definition muxed_soroban_tx :: "(nat, unit) LedgerTransaction" where
  "muxed_soroban_tx =
     \<lparr>lt_Index = 1,
      lt_Envelope = EnvelopeV1
        \<lparr>v1_Tx = \<lparr>tx_SourceAccount = KeyTypeMuxedEd25519 7 (replicate 32 1), tx_Fee = 500, tx_SeqNum = 1, tx_Cond = PrecondNone, tx_Memo = MemoNone,
           tx_Operations = [()],
           tx_Ext = TransactionExtSoroban
             \<lparr>Resources = \<lparr>Footprint = \<lparr>ReadOnly = [], ReadWrite = []\<rparr>, Instructions = 0, DiskReadBytes = 0, WriteBytes = 0\<rparr>, ResourceFee = 300\<rparr>\<rparr>,
         v1_Signatures = [\<lparr>Hint = [1, 1, 1, 1], Signature = replicate 64 5\<rparr>]\<rparr>,
      lt_Result = \<lparr>TransactionHash = [], pair_Result = \<lparr>FeeCharged = 400, result_Result = TxSuccess [()]\<rparr>\<rparr>,
      lt_FeeChanges = [ChangeState (witness_entry 1 1000), ChangeUpdated (witness_entry 1 600)],
      lt_UnsafeMeta = MetaV0 [], lt_PostTxApplyFeeChanges = [], lt_LedgerVersion = 22, lt_Ledger = LcmOther 9, lt_Hash = []\<rparr>"

lemmas muxed_soroban_simps = muxed_soroban_tx_def GetSorobanData_def fee_change_def fee_entry_def entry_account_def witness_entry_def


text \<open>
  C39: For a Soroban transaction that a plain account pays for, the fee taken at the start splits into the
  inclusion fee and the resource fee; when the account that pays is given as a muxed account, the
  code compares its muxed address with the addresses of the entries, finds none, and reports the
  negated resource fee, whatever was charged.
\<close>
theorem soroban_inclusion_fee:
  assumes "\<forall>g \<in> set (lt_FeeChanges t). fee_change g" and "GetSorobanData t = Some (Some d)"
    and "FeeAccount (lt_Envelope t) = Some m" and "valid_muxed m"
  shows "(case m of
      KeyTypeEd25519 ed \<Rightarrow> \<forall>fee. OriginalFeeCharged Balance t = Some fee \<longrightarrow>
        SorobanInclusionFeeCharged Balance t = Some (Some (wrap_int64 (fee - ResourceFee d)))
    | KeyTypeMuxedEd25519 i ed \<Rightarrow> SorobanInclusionFeeCharged Balance t = Some (Some (wrap_int64 (- ResourceFee d)))
    | KeyTypeOther _ \<Rightarrow> False)"
proof -
  have fee: "SorobanResourceFee t = Some (Some (ResourceFee d))" using assms(2) by (simp add: SorobanResourceFee_def)
  have addr: "FeeAccountAddress (lt_Envelope t) = map_option Some (muxed_Address m)"
    using assms(2,3) by (cases "lt_Envelope t") (auto simp: GetSorobanData_def FeeAccount_def split: if_splits)
  show ?thesis
  proof (cases m)
    case (KeyTypeEd25519 ed)
    then have "length ed = 32" using assms(4) by simp
    then obtain s where s: "account_Address ed = Some s" "strkey_Encode VersionByteAccountID ed = Inr s" using account_Address_32 by blast
    then have "muxed_Address m = Some s" "fee_account_plain (lt_Envelope t) = Some s"
      using KeyTypeEd25519 assms(3) by (simp_all add: muxed_Address_def fee_account_plain_def)
    then show ?thesis using fee addr KeyTypeEd25519
      by (auto simp: SorobanInclusionFeeCharged_def OriginalFeeCharged_def split: option.splits if_splits prod.splits)
  next
    case (KeyTypeMuxedEd25519 i ed)
    then have ed: "length ed = 32" using assms(4) by simp
    obtain s where s: "muxed_Address m = Some s" using muxed_address_differs [OF ed ed] KeyTypeMuxedEd25519 by blast
    have "account_Address a \<noteq> Some s" if "length a = 32" for a
      using muxed_address_differs [OF ed that, of i] s KeyTypeMuxedEd25519 by auto
    from balances_other [OF this] have "getAccountBalanceFromLedgerEntryChanges Balance s (lt_FeeChanges t) 0 0 = Some (0, 0)"
      using assms(1) by blast
    then show ?thesis using fee addr s KeyTypeMuxedEd25519 by (simp add: SorobanInclusionFeeCharged_def wrap_int64_def)
  next
    case (KeyTypeOther x)
    then show ?thesis using assms(4) by simp
  qed
qed

theorem soroban_inclusion_fee_witness:
  "SorobanInclusionFeeCharged int muxed_soroban_tx = Some (Some (wrap_int64 (- 300)))"
  using soroban_inclusion_fee [of muxed_soroban_tx _ "KeyTypeMuxedEd25519 7 (replicate 32 1)" int]
  by (simp add: muxed_soroban_simps FeeAccount_def)

text \<open>
  C40: \<^verbatim>\<open>Signers\<close> does not return the signers of a transaction: it encodes the signatures as if they were
  keys. For signatures of 64 bytes it succeeds, and no string it returns is accepted by any of the
  strkey decoders.
\<close>
lemma Signers_are_not_addresses:
  assumes "Signers t = Some r" and "\<forall>sig \<in> set (the (if IsFeeBump (lt_Envelope t) then FeeBumpSignatures (lt_Envelope t) else Signatures (lt_Envelope t))). length (Signature sig) = 64"
  shows "\<exists>ss. r = Inr ss \<and> (\<forall>s \<in> set ss. DecodeAny s \<noteq> Inr (v, p) \<and> strkey_Decode v s \<noteq> Inr p)"
proof -
  obtain sigs where sigs: "r = getTxSigners sigs" "\<forall>sig \<in> set sigs. length (Signature sig) = 64"
    using assms by (auto simp: Signers_def split: if_splits)
  have bad: "DecodeAny s \<noteq> Inr (v, p) \<and> strkey_Decode v s \<noteq> Inr p" if s: "strkey_Encode VersionByteAccountID k = Inr s" and k: "length k = 64" for s k
  proof -
    have "\<not> (strkey_Encode v p = Inr s \<and> checkPayloadLength v p = None)"
    proof
      assume a: "strkey_Encode v p = Inr s \<and> checkPayloadLength v p = None"
      let ?raw = "\<lambda>v p. v # p @ LittleEndian_PutUint16 (crc16_Checksum (v # p))"
      have "decodeString s = Inr (?raw v p)" "decodeString s = Inr (?raw VersionByteAccountID k)"
        using a s k by (auto simp: decodeString_Inr strkey_Encode_Inr LittleEndian_PutUint16_def)
      then have "?raw v p = ?raw VersionByteAccountID k" by simp
      then have "v = VersionByteAccountID" "length p = length k" by (auto simp: LittleEndian_PutUint16_def dest: arg_cong [of _ _ length])
      then show False using a k by (simp add: payload_lengths)
    qed
    then show ?thesis by (simp add: strkey_decoders_iff)
  qed
  have "\<exists>ss. getTxSigners sigs = Inr ss \<and> (\<forall>s \<in> set ss. DecodeAny s \<noteq> Inr (v, p) \<and> strkey_Decode v s \<noteq> Inr p)"
    using sigs(2)
  proof (induction sigs)
    case (Cons sig sigs)
    obtain s where "strkey_Encode VersionByteAccountID (Signature sig) = Inr s"
      using Cons.prems by (auto simp: strkey_Encode_Inr checkValidVersionByte_def)
    then show ?case using Cons bad [of "Signature sig" s] by auto
  qed simp
  then show ?thesis using sigs(1) by simp
qed

lemma Signers_are_not_addresses_witness:
  "\<exists>s. Signers muxed_soroban_tx = Some (Inr [s]) \<and> DecodeAny s \<noteq> Inr (VersionByteAccountID, replicate 64 5)"
proof -
  obtain s where "strkey_Encode VersionByteAccountID (replicate 64 5) = Inr s" by (simp add: strkey_Encode_Inr checkValidVersionByte_def)
  then have s: "Signers muxed_soroban_tx = Some (Inr [s])" by (simp add: Signers_def muxed_soroban_tx_def)
  then show ?thesis
    using Signers_are_not_addresses [of muxed_soroban_tx "Inr [s]" VersionByteAccountID "replicate 64 5"]
    by (auto simp: muxed_soroban_tx_def)
qed

end
