(* ===== verification/Checkpoints.thy ===== *)
theory Checkpoints
  imports Go_Prelude "HOL-Library.Sublist"
begin

text \<open>
  Checkpoints of a history archive: \<^verbatim>\<open>historyarchive/range.go\<close>, the directory prefixes of
  \<^verbatim>\<open>dirprefix.go\<close>, the paths of \<^verbatim>\<open>util.go\<close> and the search by close time of \<^verbatim>\<open>ledger_time_lookup.go\<close>. Ledger
  sequences are 32-bit words, and the places where the code widens them to 64 bits are kept. A division by
  a zero frequency panics in Go; \<^verbatim>\<open>NewCheckpointManager\<close> never makes one, and the properties assume
  a frequency that is not zero.
\<close>

section \<open>Definitions\<close>

subsection \<open>Checkpoints and ranges\<close>

record Range =
  Low :: "32 word"
  High :: "32 word"

record CheckpointManager =
  checkpointFreq :: "32 word"

definition DefaultCheckpointFrequency :: "32 word" where
  "DefaultCheckpointFrequency = 64"

definition NewCheckpointManager :: "32 word \<Rightarrow> CheckpointManager" where
  "NewCheckpointManager checkpointFrequency =
     (if checkpointFrequency = 0 then \<lparr>checkpointFreq = DefaultCheckpointFrequency\<rparr> else \<lparr>checkpointFreq = checkpointFrequency\<rparr>)"

definition IsCheckpoint :: "CheckpointManager \<Rightarrow> 32 word \<Rightarrow> bool" where
  "IsCheckpoint c i \<longleftrightarrow> (i + 1) mod checkpointFreq c = 0"

definition PrevCheckpoint :: "CheckpointManager \<Rightarrow> 32 word \<Rightarrow> 32 word" where
  "PrevCheckpoint c i = (let freq = checkpointFreq c in if i < freq then freq - 1 else ((i + 1) div freq) * freq - 1)"

definition NextCheckpoint :: "CheckpointManager \<Rightarrow> 32 word \<Rightarrow> 32 word" where
  "NextCheckpoint c i =
     (if i = 0 then checkpointFreq c - 1
      else let freq = ucast (checkpointFreq c) :: 64 word; v = ucast i :: 64 word; n = ((v + freq) div freq) * freq - 1
           in ucast (min n 0xffffffff))"

definition GetCheckpoint :: "CheckpointManager \<Rightarrow> 32 word \<Rightarrow> 32 word" where
  "GetCheckpoint c i = NextCheckpoint c i"

definition GetCheckpointRange :: "CheckpointManager \<Rightarrow> 32 word \<Rightarrow> Range" where
  "GetCheckpointRange c i =
     (let checkpoint = GetCheckpoint c i; low = checkpoint - checkpointFreq c + 1
      in \<lparr>Low = (if low = 0 then low + 1 else low), High = checkpoint\<rparr>)"

definition MakeRange :: "CheckpointManager \<Rightarrow> 32 word \<Rightarrow> 32 word \<Rightarrow> Range" where
  "MakeRange c low high = (let high = max high low in \<lparr>Low = PrevCheckpoint c low, High = NextCheckpoint c high\<rparr>)"

definition clamp :: "Range \<Rightarrow> Range \<Rightarrow> CheckpointManager \<Rightarrow> Range" where
  "clamp r other c = MakeRange c (max (Low r) (Low other)) (min (High r) (High other))"

definition InRange :: "Range \<Rightarrow> 32 word \<Rightarrow> bool" where
  "InRange r sequence \<longleftrightarrow> Low r \<le> sequence \<and> sequence \<le> High r"

definition Range_Size :: "Range \<Rightarrow> 32 word" where
  "Range_Size r = 1 + (High r - Low r)"

definition SizeInCheckPoints :: "Range \<Rightarrow> CheckpointManager \<Rightarrow> int" where
  "SizeInCheckPoints r c = 1 + uint (High r - Low r) div uint (checkpointFreq c)"

text \<open>
  What \<^verbatim>\<open>GenerateCheckpoints\<close> sends on its channel. The loop counts in 64 bits; it does not end when the
  frequency is zero, which is \<open>None\<close>.
\<close>

partial_function (option) generate_from :: "64 word \<Rightarrow> 64 word \<Rightarrow> 64 word \<Rightarrow> 32 word list option" where
  "generate_from i high freq =
     (if i \<le> high then Option.bind (generate_from (i + freq) high freq) (\<lambda>cs. Some (ucast i # cs)) else Some [])"

declare generate_from.simps [code]

definition GenerateCheckpoints :: "Range \<Rightarrow> CheckpointManager \<Rightarrow> 32 word list option" where
  "GenerateCheckpoints r c = generate_from (ucast (Low r)) (ucast (High r)) (ucast (checkpointFreq c))"

subsection \<open>Hexadecimal text\<close>

definition hex_digit :: "nat \<Rightarrow> char" where
  "hex_digit n = ''0123456789abcdef'' ! (n mod 16)"

text \<open>The verbs \<^verbatim>\<open>%02x\<close> for a byte and \<^verbatim>\<open>%8.8x\<close> for an unsigned 32-bit integer: all digits, with leading zeros.\<close>

fun hex_fixed :: "nat \<Rightarrow> nat \<Rightarrow> string" where
  "hex_fixed 0 n = []"
| "hex_fixed (Suc w) n = hex_fixed w (n div 16) @ [hex_digit n]"

definition fmt_02x :: "byte \<Rightarrow> string" where
  "fmt_02x b = hex_fixed 2 (unat b)"

definition fmt_8x :: "32 word \<Rightarrow> string" where
  "fmt_8x x = hex_fixed 8 (unat x)"

definition Range_String :: "Range \<Rightarrow> string" where
  "Range_String r = ''[0x'' @ fmt_8x (Low r) @ '', 0x'' @ fmt_8x (High r) @ '']''"

definition collapsedString :: "Range \<Rightarrow> string" where
  "collapsedString r =
     (if Low r = High r then ''0x'' @ fmt_8x (Low r) else ''[0x'' @ fmt_8x (Low r) @ ''-0x'' @ fmt_8x (High r) @ '']'')"

fun strings_Join :: "string list \<Rightarrow> string \<Rightarrow> string" where
  "strings_Join [] sep = []"
| "strings_Join [s] sep = s"
| "strings_Join (s # ss) sep = s @ sep @ strings_Join ss sep"

text \<open>The loop of \<^verbatim>\<open>fmtRangeList\<close>: the range that is open, and the ranges it closes in order.\<close>

fun collapse_ranges :: "32 word \<Rightarrow> Range option \<Rightarrow> 32 word list \<Rightarrow> Range list" where
  "collapse_ranges freq None [] = []"
| "collapse_ranges freq (Some cur) [] = [cur]"
| "collapse_ranges freq None (t # ts) = collapse_ranges freq (Some \<lparr>Low = t, High = t\<rparr>) ts"
| "collapse_ranges freq (Some cur) (t # ts) =
     (if High cur + freq = t then collapse_ranges freq (Some (cur\<lparr>High := t\<rparr>)) ts
      else cur # collapse_ranges freq (Some \<lparr>Low = t, High = t\<rparr>) ts)"

definition fmtRangeList :: "32 word list \<Rightarrow> CheckpointManager \<Rightarrow> string" where
  "fmtRangeList vs c = strings_Join (map collapsedString (collapse_ranges (checkpointFreq c) None (sort vs))) '', ''"

subsection \<open>Directories and files\<close>

text \<open>A \<^verbatim>\<open>DirPrefix\<close> is three bytes. \<^verbatim>\<open>path.Join\<close> puts a slash between elements that are clean and not empty, as here.\<close>

record DirPrefix =
  dir0 :: byte
  dir1 :: byte
  dir2 :: byte

definition dir_bytes :: "DirPrefix \<Rightarrow> byte list" where
  "dir_bytes d = [dir0 d, dir1 d, dir2 d]"

definition path_Join :: "string list \<Rightarrow> string" where
  "path_Join ss = strings_Join ss ''/''"

definition pathPrefix :: "DirPrefix \<Rightarrow> nat \<Rightarrow> string" where
  "pathPrefix d n = path_Join (map fmt_02x (take (Suc n) (dir_bytes d)))"

definition dir_Path :: "DirPrefix \<Rightarrow> string" where
  "dir_Path d = pathPrefix d (length (dir_bytes d))"

definition CheckpointPrefix :: "32 word \<Rightarrow> DirPrefix" where
  "CheckpointPrefix seq = \<lparr>dir0 = ucast (drop_bit 24 seq), dir1 = ucast (drop_bit 16 seq), dir2 = ucast (drop_bit 8 seq)\<rparr>"

definition HashPrefix :: "bytes \<Rightarrow> DirPrefix" where
  "HashPrefix h = \<lparr>dir0 = h ! 0, dir1 = h ! 1, dir2 = h ! 2\<rparr>"

text \<open>The index where two prefixes first differ, or the last one; and a prefix with one byte replaced.\<close>

definition differ_at :: "DirPrefix \<Rightarrow> DirPrefix \<Rightarrow> nat" where
  "differ_at l h = (if dir0 l \<noteq> dir0 h then 0 else if dir1 l \<noteq> dir1 h then 1 else 2)"

definition dir_set :: "DirPrefix \<Rightarrow> nat \<Rightarrow> byte \<Rightarrow> DirPrefix" where
  "dir_set d i b = (if i = 0 then d\<lparr>dir0 := b\<rparr> else if i = 1 then d\<lparr>dir1 := b\<rparr> else d\<lparr>dir2 := b\<rparr>)"

definition RangePaths :: "Range \<Rightarrow> string list" where
  "RangePaths r =
     (let lowpre = CheckpointPrefix (Low r); highpre = CheckpointPrefix (High r); diff = differ_at lowpre highpre
      in map (\<lambda>i. pathPrefix (dir_set lowpre diff (word_of_nat i)) diff)
           [unat (dir_bytes lowpre ! diff)..<Suc (unat (dir_bytes highpre ! diff))])"

definition Categories :: "string list" where
  "Categories = [''history'', ''ledger'', ''transactions'', ''results'', ''scp'']"

definition categoryExt :: "string \<Rightarrow> string" where
  "categoryExt n = (if n = ''history'' then ''json'' else ''xdr.gz'')"

definition categoryRequired :: "string \<Rightarrow> bool" where
  "categoryRequired n \<longleftrightarrow> n \<noteq> ''scp''"

definition CategoryCheckpointPath :: "string \<Rightarrow> 32 word \<Rightarrow> string" where
  "CategoryCheckpointPath cat chk =
     path_Join [cat, dir_Path (CheckpointPrefix chk), cat @ ''-'' @ fmt_8x chk @ ''.'' @ categoryExt cat]"

definition hash_String :: "bytes \<Rightarrow> string" where
  "hash_String h = concat (map fmt_02x h)"

definition BucketPath :: "bytes \<Rightarrow> string" where
  "BucketPath bucket = path_Join [''bucket'', dir_Path (HashPrefix bucket), ''bucket-'' @ hash_String bucket @ ''.xdr.gz'']"


subsection \<open>Searching with errors\<close>

text \<open>
  \<^verbatim>\<open>sort.Search\<close> with a predicate that remembers the first error: from then
  on the predicate is false.
\<close>

function search_cached :: "(nat \<Rightarrow> ('e, bool) result) \<Rightarrow> 'e option \<Rightarrow> nat \<Rightarrow> nat \<Rightarrow> 'e option \<times> nat" where
  "search_cached f errCached i j =
     (if i < j
      then let h = (i + j) div 2;
               r = (case errCached of Some e \<Rightarrow> Inl e | None \<Rightarrow> f h)
           in case r of
                Inl e \<Rightarrow> search_cached f (Some e) (h + 1) j
              | Inr b \<Rightarrow> if \<not> b then search_cached f None (h + 1) j else search_cached f None i h
      else (errCached, i))"
  by pat_completeness auto
termination
  by (relation "measure (\<lambda>(f, e, i, j). j - i)") auto

declare search_cached.simps [simp del]

section \<open>Checkpoints as numbers\<close>

lemma uint_unat: "uint w = int (unat w)"
  by simp

lemma unat_32: "unat (x :: 32 word) < 4294967296"
  using unsigned_less [of x] by simp

lemma unat_ucast_32_64 [simp]: "unat (ucast (x :: 32 word) :: 64 word) = unat x"
  using unat_32 [of x] by (simp add: unsigned_ucast_eq take_bit_eq_mod)

lemma unat_ucast_64_32: "unat x < 2 ^ 32 \<Longrightarrow> unat (ucast (x :: 64 word) :: 32 word) = unat x"
  by (simp add: unsigned_ucast_eq take_bit_eq_mod)

lemma unat_mod_0: "(a :: 'a::len word) mod b = 0 \<longleftrightarrow> unat a mod unat b = 0"
  by (simp add: unat_eq_zero flip: unat_mod)

lemma freq_pos: "checkpointFreq c \<noteq> 0 \<Longrightarrow> 0 < unat (checkpointFreq c)"
  by (simp add: unat_gt_0)

text \<open>The checkpoint of a ledger as a number: the last ledger of its block of \<open>f\<close> ledgers.\<close>

definition block_end :: "nat \<Rightarrow> nat \<Rightarrow> nat" where
  "block_end f i = (i div f + 1) * f - 1"

lemma block_end_bounds: "0 < f \<Longrightarrow> i \<le> block_end f i \<and> block_end f i < i + f"
proof -
  assume "0 < f"
  then have "i = i div f * f + i mod f" "i mod f < f" by simp_all
  moreover have "block_end f i = i div f * f + f - 1" by (simp add: block_end_def)
  ultimately show ?thesis by linarith
qed

lemma unat_Next_64:
  fixes v freq :: "64 word"
  assumes "0 < unat freq" "unat freq < 2 ^ 32" "unat v < 2 ^ 32"
  shows "unat (((v + freq) div freq) * freq - 1) = block_end (unat freq) (unat v)"
proof -
  let ?f = "unat freq" and ?i = "unat v"
  have 1: "unat (v + freq) = ?i + ?f" using assms by (simp add: unat_word_ariths)
  have 2: "unat ((v + freq) div freq) = ?i div ?f + 1" using 1 assms(1) by (simp add: unat_div)
  have "(?i div ?f + 1) * ?f < 2 ^ LENGTH(64)"
    by (rule le_less_trans [of _ "?i + ?f"]) (use assms in simp_all)
  then have 3: "unat (((v + freq) div freq) * freq) = (?i div ?f + 1) * ?f" using unat_mult_lem [of "(v + freq) div freq" freq] 2 by metis
  then have "(1 :: 64 word) \<le> ((v + freq) div freq) * freq" using assms(1) by (simp add: word_le_nat_alt)
  then show ?thesis using 3 by (simp add: unat_sub block_end_def)
qed

lemma unat_NextCheckpoint:
  assumes "checkpointFreq c \<noteq> 0"
  shows "unat (NextCheckpoint c i) = min (block_end (unat (checkpointFreq c)) (unat i)) (2 ^ 32 - 1)"
proof (cases "i = 0")
  case True
  then show ?thesis using assms unat_32 [of "checkpointFreq c"] freq_pos [OF assms]
    by (simp add: NextCheckpoint_def block_end_def unat_minus_one)
next
  case False
  let ?n = "((ucast i + ucast (checkpointFreq c)) div ucast (checkpointFreq c)) * ucast (checkpointFreq c) - 1 :: 64 word"
  have "unat ?n = block_end (unat (checkpointFreq c)) (unat i)"
    using unat_Next_64 [of "ucast (checkpointFreq c)" "ucast i"] freq_pos [OF assms] unat_32 [of i] unat_32 [of "checkpointFreq c"] by simp
  moreover have "unat (min ?n 0xffffffff) = min (unat ?n) (unat (0xffffffff :: 64 word))"
    by (simp add: min_def word_le_nat_alt)
  ultimately have "unat (min ?n 0xffffffff) = min (block_end (unat (checkpointFreq c)) (unat i)) (2 ^ 32 - 1)" by simp
  then show ?thesis using False unat_ucast_64_32 [of "min ?n 0xffffffff"] by (simp add: NextCheckpoint_def Let_def)
qed

lemma unat_PrevCheckpoint:
  assumes "checkpointFreq c \<noteq> 0" "unat i < 2 ^ 32 - 1"
  shows "unat (PrevCheckpoint c i) =
    (let f = unat (checkpointFreq c) in if unat i < f then f - 1 else (unat i + 1) div f * f - 1)"
proof -
  let ?f = "unat (checkpointFreq c)"
  have i1: "unat (i + 1) = unat i + 1" using assms(2) by (simp add: unat_word_ariths)
  have "(unat i + 1) div ?f * ?f < 2 ^ LENGTH(32)"
    by (rule le_less_trans [OF div_times_less_eq_dividend]) (use assms(2) in simp)
  then have 3: "unat ((i + 1) div checkpointFreq c * checkpointFreq c) = (unat i + 1) div ?f * ?f"
    using unat_mult_lem [of "(i + 1) div checkpointFreq c" "checkpointFreq c"] i1 by (metis unat_div)
  show ?thesis
  proof (cases "i < checkpointFreq c")
    case True
    then show ?thesis using assms(1) by (simp add: PrevCheckpoint_def word_less_nat_alt unat_minus_one)
  next
    case False
    then have ge: "?f \<le> unat i" by (simp add: word_less_nat_alt)
    then have "0 < (unat i + 1) div ?f * ?f" using freq_pos [OF assms(1)] by (simp add: div_greater_zero_iff)
    then have "(1 :: 32 word) \<le> (i + 1) div checkpointFreq c * checkpointFreq c" using 3 by (simp add: word_le_nat_alt)
    then show ?thesis using False ge 3 by (simp add: PrevCheckpoint_def word_less_nat_alt unat_sub Let_def)
  qed
qed

lemma IsCheckpoint_iff:
  assumes "unat i < 2 ^ 32 - 1"
  shows "IsCheckpoint c i \<longleftrightarrow> unat (checkpointFreq c) dvd unat i + 1"
  using assms by (simp add: IsCheckpoint_def unat_mod_0 unat_word_ariths dvd_eq_mod_eq_0)


lemma block_end_eq_iff: "0 < f \<Longrightarrow> block_end f i = block_end f j \<longleftrightarrow> i div f = j div f"
proof -
  assume f: "0 < f"
  have "block_end f i + 1 = (i div f + 1) * f" for i using f by (simp add: block_end_def)
  then have "block_end f i = block_end f j \<longleftrightarrow> (i div f + 1) * f = (j div f + 1) * f" by (metis add_right_cancel)
  also have "\<dots> \<longleftrightarrow> i div f = j div f" using f by (metis Suc_eq_plus1 mult_cancel2 neq0_conv nat.inject)
  finally show ?thesis .
qed

lemma block_end_least: "0 < f \<Longrightarrow> f dvd k + 1 \<Longrightarrow> i \<le> k \<Longrightarrow> block_end f i \<le> k"
proof -
  assume f: "0 < f" and "f dvd k + 1" and ik: "i \<le> k"
  then obtain q where q: "k + 1 = q * f" by (metis dvdE mult.commute)
  then have "i div f < q" using f ik by (simp add: less_mult_imp_div_less)
  then have "(i div f + 1) * f \<le> q * f" by (intro mult_right_mono) simp_all
  then show ?thesis using q by (simp add: block_end_def)
qed

lemma block_end_dvd: "0 < f \<Longrightarrow> f dvd block_end f i + 1"
  by (simp add: block_end_def)

lemma in_block_iff: "0 < f \<Longrightarrow> j div f = i div f \<longleftrightarrow> i div f * f \<le> j \<and> j \<le> block_end f i"
proof -
  assume f: "0 < f"
  have "j div f = i div f \<longleftrightarrow> i div f * f \<le> j \<and> j < Suc (i div f) * f"
  proof
    assume "j div f = i div f"
    then show "i div f * f \<le> j \<and> j < Suc (i div f) * f"
      using div_times_less_eq_dividend [of j f] dividend_less_div_times [OF f, of j] by simp
  next
    assume "i div f * f \<le> j \<and> j < Suc (i div f) * f"
    then show "j div f = i div f" by (intro div_nat_eqI) (simp_all add: mult.commute)
  qed
  then show ?thesis using f by (auto simp: block_end_def)
qed

lemma GetCheckpoint_fits:
  assumes "checkpointFreq c \<noteq> 0" "(unat i div unat (checkpointFreq c) + 1) * unat (checkpointFreq c) \<le> 2 ^ 32"
  shows "unat (GetCheckpoint c i) = block_end (unat (checkpointFreq c)) (unat i)"
  using assms unat_NextCheckpoint [of c i] by (simp add: GetCheckpoint_def block_end_def)

lemma unat_checkpoint_low:
  assumes "checkpointFreq c \<noteq> 0" "(unat i div unat (checkpointFreq c) + 1) * unat (checkpointFreq c) \<le> 2 ^ 32"
  shows "unat (GetCheckpoint c i - checkpointFreq c + 1) = unat i div unat (checkpointFreq c) * unat (checkpointFreq c)"
proof -
  let ?f = "unat (checkpointFreq c)" and ?b = "unat i div unat (checkpointFreq c) * unat (checkpointFreq c)"
  have "unat (GetCheckpoint c i) + 1 = ?b + ?f" using GetCheckpoint_fits [OF assms] freq_pos [OF assms(1)] by (simp add: block_end_def)
  then have "word_of_nat (unat (GetCheckpoint c i) + 1) = (word_of_nat (?b + ?f) :: 32 word)" by (rule arg_cong)
  then have "GetCheckpoint c i + 1 = word_of_nat ?b + checkpointFreq c" by (simp add: add.commute)
  then have "GetCheckpoint c i - checkpointFreq c + 1 = word_of_nat ?b" by (simp add: algebra_simps)
  moreover have "?b < 2 ^ 32" by (rule le_less_trans [OF div_times_less_eq_dividend]) (use unat_32 [of i] in simp)
  ultimately show ?thesis by (simp only: unat_of_nat) simp
qed

lemma same_checkpoint_iff:
  assumes "checkpointFreq c \<noteq> 0" "(unat i div unat (checkpointFreq c) + 1) * unat (checkpointFreq c) \<le> 2 ^ 32"
  shows "GetCheckpoint c j = GetCheckpoint c i \<longleftrightarrow> unat j div unat (checkpointFreq c) = unat i div unat (checkpointFreq c)"
proof -
  let ?f = "unat (checkpointFreq c)"
  have f: "0 < ?f" using freq_pos [OF assms(1)] .
  have k: "unat (GetCheckpoint c i) = block_end ?f (unat i)" using GetCheckpoint_fits [OF assms] .
  have "GetCheckpoint c j = GetCheckpoint c i \<longleftrightarrow> min (block_end ?f (unat j)) (2 ^ 32 - 1) = block_end ?f (unat i)"
    using k unat_NextCheckpoint [OF assms(1), of j] by (simp add: GetCheckpoint_def word_unat_eq_iff)
  also have "\<dots> \<longleftrightarrow> block_end ?f (unat j) = block_end ?f (unat i)"
  proof
    assume m: "min (block_end ?f (unat j)) (2 ^ 32 - 1) = block_end ?f (unat i)"
    show "block_end ?f (unat j) = block_end ?f (unat i)"
    proof (rule ccontr)
      assume "block_end ?f (unat j) \<noteq> block_end ?f (unat i)"
      then have "block_end ?f (unat i) = 2 ^ 32 - 1" "2 ^ 32 - 1 < block_end ?f (unat j)" using m by (simp_all add: min_def split: if_splits)
      then show False using block_end_least [OF f block_end_dvd [OF f, of "unat i"], of "unat j"] unat_32 [of j] by simp
    qed
  next
    assume "block_end ?f (unat j) = block_end ?f (unat i)"
    then show "min (block_end ?f (unat j)) (2 ^ 32 - 1) = block_end ?f (unat i)" using k unat_32 [of "GetCheckpoint c i"] by simp
  qed
  also have "\<dots> \<longleftrightarrow> unat j div ?f = unat i div ?f" using block_end_eq_iff [OF f] .
  finally show ?thesis .
qed

lemma IsCheckpoint_cases: "IsCheckpoint c k \<longleftrightarrow> unat k = 2 ^ 32 - 1 \<or> unat (checkpointFreq c) dvd unat k + 1"
proof (cases "unat k < 2 ^ 32 - 1")
  case True
  then show ?thesis by (simp add: IsCheckpoint_iff)
next
  case False
  then have top: "unat k = 4294967295" using unat_32 [of k] by simp
  then have "unat (k + 1) = 0" by (simp add: unat_word_ariths)
  then have "k + 1 = 0" by (simp only: unat_eq_zero)
  then show ?thesis using top by (simp add: IsCheckpoint_def)
qed

text \<open>
  For every ledger whose checkpoint is a 32-bit number, \<^verbatim>\<open>GetCheckpoint\<close> returns the first checkpoint at or after it, and
  \<^verbatim>\<open>GetCheckpointRange\<close> holds exactly the ledgers (from 1 on) that this checkpoint publishes.
\<close>
lemma GetCheckpointRange_exact:
  assumes "checkpointFreq c \<noteq> 0" and "(unat i div unat (checkpointFreq c) + 1) * unat (checkpointFreq c) \<le> 2 ^ 32"
  shows "IsCheckpoint c (GetCheckpoint c i) \<and> i \<le> GetCheckpoint c i \<and> (\<forall>k. IsCheckpoint c k \<and> i \<le> k \<longrightarrow> GetCheckpoint c i \<le> k) \<and>
    (\<forall>j. InRange (GetCheckpointRange c i) j \<longleftrightarrow> j \<noteq> 0 \<and> GetCheckpoint c j = GetCheckpoint c i)"
proof (intro conjI allI impI)
  let ?f = "unat (checkpointFreq c)"
  have f: "0 < ?f" using freq_pos [OF assms(1)] .
  have k: "unat (GetCheckpoint c i) = block_end ?f (unat i)" using GetCheckpoint_fits [OF assms] .
  show "IsCheckpoint c (GetCheckpoint c i)" using k block_end_dvd [OF f] by (simp add: IsCheckpoint_cases)
  show "i \<le> GetCheckpoint c i" using k block_end_bounds [OF f] by (simp add: word_le_nat_alt)
  show "GetCheckpoint c i \<le> j" if "IsCheckpoint c j \<and> i \<le> j" for j
    using that k block_end_least [OF f, of "unat j" "unat i"] unat_32 [of "GetCheckpoint c i"]
    by (auto simp: IsCheckpoint_cases word_le_nat_alt)
  show "InRange (GetCheckpointRange c i) j \<longleftrightarrow> j \<noteq> 0 \<and> GetCheckpoint c j = GetCheckpoint c i" for j
    using same_checkpoint_iff [OF assms, of j] in_block_iff [OF f, of "unat j" "unat i"] unat_checkpoint_low [OF assms] k
    by (auto simp: InRange_def GetCheckpointRange_def Let_def word_le_nat_alt unat_eq_zero Suc_le_eq unat_gt_0)
qed

lemma GetCheckpointRange_exact_witness:
  "\<forall>j. InRange (GetCheckpointRange (NewCheckpointManager 0) 100) j \<longleftrightarrow>
     j \<noteq> 0 \<and> GetCheckpoint (NewCheckpointManager 0) j = GetCheckpoint (NewCheckpointManager 0) 100"
  using GetCheckpointRange_exact [of "NewCheckpointManager 0" 100] by (simp add: NewCheckpointManager_def DefaultCheckpointFrequency_def)


text \<open>
  \<^verbatim>\<open>PrevCheckpoint\<close> does not always go back: it keeps a checkpoint, and moves a ledger of the first block forward.
\<close>

lemma PrevCheckpoint_examples:
  "PrevCheckpoint (NewCheckpointManager 64) 127 = 127" "PrevCheckpoint (NewCheckpointManager 64) 3 = 63"
  by (simp_all add: PrevCheckpoint_def NewCheckpointManager_def)

section \<open>Lists of checkpoints\<close>

text \<open>The number of steps of \<open>f\<close> from \<open>i\<close> that stay at or below \<open>h\<close>, and the ledgers they visit.\<close>

definition step_count :: "nat \<Rightarrow> nat \<Rightarrow> nat \<Rightarrow> nat" where
  "step_count i h f = (if i \<le> h then (h - i) div f + 1 else 0)"

definition steps_from :: "nat \<Rightarrow> nat \<Rightarrow> nat \<Rightarrow> nat list" where
  "steps_from i h f = map (\<lambda>k. i + k * f) [0..<step_count i h f]"

lemma step_count_step:
  assumes "0 < f" "i \<le> h"
  shows "step_count i h f = Suc (step_count (i + f) h f)"
proof (cases "i + f \<le> h")
  case True
  then have "(h - i) div f = Suc ((h - (i + f)) div f)" using assms(1) by (simp add: le_div_geq)
  then show ?thesis using True assms by (simp add: step_count_def)
qed (use assms in \<open>simp add: step_count_def\<close>)

lemma steps_from_step: "0 < f \<Longrightarrow> i \<le> h \<Longrightarrow> steps_from i h f = i # steps_from (i + f) h f"
  by (simp add: steps_from_def step_count_step map_upt_Suc add.assoc del: upt_Suc)

lemma steps_from_done: "\<not> i \<le> h \<Longrightarrow> steps_from i h f = []"
  by (simp add: steps_from_def step_count_def)

lemma generate_from_steps:
  assumes "0 < f" "f < 2 ^ 32" "h < 2 ^ 32" "i < 2 ^ 33"
  shows "generate_from (word_of_nat i) (word_of_nat h) (word_of_nat f) = Some (map word_of_nat (steps_from i h f))"
  using assms(4)
proof (induction "step_count i h f" arbitrary: i)
  case 0
  then have gt: "\<not> i \<le> h" by (simp add: step_count_def split: if_splits)
  then have "\<not> (word_of_nat i :: 64 word) \<le> word_of_nat h" using 0 assms by (simp add: word_le_nat_alt unat_of_nat)
  then show ?case using gt by (simp add: generate_from.simps steps_from_done)
next
  case (Suc n)
  then have le: "i \<le> h" by (simp add: step_count_def split: if_splits)
  then have "(word_of_nat i :: 64 word) \<le> word_of_nat h" using Suc assms by (simp add: word_le_nat_alt unat_of_nat)
  moreover have "n = step_count (i + f) h f" using Suc.hyps(2) step_count_step [OF assms(1) le] by simp
  then have "generate_from (word_of_nat (i + f)) (word_of_nat h) (word_of_nat f) = Some (map word_of_nat (steps_from (i + f) h f))"
    using Suc.hyps(1) [of "i + f"] le assms by simp
  moreover have "ucast (word_of_nat i :: 64 word) = (word_of_nat i :: 32 word)"
    using le assms by (simp add: word_unat_eq_iff unsigned_ucast_eq unat_of_nat take_bit_eq_mod)
  ultimately show ?case using steps_from_step [OF assms(1) le] by (subst generate_from.simps) simp
qed

lemma GenerateCheckpoints_steps:
  assumes "checkpointFreq c \<noteq> 0"
  shows "GenerateCheckpoints r c = Some (map word_of_nat (steps_from (unat (Low r)) (unat (High r)) (unat (checkpointFreq c))))"
proof -
  have "ucast (w :: 32 word) = (word_of_nat (unat w) :: 64 word)" for w
    by (simp add: word_unat_eq_iff unat_of_nat le_less_trans [OF less_imp_le [OF unat_32 [of w]]])
  then show ?thesis using generate_from_steps [of "unat (checkpointFreq c)" "unat (High r)" "unat (Low r)"] freq_pos [OF assms]
      unat_32 [of "checkpointFreq c"] unat_32 [of "High r"] unat_32 [of "Low r"]
    by (simp add: GenerateCheckpoints_def)
qed

lemma mem_steps_from: "0 < f \<Longrightarrow> x \<in> set (steps_from i h f) \<longleftrightarrow> (\<exists>k. x = i + k * f) \<and> x \<le> h"
proof -
  assume f: "0 < f"
  have "k < step_count i h f \<longleftrightarrow> i + k * f \<le> h" for k
  proof (cases "i \<le> h")
    case True
    have "k < step_count i h f \<longleftrightarrow> k \<le> (h - i) div f" using True by (simp add: step_count_def less_Suc_eq_le)
    also have "\<dots> \<longleftrightarrow> k * f \<le> h - i" using f by (rule less_eq_div_iff_mult_less_eq)
    also have "\<dots> \<longleftrightarrow> i + k * f \<le> h" using True by (simp add: le_diff_conv2 add.commute)
    finally show ?thesis .
  qed (simp add: step_count_def)
  then show ?thesis by (simp add: steps_from_def image_iff Bex_def) blast
qed

lemma sorted_steps_from: "0 < f \<Longrightarrow> sorted_wrt (<) (steps_from i h f)"
  by (auto simp: steps_from_def sorted_wrt_iff_nth_less)


lemma unat_steps:
  assumes "h < 2 ^ 32" "0 < f"
  shows "map unat (map word_of_nat (steps_from i h f) :: 32 word list) = steps_from i h f"
  using assms mem_steps_from [OF assms(2), of _ i h] by (intro map_idI [THEN trans [OF map_map]]) (fastforce simp: unat_of_nat)

lemma mem_steps_dvd:
  assumes "0 < f" "f dvd l + 1"
  shows "x \<in> set (steps_from l h f) \<longleftrightarrow> l \<le> x \<and> x \<le> h \<and> f dvd x + 1"
proof -
  have "(\<exists>k. x = l + k * f) \<longleftrightarrow> l \<le> x \<and> f dvd x + 1"
  proof
    assume "\<exists>k. x = l + k * f"
    then obtain k where "x + 1 = l + 1 + k * f" "l \<le> x" by auto
    then show "l \<le> x \<and> f dvd x + 1" using assms(2) by (metis dvd_add dvd_triv_right)
  next
    assume a: "l \<le> x \<and> f dvd x + 1"
    then have "f dvd (x + 1) - (l + 1)" using assms(2) by (intro dvd_diff_nat) simp_all
    then show "\<exists>k. x = l + k * f" using a by (metis add_diff_cancel_right dvd_div_mult_self le_add_diff_inverse)
  qed
  then show ?thesis using mem_steps_from [OF assms(1)] by blast
qed

lemma block_end_mono: "i \<le> j \<Longrightarrow> block_end f i \<le> block_end f j"
  by (simp add: block_end_def diff_le_mono div_le_mono mult_le_mono)

text \<open>The least checkpoint of a range made from \<open>low\<close>, as a number.\<close>

definition block_start :: "nat \<Rightarrow> nat \<Rightarrow> nat" where
  "block_start f low = (if low < f then f - 1 else (low + 1) div f * f - 1)"

lemma block_start_dvd: "0 < f \<Longrightarrow> f dvd block_start f low + 1"
  by (simp add: block_start_def div_greater_zero_iff)

lemma block_start_le: "0 < f \<Longrightarrow> low \<le> j \<Longrightarrow> block_start f low \<le> block_end f j"
proof (cases "low < f")
  case False
  assume "0 < f" "low \<le> j"
  then have "j \<le> block_end f j" "(low + 1) div f * f \<le> low + 1" using block_end_bounds by (blast, intro div_times_less_eq_dividend)
  then have "(low + 1) div f * f - 1 \<le> block_end f j" using \<open>low \<le> j\<close> by linarith
  then show ?thesis using False by (simp add: block_start_def)
qed (simp add: block_start_def block_end_def)

text \<open>
  C31: The checkpoints generated for \<^verbatim>\<open>MakeRange(low, high)\<close> are all the checkpoints of that range in ascending order, as many as
  \<^verbatim>\<open>SizeInCheckPoints\<close> says, and every ledger from \<open>low\<close> to \<open>high\<close> has its checkpoint among them.
\<close>
theorem GenerateCheckpoints_cover:
  assumes "checkpointFreq c \<noteq> 0" and "low \<le> high" and "(unat high div unat (checkpointFreq c) + 1) * unat (checkpointFreq c) < 2 ^ 32"
  defines "r \<equiv> MakeRange c low high"
  shows "\<exists>cs. GenerateCheckpoints r c = Some cs \<and> sorted_wrt (<) cs \<and> set cs = {k. IsCheckpoint c k \<and> InRange r k} \<and>
    int (length cs) = SizeInCheckPoints r c \<and> (\<forall>j. low \<le> j \<and> j \<le> high \<longrightarrow> GetCheckpoint c j \<in> set cs)"
proof -
  let ?f = "unat (checkpointFreq c)" and ?l = "unat (Low r)" and ?h = "unat (High r)"
  let ?cs = "map word_of_nat (steps_from ?l ?h ?f) :: 32 word list"
  have f: "0 < ?f" using freq_pos [OF assms(1)] .
  have lh: "unat low \<le> unat high" using assms(2) by (simp add: word_le_nat_alt)
  have hi: "?h = block_end ?f (unat high)"
    using GetCheckpoint_fits [OF assms(1), of high] assms(2,3) by (simp add: r_def MakeRange_def Let_def GetCheckpoint_def max_def)
  have top: "unat high \<le> block_end ?f (unat high)" "block_end ?f (unat high) < 2 ^ 32 - 1"
    using block_end_bounds [OF f] assms(3) by (simp_all add: block_end_def)
  then have small: "unat low < 2 ^ 32 - 1" using lh by linarith
  have lo: "?l = block_start ?f (unat low)"
    using unat_PrevCheckpoint [OF assms(1) small] by (simp add: r_def MakeRange_def Let_def block_start_def)
  have le: "?l \<le> ?h" using block_start_le [OF f lh] lo hi by simp
  have u: "map unat ?cs = steps_from ?l ?h ?f" using unat_steps [OF _ f] unat_32 [of "High r"] by simp
  have mem: "k \<in> set ?cs \<longleftrightarrow> ?l \<le> unat k \<and> unat k \<le> ?h \<and> ?f dvd unat k + 1" for k
  proof -
    have "k \<in> set ?cs \<longleftrightarrow> unat k \<in> set (map unat ?cs)" unfolding set_map [of unat] by (simp only: inj_image_mem_iff [OF inj_unsigned])
    then show ?thesis unfolding u using mem_steps_dvd [OF f] block_start_dvd [OF f] lo by simp
  qed
  have "sorted_wrt (<) (map unat ?cs)" unfolding u using sorted_steps_from [OF f] .
  then have "sorted_wrt (<) ?cs" unfolding sorted_wrt_map by (simp add: word_less_nat_alt)
  moreover have "set ?cs = {k. IsCheckpoint c k \<and> InRange r k}"
  proof (rule set_eqI)
    fix k
    have "k \<in> {k. IsCheckpoint c k \<and> InRange r k} \<longleftrightarrow> (unat k = 2 ^ 32 - 1 \<or> ?f dvd unat k + 1) \<and> ?l \<le> unat k \<and> unat k \<le> ?h"
      by (simp add: IsCheckpoint_cases InRange_def word_le_nat_alt)
    also have "\<dots> \<longleftrightarrow> k \<in> set ?cs" unfolding mem using hi top(2) by auto
    finally show "k \<in> set ?cs \<longleftrightarrow> k \<in> {k. IsCheckpoint c k \<and> InRange r k}" by blast
  qed
  moreover have "int (length ?cs) = SizeInCheckPoints r c"
  proof -
    have "unat (High r - Low r) = ?h - ?l" using le by (simp add: unat_sub word_le_nat_alt)
    then have "SizeInCheckPoints r c = 1 + int ((?h - ?l) div ?f)" by (simp only: SizeInCheckPoints_def uint_unat zdiv_int)
    then show ?thesis using le by (simp add: steps_from_def step_count_def)
  qed
  moreover have "GetCheckpoint c j \<in> set ?cs" if "low \<le> j \<and> j \<le> high" for j
  proof -
    have j: "unat low \<le> unat j" "unat j \<le> unat high" using that by (simp_all add: word_le_nat_alt)
    have "(unat j div ?f + 1) * ?f \<le> (unat high div ?f + 1) * ?f" using j by (simp add: div_le_mono mult_le_mono)
    then have "unat (GetCheckpoint c j) = block_end ?f (unat j)" using GetCheckpoint_fits [OF assms(1), of j] assms(3) by linarith
    then show ?thesis using mem j block_end_mono block_start_le [OF f] block_end_dvd [OF f] lo hi by simp
  qed
  ultimately show ?thesis using GenerateCheckpoints_steps [OF assms(1), of r] by blast
qed

theorem GenerateCheckpoints_cover_witness:
  "\<exists>cs. GenerateCheckpoints (MakeRange (NewCheckpointManager 64) 3 200) (NewCheckpointManager 64) = Some cs \<and>
     GetCheckpoint (NewCheckpointManager 64) 70 \<in> set cs"
  using GenerateCheckpoints_cover [of "NewCheckpointManager 64" 3 200]
  by (auto simp: NewCheckpointManager_def)


section \<open>Collapsed lists\<close>

text \<open>The checkpoints a range of the report stands for, and ranges whose ends are a whole number of steps apart.\<close>

definition expand_range :: "CheckpointManager \<Rightarrow> Range \<Rightarrow> 32 word list" where
  "expand_range c r = the (GenerateCheckpoints r c)"

definition aligned :: "CheckpointManager \<Rightarrow> Range \<Rightarrow> bool" where
  "aligned c r \<longleftrightarrow> (\<exists>k. unat (High r) = unat (Low r) + k * unat (checkpointFreq c))"

lemma expand_aligned:
  assumes "checkpointFreq c \<noteq> 0" "unat (High r) = unat (Low r) + k * unat (checkpointFreq c)"
  shows "expand_range c r = map (\<lambda>j. word_of_nat (unat (Low r) + j * unat (checkpointFreq c))) [0..<Suc k]"
  using assms freq_pos [OF assms(1)] by (simp add: expand_range_def GenerateCheckpoints_steps steps_from_def step_count_def del: upt_Suc)

lemma expand_single: "checkpointFreq c \<noteq> 0 \<Longrightarrow> expand_range c \<lparr>Low = t, High = t\<rparr> = [t]"
  using expand_aligned [of c "\<lparr>Low = t, High = t\<rparr>" 0] by simp

lemma expand_extend:
  assumes "checkpointFreq c \<noteq> 0" "aligned c r" "High r + checkpointFreq c = t" "High r \<le> t"
  shows "aligned c (r\<lparr>High := t\<rparr>) \<and> expand_range c (r\<lparr>High := t\<rparr>) = expand_range c r @ [t]"
proof -
  obtain k where k: "unat (High r) = unat (Low r) + k * unat (checkpointFreq c)" using assms(2) by (auto simp: aligned_def)
  have "unat t = unat (High r) + unat (checkpointFreq c)"
    using assms(3,4) unat_plus_simple [of "High r" "checkpointFreq c"] by simp
  then have s: "unat t = unat (Low r) + Suc k * unat (checkpointFreq c)" using k by simp
  then have "word_of_nat (unat (Low r) + Suc k * unat (checkpointFreq c)) = t" by (metis of_nat_unat ucast_id)
  then have "expand_range c (r\<lparr>High := t\<rparr>) = expand_range c r @ [t]"
    using expand_aligned [OF assms(1) k] expand_aligned [OF assms(1), of "r\<lparr>High := t\<rparr>" "Suc k"] s by (simp add: distrib_right)
  moreover have "aligned c (r\<lparr>High := t\<rparr>)" unfolding aligned_def using s by (intro exI [of _ "Suc k"]) simp
  ultimately show ?thesis by blast
qed

lemma expand_collapse:
  assumes "checkpointFreq c \<noteq> 0" "aligned c r" "sorted (High r # ts)"
  shows "concat (map (expand_range c) (collapse_ranges (checkpointFreq c) (Some r) ts)) = expand_range c r @ ts"
  using assms(2,3)
proof (induction ts arbitrary: r)
  case (Cons t ts)
  have new: "aligned c \<lparr>Low = t, High = t\<rparr>" unfolding aligned_def by (intro exI [of _ 0]) simp
  show ?case
  proof (cases "High r + checkpointFreq c = t")
    case True
    then show ?thesis using expand_extend [OF assms(1) Cons.prems(1) True] Cons by auto
  next
    case False
    then show ?thesis using Cons.IH [OF new] Cons.prems(2) by (simp add: expand_single [OF assms(1)])
  qed
qed simp

text \<open>
  The ranges that \<^verbatim>\<open>fmtRangeList\<close> prints for a list of checkpoints stand for exactly the checkpoints of the
  list, in ascending order and with repetitions.
\<close>
lemma fmtRangeList_exact:
  assumes "checkpointFreq c \<noteq> 0"
  shows "\<exists>rs. fmtRangeList vs c = strings_Join (map collapsedString rs) '', '' \<and> concat (map (expand_range c) rs) = sort vs"
proof (intro exI conjI)
  let ?rs = "collapse_ranges (checkpointFreq c) None (sort vs)"
  show "fmtRangeList vs c = strings_Join (map collapsedString ?rs) '', ''" by (simp add: fmtRangeList_def)
  show "concat (map (expand_range c) ?rs) = sort vs"
  proof (cases "sort vs")
    case (Cons t ts)
    then have "sorted (t # ts)" by (metis sorted_sort)
    moreover have "aligned c \<lparr>Low = t, High = t\<rparr>" unfolding aligned_def by (intro exI [of _ 0]) simp
    ultimately show ?thesis using expand_collapse [OF assms, of "\<lparr>Low = t, High = t\<rparr>" ts] Cons by (simp add: expand_single [OF assms])
  qed simp
qed

section \<open>Paths\<close>

lemma unat_prefix:
  "unat (dir0 (CheckpointPrefix s)) = unat s div 16777216"
  "unat (dir1 (CheckpointPrefix s)) = unat s div 65536 mod 256"
  "unat (dir2 (CheckpointPrefix s)) = unat s div 256 mod 256"
  using unat_32 [of s]
  by (simp_all add: CheckpointPrefix_def unsigned_ucast_eq take_bit_eq_mod drop_bit_eq_div unat_div less_mult_imp_div_less)

lemma path_prefix_simps:
  "pathPrefix d 0 = fmt_02x (dir0 d)"
  "pathPrefix d 1 = fmt_02x (dir0 d) @ ''/'' @ fmt_02x (dir1 d)"
  "pathPrefix d 2 = fmt_02x (dir0 d) @ ''/'' @ fmt_02x (dir1 d) @ ''/'' @ fmt_02x (dir2 d)"
  "dir_Path d = fmt_02x (dir0 d) @ ''/'' @ fmt_02x (dir1 d) @ ''/'' @ fmt_02x (dir2 d)"
  by (simp_all add: pathPrefix_def dir_Path_def dir_bytes_def path_Join_def numeral_eq_Suc)

text \<open>Between two numbers that agree above a digit in base 256, the digit is between theirs.\<close>

lemma digit_between:
  assumes "l \<le> s" "s \<le> (h :: nat)" "l div d div 256 = h div d div 256"
  shows "s div d div 256 = l div d div 256 \<and> l div d mod 256 \<le> s div d mod 256 \<and> s div d mod 256 \<le> h div d mod 256"
proof -
  have m: "l div d \<le> s div d" "s div d \<le> h div d" using assms by (simp_all add: div_le_mono)
  then have "l div d div 256 \<le> s div d div 256" "s div d div 256 \<le> h div d div 256" by (simp_all add: div_le_mono)
  then have "s div d div 256 = l div d div 256" using assms(3) by simp
  then show ?thesis using m assms(3) div_mult_mod_eq [of "l div d" 256] div_mult_mod_eq [of "s div d" 256] div_mult_mod_eq [of "h div d" 256]
    by linarith
qed

lemma range_digits:
  assumes "unat l \<le> unat s" "unat s \<le> unat h"
  defines "L \<equiv> CheckpointPrefix l" and "S \<equiv> CheckpointPrefix s" and "H \<equiv> CheckpointPrefix h"
  shows "dir0 L \<le> dir0 S \<and> dir0 S \<le> dir0 H"
    and "dir0 L = dir0 H \<Longrightarrow> dir0 S = dir0 L \<and> dir1 L \<le> dir1 S \<and> dir1 S \<le> dir1 H"
    and "dir0 L = dir0 H \<Longrightarrow> dir1 L = dir1 H \<Longrightarrow> dir1 S = dir1 L \<and> dir2 L \<le> dir2 S \<and> dir2 S \<le> dir2 H"
proof -
  note eqs = L_def S_def H_def unat_prefix word_le_nat_alt word_unat_eq_iff
  show "dir0 L \<le> dir0 S \<and> dir0 S \<le> dir0 H" using assms(1,2) by (simp add: eqs div_le_mono)
  assume 0: "dir0 L = dir0 H"
  then have 1: "unat l div 65536 div 256 = unat h div 65536 div 256" by (simp add: eqs flip: div_mult2_eq)
  from digit_between [OF assms(1,2) 1] show "dir0 S = dir0 L \<and> dir1 L \<le> dir1 S \<and> dir1 S \<le> dir1 H"
    by (simp add: eqs flip: div_mult2_eq)
  assume "dir1 L = dir1 H"
  then have "unat l div 65536 mod 256 = unat h div 65536 mod 256" by (simp add: eqs)
  then have "unat l div 65536 = unat h div 65536" using 1 by (metis div_mult_mod_eq)
  then have 2: "unat l div 256 div 256 = unat h div 256 div 256" by (simp flip: div_mult2_eq)
  from digit_between [OF assms(1,2) 2] show "dir1 S = dir1 L \<and> dir2 L \<le> dir2 S \<and> dir2 S \<le> dir2 H"
    by (simp add: eqs flip: div_mult2_eq)
qed

lemma range_path_of:
  assumes "InRange r s"
  shows "\<exists>n < 3. pathPrefix (CheckpointPrefix s) n \<in> set (RangePaths r)"
proof -
  let ?l = "CheckpointPrefix (Low r)" and ?h = "CheckpointPrefix (High r)" and ?s = "CheckpointPrefix s"
  let ?diff = "differ_at ?l ?h"
  have ord: "unat (Low r) \<le> unat s" "unat s \<le> unat (High r)" using assms(1) by (simp_all add: InRange_def word_le_nat_alt)
  have found: "pathPrefix ?s ?diff \<in> set (RangePaths r)"
    if "unat (dir_bytes ?l ! ?diff) \<le> unat b" "unat b \<le> unat (dir_bytes ?h ! ?diff)" "pathPrefix (dir_set ?l ?diff b) ?diff = pathPrefix ?s ?diff" for b
    using that by (auto simp: RangePaths_def Let_def less_Suc_eq_le simp del: upt_Suc intro!: image_eqI [of _ _ "unat b"])
  consider "dir0 ?l \<noteq> dir0 ?h" | "dir0 ?l = dir0 ?h" "dir1 ?l \<noteq> dir1 ?h" | "dir0 ?l = dir0 ?h" "dir1 ?l = dir1 ?h" by blast
  then have "pathPrefix ?s ?diff \<in> set (RangePaths r)"
  proof cases
    case 1
    then show ?thesis using range_digits(1) [OF ord]
      by (intro found [of "dir0 ?s"]) (simp_all add: differ_at_def dir_bytes_def dir_set_def path_prefix_simps word_le_nat_alt)
  next
    case 2
    then show ?thesis using range_digits(2) [OF ord]
      by (intro found [of "dir1 ?s"]) (simp_all add: differ_at_def dir_bytes_def dir_set_def path_prefix_simps(2) [unfolded One_nat_def] word_le_nat_alt)
  next
    case 3
    then show ?thesis using range_digits(2,3) [OF ord]
      by (intro found [of "dir2 ?s"]) (simp_all add: differ_at_def dir_bytes_def dir_set_def path_prefix_simps word_le_nat_alt)
  qed
  then show ?thesis by (intro exI [of _ ?diff]) (simp add: differ_at_def)
qed

lemma pathPrefix_prefix: "n < 3 \<Longrightarrow> prefix (pathPrefix d n @ ''/'') (dir_Path d @ ''/'')"
proof -
  assume "n < 3"
  then consider "n = 0" | "n = 1" | "n = 2" by linarith
  then show ?thesis by cases (simp_all add: path_prefix_simps path_prefix_simps(2) [unfolded One_nat_def])
qed


text \<open>
  Listing the directories of \<^verbatim>\<open>RangePaths\<close> finds every checkpoint file of the range: the path of each category file of
  a ledger in the range lies below one of them.
\<close>
lemma RangePaths_cover:
  assumes "InRange r chk"
  shows "\<exists>p \<in> set (RangePaths r). prefix (path_Join [cat, p] @ ''/'') (CategoryCheckpointPath cat chk)"
proof -
  obtain n where n: "n < 3" "pathPrefix (CheckpointPrefix chk) n \<in> set (RangePaths r)" using range_path_of [OF assms] by blast
  have "prefix (path_Join [cat, pathPrefix (CheckpointPrefix chk) n] @ ''/'') (CategoryCheckpointPath cat chk)"
    using prefix_prefix [OF pathPrefix_prefix [OF n(1)], of "CheckpointPrefix chk" "cat @ ''-'' @ fmt_8x chk @ ''.'' @ categoryExt cat"]
    by (simp add: CategoryCheckpointPath_def path_Join_def)
  then show ?thesis using n(2) by blast
qed

lemma RangePaths_cover_witness:
  "\<exists>p \<in> set (RangePaths \<lparr>Low = 63, High = 65599\<rparr>). prefix (path_Join [''ledger'', p] @ ''/'') (CategoryCheckpointPath ''ledger'' 127)"
  by (rule RangePaths_cover) (simp add: InRange_def)

section \<open>Searching with errors\<close>

lemma search_cached_ok:
  assumes "\<And>k. i \<le> k \<Longrightarrow> k < j \<Longrightarrow> f k = Inr (p k)"
  shows "search_cached f None i j = (None, sort_Search_loop p i j)"
  using assms
proof (induction p i j rule: sort_Search_loop.induct)
  case (1 p i j)
  show ?case
  proof (cases "i < j")
    case True
    then have "f ((i + j) div 2) = Inr (p ((i + j) div 2))" using "1.prems" by simp
    then show ?thesis using True 1 by (subst search_cached.simps, subst sort_Search_loop.simps) (simp add: Let_def)
  qed (simp add: search_cached.simps sort_Search_loop.simps)
qed

end
