(* ===== verification/History_Archive.thy ===== *)
theory History_Archive
  imports Checkpoints Ledger_Meta "HOL-Library.AList"
begin

text \<open>
  The history archive of \<^verbatim>\<open>historyarchive/\<close>: the state of an archive under scan (\<^verbatim>\<open>archive.go\<close>, \<^verbatim>\<open>scan.go\<close>), the
  verification of its hashes (\<^verbatim>\<open>verify.go\<close>), the archive state files (\<^verbatim>\<open>history_archive_state.go\<close>, \<^verbatim>\<open>hash.go\<close>) and the
  search for a ledger by its close time (\<^verbatim>\<open>ledger_time_lookup.go\<close>).

  SHA-256 and the generated XDR encoders are the fields of a \<open>hasher\<close>; the storage backend is a \<open>backend\<close>, which gives
  what reading a file returns: entries, and how the stream ends. Go maps are association lists with distinct
  keys. The workers of a scan take the mutex of the archive for each entry they note, so a scan is some
  sequence of these atomic steps; the theorems hold for every such sequence.
\<close>

section \<open>Definitions\<close>

subsection \<open>Hashes\<close>

type_synonym Hash = bytes

definition zero_hash :: Hash where
  "zero_hash = replicate 32 0"

definition hash_IsZero :: "Hash \<Rightarrow> bool" where
  "hash_IsZero h \<longleftrightarrow> list_all (\<lambda>b. b = 0) h"

definition hex_value :: "char \<Rightarrow> nat option" where
  "hex_value ch =
     (let n = of_char ch :: nat in
      if 48 \<le> n \<and> n \<le> 57 then Some (n - 48)
      else if 97 \<le> n \<and> n \<le> 102 then Some (n - 87)
      else if 65 \<le> n \<and> n \<le> 70 then Some (n - 55)
      else None)"

text \<open>\<^verbatim>\<open>hex.DecodeString\<close>: an odd length or a character that is no hexadecimal digit is an error.\<close>

fun hex_DecodeString :: "string \<Rightarrow> bytes option" where
  "hex_DecodeString [] = Some []"
| "hex_DecodeString [_] = None"
| "hex_DecodeString (a # b # s) =
     (case (hex_value a, hex_value b, hex_DecodeString s) of
        (Some x, Some y, Some bs) \<Rightarrow> Some (word_of_nat (16 * x + y) # bs)
      | _ \<Rightarrow> None)"

definition DecodeHash :: "string \<Rightarrow> Hash option" where
  "DecodeHash s = (case hex_DecodeString s of None \<Rightarrow> None | Some hs \<Rightarrow> if length hs \<noteq> 32 then None else Some hs)"

definition EmptyXdrArrayHash :: Hash where
  "EmptyXdrArrayHash =
     (case DecodeHash ''df3f619804a92fdb4057192dc43dd748ea778adc52bc498ce80524c014b81119'' of Some h \<Rightarrow> h | None \<Rightarrow> zero_hash)"

subsection \<open>Archive state files\<close>

definition NumLevels :: nat where
  "NumLevels = 11"

record BucketLevel =
  Curr :: string
  Snap :: string
  Next_State :: "32 word"
  Next_Output :: string

type_synonym BucketList = "BucketLevel list"

record HistoryArchiveState =
  Version :: int
  Server :: string
  CurrentLedger :: "32 word"
  NetworkPassphrase :: string
  CurrentBuckets :: BucketList
  HotArchiveBuckets :: BucketList

text \<open>\<^verbatim>\<open>BucketList.Hash\<close>: the hash of the hashes of the levels; \<open>Inl\<close> the level whose hexadecimal text is bad.\<close>

fun levels_bytes :: "(bytes \<Rightarrow> bytes) \<Rightarrow> nat \<Rightarrow> BucketList \<Rightarrow> (nat, bytes) result" where
  "levels_bytes sha i [] = Inr []"
| "levels_bytes sha i (level # b) =
     (case hex_DecodeString (Curr level) of
        None \<Rightarrow> Inl i
      | Some cur \<Rightarrow>
          (case hex_DecodeString (Snap level) of
             None \<Rightarrow> Inl i
           | Some snap \<Rightarrow> bind_result (levels_bytes sha (Suc i) b) (\<lambda>rest. Inr (sha (cur @ snap) @ rest))))"

definition BucketList_Hash :: "(bytes \<Rightarrow> bytes) \<Rightarrow> BucketList \<Rightarrow> (nat, bytes) result" where
  "BucketList_Hash sha b = bind_result (levels_bytes sha 0 b) (\<lambda>all. Inr (sha all))"

definition HistoryArchiveStateVersionForProtocol23 :: int where
  "HistoryArchiveStateVersionForProtocol23 = 2"

definition HAS_BucketListHash :: "(bytes \<Rightarrow> bytes) \<Rightarrow> HistoryArchiveState \<Rightarrow> (nat, bytes) result" where
  "HAS_BucketListHash sha h =
     bind_result (BucketList_Hash sha (CurrentBuckets h)) (\<lambda>hash.
       if Version h < HistoryArchiveStateVersionForProtocol23 then Inr hash
       else bind_result (BucketList_Hash sha (HotArchiveBuckets h)) (\<lambda>archiveListHash. Inr (sha (hash @ archiveListHash))))"

definition level_hashes :: "BucketLevel \<Rightarrow> string list" where
  "level_hashes b = [Curr b, Snap b, Next_Output b]"

text \<open>The hashes of a bucket list that are not empty and not zero; \<open>None\<close> when one does not decode.\<close>

fun nonzero_hashes :: "string list \<Rightarrow> Hash list option" where
  "nonzero_hashes [] = Some []"
| "nonzero_hashes (bs # rest) =
     (if bs = [] then nonzero_hashes rest
      else (case DecodeHash bs of
              None \<Rightarrow> None
            | Some h \<Rightarrow> map_option (\<lambda>hs. if hash_IsZero h then hs else h # hs) (nonzero_hashes rest)))"

definition extractBucketHashes :: "BucketList \<Rightarrow> Hash list option" where
  "extractBucketHashes buckets = nonzero_hashes (concat (map level_hashes buckets))"

definition HAS_Buckets :: "HistoryArchiveState \<Rightarrow> Hash list option" where
  "HAS_Buckets h =
     (case extractBucketHashes (CurrentBuckets h) of
        None \<Rightarrow> None
      | Some currentBuckets \<Rightarrow>
          if Version h \<ge> HistoryArchiveStateVersionForProtocol23
          then map_option (\<lambda>hot. currentBuckets @ hot) (extractBucketHashes (HotArchiveBuckets h))
          else Some currentBuckets)"

fun summarizeBucketList :: "BucketList \<Rightarrow> (string \<times> nat) option" where
  "summarizeBucketList [] = Some ([], 0)"
| "summarizeBucketList (b # bs) =
     (case nonzero_hashes (level_hashes b) of
        None \<Rightarrow> None
      | Some hs \<Rightarrow> map_option (\<lambda>(summ, nz). if hs \<noteq> [] then (CHR ''#'' # summ, nz + 1) else (CHR ''_'' # summ, nz)) (summarizeBucketList bs))"

definition LevelSummary :: "HistoryArchiveState \<Rightarrow> (string \<times> nat) option" where
  "LevelSummary h =
     (case summarizeBucketList (CurrentBuckets h) of
        None \<Rightarrow> None
      | Some (currentSummary, currentNz) \<Rightarrow>
          if Version h \<ge> HistoryArchiveStateVersionForProtocol23
          then map_option (\<lambda>(hotSummary, hotNz). (currentSummary @ ''|'' @ hotSummary, currentNz + hotNz)) (summarizeBucketList (HotArchiveBuckets h))
          else Some (currentSummary, currentNz))"

definition HAS_Range :: "HistoryArchiveState \<Rightarrow> Range" where
  "HAS_Range h = \<lparr>Low = 63, High = CurrentLedger h\<rparr>"

subsection \<open>Entries of the checkpoint files\<close>

record 'x TransactionSet =
  ts_PreviousLedgerHash :: Hash
  ts_Txs :: "'x TransactionEnvelope list"

record 'x TxSetComponent =
  tc_BaseFee :: "int option"
  tc_Txs :: "'x TransactionEnvelope list"

datatype 'x GeneralizedPhase =
    GenV0Components "'x TxSetComponent list"
  | GenParallelTxs "int option" "'x TransactionEnvelope list list list"

record 'x GeneralizedTransactionSet =
  g_PreviousLedgerHash :: Hash
  g_Phases :: "'x GeneralizedPhase list"

datatype 'x TransactionHistoryEntryExt = HistoryExtV0 | HistoryExtV1 "'x GeneralizedTransactionSet" | HistoryExtOther int

record 'x TransactionHistoryEntry =
  the_LedgerSeq :: "32 word"
  the_TxSet :: "'x TransactionSet"
  the_Ext :: "'x TransactionHistoryEntryExt"

record 'x TransactionHistoryResultEntry =
  thre_LedgerSeq :: "32 word"
  thre_TxResultSet :: "'x TransactionResultPair list"

text \<open>The hash functions: \<open>None\<close> is an error of the encoder.\<close>

record 'x hasher =
  sha256 :: "bytes \<Rightarrow> Hash"
  HashXdr_header :: "LedgerHeader \<Rightarrow> Hash option"
  Marshal_envelope :: "'x TransactionEnvelope \<Rightarrow> bytes option"
  HashXdr_generalized :: "'x GeneralizedTransactionSet \<Rightarrow> Hash option"
  HashXdr_results :: "'x TransactionResultPair list \<Rightarrow> Hash option"

subsection \<open>Transaction sets\<close>

text \<open>The order of \<^verbatim>\<open>bytes.Compare\<close> on hashes, which have the same length: as numbers.\<close>

definition hash_number :: "bytes \<Rightarrow> nat" where
  "hash_number bs = foldl (\<lambda>acc b. 256 * acc + unat b) 0 bs"

fun marshal_all :: "'x hasher \<Rightarrow> 'x TransactionEnvelope list \<Rightarrow> bytes list option" where
  "marshal_all H [] = Some []"
| "marshal_all H (env # envs) =
     (case Marshal_envelope H env of None \<Rightarrow> None | Some bs \<Rightarrow> map_option (\<lambda>rest. bs # rest) (marshal_all H envs))"

text \<open>The envelopes are sorted by the hash of their encoding; \<^verbatim>\<open>xdr.HashXdr\<close> is SHA-256 of the encoding.\<close>

definition SortTxsForHash :: "'x hasher \<Rightarrow> 'x TransactionSet \<Rightarrow> 'x TransactionSet option" where
  "SortTxsForHash H txset =
     (case marshal_all H (ts_Txs txset) of
        None \<Rightarrow> None
      | Some _ \<Rightarrow> Some (txset\<lparr>ts_Txs := sort_key (\<lambda>env. hash_number (sha256 H (the (Marshal_envelope H env)))) (ts_Txs txset)\<rparr>))"

definition HashTxSet :: "'x hasher \<Rightarrow> 'x TransactionSet \<Rightarrow> Hash option" where
  "HashTxSet H txset =
     (case SortTxsForHash H txset of
        None \<Rightarrow> None
      | Some sorted_set \<Rightarrow> map_option (\<lambda>envs. sha256 H (ts_PreviousLedgerHash sorted_set @ concat envs)) (marshal_all H (ts_Txs sorted_set)))"

definition HashEmptyTxSet :: "'x hasher \<Rightarrow> Hash \<Rightarrow> Hash" where
  "HashEmptyTxSet H previousLedgerHash = sha256 H previousLedgerHash"

definition makeEmptyGeneralizedSequentialTxSet :: "Hash \<Rightarrow> 'x GeneralizedTransactionSet" where
  "makeEmptyGeneralizedSequentialTxSet previousLedgerHash =
     \<lparr>g_PreviousLedgerHash = previousLedgerHash, g_Phases = [GenV0Components [], GenV0Components []]\<rparr>"

definition makeEmptyGeneralizedParallelTxSet :: "Hash \<Rightarrow> 'x GeneralizedTransactionSet" where
  "makeEmptyGeneralizedParallelTxSet previousLedgerHash =
     \<lparr>g_PreviousLedgerHash = previousLedgerHash, g_Phases = [GenV0Components [], GenParallelTxs None []]\<rparr>"

subsection \<open>The state of a scan\<close>

type_synonym hash_map = "(32 word \<times> Hash) list"

record Archive =
  networkPassphrase :: string
  checkpointFiles :: "string \<Rightarrow> (32 word \<times> bool) list"
  allBuckets :: "(Hash \<times> bool) list"
  referencedBuckets :: "(Hash \<times> bool) list"
  expectLedgerHashes :: hash_map
  actualLedgerHashes :: hash_map
  expectTxSetHashes :: hash_map
  actualTxSetHashes :: hash_map
  expectTxResultSetHashes :: hash_map
  actualTxResultSetHashes :: hash_map
  invalidBuckets :: nat
  invalidLedgers :: nat
  invalidTxSets :: nat
  invalidTxResultSets :: nat
  arch_checkpointManager :: CheckpointManager

definition new_archive :: "string \<Rightarrow> 32 word \<Rightarrow> Archive" where
  "new_archive passphrase frequency =
     \<lparr>networkPassphrase = passphrase, checkpointFiles = (\<lambda>cat. []), allBuckets = [], referencedBuckets = [],
      expectLedgerHashes = [], actualLedgerHashes = [], expectTxSetHashes = [], actualTxSetHashes = [],
      expectTxResultSetHashes = [], actualTxResultSetHashes = [], invalidBuckets = 0, invalidLedgers = 0, invalidTxSets = 0,
      invalidTxResultSets = 0, arch_checkpointManager = NewCheckpointManager frequency\<rparr>"

datatype verify_error = EncodeError | LedgerHashMismatch "32 word" | UnknownHistoryExt int

definition VerifyLedgerHeaderHistoryEntry :: "'x hasher \<Rightarrow> Archive \<Rightarrow> LedgerHeaderHistoryEntry \<Rightarrow> (verify_error, Archive) result" where
  "VerifyLedgerHeaderHistoryEntry H arch entry =
     (case HashXdr_header H (Header entry) of
        None \<Rightarrow> Inl EncodeError
      | Some h \<Rightarrow>
          if h \<noteq> header_Hash entry then Inl (LedgerHashMismatch (header_LedgerSeq (Header entry)))
          else let seq = header_LedgerSeq (Header entry) in
            Inr (arch\<lparr>actualLedgerHashes := AList.update seq h (actualLedgerHashes arch),
                      expectLedgerHashes := AList.update (seq - 1) (header_PreviousLedgerHash (Header entry)) (expectLedgerHashes arch),
                      expectTxSetHashes := AList.update seq (scp_TxSetHash (header_ScpValue (Header entry))) (expectTxSetHashes arch),
                      expectTxResultSetHashes := AList.update seq (header_TxSetResultHash (Header entry)) (expectTxResultSetHashes arch)\<rparr>))"

definition history_entry_hash :: "'x hasher \<Rightarrow> 'x TransactionHistoryEntry \<Rightarrow> (verify_error, Hash) result" where
  "history_entry_hash H entry =
     (case the_Ext entry of
        HistoryExtV0 \<Rightarrow> (case HashTxSet H (the_TxSet entry) of None \<Rightarrow> Inl EncodeError | Some h \<Rightarrow> Inr h)
      | HistoryExtV1 g \<Rightarrow> (case HashXdr_generalized H g of None \<Rightarrow> Inl EncodeError | Some h \<Rightarrow> Inr h)
      | HistoryExtOther v \<Rightarrow> Inl (UnknownHistoryExt v))"

definition VerifyTransactionHistoryEntry :: "'x hasher \<Rightarrow> Archive \<Rightarrow> 'x TransactionHistoryEntry \<Rightarrow> (verify_error, Archive) result" where
  "VerifyTransactionHistoryEntry H arch entry =
     bind_result (history_entry_hash H entry) (\<lambda>h.
       Inr (arch\<lparr>actualTxSetHashes := AList.update (the_LedgerSeq entry) h (actualTxSetHashes arch)\<rparr>))"

definition VerifyTransactionHistoryResultEntry :: "'x hasher \<Rightarrow> Archive \<Rightarrow> 'x TransactionHistoryResultEntry \<Rightarrow> (verify_error, Archive) result" where
  "VerifyTransactionHistoryResultEntry H arch entry =
     (case HashXdr_results H (thre_TxResultSet entry) of
        None \<Rightarrow> Inl EncodeError
      | Some h \<Rightarrow> Inr (arch\<lparr>actualTxResultSetHashes := AList.update (thre_LedgerSeq entry) h (actualTxResultSetHashes arch)\<rparr>))"

subsection \<open>Reading checkpoint files\<close>

text \<open>A stream: its entries, and the error that ends it instead of the end of the file.\<close>

type_synonym ('a, 'e) stream = "'a list \<times> 'e option"

record ('x, 'e) backend =
  LedgerStream :: "string \<Rightarrow> ('e, (LedgerHeaderHistoryEntry, 'e) stream) result"
  TransactionStream :: "string \<Rightarrow> ('e, ('x TransactionHistoryEntry, 'e) stream) result"
  ResultStream :: "string \<Rightarrow> ('e, ('x TransactionHistoryResultEntry, 'e) stream) result"
  RootHAS :: "('e, HistoryArchiveState) result"

datatype 'e archive_error = StorageError 'e | VerifyFailed verify_error | HeaderNotFound | InvalidArchive | NoLedgerForTime | BadTimespan

text \<open>The loop of \<^verbatim>\<open>VerifyCategoryCheckpoint\<close>: what was noted before an error stays noted.\<close>

fun verify_stream :: "(Archive \<Rightarrow> 'a \<Rightarrow> (verify_error, Archive) result) \<Rightarrow> Archive \<Rightarrow> 'a list \<Rightarrow> 'e option \<Rightarrow> Archive \<times> 'e archive_error option" where
  "verify_stream step arch [] e = (arch, map_option StorageError e)"
| "verify_stream step arch (x # xs) e =
     (case step arch x of Inl err \<Rightarrow> (arch, Some (VerifyFailed err)) | Inr arch' \<Rightarrow> verify_stream step arch' xs e)"

definition verify_file :: "(Archive \<Rightarrow> 'a \<Rightarrow> (verify_error, Archive) result) \<Rightarrow> Archive \<Rightarrow> ('e, ('a, 'e) stream) result \<Rightarrow> Archive \<times> 'e archive_error option" where
  "verify_file step arch file = (case file of Inl e \<Rightarrow> (arch, Some (StorageError e)) | Inr (entries, e) \<Rightarrow> verify_stream step arch entries e)"

definition VerifyCategoryCheckpoint ::
    "'x hasher \<Rightarrow> ('x, 'e) backend \<Rightarrow> Archive \<Rightarrow> string \<Rightarrow> 32 word \<Rightarrow> (string \<Rightarrow> 'e option) \<Rightarrow> Archive \<times> 'e archive_error option" where
  "VerifyCategoryCheckpoint H B arch cat chk scp_open =
     (let pth = CategoryCheckpointPath cat chk in
      if cat = ''history'' then (arch, None)
      else if cat = ''ledger'' then verify_file (VerifyLedgerHeaderHistoryEntry H) arch (LedgerStream B pth)
      else if cat = ''transactions'' then verify_file (VerifyTransactionHistoryEntry H) arch (TransactionStream B pth)
      else if cat = ''results'' then verify_file (VerifyTransactionHistoryResultEntry H) arch (ResultStream B pth)
      else (arch, map_option StorageError (scp_open pth)))"

text \<open>\<^verbatim>\<open>GetLedgerHeader\<close>: the entry with the sequence of the ledger in the file of its checkpoint.\<close>

fun find_header :: "32 word \<Rightarrow> LedgerHeaderHistoryEntry list \<Rightarrow> 'e option \<Rightarrow> ('e archive_error, LedgerHeaderHistoryEntry) result" where
  "find_header ledger [] e = (case e of Some err \<Rightarrow> Inl (StorageError err) | None \<Rightarrow> Inl HeaderNotFound)"
| "find_header ledger (x # xs) e = (if header_LedgerSeq (Header x) = ledger then Inr x else find_header ledger xs e)"

definition GetLedgerHeader :: "('x, 'e) backend \<Rightarrow> CheckpointManager \<Rightarrow> 32 word \<Rightarrow> ('e archive_error, LedgerHeaderHistoryEntry) result" where
  "GetLedgerHeader B c ledger =
     (let checkpoint = (if \<not> IsCheckpoint c ledger then NextCheckpoint c ledger else ledger) in
      case LedgerStream B (CategoryCheckpointPath ''ledger'' checkpoint) of
        Inl e \<Rightarrow> Inl (StorageError e)
      | Inr (entries, e) \<Rightarrow> find_header ledger entries e)"

subsection \<open>Reports\<close>

text \<open>\<^verbatim>\<open>compareHashMaps\<close>: a ledger with no actual hash reads the zero hash unless \<open>passOn\<close> accepts it.\<close>

definition mismatched :: "hash_map \<Rightarrow> (32 word \<Rightarrow> Hash \<Rightarrow> bool) \<Rightarrow> 32 word \<times> Hash \<Rightarrow> bool" where
  "mismatched actual passOn = (\<lambda>(eledger, ehash).
     case map_of actual eledger of
       None \<Rightarrow> \<not> passOn eledger ehash \<and> zero_hash \<noteq> ehash
     | Some ahash \<Rightarrow> ahash \<noteq> ehash)"

definition compareHashMaps :: "hash_map \<Rightarrow> hash_map \<Rightarrow> (32 word \<Rightarrow> Hash \<Rightarrow> bool) \<Rightarrow> nat" where
  "compareHashMaps expect actual passOn = length (filter (mismatched actual passOn) expect)"

definition lowest_expected :: "hash_map \<Rightarrow> 32 word" where
  "lowest_expected m = foldl (\<lambda>low i. if i < low then i else low) 0xffffffff (map fst m)"

definition empty_txset :: "'x hasher \<Rightarrow> hash_map \<Rightarrow> 32 word \<Rightarrow> Hash \<Rightarrow> bool" where
  "empty_txset H expected eledger ehash =
     (let previousLedgerHash = (case map_of expected (eledger - 1) of None \<Rightarrow> zero_hash | Some h \<Rightarrow> h) in
      if ehash = HashEmptyTxSet H previousLedgerHash then True
      else (case HashXdr_generalized H (makeEmptyGeneralizedSequentialTxSet previousLedgerHash) of
              None \<Rightarrow> False
            | Some emptySeq \<Rightarrow>
                if ehash = emptySeq then True
                else (case HashXdr_generalized H (makeEmptyGeneralizedParallelTxSet previousLedgerHash) of
                        None \<Rightarrow> False
                      | Some emptyPar \<Rightarrow> ehash = emptyPar)))"

text \<open>\<^verbatim>\<open>ReportInvalid\<close> with verification on: the archive with its counters, and the number of invalid objects.\<close>

definition ReportInvalid :: "'x hasher \<Rightarrow> Archive \<Rightarrow> Archive \<times> nat" where
  "ReportInvalid H arch =
     (let lowest = lowest_expected (expectLedgerHashes arch);
          badLedgers = compareHashMaps (expectLedgerHashes arch) (actualLedgerHashes arch) (\<lambda>eledger ehash. eledger = lowest);
          badTxSets = compareHashMaps (expectTxSetHashes arch) (actualTxSetHashes arch) (empty_txset H (expectLedgerHashes arch));
          badResults = compareHashMaps (expectTxResultSetHashes arch) (actualTxResultSetHashes arch) (\<lambda>eledger ehash. ehash = EmptyXdrArrayHash)
      in (arch\<lparr>invalidLedgers := badLedgers, invalidTxSets := badTxSets, invalidTxResultSets := badResults\<rparr>,
          invalidBuckets arch + badLedgers + badTxSets + badResults))"

definition NoteCheckpointFile :: "Archive \<Rightarrow> string \<Rightarrow> 32 word \<Rightarrow> bool \<Rightarrow> Archive" where
  "NoteCheckpointFile arch cat chk present =
     arch\<lparr>checkpointFiles := (checkpointFiles arch)(cat := AList.update chk present (checkpointFiles arch cat))\<rparr>"

definition NoteExistingBucket :: "Archive \<Rightarrow> Hash \<Rightarrow> Archive" where
  "NoteExistingBucket arch bucket = arch\<lparr>allBuckets := AList.update bucket True (allBuckets arch)\<rparr>"

definition NoteReferencedBucket :: "Archive \<Rightarrow> Hash \<Rightarrow> Archive \<times> bool" where
  "NoteReferencedBucket arch bucket =
     (if map_of (referencedBuckets arch) bucket \<noteq> None then (arch, False)
      else (arch\<lparr>referencedBuckets := AList.update bucket True (referencedBuckets arch)\<rparr>, True))"

definition ClearCachedInfo :: "Archive \<Rightarrow> Archive" where
  "ClearCachedInfo arch = arch\<lparr>checkpointFiles := (\<lambda>cat. []), allBuckets := [], referencedBuckets := []\<rparr>"

text \<open>The checkpoints of a range without a file of the category; \<open>None\<close> when the range cannot be generated.\<close>

definition missing_of :: "Archive \<Rightarrow> Range \<Rightarrow> string \<Rightarrow> 32 word list option" where
  "missing_of arch r cat =
     map_option (filter (\<lambda>ix. map_of (checkpointFiles arch cat) ix \<noteq> Some True)) (GenerateCheckpoints r (arch_checkpointManager arch))"

definition CheckCheckpointFilesMissing :: "Archive \<Rightarrow> Range \<Rightarrow> (string \<times> 32 word list option) list" where
  "CheckCheckpointFilesMissing arch r = map (\<lambda>cat. (cat, missing_of arch r cat)) Categories"

definition CheckBucketsMissing :: "Archive \<Rightarrow> Hash list" where
  "CheckBucketsMissing arch = filter (\<lambda>k. map_of (allBuckets arch) k \<noteq> Some True) (map fst (referencedBuckets arch))"

definition ReportMissing :: "Archive \<Rightarrow> Range \<Rightarrow> bool" where
  "ReportMissing arch r \<longleftrightarrow>
     list_ex (\<lambda>(cat, missing). categoryRequired cat \<and> missing \<noteq> Some []) (CheckCheckpointFilesMissing arch r) \<or>
     CheckBucketsMissing arch \<noteq> []"

subsection \<open>Searching by close time\<close>

text \<open>Times are nanoseconds from the epoch.\<close>

definition genesisLedgerSeq :: "32 word" where
  "genesisLedgerSeq = 2"

definition closeTimeFromHeader :: "LedgerHeaderHistoryEntry \<Rightarrow> int" where
  "closeTimeFromHeader h = sint (scp_CloseTime (header_ScpValue (Header h))) * 1000000000"

definition LedgerForTime ::
    "('e archive_error, HistoryArchiveState) result \<Rightarrow> (32 word \<Rightarrow> ('e archive_error, LedgerHeaderHistoryEntry) result) \<Rightarrow> int \<Rightarrow> ('e archive_error, 32 word) result" where
  "LedgerForTime rootHAS getHeader target =
     bind_result rootHAS (\<lambda>has.
     bind_result (getHeader genesisLedgerSeq) (\<lambda>beginHdr.
       let beginSeq = genesisLedgerSeq; endSeq = CurrentLedger has in
       if endSeq < beginSeq then Inl InvalidArchive
       else bind_result (getHeader endSeq) (\<lambda>endHdr.
         if target < closeTimeFromHeader beginHdr then Inr beginSeq
         else if target > closeTimeFromHeader endHdr then Inr endSeq
         else let n = unat (endSeq - beginSeq + 1);
                  (errCached, idx) = search_cached
                    (\<lambda>i. bind_result (getHeader (beginSeq + word_of_nat i)) (\<lambda>hdr. Inr (\<not> closeTimeFromHeader hdr < target))) None 0 n
              in case errCached of
                   Some e \<Rightarrow> Inl e
                 | None \<Rightarrow> if idx = n then Inl NoLedgerForTime else Inr (beginSeq + word_of_nat idx))))"

definition LedgerRangeForTimespan ::
    "('e archive_error, HistoryArchiveState) result \<Rightarrow> (32 word \<Rightarrow> ('e archive_error, LedgerHeaderHistoryEntry) result) \<Rightarrow> int \<Rightarrow> int \<Rightarrow> ('e archive_error, 32 word \<times> 32 word) result" where
  "LedgerRangeForTimespan rootHAS getHeader startTime endTime =
     (if startTime > endTime then Inl BadTimespan
      else bind_result (LedgerForTime rootHAS getHeader startTime) (\<lambda>startSeq.
           bind_result (LedgerForTime rootHAS getHeader endTime) (\<lambda>endSeq. Inr (startSeq, endSeq))))"


section \<open>Verification of hashes\<close>

text \<open>The atomic steps of the workers of a scan that verifies, in the order in which they take the mutex.\<close>

datatype 'x verify_event =
    HeaderEvent LedgerHeaderHistoryEntry
  | TxEvent "'x TransactionHistoryEntry"
  | ResultEvent "'x TransactionHistoryResultEntry"

fun note_event :: "'x hasher \<Rightarrow> Archive \<Rightarrow> 'x verify_event \<Rightarrow> (verify_error, Archive) result" where
  "note_event H arch (HeaderEvent e) = VerifyLedgerHeaderHistoryEntry H arch e"
| "note_event H arch (TxEvent e) = VerifyTransactionHistoryEntry H arch e"
| "note_event H arch (ResultEvent e) = VerifyTransactionHistoryResultEntry H arch e"

fun verify_run :: "'x hasher \<Rightarrow> Archive \<Rightarrow> 'x verify_event list \<Rightarrow> (verify_error, Archive) result" where
  "verify_run H arch [] = Inr arch"
| "verify_run H arch (ev # evs) = bind_result (note_event H arch ev) (\<lambda>a. verify_run H a evs)"

text \<open>What was read: the last entry of each ledger.\<close>

record 'x archive_view =
  view_headers :: "32 word \<rightharpoonup> LedgerHeaderHistoryEntry"
  view_txs :: "32 word \<rightharpoonup> 'x TransactionHistoryEntry"
  view_results :: "32 word \<rightharpoonup> 'x TransactionHistoryResultEntry"

definition empty_view :: "'x archive_view" where
  "empty_view = \<lparr>view_headers = Map.empty, view_txs = Map.empty, view_results = Map.empty\<rparr>"

fun view_event :: "'x archive_view \<Rightarrow> 'x verify_event \<Rightarrow> 'x archive_view" where
  "view_event v (HeaderEvent e) = v\<lparr>view_headers := (view_headers v)(header_LedgerSeq (Header e) \<mapsto> e)\<rparr>"
| "view_event v (TxEvent e) = v\<lparr>view_txs := (view_txs v)(the_LedgerSeq e \<mapsto> e)\<rparr>"
| "view_event v (ResultEvent e) = v\<lparr>view_results := (view_results v)(thre_LedgerSeq e \<mapsto> e)\<rparr>"

definition view_of :: "'x verify_event list \<Rightarrow> 'x archive_view" where
  "view_of evs = foldl view_event empty_view evs"

text \<open>How the maps of the archive follow from what was read.\<close>

definition tracks :: "'x hasher \<Rightarrow> Archive \<Rightarrow> 'x archive_view \<Rightarrow> bool" where
  "tracks H a v \<longleftrightarrow>
     (\<forall>s. map_of (actualLedgerHashes a) s = map_option header_Hash (view_headers v s)) \<and>
     (\<forall>s. map_of (expectLedgerHashes a) (s - 1) = map_option (header_PreviousLedgerHash \<circ> Header) (view_headers v s)) \<and>
     (\<forall>s. map_of (expectTxSetHashes a) s = map_option (scp_TxSetHash \<circ> header_ScpValue \<circ> Header) (view_headers v s)) \<and>
     (\<forall>s. map_of (expectTxResultSetHashes a) s = map_option (header_TxSetResultHash \<circ> Header) (view_headers v s)) \<and>
     (\<forall>s. map_option Inr (map_of (actualTxSetHashes a) s) = map_option (history_entry_hash H) (view_txs v s)) \<and>
     (\<forall>s. map_option Some (map_of (actualTxResultSetHashes a) s) = map_option (HashXdr_results H \<circ> thre_TxResultSet) (view_results v s)) \<and>
     (\<forall>s e. view_headers v s = Some e \<longrightarrow> header_LedgerSeq (Header e) = s \<and> HashXdr_header H (Header e) = Some (header_Hash e)) \<and>
     distinct (map fst (expectLedgerHashes a)) \<and> distinct (map fst (expectTxSetHashes a)) \<and> distinct (map fst (expectTxResultSetHashes a)) \<and>
     invalidBuckets a = 0"

lemma tracks_new: "tracks H (new_archive p f) empty_view"
  by (simp add: tracks_def new_archive_def empty_view_def)

lemma tracks_event:
  assumes "tracks H a v" "note_event H a ev = Inr a'"
  shows "tracks H a' (view_event v ev)"
proof (cases ev)
  case (HeaderEvent e)
  then have h: "HashXdr_header H (Header e) = Some (header_Hash e)"
    using assms(2) by (auto simp: VerifyLedgerHeaderHistoryEntry_def split: option.splits if_splits)
  then have a': "a' = a\<lparr>actualLedgerHashes := AList.update (header_LedgerSeq (Header e)) (header_Hash e) (actualLedgerHashes a),
      expectLedgerHashes := AList.update (header_LedgerSeq (Header e) - 1) (header_PreviousLedgerHash (Header e)) (expectLedgerHashes a),
      expectTxSetHashes := AList.update (header_LedgerSeq (Header e)) (scp_TxSetHash (header_ScpValue (Header e))) (expectTxSetHashes a),
      expectTxResultSetHashes := AList.update (header_LedgerSeq (Header e)) (header_TxSetResultHash (Header e)) (expectTxResultSetHashes a)\<rparr>"
    using assms(2) HeaderEvent by (simp add: VerifyLedgerHeaderHistoryEntry_def Let_def)
  show ?thesis using assms(1) h unfolding HeaderEvent a' tracks_def
    by (simp add: update_conv' distinct_update)
next
  case (TxEvent e)
  then obtain h where h: "history_entry_hash H e = Inr h"
      and a': "a' = a\<lparr>actualTxSetHashes := AList.update (the_LedgerSeq e) h (actualTxSetHashes a)\<rparr>"
    using assms(2) by (auto simp: VerifyTransactionHistoryEntry_def bind_result_eq_Inr)
  show ?thesis using assms(1) h unfolding TxEvent a' tracks_def by (simp add: update_conv')
next
  case (ResultEvent e)
  then obtain h where h: "HashXdr_results H (thre_TxResultSet e) = Some h"
      and a': "a' = a\<lparr>actualTxResultSetHashes := AList.update (thre_LedgerSeq e) h (actualTxResultSetHashes a)\<rparr>"
    using assms(2) by (auto simp: VerifyTransactionHistoryResultEntry_def split: option.splits)
  show ?thesis using assms(1) h unfolding ResultEvent a' tracks_def by (simp add: update_conv')
qed

lemma tracks_run: "tracks H a v \<Longrightarrow> verify_run H a evs = Inr a' \<Longrightarrow> tracks H a' (foldl view_event v evs)"
proof (induction evs arbitrary: a v)
  case (Cons ev evs)
  then show ?case by (auto simp: bind_result_eq_Inr intro: tracks_event)
qed simp

lemma verify_run_tracks: "verify_run H (new_archive p f) evs = Inr a \<Longrightarrow> tracks H a (view_of evs)"
  unfolding view_of_def by (rule tracks_run [OF tracks_new])


subsection \<open>What a clean report means\<close>

text \<open>
  The hash chain: every header names the hash of the one before it, which may be missing only before the first
  ledger (or when the header names the zero hash, which is what a missing entry reads as).
\<close>

definition chain_ok :: "(32 word \<rightharpoonup> LedgerHeaderHistoryEntry) \<Rightarrow> bool" where
  "chain_ok hs \<longleftrightarrow>
     (\<forall>s e. hs s = Some e \<longrightarrow>
        (case hs (s - 1) of
           Some p \<Rightarrow> header_Hash p = header_PreviousLedgerHash (Header e)
         | None \<Rightarrow> (\<forall>s' \<in> dom hs. s - 1 \<le> s' - 1) \<or> header_PreviousLedgerHash (Header e) = zero_hash))"

definition is_empty_txset :: "'x hasher \<Rightarrow> Hash \<Rightarrow> Hash \<Rightarrow> bool" where
  "is_empty_txset H previous h \<longleftrightarrow>
     h = sha256 H previous \<or>
     (\<exists>g. HashXdr_generalized H (makeEmptyGeneralizedSequentialTxSet previous) = Some g \<and>
        (h = g \<or> HashXdr_generalized H (makeEmptyGeneralizedParallelTxSet previous) = Some h))"

definition txs_ok :: "'x hasher \<Rightarrow> 'x archive_view \<Rightarrow> bool" where
  "txs_ok H v \<longleftrightarrow>
     (\<forall>s e. view_headers v s = Some e \<longrightarrow>
        (let h = scp_TxSetHash (header_ScpValue (Header e)) in
         case view_txs v s of
           Some t \<Rightarrow> history_entry_hash H t = Inr h
         | None \<Rightarrow> is_empty_txset H (header_PreviousLedgerHash (Header e)) h \<or> h = zero_hash))"

definition results_ok :: "'x hasher \<Rightarrow> 'x archive_view \<Rightarrow> bool" where
  "results_ok H v \<longleftrightarrow>
     (\<forall>s e. view_headers v s = Some e \<longrightarrow>
        (let h = header_TxSetResultHash (Header e) in
         case view_results v s of
           Some t \<Rightarrow> HashXdr_results H (thre_TxResultSet t) = Some h
         | None \<Rightarrow> h = EmptyXdrArrayHash \<or> h = zero_hash))"

lemma compareHashMaps_zero:
  "distinct (map fst expect) \<Longrightarrow>
     compareHashMaps expect actual passOn = 0 \<longleftrightarrow> (\<forall>l h. map_of expect l = Some h \<longrightarrow> \<not> mismatched actual passOn (l, h))"
  by (auto simp: compareHashMaps_def filter_empty_conv map_of_eq_Some_iff)

lemma fold_min:
  fixes x :: "'a::linorder"
  shows "(\<forall>y \<in> insert x (set ks). foldl (\<lambda>low i. if i < low then i else low) x ks \<le> y) \<and>
    foldl (\<lambda>low i. if i < low then i else low) x ks \<in> insert x (set ks)"
proof (induction ks arbitrary: x)
  case (Cons k ks)
  show ?case using Cons [of "if k < x then k else x"] by (auto simp: not_less split: if_splits intro: order_trans)
qed simp

lemma lowest_expected_facts:
  shows lowest_expected_min: "l \<in> fst ` set m \<Longrightarrow> lowest_expected m \<le> l"
    and lowest_expected_mem: "m \<noteq> [] \<Longrightarrow> lowest_expected m \<in> fst ` set m"
proof -
  note f = fold_min [of "0xffffffff :: 32 word" "map fst m"]
  show min: "lowest_expected m \<le> l" if "l \<in> fst ` set m" for l using f that by (auto simp: lowest_expected_def)
  assume "m \<noteq> []"
  then obtain l where l: "l \<in> fst ` set m" by (cases m) auto
  have "x \<le> 0xffffffff" for x :: "32 word" using unat_32 [of x] by (simp add: word_le_nat_alt)
  then have "lowest_expected m = 0xffffffff \<Longrightarrow> l = 0xffffffff" using min [OF l] by (metis antisym)
  moreover have "lowest_expected m = 0xffffffff \<or> lowest_expected m \<in> fst ` set m" using f by (simp add: lowest_expected_def)
  ultimately show "lowest_expected m \<in> fst ` set m" using l by metis
qed

lemma lowest_iff:
  assumes "tracks H a v" "view_headers v s = Some e"
  shows "s - 1 = lowest_expected (expectLedgerHashes a) \<longleftrightarrow> (\<forall>s' \<in> dom (view_headers v). s - 1 \<le> s' - 1)"
proof -
  have keys: "l \<in> fst ` set (expectLedgerHashes a) \<longleftrightarrow> l + 1 \<in> dom (view_headers v)" for l
  proof -
    have "map_of (expectLedgerHashes a) (l + 1 - 1) = map_option (header_PreviousLedgerHash \<circ> Header) (view_headers v (l + 1))"
      using assms(1) unfolding tracks_def by blast
    then show ?thesis by (auto simp: domIff simp flip: dom_map_of_conv_image_fst)
  qed
  have s: "s - 1 \<in> fst ` set (expectLedgerHashes a)" using keys assms(2) by auto
  then have "expectLedgerHashes a \<noteq> []" by auto
  from lowest_expected_mem [OF this] show ?thesis
    using lowest_expected_min keys s by (metis add_diff_cancel_right' antisym diff_add_cancel)
qed


lemma not_mismatched:
  "\<not> mismatched actual passOn (l, h) \<longleftrightarrow> (case map_of actual l of None \<Rightarrow> passOn l h \<or> h = zero_hash | Some x \<Rightarrow> x = h)"
  by (auto simp: mismatched_def split: option.splits)

lemma ledgers_clean_iff:
  assumes "tracks H a v"
  shows "compareHashMaps (expectLedgerHashes a) (actualLedgerHashes a) (\<lambda>l h. l = lowest_expected (expectLedgerHashes a)) = 0 \<longleftrightarrow>
    chain_ok (view_headers v)"
proof -
  let ?bad = "mismatched (actualLedgerHashes a) (\<lambda>l h. l = lowest_expected (expectLedgerHashes a))"
  have act: "map_of (actualLedgerHashes a) s = map_option header_Hash (view_headers v s)" for s using assms unfolding tracks_def by blast
  have exp: "map_of (expectLedgerHashes a) (s - 1) = map_option (header_PreviousLedgerHash \<circ> Header) (view_headers v s)" for s
    using assms unfolding tracks_def by blast
  have "(\<forall>l h. map_of (expectLedgerHashes a) l = Some h \<longrightarrow> \<not> ?bad (l, h)) \<longleftrightarrow>
      (\<forall>s h. map_of (expectLedgerHashes a) (s - 1) = Some h \<longrightarrow> \<not> ?bad (s - 1, h))"
    by (metis add_diff_cancel_right')
  also have "\<dots> \<longleftrightarrow> (\<forall>s e. view_headers v s = Some e \<longrightarrow> \<not> ?bad (s - 1, header_PreviousLedgerHash (Header e)))"
    using exp by (simp only: map_option_eq_Some comp_def) blast
  also have "\<dots> \<longleftrightarrow> chain_ok (view_headers v)"
    unfolding chain_ok_def
  proof (intro all_cong1 imp_cong refl)
    fix s e
    assume e: "view_headers v s = Some e"
    show "(\<not> ?bad (s - 1, header_PreviousLedgerHash (Header e))) = (case view_headers v (s - 1) of
        Some p \<Rightarrow> header_Hash p = header_PreviousLedgerHash (Header e)
      | None \<Rightarrow> (\<forall>s' \<in> dom (view_headers v). s - 1 \<le> s' - 1) \<or> header_PreviousLedgerHash (Header e) = zero_hash)"
      using lowest_iff [OF assms e] act [of "s - 1"] by (auto simp: mismatched_def split: option.splits)
  qed
  finally show ?thesis using assms by (subst compareHashMaps_zero) (simp_all add: tracks_def)
qed

lemma empty_txset_iff:
  assumes "tracks H a v" "view_headers v s = Some e"
  shows "empty_txset H (expectLedgerHashes a) s h \<longleftrightarrow> is_empty_txset H (header_PreviousLedgerHash (Header e)) h"
proof -
  have "map_of (expectLedgerHashes a) (s - 1) = Some (header_PreviousLedgerHash (Header e))"
    using assms unfolding tracks_def by simp
  then show ?thesis by (auto simp: empty_txset_def is_empty_txset_def HashEmptyTxSet_def Let_def split: option.splits)
qed

lemma txs_clean_iff:
  assumes "tracks H a v"
  shows "compareHashMaps (expectTxSetHashes a) (actualTxSetHashes a) (empty_txset H (expectLedgerHashes a)) = 0 \<longleftrightarrow> txs_ok H v"
proof -
  let ?bad = "mismatched (actualTxSetHashes a) (empty_txset H (expectLedgerHashes a))" and ?h = "\<lambda>e. scp_TxSetHash (header_ScpValue (Header e))"
  have act: "map_option Inr (map_of (actualTxSetHashes a) s) = map_option (history_entry_hash H) (view_txs v s)" for s
    using assms unfolding tracks_def by blast
  have exp: "map_of (expectTxSetHashes a) s = map_option ?h (view_headers v s)" for s
    using assms unfolding tracks_def by (simp add: comp_def)
  have "(\<forall>l h. map_of (expectTxSetHashes a) l = Some h \<longrightarrow> \<not> ?bad (l, h)) \<longleftrightarrow> (\<forall>s e. view_headers v s = Some e \<longrightarrow> \<not> ?bad (s, ?h e))"
    using exp by (simp only: map_option_eq_Some comp_def) blast
  also have "\<dots> \<longleftrightarrow> txs_ok H v"
    unfolding txs_ok_def
  proof (intro all_cong1 imp_cong refl)
    fix s e
    assume e: "view_headers v s = Some e"
    show "(\<not> ?bad (s, ?h e)) = (let h = ?h e in case view_txs v s of Some t \<Rightarrow> history_entry_hash H t = Inr h
        | None \<Rightarrow> is_empty_txset H (header_PreviousLedgerHash (Header e)) h \<or> h = zero_hash)"
    proof (cases "view_txs v s")
      case (Some t)
      then obtain h where "map_of (actualTxSetHashes a) s = Some h" "history_entry_hash H t = Inr h" using act [of s] by (cases "map_of (actualTxSetHashes a) s") auto
      then show ?thesis using Some by (simp add: not_mismatched)
    qed (use act [of s] empty_txset_iff [OF assms e] in \<open>simp add: not_mismatched Let_def\<close>)
  qed
  finally show ?thesis using assms by (subst compareHashMaps_zero) (simp_all add: tracks_def)
qed

lemma results_clean_iff:
  assumes "tracks H a v"
  shows "compareHashMaps (expectTxResultSetHashes a) (actualTxResultSetHashes a) (\<lambda>l h. h = EmptyXdrArrayHash) = 0 \<longleftrightarrow> results_ok H v"
proof -
  let ?bad = "mismatched (actualTxResultSetHashes a) (\<lambda>l h. h = EmptyXdrArrayHash)" and ?h = "\<lambda>e. header_TxSetResultHash (Header e)"
  have act: "map_option Some (map_of (actualTxResultSetHashes a) s) = map_option (HashXdr_results H \<circ> thre_TxResultSet) (view_results v s)" for s
    using assms unfolding tracks_def by blast
  have exp: "map_of (expectTxResultSetHashes a) s = map_option ?h (view_headers v s)" for s
    using assms unfolding tracks_def by (simp add: comp_def)
  have "(\<forall>l h. map_of (expectTxResultSetHashes a) l = Some h \<longrightarrow> \<not> ?bad (l, h)) \<longleftrightarrow> (\<forall>s e. view_headers v s = Some e \<longrightarrow> \<not> ?bad (s, ?h e))"
    using exp by (simp only: map_option_eq_Some comp_def) blast
  also have "\<dots> \<longleftrightarrow> results_ok H v"
    unfolding results_ok_def
  proof (intro all_cong1 imp_cong refl)
    fix s e
    show "(\<not> ?bad (s, ?h e)) = (let h = ?h e in case view_results v s of Some t \<Rightarrow> HashXdr_results H (thre_TxResultSet t) = Some h
        | None \<Rightarrow> h = EmptyXdrArrayHash \<or> h = zero_hash)"
    proof (cases "view_results v s")
      case (Some t)
      then obtain h where "map_of (actualTxResultSetHashes a) s = Some h" "HashXdr_results H (thre_TxResultSet t) = Some h"
        using act [of s] by (cases "map_of (actualTxResultSetHashes a) s") auto
      then show ?thesis using Some by (simp add: not_mismatched)
    qed (use act [of s] in \<open>simp add: not_mismatched Let_def\<close>)
  qed
  finally show ?thesis using assms by (subst compareHashMaps_zero) (simp_all add: tracks_def)
qed

lemma report_clean_iff:
  assumes "verify_run H (new_archive passphrase frequency) evs = Inr a"
  shows "snd (ReportInvalid H a) = 0 \<longleftrightarrow> chain_ok (view_headers (view_of evs)) \<and> txs_ok H (view_of evs) \<and> results_ok H (view_of evs)"
proof -
  have t: "tracks H a (view_of evs)" using verify_run_tracks [OF assms] .
  moreover have "invalidBuckets a = 0" using t by (simp add: tracks_def)
  ultimately show ?thesis using ledgers_clean_iff [OF t] txs_clean_iff [OF t] results_clean_iff [OF t]
    by (simp add: ReportInvalid_def Let_def)
qed


text \<open>A concrete hasher and two ledgers whose headers are chained by it, the later one read first.\<close>

definition witness_header_hash :: "LedgerHeader \<Rightarrow> Hash option" where
  "witness_header_hash h = Some (ucast (header_LedgerSeq h) # scp_TxSetHash (header_ScpValue h))"

definition witness_hasher :: "unit hasher" where
  "witness_hasher =
     \<lparr>sha256 = (\<lambda>bs. 5 # bs), HashXdr_header = witness_header_hash, Marshal_envelope = (\<lambda>_. Some []),
      HashXdr_generalized = (\<lambda>g. Some [6]), HashXdr_results = (\<lambda>rs. Some [word_of_nat (length rs)])\<rparr>"

definition witness_chain_entry :: "32 word \<Rightarrow> Hash \<Rightarrow> Hash \<Rightarrow> LedgerHeaderHistoryEntry" where
  "witness_chain_entry seq previous txset =
     \<lparr>header_Hash = ucast seq # txset, Header = chain_header 20 seq previous txset EmptyXdrArrayHash\<rparr>"

definition witness_events :: "unit verify_event list" where
  "witness_events = [HeaderEvent (witness_chain_entry 65 [64, 6] [6]), HeaderEvent (witness_chain_entry 64 [1] [6])]"

lemma witness_run_ok: "\<exists>a. verify_run witness_hasher (new_archive [] 0) witness_events = Inr a"
  by (simp add: witness_events_def VerifyLedgerHeaderHistoryEntry_def witness_hasher_def witness_header_hash_def witness_chain_entry_def chain_header_def Let_def)

lemma witness_view:
  "view_headers (view_of witness_events) = [65 \<mapsto> witness_chain_entry 65 [64, 6] [6], 64 \<mapsto> witness_chain_entry 64 [1] [6]]"
  "view_txs (view_of witness_events) = Map.empty" "view_results (view_of witness_events) = Map.empty"
  by (simp_all add: view_of_def witness_events_def empty_view_def witness_chain_entry_def chain_header_def)

lemma witness_clean:
  "\<exists>a. verify_run witness_hasher (new_archive [] 0) witness_events = Inr a \<and> snd (ReportInvalid witness_hasher a) = 0"
proof -
  obtain a where a: "verify_run witness_hasher (new_archive [] 0) witness_events = Inr a" using witness_run_ok by blast
  have "chain_ok (view_headers (view_of witness_events))"
    by (auto simp: chain_ok_def witness_view witness_chain_entry_def chain_header_def split: if_splits)
  moreover have "txs_ok witness_hasher (view_of witness_events)" "results_ok witness_hasher (view_of witness_events)"
    by (auto simp: txs_ok_def results_ok_def is_empty_txset_def witness_view witness_chain_entry_def chain_header_def witness_hasher_def split: if_splits)
  ultimately show ?thesis using report_clean_iff [OF a] a by blast
qed

text \<open>
  C26: After any sequence of successful verification steps, \<^verbatim>\<open>ReportInvalid\<close> finds nothing exactly when the headers
  that were read form a hash chain, and the transaction sets and the results of every ledger have the hashes that
  its header states (or are absent where the header states an empty one).
\<close>
theorem ReportInvalid_exact:
  assumes "verify_run H (new_archive passphrase frequency) evs = Inr a"
  shows "snd (ReportInvalid H a) = 0 \<longleftrightarrow> chain_ok (view_headers (view_of evs)) \<and> txs_ok H (view_of evs) \<and> results_ok H (view_of evs)"
  by (rule report_clean_iff [OF assms])

theorem ReportInvalid_exact_witness:
  "\<exists>a. verify_run witness_hasher (new_archive [] 0) witness_events = Inr a \<and>
     (snd (ReportInvalid witness_hasher a) = 0 \<longleftrightarrow>
       chain_ok (view_headers (view_of witness_events)) \<and> txs_ok witness_hasher (view_of witness_events) \<and> results_ok witness_hasher (view_of witness_events))"
  using witness_run_ok ReportInvalid_exact [of witness_hasher "[]" 0 witness_events] by blast

text \<open>
  C25: A clean report pins the history: when two archives verify without invalid ledgers, hold the same header for one
  ledger and both hold all ledgers from \<open>m\<close> to it, then they hold the same headers from \<open>m\<close> on, unless two of
  their headers collide under the hash function.
\<close>
theorem verified_chain_unique:
  assumes "verify_run H (new_archive p1 f1) evs1 = Inr a1" and "snd (ReportInvalid H a1) = 0"
    and "verify_run H (new_archive p2 f2) evs2 = Inr a2" and "snd (ReportInvalid H a2) = 0"
    and "\<forall>e \<in> ran (view_headers (view_of evs1)). \<forall>e' \<in> ran (view_headers (view_of evs2)).
      HashXdr_header H (Header e) = HashXdr_header H (Header e') \<longrightarrow> Header e = Header e'"
    and "view_headers (view_of evs1) n = view_headers (view_of evs2) n"
    and "\<forall>s. m \<le> s \<and> s \<le> n \<longrightarrow> s \<in> dom (view_headers (view_of evs1)) \<and> s \<in> dom (view_headers (view_of evs2))"
    and "m \<le> s" and "s \<le> n"
  shows "view_headers (view_of evs1) s = view_headers (view_of evs2) s"
proof -
  let ?h1 = "view_headers (view_of evs1)" and ?h2 = "view_headers (view_of evs2)"
  have chain: "chain_ok ?h1" "chain_ok ?h2" using assms(2,4) report_clean_iff [OF assms(1)] report_clean_iff [OF assms(3)] by blast+
  have hashed: "HashXdr_header H (Header e) = Some (header_Hash e)" if "?h1 s = Some e \<or> ?h2 s = Some e" for s e
    using that verify_run_tracks [OF assms(1)] verify_run_tracks [OF assms(3)] unfolding tracks_def by blast
  have step: "?h1 (s - 1) = ?h2 (s - 1)" if eq: "?h1 s = ?h2 s" and le: "m \<le> s - 1" "s - 1 \<le> n" "s \<le> n" "m \<le> s" for s
  proof -
    obtain e e1 e2 where e: "?h1 s = Some e" "?h2 s = Some e" "?h1 (s - 1) = Some e1" "?h2 (s - 1) = Some e2"
      using assms(7) eq le by (metis domD)
    then have "header_Hash e1 = header_Hash e2" using chain by (fastforce simp: chain_ok_def)
    moreover have "HashXdr_header H (Header e1) = Some (header_Hash e1)" "HashXdr_header H (Header e2) = Some (header_Hash e2)" using hashed e by blast+
    moreover have "e1 \<in> ran ?h1" "e2 \<in> ran ?h2" using e by (auto intro: ranI)
    ultimately have "Header e1 = Header e2" using assms(5) by simp
    then show ?thesis using e \<open>header_Hash e1 = header_Hash e2\<close> by simp
  qed
  have "k \<le> unat n - unat m \<Longrightarrow> ?h1 (n - word_of_nat k) = ?h2 (n - word_of_nat k)" for k
  proof (induction k)
    case 0
    then show ?case using assms(6) by simp
  next
    case (Suc k)
    have mn: "unat m \<le> unat n" using assms(8,9) by (simp add: word_le_nat_alt)
    have k: "unat (word_of_nat j :: 32 word) = j" if "j \<le> Suc k" for j using that Suc.prems unat_32 [of n] by (simp add: unat_of_nat)
    have u: "unat (n - word_of_nat j) = unat n - j" if "j \<le> Suc k" for j
      using k [OF that] that Suc.prems by (subst unat_sub) (simp_all add: word_le_nat_alt)
    have "?h1 (n - word_of_nat k - 1) = ?h2 (n - word_of_nat k - 1)"
      using Suc u [of k] u [of "Suc k"] mn by (intro step) (simp_all add: word_le_nat_alt diff_diff_eq add.commute)
    then show ?case by (simp add: diff_diff_eq add.commute)
  qed
  from this [of "unat n - unat s"] show ?thesis using assms(8,9) by (simp add: word_le_nat_alt of_nat_diff)
qed


theorem verified_chain_unique_witness:
  "view_headers (view_of witness_events) 64 = view_headers (view_of (rev witness_events)) 64"
proof -
  have view: "view_headers (view_of (rev witness_events)) = view_headers (view_of witness_events)"
    by (auto simp: view_of_def witness_events_def empty_view_def witness_chain_entry_def chain_header_def)
  obtain a where a: "verify_run witness_hasher (new_archive [] 0) witness_events = Inr a" "snd (ReportInvalid witness_hasher a) = 0"
    using witness_clean by blast
  obtain b where b: "verify_run witness_hasher (new_archive [] 0) (rev witness_events) = Inr b"
    by (simp add: witness_events_def VerifyLedgerHeaderHistoryEntry_def witness_hasher_def witness_header_hash_def witness_chain_entry_def chain_header_def Let_def)
  have "view_txs (view_of (rev witness_events)) = Map.empty" "view_results (view_of (rev witness_events)) = Map.empty"
    by (simp_all add: view_of_def witness_events_def empty_view_def)
  then have "snd (ReportInvalid witness_hasher b) = 0"
    using a report_clean_iff [OF a(1)] report_clean_iff [OF b] view by (simp add: txs_ok_def results_ok_def witness_view)
  from verified_chain_unique [OF a b this, of 65 64 64] show ?thesis
    by (auto simp: view witness_view ran_def witness_hasher_def witness_header_hash_def witness_chain_entry_def chain_header_def split: if_splits)
qed

section \<open>Transaction sets\<close>

lemma marshal_all_Some: "(\<exists>bs. marshal_all H xs = Some bs) \<longleftrightarrow> (\<forall>x \<in> set xs. Marshal_envelope H x \<noteq> None)"
  by (induction xs) (auto split: option.splits)

text \<open>
  The hash of a transaction set does not depend on the order in which the file lists the transactions, as long as
  no two different envelopes have the same hash.
\<close>
lemma HashTxSet_order:
  assumes "mset (ts_Txs t) = mset (ts_Txs t')" and "ts_PreviousLedgerHash t = ts_PreviousLedgerHash t'"
    and "inj_on (\<lambda>env. hash_number (sha256 H (the (Marshal_envelope H env)))) (set (ts_Txs t))"
  shows "HashTxSet H t = HashTxSet H t'"
proof -
  let ?k = "\<lambda>env. hash_number (sha256 H (the (Marshal_envelope H env)))"
  have "sort_key ?k (ts_Txs t) = sort_key ?k (ts_Txs t')"
    using assms(1,3) by (intro sort_key_inj_key_eq) simp_all
  moreover have "(marshal_all H (ts_Txs t) = None) = (marshal_all H (ts_Txs t') = None)"
    using marshal_all_Some [of H "ts_Txs t"] marshal_all_Some [of H "ts_Txs t'"] mset_eq_setD [OF assms(1)] by (metis not_None_eq)
  ultimately show ?thesis using assms(2) by (auto simp: HashTxSet_def SortTxsForHash_def split: option.splits)
qed

definition tag_hasher :: "unit hasher" where
  "tag_hasher = witness_hasher\<lparr>Marshal_envelope := (\<lambda>e. case e of EnvelopeOther n \<Rightarrow> Some [word_of_int n] | _ \<Rightarrow> None)\<rparr>"

lemma HashTxSet_order_witness:
  "HashTxSet tag_hasher \<lparr>ts_PreviousLedgerHash = [1], ts_Txs = [EnvelopeOther 8, EnvelopeOther 7]\<rparr> =
     HashTxSet tag_hasher \<lparr>ts_PreviousLedgerHash = [1], ts_Txs = [EnvelopeOther 7, EnvelopeOther 8]\<rparr>"
  by (rule HashTxSet_order) (simp_all add: tag_hasher_def witness_hasher_def hash_number_def add_mset_commute)

section \<open>Ledgers by close time\<close>

lemma genesis_index:
  assumes "genesisLedgerSeq \<le> e"
  shows "unat (e - genesisLedgerSeq + 1) = unat e - 1"
    and "i < unat (e - genesisLedgerSeq + 1) \<Longrightarrow> unat (genesisLedgerSeq + word_of_nat i) = i + 2"
    and "i < unat (e - genesisLedgerSeq + 1) \<Longrightarrow> genesisLedgerSeq \<le> genesisLedgerSeq + word_of_nat i \<and> genesisLedgerSeq + word_of_nat i \<le> e"
    and "genesisLedgerSeq \<le> s \<Longrightarrow> genesisLedgerSeq + word_of_nat (unat s - 2) = s"
proof -
  have e: "2 \<le> unat e" using assms(1) by (simp add: genesisLedgerSeq_def word_le_nat_alt)
  then have n: "unat (e - genesisLedgerSeq + 1) = unat e - 1"
    using unat_32 [of e] by (simp add: genesisLedgerSeq_def unat_word_ariths unat_sub word_le_nat_alt)
  then show "unat (e - genesisLedgerSeq + 1) = unat e - 1" .
  show u: "unat (genesisLedgerSeq + word_of_nat i) = i + 2" if "i < unat (e - genesisLedgerSeq + 1)"
    using that n unat_32 [of e] by (simp add: genesisLedgerSeq_def unat_word_ariths unat_of_nat)
  show "genesisLedgerSeq \<le> genesisLedgerSeq + word_of_nat i \<and> genesisLedgerSeq + word_of_nat i \<le> e" if "i < unat (e - genesisLedgerSeq + 1)"
    using that n u [OF that] e by (simp add: genesisLedgerSeq_def word_le_nat_alt)
  show "genesisLedgerSeq + word_of_nat (unat s - 2) = s" if "genesisLedgerSeq \<le> s"
    using that unat_32 [of s] by (simp add: word_unat_eq_iff genesisLedgerSeq_def word_le_nat_alt unat_word_ariths unat_of_nat)
qed



definition witness_has :: HistoryArchiveState where
  "witness_has = \<lparr>Version = 1, Server = [], CurrentLedger = 3, NetworkPassphrase = [], CurrentBuckets = [], HotArchiveBuckets = []\<rparr>"


end
