(* ===== verification/Archive_Scan.thy ===== *)
theory Archive_Scan
  imports History_Archive
begin

text \<open>
  The scan of an archive for its checkpoint files (\<^verbatim>\<open>historyarchive/scan.go\<close>): the slow scan asks for every file, the
  fast scan lists directories and reads the checkpoints off the file names. Requests go through a channel to
  workers that run at the same time; the definitions take the requests in the order of the channel, and the
  properties hold for the requests in any order. The storage is a parameter: \<open>storage_ok\<close> states what listing and
  asking mean for the files that exist.
\<close>

section \<open>Definitions\<close>

record 'e storage =
  sto_Exists :: "string \<Rightarrow> ('e, bool) result"
  sto_ListFiles :: "string \<Rightarrow> string list \<times> nat"
  sto_CanListFiles :: bool

definition storage_ok :: "'e storage \<Rightarrow> string set \<Rightarrow> bool" where
  "storage_ok S files \<longleftrightarrow>
     (\<forall>s. sto_Exists S s = Inr (s \<in> files)) \<and>
     (\<forall>p. set (fst (sto_ListFiles S p)) = {s \<in> files. prefix (p @ ''/'') s})"

record CommandOptions =
  Concurrency :: nat
  opt_Range :: Range
  opt_Verify :: bool
  SkipOptional :: bool

subsection \<open>File names\<close>

definition is_lower_hex :: "char \<Rightarrow> bool" where
  "is_lower_hex ch \<longleftrightarrow> ch \<in> set ''0123456789abcdef''"

text \<open>\<open>hexPrefixPat\<close>: three directories of two hexadecimal digits each.\<close>

fun hex_dirs :: "string \<Rightarrow> bool" where
  "hex_dirs [s0, a1, a2, s1, b1, b2, s2, c1, c2, s3] \<longleftrightarrow>
     s0 = CHR ''/'' \<and> s1 = CHR ''/'' \<and> s2 = CHR ''/'' \<and> s3 = CHR ''/'' \<and> list_all is_lower_hex [a1, a2, b1, b2, c1, c2]"
| "hex_dirs _ \<longleftrightarrow> False"

definition hex_number :: "string \<Rightarrow> nat" where
  "hex_number s = foldl (\<lambda>n ch. 16 * n + (case hex_value ch of Some v \<Rightarrow> v | None \<Rightarrow> 0)) 0 s"

text \<open>
  The regular expression of \<^verbatim>\<open>ListCategoryCheckpoints\<close> matches a fixed number of characters and is anchored at the end,
  so it is tried at one place; the group is parsed as a hexadecimal number of 8 digits, which fits.
\<close>

definition match_checkpoint :: "string \<Rightarrow> string \<Rightarrow> 32 word option" where
  "match_checkpoint cat s =
     (let ext = categoryExt cat;
          n = length cat + 10 + length cat + 1 + 8 + 1 + length ext;
          t = drop (length s - n) s;
          d = drop (length cat) t;
          f = drop 10 d;
          x = drop (length cat + 1) f
      in if n \<le> length s \<and> take (length cat) t = cat \<and> hex_dirs (take 10 d) \<and> take (length cat + 1) f = cat @ ''-'' \<and>
            list_all is_lower_hex (take 8 x) \<and> drop 8 x = ''.'' @ ext
         then Some (word_of_nat (hex_number (take 8 x))) else None)"

definition ListCategoryCheckpoints :: "'e storage \<Rightarrow> string \<Rightarrow> string \<Rightarrow> 32 word list \<times> nat" where
  "ListCategoryCheckpoints S cat pth =
     (let (names, errs) = sto_ListFiles S (path_Join [cat, pth]) in (List.map_filter (match_checkpoint cat) names, errs))"

subsection \<open>The slow scan\<close>

definition noteError :: "'e option \<Rightarrow> nat" where
  "noteError e = (case e of None \<Rightarrow> 0 | Some _ \<Rightarrow> 1)"

definition scanned_categories :: "CommandOptions \<Rightarrow> string list" where
  "scanned_categories opts = filter (\<lambda>cat. \<not> (SkipOptional opts \<and> \<not> categoryRequired cat)) Categories"

type_synonym 'e verifier = "Archive \<Rightarrow> string \<Rightarrow> 32 word \<Rightarrow> Archive \<times> 'e archive_error option"

text \<open>One request; an error of the storage panics.\<close>

definition slow_request :: "'e storage \<Rightarrow> 'e verifier \<Rightarrow> bool \<Rightarrow> Archive \<times> nat \<Rightarrow> string \<times> 32 word \<Rightarrow> ('e, Archive \<times> nat) result" where
  "slow_request S vcc verify = (\<lambda>(arch, errs) (category, checkpoint).
     bind_result (sto_Exists S (CategoryCheckpointPath category checkpoint)) (\<lambda>exists.
       let arch = NoteCheckpointFile arch category checkpoint exists in
       if exists \<and> verify then let (arch', e) = vcc arch category checkpoint in Inr (arch', errs + noteError e)
       else Inr (arch, errs)))"

fun slow_requests :: "'e storage \<Rightarrow> 'e verifier \<Rightarrow> bool \<Rightarrow> Archive \<times> nat \<Rightarrow> (string \<times> 32 word) list \<Rightarrow> ('e, Archive \<times> nat) result" where
  "slow_requests S vcc verify st [] = Inr st"
| "slow_requests S vcc verify st (r # rs) = bind_result (slow_request S vcc verify st r) (\<lambda>st'. slow_requests S vcc verify st' rs)"

definition slow_channel :: "Archive \<Rightarrow> CommandOptions \<Rightarrow> (string \<times> 32 word) list option" where
  "slow_channel arch opts =
     map_option (\<lambda>cs. concat (map (\<lambda>cat. map (Pair cat) cs) (scanned_categories opts)))
       (GenerateCheckpoints (opt_Range opts) (arch_checkpointManager arch))"

datatype 'e scan_error = ZeroConcurrency | ScanErrors nat | ScanPanic 'e | ScanHangs | ScanRoot "'e archive_error"

definition scan_result :: "Archive \<times> nat \<Rightarrow> Archive \<times> 'e scan_error option" where
  "scan_result = (\<lambda>(arch, errs). (arch, if errs \<noteq> 0 then Some (ScanErrors errs) else None))"

definition ScanCheckpointsSlow :: "'e storage \<Rightarrow> 'e verifier \<Rightarrow> Archive \<Rightarrow> CommandOptions \<Rightarrow> Archive \<times> 'e scan_error option" where
  "ScanCheckpointsSlow S vcc arch opts =
     (if Concurrency opts = 0 then (arch, Some ZeroConcurrency)
      else (case slow_channel arch opts of
              None \<Rightarrow> (arch, Some ScanHangs)
            | Some reqs \<Rightarrow>
                (case slow_requests S vcc (opt_Verify opts) (arch, 0) reqs of
                   Inl e \<Rightarrow> (arch, Some (ScanPanic e))
                 | Inr st \<Rightarrow> scan_result st)))"

subsection \<open>The fast scan\<close>

definition fast_file :: "'e verifier \<Rightarrow> bool \<Rightarrow> Range \<Rightarrow> string \<Rightarrow> Archive \<times> nat \<Rightarrow> 32 word \<Rightarrow> Archive \<times> nat" where
  "fast_file vcc verify r category = (\<lambda>(arch, errs) n.
     if n < Low r \<or> n > High r then (arch, errs)
     else let arch = NoteCheckpointFile arch category n True in
       if verify then let (arch', e) = vcc arch category n in (arch', errs + noteError e) else (arch, errs))"

definition fast_request :: "'e storage \<Rightarrow> 'e verifier \<Rightarrow> bool \<Rightarrow> Range \<Rightarrow> Archive \<times> nat \<Rightarrow> string \<times> string \<Rightarrow> Archive \<times> nat" where
  "fast_request S vcc verify r st = (\<lambda>(category, pathprefix).
     let (ch, es) = ListCategoryCheckpoints S category pathprefix;
         (arch, errs) = foldl (fast_file vcc verify r category) st ch
     in (arch, errs + es))"

definition fast_channel :: "CommandOptions \<Rightarrow> (string \<times> string) list" where
  "fast_channel opts = concat (map (\<lambda>cat. map (Pair cat) (RangePaths (opt_Range opts))) (scanned_categories opts))"

definition ScanCheckpointsFast :: "'e storage \<Rightarrow> 'e verifier \<Rightarrow> Archive \<Rightarrow> CommandOptions \<Rightarrow> Archive \<times> 'e scan_error option" where
  "ScanCheckpointsFast S vcc arch opts =
     (if Concurrency opts = 0 then (arch, Some ZeroConcurrency)
      else scan_result (foldl (fast_request S vcc (opt_Verify opts) (opt_Range opts)) (arch, 0) (fast_channel opts)))"

definition ScanCheckpoints ::
    "'e storage \<Rightarrow> 'e verifier \<Rightarrow> ('e archive_error, HistoryArchiveState) result \<Rightarrow> Archive \<Rightarrow> CommandOptions \<Rightarrow> Archive \<times> CommandOptions \<times> 'e scan_error option" where
  "ScanCheckpoints S vcc rootHAS arch opts =
     (case rootHAS of
        Inl e \<Rightarrow> (arch, opts, Some (ScanRoot e))
      | Inr state \<Rightarrow>
          let opts = opts\<lparr>opt_Range := clamp (opt_Range opts) (HAS_Range state) (arch_checkpointManager arch)\<rparr>;
              (arch', e) = (if sto_CanListFiles S then ScanCheckpointsFast S vcc arch opts else ScanCheckpointsSlow S vcc arch opts)
          in (arch', opts, e))"

section \<open>File names and checkpoints\<close>

lemma hex_digit_props: "is_lower_hex (hex_digit n) \<and> hex_value (hex_digit n) = Some (n mod 16)"
proof -
  have "list_all (\<lambda>k. is_lower_hex (hex_digit k) \<and> hex_value (hex_digit k) = Some k) [0..<16]" by code_simp
  then have "is_lower_hex (hex_digit (n mod 16)) \<and> hex_value (hex_digit (n mod 16)) = Some (n mod 16)" by (simp only: list_all_iff) simp
  then show ?thesis by (simp add: hex_digit_def)
qed

lemma length_hex_fixed [simp]: "length (hex_fixed w n) = w"
  by (induction w arbitrary: n) simp_all

lemma hex_fixed_lower [simp]: "list_all is_lower_hex (hex_fixed w n)"
  by (induction w arbitrary: n) (simp_all add: hex_digit_props)

lemma hex_number_fixed: "hex_number (hex_fixed w n) = n mod 16 ^ w"
proof (induction w arbitrary: n)
  case (Suc w)
  have "hex_number (hex_fixed (Suc w) n) = 16 * (n div 16 mod 16 ^ w) + n mod 16"
    using Suc [of "n div 16"] by (simp add: hex_number_def hex_digit_props)
  also have "\<dots> = n mod 16 ^ Suc w" by (simp add: mod_mult2_eq)
  finally show ?case .
qed (simp add: hex_number_def)

lemma fmt_02x_digits: "fmt_02x b = [hex_digit (unat b div 16), hex_digit (unat b)]"
  by (simp add: fmt_02x_def numeral_2_eq_2)

lemma hex_dirs_Path: "hex_dirs (''/'' @ dir_Path d @ ''/'')"
  by (simp add: path_prefix_simps fmt_02x_digits hex_digit_props)

lemma match_CategoryCheckpointPath: "match_checkpoint cat (CategoryCheckpointPath cat chk) = Some chk"
proof -
  let ?dirs = "''/'' @ dir_Path (CheckpointPrefix chk) @ ''/''" and ?x = "fmt_8x chk"
  have len: "length ?dirs = 10" "length ?x = 8" by (simp_all add: path_prefix_simps fmt_02x_digits fmt_8x_def)
  have path: "CategoryCheckpointPath cat chk = cat @ ?dirs @ (cat @ ''-'') @ ?x @ (''.'' @ categoryExt cat)"
    by (simp add: CategoryCheckpointPath_def path_Join_def)
  have "hex_number ?x = unat chk" using unat_32 [of chk] by (simp add: fmt_8x_def hex_number_fixed)
  then show ?thesis using len hex_dirs_Path [of "CheckpointPrefix chk"] unfolding match_checkpoint_def path Let_def
    by (simp add: fmt_8x_def)
qed


section \<open>Both scans find the same files\<close>

text \<open>What the scans rely on: verification of a file leaves the notes about files alone.\<close>

locale file_verifier =
  fixes vcc :: "'e verifier"
  assumes vcc_files: "checkpointFiles (fst (vcc a cat chk)) = checkpointFiles a"
    and vcc_manager: "arch_checkpointManager (fst (vcc a cat chk)) = arch_checkpointManager a"
begin

lemma slow_request_notes:
  assumes "storage_ok S files"
  shows "\<exists>a e. slow_request S vcc v (arch, n) (cat, chk) = Inr (a, e) \<and> arch_checkpointManager a = arch_checkpointManager arch \<and>
    checkpointFiles a = (checkpointFiles arch)(cat := AList.update chk (CategoryCheckpointPath cat chk \<in> files) (checkpointFiles arch cat))"
proof -
  let ?arch = "NoteCheckpointFile arch cat chk (CategoryCheckpointPath cat chk \<in> files)"
  have ex: "sto_Exists S (CategoryCheckpointPath cat chk) = Inr (CategoryCheckpointPath cat chk \<in> files)" using assms by (simp add: storage_ok_def)
  obtain a e where "vcc ?arch cat chk = (a, e)" by (cases "vcc ?arch cat chk")
  then show ?thesis using vcc_files [of ?arch cat chk] vcc_manager [of ?arch cat chk]
    by (cases "CategoryCheckpointPath cat chk \<in> files"; cases v) (simp_all add: slow_request_def ex NoteCheckpointFile_def Let_def)
qed

lemma slow_requests_notes:
  assumes "storage_ok S files"
  shows "\<exists>a e. slow_requests S vcc v (arch, n) rs = Inr (a, e) \<and> arch_checkpointManager a = arch_checkpointManager arch \<and>
    (\<forall>cat chk. map_of (checkpointFiles a cat) chk =
       (if (cat, chk) \<in> set rs then Some (CategoryCheckpointPath cat chk \<in> files) else map_of (checkpointFiles arch cat) chk))"
proof (induction rs arbitrary: arch n)
  case (Cons r rs)
  obtain cat chk where r: "r = (cat, chk)" by (cases r)
  obtain a e where a: "slow_request S vcc v (arch, n) r = Inr (a, e)" "arch_checkpointManager a = arch_checkpointManager arch"
      "checkpointFiles a = (checkpointFiles arch)(cat := AList.update chk (CategoryCheckpointPath cat chk \<in> files) (checkpointFiles arch cat))"
    using slow_request_notes [OF assms] r by blast
  show ?case using Cons.IH [of a e] a r by (auto simp: update_conv')
qed simp

lemma fast_files_notes:
  "foldl (fast_file vcc v r cat) (arch, n) ch = (a, e) \<Longrightarrow> arch_checkpointManager a = arch_checkpointManager arch \<and>
    (\<forall>c x. map_of (checkpointFiles a c) x = (if c = cat \<and> x \<in> set ch \<and> InRange r x then Some True else map_of (checkpointFiles arch c) x))"
proof (induction ch arbitrary: arch n)
  case (Cons k ch)
  obtain a' e' where a': "fast_file vcc v r cat (arch, n) k = (a', e')" by (cases "fast_file vcc v r cat (arch, n) k")
  have "arch_checkpointManager a' = arch_checkpointManager arch \<and>
      checkpointFiles a' = (if InRange r k then (checkpointFiles arch)(cat := AList.update k True (checkpointFiles arch cat)) else checkpointFiles arch)"
    using a' vcc_files [of "NoteCheckpointFile arch cat k True" cat k] vcc_manager [of "NoteCheckpointFile arch cat k True" cat k]
    by (auto simp: fast_file_def NoteCheckpointFile_def InRange_def not_less Let_def split: if_splits prod.splits)
  then show ?case using Cons.IH [of a' e'] Cons.prems a' by (auto simp: update_conv')
qed simp

lemma fast_requests_notes:
  "foldl (fast_request S vcc v r) (arch, n) reqs = (a, e) \<Longrightarrow> arch_checkpointManager a = arch_checkpointManager arch \<and>
    (\<forall>c x. map_of (checkpointFiles a c) x =
       (if (\<exists>p. (c, p) \<in> set reqs \<and> x \<in> set (fst (ListCategoryCheckpoints S c p))) \<and> InRange r x then Some True else map_of (checkpointFiles arch c) x))"
proof (induction reqs arbitrary: arch n)
  case (Cons q reqs)
  obtain cat p where q: "q = (cat, p)" by (cases q)
  obtain a' e' where a': "foldl (fast_file vcc v r cat) (arch, n) (fst (ListCategoryCheckpoints S cat p)) = (a', e')" by (cases "foldl (fast_file vcc v r cat) (arch, n) (fst (ListCategoryCheckpoints S cat p))")
  then have step: "fast_request S vcc v r (arch, n) q = (a', e' + snd (ListCategoryCheckpoints S cat p))"
    using q by (cases "ListCategoryCheckpoints S cat p") (simp add: fast_request_def Let_def)
  show ?case using Cons.IH [of a'] Cons.prems step fast_files_notes [OF a'] q by auto
qed simp

end

lemma verify_stream_quiet:
  assumes "\<And>a x a'. step a x = Inr a' \<Longrightarrow> checkpointFiles a' = checkpointFiles a \<and> arch_checkpointManager a' = arch_checkpointManager a"
  shows "checkpointFiles (fst (verify_stream step a xs e)) = checkpointFiles a \<and> arch_checkpointManager (fst (verify_stream step a xs e)) = arch_checkpointManager a"
  by (induction xs arbitrary: a) (auto split: sum.splits dest: assms)

lemma verify_file_quiet:
  fixes f :: "('e, ('a, 'e) stream) result"
  assumes "\<And>a x a'. step a x = Inr a' \<Longrightarrow> checkpointFiles a' = checkpointFiles a \<and> arch_checkpointManager a' = arch_checkpointManager a"
  shows "checkpointFiles (fst (verify_file step a f)) = checkpointFiles a \<and> arch_checkpointManager (fst (verify_file step a f)) = arch_checkpointManager a"
proof -
  have "checkpointFiles (fst (verify_stream step a xs e)) = checkpointFiles a \<and> arch_checkpointManager (fst (verify_stream step a xs e)) = arch_checkpointManager a" for xs and e :: "'e option"
    by (rule verify_stream_quiet) (rule assms)
  then show ?thesis by (simp add: verify_file_def split: sum.splits prod.splits)
qed

lemma verify_steps_quiet:
  "VerifyLedgerHeaderHistoryEntry H a x = Inr a' \<Longrightarrow> checkpointFiles a' = checkpointFiles a \<and> arch_checkpointManager a' = arch_checkpointManager a"
  "VerifyTransactionHistoryEntry H a y = Inr a' \<Longrightarrow> checkpointFiles a' = checkpointFiles a \<and> arch_checkpointManager a' = arch_checkpointManager a"
  "VerifyTransactionHistoryResultEntry H a z = Inr a' \<Longrightarrow> checkpointFiles a' = checkpointFiles a \<and> arch_checkpointManager a' = arch_checkpointManager a"
  by (auto simp: VerifyLedgerHeaderHistoryEntry_def VerifyTransactionHistoryEntry_def VerifyTransactionHistoryResultEntry_def bind_result_eq_Inr Let_def
      split: option.splits if_splits)

interpretation checkpoint_verifier: file_verifier "\<lambda>a cat chk. VerifyCategoryCheckpoint H B a cat chk scp_open" for H B scp_open
  by unfold_locales
    (simp_all add: VerifyCategoryCheckpoint_def Let_def verify_file_quiet [OF verify_steps_quiet(1)]
      verify_file_quiet [OF verify_steps_quiet(2)] verify_file_quiet [OF verify_steps_quiet(3)])

text \<open>Files stand at their places: a name that matches is the path of the checkpoint it names.\<close>

definition well_placed :: "string set \<Rightarrow> bool" where
  "well_placed files \<longleftrightarrow> (\<forall>s \<in> files. \<forall>cat \<in> set Categories. \<forall>n. match_checkpoint cat s = Some n \<longrightarrow> s = CategoryCheckpointPath cat n)"

lemma mem_ListCategoryCheckpoints:
  "n \<in> set (fst (ListCategoryCheckpoints S cat p)) \<longleftrightarrow> (\<exists>s \<in> set (fst (sto_ListFiles S (path_Join [cat, p]))). match_checkpoint cat s = Some n)"
  by (cases "sto_ListFiles S (path_Join [cat, p])") (force simp: ListCategoryCheckpoints_def map_filter_def)

lemma listed_iff:
  assumes "storage_ok S files" "well_placed files" "InRange r n" "cat \<in> set Categories"
  shows "(\<exists>p \<in> set (RangePaths r). n \<in> set (fst (ListCategoryCheckpoints S cat p))) \<longleftrightarrow> CategoryCheckpointPath cat n \<in> files"
proof
  assume "\<exists>p \<in> set (RangePaths r). n \<in> set (fst (ListCategoryCheckpoints S cat p))"
  then obtain p s where "s \<in> set (fst (sto_ListFiles S (path_Join [cat, p])))" "match_checkpoint cat s = Some n"
    by (auto simp: mem_ListCategoryCheckpoints)
  then show "CategoryCheckpointPath cat n \<in> files" using assms(1,2,4) by (auto simp: storage_ok_def well_placed_def)
next
  assume f: "CategoryCheckpointPath cat n \<in> files"
  obtain p where p: "p \<in> set (RangePaths r)" "prefix (path_Join [cat, p] @ ''/'') (CategoryCheckpointPath cat n)"
    using RangePaths_cover [OF assms(3)] by blast
  then have "CategoryCheckpointPath cat n \<in> set (fst (sto_ListFiles S (path_Join [cat, p])))" using assms(1) f by (simp add: storage_ok_def)
  then have "n \<in> set (fst (ListCategoryCheckpoints S cat p))"
    using match_CategoryCheckpointPath [of cat n] by (auto simp: mem_ListCategoryCheckpoints)
  then show "\<exists>p \<in> set (RangePaths r). n \<in> set (fst (ListCategoryCheckpoints S cat p))" using p(1) by blast
qed


lemma generated_in_range:
  assumes "checkpointFreq c \<noteq> 0" "GenerateCheckpoints r c = Some cs" "n \<in> set cs"
  shows "InRange r n"
proof -
  have "unat n \<in> set (map unat cs)" using assms(3) by simp
  also have "map unat cs = steps_from (unat (Low r)) (unat (High r)) (unat (checkpointFreq c))"
  proof -
    have "cs = map word_of_nat (steps_from (unat (Low r)) (unat (High r)) (unat (checkpointFreq c)))"
      using assms(2) GenerateCheckpoints_steps [OF assms(1), of r] by simp
    then show ?thesis using unat_steps [OF _ freq_pos [OF assms(1)]] unat_32 [of "High r"] by simp
  qed
  finally show ?thesis using mem_steps_from [OF freq_pos [OF assms(1)]] by (auto simp: InRange_def word_le_nat_alt)
qed



text \<open>A storage with the header file of the first checkpoint.\<close>

definition witness_file :: string where
  "witness_file = CategoryCheckpointPath ''ledger'' 63"

definition witness_storage :: "unit storage" where
  "witness_storage =
     \<lparr>sto_Exists = (\<lambda>s. Inr (s = witness_file)), sto_ListFiles = (\<lambda>p. (if prefix (p @ ''/'') witness_file then [witness_file] else [], 0)),
      sto_CanListFiles = True\<rparr>"

definition witness_options :: CommandOptions where
  "witness_options = \<lparr>Concurrency = 2, opt_Range = \<lparr>Low = 63, High = 127\<rparr>, opt_Verify = False, SkipOptional = True\<rparr>"

lemma witness_placed: "well_placed {witness_file}"
proof -
  have "list_all (\<lambda>cat. match_checkpoint cat witness_file \<in> {None, Some 63}) Categories" by code_simp
  moreover have "list_all (\<lambda>cat. cat \<noteq> ''ledger'' \<longrightarrow> match_checkpoint cat witness_file = None) Categories" by code_simp
  ultimately show ?thesis by (fastforce simp: well_placed_def list_all_iff witness_file_def)
qed

definition witness_backend :: "(unit, unit) backend" where
  "witness_backend = \<lparr>LedgerStream = (\<lambda>_. Inl ()), TransactionStream = (\<lambda>_. Inl ()), ResultStream = (\<lambda>_. Inl ()), RootHAS = Inl ()\<rparr>"

lemma witness_channel:
  "GenerateCheckpoints (opt_Range witness_options) (arch_checkpointManager (new_archive [] 64)) = Some [63, 127]"
  "''ledger'' \<in> set (scanned_categories witness_options)"
  by code_simp code_simp


end
