(* ===== verification/Datastore_Schema.thy ===== *)
theory Datastore_Schema
  imports Go_Decimal Xdr_Asset Checkpoints
begin

text \<open>
  Object keys of a ledger data store (\<^verbatim>\<open>support/datastore/schema.go\<close>), their parsing and listing
  (\<^verbatim>\<open>ledger_iter.go\<close>) and the searches for the latest and the oldest ledger (\<^verbatim>\<open>ledger_range.go\<close>).

  Keys start with the complement of the first ledger in hexadecimal, so that listing in lexicographic order
  gives the latest files first. The data store is a parameter: a function from the key to start after to a
  page of keys, and one that tells whether a key exists. Regular expressions are written out; in all of
  them the character after a run of digits decides how to go on, so there is no backtracking.
\<close>

section \<open>Definitions\<close>

subsection \<open>Schema\<close>

record DataStoreSchema =
  LedgersPerFile :: "32 word"
  FilesPerPartition :: "32 word"
  FileExtension :: string

text \<open>\<^verbatim>\<open>partitionSize\<close> multiplies in 64 bits.\<close>

definition partitionSize :: "DataStoreSchema \<Rightarrow> 32 word option" where
  "partitionSize ec =
     (let sz = ucast (LedgersPerFile ec) * ucast (FilesPerPartition ec) :: 64 word
      in if sz = 0 \<or> sz > 0xffffffff then None else Some (ucast sz))"

datatype schema_error = ZeroLedgersPerFile | ZeroFilesPerPartition | PartitionTooLarge

definition schema_Validate :: "DataStoreSchema \<Rightarrow> schema_error option" where
  "schema_Validate ec =
     (if LedgersPerFile ec = 0 then Some ZeroLedgersPerFile
      else if FilesPerPartition ec = 0 then Some ZeroFilesPerPartition
      else if partitionSize ec = None then Some PartitionTooLarge
      else None)"

definition GetSequenceNumberStartBoundary :: "DataStoreSchema \<Rightarrow> 32 word \<Rightarrow> 32 word" where
  "GetSequenceNumberStartBoundary ec ledgerSeq =
     (if LedgersPerFile ec = 0 then 0 else (ledgerSeq div LedgersPerFile ec) * LedgersPerFile ec)"

text \<open>The last ledger of a block of \<open>sz\<close> ledgers that starts at \<open>start\<close>, computed in 64 bits and capped.\<close>

definition capped_end :: "32 word \<Rightarrow> 32 word \<Rightarrow> 32 word" where
  "capped_end start sz =
     (let end64 = ucast start + ucast sz - 1 :: 64 word in if end64 > 0xffffffff then 0xffffffff else ucast end64)"

definition GetSequenceNumberEndBoundary :: "DataStoreSchema \<Rightarrow> 32 word \<Rightarrow> 32 word" where
  "GetSequenceNumberEndBoundary ec ledgerSeq = capped_end (GetSequenceNumberStartBoundary ec ledgerSeq) (LedgersPerFile ec)"

subsection \<open>Object keys\<close>

definition upper_hex_digit :: "nat \<Rightarrow> char" where
  "upper_hex_digit n = ''0123456789ABCDEF'' ! (n mod 16)"

fun upper_hex_fixed :: "nat \<Rightarrow> nat \<Rightarrow> string" where
  "upper_hex_fixed 0 n = []"
| "upper_hex_fixed (Suc w) n = upper_hex_fixed w (n div 16) @ [upper_hex_digit n]"

text \<open>The verbs \<^verbatim>\<open>%08X\<close> and \<^verbatim>\<open>%d\<close>.\<close>

definition fmt_08X :: "32 word \<Rightarrow> string" where
  "fmt_08X x = upper_hex_fixed 8 (unat x)"

definition fmt_d :: "32 word \<Rightarrow> string" where
  "fmt_d x = utoa (unat x)"

definition partition_prefix :: "DataStoreSchema \<Rightarrow> 32 word \<Rightarrow> string" where
  "partition_prefix ec ledgerSeq =
     (case partitionSize ec of
        None \<Rightarrow> []
      | Some sz \<Rightarrow>
          if FilesPerPartition ec > 1
          then let partitionStart = (ledgerSeq div sz) * sz; partitionEnd = capped_end partitionStart sz
               in fmt_08X (0xffffffff - partitionStart) @ ''--'' @ fmt_d partitionStart @ ''-'' @ fmt_d partitionEnd @ ''/''
          else [])"

definition file_name :: "DataStoreSchema \<Rightarrow> 32 word \<Rightarrow> string" where
  "file_name ec ledgerSeq =
     (let fileStart = GetSequenceNumberStartBoundary ec ledgerSeq; fileEnd = GetSequenceNumberEndBoundary ec ledgerSeq;
          extension = (if FileExtension ec = [] then ''zst'' else FileExtension ec)
      in fmt_08X (0xffffffff - fileStart) @ ''--'' @ fmt_d fileStart @
         (if fileStart \<noteq> fileEnd then ''-'' @ fmt_d fileEnd else []) @ ''.xdr.'' @ extension)"

definition GetObjectKeyFromSequenceNumber :: "DataStoreSchema \<Rightarrow> 32 word \<Rightarrow> string" where
  "GetObjectKeyFromSequenceNumber ec ledgerSeq = partition_prefix ec ledgerSeq @ file_name ec ledgerSeq"

subsection \<open>Parsing keys\<close>

definition is_upper_hex :: "char \<Rightarrow> bool" where
  "is_upper_hex ch \<longleftrightarrow> ch \<in> set ''0123456789ABCDEF''"

definition is_ext_char :: "char \<Rightarrow> bool" where
  "is_ext_char ch \<longleftrightarrow>
     ch \<in> set ''ABCDEFGHIJKLMNOPQRSTUVWXYZabcdefghijklmnopqrstuvwxyz0123456789._-''"

text \<open>The rest of a string after a prefix; one or go_on digits and the rest; an optional second number.\<close>

definition after :: "string \<Rightarrow> string \<Rightarrow> string option" where
  "after p s = (if prefix p s then Some (drop (length p) s) else None)"

definition digits_plus :: "string \<Rightarrow> (string \<times> string) option" where
  "digits_plus s = (let d = takeWhile is_digit s in if d = [] then None else Some (d, drop (length d) s))"

definition range_then_xdr :: "string \<Rightarrow> (string \<times> string \<times> string) option" where
  "range_then_xdr s =
     (case after ''--'' s of
        None \<Rightarrow> None
      | Some s1 \<Rightarrow>
          (case digits_plus s1 of
             None \<Rightarrow> None
           | Some (low, s2) \<Rightarrow>
               (case after ''-'' s2 of
                  None \<Rightarrow> map_option (\<lambda>rest. (low, [], rest)) (after ''.xdr.'' s2)
                | Some s3 \<Rightarrow>
                    (case digits_plus s3 of
                       None \<Rightarrow> None
                     | Some (high, s4) \<Rightarrow> map_option (\<lambda>rest. (low, high, rest)) (after ''.xdr.'' s4)))))"

definition ledgerFilenameRe_MatchString :: "string \<Rightarrow> bool" where
  "ledgerFilenameRe_MatchString s \<longleftrightarrow>
     8 \<le> length s \<and> list_all is_upper_hex (take 8 s) \<and>
     (case range_then_xdr (drop 8 s) of None \<Rightarrow> False | Some (_, _, rest) \<Rightarrow> rest \<noteq> [] \<and> list_all is_ext_char rest)"

text \<open>\<^verbatim>\<open>keyRangeRE.FindStringSubmatch\<close>: the leftmost match.\<close>

fun find_key_range :: "string \<Rightarrow> (string \<times> string) option" where
  "find_key_range [] = None"
| "find_key_range (ch # s) =
     (case range_then_xdr (ch # s) of Some (low, high, _) \<Rightarrow> Some (low, high) | None \<Rightarrow> find_key_range s)"

datatype key_parse_error = InvalidFileName | NumberOutOfRange | InvalidLedgerRange

definition parseUint32 :: "string \<Rightarrow> (key_parse_error, 32 word) result" where
  "parseUint32 s = (if digits_value s < 4294967296 then Inr (word_of_nat (digits_value s)) else Inl NumberOutOfRange)"

definition ParseRangeFromObjectKey :: "string \<Rightarrow> (key_parse_error, 32 word \<times> 32 word) result" where
  "ParseRangeFromObjectKey base =
     (case find_key_range base of
        None \<Rightarrow> Inl InvalidFileName
      | Some (m1, m2) \<Rightarrow>
          bind_result (parseUint32 m1) (\<lambda>low.
          bind_result (if m2 \<noteq> [] then parseUint32 m2 else Inr low) (\<lambda>high.
            if low > high then Inl InvalidLedgerRange else Inr (low, high))))"

subsection \<open>Listing files\<close>

definition key_less :: "string \<Rightarrow> string \<Rightarrow> bool" where
  "key_less a b = lex_less (of_char :: char \<Rightarrow> nat) a b"

text \<open>\<^verbatim>\<open>filepath.Base\<close> of a key that is not empty and does not end in a slash.\<close>

definition filepath_Base :: "string \<Rightarrow> string" where
  "filepath_Base p = rev (takeWhile (\<lambda>ch. ch \<noteq> CHR ''/'') (rev p))"

record LedgerFile =
  lf_Key :: string
  lf_High :: "32 word"
  lf_Low :: "32 word"

datatype 'e iter_error = InvalidBounds | ListError 'e | NotAfterCursor string | ParseError key_parse_error

text \<open>
  One page: what the iterator yields from it, and whether it goes on after the page. The items are those
  yielded to a consumer that takes them all.
\<close>

fun iter_page :: "string \<Rightarrow> string \<Rightarrow> string list \<Rightarrow> ('e iter_error, LedgerFile) result list \<times> bool" where
  "iter_page cursor stopAfter [] = ([], True)"
| "iter_page cursor stopAfter (p # ps) =
     (if \<not> key_less cursor p then ([Inl (NotAfterCursor p)], False)
      else if stopAfter \<noteq> [] \<and> key_less stopAfter p then ([], False)
      else if \<not> ledgerFilenameRe_MatchString (filepath_Base p) then iter_page cursor stopAfter ps
      else (case ParseRangeFromObjectKey (filepath_Base p) of
              Inl e \<Rightarrow> ([Inl (ParseError e)], False)
            | Inr (low, high) \<Rightarrow>
                (let (items, go_on) = iter_page cursor stopAfter ps
                 in (Inr \<lparr>lf_Key = p, lf_High = high, lf_Low = low\<rparr> # items, go_on))))"

text \<open>The loop over pages; a data store that always lists more keys makes it run forever, which is \<open>None\<close>.\<close>

partial_function (option) iter_loop ::
    "(string \<Rightarrow> ('e, string list) result) \<Rightarrow> string \<Rightarrow> string \<Rightarrow> ('e iter_error, LedgerFile) result list option" where
  "iter_loop list_paths cursor stopAfter =
     (case list_paths cursor of
        Inl e \<Rightarrow> Some [Inl (ListError e)]
      | Inr paths \<Rightarrow>
          if paths = [] then Some []
          else (case iter_page cursor stopAfter paths of
                  (items, go_on) \<Rightarrow>
                    if go_on then Option.bind (iter_loop list_paths (last paths) stopAfter) (\<lambda>rest. Some (items @ rest))
                    else Some items))"

definition LedgerFileIter ::
    "(string \<Rightarrow> ('e, string list) result) \<Rightarrow> string \<Rightarrow> string \<Rightarrow> ('e iter_error, LedgerFile) result list option" where
  "LedgerFileIter list_paths startAfter stopAfter =
     (if startAfter \<noteq> [] \<and> stopAfter \<noteq> [] \<and> \<not> key_less startAfter stopAfter then Some [Inl InvalidBounds]
      else iter_loop list_paths startAfter stopAfter)"

subsection \<open>Latest and oldest ledgers\<close>

datatype 'e range_error = IterError "'e iter_error" | NoValidLedgerFiles | EndTooSmall | LookupError 'e

text \<open>\<^verbatim>\<open>findLatestLedger\<close> takes the first item only; \<open>None\<close> when the iterator never yields.\<close>

definition findLatestLedger :: "(string \<Rightarrow> ('e, string list) result) \<Rightarrow> string \<Rightarrow> ('e range_error, 32 word) result option" where
  "findLatestLedger list_paths startAfter =
     map_option (\<lambda>items. case items of
         [] \<Rightarrow> Inl NoValidLedgerFiles
       | Inl e # _ \<Rightarrow> Inl (IterError e)
       | Inr lf # _ \<Rightarrow> Inr (lf_High lf)) (LedgerFileIter list_paths startAfter [])"

definition FindLatestLedgerSequence :: "(string \<Rightarrow> ('e, string list) result) \<Rightarrow> ('e range_error, 32 word) result option" where
  "FindLatestLedgerSequence list_paths = findLatestLedger list_paths []"

definition FindLatestLedgerUpToSequence ::
    "(string \<Rightarrow> ('e, string list) result) \<Rightarrow> 32 word \<Rightarrow> DataStoreSchema \<Rightarrow> ('e range_error, 32 word) result option" where
  "FindLatestLedgerUpToSequence list_paths end_seq schema =
     (if end_seq < 2 then Some (Inl EndTooSmall)
      else let boundary = GetSequenceNumberEndBoundary schema end_seq;
               startAfter = (if boundary < 0xffffffff then GetObjectKeyFromSequenceNumber schema (boundary + 1) else [])
           in findLatestLedger list_paths startAfter)"

definition FindOldestLedgerSequence ::
    "(string \<Rightarrow> ('e, string list) result) \<Rightarrow> (string \<Rightarrow> ('e, bool) result) \<Rightarrow> DataStoreSchema \<Rightarrow> ('e range_error, 32 word) result option" where
  "FindOldestLedgerSequence list_paths exists schema =
     map_option (\<lambda>latest. bind_result latest (\<lambda>end_seq.
       let start = 2 in
       if end_seq < start then Inl NoValidLedgerFiles
       else let n = unat (end_seq - start + 1);
                (lookupError, i) = search_cached (\<lambda>index. exists (GetObjectKeyFromSequenceNumber schema (start + word_of_nat index))) None 0 n
            in case lookupError of
                 Some e \<Rightarrow> Inl (LookupError e)
               | None \<Rightarrow> if i < n then Inr (start + word_of_nat i) else Inl NoValidLedgerFiles)) (FindLatestLedgerSequence list_paths)"


section \<open>Boundaries\<close>

lemma unat_max32_minus: "unat (0xffffffff - (x :: 32 word)) = 4294967295 - unat x"
proof -
  have "x \<le> 0xffffffff" using unat_32 [of x] by (simp add: word_le_nat_alt)
  then show ?thesis by (simp add: unat_sub)
qed

lemma unat_block_start: "unat ((s :: 32 word) div n * n) = unat s div unat n * unat n"
proof -
  have "unat s div unat n * unat n < 2 ^ LENGTH(32)" by (rule le_less_trans [OF div_times_less_eq_dividend]) (use unat_32 [of s] in simp)
  then show ?thesis using unat_mult_lem [of "s div n" n] by (simp add: unat_div)
qed

lemma unat_start: "LedgersPerFile ec \<noteq> 0 \<Longrightarrow>
    unat (GetSequenceNumberStartBoundary ec s) = unat s div unat (LedgersPerFile ec) * unat (LedgersPerFile ec)"
  by (simp add: GetSequenceNumberStartBoundary_def unat_block_start)

lemma unat_capped_end:
  assumes "0 < unat n"
  shows "unat (capped_end start n) = min (unat start + unat n - 1) 4294967295"
proof -
  let ?e = "ucast start + ucast n - 1 :: 64 word"
  have sum: "unat (ucast start + ucast n :: 64 word) = unat start + unat n"
    using unat_32 [of start] unat_32 [of n] by (simp add: unat_word_ariths)
  have "(1 :: 64 word) \<le> ucast start + ucast n" using sum assms by (simp add: word_le_nat_alt)
  then have e: "unat ?e = unat start + unat n - 1" using sum by (simp add: unat_sub)
  show ?thesis
  proof (cases "?e > 0xffffffff")
    case True
    then show ?thesis using e by (simp add: capped_end_def word_less_nat_alt)
  next
    case False
    then have "unat ?e < 2 ^ 32" by (simp add: word_less_nat_alt)
    then show ?thesis using False e unat_ucast_64_32 [of ?e] by (simp add: capped_end_def word_less_nat_alt)
  qed
qed

lemma unat_end: "LedgersPerFile ec \<noteq> 0 \<Longrightarrow>
    unat (GetSequenceNumberEndBoundary ec s) = min (block_end (unat (LedgersPerFile ec)) (unat s)) 4294967295"
  by (simp add: GetSequenceNumberEndBoundary_def unat_capped_end unat_gt_0 unat_start block_end_def add.commute)

lemma boundaries_order: "LedgersPerFile ec \<noteq> 0 \<Longrightarrow> GetSequenceNumberStartBoundary ec s \<le> s \<and> s \<le> GetSequenceNumberEndBoundary ec s"
  using unat_32 [of s] block_end_bounds [of "unat (LedgersPerFile ec)" "unat s"]
  by (simp add: word_le_nat_alt unat_start unat_end unat_gt_0)

lemma partitionSize_value:
  assumes "schema_Validate ec = None"
  shows "LedgersPerFile ec \<noteq> 0" "\<exists>n. partitionSize ec = Some n \<and> unat n = unat (LedgersPerFile ec) * unat (FilesPerPartition ec) \<and> n \<noteq> 0"
proof -
  let ?p = "ucast (LedgersPerFile ec) * ucast (FilesPerPartition ec) :: 64 word"
  show l: "LedgersPerFile ec \<noteq> 0" using assms by (auto simp: schema_Validate_def split: if_splits)
  obtain n where n: "partitionSize ec = Some n" using assms by (auto simp: schema_Validate_def split: if_splits)
  then have p: "?p \<noteq> 0" "\<not> ?p > 0xffffffff" "n = ucast ?p" by (auto simp: partitionSize_def Let_def split: if_splits)
  have "unat (LedgersPerFile ec) * unat (FilesPerPartition ec) < 4294967296 * 4294967296"
    using unat_32 by (intro mult_strict_mono) (simp_all add: order.strict_trans1)
  then have u: "unat ?p = unat (LedgersPerFile ec) * unat (FilesPerPartition ec)" by (simp add: unat_word_ariths)
  have "unat ?p < 2 ^ 32" using p(2) by (simp add: word_less_nat_alt)
  then have "unat n = unat (LedgersPerFile ec) * unat (FilesPerPartition ec)" using p(3) u unat_ucast_64_32 by simp
  moreover have "n \<noteq> 0" using calculation p(1) u by (metis unat_eq_zero)
  ultimately show "\<exists>n. partitionSize ec = Some n \<and> unat n = unat (LedgersPerFile ec) * unat (FilesPerPartition ec) \<and> n \<noteq> 0" using n by blast
qed

section \<open>The order of keys\<close>

lemma lex_less_append_same [simp]: "lex_less f (xs @ u) (xs @ v) = lex_less f u v"
  by (induction xs) simp_all

lemma lex_less_append: "lex_less f xs ys \<Longrightarrow> length xs = length ys \<Longrightarrow> lex_less f (xs @ u) (ys @ v)"
  by (induction f xs ys rule: lex_less.induct) auto

lemma length_upper_hex_fixed [simp]: "length (upper_hex_fixed w n) = w"
  by (induction w arbitrary: n) simp_all

lemma of_char_upper_hex:
  assumes "i < 16"
  shows "(of_char (upper_hex_digit i) :: nat) = (if i < 10 then 48 + i else 55 + i)"
proof -
  have "i \<in> {0, 1, 2, 3, 4, 5, 6, 7, 8, 9, 10, 11, 12, 13, 14, 15}" using assms by simp presburger
  then show ?thesis by (auto simp: upper_hex_digit_def)
qed

lemma upper_hex_digit_less: "i < j \<Longrightarrow> j < 16 \<Longrightarrow> (of_char (upper_hex_digit i) :: nat) < of_char (upper_hex_digit j)"
  by (simp add: of_char_upper_hex)

lemma upper_hex_fixed_less:
  "a < b \<Longrightarrow> b < 16 ^ w \<Longrightarrow> lex_less (of_char :: char \<Rightarrow> nat) (upper_hex_fixed w a) (upper_hex_fixed w b)"
proof (induction w arbitrary: a b)
  case (Suc w)
  have digit: "upper_hex_digit n = upper_hex_digit (n mod 16)" for n by (simp add: upper_hex_digit_def)
  show ?case
  proof (cases "a div 16 < b div 16")
    case True
    then show ?thesis using Suc by (simp add: lex_less_append less_mult_imp_div_less mult.commute)
  next
    case False
    then have eq: "a div 16 = b div 16" using Suc.prems(1) by (simp add: div_le_mono le_antisym)
    then have "a mod 16 < b mod 16" using Suc.prems(1) by (metis add_less_cancel_left div_mult_mod_eq)
    then have "(of_char (upper_hex_digit a) :: nat) < of_char (upper_hex_digit b)"
      using upper_hex_digit_less [of "a mod 16" "b mod 16"] digit [of a] digit [of b] by simp
    then show ?thesis using eq by simp
  qed
qed simp

lemma hex_complement_less:
  assumes "(a :: 32 word) < b"
  shows "lex_less (of_char :: char \<Rightarrow> nat) (fmt_08X (0xffffffff - b) @ u) (fmt_08X (0xffffffff - a) @ v)"
  using assms unat_32 [of a] unat_32 [of b]
  by (intro lex_less_append) (simp_all add: fmt_08X_def unat_max32_minus word_less_nat_alt upper_hex_fixed_less)

lemma same_file_key:
  assumes "schema_Validate ec = None" "GetSequenceNumberStartBoundary ec s = GetSequenceNumberStartBoundary ec t"
  shows "GetObjectKeyFromSequenceNumber ec s = GetObjectKeyFromSequenceNumber ec t"
proof -
  let ?l = "unat (LedgersPerFile ec)"
  have l: "LedgersPerFile ec \<noteq> 0" using partitionSize_value(1) [OF assms(1)] .
  obtain n where n: "partitionSize ec = Some n" "unat n = ?l * unat (FilesPerPartition ec)" using partitionSize_value(2) [OF assms(1)] by blast
  have "unat s div ?l * ?l = unat t div ?l * ?l" using assms(2) unat_start [OF l] by metis
  then have "unat s div ?l = unat t div ?l" using l by (simp add: unat_eq_zero)
  then have "unat s div unat n = unat t div unat n" unfolding n(2) div_mult2_eq by simp
  then have "s div n = t div n" by (simp add: word_unat_eq_iff unat_div)
  then show ?thesis using assms(2) n
    by (simp add: GetObjectKeyFromSequenceNumber_def partition_prefix_def file_name_def GetSequenceNumberEndBoundary_def)
qed

lemma later_file_key:
  assumes "schema_Validate ec = None" "GetSequenceNumberStartBoundary ec s < GetSequenceNumberStartBoundary ec t"
  shows "key_less (GetObjectKeyFromSequenceNumber ec t) (GetObjectKeyFromSequenceNumber ec s)"
proof -
  obtain n where n: "partitionSize ec = Some n" using partitionSize_value(2) [OF assms(1)] by blast
  have names: "lex_less (of_char :: char \<Rightarrow> nat) (file_name ec t) (file_name ec s)"
    unfolding file_name_def Let_def by (rule hex_complement_less [OF assms(2)])
  have "s \<le> t" using assms unat_start [OF partitionSize_value(1) [OF assms(1)]] div_le_mono [of "unat t" "unat s"]
    by (metis linorder_not_le mult_le_mono1 word_less_nat_alt order_less_imp_le word_le_nat_alt linorder_not_less)
  then have "unat (s div n * n) \<le> unat (t div n * n)" by (simp add: unat_block_start div_le_mono word_le_nat_alt)
  then consider "s div n * n < t div n * n" | "s div n * n = t div n * n" by (metis le_neq_implies_less word_less_nat_alt word_unat_eq_iff)
  then have "lex_less (of_char :: char \<Rightarrow> nat) (partition_prefix ec t @ file_name ec t) (partition_prefix ec s @ file_name ec s)"
  proof cases
    case 1
    then show ?thesis using n names hex_complement_less [OF 1] by (simp add: partition_prefix_def Let_def)
  next
    case 2
    then have "partition_prefix ec t = partition_prefix ec s" using n by (simp add: partition_prefix_def)
    then show ?thesis using names by simp
  qed
  then show ?thesis by (simp add: key_less_def GetObjectKeyFromSequenceNumber_def)
qed


lemma key_less_asym: "key_less a b \<Longrightarrow> \<not> key_less b a"
  unfolding key_less_def using lex_less_trans lex_less_irrefl by metis

lemma key_order:
  assumes "schema_Validate ec = None"
  shows "key_less (GetObjectKeyFromSequenceNumber ec t) (GetObjectKeyFromSequenceNumber ec s) \<longleftrightarrow>
      GetSequenceNumberStartBoundary ec s < GetSequenceNumberStartBoundary ec t"
    and "GetObjectKeyFromSequenceNumber ec t = GetObjectKeyFromSequenceNumber ec s \<longleftrightarrow>
      GetSequenceNumberStartBoundary ec s = GetSequenceNumberStartBoundary ec t"
proof -
  consider "GetSequenceNumberStartBoundary ec s < GetSequenceNumberStartBoundary ec t"
    | "GetSequenceNumberStartBoundary ec s = GetSequenceNumberStartBoundary ec t"
    | "GetSequenceNumberStartBoundary ec t < GetSequenceNumberStartBoundary ec s" by fastforce
  then have "(key_less (GetObjectKeyFromSequenceNumber ec t) (GetObjectKeyFromSequenceNumber ec s) \<longleftrightarrow>
      GetSequenceNumberStartBoundary ec s < GetSequenceNumberStartBoundary ec t) \<and>
     (GetObjectKeyFromSequenceNumber ec t = GetObjectKeyFromSequenceNumber ec s \<longleftrightarrow>
      GetSequenceNumberStartBoundary ec s = GetSequenceNumberStartBoundary ec t)"
  proof cases
    case 1
    then show ?thesis using later_file_key [OF assms 1] key_less_asym by (metis order_less_irrefl)
  next
    case 2
    then show ?thesis using same_file_key [OF assms 2] key_less_asym by (metis order_less_irrefl)
  next
    case 3
    then show ?thesis using later_file_key [OF assms 3] key_less_asym by (metis order_less_asym order_less_irrefl)
  qed
  then show "key_less (GetObjectKeyFromSequenceNumber ec t) (GetObjectKeyFromSequenceNumber ec s) \<longleftrightarrow>
      GetSequenceNumberStartBoundary ec s < GetSequenceNumberStartBoundary ec t"
    and "GetObjectKeyFromSequenceNumber ec t = GetObjectKeyFromSequenceNumber ec s \<longleftrightarrow>
      GetSequenceNumberStartBoundary ec s = GetSequenceNumberStartBoundary ec t" by blast+
qed

section \<open>Parsing keys\<close>

text \<open>Extensions as the code makes them: none (the default) or characters the file name pattern accepts.\<close>

definition ext_ok :: "DataStoreSchema \<Rightarrow> bool" where
  "ext_ok ec \<longleftrightarrow> list_all is_ext_char (FileExtension ec)"

definition extension_of :: "DataStoreSchema \<Rightarrow> string" where
  "extension_of ec = (if FileExtension ec = [] then ''zst'' else FileExtension ec)"

lemma digits_plus_utoa: "\<not> is_digit ch \<Longrightarrow> digits_plus (utoa n @ ch # s) = Some (utoa n, ch # s)"
  using utoa_digits [of n] by (simp add: digits_plus_def list_all_iff takeWhile_append1 takeWhile_append2)

lemma upper_hex_fixed_ok: "list_all is_upper_hex (upper_hex_fixed w n)"
proof (induction w arbitrary: n)
  case (Suc w)
  have "''0123456789ABCDEF'' ! (n mod 16) \<in> set ''0123456789ABCDEF''" by (rule nth_mem) simp
  then show ?case using Suc by (simp add: upper_hex_digit_def is_upper_hex_def)
qed simp

lemma hex_chars: "ch \<notin> set ''0123456789ABCDEF'' \<Longrightarrow> ch \<notin> set (fmt_08X x)"
  using upper_hex_fixed_ok [of 8 "unat x"] unfolding fmt_08X_def list_all_iff is_upper_hex_def by blast

lemma file_name_tail:
  "range_then_xdr (drop 8 (file_name ec s)) =
    Some (fmt_d (GetSequenceNumberStartBoundary ec s),
      (if GetSequenceNumberStartBoundary ec s \<noteq> GetSequenceNumberEndBoundary ec s then fmt_d (GetSequenceNumberEndBoundary ec s) else []), extension_of ec)"
  by (simp add: file_name_def Let_def fmt_08X_def range_then_xdr_def after_def fmt_d_def digits_plus_utoa extension_of_def)

lemma file_name_matches:
  assumes "ext_ok ec"
  shows "ledgerFilenameRe_MatchString (file_name ec s)"
proof -
  have "take 8 (file_name ec s) = fmt_08X (0xffffffff - GetSequenceNumberStartBoundary ec s)" "8 \<le> length (file_name ec s)"
    by (simp_all add: file_name_def Let_def fmt_08X_def)
  moreover have "extension_of ec \<noteq> []" "list_all is_ext_char (extension_of ec)" using assms by (auto simp: extension_of_def ext_ok_def is_ext_char_def)
  ultimately show ?thesis using file_name_tail [of ec s] upper_hex_fixed_ok by (simp add: ledgerFilenameRe_MatchString_def fmt_08X_def)
qed

lemma range_then_xdr_no_dash: "ch \<noteq> CHR ''-'' \<Longrightarrow> range_then_xdr (ch # s) = None"
  by (simp add: range_then_xdr_def after_def)

lemma find_key_range_skip: "list_all (\<lambda>ch. ch \<noteq> CHR ''-'') hs \<Longrightarrow> find_key_range (hs @ s) = find_key_range s"
  by (induction hs) (simp_all add: range_then_xdr_no_dash)

lemma find_key_range_here: "range_then_xdr r = Some (low, high, rest) \<Longrightarrow> find_key_range r = Some (low, high)"
  by (cases r) (simp_all add: range_then_xdr_def [of "[]"] after_def)

lemma find_key_range_file_name:
  "find_key_range (file_name ec s) =
    Some (fmt_d (GetSequenceNumberStartBoundary ec s),
      (if GetSequenceNumberStartBoundary ec s \<noteq> GetSequenceNumberEndBoundary ec s then fmt_d (GetSequenceNumberEndBoundary ec s) else []))"
proof -
  let ?h = "fmt_08X (0xffffffff - GetSequenceNumberStartBoundary ec s)"
  obtain r where r: "file_name ec s = ?h @ r" "r = drop 8 (file_name ec s)" by (simp add: file_name_def Let_def fmt_08X_def)
  have "CHR ''-'' \<notin> set ?h" by (rule hex_chars) simp
  then have "list_all (\<lambda>ch. ch \<noteq> CHR ''-'') ?h" by (auto simp: list_all_iff)
  then have "find_key_range (file_name ec s) = find_key_range r" using r(1) find_key_range_skip by simp
  then show ?thesis using file_name_tail [of ec s] r(2) find_key_range_here by simp
qed

lemma ParseRange_file_name:
  assumes "LedgersPerFile ec \<noteq> 0"
  shows "ParseRangeFromObjectKey (file_name ec s) = Inr (GetSequenceNumberStartBoundary ec s, GetSequenceNumberEndBoundary ec s)"
proof -
  have p: "parseUint32 (fmt_d x) = Inr x" for x using unat_32 [of x] by (simp add: parseUint32_def fmt_d_def)
  have "\<not> GetSequenceNumberStartBoundary ec s > GetSequenceNumberEndBoundary ec s" using boundaries_order [OF assms, of s] by (meson not_less order_trans)
  then show ?thesis using p unfolding ParseRangeFromObjectKey_def find_key_range_file_name by (simp add: fmt_d_def)
qed

lemma no_slash:
  assumes "ext_ok ec"
  shows "CHR ''/'' \<notin> set (file_name ec s)"
proof -
  have "CHR ''/'' \<notin> set (fmt_08X x)" for x by (rule hex_chars) simp
  moreover have "\<not> is_digit (CHR ''/'')" "\<not> is_ext_char (CHR ''/'')" by (simp_all add: is_digit_def is_ext_char_def)
  then have "CHR ''/'' \<notin> set (fmt_d x)" "CHR ''/'' \<notin> set (FileExtension ec)" for x
    using utoa_digits [of "unat x"] assms unfolding fmt_d_def list_all_iff ext_ok_def by blast+
  ultimately show ?thesis by (simp add: file_name_def Let_def)
qed

lemma Base_key:
  assumes "ext_ok ec"
  shows "filepath_Base (GetObjectKeyFromSequenceNumber ec s) = file_name ec s"
proof -
  have "partition_prefix ec s = [] \<or> (\<exists>p. partition_prefix ec s = p @ ''/'')"
    by (auto simp: partition_prefix_def Let_def split: option.splits)
  then have "takeWhile (\<lambda>ch. ch \<noteq> CHR ''/'') (rev (file_name ec s) @ rev (partition_prefix ec s)) = rev (file_name ec s)"
    using no_slash [OF assms, of s] by (subst takeWhile_append2) auto
  then show ?thesis by (simp add: filepath_Base_def GetObjectKeyFromSequenceNumber_def)
qed


section \<open>Listing\<close>

text \<open>
  What the data store promises: it lists its keys after the cursor in ascending order, in pages that are not empty
  unless no key is left.
\<close>

definition pages_ok :: "(string \<Rightarrow> ('e, string list) result) \<Rightarrow> string list \<Rightarrow> bool" where
  "pages_ok list_paths keys \<longleftrightarrow>
     sorted_wrt key_less keys \<and> (\<forall>cursor. \<exists>page > 0. list_paths cursor = Inr (take page (filter (key_less cursor) keys)))"

definition file_item :: "string \<Rightarrow> ('e iter_error, LedgerFile) result list" where
  "file_item p =
     (if ledgerFilenameRe_MatchString (filepath_Base p)
      then case ParseRangeFromObjectKey (filepath_Base p) of
             Inl e \<Rightarrow> [Inl (ParseError e)]
           | Inr (low, high) \<Rightarrow> [Inr \<lparr>lf_Key = p, lf_High = high, lf_Low = low\<rparr>]
      else [])"

definition parses :: "string \<Rightarrow> bool" where
  "parses p \<longleftrightarrow> (ledgerFilenameRe_MatchString (filepath_Base p) \<longrightarrow> (\<exists>r. ParseRangeFromObjectKey (filepath_Base p) = Inr r))"

lemma iter_page_all:
  "(\<forall>p \<in> set ps. key_less cursor p \<and> parses p) \<Longrightarrow> iter_page cursor [] ps = (concat (map file_item ps), True)"
  by (induction ps) (auto simp: file_item_def parses_def split: sum.splits)

lemma sorted_after_last:
  assumes "sorted_wrt key_less (xs @ ys)" "xs \<noteq> []"
  shows "filter (key_less (last xs)) (xs @ ys) = ys"
proof -
  have "\<not> key_less (last xs) x" if "x \<in> set xs" for x
  proof (cases "x = last xs")
    case False
    obtain zs where "xs = zs @ [last xs]" using assms(2) by (metis append_butlast_last_id)
    then have "key_less x (last xs)" using False that assms(1) by (metis Un_iff append.assoc list.set_intros(1) set_append set_ConsD append_Cons sorted_wrt_append empty_iff empty_set)
    then show ?thesis by (rule key_less_asym)
  qed (simp add: key_less_def lex_less_irrefl)
  moreover have "key_less (last xs) y" if "y \<in> set ys" for y using assms that by (simp add: sorted_wrt_append)
  ultimately show ?thesis by simp
qed

lemma iter_loop_all:
  fixes list_paths :: "string \<Rightarrow> ('e, string list) result"
  assumes "pages_ok list_paths keys" "\<forall>p \<in> set keys. parses p"
  shows "iter_loop list_paths cursor [] = Some (concat (map file_item (filter (key_less cursor) keys)))"
proof (induction "length (filter (key_less cursor) keys)" arbitrary: cursor rule: less_induct)
  case less
  let ?ks = "filter (key_less cursor) keys"
  obtain page where page: "page > 0" "list_paths cursor = Inr (take page ?ks)" using assms(1) by (auto simp: pages_ok_def)
  show ?case
  proof (cases "?ks = []")
    case True
    then show ?thesis using page by (simp add: iter_loop.simps)
  next
    case False
    let ?ps = "take page ?ks"
    have ne: "?ps \<noteq> []" using False page(1) by simp
    have sorted: "sorted_wrt key_less (?ps @ drop page ?ks)" using assms(1) by (simp add: pages_ok_def sorted_wrt_filter)
    have "last ?ps \<in> set ?ks" using ne by (metis in_set_takeD last_in_set)
    then have "key_less cursor (last ?ps)" by simp
    then have above: "key_less (last ?ps) x \<Longrightarrow> key_less cursor x" for x
      unfolding key_less_def by (rule lex_less_trans)
    have "filter (key_less (last ?ps)) keys = filter (key_less (last ?ps)) ?ks"
      unfolding filter_filter using above by (intro filter_cong refl) blast
    also have "\<dots> = drop page ?ks" using sorted_after_last [OF sorted ne] by simp
    finally have rest: "filter (key_less (last ?ps)) keys = drop page ?ks" .
    then have "iter_loop list_paths (last ?ps) [] = Some (concat (map file_item (drop page ?ks)))"
      using less [of "last ?ps"] False page(1) by simp
    moreover have "(iter_page cursor [] ?ps :: ('e iter_error, LedgerFile) result list \<times> bool) = (concat (map file_item ?ps), True)"
      using assms(2) by (intro iter_page_all) (auto dest: in_set_takeD)
    ultimately show ?thesis using page(2) ne
      by (subst iter_loop.simps) (simp, simp flip: concat_append map_append)
  qed
qed


section \<open>Latest ledgers\<close>

text \<open>A data store with the files of the ledgers \<open>F\<close>, and any other objects whose names are not those of ledger files.\<close>

definition holds_files :: "DataStoreSchema \<Rightarrow> string list \<Rightarrow> 32 word set \<Rightarrow> bool" where
  "holds_files ec keys F \<longleftrightarrow>
     (\<forall>s \<in> F. GetObjectKeyFromSequenceNumber ec s \<in> set keys) \<and>
     (\<forall>k \<in> set keys. (\<exists>s \<in> F. k = GetObjectKeyFromSequenceNumber ec s) \<or> \<not> ledgerFilenameRe_MatchString (filepath_Base k))"

definition file_of :: "DataStoreSchema \<Rightarrow> 32 word \<Rightarrow> LedgerFile" where
  "file_of ec s = \<lparr>lf_Key = GetObjectKeyFromSequenceNumber ec s, lf_High = GetSequenceNumberEndBoundary ec s, lf_Low = GetSequenceNumberStartBoundary ec s\<rparr>"

lemma file_item_key:
  assumes "schema_Validate ec = None" "ext_ok ec"
  shows "file_item (GetObjectKeyFromSequenceNumber ec s) = [Inr (file_of ec s)]" "parses (GetObjectKeyFromSequenceNumber ec s)"
    "ledgerFilenameRe_MatchString (filepath_Base (GetObjectKeyFromSequenceNumber ec s))"
  using file_name_matches [OF assms(2)] ParseRange_file_name [OF partitionSize_value(1) [OF assms(1)]]
  by (simp_all add: file_item_def parses_def Base_key [OF assms(2)] file_of_def)

lemma first_item:
  assumes "schema_Validate ec = None" "ext_ok ec" "sorted_wrt key_less ks"
    "\<forall>k \<in> set ks. (\<exists>s \<in> F. k = GetObjectKeyFromSequenceNumber ec s) \<or> \<not> ledgerFilenameRe_MatchString (filepath_Base k)"
  shows "(concat (map file_item ks) = ([] :: ('e iter_error, LedgerFile) result list) \<and> (\<forall>s \<in> F. GetObjectKeyFromSequenceNumber ec s \<notin> set ks)) \<or>
    (\<exists>m \<in> F. \<exists>rest. GetObjectKeyFromSequenceNumber ec m \<in> set ks \<and>
       concat (map file_item ks) = (Inr (file_of ec m) # rest :: ('e iter_error, LedgerFile) result list) \<and>
       (\<forall>s \<in> F. GetObjectKeyFromSequenceNumber ec s \<in> set ks \<longrightarrow> GetSequenceNumberStartBoundary ec s \<le> GetSequenceNumberStartBoundary ec m))"
  using assms(3,4)
proof (induction ks)
  case (Cons k ks)
  note match = file_item_key(3) [OF assms(1,2)]
  show ?case
  proof (cases "ledgerFilenameRe_MatchString (filepath_Base k)")
    case False
    then have "(file_item k :: ('e iter_error, LedgerFile) result list) = []" "\<forall>s \<in> F. GetObjectKeyFromSequenceNumber ec s \<noteq> k"
      using match by (auto simp: file_item_def)
    then show ?thesis using Cons by auto
  next
    case True
    then obtain m where m: "m \<in> F" "k = GetObjectKeyFromSequenceNumber ec m" using Cons.prems(2) by auto
    have "GetSequenceNumberStartBoundary ec s \<le> GetSequenceNumberStartBoundary ec m" if "GetObjectKeyFromSequenceNumber ec s \<in> set (k # ks)" for s
    proof (cases "GetObjectKeyFromSequenceNumber ec s = k")
      case True
      then show ?thesis using key_order(2) [OF assms(1), of s m] m(2) by simp
    next
      case False
      then have "key_less k (GetObjectKeyFromSequenceNumber ec s)" using that Cons.prems(1) by auto
      then show ?thesis using key_order(1) [OF assms(1)] m(2) by simp
    qed
    moreover have "(file_item k :: ('e iter_error, LedgerFile) result list) = [Inr (file_of ec m)]" unfolding m(2) by (rule file_item_key(1) [OF assms(1,2)])
    ultimately show ?thesis using m by (intro disjI2 bexI [of _ m]) auto
  qed
qed simp

lemma findLatestLedger_spec:
  fixes list_paths :: "string \<Rightarrow> ('e, string list) result"
  assumes "schema_Validate ec = None" "ext_ok ec" "pages_ok list_paths keys" "holds_files ec keys F"
  shows "(findLatestLedger list_paths sa = Some (Inl NoValidLedgerFiles) \<and> (\<forall>s \<in> F. \<not> key_less sa (GetObjectKeyFromSequenceNumber ec s))) \<or>
    (\<exists>m \<in> F. findLatestLedger list_paths sa = Some (Inr (GetSequenceNumberEndBoundary ec m)) \<and> key_less sa (GetObjectKeyFromSequenceNumber ec m) \<and>
       (\<forall>s \<in> F. key_less sa (GetObjectKeyFromSequenceNumber ec s) \<longrightarrow> GetSequenceNumberStartBoundary ec s \<le> GetSequenceNumberStartBoundary ec m))"
proof -
  let ?ks = "filter (key_less sa) keys" and ?key = "GetObjectKeyFromSequenceNumber ec"
  have "\<forall>p \<in> set keys. parses p" using assms(4) file_item_key(2) [OF assms(1,2)] by (fastforce simp: holds_files_def parses_def)
  then have items: "LedgerFileIter list_paths sa [] = Some (concat (map file_item ?ks))"
    using iter_loop_all [OF assms(3)] by (simp add: LedgerFileIter_def)
  have keys: "?key s \<in> set ?ks \<longleftrightarrow> key_less sa (?key s)" if "s \<in> F" for s using assms(4) that by (auto simp: holds_files_def)
  have sorted: "sorted_wrt key_less ?ks" using assms(3) by (simp add: pages_ok_def sorted_wrt_filter)
  have known: "\<forall>k \<in> set ?ks. (\<exists>s \<in> F. k = ?key s) \<or> \<not> ledgerFilenameRe_MatchString (filepath_Base k)" using assms(4) by (simp add: holds_files_def)
  from first_item [OF assms(1,2) sorted known, where 'e = 'e] show ?thesis
  proof (elim disjE bexE exE conjE)
    assume none: "concat (map file_item ?ks) = ([] :: ('e iter_error, LedgerFile) result list)" "\<forall>s \<in> F. ?key s \<notin> set ?ks"
    have "findLatestLedger list_paths sa = Some (Inl NoValidLedgerFiles)" unfolding findLatestLedger_def items none(1) by simp
    then show ?thesis using none(2) keys by blast
  next
    fix m rest
    assume m: "m \<in> F" "?key m \<in> set ?ks" "concat (map file_item ?ks) = (Inr (file_of ec m) # rest :: ('e iter_error, LedgerFile) result list)"
      "\<forall>s \<in> F. ?key s \<in> set ?ks \<longrightarrow> GetSequenceNumberStartBoundary ec s \<le> GetSequenceNumberStartBoundary ec m"
    have "findLatestLedger list_paths sa = Some (Inr (GetSequenceNumberEndBoundary ec m))"
      unfolding findLatestLedger_def items m(3) by (simp add: file_of_def)
    then show ?thesis using m keys by blast
  qed
qed

text \<open>Listing after the key of the next file shows exactly the files up to the one of the ledger.\<close>

lemma listed_up_to:
  assumes "schema_Validate ec = None"
  shows "key_less (if GetSequenceNumberEndBoundary ec e < 0xffffffff then GetObjectKeyFromSequenceNumber ec (GetSequenceNumberEndBoundary ec e + 1) else [])
      (GetObjectKeyFromSequenceNumber ec s) \<longleftrightarrow> GetSequenceNumberStartBoundary ec s \<le> GetSequenceNumberStartBoundary ec e"
proof -
  let ?L = "unat (LedgersPerFile ec)" and ?b = "GetSequenceNumberEndBoundary ec e"
  have l: "LedgersPerFile ec \<noteq> 0" using partitionSize_value(1) [OF assms] .
  then have L: "0 < ?L" by (simp add: unat_gt_0)
  have le: "GetSequenceNumberStartBoundary ec s \<le> GetSequenceNumberStartBoundary ec e \<longleftrightarrow> unat s div ?L \<le> unat e div ?L"
    using L by (simp add: word_le_nat_alt unat_start [OF l])
  have b: "unat ?b = min (block_end ?L (unat e)) 4294967295" using unat_end [OF l] .
  show ?thesis
  proof (cases "?b < 0xffffffff")
    case True
    then have small: "unat ?b < 4294967295" by (simp add: word_less_nat_alt)
    then have n: "unat (?b + 1) = (unat e div ?L + 1) * ?L" using b L by (simp add: unat_word_ariths block_end_def)
    have "key_less (GetObjectKeyFromSequenceNumber ec (?b + 1)) (GetObjectKeyFromSequenceNumber ec s) \<longleftrightarrow>
        unat s div ?L * ?L < unat (?b + 1) div ?L * ?L"
      unfolding key_order(1) [OF assms] by (simp add: word_less_nat_alt unat_start [OF l])
    also have "\<dots> \<longleftrightarrow> unat s div ?L < unat e div ?L + 1" unfolding n using L by (simp only: nonzero_mult_div_cancel_right [of ?L] mult_less_cancel2) simp
    finally show ?thesis using True le by auto
  next
    case False
    then have "4294967295 \<le> unat ?b" by (simp add: word_less_nat_alt)
    then have "4294967296 \<le> (unat e div ?L + 1) * ?L" using b L by (simp add: block_end_def)
    then have "unat s < (unat e div ?L + 1) * ?L" using unat_32 [of s] by linarith
    then have "unat s div ?L < unat e div ?L + 1" using L by (simp add: less_mult_imp_div_less)
    moreover have "key_less [] (GetObjectKeyFromSequenceNumber ec s)"
      by (cases "GetObjectKeyFromSequenceNumber ec s") (simp_all add: key_less_def GetObjectKeyFromSequenceNumber_def file_name_def Let_def)
    ultimately show ?thesis using False le by simp
  qed
qed

text \<open>
  C29: On a data store that lists its keys in order, \<^verbatim>\<open>FindLatestLedgerUpToSequence\<close> ends and returns the last ledger of the latest
  stored file whose first ledger is not after the file of the given ledger, or reports that there is none. The last
  ledger of that file may lie beyond the given ledger.
\<close>
theorem FindLatestLedgerUpToSequence_exact:
  assumes "schema_Validate ec = None" and "ext_ok ec" and "pages_ok list_paths keys" and "holds_files ec keys F" and "2 \<le> e"
  shows "(FindLatestLedgerUpToSequence list_paths e ec = Some (Inl NoValidLedgerFiles) \<and>
      (\<forall>s \<in> F. \<not> GetSequenceNumberStartBoundary ec s \<le> GetSequenceNumberStartBoundary ec e)) \<or>
    (\<exists>m \<in> F. FindLatestLedgerUpToSequence list_paths e ec = Some (Inr (GetSequenceNumberEndBoundary ec m)) \<and>
      GetSequenceNumberStartBoundary ec m \<le> GetSequenceNumberStartBoundary ec e \<and>
      (\<forall>s \<in> F. GetSequenceNumberStartBoundary ec s \<le> GetSequenceNumberStartBoundary ec e \<longrightarrow>
         GetSequenceNumberStartBoundary ec s \<le> GetSequenceNumberStartBoundary ec m))"
proof -
  let ?sa = "if GetSequenceNumberEndBoundary ec e < 0xffffffff then GetObjectKeyFromSequenceNumber ec (GetSequenceNumberEndBoundary ec e + 1) else []"
  have "FindLatestLedgerUpToSequence list_paths e ec = findLatestLedger list_paths ?sa"
    using assms(5) by (auto simp: FindLatestLedgerUpToSequence_def Let_def)
  then show ?thesis using findLatestLedger_spec [OF assms(1-4), of ?sa] unfolding listed_up_to [OF assms(1)] by simp
qed


definition witness_schema :: DataStoreSchema where
  "witness_schema = \<lparr>LedgersPerFile = 64, FilesPerPartition = 10, FileExtension = []\<rparr>"

lemma witness_schema_ok: "schema_Validate witness_schema = None" "ext_ok witness_schema"
  by (simp_all add: witness_schema_def schema_Validate_def partitionSize_def ext_ok_def)

definition one_file :: "string \<Rightarrow> (unit, string list) result" where
  "one_file cursor = Inr (filter (key_less cursor) [GetObjectKeyFromSequenceNumber witness_schema 70])"

lemma one_file_ok:
  "pages_ok one_file [GetObjectKeyFromSequenceNumber witness_schema 70]"
  "holds_files witness_schema [GetObjectKeyFromSequenceNumber witness_schema 70] {70}"
  by (auto simp: pages_ok_def one_file_def holds_files_def intro!: exI [of _ 1])

theorem FindLatestLedgerUpToSequence_exact_witness:
  "FindLatestLedgerUpToSequence one_file 70 witness_schema = Some (Inr 127)"
proof -
  have "GetSequenceNumberEndBoundary witness_schema 70 = 127"
    by (simp add: GetSequenceNumberEndBoundary_def GetSequenceNumberStartBoundary_def capped_end_def witness_schema_def)
  then show ?thesis using FindLatestLedgerUpToSequence_exact [OF witness_schema_ok one_file_ok, of 70] by simp
qed

text \<open>
  C28: Object keys name files and list the latest first: a key sorts before another exactly when its file is later, two
  ledgers have the same key exactly when they are in the same file, and the name of a key parses back to the
  first and the last ledger of the file.
\<close>
theorem object_keys_exact:
  assumes "schema_Validate ec = None" and "ext_ok ec"
  shows "(key_less (GetObjectKeyFromSequenceNumber ec t) (GetObjectKeyFromSequenceNumber ec s) \<longleftrightarrow>
        GetSequenceNumberStartBoundary ec s < GetSequenceNumberStartBoundary ec t) \<and>
    (GetObjectKeyFromSequenceNumber ec t = GetObjectKeyFromSequenceNumber ec s \<longleftrightarrow>
        GetSequenceNumberStartBoundary ec s = GetSequenceNumberStartBoundary ec t) \<and>
    ParseRangeFromObjectKey (filepath_Base (GetObjectKeyFromSequenceNumber ec s)) =
      Inr (GetSequenceNumberStartBoundary ec s, GetSequenceNumberEndBoundary ec s) \<and>
    GetSequenceNumberStartBoundary ec s \<le> s \<and> s \<le> GetSequenceNumberEndBoundary ec s"
  using key_order [OF assms(1)] ParseRange_file_name [OF partitionSize_value(1) [OF assms(1)]] boundaries_order [OF partitionSize_value(1) [OF assms(1)]]
  by (simp add: Base_key [OF assms(2)])

theorem object_keys_exact_witness:
  "ParseRangeFromObjectKey (filepath_Base (GetObjectKeyFromSequenceNumber witness_schema 70)) = Inr (64, 127)"
proof -
  have "GetSequenceNumberStartBoundary witness_schema 70 = 64" "GetSequenceNumberEndBoundary witness_schema 70 = 127"
    by (simp_all add: GetSequenceNumberEndBoundary_def GetSequenceNumberStartBoundary_def capped_end_def witness_schema_def)
  then show ?thesis using object_keys_exact [OF witness_schema_ok, of 0 70] by simp
qed

end
