(* ===== verification/Go_Heap.thy ===== *)
theory Go_Heap
  imports Go_Prelude
begin

text \<open>
  The min-heap of \<^verbatim>\<open>support/collections/heap/heap.go\<close>, on a slice, with the sift-up and sift-down loops of
  \<^verbatim>\<open>container/heap\<close> that it calls. The locale \<open>priority_queue\<close> is what its clients rely on; the heap is
  an instance for every comparison that is a strict weak order.
\<close>

section \<open>Definitions\<close>

definition heap_Swap :: "'a list \<Rightarrow> nat \<Rightarrow> nat \<Rightarrow> 'a list" where
  "heap_Swap s i j = s[i := s ! j, j := s ! i]"

definition parent :: "nat \<Rightarrow> nat" where
  "parent j = (j - 1) div 2"

text \<open>The loop \<^verbatim>\<open>up\<close>: the element at \<open>j\<close> moves to its parent while it is less.\<close>

function heap_up :: "('a \<Rightarrow> 'a \<Rightarrow> bool) \<Rightarrow> 'a list \<Rightarrow> nat \<Rightarrow> 'a list" where
  "heap_up lt s j =
     (let i = parent j
      in if i = j \<or> \<not> lt (s ! j) (s ! i) then s else heap_up lt (heap_Swap s i j) i)"
  by pat_completeness auto
termination by (relation "measure (\<lambda>(_, _, j). j)") (auto simp: parent_def)

text \<open>The loop \<^verbatim>\<open>down\<close> on the first \<open>n\<close> elements: the lesser child moves up while it is less.\<close>

definition lesser_child :: "('a \<Rightarrow> 'a \<Rightarrow> bool) \<Rightarrow> 'a list \<Rightarrow> nat \<Rightarrow> nat \<Rightarrow> nat" where
  "lesser_child lt s i n =
     (let j1 = 2 * i + 1; j2 = j1 + 1 in if j2 < n \<and> lt (s ! j2) (s ! j1) then j2 else j1)"

function heap_down :: "('a \<Rightarrow> 'a \<Rightarrow> bool) \<Rightarrow> 'a list \<Rightarrow> nat \<Rightarrow> nat \<Rightarrow> 'a list" where
  "heap_down lt s i n =
     (if 2 * i + 1 \<ge> n then s
      else let j = lesser_child lt s i n
           in if \<not> lt (s ! j) (s ! i) then s else heap_down lt (heap_Swap s i j) j n)"
  by pat_completeness auto
termination by (relation "measure (\<lambda>(_, _, i, n). n - i)") (auto simp: lesser_child_def Let_def)

declare heap_up.simps [simp del] heap_down.simps [simp del]

definition heap_New :: "'a list" where
  "heap_New = []"

definition heap_Len :: "'a list \<Rightarrow> nat" where
  "heap_Len s = length s"

definition heap_Push :: "('a \<Rightarrow> 'a \<Rightarrow> bool) \<Rightarrow> 'a \<Rightarrow> 'a list \<Rightarrow> 'a list" where
  "heap_Push lt x s = heap_up lt (s @ [x]) (length s)"

text \<open>\<^verbatim>\<open>Peek\<close> and \<^verbatim>\<open>Pop\<close> of an empty heap panic, which is \<open>None\<close>.\<close>

definition heap_Peek :: "'a list \<Rightarrow> 'a option" where
  "heap_Peek s = (case s of [] \<Rightarrow> None | x # _ \<Rightarrow> Some x)"

definition heap_Pop :: "('a \<Rightarrow> 'a \<Rightarrow> bool) \<Rightarrow> 'a list \<Rightarrow> ('a \<times> 'a list) option" where
  "heap_Pop lt s =
     (if s = [] then None
      else let n = length s - 1; s' = heap_down lt (heap_Swap s 0 n) 0 n
           in Some (s' ! n, take n s'))"

section \<open>The interface\<close>

locale strict_weak_order =
  fixes lt :: "'a \<Rightarrow> 'a \<Rightarrow> bool"
  assumes asym: "lt x y \<Longrightarrow> \<not> lt y x"
    and not_less_trans: "\<not> lt y x \<Longrightarrow> \<not> lt z y \<Longrightarrow> \<not> lt z x"

locale priority_queue = strict_weak_order lt for lt :: "'a \<Rightarrow> 'a \<Rightarrow> bool" +
  fixes new :: 'q and queue_ok :: "'q \<Rightarrow> bool" and elems :: "'q \<Rightarrow> 'a multiset"
    and push :: "'a \<Rightarrow> 'q \<Rightarrow> 'q" and peek :: "'q \<Rightarrow> 'a option" and pop :: "'q \<Rightarrow> ('a \<times> 'q) option"
  assumes new: "queue_ok new" "elems new = {#}"
    and push: "queue_ok q \<Longrightarrow> queue_ok (push x q)" "queue_ok q \<Longrightarrow> elems (push x q) = add_mset x (elems q)"
    and pop_empty: "elems q = {#} \<Longrightarrow> peek q = None \<and> pop q = None"
    and pop_least: "queue_ok q \<Longrightarrow> elems q \<noteq> {#} \<Longrightarrow>
      \<exists>x q'. peek q = Some x \<and> pop q = Some (x, q') \<and> queue_ok q' \<and> elems q = add_mset x (elems q') \<and>
        (\<forall>y \<in># elems q. \<not> lt y x)"
begin

lemma peek_pop:
  assumes "queue_ok q" "peek q = Some x"
  shows "\<exists>q'. pop q = Some (x, q') \<and> queue_ok q' \<and> elems q = add_mset x (elems q')"
  using assms pop_least [of q] pop_empty [of q] by fastforce

lemma pop_elems:
  assumes "queue_ok q" "pop q = Some (x, q')"
  shows "queue_ok q' \<and> elems q = add_mset x (elems q') \<and> peek q = Some x \<and> (\<forall>y \<in># elems q. \<not> lt y x)"
  using assms pop_least [of q] pop_empty [of q] by fastforce

text \<open>An element that no other element ties with or precedes is the one at the front.\<close>

lemma peek_least:
  assumes "queue_ok q" "x \<in># elems q" "\<And>y. y \<in># elems q \<Longrightarrow> y \<noteq> x \<Longrightarrow> lt x y"
  shows "peek q = Some x"
proof -
  have "elems q \<noteq> {#}" using assms(2) by auto
  then obtain z where "peek q = Some z" "z \<in># elems q" "\<forall>y \<in># elems q. \<not> lt y z"
    using pop_least [OF assms(1)] by auto
  then show ?thesis using assms(2,3) by metis
qed

end

section \<open>The heap is a priority queue\<close>

lemma length_heap_Swap [simp]: "length (heap_Swap s i j) = length s"
  by (simp add: heap_Swap_def)

lemma nth_heap_Swap: "i < length s \<Longrightarrow> j < length s \<Longrightarrow>
    heap_Swap s i j ! k = (if k = j then s ! i else if k = i then s ! j else s ! k)"
  by (simp add: heap_Swap_def nth_list_update)

lemma mset_heap_Swap: "i < length s \<Longrightarrow> j < length s \<Longrightarrow> mset (heap_Swap s i j) = mset s"
  unfolding heap_Swap_def by (rule mset_swap)

definition heap_ok_upto :: "('a \<Rightarrow> 'a \<Rightarrow> bool) \<Rightarrow> nat \<Rightarrow> 'a list \<Rightarrow> bool" where
  "heap_ok_upto lt n s \<longleftrightarrow> (\<forall>k. 0 < k \<and> k < n \<longrightarrow> \<not> lt (s ! k) (s ! parent k))"

abbreviation heap_ok :: "('a \<Rightarrow> 'a \<Rightarrow> bool) \<Rightarrow> 'a list \<Rightarrow> bool" where
  "heap_ok lt s \<equiv> heap_ok_upto lt (length s) s"

lemma parent_less: "0 < k \<Longrightarrow> parent k < k"
  by (simp add: parent_def)

lemma parent_children: "0 < k \<Longrightarrow> parent k = i \<longleftrightarrow> k = 2 * i + 1 \<or> k = 2 * i + 2"
  unfolding parent_def by presburger

context strict_weak_order
begin

lemma irrefl: "\<not> lt x x"
  using asym by blast

text \<open>The heap property everywhere but between \<open>j\<close> and its parent, where \<open>j\<close> may only be too small.\<close>

lemma heap_up_ok:
  assumes "j < n" "length s = n"
    and "\<And>k. 0 < k \<Longrightarrow> k < n \<Longrightarrow> k \<noteq> j \<Longrightarrow> \<not> lt (s ! k) (s ! parent k)"
    and "\<And>k. 0 < k \<Longrightarrow> k < n \<Longrightarrow> 0 < j \<Longrightarrow> parent k = j \<Longrightarrow> \<not> lt (s ! k) (s ! parent j)"
  shows "heap_ok lt (heap_up lt s j) \<and> mset (heap_up lt s j) = mset s \<and> length (heap_up lt s j) = n"
  using assms
proof (induction j arbitrary: s rule: less_induct)
  case (less j)
  let ?i = "parent j"
  show ?case
  proof (cases "?i = j \<or> \<not> lt (s ! j) (s ! ?i)")
    case True
    have "\<not> lt (s ! k) (s ! parent k)" if "0 < k" "k < n" for k
      using less(4) [OF that] True parent_less [OF that(1)] by (cases "k = j") auto
    then show ?thesis using True less(3) by (simp add: heap_up.simps [of lt s j] heap_ok_upto_def)
  next
    case False
    then have lt: "lt (s ! j) (s ! ?i)" and j: "0 < j" by (auto simp: parent_def)
    have i: "?i < j" "?i < n" using parent_less [OF j] less(2) by auto
    let ?s = "heap_Swap s ?i j"
    have nth: "?s ! k = (if k = j then s ! ?i else if k = ?i then s ! j else s ! k)" for k
      using nth_heap_Swap i less(2,3) by metis
    have up: "heap_up lt s j = heap_up lt ?s ?i" using False by (simp add: heap_up.simps [of lt s j] Let_def)
    have "heap_ok lt (heap_up lt ?s ?i) \<and> mset (heap_up lt ?s ?i) = mset ?s \<and> length (heap_up lt ?s ?i) = n"
    proof (rule less(1) [OF i])
      show "length ?s = n" using less(3) by simp
    next
      fix k assume k: "0 < k" "k < n" "k \<noteq> ?i"
      consider "k = j" | "k \<noteq> j" "parent k = j" | "k \<noteq> j" "parent k = ?i" | "k \<noteq> j" "parent k \<noteq> j" "parent k \<noteq> ?i" by blast
      then show "\<not> lt (?s ! k) (?s ! parent k)"
      proof cases
        case 1
        then show ?thesis unfolding nth using asym [OF lt] i(1) by simp
      next
        case 2
        then show ?thesis unfolding nth using less(5) [OF k(1,2) j] k(3) by simp
      next
        case 3
        then show ?thesis unfolding nth using not_less_trans [OF asym [OF lt]] less(4) [OF k(1,2)] k(3) i(1) by simp
      next
        case 4
        then show ?thesis unfolding nth using less(4) [OF k(1,2)] k(3) by simp
      qed
    next
      fix k assume k: "0 < k" "k < n" "0 < ?i" "parent k = ?i"
      have pi: "\<not> lt (s ! ?i) (s ! parent ?i)" "parent ?i < ?i" using less(4) [of ?i] parent_less [OF k(3)] k i by auto
      have "k = j \<or> \<not> lt (s ! k) (s ! ?i)" using less(4) [of k] k by auto
      then show "\<not> lt (?s ! k) (?s ! parent ?i)"
        using pi i k parent_less [OF k(1)] not_less_trans [OF pi(1)] unfolding nth by auto
    qed
    then show ?thesis unfolding up using mset_heap_Swap [of ?i s j] i less(2,3) by auto
  qed
qed

text \<open>The heap property everywhere but between \<open>i\<close> and its children, which may be too small.\<close>

lemma heap_down_ok:
  assumes "n \<le> length s"
    and "\<And>k. 0 < k \<Longrightarrow> k < n \<Longrightarrow> parent k \<noteq> i \<Longrightarrow> \<not> lt (s ! k) (s ! parent k)"
    and "\<And>k. 0 < k \<Longrightarrow> k < n \<Longrightarrow> 0 < i \<Longrightarrow> parent k = i \<Longrightarrow> \<not> lt (s ! k) (s ! parent i)"
  shows "heap_ok_upto lt n (heap_down lt s i n) \<and> mset (heap_down lt s i n) = mset s \<and>
    (\<forall>k. n \<le> k \<longrightarrow> heap_down lt s i n ! k = s ! k)"
  using assms
proof (induction "n - i" arbitrary: s i rule: less_induct)
  case (less i s)
  let ?j = "lesser_child lt s i n"
  show ?case
  proof (cases "n \<le> 2 * i + 1")
    case True
    have "parent k \<noteq> i" if "0 < k" "k < n" for k using parent_children [OF that(1)] that True by auto
    then show ?thesis using True less(3) by (simp add: heap_down.simps [of lt s i n] heap_ok_upto_def)
  next
    case big: False
    have j: "?j = 2 * i + 1 \<or> ?j = 2 * i + 2" "?j < n" using big by (auto simp: lesser_child_def Let_def)
    have pj: "parent ?j = i" "0 < ?j" "i < ?j" using j by (auto simp: parent_def)
    have least: "\<not> lt (s ! k) (s ! ?j)" if "0 < k" "k < n" "parent k = i" for k
      using that parent_children [OF that(1), of i] irrefl asym by (auto simp: lesser_child_def Let_def)
    show ?thesis
    proof (cases "lt (s ! ?j) (s ! i)")
      case False
      have "\<not> lt (s ! k) (s ! parent k)" if "0 < k" "k < n" for k
        using less(3) [OF that] not_less_trans [OF False least [OF that]] by (cases "parent k = i") auto
      then show ?thesis using False big by (simp add: heap_down.simps [of lt s i n] heap_ok_upto_def)
    next
      case True
      let ?s = "heap_Swap s i ?j"
      have nth: "?s ! k = (if k = ?j then s ! i else if k = i then s ! ?j else s ! k)" for k
        using nth_heap_Swap [of i s ?j] j pj less(2) by auto
      have dn: "heap_down lt s i n = heap_down lt ?s ?j n" using True big by (simp add: heap_down.simps [of lt s i n] Let_def)
      have "heap_ok_upto lt n (heap_down lt ?s ?j n) \<and> mset (heap_down lt ?s ?j n) = mset ?s \<and>
          (\<forall>k. n \<le> k \<longrightarrow> heap_down lt ?s ?j n ! k = ?s ! k)"
      proof (rule less(1))
        show "n - ?j < n - i" using pj j by simp
        show "n \<le> length ?s" using less(2) by simp
      next
        fix k assume k: "0 < k" "k < n" "parent k \<noteq> ?j"
        show "\<not> lt (?s ! k) (?s ! parent k)"
          using less(3) [of k] less(4) [of k] k least [of k] asym [OF True] pj parent_less [OF k(1)] less(4) [of ?j] j(2)
          unfolding nth by (cases "k = ?j"; cases "k = i"; cases "parent k = i") auto
      next
        fix k assume k: "0 < k" "k < n" "0 < ?j" "parent k = ?j"
        then show "\<not> lt (?s ! k) (?s ! parent ?j)"
          using less(3) [of k] pj parent_less [OF k(1)] unfolding nth by auto
      qed
      then show ?thesis unfolding dn using mset_heap_Swap [of i s ?j] j pj less(2) nth by auto
    qed
  qed
qed

lemma heap_root_least: "heap_ok_upto lt n s \<Longrightarrow> k < n \<Longrightarrow> \<not> lt (s ! k) (s ! 0)"
proof (induction k rule: less_induct)
  case (less k)
  show ?case
  proof (cases "k = 0")
    case False
    then have "parent k < k" "\<not> lt (s ! k) (s ! parent k)" using parent_less less by (auto simp: heap_ok_upto_def)
    moreover have "\<not> lt (s ! parent k) (s ! 0)" using less.IH [OF \<open>parent k < k\<close>] less.prems \<open>parent k < k\<close> by simp
    ultimately show ?thesis using not_less_trans by blast
  qed (simp add: irrefl)
qed

lemma heap_Push_ok:
  assumes "heap_ok lt s"
  shows "heap_ok lt (heap_Push lt x s)" "mset (heap_Push lt x s) = add_mset x (mset s)"
proof -
  have "\<not> lt ((s @ [x]) ! k) ((s @ [x]) ! parent k)" if "0 < k" "k < Suc (length s)" "k \<noteq> length s" for k
    using assms that parent_less [OF that(1)] by (simp add: heap_ok_upto_def nth_append)
  moreover have False if "0 < k" "k < Suc (length s)" "parent k = length s" for k
    using parent_less [OF that(1)] that by simp
  ultimately have "heap_ok lt (heap_Push lt x s) \<and> mset (heap_Push lt x s) = mset (s @ [x]) \<and> length (heap_Push lt x s) = Suc (length s)"
    unfolding heap_Push_def by (intro heap_up_ok) auto
  then show "heap_ok lt (heap_Push lt x s)" "mset (heap_Push lt x s) = add_mset x (mset s)" by auto
qed

lemma heap_Pop_ok:
  assumes "heap_ok lt s" "s \<noteq> []"
  shows "\<exists>q'. heap_Peek s = Some (s ! 0) \<and> heap_Pop lt s = Some (s ! 0, q') \<and> heap_ok lt q' \<and>
    mset s = add_mset (s ! 0) (mset q') \<and> (\<forall>y \<in># mset s. \<not> lt y (s ! 0))"
proof -
  define n where "n = length s - 1"
  have n: "n < length s" "length s = Suc n" using assms(2) by (auto simp: n_def)
  let ?s = "heap_Swap s 0 n"
  let ?d = "heap_down lt ?s 0 n"
  have nth: "?s ! k = (if k = n then s ! 0 else if k = 0 then s ! n else s ! k)" for k
    using nth_heap_Swap [of 0 s n] n by auto
  have "\<not> lt (?s ! k) (?s ! parent k)" if "0 < k" "k < n" "parent k \<noteq> 0" for k
    using assms(1) that parent_less [OF that(1)] n unfolding nth by (auto simp: heap_ok_upto_def)
  then have d: "heap_ok_upto lt n ?d" "mset ?d = mset ?s" "?d ! n = ?s ! n"
    using heap_down_ok [of n ?s 0] n by auto
  have len: "length ?d = Suc n" using mset_eq_length [OF d(2)] n by simp
  have ms: "mset ?d = mset s" using d(2) mset_heap_Swap [of 0 s n] n by simp
  have split: "?d = take n ?d @ [?d ! n]" using len by (simp add: take_Suc_conv_app_nth [symmetric])
  have "mset s = mset (take n ?d @ [?d ! n])" using ms unfolding split [symmetric] by (rule sym)
  then have add: "mset s = add_mset (s ! 0) (mset (take n ?d))" using d(3) nth [of n] by simp
  have "heap_ok lt (take n ?d)" using d(1) len less_trans [OF parent_less] by (simp add: heap_ok_upto_def)
  moreover have "heap_Pop lt s = Some (s ! 0, take n ?d)" using assms(2) d(3) nth [of n] by (simp add: heap_Pop_def n_def Let_def)
  moreover have "\<forall>y \<in># mset s. \<not> lt y (s ! 0)" using heap_root_least [OF assms(1)] by (auto simp: in_set_conv_nth)
  moreover have "heap_Peek s = Some (s ! 0)" using assms(2) by (cases s) (simp_all add: heap_Peek_def)
  ultimately show ?thesis using add by blast
qed

lemma heap_empty: "mset s = {#} \<Longrightarrow> heap_Peek s = None \<and> heap_Pop lt s = None"
  by (simp add: heap_Peek_def heap_Pop_def)

end

sublocale strict_weak_order \<subseteq> heap: priority_queue lt heap_New "heap_ok lt" mset "heap_Push lt" heap_Peek "heap_Pop lt"
proof unfold_locales
  fix q :: "'a list"
  assume "heap_ok lt q" "mset q \<noteq> {#}"
  then show "\<exists>x q'. heap_Peek q = Some x \<and> heap_Pop lt q = Some (x, q') \<and> heap_ok lt q' \<and>
      mset q = add_mset x (mset q') \<and> (\<forall>y \<in># mset q. \<not> lt y x)" using heap_Pop_ok [of q] by auto
next
  show "heap_ok lt heap_New" by (simp add: heap_New_def heap_ok_upto_def)
qed (simp_all add: heap_New_def heap_Push_ok heap_empty)

end
