(* ===== verification/Ledger_Buffer.thy ===== *)
theory Ledger_Buffer
  imports Datastore_Schema Go_Heap
begin

text \<open>
  The concurrent buffer in front of a ledger data store (\<^verbatim>\<open>ingest/ledgerbackend/ledger_buffer.go\<close>) and ranges of
  ledgers (\<^verbatim>\<open>range.go\<close>).

  Workers take tasks from a channel, download the object, push it onto a heap under a lock and drain the heap in
  ledger order into a second channel, from which the consumer reads; the consumer adds tasks. The step relation
  \<open>lb_step\<close> has one rule for each way a goroutine can go on between two of its blocking points. Sends and
  receives on channels are atomic, and the lock is held by the worker that is draining. Compression, buffer
  pools and the pauses between retries change no state that is modelled.

  The data store is a parameter: the object under each key, if there is one. A download may fail at any time.
\<close>

section \<open>Definitions\<close>

subsection \<open>Ranges\<close>

record ledger_Range =
  rg_from :: "32 word"
  rg_to :: "32 word"
  rg_bounded :: bool

definition ledger_Range_String :: "ledger_Range \<Rightarrow> string" where
  "ledger_Range_String r =
     (if rg_bounded r then ''['' @ fmt_d (rg_from r) @ '','' @ fmt_d (rg_to r) @ '']''
      else ''['' @ fmt_d (rg_from r) @ '',latest)'')"

definition range_Contains :: "ledger_Range \<Rightarrow> ledger_Range \<Rightarrow> bool" where
  "range_Contains r other =
     (if rg_bounded r \<and> \<not> rg_bounded other then False
      else if rg_bounded r \<and> rg_bounded other then rg_from r \<le> rg_from other \<and> rg_to r \<ge> rg_to other
      else rg_from r \<le> rg_from other)"

definition SingleLedgerRange :: "32 word \<Rightarrow> ledger_Range" where
  "SingleLedgerRange ledger = \<lparr>rg_from = ledger, rg_to = ledger, rg_bounded = True\<rparr>"

definition BoundedRange :: "32 word \<Rightarrow> 32 word \<Rightarrow> ledger_Range" where
  "BoundedRange from to = \<lparr>rg_from = from, rg_to = to, rg_bounded = True\<rparr>"

definition UnboundedRange :: "32 word \<Rightarrow> ledger_Range" where
  "UnboundedRange from = \<lparr>rg_from = from, rg_to = 0, rg_bounded = False\<rparr>"

subsection \<open>State\<close>

record BufferedStorageBackendConfig =
  BufferSize :: "32 word"
  BufferBytes :: int
  NumWorkers :: "32 word"
  RetryLimit :: "32 word"

record 'p ledgerBatchObject =
  payload :: 'p
  startLedger :: int

definition batch_less :: "'p ledgerBatchObject \<Rightarrow> 'p ledgerBatchObject \<Rightarrow> bool" where
  "batch_less a b \<longleftrightarrow> startLedger a < startLedger b"

text \<open>
  A worker waits in its select, is in attempt \<open>a\<close> of a download, waits for the lock with what it has downloaded,
  holds the lock at the head of the draining loop, holds it while it sends an object, or has returned.
\<close>

datatype 'p worker =
    Selecting | Downloading "32 word" "32 word" | Storing "32 word" 'p | Draining | Sending "'p ledgerBatchObject" | Exited

text \<open>The consumer waits for an object, or is in \<^verbatim>\<open>replenish\<close> with the size of the last object.\<close>

datatype consumer = Receiving | Replenishing int

datatype cancel_cause = Canceled | MissingObject "32 word" | MaximumRetries "32 word"

record 'p ledgerBuffer =
  lb_config :: BufferedStorageBackendConfig
  lb_schema :: DataStoreSchema
  taskQueue :: "32 word list"
  ledgerQueue :: "'p list"
  ledgerPriorityQueue :: "'p ledgerBatchObject list"
  currentLedger :: "32 word"
  nextTaskLedger :: "32 word"
  ledgerRange :: ledger_Range
  outstanding :: int
  cancelled :: "cancel_cause option"
  workers :: "'p worker list"
  lb_consumer :: consumer
  delivered :: "'p list"

text \<open>\<open>delivered\<close> records the objects received by the consumer, in order; the code does not keep it.\<close>

definition buffer_size :: "BufferedStorageBackendConfig \<Rightarrow> ledger_Range \<Rightarrow> 32 word" where
  "buffer_size config r =
     (if rg_bounded r then word_of_nat (min (unat (BufferSize config)) (unat (rg_to r - rg_from r) + 1)) else BufferSize config)"

definition newLedgerBuffer :: "BufferedStorageBackendConfig \<Rightarrow> DataStoreSchema \<Rightarrow> ledger_Range \<Rightarrow> 'p ledgerBuffer" where
  "newLedgerBuffer config schema r =
     \<lparr>lb_config = config\<lparr>BufferSize := buffer_size config r\<rparr>, lb_schema = schema, taskQueue = [], ledgerQueue = [],
      ledgerPriorityQueue = heap_New, currentLedger = rg_from r, nextTaskLedger = rg_from r, ledgerRange = r, outstanding = 0,
      cancelled = None, workers = replicate (unat (NumWorkers config)) Selecting, lb_consumer = Replenishing 0, delivered = []\<rparr>"

subsection \<open>Operations\<close>

definition depthLimit :: "'p ledgerBuffer \<Rightarrow> int \<Rightarrow> int" where
  "depthLimit lb lastSize =
     (let limit = uint (BufferSize (lb_config lb)) in
      if BufferBytes (lb_config lb) \<le> 0 then limit
      else if lastSize = 0 then min limit (uint (NumWorkers (lb_config lb)))
      else min limit (max (BufferBytes (lb_config lb) div lastSize) 1))"

definition queue_cap :: "'p ledgerBuffer \<Rightarrow> nat" where
  "queue_cap lb = unat (BufferSize (lb_config lb))"

definition past_end :: "'p ledgerBuffer \<Rightarrow> bool" where
  "past_end lb \<longleftrightarrow>
     rg_bounded (ledgerRange lb) \<and> nextTaskLedger lb > GetSequenceNumberEndBoundary (lb_schema lb) (rg_to (ledgerRange lb))"

text \<open>\<^verbatim>\<open>pushTaskQueue\<close> when the context is not done; \<open>None\<close> while the channel is full.\<close>

definition pushTaskQueue :: "'p ledgerBuffer \<Rightarrow> (bool \<times> 'p ledgerBuffer) option" where
  "pushTaskQueue lb =
     (if past_end lb then Some (False, lb)
      else if length (taskQueue lb) < queue_cap lb
      then Some (True, lb\<lparr>taskQueue := taskQueue lb @ [nextTaskLedger lb],
                         nextTaskLedger := nextTaskLedger lb + LedgersPerFile (lb_schema lb), outstanding := outstanding lb + 1\<rparr>)
      else None)"

definition set_worker :: "'p ledgerBuffer \<Rightarrow> nat \<Rightarrow> 'p worker \<Rightarrow> 'p ledgerBuffer" where
  "set_worker lb i w = lb\<lparr>workers := (workers lb)[i := w]\<rparr>"

text \<open>The first cause of a cancellation is kept.\<close>

definition lb_cancel :: "cancel_cause \<Rightarrow> 'p ledgerBuffer \<Rightarrow> 'p ledgerBuffer" where
  "lb_cancel cause lb = lb\<lparr>cancelled := (if cancelled lb = None then Some cause else cancelled lb)\<rparr>"

definition lb_close :: "'p ledgerBuffer \<Rightarrow> 'p ledgerBuffer" where
  "lb_close lb = lb_cancel Canceled lb"

fun holds_lock :: "'p worker \<Rightarrow> bool" where
  "holds_lock Draining = True"
| "holds_lock (Sending _) = True"
| "holds_lock _ = False"

definition object_key :: "'p ledgerBuffer \<Rightarrow> 32 word \<Rightarrow> string" where
  "object_key lb s = GetObjectKeyFromSequenceNumber (lb_schema lb) s"

text \<open>The head of the draining loop: the object to send and the heap without it, when it is its turn.\<close>

definition drain_next :: "'p ledgerBuffer \<Rightarrow> ('p ledgerBatchObject \<times> 'p ledgerBatchObject list) option" where
  "drain_next lb =
     (case heap_Peek (ledgerPriorityQueue lb) of
        None \<Rightarrow> None
      | Some x \<Rightarrow> if currentLedger lb = word_of_int (startLedger x) then heap_Pop batch_less (ledgerPriorityQueue lb) else None)"

text \<open>What a worker does after a failed attempt that is not the last: the loop condition is checked again.\<close>

definition next_attempt :: "'p ledgerBuffer \<Rightarrow> 32 word \<Rightarrow> 32 word \<Rightarrow> 'p worker" where
  "next_attempt lb s a = (if a + 1 \<le> RetryLimit (lb_config lb) then Downloading s (a + 1) else Selecting)"

definition getLatestLedgerSequence :: "'p ledgerBuffer \<Rightarrow> 32 word" where
  "getLatestLedgerSequence lb = (if currentLedger lb = rg_from (ledgerRange lb) then 0 else currentLedger lb - 1)"

subsection \<open>Steps\<close>

inductive lb_step :: "(string \<Rightarrow> 'p option) \<Rightarrow> 'p ledgerBuffer \<Rightarrow> 'p ledgerBuffer \<Rightarrow> bool" for objects where
  replenish_push: "lb_consumer lb = Replenishing sz \<Longrightarrow> outstanding lb \<le> depthLimit lb sz \<Longrightarrow> pushTaskQueue lb = Some (True, lb') \<Longrightarrow>
    lb_step objects lb lb'"
| replenish_stop: "lb_consumer lb = Replenishing sz \<Longrightarrow>
    depthLimit lb sz < outstanding lb \<or> pushTaskQueue lb = Some (False, lb) \<or> cancelled lb \<noteq> None \<Longrightarrow>
    lb_step objects lb (lb\<lparr>lb_consumer := Receiving\<rparr>)"
| receive: "lb_consumer lb = Receiving \<Longrightarrow> ledgerQueue lb = p # q \<Longrightarrow> 0 \<le> sz \<Longrightarrow>
    lb_step objects lb (lb\<lparr>ledgerQueue := q, delivered := delivered lb @ [p], outstanding := outstanding lb - 1, lb_consumer := Replenishing sz\<rparr>)"
| take_task: "i < length (workers lb) \<Longrightarrow> workers lb ! i = Selecting \<Longrightarrow> taskQueue lb = s # q \<Longrightarrow>
    lb_step objects lb (set_worker (lb\<lparr>taskQueue := q\<rparr>) i (Downloading s 0))"
| select_done: "i < length (workers lb) \<Longrightarrow> workers lb ! i = Selecting \<Longrightarrow> cancelled lb \<noteq> None \<Longrightarrow> lb_step objects lb (set_worker lb i Exited)"
| fetched: "i < length (workers lb) \<Longrightarrow> workers lb ! i = Downloading s a \<Longrightarrow> objects (object_key lb s) = Some p \<Longrightarrow>
    lb_step objects lb (set_worker lb i (Storing s p))"
| missing_wait: "i < length (workers lb) \<Longrightarrow> workers lb ! i = Downloading s a \<Longrightarrow> \<not> rg_bounded (ledgerRange lb) \<Longrightarrow>
    lb_step objects lb lb"
| missing_cancel: "i < length (workers lb) \<Longrightarrow> workers lb ! i = Downloading s a \<Longrightarrow> rg_bounded (ledgerRange lb) \<Longrightarrow>
    lb_step objects lb (lb_cancel (MissingObject s) (set_worker lb i Exited))"
| failed_retry: "i < length (workers lb) \<Longrightarrow> workers lb ! i = Downloading s a \<Longrightarrow> a \<noteq> RetryLimit (lb_config lb) \<Longrightarrow>
    lb_step objects lb (set_worker lb i (next_attempt lb s a))"
| failed_cancel: "i < length (workers lb) \<Longrightarrow> workers lb ! i = Downloading s a \<Longrightarrow> a = RetryLimit (lb_config lb) \<Longrightarrow>
    lb_step objects lb (lb_cancel (MaximumRetries s) (set_worker lb i Exited))"
| download_done: "i < length (workers lb) \<Longrightarrow> workers lb ! i = Downloading s a \<Longrightarrow> cancelled lb \<noteq> None \<Longrightarrow>
    lb_step objects lb (set_worker lb i Exited)"
| store: "i < length (workers lb) \<Longrightarrow> workers lb ! i = Storing s p \<Longrightarrow> \<not> list_ex holds_lock (workers lb) \<Longrightarrow>
    lb_step objects lb (set_worker (lb\<lparr>ledgerPriorityQueue :=
      heap_Push batch_less \<lparr>payload = p, startLedger = uint s\<rparr> (ledgerPriorityQueue lb)\<rparr>) i Draining)"
| drain_pop: "i < length (workers lb) \<Longrightarrow> workers lb ! i = Draining \<Longrightarrow> drain_next lb = Some (x, q) \<Longrightarrow>
    lb_step objects lb (set_worker (lb\<lparr>ledgerPriorityQueue := q\<rparr>) i (Sending x))"
| drain_end: "i < length (workers lb) \<Longrightarrow> workers lb ! i = Draining \<Longrightarrow> drain_next lb = None \<Longrightarrow>
    lb_step objects lb (set_worker lb i Selecting)"
| send: "i < length (workers lb) \<Longrightarrow> workers lb ! i = Sending x \<Longrightarrow> length (ledgerQueue lb) < queue_cap lb \<Longrightarrow>
    lb_step objects lb (set_worker (lb\<lparr>ledgerQueue := ledgerQueue lb @ [payload x],
      currentLedger := currentLedger lb + LedgersPerFile (lb_schema lb)\<rparr>) i Draining)"
| send_done: "i < length (workers lb) \<Longrightarrow> workers lb ! i = Sending x \<Longrightarrow> cancelled lb \<noteq> None \<Longrightarrow> lb_step objects lb (set_worker lb i Exited)"

text \<open>The states of a buffer, with \<^verbatim>\<open>close\<close> called at any time.\<close>

inductive lb_reachable :: "(string \<Rightarrow> 'p option) \<Rightarrow> 'p ledgerBuffer \<Rightarrow> 'p ledgerBuffer \<Rightarrow> bool" for objects init where
  lb_init: "lb_reachable objects init init"
| lb_next: "lb_reachable objects init lb \<Longrightarrow> lb_step objects lb lb' \<Longrightarrow> lb_reachable objects init lb'"
| lb_closed: "lb_reachable objects init lb \<Longrightarrow> lb_reachable objects init (lb_close lb)"

section \<open>The invariant\<close>

text \<open>The ledger of the \<open>k\<close>-th task, the number of objects sent to the consumer and the number of tasks made so far.\<close>

definition seqn :: "'p ledgerBuffer \<Rightarrow> nat \<Rightarrow> 32 word" where
  "seqn lb k = rg_from (ledgerRange lb) + word_of_nat k * LedgersPerFile (lb_schema lb)"

definition sent :: "'p ledgerBuffer \<Rightarrow> nat" where
  "sent lb = length (delivered lb) + length (ledgerQueue lb)"

definition made :: "'p ledgerBuffer \<Rightarrow> nat" where
  "made lb = length (delivered lb) + nat (outstanding lb)"

fun worker_tasks :: "'p worker \<Rightarrow> 32 word multiset" where
  "worker_tasks (Downloading s a) = {#s#}"
| "worker_tasks (Storing s p) = {#s#}"
| "worker_tasks (Sending x) = {#word_of_int (startLedger x)#}"
| "worker_tasks _ = {#}"

text \<open>All tasks that are waiting, being worked on, or downloaded and not yet sent.\<close>

definition tasks :: "'p ledgerBuffer \<Rightarrow> 32 word multiset" where
  "tasks lb = mset (taskQueue lb) + (\<Sum>w \<in># mset (workers lb). worker_tasks w) +
     image_mset (\<lambda>x. word_of_int (startLedger x)) (mset (ledgerPriorityQueue lb))"

definition item_ok :: "(string \<Rightarrow> 'p option) \<Rightarrow> 'p ledgerBuffer \<Rightarrow> 'p ledgerBatchObject \<Rightarrow> bool" where
  "item_ok objects lb x \<longleftrightarrow> uint (word_of_int (startLedger x) :: 32 word) = startLedger x \<and>
     objects (object_key lb (word_of_int (startLedger x))) = Some (payload x)"

fun worker_ok :: "(string \<Rightarrow> 'p option) \<Rightarrow> 'p ledgerBuffer \<Rightarrow> 'p worker \<Rightarrow> bool" where
  "worker_ok objects lb (Downloading s a) \<longleftrightarrow> a \<le> RetryLimit (lb_config lb)"
| "worker_ok objects lb (Storing s p) \<longleftrightarrow> objects (object_key lb s) = Some p"
| "worker_ok objects lb (Sending x) \<longleftrightarrow> item_ok objects lb x \<and> currentLedger lb = word_of_int (startLedger x)"
| "worker_ok objects lb Exited \<longleftrightarrow> cancelled lb \<noteq> None"
| "worker_ok objects lb _ \<longleftrightarrow> True"

definition inv_items :: "(string \<Rightarrow> 'p option) \<Rightarrow> 'p ledgerBuffer \<Rightarrow> bool" where
  "inv_items objects lb \<longleftrightarrow> heap_ok batch_less (ledgerPriorityQueue lb) \<and>
     (\<forall>x \<in> set (ledgerPriorityQueue lb). item_ok objects lb x) \<and> (\<forall>w \<in> set (workers lb). worker_ok objects lb w) \<and>
     (\<forall>i < length (workers lb). \<forall>j < length (workers lb).
        holds_lock (workers lb ! i) \<longrightarrow> holds_lock (workers lb ! j) \<longrightarrow> i = j)"

definition inv_queues :: "(string \<Rightarrow> 'p option) \<Rightarrow> 'p ledgerBuffer \<Rightarrow> bool" where
  "inv_queues objects lb \<longleftrightarrow> 0 \<le> outstanding lb \<and> sent lb \<le> made lb \<and>
     currentLedger lb = seqn lb (sent lb) \<and> nextTaskLedger lb = seqn lb (made lb) \<and>
     map Some (delivered lb @ ledgerQueue lb) = map (\<lambda>k. objects (object_key lb (seqn lb k))) [0..<sent lb]"

definition inv_tasks :: "'p ledgerBuffer \<Rightarrow> bool" where
  "inv_tasks lb \<longleftrightarrow> tasks lb \<subseteq># image_mset (seqn lb) (mset_set {sent lb..<made lb}) \<and>
     (cancelled lb = None \<longrightarrow> tasks lb = image_mset (seqn lb) (mset_set {sent lb..<made lb}))"

definition inv_depth :: "'p ledgerBuffer \<Rightarrow> bool" where
  "inv_depth lb \<longleftrightarrow> length (taskQueue lb) \<le> queue_cap lb \<and> length (ledgerQueue lb) \<le> queue_cap lb \<and>
     outstanding lb \<le> int (queue_cap lb) + 1 \<and>
     (cancelled lb = None \<longrightarrow> lb_consumer lb = Receiving \<longrightarrow> 1 \<le> outstanding lb \<or> past_end lb)"

text \<open>Ledger numbers have not wrapped around, and then a heap that nobody drains does not hold the next object.\<close>

definition no_wrap :: "'p ledgerBuffer \<Rightarrow> bool" where
  "no_wrap lb \<longleftrightarrow> unat (rg_from (ledgerRange lb)) + made lb * unat (LedgersPerFile (lb_schema lb)) < 2 ^ 32"

definition inv_drained :: "'p ledgerBuffer \<Rightarrow> bool" where
  "inv_drained lb \<longleftrightarrow> (no_wrap lb \<longrightarrow> cancelled lb = None \<longrightarrow> \<not> list_ex holds_lock (workers lb) \<longrightarrow>
     (\<forall>x \<in> set (ledgerPriorityQueue lb). currentLedger lb \<noteq> word_of_int (startLedger x)))"

interpretation batch_order: strict_weak_order batch_less
  by unfold_locales (auto simp: batch_less_def)

lemmas buffer_defs = seqn_def sent_def made_def queue_cap_def past_end_def object_key_def set_worker_def

lemma set_worker_simps [simp]:
  "lb_config (set_worker lb i w) = lb_config lb" "lb_schema (set_worker lb i w) = lb_schema lb" "taskQueue (set_worker lb i w) = taskQueue lb"
  "ledgerQueue (set_worker lb i w) = ledgerQueue lb" "ledgerPriorityQueue (set_worker lb i w) = ledgerPriorityQueue lb"
  "currentLedger (set_worker lb i w) = currentLedger lb" "nextTaskLedger (set_worker lb i w) = nextTaskLedger lb"
  "ledgerRange (set_worker lb i w) = ledgerRange lb" "outstanding (set_worker lb i w) = outstanding lb" "cancelled (set_worker lb i w) = cancelled lb"
  "workers (set_worker lb i w) = (workers lb)[i := w]" "lb_consumer (set_worker lb i w) = lb_consumer lb" "delivered (set_worker lb i w) = delivered lb"
  by (simp_all add: set_worker_def)

lemma lb_cancel_simps [simp]:
  "lb_config (lb_cancel c lb) = lb_config lb" "lb_schema (lb_cancel c lb) = lb_schema lb" "taskQueue (lb_cancel c lb) = taskQueue lb"
  "ledgerQueue (lb_cancel c lb) = ledgerQueue lb" "ledgerPriorityQueue (lb_cancel c lb) = ledgerPriorityQueue lb"
  "currentLedger (lb_cancel c lb) = currentLedger lb" "nextTaskLedger (lb_cancel c lb) = nextTaskLedger lb"
  "ledgerRange (lb_cancel c lb) = ledgerRange lb" "outstanding (lb_cancel c lb) = outstanding lb" "cancelled (lb_cancel c lb) \<noteq> None"
  "workers (lb_cancel c lb) = workers lb" "lb_consumer (lb_cancel c lb) = lb_consumer lb" "delivered (lb_cancel c lb) = delivered lb"
  by (simp_all add: lb_cancel_def)

lemma pushed:
  assumes "pushTaskQueue lb = Some (True, lb')"
  shows "\<not> past_end lb" "length (taskQueue lb) < queue_cap lb"
    "lb' = lb\<lparr>taskQueue := taskQueue lb @ [nextTaskLedger lb],
       nextTaskLedger := nextTaskLedger lb + LedgersPerFile (lb_schema lb), outstanding := outstanding lb + 1\<rparr>"
  using assms by (auto simp: pushTaskQueue_def split: if_splits)

lemma drain_next_Some:
  assumes "drain_next lb = Some (x, q)" "heap_ok batch_less (ledgerPriorityQueue lb)"
  shows "heap_ok batch_less q" "mset (ledgerPriorityQueue lb) = add_mset x (mset q)" "currentLedger lb = word_of_int (startLedger x)"
  using assms batch_order.heap.pop_elems [of "ledgerPriorityQueue lb" x q]
  by (auto simp: drain_next_def split: option.splits if_splits)

lemma sum_update:
  "i < length ws \<Longrightarrow> (\<Sum>w \<in># mset (ws[i := w']). worker_tasks w) + worker_tasks (ws ! i) = (\<Sum>w \<in># mset ws. worker_tasks w) + worker_tasks w'"
proof -
  assume i: "i < length ws"
  obtain R where R: "mset ws = add_mset (ws ! i) R" "mset (ws[i := w']) = add_mset w' R"
    using i mset_update [OF i, of w'] by (metis insert_DiffM nth_mem_mset)
  show ?thesis unfolding R by (simp add: add_ac)
qed

lemma tasks_set_worker:
  "i < length (workers lb) \<Longrightarrow> tasks (set_worker lb i w) + worker_tasks (workers lb ! i) = tasks lb + worker_tasks w"
  using sum_update [of i "workers lb" w] by (simp add: tasks_def add_ac)

section \<open>Steps keep the invariant\<close>

lemma seqn_Suc: "seqn lb (Suc k) = seqn lb k + LedgersPerFile (lb_schema lb)"
  by (simp add: seqn_def distrib_right)

lemma seqn_cong: "ledgerRange lb' = ledgerRange lb \<Longrightarrow> lb_schema lb' = lb_schema lb \<Longrightarrow> seqn lb' = seqn lb"
  by (simp add: fun_eq_iff seqn_def)

lemma step_params:
  "lb_step objects lb lb' \<Longrightarrow> lb_config lb' = lb_config lb \<and> lb_schema lb' = lb_schema lb \<and> ledgerRange lb' = ledgerRange lb \<and>
    length (workers lb') = length (workers lb)"
  by (induction rule: lb_step.induct) (auto dest: pushed(3))

lemma worker_tasks_le: "i < length (workers lb) \<Longrightarrow> worker_tasks (workers lb ! i) \<subseteq># tasks lb"
  using tasks_set_worker [of i lb Exited] by (metis add.right_neutral mset_subset_eq_add_right worker_tasks.simps(6))

lemma sending_pending:
  assumes "inv_tasks lb" "i < length (workers lb)" "workers lb ! i = Sending x"
  shows "sent lb < made lb"
proof (rule ccontr)
  assume "\<not> sent lb < made lb"
  then have "tasks lb = {#}" using assms(1) by (simp add: inv_tasks_def)
  then show False using worker_tasks_le [OF assms(2)] assms(3) by simp
qed

text \<open>Numbers of objects and tasks after a push, a receive and a send.\<close>

lemma push_counts:
  assumes "pushTaskQueue lb = Some (True, lb')" "0 \<le> outstanding lb"
  shows "seqn lb' = seqn lb" "sent lb' = sent lb" "made lb' = Suc (made lb)"
  unfolding pushed(3) [OF assms(1)] using assms(2) by (simp_all add: fun_eq_iff seqn_def sent_def made_def nat_add_distrib)

lemma receive_counts:
  assumes "inv_queues objects lb" "ledgerQueue lb = p # q"
  assumes "lb' = lb\<lparr>ledgerQueue := q, delivered := delivered lb @ [p], outstanding := outstanding lb - 1, lb_consumer := Replenishing sz\<rparr>"
  shows "sent lb' = sent lb" "made lb' = made lb" "1 \<le> outstanding lb"
  using assms by (auto simp: inv_queues_def sent_def made_def)

lemma inv_queues_step: "lb_step objects lb lb' \<Longrightarrow> inv_queues objects lb \<Longrightarrow> inv_items objects lb \<Longrightarrow> inv_tasks lb \<Longrightarrow> inv_queues objects lb'"
proof (induction rule: lb_step.induct)
  case (replenish_push lb sz lb')
  have lb': "lb' = lb\<lparr>taskQueue := taskQueue lb @ [nextTaskLedger lb],
       nextTaskLedger := nextTaskLedger lb + LedgersPerFile (lb_schema lb), outstanding := outstanding lb + 1\<rparr>"
    using pushed(3) [OF replenish_push(3)] .
  have "0 \<le> outstanding lb" using replenish_push(4) by (simp add: inv_queues_def)
  note push_counts [OF replenish_push(3) this]
  then show ?case using replenish_push(4) by (simp add: inv_queues_def lb' seqn_Suc object_key_def)
next
  case (receive lb p q sz)
  let ?lb = "lb\<lparr>ledgerQueue := q, delivered := delivered lb @ [p], outstanding := outstanding lb - 1, lb_consumer := Replenishing sz\<rparr>"
  have "seqn ?lb = seqn lb" by (rule seqn_cong) simp_all
  then show ?case using receive receive_counts [OF receive(4,2), of ?lb sz, OF refl] unfolding inv_queues_def by (simp add: object_key_def)
next
  case (send i lb x)
  let ?lb = "set_worker (lb\<lparr>ledgerQueue := ledgerQueue lb @ [payload x], currentLedger := currentLedger lb + LedgersPerFile (lb_schema lb)\<rparr>) i Draining"
  have c: "seqn ?lb = seqn lb" "sent ?lb = Suc (sent lb)" "made ?lb = made lb"
    by (rule seqn_cong) (simp_all add: sent_def made_def)
  have "worker_ok objects lb (Sending x)" using send(1,2,5) nth_mem [OF send(1)] by (auto simp: inv_items_def)
  then have "objects (object_key lb (seqn lb (sent lb))) = Some (payload x)" using send(4) by (simp add: inv_queues_def item_ok_def)
  then show ?case using send(4) sending_pending [OF send(6,1,2)] unfolding inv_queues_def c by (simp add: seqn_Suc object_key_def)
qed (simp_all add: inv_queues_def seqn_def sent_def made_def object_key_def)

lemma inv_tasks_keep:
  assumes "inv_tasks lb" "tasks lb' \<subseteq># tasks lb" "cancelled lb' = None \<Longrightarrow> cancelled lb = None \<and> tasks lb' = tasks lb"
    and "ledgerRange lb' = ledgerRange lb" "lb_schema lb' = lb_schema lb" "delivered lb' = delivered lb"
    and "ledgerQueue lb' = ledgerQueue lb" "outstanding lb' = outstanding lb"
  shows "inv_tasks lb'"
proof -
  have "seqn lb' = seqn lb" "sent lb' = sent lb" "made lb' = made lb" using assms(4-8) seqn_cong by (auto simp: sent_def made_def)
  then show ?thesis using assms(1-3) subset_mset.order_trans unfolding inv_tasks_def by metis
qed

lemma tasks_cancel [simp]: "tasks (lb_cancel c lb) = tasks lb"
  by (simp add: tasks_def)

lemma tasks_exit: "i < length (workers lb) \<Longrightarrow> tasks (set_worker lb i Exited) \<subseteq># tasks lb"
  using tasks_set_worker [of i lb Exited] by (metis add.right_neutral mset_subset_eq_add_left worker_tasks.simps(6))

lemma inv_tasks_send:
  assumes "inv_tasks lb" "seqn lb' = seqn lb" "sent lb' = Suc (sent lb)" "made lb' = made lb" "sent lb < made lb"
    and "tasks lb = add_mset (seqn lb (sent lb)) (tasks lb')" "cancelled lb' = cancelled lb"
  shows "inv_tasks lb'"
proof -
  have "{sent lb..<made lb} = insert (sent lb) {Suc (sent lb)..<made lb}" using assms(5) by auto
  then show ?thesis using assms(1) unfolding inv_tasks_def assms(2-4,6,7) by simp
qed

lemma inv_tasks_step: "lb_step objects lb lb' \<Longrightarrow> inv_queues objects lb \<Longrightarrow> inv_items objects lb \<Longrightarrow> inv_tasks lb \<Longrightarrow> inv_tasks lb'"
proof (induction rule: lb_step.induct)
  case (replenish_push lb sz lb')
  have lb': "lb' = lb\<lparr>taskQueue := taskQueue lb @ [nextTaskLedger lb],
       nextTaskLedger := nextTaskLedger lb + LedgersPerFile (lb_schema lb), outstanding := outstanding lb + 1\<rparr>"
    using pushed(3) [OF replenish_push(3)] .
  have o: "0 \<le> outstanding lb" and t: "tasks lb' = add_mset (seqn lb (made lb)) (tasks lb)"
    using replenish_push(4) by (simp_all add: lb' inv_queues_def tasks_def)
  note c = push_counts [OF replenish_push(3) o] t
  have "{sent lb..<Suc (made lb)} = insert (made lb) {sent lb..<made lb}" using replenish_push(4) by (auto simp: inv_queues_def)
  then show ?case using replenish_push(6) unfolding inv_tasks_def c by (simp add: lb')
next
  case (receive lb p q sz)
  let ?lb = "lb\<lparr>ledgerQueue := q, delivered := delivered lb @ [p], outstanding := outstanding lb - 1, lb_consumer := Replenishing sz\<rparr>"
  have "seqn ?lb = seqn lb" by (rule seqn_cong) simp_all
  then show ?case using receive(6) receive_counts [OF receive(4,2), of ?lb sz, OF refl] unfolding inv_tasks_def by (simp add: tasks_def)
next
  case (send i lb x)
  let ?lb = "set_worker (lb\<lparr>ledgerQueue := ledgerQueue lb @ [payload x], currentLedger := currentLedger lb + LedgersPerFile (lb_schema lb)\<rparr>) i Draining"
  have c: "seqn ?lb = seqn lb" "sent ?lb = Suc (sent lb)" "made ?lb = made lb"
    by (rule seqn_cong) (simp_all add: sent_def made_def)
  have "worker_ok objects lb (Sending x)" using send(1,2,5) nth_mem [OF send(1)] by (auto simp: inv_items_def)
  then have "word_of_int (startLedger x) = seqn lb (sent lb)" using send(4) by (simp add: inv_queues_def)
  then have t: "tasks lb = add_mset (seqn lb (sent lb)) (tasks ?lb)" using sum_update [OF send(1), of Draining] send(2) by (simp add: tasks_def add_ac)
  show ?case by (rule inv_tasks_send [OF send(6) c sending_pending [OF send(6,1,2)] t]) simp
next
  case (drain_pop i lb x q)
  have "mset (ledgerPriorityQueue lb) = add_mset x (mset q)" using drain_pop(3,5) drain_next_Some(2) by (auto simp: inv_items_def)
  then have "tasks (set_worker (lb\<lparr>ledgerPriorityQueue := q\<rparr>) i (Sending x)) = tasks lb"
    using sum_update [OF drain_pop(1), of "Sending x"] drain_pop(2) by (simp add: tasks_def add_ac)
  then show ?case using drain_pop(6) by - (rule inv_tasks_keep [of lb], simp_all)
next
  case (store i lb s p)
  have "mset (heap_Push batch_less \<lparr>payload = p, startLedger = uint s\<rparr> (ledgerPriorityQueue lb)) =
      add_mset \<lparr>payload = p, startLedger = uint s\<rparr> (mset (ledgerPriorityQueue lb))" using store(5) by (simp add: inv_items_def batch_order.heap.push)
  then show ?case using store(6) sum_update [OF store(1), of Draining] store(2) by - (rule inv_tasks_keep [of lb], simp_all add: tasks_def add_ac)
next
  case (take_task i lb s q)
  then show ?case using sum_update [OF take_task(1), of "Downloading s 0"] by - (rule inv_tasks_keep [of lb], simp_all add: tasks_def add_ac)
next
  case (failed_retry i lb s a)
  then have "a \<le> RetryLimit (lb_config lb)" using nth_mem [OF failed_retry(1)] by (auto simp: inv_items_def)
  then have "next_attempt lb s a = Downloading s (a + 1)" using failed_retry(3) by (simp add: next_attempt_def inc_le)
  then show ?case using failed_retry tasks_set_worker [OF failed_retry(1), of "Downloading s (a + 1)"] by - (rule inv_tasks_keep [of lb], simp_all)
next
  case (replenish_stop lb sz)
  then show ?case by - (rule inv_tasks_keep [of lb], simp_all add: tasks_def)
next
  case (select_done i lb)
  then show ?case using tasks_set_worker [OF select_done(1), of Exited] by - (rule inv_tasks_keep [of lb], simp_all)
next
  case (fetched i lb s a p)
  then show ?case using tasks_set_worker [OF fetched(1), of "Storing s p"] by - (rule inv_tasks_keep [of lb], simp_all)
next
  case (missing_cancel i lb s a)
  then show ?case using tasks_exit [OF missing_cancel(1)] by - (rule inv_tasks_keep [of lb], simp_all)
next
  case (failed_cancel i lb s a)
  then show ?case using tasks_exit [OF failed_cancel(1)] by - (rule inv_tasks_keep [of lb], simp_all)
next
  case (download_done i lb s a)
  then show ?case using tasks_exit [OF download_done(1)] by - (rule inv_tasks_keep [of lb], simp_all)
next
  case (drain_end i lb)
  then show ?case using tasks_set_worker [OF drain_end(1), of Selecting] by - (rule inv_tasks_keep [of lb], simp_all)
next
  case (send_done i lb x)
  then show ?case using tasks_exit [OF send_done(1)] by - (rule inv_tasks_keep [of lb], simp_all)
qed

lemma worker_ok_mono:
  assumes "worker_ok objects lb w" "lb_config lb' = lb_config lb" "lb_schema lb' = lb_schema lb" "cancelled lb \<noteq> None \<Longrightarrow> cancelled lb' \<noteq> None"
    and "holds_lock w \<Longrightarrow> currentLedger lb' = currentLedger lb"
  shows "worker_ok objects lb' w"
  using assms by (cases w) (simp_all add: object_key_def item_ok_def)

lemma item_ok_cong: "lb_schema lb' = lb_schema lb \<Longrightarrow> item_ok objects lb' x = item_ok objects lb x"
  by (simp add: item_ok_def object_key_def)

text \<open>One worker goes on, and the heap may change. The lock is passed to this worker only when it is free or its own.\<close>

lemma inv_items_worker:
  assumes "inv_items objects lb" "i < length (workers lb)" "worker_ok objects lb' w"
    and "lb_config lb' = lb_config lb" "lb_schema lb' = lb_schema lb" "cancelled lb \<noteq> None \<Longrightarrow> cancelled lb' \<noteq> None"
    and "workers lb' = (workers lb)[i := w]" "holds_lock w \<Longrightarrow> holds_lock (workers lb ! i) \<or> \<not> list_ex holds_lock (workers lb)"
    and "currentLedger lb' = currentLedger lb \<or> holds_lock (workers lb ! i)"
    and "heap_ok batch_less (ledgerPriorityQueue lb')" "\<And>x. x \<in> set (ledgerPriorityQueue lb') \<Longrightarrow> item_ok objects lb' x"
  shows "inv_items objects lb'"
proof -
  have lock: "j = k" if "j < length (workers lb)" "k < length (workers lb)" "holds_lock (workers lb ! j)" "holds_lock (workers lb ! k)" for j k
    using assms(1) that by (auto simp: inv_items_def)
  have free: "\<not> holds_lock (workers lb ! j)" if "j < length (workers lb)" "\<not> list_ex holds_lock (workers lb)" for j
    using that by (auto simp: list_ex_iff)
  have "worker_ok objects lb' (workers lb' ! j)" if "j < length (workers lb)" for j
  proof (cases "j = i")
    case False
    have "worker_ok objects lb (workers lb ! j)" using assms(1) that by (auto simp: inv_items_def)
    then have "worker_ok objects lb' (workers lb ! j)"
      by (rule worker_ok_mono) (use assms(4-6,9) lock [OF that assms(2)] False in auto)
    then show ?thesis using False assms(7) by simp
  qed (use assms(2,3,7) in simp)
  moreover have "j = k" if "j < length (workers lb)" "k < length (workers lb)" "holds_lock (workers lb' ! j)" "holds_lock (workers lb' ! k)" for j k
    using that lock [of j k] lock [of j i] lock [of i k] free [of j] free [of k] assms(2,7,8) by (auto simp: nth_list_update split: if_splits)
  ultimately show ?thesis using assms(7,10,11) by (auto simp: inv_items_def in_set_conv_nth)
qed

lemma inv_items_keep:
  assumes "inv_items objects lb" "lb_config lb' = lb_config lb" "lb_schema lb' = lb_schema lb" "cancelled lb \<noteq> None \<Longrightarrow> cancelled lb' \<noteq> None"
    and "workers lb' = workers lb" "currentLedger lb' = currentLedger lb" "ledgerPriorityQueue lb' = ledgerPriorityQueue lb"
  shows "inv_items objects lb'"
  using assms worker_ok_mono [of objects lb _ lb'] item_ok_cong [of lb' lb objects] by (simp add: inv_items_def)

lemma inv_items_simple:
  assumes "inv_items objects lb" "i < length (workers lb)" "worker_ok objects lb w" "\<not> holds_lock w"
  shows "inv_items objects (set_worker lb i w)"
proof (rule inv_items_worker [OF assms(1,2)])
  show "worker_ok objects (set_worker lb i w) w" using assms(3) by (rule worker_ok_mono) simp_all
qed (use assms in \<open>auto simp: inv_items_def item_ok_cong [of "set_worker lb i w" lb]\<close>)

lemma inv_items_step: "lb_step objects lb lb' \<Longrightarrow> inv_items objects lb \<Longrightarrow> inv_items objects lb'"
proof (induction rule: lb_step.induct)
  case (replenish_push lb sz lb')
  then show ?case using pushed(3) [OF replenish_push(3)] by (auto intro: inv_items_keep)
next
  case (replenish_stop lb sz)
  show ?case by (rule inv_items_keep [OF replenish_stop(3)]) simp_all
next
  case (receive lb p q sz)
  show ?case by (rule inv_items_keep [OF receive(4)]) simp_all
next
  case (take_task i lb s q)
  have "inv_items objects (lb\<lparr>taskQueue := q\<rparr>)" by (rule inv_items_keep [OF take_task(4)]) simp_all
  then show ?case using take_task(1) by (intro inv_items_simple) simp_all
next
  case (failed_retry i lb s a)
  then have "a \<le> RetryLimit (lb_config lb)" using nth_mem [OF failed_retry(1)] by (auto simp: inv_items_def)
  then have "next_attempt lb s a = Downloading s (a + 1)" "a + 1 \<le> RetryLimit (lb_config lb)" using failed_retry(3) by (simp_all add: next_attempt_def inc_le)
  then show ?case using inv_items_simple [OF failed_retry(4,1)] by simp
next
  case (missing_cancel i lb s a)
  have "inv_items objects (lb_cancel (MissingObject s) lb)" by (rule inv_items_keep [OF missing_cancel(4)]) simp_all
  then have "inv_items objects (set_worker (lb_cancel (MissingObject s) lb) i Exited)" using missing_cancel(1) by (intro inv_items_simple) simp_all
  then show ?case by (rule inv_items_keep) simp_all
next
  case (failed_cancel i lb s a)
  have "inv_items objects (lb_cancel (MaximumRetries s) lb)" by (rule inv_items_keep [OF failed_cancel(4)]) simp_all
  then have "inv_items objects (set_worker (lb_cancel (MaximumRetries s) lb) i Exited)" using failed_cancel(1) by (intro inv_items_simple) simp_all
  then show ?case by (rule inv_items_keep) simp_all
next
  case (store i lb s p)
  let ?x = "\<lparr>payload = p, startLedger = uint s\<rparr>" let ?q = "heap_Push batch_less ?x (ledgerPriorityQueue lb)"
  let ?lb = "set_worker (lb\<lparr>ledgerPriorityQueue := ?q\<rparr>) i Draining"
  have q: "heap_ok batch_less ?q" "mset ?q = add_mset ?x (mset (ledgerPriorityQueue lb))" using store(4) by (simp_all add: inv_items_def batch_order.heap.push)
  have "objects (object_key lb s) = Some p" using store(1,2,4) nth_mem [OF store(1)] by (auto simp: inv_items_def)
  then have "item_ok objects lb x" if "x \<in> set ?q" for x
    using that store(4) mset_eq_setD [of ?q "?x # ledgerPriorityQueue lb"] q(2) by (auto simp: inv_items_def item_ok_def)
  then show ?case using store(1-3) q(1) item_ok_cong [of ?lb lb objects] by - (rule inv_items_worker [OF store(4,1)], simp_all)
next
  case (drain_pop i lb x q)
  let ?lb = "set_worker (lb\<lparr>ledgerPriorityQueue := q\<rparr>) i (Sending x)"
  have q: "heap_ok batch_less q" "mset (ledgerPriorityQueue lb) = add_mset x (mset q)" "currentLedger lb = word_of_int (startLedger x)"
    using drain_next_Some [OF drain_pop(3)] drain_pop(4) by (auto simp: inv_items_def)
  have "item_ok objects lb y" if "y \<in> set (x # q)" for y
    using that drain_pop(4) mset_eq_setD [of "ledgerPriorityQueue lb" "x # q"] q(2) by (auto simp: inv_items_def)
  then show ?case using drain_pop(1-3) q(1,3) item_ok_cong [of ?lb lb objects] by - (rule inv_items_worker [OF drain_pop(4,1)], simp_all)
next
  case (send i lb x)
  let ?lb = "set_worker (lb\<lparr>ledgerQueue := ledgerQueue lb @ [payload x], currentLedger := currentLedger lb + LedgersPerFile (lb_schema lb)\<rparr>) i Draining"
  show ?case using send(1-4) item_ok_cong [of ?lb lb objects] by - (rule inv_items_worker [OF send(4,1)], simp_all add: inv_items_def)
qed (simp_all add: inv_items_simple)

lemma depthLimit_bounds: "0 \<le> depthLimit lb sz" "depthLimit lb sz \<le> int (queue_cap lb)"
  by (simp_all add: depthLimit_def queue_cap_def Let_def le_max_iff_disj)

lemma inv_depth_step: "lb_step objects lb lb' \<Longrightarrow> inv_depth lb \<Longrightarrow> inv_depth lb'"
proof (induction rule: lb_step.induct)
  case (replenish_push lb sz lb')
  have "outstanding lb \<le> int (queue_cap lb)" using replenish_push(2) depthLimit_bounds(2) [of lb sz] by simp
  then show ?case using replenish_push(1,4) pushed(2) [OF replenish_push(3)] unfolding pushed(3) [OF replenish_push(3)]
    by (simp add: inv_depth_def queue_cap_def)
next
  case (replenish_stop lb sz)
  then show ?case using depthLimit_bounds(1) [of lb sz]
    by (auto simp: inv_depth_def queue_cap_def past_end_def pushTaskQueue_def split: if_splits)
qed (auto simp: inv_depth_def queue_cap_def past_end_def)

lemma unat_seqn:
  assumes "unat (rg_from (ledgerRange lb)) + k * unat (LedgersPerFile (lb_schema lb)) < 2 ^ 32"
  shows "unat (seqn lb k) = unat (rg_from (ledgerRange lb)) + k * unat (LedgersPerFile (lb_schema lb))"
proof -
  have "seqn lb k = word_of_nat (unat (rg_from (ledgerRange lb)) + k * unat (LedgersPerFile (lb_schema lb)))"
    by (simp add: seqn_def)
  then have "unat (seqn lb k) = (unat (rg_from (ledgerRange lb)) + k * unat (LedgersPerFile (lb_schema lb))) mod 2 ^ LENGTH(32)"
    by (simp only: unat_of_nat)
  then show ?thesis using assms by simp
qed

lemma seqn_mono:
  assumes "no_wrap lb" "j \<le> k" "k \<le> made lb"
  shows "unat (seqn lb j) \<le> unat (seqn lb k)"
proof -
  let ?l = "unat (LedgersPerFile (lb_schema lb))"
  have "j * ?l \<le> k * ?l" "k * ?l \<le> made lb * ?l" using assms(2,3) by (simp_all add: mult_le_mono1)
  then show ?thesis using assms(1) unat_seqn [of lb j] unat_seqn [of lb k] unfolding no_wrap_def by linarith
qed

text \<open>When the loop of \<^verbatim>\<open>storeObject\<close> ends, the heap does not hold the next object.\<close>

lemma drain_complete:
  assumes "inv_items objects lb" "inv_queues objects lb" "inv_tasks lb" "no_wrap lb" "drain_next lb = None" "x \<in> set (ledgerPriorityQueue lb)"
  shows "currentLedger lb \<noteq> word_of_int (startLedger x)"
proof
  assume x: "currentLedger lb = word_of_int (startLedger x)"
  let ?q = "ledgerPriorityQueue lb"
  have ok: "heap_ok batch_less ?q" "\<And>y. y \<in> set ?q \<Longrightarrow> uint (word_of_int (startLedger y) :: 32 word) = startLedger y"
    using assms(1) by (auto simp: inv_items_def item_ok_def)
  have "mset ?q \<noteq> {#}" using assms(6) by auto
  then obtain z q' where z: "heap_Peek ?q = Some z" "heap_Pop batch_less ?q = Some (z, q')" "mset ?q = add_mset z (mset q')" "\<forall>y \<in># mset ?q. \<not> batch_less y z"
    using batch_order.heap.pop_least [OF ok(1)] by blast
  have zin: "z \<in> set ?q" using z(3) by (metis set_mset_mset union_single_eq_member)
  have le: "startLedger z \<le> startLedger x" using z(4) assms(6) by (auto simp: batch_less_def not_less)
  have "word_of_int (startLedger z) \<in># tasks lb" using zin by (auto simp: tasks_def)
  then have "word_of_int (startLedger z) \<in># image_mset (seqn lb) (mset_set {sent lb..<made lb})"
    using assms(3) unfolding inv_tasks_def by (metis mset_subset_eqD)
  then obtain k where k: "word_of_int (startLedger z) = seqn lb k" "sent lb \<le> k" "k < made lb" by auto
  have "unat (currentLedger lb) \<le> unat (word_of_int (startLedger z) :: 32 word)"
    using seqn_mono [OF assms(4) k(2)] k assms(2) by (simp add: inv_queues_def)
  then have "startLedger x \<le> startLedger z" using ok(2) [OF zin] ok(2) [OF assms(6)] x by (metis of_nat_le_iff uint_unat)
  then show False using le z(1,2) assms(5) x by (simp add: drain_next_def)
qed

lemma list_ex_update: "i < length ws \<Longrightarrow> P (ws ! i) \<longrightarrow> P w \<Longrightarrow> list_ex P ws \<Longrightarrow> list_ex P (ws[i := w])"
  by (auto simp: list_ex_length nth_list_update) 

lemma inv_drained_keep:
  assumes "inv_drained lb" "no_wrap lb' \<Longrightarrow> no_wrap lb" "cancelled lb' = None \<Longrightarrow> cancelled lb = None"
    and "list_ex holds_lock (workers lb) \<Longrightarrow> list_ex holds_lock (workers lb')"
    and "ledgerPriorityQueue lb' = ledgerPriorityQueue lb" "currentLedger lb' = currentLedger lb"
  shows "inv_drained lb'"
  using assms by (auto simp: inv_drained_def)

lemma inv_drained_holder: "i < length (workers lb) \<Longrightarrow> holds_lock (workers lb ! i) \<Longrightarrow> inv_drained lb"
  by (auto simp: inv_drained_def list_ex_length)

lemma no_wrap_cong: "made lb' = made lb \<Longrightarrow> ledgerRange lb' = ledgerRange lb \<Longrightarrow> lb_schema lb' = lb_schema lb \<Longrightarrow> no_wrap lb' = no_wrap lb"
  by (simp add: no_wrap_def)

lemma inv_drained_worker:
  assumes "inv_drained lb" "i < length (workers lb)" "holds_lock (workers lb ! i) \<longrightarrow> holds_lock w \<or> cancelled lb \<noteq> None"
  shows "inv_drained (set_worker lb i w)"
proof (cases "cancelled lb = None")
  case True
  then show ?thesis using assms by - (rule inv_drained_keep [OF assms(1)], auto simp: no_wrap_def made_def intro: list_ex_update)
qed (auto simp: inv_drained_def)

lemma inv_drained_step:
  "lb_step objects lb lb' \<Longrightarrow> inv_queues objects lb \<Longrightarrow> inv_items objects lb \<Longrightarrow> inv_tasks lb \<Longrightarrow> inv_drained lb \<Longrightarrow> inv_drained lb'"
proof (induction rule: lb_step.induct)
  case (replenish_push lb sz lb')
  have o: "0 \<le> outstanding lb" using replenish_push(4) by (simp add: inv_queues_def)
  have "no_wrap lb' \<Longrightarrow> no_wrap lb" using push_counts(3) [OF replenish_push(3) o] pushed(3) [OF replenish_push(3)] by (simp add: no_wrap_def)
  then show ?case by (rule inv_drained_keep [OF replenish_push(7)]) (simp_all add: pushed(3) [OF replenish_push(3)])
next
  case (receive lb p q sz)
  have "made (lb\<lparr>ledgerQueue := q, delivered := delivered lb @ [p], outstanding := outstanding lb - 1, lb_consumer := Replenishing sz\<rparr>) = made lb"
    using receive_counts(2) [OF receive(4,2) refl] .
  then show ?case by - (rule inv_drained_keep [OF receive(7)], simp_all add: no_wrap_def)
next
  case (drain_end i lb)
  have "inv_drained (set_worker lb i Selecting)" if "no_wrap lb"
    using drain_complete [OF drain_end(5,4,6) that drain_end(3)] by (simp add: inv_drained_def)
  then show ?case by (cases "no_wrap lb") (auto simp: inv_drained_def no_wrap_def made_def)
next
  case (replenish_stop lb sz)
  show ?case by (rule inv_drained_keep [OF replenish_stop(6)]) (simp_all add: no_wrap_def made_def)
next
  case (take_task i lb s q)
  have "inv_drained (lb\<lparr>taskQueue := q\<rparr>)" by (rule inv_drained_keep [OF take_task(7)]) (simp_all add: no_wrap_def made_def)
  then show ?case using take_task(1,2) by (intro inv_drained_worker) simp_all
next
  case (store i lb s p)
  show ?case by (rule inv_drained_holder [of i]) (use store(1) in simp_all)
next
  case (drain_pop i lb x q)
  show ?case by (rule inv_drained_holder [of i]) (use drain_pop(1) in simp_all)
next
  case (send i lb x)
  show ?case by (rule inv_drained_holder [of i]) (use send(1) in simp_all)
next
  case (missing_cancel i lb s a)
  show ?case by (simp add: inv_drained_def)
next
  case (failed_cancel i lb s a)
  show ?case by (simp add: inv_drained_def)
qed (simp_all add: inv_drained_worker)

subsection \<open>Reachable states\<close>

definition lb_inv :: "(string \<Rightarrow> 'p option) \<Rightarrow> 'p ledgerBuffer \<Rightarrow> bool" where
  "lb_inv objects lb \<longleftrightarrow> inv_queues objects lb \<and> inv_items objects lb \<and> inv_tasks lb \<and> inv_depth lb \<and> inv_drained lb"

lemma lb_inv_init: "lb_inv objects (newLedgerBuffer config schema r)"
proof -
  let ?lb = "newLedgerBuffer config schema r :: 'a ledgerBuffer"
  have "inv_queues objects ?lb" by (simp add: inv_queues_def newLedgerBuffer_def sent_def made_def seqn_def)
  moreover have "inv_items objects ?lb" using batch_order.heap.new(1) by (auto simp: inv_items_def newLedgerBuffer_def heap_New_def heap_ok_upto_def)
  moreover have "inv_tasks ?lb" by (simp add: inv_tasks_def newLedgerBuffer_def tasks_def sent_def made_def heap_New_def)
  moreover have "inv_depth ?lb" by (simp add: inv_depth_def newLedgerBuffer_def)
  moreover have "inv_drained ?lb" by (simp add: inv_drained_def newLedgerBuffer_def heap_New_def)
  ultimately show ?thesis by (simp add: lb_inv_def)
qed

lemma lb_inv_close: "lb_inv objects lb \<Longrightarrow> lb_inv objects (lb_close lb)"
proof -
  assume inv: "lb_inv objects lb"
  then have "inv_items objects (lb_close lb)" unfolding lb_inv_def by (elim conjE inv_items_keep) (simp_all add: lb_close_def)
  moreover have "inv_tasks (lb_close lb)" using inv by (auto simp: lb_inv_def lb_close_def intro: inv_tasks_keep [of lb])
  ultimately show ?thesis using inv unfolding lb_inv_def lb_close_def
    by (simp add: inv_queues_def inv_depth_def inv_drained_def seqn_def sent_def made_def object_key_def queue_cap_def)
qed

lemma lb_invariant: "lb_reachable objects (newLedgerBuffer config schema r) lb \<Longrightarrow> lb_inv objects lb"
proof (induction rule: lb_reachable.induct)
  case (lb_next lb lb')
  then show ?case using inv_queues_step inv_items_step inv_tasks_step inv_depth_step inv_drained_step unfolding lb_inv_def by metis
qed (simp_all add: lb_inv_init lb_inv_close)

lemma reachable_params:
  "lb_reachable objects (newLedgerBuffer config schema r) lb \<Longrightarrow>
    lb_config lb = config\<lparr>BufferSize := buffer_size config r\<rparr> \<and> lb_schema lb = schema \<and> ledgerRange lb = r \<and> length (workers lb) = unat (NumWorkers config)"
proof (induction rule: lb_reachable.induct)
  case (lb_next lb lb')
  then show ?case using step_params by metis
qed (simp_all add: newLedgerBuffer_def lb_close_def)

section \<open>Bounded ranges\<close>

text \<open>The ledgers after the last file of the range still have 32-bit numbers; the number of files of the range.\<close>

definition range_fits :: "DataStoreSchema \<Rightarrow> ledger_Range \<Rightarrow> bool" where
  "range_fits schema r \<longleftrightarrow> rg_bounded r \<and> rg_from r \<le> rg_to r \<and> LedgersPerFile schema \<noteq> 0 \<and>
     unat (GetSequenceNumberEndBoundary schema (rg_to r)) + unat (LedgersPerFile schema) < 2 ^ 32"

definition files :: "DataStoreSchema \<Rightarrow> ledger_Range \<Rightarrow> nat" where
  "files schema r = unat (rg_to r) div unat (LedgersPerFile schema) + 1 - unat (rg_from r) div unat (LedgersPerFile schema)"

lemma fits_end:
  assumes "range_fits schema r"
  shows "unat (GetSequenceNumberEndBoundary schema (rg_to r)) + 1 = (unat (rg_to r) div unat (LedgersPerFile schema) + 1) * unat (LedgersPerFile schema)"
    "0 < unat (LedgersPerFile schema)" "unat (rg_from r) div unat (LedgersPerFile schema) \<le> unat (rg_to r) div unat (LedgersPerFile schema)"
proof -
  let ?l = "unat (LedgersPerFile schema)"
  show l: "0 < ?l" using assms by (simp add: range_fits_def unat_gt_0)
  have "unat (GetSequenceNumberEndBoundary schema (rg_to r)) < 4294967295" using assms l by (simp add: range_fits_def)
  then have "unat (GetSequenceNumberEndBoundary schema (rg_to r)) = block_end ?l (unat (rg_to r))"
    using unat_end [of schema "rg_to r"] assms by (simp add: range_fits_def min_def split: if_splits)
  then show "unat (GetSequenceNumberEndBoundary schema (rg_to r)) + 1 = (unat (rg_to r) div ?l + 1) * ?l" using l by (simp add: block_end_def)
  show "unat (rg_from r) div ?l \<le> unat (rg_to r) div ?l" using assms by (simp add: range_fits_def word_le_nat_alt div_le_mono)
qed

lemma fits_no_wrap:
  assumes "range_fits schema r" "k \<le> files schema r"
  shows "unat (rg_from r) + k * unat (LedgersPerFile schema) < 2 ^ 32"
proof -
  let ?l = "unat (LedgersPerFile schema)" and ?f = "unat (rg_from r) div unat (LedgersPerFile schema)" and ?t = "unat (rg_to r) div unat (LedgersPerFile schema)"
  have "unat (rg_from r) < (?f + 1) * ?l" using fits_end(2) [OF assms(1)] dividend_less_div_times [of ?l "unat (rg_from r)"] by (simp add: add.commute)
  moreover have "k * ?l \<le> (?t + 1 - ?f) * ?l" using assms(2) by (simp add: files_def mult_le_mono1)
  moreover obtain d where "?t = ?f + d" using fits_end(3) [OF assms(1)] le_iff_add by blast
  then have "(?f + 1) * ?l + (?t + 1 - ?f) * ?l = (?t + 1) * ?l + ?l" by (simp add: algebra_simps)
  ultimately have "unat (rg_from r) + k * ?l < (?t + 1) * ?l + ?l" by linarith
  then show ?thesis using fits_end(1) [OF assms(1)] assms(1) unfolding range_fits_def by linarith
qed

lemma past_end_iff:
  assumes "range_fits (lb_schema lb) (ledgerRange lb)" "made lb \<le> files (lb_schema lb) (ledgerRange lb)" "nextTaskLedger lb = seqn lb (made lb)"
  shows "past_end lb \<longleftrightarrow> made lb = files (lb_schema lb) (ledgerRange lb)"
proof -
  let ?r = "ledgerRange lb" and ?l = "unat (LedgersPerFile (lb_schema lb))"
  have n: "unat (nextTaskLedger lb) = unat (rg_from ?r) + made lb * ?l" using unat_seqn fits_no_wrap [OF assms(1,2)] assms(3) by simp
  have "past_end lb \<longleftrightarrow> unat (GetSequenceNumberEndBoundary (lb_schema lb) (rg_to ?r)) < unat (nextTaskLedger lb)"
    using assms(1) by (simp add: past_end_def range_fits_def word_less_nat_alt)
  also have "\<dots> \<longleftrightarrow> (unat (rg_to ?r) div ?l + 1) * ?l \<le> unat (rg_from ?r) + made lb * ?l" using fits_end(1) [OF assms(1)] n by linarith
  also have "\<dots> \<longleftrightarrow> unat (rg_to ?r) div ?l + 1 \<le> unat (rg_from ?r) div ?l + made lb"
    using fits_end(2) [OF assms(1)] by (subst less_eq_div_iff_mult_less_eq [symmetric]) auto
  finally show ?thesis using assms(2) fits_end(3) [OF assms(1)] by (auto simp: files_def)
qed

lemma step_made:
  "lb_step objects lb lb' \<Longrightarrow> inv_queues objects lb \<Longrightarrow> made lb' = made lb \<or> \<not> past_end lb \<and> made lb' = Suc (made lb)"
proof (induction rule: lb_step.induct)
  case (replenish_push lb sz lb')
  then show ?case using pushed(1) push_counts(3) [of lb lb'] by (simp add: inv_queues_def)
next
  case (receive lb p q sz)
  then show ?case using receive_counts(2) [OF receive(4,2) refl] by blast
qed (simp_all add: made_def)

lemma made_le:
  "lb_reachable objects (newLedgerBuffer config schema r) lb \<Longrightarrow> range_fits schema r \<Longrightarrow> made lb \<le> files schema r"
proof (induction rule: lb_reachable.induct)
  case (lb_next lb lb')
  have p: "lb_schema lb = schema" "ledgerRange lb = r" using reachable_params [OF lb_next(1)] by simp_all
  have q: "inv_queues objects lb" using lb_invariant [OF lb_next(1)] by (simp add: lb_inv_def)
  then have "past_end lb \<longleftrightarrow> made lb = files schema r" using past_end_iff [of lb] lb_next p by (simp add: inv_queues_def)
  then show ?case using step_made [OF lb_next(2) q] lb_next by auto
qed (simp_all add: newLedgerBuffer_def made_def lb_close_def)

lemma reachable_no_wrap:
  "lb_reachable objects (newLedgerBuffer config schema r) lb \<Longrightarrow> range_fits schema r \<Longrightarrow> no_wrap lb"
  using fits_no_wrap [OF _ made_le] reachable_params by (fastforce simp: no_wrap_def)

section \<open>Progress\<close>

lemma tasks_size: "inv_tasks lb \<Longrightarrow> cancelled lb = None \<Longrightarrow> size (tasks lb) = made lb - sent lb"
  by (simp add: inv_tasks_def)

text \<open>A buffer that is not cancelled and cannot make a step has delivered all its tasks, and the last task was the last of the range.\<close>

lemma stuck_delivered:
  assumes inv: "lb_inv objects lb" and "no_wrap lb" and alive: "cancelled lb = None" and "workers lb \<noteq> []" "0 < queue_cap lb"
    and stuck: "\<And>lb'. \<not> lb_step objects lb lb'"
  shows "past_end lb \<and> length (delivered lb) = made lb"
proof -
  have w: "worker_ok objects lb (workers lb ! i)" if "i < length (workers lb)" for i
    using inv that by (auto simp: lb_inv_def inv_items_def)
  have no_dl: "workers lb ! i \<noteq> Downloading s a" if "i < length (workers lb)" for i s a
    using missing_wait [OF that] missing_cancel [OF that] stuck by metis
  have no_drain: "workers lb ! i \<noteq> Draining" if "i < length (workers lb)" for i
    using drain_pop [OF that] drain_end [OF that] stuck by (metis not_None_eq surj_pair)
  have no_exit: "workers lb ! i \<noteq> Exited" if "i < length (workers lb)" for i using w [OF that] alive by auto
  have idle: "taskQueue lb = []" if "i < length (workers lb)" "workers lb ! i = Selecting" for i
    using take_task [OF that] stuck by (metis list.exhaust)
  have zero: "0 < length (workers lb)" using assms(4) by simp
  have counts: "int (made lb) - int (sent lb) = outstanding lb - int (length (ledgerQueue lb))" "sent lb \<le> made lb"
    using inv by (auto simp: lb_inv_def inv_queues_def made_def sent_def)
  show ?thesis
  proof (cases "lb_consumer lb")
    case (Replenishing sz)
    have lim: "\<not> depthLimit lb sz < outstanding lb" and "pushTaskQueue lb \<noteq> Some (False, lb)" using replenish_stop [OF Replenishing] stuck by blast+
    moreover have "pushTaskQueue lb \<noteq> Some (True, lb')" for lb' using replenish_push [OF Replenishing] lim stuck by (metis not_less)
    ultimately have full: "queue_cap lb \<le> length (taskQueue lb)" by (auto simp: pushTaskQueue_def split: if_splits)
    have "size (tasks lb) \<le> length (taskQueue lb)"
      using tasks_size [of lb] inv alive counts lim depthLimit_bounds(2) [of lb sz] full by (simp add: lb_inv_def)
    then have "worker_tasks (workers lb ! 0) = {#}"
      using nth_mem [OF zero] by (auto simp: tasks_def)
    then have "workers lb ! 0 = Selecting" using no_dl [OF zero] no_drain [OF zero] no_exit [OF zero] by (cases "workers lb ! 0") auto
    then show ?thesis using idle [OF zero] full assms(5) by simp
  next
    case Receiving
    then have lq: "ledgerQueue lb = []" using receive [OF Receiving, of _ _ 0] stuck by (metis list.exhaust order_refl)
    have no_send: "workers lb ! i \<noteq> Sending x" if "i < length (workers lb)" for i x using send [OF that] lq assms(5) stuck by (metis list.size(3))
    have free: "\<not> list_ex holds_lock (workers lb)"
    proof
      assume "list_ex holds_lock (workers lb)"
      then obtain i where "i < length (workers lb)" "holds_lock (workers lb ! i)" by (auto simp: list_ex_length)
      then show False using no_drain no_send by (cases "workers lb ! i") auto
    qed
    have no_store: "workers lb ! i \<noteq> Storing s p" if "i < length (workers lb)" for i s p using store [OF that] free stuck by metis
    have sel: "workers lb ! i = Selecting" if "i < length (workers lb)" for i
      using no_dl no_drain no_send no_store no_exit that by (cases "workers lb ! i") auto
    then have ws: "worker_tasks w = {#}" if "w \<in> set (workers lb)" for w using that by (auto simp: in_set_conv_nth)
    have "sent lb = made lb"
    proof (rule ccontr)
      assume "sent lb \<noteq> made lb"
      then have "seqn lb (sent lb) \<in># tasks lb" using inv alive counts(2) by (auto simp: lb_inv_def inv_tasks_def)
      then have "currentLedger lb \<in> (\<lambda>x. word_of_int (startLedger x)) ` set (ledgerPriorityQueue lb)"
        using inv idle [OF zero sel [OF zero]] ws by (auto simp: lb_inv_def inv_queues_def tasks_def)
      then show False using inv assms(2) alive free by (auto simp: lb_inv_def inv_drained_def)
    qed
    then show ?thesis using inv alive Receiving lq counts by (auto simp: lb_inv_def inv_depth_def sent_def)
  qed
qed

text \<open>Every step on a bounded range reduces a weight, so runs end; this includes retries.\<close>

fun worker_weight :: "nat \<Rightarrow> 'p worker \<Rightarrow> nat" where
  "worker_weight l Exited = 0"
| "worker_weight l Selecting = 1"
| "worker_weight l Draining = 2"
| "worker_weight l (Sending _) = 5"
| "worker_weight l (Storing _ _) = 7"
| "worker_weight l (Downloading _ a) = 8 + (l - unat a)"

definition run_weight :: "'p ledgerBuffer \<Rightarrow> nat" where
  "run_weight lb =
     (let l = unat (RetryLimit (lb_config lb)) in
      (9 + l) * (files (lb_schema lb) (ledgerRange lb) - made lb) + (8 + l) * length (taskQueue lb) + 4 * length (ledgerPriorityQueue lb) +
      2 * length (ledgerQueue lb) + (\<Sum>w \<leftarrow> workers lb. worker_weight l w) + (if lb_consumer lb = Receiving then 0 else 1))"

lemma weight_update:
  "i < length ws \<Longrightarrow> (\<Sum>w \<leftarrow> ws[i := w']. worker_weight l w) + worker_weight l (ws ! i) = (\<Sum>w \<leftarrow> ws. worker_weight l w) + worker_weight l w'"
proof (induction ws arbitrary: i)
  case (Cons a ws)
  then show ?case by (cases i) auto
qed simp

lemma step_weight:
  "lb_step objects lb lb' \<Longrightarrow> lb_inv objects lb \<Longrightarrow> rg_bounded (ledgerRange lb) \<Longrightarrow>
    (\<not> past_end lb \<longrightarrow> made lb < files (lb_schema lb) (ledgerRange lb)) \<Longrightarrow> run_weight lb' < run_weight lb"
proof (induction rule: lb_step.induct)
  case (replenish_push lb sz lb')
  have o: "0 \<le> outstanding lb" using replenish_push(4) by (simp add: lb_inv_def inv_queues_def)
  have "made lb < files (lb_schema lb) (ledgerRange lb)" using replenish_push(6) pushed(1) [OF replenish_push(3)] by blast
  then obtain d where "files (lb_schema lb) (ledgerRange lb) = made lb + Suc d" by (metis less_imp_Suc_add add_Suc_right)
  then show ?case using push_counts(3) [OF replenish_push(3) o] replenish_push(1) by (simp add: run_weight_def pushed(3) [OF replenish_push(3)] Let_def)
next
  case (receive lb p q sz)
  have "inv_queues objects lb" using receive(4) by (simp add: lb_inv_def)
  from receive_counts(2) [OF this receive(2) refl, of sz] show ?case using receive(1,2) by (simp add: run_weight_def Let_def)
next
  case (failed_retry i lb s a)
  have "worker_ok objects lb (Downloading s a)" using failed_retry(1,2,4) nth_mem [OF failed_retry(1)] by (auto simp: lb_inv_def inv_items_def)
  then have a: "unat a < unat (RetryLimit (lb_config lb))" using failed_retry(3) by (simp add: word_less_nat_alt [symmetric])
  then have "unat (a + 1) = unat a + 1" "a + 1 \<le> RetryLimit (lb_config lb)" using unat_32 [of "RetryLimit (lb_config lb)"]
    by (simp_all add: unat_word_ariths word_le_nat_alt)
  then show ?case using a failed_retry(2) weight_update [OF failed_retry(1), of "unat (RetryLimit (lb_config lb))" "Downloading s (a + 1)"]
    by (simp add: run_weight_def Let_def next_attempt_def made_def)
next
  case (store i lb s p)
  let ?q = "heap_Push batch_less \<lparr>payload = p, startLedger = uint s\<rparr> (ledgerPriorityQueue lb)"
  have "size (mset ?q) = Suc (size (mset (ledgerPriorityQueue lb)))" using store(4) by (simp add: lb_inv_def inv_items_def batch_order.heap.push del: size_mset)
  then show ?case using store(2) weight_update [OF store(1), of "unat (RetryLimit (lb_config lb))" Draining] by (simp add: run_weight_def Let_def made_def)
next
  case (drain_pop i lb x q)
  have "mset (ledgerPriorityQueue lb) = add_mset x (mset q)" using drain_pop(3,4) drain_next_Some(2) by (auto simp: lb_inv_def inv_items_def)
  then have "length (ledgerPriorityQueue lb) = Suc (length q)" by (metis size_add_mset size_mset)
  then show ?case using drain_pop(2) weight_update [OF drain_pop(1), of "unat (RetryLimit (lb_config lb))" "Sending x"] by (simp add: run_weight_def Let_def made_def)
next
  case (take_task i lb s q)
  then show ?case using weight_update [OF take_task(1), of "unat (RetryLimit (lb_config lb))" "Downloading s 0"] by (simp add: run_weight_def Let_def made_def)
next
  case (select_done i lb)
  then show ?case using weight_update [OF select_done(1), of "unat (RetryLimit (lb_config lb))" Exited] by (simp add: run_weight_def Let_def made_def)
next
  case (fetched i lb s a p)
  then show ?case using weight_update [OF fetched(1), of "unat (RetryLimit (lb_config lb))" "Storing s p"] by (simp add: run_weight_def Let_def made_def)
next
  case (missing_cancel i lb s a)
  then show ?case using weight_update [OF missing_cancel(1), of "unat (RetryLimit (lb_config lb))" Exited] by (simp add: run_weight_def Let_def made_def)
next
  case (failed_cancel i lb s a)
  then show ?case using weight_update [OF failed_cancel(1), of "unat (RetryLimit (lb_config lb))" Exited] by (simp add: run_weight_def Let_def made_def)
next
  case (download_done i lb s a)
  then show ?case using weight_update [OF download_done(1), of "unat (RetryLimit (lb_config lb))" Exited] by (simp add: run_weight_def Let_def made_def)
next
  case (drain_end i lb)
  then show ?case using weight_update [OF drain_end(1), of "unat (RetryLimit (lb_config lb))" Selecting] by (simp add: run_weight_def Let_def made_def)
next
  case (send i lb x)
  then show ?case using weight_update [OF send(1), of "unat (RetryLimit (lb_config lb))" Draining] by (simp add: run_weight_def Let_def made_def)
next
  case (send_done i lb x)
  then show ?case using weight_update [OF send_done(1), of "unat (RetryLimit (lb_config lb))" Exited] by (simp add: run_weight_def Let_def made_def)
next
  case (replenish_stop lb sz)
  then show ?case by (simp add: run_weight_def Let_def made_def)
qed simp

lemma reachable_weight:
  assumes "lb_reachable objects (newLedgerBuffer config schema r) lb" "range_fits schema r" "lb_step objects lb lb'"
  shows "run_weight lb' < run_weight lb"
proof -
  have p: "lb_schema lb = schema" "ledgerRange lb = r" using reachable_params [OF assms(1)] by simp_all
  have inv: "lb_inv objects lb" by (rule lb_invariant [OF assms(1)])
  have "past_end lb \<longleftrightarrow> made lb = files schema r" using past_end_iff [of lb] made_le [OF assms(1,2)] assms(2) inv p by (simp add: lb_inv_def inv_queues_def)
  then show ?thesis using step_weight [OF assms(3) inv] made_le [OF assms(1,2)] assms(2) p by (simp add: range_fits_def)
qed

text \<open>When a cancelled buffer cannot make a step, all workers have returned: \<^verbatim>\<open>close\<close> waits for them.\<close>

lemma stuck_exited:
  assumes "cancelled lb \<noteq> None" "\<And>lb'. \<not> lb_step objects lb lb'" "w \<in> set (workers lb)"
  shows "w = Exited"
proof -
  have no: "workers lb ! i \<noteq> Downloading s a" "workers lb ! i \<noteq> Selecting" "workers lb ! i \<noteq> Sending x" if "i < length (workers lb)" for i s a x
    using download_done [OF that _ assms(1)] select_done [OF that _ assms(1)] send_done [OF that _ assms(1)] assms(2) by metis+
  have no_drain: "workers lb ! i \<noteq> Draining" if "i < length (workers lb)" for i
    using drain_pop [OF that] drain_end [OF that] assms(2) by (metis not_None_eq surj_pair)
  have free: "\<not> list_ex holds_lock (workers lb)"
  proof
    assume "list_ex holds_lock (workers lb)"
    then obtain i where "i < length (workers lb)" "holds_lock (workers lb ! i)" by (auto simp: list_ex_length)
    then show False using no_drain no by (cases "workers lb ! i") auto
  qed
  have "workers lb ! i \<noteq> Storing s p" if "i < length (workers lb)" for i s p using store [OF that] free assms(2) by metis
  then show ?thesis using no no_drain assms(3) by (cases w) (auto simp: in_set_conv_nth)
qed

section \<open>Properties\<close>

lemma buffer_size_pos: "BufferSize config \<noteq> 0 \<Longrightarrow> 0 < unat (buffer_size config r)"
proof -
  assume "BufferSize config \<noteq> 0"
  then have b: "0 < unat (BufferSize config)" by (simp add: unat_gt_0)
  let ?m = "min (unat (BufferSize config)) (unat (rg_to r - rg_from r) + 1)"
  have "?m < 2 ^ LENGTH(32)" using unat_32 [of "BufferSize config"] by simp
  then have "unat (word_of_nat ?m :: 32 word) = ?m" unfolding unat_of_nat by (rule mod_less)
  then show ?thesis using b by (simp add: buffer_size_def)
qed

text \<open>The \<open>k\<close>-th task is a ledger of the \<open>k\<close>-th file of the range.\<close>

lemma seqn_file:
  assumes "schema_Validate schema = None" "range_fits schema r" "lb_schema lb = schema" "ledgerRange lb = r" "k < files schema r"
  shows "GetObjectKeyFromSequenceNumber schema (seqn lb k) =
    GetObjectKeyFromSequenceNumber schema (word_of_nat ((unat (rg_from r) div unat (LedgersPerFile schema) + k) * unat (LedgersPerFile schema)))"
proof -
  let ?l = "unat (LedgersPerFile schema)" and ?i = "unat (rg_from r) div unat (LedgersPerFile schema) + k"
  have l: "0 < ?l" "LedgersPerFile schema \<noteq> 0" using fits_end(2) [OF assms(2)] assms(2) by (simp_all add: range_fits_def)
  have u: "unat (seqn lb k) = unat (rg_from r) + k * ?l" using unat_seqn [of lb k] fits_no_wrap [OF assms(2), of k] assms(3-5) by simp
  have d: "unat (seqn lb k) div ?l = ?i" using u l(1) by simp
  then have "?i * ?l \<le> unat (seqn lb k)" by (metis div_times_less_eq_dividend)
  then have "?i * ?l < 2 ^ LENGTH(32)" using unat_32 [of "seqn lb k"] by simp
  then have "unat (word_of_nat (?i * ?l) :: 32 word) = ?i * ?l" unfolding unat_of_nat by (rule mod_less)
  then have "unat (GetSequenceNumberStartBoundary schema (word_of_nat (?i * ?l))) = unat (GetSequenceNumberStartBoundary schema (seqn lb k))"
    using unat_start [OF l(2)] d l(1) by simp
  then show ?thesis using same_file_key [OF assms(1)] by (metis word_unat_eq_iff)
qed

lemma buffer_result:
  assumes "BufferSize config \<noteq> 0" "NumWorkers config \<noteq> 0" "schema_Validate schema = None" "range_fits schema r"
    and "lb_reachable objects (newLedgerBuffer config schema r) lb"
  shows "map Some (delivered lb) =
      map (\<lambda>k. objects (GetObjectKeyFromSequenceNumber schema
             (word_of_nat ((unat (rg_from r) div unat (LedgersPerFile schema) + k) * unat (LedgersPerFile schema))))) [0..<length (delivered lb)] \<and>
    length (delivered lb) \<le> files schema r \<and>
    (cancelled lb = None \<longrightarrow> (\<forall>lb'. \<not> lb_step objects lb lb') \<longrightarrow> length (delivered lb) = files schema r)"
proof (intro conjI impI)
  have p: "lb_schema lb = schema" "ledgerRange lb = r" "length (workers lb) = unat (NumWorkers config)" "queue_cap lb = unat (buffer_size config r)"
    using reachable_params [OF assms(5)] by (simp_all add: queue_cap_def)
  have inv: "lb_inv objects lb" by (rule lb_invariant [OF assms(5)])
  note made = made_le [OF assms(5,4)]
  have le: "length (delivered lb) \<le> sent lb" "sent lb \<le> made lb" using inv by (simp_all add: sent_def lb_inv_def inv_queues_def)
  show "length (delivered lb) \<le> files schema r" using le made by simp
  have "map Some (delivered lb) = take (length (delivered lb)) (map Some (delivered lb @ ledgerQueue lb))" by simp
  also have "\<dots> = map (\<lambda>k. objects (object_key lb (seqn lb k))) [0..<length (delivered lb)]"
    using inv le by (simp add: lb_inv_def inv_queues_def take_map)
  finally show "map Some (delivered lb) =
      map (\<lambda>k. objects (GetObjectKeyFromSequenceNumber schema
             (word_of_nat ((unat (rg_from r) div unat (LedgersPerFile schema) + k) * unat (LedgersPerFile schema))))) [0..<length (delivered lb)]"
    using seqn_file [OF assms(3,4) p(1,2)] le made by (simp add: object_key_def p)
  assume "cancelled lb = None" "\<forall>lb'. \<not> lb_step objects lb lb'"
  moreover have "workers lb \<noteq> []" "0 < queue_cap lb" using p(3,4) assms(1,2) buffer_size_pos [of config r] by (auto simp: unat_eq_zero)
  ultimately have "past_end lb \<and> length (delivered lb) = made lb" using stuck_delivered [OF inv reachable_no_wrap [OF assms(5,4)]] by blast
  moreover have "past_end lb \<longleftrightarrow> made lb = files schema r" using past_end_iff [of lb] made assms(4) inv p by (simp add: lb_inv_def inv_queues_def)
  ultimately show "length (delivered lb) = files schema r" by simp
qed

text \<open>
  C6: Whatever the interleaving of workers, downloads, retries and the consumer, and whether or not the buffer is
  cancelled, the consumer receives the files of a bounded range in order, without gaps or repetitions: what has been delivered
  is always the objects of the first files. When nothing can go on and the buffer was not cancelled, all files of
  the range have been delivered: the \<open><=\<close> of \<^verbatim>\<open>replenish\<close> and the draining loop leave no deadlock.
\<close>

theorem buffer_delivers:
  assumes "BufferSize config \<noteq> 0" "NumWorkers config \<noteq> 0" "schema_Validate schema = None" "range_fits schema r"
    and "lb_reachable objects (newLedgerBuffer config schema r) lb"
  shows "map Some (delivered lb) =
      map (\<lambda>k. objects (GetObjectKeyFromSequenceNumber schema
             (word_of_nat ((unat (rg_from r) div unat (LedgersPerFile schema) + k) * unat (LedgersPerFile schema))))) [0..<length (delivered lb)] \<and>
    length (delivered lb) \<le> files schema r \<and>
    (cancelled lb = None \<longrightarrow> (\<forall>lb'. \<not> lb_step objects lb lb') \<longrightarrow> length (delivered lb) = files schema r)"
  by (rule buffer_result [OF assms])

text \<open>
  C17: Every run of the buffer on a bounded range ends, failing and retried downloads included: from a reachable state the
  number of steps is at most its weight. When a cancelled buffer cannot go on, all workers have returned, so \<^verbatim>\<open>close\<close>, which waits for them, returns.
\<close>

theorem buffer_runs_end:
  assumes "range_fits schema r" "lb_reachable objects (newLedgerBuffer config schema r) lb"
  shows "(\<forall>n lb'. (lb_step objects ^^ n) lb lb' \<longrightarrow> n \<le> run_weight lb) \<and>
    (cancelled lb \<noteq> None \<longrightarrow> (\<forall>lb'. \<not> lb_step objects lb lb') \<longrightarrow> (\<forall>w \<in> set (workers lb). w = Exited))"
proof (intro conjI allI impI ballI)
  fix n lb' assume "(lb_step objects ^^ n) lb lb'"
  then have "lb_reachable objects (newLedgerBuffer config schema r) lb' \<and> n + run_weight lb' \<le> run_weight lb"
  proof (induction n arbitrary: lb')
    case (Suc n)
    then obtain lb'' where s: "(lb_step objects ^^ n) lb lb''" "lb_step objects lb'' lb'" by auto
    then have "lb_reachable objects (newLedgerBuffer config schema r) lb''" "n + run_weight lb'' \<le> run_weight lb" using Suc.IH by auto
    then show ?case using reachable_weight [OF _ assms(1) s(2)] lb_next [OF _ s(2)] by force
  qed (simp add: assms(2))
  then show "n \<le> run_weight lb" by simp
qed (use stuck_exited in blast)

text \<open>
  C18: At most one object more than the buffer size is outstanding, and while the buffer is not cancelled the counter that the dispatcher
  compares is exactly the number of tasks that wait, are worked on, are in the heap or wait for the consumer.
\<close>

theorem buffer_depth:
  assumes "lb_reachable objects (newLedgerBuffer config schema r) lb"
  shows "0 \<le> outstanding lb \<and> outstanding lb \<le> uint (buffer_size config r) + 1 \<and>
    length (taskQueue lb) \<le> unat (buffer_size config r) \<and> length (ledgerQueue lb) \<le> unat (buffer_size config r) \<and>
    (cancelled lb = None \<longrightarrow> outstanding lb = int (length (taskQueue lb) + size (\<Sum>w \<in># mset (workers lb). worker_tasks w) +
       length (ledgerPriorityQueue lb) + length (ledgerQueue lb)))"
proof -
  have p: "queue_cap lb = unat (buffer_size config r)" using reachable_params [OF assms] by (simp add: queue_cap_def)
  have inv: "inv_queues objects lb" "inv_tasks lb" "inv_depth lb" using lb_invariant [OF assms] by (simp_all add: lb_inv_def)
  have "outstanding lb = int (size (tasks lb) + length (ledgerQueue lb))" if "cancelled lb = None"
    using tasks_size [OF inv(2) that] inv(1) by (simp add: inv_queues_def sent_def made_def)
  then show ?thesis using inv p by (simp add: inv_queues_def inv_depth_def tasks_def)
qed


section \<open>A run\<close>

text \<open>One worker and one slot, ledgers 70 to 70 of a store with 64 ledgers in a file.\<close>

definition demo_config :: BufferedStorageBackendConfig where
  "demo_config = \<lparr>BufferSize = 1, BufferBytes = 0, NumWorkers = 1, RetryLimit = 0\<rparr>"

definition demo_object :: "string \<Rightarrow> nat option" where
  "demo_object k = Some (length k)"

definition demo_state ::
    "ledger_Range \<Rightarrow> 32 word list \<Rightarrow> nat ledgerBatchObject list \<Rightarrow> nat list \<Rightarrow> 32 word \<Rightarrow> 32 word \<Rightarrow> int \<Rightarrow> nat worker \<Rightarrow> consumer \<Rightarrow> nat list \<Rightarrow> nat ledgerBuffer" where
  "demo_state r tq pq lq c n out w k d =
     \<lparr>lb_config = demo_config, lb_schema = witness_schema, taskQueue = tq, ledgerQueue = lq, ledgerPriorityQueue = pq, currentLedger = c, nextTaskLedger = n,
      ledgerRange = r, outstanding = out, cancelled = None, workers = [w], lb_consumer = k, delivered = d\<rparr>"

lemma demo_start:
  "newLedgerBuffer demo_config witness_schema (BoundedRange 70 70) = demo_state (BoundedRange 70 70) [] [] [] 70 70 0 Selecting (Replenishing 0) []"
  "newLedgerBuffer demo_config witness_schema (BoundedRange 70 130) = demo_state (BoundedRange 70 130) [] [] [] 70 70 0 Selecting (Replenishing 0) []"
  by (simp_all add: newLedgerBuffer_def demo_config_def demo_state_def BoundedRange_def buffer_size_def heap_New_def)

lemma demo_start_at:
  assumes "h = 70 \<or> h = 71"
  shows "newLedgerBuffer demo_config witness_schema (BoundedRange 70 h) = demo_state (BoundedRange 70 h) [] [] [] 70 70 0 Selecting (Replenishing 0) []"
  using assms by (auto simp: newLedgerBuffer_def demo_config_def demo_state_def BoundedRange_def buffer_size_def heap_New_def)

lemma demo_fits: "range_fits witness_schema (BoundedRange 70 70)" "range_fits witness_schema (BoundedRange 70 130)"
    "files witness_schema (BoundedRange 70 70) = 1" "files witness_schema (BoundedRange 70 130) = 2"
  by (simp_all add: range_fits_def files_def BoundedRange_def witness_schema_def GetSequenceNumberEndBoundary_def GetSequenceNumberStartBoundary_def capped_end_def)

lemma demo_fits_two: "range_fits witness_schema (BoundedRange 70 71)" "files witness_schema (BoundedRange 70 71) = 1"
  by (simp_all add: range_fits_def files_def BoundedRange_def witness_schema_def GetSequenceNumberEndBoundary_def GetSequenceNumberStartBoundary_def capped_end_def)

abbreviation demo_payload :: nat where
  "demo_payload \<equiv> length (GetObjectKeyFromSequenceNumber witness_schema 70)"

abbreviation demo_end :: "nat ledgerBuffer" where
  "demo_end \<equiv> demo_state (BoundedRange 70 70) [] [] [] 134 134 0 Selecting Receiving [demo_payload]"

lemmas demo_simps = demo_state_def demo_config_def BoundedRange_def witness_schema_def demo_object_def set_worker_def object_key_def queue_cap_def
  pushTaskQueue_def past_end_def depthLimit_def GetSequenceNumberEndBoundary_def GetSequenceNumberStartBoundary_def capped_end_def
  drain_next_def heap_Peek_def heap_Pop_def heap_Push_def heap_up.simps heap_down.simps heap_Swap_def parent_def

lemma demo_step: "lb_reachable objects i lb \<Longrightarrow> lb_step objects lb lb'' \<Longrightarrow> lb'' = lb' \<Longrightarrow> lb_reachable objects i lb'"
  by (blast intro: lb_next)

text \<open>The same run serves the range up to ledger 70 and the one up to ledger 71: both are in one file.\<close>

abbreviation demo_done :: "32 word \<Rightarrow> nat ledgerBuffer" where
  "demo_done h \<equiv> demo_state (BoundedRange 70 h) [] [] [] 134 134 0 Selecting Receiving [demo_payload]"

lemma demo_run:
  assumes "h = 70 \<or> h = 71"
  shows "lb_reachable demo_object (newLedgerBuffer demo_config witness_schema (BoundedRange 70 h)) (demo_done h)"
proof -
  let ?i = "newLedgerBuffer demo_config witness_schema (BoundedRange 70 h) :: nat ledgerBuffer"
  let ?s = "demo_state (BoundedRange 70 h)" and ?x = "\<lparr>payload = demo_payload, startLedger = 70\<rparr>"
  have "lb_reachable demo_object ?i (?s [] [] [] 70 70 0 Selecting (Replenishing 0) [])" using lb_init demo_start_at [OF assms] by metis
  then have "lb_reachable demo_object ?i (?s [70] [] [] 70 134 1 Selecting (Replenishing 0) [])"
    by (rule demo_step [OF _ replenish_push [where sz = 0]]) (use assms in \<open>auto simp: demo_simps\<close>)
  then have "lb_reachable demo_object ?i (?s [70] [] [] 70 134 1 Selecting Receiving [])"
    by (rule demo_step [OF _ replenish_stop [where sz = 0]]) (use assms in \<open>auto simp: demo_simps\<close>)
  then have "lb_reachable demo_object ?i (?s [] [] [] 70 134 1 (Downloading 70 0) Receiving [])"
    by (rule demo_step [OF _ take_task [where i = 0 and s = 70 and q = "[]"]]) (use assms in \<open>auto simp: demo_simps\<close>)
  then have "lb_reachable demo_object ?i (?s [] [] [] 70 134 1 (Storing 70 demo_payload) Receiving [])"
    by (rule demo_step [OF _ fetched [where i = 0 and s = 70 and a = 0]]) (use assms in \<open>auto simp: demo_simps\<close>)
  then have "lb_reachable demo_object ?i (?s [] [?x] [] 70 134 1 Draining Receiving [])"
    by (rule demo_step [OF _ store [where i = 0 and s = 70 and p = demo_payload]]) (use assms in \<open>auto simp: demo_simps\<close>)
  then have "lb_reachable demo_object ?i (?s [] [] [] 70 134 1 (Sending ?x) Receiving [])"
    by (rule demo_step [OF _ drain_pop [where i = 0 and x = ?x and q = "[]"]]) (use assms in \<open>auto simp: demo_simps\<close>)
  then have "lb_reachable demo_object ?i (?s [] [] [demo_payload] 134 134 1 Draining Receiving [])"
    by (rule demo_step [OF _ send [where i = 0 and x = ?x]]) (use assms in \<open>auto simp: demo_simps\<close>)
  then have "lb_reachable demo_object ?i (?s [] [] [demo_payload] 134 134 1 Selecting Receiving [])"
    by (rule demo_step [OF _ drain_end [where i = 0]]) (use assms in \<open>auto simp: demo_simps\<close>)
  then have "lb_reachable demo_object ?i (?s [] [] [] 134 134 0 Selecting (Replenishing 0) [demo_payload])"
    by (rule demo_step [OF _ receive [where p = demo_payload and q = "[]" and sz = 0]]) (use assms in \<open>auto simp: demo_simps\<close>)
  then show ?thesis by (rule demo_step [OF _ replenish_stop [where sz = 0]]) (use assms in \<open>auto simp: demo_simps\<close>)
qed

lemma demo_reachable: "lb_reachable demo_object (newLedgerBuffer demo_config witness_schema (BoundedRange 70 70)) demo_end"
  by (rule demo_run) simp

lemma demo_done_stuck: "\<not> lb_step demo_object (demo_done h) lb'"
proof
  assume "lb_step demo_object (demo_done h) lb'"
  then show False by cases (simp_all add: demo_state_def)
qed

lemma demo_stuck: "\<not> lb_step demo_object demo_end lb'"
  by (rule demo_done_stuck)

theorem buffer_delivers_witness:
  "map Some (delivered demo_end) = [demo_object (GetObjectKeyFromSequenceNumber witness_schema 64)] \<and> length (delivered demo_end) = files witness_schema (BoundedRange 70 70)"
proof -
  have "cancelled demo_end = None" "files witness_schema (BoundedRange 70 70) = 1" "BufferSize demo_config \<noteq> 0" "NumWorkers demo_config \<noteq> 0"
    using demo_fits(3) by (simp_all add: demo_state_def demo_config_def)
  then show ?thesis using buffer_delivers [OF _ _ witness_schema_ok(1) demo_fits(1) demo_reachable] demo_stuck
    by (simp add: BoundedRange_def witness_schema_def)
qed

theorem buffer_runs_end_witness:
  "\<forall>lb'. \<not> (lb_step demo_object ^^ 12) (newLedgerBuffer demo_config witness_schema (BoundedRange 70 70)) lb'"
proof -
  have "run_weight (newLedgerBuffer demo_config witness_schema (BoundedRange 70 70) :: nat ledgerBuffer) = 11"
    using demo_fits(3) unfolding demo_start by (simp add: run_weight_def demo_state_def demo_config_def made_def)
  then show ?thesis using buffer_runs_end [OF demo_fits(1) lb_init, of demo_object demo_config] by fastforce
qed

text \<open>With one slot, two objects are outstanding after a worker has taken the first task.\<close>

lemma demo_depth:
  "lb_reachable demo_object (newLedgerBuffer demo_config witness_schema (BoundedRange 70 130))
     (demo_state (BoundedRange 70 130) [134] [] [] 70 198 2 (Downloading 70 0) (Replenishing 0) [])"
proof -
  let ?i = "newLedgerBuffer demo_config witness_schema (BoundedRange 70 130) :: nat ledgerBuffer" and ?s = "demo_state (BoundedRange 70 130)"
  have "lb_reachable demo_object ?i (?s [] [] [] 70 70 0 Selecting (Replenishing 0) [])" unfolding demo_start by (rule lb_init)
  then have "lb_reachable demo_object ?i (?s [70] [] [] 70 134 1 Selecting (Replenishing 0) [])"
    by (rule demo_step [OF _ replenish_push [where sz = 0]]) (simp_all add: demo_simps)
  then have "lb_reachable demo_object ?i (?s [] [] [] 70 134 1 (Downloading 70 0) (Replenishing 0) [])"
    by (rule demo_step [OF _ take_task [where i = 0 and s = 70 and q = "[]"]]) (simp_all add: demo_simps)
  then show ?thesis by (rule demo_step [OF _ replenish_push [where sz = 0]]) (simp_all add: demo_simps)
qed

theorem buffer_depth_witness:
  "buffer_size demo_config (BoundedRange 70 130) = 1 \<and>
   outstanding (demo_state (BoundedRange 70 130) [134] [] [] 70 198 2 (Downloading 70 0) (Replenishing 0) []) = uint (buffer_size demo_config (BoundedRange 70 130)) + 1"
proof -
  have "buffer_size demo_config (BoundedRange 70 130) = 1" by (simp add: demo_config_def BoundedRange_def buffer_size_def)
  then show ?thesis using buffer_depth [OF demo_depth] by (simp add: demo_state_def)
qed


end
