(* ===== verification/Buffered_Backend.thy ===== *)
theory Buffered_Backend
  imports Ledger_Buffer
begin

text \<open>
  The ledger backend that reads from a data store (\<^verbatim>\<open>ingest/ledgerbackend/buffered_storage_backend.go\<close>): a cursor over the
  batches that the ledger buffer delivers.

  The buffer is seen through what it will deliver, which \<open>Ledger_Buffer\<close> determines; an empty queue stands for a wait
  that the context of the caller ends. Decompression together with the generated views of a batch, and the decoding of one ledger, are parameters.
  Calls are sequential, as the type asks of its users; the lock excludes \<^verbatim>\<open>PrepareRange\<close> only.
\<close>

section \<open>Definitions\<close>

record 'p buffer_handle =
  bh_range :: ledger_Range
  bh_latest :: "32 word"
  bh_queue :: "(cancel_cause, 'p) result list"

datatype 'e backend_error =
    ZeroBufferSize | ZeroWorkers | NegativeBufferBytes | TooManyWorkers | ZeroPerFile
  | BackendClosed | NotPrepared | PrecedesRange | BeyondRange | PrecedesLastLedger | NotNextLedger | PrecedesBatch
  | QueueCancelled cancel_cause | QueueContextDone | BatchError 'e | EmptyBatch | IndexOutOfBatch | LedgerDecodeError 'e
  | BufferError 'e | NilBuffer

record ('p, 'l) BufferedStorageBackend =
  be_buffer :: "'p buffer_handle option"
  be_prepared :: "ledger_Range option"
  be_closed :: bool
  nextLedger :: "32 word"
  lastLedger :: "32 word"
  batchLoaded :: bool
  ledgerSlices :: "'l list"
  batchStart :: "32 word"
  batchEnd :: "32 word"
  batchIndex :: "32 word"

text \<open>\<open>batchLoaded\<close> is \<^verbatim>\<open>batchBytes != nil\<close>; the slices are views into these bytes.\<close>

definition NewBufferedStorageBackend ::
    "BufferedStorageBackendConfig \<Rightarrow> DataStoreSchema \<Rightarrow> ('e backend_error, ('p, 'l) BufferedStorageBackend) result" where
  "NewBufferedStorageBackend config schema =
     (if BufferSize config = 0 then Inl ZeroBufferSize
      else if NumWorkers config = 0 then Inl ZeroWorkers
      else if BufferBytes config < 0 then Inl NegativeBufferBytes
      else if NumWorkers config > BufferSize config then Inl TooManyWorkers
      else if LedgersPerFile schema \<le> 0 then Inl ZeroPerFile
      else Inr \<lparr>be_buffer = None, be_prepared = None, be_closed = False, nextLedger = 0, lastLedger = 0, batchLoaded = False,
                 ledgerSlices = [], batchStart = 0, batchEnd = 0, batchIndex = 0\<rparr>)"

definition be_GetLatestLedgerSequence :: "('p, 'l) BufferedStorageBackend \<Rightarrow> ('e backend_error, 32 word) result" where
  "be_GetLatestLedgerSequence bsb =
     (if be_closed bsb then Inl BackendClosed
      else if be_prepared bsb = None then Inl NotPrepared
      else (case be_buffer bsb of None \<Rightarrow> Inl NilBuffer | Some lb \<Rightarrow> Inr (bh_latest lb)))"

definition getFromLedgerQueue :: "'p buffer_handle \<Rightarrow> ('e backend_error, 'p) result \<times> 'p buffer_handle" where
  "getFromLedgerQueue lb =
     (case bh_queue lb of
        [] \<Rightarrow> (Inl QueueContextDone, lb)
      | Inl cause # _ \<Rightarrow> (Inl (QueueCancelled cause), lb)
      | Inr p # q \<Rightarrow> (Inr p, lb\<lparr>bh_queue := q\<rparr>))"

definition loadBatchForSequence ::
    "('p \<Rightarrow> ('e, 32 word \<times> 32 word \<times> 'l list) result) \<Rightarrow> ('p, 'l) BufferedStorageBackend \<Rightarrow> 32 word \<Rightarrow>
     ('e backend_error, unit) result \<times> ('p, 'l) BufferedStorageBackend" where
  "loadBatchForSequence read_batch bsb sequence =
     (if batchLoaded bsb \<and> sequence \<ge> batchStart bsb \<and> sequence \<le> batchEnd bsb then (Inr (), bsb)
      else if batchLoaded bsb \<and> sequence < batchStart bsb then (Inl PrecedesBatch, bsb)
      else (let bsb = bsb\<lparr>batchLoaded := False\<rparr> in
        case be_buffer bsb of
          None \<Rightarrow> (Inl NilBuffer, bsb)
        | Some lb \<Rightarrow>
            (case getFromLedgerQueue lb of
               (Inl e, lb) \<Rightarrow> (Inl e, bsb\<lparr>be_buffer := Some lb\<rparr>)
             | (Inr compressed, lb) \<Rightarrow>
                 (let bsb = bsb\<lparr>be_buffer := Some lb\<rparr> in
                  case read_batch compressed of
                    Inl e \<Rightarrow> (Inl (BatchError e), bsb)
                  | Inr (first, final, slices) \<Rightarrow>
                      if slices = [] then (Inl EmptyBatch, bsb)
                      else (Inr (), bsb\<lparr>batchLoaded := True, ledgerSlices := slices, batchStart := first, batchEnd := final, batchIndex := 0\<rparr>)))))"

definition nextExpectedSequence :: "('p, 'l) BufferedStorageBackend \<Rightarrow> 32 word" where
  "nextExpectedSequence bsb =
     (case be_prepared bsb of Some r \<Rightarrow> if nextLedger bsb = 0 then rg_from r else nextLedger bsb | None \<Rightarrow> nextLedger bsb)"

definition validateSequence :: "('p, 'l) BufferedStorageBackend \<Rightarrow> 32 word \<Rightarrow> ('e backend_error, unit) result" where
  "validateSequence bsb sequence =
     (if be_closed bsb then Inl BackendClosed
      else if be_prepared bsb = None then Inl NotPrepared
      else (case be_buffer bsb of
        None \<Rightarrow> Inl NilBuffer
      | Some lb \<Rightarrow>
          if sequence < rg_from (bh_range lb) then Inl PrecedesRange
          else if rg_bounded (bh_range lb) \<and> sequence > rg_to (bh_range lb) then Inl BeyondRange
          else if sequence < lastLedger bsb then Inl PrecedesLastLedger
          else if sequence > nextExpectedSequence bsb then Inl NotNextLedger
          else Inr ()))"

definition getLedgerRaw ::
    "('p \<Rightarrow> ('e, 32 word \<times> 32 word \<times> 'l list) result) \<Rightarrow> ('p, 'l) BufferedStorageBackend \<Rightarrow> 32 word \<Rightarrow>
     ('e backend_error, 'l) result \<times> ('p, 'l) BufferedStorageBackend" where
  "getLedgerRaw read_batch bsb sequence =
     (case validateSequence bsb sequence of
        Inl e \<Rightarrow> (Inl e, bsb)
      | Inr _ \<Rightarrow>
          (case loadBatchForSequence read_batch bsb sequence of
             (Inl e, bsb) \<Rightarrow> (Inl e, bsb)
           | (Inr _, bsb) \<Rightarrow>
               (let targetIndex = sequence - batchStart bsb; i = unat targetIndex in
                if i \<ge> length (ledgerSlices bsb) then (Inl IndexOutOfBatch, bsb)
                else (Inr (ledgerSlices bsb ! i),
                      if targetIndex \<ge> batchIndex bsb
                      then bsb\<lparr>batchIndex := targetIndex + 1, lastLedger := nextLedger bsb, nextLedger := nextLedger bsb + 1\<rparr>
                      else bsb))))"

definition be_GetLedger ::
    "('p \<Rightarrow> ('e, 32 word \<times> 32 word \<times> 'l list) result) \<Rightarrow> ('l \<Rightarrow> ('e, 'm) result) \<Rightarrow> ('p, 'l) BufferedStorageBackend \<Rightarrow> 32 word \<Rightarrow>
     ('e backend_error, 'm) result \<times> ('p, 'l) BufferedStorageBackend" where
  "be_GetLedger read_batch unmarshal bsb sequence =
     (case getLedgerRaw read_batch bsb sequence of
        (Inl e, bsb) \<Rightarrow> (Inl e, bsb)
      | (Inr raw, bsb) \<Rightarrow> (case unmarshal raw of Inl e \<Rightarrow> (Inl (LedgerDecodeError e), bsb) | Inr meta \<Rightarrow> (Inr meta, bsb)))"

definition be_isPrepared :: "('p, 'l) BufferedStorageBackend \<Rightarrow> ledger_Range \<Rightarrow> ('e backend_error, bool) result" where
  "be_isPrepared bsb r =
     (if be_closed bsb then Inr False
      else if be_prepared bsb = None then Inr False
      else (case be_buffer bsb of
        None \<Rightarrow> Inl NilBuffer
      | Some lb \<Rightarrow>
          if rg_from (bh_range lb) > rg_from r then Inr False
          else if rg_bounded (bh_range lb) \<and> \<not> rg_bounded r then Inr False
          else if \<not> rg_bounded (bh_range lb) \<and> \<not> rg_bounded r then Inr True
          else if \<not> rg_bounded (bh_range lb) \<and> rg_bounded r then Inr True
          else if rg_to (bh_range lb) \<ge> rg_to r then Inr True
          else Inr False))"

definition be_IsPrepared :: "('p, 'l) BufferedStorageBackend \<Rightarrow> ledger_Range \<Rightarrow> ('e backend_error, bool) result" where
  "be_IsPrepared bsb r = (if be_closed bsb then Inl BackendClosed else be_isPrepared bsb r)"

definition releaseCurrentBatch :: "('p, 'l) BufferedStorageBackend \<Rightarrow> ('p, 'l) BufferedStorageBackend" where
  "releaseCurrentBatch bsb = bsb\<lparr>batchLoaded := False, ledgerSlices := [], be_buffer := None\<rparr>"

definition startPreparingRange ::
    "(ledger_Range \<Rightarrow> ('e, 'p buffer_handle) result) \<Rightarrow> ('p, 'l) BufferedStorageBackend \<Rightarrow> ledger_Range \<Rightarrow>
     ('e backend_error, bool) result \<times> ('p, 'l) BufferedStorageBackend" where
  "startPreparingRange new_buffer bsb r =
     (case be_isPrepared bsb r of
        Inl e \<Rightarrow> (Inl e, bsb)
      | Inr prep \<Rightarrow>
          if prep then (Inr True, bsb)
          else (let bsb = releaseCurrentBatch bsb in
                case new_buffer r of
                  Inl e \<Rightarrow> (Inl (BufferError e), bsb)
                | Inr lb \<Rightarrow> (Inr False, bsb\<lparr>be_buffer := Some lb, nextLedger := rg_from r\<rparr>)))"

definition be_PrepareRange ::
    "(ledger_Range \<Rightarrow> ('e, 'p buffer_handle) result) \<Rightarrow> ('p, 'l) BufferedStorageBackend \<Rightarrow> ledger_Range \<Rightarrow>
     ('e backend_error, unit) result \<times> ('p, 'l) BufferedStorageBackend" where
  "be_PrepareRange new_buffer bsb r =
     (if be_closed bsb then (Inl BackendClosed, bsb)
      else case startPreparingRange new_buffer bsb r of
             (Inl e, bsb) \<Rightarrow> (Inl e, bsb)
           | (Inr alreadyPrepared, bsb) \<Rightarrow> if alreadyPrepared then (Inr (), bsb) else (Inr (), bsb\<lparr>be_prepared := Some r\<rparr>))"

definition be_Close :: "('p, 'l) BufferedStorageBackend \<Rightarrow> ('p, 'l) BufferedStorageBackend" where
  "be_Close bsb =
     bsb\<lparr>be_buffer := map_option (\<lambda>lb. lb\<lparr>bh_queue := [Inl Canceled]\<rparr>) (be_buffer bsb), be_closed := True\<rparr>"

text \<open>Consecutive calls.\<close>

fun get_ledgers ::
    "('p \<Rightarrow> ('e, 32 word \<times> 32 word \<times> 'l list) result) \<Rightarrow> ('p, 'l) BufferedStorageBackend \<Rightarrow> 32 word list \<Rightarrow>
     ('e backend_error, 'l) result list \<times> ('p, 'l) BufferedStorageBackend" where
  "get_ledgers read_batch bsb [] = ([], bsb)"
| "get_ledgers read_batch bsb (s # ss) =
     (case getLedgerRaw read_batch bsb s of
        (res, bsb) \<Rightarrow> (case get_ledgers read_batch bsb ss of (rest, bsb) \<Rightarrow> (res # rest, bsb)))"

section \<open>Reading a range\<close>

text \<open>
  Batches that hold the ledgers of the files of a range: a batch ends with its file, has one slice for each ledger, and
  starts with its file or, in the first file, at least not after the start of the range.
\<close>

definition batch_ok :: "('p \<Rightarrow> ('e, 32 word \<times> 32 word \<times> 'l list) result) \<Rightarrow> (nat \<Rightarrow> 'l) \<Rightarrow> nat \<Rightarrow> nat \<Rightarrow> nat \<Rightarrow> 'p \<Rightarrow> bool" where
  "batch_ok read_batch ledger f a b p \<longleftrightarrow>
     (\<exists>s e slices. read_batch p = Inr (s, e, slices) \<and> a \<le> unat s \<and> unat s \<le> max f a \<and> unat e = b \<and> slices = map ledger [unat s..<Suc b])"

definition batches_ok :: "('p \<Rightarrow> ('e, 32 word \<times> 32 word \<times> 'l list) result) \<Rightarrow> (nat \<Rightarrow> 'l) \<Rightarrow> nat \<Rightarrow> nat \<Rightarrow> 'p list \<Rightarrow> bool" where
  "batches_ok read_batch ledger l f ps \<longleftrightarrow> (\<forall>k < length ps. batch_ok read_batch ledger f ((f div l + k) * l) ((f div l + k) * l + (l - 1)) (ps ! k))"

text \<open>The backend after it has served the ledgers of the range before \<open>m\<close>, having taken \<open>j\<close> batches.\<close>

definition reading :: "(nat \<Rightarrow> 'l) \<Rightarrow> nat \<Rightarrow> ledger_Range \<Rightarrow> 'p list \<Rightarrow> nat \<Rightarrow> nat \<Rightarrow> ('p, 'l) BufferedStorageBackend \<Rightarrow> bool" where
  "reading ledger l r ps m j bsb \<longleftrightarrow>
     \<not> be_closed bsb \<and> be_prepared bsb = Some r \<and> (\<exists>lb. be_buffer bsb = Some lb \<and> bh_range lb = r \<and> bh_queue lb = map Inr (drop j ps)) \<and>
     unat (nextLedger bsb) = m \<and> unat (lastLedger bsb) \<le> m \<and> j \<le> length ps \<and>
     (if batchLoaded bsb
      then 0 < j \<and> unat (batchEnd bsb) + 1 = (unat (rg_from r) div l + j) * l \<and> unat (batchStart bsb) \<le> m \<and> m \<le> unat (batchEnd bsb) + 1 \<and>
        ledgerSlices bsb = map ledger [unat (batchStart bsb)..<Suc (unat (batchEnd bsb))] \<and> unat (batchIndex bsb) + unat (batchStart bsb) = m
      else j = 0 \<and> m = unat (rg_from r))"

lemma unat_word_of_nat_32: "m < 2 ^ 32 \<Longrightarrow> unat (word_of_nat m :: 32 word) = m"
  unfolding unat_of_nat by simp

lemma validate_ok:
  assumes "\<not> be_closed bsb" "be_prepared bsb = Some r" "be_buffer bsb = Some lb" "bh_range lb = r"
    and "rg_from r \<le> w" "w \<le> rg_to r" "lastLedger bsb \<le> w" "w \<le> nextLedger bsb"
  shows "validateSequence bsb w = Inr ()"
  using assms by (auto simp: validateSequence_def nextExpectedSequence_def)

text \<open>What \<^verbatim>\<open>loadBatchForSequence\<close> leaves for the ledger \<open>m\<close>: a batch that holds it.\<close>

definition batch_for :: "(nat \<Rightarrow> 'l) \<Rightarrow> nat \<Rightarrow> ledger_Range \<Rightarrow> 'p list \<Rightarrow> nat \<Rightarrow> ('p, 'l) BufferedStorageBackend \<Rightarrow> bool" where
  "batch_for ledger l r ps m bsb \<longleftrightarrow>
     (\<exists>lb j. be_buffer bsb = Some lb \<and> bh_range lb = r \<and> bh_queue lb = map Inr (drop j ps) \<and> j \<le> length ps \<and> 0 < j \<and>
       unat (batchEnd bsb) + 1 = (unat (rg_from r) div l + j) * l) \<and> batchLoaded bsb \<and>
     unat (batchStart bsb) \<le> m \<and> m \<le> unat (batchEnd bsb) \<and> unat (batchIndex bsb) + unat (batchStart bsb) \<le> m \<and>
     ledgerSlices bsb = map ledger [unat (batchStart bsb)..<Suc (unat (batchEnd bsb))]"

lemma take_batch:
  fixes read_batch :: "'p \<Rightarrow> ('e, 32 word \<times> 32 word \<times> 'l list) result"
  assumes lb: "be_buffer bsb = Some lb" "bh_range lb = r" "bh_queue lb = map Inr (drop j ps)" "j < length ps"
    and b: "batches_ok read_batch ledger l (unat (rg_from r)) ps" "0 < l"
    and m: "m = max (unat (rg_from r)) ((unat (rg_from r) div l + j) * l)" "m < (unat (rg_from r) div l + j) * l + l" "m < 2 ^ 32"
    and no: "\<not> (batchLoaded bsb \<and> word_of_nat m \<ge> batchStart bsb \<and> word_of_nat m \<le> batchEnd bsb)" "\<not> (batchLoaded bsb \<and> word_of_nat m < batchStart bsb)"
  shows "\<exists>bsb'. loadBatchForSequence read_batch bsb (word_of_nat m) = (Inr (), bsb') \<and> batch_for ledger l r ps m bsb' \<and>
    be_closed bsb' = be_closed bsb \<and> be_prepared bsb' = be_prepared bsb \<and> nextLedger bsb' = nextLedger bsb \<and> lastLedger bsb' = lastLedger bsb"
proof -
  let ?a = "(unat (rg_from r) div l + j) * l"
  obtain s e where se: "read_batch (ps ! j) = Inr (s, e, map ledger [unat s..<Suc (?a + (l - 1))])" "?a \<le> unat s" "unat s \<le> m" "unat e = ?a + (l - 1)"
    using b(1) lb(4) m(1) unfolding batches_ok_def batch_ok_def by metis
  have q: "(getFromLedgerQueue lb :: ('e backend_error, 'p) result \<times> _) = (Inr (ps ! j), lb\<lparr>bh_queue := map Inr (drop (Suc j) ps)\<rparr>)"
    using lb(3,4) by (simp add: getFromLedgerQueue_def Cons_nth_drop_Suc [symmetric])
  have ne: "[unat s..<Suc (?a + (l - 1))] \<noteq> []" using se(3) m(2) b(2) by simp
  let ?b = "bsb\<lparr>batchLoaded := True, be_buffer := Some (lb\<lparr>bh_queue := map Inr (drop (Suc j) ps)\<rparr>),
      ledgerSlices := map ledger [unat s..<Suc (?a + (l - 1))], batchStart := s, batchEnd := e, batchIndex := 0\<rparr>"
  have "loadBatchForSequence read_batch bsb (word_of_nat m) = (Inr (), ?b)"
    using no lb(1) q se(1) ne by (auto simp: loadBatchForSequence_def Let_def simp del: upt_Suc)
  moreover have "batch_for ledger l r ps m ?b" using se lb(2,4) m(2) b(2)
    by (auto simp: batch_for_def algebra_simps simp del: upt_Suc intro!: exI [of _ "Suc j"])
  ultimately show ?thesis by simp
qed


lemma load_ok:
  assumes rd: "reading ledger l r ps m j bsb" and b: "batches_ok read_batch ledger l (unat (rg_from r)) ps" "0 < l"
    and m: "unat (rg_from r) \<le> m" "m \<le> unat (rg_to r)" and n: "length ps = unat (rg_to r) div l + 1 - unat (rg_from r) div l"
  shows "\<exists>bsb'. loadBatchForSequence read_batch bsb (word_of_nat m) = (Inr (), bsb') \<and> batch_for ledger l r ps m bsb' \<and>
    be_closed bsb' = be_closed bsb \<and> be_prepared bsb' = be_prepared bsb \<and> nextLedger bsb' = nextLedger bsb \<and> lastLedger bsb' = lastLedger bsb"
proof -
  let ?f = "unat (rg_from r)" and ?w = "word_of_nat m :: 32 word"
  obtain lb where lb: "be_buffer bsb = Some lb" "bh_range lb = r" "bh_queue lb = map Inr (drop j ps)" using rd by (auto simp: reading_def)
  have m32: "m < 2 ^ 32" using m(2) unat_32 [of "rg_to r"] by simp
  have w: "unat ?w = m" using unat_word_of_nat_32 [OF m32] .
  show ?thesis
  proof (cases "batchLoaded bsb")
    case loaded: True
    then have s: "0 < j" "unat (batchEnd bsb) + 1 = (?f div l + j) * l" "unat (batchStart bsb) \<le> m" "m \<le> unat (batchEnd bsb) + 1" "j \<le> length ps"
        "unat (batchIndex bsb) + unat (batchStart bsb) = m" using rd by (auto simp: reading_def simp del: upt_Suc)
    have sl: "ledgerSlices bsb = map ledger [unat (batchStart bsb)..<Suc (unat (batchEnd bsb))]"
      using rd loaded unfolding reading_def by (simp only: if_True simp_thms)
    show ?thesis
    proof (cases "m \<le> unat (batchEnd bsb)")
      case True
      then have "loadBatchForSequence read_batch bsb ?w = (Inr (), bsb)" using loaded s w by (simp add: loadBatchForSequence_def word_le_nat_alt)
      moreover have "batch_for ledger l r ps m bsb" unfolding batch_for_def using lb loaded s sl True by (metis order_refl)
      ultimately show ?thesis by blast
    next
      case False
      then have me: "m = (?f div l + j) * l" using s by simp
      then have "?f div l + j \<le> unat (rg_to r) div l" using m(2) b(2) by (simp add: less_eq_div_iff_mult_less_eq)
      then have "j < length ps" using n by simp
      then show ?thesis using take_batch [OF lb _ b, of m] me m(1) b(2) m32 False s(3) w by (simp add: word_le_nat_alt word_less_nat_alt max_absorb2)
    qed
  next
    case False
    then have j: "j = 0" "m = ?f" using rd by (auto simp: reading_def)
    have "?f div l \<le> unat (rg_to r) div l" using m by (auto intro: div_le_mono)
    then have "j < length ps" using n j by simp
    moreover have "?f div l * l \<le> ?f" "?f < ?f div l * l + l" using b(2) dividend_less_div_times [of l ?f] by (simp_all add: add.commute)
    ultimately show ?thesis using take_batch [OF lb _ b, of m] j m32 False by (simp add: max_absorb1)
  qed
qed

lemma get_in_batch:
  fixes read_batch :: "'p \<Rightarrow> ('e, 32 word \<times> 32 word \<times> 'l list) result"
  assumes "validateSequence bsb (word_of_nat m) = (Inr () :: ('e backend_error, unit) result)" "m < 2 ^ 32"
    and "loadBatchForSequence read_batch bsb (word_of_nat m) = (Inr (), bsb')" "batch_for ledger l r ps m bsb'"
  shows "getLedgerRaw read_batch bsb (word_of_nat m) = (Inr (ledger m),
    bsb'\<lparr>batchIndex := word_of_nat m - batchStart bsb' + 1, lastLedger := nextLedger bsb', nextLedger := nextLedger bsb' + 1\<rparr>)"
proof -
  let ?w = "word_of_nat m :: 32 word"
  have w: "unat ?w = m" using unat_word_of_nat_32 [OF assms(2)] .
  have b: "unat (batchStart bsb') \<le> m" "m \<le> unat (batchEnd bsb')" "unat (batchIndex bsb') + unat (batchStart bsb') \<le> m"
    "ledgerSlices bsb' = map ledger [unat (batchStart bsb')..<Suc (unat (batchEnd bsb'))]" using assms(4) by (auto simp: batch_for_def simp del: upt_Suc)
  have i: "unat (?w - batchStart bsb') = m - unat (batchStart bsb')" using b(1) w by (simp add: unat_sub word_le_nat_alt)
  have "batchIndex bsb' \<le> ?w - batchStart bsb'" using b(3) i by (simp add: word_le_nat_alt)
  moreover have "ledgerSlices bsb' ! (m - unat (batchStart bsb')) = ledger m" "m - unat (batchStart bsb') < length (ledgerSlices bsb')"
    unfolding b(4) using b(1,2) by (simp_all del: upt_Suc)
  ultimately show ?thesis using assms(1,3) i by (simp add: getLedgerRaw_def Let_def)
qed


text \<open>Serving the next ledger, and serving it again.\<close>

lemma read_next:
  fixes read_batch :: "'p \<Rightarrow> ('e, 32 word \<times> 32 word \<times> 'l list) result"
  assumes rd: "reading ledger l r ps m j bsb" and b: "batches_ok read_batch ledger l (unat (rg_from r)) ps" "0 < l"
    and m: "unat (rg_from r) \<le> m" "m \<le> unat (rg_to r)" "unat (rg_to r) + 1 < 2 ^ 32" and n: "length ps = unat (rg_to r) div l + 1 - unat (rg_from r) div l"
  shows "\<exists>bsb' j'. getLedgerRaw read_batch bsb (word_of_nat m) = (Inr (ledger m), bsb') \<and> reading ledger l r ps (Suc m) j' bsb' \<and>
    getLedgerRaw read_batch bsb' (word_of_nat m) = (Inr (ledger m), bsb')"
proof -
  let ?w = "word_of_nat m :: 32 word"
  have m32: "m < 2 ^ 32" "Suc m < 2 ^ 32" using m by simp_all
  have w: "unat ?w = m" using unat_word_of_nat_32 [OF m32(1)] .
  obtain lb where lb: "be_buffer bsb = Some lb" "bh_range lb = r" using rd by (auto simp: reading_def)
  have st: "\<not> be_closed bsb" "be_prepared bsb = Some r" "unat (nextLedger bsb) = m" "unat (lastLedger bsb) \<le> m" using rd by (auto simp: reading_def)
  have v: "validateSequence bsb ?w = (Inr () :: ('e backend_error, unit) result)"
    by (rule validate_ok [OF st(1,2) lb]) (use m w st in \<open>simp_all add: word_le_nat_alt\<close>)
  obtain b1 where load: "loadBatchForSequence read_batch bsb ?w = (Inr (), b1)" "batch_for ledger l r ps m b1"
    and same: "be_closed b1 = be_closed bsb" "be_prepared b1 = be_prepared bsb" "nextLedger b1 = nextLedger bsb" "lastLedger b1 = lastLedger bsb"
    using load_ok [OF rd b m(1,2) n] by blast
  define b2 where "b2 = b1\<lparr>batchIndex := ?w - batchStart b1 + 1, lastLedger := nextLedger b1, nextLedger := nextLedger b1 + 1\<rparr>"
  have get: "getLedgerRaw read_batch bsb ?w = (Inr (ledger m), b2)" unfolding b2_def by (rule get_in_batch [OF v m32(1) load])
  obtain lb' k where k: "be_buffer b1 = Some lb'" "bh_range lb' = r" "bh_queue lb' = map Inr (drop k ps)" "k \<le> length ps" "0 < k"
      "unat (batchEnd b1) + 1 = (unat (rg_from r) div l + k) * l" using load(2) unfolding batch_for_def by blast
  have bt: "batchLoaded b1" "unat (batchStart b1) \<le> m" "m \<le> unat (batchEnd b1)" "ledgerSlices b1 = map ledger [unat (batchStart b1)..<Suc (unat (batchEnd b1))]"
    using load(2) unfolding batch_for_def by blast+
  have i: "unat (?w - batchStart b1) = m - unat (batchStart b1)" using bt(2) w by (simp add: unat_sub word_le_nat_alt)
  then have i1: "unat (?w - batchStart b1 + 1) = Suc (m - unat (batchStart b1))" using m32 by (simp add: unat_word_ariths)
  have nx: "unat (nextLedger b1 + 1) = Suc m" using st(3) same(3) m32 by (simp add: unat_word_ariths)
  have "reading ledger l r ps (Suc m) k b2" unfolding reading_def b2_def
    using k bt i1 nx same st by (simp del: upt_Suc)
  moreover have "getLedgerRaw read_batch b2 ?w = (Inr (ledger m), b2)"
  proof -
    have "validateSequence b2 ?w = (Inr () :: ('e backend_error, unit) result)"
      by (rule validate_ok [of _ r lb']) (use k m w st same nx in \<open>simp_all add: b2_def word_le_nat_alt\<close>)
    moreover have "loadBatchForSequence read_batch b2 ?w = (Inr (), b2)"
      using bt(1-3) w by (simp add: loadBatchForSequence_def b2_def word_le_nat_alt)
    moreover have "\<not> batchIndex b2 \<le> ?w - batchStart b2" using i i1 by (simp add: b2_def word_le_nat_alt)
    moreover have "ledgerSlices b2 ! unat (?w - batchStart b2) = ledger m" "unat (?w - batchStart b2) < length (ledgerSlices b2)"
      using bt(2-4) i by (simp_all add: b2_def del: upt_Suc)
    ultimately show ?thesis by (simp add: getLedgerRaw_def Let_def)
  qed
  ultimately show ?thesis using get by blast
qed

lemma get_again:
  "getLedgerRaw read_batch bsb w = (res, bsb) \<Longrightarrow> get_ledgers read_batch bsb (replicate c w @ ss) =
    (replicate c res @ fst (get_ledgers read_batch bsb ss), snd (get_ledgers read_batch bsb ss))"
  by (induction c) (simp_all add: split_beta)

text \<open>Each ledger requested once or more often, in order.\<close>

lemma read_all:
  fixes read_batch :: "'p \<Rightarrow> ('e, 32 word \<times> 32 word \<times> 'l list) result"
  assumes "reading ledger l r ps m j bsb" and b: "batches_ok read_batch ledger l (unat (rg_from r)) ps" "0 < l"
    and m: "unat (rg_from r) \<le> m" "m + d = Suc (unat (rg_to r))" "unat (rg_to r) + 1 < 2 ^ 32" and n: "length ps = unat (rg_to r) div l + 1 - unat (rg_from r) div l"
  shows "fst (get_ledgers read_batch bsb (concat (map (\<lambda>i. replicate (Suc (c i)) (word_of_nat i)) [m..<m + d]))) =
    concat (map (\<lambda>i. replicate (Suc (c i)) (Inr (ledger i))) [m..<m + d])"
  using assms(1) m(1,2)
proof (induction d arbitrary: m j bsb)
  case (Suc d)
  obtain b1 j1 where b1: "getLedgerRaw read_batch bsb (word_of_nat m) = (Inr (ledger m), b1)" "reading ledger l r ps (Suc m) j1 b1"
      "getLedgerRaw read_batch b1 (word_of_nat m) = (Inr (ledger m), b1)"
    using read_next [OF Suc.prems(1) b Suc.prems(2) _ m(3) n] Suc.prems(3) by (metis add_Suc_right le_add1 Suc_inject)
  have "[m..<m + Suc d] = m # [Suc m..<Suc m + d]" by (simp add: upt_conv_Cons)
  then show ?case using Suc.IH [OF b1(2)] Suc.prems(2,3) b1(1) get_again [OF b1(3)] by (simp add: split_beta)
qed simp

section \<open>Properties\<close>

lemma prepare_new:
  fixes new_buffer :: "ledger_Range \<Rightarrow> ('e, 'p buffer_handle) result"
  assumes "NewBufferedStorageBackend config schema = (Inr bsb :: ('e backend_error, ('p, 'l) BufferedStorageBackend) result)"
    and "new_buffer r = Inr lb" "bh_range lb = r" "bh_queue lb = map Inr ps"
  shows "\<exists>b. be_PrepareRange new_buffer bsb r = (Inr (), b) \<and> reading ledger l r ps (unat (rg_from r)) 0 b"
  using assms by (auto simp: NewBufferedStorageBackend_def be_PrepareRange_def startPreparingRange_def be_isPrepared_def releaseCurrentBatch_def reading_def split: if_splits)

text \<open>
  C8: A new backend that is given a bounded range serves it. When the buffer ran to its end without being cancelled, and
  the objects of the data store hold the ledgers of their files, \<^verbatim>\<open>PrepareRange\<close> succeeds and reading
  the ledgers of the range in order, each once or repeatedly, returns exactly these ledgers.
\<close>

theorem backend_reads_range:
  fixes new_buffer :: "ledger_Range \<Rightarrow> ('e, 'p buffer_handle) result" and read_batch :: "'p \<Rightarrow> ('e, 32 word \<times> 32 word \<times> 'l list) result"
  assumes "NewBufferedStorageBackend config schema = (Inr bsb :: ('e backend_error, ('p, 'l) BufferedStorageBackend) result)"
    and "schema_Validate schema = None" "range_fits schema r"
    and "lb_reachable objects (newLedgerBuffer config schema r) lb" "cancelled lb = None" "\<forall>lb'. \<not> lb_step objects lb lb'"
    and "new_buffer r = Inr \<lparr>bh_range = r, bh_latest = latest, bh_queue = map Inr (delivered lb)\<rparr>"
    and "\<And>k p. k < files schema r \<Longrightarrow> objects (GetObjectKeyFromSequenceNumber schema
        (word_of_nat ((unat (rg_from r) div unat (LedgersPerFile schema) + k) * unat (LedgersPerFile schema)))) = Some p \<Longrightarrow>
      batch_ok read_batch ledger (unat (rg_from r)) ((unat (rg_from r) div unat (LedgersPerFile schema) + k) * unat (LedgersPerFile schema))
        ((unat (rg_from r) div unat (LedgersPerFile schema) + k) * unat (LedgersPerFile schema) + (unat (LedgersPerFile schema) - 1)) p"
  shows "\<exists>b. be_PrepareRange new_buffer bsb r = (Inr (), b) \<and>
    fst (get_ledgers read_batch b (concat (map (\<lambda>i. replicate (Suc (c i)) (word_of_nat i)) [unat (rg_from r)..<Suc (unat (rg_to r))]))) =
      concat (map (\<lambda>i. replicate (Suc (c i)) (Inr (ledger i))) [unat (rg_from r)..<Suc (unat (rg_to r))])"
proof -
  let ?l = "unat (LedgersPerFile schema)" and ?f = "unat (rg_from r)" and ?t = "unat (rg_to r)"
  have cfg: "BufferSize config \<noteq> 0" "NumWorkers config \<noteq> 0" using assms(1) by (auto simp: NewBufferedStorageBackend_def split: if_splits)
  note res = buffer_result [OF cfg assms(2-4)]
  then have len: "length (delivered lb) = files schema r" using assms(5,6) by blast
  have obj: "objects (GetObjectKeyFromSequenceNumber schema (word_of_nat ((?f div ?l + k) * ?l))) = Some (delivered lb ! k)" if "k < files schema r" for k
    using res [THEN conjunct1, THEN arg_cong, of "\<lambda>xs. xs ! k"] that len by simp
  have b: "batches_ok read_batch ledger ?l ?f (delivered lb)" unfolding batches_ok_def using assms(8) [OF _ obj] len by simp
  obtain bb where bb: "be_PrepareRange new_buffer bsb r = (Inr (), bb)" "reading ledger ?l r (delivered lb) ?f 0 bb"
    using prepare_new [where new_buffer = new_buffer and r = r, OF assms(1,7)] by fastforce
  have "?f \<le> ?t" using assms(3) by (simp add: range_fits_def word_le_nat_alt)
  then obtain d where d: "?f + d = Suc ?t" using le_iff_add by (metis add_Suc_right)
  have "?t \<le> unat (GetSequenceNumberEndBoundary schema (rg_to r))" using boundaries_order [of schema "rg_to r"] assms(3) by (simp add: range_fits_def word_le_nat_alt)
  then have "?t + 1 < 2 ^ 32" using assms(3) fits_end(2) [OF assms(3)] by (simp add: range_fits_def)
  then show ?thesis using read_all [OF bb(2) b fits_end(2) [OF assms(3)] order_refl d _ len [unfolded files_def], of c] bb(1) d by (auto simp del: upt_Suc)
qed


section \<open>A session\<close>

definition demo_batch :: "nat \<Rightarrow> (unit, 32 word \<times> 32 word \<times> nat list) result" where
  "demo_batch p = Inr (64, 127, [64..<128])"

definition demo_backend :: "(nat, nat) BufferedStorageBackend" where
  "demo_backend = \<lparr>be_buffer = None, be_prepared = None, be_closed = False, nextLedger = 0, lastLedger = 0, batchLoaded = False,
     ledgerSlices = [], batchStart = 0, batchEnd = 0, batchIndex = 0\<rparr>"

definition demo_buffers :: "ledger_Range \<Rightarrow> (unit, nat buffer_handle) result" where
  "demo_buffers r = Inr \<lparr>bh_range = r, bh_latest = 0, bh_queue = map Inr [demo_payload]\<rparr>"

theorem backend_reads_range_witness:
  "\<exists>b. be_PrepareRange demo_buffers demo_backend (BoundedRange 70 70) = (Inr (), b) \<and> fst (get_ledgers demo_batch b [70, 70]) = [Inr 70, Inr 70]"
proof -
  let ?r = "BoundedRange 70 70"
  have new: "NewBufferedStorageBackend demo_config witness_schema = (Inr demo_backend :: (unit backend_error, _) result)"
    by (simp add: NewBufferedStorageBackend_def demo_config_def witness_schema_def demo_backend_def)
  have d: "cancelled demo_end = None" "delivered demo_end = [demo_payload]" by (simp_all add: demo_state_def)
  have buf: "demo_buffers ?r = Inr \<lparr>bh_range = ?r, bh_latest = 0, bh_queue = map Inr (delivered demo_end)\<rparr>" by (simp add: demo_buffers_def d)
  have f: "unat (rg_from ?r) = 70" "unat (rg_to ?r) = 70" "unat (LedgersPerFile witness_schema) = 64" by (simp_all add: BoundedRange_def witness_schema_def)
  have "batch_ok demo_batch (\<lambda>i. i) 70 ((70 div 64 + k) * 64) ((70 div 64 + k) * 64 + (64 - 1)) p" if "k < 1" for k p
    using that by (auto simp: batch_ok_def demo_batch_def simp del: upt_Suc intro: exI [of _ 64])
  then show ?thesis
    using backend_reads_range [where new_buffer = demo_buffers and r = ?r and read_batch = demo_batch and ledger = "\<lambda>i. i" and c = "\<lambda>_. 1",
        OF new witness_schema_ok(1) demo_fits(1) demo_reachable d(1) allI [OF demo_stuck] buf]
    unfolding f demo_fits(3) by simp
qed


end
