(* ===== verification/Producer.thy ===== *)
theory Producer
  imports Buffered_Backend
begin

text \<open>
  The two ways to run through a range of ledgers of a data store: \<^verbatim>\<open>ApplyLedgerMetadata\<close> of \<^verbatim>\<open>ingest/producer.go\<close>, which calls back with every
  decoded ledger, and the raw streams of \<^verbatim>\<open>ingest/ledgerbackend/ledger_stream.go\<close>.

  A callback or a consumer of a stream is a function on a state of its own; a callback that does not return is \<open>None\<close>. The loops are \<open>None\<close> when they
  do not end. Opening the store and loading its schema are arguments, logging and metrics are left out.
\<close>

section \<open>Definitions\<close>

subsection \<open>Streams\<close>

datatype 'e stream_error = OpenFailed 'e | BackendFailed "'e backend_error"

record ('b, 'f, 'l) rawReader =
  rr_prepare :: "'b \<Rightarrow> ledger_Range \<Rightarrow> ('f, unit) result \<times> 'b"
  rr_read :: "'b \<Rightarrow> 32 word \<Rightarrow> ('f, 'l) result \<times> 'b"
  rr_close :: "'b \<Rightarrow> 'b"

text \<open>The loop over the sequence numbers; the consumer returns false to stop.\<close>

partial_function (option) stream_loop ::
    "('b \<Rightarrow> 32 word \<Rightarrow> ('f, 'l) result \<times> 'b) \<Rightarrow> ledger_Range \<Rightarrow> ('s \<Rightarrow> ('f, 'l) result \<Rightarrow> bool \<times> 's) \<Rightarrow> 32 word \<Rightarrow> 'b \<Rightarrow> 's \<Rightarrow> ('b \<times> 's) option" where
  "stream_loop read r yield sq b s =
     (case read b sq of
        (Inl e, b) \<Rightarrow> Some (b, snd (yield s (Inl e)))
      | (Inr raw, b) \<Rightarrow>
          (case yield s (Inr raw) of
             (continues, s) \<Rightarrow>
               if \<not> continues then Some (b, s)
               else if rg_bounded r \<and> sq = rg_to r then Some (b, s) else stream_loop read r yield (sq + 1) b s))"

definition streamRaw ::
    "ledger_Range \<Rightarrow> ('f, ('b, 'f, 'l) rawReader \<times> 'b) result \<Rightarrow> ('s \<Rightarrow> ('f, 'l) result \<Rightarrow> bool \<times> 's) \<Rightarrow> 's \<Rightarrow> ('b option \<times> 's) option" where
  "streamRaw r built yield s =
     (case built of
        Inl e \<Rightarrow> Some (None, snd (yield s (Inl e)))
      | Inr (rr, b) \<Rightarrow>
          (case rr_prepare rr b r of
             (Inl e, b) \<Rightarrow> Some (Some (rr_close rr b), snd (yield s (Inl e)))
           | (Inr _, b) \<Rightarrow> map_option (\<lambda>(b, s). (Some (rr_close rr b), s)) (stream_loop (rr_read rr) r yield (rg_from r) b s)))"

definition backend_result :: "('e backend_error, 'a) result \<times> 'b \<Rightarrow> ('e stream_error, 'a) result \<times> 'b" where
  "backend_result x = (case x of (Inl e, b) \<Rightarrow> (Inl (BackendFailed e), b) | (Inr a, b) \<Rightarrow> (Inr a, b))"

definition RawLedgers ::
    "(DataStoreSchema \<Rightarrow> ledger_Range \<Rightarrow> ('e, 'p buffer_handle) result) \<Rightarrow> ('p \<Rightarrow> ('e, 32 word \<times> 32 word \<times> 'l list) result) \<Rightarrow>
     BufferedStorageBackendConfig \<Rightarrow> ('e, DataStoreSchema) result \<Rightarrow> ledger_Range \<Rightarrow> ('s \<Rightarrow> ('e stream_error, 'l) result \<Rightarrow> bool \<times> 's) \<Rightarrow> 's \<Rightarrow>
     (('p, 'l) BufferedStorageBackend option \<times> 's) option" where
  "RawLedgers new_buffer read_batch config opened r yield s =
     streamRaw r
       (case opened of
          Inl e \<Rightarrow> Inl (OpenFailed e)
        | Inr schema \<Rightarrow>
            (case NewBufferedStorageBackend config schema of
               Inl e \<Rightarrow> Inl (BackendFailed e)
             | Inr bsb \<Rightarrow>
                 Inr (\<lparr>rr_prepare = (\<lambda>b r. backend_result (be_PrepareRange (new_buffer schema) b r)),
                       rr_read = (\<lambda>b sq. backend_result (getLedgerRaw read_batch b sq)), rr_close = be_Close\<rparr>, bsb)))
       yield s"

subsection \<open>The producer\<close>

definition DefaultBufferedStorageBackendConfig :: "32 word \<Rightarrow> BufferedStorageBackendConfig" where
  "DefaultBufferedStorageBackendConfig ledgersPerFile =
     (if ledgersPerFile < 64 then \<lparr>BufferSize = 10000, BufferBytes = 0, NumWorkers = 10, RetryLimit = 5\<rparr>
      else \<lparr>BufferSize = 10, BufferBytes = 0, NumWorkers = 2, RetryLimit = 5\<rparr>)"

datatype ('e, 'f, 'c) apply_error =
    DatastoreFailed 'e | SchemaFailed 'e | CreateFailed 'f | InvalidBoundedEnd | InvalidUnboundedEnd
  | PrepareFailed 'f | GetFailed 'f | CallbackFailed 'c

text \<open>A callback returns its new state and, when it fails, an error.\<close>

type_synonym ('s, 'm, 'c) callback = "'s \<Rightarrow> 'm \<Rightarrow> ('s \<times> 'c option) option"

partial_function (option) apply_loop ::
    "('b \<Rightarrow> 32 word \<Rightarrow> ('f, 'm) result \<times> 'b) \<Rightarrow> ledger_Range \<Rightarrow> ('s, 'm, 'c) callback \<Rightarrow> 32 word \<Rightarrow> 'b \<Rightarrow> 's \<Rightarrow>
     ((('e, 'f, 'c) apply_error, unit) result \<times> 's) option" where
  "apply_loop get r callback sq b s =
     (if sq \<le> rg_to r \<or> \<not> rg_bounded r
      then case get b sq of
          (Inl e, b) \<Rightarrow> Some (Inl (GetFailed e), s)
        | (Inr meta, b) \<Rightarrow>
            (case callback s meta of
               None \<Rightarrow> None
             | Some (s, err) \<Rightarrow>
                 (case err of Some c \<Rightarrow> Some (Inl (CallbackFailed c), s) | None \<Rightarrow> apply_loop get r callback (sq + 1) b s))
      else Some (Inr (), s))"

definition ApplyLedgerMetadata ::
    "('e, unit) result \<Rightarrow> ('e, DataStoreSchema) result \<Rightarrow> (DataStoreSchema \<Rightarrow> ledger_Range \<Rightarrow> ('e, 'p buffer_handle) result) \<Rightarrow>
     ('p \<Rightarrow> ('e, 32 word \<times> 32 word \<times> 'l list) result) \<Rightarrow> ('l \<Rightarrow> ('e, 'm) result) \<Rightarrow> BufferedStorageBackendConfig \<Rightarrow> ledger_Range \<Rightarrow>
     ('s, 'm, 'c) callback \<Rightarrow> 's \<Rightarrow> ((('e, 'e backend_error, 'c) apply_error, unit) result \<times> 's) option" where
  "ApplyLedgerMetadata store schema new_buffer read_batch unmarshal config r callback s =
     (case store of
        Inl e \<Rightarrow> Some (Inl (DatastoreFailed e), s)
      | Inr _ \<Rightarrow>
     (case schema of
        Inl e \<Rightarrow> Some (Inl (SchemaFailed e), s)
      | Inr sch \<Rightarrow>
     (case NewBufferedStorageBackend config sch of
        Inl e \<Rightarrow> Some (Inl (CreateFailed e), s)
      | Inr bsb \<Rightarrow>
          if rg_bounded r \<and> rg_to r \<le> rg_from r then Some (Inl InvalidBoundedEnd, s)
          else if \<not> rg_bounded r \<and> rg_to r > 0 then Some (Inl InvalidUnboundedEnd, s)
          else case be_PrepareRange (new_buffer sch) bsb r of
              (Inl e, _) \<Rightarrow> Some (Inl (PrepareFailed e), s)
            | (Inr _, bsb) \<Rightarrow> apply_loop (be_GetLedger read_batch unmarshal) r callback (max 2 (rg_from r)) bsb s)))"

section \<open>Readers of ledgers\<close>

lemma word_of_nat_unat_32: "word_of_nat (unat w) = (w :: 32 word)"
  by simp

text \<open>What a consumer and a callback make of a list of ledgers.\<close>

fun feed :: "('s \<Rightarrow> 'x \<Rightarrow> bool \<times> 's) \<Rightarrow> 's \<Rightarrow> 'x list \<Rightarrow> 's" where
  "feed yield s [] = s"
| "feed yield s (x # xs) = (case yield s x of (continues, s) \<Rightarrow> if continues then feed yield s xs else s)"

fun run_callback :: "('s, 'm, 'c) callback \<Rightarrow> 's \<Rightarrow> 'm list \<Rightarrow> ('s \<times> 'c option) option" where
  "run_callback callback s [] = Some (s, None)"
| "run_callback callback s (m # ms) =
     (case callback s m of None \<Rightarrow> None | Some (s, Some c) \<Rightarrow> Some (s, Some c) | Some (s, None) \<Rightarrow> run_callback callback s ms)"

definition apply_result :: "('s \<times> 'c option) option \<Rightarrow> ((('e, 'f, 'c) apply_error, unit) result \<times> 's) option" where
  "apply_result x = map_option (\<lambda>(s, err). (case err of None \<Rightarrow> Inr () | Some c \<Rightarrow> Inl (CallbackFailed c), s)) x"

text \<open>
  The contract of a reader that serves the ledgers up to \<open>hi\<close> in order: \<open>serves m b\<close> says that \<open>b\<close> is ready for ledger \<open>m\<close>.
\<close>

locale ledger_reader =
  fixes read :: "'b \<Rightarrow> 32 word \<Rightarrow> ('f, 'l) result \<times> 'b" and serves :: "nat \<Rightarrow> 'b \<Rightarrow> bool" and ledger :: "nat \<Rightarrow> 'l" and hi :: nat
  assumes read_served: "serves m b \<Longrightarrow> m \<le> hi \<Longrightarrow> \<exists>b'. read b (word_of_nat m) = (Inr (ledger m), b') \<and> serves (Suc m) b'"
    and hi_small: "serves m b \<Longrightarrow> hi + 1 < 2 ^ 32"
begin

lemma next_sequence: "word_of_nat m + 1 = (word_of_nat (Suc m) :: 32 word)"
  by simp

lemma stream_served:
  assumes "serves m b" "m + d = hi" "rg_bounded r" "unat (rg_to r) = hi"
  shows "\<exists>b'. stream_loop read r yield (word_of_nat m) b s = Some (b', feed yield s (map (\<lambda>i. Inr (ledger i)) [m..<Suc hi]))"
  using assms(1,2)
proof (induction d arbitrary: m b s)
  case 0
  obtain b' where "read b (word_of_nat m) = (Inr (ledger m), b')" using read_served [OF 0(1)] 0(2) by auto
  moreover have "word_of_nat m = rg_to r" using 0(2) assms(4) by (metis add_0_right word_of_nat_unat_32)
  moreover have "m = hi" using 0(2) by simp
  ultimately show ?case using assms(3) by (auto simp: stream_loop.simps [of read r yield "rg_to r"] split: prod.splits)
next
  case (Suc d)
  obtain b1 where b1: "read b (word_of_nat m) = (Inr (ledger m), b1)" "serves (Suc m) b1" using read_served [OF Suc.prems(1)] Suc.prems(2) by auto
  have "m < 2 ^ 32" using hi_small [OF Suc.prems(1)] Suc.prems(2) by simp
  then have ne: "word_of_nat m \<noteq> rg_to r" using unat_word_of_nat_32 [of m] Suc.prems(2) assms(4) by auto
  have split: "[m..<Suc hi] = m # [Suc m..<Suc hi]" using Suc.prems(2) by (simp add: upt_conv_Cons)
  show ?case using b1(1) ne Suc.IH [OF b1(2)] Suc.prems(2)
    by (auto simp: stream_loop.simps [of read r yield "word_of_nat m"] split next_sequence simp del: upt_Suc of_nat_Suc split: prod.splits)
qed

lemma apply_served:
  assumes "serves m b" "m + d = Suc hi" "rg_bounded r" "unat (rg_to r) = hi"
  shows "(apply_loop read r callback (word_of_nat m) b s :: ((('e, 'f, 'c) apply_error, unit) result \<times> 's) option) =
    apply_result (run_callback callback s (map ledger [m..<Suc hi]))"
  using assms(1,2)
proof (induction d arbitrary: m b s)
  case 0
  have "m < 2 ^ 32" using hi_small [OF 0(1)] 0(2) by simp
  then have "\<not> word_of_nat m \<le> rg_to r" using unat_word_of_nat_32 [of m] 0(2) assms(4) by (simp add: word_le_nat_alt)
  then show ?case using assms(3) 0(2) by (subst apply_loop.simps) (simp add: apply_result_def)
next
  case (Suc d)
  obtain b1 where b1: "read b (word_of_nat m) = (Inr (ledger m), b1)" "serves (Suc m) b1" using read_served [OF Suc.prems(1)] Suc.prems(2) by auto
  have "m < 2 ^ 32" using hi_small [OF Suc.prems(1)] Suc.prems(2) by simp
  then have le: "word_of_nat m \<le> rg_to r" using unat_word_of_nat_32 [of m] Suc.prems(2) assms(4) by (simp add: word_le_nat_alt)
  have split: "[m..<Suc hi] = m # [Suc m..<Suc hi]" using Suc.prems(2) by (simp add: upt_conv_Cons)
  have IH: "(apply_loop read r callback (word_of_nat (Suc m)) b1 s' :: ((('e, 'f, 'c) apply_error, unit) result \<times> 's) option) = apply_result (run_callback callback s' (map ledger [Suc m..<Suc hi]))" for s'
    by (rule Suc.IH [OF b1(2)]) (use Suc.prems(2) in simp)
  show ?case
    using b1(1) le IH by (auto simp: apply_loop.simps [of read r callback "word_of_nat m"] split next_sequence apply_result_def
        simp del: upt_Suc of_nat_Suc split: option.splits)
qed

end

text \<open>The backend serves a range, raw and decoded.\<close>

definition serving :: "('p \<Rightarrow> ('e, 32 word \<times> 32 word \<times> 'l list) result) \<Rightarrow> (nat \<Rightarrow> 'l) \<Rightarrow> nat \<Rightarrow> nat \<Rightarrow> ('p, 'l) BufferedStorageBackend \<Rightarrow> bool" where
  "serving read_batch ledger hi m b \<longleftrightarrow> (\<exists>l r ps j. reading ledger l r ps m j b \<and> batches_ok read_batch ledger l (unat (rg_from r)) ps \<and> 0 < l \<and>
     unat (rg_from r) \<le> m \<and> unat (rg_to r) = hi \<and> hi + 1 < 2 ^ 32 \<and> length ps = unat (rg_to r) div l + 1 - unat (rg_from r) div l)"

lemma serving_next:
  assumes "serving read_batch ledger hi m b" "m \<le> hi"
  shows "\<exists>b'. getLedgerRaw read_batch b (word_of_nat m) = (Inr (ledger m), b') \<and> serving read_batch ledger hi (Suc m) b'"
proof -
  obtain l r ps j where s: "reading ledger l r ps m j b" "batches_ok read_batch ledger l (unat (rg_from r)) ps" "0 < l"
     "unat (rg_from r) \<le> m" "unat (rg_to r) = hi" "hi + 1 < 2 ^ 32" "length ps = unat (rg_to r) div l + 1 - unat (rg_from r) div l"
    using assms(1) by (auto simp: serving_def)
  then obtain b' j' where "getLedgerRaw read_batch b (word_of_nat m) = (Inr (ledger m), b')" "reading ledger l r ps (Suc m) j' b'"
    using read_next [OF s(1-4) _ _ s(7)] assms(2) by auto
  then show ?thesis using s unfolding serving_def by (metis le_Suc_eq)
qed

lemma serving_small: "serving read_batch ledger hi m b \<Longrightarrow> hi + 1 < 2 ^ 32"
  by (auto simp: serving_def)

interpretation raw_ledgers: ledger_reader "\<lambda>b sq. backend_result (getLedgerRaw read_batch b sq)" "serving read_batch ledger hi" ledger hi for read_batch ledger hi
  by unfold_locales (auto simp: backend_result_def dest: serving_next serving_small)

interpretation decoded_ledgers: ledger_reader "be_GetLedger read_batch unmarshal"
    "\<lambda>m b. serving read_batch ledger hi m b \<and> (\<forall>i \<le> hi. unmarshal (ledger i) = Inr (meta i))" meta hi for read_batch unmarshal ledger meta hi
  by unfold_locales (auto simp: be_GetLedger_def dest: serving_next serving_small)

section \<open>Properties\<close>

text \<open>The objects of the store that are files of a range hold the ledgers of these files.\<close>

definition holds_ledgers ::
    "(string \<Rightarrow> 'p option) \<Rightarrow> ('p \<Rightarrow> ('e, 32 word \<times> 32 word \<times> 'l list) result) \<Rightarrow> (nat \<Rightarrow> 'l) \<Rightarrow> DataStoreSchema \<Rightarrow> ledger_Range \<Rightarrow> bool" where
  "holds_ledgers objects read_batch ledger schema r \<longleftrightarrow> (\<forall>k < files schema r. \<forall>p.
     objects (GetObjectKeyFromSequenceNumber schema (word_of_nat ((unat (rg_from r) div unat (LedgersPerFile schema) + k) * unat (LedgersPerFile schema)))) = Some p \<longrightarrow>
       batch_ok read_batch ledger (unat (rg_from r)) ((unat (rg_from r) div unat (LedgersPerFile schema) + k) * unat (LedgersPerFile schema))
         ((unat (rg_from r) div unat (LedgersPerFile schema) + k) * unat (LedgersPerFile schema) + (unat (LedgersPerFile schema) - 1)) p)"

lemma prepared_serving:
  fixes new_buffer :: "ledger_Range \<Rightarrow> ('e, 'p buffer_handle) result" and read_batch :: "'p \<Rightarrow> ('e, 32 word \<times> 32 word \<times> 'l list) result"
  assumes "NewBufferedStorageBackend config schema = (Inr bsb :: ('e backend_error, ('p, 'l) BufferedStorageBackend) result)"
    and "schema_Validate schema = None" "range_fits schema r"
    and "lb_reachable objects (newLedgerBuffer config schema r) lb" "cancelled lb = None" "\<forall>lb'. \<not> lb_step objects lb lb'"
    and "new_buffer r = Inr \<lparr>bh_range = r, bh_latest = latest, bh_queue = map Inr (delivered lb)\<rparr>"
    and "holds_ledgers objects read_batch ledger schema r"
  shows "\<exists>b. be_PrepareRange new_buffer bsb r = (Inr (), b) \<and> serving read_batch ledger (unat (rg_to r)) (unat (rg_from r)) b"
proof -
  let ?l = "unat (LedgersPerFile schema)" and ?f = "unat (rg_from r)" and ?t = "unat (rg_to r)"
  have cfg: "BufferSize config \<noteq> 0" "NumWorkers config \<noteq> 0" using assms(1) by (auto simp: NewBufferedStorageBackend_def split: if_splits)
  note res = buffer_result [OF cfg assms(2-4)]
  then have len: "length (delivered lb) = files schema r" using assms(5,6) by blast
  have obj: "objects (GetObjectKeyFromSequenceNumber schema (word_of_nat ((?f div ?l + k) * ?l))) = Some (delivered lb ! k)" if "k < files schema r" for k
    using res [THEN conjunct1, THEN arg_cong, of "\<lambda>xs. xs ! k"] that len by simp
  have b: "batches_ok read_batch ledger ?l ?f (delivered lb)" unfolding batches_ok_def using assms(8) obj len by (simp add: holds_ledgers_def)
  obtain bb where bb: "be_PrepareRange new_buffer bsb r = (Inr (), bb)" "reading ledger ?l r (delivered lb) ?f 0 bb"
    using prepare_new [where new_buffer = new_buffer and r = r, OF assms(1,7)] by fastforce
  have "?t \<le> unat (GetSequenceNumberEndBoundary schema (rg_to r))" using boundaries_order [of schema "rg_to r"] assms(3) by (simp add: range_fits_def word_le_nat_alt)
  then have "?t + 1 < 2 ^ 32" using assms(3) fits_end(2) [OF assms(3)] by (simp add: range_fits_def)
  then show ?thesis using bb b fits_end(2) [OF assms(3)] len unfolding serving_def files_def by blast
qed

text \<open>
  The stream of a bounded range yields exactly the ledgers of the range, in order, until the consumer stops it, and then closes
  the backend. Here the data store holds the ledgers and the buffer ran to its end without being cancelled.
\<close>

lemma stream_yields_range:
  fixes read_batch :: "'p \<Rightarrow> ('e, 32 word \<times> 32 word \<times> 'l list) result"
  assumes "NewBufferedStorageBackend config schema = (Inr bsb :: ('e backend_error, ('p, 'l) BufferedStorageBackend) result)"
    and "schema_Validate schema = None" "range_fits schema r"
    and "lb_reachable objects (newLedgerBuffer config schema r) lb" "cancelled lb = None" "\<forall>lb'. \<not> lb_step objects lb lb'"
    and "new_buffer schema r = Inr \<lparr>bh_range = r, bh_latest = latest, bh_queue = map Inr (delivered lb)\<rparr>"
    and "holds_ledgers objects read_batch ledger schema r"
  shows "\<exists>b. RawLedgers new_buffer read_batch config (Inr schema) r yield s =
    Some (Some (be_Close b), feed yield s (map (\<lambda>i. Inr (ledger i)) [unat (rg_from r)..<Suc (unat (rg_to r))]))"
proof -
  obtain b where b: "be_PrepareRange (new_buffer schema) bsb r = (Inr (), b)" "serving read_batch ledger (unat (rg_to r)) (unat (rg_from r)) b"
    using prepared_serving [where new_buffer = "new_buffer schema", OF assms] by blast
  have "unat (rg_from r) \<le> unat (rg_to r)" "rg_bounded r" using assms(3) by (simp_all add: range_fits_def word_le_nat_alt)
  then obtain b' where "stream_loop (\<lambda>b sq. backend_result (getLedgerRaw read_batch b sq)) r yield (rg_from r) b s =
      Some (b', feed yield s (map (\<lambda>i. Inr (ledger i)) [unat (rg_from r)..<Suc (unat (rg_to r))]))"
    using raw_ledgers.stream_served [OF b(2), of "unat (rg_to r) - unat (rg_from r)" r yield s] by (auto simp del: upt_Suc)
  then show ?thesis using assms(1) b(1) by (auto simp: RawLedgers_def streamRaw_def backend_result_def simp del: upt_Suc)
qed

lemma applied_range:
  fixes read_batch :: "'p \<Rightarrow> ('e, 32 word \<times> 32 word \<times> 'l list) result" and callback :: "('s, 'm, 'c) callback"
  assumes "NewBufferedStorageBackend config schema = (Inr bsb :: ('e backend_error, ('p, 'l) BufferedStorageBackend) result)"
    and "schema_Validate schema = None" "range_fits schema r"
    and "lb_reachable objects (newLedgerBuffer config schema r) lb" "cancelled lb = None" "\<forall>lb'. \<not> lb_step objects lb lb'"
    and "new_buffer schema r = Inr \<lparr>bh_range = r, bh_latest = latest, bh_queue = map Inr (delivered lb)\<rparr>"
    and "holds_ledgers objects read_batch ledger schema r"
    and "2 \<le> rg_from r" "rg_from r < rg_to r" and "\<And>i. i \<le> unat (rg_to r) \<Longrightarrow> unmarshal (ledger i) = Inr (meta i)"
  shows "ApplyLedgerMetadata (Inr ()) (Inr schema) new_buffer read_batch unmarshal config r callback s =
    apply_result (run_callback callback s (map meta [unat (rg_from r)..<Suc (unat (rg_to r))]))"
proof -
  obtain b where b: "be_PrepareRange (new_buffer schema) bsb r = (Inr (), b)" "serving read_batch ledger (unat (rg_to r)) (unat (rg_from r)) b"
    using prepared_serving [where new_buffer = "new_buffer schema", OF assms(1-8)] by blast
  have bounded: "rg_bounded r" using assms(3) by (simp add: range_fits_def)
  have "unat (rg_from r) < unat (rg_to r)" using assms(10) by (simp add: word_less_nat_alt)
  then have "apply_loop (be_GetLedger read_batch unmarshal) r callback (rg_from r) b s =
      apply_result (run_callback callback s (map meta [unat (rg_from r)..<Suc (unat (rg_to r))]))"
    using decoded_ledgers.apply_served [of read_batch ledger "unat (rg_to r)" "unat (rg_from r)" b unmarshal meta "Suc (unat (rg_to r)) - unat (rg_from r)" r callback s]
      b(2) assms(11) bounded by (simp del: upt_Suc)
  then show ?thesis using assms(1,9,10) b(1) bounded by (simp add: ApplyLedgerMetadata_def max_def not_le [symmetric] del: upt_Suc)
qed

text \<open>
  \<^verbatim>\<open>ApplyLedgerMetadata\<close> on a bounded range from ledger 2 on calls back with every decoded ledger of the range, once and in order, until
  the callback fails, and returns its error or nil.
\<close>

lemma apply_calls_back:
  fixes read_batch :: "'p \<Rightarrow> ('e, 32 word \<times> 32 word \<times> 'l list) result" and callback :: "('s, 'm, 'c) callback"
  assumes "NewBufferedStorageBackend config schema = (Inr bsb :: ('e backend_error, ('p, 'l) BufferedStorageBackend) result)"
    and "schema_Validate schema = None" "range_fits schema r"
    and "lb_reachable objects (newLedgerBuffer config schema r) lb" "cancelled lb = None" "\<forall>lb'. \<not> lb_step objects lb lb'"
    and "new_buffer schema r = Inr \<lparr>bh_range = r, bh_latest = latest, bh_queue = map Inr (delivered lb)\<rparr>"
    and "holds_ledgers objects read_batch ledger schema r"
    and "2 \<le> rg_from r" "rg_from r < rg_to r" and "\<And>i. i \<le> unat (rg_to r) \<Longrightarrow> unmarshal (ledger i) = Inr (meta i)"
  shows "ApplyLedgerMetadata (Inr ()) (Inr schema) new_buffer read_batch unmarshal config r callback s =
    apply_result (run_callback callback s (map meta [unat (rg_from r)..<Suc (unat (rg_to r))]))"
  by (rule applied_range [where new_buffer = new_buffer and unmarshal = unmarshal and ledger = ledger, OF assms])

text \<open>
  C21: On a range that starts before ledger 2 and goes beyond it \<^verbatim>\<open>ApplyLedgerMetadata\<close> always fails and never calls back: it prepares the range as given but starts to
  read at ledger 2, which the backend refuses, since it expects the first ledger of the range.
\<close>

theorem apply_before_genesis_fails:
  fixes read_batch :: "'p \<Rightarrow> ('e, 32 word \<times> 32 word \<times> 'l list) result" and callback :: "('s, 'm, 'c) callback"
  assumes "NewBufferedStorageBackend config schema = (Inr bsb :: ('e backend_error, ('p, 'l) BufferedStorageBackend) result)"
    and "new_buffer schema r = Inr lb" "bh_range lb = r" and "rg_from r < 2" "if rg_bounded r then 2 \<le> rg_to r else rg_to r = 0"
  shows "ApplyLedgerMetadata (Inr ()) (Inr schema) new_buffer read_batch unmarshal config r callback s = Some (Inl (GetFailed NotNextLedger), s)"
proof -
  let ?b = "bsb\<lparr>batchLoaded := False, ledgerSlices := [], be_buffer := Some lb, nextLedger := rg_from r, be_prepared := Some r\<rparr>"
  have new: "bsb = \<lparr>be_buffer = None, be_prepared = None, be_closed = False, nextLedger = 0, lastLedger = 0, batchLoaded = False,
      ledgerSlices = [], batchStart = 0, batchEnd = 0, batchIndex = 0\<rparr>" using assms(1) by (auto simp: NewBufferedStorageBackend_def split: if_splits)
  have prep: "be_PrepareRange (new_buffer schema) bsb r = (Inr (), ?b)"
    using assms(2) by (simp add: new be_PrepareRange_def startPreparingRange_def be_isPrepared_def releaseCurrentBatch_def)
  have "validateSequence ?b 2 = (Inl NotNextLedger :: ('e backend_error, unit) result)"
    using assms(3-5) by (auto simp: validateSequence_def new nextExpectedSequence_def not_less split: if_splits)
  then have get: "be_GetLedger read_batch unmarshal ?b 2 = (Inl NotNextLedger, ?b)" by (simp add: be_GetLedger_def getLedgerRaw_def)
  have m: "max 2 (rg_from r) = 2" using assms(4) by (intro max_absorb1) simp
  have "\<not> (rg_bounded r \<and> rg_to r \<le> rg_from r)" "\<not> (\<not> rg_bounded r \<and> rg_to r > 0)" "2 \<le> rg_to r \<or> \<not> rg_bounded r" using assms(4,5) by (auto split: if_splits)
  then show ?thesis using assms(1) prep get m
    by (simp add: ApplyLedgerMetadata_def apply_loop.simps [of _ r callback 2])
qed

subsection \<open>Examples\<close>

lemma demo_holds: "holds_ledgers demo_object demo_batch (\<lambda>i. i) witness_schema (BoundedRange 70 71)"
proof -
  have "batch_ok demo_batch (\<lambda>i. i) 70 64 127 p" for p
    by (auto simp: batch_ok_def demo_batch_def simp del: upt_Suc upt_rec_numeral intro!: exI [of _ 64])
  then show ?thesis unfolding holds_ledgers_def demo_fits_two by (auto simp: BoundedRange_def witness_schema_def)
qed

lemma demo_new: "NewBufferedStorageBackend demo_config witness_schema = (Inr demo_backend :: (unit backend_error, _) result)"
  by (simp add: NewBufferedStorageBackend_def demo_config_def witness_schema_def demo_backend_def)

lemma demo_two_buffer: "demo_buffers (BoundedRange 70 71) = Inr \<lparr>bh_range = BoundedRange 70 71, bh_latest = 0, bh_queue = map Inr (delivered (demo_done 71))\<rparr>"
    "cancelled (demo_done 71) = None"
  by (simp_all add: demo_buffers_def demo_state_def)

lemma demo_two_range: "unat (rg_from (BoundedRange 70 71)) = 70" "unat (rg_to (BoundedRange 70 71)) = 71"
  by (simp_all add: BoundedRange_def)

lemmas demo_two = demo_new witness_schema_ok(1) demo_fits_two(1) demo_run [OF disjI2, OF refl] demo_two_buffer(2) allI [OF demo_done_stuck]

lemma stream_yields_range_witness:
  "\<exists>b. RawLedgers (\<lambda>_. demo_buffers) demo_batch demo_config (Inr witness_schema) (BoundedRange 70 71) (\<lambda>s x. (True, s @ [x])) [] =
    Some (Some (be_Close b), [Inr 70, Inr 71])"
  using stream_yields_range [where new_buffer = "\<lambda>_. demo_buffers", OF demo_two demo_two_buffer(1) demo_holds, of "\<lambda>s x. (True, s @ [x])" "[]"]
  unfolding demo_two_range by simp

lemma apply_calls_back_witness:
  "ApplyLedgerMetadata (Inr ()) (Inr witness_schema) (\<lambda>_. demo_buffers) demo_batch (\<lambda>i. Inr (i + 1000)) demo_config (BoundedRange 70 71)
     (\<lambda>s m. Some (s @ [m], if m = 1071 then Some () else None)) [] = Some (Inl (CallbackFailed ()), [1070, 1071])"
proof -
  have "2 \<le> rg_from (BoundedRange 70 71)" "rg_from (BoundedRange 70 71) < rg_to (BoundedRange 70 71)" by (simp_all add: BoundedRange_def)
  then show ?thesis
    using apply_calls_back [where new_buffer = "\<lambda>_. demo_buffers" and unmarshal = "\<lambda>i. Inr (i + 1000)" and meta = "\<lambda>i. i + 1000", OF demo_two demo_two_buffer(1) demo_holds,
        of "\<lambda>s m. Some (s @ [m], if m = 1071 then Some () else None)" "[]"]
    unfolding demo_two_range by (simp add: apply_result_def)
qed

lemma apply_before_genesis_fails_witness:
  "ApplyLedgerMetadata (Inr ()) (Inr witness_schema) (\<lambda>_. demo_buffers) demo_batch (\<lambda>i. Inr i) demo_config (BoundedRange 1 70)
     (\<lambda>s m. Some (s @ [m], None)) [] = (Some (Inl (GetFailed NotNextLedger), []) :: (((unit, unit backend_error, unit) apply_error, unit) result \<times> nat list) option)"
  by (rule apply_before_genesis_fails [OF demo_new, where lb = "\<lparr>bh_range = BoundedRange 1 70, bh_latest = 0, bh_queue = map Inr [demo_payload]\<rparr>"])
    (simp_all add: demo_buffers_def BoundedRange_def)

end
