(* ===== verification/Keypair.thy ===== *)
theory Keypair
  imports Xdr_Envelope Base64
begin

text \<open>
  Key pairs (\<^verbatim>\<open>keypair/main.go\<close>, \<^verbatim>\<open>full.go\<close>, \<^verbatim>\<open>from_address.go\<close>). The signature scheme of \<^verbatim>\<open>crypto/ed25519\<close> is a parameter, with its
  contract \<open>ed25519_ok\<close>: keys and signatures have their sizes and a signature verifies.
\<close>

section \<open>Definitions\<close>

subsection \<open>Key pairs\<close>

record ed25519 =
  ed_public :: "bytes \<Rightarrow> bytes"
  ed_sign :: "bytes \<Rightarrow> bytes \<Rightarrow> bytes"
  ed_verify :: "bytes \<Rightarrow> bytes \<Rightarrow> bytes \<Rightarrow> bool"

definition ed25519_ok :: "ed25519 \<Rightarrow> bool" where
  "ed25519_ok E \<longleftrightarrow> (\<forall>s. length s = 32 \<longrightarrow> length (ed_public E s) = 32 \<and>
     (\<forall>m. length (ed_sign E s m) = 64 \<and> ed_verify E (ed_public E s) m (ed_sign E s m)))"

record FromAddress =
  fa_address :: string
  fa_publicKey :: bytes

record Full =
  full_address :: string
  full_seed :: string
  full_publicKey :: bytes
  full_rawSeed :: bytes

text \<open>The private key is the seed together with the public key.\<close>

datatype KP = KPAddress FromAddress | KPFull Full

datatype keypair_error = KeyStrkeyError strkey_error | ErrInvalidSignature | ErrCannotSign

definition key_result :: "(strkey_error, 'a) result \<Rightarrow> (keypair_error, 'a) result" where
  "key_result r = (case r of Inl e \<Rightarrow> Inl (KeyStrkeyError e) | Inr a \<Rightarrow> Inr a)"

definition ParseAddress :: "string \<Rightarrow> (keypair_error, FromAddress) result" where
  "ParseAddress address =
     bind_result (key_result (strkey_Decode VersionByteAccountID address)) (\<lambda>payload.
       Inr \<lparr>fa_address = address, fa_publicKey = payload\<rparr>)"

definition ParseFull :: "ed25519 \<Rightarrow> string \<Rightarrow> (keypair_error, Full) result" where
  "ParseFull E seed =
     bind_result (key_result (strkey_Decode VersionByteSeed seed)) (\<lambda>rawSeed.
     bind_result (key_result (strkey_Encode VersionByteAccountID (ed_public E rawSeed))) (\<lambda>address.
       Inr \<lparr>full_address = address, full_seed = seed, full_publicKey = ed_public E rawSeed, full_rawSeed = rawSeed\<rparr>))"

definition FromRawSeed :: "ed25519 \<Rightarrow> bytes \<Rightarrow> (keypair_error, Full) result" where
  "FromRawSeed E rawSeed =
     bind_result (key_result (strkey_Encode VersionByteSeed rawSeed)) (\<lambda>seed.
     bind_result (key_result (strkey_Encode VersionByteAccountID (ed_public E rawSeed))) (\<lambda>address.
       Inr \<lparr>full_address = address, full_seed = seed, full_publicKey = ed_public E rawSeed, full_rawSeed = rawSeed\<rparr>))"

text \<open>The root key of a network; \<open>None\<close> is the panic.\<close>

definition Root_key :: "ed25519 \<Rightarrow> (bytes \<Rightarrow> bytes) \<Rightarrow> string \<Rightarrow> Full option" where
  "Root_key E sha256 passphrase = (case FromRawSeed E (network_ID sha256 passphrase) of Inl _ \<Rightarrow> None | Inr kp \<Rightarrow> Some kp)"

definition keypair_Parse :: "ed25519 \<Rightarrow> string \<Rightarrow> (keypair_error, KP) result" where
  "keypair_Parse E addressOrSeed =
     (case ParseAddress addressOrSeed of
        Inr addr \<Rightarrow> Inr (KPAddress addr)
      | Inl err \<Rightarrow>
          if err \<noteq> KeyStrkeyError ErrInvalidVersionByte then Inl err
          else bind_result (ParseFull E addressOrSeed) (\<lambda>kp. Inr (KPFull kp)))"

definition kp_Address :: "KP \<Rightarrow> string" where
  "kp_Address kp = (case kp of KPAddress a \<Rightarrow> fa_address a | KPFull f \<Rightarrow> full_address f)"

definition key_hint :: "bytes \<Rightarrow> bytes" where
  "key_hint publicKey = drop 28 publicKey"

definition kp_Verify :: "ed25519 \<Rightarrow> bytes \<Rightarrow> bytes \<Rightarrow> bytes \<Rightarrow> keypair_error option" where
  "kp_Verify E publicKey input sig =
     (if length sig \<noteq> 64 then Some ErrInvalidSignature
      else if \<not> ed_verify E publicKey input sig then Some ErrInvalidSignature
      else None)"

definition kp_Sign :: "ed25519 \<Rightarrow> KP \<Rightarrow> bytes \<Rightarrow> (keypair_error, bytes) result" where
  "kp_Sign E kp input = (case kp of KPAddress _ \<Rightarrow> Inl ErrCannotSign | KPFull f \<Rightarrow> Inr (ed_sign E (full_rawSeed f) input))"

definition SignBase64 :: "ed25519 \<Rightarrow> KP \<Rightarrow> bytes \<Rightarrow> (keypair_error, string) result" where
  "SignBase64 E kp input = bind_result (kp_Sign E kp input) (\<lambda>sig. Inr (base64_EncodeToString sig))"

definition SignDecorated :: "ed25519 \<Rightarrow> Full \<Rightarrow> bytes \<Rightarrow> (keypair_error, DecoratedSignature) result" where
  "SignDecorated E kp input =
     bind_result (kp_Sign E (KPFull kp) input) (\<lambda>sig. Inr (NewDecoratedSignature sig (key_hint (full_publicKey kp))))"

definition SignPayloadDecorated :: "ed25519 \<Rightarrow> Full \<Rightarrow> bytes \<Rightarrow> (keypair_error, DecoratedSignature) result" where
  "SignPayloadDecorated E kp input =
     bind_result (kp_Sign E (KPFull kp) input) (\<lambda>sig. Inr (NewDecoratedSignatureForPayload sig (key_hint (full_publicKey kp)) input))"

section \<open>Keys\<close>

lemma seed_payload_length: "checkPayloadLength VersionByteSeed p = None \<longleftrightarrow> length p = 32"
  by (simp add: checkPayloadLength_def version_byte_values)

lemma ParseAddress_Inr: "ParseAddress s = Inr k \<longleftrightarrow> fa_address k = s \<and> strkey_Decode VersionByteAccountID s = Inr (fa_publicKey k)"
  by (cases k) (auto simp: ParseAddress_def key_result_def bind_result_eq_Inr split: sum.splits)

text \<open>The address of a full key is parsed to the public key, and what the key signs verifies under it.\<close>

lemma ParseFull_key:
  assumes "ed25519_ok E" "ParseFull E seed = Inr kp"
  shows "length (full_rawSeed kp) = 32" "full_publicKey kp = ed_public E (full_rawSeed kp)" "length (full_publicKey kp) = 32"
    "ParseAddress (full_address kp) = Inr \<lparr>fa_address = full_address kp, fa_publicKey = full_publicKey kp\<rparr>"
    "SignDecorated E kp m = Inr \<lparr>Hint = key_hint (full_publicKey kp), Signature = ed_sign E (full_rawSeed kp) m\<rparr>"
    "kp_Verify E (full_publicKey kp) m (ed_sign E (full_rawSeed kp) m) = None"
proof -
  obtain raw where raw: "strkey_Decode VersionByteSeed seed = Inr raw" "strkey_Encode VersionByteAccountID (ed_public E raw) = Inr (full_address kp)"
      "full_rawSeed kp = raw" "full_publicKey kp = ed_public E raw"
    using assms(2) by (auto simp: ParseFull_def key_result_def bind_result_eq_Inr split: sum.splits)
  show l: "length (full_rawSeed kp) = 32" using raw(1,3) by (auto simp: strkey_Decode_iff seed_payload_length)
  show p: "full_publicKey kp = ed_public E (full_rawSeed kp)" using raw by simp
  show q: "length (full_publicKey kp) = 32" using assms(1) l p by (simp add: ed25519_ok_def)
  then have "strkey_Decode VersionByteAccountID (full_address kp) = Inr (full_publicKey kp)"
    using raw by (simp add: strkey_Decode_iff all_payload_lengths)
  then show "ParseAddress (full_address kp) = Inr \<lparr>fa_address = full_address kp, fa_publicKey = full_publicKey kp\<rparr>"
    by (simp add: ParseAddress_Inr)
  show "SignDecorated E kp m = Inr \<lparr>Hint = key_hint (full_publicKey kp), Signature = ed_sign E (full_rawSeed kp) m\<rparr>"
    by (simp add: SignDecorated_def kp_Sign_def NewDecoratedSignature_def)
  show "kp_Verify E (full_publicKey kp) m (ed_sign E (full_rawSeed kp) m) = None"
    using assms(1) l p by (simp add: kp_Verify_def ed25519_ok_def)
qed

text \<open>A seed is recognised by its version byte.\<close>

lemma keypair_Parse_seed:
  assumes "ParseFull E seed = Inr kp"
  shows "keypair_Parse E seed = Inr (KPFull kp)"
proof -
  obtain raw where "strkey_Decode VersionByteSeed seed = Inr raw" using assms by (auto simp: ParseFull_def key_result_def bind_result_eq_Inr split: sum.splits)
  then have "strkey_Decode VersionByteAccountID seed = Inl ErrInvalidVersionByte"
    by (auto simp: strkey_Decode_def checkValidVersionByte_def version_byte_values Let_def split: option.splits sum.splits if_splits)
  then have "ParseAddress seed = Inl (KeyStrkeyError ErrInvalidVersionByte)" by (simp add: ParseAddress_def key_result_def)
  then show ?thesis using assms by (simp add: keypair_Parse_def)
qed

end
