(* ===== verification/Txn_Build.thy ===== *)
theory Txn_Build
  imports Keypair
begin

text \<open>
  Building and reading transactions (\<^verbatim>\<open>txnbuild/transaction.go\<close>, \<^verbatim>\<open>preconditions.go\<close>, \<^verbatim>\<open>timebounds.go\<close>, \<^verbatim>\<open>ledgerbounds.go\<close>,
  \<^verbatim>\<open>memo.go\<close>, \<^verbatim>\<open>manage_data.go\<close>, \<^verbatim>\<open>simple_account.go\<close>, \<^verbatim>\<open>operation.go\<close>).

  Operations are an interface in the code. Manage data operations are modelled in full, all others are
  values of a type parameter with the methods of the interface in a record. A Soroban operation is one that has an
  extension for the transaction.
\<close>

section \<open>Definitions\<close>

datatype build_error =
    NoSourceAccount | InvalidAccountId address_error | NegativeBaseFee | NoOperations
  | TimeBoundsNotBuilt | NegativeMinTime | NegativeMaxTime | MaxBeforeMin | LedgerBoundsOrder | TooManySigners | InvalidSigner address_error
  | MemoTooLong | InvalidMemo | NameTooLong | ValueTooLong | InvalidOpSource address_error | NotManageData | OtherOpError
  | FeeOverflow | SorobanFeeOverflow | NoInner | NotBumpable | BaseFeeBelowInner | BaseFeeBelowMinimum | InvalidFeeAccount address_error
  | UpgradeError build_error | InnerParseError | ParsePanic | SignHashError hash_error | SignKeyError keypair_error | NotSecretKey
  | PreimageTooLong | NoSignature | Base64Error | NilInner

subsection \<open>Preconditions\<close>

record build_TimeBounds =
  tb_MinTime :: int
  tb_MaxTime :: int
  wasBuilt :: bool

definition TimeoutInfinite :: int where
  "TimeoutInfinite = 0"

definition TimeBounds_Validate :: "build_TimeBounds \<Rightarrow> build_error option" where
  "TimeBounds_Validate tb =
     (if \<not> wasBuilt tb then Some TimeBoundsNotBuilt
      else if tb_MinTime tb < 0 then Some NegativeMinTime
      else if tb_MaxTime tb < 0 then Some NegativeMaxTime
      else if tb_MaxTime tb \<noteq> TimeoutInfinite \<and> tb_MaxTime tb < tb_MinTime tb then Some MaxBeforeMin
      else None)"

definition NewTimebounds :: "int \<Rightarrow> int \<Rightarrow> build_TimeBounds" where
  "NewTimebounds minTime maxTime = \<lparr>tb_MinTime = minTime, tb_MaxTime = maxTime, wasBuilt = True\<rparr>"

definition NewTimeout :: "int \<Rightarrow> int \<Rightarrow> build_TimeBounds" where
  "NewTimeout now timeout = \<lparr>tb_MinTime = 0, tb_MaxTime = wrap_int64 (now + timeout), wasBuilt = True\<rparr>"

definition NewInfiniteTimeout :: build_TimeBounds where
  "NewInfiniteTimeout = \<lparr>tb_MinTime = 0, tb_MaxTime = TimeoutInfinite, wasBuilt = True\<rparr>"

definition LedgerBounds_Validate :: "LedgerBounds option \<Rightarrow> build_error option" where
  "LedgerBounds_Validate lb =
     (case lb of
        None \<Rightarrow> None
      | Some b \<Rightarrow> if MaxLedger b > 0 \<and> MaxLedger b < MinLedger b then Some LedgerBoundsOrder else None)"

record build_Preconditions =
  bp_TimeBounds :: build_TimeBounds
  bp_LedgerBounds :: "LedgerBounds option"
  MinSequenceNumber :: "int option"
  MinSequenceNumberAge :: "64 word"
  MinSequenceNumberLedgerGap :: "32 word"
  bp_ExtraSigners :: "string list"

definition no_timebounds :: build_TimeBounds where
  "no_timebounds = \<lparr>tb_MinTime = 0, tb_MaxTime = 0, wasBuilt = False\<rparr>"

definition time_preconditions :: "build_TimeBounds \<Rightarrow> build_Preconditions" where
  "time_preconditions tb = \<lparr>bp_TimeBounds = tb, bp_LedgerBounds = None, MinSequenceNumber = None, MinSequenceNumberAge = 0,
     MinSequenceNumberLedgerGap = 0, bp_ExtraSigners = []\<rparr>"

definition Preconditions_Validate :: "build_Preconditions \<Rightarrow> build_error option" where
  "Preconditions_Validate cond =
     (case TimeBounds_Validate (bp_TimeBounds cond) of
        Some e \<Rightarrow> Some e
      | None \<Rightarrow>
          (case LedgerBounds_Validate (bp_LedgerBounds cond) of
             Some e \<Rightarrow> Some e
           | None \<Rightarrow> if length (bp_ExtraSigners cond) > 2 then Some TooManySigners else None))"

definition hasV2Conditions :: "build_Preconditions \<Rightarrow> bool" where
  "hasV2Conditions cond \<longleftrightarrow> bp_LedgerBounds cond \<noteq> None \<or> MinSequenceNumber cond \<noteq> None \<or> MinSequenceNumberAge cond > 0 \<or>
     MinSequenceNumberLedgerGap cond > 0 \<or> length (bp_ExtraSigners cond) > 0"

fun signer_keys :: "string list \<Rightarrow> (build_error, SignerKey list) result" where
  "signer_keys [] = Inr []"
| "signer_keys (s # ss) =
     (case signer_SetAddress s of
        Inl e \<Rightarrow> Inl (InvalidSigner e)
      | Inr k \<Rightarrow> bind_result (signer_keys ss) (\<lambda>ks. Inr (k # ks)))"

definition xdr_ledger_bounds :: "LedgerBounds option \<Rightarrow> LedgerBounds option" where
  "xdr_ledger_bounds lb = (case lb of Some b \<Rightarrow> if MinLedger b = 0 \<and> MaxLedger b = 0 then None else Some b | None \<Rightarrow> None)"

definition Preconditions_BuildXDR :: "build_Preconditions \<Rightarrow> (build_error, Preconditions) result" where
  "Preconditions_BuildXDR cond =
     (let xdrTimeBounds = \<lparr>MinTime = word_of_int (tb_MinTime (bp_TimeBounds cond)), MaxTime = word_of_int (tb_MaxTime (bp_TimeBounds cond))\<rparr> in
      if hasV2Conditions cond
      then bind_result (signer_keys (bp_ExtraSigners cond)) (\<lambda>signers.
             Inr (PrecondV2 \<lparr>v2_TimeBounds = Some xdrTimeBounds, v2_LedgerBounds = xdr_ledger_bounds (bp_LedgerBounds cond),
               v2_MinSeqNum = MinSequenceNumber cond, v2_MinSeqAge = MinSequenceNumberAge cond,
               v2_MinSeqLedgerGap = MinSequenceNumberLedgerGap cond, v2_ExtraSigners = signers\<rparr>))
      else Inr (PrecondTime xdrTimeBounds))"

text \<open>\<^verbatim>\<open>FromXDR\<close>: what is filled in, and whether it returned nil. After the first signer without address the rest stays empty.\<close>

definition built_timebounds :: "TimeBounds \<Rightarrow> build_TimeBounds" where
  "built_timebounds tb = NewTimebounds (sint (MinTime tb)) (sint (MaxTime tb))"

fun signer_addresses :: "SignerKey list \<Rightarrow> string list \<times> bool" where
  "signer_addresses [] = ([], True)"
| "signer_addresses (k # ks) =
     (case signer_GetAddress k of
        Inl _ \<Rightarrow> (replicate (Suc (length ks)) [], False)
      | Inr s \<Rightarrow> (case signer_addresses ks of (ss, ok) \<Rightarrow> (s # ss, ok)))"

definition Preconditions_FromXDR :: "Preconditions \<Rightarrow> build_Preconditions \<times> bool" where
  "Preconditions_FromXDR precondXdr =
     (case precondXdr of
        PrecondNone \<Rightarrow> (time_preconditions no_timebounds, True)
      | PrecondTime tb \<Rightarrow> (time_preconditions (built_timebounds tb), True)
      | PrecondV2 p \<Rightarrow>
          (case signer_addresses (v2_ExtraSigners p) of
             (signers, ok) \<Rightarrow>
               (\<lparr>bp_TimeBounds = (case v2_TimeBounds p of None \<Rightarrow> no_timebounds | Some tb \<Rightarrow> built_timebounds tb),
                 bp_LedgerBounds = v2_LedgerBounds p, MinSequenceNumber = v2_MinSeqNum p, MinSequenceNumberAge = v2_MinSeqAge p,
                 MinSequenceNumberLedgerGap = v2_MinSeqLedgerGap p, bp_ExtraSigners = signers\<rparr>, ok))
      | PrecondOther _ \<Rightarrow> (time_preconditions no_timebounds, False))"

subsection \<open>Memos\<close>

datatype build_Memo = BuildMemoText string | BuildMemoID "64 word" | BuildMemoHash bytes | BuildMemoReturn bytes

definition MemoTextMaxLength :: nat where
  "MemoTextMaxLength = 28"

fun Memo_ToXDR :: "build_Memo \<Rightarrow> (build_error, Memo) result" where
  "Memo_ToXDR (BuildMemoText t) = (if length t > MemoTextMaxLength then Inl MemoTooLong else Inr (MemoText t))"
| "Memo_ToXDR (BuildMemoID i) = Inr (MemoId i)"
| "Memo_ToXDR (BuildMemoHash h) = Inr (MemoHash h)"
| "Memo_ToXDR (BuildMemoReturn h) = Inr (MemoReturn h)"

fun memoFromXDR :: "Memo \<Rightarrow> (build_error, build_Memo option) result" where
  "memoFromXDR (MemoText t) = Inr (Some (BuildMemoText t))"
| "memoFromXDR (MemoId i) = Inr (Some (BuildMemoID i))"
| "memoFromXDR (MemoHash h) = Inr (Some (BuildMemoHash h))"
| "memoFromXDR (MemoReturn h) = Inr (Some (BuildMemoReturn h))"
| "memoFromXDR MemoNone = Inr None"
| "memoFromXDR (MemoOther _) = Inl InvalidMemo"

subsection \<open>Operations\<close>

datatype 'b OperationBody = ManageDataBody string "bytes option" | OtherBody 'b

record 'b Operation =
  op_SourceAccount :: "xdr_MuxedAccount option"
  op_Body :: "'b OperationBody"

record ManageData =
  md_Name :: string
  md_Value :: "bytes option"
  md_SourceAccount :: string

datatype 'o build_op = OpManageData ManageData | OpOther 'o

record ('o, 'b) op_methods =
  om_Validate :: "'o \<Rightarrow> build_error option"
  om_BuildXDR :: "'o \<Rightarrow> (build_error, 'b Operation) result"
  om_FromXDR :: "'b Operation \<Rightarrow> (build_error, 'o) result"
  om_BuildTransactionExt :: "'o \<Rightarrow> (build_error, TransactionExt) result option"
  om_setExt :: "TransactionExt \<Rightarrow> 'o \<Rightarrow> 'o"

definition SetOpSourceAccount :: "string \<Rightarrow> (build_error, xdr_MuxedAccount option) result" where
  "SetOpSourceAccount sourceAccount =
     (if sourceAccount = [] then Inr None
      else case muxed_SetAddress sourceAccount of Inl e \<Rightarrow> Inl (InvalidOpSource e) | Inr m \<Rightarrow> Inr (Some m))"

text \<open>\<open>None\<close> is the panic of \<^verbatim>\<open>Address\<close> on an account of unknown type.\<close>

definition accountFromXDR :: "xdr_MuxedAccount option \<Rightarrow> string option" where
  "accountFromXDR account =
     (case account of None \<Rightarrow> Some [] | Some m \<Rightarrow> (case muxed_GetAddress m of Inl _ \<Rightarrow> None | Inr s \<Rightarrow> Some s))"

definition ManageData_Validate :: "ManageData \<Rightarrow> build_error option" where
  "ManageData_Validate md =
     (if length (md_Name md) > 64 then Some NameTooLong
      else if (case md_Value md of None \<Rightarrow> False | Some v \<Rightarrow> length v > 64) then Some ValueTooLong
      else None)"

definition ManageData_BuildXDR :: "ManageData \<Rightarrow> (build_error, 'b Operation) result" where
  "ManageData_BuildXDR md =
     bind_result (SetOpSourceAccount (md_SourceAccount md)) (\<lambda>source.
       Inr \<lparr>op_SourceAccount = source, op_Body = ManageDataBody (md_Name md) (md_Value md)\<rparr>)"

definition ManageData_FromXDR :: "'b Operation \<Rightarrow> (build_error, ManageData) result" where
  "ManageData_FromXDR xdrOp =
     (case op_Body xdrOp of
        OtherBody _ \<Rightarrow> Inl NotManageData
      | ManageDataBody name value \<Rightarrow>
          (case accountFromXDR (op_SourceAccount xdrOp) of
             None \<Rightarrow> Inl ParsePanic
           | Some source \<Rightarrow> Inr \<lparr>md_Name = name, md_Value = value, md_SourceAccount = source\<rparr>))"

definition op_Validate :: "('o, 'b) op_methods \<Rightarrow> 'o build_op \<Rightarrow> build_error option" where
  "op_Validate M p = (case p of OpManageData md \<Rightarrow> ManageData_Validate md | OpOther x \<Rightarrow> om_Validate M x)"

definition op_BuildXDR :: "('o, 'b) op_methods \<Rightarrow> 'o build_op \<Rightarrow> (build_error, 'b Operation) result" where
  "op_BuildXDR M p = (case p of OpManageData md \<Rightarrow> ManageData_BuildXDR md | OpOther x \<Rightarrow> om_BuildXDR M x)"

definition op_Ext :: "('o, 'b) op_methods \<Rightarrow> 'o build_op \<Rightarrow> (build_error, TransactionExt) result option" where
  "op_Ext M p = (case p of OpManageData md \<Rightarrow> None | OpOther x \<Rightarrow> om_BuildTransactionExt M x)"

definition operationFromXDR :: "('o, 'b) op_methods \<Rightarrow> 'b Operation \<Rightarrow> (build_error, 'o build_op) result" where
  "operationFromXDR M xdrOp =
     (case op_Body xdrOp of
        ManageDataBody _ _ \<Rightarrow> bind_result (ManageData_FromXDR xdrOp) (\<lambda>md. Inr (OpManageData md))
      | OtherBody _ \<Rightarrow> bind_result (om_FromXDR M xdrOp) (\<lambda>x. Inr (OpOther x)))"

subsection \<open>Accounts and transactions\<close>

record SimpleAccount =
  AccountID :: string
  Sequence :: int

definition NewSimpleAccount :: "string \<Rightarrow> int \<Rightarrow> SimpleAccount" where
  "NewSimpleAccount accountID sq = \<lparr>AccountID = accountID, Sequence = sq\<rparr>"

definition IncrementSequenceNumber :: "SimpleAccount \<Rightarrow> SimpleAccount" where
  "IncrementSequenceNumber sa = sa\<lparr>Sequence := wrap_int64 (Sequence sa + 1)\<rparr>"

record ('o, 'b) build_Transaction =
  envelope :: "'b Operation TransactionEnvelope"
  baseFee :: int
  maxFee :: int
  sourceAccount :: SimpleAccount
  bt_operations :: "'o build_op list"
  bt_memo :: "build_Memo option"
  bt_preconditions :: build_Preconditions

record 'o TransactionParams =
  tp_SourceAccount :: "SimpleAccount option"
  IncrementSequenceNum :: bool
  tp_Operations :: "'o build_op list"
  tp_BaseFee :: int
  tp_Memo :: "build_Memo option"
  tp_Preconditions :: build_Preconditions

text \<open>The loop over the operations: their XDR forms and the extension of the last Soroban operation.\<close>

fun build_operations :: "('o, 'b) op_methods \<Rightarrow> 'o build_op list \<Rightarrow> (build_error, TransactionExt) result option \<Rightarrow>
    (build_error, 'b Operation list \<times> (build_error, TransactionExt) result option) result" where
  "build_operations M [] soroban = Inr ([], soroban)"
| "build_operations M (p # ps) soroban =
     (case op_Validate M p of
        Some e \<Rightarrow> Inl e
      | None \<Rightarrow>
          bind_result (op_BuildXDR M p) (\<lambda>x.
          bind_result (build_operations M ps (case op_Ext M p of None \<Rightarrow> soroban | Some e \<Rightarrow> Some e)) (\<lambda>(xs, ext).
            Inr (x # xs, ext))))"

definition soroban_fee :: "TransactionExt \<Rightarrow> int" where
  "soroban_fee ext = (case ext of TransactionExtSoroban d \<Rightarrow> wrap_uint64 (ResourceFee d) | _ \<Rightarrow> 0)"

text \<open>\<^verbatim>\<open>bits.Mul64\<close>, the two overflow checks and the sum, for a limit of \<^verbatim>\<open>MaxUint32\<close> or \<^verbatim>\<open>MaxInt64\<close>.\<close>

definition total_fee :: "int \<Rightarrow> int \<Rightarrow> nat \<Rightarrow> int \<Rightarrow> (build_error, int) result" where
  "total_fee limit base n sorobanFee =
     (let product = wrap_uint64 base * int n; hi = product div 18446744073709551616; lo = product mod 18446744073709551616 in
      if hi > 0 \<or> lo > limit then Inl FeeOverflow
      else let totalFee = wrap_uint64 (lo + sorobanFee) in
           if totalFee < lo \<or> totalFee > limit then Inl SorobanFeeOverflow else Inr totalFee)"

definition MaxUint32 :: int where
  "MaxUint32 = 4294967295"

definition memo_xdr :: "build_Memo option \<Rightarrow> (build_error, Memo) result" where
  "memo_xdr m = (case m of None \<Rightarrow> Inr MemoNone | Some b \<Rightarrow> Memo_ToXDR b)"

text \<open>\<^verbatim>\<open>NewTransaction\<close> from the point where the sequence number is known.\<close>

definition build_transaction :: "('o, 'b) op_methods \<Rightarrow> 'o TransactionParams \<Rightarrow> SimpleAccount \<Rightarrow> (build_error, ('o, 'b) build_Transaction) result" where
  "build_transaction M params sa =
     (case muxed_SetAddress (AccountID sa) of
        Inl e \<Rightarrow> Inl (InvalidAccountId e)
      | Inr source \<Rightarrow>
          if tp_BaseFee params < 0 then Inl NegativeBaseFee
          else if tp_Operations params = [] then Inl NoOperations
          else case Preconditions_Validate (tp_Preconditions params) of
            Some e \<Rightarrow> Inl e
          | None \<Rightarrow>
              bind_result (Preconditions_BuildXDR (tp_Preconditions params)) (\<lambda>cond.
              bind_result (memo_xdr (tp_Memo params)) (\<lambda>memo.
              bind_result (build_operations M (tp_Operations params) None) (\<lambda>(ops, soroban).
              bind_result (case soroban of None \<Rightarrow> Inr TransactionExtV0 | Some r \<Rightarrow> r) (\<lambda>ext.
              bind_result (total_fee MaxUint32 (tp_BaseFee params) (length (tp_Operations params)) (soroban_fee ext)) (\<lambda>fee.
                Inr \<lparr>envelope = EnvelopeV1 \<lparr>v1_Tx = \<lparr>tx_SourceAccount = source, tx_Fee = word_of_int fee, tx_SeqNum = Sequence sa,
                         tx_Cond = cond, tx_Memo = memo, tx_Operations = ops, tx_Ext = ext\<rparr>, v1_Signatures = []\<rparr>,
                     baseFee = tp_BaseFee params, maxFee = fee, sourceAccount = sa, bt_operations = tp_Operations params,
                     bt_memo = tp_Memo params, bt_preconditions = tp_Preconditions params\<rparr>))))))"

text \<open>The account of the caller is incremented even when building fails.\<close>

definition NewTransaction ::
    "('o, 'b) op_methods \<Rightarrow> 'o TransactionParams \<Rightarrow> (build_error, ('o, 'b) build_Transaction) result \<times> SimpleAccount option" where
  "NewTransaction M params =
     (case tp_SourceAccount params of
        None \<Rightarrow> (Inl NoSourceAccount, None)
      | Some sa \<Rightarrow>
          (let sa = (if IncrementSequenceNum params then IncrementSequenceNumber sa else sa)
           in (build_transaction M params sa, Some sa)))"

subsection \<open>Reading envelopes\<close>

record ('o, 'b) build_FeeBump =
  fbt_feeSource :: xdr_MuxedAccount
  fbt_inner_V1 :: "'b Operation TransactionV1Envelope option"
  fbt_signatures :: "DecoratedSignature list"
  fbt_baseFee :: int
  fbt_maxFee :: int
  fbt_feeAccount :: string
  fbt_inner :: "('o, 'b) build_Transaction"

text \<open>The first three fields are the envelope; its pointer to the inner transaction may be nil.\<close>

datatype ('o, 'b) GenericTransaction = GenericSimple "('o, 'b) build_Transaction" | GenericFeeBump "('o, 'b) build_FeeBump"

text \<open>Division of int64, which truncates.\<close>

definition go_div :: "int \<Rightarrow> int \<Rightarrow> int" where
  "go_div a b = (if a < 0 then - ((- a) div b) else a div b)"

fun read_operations :: "('o, 'b) op_methods \<Rightarrow> (('o build_op) \<Rightarrow> ('o build_op)) \<Rightarrow> 'b Operation list \<Rightarrow> (build_error, 'o build_op list) result" where
  "read_operations M setExt [] = Inr []"
| "read_operations M setExt (x # xs) =
     bind_result (operationFromXDR M x) (\<lambda>p. bind_result (read_operations M setExt xs) (\<lambda>ps. Inr (setExt p # ps)))"

definition set_op_ext :: "('o, 'b) op_methods \<Rightarrow> 'b Operation TransactionEnvelope \<Rightarrow> 'o build_op \<Rightarrow> 'o build_op" where
  "set_op_ext M e p =
     (case e of
        EnvelopeV1 v \<Rightarrow> if tx_Ext (v1_Tx v) \<noteq> TransactionExtV0
          then (case p of OpOther x \<Rightarrow> OpOther (om_setExt M (tx_Ext (v1_Tx v)) x) | OpManageData md \<Rightarrow> p) else p
      | _ \<Rightarrow> p)"

definition simpleFromXDR :: "('o, 'b) op_methods \<Rightarrow> 'b Operation TransactionEnvelope \<Rightarrow> (build_error, ('o, 'b) build_Transaction) result" where
  "simpleFromXDR M e =
     (case (SourceAccount e, Fee e, Operations e, SeqNum e, Envelope_Preconditions e, Envelope_Memo e) of
        (Some source, Some fee, Some ops, Some sq, Some cond, Some memo) \<Rightarrow>
          (case muxed_GetAddress source of
             Inl _ \<Rightarrow> Inl ParsePanic
           | Inr accountID \<Rightarrow>
               bind_result (memoFromXDR memo) (\<lambda>m.
               bind_result (read_operations M (set_op_ext M e) ops) (\<lambda>ps.
                 Inr \<lparr>envelope = e, baseFee = (if ops = [] then uint fee else uint fee div int (length ops)), maxFee = uint fee,
                      sourceAccount = \<lparr>AccountID = accountID, Sequence = sq\<rparr>, bt_operations = ps, bt_memo = m,
                      bt_preconditions = fst (Preconditions_FromXDR cond)\<rparr>)))
      | _ \<Rightarrow> Inl ParsePanic)"

definition transactionFromParsedXDR ::
    "('o, 'b) op_methods \<Rightarrow> 'b Operation TransactionEnvelope \<Rightarrow> (build_error, ('o, 'b) GenericTransaction) result" where
  "transactionFromParsedXDR M e =
     (case e of
        EnvelopeFeeBump f \<Rightarrow>
          (case simpleFromXDR M (EnvelopeV1 (InnerTx (fb_Tx f))) of
             Inl err \<Rightarrow> Inl (if err = ParsePanic then ParsePanic else InnerParseError)
           | Inr inner \<Rightarrow>
               (case muxed_GetAddress (FeeSource (fb_Tx f)) of
                  Inl _ \<Rightarrow> Inl ParsePanic
                | Inr feeAccount \<Rightarrow>
                    Inr (GenericFeeBump \<lparr>fbt_feeSource = FeeSource (fb_Tx f), fbt_inner_V1 = Some (InnerTx (fb_Tx f)), fbt_signatures = fb_Signatures f,
                      fbt_baseFee = go_div (fb_Fee (fb_Tx f)) (int (length (bt_operations inner)) + 1), fbt_maxFee = fb_Fee (fb_Tx f),
                      fbt_feeAccount = feeAccount, fbt_inner = inner\<rparr>)))
      | _ \<Rightarrow> bind_result (simpleFromXDR M e) (\<lambda>tx. Inr (GenericSimple tx)))"

subsection \<open>Fee bumps\<close>

definition MinBaseFee :: int where
  "MinBaseFee = 100"

definition convertToV1 :: "('o, 'b) op_methods \<Rightarrow> ('o, 'b) build_Transaction \<Rightarrow> (build_error, ('o, 'b) build_Transaction) result" where
  "convertToV1 M tx =
     bind_result (fst (NewTransaction M \<lparr>tp_SourceAccount = Some (sourceAccount tx), IncrementSequenceNum = False, tp_Operations = bt_operations tx,
         tp_BaseFee = baseFee tx, tp_Memo = bt_memo tx, tp_Preconditions = time_preconditions (bp_TimeBounds (bt_preconditions tx))\<rparr>)) (\<lambda>tx'.
       case (envelope tx', Signatures (envelope tx)) of
         (EnvelopeV1 v, Some sigs) \<Rightarrow> Inr (tx'\<lparr>envelope := EnvelopeV1 (v\<lparr>v1_Signatures := sigs\<rparr>)\<rparr>)
       | _ \<Rightarrow> Inl ParsePanic)"

record ('o, 'b) FeeBumpTransactionParams =
  fp_Inner :: "('o, 'b) build_Transaction option"
  fp_FeeAccount :: string
  fp_BaseFee :: int

fun envelope_V1 :: "'b TransactionEnvelope \<Rightarrow> 'b TransactionV1Envelope option" where
  "envelope_V1 (EnvelopeV1 v) = Some v"
| "envelope_V1 _ = None"

fun envelope_is_simple :: "'b TransactionEnvelope \<Rightarrow> bool" where
  "envelope_is_simple (EnvelopeV1 _) = True"
| "envelope_is_simple (EnvelopeV0 _) = True"
| "envelope_is_simple _ = False"

text \<open>\<open>innerEnv\<close> is the envelope of the transaction that was passed in, not of the upgraded one.\<close>

definition NewFeeBumpTransaction ::
    "('o, 'b) op_methods \<Rightarrow> ('o, 'b) FeeBumpTransactionParams \<Rightarrow> (build_error, ('o, 'b) build_FeeBump) result" where
  "NewFeeBumpTransaction M params =
     (case fp_Inner params of
        None \<Rightarrow> Inl NoInner
      | Some inner \<Rightarrow>
          if \<not> envelope_is_simple (envelope inner) then Inl NotBumpable
          else let innerEnv = envelope inner in
          bind_result (case innerEnv of EnvelopeV0 _ \<Rightarrow> (case convertToV1 M inner of Inl e \<Rightarrow> Inl (UpgradeError e) | Inr tx \<Rightarrow> Inr tx) | _ \<Rightarrow> Inr inner) (\<lambda>inner.
          if fp_BaseFee params < baseFee inner then Inl BaseFeeBelowInner
          else if fp_BaseFee params < MinBaseFee then Inl BaseFeeBelowMinimum
          else bind_result (total_fee MaxInt64 (fp_BaseFee params) (length (bt_operations inner) + 1)
                 (case envelope_V1 (envelope inner) of None \<Rightarrow> 0 | Some v \<Rightarrow> soroban_fee (tx_Ext (v1_Tx v)))) (\<lambda>fee.
               case muxed_SetAddress (fp_FeeAccount params) of
                 Inl e \<Rightarrow> Inl (InvalidFeeAccount e)
               | Inr feeSource \<Rightarrow>
                   Inr \<lparr>fbt_feeSource = feeSource, fbt_inner_V1 = envelope_V1 innerEnv, fbt_signatures = [], fbt_baseFee = fp_BaseFee params,
                        fbt_maxFee = fee, fbt_feeAccount = fp_FeeAccount params, fbt_inner = inner\<rparr>)))"

text \<open>The envelope of a fee bump; \<open>None\<close> when its pointer to the inner transaction is nil, which the encoder dereferences.\<close>

definition fee_bump_envelope :: "('o, 'b) build_FeeBump \<Rightarrow> 'b Operation TransactionEnvelope option" where
  "fee_bump_envelope fb =
     map_option (\<lambda>v. EnvelopeFeeBump \<lparr>fb_Tx = \<lparr>FeeSource = fbt_feeSource fb, fb_Fee = fbt_maxFee fb, InnerTx = v\<rparr>, fb_Signatures = fbt_signatures fb\<rparr>)
       (fbt_inner_V1 fb)"

subsection \<open>Signing\<close>

fun set_signatures :: "DecoratedSignature list \<Rightarrow> 'b TransactionEnvelope \<Rightarrow> 'b TransactionEnvelope option" where
  "set_signatures sigs (EnvelopeV1 v) = Some (EnvelopeV1 (v\<lparr>v1_Signatures := sigs\<rparr>))"
| "set_signatures sigs (EnvelopeV0 v) = Some (EnvelopeV0 (v\<lparr>v0_Signatures := sigs\<rparr>))"
| "set_signatures sigs _ = None"

text \<open>\<^verbatim>\<open>clone\<close> panics on other envelopes.\<close>

definition clone :: "('o, 'b) build_Transaction \<Rightarrow> DecoratedSignature list \<Rightarrow> (build_error, ('o, 'b) build_Transaction) result" where
  "clone t sigs = (case set_signatures sigs (envelope t) of None \<Rightarrow> Inl ParsePanic | Some e \<Rightarrow> Inr (t\<lparr>envelope := e\<rparr>))"

definition tx_Signatures :: "('o, 'b) build_Transaction \<Rightarrow> DecoratedSignature list" where
  "tx_Signatures t = (case Signatures (envelope t) of None \<Rightarrow> [] | Some s \<Rightarrow> s)"

fun sign_all :: "ed25519 \<Rightarrow> bytes \<Rightarrow> Full list \<Rightarrow> (build_error, DecoratedSignature list) result" where
  "sign_all E h [] = Inr []"
| "sign_all E h (kp # kps) =
     (case SignDecorated E kp h of
        Inl e \<Rightarrow> Inl (SignKeyError e)
      | Inr sig \<Rightarrow> bind_result (sign_all E h kps) (\<lambda>sigs. Inr (sig # sigs)))"

type_synonym 'b hasher = "'b Operation TransactionEnvelope \<Rightarrow> string \<Rightarrow> (hash_error, bytes) result"

definition concatSignatures ::
    "ed25519 \<Rightarrow> 'b hasher \<Rightarrow> 'b Operation TransactionEnvelope \<Rightarrow> string \<Rightarrow> DecoratedSignature list \<Rightarrow> Full list \<Rightarrow> (build_error, DecoratedSignature list) result" where
  "concatSignatures E hash e net sigs kps =
     (case hash e net of
        Inl err \<Rightarrow> Inl (SignHashError err)
      | Inr h \<Rightarrow> bind_result (sign_all E h kps) (\<lambda>more. Inr (sigs @ more)))"

definition tx_Sign :: "ed25519 \<Rightarrow> 'b hasher \<Rightarrow> ('o, 'b) build_Transaction \<Rightarrow> string \<Rightarrow> Full list \<Rightarrow> (build_error, ('o, 'b) build_Transaction) result" where
  "tx_Sign E hash t net kps = bind_result (concatSignatures E hash (envelope t) net (tx_Signatures t) kps) (clone t)"

fun stringsToKP :: "ed25519 \<Rightarrow> string list \<Rightarrow> (build_error, Full list) result" where
  "stringsToKP E [] = Inr []"
| "stringsToKP E (k # ks) =
     (case keypair_Parse E k of
        Inl e \<Rightarrow> Inl (SignKeyError e)
      | Inr (KPAddress _) \<Rightarrow> Inl NotSecretKey
      | Inr (KPFull kp) \<Rightarrow> bind_result (stringsToKP E ks) (\<lambda>kps. Inr (kp # kps)))"

definition SignWithKeyString ::
    "ed25519 \<Rightarrow> 'b hasher \<Rightarrow> ('o, 'b) build_Transaction \<Rightarrow> string \<Rightarrow> string list \<Rightarrow> (build_error, ('o, 'b) build_Transaction) result" where
  "SignWithKeyString E hash t net keys = bind_result (stringsToKP E keys) (tx_Sign E hash t net)"

definition concatHashX :: "(bytes \<Rightarrow> bytes) \<Rightarrow> DecoratedSignature list \<Rightarrow> bytes \<Rightarrow> (build_error, DecoratedSignature list) result" where
  "concatHashX sha256 sigs preimage =
     (if length preimage > 64 then Inl PreimageTooLong
      else Inr (sigs @ [\<lparr>Hint = drop 28 (sha256 preimage), Signature = preimage\<rparr>]))"

definition SignHashX :: "(bytes \<Rightarrow> bytes) \<Rightarrow> ('o, 'b) build_Transaction \<Rightarrow> bytes \<Rightarrow> (build_error, ('o, 'b) build_Transaction) result" where
  "SignHashX sha256 t preimage = bind_result (concatHashX sha256 (tx_Signatures t) preimage) (clone t)"

definition ClearSignatures :: "('o, 'b) build_Transaction \<Rightarrow> (build_error, ('o, 'b) build_Transaction) result" where
  "ClearSignatures t = clone t []"

definition AddSignatureDecorated :: "('o, 'b) build_Transaction \<Rightarrow> DecoratedSignature list \<Rightarrow> (build_error, ('o, 'b) build_Transaction) result" where
  "AddSignatureDecorated t sigs = clone t (tx_Signatures t @ sigs)"

definition concatSignatureBase64 ::
    "ed25519 \<Rightarrow> 'b hasher \<Rightarrow> 'b Operation TransactionEnvelope \<Rightarrow> DecoratedSignature list \<Rightarrow> string \<Rightarrow> string \<Rightarrow> string \<Rightarrow> (build_error, DecoratedSignature list) result" where
  "concatSignatureBase64 E hash e sigs net publicKey signature =
     (if signature = [] then Inl NoSignature
      else case ParseAddress publicKey of
        Inl err \<Rightarrow> Inl (SignKeyError err)
      | Inr kp \<Rightarrow>
          (case base64_DecodeString signature of
             None \<Rightarrow> Inl Base64Error
           | Some sigBytes \<Rightarrow>
               (case hash e net of
                  Inl err \<Rightarrow> Inl (SignHashError err)
                | Inr h \<Rightarrow>
                    (case kp_Verify E (fa_publicKey kp) h sigBytes of
                       Some err \<Rightarrow> Inl (SignKeyError err)
                     | None \<Rightarrow> Inr (sigs @ [\<lparr>Hint = key_hint (fa_publicKey kp), Signature = sigBytes\<rparr>])))))"

definition AddSignatureBase64 ::
    "ed25519 \<Rightarrow> 'b hasher \<Rightarrow> ('o, 'b) build_Transaction \<Rightarrow> string \<Rightarrow> string \<Rightarrow> string \<Rightarrow> (build_error, ('o, 'b) build_Transaction) result" where
  "AddSignatureBase64 E hash t net publicKey signature =
     bind_result (concatSignatureBase64 E hash (envelope t) (tx_Signatures t) net publicKey signature) (clone t)"

text \<open>
  The same operations on fee bumps, whose own signatures are kept apart from those of the inner transaction. \<open>NilInner\<close> stands for a call that
  cannot succeed because the hash needs the inner transaction: the nil pointer is dereferenced, unless another argument is refused before.
\<close>

definition fb_sign_with ::
    "('o, 'b) build_FeeBump \<Rightarrow> ('b Operation TransactionEnvelope \<Rightarrow> DecoratedSignature list \<Rightarrow> (build_error, DecoratedSignature list) result) \<Rightarrow>
     (build_error, ('o, 'b) build_FeeBump) result" where
  "fb_sign_with t extended =
     (case fee_bump_envelope t of
        None \<Rightarrow> Inl NilInner
      | Some e \<Rightarrow> bind_result (extended e (fbt_signatures t)) (\<lambda>sigs. Inr (t\<lparr>fbt_signatures := sigs\<rparr>)))"

definition fb_Sign :: "ed25519 \<Rightarrow> 'b hasher \<Rightarrow> ('o, 'b) build_FeeBump \<Rightarrow> string \<Rightarrow> Full list \<Rightarrow> (build_error, ('o, 'b) build_FeeBump) result" where
  "fb_Sign E hash t net kps = fb_sign_with t (\<lambda>e sigs. concatSignatures E hash e net sigs kps)"

definition fb_SignWithKeyString ::
    "ed25519 \<Rightarrow> 'b hasher \<Rightarrow> ('o, 'b) build_FeeBump \<Rightarrow> string \<Rightarrow> string list \<Rightarrow> (build_error, ('o, 'b) build_FeeBump) result" where
  "fb_SignWithKeyString E hash t net keys = bind_result (stringsToKP E keys) (fb_Sign E hash t net)"

definition fb_SignHashX :: "(bytes \<Rightarrow> bytes) \<Rightarrow> ('o, 'b) build_FeeBump \<Rightarrow> bytes \<Rightarrow> (build_error, ('o, 'b) build_FeeBump) result" where
  "fb_SignHashX sha256 t preimage = bind_result (concatHashX sha256 (fbt_signatures t) preimage) (\<lambda>extended. Inr (t\<lparr>fbt_signatures := extended\<rparr>))"

definition fb_ClearSignatures :: "('o, 'b) build_FeeBump \<Rightarrow> ('o, 'b) build_FeeBump" where
  "fb_ClearSignatures t = t\<lparr>fbt_signatures := []\<rparr>"

definition fb_AddSignatureDecorated :: "('o, 'b) build_FeeBump \<Rightarrow> DecoratedSignature list \<Rightarrow> ('o, 'b) build_FeeBump" where
  "fb_AddSignatureDecorated t sigs = t\<lparr>fbt_signatures := fbt_signatures t @ sigs\<rparr>"

definition fb_AddSignatureBase64 ::
    "ed25519 \<Rightarrow> 'b hasher \<Rightarrow> ('o, 'b) build_FeeBump \<Rightarrow> string \<Rightarrow> string \<Rightarrow> string \<Rightarrow> (build_error, ('o, 'b) build_FeeBump) result" where
  "fb_AddSignatureBase64 E hash t net publicKey signature = fb_sign_with t (\<lambda>e sigs. concatSignatureBase64 E hash e sigs net publicKey signature)"

definition Generic_Hash :: "'b hasher \<Rightarrow> ('o, 'b) GenericTransaction \<Rightarrow> string \<Rightarrow> (build_error, bytes) result" where
  "Generic_Hash hash t net =
     (case (case t of GenericSimple tx \<Rightarrow> Some (envelope tx) | GenericFeeBump fb \<Rightarrow> fee_bump_envelope fb) of
        None \<Rightarrow> Inl NilInner
      | Some e \<Rightarrow> (case hash e net of Inl err \<Rightarrow> Inl (SignHashError err) | Inr h \<Rightarrow> Inr h))"

section \<open>Addresses and preconditions\<close>

lemma muxed_SetAddress_GetAddress: "muxed_SetAddress s = Inr m \<Longrightarrow> muxed_GetAddress m = Inr s"
  by (auto simp: muxed_SetAddress_Inr addresses_encode_payloads strkey_Decode_iff)

lemma signer_SetAddress_GetAddress: "signer_SetAddress s = Inr k \<Longrightarrow> signer_GetAddress k = Inr s"
  by (auto simp: signer_SetAddress_Inr addresses_encode_payloads strkey_Decode_iff)

lemma signer_keys_addresses: "signer_keys ss = Inr ks \<Longrightarrow> signer_addresses ks = (ss, True)"
  by (induction ss arbitrary: ks) (auto simp: bind_result_eq_Inr signer_SetAddress_GetAddress split: sum.splits)

lemma sint_int64: "in_int64 t \<Longrightarrow> sint (word_of_int t :: 64 word) = t"
  by (simp add: in_int64_def signed_of_int signed_take_bit_int_eq_self)

text \<open>Reading the XDR form of valid preconditions gives them back; bounds that always hold are left out.\<close>

definition canonical_preconditions :: "build_Preconditions \<Rightarrow> build_Preconditions" where
  "canonical_preconditions cond = cond\<lparr>bp_LedgerBounds := xdr_ledger_bounds (bp_LedgerBounds cond)\<rparr>"

lemma preconditions_roundtrip:
  assumes "Preconditions_BuildXDR cond = Inr x" "Preconditions_Validate cond = None"
    and "in_int64 (tb_MinTime (bp_TimeBounds cond))" "in_int64 (tb_MaxTime (bp_TimeBounds cond))"
  shows "Preconditions_FromXDR x = (canonical_preconditions cond, True)"
proof -
  have built: "wasBuilt (bp_TimeBounds cond)"
    using assms(2) by (auto simp: Preconditions_Validate_def TimeBounds_Validate_def split: if_splits option.splits)
  have tb: "built_timebounds \<lparr>MinTime = word_of_int (tb_MinTime (bp_TimeBounds cond)), MaxTime = word_of_int (tb_MaxTime (bp_TimeBounds cond))\<rparr> = bp_TimeBounds cond"
    using assms(3,4) built by (simp add: built_timebounds_def NewTimebounds_def sint_int64)
  show ?thesis
  proof (cases "hasV2Conditions cond")
    case True
    then show ?thesis using assms(1) tb
      by (auto simp: Preconditions_BuildXDR_def Preconditions_FromXDR_def bind_result_eq_Inr Let_def canonical_preconditions_def dest!: signer_keys_addresses)
  next
    case False
    then show ?thesis using assms(1) tb
      by (auto simp: Preconditions_BuildXDR_def Preconditions_FromXDR_def Let_def canonical_preconditions_def hasV2Conditions_def
          time_preconditions_def xdr_ledger_bounds_def word_gt_0 intro!: build_Preconditions.equality)
  qed
qed

section \<open>Fees\<close>

lemma total_fee_Inr:
  assumes "0 \<le> base" "in_int64 base" "0 \<le> sf" "sf < 18446744073709551616" "limit < 18446744073709551616"
  shows "total_fee limit base n sf = Inr fee \<longleftrightarrow> fee = base * int n + sf \<and> fee \<le> limit"
proof -
  let ?p = "base * int n"
  have b: "wrap_uint64 base = base" using assms(1,2) by (simp add: wrap_uint64_def in_int64_def)
  have p: "0 \<le> ?p" using assms(1) by simp
  show ?thesis
  proof (cases "?p < 18446744073709551616")
    case True
    then have small: "?p div 18446744073709551616 = 0" "?p mod 18446744073709551616 = ?p" using p by simp_all
    have w: "wrap_uint64 (?p + sf) = (if ?p + sf < 18446744073709551616 then ?p + sf else ?p + sf - 18446744073709551616)"
      using True assms(3,4) p minus_mod_self2 [of "?p + sf" 18446744073709551616] mod_pos_pos_trivial [of "?p + sf - 18446744073709551616" 18446744073709551616]
      by (auto simp: wrap_uint64_def mod_pos_pos_trivial)
    then show ?thesis using True assms p by (auto simp: total_fee_def b small Let_def)
  next
    case False
    then have "?p div 18446744073709551616 > 0" by (simp add: pos_imp_zdiv_pos_iff)
    then show ?thesis using False assms by (auto simp: total_fee_def b Let_def)
  qed
qed

lemma soroban_fee_range: "0 \<le> soroban_fee ext" "soroban_fee ext < 18446744073709551616"
  by (cases ext; simp add: soroban_fee_def wrap_uint64_def)+

section \<open>Building and reading\<close>

text \<open>
  Other operations whose strings are canonical: what they build is read back.
\<close>

definition reads_back :: "('o, 'b) op_methods \<Rightarrow> 'o \<Rightarrow> bool" where
  "reads_back M x \<longleftrightarrow> om_BuildTransactionExt M x = None \<and>
     (\<forall>y. om_BuildXDR M x = Inr y \<longrightarrow> (\<exists>b. op_Body y = OtherBody b) \<and> om_FromXDR M y = Inr x)"

lemma ManageData_roundtrip: "ManageData_BuildXDR md = Inr x \<Longrightarrow> ManageData_FromXDR x = Inr md \<and> op_Body x = ManageDataBody (md_Name md) (md_Value md)"
  by (auto simp: ManageData_BuildXDR_def ManageData_FromXDR_def bind_result_eq_Inr SetOpSourceAccount_def accountFromXDR_def muxed_SetAddress_GetAddress
      split: if_splits sum.splits)

lemma op_roundtrip:
  "op_BuildXDR M p = Inr x \<Longrightarrow> (\<And>y. p = OpOther y \<Longrightarrow> reads_back M y) \<Longrightarrow> operationFromXDR M x = Inr p"
  by (cases p) (auto simp: op_BuildXDR_def operationFromXDR_def reads_back_def dest!: ManageData_roundtrip)

lemma build_operations_roundtrip:
  assumes "build_operations M ps None = Inr (xs, ext)" "\<And>y. OpOther y \<in> set ps \<Longrightarrow> reads_back M y"
  shows "read_operations M (\<lambda>p. p) xs = Inr ps \<and> ext = None \<and> length xs = length ps"
  using assms
proof (induction ps arbitrary: xs)
  case (Cons p ps)
  have none: "op_Ext M p = None" using Cons.prems(2) by (cases p) (auto simp: op_Ext_def reads_back_def)
  then obtain x xs' where "op_BuildXDR M p = Inr x" "build_operations M ps None = Inr (xs', ext)" "xs = x # xs'"
    using Cons.prems(1) by (auto simp: bind_result_eq_Inr split: option.splits)
  then show ?case using Cons.IH [of xs'] Cons.prems(2) op_roundtrip [of M p x] by auto
qed simp

lemma memo_roundtrip: "memo_xdr m = Inr x \<Longrightarrow> memoFromXDR x = Inr m"
proof (cases m)
  case (Some b)
  then show "memo_xdr m = Inr x \<Longrightarrow> memoFromXDR x = Inr m" by (cases b) (auto simp: memo_xdr_def split: if_splits)
qed (auto simp: memo_xdr_def)

text \<open>What a successful build says about its parts.\<close>

lemma build_transaction_parts:
  assumes "build_transaction M params sa = Inr tx"
  obtains source cond memo ops soroban ext where
    "muxed_SetAddress (AccountID sa) = Inr source" "0 \<le> tp_BaseFee params" "tp_Operations params \<noteq> []"
    "Preconditions_Validate (tp_Preconditions params) = None" "Preconditions_BuildXDR (tp_Preconditions params) = Inr cond"
    "memo_xdr (tp_Memo params) = Inr memo" "build_operations M (tp_Operations params) None = Inr (ops, soroban)"
    "(case soroban of None \<Rightarrow> Inr TransactionExtV0 | Some r \<Rightarrow> r) = Inr ext"
    "total_fee MaxUint32 (tp_BaseFee params) (length (tp_Operations params)) (soroban_fee ext) = Inr (maxFee tx)"
    "tx = \<lparr>envelope = EnvelopeV1 \<lparr>v1_Tx = \<lparr>tx_SourceAccount = source, tx_Fee = word_of_int (maxFee tx), tx_SeqNum = Sequence sa,
        tx_Cond = cond, tx_Memo = memo, tx_Operations = ops, tx_Ext = ext\<rparr>, v1_Signatures = []\<rparr>,
      baseFee = tp_BaseFee params, maxFee = maxFee tx, sourceAccount = sa, bt_operations = tp_Operations params,
      bt_memo = tp_Memo params, bt_preconditions = tp_Preconditions params\<rparr>"
  using assms unfolding build_transaction_def by (auto simp: bind_result_eq_Inr split: sum.splits if_splits option.splits)

lemma MaxUint32_small: "MaxUint32 < 18446744073709551616" "MaxInt64 < 18446744073709551616"
  by (simp_all add: MaxUint32_def MaxInt64_def)

lemma uint_fee: "0 \<le> fee \<Longrightarrow> fee \<le> MaxUint32 \<Longrightarrow> uint (word_of_int fee :: 32 word) = fee"
  by (simp add: MaxUint32_def uint_word_of_int)

lemma built_envelope_parses:
  assumes "build_transaction M params sa = Inr tx" and "in_int64 (tp_BaseFee params)"
    and "in_int64 (tb_MinTime (bp_TimeBounds (tp_Preconditions params)))" "in_int64 (tb_MaxTime (bp_TimeBounds (tp_Preconditions params)))"
    and "\<And>y. OpOther y \<in> set (tp_Operations params) \<Longrightarrow> reads_back M y"
  shows "\<exists>v. envelope tx = EnvelopeV1 v \<and> v1_Signatures v = [] \<and>
    simpleFromXDR M (EnvelopeV1 (v\<lparr>v1_Signatures := sigs\<rparr>)) =
      Inr (tx\<lparr>envelope := EnvelopeV1 (v\<lparr>v1_Signatures := sigs\<rparr>), bt_preconditions := canonical_preconditions (tp_Preconditions params)\<rparr>)"
    "maxFee tx = tp_BaseFee params * int (length (tp_Operations params))" "maxFee tx \<le> MaxUint32"
proof -
  obtain source cond memo ops soroban ext where b:
    "muxed_SetAddress (AccountID sa) = Inr source" "0 \<le> tp_BaseFee params" "tp_Operations params \<noteq> []"
    "Preconditions_Validate (tp_Preconditions params) = None" "Preconditions_BuildXDR (tp_Preconditions params) = Inr cond"
    "memo_xdr (tp_Memo params) = Inr memo" "build_operations M (tp_Operations params) None = Inr (ops, soroban)"
    "(case soroban of None \<Rightarrow> Inr TransactionExtV0 | Some r \<Rightarrow> r) = Inr ext"
    "total_fee MaxUint32 (tp_BaseFee params) (length (tp_Operations params)) (soroban_fee ext) = Inr (maxFee tx)"
    and tx: "tx = \<lparr>envelope = EnvelopeV1 \<lparr>v1_Tx = \<lparr>tx_SourceAccount = source, tx_Fee = word_of_int (maxFee tx), tx_SeqNum = Sequence sa,
        tx_Cond = cond, tx_Memo = memo, tx_Operations = ops, tx_Ext = ext\<rparr>, v1_Signatures = []\<rparr>,
      baseFee = tp_BaseFee params, maxFee = maxFee tx, sourceAccount = sa, bt_operations = tp_Operations params,
      bt_memo = tp_Memo params, bt_preconditions = tp_Preconditions params\<rparr>"
    using build_transaction_parts [OF assms(1)] .
  let ?n = "int (length (tp_Operations params))"
  note ops = build_operations_roundtrip [OF b(7) assms(5)]
  have ext: "ext = TransactionExtV0" using b(8) ops by simp
  show fee: "maxFee tx = tp_BaseFee params * ?n" and le: "maxFee tx \<le> MaxUint32"
    using total_fee_Inr [OF b(2) assms(2), of 0 MaxUint32 "length (tp_Operations params)" "maxFee tx"] b(9) MaxUint32_small(1)
    by (auto simp: ext soroban_fee_def)
  have u: "uint (word_of_int (maxFee tx) :: 32 word) = maxFee tx" using fee le b(2) by (intro uint_fee) simp_all
  have n: "ops \<noteq> []" "length ops = length (tp_Operations params)" using ops b(3) by auto
  have base: "maxFee tx div ?n = tp_BaseFee params" using fee b(3) by simp
  let ?v = "\<lparr>v1_Tx = \<lparr>tx_SourceAccount = source, tx_Fee = word_of_int (maxFee tx), tx_SeqNum = Sequence sa,
        tx_Cond = cond, tx_Memo = memo, tx_Operations = ops, tx_Ext = ext\<rparr>, v1_Signatures = []\<rparr>"
  have set: "set_op_ext M (EnvelopeV1 (?v\<lparr>v1_Signatures := sigs\<rparr>)) = (\<lambda>p. p)" by (simp add: fun_eq_iff set_op_ext_def ext)
  have e: "envelope tx = EnvelopeV1 ?v" "sourceAccount tx = sa" "bt_operations tx = tp_Operations params" "bt_memo tx = tp_Memo params" "baseFee tx = tp_BaseFee params"
    by (subst tx, simp)+
  have "simpleFromXDR M (EnvelopeV1 (?v\<lparr>v1_Signatures := sigs\<rparr>)) =
      Inr (tx\<lparr>envelope := EnvelopeV1 (?v\<lparr>v1_Signatures := sigs\<rparr>), bt_preconditions := canonical_preconditions (tp_Preconditions params)\<rparr>)"
    unfolding simpleFromXDR_def set
    using ops preconditions_roundtrip [OF b(5,4) assms(3,4)] memo_roundtrip [OF b(6)] muxed_SetAddress_GetAddress [OF b(1)] u n base e
    by (simp add: build_Transaction.defs build_Transaction.equality)
  then show "\<exists>v. envelope tx = EnvelopeV1 v \<and> v1_Signatures v = [] \<and>
    simpleFromXDR M (EnvelopeV1 (v\<lparr>v1_Signatures := sigs\<rparr>)) =
      Inr (tx\<lparr>envelope := EnvelopeV1 (v\<lparr>v1_Signatures := sigs\<rparr>), bt_preconditions := canonical_preconditions (tp_Preconditions params)\<rparr>)"
    using e(1) by (intro exI [of _ ?v]) simp
qed


subsection \<open>A sample transaction\<close>

definition no_methods :: "(unit, unit) op_methods" where
  "no_methods = \<lparr>om_Validate = (\<lambda>_. None), om_BuildXDR = (\<lambda>_. Inl OtherOpError), om_FromXDR = (\<lambda>_. Inl OtherOpError),
     om_BuildTransactionExt = (\<lambda>_. None), om_setExt = (\<lambda>_ x. x)\<rparr>"

definition sample_account :: string where
  "sample_account = ''GADQOBYHA4DQOBYHA4DQOBYHA4DQOBYHA4DQOBYHA4DQOBYHA4DQOZPI''"

lemma sample_account_encoded: "strkey_Encode VersionByteAccountID (replicate 32 7) = Inr sample_account"
  by code_simp

lemma sample_account_key: "muxed_SetAddress sample_account = Inr (KeyTypeEd25519 (replicate 32 7))"
  by (simp add: muxed_SetAddress_Inr strkey_Decode_iff all_payload_lengths sample_account_encoded)

lemma sample_account_nonempty: "sample_account \<noteq> []"
  by (simp add: sample_account_def)

definition sample_params :: "unit TransactionParams" where
  "sample_params = \<lparr>tp_SourceAccount = Some \<lparr>AccountID = sample_account, Sequence = 41\<rparr>, IncrementSequenceNum = True,
     tp_Operations = [OpManageData \<lparr>md_Name = ''name'', md_Value = Some [1, 2], md_SourceAccount = []\<rparr>,
       OpManageData \<lparr>md_Name = ''other'', md_Value = None, md_SourceAccount = sample_account\<rparr>],
     tp_BaseFee = 150, tp_Memo = Some (BuildMemoText ''hi''),
     tp_Preconditions = (time_preconditions (NewTimebounds 10 1000))\<lparr>bp_LedgerBounds := Some \<lparr>MinLedger = 0, MaxLedger = 0\<rparr>\<rparr>\<rparr>"

definition sample_tx :: "(unit, unit) build_Transaction" where
  "sample_tx =
    \<lparr>envelope = EnvelopeV1 \<lparr>v1_Tx = \<lparr>tx_SourceAccount = KeyTypeEd25519 (replicate 32 7), tx_Fee = 300, tx_SeqNum = 42,
        tx_Cond = PrecondV2 \<lparr>v2_TimeBounds = Some \<lparr>MinTime = 10, MaxTime = 1000\<rparr>, v2_LedgerBounds = None, v2_MinSeqNum = None,
          v2_MinSeqAge = 0, v2_MinSeqLedgerGap = 0, v2_ExtraSigners = []\<rparr>, tx_Memo = MemoText ''hi'',
        tx_Operations = [\<lparr>op_SourceAccount = None, op_Body = ManageDataBody ''name'' (Some [1, 2])\<rparr>,
          \<lparr>op_SourceAccount = Some (KeyTypeEd25519 (replicate 32 7)), op_Body = ManageDataBody ''other'' None\<rparr>], tx_Ext = TransactionExtV0\<rparr>,
        v1_Signatures = []\<rparr>,
      baseFee = 150, maxFee = 300, sourceAccount = \<lparr>AccountID = sample_account, Sequence = 42\<rparr>, bt_operations = tp_Operations sample_params,
      bt_memo = Some (BuildMemoText ''hi''), bt_preconditions = tp_Preconditions sample_params\<rparr>"

lemma sample_tx_built: "NewTransaction no_methods sample_params = (Inr sample_tx, Some \<lparr>AccountID = sample_account, Sequence = 42\<rparr>)"
  by (simp add: NewTransaction_def build_transaction_def sample_params_def sample_tx_def sample_account_key IncrementSequenceNumber_def wrap_int64_def
      time_preconditions_def NewTimebounds_def Preconditions_Validate_def TimeBounds_Validate_def LedgerBounds_Validate_def TimeoutInfinite_def
      Preconditions_BuildXDR_def hasV2Conditions_def xdr_ledger_bounds_def memo_xdr_def MemoTextMaxLength_def op_Validate_def op_BuildXDR_def op_Ext_def
      ManageData_Validate_def ManageData_BuildXDR_def SetOpSourceAccount_def sample_account_nonempty soroban_fee_def total_fee_def wrap_uint64_def MaxUint32_def Let_def)


section \<open>Fee bumps\<close>


definition sample_bump :: "(unit, unit) FeeBumpTransactionParams" where
  "sample_bump = \<lparr>fp_Inner = Some (sample_tx\<lparr>bt_preconditions := canonical_preconditions (tp_Preconditions sample_params)\<rparr>), fp_FeeAccount = sample_account, fp_BaseFee = 200\<rparr>"

lemma sample_tx_read:
  "simpleFromXDR no_methods (envelope sample_tx) = Inr (sample_tx\<lparr>bt_preconditions := canonical_preconditions (tp_Preconditions sample_params)\<rparr>)"
  using muxed_SetAddress_GetAddress [OF sample_account_key]
  by (simp add: simpleFromXDR_def sample_tx_def sample_params_def canonical_preconditions_def xdr_ledger_bounds_def time_preconditions_def NewTimebounds_def
      Preconditions_FromXDR_def built_timebounds_def set_op_ext_def operationFromXDR_def ManageData_FromXDR_def accountFromXDR_def)


text \<open>An upgraded transaction is a new one with the base fee, operations and memo of the old one.\<close>

lemma build_operations_no_ext:
  "build_operations M ps soroban = Inr (xs, ext) \<Longrightarrow> (\<And>p. p \<in> set ps \<Longrightarrow> op_Ext M p = None) \<Longrightarrow> ext = soroban"
  by (induction ps arbitrary: soroban xs) (auto simp: bind_result_eq_Inr split: option.splits)

lemma read_operations_length: "read_operations M f xs = Inr ps \<Longrightarrow> length ps = length xs"
  by (induction xs arbitrary: ps) (auto simp: bind_result_eq_Inr)

lemma convertToV1_fee:
  assumes "convertToV1 M tx = Inr tx'" and "in_int64 (baseFee tx)" and "\<And>p. p \<in> set (bt_operations tx) \<Longrightarrow> op_Ext M p = None"
    and "Signatures (envelope tx) = Some sigs"
  shows "maxFee tx' = baseFee tx * int (length (bt_operations tx))" "bt_operations tx' = bt_operations tx" "tx_Signatures tx' = sigs"
proof -
  let ?params = "\<lparr>tp_SourceAccount = Some (sourceAccount tx), IncrementSequenceNum = False, tp_Operations = bt_operations tx,
         tp_BaseFee = baseFee tx, tp_Memo = bt_memo tx, tp_Preconditions = time_preconditions (bp_TimeBounds (bt_preconditions tx))\<rparr>"
  obtain built where built: "build_transaction M ?params (sourceAccount tx) = Inr built"
      "(case (envelope built, Signatures (envelope tx)) of
         (EnvelopeV1 v, Some sigs) \<Rightarrow> Inr (built\<lparr>envelope := EnvelopeV1 (v\<lparr>v1_Signatures := sigs\<rparr>)\<rparr>)
       | _ \<Rightarrow> Inl ParsePanic) = Inr tx'"
    using assms(1) by (auto simp: convertToV1_def NewTransaction_def bind_result_eq_Inr Let_def)
  obtain source cond memo ops soroban ext where b:
    "0 \<le> baseFee tx" "build_operations M (bt_operations tx) None = Inr (ops, soroban)"
    "(case soroban of None \<Rightarrow> Inr TransactionExtV0 | Some r \<Rightarrow> r) = Inr ext"
    "total_fee MaxUint32 (baseFee tx) (length (bt_operations tx)) (soroban_fee ext) = Inr (maxFee built)"
    and tx: "built = \<lparr>envelope = EnvelopeV1 \<lparr>v1_Tx = \<lparr>tx_SourceAccount = source, tx_Fee = word_of_int (maxFee built), tx_SeqNum = Sequence (sourceAccount tx),
        tx_Cond = cond, tx_Memo = memo, tx_Operations = ops, tx_Ext = ext\<rparr>, v1_Signatures = []\<rparr>,
      baseFee = baseFee tx, maxFee = maxFee built, sourceAccount = sourceAccount tx, bt_operations = bt_operations tx,
      bt_memo = bt_memo tx, bt_preconditions = time_preconditions (bp_TimeBounds (bt_preconditions tx))\<rparr>"
    by (rule build_transaction_parts [OF built(1)]) simp
  have env: "envelope built = EnvelopeV1 \<lparr>v1_Tx = \<lparr>tx_SourceAccount = source, tx_Fee = word_of_int (maxFee built), tx_SeqNum = Sequence (sourceAccount tx),
        tx_Cond = cond, tx_Memo = memo, tx_Operations = ops, tx_Ext = ext\<rparr>, v1_Signatures = []\<rparr>" "bt_operations built = bt_operations tx"
    by (subst tx, simp)+
  have "ext = TransactionExtV0" using b(3) build_operations_no_ext [OF b(2) assms(3)] by simp
  then have fee: "maxFee built = baseFee tx * int (length (bt_operations tx))"
    using total_fee_Inr [OF b(1) assms(2), of 0 MaxUint32 "length (bt_operations tx)" "maxFee built"] b(4) MaxUint32_small(1)
    by (auto simp: soroban_fee_def)
  have "tx' = built\<lparr>envelope := EnvelopeV1 \<lparr>v1_Tx = \<lparr>tx_SourceAccount = source, tx_Fee = word_of_int (maxFee built), tx_SeqNum = Sequence (sourceAccount tx),
        tx_Cond = cond, tx_Memo = memo, tx_Operations = ops, tx_Ext = ext\<rparr>, v1_Signatures = sigs\<rparr>\<rparr>"
    using built(2) env assms(4) by simp
  then show "maxFee tx' = baseFee tx * int (length (bt_operations tx))" "bt_operations tx' = bt_operations tx" "tx_Signatures tx' = sigs"
    using fee env by (simp_all add: tx_Signatures_def)
qed

text \<open>
  C20: A fee bump of a version 0 transaction is built without error, but its envelope has no inner transaction: the envelope that is
  wrapped is the one before the upgrade to version 1. The upgraded transaction that the fee bump returns beside it has a fee rounded down to a multiple of
  the number of operations, although it keeps the signatures.
\<close>

theorem fee_bump_of_v0:
  assumes "NewFeeBumpTransaction M params = Inr fb" and "fp_Inner params = Some inner" and "simpleFromXDR M (EnvelopeV0 v) = Inr inner"
    and "\<And>p. p \<in> set (bt_operations inner) \<Longrightarrow> op_Ext M p = None"
  shows "fee_bump_envelope fb = None \<and>
    maxFee (fbt_inner fb) = uint (v0_Fee (v0_Tx v)) div int (length (bt_operations inner)) * int (length (bt_operations inner)) \<and>
    tx_Signatures (fbt_inner fb) = v0_Signatures v"
proof -
  let ?fee = "uint (v0_Fee (v0_Tx v))"
  have in0: "envelope inner = EnvelopeV0 v" "baseFee inner = (if v0_Operations (v0_Tx v) = [] then ?fee else ?fee div int (length (v0_Operations (v0_Tx v))))"
      "read_operations M (set_op_ext M (EnvelopeV0 v)) (v0_Operations (v0_Tx v)) = Inr (bt_operations inner)"
    using assms(3) by (auto simp: simpleFromXDR_def bind_result_eq_Inr split: sum.splits option.splits)
  obtain tx where tx: "convertToV1 M inner = Inr tx" "fbt_inner fb = tx" "fbt_inner_V1 fb = None"
    using assms(1) unfolding NewFeeBumpTransaction_def
    by (cases "muxed_SetAddress (fp_FeeAccount params)") (auto simp: assms(2) in0 bind_result_eq_Inr split: if_splits sum.splits)
  have n: "length (bt_operations inner) = length (v0_Operations (v0_Tx v))" by (rule read_operations_length [OF in0(3)])
  have "?fee < 4294967296" using uint_lt2p [of "v0_Fee (v0_Tx v)"] by simp
  moreover have "?fee div int (length (v0_Operations (v0_Tx v))) \<le> ?fee" 
    using zdiv_mono2 [of ?fee 1 "int (length (v0_Operations (v0_Tx v)))"] by (cases "v0_Operations (v0_Tx v)") simp_all
  ultimately have "in_int64 (baseFee inner)" using uint_ge_0 [of "v0_Fee (v0_Tx v)"] div_int_pos_iff [of ?fee "int (length (v0_Operations (v0_Tx v)))"]
    by (auto simp: in0(2) in_int64_def)
  then show ?thesis using convertToV1_fee [OF tx(1) _ assms(4), of "v0_Signatures v"] in0 tx n
    by (cases "v0_Operations (v0_Tx v)") (auto simp: fee_bump_envelope_def)
qed

definition sample_v0 :: "unit Operation TransactionV0Envelope" where
  "sample_v0 = \<lparr>v0_Tx = \<lparr>v0_SourceAccountEd25519 = replicate 32 7, v0_Fee = 301, v0_SeqNum = 42, v0_TimeBounds = Some \<lparr>MinTime = 10, MaxTime = 1000\<rparr>,
      v0_Memo = MemoNone, v0_Operations = [\<lparr>op_SourceAccount = None, op_Body = ManageDataBody ''name'' None\<rparr>,
        \<lparr>op_SourceAccount = None, op_Body = ManageDataBody ''other'' None\<rparr>]\<rparr>,
     v0_Signatures = [\<lparr>Hint = replicate 4 7, Signature = replicate 64 1\<rparr>]\<rparr>"

definition sample_v0_read :: "(unit, unit) build_Transaction" where
  "sample_v0_read = \<lparr>envelope = EnvelopeV0 sample_v0, baseFee = 150, maxFee = 301, sourceAccount = \<lparr>AccountID = sample_account, Sequence = 42\<rparr>,
     bt_operations = [OpManageData \<lparr>md_Name = ''name'', md_Value = None, md_SourceAccount = []\<rparr>,
       OpManageData \<lparr>md_Name = ''other'', md_Value = None, md_SourceAccount = []\<rparr>],
     bt_memo = None, bt_preconditions = time_preconditions (NewTimebounds 10 1000)\<rparr>"

lemma fee_bump_of_v0_witness:
  "\<exists>fb. NewFeeBumpTransaction no_methods \<lparr>fp_Inner = Some sample_v0_read, fp_FeeAccount = sample_account, fp_BaseFee = 200\<rparr> = Inr fb \<and>
     fee_bump_envelope fb = None \<and> maxFee (fbt_inner fb) = 300 \<and> maxFee sample_v0_read = 301 \<and>
     tx_Signatures (fbt_inner fb) = [\<lparr>Hint = replicate 4 7, Signature = replicate 64 1\<rparr>]"
proof -
  have key: "muxed_GetAddress (KeyTypeEd25519 (replicate 32 7)) = Inr sample_account" by (rule muxed_SetAddress_GetAddress [OF sample_account_key])
  have read: "simpleFromXDR no_methods (EnvelopeV0 sample_v0) = Inr sample_v0_read"
    using key by (simp add: simpleFromXDR_def sample_v0_def sample_v0_read_def NewPreconditionsWithTimeBounds_def Preconditions_FromXDR_def built_timebounds_def set_op_ext_def operationFromXDR_def
        ManageData_FromXDR_def accountFromXDR_def)
  obtain tx where up: "convertToV1 no_methods sample_v0_read = Inr tx" "baseFee tx = 150" "length (bt_operations tx) = 2"
      "\<exists>v. envelope tx = EnvelopeV1 v \<and> tx_Ext (v1_Tx v) = TransactionExtV0"
    by (simp add: convertToV1_def NewTransaction_def build_transaction_def sample_v0_read_def sample_v0_def sample_account_key
      time_preconditions_def NewTimebounds_def Preconditions_Validate_def TimeBounds_Validate_def LedgerBounds_Validate_def TimeoutInfinite_def
      Preconditions_BuildXDR_def hasV2Conditions_def memo_xdr_def op_Validate_def op_BuildXDR_def op_Ext_def
      ManageData_Validate_def ManageData_BuildXDR_def SetOpSourceAccount_def soroban_fee_def total_fee_def wrap_uint64_def MaxUint32_def Let_def)
  let ?params = "\<lparr>fp_Inner = Some sample_v0_read, fp_FeeAccount = sample_account, fp_BaseFee = 200\<rparr>"
  have env: "envelope sample_v0_read = EnvelopeV0 sample_v0" "length (bt_operations sample_v0_read) = 2" "maxFee sample_v0_read = 301"
      "\<And>p. p \<in> set (bt_operations sample_v0_read) \<Longrightarrow> op_Ext no_methods p = None" by (auto simp: sample_v0_read_def op_Ext_def)
  obtain fb where fb: "NewFeeBumpTransaction no_methods ?params = Inr fb"
    using up by (auto simp: NewFeeBumpTransaction_def env sample_account_key total_fee_def soroban_fee_def wrap_uint64_def MaxInt64_def MinBaseFee_def Let_def)
  show ?thesis using fb fee_bump_of_v0 [OF fb _ read env(4)] env(2,3) by (auto simp: sample_v0_def)
qed

end
