(* ===== verification/Sep10.thy ===== *)
theory Sep10
  imports Txn_Build
begin

text \<open>
  Web authentication challenges (\<^verbatim>\<open>txnbuild/transaction.go\<close>, SEP-10): building a challenge, reading it, and checking the signatures of
  the server and of the signers of a client.

  The clock, the random nonce and the base64 XDR decoder are arguments. Where the code returns an error, the other values that it returns beside it are left out.
\<close>

section \<open>Definitions\<close>

datatype challenge_error =
    TimeboundTooShort | ServerKeyError keypair_error | ServerKeyNotSecret | NonceError | NonceLength | InvalidClient | MemoWithMuxed | ChallengeBuildError build_error
  | ChallengeNotParsed | ChallengeIsFeeBump | MuxedServer | WrongServer | NonzeroSequence | InfiniteTimebounds | OutOfTimebounds
  | NoChallengeOperation | NotManageDataOp | NoOperationSource | NoHomeDomain | InvalidClientType | MemoNotID | NonceNotBase64 | NonceSize
  | WebAuthSource | WebAuthValue | UnrecognizedOperation | NotSignedBy | HashFailed hash_error | SignerNotAddress keypair_error
  | NoVerifiableSigners | ServerNotSigned | ClientNotSigned | UnrecognizedSignatures | ThresholdNotMet | ChallengePanic

definition bytes_string :: "bytes \<Rightarrow> string" where
  "bytes_string bs = map (\<lambda>b. char_of (unat b)) bs"

subsection \<open>Matching signatures and signers\<close>

text \<open>The first signature that is not used yet, has the hint of the key and verifies.\<close>

fun find_signature :: "ed25519 \<Rightarrow> bytes \<Rightarrow> bytes \<Rightarrow> nat set \<Rightarrow> nat \<Rightarrow> DecoratedSignature list \<Rightarrow> nat option" where
  "find_signature E txHash publicKey signatureUsed i [] = None"
| "find_signature E txHash publicKey signatureUsed i (decSig # rest) =
     (if i \<in> signatureUsed then find_signature E txHash publicKey signatureUsed (Suc i) rest
      else if Hint decSig \<noteq> key_hint publicKey then find_signature E txHash publicKey signatureUsed (Suc i) rest
      else case kp_Verify E publicKey txHash (Signature decSig) of
        None \<Rightarrow> Some i
      | Some _ \<Rightarrow> find_signature E txHash publicKey signatureUsed (Suc i) rest)"

fun match_signers :: "ed25519 \<Rightarrow> bytes \<Rightarrow> DecoratedSignature list \<Rightarrow> string list \<Rightarrow> nat set \<Rightarrow> string set \<Rightarrow>
    (challenge_error, nat set \<times> string set) result" where
  "match_signers E txHash sigs [] signatureUsed signersFound = Inr (signatureUsed, signersFound)"
| "match_signers E txHash sigs (signer # rest) signatureUsed signersFound =
     (case ParseAddress signer of
        Inl e \<Rightarrow> Inl (SignerNotAddress e)
      | Inr kp \<Rightarrow>
          (case find_signature E txHash (fa_publicKey kp) signatureUsed 0 sigs of
             None \<Rightarrow> match_signers E txHash sigs rest signatureUsed signersFound
           | Some i \<Rightarrow> match_signers E txHash sigs rest (insert i signatureUsed) (insert signer signersFound)))"

text \<open>The signers that were found, in the order they were given, each once.\<close>

fun found_list :: "string list \<Rightarrow> string set \<Rightarrow> string list" where
  "found_list [] signersFound = []"
| "found_list (signer # rest) signersFound =
     (if signer \<in> signersFound then signer # found_list rest (signersFound - {signer}) else found_list rest signersFound)"

definition verifyTxSignatures :: "ed25519 \<Rightarrow> 'b hasher \<Rightarrow> ('o, 'b) build_Transaction \<Rightarrow> string \<Rightarrow> string list \<Rightarrow> (challenge_error, string list) result" where
  "verifyTxSignatures E hash tx network signers =
     (case hash (envelope tx) network of
        Inl e \<Rightarrow> Inl (HashFailed e)
      | Inr txHash \<Rightarrow>
          bind_result (match_signers E txHash (tx_Signatures tx) signers {} {}) (\<lambda>(signatureUsed, signersFound).
            Inr (found_list signers signersFound)))"

text \<open>An error of \<^verbatim>\<open>verifyTxSignatures\<close> comes with an empty list, so the list is what decides.\<close>

definition verifyTxSignature :: "ed25519 \<Rightarrow> 'b hasher \<Rightarrow> ('o, 'b) build_Transaction \<Rightarrow> string \<Rightarrow> string \<Rightarrow> challenge_error option" where
  "verifyTxSignature E hash tx network signer =
     (case verifyTxSignatures E hash tx network [signer] of
        Inl _ \<Rightarrow> Some NotSignedBy
      | Inr signersFound \<Rightarrow> if length signersFound = 0 then Some NotSignedBy else None)"

subsection \<open>Building a challenge\<close>

text \<open>Times are in nanoseconds since the epoch; \<^verbatim>\<open>Unix\<close> rounds down.\<close>

definition unix :: "int \<Rightarrow> int" where
  "unix t = t div 1000000000"

definition challenge_params :: "string \<Rightarrow> string \<Rightarrow> string \<Rightarrow> string \<Rightarrow> string \<Rightarrow> int \<Rightarrow> int \<Rightarrow> 64 word option \<Rightarrow> 'o TransactionParams" where
  "challenge_params serverAddress clientAccountID webAuthDomain homeDomain nonce currentTime maxTime memo =
     \<lparr>tp_SourceAccount = Some \<lparr>AccountID = serverAddress, Sequence = 0\<rparr>, IncrementSequenceNum = False,
      tp_Operations =
        [OpManageData \<lparr>md_Name = homeDomain @ '' auth'', md_Value = Some (string_bytes nonce), md_SourceAccount = clientAccountID\<rparr>,
         OpManageData \<lparr>md_Name = ''web_auth_domain'', md_Value = Some (string_bytes webAuthDomain), md_SourceAccount = serverAddress\<rparr>],
      tp_BaseFee = MinBaseFee, tp_Memo = map_option BuildMemoID memo,
      tp_Preconditions = time_preconditions (NewTimebounds (unix currentTime) (unix maxTime))\<rparr>"

definition check_client :: "string \<Rightarrow> 64 word option \<Rightarrow> challenge_error option" where
  "check_client clientAccountID memo =
     (case strkey_Decode VersionByteAccountID clientAccountID of
        Inr _ \<Rightarrow> None
      | Inl _ \<Rightarrow>
          (case muxed_SetAddress clientAccountID of
             Inl _ \<Rightarrow> Some InvalidClient
           | Inr _ \<Rightarrow> if memo \<noteq> None then Some MemoWithMuxed else None))"

definition BuildChallengeTx ::
    "ed25519 \<Rightarrow> 'b hasher \<Rightarrow> ('o, 'b) op_methods \<Rightarrow> bytes option \<Rightarrow> int \<Rightarrow> string \<Rightarrow> string \<Rightarrow> string \<Rightarrow> string \<Rightarrow> string \<Rightarrow> int \<Rightarrow> 64 word option \<Rightarrow>
     (challenge_error, ('o, 'b) build_Transaction) result" where
  "BuildChallengeTx E hash M randomNonce currentTime serverSignerSecret clientAccountID webAuthDomain homeDomain network timebound memo =
     (if timebound < 1000000000 then Inl TimeboundTooShort
      else case keypair_Parse E serverSignerSecret of
        Inl e \<Rightarrow> Inl (ServerKeyError e)
      | Inr serverKP \<Rightarrow>
          (case randomNonce of
             None \<Rightarrow> Inl NonceError
           | Some nonce \<Rightarrow>
               if length (base64_EncodeToString nonce) \<noteq> 64 then Inl NonceLength
               else case check_client clientAccountID memo of
                 Some e \<Rightarrow> Inl e
               | None \<Rightarrow>
                   (case fst (NewTransaction M (challenge_params (kp_Address serverKP) clientAccountID webAuthDomain homeDomain
                        (base64_EncodeToString nonce) currentTime (currentTime + timebound) memo)) of
                      Inl e \<Rightarrow> Inl (ChallengeBuildError e)
                    | Inr tx \<Rightarrow>
                        (case serverKP of
                           KPAddress _ \<Rightarrow> Inl ChallengePanic
                         | KPFull kp \<Rightarrow>
                             (case tx_Sign E hash tx network [kp] of
                                Inl e \<Rightarrow> Inl (ChallengeBuildError e)
                              | Inr signedTx \<Rightarrow> Inr signedTx)))))"

subsection \<open>Reading a challenge\<close>

definition gracePeriod :: int where
  "gracePeriod = 300"

fun match_home_domain :: "string \<Rightarrow> string list \<Rightarrow> string" where
  "match_home_domain name [] = []"
| "match_home_domain name (homeDomain # rest) = (if name = homeDomain @ '' auth'' then homeDomain else match_home_domain name rest)"

definition md_bytes :: "ManageData \<Rightarrow> bytes" where
  "md_bytes op = (case md_Value op of None \<Rightarrow> [] | Some v \<Rightarrow> v)"

fun check_subsequent :: "string \<Rightarrow> string \<Rightarrow> 'o build_op list \<Rightarrow> challenge_error option" where
  "check_subsequent serverAccountID webAuthDomain [] = None"
| "check_subsequent serverAccountID webAuthDomain (OpOther _ # rest) = Some NotManageDataOp"
| "check_subsequent serverAccountID webAuthDomain (OpManageData op # rest) =
     (if md_SourceAccount op = [] then Some NoOperationSource
      else if md_Name op = ''web_auth_domain'' \<and> md_SourceAccount op \<noteq> serverAccountID then Some WebAuthSource
      else if md_Name op = ''web_auth_domain'' \<and> md_bytes op \<noteq> string_bytes webAuthDomain then Some WebAuthValue
      else if md_SourceAccount op \<noteq> serverAccountID then Some UnrecognizedOperation
      else check_subsequent serverAccountID webAuthDomain rest)"

definition check_memo :: "xdr_MuxedAccount \<Rightarrow> build_Memo option \<Rightarrow> (challenge_error, 64 word option) result" where
  "check_memo account memo =
     (case memo of
        None \<Rightarrow> Inr None
      | Some m \<Rightarrow>
          (case account of
             KeyTypeMuxedEd25519 _ _ \<Rightarrow> Inl MemoWithMuxed
           | _ \<Rightarrow> (case m of BuildMemoID i \<Rightarrow> Inr (Some i) | _ \<Rightarrow> Inl MemoNotID)))"

definition check_nonce :: "ManageData \<Rightarrow> challenge_error option" where
  "check_nonce op =
     (if length (md_bytes op) \<noteq> 64 then Some NonceLength
      else case base64_DecodeString (bytes_string (md_bytes op)) of
        None \<Rightarrow> Some NonceNotBase64
      | Some nonce \<Rightarrow> if length nonce \<noteq> 48 then Some NonceSize else None)"

text \<open>The checks on the transaction itself, before its operations.\<close>

definition check_header :: "int \<Rightarrow> string \<Rightarrow> ('o, 'b) build_Transaction \<Rightarrow> challenge_error option" where
  "check_header currentTime serverAccountID tx =
     (let tb = bp_TimeBounds (bt_preconditions tx) in
      if (case SourceAccount (envelope tx) of Some (KeyTypeMuxedEd25519 _ _) \<Rightarrow> True | _ \<Rightarrow> False) then Some MuxedServer
      else if AccountID (sourceAccount tx) \<noteq> serverAccountID then Some WrongServer
      else if Sequence (sourceAccount tx) \<noteq> 0 then Some NonzeroSequence
      else if tb_MaxTime tb = TimeoutInfinite then Some InfiniteTimebounds
      else if wrap_int64 (currentTime + gracePeriod) < tb_MinTime tb \<or> currentTime > tb_MaxTime tb then Some OutOfTimebounds
      else None)"

text \<open>The source account of the first operation; \<open>None\<close> is a nil pointer.\<close>

definition first_source :: "'b Operation TransactionEnvelope \<Rightarrow> xdr_MuxedAccount option" where
  "first_source e = (case Operations e of Some (x # _) \<Rightarrow> op_SourceAccount x | _ \<Rightarrow> None)"

definition read_challenge ::
    "ed25519 \<Rightarrow> 'b hasher \<Rightarrow> int \<Rightarrow> ('o, 'b) build_Transaction \<Rightarrow> string \<Rightarrow> string \<Rightarrow> string \<Rightarrow> string list \<Rightarrow>
     (challenge_error, ('o, 'b) build_Transaction \<times> string \<times> string \<times> 64 word option) result" where
  "read_challenge E hash currentTime tx serverAccountID network webAuthDomain homeDomains =
     (case check_header currentTime serverAccountID tx of
        Some e \<Rightarrow> Inl e
      | None \<Rightarrow>
          (case bt_operations tx of
             [] \<Rightarrow> Inl NoChallengeOperation
           | OpOther _ # _ \<Rightarrow> Inl NotManageDataOp
           | OpManageData op # rest \<Rightarrow>
               if md_SourceAccount op = [] then Inl NoOperationSource
               else let matchedHomeDomain = match_home_domain (md_Name op) homeDomains in
               if matchedHomeDomain = [] then Inl NoHomeDomain
               else case first_source (envelope tx) of
                 None \<Rightarrow> Inl ChallengePanic
               | Some account \<Rightarrow>
                   if (case account of KeyTypeOther _ \<Rightarrow> True | _ \<Rightarrow> False) then Inl InvalidClientType
                   else bind_result (check_memo account (bt_memo tx)) (\<lambda>memo.
                     case check_nonce op of
                       Some e \<Rightarrow> Inl e
                     | None \<Rightarrow>
                         (case check_subsequent serverAccountID webAuthDomain rest of
                            Some e \<Rightarrow> Inl e
                          | None \<Rightarrow>
                              (case verifyTxSignature E hash tx network serverAccountID of
                                 Some e \<Rightarrow> Inl e
                               | None \<Rightarrow> Inr (tx, md_SourceAccount op, matchedHomeDomain, memo))))))"

text \<open>\<open>None\<close> of the decoder is an error of \<^verbatim>\<open>SafeUnmarshalBase64\<close>.\<close>

definition TransactionFromXDR ::
    "('o, 'b) op_methods \<Rightarrow> (string \<Rightarrow> 'b Operation TransactionEnvelope option) \<Rightarrow> string \<Rightarrow> (build_error, ('o, 'b) GenericTransaction) result option" where
  "TransactionFromXDR M unmarshal txeB64 = map_option (transactionFromParsedXDR M) (unmarshal txeB64)"

definition ReadChallengeTx ::
    "ed25519 \<Rightarrow> 'b hasher \<Rightarrow> ('o, 'b) op_methods \<Rightarrow> (string \<Rightarrow> 'b Operation TransactionEnvelope option) \<Rightarrow> int \<Rightarrow>
     string \<Rightarrow> string \<Rightarrow> string \<Rightarrow> string \<Rightarrow> string list \<Rightarrow>
     (challenge_error, ('o, 'b) build_Transaction \<times> string \<times> string \<times> 64 word option) result" where
  "ReadChallengeTx E hash M unmarshal currentTime challengeTx serverAccountID network webAuthDomain homeDomains =
     (case TransactionFromXDR M unmarshal challengeTx of
        None \<Rightarrow> Inl ChallengeNotParsed
      | Some (Inl e) \<Rightarrow> Inl (if e = ParsePanic then ChallengePanic else ChallengeNotParsed)
      | Some (Inr (GenericFeeBump _)) \<Rightarrow> Inl ChallengeIsFeeBump
      | Some (Inr (GenericSimple tx)) \<Rightarrow> read_challenge E hash currentTime tx serverAccountID network webAuthDomain homeDomains)"

subsection \<open>Verifying the signers of the client\<close>

fun client_signers :: "string \<Rightarrow> string list \<Rightarrow> string set \<Rightarrow> string list" where
  "client_signers server [] seen = []"
| "client_signers server (signer # rest) seen =
     (if signer = server then client_signers server rest seen
      else if signer \<in> seen then client_signers server rest seen
      else case strkey_Version signer of
        Inl _ \<Rightarrow> client_signers server rest seen
      | Inr v \<Rightarrow>
          if v \<noteq> VersionByteAccountID then client_signers server rest seen
          else signer # client_signers server rest (insert signer seen))"

definition verify_client ::
    "ed25519 \<Rightarrow> 'b hasher \<Rightarrow> ('o, 'b) build_Transaction \<Rightarrow> string \<Rightarrow> string \<Rightarrow> string list \<Rightarrow> (challenge_error, string list) result" where
  "verify_client E hash tx server network signers =
     (let clientSigners = client_signers server signers {} in
      if length clientSigners = 0 then Inl NoVerifiableSigners
      else bind_result (verifyTxSignatures E hash tx network (server # clientSigners)) (\<lambda>allSignersFound.
        let signersFound = filter (\<lambda>signer. signer \<noteq> server) allSignersFound in
        if server \<notin> set allSignersFound then Inl ServerNotSigned
        else if length signersFound = 0 then Inl ClientNotSigned
        else if length allSignersFound \<noteq> length (tx_Signatures tx) then Inl UnrecognizedSignatures
        else Inr signersFound))"

definition VerifyChallengeTxSigners ::
    "ed25519 \<Rightarrow> 'b hasher \<Rightarrow> ('o, 'b) op_methods \<Rightarrow> (string \<Rightarrow> 'b Operation TransactionEnvelope option) \<Rightarrow> int \<Rightarrow>
     string \<Rightarrow> string \<Rightarrow> string \<Rightarrow> string \<Rightarrow> string list \<Rightarrow> string list \<Rightarrow> (challenge_error, string list) result" where
  "VerifyChallengeTxSigners E hash M unmarshal currentTime challengeTx serverAccountID network webAuthDomain homeDomains signers =
     bind_result (ReadChallengeTx E hash M unmarshal currentTime challengeTx serverAccountID network webAuthDomain homeDomains) (\<lambda>(tx, _, _, _).
     case ParseAddress serverAccountID of
       Inl e \<Rightarrow> Inl (ServerKeyError e)
     | Inr serverKP \<Rightarrow> verify_client E hash tx (fa_address serverKP) network signers)"

text \<open>
  The summary is a map, read in some order \<open>order\<close> of its keys; weights are 32-bit and are added with wrap-around, and a threshold is one byte.
\<close>

definition VerifyChallengeTxThreshold ::
    "ed25519 \<Rightarrow> 'b hasher \<Rightarrow> ('o, 'b) op_methods \<Rightarrow> (string \<Rightarrow> 'b Operation TransactionEnvelope option) \<Rightarrow> int \<Rightarrow>
     string \<Rightarrow> string \<Rightarrow> string \<Rightarrow> string \<Rightarrow> string list \<Rightarrow> 8 word \<Rightarrow> (string \<rightharpoonup> 32 word) \<Rightarrow> string list \<Rightarrow> (challenge_error, string list) result" where
  "VerifyChallengeTxThreshold E hash M unmarshal currentTime challengeTx serverAccountID network webAuthDomain homeDomains threshold signerSummary order =
     bind_result (VerifyChallengeTxSigners E hash M unmarshal currentTime challengeTx serverAccountID network webAuthDomain homeDomains order) (\<lambda>signersFound.
       let weight = fold (\<lambda>s w. w + (case signerSummary s of None \<Rightarrow> 0 | Some x \<Rightarrow> x)) signersFound 0 in
       if sint weight < uint threshold then Inl ThresholdNotMet else Inr signersFound)"

section \<open>Signatures and signers\<close>

text \<open>What it means that the signature at an index is one of a signer.\<close>

definition signed_at :: "ed25519 \<Rightarrow> bytes \<Rightarrow> DecoratedSignature list \<Rightarrow> string \<Rightarrow> nat \<Rightarrow> bool" where
  "signed_at E txHash sigs signer i \<longleftrightarrow> i < length sigs \<and> (\<exists>publicKey. strkey_Decode VersionByteAccountID signer = Inr publicKey \<and>
     Hint (sigs ! i) = key_hint publicKey \<and> length (Signature (sigs ! i)) = 64 \<and> ed_verify E publicKey txHash (Signature (sigs ! i)))"

lemma find_signature_Some:
  "find_signature E h pk used k sigs = Some i \<Longrightarrow>
    k \<le> i \<and> i < k + length sigs \<and> i \<notin> used \<and> Hint (sigs ! (i - k)) = key_hint pk \<and> kp_Verify E pk h (Signature (sigs ! (i - k))) = None"
  by (induction E h pk used k sigs rule: find_signature.induct) (auto simp: nth_Cons' split: if_splits option.splits)

lemma find_signature_signed_at:
  assumes "find_signature E h (fa_publicKey kp) used 0 sigs = Some i" "ParseAddress signer = Inr kp"
  shows "signed_at E h sigs signer i" "i \<notin> used"
  using find_signature_Some [OF assms(1)] assms(2) by (auto simp: signed_at_def ParseAddress_Inr kp_Verify_def split: if_splits)

text \<open>Every signer that is found has a signature of its own, and these are the used ones.\<close>

lemma match_signers_assignment:
  assumes "match_signers E h sigs signers used found = Inr (used', found')"
    and "bij_betw f found used" "\<And>s. s \<in> found \<Longrightarrow> signed_at E h sigs s (f s)" "distinct signers" "set signers \<inter> found = {}"
  shows "\<exists>f. bij_betw f found' used' \<and> (\<forall>s\<in>found'. signed_at E h sigs s (f s)) \<and> found' \<subseteq> found \<union> set signers"
  using assms
proof (induction signers arbitrary: used found f)
  case Nil
  then show ?case by auto
next
  case (Cons signer rest)
  obtain kp where kp: "ParseAddress signer = Inr kp" using Cons.prems(1) by (cases "ParseAddress signer") auto
  show ?case
  proof (cases "find_signature E h (fa_publicKey kp) used 0 sigs")
    case None
    then show ?thesis using Cons.prems kp Cons.IH [of used found f] by fastforce
  next
    case (Some i)
    note new = find_signature_signed_at [OF Some kp]
    have "signer \<notin> found" using Cons.prems(5) by simp
    then have "bij_betw (f(signer := i)) found used" using Cons.prems(2) bij_betw_cong by (metis fun_upd_other)
    then have bij: "bij_betw (f(signer := i)) (insert signer found) (insert i used)"
      using \<open>signer \<notin> found\<close> new(2) notIn_Un_bij_betw [of signer found "f(signer := i)" used] by simp
    have "match_signers E h sigs rest (insert i used) (insert signer found) = Inr (used', found')" using Cons.prems(1) kp Some by simp
    from Cons.IH [OF this bij] show ?thesis using Cons.prems(3-5) new(1) by fastforce
  qed
qed

lemma found_list_set: "set (found_list signers found) = set signers \<inter> found"
  by (induction signers arbitrary: found) auto

lemma found_list_distinct: "distinct (found_list signers found)"
  by (induction signers arbitrary: found) (auto simp: found_list_set)

lemma verifyTxSignatures_assignment:
  assumes "verifyTxSignatures E hash tx net signers = Inr found" "distinct signers"
  obtains h f where "hash (envelope tx) net = Inr h" "inj_on f (set found)" "\<forall>s\<in>set found. signed_at E h (tx_Signatures tx) s (f s)"
    "distinct found" "set found \<subseteq> set signers"
proof -
  obtain h used found' where h: "hash (envelope tx) net = Inr h" "match_signers E h (tx_Signatures tx) signers {} {} = Inr (used, found')"
      "found = found_list signers found'"
    using assms(1) by (auto simp: verifyTxSignatures_def bind_result_eq_Inr split: sum.splits)
  obtain f where f: "bij_betw f found' used" "\<forall>s\<in>found'. signed_at E h (tx_Signatures tx) s (f s)" "found' \<subseteq> set signers"
    using match_signers_assignment [OF h(2), of undefined] assms(2) by (auto simp: bij_betw_def)
  then have "set found = found'" using h(3) by (auto simp: found_list_set)
  then show thesis using that [OF h(1), of f] f h(3) found_list_distinct by (auto simp: bij_betw_def)
qed

lemma client_signers_props:
  "distinct (client_signers server signers seen)" "set (client_signers server signers seen) \<subseteq> set signers - insert server seen"
  by (induction signers arbitrary: seen) (auto split: sum.splits)

lemma verify_client_sound:
  assumes "verify_client E hash tx server net signers = Inr found"
  shows "\<exists>h f. hash (envelope tx) net = Inr h \<and> bij_betw f (insert server (set found)) {..<length (tx_Signatures tx)} \<and>
     (\<forall>s\<in>insert server (set found). signed_at E h (tx_Signatures tx) s (f s)) \<and>
     distinct found \<and> found \<noteq> [] \<and> set found \<subseteq> set signers - {server}"
proof -
  let ?cs = "client_signers server signers {}"
  obtain allFound where a: "verifyTxSignatures E hash tx net (server # ?cs) = Inr allFound" "found = filter (\<lambda>s. s \<noteq> server) allFound"
      "server \<in> set allFound" "found \<noteq> []" "length allFound = length (tx_Signatures tx)"
    using assms by (auto simp: verify_client_def bind_result_eq_Inr Let_def split: if_splits)
  have d: "distinct (server # ?cs)" using client_signers_props [of server signers "{}"] by auto
  from a(1) d obtain h f where f: "hash (envelope tx) net = Inr h" "inj_on f (set allFound)"
      "\<forall>s\<in>set allFound. signed_at E h (tx_Signatures tx) s (f s)" "distinct allFound" "set allFound \<subseteq> set (server # ?cs)"
    by (rule verifyTxSignatures_assignment)
  have all: "insert server (set found) = set allFound" using a(2,3) by auto
  have sub: "f ` set allFound \<subseteq> {..<length (tx_Signatures tx)}" using f(3) by (auto simp: signed_at_def)
  have "card (f ` set allFound) = length (tx_Signatures tx)" using f(2,4) a(5) by (simp add: card_image distinct_card)
  then have "f ` set allFound = {..<length (tx_Signatures tx)}" using sub by (intro card_subset_eq) simp_all
  then have "bij_betw f (set allFound) {..<length (tx_Signatures tx)}" using f(2) by (simp add: bij_betw_def)
  then show ?thesis using f a(2,4) all client_signers_props(2) [of server signers "{}"] by (intro exI [of _ h] exI [of _ f]) auto
qed

section \<open>Challenges that are read back\<close>

lemma bytes_string_string_bytes [simp]: "bytes_string (string_bytes s) = s"
  by (induction s) (simp_all add: bytes_string_def string_bytes_def unat_of_nat)

lemma length_string_bytes: "length (string_bytes s) = length s"
  by (simp add: string_bytes_def)

lemma base64_nonce_length: "length nonce = 48 \<Longrightarrow> length (base64_EncodeToString nonce) = 64"
  using length_base64_Encode [of "map unat nonce" 16] by (simp add: base64_EncodeToString_def)

lemma match_home_domain_found: "homeDomain \<in> set homeDomains \<Longrightarrow> match_home_domain (homeDomain @ '' auth'') homeDomains = homeDomain"
  by (induction homeDomains) auto

lemma account_address_type:
  assumes "muxed_SetAddress s = Inr m"
  shows "m \<noteq> KeyTypeOther t" "strkey_Decode VersionByteAccountID s = Inr pk \<Longrightarrow> m \<noteq> KeyTypeMuxedEd25519 i ed"
proof -
  have v: "valid_muxed m" "strkey_Version s = Inr (fst (muxed_payload m))" using assms strkey_Version_Decode by (auto simp: muxed_SetAddress_Inr)
  show "m \<noteq> KeyTypeOther t" using v(1) by auto
  show "m \<noteq> KeyTypeMuxedEd25519 i ed" if "strkey_Decode VersionByteAccountID s = Inr pk"
    using strkey_Version_Decode [OF that] v(2) by (auto simp: version_byte_values)
qed

lemma address_not_empty: "strkey_Decode v [] \<noteq> Inr pk" "muxed_SetAddress [] \<noteq> Inr m"
  by (auto simp: strkey_Decode_def decodeString_def maxEncodedSize_def muxed_SetAddress_def split: option.splits)

lemma check_client_facts:
  assumes "check_client client memo = None"
  shows "client \<noteq> []" "memo \<noteq> None \<Longrightarrow> \<exists>pk. strkey_Decode VersionByteAccountID client = Inr pk"
  using assms address_not_empty by (auto simp: check_client_def split: sum.splits if_splits)

text \<open>The parts of a challenge before it is signed.\<close>

lemma challenge_built:
  assumes "fst (NewTransaction M (challenge_params server client webAuthDomain homeDomain nonce now maxTime memo)) = Inr tx"
    and "client \<noteq> []" "server \<noteq> []"
  obtains v source account where
    "envelope tx = EnvelopeV1 v" "v1_Signatures v = []" "sourceAccount tx = \<lparr>AccountID = server, Sequence = 0\<rparr>"
    "bt_operations tx = [OpManageData \<lparr>md_Name = homeDomain @ '' auth'', md_Value = Some (string_bytes nonce), md_SourceAccount = client\<rparr>,
         OpManageData \<lparr>md_Name = ''web_auth_domain'', md_Value = Some (string_bytes webAuthDomain), md_SourceAccount = server\<rparr>]"
    "bt_memo tx = map_option BuildMemoID memo" "bp_TimeBounds (bt_preconditions tx) = NewTimebounds (unix now) (unix maxTime)"
    "muxed_SetAddress server = Inr source" "SourceAccount (EnvelopeV1 v) = Some source"
    "muxed_SetAddress client = Inr account" "first_source (EnvelopeV1 v) = Some account" "0 \<le> unix now"
proof -
  let ?p = "challenge_params server client webAuthDomain homeDomain nonce now maxTime memo :: 'a TransactionParams"
  have b: "build_transaction M ?p \<lparr>AccountID = server, Sequence = 0\<rparr> = Inr tx"
    using assms(1) by (simp add: NewTransaction_def challenge_params_def Let_def)
  obtain source cond memo' ops soroban ext where p: "muxed_SetAddress server = Inr source"
      "Preconditions_Validate (tp_Preconditions ?p) = None" "build_operations M (tp_Operations ?p) None = Inr (ops, soroban)"
    and tx: "tx = \<lparr>envelope = EnvelopeV1 \<lparr>v1_Tx = \<lparr>tx_SourceAccount = source, tx_Fee = word_of_int (maxFee tx), tx_SeqNum = 0,
        tx_Cond = cond, tx_Memo = memo', tx_Operations = ops, tx_Ext = ext\<rparr>, v1_Signatures = []\<rparr>,
      baseFee = tp_BaseFee ?p, maxFee = maxFee tx, sourceAccount = \<lparr>AccountID = server, Sequence = 0\<rparr>, bt_operations = tp_Operations ?p,
      bt_memo = tp_Memo ?p, bt_preconditions = tp_Preconditions ?p\<rparr>"
    by (rule build_transaction_parts [OF b]) simp
  obtain account where c: "muxed_SetAddress client = Inr account" "first_source (EnvelopeV1 \<lparr>v1_Tx = \<lparr>tx_SourceAccount = source,
      tx_Fee = word_of_int (maxFee tx), tx_SeqNum = 0, tx_Cond = cond, tx_Memo = memo', tx_Operations = ops, tx_Ext = ext\<rparr>, v1_Signatures = []\<rparr>) = Some account"
    using p(3) assms(2) by (auto simp: challenge_params_def bind_result_eq_Inr op_BuildXDR_def ManageData_BuildXDR_def SetOpSourceAccount_def first_source_def
        split: option.splits sum.splits if_splits)
  have "0 \<le> unix now" using p(2)
    by (auto simp: challenge_params_def Preconditions_Validate_def time_preconditions_def TimeBounds_Validate_def NewTimebounds_def split: option.splits if_splits)
  then show thesis using that [OF _ _ _ _ _ _ p(1) _ c] arg_cong [OF tx, of envelope] arg_cong [OF tx, of sourceAccount] arg_cong [OF tx, of bt_operations]
      arg_cong [OF tx, of bt_memo] arg_cong [OF tx, of bt_preconditions]
    by (simp add: challenge_params_def time_preconditions_def)
qed

text \<open>Reading it, once the signature of the server comes first.\<close>

definition decorated :: "ed25519 \<Rightarrow> Full \<Rightarrow> bytes \<Rightarrow> DecoratedSignature" where
  "decorated E kp h = \<lparr>Hint = key_hint (full_publicKey kp), Signature = ed_sign E (full_rawSeed kp) h\<rparr>"

lemma find_signature_decorated:
  assumes "ed25519_ok E" "ParseFull E seed = Inr kp" "k \<notin> used"
  shows "find_signature E h (full_publicKey kp) used k (decorated E kp h # others) = Some k"
  using ParseFull_key(6) [OF assms(1,2)] assms(3) by (simp add: decorated_def)

lemma server_verified:
  assumes "ed25519_ok E" "ParseFull E seed = Inr kp" "hash (envelope tx) network = Inr h" "tx_Signatures tx = decorated E kp h # others"
  shows "verifyTxSignature E hash tx network (full_address kp) = None"
  using ParseFull_key(4) [OF assms(1,2)] find_signature_decorated [OF assms(1,2), of 0 "{}"] assms(3,4)
  by (simp add: verifyTxSignature_def verifyTxSignatures_def)

lemma read_challenge_built:
  assumes ok: "ed25519_ok E" "ParseFull E seed = Inr kp"
    and built: "fst (NewTransaction M (challenge_params (full_address kp) client webAuthDomain homeDomain (base64_EncodeToString nonce) now maxTime memo)) = Inr tx"
    and client: "check_client client memo = None" and nonce: "length nonce = 48"
    and sigs: "envelope tx = EnvelopeV1 v" "tx' = tx\<lparr>envelope := EnvelopeV1 (v\<lparr>v1_Signatures := decorated E kp h # others\<rparr>)\<rparr>"
      "hash (envelope tx') network = Inr h"
    and dom: "homeDomain \<in> set homeDomains" "homeDomain \<noteq> []"
    and time: "unix maxTime \<noteq> 0" "unix now - gracePeriod \<le> t" "t \<le> unix maxTime" "in_int64 (t + gracePeriod)"
  shows "read_challenge E hash t tx' (full_address kp) network webAuthDomain homeDomains = Inr (tx', client, homeDomain, memo)"
proof -
  have addr: "strkey_Decode VersionByteAccountID (full_address kp) = Inr (full_publicKey kp)" using ParseFull_key(4) [OF ok] by (simp add: ParseAddress_Inr)
  then have srv: "full_address kp \<noteq> []" using address_not_empty by auto
  obtain v' source account where b: "envelope tx = EnvelopeV1 v'" "sourceAccount tx = \<lparr>AccountID = full_address kp, Sequence = 0\<rparr>"
    "bt_operations tx = [OpManageData \<lparr>md_Name = homeDomain @ '' auth'', md_Value = Some (string_bytes (base64_EncodeToString nonce)), md_SourceAccount = client\<rparr>,
         OpManageData \<lparr>md_Name = ''web_auth_domain'', md_Value = Some (string_bytes webAuthDomain), md_SourceAccount = full_address kp\<rparr>]"
    "bt_memo tx = map_option BuildMemoID memo" "bp_TimeBounds (bt_preconditions tx) = NewTimebounds (unix now) (unix maxTime)"
    "muxed_SetAddress (full_address kp) = Inr source" "SourceAccount (EnvelopeV1 v') = Some source"
    "muxed_SetAddress client = Inr account" "first_source (EnvelopeV1 v') = Some account"
    using challenge_built [OF built check_client_facts(1) [OF client] srv] .
  have v: "SourceAccount (envelope tx') = Some source" "first_source (envelope tx') = Some account" using b sigs by (simp_all add: first_source_def)
  have "check_header t (full_address kp) tx' = None"
    using v(1) b(2,5) time account_address_type(2) [OF b(6) addr] sigs(2)
    by (auto simp: check_header_def NewTimebounds_def TimeoutInfinite_def wrap_int64_id Let_def split: xdr_MuxedAccount.splits)
  moreover have "check_memo account (bt_memo tx') = Inr memo"
    using b(4) sigs(2) check_client_facts(2) [OF client] account_address_type(2) [OF b(8)]
    by (cases memo) (auto simp: check_memo_def split: xdr_MuxedAccount.splits)
  moreover have "verifyTxSignature E hash tx' network (full_address kp) = None"
    using server_verified [OF ok, of hash tx' network h others] sigs(2,3) by (simp add: tx_Signatures_def)
  ultimately show ?thesis
    using b(3) sigs(2) v(2) account_address_type(1) [OF b(8)] check_client_facts(1) [OF client] match_home_domain_found [OF dom(1)] dom(2) srv nonce
    by (auto simp: read_challenge_def check_nonce_def md_bytes_def length_string_bytes base64_nonce_length
        base64_DecodeString_EncodeToString split: xdr_MuxedAccount.splits)
qed

lemma BuildChallengeTx_parts:
  assumes "ed25519_ok E" "BuildChallengeTx E hash M (Some nonce) now secret client webAuthDomain homeDomain network timebound memo = Inr tx"
  obtains kp tx0 h where "ParseFull E secret = Inr kp" "check_client client memo = None" "1000000000 \<le> timebound"
    "fst (NewTransaction M (challenge_params (full_address kp) client webAuthDomain homeDomain (base64_EncodeToString nonce) now (now + timebound) memo)) = Inr tx0"
    "hash (envelope tx0) network = Inr h" "clone tx0 (tx_Signatures tx0 @ [decorated E kp h]) = Inr tx"
proof -
  obtain kp tx0 where p: "keypair_Parse E secret = Inr (KPFull kp)" "check_client client memo = None" "1000000000 \<le> timebound"
    "fst (NewTransaction M (challenge_params (full_address kp) client webAuthDomain homeDomain (base64_EncodeToString nonce) now (now + timebound) memo)) = Inr tx0"
    "tx_Sign E hash tx0 network [kp] = Inr tx"
    using assms(2) by (auto simp: BuildChallengeTx_def kp_Address_def split: if_splits sum.splits option.splits KP.splits)
  have kp: "ParseFull E secret = Inr kp"
    using p(1) by (auto simp: keypair_Parse_def bind_result_eq_Inr split: sum.splits if_splits)
  then obtain h where "hash (envelope tx0) network = Inr h" "clone tx0 (tx_Signatures tx0 @ [decorated E kp h]) = Inr tx"
    using p(5) ParseFull_key(5) [OF assms(1) kp] by (auto simp: tx_Sign_def concatSignatures_def bind_result_eq_Inr decorated_def split: sum.splits)
  with that kp p show thesis by blast
qed

lemma challenge_canonical:
  "canonical_preconditions (tp_Preconditions (challenge_params server client webAuthDomain homeDomain nonce now maxTime memo)) =
     tp_Preconditions (challenge_params server client webAuthDomain homeDomain nonce now maxTime memo)"
  by (simp add: canonical_preconditions_def challenge_params_def time_preconditions_def xdr_ledger_bounds_def)

text \<open>The hash of a transaction does not depend on the signatures beside it.\<close>

lemma read_back_signed:
  fixes M :: "('o, 'b) op_methods"
  assumes ok: "ed25519_ok E"
    and build: "BuildChallengeTx E (HashTransactionInEnvelope sha256 marshal) M (Some nonce) now secret client webAuthDomain homeDomain network timebound memo = Inr tx"
    and nonce: "length nonce = 48" and sign: "AddSignatureDecorated tx others = Inr tx'" and unm: "unmarshal c = Some (envelope tx')"
    and dom: "homeDomain \<in> set homeDomains" "homeDomain \<noteq> []"
    and time: "in_int64 (unix (now + timebound))" "unix now - gracePeriod \<le> t" "t \<le> unix (now + timebound)" "in_int64 (t + gracePeriod)"
  obtains kp h where "ParseFull E secret = Inr kp" "HashTransactionInEnvelope sha256 marshal (envelope tx) network = Inr h"
    "HashTransactionInEnvelope sha256 marshal (envelope tx') network = Inr h" "tx_Signatures tx' = decorated E kp h # others"
    "ReadChallengeTx E (HashTransactionInEnvelope sha256 marshal) M unmarshal t c (full_address kp) network webAuthDomain homeDomains =
       Inr (tx', client, homeDomain, memo)"
proof -
  let ?hash = "HashTransactionInEnvelope sha256 marshal"
  obtain kp tx0 h where p: "ParseFull E secret = Inr kp" "check_client client memo = None" "1000000000 \<le> timebound"
    "fst (NewTransaction M (challenge_params (full_address kp) client webAuthDomain homeDomain (base64_EncodeToString nonce) now (now + timebound) memo)) = Inr tx0"
    "?hash (envelope tx0) network = Inr h" "clone tx0 (tx_Signatures tx0 @ [decorated E kp h]) = Inr tx"
    by (rule BuildChallengeTx_parts [OF ok build])
  let ?p = "challenge_params (full_address kp) client webAuthDomain homeDomain (base64_EncodeToString nonce) now (now + timebound) memo :: 'o TransactionParams"
  have "strkey_Decode VersionByteAccountID (full_address kp) = Inr (full_publicKey kp)" using ParseFull_key(4) [OF ok p(1)] by (simp add: ParseAddress_Inr)
  then have srv: "full_address kp \<noteq> []" using address_not_empty by auto
  have now0: "0 \<le> unix now" by (rule challenge_built [OF p(4) check_client_facts(1) [OF p(2)] srv])
  have step: "unix now + 1 \<le> unix (now + timebound)" using p(3) by (simp add: unix_def)
  have ints: "in_int64 (tp_BaseFee ?p)" "in_int64 (tb_MinTime (bp_TimeBounds (tp_Preconditions ?p)))" "in_int64 (tb_MaxTime (bp_TimeBounds (tp_Preconditions ?p)))"
    using time(1) now0 step by (auto simp: challenge_params_def MinBaseFee_def time_preconditions_def NewTimebounds_def in_int64_def)
  have noop: "reads_back M y" if "OpOther y \<in> set (tp_Operations ?p)" for y using that by (simp add: challenge_params_def)
  have b: "build_transaction M ?p \<lparr>AccountID = full_address kp, Sequence = 0\<rparr> = Inr tx0"
    using p(4) by (simp add: NewTransaction_def challenge_params_def Let_def)
  obtain v where v: "envelope tx0 = EnvelopeV1 v" "v1_Signatures v = []" "simpleFromXDR M (EnvelopeV1 (v\<lparr>v1_Signatures := decorated E kp h # others\<rparr>)) =
      Inr (tx0\<lparr>envelope := EnvelopeV1 (v\<lparr>v1_Signatures := decorated E kp h # others\<rparr>), bt_preconditions := canonical_preconditions (tp_Preconditions ?p)\<rparr>)"
    using built_envelope_parses(1) [OF b ints noop] by blast
  have pre: "bt_preconditions tx0 = canonical_preconditions (tp_Preconditions ?p)"
    by (rule build_transaction_parts [OF b], metis build_Transaction.select_convs(7) challenge_canonical)
  have tx': "tx' = tx0\<lparr>envelope := EnvelopeV1 (v\<lparr>v1_Signatures := decorated E kp h # others\<rparr>)\<rparr>"
    using p(6) sign v(1,2) by (auto simp: clone_def AddSignatureDecorated_def tx_Signatures_def)
  have h: "?hash (envelope tx') network = Inr h" "?hash (envelope tx) network = Inr h" using p(5,6) v(1,2) tx' by (auto simp: clone_def tx_Signatures_def)
  have "transactionFromParsedXDR M (envelope tx') = Inr (GenericSimple tx')"
    using v(3) pre by (simp add: transactionFromParsedXDR_def tx')
  moreover have "read_challenge E ?hash t tx' (full_address kp) network webAuthDomain homeDomains = Inr (tx', client, homeDomain, memo)"
    using now0 step time read_challenge_built [OF ok p(1,4,2) nonce v(1) tx', where hash = ?hash, OF h(1) dom] by simp
  ultimately show thesis using that [OF p(1) h(2,1)] tx' by (simp add: ReadChallengeTx_def TransactionFromXDR_def unm tx_Signatures_def)
qed

section \<open>Challenges\<close>

text \<open>
  C11: A challenge that the server builds is read back as long as it is valid, whatever signatures have been added to it: the transaction, the account
  of the client, the home domain and the memo come back, from five minutes before its first second to its last.
\<close>

theorem challenge_read_back:
  assumes "ed25519_ok E"
    and "BuildChallengeTx E (HashTransactionInEnvelope sha256 marshal) M (Some nonce) now secret client webAuthDomain homeDomain network timebound memo = Inr tx"
    and "length nonce = 48" and "AddSignatureDecorated tx others = Inr tx'" and "unmarshal c = Some (envelope tx')"
    and "homeDomain \<in> set homeDomains" "homeDomain \<noteq> []"
    and "in_int64 (unix (now + timebound))" "unix now - gracePeriod \<le> t" "t \<le> unix (now + timebound)" "in_int64 (t + gracePeriod)"
  shows "\<exists>kp. ParseFull E secret = Inr kp \<and>
    ReadChallengeTx E (HashTransactionInEnvelope sha256 marshal) M unmarshal t c (full_address kp) network webAuthDomain homeDomains =
      Inr (tx', client, homeDomain, memo)"
  by (rule read_back_signed [where unmarshal = unmarshal and c = c, OF assms]) blast

lemma client_signers_single:
  assumes "strkey_Decode VersionByteAccountID s = Inr pk" "s \<noteq> server" "set signers \<subseteq> {s, server}"
  shows "client_signers server signers seen = (if s \<in> set signers \<and> s \<notin> seen then [s] else [])"
  using assms(3) strkey_Version_Decode [OF assms(1)] assms(2) by (induction signers arbitrary: seen) auto

lemma signed_challenge_verifies:
  assumes "ed25519_ok E"
    and "BuildChallengeTx E (HashTransactionInEnvelope sha256 marshal) M (Some nonce) now secret client webAuthDomain homeDomain network timebound memo = Inr tx"
    and "length nonce = 48" and "ParseFull E secret = Inr server" "ParseFull E seed = Inr kp" "full_address kp \<noteq> full_address server"
    and "tx_Sign E (HashTransactionInEnvelope sha256 marshal) tx network [kp] = Inr tx'" and "unmarshal c = Some (envelope tx')"
    and "homeDomain \<in> set homeDomains" "homeDomain \<noteq> []"
    and "in_int64 (unix (now + timebound))" "unix now - gracePeriod \<le> t" "t \<le> unix (now + timebound)" "in_int64 (t + gracePeriod)"
    and "full_address kp \<in> set signers" "set signers \<subseteq> {full_address kp, full_address server}"
  shows "VerifyChallengeTxSigners E (HashTransactionInEnvelope sha256 marshal) M unmarshal t c (full_address server) network webAuthDomain homeDomains signers =
    Inr [full_address kp]"
proof -
  let ?hash = "HashTransactionInEnvelope sha256 marshal"
  obtain h' where h': "?hash (envelope tx) network = Inr h'" "AddSignatureDecorated tx [decorated E kp h'] = Inr tx'"
    using assms(7) ParseFull_key(5) [OF assms(1,5)]
    by (auto simp: tx_Sign_def concatSignatures_def AddSignatureDecorated_def bind_result_eq_Inr decorated_def split: sum.splits)
  obtain kp' h where r: "ParseFull E secret = Inr kp'" "?hash (envelope tx) network = Inr h" "?hash (envelope tx') network = Inr h"
      "tx_Signatures tx' = [decorated E kp' h, decorated E kp h']"
      "ReadChallengeTx E ?hash M unmarshal t c (full_address kp') network webAuthDomain homeDomains = Inr (tx', client, homeDomain, memo)"
    by (rule read_back_signed [where unmarshal = unmarshal and c = c, OF assms(1-3) h'(2) assms(8-14)])
  have "kp' = server" "h' = h" using r(1,2) h'(1) assms(4) by simp_all
  then have h: "?hash (envelope tx') network = Inr h" "tx_Signatures tx' = [decorated E server h, decorated E kp h]"
      and read: "ReadChallengeTx E ?hash M unmarshal t c (full_address server) network webAuthDomain homeDomains = Inr (tx', client, homeDomain, memo)"
    using r(3-5) by simp_all
  note a = ParseFull_key(4) [OF assms(1,4)] ParseFull_key(4) [OF assms(1,5)]
  have "client_signers (full_address server) signers {} = [full_address kp]"
    using client_signers_single [of "full_address kp" "full_publicKey kp" "full_address server" signers "{}"] a(2) assms(6,15,16) by (simp add: ParseAddress_Inr)
  moreover have "verifyTxSignatures E ?hash tx' network [full_address server, full_address kp] = Inr [full_address server, full_address kp]"
    using a h find_signature_decorated [OF assms(1,4), of 0 "{}" h] find_signature_decorated [OF assms(1,5), of 1 "{0}" h "[]"] assms(6)
    by (simp add: verifyTxSignatures_def)
  ultimately show ?thesis using read a(1) h(2) assms(6) by (simp add: VerifyChallengeTxSigners_def verify_client_def Let_def)
qed

text \<open>
  C10: A client that signs such a challenge with its key is authenticated by it: it is the signer that the server finds, and nobody else.
\<close>

theorem challenge_authenticates:
  assumes "ed25519_ok E"
    and "BuildChallengeTx E (HashTransactionInEnvelope sha256 marshal) M (Some nonce) now secret client webAuthDomain homeDomain network timebound memo = Inr tx"
    and "length nonce = 48" and "ParseFull E secret = Inr server" "ParseFull E seed = Inr kp" "full_address kp \<noteq> full_address server"
    and "tx_Sign E (HashTransactionInEnvelope sha256 marshal) tx network [kp] = Inr tx'" and "unmarshal c = Some (envelope tx')"
    and "homeDomain \<in> set homeDomains" "homeDomain \<noteq> []"
    and "in_int64 (unix (now + timebound))" "unix now - gracePeriod \<le> t" "t \<le> unix (now + timebound)" "in_int64 (t + gracePeriod)"
    and "full_address kp \<in> set signers" "set signers \<subseteq> {full_address kp, full_address server}"
  shows "VerifyChallengeTxSigners E (HashTransactionInEnvelope sha256 marshal) M unmarshal t c (full_address server) network webAuthDomain homeDomains signers =
    Inr [full_address kp]"
  by (rule signed_challenge_verifies [where unmarshal = unmarshal and c = c, OF assms])

lemma sum_weights:
  fixes w :: "string \<Rightarrow> 32 word"
  assumes "distinct ss" "\<And>s. s \<in> set ss \<Longrightarrow> uint (w s) \<le> 255" "length ss \<le> 1000000"
  shows "sint (fold (\<lambda>s x. x + w s) ss 0) = (\<Sum>s\<in>set ss. uint (w s))"
proof -
  have "uint (fold (\<lambda>s x. x + w s) ss x) = uint x + (\<Sum>s\<leftarrow>ss. uint (w s)) \<and> uint x + (\<Sum>s\<leftarrow>ss. uint (w s)) < 2147483648"
    if "uint x + 255 * int (length ss) < 2147483648" for x using that assms(2)
  proof (induction ss arbitrary: x)
    case (Cons s ss)
    have le: "uint (w s) \<le> 255" using Cons.prems(2) by simp
    then have "uint (x + w s) = uint x + uint (w s)" using Cons.prems(1) uint_add_lem [of x "w s"] by simp
    moreover from this have "uint (x + w s) + 255 * int (length ss) < 2147483648" using Cons.prems(1) le by simp
    ultimately show ?case using Cons.IH [of "x + w s"] Cons.prems(2) by simp
  qed simp
  from this [of 0] have "uint (fold (\<lambda>s x. x + w s) ss 0) = (\<Sum>s\<leftarrow>ss. uint (w s))" "(\<Sum>s\<leftarrow>ss. uint (w s)) < 2147483648" using assms(3) by simp_all
  then show ?thesis using assms(1) sum_nonneg [of "set ss" "\<lambda>s. uint (w s)"] by (simp add: sint_uint signed_take_bit_int_eq_self sum_list_distinct_conv_sum_set)
qed

text \<open>
  C9: When a challenge meets the threshold, it is a valid challenge of the server, and its signatures correspond one to one to the server and the signers
  that are returned: each of them has a signature of its own that verifies under its key. The signers are different keys of the summary other than the server, at
  least one, and their weights add up to the threshold.
\<close>

theorem challenge_threshold_sound:
  assumes "VerifyChallengeTxThreshold E hash M unmarshal t c server network webAuthDomain homeDomains threshold signerSummary order = Inr found"
    and "set order = dom signerSummary" and "length order \<le> 1000000" and "\<And>s w. signerSummary s = Some w \<Longrightarrow> uint w \<le> 255"
  shows "\<exists>tx client domain memo h f. ReadChallengeTx E hash M unmarshal t c server network webAuthDomain homeDomains = Inr (tx, client, domain, memo) \<and>
    hash (envelope tx) network = Inr h \<and> bij_betw f (insert server (set found)) {..<length (tx_Signatures tx)} \<and>
    (\<forall>s\<in>insert server (set found). signed_at E h (tx_Signatures tx) s (f s)) \<and>
    distinct found \<and> found \<noteq> [] \<and> set found \<subseteq> dom signerSummary - {server} \<and>
    uint threshold \<le> (\<Sum>s\<in>set found. uint (the (signerSummary s)))"
proof -
  let ?w = "\<lambda>s. case signerSummary s of None \<Rightarrow> 0 | Some x \<Rightarrow> x"
  obtain tx client domain memo kp where r: "ReadChallengeTx E hash M unmarshal t c server network webAuthDomain homeDomains = Inr (tx, client, domain, memo)"
      "ParseAddress server = Inr kp" "verify_client E hash tx (fa_address kp) network order = Inr found"
      "\<not> sint (fold (\<lambda>s x. x + ?w s) found 0) < uint threshold"
    using assms(1) by (cases "ParseAddress server") (auto simp: VerifyChallengeTxThreshold_def VerifyChallengeTxSigners_def bind_result_eq_Inr Let_def split: if_splits sum.splits)
  have "fa_address kp = server" using r(2) by (simp add: ParseAddress_Inr)
  then obtain h f where f: "hash (envelope tx) network = Inr h" "bij_betw f (insert server (set found)) {..<length (tx_Signatures tx)}"
     "\<forall>s\<in>insert server (set found). signed_at E h (tx_Signatures tx) s (f s)" "distinct found" "found \<noteq> []" "set found \<subseteq> set order - {server}"
    using verify_client_sound [OF r(3)] by auto
  have "length found \<le> length order" 
    using distinct_card [OF f(4)] card_mono [of "set order" "set found"] card_length [of order] f(6) by (metis Diff_subset List.finite_set le_trans subset_trans)
  moreover have "uint (?w s) \<le> 255" if "s \<in> set found" for s using that assms(2,4) f(6) by (auto split: option.splits)
  ultimately have "sint (fold (\<lambda>s x. x + ?w s) found 0) = (\<Sum>s\<in>set found. uint (?w s))" using f(4) assms(3) by (intro sum_weights) simp_all
  moreover have "(\<Sum>s\<in>set found. uint (?w s)) = (\<Sum>s\<in>set found. uint (the (signerSummary s)))"
    using f(6) assms(2) by (intro sum.cong) (auto simp: dom_def)
  ultimately show ?thesis using r(1,4) f assms(2) by (intro exI conjI) (assumption | simp)+
qed

subsection \<open>A sample challenge\<close>

definition toy_keys :: ed25519 where
  "toy_keys = \<lparr>ed_public = (\<lambda>s. s), ed_sign = (\<lambda>s m. s @ s), ed_verify = (\<lambda>pk m sig. sig = pk @ pk)\<rparr>"

lemma toy_keys_ok: "ed25519_ok toy_keys"
  by (simp add: ed25519_ok_def toy_keys_def)

definition sample_server :: Full where
  "sample_server = \<lparr>full_address = ''GAEQSCIJBEEQSCIJBEEQSCIJBEEQSCIJBEEQSCIJBEEQSCIJBEEQSH7S'',
     full_seed = ''SAEQSCIJBEEQSCIJBEEQSCIJBEEQSCIJBEEQSCIJBEEQSCIJBEEQTDMN'', full_publicKey = replicate 32 9, full_rawSeed = replicate 32 9\<rparr>"

definition sample_client :: Full where
  "sample_client = \<lparr>full_address = sample_account,
     full_seed = ''SADQOBYHA4DQOBYHA4DQOBYHA4DQOBYHA4DQOBYHA4DQOBYHA4DQP54X'', full_publicKey = replicate 32 7, full_rawSeed = replicate 32 7\<rparr>"

lemma sample_server_address: "strkey_Encode VersionByteAccountID (replicate 32 9) = Inr ''GAEQSCIJBEEQSCIJBEEQSCIJBEEQSCIJBEEQSCIJBEEQSCIJBEEQSH7S''"
  by code_simp

lemma sample_server_seed: "strkey_Encode VersionByteSeed (replicate 32 9) = Inr ''SAEQSCIJBEEQSCIJBEEQSCIJBEEQSCIJBEEQSCIJBEEQSCIJBEEQTDMN''"
  by code_simp

lemma sample_client_seed: "strkey_Encode VersionByteSeed (replicate 32 7) = Inr ''SADQOBYHA4DQOBYHA4DQOBYHA4DQOBYHA4DQOBYHA4DQOBYHA4DQP54X''"
  by code_simp

lemma sample_encodings:
  "strkey_Encode VersionByteAccountID (replicate 32 9) = Inr (full_address sample_server)" "strkey_Encode VersionByteSeed (replicate 32 9) = Inr (full_seed sample_server)"
  "strkey_Encode VersionByteAccountID (replicate 32 7) = Inr (full_address sample_client)" "strkey_Encode VersionByteSeed (replicate 32 7) = Inr (full_seed sample_client)"
  using sample_server_address sample_server_seed sample_client_seed sample_account_encoded by (simp_all add: sample_server_def sample_client_def)

lemma sample_keys: "ParseFull toy_keys (full_seed sample_server) = Inr sample_server" "ParseFull toy_keys (full_seed sample_client) = Inr sample_client"
proof -
  have d: "strkey_Decode VersionByteSeed (full_seed sample_server) = Inr (replicate 32 9)" "strkey_Decode VersionByteSeed (full_seed sample_client) = Inr (replicate 32 7)"
    by (simp_all add: strkey_Decode_iff sample_encodings seed_payload_length)
  have e: "ed_public toy_keys s = s" for s by (simp add: toy_keys_def)
  show "ParseFull toy_keys (full_seed sample_server) = Inr sample_server" unfolding ParseFull_def d(1) e
    using sample_encodings(1) by (simp add: key_result_def) (simp add: sample_server_def)
  show "ParseFull toy_keys (full_seed sample_client) = Inr sample_client" unfolding ParseFull_def d(2) e
    using sample_encodings(3) by (simp add: key_result_def) (simp add: sample_client_def)
qed

definition sample_hash :: "unit hasher" where
  "sample_hash = HashTransactionInEnvelope (\<lambda>_. replicate 32 1) (\<lambda>_. Some [])"

definition sample_challenge :: "(unit, unit) build_Transaction" where
  "sample_challenge = (case BuildChallengeTx toy_keys sample_hash no_methods (Some (replicate 48 5)) 1000000000000 (full_seed sample_server) sample_account
     ''auth.example.org'' ''example.org'' ''Test Network'' 300000000000 None of Inr tx \<Rightarrow> tx)"

lemma sample_addresses:
  "muxed_SetAddress (full_address sample_server) = Inr (KeyTypeEd25519 (replicate 32 9))" "strkey_Decode VersionByteAccountID sample_account = Inr (replicate 32 7)"
  "full_address sample_server \<noteq> []" "full_address sample_client = sample_account" "full_address sample_client \<noteq> full_address sample_server"
  using sample_encodings(1) by (simp_all add: muxed_SetAddress_Inr strkey_Decode_iff all_payload_lengths sample_account_encoded)
    (simp_all add: sample_server_def sample_client_def sample_account_def)

lemma sample_tx_unsigned:
  "\<exists>v. build_transaction no_methods (challenge_params (full_address sample_server) sample_account ''auth.example.org'' ''example.org''
     (base64_EncodeToString (replicate 48 5)) 1000000000000 1300000000000 None) \<lparr>AccountID = full_address sample_server, Sequence = 0\<rparr> = Inr tx \<and> envelope tx = EnvelopeV1 v"
  if "tx = (case build_transaction no_methods (challenge_params (full_address sample_server) sample_account ''auth.example.org'' ''example.org''
     (base64_EncodeToString (replicate 48 5)) 1000000000000 1300000000000 None) \<lparr>AccountID = full_address sample_server, Sequence = 0\<rparr> of Inr tx \<Rightarrow> tx)" for tx
  using that base64_nonce_length [of "replicate 48 5"]
  by (simp add: build_transaction_def challenge_params_def sample_account_key sample_addresses unix_def
      time_preconditions_def NewTimebounds_def Preconditions_Validate_def TimeBounds_Validate_def LedgerBounds_Validate_def TimeoutInfinite_def
      Preconditions_BuildXDR_def hasV2Conditions_def xdr_ledger_bounds_def memo_xdr_def MemoTextMaxLength_def op_Validate_def op_BuildXDR_def op_Ext_def
      ManageData_Validate_def ManageData_BuildXDR_def SetOpSourceAccount_def sample_account_nonempty soroban_fee_def total_fee_def wrap_uint64_def MaxUint32_def
      MinBaseFee_def length_string_bytes Let_def)

lemma sample_passphrase: "validatePassphrase ''Test Network''"
  by code_simp

lemma sample_challenge_built:
  "BuildChallengeTx toy_keys sample_hash no_methods (Some (replicate 48 5)) 1000000000000 (full_seed sample_server) sample_account
     ''auth.example.org'' ''example.org'' ''Test Network'' 300000000000 None = Inr sample_challenge \<and> (\<exists>v. envelope sample_challenge = EnvelopeV1 v)"
proof -
  obtain tx v where tx: "build_transaction no_methods (challenge_params (full_address sample_server) sample_account ''auth.example.org'' ''example.org''
     (base64_EncodeToString (replicate 48 5)) 1000000000000 1300000000000 None) \<lparr>AccountID = full_address sample_server, Sequence = 0\<rparr> = Inr tx" "envelope tx = EnvelopeV1 v"
    using sample_tx_unsigned by blast
  then have "fst (NewTransaction no_methods (challenge_params (full_address sample_server) sample_account ''auth.example.org'' ''example.org''
     (base64_EncodeToString (replicate 48 5)) 1000000000000 1300000000000 None)) = Inr tx" by (simp add: NewTransaction_def challenge_params_def Let_def)
  then show ?thesis
    using keypair_Parse_seed [OF sample_keys(1)] base64_nonce_length [of "replicate 48 5"] tx(2)
    by (simp add: sample_challenge_def BuildChallengeTx_def check_client_def sample_addresses kp_Address_def tx_Sign_def concatSignatures_def sample_hash_def
        HashTransaction_def hashTx_def sample_passphrase SignDecorated_def kp_Sign_def clone_def)
qed

lemma sample_times: "in_int64 (unix (1000000000000 + 300000000000))" "unix 1000000000000 - gracePeriod \<le> 800" "800 \<le> unix (1000000000000 + 300000000000)"
    "in_int64 (800 + gracePeriod)"
  by (simp_all add: unix_def gracePeriod_def in_int64_def)

lemma sample_add_none: "AddSignatureDecorated sample_challenge [] = Inr sample_challenge"
  using sample_challenge_built by (auto simp: AddSignatureDecorated_def clone_def tx_Signatures_def)

lemma challenge_read_back_witness:
  "ReadChallengeTx toy_keys sample_hash no_methods (\<lambda>_. Some (envelope sample_challenge)) 800 [] (full_address sample_server) ''Test Network'' ''auth.example.org''
     [''other.org'', ''example.org''] = Inr (sample_challenge, sample_account, ''example.org'', None)"
  using challenge_read_back [OF toy_keys_ok sample_challenge_built [THEN conjunct1, unfolded sample_hash_def] _ sample_add_none _ _ _ sample_times,
      of "\<lambda>_. Some (envelope sample_challenge)" "[]" "[''other.org'', ''example.org'']"] sample_keys(1)
  by (auto simp: sample_hash_def)

lemma sample_signed:
  obtains tx where "tx_Sign toy_keys sample_hash sample_challenge ''Test Network'' [sample_client] = Inr tx"
  using sample_challenge_built
  by (auto simp: tx_Sign_def concatSignatures_def sample_hash_def HashTransaction_def hashTx_def sample_passphrase SignDecorated_def kp_Sign_def clone_def)

lemma challenge_authenticates_witness:
  "\<exists>tx. tx_Sign toy_keys sample_hash sample_challenge ''Test Network'' [sample_client] = Inr tx \<and>
     VerifyChallengeTxSigners toy_keys sample_hash no_methods (\<lambda>_. Some (envelope tx)) 800 [] (full_address sample_server) ''Test Network'' ''auth.example.org''
       [''example.org''] [sample_account, full_address sample_server, sample_account] = Inr [sample_account]"
proof -
  obtain tx where tx: "tx_Sign toy_keys sample_hash sample_challenge ''Test Network'' [sample_client] = Inr tx" by (rule sample_signed)
  then show ?thesis
    using challenge_authenticates [OF toy_keys_ok sample_challenge_built [THEN conjunct1, unfolded sample_hash_def] _ sample_keys sample_addresses(5)
        tx [unfolded sample_hash_def] _ _ _ sample_times, of "\<lambda>_. Some (envelope tx)" "[]" "[''example.org'']"
        "[sample_account, full_address sample_server, sample_account]"]
    by (auto simp: sample_hash_def sample_addresses(4))
qed

lemma challenge_threshold_sound_witness:
  "\<exists>(tx :: (unit, unit) build_Transaction) challenge client domain memo h f.
     VerifyChallengeTxThreshold toy_keys sample_hash no_methods (\<lambda>_. Some (envelope tx)) 800 [] (full_address sample_server) ''Test Network'' ''auth.example.org''
       [''example.org''] 2 [sample_account \<mapsto> 3] [sample_account] = Inr [sample_account] \<and>
     ReadChallengeTx toy_keys sample_hash no_methods (\<lambda>_. Some (envelope tx)) 800 [] (full_address sample_server) ''Test Network'' ''auth.example.org''
       [''example.org''] = Inr (challenge, client, domain, memo) \<and>
     signed_at toy_keys h (tx_Signatures challenge) sample_account (f sample_account) \<and> length (tx_Signatures challenge) = 2"
proof -
  obtain tx where tx: "tx_Sign toy_keys sample_hash sample_challenge ''Test Network'' [sample_client] = Inr tx" by (rule sample_signed)
  have "VerifyChallengeTxSigners toy_keys sample_hash no_methods (\<lambda>_. Some (envelope tx)) 800 [] (full_address sample_server) ''Test Network'' ''auth.example.org''
       [''example.org''] [sample_account] = Inr [sample_account]"
    using signed_challenge_verifies [OF toy_keys_ok sample_challenge_built [THEN conjunct1, unfolded sample_hash_def] _ sample_keys sample_addresses(5)
        tx [unfolded sample_hash_def] _ _ _ sample_times, of "\<lambda>_. Some (envelope tx)" "[]" "[''example.org'']" "[sample_account]"]
    by (auto simp: sample_hash_def sample_addresses(4))
  then have v: "VerifyChallengeTxThreshold toy_keys sample_hash no_methods (\<lambda>_. Some (envelope tx)) 800 [] (full_address sample_server) ''Test Network'' ''auth.example.org''
       [''example.org''] 2 [sample_account \<mapsto> 3] [sample_account] = Inr [sample_account]"
    by (simp add: VerifyChallengeTxThreshold_def)
  have weights: "(if s = sample_account then Some 3 else None) = Some w \<longleftrightarrow> s = sample_account \<and> w = 3" for s and w :: "32 word" by auto
  obtain challenge client domain memo h f where
    r: "ReadChallengeTx toy_keys sample_hash no_methods (\<lambda>_. Some (envelope tx)) 800 [] (full_address sample_server) ''Test Network'' ''auth.example.org''
       [''example.org''] = Inr (challenge, client, domain, memo)"
      "bij_betw f (insert (full_address sample_server) (set [sample_account])) {..<length (tx_Signatures challenge)}"
      "\<forall>s\<in>insert (full_address sample_server) (set [sample_account]). signed_at toy_keys h (tx_Signatures challenge) s (f s)"
    using challenge_threshold_sound [OF v] by (auto simp: weights)
  have "length (tx_Signatures challenge) = 2" using bij_betw_same_card [OF r(2)] sample_addresses(4,5) by simp
  then show ?thesis using v r(1,3) by (intro exI [of _ tx] exI [of _ challenge] exI [of _ client] exI [of _ domain] exI [of _ memo] exI [of _ h] exI [of _ f]) simp
qed

end
