(* ===== verification/Spec2Isabelle.thy ===== *)
theory Spec2Isabelle
  imports Toid Amount Price Strkey_Address Search_Direct Graph_Verify Ingest_Ledger Ledger_Transaction Archive_Scan Producer Sep10
begin

text \<open>
  A verification library for the Go Stellar SDK. It covers the encodings that identify accounts, assets, amounts, prices and history positions, the
  order book with its path finding, the ingestion of ledgers (metadata, changes, compaction, the data store and its concurrent buffer, the producer), history
  archives, and the building, signing and authentication of transactions. All paths below are relative to the repository.

  \<^bold>\<open>The program and the theories.\<close>

  \<^item> \<open>Go_Prelude\<close>: the result type (\<open>Inl\<close> an error or panic, \<open>Inr\<close> a value), Go's integer
    conversions (\<open>wrap_int64\<close> and the int64 and int32 ranges), and the collections of lemmas the
    components share. \<open>Go_Decimal\<close> models the parsing and printing of decimals that
    \<^verbatim>\<open>math/big\<close> does for the amount and price packages, \<open>Go_Binary\<close> big endian integers and XDR
    padding, \<open>Base32\<close> and \<open>Base64\<close> the codecs of \<^verbatim>\<open>encoding/base32\<close> without padding and \<^verbatim>\<open>encoding/base64\<close>.

  \<^item> \<open>Toid\<close>: \<^verbatim>\<open>toid/main.go\<close> and \<^verbatim>\<open>toid/synt_offer_id.go\<close>, on machine words. Packing and parsing of
    total order ids are inverse and monotone; ranges and cursors are exact.

  \<^item> \<open>Amount\<close>: \<^verbatim>\<open>amount/main.go\<close>. Formatting and parsing are inverse, and parsing accepts exactly the
    decimals that are whole stroops in range.

  \<^item> \<open>Price\<close>: \<^verbatim>\<open>price/main.go\<close> and \<^verbatim>\<open>xdr/price.go\<close>. The 128-bit fraction arithmetic is exact, the
    conversion of offer amounts is fair, the continued fraction search ends, stays in int32 and
    approximates within the bound of convergents.

  \<^item> \<open>Crc16\<close>, \<open>Strkey\<close>, \<open>Strkey_Address\<close>: \<^verbatim>\<open>strkey/internal/crc16/main.go\<close>, \<^verbatim>\<open>strkey/main.go\<close> and the muxed
    account, muxed contract and signed payload files beside it. The table-driven checksum equals
    polynomial division; every strkey has exactly one spelling; the address types round trip.

  \<^item> \<open>Xdr_Asset\<close>: \<^verbatim>\<open>xdr/asset.go\<close>, \<^verbatim>\<open>xdr/asset_code.go\<close>, \<^verbatim>\<open>xdr/account_id.go\<close> and part of
    \<^verbatim>\<open>xdr/trust_line_asset.go\<close>. The string of an asset identifies it (the order book relies on
    it), the order on assets is total, and the canonical list syntax round trips.

  \<^item> \<open>Pools\<close>: \<^verbatim>\<open>exp/orderbook/pools.go\<close> and \<^verbatim>\<open>utils.go\<close>. The uint256 package is a parameter: a record of its
    operations with the hypothesis \<open>uint256_spec\<close> that they compute modulo \<open>2 ^ 256\<close>. The payout
    of a pool is the floor and the expected deposit the least amount of the constant product rule.

  \<^item> \<open>Edges\<close>: \<^verbatim>\<open>exp/orderbook/edges.go\<close>. The locale \<open>edge_set\<close> states what the graph relies on (lookups
    after updates, invariant kept); it is interpreted on the code's own operations.

  \<^item> \<open>Graph\<close>: \<^verbatim>\<open>exp/orderbook/graph.go\<close> and \<^verbatim>\<open>batch.go\<close>. The state of the graph is the record
    \<open>OrderBookGraph\<close>; \<open>book_of\<close> maps it to an abstract book (offers by id, pools by pair of assets),
    and \<open>graph_step\<close> and \<open>reachable\<close> are the calls of the exported interface. Applying a batch refines
    the operations on the abstract book, and every reachable graph is consistent.

  \<^item> \<open>Consume\<close>, \<open>Search\<close>, \<open>Search_States\<close>, \<open>Find_Paths\<close>, \<open>Search_Direct\<close>: \<^verbatim>\<open>exp/orderbook/search.go\<close> and the
    path finding of \<^verbatim>\<open>graph.go\<close>. The interface \<^verbatim>\<open>searchState\<close> is a record of functions and the locale
    \<open>search_state\<close> its contract, interpreted on the two implementations of the code. Path nodes
    live in an explicit store, since the code relinks them in place. Paths that are returned are
    routes of the graph with exactly the amounts that trading along them gives, the walks over the
    nodes end, no request fails on the book of a ledger, and a path at least as good as a
    direct trade is found.

  \<^item> \<open>Graph_Verify\<close>: the consistency check \<^verbatim>\<open>Verify\<close> of \<^verbatim>\<open>graph.go\<close>. It accepts every reachable graph,
    and does not compare the pool entries of the two tables.

  \<^item> \<open>Xdr_Addresses\<close>, \<open>Xdr_ScVal\<close>: \<^verbatim>\<open>xdr/muxed_account.go\<close>, \<^verbatim>\<open>claimable_balance_id.go\<close>, \<^verbatim>\<open>signer_key.go\<close>, \<^verbatim>\<open>hash.go\<close> and
    the addresses and equality of \<^verbatim>\<open>scval.go\<close>. Each muxed account, signer and contract address
    has one string, and equality of nested contract values ends and decides equality.

  \<^item> \<open>Ledger_Key\<close>: \<^verbatim>\<open>xdr/ledger_key.go\<close>, the keys of \<^verbatim>\<open>ledger_entry.go\<close>, \<^verbatim>\<open>trust_line_asset.go\<close> and the compressed
    encoding of keys. Compressed keys identify the entry a key names.

  \<^item> \<open>Change_Compactor\<close>: \<^verbatim>\<open>ingest/change_compactor.go\<close>. The inductive \<open>ledger_run\<close> states which sequences of
    changes a ledger can produce from a database and what they do to the live entries; the
    compactor accepts all of them, and storing the compacted changes has the same effect.

  \<^item> \<open>Xdr_Envelope\<close>: \<^verbatim>\<open>xdr/transaction_envelope.go\<close>, \<^verbatim>\<open>transaction.go\<close>, \<^verbatim>\<open>transaction_result.go\<close>, \<^verbatim>\<open>preconditions.go\<close>, \<^verbatim>\<open>memo.go\<close> and
    \<^verbatim>\<open>network/main.go\<close>. The accessors of the three kinds of envelopes agree on one transaction, and its hash identifies what is signed.

  \<^item> \<open>Ledger_Meta\<close>, \<open>Change_Reader\<close>, \<open>Ingest_Ledger\<close>: \<^verbatim>\<open>xdr/ledger_close_meta.go\<close> and \<^verbatim>\<open>transaction_meta.go\<close>, and \<^verbatim>\<open>change.go\<close>,
    \<^verbatim>\<open>ledger_transaction_reader.go\<close> and \<^verbatim>\<open>ledger_change_reader.go\<close> of \<^verbatim>\<open>ingest\<close>. The locale \<open>change_reader\<close> states what the compacting reader
    relies on, interpreted on the change reader. Transactions are paired with their envelopes, and reading a
    ledger and storing what is read takes a database exactly from one ledger to the next.

  \<^item> \<open>Ledger_Transaction\<close>: the reports of \<^verbatim>\<open>ingest/ledger_transaction.go\<close> on one transaction, with two of its faults.

  \<^item> \<open>Checkpoints\<close>, \<open>History_Archive\<close>, \<open>Archive_Scan\<close>: \<^verbatim>\<open>historyarchive\<close> (ranges, archives, the search by close time, verification,
    the two scans). Checkpoint ranges are exact, the search by time finds the least ledger, a clean verification report
    means a chain of hashes, and both scans report the missing files.

  \<^item> \<open>Datastore_Schema\<close>: \<^verbatim>\<open>support/datastore/schema.go\<close>, \<^verbatim>\<open>ledger_iter.go\<close> and \<^verbatim>\<open>ledger_range.go\<close>. Object keys sort and parse back exactly, and
    the search for the latest file ends with it.

  \<^item> \<open>Go_Heap\<close>, \<open>Ledger_Buffer\<close>, \<open>Buffered_Backend\<close>, \<open>Producer\<close>: \<^verbatim>\<open>support/collections/heap\<close>, \<^verbatim>\<open>ledger_buffer.go\<close>, \<^verbatim>\<open>buffered_storage_backend.go\<close> and
    \<^verbatim>\<open>ledger_stream.go\<close> of \<^verbatim>\<open>ingest/ledgerbackend\<close>, and \<^verbatim>\<open>ingest/producer.go\<close>. The buffer is a step relation \<open>lb_step\<close> with one step for
    each action of a worker, of the retry logic, of the consumer and of a cancellation, in any interleaving. It delivers the files in order, its depth is bounded, and
    every run on a bounded range ends. The locale \<open>priority_queue\<close> is what it needs of the heap, and \<open>ledger_reader\<close> what streams and producer need of a
    backend; both are interpreted on the code's own definitions. The backend serves the range and the producer calls back for every ledger.

  \<^item> \<open>Keypair\<close>, \<open>Txn_Build\<close>, \<open>Sep10\<close>: \<^verbatim>\<open>keypair\<close> and \<^verbatim>\<open>txnbuild\<close> (\<^verbatim>\<open>transaction.go\<close>, preconditions, memos, accounts and the manage data operation). Built
    transactions are read back, fees are exact and never overflow, challenges authenticate exactly the clients that signed them.

  \<^item> This theory: ingesting a range of ledgers, from the objects of a data store to the entries of a database.

  \<^bold>\<open>Parameters.\<close> They stand for code outside the repository, for generated code or for the environment, with what is relied on as named
  hypotheses. The uint256 package (\<open>U\<close>, with \<open>uint256_spec\<close>); the context of a search (\<open>ctx n\<close>: whether the \<open>n\<close>-th poll
  finds it cancelled); \<^verbatim>\<open>sort.Sort\<close> (\<open>sortSort\<close>, with the locale \<open>sort_Sort\<close> for its contract, a
  sorted permutation for a strict weak order); SHA-256 (\<open>sha256\<close>, collision-free on the values in use where this matters); the generated XDR encoders (\<open>marshal\<close>,
  \<open>marshalTx\<close>, injective or prefix free on the values in use) and decoders (\<open>unmarshal\<close>); the storage of archives and data stores (\<open>objects\<close>, listings page by page)
  and the reading of a batch (\<open>read_batch\<close>); the signature scheme (\<open>ed25519\<close>, with \<open>ed25519_ok\<close>); the operations of a transaction other than manage data
  (\<open>op_methods\<close>, with \<open>reads_back\<close>); the clock and random nonces. Witnesses instantiate them with concrete functions: integers modulo \<open>2 ^ 256\<close>, a context that is never
  cancelled, insertion sort, a store with one file, a toy signature scheme.

  \<^bold>\<open>Bounds and fuel.\<close> Most loops are structural recursions over the lists the code ranges over. The walks
  along path nodes take the number of nodes as fuel and report \<open>EndlessWalk\<close> when it does not
  suffice; \<open>search_walks_end\<close> shows that this never happens. The continued fraction loop has a
  termination proof. The loops over readers, checkpoints, pages and ledgers are partial functions to options, for which the properties show that they
  return. Runs of the ledger buffer are bounded by \<open>run_weight\<close>. Integers wrap where the code's do.

  \<^bold>\<open>Not modelled.\<close> Locks (the calls they protect are sequential steps; the goroutines of the ledger buffer are modelled), logging, metrics, the texts of error messages, slice
  capacities, the generated XDR codecs and views, JSON and HTTP clients, captive core and the RPC backend (processes and network), the checkpoint change reader, the operations of the transaction builder
  other than manage data, and the token transfer processor.
\<close>

section \<open>Ingestion of a range of ledgers\<close>

text \<open>
  The composition that the packages are made for: a callback of \<^verbatim>\<open>ApplyLedgerMetadata\<close> that reads the changes of each ledger through the change reader and
  the compacting reader, and stores them.
\<close>

partial_function (option) drain :: "('s \<Rightarrow> ('s \<times> (read_error, 'c) result) option) \<Rightarrow> ('d \<Rightarrow> 'c \<Rightarrow> 'd) \<Rightarrow> 's \<Rightarrow> 'd \<Rightarrow> ('d \<times> read_error option) option" where
  "drain read store s d =
     (case read s of
        None \<Rightarrow> None
      | Some (s', res) \<Rightarrow>
          (case res of
             Inl e \<Rightarrow> Some (d, if e = EOF then None else Some e)
           | Inr c \<Rightarrow> drain read store s' (store d c)))"

datatype ingest_error = ReaderFailed new_reader_error | ReadFailed read_error

definition ingest_callback ::
    "(bytes \<Rightarrow> bytes) \<Rightarrow> ('x TransactionSignaturePayload \<Rightarrow> bytes option) \<Rightarrow> string \<Rightarrow> (LedgerKey \<Rightarrow> bytes) \<Rightarrow> bool \<Rightarrow>
     (LedgerKey \<rightharpoonup> 'r LedgerEntry, ('r, 'x) LedgerCloseMeta, ingest_error) callback" where
  "ingest_callback sha marshalTx passphrase marshal suppress db l =
     (case NewLedgerChangeReaderFromLedgerCloseMeta sha marshalTx passphrase l of
        Inl e \<Rightarrow> Some (db, Some (ReaderFailed e))
      | Inr r \<Rightarrow>
          map_option (\<lambda>(db, err). (db, map_option ReadFailed err))
            (drain (compacting_Read marshal (\<lambda>r. Some (change_Read marshal r))) store_change (NewCompactingChangeReader r suppress) db))"

lemma drain_reads: "reads read s cs \<Longrightarrow> drain read store s d = Some (foldl store d cs, None)"
  by (induction cs arbitrary: s d) (auto simp: drain.simps [of read])

text \<open>Metadata that takes the entries \<open>db\<close> to the entries \<open>db'\<close> of the next ledger.\<close>

definition closes ::
    "(bytes \<Rightarrow> bytes) \<Rightarrow> ('x TransactionSignaturePayload \<Rightarrow> bytes option) \<Rightarrow> string \<Rightarrow> (LedgerKey \<Rightarrow> bytes) \<Rightarrow> bool \<Rightarrow>
     ('r, 'x) LedgerCloseMeta \<Rightarrow> (LedgerKey \<rightharpoonup> 'r LedgerEntry) \<Rightarrow> (LedgerKey \<rightharpoonup> 'r LedgerEntry) \<Rightarrow> bool" where
  "closes sha marshalTx passphrase marshal suppress l db db' \<longleftrightarrow>
     (\<exists>r gs final K. NewLedgerChangeReaderFromLedgerCloseMeta sha marshalTx passphrase l = Inr r \<and> all_known sha marshalTx passphrase l \<and>
        ledger_groups l = Some gs \<and> (\<forall>g\<in>set gs. well_paired None g) \<and> keyed_db db \<and>
        ledger_run (new_ledger db) (concat (map raw_changes gs) :: ('r, 'x) tx_change list) final \<and> live final = db' \<and> inj_on marshal K \<and>
        (\<forall>c \<in> set (concat (map raw_changes gs) :: ('r, 'x) tx_change list). \<forall>k. change_key c = Some k \<longrightarrow> k \<in> K) \<and>
        (suppress \<longrightarrow> (\<forall>k \<in> restored_keys (concat (map raw_changes gs) :: ('r, 'x) tx_change list). db k = None)))"

lemma ingest_callback_closes:
  fixes l :: "('r, 'x) LedgerCloseMeta"
  assumes "closes sha marshalTx passphrase marshal suppress l db db'"
  shows "ingest_callback sha marshalTx passphrase marshal suppress db l = Some (db', None)"
proof -
  obtain r gs final K where c: "NewLedgerChangeReaderFromLedgerCloseMeta sha marshalTx passphrase l = Inr r" "all_known sha marshalTx passphrase l"
      "ledger_groups l = Some gs" "\<forall>g\<in>set gs. well_paired None g" "keyed_db db"
      "ledger_run (new_ledger db) (concat (map raw_changes gs) :: ('r, 'x) tx_change list) final" "live final = db'" "inj_on marshal K"
      "\<forall>c \<in> set (concat (map raw_changes gs) :: ('r, 'x) tx_change list). \<forall>k. change_key c = Some k \<longrightarrow> k \<in> K"
      "suppress \<longrightarrow> (\<forall>k \<in> restored_keys (concat (map raw_changes gs) :: ('r, 'x) tx_change list). db k = None)"
    using assms unfolding closes_def by (elim exE conjE) (rule that)
  obtain cs where "reads (compacting_Read marshal (\<lambda>r. Some (change_Read marshal r))) (NewCompactingChangeReader r suppress) cs" "foldl store_change db cs = db'"
    using ingest_reads [OF c(1-3) _ c(5,6,8), of suppress] c(4,7,9,10) by blast
  with c(1) show ?thesis by (simp add: ingest_callback_def drain_reads)
qed

lemma run_callback_closes:
  assumes "\<And>i. m \<le> i \<Longrightarrow> i < m + d \<Longrightarrow> callback (dbs i) (meta i) = Some (dbs (Suc i), None)"
  shows "run_callback callback (dbs m) (map meta [m..<m + d]) = Some (dbs (m + d), None)"
  using assms
proof (induction d arbitrary: m)
  case (Suc d)
  have "[m..<m + Suc d] = m # [Suc m..<Suc m + d]" by (simp add: upt_conv_Cons)
  then show ?case using Suc.prems [of m] Suc.IH [of "Suc m"] Suc.prems by (simp del: upt_Suc)
qed simp

text \<open>
  C7: Ingesting a range of ledgers from a data store is exact. When the store holds the metadata of the ledgers of a bounded range from ledger 2 on, the
  ledger buffer ran to its end, and the ledgers lead from one state of the entries to the next, then running the producer with
  the ingesting callback on the entries before the range ends without error and gives the entries after the range.
\<close>

theorem range_ingested:
  fixes read_batch :: "'p \<Rightarrow> ('e, 32 word \<times> 32 word \<times> 'l list) result" and meta :: "nat \<Rightarrow> ('r, 'x) LedgerCloseMeta"
  assumes "NewBufferedStorageBackend config schema = (Inr bsb :: ('e backend_error, ('p, 'l) BufferedStorageBackend) result)"
    and "schema_Validate schema = None" "range_fits schema r"
    and "lb_reachable objects (newLedgerBuffer config schema r) lb" "cancelled lb = None" "\<forall>lb'. \<not> lb_step objects lb lb'"
    and "new_buffer schema r = Inr \<lparr>bh_range = r, bh_latest = latest, bh_queue = map Inr (delivered lb)\<rparr>"
    and "holds_ledgers objects read_batch ledger schema r"
    and "2 \<le> rg_from r" "rg_from r < rg_to r" and "\<And>i. i \<le> unat (rg_to r) \<Longrightarrow> unmarshal (ledger i) = Inr (meta i)"
    and "\<And>i. unat (rg_from r) \<le> i \<Longrightarrow> i \<le> unat (rg_to r) \<Longrightarrow> closes sha marshalTx passphrase marshal suppress (meta i) (dbs i) (dbs (Suc i))"
  shows "ApplyLedgerMetadata (Inr ()) (Inr schema) new_buffer read_batch unmarshal config r
      (ingest_callback sha marshalTx passphrase marshal suppress) (dbs (unat (rg_from r))) = Some (Inr (), dbs (Suc (unat (rg_to r))))"
proof -
  have lt: "unat (rg_from r) < unat (rg_to r)" using assms(10) by (simp add: word_less_nat_alt)
  have "run_callback (ingest_callback sha marshalTx passphrase marshal suppress) (dbs (unat (rg_from r)))
      (map meta [unat (rg_from r)..<unat (rg_from r) + (Suc (unat (rg_to r)) - unat (rg_from r))]) = Some (dbs (unat (rg_from r) + (Suc (unat (rg_to r)) - unat (rg_from r))), None)"
    by (intro run_callback_closes ingest_callback_closes assms(12)) (use lt in auto)
  then show ?thesis
    using lt applied_range [where new_buffer = new_buffer and unmarshal = unmarshal and ledger = ledger, OF assms(1-11),
        of "ingest_callback sha marshalTx passphrase marshal suppress" "dbs (unat (rg_from r))"] by (simp add: apply_result_def del: upt_Suc)
qed

text \<open>The example: ledger 70 is that of the example for one ledger, ledger 71 is empty.\<close>

definition empty_lcm :: "(nat, unit) LedgerCloseMeta" where
  "empty_lcm = LcmV2
     \<lparr>l2_LedgerHeader = \<lparr>header_Hash = [9], Header = chain_header 23 60 [8] [] []\<rparr>, l2_Phases = [],
      l2_TxProcessing = [], l2_UpgradesProcessing = [], l2_EvictedKeys = []\<rparr>"

definition two_ledgers :: "nat \<Rightarrow> (nat, unit) LedgerCloseMeta" where
  "two_ledgers i = (if i = 70 then witness_lcm else empty_lcm)"

abbreviation entries_after :: "LedgerKey \<rightharpoonup> nat LedgerEntry" where
  "entries_after \<equiv> [LedgerKeyAccount (replicate 32 1) \<mapsto> witness_entry 1 5, LedgerKeyAccount (replicate 32 2) \<mapsto> witness_entry 2 9]"

lemma witness_closes: "closes (\<lambda>x. x) witness_payload ''net'' witness_marshal False witness_lcm witness_db entries_after"
proof -
  obtain l where l: "ledger_run (new_ledger witness_db) (concat (map raw_changes witness_groups) :: (nat, unit) tx_change list) l" "live l = entries_after"
    unfolding witness_raw_changes using witness_raw_run by blast
  let ?r = "\<lparr>tx_reader = witness_reader, reader_state = feeChangesState, pending = [], pendingIndex = 0, upgradeIndex = 0\<rparr>"
  have r: "NewLedgerChangeReaderFromLedgerCloseMeta (\<lambda>x. x) witness_payload ''net'' witness_lcm = Inr ?r"
    by (simp add: NewLedgerChangeReaderFromLedgerCloseMeta_def witness_tx_reader)
  have db: "keyed_db witness_db" by (auto simp: keyed_db_def keyed_def witness_db_def witness_entry_key)
  have keys: "k \<in> range LedgerKeyAccount" if "c \<in> set (concat (map raw_changes witness_groups) :: (nat, unit) tx_change list)" "change_key c = Some k" for c k
    using that unfolding witness_raw_changes by (auto simp: witness_raw_def change_key_entry change_entry_def witness_entry_key)
  show ?thesis unfolding closes_def
    by (intro exI [of _ ?r] exI [of _ witness_groups] exI [of _ l] exI [of _ "range LedgerKeyAccount"] conjI)
      (use r db l keys witness_known witness_lcm_groups witness_groups_paired witness_marshal_inj in blast)+
qed

lemma empty_closes: "closes (\<lambda>x. x) witness_payload ''net'' witness_marshal False empty_lcm entries_after entries_after"
proof -
  let ?t = "\<lparr>reader_lcm = empty_lcm, envelopesByHash = Map.empty, readIdx = 0\<rparr>"
  let ?r = "\<lparr>tx_reader = ?t, reader_state = feeChangesState, pending = [], pendingIndex = 0, upgradeIndex = 0\<rparr>"
  have r: "NewLedgerChangeReaderFromLedgerCloseMeta (\<lambda>x. x) witness_payload ''net'' empty_lcm = Inr ?r"
    by (simp add: NewLedgerChangeReaderFromLedgerCloseMeta_def NewLedgerTransactionReaderFromLedgerCloseMeta_def empty_lcm_def)
  have "all_known (\<lambda>x. x) witness_payload ''net'' empty_lcm" by (auto simp: all_known_def empty_lcm_def lcm_TransactionHash_def)
  moreover have "ledger_groups empty_lcm = Some []" by (simp add: ledger_groups_def empty_lcm_def)
  moreover have "keyed_db entries_after" by (auto simp: keyed_db_def keyed_def witness_entry_key)
  moreover have "ledger_run (new_ledger entries_after) ([] :: (nat, unit) tx_change list) (new_ledger entries_after)" by (rule run_none)
  ultimately show ?thesis unfolding closes_def using r
    by (intro exI [of _ ?r] exI [of _ "[]"] exI [of _ "new_ledger entries_after"] exI [of _ "{}"]) (simp add: new_ledger_def restored_keys_def)
qed

lemma range_ingested_witness:
  "ApplyLedgerMetadata (Inr ()) (Inr witness_schema) (\<lambda>_. demo_buffers) demo_batch (\<lambda>i. Inr (two_ledgers i)) demo_config (BoundedRange 70 71)
     (ingest_callback (\<lambda>x. x) witness_payload ''net'' witness_marshal False) witness_db = Some (Inr (), entries_after)"
proof -
  define dbs where "dbs i = (if i = 70 then witness_db else entries_after)" for i :: nat
  have r: "2 \<le> rg_from (BoundedRange 70 71)" "rg_from (BoundedRange 70 71) < rg_to (BoundedRange 70 71)" by (simp_all add: BoundedRange_def)
  have step: "closes (\<lambda>x. x) witness_payload ''net'' witness_marshal False (two_ledgers i) (dbs i) (dbs (Suc i))" if "70 \<le> i" "i \<le> 71" for i
    using that witness_closes empty_closes by (cases "i = 70") (simp_all add: two_ledgers_def dbs_def)
  show ?thesis
    using range_ingested [where new_buffer = "\<lambda>_. demo_buffers" and unmarshal = "\<lambda>i. Inr (two_ledgers i)" and meta = two_ledgers and dbs = dbs,
        OF demo_two demo_two_buffer(1) demo_holds r refl] step
    unfolding demo_two_range by (simp add: dbs_def)
qed

end
